(* ===== verification/MCAPI_Prelude.thy ===== *)
theory MCAPI_Prelude
  imports Main "HOL-Library.Word" "HOL-Library.Monad_Syntax"
begin

text \<open>
  Shared vocabulary of the development: C arrays as total functions, the bounded
  \<open>for\<close> loop that leaves its index where it broke, the failing assertion of the
  transport, \<open>memcpy\<close>, the view of a ring buffer as a list that starts at its head,
  and the word lemmas used for counters kept at their C width.
  A result \<open>None\<close> means that the call does not return a value: the process is
  terminated by a failed \<open>mcapi_assert\<close> / \<open>assert\<close> (the signal handler and
  \<open>exit(1)\<close>), or C leaves the behaviour undefined.
\<close>

unbundle bit_operations_syntax

named_theorems ring_simps \<open>rewriting of ring views under head moves and slot updates\<close>
named_theorems frame_simps \<open>which parts of the state an operation leaves alone\<close>
named_theorems queue_defs \<open>definitions of the receive queue operations\<close>

type_synonym byte = "8 word"
type_synonym u16 = "16 word"
type_synonym u32 = "32 word"
type_synonym u64 = "64 word"
type_synonym addr = nat
type_synonym 'a carray = "nat \<Rightarrow> 'a"

section \<open>Assertions, loops, memory copies\<close>

definition mcapi_assert :: "bool \<Rightarrow> unit option" where
  "mcapi_assert b = (if b then Some () else None)"

lemma mcapi_assert_True [simp]: "mcapi_assert True = Some ()"
  by (simp add: mcapi_assert_def)

lemma mcapi_assert_False [simp]: "mcapi_assert False = None"
  by (simp add: mcapi_assert_def)

lemma mcapi_assert_eq_Some [simp]: "mcapi_assert b = Some u \<longleftrightarrow> b"
  by (cases u) (simp add: mcapi_assert_def)

lemma bind_assert_Some [simp]:
  "Option.bind (mcapi_assert b) f = Some r \<longleftrightarrow> b \<and> f () = Some r"
  by (simp add: mcapi_assert_def)

text \<open>\<open>for (i = i0; i < n; i++) if (p(i)) break;\<close> leaves \<open>for_first p i0 n\<close> in \<open>i\<close>.\<close>

function for_first :: "(nat \<Rightarrow> bool) \<Rightarrow> nat \<Rightarrow> nat \<Rightarrow> nat" where
  "for_first p i n = (if i < n then (if p i then i else for_first p (Suc i) n) else i)"
  by pat_completeness auto
termination
  by (relation "measure (\<lambda>(p, i, n). n - i)") auto

declare for_first.simps [simp del]

lemma for_first_le: "i \<le> n \<Longrightarrow> for_first p i n \<le> n"
  by (induction p i n rule: for_first.induct) (subst for_first.simps, simp)

lemma for_first_ge: "i \<le> for_first p i n"
  by (induction p i n rule: for_first.induct)
    (subst for_first.simps, use Suc_leD in \<open>auto\<close>)

lemma for_first_hit: "for_first p i n < n \<Longrightarrow> p (for_first p i n)"
  by (induction p i n rule: for_first.induct)
    (metis for_first.simps)

lemma for_first_before: "i \<le> j \<Longrightarrow> j < for_first p i n \<Longrightarrow> \<not> p j"
proof (induction p i n rule: for_first.induct)
  case (1 p i n)
  show ?case
  proof (cases "i < n \<and> \<not> p i")
    case True
    then have eq: "for_first p i n = for_first p (Suc i) n"
      by (simp add: for_first.simps [of p i n])
    show ?thesis
    proof (cases "i = j")
      case False
      with "1.prems" True eq show ?thesis by (intro "1.IH") auto
    qed (use True in auto)
  next
    case False
    with "1.prems" show ?thesis by (auto simp: for_first.simps [of p i n] split: if_splits)
  qed
qed

lemma for_first_eqI:
  assumes "k < n" and "p k" and "\<And>j. j < k \<Longrightarrow> \<not> p j"
  shows "for_first p 0 n = k"
proof (rule antisym)
  show "for_first p 0 n \<le> k"
    using assms for_first_before [of 0 k p n] by (meson bot_nat_0.extremum not_le)
  show "k \<le> for_first p 0 n"
    using assms for_first_hit [of p 0 n] by (meson less_trans not_less)
qed

lemma for_first_none: "for_first p 0 n = n \<longleftrightarrow> (\<forall>j<n. \<not> p j)"
  by (metis for_first_before for_first_hit for_first_le le0 le_neq_implies_less)

lemma for_first_some: "for_first p 0 n < n \<longleftrightarrow> (\<exists>j<n. p j)"
  by (metis for_first_none for_first_le le0 le_neq_implies_less nat_neq_iff)

definition memcpy :: "'a carray \<Rightarrow> 'a carray \<Rightarrow> nat \<Rightarrow> 'a carray" where
  "memcpy dst src n = (\<lambda>i. if i < n then src i else dst i)"

definition bytes_of :: "'a carray \<Rightarrow> nat \<Rightarrow> 'a list" where
  "bytes_of a n = map a [0..<n]"

lemma bytes_of_memcpy [simp]: "m \<le> n \<Longrightarrow> bytes_of (memcpy dst src n) m = bytes_of src m"
  by (auto simp: bytes_of_def memcpy_def)

lemma length_bytes_of [simp]: "length (bytes_of a n) = n"
  by (simp add: bytes_of_def)

lemma take_bytes_of [simp]: "take m (bytes_of a n) = bytes_of a (min m n)"
  by (auto simp: bytes_of_def take_map min_def)

section \<open>Ring views\<close>

text \<open>
  A ring buffer of \<open>N\<close> slots stored in an array and starting at index \<open>h\<close>, read as a list.
  Advancing the head rotates the list; writing the \<open>i\<close>-th slot after the head updates it.
\<close>

definition ring_view :: "nat \<Rightarrow> nat \<Rightarrow> 'a carray \<Rightarrow> 'a list" where
  "ring_view N h a = map (\<lambda>i. a ((h + i) mod N)) [0..<N]"

lemma length_ring_view [simp]: "length (ring_view N h a) = N"
  by (simp add: ring_view_def)

lemma nth_ring_view [simp]: "i < N \<Longrightarrow> ring_view N h a ! i = a ((h + i) mod N)"
  by (simp add: ring_view_def)

lemma mod_add_inj:
  fixes h i j N :: nat
  assumes "i < N" and "j < N" and "(h + i) mod N = (h + j) mod N"
  shows "i = j"
proof -
  have "(h + i) mod N = (h + j) mod N \<longleftrightarrow> i mod N = j mod N"
    by (simp add: nat_mod_eq_iff)
  with assms show ?thesis by simp
qed

lemma ring_view_update [ring_simps]:
  assumes "i < N"
  shows "ring_view N h (a((h + i) mod N := v)) = (ring_view N h a)[i := v]"
proof (rule nth_equalityI)
  fix j assume "j < length (ring_view N h (a((h + i) mod N := v)))"
  then show "ring_view N h (a((h + i) mod N := v)) ! j = (ring_view N h a)[i := v] ! j"
    using assms mod_add_inj [of i N j h] by (auto simp: nth_list_update)
qed simp

lemma ring_view_rotate [ring_simps]:
  assumes "0 < N"
  shows "ring_view N ((h + 1) mod N) a = tl (ring_view N h a) @ [hd (ring_view N h a)]"
proof (rule nth_equalityI)
  fix j assume j: "j < length (ring_view N ((h + 1) mod N) a)"
  have "ring_view N ((h + 1) mod N) a ! j = a ((h + Suc j) mod N)"
    using j by (simp add: mod_add_left_eq)
  moreover have "(tl (ring_view N h a) @ [hd (ring_view N h a)]) ! j = a ((h + Suc j) mod N)"
  proof (cases "Suc j < N")
    case True
    then have "j < N - 1" by simp
    with True show ?thesis by (simp add: nth_append nth_tl)
  next
    case False
    with j have "N = Suc j" by simp
    then have "ring_view N h a \<noteq> []" by (metis assms length_0_conv length_ring_view less_numeral_extra(3))
    with \<open>N = Suc j\<close> show ?thesis
      by (simp add: nth_append hd_conv_nth) (metis add_Suc_right mod_add_self2)
  qed
  ultimately show "ring_view N ((h + 1) mod N) a ! j
      = (tl (ring_view N h a) @ [hd (ring_view N h a)]) ! j" by simp
qed (use assms in simp)

text \<open>The distance from \<open>h\<close> to \<open>t\<close> going up around a ring of \<open>N\<close> slots.\<close>

definition ring_dist :: "nat \<Rightarrow> nat \<Rightarrow> nat \<Rightarrow> nat" where
  "ring_dist N h t = (t + N - h) mod N"

lemma ring_dist_less: "0 < N \<Longrightarrow> ring_dist N h t < N"
  by (simp add: ring_dist_def)

lemma ring_dist_cases:
  "h < N \<Longrightarrow> t < N \<Longrightarrow> ring_dist N h t = (if h \<le> t then t - h else t + N - h)"
  by (auto simp: ring_dist_def le_mod_geq)

lemma ring_dist_zero: "h < N \<Longrightarrow> t < N \<Longrightarrow> ring_dist N h t = 0 \<longleftrightarrow> h = t"
  by (auto simp: ring_dist_cases)

lemma ring_dist_add: "h < N \<Longrightarrow> t < N \<Longrightarrow> (h + ring_dist N h t) mod N = t"
  by (auto simp: ring_dist_cases)

lemma ring_dist_unique: "h < N \<Longrightarrow> t < N \<Longrightarrow> i < N \<Longrightarrow> (h + i) mod N = t \<longleftrightarrow> i = ring_dist N h t"
  by (metis mod_add_inj ring_dist_add ring_dist_less bot_nat_0.not_eq_extremum not_less_zero)

lemma ring_dist_head:
  "h < N \<Longrightarrow> t < N \<Longrightarrow> h \<noteq> t \<Longrightarrow> ring_dist N ((h + 1) mod N) t = ring_dist N h t - 1"
  by (cases "Suc h = N") (auto simp: ring_dist_cases)

lemma ring_dist_tail:
  "h < N \<Longrightarrow> t < N \<Longrightarrow> (t + 1) mod N \<noteq> h \<Longrightarrow> ring_dist N h ((t + 1) mod N) = ring_dist N h t + 1"
  by (cases "Suc t = N") (auto simp: ring_dist_cases)

lemma ring_dist_full:
  "h < N \<Longrightarrow> t < N \<Longrightarrow> (t + 1) mod N = h \<longleftrightarrow> ring_dist N h t = N - 1"
  by (cases "Suc t = N") (auto simp: ring_dist_cases)

section \<open>Counters kept at their width\<close>

lemma unat_inc: "unat (x :: 'a::len word) + 1 < 2 ^ LENGTH('a) \<Longrightarrow> unat (x + 1) = unat x + 1"
  by (simp add: unat_word_ariths)

lemma unat_dec: "0 < unat (x :: 'a::len word) \<Longrightarrow> unat (x - 1) = unat x - 1"
  by (metis unat_minus_one unat_0 less_numeral_extra(3))

end
