(* ===== verification/MCAPI_Types.thy ===== *)
theory MCAPI_Types
  imports MCAPI_Prelude
begin

text \<open>
  The data of the reference implementation of MCAPI: the configured limits
  (\<open>mca_config.h\<close>), the status codes (\<open>mcapi.h\<close>) and the shared memory database
  (\<open>transport_sm.h\<close>), one record per struct and one datatype per enum.
  C arrays are total functions from the index; where the code can leave the declared bounds
  the definition that does it says what happens. \<open>size_t\<close> values are natural numbers,
  counters that the code increments and decrements keep their C width, handles are
  32-bit words. Pointers of the application are symbolic: a byte buffer of the
  application, the payload of a transport buffer, or \<open>NULL\<close>.
\<close>

section \<open>Configuration\<close>

definition MCA_MAX_DOMAINS :: nat where "MCA_MAX_DOMAINS = 2"
definition MCA_MAX_NODES :: nat where "MCA_MAX_NODES = 16"
definition MCAPI_MAX_ENDPOINTS :: nat where "MCAPI_MAX_ENDPOINTS = 96"
definition MCAPI_MAX_BUFFERS :: nat where "MCAPI_MAX_BUFFERS = 1284"
definition MCAPI_MAX_REQUESTS :: nat where "MCAPI_MAX_REQUESTS = 1024"
definition MCAPI_MAX_QUEUE_ELEMENTS :: nat where "MCAPI_MAX_QUEUE_ELEMENTS = 64"
definition MCAPI_MAX_QUEUE_ENTRIES :: nat where
  "MCAPI_MAX_QUEUE_ENTRIES = MCAPI_MAX_QUEUE_ELEMENTS + 1"
definition MCAPI_MAX_MSG_SIZE :: nat where "MCAPI_MAX_MSG_SIZE = 1024"
definition MCAPI_MAX_PKT_SIZE :: nat where "MCAPI_MAX_PKT_SIZE = 1024"
definition MCAPI_MAX_PRIORITY :: nat where "MCAPI_MAX_PRIORITY = 10"
definition MCAPI_MAX_STATUS_SIZE :: nat where "MCAPI_MAX_STATUS_SIZE = 32"
definition MAGIC_NUM :: u32 where "MAGIC_NUM = 0xdeadcafe"
definition MCAPI_VALID_MASK :: u32 where "MCAPI_VALID_MASK = 0x80000000"
definition MCAPI_PORT_ANY :: u32 where "MCAPI_PORT_ANY = NOT 0"
definition MCA_INFINITE :: u32 where "MCA_INFINITE = NOT 0"
definition MCA_RETURN_VALUE_INVALID :: u32 where "MCA_RETURN_VALUE_INVALID = NOT 0"
definition MCAPI_NODE_INVALID :: u32 where "MCAPI_NODE_INVALID = NOT 0"
definition MCAPI_DOMAIN_INVALID :: u32 where "MCAPI_DOMAIN_INVALID = NOT 0"
definition MCAPI_NODE_ATTR_TYPE_REGULAR :: nat where "MCAPI_NODE_ATTR_TYPE_REGULAR = 0"
definition MCAPI_ENDP_ATTR_NUM_RECV_BUFFERS :: nat where "MCAPI_ENDP_ATTR_NUM_RECV_BUFFERS = 9"
definition sizeof_mcapi_node_attr_type_t :: nat where "sizeof_mcapi_node_attr_type_t = 4"

lemmas mcapi_limits =
  MCA_MAX_DOMAINS_def MCA_MAX_NODES_def MCAPI_MAX_ENDPOINTS_def MCAPI_MAX_BUFFERS_def
  MCAPI_MAX_REQUESTS_def MCAPI_MAX_QUEUE_ENTRIES_def MCAPI_MAX_QUEUE_ELEMENTS_def

lemma queue_entries_pos [simp]: "0 < MCAPI_MAX_QUEUE_ENTRIES" "MCAPI_MAX_QUEUE_ENTRIES \<noteq> 0"
  by (simp_all add: mcapi_limits)

lemma queue_entries_gt1 [simp]: "Suc 0 < MCAPI_MAX_QUEUE_ENTRIES"
  by (simp add: mcapi_limits)

lemma queue_entries_bound: "MCAPI_MAX_QUEUE_ENTRIES < 2 ^ 16"
  by (simp add: mcapi_limits)

lemma MAGIC_NUM_nonzero [simp]: "MAGIC_NUM \<noteq> 0"
  by (simp add: MAGIC_NUM_def)

section \<open>Status codes, request types, channel types\<close>

text \<open>
  \<open>MCAPI_STATUS_ZERO\<close> is the number 0, which the enumeration does not use and which
  \<open>memset\<close> leaves in a cleared request.
\<close>

datatype mcapi_status =
    MCAPI_STATUS_ZERO
  | MCAPI_SUCCESS | MCAPI_PENDING | MCAPI_TIMEOUT | MCAPI_ERR_PARAMETER
  | MCAPI_ERR_DOMAIN_INVALID | MCAPI_ERR_NODE_INVALID | MCAPI_ERR_NODE_INITFAILED
  | MCAPI_ERR_NODE_INITIALIZED | MCAPI_ERR_NODE_NOTINIT | MCAPI_ERR_NODE_FINALFAILED
  | MCAPI_ERR_PORT_INVALID | MCAPI_ERR_ENDP_INVALID | MCAPI_ERR_ENDP_EXISTS
  | MCAPI_ERR_ENDP_GET_LIMIT | MCAPI_ERR_ENDP_DELETED | MCAPI_ERR_ENDP_NOTOWNER
  | MCAPI_ERR_ENDP_REMOTE | MCAPI_ERR_ENDP_NOPORTS | MCAPI_ERR_ENDP_LIMIT
  | MCAPI_ERR_ATTR_INCOMPATIBLE | MCAPI_ERR_ATTR_SIZE | MCAPI_ERR_ATTR_NUM
  | MCAPI_ERR_ATTR_VALUE | MCAPI_ERR_ATTR_NOTSUPPORTED | MCAPI_ERR_ATTR_READONLY
  | MCAPI_ERR_MSG_LIMIT | MCAPI_ERR_MSG_TRUNCATED | MCAPI_ERR_CHAN_OPEN
  | MCAPI_ERR_CHAN_TYPE | MCAPI_ERR_CHAN_DIRECTION | MCAPI_ERR_CHAN_CONNECTED
  | MCAPI_ERR_CHAN_OPENPENDING | MCAPI_ERR_CHAN_NOTOPEN | MCAPI_ERR_CHAN_INVALID
  | MCAPI_ERR_PKT_LIMIT | MCAPI_ERR_SCL_SIZE | MCAPI_ERR_TRANSMISSION
  | MCAPI_ERR_PRIORITY | MCAPI_ERR_BUF_INVALID | MCAPI_ERR_MEM_LIMIT
  | MCAPI_ERR_REQUEST_INVALID | MCAPI_ERR_REQUEST_LIMIT | MCAPI_ERR_REQUEST_CANCELLED
  | MCAPI_ERR_WAIT_PENDING | MCAPI_ERR_GENERAL | MCAPI_STATUSCODE_END

datatype mcapi_request_type =
    OTHER | CONN_PKTCHAN | CONN_SCLCHAN | OPEN_PKTCHAN | OPEN_SCLCHAN
  | CLOSE_PKTCHAN | CLOSE_SCLCHAN | SEND | RECV | GET_ENDPT

datatype channel_type = MCAPI_NO_CHAN | MCAPI_PKT_CHAN | MCAPI_SCL_CHAN

datatype ptr = NULL | UserBuf addr | McapiBuf nat

section \<open>The database\<close>

record buffer_entry =
  magic_num :: u32
  bsize :: nat
  scalar :: u64
  buff :: "byte carray"

record mcapi_request_data =
  rvalid :: bool
  rsize :: nat
  rtype :: mcapi_request_type
  rbuffer :: ptr
  rbuffer_ptr :: addr
  ep_node_num :: u32
  ep_port_num :: u32
  ep_domain_num :: u32
  completed :: bool
  cancelled :: bool
  rhandle :: u32
  rstatus :: mcapi_status
  ep_endpoint :: addr

record indexed_array_node =
  next_index :: int
  prev_index :: int

record indexed_array_header =
  array :: "indexed_array_node carray"
  curr_count :: int
  max_count :: int
  empty_head_index :: int
  full_head_index :: int

record buffer_descriptor =
  request :: u32
  buff_index :: u32
  invalid :: bool

record queue =
  send_endpt :: u32
  recv_endpt :: u32
  chan_type :: channel_type
  num_elements :: u32
  head :: nat
  tail :: nat
  elements :: "buffer_descriptor carray"

record attribute_entry =
  attr_valid :: bool
  attribute_num :: u16
  attr_bytes :: nat
  attribute_d :: u32

record endpoint_entry =
  port_num :: u32
  ep_valid :: bool
  anonymous :: bool
  ep_open :: bool
  connected :: bool
  num_attributes :: u32
  ep_attributes :: "attribute_entry carray"
  recv_queue :: queue

record node_descriptor =
  num_endpoints :: u16
  endpoints :: "endpoint_entry carray"

record node_entry =
  node_num :: u32
  node_valid :: bool
  node_attributes :: "attribute_entry carray"
  node_d :: node_descriptor
  pid :: int
  tid :: int

record domain_entry =
  num_nodes :: u16
  domain_id :: u32
  domain_valid :: bool
  nodes :: "node_entry carray"

record mcapi_database =
  domains :: "domain_entry carray"
  buffers :: "buffer_entry carray"
  requests :: "mcapi_request_data carray"
  request_reserves :: "indexed_array_node carray"
  request_reserves_header :: indexed_array_header

text \<open>
  The database together with the application's memory the transport reads and writes:
  byte buffers, variables that hold a buffer pointer (\<open>void*\<close> cells that a
  \<open>void**\<close> argument points to) and variables that hold an endpoint handle.
\<close>

record mcapi_state = mcapi_database +
  user_bytes :: "addr \<Rightarrow> byte carray"
  user_ptrs :: "addr \<Rightarrow> ptr"
  user_endpts :: "addr \<Rightarrow> u32"

section \<open>Cleared entries (\<open>memset\<close> to 0)\<close>

definition zero_buffer :: buffer_entry where
  "zero_buffer = \<lparr>magic_num = 0, bsize = 0, scalar = 0, buff = (\<lambda>_. 0)\<rparr>"

definition zero_request :: mcapi_request_data where
  "zero_request = \<lparr>rvalid = False, rsize = 0, rtype = OTHER, rbuffer = NULL, rbuffer_ptr = 0,
     ep_node_num = 0, ep_port_num = 0, ep_domain_num = 0, completed = False, cancelled = False,
     rhandle = 0, rstatus = MCAPI_STATUS_ZERO, ep_endpoint = 0\<rparr>"

definition zero_descriptor :: buffer_descriptor where
  "zero_descriptor = \<lparr>request = 0, buff_index = 0, invalid = False\<rparr>"

definition zero_queue :: queue where
  "zero_queue = \<lparr>send_endpt = 0, recv_endpt = 0, chan_type = MCAPI_NO_CHAN, num_elements = 0,
     head = 0, tail = 0, elements = (\<lambda>_. zero_descriptor)\<rparr>"

definition zero_attribute :: attribute_entry where
  "zero_attribute = \<lparr>attr_valid = False, attribute_num = 0, attr_bytes = 0, attribute_d = 0\<rparr>"

definition zero_endpoint :: endpoint_entry where
  "zero_endpoint = \<lparr>port_num = 0, ep_valid = False, anonymous = False, ep_open = False,
     connected = False, num_attributes = 0, ep_attributes = (\<lambda>_. zero_attribute),
     recv_queue = zero_queue\<rparr>"

text \<open>New shared memory is zero.\<close>

definition zero_state :: mcapi_state where
  "zero_state = \<lparr>domains = (\<lambda>_. \<lparr>num_nodes = 0, domain_id = 0, domain_valid = False, nodes = (\<lambda>_.
       \<lparr>node_num = 0, node_valid = False, node_attributes = (\<lambda>_. zero_attribute),
        node_d = \<lparr>num_endpoints = 0, endpoints = (\<lambda>_. zero_endpoint)\<rparr>, pid = 0, tid = 0\<rparr>)\<rparr>),
     buffers = (\<lambda>_. zero_buffer), requests = (\<lambda>_. zero_request),
     request_reserves = (\<lambda>_. \<lparr>next_index = 0, prev_index = 0\<rparr>),
     request_reserves_header = \<lparr>array = (\<lambda>_. \<lparr>next_index = 0, prev_index = 0\<rparr>), curr_count = 0, max_count = 0,
       empty_head_index = 0, full_head_index = 0\<rparr>,
     user_bytes = (\<lambda>_ _. 0), user_ptrs = (\<lambda>_. NULL), user_endpts = (\<lambda>_. 0)\<rparr>"

lemma zero_buffer_sel [simp]:
  "magic_num zero_buffer = 0" "bsize zero_buffer = 0" "scalar zero_buffer = 0"
  "buff zero_buffer = (\<lambda>_. 0)"
  by (simp_all add: zero_buffer_def)

lemma zero_request_sel [simp]:
  "rvalid zero_request = False" "completed zero_request = False" "cancelled zero_request = False"
  "rstatus zero_request = MCAPI_STATUS_ZERO" "rtype zero_request = OTHER"
  by (simp_all add: zero_request_def)

lemma zero_descriptor_sel [simp]:
  "request zero_descriptor = 0" "buff_index zero_descriptor = 0" "invalid zero_descriptor = False"
  by (simp_all add: zero_descriptor_def)

lemma zero_queue_sel [simp]:
  "chan_type zero_queue = MCAPI_NO_CHAN" "num_elements zero_queue = 0" "head zero_queue = 0"
  "tail zero_queue = 0" "elements zero_queue = (\<lambda>_. zero_descriptor)"
  by (simp_all add: zero_queue_def)

lemma zero_endpoint_sel [simp]:
  "ep_valid zero_endpoint = False" "ep_open zero_endpoint = False" "connected zero_endpoint = False"
  "recv_queue zero_endpoint = zero_queue" "port_num zero_endpoint = 0"
  by (simp_all add: zero_endpoint_def)

section \<open>Paths into the database\<close>

text \<open>\<open>mcapi_db->domains[d].nodes[n].node_d.endpoints[e]\<close>, read and updated.\<close>

definition node_at :: "mcapi_state \<Rightarrow> nat \<Rightarrow> nat \<Rightarrow> node_entry" where
  "node_at st d n = nodes (domains st d) n"

definition upd_node :: "nat \<Rightarrow> nat \<Rightarrow> (node_entry \<Rightarrow> node_entry) \<Rightarrow> mcapi_state \<Rightarrow> mcapi_state" where
  "upd_node d n f st =
     st\<lparr>domains := (domains st)(d := (domains st d)\<lparr>nodes :=
       (nodes (domains st d))(n := f (node_at st d n))\<rparr>)\<rparr>"

definition endpoint_at :: "mcapi_state \<Rightarrow> nat \<Rightarrow> nat \<Rightarrow> nat \<Rightarrow> endpoint_entry" where
  "endpoint_at st d n e = endpoints (node_d (node_at st d n)) e"

definition upd_endpoint ::
  "nat \<Rightarrow> nat \<Rightarrow> nat \<Rightarrow> (endpoint_entry \<Rightarrow> endpoint_entry) \<Rightarrow> mcapi_state \<Rightarrow> mcapi_state" where
  "upd_endpoint d n e f st =
     upd_node d n (\<lambda>nd. nd\<lparr>node_d := (node_d nd)\<lparr>endpoints :=
       (endpoints (node_d nd))(e := f (endpoint_at st d n e))\<rparr>\<rparr>) st"

definition queue_at :: "mcapi_state \<Rightarrow> nat \<Rightarrow> nat \<Rightarrow> nat \<Rightarrow> queue" where
  "queue_at st d n e = recv_queue (endpoint_at st d n e)"

definition set_queue :: "nat \<Rightarrow> nat \<Rightarrow> nat \<Rightarrow> queue \<Rightarrow> mcapi_state \<Rightarrow> mcapi_state" where
  "set_queue d n e q st = upd_endpoint d n e (\<lambda>ep. ep\<lparr>recv_queue := q\<rparr>) st"

definition upd_request ::
  "nat \<Rightarrow> (mcapi_request_data \<Rightarrow> mcapi_request_data) \<Rightarrow> mcapi_state \<Rightarrow> mcapi_state" where
  "upd_request r f st = st\<lparr>requests := (requests st)(r := f (requests st r))\<rparr>"

definition upd_buffer ::
  "nat \<Rightarrow> (buffer_entry \<Rightarrow> buffer_entry) \<Rightarrow> mcapi_state \<Rightarrow> mcapi_state" where
  "upd_buffer i f st = st\<lparr>buffers := (buffers st)(i := f (buffers st i))\<rparr>"

lemma upd_node_sel [frame_simps]:
  "buffers (upd_node d n f st) = buffers st"
  "requests (upd_node d n f st) = requests st"
  "request_reserves (upd_node d n f st) = request_reserves st"
  "request_reserves_header (upd_node d n f st) = request_reserves_header st"
  "user_bytes (upd_node d n f st) = user_bytes st"
  "user_ptrs (upd_node d n f st) = user_ptrs st"
  "user_endpts (upd_node d n f st) = user_endpts st"
  "domain_valid (domains (upd_node d n f st) d') = domain_valid (domains st d')"
  "domain_id (domains (upd_node d n f st) d') = domain_id (domains st d')"
  "num_nodes (domains (upd_node d n f st) d') = num_nodes (domains st d')"
  "node_at (upd_node d n f st) d' n' =
     (if d' = d \<and> n' = n then f (node_at st d n) else node_at st d' n')"
  by (simp_all add: upd_node_def node_at_def)

lemma upd_endpoint_sel [frame_simps]:
  "buffers (upd_endpoint d n e f st) = buffers st"
  "requests (upd_endpoint d n e f st) = requests st"
  "request_reserves (upd_endpoint d n e f st) = request_reserves st"
  "request_reserves_header (upd_endpoint d n e f st) = request_reserves_header st"
  "user_bytes (upd_endpoint d n e f st) = user_bytes st"
  "user_ptrs (upd_endpoint d n e f st) = user_ptrs st"
  "user_endpts (upd_endpoint d n e f st) = user_endpts st"
  "domain_valid (domains (upd_endpoint d n e f st) d') = domain_valid (domains st d')"
  "domain_id (domains (upd_endpoint d n e f st) d') = domain_id (domains st d')"
  "node_num (node_at (upd_endpoint d n e f st) d' n') = node_num (node_at st d' n')"
  "node_valid (node_at (upd_endpoint d n e f st) d' n') = node_valid (node_at st d' n')"
  "num_endpoints (node_d (node_at (upd_endpoint d n e f st) d' n'))
     = num_endpoints (node_d (node_at st d' n'))"
  "endpoint_at (upd_endpoint d n e f st) d' n' e' =
     (if d' = d \<and> n' = n \<and> e' = e then f (endpoint_at st d n e) else endpoint_at st d' n' e')"
  by (simp_all add: upd_endpoint_def endpoint_at_def upd_node_sel)

lemma queue_at_upd_endpoint [frame_simps]:
  "queue_at (upd_endpoint d n e f st) d' n' e' =
     (if d' = d \<and> n' = n \<and> e' = e then recv_queue (f (endpoint_at st d n e)) else queue_at st d' n' e')"
  by (simp add: queue_at_def upd_endpoint_sel)

lemma set_queue_sel [frame_simps]:
  "buffers (set_queue d n e q st) = buffers st"
  "requests (set_queue d n e q st) = requests st"
  "request_reserves (set_queue d n e q st) = request_reserves st"
  "request_reserves_header (set_queue d n e q st) = request_reserves_header st"
  "user_bytes (set_queue d n e q st) = user_bytes st"
  "user_ptrs (set_queue d n e q st) = user_ptrs st"
  "user_endpts (set_queue d n e q st) = user_endpts st"
  "queue_at (set_queue d n e q st) d' n' e' =
     (if d' = d \<and> n' = n \<and> e' = e then q else queue_at st d' n' e')"
  by (simp_all add: set_queue_def frame_simps)

lemma set_queue_endpoint [frame_simps]:
  "ep_valid (endpoint_at (set_queue d n e q st) d' n' e') = ep_valid (endpoint_at st d' n' e')"
  "ep_open (endpoint_at (set_queue d n e q st) d' n' e') = ep_open (endpoint_at st d' n' e')"
  "connected (endpoint_at (set_queue d n e q st) d' n' e') = connected (endpoint_at st d' n' e')"
  "port_num (endpoint_at (set_queue d n e q st) d' n' e') = port_num (endpoint_at st d' n' e')"
  by (simp_all add: set_queue_def frame_simps)

lemma upd_request_sel [frame_simps]:
  "domains (upd_request r f st) = domains st"
  "buffers (upd_request r f st) = buffers st"
  "request_reserves (upd_request r f st) = request_reserves st"
  "request_reserves_header (upd_request r f st) = request_reserves_header st"
  "user_bytes (upd_request r f st) = user_bytes st"
  "user_ptrs (upd_request r f st) = user_ptrs st"
  "user_endpts (upd_request r f st) = user_endpts st"
  "requests (upd_request r f st) r' = (if r' = r then f (requests st r) else requests st r')"
  "endpoint_at (upd_request r f st) = endpoint_at st"
  "node_at (upd_request r f st) = node_at st"
  "queue_at (upd_request r f st) = queue_at st"
  by (auto simp: upd_request_def endpoint_at_def node_at_def queue_at_def fun_eq_iff)

lemma upd_buffer_sel [frame_simps]:
  "domains (upd_buffer i f st) = domains st"
  "requests (upd_buffer i f st) = requests st"
  "request_reserves (upd_buffer i f st) = request_reserves st"
  "request_reserves_header (upd_buffer i f st) = request_reserves_header st"
  "user_bytes (upd_buffer i f st) = user_bytes st"
  "user_ptrs (upd_buffer i f st) = user_ptrs st"
  "user_endpts (upd_buffer i f st) = user_endpts st"
  "buffers (upd_buffer i f st) j = (if j = i then f (buffers st i) else buffers st j)"
  "endpoint_at (upd_buffer i f st) = endpoint_at st"
  "node_at (upd_buffer i f st) = node_at st"
  "queue_at (upd_buffer i f st) = queue_at st"
  by (auto simp: upd_buffer_def endpoint_at_def node_at_def queue_at_def fun_eq_iff)

end
