(* ===== verification/MCAPI_Fifo.thy ===== *)
theory MCAPI_Fifo
  imports MCAPI_Prelude
begin

text \<open>
  The contract between a message queue and the code that sends to it and receives from it:
  a bounded first-in first-out channel. The laws are those of one send and one receive; the
  consequences for whole runs of sends and receives are proved here once, and hold for every
  provider of the contract (the ring of an endpoint, the endpoint of the database, a scalar
  channel).
\<close>

datatype 'm action = Put 'm | Get

text \<open>
  A run performs the actions in order; it yields what the receives returned, and \<open>None\<close> when
  an action did not succeed.
\<close>

fun run_actions ::
  "('m \<Rightarrow> 's \<Rightarrow> 's option) \<Rightarrow> ('s \<Rightarrow> ('m \<times> 's) option) \<Rightarrow> 'm action list \<Rightarrow> 's \<Rightarrow> ('m list \<times> 's) option"
where
  "run_actions put get [] s = Some ([], s)"
| "run_actions put get (Put m # as) s = do { s \<leftarrow> put m s; run_actions put get as s }"
| "run_actions put get (Get # as) s = do {
     (m, s) \<leftarrow> get s; (ms, s) \<leftarrow> run_actions put get as s; Some (m # ms, s) }"

text \<open>The same run on a list, with \<open>n\<close> free places.\<close>

fun list_run :: "'m action list \<Rightarrow> 'm list \<Rightarrow> ('m list \<times> 'm list) option" where
  "list_run [] q = Some ([], q)"
| "list_run (Put m # as) q = list_run as (q @ [m])"
| "list_run (Get # as) [] = None"
| "list_run (Get # as) (m # q) = map_option (\<lambda>(ms, q). (m # ms, q)) (list_run as q)"

fun puts :: "'m action list \<Rightarrow> 'm list" where
  "puts [] = []"
| "puts (Put m # as) = m # puts as"
| "puts (Get # as) = puts as"

lemma list_run_order: "list_run as q = Some (out, q') \<Longrightarrow> q @ puts as = out @ q'"
proof (induction as q arbitrary: out rule: list_run.induct)
  case (2 m as q)
  then show ?case by fastforce
next
  case (4 as m q)
  then show ?case by (auto simp: split: prod.splits)
qed auto

lemma puts_Put [simp]: "puts (map Put ms) = ms"
  by (induction ms) simp_all

lemma puts_append [simp]: "puts (as @ bs) = puts as @ puts bs"
  by (induction as rule: puts.induct) simp_all

lemma puts_Get [simp]: "puts (replicate n Get) = []"
  by (induction n) simp_all

lemma list_run_puts: "list_run (map Put ms @ as) q = list_run as (q @ ms)"
  by (induction ms arbitrary: q) simp_all

lemma list_run_gets: "list_run (replicate (length ms) Get) (ms @ q) = Some (ms, q)"
  by (induction ms) simp_all

locale fifo_channel =
  fixes ok :: "'s \<Rightarrow> bool" and view :: "'s \<Rightarrow> 'm list" and room :: "'s \<Rightarrow> nat"
    and good :: "'m \<Rightarrow> bool"
    and put :: "'m \<Rightarrow> 's \<Rightarrow> 's option" and get :: "'s \<Rightarrow> ('m \<times> 's) option"
  assumes put_ok: "ok s \<Longrightarrow> good m \<Longrightarrow> 0 < room s \<Longrightarrow>
      \<exists>s'. put m s = Some s' \<and> ok s' \<and> view s' = view s @ [m] \<and> room s' = room s - 1"
    and get_ok: "ok s \<Longrightarrow> view s = m # ms \<Longrightarrow>
      \<exists>s'. get s = Some (m, s') \<and> ok s' \<and> view s' = ms \<and> room s \<le> room s'"
begin

text \<open>
  A run that never needs more than the free places, and only receives what was sent, behaves
  as on a list: every receive returns the oldest message not yet received.
\<close>

lemma run_refines:
  assumes "ok s" and "length (puts as) \<le> room s" and "\<forall>m\<in>set (puts as). good m"
    and "list_run as (view s) = Some (out, q)"
  shows "\<exists>s'. run_actions put get as s = Some (out, s') \<and> ok s' \<and> view s' = q"
  using assms
proof (induction as arbitrary: s out)
  case Nil
  then show ?case by simp
next
  case (Cons a as)
  show ?case
  proof (cases a)
    case (Put m)
    then have r: "0 < room s" "good m" using Cons.prems(2,3) by simp_all
    from put_ok [OF Cons.prems(1) r(2,1)] obtain s1 where
      s1: "put m s = Some s1" "ok s1" "view s1 = view s @ [m]" "room s1 = room s - 1" by blast
    have "\<exists>s'. run_actions put get as s1 = Some (out, s') \<and> ok s' \<and> view s' = q"
      using Cons.prems s1 Put by (intro Cons.IH) simp_all
    then show ?thesis using s1(1) Put by simp
  next
    case Get
    with Cons.prems(4) obtain m ms where v: "view s = m # ms" by (cases "view s") simp_all
    from get_ok [OF Cons.prems(1) this] obtain s1 where
      s1: "get s = Some (m, s1)" "ok s1" "view s1 = ms" "room s \<le> room s1" by blast
    from Cons.prems(4) Get v obtain out1 where o: "list_run as ms = Some (out1, q)" "out = m # out1"
      by auto
    have "\<exists>s'. run_actions put get as s1 = Some (out1, s') \<and> ok s' \<and> view s' = q"
      using Cons.prems s1 Get o by (intro Cons.IH) simp_all
    then show ?thesis using s1(1) o(2) Get by auto
  qed
qed

lemma run_fifo:
  assumes "ok s" and "length ms \<le> room s" and "\<forall>m\<in>set ms. good m" and "view s = []"
  shows "\<exists>s'. run_actions put get (map Put ms @ replicate (length ms) Get) s = Some (ms, s') \<and>
     ok s' \<and> view s' = []"
  by (rule run_refines)
    (use assms list_run_gets [of ms "[]"] in \<open>simp_all add: list_run_puts\<close>)

end

end
