(* ===== verification/MCAPI_Queue.thy ===== *)
theory MCAPI_Queue
  imports MCAPI_Types MCAPI_Fifo
begin

text \<open>
  The receive queue of an endpoint (\<open>transport_sm_queue.c\<close>): a ring of
  \<open>MCAPI_MAX_QUEUE_ENTRIES\<close> slots that holds messages, reservations of pending receive
  requests and bubbles left by removals out of the middle. The operations below follow
  the C functions; the second half shows that they implement a FIFO queue of messages and
  pending receives.
\<close>

section \<open>The operations of \<open>transport_sm_queue.c\<close>\<close>

definition qindex :: "queue \<Rightarrow> nat \<Rightarrow> nat" where
  "qindex q i = (head q + i) mod MCAPI_MAX_QUEUE_ENTRIES"

definition put_element ::
  "queue \<Rightarrow> nat \<Rightarrow> (buffer_descriptor \<Rightarrow> buffer_descriptor) \<Rightarrow> queue" where
  "put_element q i f = q\<lparr>elements := (elements q)(i := f (elements q i))\<rparr>"

definition mcapi_trans_push_queue :: "queue \<Rightarrow> (nat \<times> queue) option" where
  "mcapi_trans_push_queue q = do {
     mcapi_assert ((tail q + 1) mod MCAPI_MAX_QUEUE_ENTRIES \<noteq> head q);
     let q = q\<lparr>num_elements := num_elements q + 1\<rparr>;
     let i = tail q;
     let q = q\<lparr>tail := (tail q + 1) mod MCAPI_MAX_QUEUE_ENTRIES\<rparr>;
     mcapi_assert (head q \<noteq> tail q);
     Some (i, q)
   }"

text \<open>
  The loop of \<open>mcapi_trans_compact_queue\<close> decrements its index whenever it advances the
  head, so it always looks at the slot at the head. It would not stop on an all-empty ring
  whose \<open>tail\<close> is out of range; \<open>None\<close> also stands for that.
\<close>

partial_function (option) compact_loop :: "queue \<Rightarrow> queue option" where
  "compact_loop q =
     (let i = (head q + 0) mod MCAPI_MAX_QUEUE_ENTRIES in
      if i = tail q \<or> request (elements q i) \<noteq> 0 \<or> buff_index (elements q i) \<noteq> 0 then Some q
      else compact_loop
        ((put_element q i (\<lambda>s. s\<lparr>invalid := False\<rparr>))
           \<lparr>head := (head q + 1) mod MCAPI_MAX_QUEUE_ENTRIES\<rparr>))"

declare compact_loop.simps [code]

definition mcapi_trans_compact_queue :: "queue \<Rightarrow> queue option" where
  "mcapi_trans_compact_queue q = do {
     q \<leftarrow> compact_loop q;
     mcapi_assert (0 < num_elements q \<longrightarrow> head q \<noteq> tail q);
     Some q
   }"

definition mcapi_trans_pop_queue :: "queue \<Rightarrow> (nat \<times> queue) option" where
  "mcapi_trans_pop_queue q = do {
     mcapi_assert (head q \<noteq> tail q);
     let i = for_first (\<lambda>i. request (elements q (qindex q i)) = 0 \<and>
                            buff_index (elements q (qindex q i)) \<noteq> 0) 0 MCAPI_MAX_QUEUE_ENTRIES;
     mcapi_assert (i \<noteq> MCAPI_MAX_QUEUE_ENTRIES);
     let x = qindex q i;
     let q = q\<lparr>num_elements := num_elements q - 1\<rparr>;
     let q = (if x = head q then q\<lparr>head := (head q + 1) mod MCAPI_MAX_QUEUE_ENTRIES\<rparr>
              else put_element q x (\<lambda>s. s\<lparr>invalid := True\<rparr>));
     mcapi_assert (0 < num_elements q \<longrightarrow> head q \<noteq> tail q);
     q \<leftarrow> mcapi_trans_compact_queue q;
     Some (x, q)
   }"

definition mcapi_trans_empty_queue :: "queue \<Rightarrow> bool" where
  "mcapi_trans_empty_queue q =
     (if head q = tail q then True
      else for_first (\<lambda>i. request (elements q (qindex q i)) = 0 \<and>
                          buff_index (elements q (qindex q i)) \<noteq> 0) 0 MCAPI_MAX_QUEUE_ENTRIES
           = MCAPI_MAX_QUEUE_ENTRIES)"

definition mcapi_trans_full_queue :: "queue \<Rightarrow> bool" where
  "mcapi_trans_full_queue q \<longleftrightarrow> (tail q + 1) mod MCAPI_MAX_QUEUE_ENTRIES = head q"

text \<open>
  The reservation loop of \<open>setup_request_have_lock\<close>: the first slot from the head
  that carries no request and is not a bubble; \<open>None\<close> when there is none.
\<close>

definition reserve_slot :: "queue \<Rightarrow> u32 \<Rightarrow> queue option" where
  "reserve_slot q rq =
     (let i = for_first (\<lambda>i. request (elements q (qindex q i)) = 0 \<and>
                             \<not> invalid (elements q (qindex q i))) 0 MCAPI_MAX_QUEUE_ENTRIES
      in if i = MCAPI_MAX_QUEUE_ENTRIES then None
         else Some (put_element q (qindex q i) (\<lambda>s. s\<lparr>request := rq\<rparr>)))"

section \<open>The ring as two lists\<close>

abbreviation "QN \<equiv> MCAPI_MAX_QUEUE_ENTRIES"

definition slots :: "queue \<Rightarrow> buffer_descriptor list" where
  "slots q = ring_view QN (head q) (elements q)"

definition qlen :: "queue \<Rightarrow> nat" where
  "qlen q = ring_dist QN (head q) (tail q)"

definition window :: "queue \<Rightarrow> buffer_descriptor list" where
  "window q = take (qlen q) (slots q)"

definition beyond :: "queue \<Rightarrow> buffer_descriptor list" where
  "beyond q = drop (qlen q) (slots q)"

definition has_buff :: "buffer_descriptor \<Rightarrow> bool" where
  "has_buff s \<longleftrightarrow> buff_index s \<noteq> 0"

definition bubble :: "buffer_descriptor \<Rightarrow> bool" where
  "bubble s \<longleftrightarrow> buff_index s = 0 \<and> request s = 0 \<and> invalid s"

definition zeros_last :: "u32 list \<Rightarrow> bool" where
  "zeros_last rs \<longleftrightarrow> (\<forall>r\<in>set (dropWhile (\<lambda>r. r \<noteq> 0) rs). r = 0)"

definition queue_inv :: "queue \<Rightarrow> bool" where
  "queue_inv q \<longleftrightarrow> head q < QN \<and> tail q < QN \<and> zeros_last (map request (beyond q)) \<and>
     (\<forall>s\<in>set (window q). has_buff s \<and> \<not> invalid s \<or> bubble s) \<and>
     (\<forall>s\<in>set (beyond q). \<not> has_buff s \<and> \<not> invalid s) \<and>
     unat (num_elements q) = length (filter has_buff (window q))"

lemma length_slots [simp]: "length (slots q) = QN"
  by (simp add: slots_def)

lemma nth_slots: "i < QN \<Longrightarrow> slots q ! i = elements q (qindex q i)"
  by (simp add: slots_def qindex_def)

lemma slots_split: "slots q = window q @ beyond q"
  by (simp add: window_def beyond_def)

lemma qlen_less [simp]: "qlen q < QN"
  by (simp add: qlen_def ring_dist_less)

lemma length_window [simp]: "length (window q) = qlen q"
  by (simp add: window_def min.absorb2 less_imp_le)

lemma lt_qlen_QN: "i < qlen q \<Longrightarrow> i < QN"
  using qlen_less [of q] by linarith

lemma length_beyond [simp]: "length (beyond q) = QN - qlen q"
  by (simp add: beyond_def)

lemma beyond_not_Nil [simp]: "beyond q \<noteq> []"
  by (metis length_beyond length_0_conv qlen_less diff_is_0_eq not_le)

lemma slots_put [ring_simps]:
  "i < QN \<Longrightarrow> slots (put_element q (qindex q i) f) = (slots q)[i := f (slots q ! i)]"
  by (simp add: slots_def put_element_def qindex_def ring_view_update)

lemma put_element_sel [simp]:
  "head (put_element q i f) = head q" "tail (put_element q i f) = tail q"
  "num_elements (put_element q i f) = num_elements q" "chan_type (put_element q i f) = chan_type q"
  "send_endpt (put_element q i f) = send_endpt q" "recv_endpt (put_element q i f) = recv_endpt q"
  "qlen (put_element q i f) = qlen q"
  by (simp_all add: put_element_def qlen_def)

lemma qindex_put [simp]: "qindex (put_element q i f) = qindex q"
  by (simp add: qindex_def fun_eq_iff)

lemma window_put_lt:
  "i < qlen q \<Longrightarrow> window (put_element q (qindex q i) f) = (window q)[i := f (window q ! i)]"
  by (simp add: window_def slots_put lt_qlen_QN take_update_swap)

lemma beyond_put_lt:
  "i < qlen q \<Longrightarrow> beyond (put_element q (qindex q i) f) = beyond q"
  by (simp add: beyond_def slots_put lt_qlen_QN)

lemma window_put_ge:
  "qlen q \<le> i \<Longrightarrow> i < QN \<Longrightarrow> window (put_element q (qindex q i) f) = window q"
  by (simp add: window_def slots_put)

lemma beyond_put_ge:
  "qlen q \<le> i \<Longrightarrow> i < QN \<Longrightarrow>
   beyond (put_element q (qindex q i) f) = (beyond q)[i - qlen q := f (beyond q ! (i - qlen q))]"
  by (simp add: beyond_def slots_put drop_update_swap)

lemma qlen_zero: "queue_inv q \<Longrightarrow> qlen q = 0 \<longleftrightarrow> head q = tail q"
  by (simp add: queue_inv_def qlen_def ring_dist_zero)

lemma window_Nil: "queue_inv q \<Longrightarrow> window q = [] \<longleftrightarrow> head q = tail q"
  by (metis qlen_zero length_window length_0_conv)

lemma qindex_inj: "i < QN \<Longrightarrow> j < QN \<Longrightarrow> qindex q i = qindex q j \<Longrightarrow> i = j"
  unfolding qindex_def by (rule mod_add_inj)

lemma qindex_less [simp]: "qindex q i < QN"
  by (simp add: qindex_def)

lemma qindex_0: "head q < QN \<Longrightarrow> qindex q 0 = head q"
  by (simp add: qindex_def)

lemma window_nth: "i < qlen q \<Longrightarrow> window q ! i = elements q (qindex q i)"
  by (simp add: window_def nth_slots lt_qlen_QN)

lemma beyond_nth: "i < QN - qlen q \<Longrightarrow> beyond q ! i = elements q (qindex q (qlen q + i))"
  by (simp add: beyond_def nth_slots)

lemma tail_qindex: "queue_inv q \<Longrightarrow> tail q = qindex q (qlen q)"
  by (simp add: qindex_def qlen_def queue_inv_def ring_dist_add)

lemma num_elements_le: "queue_inv q \<Longrightarrow> unat (num_elements q) \<le> qlen q"
  using length_filter_le [of has_buff "window q"] by (simp add: queue_inv_def)

section \<open>Head moves and compaction\<close>

lemma slots_head_move [ring_simps]:
  "slots (q\<lparr>head := (head q + 1) mod QN\<rparr>) = tl (slots q) @ [hd (slots q)]"
  using ring_view_rotate [of QN "head q" "elements q"] by (simp add: slots_def)

lemma head_move:
  assumes "head q < QN" and "tail q < QN" and "head q \<noteq> tail q"
  shows "window (q\<lparr>head := (head q + 1) mod QN\<rparr>) = tl (window q)"
    and "beyond (q\<lparr>head := (head q + 1) mod QN\<rparr>) = beyond q @ [hd (window q)]"
    and "qlen (q\<lparr>head := (head q + 1) mod QN\<rparr>) = qlen q - 1"
    and "0 < qlen q"
proof -
  have len: "qlen (q\<lparr>head := (head q + 1) mod QN\<rparr>) = qlen q - 1"
    using assms ring_dist_head [of "head q" QN "tail q"] by (simp add: qlen_def)
  have pos: "0 < qlen q"
    using assms by (metis qlen_def ring_dist_zero neq0_conv)
  obtain w ws where w: "window q = w # ws"
    using pos by (metis length_window list.exhaust list.size(3) less_numeral_extra(3))
  then have ws: "qlen q = Suc (length ws)" by (metis length_window length_Cons)
  have s: "slots (q\<lparr>head := (head q + 1) mod QN\<rparr>) = ws @ beyond q @ [w]"
    unfolding slots_head_move slots_split [of q] w by simp
  show "window (q\<lparr>head := (head q + 1) mod QN\<rparr>) = tl (window q)"
    by (simp only: window_def [of "q\<lparr>head := _\<rparr>"] s len w) (simp add: ws)
  show "beyond (q\<lparr>head := (head q + 1) mod QN\<rparr>) = beyond q @ [hd (window q)]"
    by (simp only: beyond_def [of "q\<lparr>head := _\<rparr>"] s len w) (simp add: ws)
  show "qlen (q\<lparr>head := (head q + 1) mod QN\<rparr>) = qlen q - 1" and "0 < qlen q"
    by (rule len) (rule pos)
qed

definition vacant :: "buffer_descriptor \<Rightarrow> bool" where
  "vacant s \<longleftrightarrow> request s = 0 \<and> buff_index s = 0"

lemma compact_loop_step:
  assumes "head q < QN" and "head q \<noteq> tail q" and "vacant (elements q (head q))"
  shows "compact_loop q = compact_loop
    ((put_element q (qindex q 0) (\<lambda>s. s\<lparr>invalid := False\<rparr>))\<lparr>head := (head q + 1) mod QN\<rparr>)"
  using assms by (subst compact_loop.simps) (simp add: vacant_def qindex_def Let_def)

lemma compact_loop_stop:
  assumes "head q < QN" and "head q = tail q \<or> \<not> vacant (elements q (head q))"
  shows "compact_loop q = Some q"
  using assms by (subst compact_loop.simps) (auto simp: vacant_def Let_def)

lemma compact_loop_view:
  assumes "head q < QN" and "tail q < QN"
  shows "\<exists>q'. compact_loop q = Some q' \<and> head q' < QN \<and> tail q' = tail q \<and>
     head q' = qindex q (length (takeWhile vacant (window q))) \<and>
     num_elements q' = num_elements q \<and> chan_type q' = chan_type q \<and>
     send_endpt q' = send_endpt q \<and> recv_endpt q' = recv_endpt q \<and>
     window q' = dropWhile vacant (window q) \<and>
     beyond q' = beyond q @ map (\<lambda>s. s\<lparr>invalid := False\<rparr>) (takeWhile vacant (window q))"
  using assms
proof (induction "qlen q" arbitrary: q)
  case 0
  then have "head q = tail q" by (simp add: qlen_def ring_dist_zero)
  moreover have "window q = []" using 0 by (metis length_window length_0_conv)
  ultimately show ?case using 0 by (simp add: compact_loop_stop qindex_0)
next
  case (Suc k)
  then have ne: "head q \<noteq> tail q"
    by (metis qlen_def ring_dist_zero nat.distinct(1))
  have h: "window q ! 0 = elements q (head q)" "window q \<noteq> []"
    using Suc.hyps(2) Suc.prems(1) window_nth [of 0 q] qindex_0 [of q]
    by (auto simp flip: length_greater_0_conv)
  then obtain w ws where w: "window q = w # ws" "w = elements q (head q)"
    by (cases "window q") auto
  show ?case
  proof (cases "vacant w")
    case False
    with Suc.prems w show ?thesis by (simp add: compact_loop_stop qindex_0)
  next
    case True
    let ?p = "put_element q (qindex q 0) (\<lambda>s. s\<lparr>invalid := False\<rparr>)"
    let ?q = "?p\<lparr>head := (head q + 1) mod QN\<rparr>"
    have p: "window ?p = w\<lparr>invalid := False\<rparr> # ws" "beyond ?p = beyond q"
      using Suc.hyps(2) w by (simp_all add: window_put_lt beyond_put_lt)
    have "head ?p < QN" "tail ?p < QN" "head ?p \<noteq> tail ?p" using Suc.prems ne by simp_all
    note m = head_move [OF this, unfolded put_element_sel p, simplified]
    from m(3) Suc.hyps(2) have "k = qlen ?q" by simp
    moreover have "head ?q < QN" "tail ?q < QN" using Suc.prems by simp_all
    ultimately have IH: "\<exists>q'. compact_loop ?q = Some q' \<and> head q' < QN \<and> tail q' = tail ?q \<and>
       head q' = qindex ?q (length (takeWhile vacant (window ?q))) \<and>
       num_elements q' = num_elements ?q \<and> chan_type q' = chan_type ?q \<and>
       send_endpt q' = send_endpt ?q \<and> recv_endpt q' = recv_endpt ?q \<and>
       window q' = dropWhile vacant (window ?q) \<and>
       beyond q' = beyond ?q @ map (\<lambda>s. s\<lparr>invalid := False\<rparr>) (takeWhile vacant (window ?q))"
      by (rule Suc.hyps(1))
    have "compact_loop q = compact_loop ?q"
      using Suc.prems ne True w(2) by (simp add: compact_loop_step)
    moreover have "qindex ?q j = qindex q (Suc j)" for j
      by (simp add: qindex_def mod_add_left_eq)
    ultimately show ?thesis using IH m(1,2) w(1) True by simp
  qed
qed

section \<open>What the queue stands for\<close>

text \<open>
  Messages in arrival order, each with the receive request it is matched with (0 for none),
  and the receive requests that wait for a message, oldest first.
\<close>

record aqueue =
  amsgs :: "(u32 \<times> u32) list"
  apend :: "u32 list"

definition abs_queue :: "queue \<Rightarrow> aqueue" where
  "abs_queue q = \<lparr>amsgs = map (\<lambda>s. (request s, buff_index s)) (filter has_buff (window q)),
     apend = filter (\<lambda>r. r \<noteq> 0) (map request (beyond q))\<rparr>"

definition aq_send :: "u32 \<Rightarrow> aqueue \<Rightarrow> aqueue" where
  "aq_send b a = (case apend a of
       [] \<Rightarrow> a\<lparr>amsgs := amsgs a @ [(0, b)]\<rparr>
     | r # rs \<Rightarrow> a\<lparr>amsgs := amsgs a @ [(r, b)], apend := rs\<rparr>)"

definition aq_recv :: "aqueue \<Rightarrow> (u32 \<times> aqueue) option" where
  "aq_recv a = (case dropWhile (\<lambda>m. fst m \<noteq> 0) (amsgs a) of
       [] \<Rightarrow> None
     | m # ms \<Rightarrow> Some (snd m, a\<lparr>amsgs := takeWhile (\<lambda>m. fst m \<noteq> 0) (amsgs a) @ ms\<rparr>))"

definition aq_reserve :: "u32 \<Rightarrow> aqueue \<Rightarrow> aqueue" where
  "aq_reserve r a = a\<lparr>apend := apend a @ [r]\<rparr>"

definition aq_take :: "u32 \<Rightarrow> aqueue \<Rightarrow> aqueue" where
  "aq_take r a = a\<lparr>amsgs := filter (\<lambda>m. fst m \<noteq> r) (amsgs a)\<rparr>"

lemma zeros_last_Nil [simp]: "zeros_last []"
  by (simp add: zeros_last_def)

lemma zeros_last_Cons: "zeros_last (r # rs) \<longleftrightarrow> (if r = 0 then (\<forall>x\<in>set rs. x = 0) else zeros_last rs)"
  by (simp add: zeros_last_def)

lemma zeros_last_zeros: "\<forall>x\<in>set rs. x = 0 \<Longrightarrow> zeros_last rs"
  by (cases rs) (simp_all add: zeros_last_Cons)

lemma zeros_last_append0: "zeros_last rs \<Longrightarrow> \<forall>r\<in>set zs. r = 0 \<Longrightarrow> zeros_last (rs @ zs)"
  by (induction rs) (auto simp: zeros_last_Cons zeros_last_zeros)

lemma zeros_last_tl: "zeros_last rs \<Longrightarrow> zeros_last (tl rs)"
  by (cases rs) (auto simp: zeros_last_Cons zeros_last_zeros split: if_splits)

lemma filter_nz_Nil: "zeros_last rs \<Longrightarrow> rs \<noteq> [] \<Longrightarrow> filter (\<lambda>r. r \<noteq> 0) rs = [] \<longleftrightarrow> hd rs = 0"
  by (cases rs) (auto simp: zeros_last_Cons filter_empty_conv split: if_splits)

lemma filter_has_buff_dropWhile: "filter has_buff (dropWhile vacant xs) = filter has_buff xs"
  by (induction xs) (auto simp: vacant_def has_buff_def)

lemma full_queue_qlen: "queue_inv q \<Longrightarrow> mcapi_trans_full_queue q \<longleftrightarrow> qlen q = QN - 1"
  using ring_dist_full [of "head q" QN "tail q"]
  by (simp add: queue_inv_def mcapi_trans_full_queue_def qlen_def)

text \<open>Sending: \<open>push_queue\<close> and the store of the buffer index in the slot it returns.\<close>

definition ring_send :: "queue \<Rightarrow> u32 \<Rightarrow> queue option" where
  "ring_send q b = do {
     (i, q) \<leftarrow> mcapi_trans_push_queue q;
     Some (put_element q i (\<lambda>s. s\<lparr>buff_index := b\<rparr>))
   }"

lemma push_queue_view:
  assumes inv: "queue_inv q" and nf: "\<not> mcapi_trans_full_queue q"
  obtains q' where "mcapi_trans_push_queue q = Some (tail q, q')"
    and "window q' = window q @ [hd (beyond q)]" and "beyond q' = tl (beyond q)"
    and "head q' = head q" and "tail q' < QN" and "elements q' = elements q"
    and "unat (num_elements q') = unat (num_elements q) + 1"
    and "chan_type q' = chan_type q" "send_endpt q' = send_endpt q" "recv_endpt q' = recv_endpt q"
proof -
  let ?q = "q\<lparr>num_elements := num_elements q + 1, tail := (tail q + 1) mod QN\<rparr>"
  from inv have ht: "head q < QN" "tail q < QN" by (simp_all add: queue_inv_def)
  from nf have ne: "(tail q + 1) mod QN \<noteq> head q" by (simp add: mcapi_trans_full_queue_def)
  then have push: "mcapi_trans_push_queue q = Some (tail q, ?q)"
    by (simp add: mcapi_trans_push_queue_def mcapi_assert_def)
  have len: "qlen ?q = qlen q + 1"
    using ht ne ring_dist_tail [of "head q" QN "tail q"] by (simp add: qlen_def)
  have sl: "slots ?q = slots q" by (simp add: slots_def)
  obtain s ss where b: "beyond q = s # ss" by (meson beyond_not_Nil list.exhaust)
  have win: "window ?q = window q @ [hd (beyond q)]" "beyond ?q = tl (beyond q)"
    unfolding window_def [of ?q] beyond_def [of ?q] sl len slots_split [of q] b by simp_all
  have "unat (num_elements q) + 1 < 2 ^ LENGTH(32)"
    using num_elements_le [OF inv] queue_entries_bound less_trans [OF qlen_less [of q] queue_entries_bound]
    by simp
  then have num: "unat (num_elements ?q) = unat (num_elements q) + 1" by (simp add: unat_inc)
  show thesis by (rule that [of ?q]) (use push win num ht in simp_all)
qed

lemma ring_send_view:
  assumes inv: "queue_inv q" and nf: "\<not> mcapi_trans_full_queue q"
  obtains q' where "ring_send q b = Some q'"
    and "window q' = window q @ [(hd (beyond q))\<lparr>buff_index := b\<rparr>]" and "beyond q' = tl (beyond q)"
    and "head q' < QN" and "tail q' < QN"
    and "unat (num_elements q') = unat (num_elements q) + 1"
    and "chan_type q' = chan_type q" "send_endpt q' = send_endpt q" "recv_endpt q' = recv_endpt q"
proof (rule push_queue_view [OF inv nf])
  fix q'
  assume p: "mcapi_trans_push_queue q = Some (tail q, q')"
    and w: "window q' = window q @ [hd (beyond q)]" and b: "beyond q' = tl (beyond q)"
    and h: "head q' = head q" and t: "tail q' < QN"
    and n: "unat (num_elements q') = unat (num_elements q) + 1"
    and fr: "chan_type q' = chan_type q" "send_endpt q' = send_endpt q" "recv_endpt q' = recv_endpt q"
  have l: "qlen q' = Suc (qlen q)" using arg_cong [OF w, of length] by simp
  have ti: "tail q = qindex q' (qlen q)" using tail_qindex [OF inv] h by (simp add: qindex_def)
  let ?q = "put_element q' (tail q) (\<lambda>s. s\<lparr>buff_index := b\<rparr>)"
  have "window ?q = window q @ [(hd (beyond q))\<lparr>buff_index := b\<rparr>]"
    using l w unfolding ti by (simp add: window_put_lt nth_append) 
      (metis length_window list_update_length)
  moreover have "beyond ?q = tl (beyond q)" using l b unfolding ti by (simp add: beyond_put_lt)
  moreover have "head ?q < QN" "tail ?q < QN" using inv h t by (simp_all add: queue_inv_def)
  ultimately show thesis using p n fr by (intro that [of ?q]) (simp_all add: ring_send_def)
qed

lemma ring_send_refines:
  assumes inv: "queue_inv q" and nf: "\<not> mcapi_trans_full_queue q" and nz: "b \<noteq> 0"
  obtains q' where "ring_send q b = Some q'" and "queue_inv q'"
    and "abs_queue q' = aq_send b (abs_queue q)" and "qlen q' = Suc (qlen q)"
    and "chan_type q' = chan_type q" "send_endpt q' = send_endpt q" "recv_endpt q' = recv_endpt q"
proof (rule ring_send_view [OF inv nf, of b])
  fix q'
  assume r: "ring_send q b = Some q'"
    and w: "window q' = window q @ [(hd (beyond q))\<lparr>buff_index := b\<rparr>]" and b: "beyond q' = tl (beyond q)"
    and ht: "head q' < QN" "tail q' < QN"
    and n: "unat (num_elements q') = unat (num_elements q) + 1"
    and fr: "chan_type q' = chan_type q" "send_endpt q' = send_endpt q" "recv_endpt q' = recv_endpt q"
  obtain s ss where bs: "beyond q = s # ss" by (meson beyond_not_Nil list.exhaust)
  have hb: "has_buff (s\<lparr>buff_index := b\<rparr>)" using nz by (simp add: has_buff_def)
  from inv have z: "zeros_last (request s # map request ss)" "\<not> invalid s"
    by (simp_all add: queue_inv_def bs)
  have "queue_inv q'" using inv ht n w b hb zeros_last_tl [OF z(1)]
    by (auto simp: queue_inv_def bs)
  moreover have "abs_queue q' = aq_send b (abs_queue q)"
    using z(1) hb w b by (auto simp: abs_queue_def aq_send_def bs zeros_last_Cons filter_empty_conv)
  moreover have "qlen q' = Suc (qlen q)" using arg_cong [OF w, of length] by simp
  ultimately show thesis using r fr by (intro that)
qed

text \<open>Receiving: \<open>pop_queue\<close> and the clearing of the buffer index in the slot it returns.\<close>

definition ring_recv :: "queue \<Rightarrow> (u32 \<times> queue) option" where
  "ring_recv q = do {
     (x, q') \<leftarrow> mcapi_trans_pop_queue q;
     Some (buff_index (elements q' x), put_element q' x (\<lambda>s. s\<lparr>buff_index := 0\<rparr>))
   }"

definition open_msg :: "buffer_descriptor \<Rightarrow> bool" where
  "open_msg s \<longleftrightarrow> request s = 0 \<and> buff_index s \<noteq> 0"

lemma empty_queue_window:
  assumes inv: "queue_inv q"
  shows "mcapi_trans_empty_queue q \<longleftrightarrow> (\<forall>s\<in>set (window q). \<not> open_msg s)"
proof -
  have "(\<forall>i<QN. \<not> open_msg (slots q ! i)) \<longleftrightarrow> (\<forall>s\<in>set (slots q). \<not> open_msg s)"
    by (simp add: all_set_conv_all_nth)
  also have "\<dots> \<longleftrightarrow> (\<forall>s\<in>set (window q). \<not> open_msg s)"
    using inv by (auto simp: slots_split queue_inv_def has_buff_def open_msg_def)
  finally show ?thesis
    using window_Nil [OF inv]
    by (auto simp: mcapi_trans_empty_queue_def for_first_none nth_slots open_msg_def)
qed

lemma abs_empty: "(\<forall>s\<in>set (window q). \<not> open_msg s) \<longleftrightarrow> (\<forall>m\<in>set (amsgs (abs_queue q)). fst m \<noteq> 0)"
  by (auto simp: abs_queue_def open_msg_def has_buff_def)

lemma split_first: "\<exists>x\<in>set xs. P x \<Longrightarrow> \<exists>i<length xs. P (xs ! i) \<and> (\<forall>j<i. \<not> P (xs ! j))"
proof -
  assume "\<exists>x\<in>set xs. P x"
  then have "\<exists>i. i < length xs \<and> P (xs ! i)" by (auto simp: in_set_conv_nth)
  from LeastI_ex [OF this] not_less_Least [of _ "\<lambda>i. i < length xs \<and> P (xs ! i)"]
  show ?thesis by (metis less_trans)
qed

lemma pop_index:
  assumes inv: "queue_inv q" and ne: "\<not> mcapi_trans_empty_queue q"
  obtains i where "i < qlen q" and "open_msg (window q ! i)" and "\<forall>j<i. \<not> open_msg (window q ! j)"
    and "for_first (\<lambda>i. request (elements q (qindex q i)) = 0 \<and>
                        buff_index (elements q (qindex q i)) \<noteq> 0) 0 QN = i"
proof -
  from ne obtain i where i: "i < qlen q" "open_msg (window q ! i)" "\<forall>j<i. \<not> open_msg (window q ! j)"
    using split_first [of "window q" open_msg] by (auto simp: empty_queue_window [OF inv])
  have "for_first (\<lambda>i. request (elements q (qindex q i)) = 0 \<and>
                        buff_index (elements q (qindex q i)) \<noteq> 0) 0 QN = i"
    using i lt_qlen_QN [OF i(1)] by (intro for_first_eqI) (auto simp: window_nth open_msg_def)
  with i show thesis by (intro that)
qed

lemma compact_queue_view:
  assumes ht: "head q < QN" "tail q < QN" and n: "0 < num_elements q \<Longrightarrow> dropWhile vacant (window q) \<noteq> []"
  obtains q' where "mcapi_trans_compact_queue q = Some q'"
    and "head q' < QN" and "tail q' = tail q" and "num_elements q' = num_elements q"
    and "chan_type q' = chan_type q" "send_endpt q' = send_endpt q" "recv_endpt q' = recv_endpt q"
    and "head q' = qindex q (length (takeWhile vacant (window q)))"
    and "window q' = dropWhile vacant (window q)"
    and "beyond q' = beyond q @ map (\<lambda>s. s\<lparr>invalid := False\<rparr>) (takeWhile vacant (window q))"
proof -
  from compact_loop_view [OF ht] obtain q' where q': "compact_loop q = Some q'"
    and v: "head q' < QN" "tail q' = tail q" "num_elements q' = num_elements q"
    "chan_type q' = chan_type q" "send_endpt q' = send_endpt q" "recv_endpt q' = recv_endpt q"
    "head q' = qindex q (length (takeWhile vacant (window q)))"
    "window q' = dropWhile vacant (window q)"
    "beyond q' = beyond q @ map (\<lambda>s. s\<lparr>invalid := False\<rparr>) (takeWhile vacant (window q))"
    by blast
  have "window q' = []" if "head q' = tail q'"
    using that by (metis length_window length_0_conv qlen_def ring_dist_def add_diff_cancel_left' mod_self)
  then have "mcapi_trans_compact_queue q = Some q'"
    using q' v n by (auto simp: mcapi_trans_compact_queue_def mcapi_assert_def)
  then show thesis using v by (rule that)
qed

lemma num_elements_pos: "0 < num_elements q \<longleftrightarrow> 0 < unat (num_elements q)"
  by (simp add: word_less_nat_alt)

lemma dropWhile_vacant_nonempty: "filter has_buff xs \<noteq> [] \<Longrightarrow> dropWhile vacant xs \<noteq> []"
  by (auto simp: filter_empty_conv vacant_def has_buff_def)

lemma vacated_zero: "\<forall>r\<in>set (map request (map (\<lambda>s. s\<lparr>invalid := b\<rparr>) (takeWhile vacant xs))). r = 0"
  by (auto simp: vacant_def dest: set_takeWhileD)

lemma vacated_ok:
  "s \<in> set (map (\<lambda>s. s\<lparr>invalid := False\<rparr>) (takeWhile vacant xs)) \<Longrightarrow> \<not> has_buff s \<and> \<not> invalid s"
  by (auto simp: vacant_def has_buff_def dest: set_takeWhileD)

text \<open>The message taken is at the head: the head moves on and past the bubbles behind it.\<close>

lemma pop_head:
  assumes inv: "queue_inv q" and w: "window q = w # ws" and om: "open_msg w"
  obtains q' where "mcapi_trans_pop_queue q = Some (head q, q')"
    and "window q' = dropWhile vacant ws"
    and "beyond q' = beyond q @ w # map (\<lambda>s. s\<lparr>invalid := False\<rparr>) (takeWhile vacant ws)"
    and "head q' = (Suc (head q) + length (takeWhile vacant ws)) mod QN"
    and "tail q' = tail q" and "num_elements q' = num_elements q - 1"
    and "chan_type q' = chan_type q" "send_endpt q' = send_endpt q" "recv_endpt q' = recv_endpt q"
proof -
  have ht: "head q < QN" "tail q < QN" using inv by (simp_all add: queue_inv_def)
  have hne: "head q \<noteq> tail q" using window_Nil [OF inv] w by auto
  let ?n = "q\<lparr>num_elements := num_elements q - 1\<rparr>"
  let ?m = "?n\<lparr>head := (head q + 1) mod QN\<rparr>"
  have nsl: "window ?n = window q" "beyond ?n = beyond q" "qlen ?n = qlen q"
    by (simp_all add: window_def beyond_def slots_def qlen_def)
  have "head ?n < QN" "tail ?n < QN" "head ?n \<noteq> tail ?n" using ht hne by simp_all
  note mv = head_move [OF this, unfolded nsl w, simplified]
  have wm: "window ?m = ws" "beyond ?m = beyond q @ [w]" using mv by simp_all
  have l: "qlen q = Suc (length ws)" using arg_cong [OF w, of length] by simp
  have "unat (num_elements q) = Suc (length (filter has_buff ws))"
    using inv om w by (simp add: queue_inv_def open_msg_def has_buff_def)
  then have pos: "filter has_buff ws \<noteq> []" if "0 < num_elements ?m"
    using that unfolding num_elements_pos by (auto simp: unat_dec)
  have hm: "head ?m < QN" "tail ?m < QN" using ht by simp_all
  from pos have "dropWhile vacant (window ?m) \<noteq> []" if "0 < num_elements ?m"
    using that wm dropWhile_vacant_nonempty by metis
  from compact_queue_view [OF hm this] obtain q2 where
    c: "mcapi_trans_compact_queue ?m = Some q2" "tail q2 = tail ?m" "num_elements q2 = num_elements ?m"
      "chan_type q2 = chan_type ?m" "send_endpt q2 = send_endpt ?m" "recv_endpt q2 = recv_endpt ?m"
      "head q2 = qindex ?m (length (takeWhile vacant (window ?m)))"
      "window q2 = dropWhile vacant (window ?m)"
      "beyond q2 = beyond ?m @ map (\<lambda>s. s\<lparr>invalid := False\<rparr>) (takeWhile vacant (window ?m))"
    by blast
  have hmt: "head ?m \<noteq> tail ?m" if "0 < num_elements ?m"
    using pos [OF that] wm(1) by (metis filter.simps(1) length_0_conv length_window qlen_def ring_dist_zero hm)
  have "for_first (\<lambda>i. request (elements q (qindex q i)) = 0 \<and>
      buff_index (elements q (qindex q i)) \<noteq> 0) 0 QN = 0"
    using window_nth [of 0 q] om l w by (intro for_first_eqI) (auto simp: open_msg_def)
  then have "mcapi_trans_pop_queue q = Some (head q, q2)"
    using hne qindex_0 [OF ht(1)] c(1) hmt
    by (simp add: mcapi_trans_pop_queue_def mcapi_assert_def Let_def)
  then show thesis
    using c wm by (intro that [of q2]) (simp_all add: qindex_def mod_add_left_eq)
qed

lemma recv_head_view:
  assumes inv: "queue_inv q" and w: "window q = w # ws" and om: "open_msg w"
  obtains q' where "ring_recv q = Some (buff_index w, q')"
    and "window q' = dropWhile vacant ws"
    and "beyond q' = beyond q @ w\<lparr>buff_index := 0\<rparr> #
           map (\<lambda>s. s\<lparr>invalid := False\<rparr>) (takeWhile vacant ws)"
    and "head q' < QN" and "tail q' < QN" and "num_elements q' = num_elements q - 1"
    and "chan_type q' = chan_type q" "send_endpt q' = send_endpt q" "recv_endpt q' = recv_endpt q"
proof (rule pop_head [OF assms])
  fix q2 let ?k = "length (takeWhile vacant ws)"
  assume c: "mcapi_trans_pop_queue q = Some (head q, q2)"
    and wb: "window q2 = dropWhile vacant ws"
      "beyond q2 = beyond q @ w # map (\<lambda>s. s\<lparr>invalid := False\<rparr>) (takeWhile vacant ws)"
    and h2: "head q2 = (Suc (head q) + ?k) mod QN"
    and t2: "tail q2 = tail q" and n2: "num_elements q2 = num_elements q - 1"
    and fr: "chan_type q2 = chan_type q" "send_endpt q2 = send_endpt q" "recv_endpt q2 = recv_endpt q"
  have ht: "head q < QN" "tail q < QN" using inv by (simp_all add: queue_inv_def)
  let ?j = "QN - 1 - ?k"
  have l: "qlen q = Suc (length ws)" using arg_cong [OF w, of length] by simp
  have k: "?k \<le> length ws" by (rule length_takeWhile_le)
  have kQ: "Suc ?k < QN" using k l qlen_less [of q] by linarith
  have q2l: "qlen q2 = length ws - ?k"
    using arg_cong [OF wb(1), of length] by (simp add: dropWhile_eq_drop)
  have "qindex q2 ?j = (Suc (head q) + ?k + ?j) mod QN"
    unfolding qindex_def h2 by (simp only: mod_add_left_eq)
  also have "Suc (head q) + ?k + ?j = head q + QN" using kQ by simp
  finally have j: "head q = qindex q2 ?j" using ht by simp
  have j2: "qlen q2 \<le> ?j" "?j < QN" "?j - qlen q2 = length (beyond q)"
    using q2l k l kQ qlen_less [of q] by simp_all
  have el: "elements q2 (head q) = w"
  proof -
    have "length (beyond q) < QN - qlen q2" "qlen q2 + length (beyond q) = ?j" using j2 by linarith+
    then show ?thesis using beyond_nth [of "length (beyond q)" q2] unfolding wb(2) j [symmetric] 
      by (simp only: nth_append_length j [symmetric])
  qed
  let ?q = "put_element q2 (head q) (\<lambda>s. s\<lparr>buff_index := 0\<rparr>)"
  have "beyond ?q = beyond q @ w\<lparr>buff_index := 0\<rparr> #
           map (\<lambda>s. s\<lparr>invalid := False\<rparr>) (takeWhile vacant ws)"
    unfolding j beyond_put_ge [OF j2(1,2)] j2(3) wb
    by (simp only: nth_append_length list_update_length)
  moreover have "window ?q = dropWhile vacant ws"
    unfolding j window_put_ge [OF j2(1,2)] wb ..
  moreover have "head ?q < QN" "tail ?q < QN" using h2 t2 ht by simp_all
  ultimately show thesis
    using c el n2 fr by (intro that [of ?q]) (simp_all add: ring_recv_def)
qed

text \<open>The message taken is further back: it becomes a bubble.\<close>

lemma takeWhile_stop: "\<not> P y \<Longrightarrow> takeWhile P (xs @ y # ys) = takeWhile P xs"
  by (induction xs) auto

lemma dropWhile_stop: "\<not> P y \<Longrightarrow> dropWhile P (xs @ y # ys) = dropWhile P xs @ y # ys"
  by (induction xs) auto

lemma pop_middle:
  assumes inv: "queue_inv q" and i: "0 < i" "i < qlen q" and om: "open_msg (window q ! i)"
    and first: "\<forall>j<i. \<not> open_msg (window q ! j)"
  obtains q' where "mcapi_trans_pop_queue q = Some (qindex q i, q')"
    and "window q' = dropWhile vacant (take i (window q)) @
          (window q ! i)\<lparr>invalid := True\<rparr> # drop (Suc i) (window q)"
    and "beyond q' = beyond q @
          map (\<lambda>s. s\<lparr>invalid := False\<rparr>) (takeWhile vacant (take i (window q)))"
    and "head q' = qindex q (length (takeWhile vacant (take i (window q))))"
    and "tail q' = tail q" and "num_elements q' = num_elements q - 1"
    and "chan_type q' = chan_type q" "send_endpt q' = send_endpt q" "recv_endpt q' = recv_endpt q"
proof -
  have ht: "head q < QN" "tail q < QN" using inv by (simp_all add: queue_inv_def)
  have hne: "head q \<noteq> tail q" using qlen_zero [OF inv] i by auto
  define w where "w = window q ! i"
  let ?n = "q\<lparr>num_elements := num_elements q - 1\<rparr>"
  let ?m = "put_element ?n (qindex q i) (\<lambda>s. s\<lparr>invalid := True\<rparr>)"
  have nsl: "window ?n = window q" "beyond ?n = beyond q" "qlen ?n = qlen q" "qindex ?n = qindex q"
    by (simp_all add: window_def beyond_def slots_def qlen_def qindex_def fun_eq_iff)
  have wm: "window ?m = take i (window q) @ w\<lparr>invalid := True\<rparr> # drop (Suc i) (window q)"
      "beyond ?m = beyond q"
    using window_put_lt [of i ?n] beyond_put_lt [of i ?n] i
    by (simp_all add: nsl w_def upd_conv_take_nth_drop)
  have nv: "\<not> vacant (w\<lparr>invalid := True\<rparr>)" using om by (simp add: w_def vacant_def open_msg_def)
  have dw: "dropWhile vacant (window ?m) =
      dropWhile vacant (take i (window q)) @ w\<lparr>invalid := True\<rparr> # drop (Suc i) (window q)"
    and tw: "takeWhile vacant (window ?m) = takeWhile vacant (take i (window q))"
    unfolding wm using nv by (simp_all add: takeWhile_stop dropWhile_stop)
  have ne: "dropWhile vacant (window ?m) \<noteq> []" unfolding dw by simp
  have hm: "head ?m < QN" "tail ?m < QN" using ht by simp_all
  from compact_queue_view [OF hm ne] obtain q2 where
    c: "mcapi_trans_compact_queue ?m = Some q2" "tail q2 = tail ?m" "num_elements q2 = num_elements ?m"
      "chan_type q2 = chan_type ?m" "send_endpt q2 = send_endpt ?m" "recv_endpt q2 = recv_endpt ?m"
      "head q2 = qindex ?m (length (takeWhile vacant (window ?m)))"
      "window q2 = dropWhile vacant (window ?m)"
      "beyond q2 = beyond ?m @ map (\<lambda>s. s\<lparr>invalid := False\<rparr>) (takeWhile vacant (window ?m))"
    by blast
  have "for_first (\<lambda>i. request (elements q (qindex q i)) = 0 \<and>
      buff_index (elements q (qindex q i)) \<noteq> 0) 0 QN = i"
    using i om first lt_qlen_QN [OF i(2)]
    by (intro for_first_eqI) (auto simp: window_nth open_msg_def)
  moreover have "qindex q i \<noteq> head q"
    using qindex_inj [of i 0 q] i lt_qlen_QN [OF i(2)] qindex_0 [OF ht(1)] by auto
  ultimately have "mcapi_trans_pop_queue q = Some (qindex q i, q2)"
    using hne c(1) lt_qlen_QN [OF i(2)]
    by (simp add: mcapi_trans_pop_queue_def mcapi_assert_def Let_def)
  then show thesis
    using c unfolding dw tw wm(2) by (intro that [of q2]) (simp_all add: w_def nsl)
qed

lemma recv_middle_view:
  assumes inv: "queue_inv q" and i: "0 < i" "i < qlen q" and om: "open_msg (window q ! i)"
    and first: "\<forall>j<i. \<not> open_msg (window q ! j)"
  obtains q' where "ring_recv q = Some (buff_index (window q ! i), q')"
    and "window q' = dropWhile vacant (take i (window q)) @
          (window q ! i)\<lparr>invalid := True, buff_index := 0\<rparr> # drop (Suc i) (window q)"
    and "beyond q' = beyond q @
          map (\<lambda>s. s\<lparr>invalid := False\<rparr>) (takeWhile vacant (take i (window q)))"
    and "head q' < QN" and "tail q' < QN" and "num_elements q' = num_elements q - 1"
    and "chan_type q' = chan_type q" "send_endpt q' = send_endpt q" "recv_endpt q' = recv_endpt q"
proof (rule pop_middle [OF assms])
  fix q2 let ?k = "length (takeWhile vacant (take i (window q)))"
  assume pop: "mcapi_trans_pop_queue q = Some (qindex q i, q2)"
    and w: "window q2 = dropWhile vacant (take i (window q)) @
          (window q ! i)\<lparr>invalid := True\<rparr> # drop (Suc i) (window q)"
    and b: "beyond q2 = beyond q @
          map (\<lambda>s. s\<lparr>invalid := False\<rparr>) (takeWhile vacant (take i (window q)))"
    and h: "head q2 = qindex q ?k"
    and fr: "tail q2 = tail q" "num_elements q2 = num_elements q - 1"
      "chan_type q2 = chan_type q" "send_endpt q2 = send_endpt q" "recv_endpt q2 = recv_endpt q"
  have k: "?k \<le> i" using length_takeWhile_le [of vacant "take i (window q)"] by simp
  have "qindex q2 (i - ?k) = (head q + ?k + (i - ?k)) mod QN"
    unfolding qindex_def h by (simp only: mod_add_left_eq)
  also have "head q + ?k + (i - ?k) = head q + i" using k by simp
  finally have j: "qindex q i = qindex q2 (i - ?k)" by (simp only: qindex_def)
  have pre: "length (dropWhile vacant (take i (window q))) = i - ?k"
    using i by (simp add: dropWhile_eq_drop)
  then have l2: "i - ?k < qlen q2"
    using arg_cong [OF w, of length] by simp
  have w2: "window q2 ! (i - ?k) = (window q ! i)\<lparr>invalid := True\<rparr>"
    unfolding w pre [symmetric] by (rule nth_append_length)
  let ?q = "put_element q2 (qindex q i) (\<lambda>s. s\<lparr>buff_index := 0\<rparr>)"
  have "window ?q = dropWhile vacant (take i (window q)) @
          (window q ! i)\<lparr>invalid := True, buff_index := 0\<rparr> # drop (Suc i) (window q)"
    unfolding j window_put_lt [OF l2] w2 unfolding w pre [symmetric]
    by (simp only: list_update_length)
  moreover have "beyond ?q = beyond q @
          map (\<lambda>s. s\<lparr>invalid := False\<rparr>) (takeWhile vacant (take i (window q)))"
    unfolding j beyond_put_lt [OF l2] b ..
  moreover have "buff_index (elements q2 (qindex q i)) = buff_index (window q ! i)"
    unfolding j window_nth [OF l2, symmetric] w2 by simp
  moreover have "head ?q < QN" "tail ?q < QN" using inv h fr by (simp_all add: queue_inv_def)
  ultimately show thesis
    using pop fr by (intro that [of ?q]) (simp_all add: ring_recv_def)
qed

text \<open>
  Both cases together: a queue with an unreserved message hands out the oldest one, keeps the
  order of all others and the pending requests.
\<close>

lemma abs_queue_cong:
  assumes "filter has_buff (window q') = filter has_buff (window q)"
    and "beyond q' = beyond q @ zs" and "\<forall>s\<in>set zs. request s = 0"
  shows "abs_queue q' = abs_queue q"
  using assms by (simp add: abs_queue_def filter_empty_conv)

lemma queue_inv_append_beyond:
  assumes inv: "queue_inv q" and w: "\<forall>s\<in>set (window q'). has_buff s \<and> \<not> invalid s \<or> bubble s"
    and b: "beyond q' = beyond q @ zs" and z: "\<forall>s\<in>set zs. request s = 0 \<and> \<not> has_buff s \<and> \<not> invalid s"
    and n: "unat (num_elements q') = length (filter has_buff (window q'))"
    and ht: "head q' < QN" "tail q' < QN"
  shows "queue_inv q'"
  using inv w b z n ht zeros_last_append0 [of "map request (beyond q)" "map request zs"]
  by (auto simp: queue_inv_def)


lemma takeWhile_filter_first:
  assumes "i < length xs" and "P (xs ! i)" and "\<forall>j<i. \<not> P (xs ! j)" and "\<And>x. P x \<Longrightarrow> Q x"
  shows "takeWhile (\<lambda>x. \<not> P x) (filter Q xs) = filter Q (take i xs)"
    and "dropWhile (\<lambda>x. \<not> P x) (filter Q xs) = xs ! i # filter Q (drop (Suc i) xs)"
proof -
  have xs: "filter Q xs = filter Q (take i xs) @ xs ! i # filter Q (drop (Suc i) xs)"
    using assms(1,2,4) by (subst id_take_nth_drop [OF assms(1)]) simp
  have "\<forall>x\<in>set (filter Q (take i xs)). \<not> P x"
    using assms(1,3) by (auto simp: in_set_conv_nth)
  then show "takeWhile (\<lambda>x. \<not> P x) (filter Q xs) = filter Q (take i xs)"
    and "dropWhile (\<lambda>x. \<not> P x) (filter Q xs) = xs ! i # filter Q (drop (Suc i) xs)"
    unfolding xs using assms(2) by (simp_all add: takeWhile_append dropWhile_append)
qed

lemma aq_recv_abs:
  assumes i: "i < qlen q" and om: "open_msg (window q ! i)" and first: "\<forall>j<i. \<not> open_msg (window q ! j)"
  shows "aq_recv (abs_queue q) = Some (buff_index (window q ! i), (abs_queue q)\<lparr>amsgs :=
     map (\<lambda>s. (request s, buff_index s)) (filter has_buff (take i (window q) @ drop (Suc i) (window q)))\<rparr>)"
proof -
  let ?m = "\<lambda>s. (request s, buff_index s)"
  let ?f = "filter has_buff (window q)"
  have c: "\<forall>s\<in>set ?f. fst (?m s) \<noteq> 0 \<longleftrightarrow> \<not> open_msg s"
    by (auto simp: open_msg_def has_buff_def)
  have t: "takeWhile (\<lambda>m. fst m \<noteq> 0) (map ?m ?f) = map ?m (takeWhile (\<lambda>s. \<not> open_msg s) ?f)"
    and d: "dropWhile (\<lambda>m. fst m \<noteq> 0) (map ?m ?f) = map ?m (dropWhile (\<lambda>s. \<not> open_msg s) ?f)"
    unfolding takeWhile_map dropWhile_map using c
    by (auto simp: comp_def intro!: arg_cong [where f = "map _"] takeWhile_cong dropWhile_cong)
  note tf = takeWhile_filter_first [of i "window q" open_msg has_buff]
  show ?thesis
    using tf i om first t d by (simp add: aq_recv_def abs_queue_def open_msg_def has_buff_def)
qed

text \<open>
  What a removal of the \<open>i\<close>-th window slot leaves: the other messages in their order, the
  vacated head slots behind the pending receives.
\<close>

lemma length_filter_nth:
  assumes "i < length xs" and "P (xs ! i)"
  shows "length (filter P xs) = Suc (length (filter P (take i xs @ drop (Suc i) xs)))"
  using assms by (subst id_take_nth_drop [of i xs]) simp_all

lemma queue_inv_removed:
  assumes inv: "queue_inv q" and i: "i < qlen q" and hb: "has_buff (window q ! i)"
    and w: "filter has_buff (window q') = filter has_buff (take i (window q) @ drop (Suc i) (window q))"
    and wok: "\<forall>s\<in>set (window q'). has_buff s \<and> \<not> invalid s \<or> bubble s"
    and b: "beyond q' = beyond q @ zs" and z: "\<forall>s\<in>set zs. request s = 0 \<and> \<not> has_buff s \<and> \<not> invalid s"
    and n: "num_elements q' = num_elements q - 1"
    and ht: "head q' < QN" "tail q' < QN"
  shows "queue_inv q'"
    and "abs_queue q' = (abs_queue q)\<lparr>amsgs := map (\<lambda>s. (request s, buff_index s))
           (filter has_buff (take i (window q) @ drop (Suc i) (window q)))\<rparr>"
proof -
  have "unat (num_elements q) = Suc (length (filter has_buff (window q')))"
    using inv length_filter_nth [of i "window q" has_buff] i hb unfolding queue_inv_def w by simp
  then have num: "unat (num_elements q') = length (filter has_buff (window q'))"
    using n by (simp add: unat_dec)
  show "queue_inv q'" by (rule queue_inv_append_beyond [OF inv wok b z num ht])
  show "abs_queue q' = (abs_queue q)\<lparr>amsgs := map (\<lambda>s. (request s, buff_index s))
           (filter has_buff (take i (window q) @ drop (Suc i) (window q)))\<rparr>"
    using w b z by (simp add: abs_queue_def filter_empty_conv)
qed

lemma set_dropWhile_subset: "x \<in> set (dropWhile P xs) \<Longrightarrow> x \<in> set xs"
  by (rule set_dropWhileD)

lemma vacated_slots: "s \<in> set (map (\<lambda>s. s\<lparr>invalid := False\<rparr>) (takeWhile vacant xs)) \<Longrightarrow>
   request s = 0 \<and> \<not> has_buff s \<and> \<not> invalid s"
  by (auto simp: vacant_def has_buff_def dest: set_takeWhileD)


lemma recv_head_refines:
  assumes inv: "queue_inv q" and w: "window q = w # ws" and ow: "open_msg w"
  obtains q' where "ring_recv q = Some (buff_index w, q')" and "queue_inv q'"
    and "aq_recv (abs_queue q) = Some (buff_index w, abs_queue q')" and "qlen q' \<le> qlen q"
    and "chan_type q' = chan_type q" "send_endpt q' = send_endpt q" "recv_endpt q' = recv_endpt q"
proof (rule recv_head_view [OF assms])
  fix q' let ?zs = "w\<lparr>buff_index := 0\<rparr> # map (\<lambda>s. s\<lparr>invalid := False\<rparr>) (takeWhile vacant ws)"
  assume r: "ring_recv q = Some (buff_index w, q')" and w': "window q' = dropWhile vacant ws"
    and b': "beyond q' = beyond q @ ?zs" and ht: "head q' < QN" "tail q' < QN"
    and n: "num_elements q' = num_elements q - 1"
    and fr: "chan_type q' = chan_type q" "send_endpt q' = send_endpt q" "recv_endpt q' = recv_endpt q"
  have i: "0 < qlen q" using arg_cong [OF w, of length] by simp
  have w0: "window q ! 0 = w" "take 0 (window q) @ drop (Suc 0) (window q) = ws" by (simp_all add: w)
  have om: "open_msg (window q ! 0)" "has_buff (window q ! 0)"
    using ow by (simp_all add: w0 open_msg_def has_buff_def)
  have wq: "\<forall>s\<in>set (window q). has_buff s \<and> \<not> invalid s \<or> bubble s"
    using inv by (simp add: queue_inv_def)
  have zs: "\<forall>s\<in>set ?zs. request s = 0 \<and> \<not> has_buff s \<and> \<not> invalid s"
  proof -
    have "has_buff w \<and> \<not> invalid w \<or> bubble w" using wq w by simp
    then have "request w = 0 \<and> \<not> invalid w" using ow by (auto simp: open_msg_def bubble_def)
    then have "request (w\<lparr>buff_index := 0\<rparr>) = 0 \<and> \<not> has_buff (w\<lparr>buff_index := 0\<rparr>) \<and>
        \<not> invalid (w\<lparr>buff_index := 0\<rparr>)" by (simp add: has_buff_def)
    then show ?thesis using vacated_slots unfolding list.set(2) by blast
  qed
  have fw: "filter has_buff (window q') = filter has_buff (take 0 (window q) @ drop (Suc 0) (window q))"
    by (simp add: w' w filter_has_buff_dropWhile)
  have wok: "\<forall>s\<in>set (window q'). has_buff s \<and> \<not> invalid s \<or> bubble s"
    using wq w by (auto simp: w' dest: set_dropWhileD)
  note m = queue_inv_removed [OF inv i om(2) fw wok b' zs n ht]
  have "aq_recv (abs_queue q) = Some (buff_index w, abs_queue q')"
    using aq_recv_abs [OF i om(1)] unfolding m(2) w0(1) by simp
  moreover have "qlen q' \<le> qlen q"
    using arg_cong [OF w', of length] arg_cong [OF w, of length] length_dropWhile_le [of vacant ws] by simp
  ultimately show thesis using r m(1) fr by (intro that [of q'])
qed

lemma recv_middle_refines:
  assumes inv: "queue_inv q" and i0: "0 < i" and i: "i < qlen q" and om: "open_msg (window q ! i)"
    and first: "\<forall>j<i. \<not> open_msg (window q ! j)"
  obtains q' where "ring_recv q = Some (buff_index (window q ! i), q')" and "queue_inv q'"
    and "aq_recv (abs_queue q) = Some (buff_index (window q ! i), abs_queue q')" and "qlen q' \<le> qlen q"
    and "chan_type q' = chan_type q" "send_endpt q' = send_endpt q" "recv_endpt q' = recv_endpt q"
proof (rule recv_middle_view [OF assms])
  fix q' let ?zs = "map (\<lambda>s. s\<lparr>invalid := False\<rparr>) (takeWhile vacant (take i (window q)))"
  let ?s = "(window q ! i)\<lparr>invalid := True, buff_index := 0\<rparr>"
  assume r: "ring_recv q = Some (buff_index (window q ! i), q')"
    and w': "window q' = dropWhile vacant (take i (window q)) @ ?s # drop (Suc i) (window q)"
    and b': "beyond q' = beyond q @ ?zs" and ht: "head q' < QN" "tail q' < QN"
    and n: "num_elements q' = num_elements q - 1"
    and fr: "chan_type q' = chan_type q" "send_endpt q' = send_endpt q" "recv_endpt q' = recv_endpt q"
  have bs: "bubble ?s" "\<not> has_buff ?s" using om by (simp_all add: bubble_def open_msg_def has_buff_def)
  have hb: "has_buff (window q ! i)" using om by (simp add: open_msg_def has_buff_def)
  have wq: "\<forall>s\<in>set (window q). has_buff s \<and> \<not> invalid s \<or> bubble s"
    using inv by (simp add: queue_inv_def)
  have zs: "\<forall>s\<in>set ?zs. request s = 0 \<and> \<not> has_buff s \<and> \<not> invalid s"
    using vacated_slots by blast
  have fw: "filter has_buff (window q') = filter has_buff (take i (window q) @ drop (Suc i) (window q))"
    using bs(2) by (simp add: w' filter_has_buff_dropWhile)
  have wok: "\<forall>s\<in>set (window q'). has_buff s \<and> \<not> invalid s \<or> bubble s"
  proof -
    have "set (window q') \<subseteq> insert ?s (set (window q))"
      unfolding w' using set_take_subset set_drop_subset set_dropWhileD
      by (fastforce dest!: set_dropWhileD in_set_takeD in_set_dropD)
    then show ?thesis using wq bs(1) by blast
  qed
  note m = queue_inv_removed [OF inv i hb fw wok b' zs n ht]
  have "aq_recv (abs_queue q) = Some (buff_index (window q ! i), abs_queue q')"
    by (simp only: m(2) aq_recv_abs [OF i om first])
  moreover have "qlen q' \<le> qlen q"
    using arg_cong [OF w', of length] i length_dropWhile_le [of vacant "take i (window q)"] by simp
  ultimately show thesis using r m(1) fr by (intro that [of q'])
qed

lemma ring_recv_refines:
  assumes inv: "queue_inv q" and ne: "\<not> mcapi_trans_empty_queue q"
  obtains b q' where "ring_recv q = Some (b, q')" and "queue_inv q'"
    and "aq_recv (abs_queue q) = Some (b, abs_queue q')" and "qlen q' \<le> qlen q"
    and "chan_type q' = chan_type q" "send_endpt q' = send_endpt q" "recv_endpt q' = recv_endpt q"
proof -
  from pop_index [OF inv ne] obtain i where i: "i < qlen q" and om: "open_msg (window q ! i)"
    and first: "\<forall>j<i. \<not> open_msg (window q ! j)" by blast
  show thesis
  proof (cases "i = 0")
    case True
    obtain w ws where w: "window q = w # ws"
      using i by (metis length_window list.exhaust list.size(3) not_less_zero)
    with om True have "open_msg w" by simp
    from recv_head_refines [OF inv w this] that show thesis by metis
  next
    case False
    then have "0 < i" by simp
    from recv_middle_refines [OF inv this i om first] that show thesis by metis
  qed
qed

section \<open>The ring as a first-in first-out channel\<close>

text \<open>
  For a sender and a receiver the ring is a bounded channel of buffer indices: sending fails only
  when it is full, receiving only when it has no unreserved message.
\<close>

definition ring_put :: "u32 \<Rightarrow> queue \<Rightarrow> queue option" where
  "ring_put b q = (if mcapi_trans_full_queue q then None else ring_send q b)"

definition ring_get :: "queue \<Rightarrow> (u32 \<times> queue) option" where
  "ring_get q = (if mcapi_trans_empty_queue q then None else ring_recv q)"

definition ring_msgs :: "queue \<Rightarrow> u32 list" where
  "ring_msgs q = map snd (filter (\<lambda>m. fst m = 0) (amsgs (abs_queue q)))"

definition ring_room :: "queue \<Rightarrow> nat" where
  "ring_room q = QN - 1 - qlen q"

definition ring_ok :: "queue \<Rightarrow> bool" where
  "ring_ok q \<longleftrightarrow> queue_inv q \<and> apend (abs_queue q) = []"

lemma aq_recv_msgs:
  assumes "aq_recv a = Some (b, a')"
  shows "map snd (filter (\<lambda>m. fst m = 0) (amsgs a)) = b # map snd (filter (\<lambda>m. fst m = 0) (amsgs a'))"
    and "apend a' = apend a"
proof -
  obtain m ms where d: "dropWhile (\<lambda>m. fst m \<noteq> 0) (amsgs a) = m # ms" and b: "b = snd m"
    and a': "a' = a\<lparr>amsgs := takeWhile (\<lambda>m. fst m \<noteq> 0) (amsgs a) @ ms\<rparr>"
    using assms by (auto simp: aq_recv_def split: list.splits)
  have t: "filter (\<lambda>m. fst m = 0) (takeWhile (\<lambda>m. fst m \<noteq> 0) xs) = []" for xs :: "(u32 \<times> u32) list"
    by (auto simp: filter_empty_conv dest: set_takeWhileD)
  have m: "fst m = 0" using d by (metis (mono_tags) dropWhile_eq_Cons_conv)
  have "amsgs a = takeWhile (\<lambda>m. fst m \<noteq> 0) (amsgs a) @ m # ms"
    using takeWhile_dropWhile_id [of "\<lambda>m. fst m \<noteq> 0" "amsgs a"] d by simp
  from arg_cong [OF this, of "filter (\<lambda>m. fst m = 0)"]
  have "filter (\<lambda>m. fst m = 0) (amsgs a) = m # filter (\<lambda>m. fst m = 0) ms" using m t by simp
  then show "map snd (filter (\<lambda>m. fst m = 0) (amsgs a)) = b # map snd (filter (\<lambda>m. fst m = 0) (amsgs a'))"
    by (simp add: a' b t)
  show "apend a' = apend a" by (simp add: a')
qed

lemma ring_room_pos: "queue_inv q \<Longrightarrow> 0 < ring_room q \<longleftrightarrow> \<not> mcapi_trans_full_queue q"
  using full_queue_qlen [of q] qlen_less [of q] unfolding ring_room_def by linarith

lemma ring_msgs_empty: "queue_inv q \<Longrightarrow> mcapi_trans_empty_queue q \<longleftrightarrow> ring_msgs q = []"
  by (simp add: empty_queue_window abs_empty ring_msgs_def filter_empty_conv)

interpretation ring: fifo_channel ring_ok ring_msgs ring_room "\<lambda>b. b \<noteq> 0" ring_put ring_get
proof unfold_locales
  fix q :: queue and b :: u32
  assume ok: "ring_ok q" and b: "b \<noteq> 0" and room: "0 < ring_room q"
  then have inv: "queue_inv q" and nf: "\<not> mcapi_trans_full_queue q"
    by (simp_all add: ring_ok_def ring_room_pos)
  from ring_send_refines [OF inv nf b] obtain q' where "ring_send q b = Some q'" "queue_inv q'"
    "abs_queue q' = aq_send b (abs_queue q)" "qlen q' = Suc (qlen q)" by blast
  then show "\<exists>q'. ring_put b q = Some q' \<and> ring_ok q' \<and> ring_msgs q' = ring_msgs q @ [b] \<and>
      ring_room q' = ring_room q - 1"
    using ok nf by (simp add: ring_put_def ring_ok_def ring_msgs_def ring_room_def aq_send_def)
next
  fix q :: queue and b bs
  assume ok: "ring_ok q" and v: "ring_msgs q = b # bs"
  then have inv: "queue_inv q" and ne: "\<not> mcapi_trans_empty_queue q"
    by (simp_all add: ring_ok_def ring_msgs_empty)
  from ring_recv_refines [OF inv ne] obtain b' q' where r: "ring_recv q = Some (b', q')" "queue_inv q'"
    "aq_recv (abs_queue q) = Some (b', abs_queue q')" "qlen q' \<le> qlen q" by metis
  from aq_recv_msgs [OF r(3)] v ok r ne
  show "\<exists>q'. ring_get q = Some (b, q') \<and> ring_ok q' \<and> ring_msgs q' = bs \<and> ring_room q \<le> ring_room q'"
    by (auto simp: ring_get_def ring_ok_def ring_msgs_def ring_room_def)
qed

lemma zero_queue_inv: "queue_inv zero_queue" "abs_queue zero_queue = \<lparr>amsgs = [], apend = []\<rparr>"
proof -
  have z: "qlen zero_queue = 0" by (simp add: qlen_def ring_dist_def)
  have s: "slots zero_queue = replicate QN zero_descriptor"
    by (rule nth_equalityI) (simp_all add: nth_slots)
  show "queue_inv zero_queue"
    by (simp add: queue_inv_def window_def beyond_def z s has_buff_def zeros_last_zeros)
  show "abs_queue zero_queue = \<lparr>amsgs = [], apend = []\<rparr>"
    by (simp add: abs_queue_def window_def beyond_def z s)
qed

lemma ring_ok_zero: "ring_ok zero_queue" "ring_msgs zero_queue = []" "ring_room zero_queue = 64"
  using zero_queue_inv by (simp_all add: ring_ok_def ring_msgs_def ring_room_def qlen_def ring_dist_def mcapi_limits)

text \<open>Within the room that the ring has, its sends and receives run as on a list.\<close>

lemma ring_runs_as_list:
  assumes "ring_ok q" and "length (puts as) \<le> ring_room q" and "\<forall>b\<in>set (puts as). b \<noteq> 0"
    and "list_run as (ring_msgs q) = Some (out, rest)"
  shows "\<exists>q'. run_actions ring_put ring_get as q = Some (out, q') \<and> ring_ok q' \<and> ring_msgs q' = rest \<and>
     ring_msgs q @ puts as = out @ rest"
  using ring.run_refines [OF assms] list_run_order [OF assms(4)] by blast

lemma compact_queue_refines:
  assumes inv: "queue_inv q"
  obtains q' where "mcapi_trans_compact_queue q = Some q'" and "queue_inv q'" and "abs_queue q' = abs_queue q"
    and "tail q' = tail q" and "num_elements q' = num_elements q" and "window q' = dropWhile vacant (window q)"
    and "chan_type q' = chan_type q" "send_endpt q' = send_endpt q" "recv_endpt q' = recv_endpt q"
proof -
  have b: "head q < QN" "tail q < QN" using inv by (simp_all add: queue_inv_def)
  have n: "dropWhile vacant (window q) \<noteq> []" if "0 < num_elements q"
    using that inv by (intro dropWhile_vacant_nonempty) (auto simp: num_elements_pos queue_inv_def)
  show thesis
  proof (rule compact_queue_view [OF b n])
    fix q' assume c: "mcapi_trans_compact_queue q = Some q'"
      and h: "head q' < QN" "tail q' = tail q" "num_elements q' = num_elements q"
      and k: "chan_type q' = chan_type q" "send_endpt q' = send_endpt q" "recv_endpt q' = recv_endpt q"
      and w: "window q' = dropWhile vacant (window q)"
      and be: "beyond q' = beyond q @ map (\<lambda>s. s\<lparr>invalid := False\<rparr>) (takeWhile vacant (window q))"
    have f: "filter has_buff (window q') = filter has_buff (window q)" by (simp add: w filter_has_buff_dropWhile)
    have z: "\<forall>s\<in>set (map (\<lambda>s. s\<lparr>invalid := False\<rparr>) (takeWhile vacant (window q))). request s = 0 \<and> \<not> has_buff s \<and> \<not> invalid s"
      using vacated_slots by blast
    have i: "queue_inv q'"
      by (rule queue_inv_append_beyond [OF inv _ be z])
        (use inv h f b in \<open>auto simp: w queue_inv_def dest: set_dropWhile_subset\<close>)
    have a: "abs_queue q' = abs_queue q" by (rule abs_queue_cong [OF f be]) (use z in blast)
    show thesis by (rule that [OF c i a h(2,3) w k])
  qed
qed

text \<open>
  C29: Compaction always ends, and only moves the head over the holes in front of the oldest
  message: the messages, their order, their requests, the pending requests, the count and the
  tail are as before, and afterwards the ring is empty or has a message or a request at its head,
  so that a second compaction changes nothing.
\<close>

theorem compact_queue_keeps:
  assumes "queue_inv q"
  shows "\<exists>q'. mcapi_trans_compact_queue q = Some q' \<and> queue_inv q' \<and> abs_queue q' = abs_queue q \<and>
     tail q' = tail q \<and> num_elements q' = num_elements q \<and> qlen q' \<le> qlen q \<and>
     (head q' = tail q' \<or> request (elements q' (head q')) \<noteq> 0 \<or> buff_index (elements q' (head q')) \<noteq> 0) \<and>
     mcapi_trans_compact_queue q' = Some q'"
proof (rule compact_queue_refines [OF assms])
  fix q' assume c: "mcapi_trans_compact_queue q = Some q'" and i: "queue_inv q'" and a: "abs_queue q' = abs_queue q"
    and t: "tail q' = tail q" "num_elements q' = num_elements q" and w: "window q' = dropWhile vacant (window q)"
  have l: "qlen q' \<le> qlen q" using arg_cong [OF w, of length] length_dropWhile_le [of vacant "window q"] by simp
  have h: "head q' < QN" using i by (simp add: queue_inv_def)
  have hd: "head q' = tail q' \<or> \<not> vacant (elements q' (head q'))"
  proof (cases "window q' = []")
    case False
    then have "0 < qlen q'" by (metis length_greater_0_conv length_window)
    then have "window q' ! 0 = elements q' (head q')" using window_nth qindex_0 h by simp
    moreover have "\<not> vacant (window q' ! 0)" using False w by (metis hd_conv_nth hd_dropWhile)
    ultimately show ?thesis by simp
  qed (simp add: window_Nil [OF i])
  have "head q' \<noteq> tail q'" if "0 < num_elements q'"
    using that i window_Nil [OF i] by (auto simp: num_elements_pos queue_inv_def)
  then have "mcapi_trans_compact_queue q' = Some q'"
    unfolding mcapi_trans_compact_queue_def compact_loop_stop [OF h hd] by simp
  then show ?thesis using c i a t l hd by (auto simp: vacant_def)
qed

theorem compact_queue_keeps_witness:
  "\<exists>q'. mcapi_trans_compact_queue (zero_queue\<lparr>num_elements := 1, tail := 2, elements := (\<lambda>_. zero_descriptor)
       (0 := zero_descriptor\<lparr>invalid := True\<rparr>, 1 := zero_descriptor\<lparr>buff_index := 0x80000000\<rparr>)\<rparr>) = Some q' \<and>
     abs_queue q' = \<lparr>amsgs = [(0, 0x80000000)], apend = []\<rparr>"
proof -
  let ?q = "zero_queue\<lparr>num_elements := 1, tail := 2, elements := (\<lambda>_. zero_descriptor)
       (0 := zero_descriptor\<lparr>invalid := True\<rparr>, 1 := zero_descriptor\<lparr>buff_index := 0x80000000\<rparr>)\<rparr>"
  have "queue_inv ?q" by code_simp
  moreover have "abs_queue ?q = \<lparr>amsgs = [(0, 0x80000000)], apend = []\<rparr>" by code_simp
  ultimately show ?thesis using compact_queue_keeps [of ?q] by auto
qed

end
