(* ===== verification/MCAPI_Reservation.thy ===== *)
theory MCAPI_Reservation
  imports MCAPI_Queue
begin

text \<open>
  Receive requests in the receive queue: the reservation made by \<open>setup_request_have_lock\<close>,
  the delivery to a reserved slot by \<open>check_receive_request_have_lock\<close> and the shift of the
  remaining reservations by \<open>cancel_receive_request_have_lock\<close> (\<open>transport_sm_request.c\<close>),
  each against the abstract queue of messages and pending receives.
\<close>

section \<open>Reservations\<close>

text \<open>No request is recorded twice in a queue.\<close>

definition aq_requests :: "aqueue \<Rightarrow> u32 list" where
  "aq_requests a = filter (\<lambda>r. r \<noteq> 0) (map fst (amsgs a)) @ apend a"

definition aq_distinct :: "aqueue \<Rightarrow> bool" where
  "aq_distinct a \<longleftrightarrow> distinct (aq_requests a)"

lemma window_requests:
  assumes inv: "queue_inv q"
  shows "filter (\<lambda>r. r \<noteq> 0) (map request (window q)) = filter (\<lambda>r. r \<noteq> 0) (map fst (amsgs (abs_queue q)))"
proof -
  have w: "\<forall>s\<in>set (window q). has_buff s \<or> request s = 0"
    using inv by (auto simp: queue_inv_def bubble_def)
  have "filter (\<lambda>r. r \<noteq> 0) (map request xs) = filter (\<lambda>r. r \<noteq> 0) (map request (filter has_buff xs))"
    if "\<forall>s\<in>set xs. has_buff s \<or> request s = 0" for xs
    using that by (induction xs) auto
  from this [OF w] show ?thesis by (simp add: abs_queue_def comp_def)
qed

lemma slots_requests:
  assumes inv: "queue_inv q"
  shows "filter (\<lambda>r. r \<noteq> 0) (map request (slots q)) = aq_requests (abs_queue q)"
  using window_requests [OF inv] by (simp add: slots_split aq_requests_def abs_queue_def)

lemma distinct_slot:
  assumes inv: "queue_inv q" and d: "aq_distinct (abs_queue q)" and rq: "rq \<noteq> 0"
    and i: "i < QN" "request (slots q ! i) = rq" and j: "j < QN" "request (slots q ! j) = rq"
  shows "i = j"
proof (rule ccontr)
  assume ne: "i \<noteq> j"
  have dist: "distinct (filter (\<lambda>r. r \<noteq> 0) (map request (slots q)))"
    using d slots_requests [OF inv] by (simp add: aq_distinct_def)
  have key: "a = b" if "distinct (filter P xs)" "a < length xs" "b < length xs" "xs ! a = xs ! b" "P (xs ! a)"
    for P and xs :: "u32 list" and a b
    using that
  proof (induction xs arbitrary: a b)
    case (Cons x xs)
    then show ?case
      by (cases a; cases b) (auto split: if_splits simp: in_set_conv_nth dest: nth_mem)
  qed simp
  from key [OF dist, of i j] ne i j rq show False by simp
qed

text \<open>The loop over all slots that looks for a request, from index 0.\<close>

definition find_request :: "queue \<Rightarrow> u32 \<Rightarrow> nat" where
  "find_request q rq = for_first (\<lambda>i. request (elements q i) = rq) 0 MCAPI_MAX_QUEUE_ENTRIES"

lemma position_of_slot:
  assumes "head q < QN" and "x < QN"
  obtains j where "j < QN" and "x = qindex q j"
  using assms ring_dist_add [of "head q" QN x] ring_dist_less [of QN "head q" x]
  unfolding qindex_def by (metis queue_entries_pos(1))

lemma find_request_slot:
  assumes inv: "queue_inv q" and d: "aq_distinct (abs_queue q)" and rq: "rq \<noteq> 0"
    and j: "j < QN" "request (slots q ! j) = rq"
  shows "find_request q rq = qindex q j"
proof -
  let ?x = "find_request q rq"
  have h: "head q < QN" using inv by (simp add: queue_inv_def)
  have "\<exists>x<QN. request (elements q x) = rq" using j nth_slots [of j q] qindex_less by metis
  then have x: "?x < QN" "request (elements q ?x) = rq"
    using for_first_hit [of "\<lambda>i. request (elements q i) = rq" 0 QN]
    by (simp_all add: find_request_def for_first_some)
  from position_of_slot [OF h x(1)] obtain k where k: "k < QN" "?x = qindex q k" by blast
  with x have "request (slots q ! k) = rq" by (simp add: nth_slots)
  with distinct_slot [OF inv d rq k(1) _ j] k show ?thesis by simp
qed

lemma find_request_none:
  assumes inv: "queue_inv q" and rq: "rq \<noteq> 0" and out: "rq \<notin> set (aq_requests (abs_queue q))"
  shows "find_request q rq = QN"
proof -
  have h: "head q < QN" using inv by (simp add: queue_inv_def)
  have out': "rq \<notin> request ` set (slots q)"
    using out rq unfolding slots_requests [OF inv, symmetric] by auto
  have "request (elements q x) \<noteq> rq" if x: "x < QN" for x
  proof -
    from position_of_slot [OF h x] obtain j where "j < QN" "x = qindex q j" by blast
    then have "elements q x \<in> set (slots q)" by (metis nth_slots length_slots nth_mem)
    with out' show ?thesis by force
  qed
  then show ?thesis by (simp add: find_request_def for_first_none)
qed

subsection \<open>Reserving the next free slot\<close>

lemma zeros_last_first:
  "zeros_last rs \<Longrightarrow> k = length (filter (\<lambda>r. r \<noteq> 0) rs) \<Longrightarrow> k < length rs \<Longrightarrow>
   rs ! k = 0 \<and> (\<forall>j<k. rs ! j \<noteq> 0) \<and>
   filter (\<lambda>r. r \<noteq> 0) (rs[k := r]) = filter (\<lambda>r. r \<noteq> 0) rs @ filter (\<lambda>r. r \<noteq> 0) [r] \<and>
   zeros_last (rs[k := r])"
proof (induction rs arbitrary: k)
  case (Cons x rs)
  show ?case
  proof (cases "x = 0")
    case True
    then have "\<forall>y\<in>set rs. y = 0" using Cons.prems(1) by (simp add: zeros_last_Cons)
    then have "filter (\<lambda>r. r \<noteq> 0) rs = []" by (simp add: filter_empty_conv)
    with True Cons.prems \<open>\<forall>y\<in>set rs. y = 0\<close> show ?thesis
      by (auto simp: zeros_last_Cons zeros_last_zeros)
  next
    case False
    then obtain k' where k: "k = Suc k'" "k' = length (filter (\<lambda>r. r \<noteq> 0) rs)"
      using Cons.prems(2) by simp
    with False Cons.prems Cons.IH [of k'] show ?thesis
      by (auto simp: zeros_last_Cons nth_Cons split: nat.split)
  qed
qed simp

lemma reserved_window:
  assumes inv: "queue_inv q" and e: "mcapi_trans_empty_queue q" and i: "i < qlen q"
  shows "\<not> (request (elements q (qindex q i)) = 0 \<and> \<not> invalid (elements q (qindex q i)))"
proof -
  have "window q ! i \<in> set (window q)" using i by simp
  then have "has_buff (window q ! i) \<and> \<not> invalid (window q ! i) \<or> bubble (window q ! i)"
    "\<not> open_msg (window q ! i)"
    using inv e empty_queue_window [OF inv] unfolding queue_inv_def by blast+
  then show ?thesis using window_nth [OF i] by (auto simp: bubble_def open_msg_def has_buff_def)
qed

lemma reserve_index:
  assumes inv: "queue_inv q" and e: "mcapi_trans_empty_queue q"
  shows "for_first (\<lambda>i. request (elements q (qindex q i)) = 0 \<and> \<not> invalid (elements q (qindex q i))) 0 QN
     = min QN (qlen q + length (apend (abs_queue q)))"
proof -
  let ?p = "\<lambda>i. request (elements q (qindex q i)) = 0 \<and> \<not> invalid (elements q (qindex q i))"
  let ?k = "length (apend (abs_queue q))"
  note win = reserved_window [OF inv e]
  have z: "zeros_last (map request (beyond q))" using inv by (simp add: queue_inv_def)
  have kk: "?k = length (filter (\<lambda>r. r \<noteq> 0) (map request (beyond q)))" by (simp add: abs_queue_def)
  then have kle: "?k \<le> QN - qlen q"
    using length_filter_le [of "\<lambda>r. r \<noteq> 0" "map request (beyond q)"] by simp
  have req: "\<not> ?p i" if i: "i < qlen q + ?k" "i < QN" for i
  proof (cases "i < qlen q")
    case False
    have "map request (beyond q) ! (i - qlen q) \<noteq> 0"
    proof (cases "?k < QN - qlen q")
      case True
      with zeros_last_first [OF z kk] i False show ?thesis by simp
    next
      case False': False
      then have "\<forall>r\<in>set (map request (beyond q)). r \<noteq> 0"
        using kk length_filter_less [of _ "map request (beyond q)" "\<lambda>r. r \<noteq> 0"]
        by (metis length_beyond length_map)
      then show ?thesis using i False by (metis length_map length_beyond nth_mem diff_less_mono not_less)
    qed
    then show ?thesis using beyond_nth [of "i - qlen q" q] i False by simp
  qed (rule win)
  show ?thesis
  proof (cases "?k < QN - qlen q")
    case True
    then have hit: "map request (beyond q) ! ?k = 0" using zeros_last_first [OF z kk] by simp
    have "beyond q ! ?k \<in> set (beyond q)" using True by simp
    then have "\<not> invalid (beyond q ! ?k)" using inv by (auto simp: queue_inv_def)
    with hit True have "?p (qlen q + ?k)" by (simp add: beyond_nth)
    then have "for_first ?p 0 QN = qlen q + ?k"
      using True req by (intro for_first_eqI) auto
    with True show ?thesis by simp
  next
    case False
    then have "for_first ?p 0 QN = QN" using req kle by (auto simp: for_first_none)
    with False kle show ?thesis by simp
  qed
qed

lemma reserve_slot_refines:
  assumes inv: "queue_inv q" and e: "mcapi_trans_empty_queue q" and rq: "rq \<noteq> 0"
    and room: "qlen q + length (apend (abs_queue q)) < QN"
  obtains q' where "reserve_slot q rq = Some q'" and "queue_inv q'"
    and "abs_queue q' = aq_reserve rq (abs_queue q)"
    and "chan_type q' = chan_type q" "send_endpt q' = send_endpt q" "recv_endpt q' = recv_endpt q"
    and "window q' = window q"
proof -
  define k where "k = length (apend (abs_queue q))"
  let ?q = "put_element q (qindex q (qlen q + k)) (\<lambda>s. s\<lparr>request := rq\<rparr>)"
  have r: "reserve_slot q rq = Some ?q"
    using reserve_index [OF inv e] room by (simp add: reserve_slot_def Let_def k_def)
  have w: "window ?q = window q" using room [folded k_def] by (simp add: window_put_ge)
  have b: "beyond ?q = (beyond q)[k := (beyond q ! k)\<lparr>request := rq\<rparr>]"
    using room [folded k_def] by (simp add: beyond_put_ge)
  have z: "zeros_last (map request (beyond q))" using inv by (simp add: queue_inv_def)
  have kk: "k = length (filter (\<lambda>r. r \<noteq> 0) (map request (beyond q)))" by (simp add: k_def abs_queue_def)
  have kb: "k < length (map request (beyond q))" using room [folded k_def] by simp
  note zl = zeros_last_first [OF z kk kb, of rq]
  have mb: "map request (beyond ?q) = (map request (beyond q))[k := rq]" by (simp add: b map_update)
  have "\<not> has_buff (beyond q ! k) \<and> \<not> invalid (beyond q ! k)"
    using inv kb nth_mem [of k "beyond q"] unfolding queue_inv_def length_map by blast
  then have "\<not> has_buff ((beyond q ! k)\<lparr>request := rq\<rparr>) \<and> \<not> invalid ((beyond q ! k)\<lparr>request := rq\<rparr>)"
    by (simp add: has_buff_def)
  then have "\<forall>s\<in>set (beyond ?q). \<not> has_buff s \<and> \<not> invalid s"
    using inv set_update_subset_insert [of "beyond q" k "(beyond q ! k)\<lparr>request := rq\<rparr>"]
    unfolding queue_inv_def b by blast
  moreover have "zeros_last (map request (beyond ?q))" unfolding mb using zl by blast
  ultimately have "queue_inv ?q" using inv unfolding queue_inv_def w put_element_sel by blast
  moreover have "abs_queue ?q = aq_reserve rq (abs_queue q)"
  proof -
    have "filter (\<lambda>r. r \<noteq> 0) (map request (beyond ?q)) =
        filter (\<lambda>r. r \<noteq> 0) (map request (beyond q)) @ [rq]"
      unfolding mb using zl rq by simp
    then show ?thesis by (simp add: abs_queue_def aq_reserve_def w)
  qed
  ultimately show thesis using r w by (intro that [of ?q]) simp_all
qed

lemma reserve_slot_full:
  assumes "queue_inv q" and "mcapi_trans_empty_queue q"
    and "QN \<le> qlen q + length (apend (abs_queue q))"
  shows "reserve_slot q rq = None"
  using reserve_index [OF assms(1,2)] assms(3) by (simp add: reserve_slot_def Let_def)

subsection \<open>Delivering to the request that reserved the slot\<close>

text \<open>
  The queue's side of \<open>check_receive_request_have_lock\<close>: the reservation and the buffer index
  are cleared, the slot becomes a bubble and the queue is compacted.
\<close>

definition ring_take :: "queue \<Rightarrow> nat \<Rightarrow> queue option" where
  "ring_take q x =
     (let q = put_element q x (\<lambda>s. s\<lparr>request := 0\<rparr>);
          q = put_element q x (\<lambda>s. s\<lparr>buff_index := 0\<rparr>);
          q = q\<lparr>num_elements := num_elements q - 1\<rparr>;
          q = put_element q x (\<lambda>s. s\<lparr>invalid := True\<rparr>)
      in mcapi_trans_compact_queue q)"

lemma put_element_put [simp]:
  "put_element (put_element q x f) x g = put_element q x (g \<circ> f)"
  by (simp add: put_element_def)

lemma ring_take_eq:
  "ring_take q x = mcapi_trans_compact_queue (put_element (q\<lparr>num_elements := num_elements q - 1\<rparr>) x
     (\<lambda>s. s\<lparr>request := 0, buff_index := 0, invalid := True\<rparr>))"
  by (simp add: ring_take_def put_element_def Let_def comp_def)

lemma filter_removed_nth:
  assumes "distinct (filter (\<lambda>r. r \<noteq> 0) (map f xs))" and "i < length xs" and "f (xs ! i) = r" and "r \<noteq> 0"
  shows "take i xs @ drop (Suc i) xs = filter (\<lambda>x. f x \<noteq> r) xs"
  using assms
proof (induction xs arbitrary: i)
  case (Cons x xs)
  show ?case
  proof (cases i)
    case 0
    with Cons.prems have "r \<notin> set (filter (\<lambda>r. r \<noteq> 0) (map f xs))" by auto
    then have "\<forall>y\<in>set xs. f y \<noteq> r" using Cons.prems(4) by auto
    with 0 Cons.prems(3) show ?thesis by (simp add: filter_id_conv)
  next
    case (Suc i')
    with Cons.prems have "r \<in> set (filter (\<lambda>r. r \<noteq> 0) (map f xs))" by (auto intro!: image_eqI [OF _ nth_mem])
    with Cons.prems(1,4) have "f x \<noteq> r" by (auto split: if_splits)
    with Suc Cons.prems Cons.IH [of i'] show ?thesis by (auto split: if_splits)
  qed
qed simp

lemma ring_take_removed:
  assumes inv: "queue_inv q" and i: "i < qlen q" and hb: "has_buff (window q ! i)"
  obtains q' where "ring_take q (qindex q i) = Some q'" and "queue_inv q'"
    and "abs_queue q' = (abs_queue q)\<lparr>amsgs := map (\<lambda>s. (request s, buff_index s))
           (filter has_buff (take i (window q) @ drop (Suc i) (window q)))\<rparr>"
    and "chan_type q' = chan_type q" "send_endpt q' = send_endpt q" "recv_endpt q' = recv_endpt q"
proof -
  let ?n = "q\<lparr>num_elements := num_elements q - 1\<rparr>"
  define s where "s = (window q ! i)\<lparr>request := 0, buff_index := 0, invalid := True\<rparr>"
  define m where "m = put_element ?n (qindex q i) (\<lambda>s. s\<lparr>request := 0, buff_index := 0, invalid := True\<rparr>)"
  have nsl: "window ?n = window q" "beyond ?n = beyond q" "qlen ?n = qlen q" "qindex ?n = qindex q"
    by (simp_all add: window_def beyond_def slots_def qlen_def qindex_def fun_eq_iff)
  have wm: "window m = take i (window q) @ s # drop (Suc i) (window q)" "beyond m = beyond q"
    using window_put_lt [of i ?n] beyond_put_lt [of i ?n] i
    by (simp_all add: nsl m_def s_def upd_conv_take_nth_drop)
  have sb: "bubble s" "\<not> has_buff s" by (simp_all add: s_def bubble_def has_buff_def)
  have fm: "filter has_buff (window m) = filter has_buff (take i (window q) @ drop (Suc i) (window q))"
    using sb by (simp add: wm)
  have wq: "\<forall>s\<in>set (window q). has_buff s \<and> \<not> invalid s \<or> bubble s"
    using inv by (simp add: queue_inv_def)
  have "set (window m) \<subseteq> insert s (set (window q))"
    unfolding wm by (auto dest: in_set_takeD in_set_dropD)
  then have wmok: "\<forall>s\<in>set (window m). has_buff s \<and> \<not> invalid s \<or> bubble s" using wq sb by blast
  have "length (filter has_buff (window q)) = Suc (length (filter has_buff (window m)))"
    unfolding fm using i hb by (intro length_filter_nth) simp_all
  then have "unat (num_elements m) = length (filter has_buff (window m))"
    using inv by (simp add: m_def unat_dec queue_inv_def)
  then have ne: "dropWhile vacant (window m) \<noteq> []" if "0 < num_elements m"
    using that dropWhile_vacant_nonempty [of "window m"] unfolding num_elements_pos by auto
  have ht: "head m < QN" "tail m < QN" using inv by (simp_all add: m_def queue_inv_def)
  show thesis
  proof (rule compact_queue_view [OF ht ne])
    fix q' let ?zs = "map (\<lambda>s. s\<lparr>invalid := False\<rparr>) (takeWhile vacant (window m))"
    assume c: "mcapi_trans_compact_queue m = Some q'" and h: "head q' < QN" "tail q' = tail m"
      and n: "num_elements q' = num_elements m"
      and fr: "chan_type q' = chan_type m" "send_endpt q' = send_endpt m" "recv_endpt q' = recv_endpt m"
      and w: "window q' = dropWhile vacant (window m)" and b: "beyond q' = beyond m @ ?zs"
    have t: "tail q' < QN" using h ht by simp
    have n': "num_elements q' = num_elements q - 1" using n by (simp add: m_def)
    have fw: "filter has_buff (window q') = filter has_buff (take i (window q) @ drop (Suc i) (window q))"
      unfolding w filter_has_buff_dropWhile fm ..
    have wok: "\<forall>s\<in>set (window q'). has_buff s \<and> \<not> invalid s \<or> bubble s"
      using wmok unfolding w by (blast dest: set_dropWhileD)
    have zs: "\<forall>s\<in>set ?zs. request s = 0 \<and> \<not> has_buff s \<and> \<not> invalid s" using vacated_slots by blast
    note r = queue_inv_removed [OF inv i hb fw wok b [unfolded wm(2)] zs n' h(1) t]
    show thesis by (rule that [of q']) (use c r fr in \<open>simp_all add: ring_take_eq m_def\<close>)
  qed assumption
qed

lemma ring_take_refines:
  assumes inv: "queue_inv q" and d: "aq_distinct (abs_queue q)"
    and i: "i < qlen q" "request (window q ! i) = rq" and rq: "rq \<noteq> 0"
  obtains q' where "ring_take q (qindex q i) = Some q'" and "queue_inv q'"
    and "abs_queue q' = aq_take rq (abs_queue q)"
    and "chan_type q' = chan_type q" "send_endpt q' = send_endpt q" "recv_endpt q' = recv_endpt q"
proof -
  have "window q ! i \<in> set (window q)" using i by simp
  then have hb: "has_buff (window q ! i)"
    using inv i rq unfolding queue_inv_def bubble_def by blast
  have "distinct (filter (\<lambda>r. r \<noteq> 0) (map request (window q)))"
    using d window_requests [OF inv] by (simp add: aq_distinct_def aq_requests_def)
  from filter_removed_nth [OF this _ i(2) rq] i(1)
  have eq: "take i (window q) @ drop (Suc i) (window q) = filter (\<lambda>s. request s \<noteq> rq) (window q)" by simp
  have sw: "filter has_buff (filter (\<lambda>s. request s \<noteq> rq) xs) = filter (\<lambda>s. request s \<noteq> rq) (filter has_buff xs)"
    for xs by (induction xs) auto
  show thesis
  proof (rule ring_take_removed [OF inv i(1) hb])
    fix q' assume r: "ring_take q (qindex q i) = Some q'" "queue_inv q'"
      and a: "abs_queue q' = (abs_queue q)\<lparr>amsgs := map (\<lambda>s. (request s, buff_index s))
           (filter has_buff (take i (window q) @ drop (Suc i) (window q)))\<rparr>"
      and fr: "chan_type q' = chan_type q" "send_endpt q' = send_endpt q" "recv_endpt q' = recv_endpt q"
    have "abs_queue q' = aq_take rq (abs_queue q)"
      unfolding a eq sw by (simp add: aq_take_def abs_queue_def filter_map comp_def)
    with r fr show thesis by (intro that [of q'])
  qed
qed

subsection \<open>Cancelling a reservation\<close>

text \<open>
  The second loop of \<open>cancel_receive_request_have_lock\<close> moves each later reservation down into
  the slot of the one before it; it stops when it comes to the tail or around to the head.
\<close>

function cancel_shift :: "nat \<Rightarrow> queue \<Rightarrow> nat \<Rightarrow> nat \<Rightarrow> queue" where
  "cancel_shift start q lst i =
     (if i < MCAPI_MAX_QUEUE_ENTRIES then
        let curr = (i + start) mod MCAPI_MAX_QUEUE_ENTRIES in
        if curr = tail q \<and> curr \<noteq> start then q
        else if curr = head q \<and> curr \<noteq> start then q
        else if request (elements q curr) \<noteq> 0 then
          let rq = request (elements q curr);
              q = put_element q lst (\<lambda>s. s\<lparr>request := rq\<rparr>);
              q = put_element q curr (\<lambda>s. s\<lparr>request := 0\<rparr>)
          in cancel_shift start q curr (Suc i)
        else cancel_shift start q lst (Suc i)
      else q)"
  by pat_completeness auto
termination
  by (relation "measure (\<lambda>(start, q, lst, i). MCAPI_MAX_QUEUE_ENTRIES - i)") auto

declare cancel_shift.simps [simp del]

definition ring_cancel :: "queue \<Rightarrow> u32 \<Rightarrow> queue option" where
  "ring_cancel q rq = (let i = find_request q rq in do {
     mcapi_assert (i \<noteq> MCAPI_MAX_QUEUE_ENTRIES);
     let q = put_element q i (\<lambda>s. s\<lparr>request := 0\<rparr>);
     Some (cancel_shift i q i 0)
   })"

lemma curr_position: "s \<le> k \<Longrightarrow> (k - s + qindex q s) mod QN = qindex q k"
  unfolding qindex_def mod_add_right_eq by (simp add: add.commute)

lemma cancel_shift_zeros:
  assumes "head q < QN" and "\<forall>k'. k \<le> k' \<and> k' < QN \<longrightarrow> request (slots q ! k') = 0"
    and "0 < k" "s < k" "k \<le> QN" "i = k - s"
  shows "cancel_shift (qindex q s) q l i = q"
  using assms(2-)
proof (induction "QN - k" arbitrary: k i)
  case 0
  show ?case
  proof (cases "s = 0")
    case False
    have "(i + qindex q s) mod QN = head q"
      using 0 curr_position [of s k q] assms(1) by (simp add: qindex_def)
    moreover have "qindex q s \<noteq> head q"
      using False 0 qindex_inj [of s 0 q] qindex_0 [OF assms(1)] by auto
    ultimately show ?thesis by (subst cancel_shift.simps) (simp add: Let_def)
  qed (use 0 in \<open>simp add: cancel_shift.simps\<close>)
next
  case (Suc m)
  have c: "(i + qindex q s) mod QN = qindex q k" using Suc curr_position [of s k q] by simp
  have "request (elements q (qindex q k)) = 0"
    using Suc.prems(1) Suc.hyps(2) nth_slots [of k q] by (metis order_refl zero_less_Suc zero_less_diff)
  moreover have "i < QN" using Suc.prems(4,5) Suc.hyps(2) by linarith
  moreover have "cancel_shift (qindex q s) q l (Suc i) = q"
    by (rule Suc.hyps(1) [of "Suc k"]) (use Suc in auto)
  ultimately show ?case by (subst cancel_shift.simps) (simp add: Let_def c)
qed

text \<open>What only moves requests leaves the buffers and the bubbles where they are.\<close>

abbreviation "payload s \<equiv> s\<lparr>request := 0\<rparr>"


lemma cancel_shift_done:
  assumes "head q < QN" "0 < k" "s < k" "k \<le> QN" and "request (slots q ! (k - 1)) = 0"
    and z: "\<forall>k'. k \<le> k' \<and> k' < QN \<longrightarrow> request (slots q ! k') = 0"
  shows "cancel_shift (qindex q s) q l (k - s) = q"
    and "map request (slots q) =
      take (k - 1) (map request (slots q)) @ drop k (map request (slots q)) @ [0]"
proof -
  show "cancel_shift (qindex q s) q l (k - s) = q"
    using assms by (intro cancel_shift_zeros [where k = k]) auto
  have "request (slots q ! j) = 0" if "k - 1 \<le> j" "j < QN" for j
    using that assms(5) z by (cases "j = k - 1") auto
  then show "map request (slots q) =
      take (k - 1) (map request (slots q)) @ drop k (map request (slots q)) @ [0]"
    using assms(2,4) by (intro nth_equalityI) (auto simp: nth_append)
qed

lemma cancel_shift_move:
  assumes "head q < QN" and "tail q < QN" and "qlen q \<le> s" "s < k" "k < QN"
    and "request (slots q ! k) \<noteq> 0"
  shows "cancel_shift (qindex q s) q (qindex q (k - 1)) (k - s) =
    cancel_shift (qindex q s)
      (put_element (put_element q (qindex q (k - 1)) (\<lambda>t. t\<lparr>request := request (slots q ! k)\<rparr>))
        (qindex q k) (\<lambda>t. t\<lparr>request := 0\<rparr>)) (qindex q k) (Suc k - s)"
proof -
  have c: "(k - s + qindex q s) mod QN = qindex q k" using assms(4) curr_position [of s k q] by simp
  have tl: "tail q = qindex q (qlen q)" using assms(1,2) by (simp add: qindex_def qlen_def ring_dist_add)
  have "qindex q k \<noteq> tail q" using qindex_inj [of k "qlen q" q] assms(3-5) tl by auto
  moreover have "qindex q k \<noteq> head q"
    using qindex_inj [of k 0 q] assms(4,5) qindex_0 [OF assms(1)] by auto
  moreover have "k - s < QN" "Suc k - s = Suc (k - s)" using assms(4,5) by simp_all
  ultimately show ?thesis
    using assms(5,6) by (simp only: cancel_shift.simps [of _ _ _ "k - s"] Let_def c nth_slots) simp
qed

lemma take_drop_shift:
  assumes "0 < k" and "k < length rs"
  shows "take k (rs[k - 1 := rs ! k, k := z]) @ drop (Suc k) (rs[k - 1 := rs ! k, k := z]) @ zs
    = take (k - 1) rs @ drop k rs @ zs"
proof -
  obtain j where k: "k = Suc j" using assms(1) by (cases k) auto
  have "take k (rs[k - 1 := rs ! k, k := z]) = take j rs @ [rs ! k]"
    using assms by (intro nth_equalityI) (auto simp: nth_append nth_list_update less_Suc_eq k)
  then show ?thesis using assms by (simp add: k Cons_nth_drop_Suc [symmetric])
qed

lemma cancel_shift_view:
  assumes "head q < QN" and "tail q < QN" and "qlen q \<le> s" "s < k" "k \<le> QN"
    and "request (slots q ! (k - 1)) = 0" and "zeros_last (map request (drop k (slots q)))"
  shows "\<exists>q'. cancel_shift (qindex q s) q (qindex q (k - 1)) (k - s) = q' \<and>
    head q' = head q \<and> tail q' = tail q \<and> num_elements q' = num_elements q \<and>
    chan_type q' = chan_type q \<and> send_endpt q' = send_endpt q \<and> recv_endpt q' = recv_endpt q \<and>
    map payload (slots q') = map payload (slots q) \<and>
    map request (slots q') = take (k - 1) (map request (slots q)) @ drop k (map request (slots q)) @ [0]"
  using assms
proof (induction "QN - k" arbitrary: k q)
  case 0
  then have "cancel_shift (qindex q s) q (qindex q (k - 1)) (k - s) = q"
    and "map request (slots q) = take (k - 1) (map request (slots q)) @ drop k (map request (slots q)) @ [0]"
    by (intro cancel_shift_done; auto)+
  then show ?case by simp
next
  case (Suc m)
  then have k: "k < QN" "0 < k" by auto
  let ?rs = "map request (slots q)"
  have dk: "map request (drop k (slots q)) = ?rs ! k # map request (drop (Suc k) (slots q))"
    using k by (simp add: Cons_nth_drop_Suc [symmetric])
  show ?case
  proof (cases "?rs ! k = 0")
    case True
    have "request (slots q ! k') = 0" if "k \<le> k'" "k' < QN" for k'
    proof -
      have "\<forall>r\<in>set (map request (drop k (slots q))). r = 0"
        using Suc.prems(7) True unfolding dk zeros_last_Cons by simp
      moreover have "slots q ! k' \<in> set (drop k (slots q))"
        using that by (auto simp: set_conv_nth intro!: exI [of _ "k' - k"])
      ultimately show ?thesis by simp
    qed
    then have "cancel_shift (qindex q s) q (qindex q (k - 1)) (k - s) = q"
      and "?rs = take (k - 1) ?rs @ drop k ?rs @ [0]"
      using Suc.prems k by (intro cancel_shift_done; simp)+
    then show ?thesis by simp
  next
    case False
    let ?p = "put_element q (qindex q (k - 1)) (\<lambda>t. t\<lparr>request := ?rs ! k\<rparr>)"
    define p where "p = put_element ?p (qindex q k) (\<lambda>t. t\<lparr>request := 0\<rparr>)"
    have sp: "slots p = (slots q)[k - 1 := (slots q ! (k - 1))\<lparr>request := ?rs ! k\<rparr>,
        k := (slots q ! k)\<lparr>request := 0\<rparr>]"
      using k slots_put [of "k - 1" q] slots_put [of k ?p] by (simp add: p_def)
    have rp: "map request (slots p) = ?rs[k - 1 := ?rs ! k, k := 0]" using k by (simp add: sp map_update)
    have pp: "map payload (slots p) = map payload (slots q)"
      by (rule nth_equalityI) (use k in \<open>auto simp: sp nth_list_update\<close>)
    have hp: "qindex p = qindex q" "head p = head q" "tail p = tail q" "num_elements p = num_elements q"
      "chan_type p = chan_type q" "send_endpt p = send_endpt q" "recv_endpt p = recv_endpt q" "qlen p = qlen q"
      by (simp_all add: p_def)
    have "m = QN - Suc k" using Suc.hyps(2) by simp
    moreover have "request (slots p ! (Suc k - 1)) = 0" using k by (simp add: sp)
    moreover have "zeros_last (map request (drop (Suc k) (slots p)))"
      using Suc.prems(7) False unfolding dk zeros_last_Cons by (simp add: sp)
    ultimately have IH: "\<exists>q'. cancel_shift (qindex p s) p (qindex p (Suc k - 1)) (Suc k - s) = q' \<and>
      head q' = head p \<and> tail q' = tail p \<and> num_elements q' = num_elements p \<and>
      chan_type q' = chan_type p \<and> send_endpt q' = send_endpt p \<and> recv_endpt q' = recv_endpt p \<and>
      map payload (slots q') = map payload (slots p) \<and>
      map request (slots q') = take (Suc k - 1) (map request (slots p)) @
        drop (Suc k) (map request (slots p)) @ [0]"
      using Suc.prems k hp by (intro Suc.hyps(1)) auto
    have "cancel_shift (qindex q s) q (qindex q (k - 1)) (k - s) =
        cancel_shift (qindex q s) p (qindex q k) (Suc k - s)"
      using cancel_shift_move [of q s k] Suc.prems k False by (simp add: p_def)
    moreover have "take k (map request (slots p)) @ drop (Suc k) (map request (slots p)) @ [0]
        = take (k - 1) ?rs @ drop k ?rs @ [0]"
      unfolding rp using k by (intro take_drop_shift) simp_all
    ultimately show ?thesis using IH unfolding hp pp diff_Suc_1 by simp
  qed
qed

lemma payload_parts:
  assumes "map payload xs = map payload ys"
  shows "map has_buff xs = map has_buff ys" and "map invalid xs = map invalid ys"
    and "map buff_index xs = map buff_index ys"
proof -
  have l: "length xs = length ys" using assms by (metis length_map)
  have "payload s = payload t \<Longrightarrow> buff_index s = buff_index t \<and> invalid s = invalid t"
    for s t :: buffer_descriptor by (cases s; cases t) simp
  moreover have "payload (xs ! i) = payload (ys ! i)" if "i < length ys" for i
    using assms that l by (metis nth_map)
  ultimately have "buff_index (xs ! i) = buff_index (ys ! i) \<and> invalid (xs ! i) = invalid (ys ! i)"
    if "i < length ys" for i using that by blast
  then show "map has_buff xs = map has_buff ys" "map invalid xs = map invalid ys"
    "map buff_index xs = map buff_index ys"
    using l by (simp_all add: list_eq_iff_nth_eq has_buff_def)
qed

definition aq_cancel :: "u32 \<Rightarrow> aqueue \<Rightarrow> aqueue" where
  "aq_cancel r a = a\<lparr>apend := filter (\<lambda>x. x \<noteq> r) (apend a)\<rparr>"

lemma map_eq_slots:
  assumes "map payload xs = map payload ys" and "map request xs = map request ys"
  shows "xs = ys"
proof (rule nth_equalityI)
  show l: "length xs = length ys" using assms(1) by (metis length_map)
  fix i assume "i < length xs"
  then have "payload (xs ! i) = payload (ys ! i)" "request (xs ! i) = request (ys ! i)"
    using assms l by (metis nth_map)+
  then show "xs ! i = ys ! i"
    by (metis buffer_descriptor.surjective buffer_descriptor.update_convs(1))
qed

lemma zeros_last_remove:
  "zeros_last rs \<Longrightarrow> p < length rs \<Longrightarrow> zeros_last (take p rs @ drop (Suc p) rs @ [0])"
proof (induction rs arbitrary: p)
  case (Cons x rs)
  show ?case
  proof (cases p)
    case 0
    with Cons.prems zeros_last_tl [of "x # rs"] show ?thesis by (simp add: zeros_last_append0)
  next
    case (Suc n)
    with Cons.prems Cons.IH [of n] show ?thesis
      using in_set_takeD [of _ n rs] in_set_dropD [of _ "Suc n" rs]
      by (auto simp: zeros_last_Cons split: if_splits)
  qed
qed simp

lemma zeros_last_drop: "zeros_last rs \<Longrightarrow> zeros_last (drop n rs)"
  by (induction n arbitrary: rs) (auto simp: drop_Suc zeros_last_tl)

text \<open>
  Cancelling a request that still waits for a message removes it and keeps the order of the
  receives that wait behind it.
\<close>

lemma cancel_pending_slots:
  assumes inv: "queue_inv q" and p: "p < QN - qlen q"
  defines "q0 \<equiv> put_element q (qindex q (qlen q + p)) (\<lambda>s. s\<lparr>request := 0\<rparr>)"
  obtains q' where "cancel_shift (qindex q (qlen q + p)) q0 (qindex q (qlen q + p)) 0 = q'"
    and "head q' = head q" "tail q' = tail q" "num_elements q' = num_elements q"
    and "chan_type q' = chan_type q" "send_endpt q' = send_endpt q" "recv_endpt q' = recv_endpt q"
    and "window q' = window q" and "map payload (beyond q') = map payload (beyond q)"
    and "map request (beyond q') =
      take p (map request (beyond q)) @ drop (Suc p) (map request (beyond q)) @ [0]"
proof -
  let ?s = "qlen q + p"
  have s: "?s < QN" "qlen q \<le> ?s" using p by simp_all
  have h: "head q < QN" "tail q < QN" using inv by (simp_all add: queue_inv_def)
  have q0: "qindex q0 = qindex q" "head q0 = head q" "tail q0 = tail q" "num_elements q0 = num_elements q"
      "chan_type q0 = chan_type q" "send_endpt q0 = send_endpt q" "recv_endpt q0 = recv_endpt q" "qlen q0 = qlen q"
    by (simp_all add: q0_def)
  have sl: "slots q0 = (slots q)[?s := payload (slots q ! ?s)]" using s by (simp add: q0_def slots_put)
  have step: "cancel_shift (qindex q ?s) q0 (qindex q ?s) 0 = cancel_shift (qindex q ?s) q0 (qindex q ?s) (Suc 0)"
  proof -
    have "request (elements q0 (qindex q ?s)) = 0" by (simp add: q0_def put_element_def)
    then show ?thesis by (subst cancel_shift.simps) (simp add: Let_def)
  qed
  have "zeros_last (map request (drop (Suc p) (beyond q)))"
    using inv zeros_last_drop [of "map request (beyond q)" "Suc p"] by (simp add: queue_inv_def drop_map)
  then have z: "zeros_last (map request (drop (Suc ?s) (slots q0)))"
    by (simp add: sl beyond_def add.commute)
  have "request (slots q0 ! (Suc ?s - 1)) = 0" using s by (simp add: sl)
  note view = cancel_shift_view [of q0 ?s "Suc ?s", unfolded q0 diff_Suc_1, OF h s(2) lessI Suc_leI [OF s(1)]
      this [unfolded diff_Suc_1] z]
  have "Suc ?s - ?s = Suc 0" by simp
  from view [unfolded this] obtain q' where
      c: "cancel_shift (qindex q ?s) q0 (qindex q ?s) (Suc 0) = q'"
    and fr: "head q' = head q" "tail q' = tail q" "num_elements q' = num_elements q"
      "chan_type q' = chan_type q" "send_endpt q' = send_endpt q" "recv_endpt q' = recv_endpt q"
    and pl: "map payload (slots q') = map payload (slots q0)"
    and rq: "map request (slots q') = take ?s (map request (slots q0)) @ drop (Suc ?s) (map request (slots q0)) @ [0]"
    by blast
  have pl': "map payload (slots q') = map payload (slots q)"
    unfolding pl sl using s by (simp add: map_update list_update_same_conv)
  have ql: "qlen q' = qlen q" using fr by (simp add: qlen_def)
  have rq': "map request (slots q') = map request (window q) @
      take p (map request (beyond q)) @ drop (Suc p) (map request (beyond q)) @ [0]"
  proof -
    have "map request (slots q0) = map request (window q) @ (map request (beyond q))[p := 0]"
      unfolding sl slots_split [of q] using s by (simp add: map_update list_update_append)
    then show ?thesis unfolding rq by simp
  qed
  have split: "map f (window q') = xs" "map f (beyond q') = ys"
    if "map f (slots q') = xs @ ys" and "length xs = qlen q" for f and xs ys :: "'b list"
    using that append_eq_append_conv [of "map f (window q')" xs "map f (beyond q')" ys]
    by (simp_all add: slots_split [of q'] ql)
  from split [OF pl' [unfolded slots_split [of q] map_append]]
  have pw: "map payload (window q') = map payload (window q)"
    and pb: "map payload (beyond q') = map payload (beyond q)" by simp_all
  from split [OF rq'] have rw: "map request (window q') = map request (window q)"
    and rb: "map request (beyond q') =
      take p (map request (beyond q)) @ drop (Suc p) (map request (beyond q)) @ [0]" by simp_all
  show thesis by (rule that [OF c [folded step] fr map_eq_slots [OF pw rw] pb rb])
qed

lemma ring_cancel_pending:
  assumes inv: "queue_inv q" and d: "aq_distinct (abs_queue q)"
    and rq: "rq \<in> set (apend (abs_queue q))"
  obtains q' where "ring_cancel q rq = Some q'" and "queue_inv q'"
    and "abs_queue q' = aq_cancel rq (abs_queue q)"
    and "chan_type q' = chan_type q" "send_endpt q' = send_endpt q" "recv_endpt q' = recv_endpt q"
proof -
  let ?rs = "map request (beyond q)"
  from rq have nz: "rq \<noteq> 0" and "rq \<in> set ?rs" by (auto simp: abs_queue_def)
  then obtain p where p: "p < QN - qlen q" "?rs ! p = rq" by (auto simp: in_set_conv_nth)
  have "request (slots q ! (qlen q + p)) = rq" "qlen q + p < QN" using p by (simp_all add: beyond_def)
  from find_request_slot [OF inv d nz this(2,1)] have f: "find_request q rq = qindex q (qlen q + p)" .
  have dr: "distinct (filter (\<lambda>r. r \<noteq> 0) ?rs)"
    using d by (simp add: aq_distinct_def aq_requests_def abs_queue_def)
  have rm: "take p ?rs @ drop (Suc p) ?rs = filter (\<lambda>x. x \<noteq> rq) ?rs"
    using filter_removed_nth [of "\<lambda>x. x" ?rs p rq] dr p nz by simp
  show thesis
  proof (rule cancel_pending_slots [OF inv p(1)])
    fix q' assume c: "cancel_shift (qindex q (qlen q + p)) (put_element q (qindex q (qlen q + p)) payload)
          (qindex q (qlen q + p)) 0 = q'"
      and fr: "head q' = head q" "tail q' = tail q" "num_elements q' = num_elements q"
        "chan_type q' = chan_type q" "send_endpt q' = send_endpt q" "recv_endpt q' = recv_endpt q"
      and w: "window q' = window q" and pl: "map payload (beyond q') = map payload (beyond q)"
      and r: "map request (beyond q') = take p ?rs @ drop (Suc p) ?rs @ [0]"
    have "ring_cancel q rq = Some q'"
      using c less_imp_neq [OF qindex_less [of q "qlen q + p"]] by (simp add: ring_cancel_def f Let_def)
    moreover have "queue_inv q'"
    proof -
      have "zeros_last (map request (beyond q'))"
        unfolding r using inv p(1) by (intro zeros_last_remove) (simp_all add: queue_inv_def)
      moreover have "\<forall>s\<in>set (beyond q'). \<not> has_buff s \<and> \<not> invalid s"
      proof -
        have "\<forall>b\<in>set (map has_buff (beyond q)). \<not> b" "\<forall>b\<in>set (map invalid (beyond q)). \<not> b"
          using inv by (simp_all add: queue_inv_def)
        then show ?thesis unfolding payload_parts(1,2) [OF pl, symmetric] by simp
      qed
      ultimately show ?thesis using inv fr w unfolding queue_inv_def by simp
    qed
    moreover have "abs_queue q' = aq_cancel rq (abs_queue q)"
    proof -
      have "filter (\<lambda>r. r \<noteq> 0) (map request (beyond q')) = filter (\<lambda>r. r \<noteq> 0) (take p ?rs @ drop (Suc p) ?rs)"
        unfolding r by simp
      also have "\<dots> = filter (\<lambda>x. x \<noteq> rq) (filter (\<lambda>r. r \<noteq> 0) ?rs)" unfolding rm by (simp add: conj_commute)
      finally show ?thesis by (simp add: abs_queue_def aq_cancel_def w)
    qed
    ultimately show thesis using fr by (intro that [of q'])
  qed
qed

section \<open>The queue laws at the abstract level\<close>

text \<open>
  A queue in which a receive waits has no message that is not reserved: the two sides never
  wait for each other. All operations keep this, with the requests distinct.
\<close>

definition aq_met :: "aqueue \<Rightarrow> bool" where
  "aq_met a \<longleftrightarrow> (apend a \<noteq> [] \<longrightarrow> (\<forall>m\<in>set (amsgs a). fst m \<noteq> 0)) \<and>
     0 \<notin> set (apend a) \<and> aq_distinct a"

lemma aq_met_send: "aq_met a \<Longrightarrow> aq_met (aq_send b a)"
  by (cases "apend a") (auto simp: aq_met_def aq_send_def aq_distinct_def aq_requests_def)

lemma aq_met_recv:
  assumes "aq_met a" and "aq_recv a = Some (b, a')"
  shows "aq_met a'"
proof -
  obtain m ms where d: "dropWhile (\<lambda>m. fst m \<noteq> 0) (amsgs a) = m # ms" and b: "b = snd m"
    and a': "a' = a\<lparr>amsgs := takeWhile (\<lambda>m. fst m \<noteq> 0) (amsgs a) @ ms\<rparr>"
    using assms(2) by (auto simp: aq_recv_def split: list.splits)
  have split: "amsgs a = takeWhile (\<lambda>m. fst m \<noteq> 0) (amsgs a) @ m # ms"
    using takeWhile_dropWhile_id [of "\<lambda>m. fst m \<noteq> 0" "amsgs a"] d by simp
  have m: "fst m = 0" using d by (metis (mono_tags) dropWhile_eq_Cons_conv)
  have "filter (\<lambda>r. r \<noteq> 0) (map fst (amsgs a')) = filter (\<lambda>r. r \<noteq> 0) (map fst (amsgs a))"
    using m by (subst split) (simp add: a')
  then have "aq_requests a' = aq_requests a" by (simp add: aq_requests_def a')
  moreover have "apend a = []"
  proof (rule ccontr)
    assume "apend a \<noteq> []"
    then have "\<forall>m\<in>set (amsgs a). fst m \<noteq> 0" using assms(1) unfolding aq_met_def by blast
    moreover have "m \<in> set (amsgs a)" by (subst split) simp
    ultimately show False using m by blast
  qed
  ultimately show ?thesis using assms(1) by (simp add: aq_met_def aq_distinct_def a')
qed

lemma aq_met_reserve:
  "aq_met a \<Longrightarrow> \<forall>m\<in>set (amsgs a). fst m \<noteq> 0 \<Longrightarrow> r \<noteq> 0 \<Longrightarrow> r \<notin> set (aq_requests a) \<Longrightarrow>
   aq_met (aq_reserve r a)"
  by (auto simp: aq_met_def aq_reserve_def aq_distinct_def aq_requests_def)

lemma filter_swap_fst:
  "filter (\<lambda>r. r \<noteq> 0) (map fst (filter (\<lambda>m. fst m \<noteq> r) ms)) = filter (\<lambda>x. x \<noteq> r) (filter (\<lambda>r. r \<noteq> 0) (map fst ms))"
  by (induction ms) auto

lemma aq_met_take: "aq_met a \<Longrightarrow> aq_met (aq_take r a)"
  by (auto simp: aq_met_def aq_take_def aq_distinct_def aq_requests_def filter_swap_fst
      simp del: filter_filter)

lemma aq_met_cancel: "aq_met a \<Longrightarrow> aq_met (aq_cancel r a)"
  by (auto simp: aq_met_def aq_cancel_def aq_distinct_def aq_requests_def)

section \<open>The ring as a bounded queue of messages and waiting receives\<close>

text \<open>
  The specification of the ring: a list of cells, each a message with its request (0 for none) or
  a hole, and the requests that wait. A hole at the front disappears; the ring is full at 64 cells.
\<close>

record aring =
  cells :: "(u32 \<times> u32) option list"
  waits :: "u32 list"

datatype ring_action = Send u32 | Receive | Reserve u32 | Compact

datatype ring_result = Done | Refused | Got u32

definition unread :: "(u32 \<times> u32) option \<Rightarrow> bool" where
  "unread c = (case c of Some (r, b) \<Rightarrow> r = 0 | None \<Rightarrow> False)"

fun spec_step :: "ring_action \<Rightarrow> aring \<Rightarrow> ring_result \<times> aring" where
  "spec_step (Send b) a =
     (if length (cells a) = MCAPI_MAX_QUEUE_ENTRIES - 1 then (Refused, a)
      else (Done, case waits a of [] \<Rightarrow> a\<lparr>cells := cells a @ [Some (0, b)]\<rparr>
                    | r # rs \<Rightarrow> a\<lparr>cells := cells a @ [Some (r, b)], waits := rs\<rparr>))"
| "spec_step Receive a =
     (let i = length (takeWhile (\<lambda>c. \<not> unread c) (cells a)) in
      if i = length (cells a) then (Refused, a)
      else (Got (snd (the (cells a ! i))), a\<lparr>cells := dropWhile Option.is_none ((cells a)[i := None])\<rparr>))"
| "spec_step (Reserve r) a =
     (if list_ex unread (cells a) \<or> length (cells a) + length (waits a) = MCAPI_MAX_QUEUE_ENTRIES then (Refused, a)
      else (Done, a\<lparr>waits := waits a @ [r]\<rparr>))"
| "spec_step Compact a = (Done, a\<lparr>cells := dropWhile Option.is_none (cells a)\<rparr>)"

fun spec_run :: "ring_action list \<Rightarrow> aring \<Rightarrow> ring_result list \<times> aring" where
  "spec_run [] a = ([], a)"
| "spec_run (x # xs) a = (let (r, a) = spec_step x a; (rs, a) = spec_run xs a in (r # rs, a))"

text \<open>
  The same on the ring, each operation behind the test that its callers make: a send is refused
  on a full ring, a receive on a ring without an unread message, and only then a receive reserves.
\<close>

fun ring_step :: "ring_action \<Rightarrow> queue \<Rightarrow> (ring_result \<times> queue) option" where
  "ring_step (Send b) q = (if mcapi_trans_full_queue q then Some (Refused, q) else map_option (Pair Done) (ring_send q b))"
| "ring_step Receive q =
     (if mcapi_trans_empty_queue q then Some (Refused, q) else map_option (\<lambda>(b, q). (Got b, q)) (ring_recv q))"
| "ring_step (Reserve r) q =
     (if \<not> mcapi_trans_empty_queue q then Some (Refused, q)
      else case reserve_slot q r of None \<Rightarrow> Some (Refused, q) | Some q \<Rightarrow> Some (Done, q))"
| "ring_step Compact q = map_option (Pair Done) (mcapi_trans_compact_queue q)"

fun ring_run :: "ring_action list \<Rightarrow> queue \<Rightarrow> (ring_result list \<times> queue) option" where
  "ring_run [] q = Some ([], q)"
| "ring_run (x # xs) q = do { (r, q) \<leftarrow> ring_step x q; (rs, q) \<leftarrow> ring_run xs q; Some (r # rs, q) }"

definition cell_of :: "buffer_descriptor \<Rightarrow> (u32 \<times> u32) option" where
  "cell_of s = (if has_buff s then Some (request s, buff_index s) else None)"

definition abs_ring :: "queue \<Rightarrow> aring" where
  "abs_ring q = \<lparr>cells = map cell_of (window q), waits = apend (abs_queue q)\<rparr>"

definition tidy :: "queue \<Rightarrow> bool" where
  "tidy q \<longleftrightarrow> queue_inv q \<and> (window q = [] \<or> \<not> vacant (hd (window q)))"

fun action_ok :: "ring_action \<Rightarrow> bool" where
  "action_ok (Send b) \<longleftrightarrow> b \<noteq> 0"
| "action_ok (Reserve r) \<longleftrightarrow> r \<noteq> 0"
| "action_ok _ \<longleftrightarrow> True"

lemma unread_cell [simp]: "unread (cell_of s) = open_msg s"
  by (simp add: unread_def cell_of_def open_msg_def has_buff_def)

lemma window_vacant: "queue_inv q \<Longrightarrow> s \<in> set (window q) \<Longrightarrow> vacant s = Option.is_none (cell_of s)"
  by (auto simp: queue_inv_def vacant_def bubble_def has_buff_def cell_of_def)

lemma cells_dropWhile:
  assumes "\<forall>s\<in>set xs. vacant s = Option.is_none (cell_of s)"
  shows "map cell_of (dropWhile vacant xs) = dropWhile Option.is_none (map cell_of xs)"
  using assms by (induction xs) auto

lemma tidy_dropWhile: "queue_inv q \<Longrightarrow> window q = dropWhile vacant xs \<Longrightarrow> tidy q"
  unfolding tidy_def by (metis hd_dropWhile)

lemma abs_ring_sel [simp]: "waits (abs_ring q) = apend (abs_queue q)" "cells (abs_ring q) = map cell_of (window q)"
  by (simp_all add: abs_ring_def)

lemma abs_ring_eqI: "map cell_of (window q) = cells a \<Longrightarrow> apend (abs_queue q) = waits a \<Longrightarrow> abs_ring q = a"
  by (simp add: abs_ring_def)

text \<open>One operation at a time.\<close>

lemma send_step:
  assumes t: "tidy q" and b: "b \<noteq> 0"
  shows "\<exists>q'. ring_step (Send b) q = Some (fst (spec_step (Send b) (abs_ring q)), q') \<and> tidy q' \<and>
     abs_ring q' = snd (spec_step (Send b) (abs_ring q))"
proof (cases "mcapi_trans_full_queue q")
  case True
  then show ?thesis using t full_queue_qlen [of q] by (simp add: tidy_def)
next
  case False
  have inv: "queue_inv q" using t by (simp add: tidy_def)
  have l: "length (cells (abs_ring q)) \<noteq> MCAPI_MAX_QUEUE_ENTRIES - 1" using full_queue_qlen [OF inv] False by simp
  from ring_send_refines [OF inv False b] obtain q' where s: "ring_send q b = Some q'" "queue_inv q'"
    "abs_queue q' = aq_send b (abs_queue q)" by metis
  from ring_send_view [OF inv False, of b] s(1) have w: "window q' = window q @ [(hd (beyond q))\<lparr>buff_index := b\<rparr>]"
    by (metis option.inject)
  obtain x xs where bx: "beyond q = x # xs" by (meson beyond_not_Nil list.exhaust)
  then have "zeros_last (request x # map request xs)" using inv by (simp add: queue_inv_def)
  then have rx: "request x = (case apend (abs_queue q) of [] \<Rightarrow> 0 | r # rs \<Rightarrow> r)"
    by (auto simp: abs_queue_def bx zeros_last_Cons filter_empty_conv split: list.split)
  have c: "map cell_of (window q') = cells (abs_ring q) @ [Some (request x, b)]"
    using b by (simp add: w bx cell_of_def has_buff_def)
  have "tidy q'"
  proof -
    have "\<not> vacant ((hd (beyond q))\<lparr>buff_index := b\<rparr>)" using b by (simp add: vacant_def)
    then show ?thesis using t s(2) w by (cases "window q") (auto simp: tidy_def)
  qed
  moreover have "abs_ring q' = snd (spec_step (Send b) (abs_ring q))"
    by (rule abs_ring_eqI) (use c l rx s(3) in \<open>auto simp: aq_send_def split: list.splits\<close>)
  ultimately show ?thesis using s(1) False l by (intro exI [of _ q']) (simp add: spec_step.simps)
qed

lemma first_unread:
  assumes "i < length xs" and "P (xs ! i)" and "\<forall>j<i. \<not> P (xs ! j)"
  shows "length (takeWhile (\<lambda>x. \<not> P x) xs) = i"
  using takeWhile_filter_first(1) [OF assms, of "\<lambda>_. True"] assms(1) by simp

lemma recv_window:
  assumes t: "tidy q" and i: "i < qlen q" "open_msg (window q ! i)" "\<forall>j<i. \<not> open_msg (window q ! j)"
    and r: "ring_recv q = Some (b, q')"
  shows "map cell_of (window q') = dropWhile Option.is_none ((map cell_of (window q))[i := None])"
    and "b = buff_index (window q ! i)" and "\<exists>xs. window q' = dropWhile vacant xs"
proof -
  have inv: "queue_inv q" using t by (simp add: tidy_def)
  obtain w ws where w: "window q = w # ws"
    using i(1) by (metis length_window list.exhaust list.size(3) not_less_zero)
  have v: "\<forall>s\<in>set (window q). vacant s = Option.is_none (cell_of s)" using window_vacant [OF inv] by blast
  have "map cell_of (window q') = dropWhile Option.is_none ((map cell_of (window q))[i := None]) \<and>
     b = buff_index (window q ! i) \<and> (\<exists>xs. window q' = dropWhile vacant xs)"
  proof (cases "i = 0")
    case True
    then have om: "open_msg w" using i(2) w by simp
    show ?thesis
    proof (rule recv_head_view [OF inv w om])
      fix q2 assume r2: "ring_recv q = Some (buff_index w, q2)" and w2: "window q2 = dropWhile vacant ws"
      have e: "b = buff_index w" "q' = q2" using r r2 by simp_all
      have "map cell_of (dropWhile vacant ws) = dropWhile Option.is_none (map cell_of ws)"
        using v w by (intro cells_dropWhile) simp
      then show ?thesis using True e w w2 by auto
    qed
  next
    case False
    then have i0: "0 < i" by simp
    have nv: "\<not> vacant w" using t w by (simp add: tidy_def)
    show ?thesis
    proof (rule recv_middle_view [OF inv i0 i])
      fix q2 let ?s = "(window q ! i)\<lparr>invalid := True, buff_index := 0\<rparr>"
      assume r2: "ring_recv q = Some (buff_index (window q ! i), q2)"
        and w2: "window q2 = dropWhile vacant (take i (window q)) @ ?s # drop (Suc i) (window q)"
      have e: "b = buff_index (window q ! i)" "q' = q2" using r r2 by simp_all
      have d: "dropWhile vacant (take i (window q)) = take i (window q)" using i0 nv w by (cases i) simp_all
      have c0: "cell_of ?s = None" by (simp add: cell_of_def has_buff_def)
      have u: "(map cell_of (window q))[i := None] = map cell_of (window q2)"
        using i(1) by (simp add: w2 d c0 upd_conv_take_nth_drop take_map drop_map)
      have h: "window q2 = w # tl (window q2)" unfolding w2 d using i0 w by (cases i) simp_all
      have "\<not> Option.is_none (cell_of w)" using nv v w by simp
      then have "dropWhile Option.is_none (map cell_of (window q2)) = map cell_of (window q2)"
        by (subst h, subst (2) h) simp
      moreover have "window q2 = dropWhile vacant (window q2)" using nv by (subst h, subst (2) h) simp
      ultimately show ?thesis using e u by metis
    qed
  qed
  then show "map cell_of (window q') = dropWhile Option.is_none ((map cell_of (window q))[i := None])"
    and "b = buff_index (window q ! i)" and "\<exists>xs. window q' = dropWhile vacant xs" by blast+
qed

lemma receive_step:
  assumes t: "tidy q"
  shows "\<exists>q'. ring_step Receive q = Some (fst (spec_step Receive (abs_ring q)), q') \<and> tidy q' \<and>
     abs_ring q' = snd (spec_step Receive (abs_ring q))"
proof -
  have inv: "queue_inv q" using t by (simp add: tidy_def)
  have tw: "length (takeWhile (\<lambda>c. \<not> unread c) (cells (abs_ring q))) = length (takeWhile (\<lambda>s. \<not> open_msg s) (window q))"
    by (simp add: takeWhile_map comp_def)
  show ?thesis
  proof (cases "mcapi_trans_empty_queue q")
    case True
    then have "takeWhile (\<lambda>s. \<not> open_msg s) (window q) = window q"
      using empty_queue_window [OF inv] by (simp add: takeWhile_eq_all_conv)
    then have "length (takeWhile (\<lambda>c. \<not> unread c) (cells (abs_ring q))) = length (cells (abs_ring q))"
      unfolding tw by (metis abs_ring_sel(2) length_map)
    with True t show ?thesis by (simp add: Let_def)
  next
    case False
    from pop_index [OF inv False] obtain i where i: "i < qlen q" "open_msg (window q ! i)" "\<forall>j<i. \<not> open_msg (window q ! j)"
      by blast
    have "length (takeWhile (\<lambda>s. \<not> open_msg s) (window q)) = i" using first_unread [of i "window q" open_msg] i by simp
    then have k: "length (takeWhile (\<lambda>c. \<not> unread c) (cells (abs_ring q))) = i" using tw by simp
    from ring_recv_refines [OF inv False] obtain b q' where r: "ring_recv q = Some (b, q')" "queue_inv q'"
      "aq_recv (abs_queue q) = Some (b, abs_queue q')" by metis
    note w = recv_window [OF t i r(1)]
    have "cell_of (window q ! i) = Some (0, b)" using i(2) w(2) by (simp add: cell_of_def open_msg_def has_buff_def)
    then have c: "snd (the (cells (abs_ring q) ! i)) = b" using i(1) by simp
    have "i \<noteq> length (cells (abs_ring q))" using i(1) by simp
    then have s: "spec_step Receive (abs_ring q) =
        (Got b, (abs_ring q)\<lparr>cells := dropWhile Option.is_none ((cells (abs_ring q))[i := None])\<rparr>)"
      unfolding spec_step.simps Let_def k c by simp
    have "abs_ring q' = snd (spec_step Receive (abs_ring q))"
      unfolding s by (rule abs_ring_eqI) (simp_all add: w(1) aq_recv_msgs(2) [OF r(3)])
    moreover have "tidy q'" using w(3) tidy_dropWhile [OF r(2)] by blast
    ultimately show ?thesis using False r(1) s by simp
  qed
qed

lemma reserve_step:
  assumes t: "tidy q" and r: "r \<noteq> 0"
  shows "\<exists>q'. ring_step (Reserve r) q = Some (fst (spec_step (Reserve r) (abs_ring q)), q') \<and> tidy q' \<and>
     abs_ring q' = snd (spec_step (Reserve r) (abs_ring q))"
proof -
  have inv: "queue_inv q" using t by (simp add: tidy_def)
  have e: "mcapi_trans_empty_queue q \<longleftrightarrow> \<not> list_ex unread (cells (abs_ring q))"
    by (simp add: empty_queue_window [OF inv] list_ex_iff)
  have "length (apend (abs_queue q)) \<le> QN - qlen q"
    using length_filter_le [of "\<lambda>r. r \<noteq> 0" "map request (beyond q)"] by (simp add: abs_queue_def)
  then have le: "qlen q + length (apend (abs_queue q)) \<le> QN" using qlen_less [of q] by linarith
  consider "\<not> mcapi_trans_empty_queue q" | "mcapi_trans_empty_queue q" "qlen q + length (apend (abs_queue q)) = QN"
    | "mcapi_trans_empty_queue q" "qlen q + length (apend (abs_queue q)) < QN"
    using le by linarith
  then show ?thesis
  proof cases
    case 2
    with reserve_slot_full [OF inv, of r] e t show ?thesis by simp
  next
    case 3
    from reserve_slot_refines [OF inv 3(1) r 3(2)] obtain q' where q: "reserve_slot q r = Some q'" "queue_inv q'"
      "abs_queue q' = aq_reserve r (abs_queue q)" "window q' = window q" by metis
    have "abs_ring q' = (abs_ring q)\<lparr>waits := waits (abs_ring q) @ [r]\<rparr>"
      by (rule abs_ring_eqI) (simp_all add: q(3,4) aq_reserve_def)
    moreover have "tidy q'" using t q(2,4) by (simp add: tidy_def)
    ultimately show ?thesis using 3 q(1) e by simp
  qed (use e t in simp)
qed

lemma compact_step:
  assumes t: "tidy q"
  shows "\<exists>q'. ring_step Compact q = Some (fst (spec_step Compact (abs_ring q)), q') \<and> tidy q' \<and>
     abs_ring q' = snd (spec_step Compact (abs_ring q))"
proof -
  have inv: "queue_inv q" using t by (simp add: tidy_def)
  from compact_queue_refines [OF inv] obtain q' where c: "mcapi_trans_compact_queue q = Some q'" "queue_inv q'"
    "abs_queue q' = abs_queue q" "window q' = dropWhile vacant (window q)" by metis
  have "map cell_of (dropWhile vacant (window q)) = dropWhile Option.is_none (map cell_of (window q))"
    by (rule cells_dropWhile) (use window_vacant [OF inv] in blast)
  then have "abs_ring q' = snd (spec_step Compact (abs_ring q))"
    by (intro abs_ring_eqI) (simp_all add: c(3,4))
  with c(1) tidy_dropWhile [OF c(2,4)] show ?thesis by simp
qed

lemma ring_step_refines:
  assumes "tidy q" and "action_ok x"
  shows "\<exists>q'. ring_step x q = Some (fst (spec_step x (abs_ring q)), q') \<and> tidy q' \<and>
     abs_ring q' = snd (spec_step x (abs_ring q))"
  using assms send_step receive_step reserve_step compact_step by (cases x) (simp_all del: ring_step.simps spec_step.simps)

lemma tidy_zero: "tidy zero_queue" "abs_ring zero_queue = \<lparr>cells = [], waits = []\<rparr>"
proof -
  have z: "window zero_queue = []" by (simp add: window_def qlen_def ring_dist_def)
  show "tidy zero_queue" "abs_ring zero_queue = \<lparr>cells = [], waits = []\<rparr>"
    using zero_queue_inv by (simp_all add: tidy_def z abs_ring_def)
qed

text \<open>
  C4: Any sequence of sends, receives, reservations and compactions on the ring of an endpoint
  succeeds and gives exactly the results of the specification: a first-in first-out queue of at
  most 64 cells, in which a message goes to the receive that has waited longest, a receive takes
  the oldest message that is not reserved, and refuses when there is none, a reservation is only
  made when there is no such message and a slot is left, and a send is refused only when all 64
  cells, the holes between the messages among them, are taken. The ring may wrap around and have
  holes, and starts anywhere but with a hole at its head.
\<close>

theorem ring_refines_list:
  assumes "tidy q" and "list_all action_ok as"
  shows "\<exists>q'. ring_run as q = Some (fst (spec_run as (abs_ring q)), q') \<and> tidy q' \<and>
     abs_ring q' = snd (spec_run as (abs_ring q))"
  using assms
proof (induction as arbitrary: q)
  case (Cons x as)
  from ring_step_refines [of q x] Cons.prems obtain q1 where q1: "ring_step x q = Some (fst (spec_step x (abs_ring q)), q1)"
    "tidy q1" "abs_ring q1 = snd (spec_step x (abs_ring q))" by auto
  from Cons.IH [OF q1(2)] Cons.prems(2) obtain q2 where "ring_run as q1 = Some (fst (spec_run as (abs_ring q1)), q2)"
    "tidy q2" "abs_ring q2 = snd (spec_run as (abs_ring q1))" by auto
  with q1 show ?case by (auto simp: split_beta Let_def simp del: ring_step.simps spec_step.simps)
qed simp

theorem ring_refines_list_witness:
  "\<exists>q'. ring_run [Reserve 9, Send 1, Send 2, Send 3, Receive, Reserve 8, Receive, Receive] zero_queue =
       Some ([Done, Done, Done, Done, Got 2, Refused, Got 3, Refused], q') \<and>
     abs_ring q' = \<lparr>cells = [Some (9, 1), None, None], waits = []\<rparr>"
  using ring_refines_list [of zero_queue "[Reserve 9, Send 1, Send 2, Send 3, Receive, Reserve 8, Receive, Receive]"]
  by (auto simp: tidy_zero unread_def mcapi_limits Let_def simp del: ring_run.simps)

end
