(* ===== verification/MCAPI_Handle.thy ===== *)
theory MCAPI_Handle
  imports MCAPI_Types
begin

text \<open>
  Handles of the transport: an endpoint handle packs the domain, node and endpoint index into a
  32-bit word, a request handle is the request index with the top bit set, and a queue entry
  stores the index of a transport buffer with the top bit set so that 0 means no buffer.
\<close>

section \<open>The code\<close>

text \<open>
  The indices are \<open>uint16_t\<close> in the code; \<open>of_nat\<close> into 32 bits is the conversion of the
  assignment \<open>handle = domain_index\<close>. The failed assertion is \<open>None\<close>.
\<close>

definition mcapi_trans_encode_handle :: "nat \<Rightarrow> nat \<Rightarrow> nat \<Rightarrow> u32 option" where
  "mcapi_trans_encode_handle domain_index node_index endpoint_index = do {
     mcapi_assert (domain_index < MCA_MAX_DOMAINS \<and> node_index < MCA_MAX_NODES \<and>
                   endpoint_index < MCAPI_MAX_ENDPOINTS);
     let handle = (of_nat domain_index :: u32);
     let handle = push_bit 8 handle;
     let handle = handle OR of_nat node_index;
     let handle = push_bit 8 handle;
     let handle = handle OR of_nat endpoint_index;
     Some handle
   }"

text \<open>\<open>None\<close> is the result false; no caller uses the indices then.\<close>

definition mcapi_trans_decode_handle :: "u32 \<Rightarrow> (nat \<times> nat \<times> nat) option" where
  "mcapi_trans_decode_handle handle =
     (let domain_index = unat (drop_bit 16 (handle AND 0x00ff0000));
          node_index = unat (drop_bit 8 (handle AND 0x0000ff00));
          endpoint_index = unat (handle AND 0x000000ff)
      in if domain_index < MCA_MAX_DOMAINS \<and> node_index < MCA_MAX_NODES \<and>
            endpoint_index < MCAPI_MAX_ENDPOINTS
         then Some (domain_index, node_index, endpoint_index) else None)"

definition encode_request :: "nat \<Rightarrow> u32" where
  "encode_request r = 0x80000000 OR of_nat r"

text \<open>The index is a \<open>uint16_t\<close>: the conversion drops bits 16 to 31 of the handle.\<close>

definition mcapi_trans_decode_request_handle :: "u32 \<Rightarrow> nat option" where
  "mcapi_trans_decode_request_handle rq =
     (let r = unat (ucast rq :: u16)
      in if r < MCAPI_MAX_REQUESTS \<and> rq AND 0x80000000 \<noteq> 0 then Some r else None)"

definition encode_buff_index :: "nat \<Rightarrow> u32" where
  "encode_buff_index i = of_nat i OR MCAPI_VALID_MASK"

definition decode_buff_index :: "u32 \<Rightarrow> nat" where
  "decode_buff_index b = unat (b AND NOT MCAPI_VALID_MASK)"

section \<open>Packed words\<close>

lemma nat_bit_bound:
  fixes n :: nat
  assumes "bit n i" and "n < 2 ^ k"
  shows "i < k"
proof (rule ccontr)
  assume "\<not> i < k"
  then have "(2 :: nat) ^ k \<le> 2 ^ i" by simp
  with assms(2) have "n < 2 ^ i" by linarith
  then have "n div 2 ^ i = 0" by simp
  with assms(1) show False by (simp add: bit_iff_odd)
qed

lemma handle_masks:
  "(0x00ff0000 :: u32) = push_bit 16 (mask 8)" "(0x0000ff00 :: u32) = push_bit 8 (mask 8)"
  "(0x000000ff :: u32) = mask 8" "(0x80000000 :: u32) = push_bit 31 1"
  by (simp_all add: push_bit_eq_mult mask_eq_exp_minus_1)

lemma bit_top: "bit (0x80000000 :: u32) i \<longleftrightarrow> i = 31"
  unfolding handle_masks(4) bit_push_bit_iff by (auto simp: bit_1_iff)

lemma handle_bits:
  fixes d n e :: nat
  assumes "d < 256" "n < 256" "e < 256"
  defines "h \<equiv> (push_bit 8 (push_bit 8 (of_nat d) OR of_nat n) OR of_nat e :: u32)"
  shows "drop_bit 16 (h AND 0x00ff0000) = of_nat d"
    and "drop_bit 8 (h AND 0x0000ff00) = of_nat n" and "h AND 0x000000ff = of_nat e"
proof -
  have b: "bit d i \<Longrightarrow> i < 8" "bit n i \<Longrightarrow> i < 8" "bit e i \<Longrightarrow> i < 8" for i
    using nat_bit_bound [of d i 8] nat_bit_bound [of n i 8] nat_bit_bound [of e i 8] assms by auto
  note bs = bit_simps bit_and_iff bit_or_iff bit_push_bit_iff bit_drop_bit_eq bit_mask_iff
  show "drop_bit 16 (h AND 0x00ff0000) = of_nat d"
    unfolding h_def handle_masks by (rule bit_word_eqI) (auto simp: bs dest: b)
  show "drop_bit 8 (h AND 0x0000ff00) = of_nat n"
    unfolding h_def handle_masks by (rule bit_word_eqI) (auto simp: bs dest: b)
  show "h AND 0x000000ff = of_nat e"
    unfolding h_def handle_masks by (rule bit_word_eqI) (auto simp: bs dest: b)
qed

lemma top_bit_word:
  fixes t :: u32
  assumes t: "\<And>i. bit t i \<longleftrightarrow> i = 31"
  shows "(ucast (t OR of_nat r) :: u16) = of_nat r" and "(t OR of_nat r) AND t = t"
    and "n < 2 ^ 31 \<Longrightarrow> (of_nat n OR t) AND NOT t = of_nat n" and "of_nat n OR t \<noteq> 0"
proof -
  show "(ucast (t OR of_nat r) :: u16) = of_nat r"
    by (rule bit_word_eqI) (auto simp: bit_simps t)
  show "(t OR of_nat r) AND t = t"
    by (rule bit_word_eqI) (auto simp: bit_simps t)
  show "(of_nat n OR t) AND NOT t = of_nat n" if "n < 2 ^ 31"
    using nat_bit_bound [OF _ that] by (intro bit_word_eqI) (auto simp: bit_simps t)
  have "bit (of_nat n OR t) 31" by (simp add: bit_simps t)
  then show "of_nat n OR t \<noteq> 0" by auto
qed

lemmas request_bits = top_bit_word(1,2) [OF bit_top]
lemmas buff_bits = top_bit_word(3,4) [OF bit_top]

section \<open>Codecs\<close>

text \<open>What every user of a handle relies on: a handle that was made can be read back.\<close>

locale codec =
  fixes encode :: "'a \<Rightarrow> 'h option" and decode :: "'h \<Rightarrow> 'a option" and valid :: "'a \<Rightarrow> bool"
  assumes roundtrip: "valid x \<Longrightarrow> \<exists>h. encode x = Some h \<and> decode h = Some x"
    and decode_valid: "decode h = Some x \<Longrightarrow> valid x"
begin

lemma encode_inj: "valid x \<Longrightarrow> valid y \<Longrightarrow> encode x = encode y \<Longrightarrow> x = y"
  using roundtrip [of x] roundtrip [of y] by auto

lemma decode_encode: "valid x \<Longrightarrow> encode x = Some h \<Longrightarrow> decode h = Some x"
  using roundtrip [of x] by auto

lemma valid_iff_decodable: "valid x \<longleftrightarrow> (\<exists>h. decode h = Some x)"
  using roundtrip decode_valid by blast

end

definition handle_valid :: "nat \<times> nat \<times> nat \<Rightarrow> bool" where
  "handle_valid = (\<lambda>(d, n, e). d < MCA_MAX_DOMAINS \<and> n < MCA_MAX_NODES \<and> e < MCAPI_MAX_ENDPOINTS)"

interpretation endpt: codec "\<lambda>(d, n, e). mcapi_trans_encode_handle d n e" mcapi_trans_decode_handle handle_valid
proof unfold_locales
  fix x assume v: "handle_valid x"
  obtain d n e where x: "x = (d, n, e)" by (cases x) auto
  have b: "d < 256" "n < 256" "e < 256" using v x by (simp_all add: handle_valid_def mcapi_limits)
  have u: "unat (of_nat d :: u32) = d" "unat (of_nat n :: u32) = n" "unat (of_nat e :: u32) = e"
    using b by (simp_all add: unat_of_nat)
  let ?h = "push_bit 8 (push_bit 8 (of_nat d) OR of_nat n) OR of_nat e :: u32"
  have r: "d < MCA_MAX_DOMAINS \<and> n < MCA_MAX_NODES \<and> e < MCAPI_MAX_ENDPOINTS"
    using v by (simp add: x handle_valid_def)
  then have "mcapi_trans_encode_handle d n e = Some ?h" by (simp add: mcapi_trans_encode_handle_def)
  moreover have "mcapi_trans_decode_handle ?h = Some (d, n, e)"
    unfolding mcapi_trans_decode_handle_def handle_bits [OF b] u Let_def using r by simp
  ultimately show "\<exists>h. (case x of (d, n, e) \<Rightarrow> mcapi_trans_encode_handle d n e) = Some h \<and>
      mcapi_trans_decode_handle h = Some x"
    by (simp only: x prod.case) blast
next
  fix h x assume "mcapi_trans_decode_handle h = Some x"
  then show "handle_valid x" by (auto simp: mcapi_trans_decode_handle_def handle_valid_def Let_def split: if_splits)
qed

interpretation reqst: codec "\<lambda>r. Some (encode_request r)" mcapi_trans_decode_request_handle "\<lambda>r. r < MCAPI_MAX_REQUESTS"
proof unfold_locales
  fix r assume "r < MCAPI_MAX_REQUESTS"
  then have r: "r < 2 ^ 16" "r < MCAPI_MAX_REQUESTS" by (simp_all add: mcapi_limits)
  have "unat (of_nat r :: u16) = r" using r(1) by (simp add: unat_of_nat)
  with r show "\<exists>h. Some (encode_request r) = Some h \<and> mcapi_trans_decode_request_handle h = Some r"
    by (simp add: encode_request_def mcapi_trans_decode_request_handle_def request_bits Let_def)
qed (auto simp: mcapi_trans_decode_request_handle_def Let_def split: if_splits)

interpretation bindex: codec "\<lambda>i. Some (encode_buff_index i)"
  "\<lambda>b. if decode_buff_index b < MCAPI_MAX_BUFFERS then Some (decode_buff_index b) else None" "\<lambda>i. i < MCAPI_MAX_BUFFERS"
proof unfold_locales
  fix i assume "i < MCAPI_MAX_BUFFERS"
  then have i: "i < 2 ^ 31" "i < MCAPI_MAX_BUFFERS" by (simp_all add: mcapi_limits)
  have "unat (of_nat i :: u32) = i" using i(1) by (simp add: unat_of_nat)
  then have "decode_buff_index (encode_buff_index i) = i"
    unfolding encode_buff_index_def decode_buff_index_def MCAPI_VALID_MASK_def buff_bits(1) [OF i(1)] .
  with i show "\<exists>h. Some (encode_buff_index i) = Some h \<and>
      (if decode_buff_index h < MCAPI_MAX_BUFFERS then Some (decode_buff_index h) else None) = Some i" by simp
qed (auto split: if_splits)

lemma decode_buff_index_encode [simp]:
  "i < MCAPI_MAX_BUFFERS \<Longrightarrow> decode_buff_index (encode_buff_index i) = i"
  using bindex.roundtrip [of i] by (auto split: if_splits)

lemma encode_buff_index_nonzero [simp]: "i < MCAPI_MAX_BUFFERS \<Longrightarrow> encode_buff_index i \<noteq> 0"
  using buff_bits(2) [of i] by (simp add: encode_buff_index_def MCAPI_VALID_MASK_def mcapi_limits)

lemma decode_request_encode [simp]:
  "r < MCAPI_MAX_REQUESTS \<Longrightarrow> mcapi_trans_decode_request_handle (encode_request r) = Some r"
  using reqst.roundtrip [of r] by auto

lemma encode_request_nonzero [simp]: "encode_request r \<noteq> 0"
proof -
  have "bit (encode_request r) 31" unfolding encode_request_def by (simp add: bit_or_iff bit_top)
  then show ?thesis by auto
qed

lemma encode_request_inj:
  "r < MCAPI_MAX_REQUESTS \<Longrightarrow> s < MCAPI_MAX_REQUESTS \<Longrightarrow> encode_request r = encode_request s \<longleftrightarrow> r = s"
  using reqst.encode_inj [of r s] by auto

text \<open>
  Every endpoint of the database has a handle, decoding the handle gives the endpoint back,
  and two endpoints never share a handle. Conversely, whatever 32-bit word an application passes
  in, a successful decoding names an endpoint inside the database, so that no lookup leaves the
  arrays of domains, nodes and endpoints.
\<close>

theorem endpoint_handle_roundtrip:
  "handle_valid (d, n, e) \<Longrightarrow> \<exists>h. mcapi_trans_encode_handle d n e = Some h \<and> mcapi_trans_decode_handle h = Some (d, n, e) \<and>
     (\<forall>d' n' e'. mcapi_trans_encode_handle d' n' e' = Some h \<longrightarrow> (d', n', e') = (d, n, e)) \<and>
     (\<forall>h' d' n' e'. mcapi_trans_decode_handle h' = Some (d', n', e') \<longrightarrow>
        d' < MCA_MAX_DOMAINS \<and> n' < MCA_MAX_NODES \<and> e' < MCAPI_MAX_ENDPOINTS)"
proof -
  assume v: "handle_valid (d, n, e)"
  then obtain h where h: "mcapi_trans_encode_handle d n e = Some h" "mcapi_trans_decode_handle h = Some (d, n, e)"
    using endpt.roundtrip [of "(d, n, e)"] by auto
  have "(d', n', e') = (d, n, e)" if x: "mcapi_trans_encode_handle d' n' e' = Some h" for d' n' e'
  proof -
    have "handle_valid (d', n', e')"
      using x by (auto simp: mcapi_trans_encode_handle_def handle_valid_def split: if_splits)
    with endpt.encode_inj [OF _ v] x h(1) show ?thesis by force
  qed
  moreover have "d' < MCA_MAX_DOMAINS \<and> n' < MCA_MAX_NODES \<and> e' < MCAPI_MAX_ENDPOINTS"
    if "mcapi_trans_decode_handle h' = Some (d', n', e')" for h' d' n' e'
    using endpt.decode_valid [OF that] by (simp add: handle_valid_def)
  ultimately show ?thesis using h by blast
qed

theorem endpoint_handle_roundtrip_witness:
  "\<exists>h. mcapi_trans_encode_handle 0 2 3 = Some h \<and> mcapi_trans_decode_handle h = Some (0, 2, 3)"
proof -
  have "handle_valid (0, 2, 3)" by (simp add: handle_valid_def mcapi_limits)
  from endpoint_handle_roundtrip [OF this] show ?thesis by blast
qed

text \<open>
  A request handle names the entry it was made for, is never the word 0 that stands for no
  request, and handles of different entries differ. A word is accepted as a request handle
  exactly when its top bit is set and its low 16 bits are an index of the table; the bits in
  between are not looked at.
\<close>

theorem request_handle_roundtrip:
  "(r < MCAPI_MAX_REQUESTS \<longrightarrow> mcapi_trans_decode_request_handle (encode_request r) = Some r) \<and>
   encode_request r \<noteq> 0 \<and>
   (r < MCAPI_MAX_REQUESTS \<and> s < MCAPI_MAX_REQUESTS \<and> encode_request r = encode_request s \<longrightarrow> r = s) \<and>
   (mcapi_trans_decode_request_handle h = Some r \<longleftrightarrow>
      bit h 31 \<and> r < MCAPI_MAX_REQUESTS \<and> (\<forall>i<16. bit h i \<longleftrightarrow> bit r i))"
proof -
  have top: "h AND 0x80000000 \<noteq> 0 \<longleftrightarrow> bit h 31" for h :: u32
  proof -
    have "h AND 0x80000000 = 0 \<longleftrightarrow> (\<forall>i. \<not> bit (h AND 0x80000000) i)" by (metis bit_0_eq bit_eqI bot_apply bot_bool_def)
    then show ?thesis unfolding bit_and_iff bit_top by blast
  qed
  have low: "unat (ucast h :: u16) = r \<longleftrightarrow> (\<forall>i<16. bit h i \<longleftrightarrow> bit r i)" if "r < 2 ^ 16" for h :: u32 and r :: nat
  proof -
    have "unat (ucast h :: u16) = r \<longleftrightarrow> (ucast h :: u16) = of_nat r"
      using that by (auto simp: unat_of_nat)
    also have "\<dots> \<longleftrightarrow> (\<forall>i<16. bit h i \<longleftrightarrow> bit r i)"
      by (auto simp: bit_eq_iff [where ?'a = u16] bit_ucast_iff bit_of_nat_iff)
    finally show ?thesis .
  qed
  have "mcapi_trans_decode_request_handle h = Some r \<longleftrightarrow>
      bit h 31 \<and> r < MCAPI_MAX_REQUESTS \<and> (\<forall>i<16. bit h i \<longleftrightarrow> bit r i)"
    using low [of r h] by (auto simp: mcapi_trans_decode_request_handle_def Let_def top mcapi_limits)
  then show ?thesis by (auto simp: encode_request_inj)
qed

theorem request_handle_roundtrip_witness:
  "mcapi_trans_decode_request_handle (encode_request 5) = Some 5 \<and>
   (mcapi_trans_decode_request_handle 0x80010005 = Some 5 \<longleftrightarrow>
      bit (0x80010005 :: u32) 31 \<and> (5::nat) < MCAPI_MAX_REQUESTS \<and> (\<forall>i<16. bit (0x80010005 :: u32) i \<longleftrightarrow> bit (5::nat) i))"
  using request_handle_roundtrip [of 5 0 "0x80010005"] by (simp add: mcapi_limits)

end
