(* ===== verification/MCAPI_Channel.thy ===== *)
theory MCAPI_Channel
  imports MCAPI_Reservation MCAPI_Handle
begin

text \<open>
  Moving data between the application's memory, the buffer pool and the receive queue of an
  endpoint: the functions of \<open>transport_sm.c\<close> that run while the database is locked
  (\<open>assert(locked == 1)\<close> holds because their only callers hold the lock).
\<close>

section \<open>Memory\<close>

text \<open>
  The \<open>void**\<close> argument of a receive: a pointer variable of the application, or a pointer
  variable of the transport (a parameter of the calling function, the \<open>buffer\<close> member of a
  request) given by its value, or \<open>NULL\<close>.
\<close>

datatype buffer_arg = Cell addr | Local ptr | NoBuf

definition deref :: "buffer_arg \<Rightarrow> mcapi_state \<Rightarrow> ptr option" where
  "deref b st = (case b of Cell a \<Rightarrow> Some (user_ptrs st a) | Local p \<Rightarrow> Some p | NoBuf \<Rightarrow> None)"

definition read_ptr :: "ptr \<Rightarrow> mcapi_state \<Rightarrow> byte carray option" where
  "read_ptr p st = (case p of NULL \<Rightarrow> None | UserBuf a \<Rightarrow> Some (user_bytes st a)
     | McapiBuf i \<Rightarrow> Some (buff (buffers st i)))"

text \<open>\<open>memcpy\<close> to a pointer; writing through \<open>NULL\<close> is undefined unless nothing is written.\<close>

definition write_ptr :: "ptr \<Rightarrow> byte carray \<Rightarrow> nat \<Rightarrow> mcapi_state \<Rightarrow> mcapi_state option" where
  "write_ptr p src n st = (case p of
       NULL \<Rightarrow> if n = 0 then Some st else None
     | UserBuf a \<Rightarrow> Some (st\<lparr>user_bytes := (user_bytes st)(a := memcpy (user_bytes st a) src n)\<rparr>)
     | McapiBuf i \<Rightarrow> Some (upd_buffer i (\<lambda>b. b\<lparr>buff := memcpy (buff b) src n\<rparr>) st))"

definition MCAPI_BUFF_SIZE :: nat where
  "MCAPI_BUFF_SIZE = max MCAPI_MAX_PKT_SIZE MCAPI_MAX_MSG_SIZE"

text \<open>\<open>memcpy\<close> into the payload of a transport buffer, which has \<open>MCAPI_BUFF_SIZE\<close> bytes.\<close>

definition fill_buffer :: "ptr \<Rightarrow> nat \<Rightarrow> mcapi_state \<Rightarrow> byte carray \<Rightarrow> byte carray option" where
  "fill_buffer p n st dst =
     (if n = 0 then Some dst
      else do { mcapi_assert (n \<le> MCAPI_BUFF_SIZE); src \<leftarrow> read_ptr p st; Some (memcpy dst src n) })"

section \<open>The operations of \<open>transport_sm.c\<close>\<close>

definition upd_queue :: "nat \<Rightarrow> nat \<Rightarrow> nat \<Rightarrow> (queue \<Rightarrow> queue) \<Rightarrow> mcapi_state \<Rightarrow> mcapi_state" where
  "upd_queue d n e f st = set_queue d n e (f (queue_at st d n e)) st"

definition mcapi_trans_connect_channel_have_lock ::
  "u32 \<Rightarrow> u32 \<Rightarrow> channel_type \<Rightarrow> mcapi_state \<Rightarrow> mcapi_state option" where
  "mcapi_trans_connect_channel_have_lock send_endpoint receive_endpoint type st = do {
     (sd, sn, se) \<leftarrow> mcapi_trans_decode_handle send_endpoint;
     (rd, rn, re) \<leftarrow> mcapi_trans_decode_handle receive_endpoint;
     let st = upd_endpoint sd sn se (\<lambda>ep. ep\<lparr>connected := True\<rparr>) st;
     let st = upd_queue sd sn se (\<lambda>q. q\<lparr>recv_endpt := receive_endpoint, send_endpt := send_endpoint,
                                        chan_type := type\<rparr>) st;
     let st = upd_endpoint rd rn re (\<lambda>ep. ep\<lparr>connected := True\<rparr>) st;
     let st = upd_queue rd rn re (\<lambda>q. q\<lparr>send_endpt := send_endpoint, recv_endpt := receive_endpoint,
                                        chan_type := type\<rparr>) st;
     Some st
   }"

definition find_buffer :: "mcapi_state \<Rightarrow> nat" where
  "find_buffer st = for_first (\<lambda>i. magic_num (buffers st i) = 0) 0 MCAPI_MAX_BUFFERS"

text \<open>The send node and endpoint only occur in debug output and are left out.\<close>

definition mcapi_trans_send_have_lock ::
  "nat \<Rightarrow> nat \<Rightarrow> nat \<Rightarrow> ptr \<Rightarrow> nat \<Rightarrow> u64 \<Rightarrow> mcapi_state \<Rightarrow> (bool \<times> mcapi_state) option" where
  "mcapi_trans_send_have_lock rd rn re buffer buffer_size scl st =
     (if mcapi_trans_full_queue (queue_at st rd rn re) then do {
        q \<leftarrow> mcapi_trans_compact_queue (queue_at st rd rn re);
        Some (False, set_queue rd rn re q st)
      }
      else let i = find_buffer st in
      if i = MCAPI_MAX_BUFFERS then Some (False, st)
      else do {
        let st = upd_buffer i (\<lambda>b. b\<lparr>magic_num := MAGIC_NUM\<rparr>) st;
        (qi, q) \<leftarrow> mcapi_trans_push_queue (queue_at st rd rn re);
        let st = set_queue rd rn re q st;
        st \<leftarrow> (if chan_type q = MCAPI_SCL_CHAN then Some (upd_buffer i (\<lambda>b. b\<lparr>scalar := scl\<rparr>) st)
              else do { bs \<leftarrow> fill_buffer buffer buffer_size st (buff (buffers st i));
                        Some (upd_buffer i (\<lambda>b. b\<lparr>buff := bs\<rparr>) st) });
        let st = upd_buffer i (\<lambda>b. b\<lparr>bsize := buffer_size\<rparr>) st;
        let st = upd_queue rd rn re (\<lambda>q. put_element q qi (\<lambda>s. s\<lparr>buff_index := encode_buff_index i\<rparr>)) st;
        Some (True, st)
      })"

text \<open>
  The three ways out of a queue: a packet is handed over by its address, a scalar by value, a
  message is copied; the last two free the buffer. \<open>want_scalar\<close> says whether the \<open>scalar\<close>
  argument is not \<open>NULL\<close>.
\<close>

definition deliver_buffer ::
  "channel_type \<Rightarrow> nat \<Rightarrow> buffer_arg \<Rightarrow> nat \<Rightarrow> bool \<Rightarrow> mcapi_state \<Rightarrow> (u64 option \<times> mcapi_state) option" where
  "deliver_buffer ct index buffer copy_size want_scalar st = (case ct of
       MCAPI_PKT_CHAN \<Rightarrow> (case buffer of
           Cell a \<Rightarrow> Some (None, st\<lparr>user_ptrs := (user_ptrs st)(a := McapiBuf index)\<rparr>)
         | Local p \<Rightarrow> Some (None, st)
         | NoBuf \<Rightarrow> None)
     | MCAPI_SCL_CHAN \<Rightarrow> do {
         mcapi_assert want_scalar;
         Some (Some (scalar (buffers st index)), upd_buffer index (\<lambda>b. zero_buffer) st) }
     | MCAPI_NO_CHAN \<Rightarrow> do {
         p \<leftarrow> deref buffer st;
         st \<leftarrow> write_ptr p (buff (buffers st index)) copy_size st;
         Some (None, upd_buffer index (\<lambda>b. zero_buffer) st) })"

text \<open>
  \<open>mcapi_trans_recv_have_lock_\<close>, which takes the message at a given queue index.
  The result: the size of the message, the scalar when there is one, and the new state.
\<close>

definition mcapi_trans_recv_have_lock_at ::
  "nat \<Rightarrow> nat \<Rightarrow> nat \<Rightarrow> buffer_arg \<Rightarrow> nat \<Rightarrow> nat \<Rightarrow> bool \<Rightarrow> mcapi_state
   \<Rightarrow> (nat \<times> u64 option \<times> mcapi_state) option" where
  "mcapi_trans_recv_have_lock_at rd rn re buffer buffer_size qi want_scalar st = do {
     let index = decode_buff_index (buff_index (elements (queue_at st rd rn re) qi));
     let received_size = bsize (buffers st index);
     let copy_size = (if buffer_size < received_size then buffer_size else received_size);
     (sc, st) \<leftarrow> deliver_buffer (chan_type (queue_at st rd rn re)) index buffer copy_size want_scalar st;
     let st = upd_queue rd rn re (\<lambda>q. put_element q qi (\<lambda>s. s\<lparr>buff_index := 0\<rparr>)) st;
     Some (received_size, sc, st)
   }"

text \<open>
  A blocking receive releases the lock and yields until the queue has a message; what the other
  nodes do during each yield is the next element of \<open>env\<close>. \<open>None\<close> also stands for a receive
  that is still waiting when \<open>env\<close> ends. A result \<open>None\<close> inside is a return value false.
\<close>

fun wait_message :: "nat \<Rightarrow> nat \<Rightarrow> nat \<Rightarrow> (mcapi_state \<Rightarrow> mcapi_state) list \<Rightarrow> mcapi_state \<Rightarrow> mcapi_state option" where
  "wait_message rd rn re [] st =
     (if mcapi_trans_empty_queue (queue_at st rd rn re) then None else Some st)"
| "wait_message rd rn re (f # env) st =
     (if mcapi_trans_empty_queue (queue_at st rd rn re) then wait_message rd rn re env (f st) else Some st)"

definition mcapi_trans_recv_have_lock ::
  "nat \<Rightarrow> nat \<Rightarrow> nat \<Rightarrow> buffer_arg \<Rightarrow> nat \<Rightarrow> bool \<Rightarrow> bool \<Rightarrow> (mcapi_state \<Rightarrow> mcapi_state) list \<Rightarrow> mcapi_state
   \<Rightarrow> ((nat \<times> u64 option) option \<times> mcapi_state) option" where
  "mcapi_trans_recv_have_lock rd rn re buffer buffer_size blocking want_scalar env st =
     (if \<not> blocking \<and> mcapi_trans_empty_queue (queue_at st rd rn re) then Some (None, st)
      else do {
        st \<leftarrow> wait_message rd rn re env st;
        (qi, q) \<leftarrow> mcapi_trans_pop_queue (queue_at st rd rn re);
        let st = set_queue rd rn re q st;
        (received_size, sc, st) \<leftarrow>
          mcapi_trans_recv_have_lock_at rd rn re buffer buffer_size qi want_scalar st;
        Some (Some (received_size, sc), st)
      })"

definition mcapi_trans_open_channel_have_lock :: "nat \<Rightarrow> nat \<Rightarrow> nat \<Rightarrow> mcapi_state \<Rightarrow> mcapi_state" where
  "mcapi_trans_open_channel_have_lock d n e st = upd_endpoint d n e (\<lambda>ep. ep\<lparr>ep_open := True\<rparr>) st"

definition mcapi_trans_close_channel_have_lock :: "nat \<Rightarrow> nat \<Rightarrow> nat \<Rightarrow> mcapi_state \<Rightarrow> mcapi_state" where
  "mcapi_trans_close_channel_have_lock d n e st = upd_endpoint d n e (\<lambda>ep. ep\<lparr>ep_open := False\<rparr>) st"

section \<open>Messages of an endpoint\<close>

definition path_ok :: "nat \<Rightarrow> nat \<Rightarrow> nat \<Rightarrow> bool" where
  "path_ok d n e \<longleftrightarrow> handle_valid (d, n, e)"

definition queue_bufs :: "queue \<Rightarrow> u32 list" where
  "queue_bufs q = map snd (amsgs (abs_queue q))"

definition buffer_live :: "mcapi_state \<Rightarrow> u32 \<Rightarrow> bool" where
  "buffer_live st b \<longleftrightarrow> (\<exists>i<MCAPI_MAX_BUFFERS. b = encode_buff_index i \<and> magic_num (buffers st i) \<noteq> 0)"

definition queue_ok :: "mcapi_state \<Rightarrow> queue \<Rightarrow> bool" where
  "queue_ok st q \<longleftrightarrow> queue_inv q \<and> aq_distinct (abs_queue q) \<and> distinct (queue_bufs q) \<and>
     (\<forall>b\<in>set (queue_bufs q). buffer_live st b)"

text \<open>Every queue is well formed, its buffers are allocated, and no two queues share a buffer.\<close>

definition db_inv :: "mcapi_state \<Rightarrow> bool" where
  "db_inv st \<longleftrightarrow> (\<forall>d n e. path_ok d n e \<longrightarrow> queue_ok st (queue_at st d n e)) \<and>
     (\<forall>d n e d' n' e'. path_ok d n e \<and> path_ok d' n' e' \<and> (d, n, e) \<noteq> (d', n', e') \<longrightarrow>
        set (queue_bufs (queue_at st d n e)) \<inter> set (queue_bufs (queue_at st d' n' e')) = {})"

definition payload_of :: "mcapi_state \<Rightarrow> u32 \<Rightarrow> byte list \<times> u64" where
  "payload_of st b = (let be = buffers st (decode_buff_index b) in (bytes_of (buff be) (bsize be), scalar be))"

definition ep_messages :: "mcapi_state \<Rightarrow> nat \<Rightarrow> nat \<Rightarrow> nat \<Rightarrow> (u32 \<times> byte list \<times> u64) list" where
  "ep_messages st d n e = map (\<lambda>(r, b). (r, payload_of st b)) (amsgs (abs_queue (queue_at st d n e)))"

definition ep_pending :: "mcapi_state \<Rightarrow> nat \<Rightarrow> nat \<Rightarrow> nat \<Rightarrow> u32 list" where
  "ep_pending st d n e = apend (abs_queue (queue_at st d n e))"

lemma upd_queue_sel [frame_simps]:
  "buffers (upd_queue d n e f st) = buffers st"
  "requests (upd_queue d n e f st) = requests st"
  "request_reserves (upd_queue d n e f st) = request_reserves st"
  "request_reserves_header (upd_queue d n e f st) = request_reserves_header st"
  "user_bytes (upd_queue d n e f st) = user_bytes st"
  "user_ptrs (upd_queue d n e f st) = user_ptrs st"
  "user_endpts (upd_queue d n e f st) = user_endpts st"
  "queue_at (upd_queue d n e f st) d' n' e' =
     (if d' = d \<and> n' = n \<and> e' = e then f (queue_at st d n e) else queue_at st d' n' e')"
  by (simp_all add: upd_queue_def frame_simps)

lemma path_ok_iff: "path_ok d n e \<longleftrightarrow> d < MCA_MAX_DOMAINS \<and> n < MCA_MAX_NODES \<and> e < MCAPI_MAX_ENDPOINTS"
  by (simp add: path_ok_def handle_valid_def)

section \<open>Sending\<close>

lemma push_chan_type: "mcapi_trans_push_queue q = Some (i, q') \<Longrightarrow> chan_type q' = chan_type q"
  by (auto simp: mcapi_trans_push_queue_def)

lemma ring_send_push:
  "ring_send q b = Some q' \<longleftrightarrow> (\<exists>x q1. mcapi_trans_push_queue q = Some (x, q1) \<and>
     q' = put_element q1 x (\<lambda>s. s\<lparr>buff_index := b\<rparr>))"
  by (auto simp: ring_send_def bind_eq_Some_conv)

lemma fill_buffer_cong:
  "(\<And>j. buff (buffers st' j) = buff (buffers st j)) \<Longrightarrow> user_bytes st' = user_bytes st \<Longrightarrow>
   fill_buffer p n st' dst = fill_buffer p n st dst"
  by (cases p) (simp_all add: fill_buffer_def read_ptr_def)

text \<open>The buffer that a send fills, and the message it makes.\<close>

definition filled_buffer :: "channel_type \<Rightarrow> byte carray \<Rightarrow> nat \<Rightarrow> u64 \<Rightarrow> buffer_entry \<Rightarrow> buffer_entry" where
  "filled_buffer ct bs n scl b =
     (if ct = MCAPI_SCL_CHAN then b\<lparr>magic_num := MAGIC_NUM, scalar := scl, bsize := n\<rparr>
      else b\<lparr>magic_num := MAGIC_NUM, buff := bs, bsize := n\<rparr>)"

lemma send_have_lock_view:
  assumes nf: "\<not> mcapi_trans_full_queue (queue_at st d n e)"
    and i: "find_buffer st = i" "i < MCAPI_MAX_BUFFERS"
    and r: "ring_send (queue_at st d n e) (encode_buff_index i) = Some q'"
    and bs: "chan_type (queue_at st d n e) = MCAPI_SCL_CHAN \<or>
      fill_buffer p sz st (buff (buffers st i)) = Some bs"
  obtains st' where "mcapi_trans_send_have_lock d n e p sz scl st = Some (True, st')"
    and "buffers st' = (buffers st)(i := filled_buffer (chan_type (queue_at st d n e)) bs sz scl (buffers st i))"
    and "\<And>d' n' e'. queue_at st' d' n' e' = (if (d', n', e') = (d, n, e) then q' else queue_at st d' n' e')"
    and "requests st' = requests st" "request_reserves_header st' = request_reserves_header st"
    and "user_bytes st' = user_bytes st" "user_ptrs st' = user_ptrs st" "user_endpts st' = user_endpts st"
proof -
  from r obtain x q1 where p1: "mcapi_trans_push_queue (queue_at st d n e) = Some (x, q1)"
    and q': "q' = put_element q1 x (\<lambda>s. s\<lparr>buff_index := encode_buff_index i\<rparr>)"
    unfolding ring_send_push by blast
  let ?st1 = "set_queue d n e q1 (upd_buffer i (\<lambda>b. b\<lparr>magic_num := MAGIC_NUM\<rparr>) st)"
  have f1: "fill_buffer p sz ?st1 (buff (buffers ?st1 i)) = fill_buffer p sz st (buff (buffers st i))"
    by (simp add: fill_buffer_cong [of ?st1 st] frame_simps)
  have ct: "chan_type q1 = chan_type (queue_at st d n e)" by (rule push_chan_type [OF p1])
  let ?f = "\<lambda>b. if chan_type (queue_at st d n e) = MCAPI_SCL_CHAN then b\<lparr>scalar := scl\<rparr> else b\<lparr>buff := bs\<rparr>"
  let ?st2 = "upd_queue d n e (\<lambda>q. put_element q x (\<lambda>s. s\<lparr>buff_index := encode_buff_index i\<rparr>))
    (upd_buffer i (\<lambda>b. b\<lparr>bsize := sz\<rparr>) (upd_buffer i ?f ?st1))"
  have "mcapi_trans_send_have_lock d n e p sz scl st = Some (True, ?st2)"
  proof (cases "chan_type (queue_at st d n e) = MCAPI_SCL_CHAN")
    case True
    then show ?thesis using nf i p1 ct by (simp add: mcapi_trans_send_have_lock_def frame_simps)
  next
    case False
    with bs f1 have "fill_buffer p sz ?st1 (buff (buffers ?st1 i)) = Some bs" by simp
    then show ?thesis using False nf i p1 ct by (simp add: mcapi_trans_send_have_lock_def frame_simps)
  qed
  then show thesis
    by (rule that) (use q' in \<open>simp_all add: frame_simps filled_buffer_def fun_eq_iff\<close>)
qed

lemma find_buffer_free: "find_buffer st < MCAPI_MAX_BUFFERS \<Longrightarrow> magic_num (buffers st (find_buffer st)) = 0"
  unfolding find_buffer_def by (rule for_first_hit)

lemma buffer_live_decode:
  "buffer_live st b \<Longrightarrow> decode_buff_index b < MCAPI_MAX_BUFFERS \<and>
     magic_num (buffers st (decode_buff_index b)) \<noteq> 0 \<and> b = encode_buff_index (decode_buff_index b)"
  by (auto simp: buffer_live_def)

lemma db_inv_queue: "db_inv st \<Longrightarrow> path_ok d n e \<Longrightarrow> queue_ok st (queue_at st d n e)"
  by (simp add: db_inv_def)

lemma db_inv_disjoint:
  "db_inv st \<Longrightarrow> path_ok d n e \<Longrightarrow> path_ok d' n' e' \<Longrightarrow> (d, n, e) \<noteq> (d', n', e') \<Longrightarrow>
   set (queue_bufs (queue_at st d n e)) \<inter> set (queue_bufs (queue_at st d' n' e')) = {}"
  by (auto simp: db_inv_def)

text \<open>A change of one queue and one buffer that keeps the invariant.\<close>

lemma db_inv_update:
  assumes inv: "db_inv st"
    and q: "\<And>d' n' e'. queue_at st' d' n' e' = (if (d', n', e') = (d, n, e) then q' else queue_at st d' n' e')"
    and ok: "queue_ok st' q'"
    and live: "\<And>d' n' e' b. path_ok d' n' e' \<Longrightarrow> (d', n', e') \<noteq> (d, n, e) \<Longrightarrow>
      b \<in> set (queue_bufs (queue_at st d' n' e')) \<Longrightarrow> buffer_live st' b \<and> b \<notin> set (queue_bufs q')"
  shows "db_inv st'"
proof -
  have "queue_ok st' (queue_at st' d' n' e')" if p: "path_ok d' n' e'" for d' n' e'
    using db_inv_queue [OF inv p] ok live [OF p] unfolding q queue_ok_def by auto
  moreover have "set (queue_bufs (queue_at st' d1 n1 e1)) \<inter> set (queue_bufs (queue_at st' d2 n2 e2)) = {}"
    if p: "path_ok d1 n1 e1" "path_ok d2 n2 e2" "(d1, n1, e1) \<noteq> (d2, n2, e2)" for d1 n1 e1 d2 n2 e2
    using db_inv_disjoint [OF inv p] live [OF p(1)] live [OF p(2)] p(3) unfolding q by auto
  ultimately show ?thesis unfolding db_inv_def by auto
qed

lemma queue_bufs_send: "abs_queue q' = aq_send b (abs_queue q) \<Longrightarrow> queue_bufs q' = queue_bufs q @ [b]"
  by (simp add: queue_bufs_def aq_send_def split: list.splits)

lemma payload_of_cong:
  "buffers st' (decode_buff_index b) = buffers st (decode_buff_index b) \<Longrightarrow> payload_of st' b = payload_of st b"
  by (simp add: payload_of_def)

lemma ep_messages_cong:
  assumes "queue_at st' d n e = queue_at st d n e"
    and "\<And>b. b \<in> set (queue_bufs (queue_at st d n e)) \<Longrightarrow> payload_of st' b = payload_of st b"
  shows "ep_messages st' d n e = ep_messages st d n e" "ep_pending st' d n e = ep_pending st d n e"
  using assms unfolding ep_messages_def ep_pending_def queue_bufs_def by (force split: prod.splits)+

text \<open>Filling a free buffer does not touch the live ones.\<close>

lemma live_other:
  assumes live: "buffer_live st c" and free: "magic_num (buffers st i) = 0" "i < MCAPI_MAX_BUFFERS"
    and b: "buffers st' = (buffers st)(i := nb)"
  shows "buffer_live st' c" and "c \<noteq> encode_buff_index i" and "payload_of st' c = payload_of st c"
proof -
  from live obtain j where j: "j < MCAPI_MAX_BUFFERS" "c = encode_buff_index j" "magic_num (buffers st j) \<noteq> 0"
    unfolding buffer_live_def by blast
  with free have ne: "j \<noteq> i" by auto
  then show "buffer_live st' c" unfolding buffer_live_def b using j by (intro exI [of _ j]) simp
  have dj: "decode_buff_index c = j" using j by simp
  with ne free(2) show "c \<noteq> encode_buff_index i" by auto
  show "payload_of st' c = payload_of st c" using ne dj by (intro payload_of_cong) (simp add: b)
qed

lemma send_delivers:
  fixes scl :: u64
  assumes inv: "db_inv st" and p: "path_ok d n e"
    and nf: "\<not> mcapi_trans_full_queue (queue_at st d n e)"
    and i: "find_buffer st = i" "i < MCAPI_MAX_BUFFERS"
    and bs: "chan_type (queue_at st d n e) = MCAPI_SCL_CHAN \<or>
      fill_buffer pt sz st (buff (buffers st i)) = Some bs"
  defines "nb \<equiv> filled_buffer (chan_type (queue_at st d n e)) bs sz scl (buffers st i)"
  obtains st' where "mcapi_trans_send_have_lock d n e pt sz scl st = Some (True, st')" and "db_inv st'"
    and "ep_messages st' d n e = ep_messages st d n e @
      [(if ep_pending st d n e = [] then 0 else hd (ep_pending st d n e), bytes_of (buff nb) sz, scalar nb)]"
    and "ep_pending st' d n e = tl (ep_pending st d n e)"
    and "\<And>d' n' e'. path_ok d' n' e' \<Longrightarrow> (d', n', e') \<noteq> (d, n, e) \<Longrightarrow>
      ep_messages st' d' n' e' = ep_messages st d' n' e' \<and> ep_pending st' d' n' e' = ep_pending st d' n' e'"
    and "requests st' = requests st" "user_bytes st' = user_bytes st" "user_ptrs st' = user_ptrs st"
    and "chan_type (queue_at st' d n e) = chan_type (queue_at st d n e)"
    and "buffers st' = (buffers st)(i := nb)"
    and "qlen (queue_at st' d n e) = Suc (qlen (queue_at st d n e))"
proof -
  let ?q = "queue_at st d n e"
  have qok: "queue_ok st ?q" by (rule db_inv_queue [OF inv p])
  then have qi: "queue_inv ?q" by (simp add: queue_ok_def)
  have nz: "encode_buff_index i \<noteq> 0" using i by simp
  from ring_send_refines [OF qi nf nz] obtain q' where r: "ring_send ?q (encode_buff_index i) = Some q'"
    and q'i: "queue_inv q'" and q'a: "abs_queue q' = aq_send (encode_buff_index i) (abs_queue ?q)"
    and q'l: "qlen q' = Suc (qlen ?q)" and q'c: "chan_type q' = chan_type ?q" by metis
  show thesis
  proof (rule send_have_lock_view [OF nf i r bs, of scl])
    fix st' assume s: "mcapi_trans_send_have_lock d n e pt sz scl st = Some (True, st')"
      and b: "buffers st' = (buffers st)(i := filled_buffer (chan_type ?q) bs sz scl (buffers st i))"
      and q: "\<And>d' n' e'. queue_at st' d' n' e' = (if (d', n', e') = (d, n, e) then q' else queue_at st d' n' e')"
      and fr: "requests st' = requests st" "user_bytes st' = user_bytes st" "user_ptrs st' = user_ptrs st"
    have b': "buffers st' = (buffers st)(i := nb)" by (simp add: b nb_def)
    have mag: "magic_num nb \<noteq> 0" "bsize nb = sz" by (simp_all add: nb_def filled_buffer_def)
    have free: "magic_num (buffers st i) = 0" using find_buffer_free [of st] i by simp
    note old = live_other [OF _ free i(2) b']
    have live: "buffer_live st c" if "path_ok d' n' e'" "c \<in> set (queue_bufs (queue_at st d' n' e'))" for d' n' e' c
      using db_inv_queue [OF inv that(1)] that(2) by (simp add: queue_ok_def)
    have new: "buffer_live st' (encode_buff_index i)" unfolding buffer_live_def b' using i mag by auto
    have dist': "aq_distinct (abs_queue q')"
      using qok unfolding q'a queue_ok_def aq_distinct_def aq_requests_def aq_send_def by (auto split: list.splits)
    have ok': "queue_ok st' q'"
      using q'i dist' qok live [OF p] old(1,2) new unfolding queue_ok_def queue_bufs_send [OF q'a] by auto
    have "db_inv st'"
    proof (rule db_inv_update [OF inv q ok'])
      fix d' n' e' c assume pd: "path_ok d' n' e'" "(d', n', e') \<noteq> (d, n, e)" "c \<in> set (queue_bufs (queue_at st d' n' e'))"
      then show "buffer_live st' c \<and> c \<notin> set (queue_bufs q')"
        using old(1,2) [OF live [OF pd(1,3)]] db_inv_disjoint [OF inv pd(1) p pd(2)] unfolding queue_bufs_send [OF q'a] by auto
    qed
    moreover have "ep_messages st' d n e = ep_messages st d n e @
      [(if ep_pending st d n e = [] then 0 else hd (ep_pending st d n e), bytes_of (buff nb) sz, scalar nb)]"
      "ep_pending st' d n e = tl (ep_pending st d n e)"
    proof -
      have pn: "payload_of st' (encode_buff_index i) = (bytes_of (buff nb) sz, scalar nb)"
        using i mag by (simp add: payload_of_def b')
      have "map (\<lambda>(r, b). (r, payload_of st' b)) (amsgs (abs_queue ?q)) = ep_messages st d n e"
        using old(3) live [OF p] unfolding ep_messages_def queue_bufs_def by force
      then show "ep_messages st' d n e = ep_messages st d n e @
        [(if ep_pending st d n e = [] then 0 else hd (ep_pending st d n e), bytes_of (buff nb) sz, scalar nb)]"
        "ep_pending st' d n e = tl (ep_pending st d n e)"
        using pn unfolding ep_messages_def [of st'] ep_pending_def q by (auto simp: q'a aq_send_def split: list.splits)
    qed
    moreover have "ep_messages st' d' n' e' = ep_messages st d' n' e' \<and> ep_pending st' d' n' e' = ep_pending st d' n' e'"
      if "path_ok d' n' e'" "(d', n', e') \<noteq> (d, n, e)" for d' n' e'
      using ep_messages_cong [of st' d' n' e' st] old(3) live [OF that(1)] that(2) by (auto simp: q)
    ultimately show thesis using s fr b' q q'l q'c by (intro that [of st']) simp_all
  qed
qed

section \<open>Receiving\<close>

lemma deliver_set_queue:
  "deliver_buffer ct index buffer k ws (set_queue d n e q st) =
     map_option (\<lambda>(sc, s). (sc, set_queue d n e q s)) (deliver_buffer ct index buffer k ws st)"
  by (cases ct; cases buffer)
    (auto simp: deliver_buffer_def mcapi_assert_def deref_def write_ptr_def set_queue_def upd_endpoint_def
      upd_node_def node_at_def endpoint_at_def upd_buffer_def split: ptr.splits)

lemma deliver_frame:
  assumes "deliver_buffer ct index buffer k ws st = Some (sc, st')"
  shows "domains st' = domains st" "requests st' = requests st"
    "request_reserves_header st' = request_reserves_header st" "user_endpts st' = user_endpts st"
    "queue_at st' = queue_at st"
proof -
  show d: "domains st' = domains st" and "requests st' = requests st"
    "request_reserves_header st' = request_reserves_header st" "user_endpts st' = user_endpts st"
    using assms by (auto simp: deliver_buffer_def deref_def write_ptr_def bind_eq_Some_conv frame_simps
      split: channel_type.splits buffer_arg.splits ptr.splits if_splits)
  show "queue_at st' = queue_at st"
    by (intro ext) (simp add: queue_at_def endpoint_at_def node_at_def d)
qed

lemma ring_recv_pop:
  "ring_recv q = Some (b, q') \<longleftrightarrow> (\<exists>x q1. mcapi_trans_pop_queue q = Some (x, q1) \<and>
     b = buff_index (elements q1 x) \<and> q' = put_element q1 x (\<lambda>s. s\<lparr>buff_index := 0\<rparr>))"
  by (auto simp: ring_recv_def bind_eq_Some_conv)

lemma wait_message_ready:
  "\<not> mcapi_trans_empty_queue (queue_at st d n e) \<Longrightarrow> wait_message d n e env st = Some st"
  by (cases env) simp_all

text \<open>A receive on a queue with an unreserved message: what it returns and what it changes.\<close>

lemma recv_have_lock_view:
  assumes ne: "\<not> mcapi_trans_empty_queue (queue_at st d n e)"
    and r: "ring_recv (queue_at st d n e) = Some (b, q')" and ct: "chan_type q' = chan_type (queue_at st d n e)"
    and dl: "deliver_buffer (chan_type (queue_at st d n e)) (decode_buff_index b) buffer
      (min bsz (bsize (buffers st (decode_buff_index b)))) ws st = Some (sc, st1)"
  obtains st' where "mcapi_trans_recv_have_lock d n e buffer bsz blocking ws env st =
      Some (Some (bsize (buffers st (decode_buff_index b)), sc), st')"
    and "buffers st' = buffers st1" "user_bytes st' = user_bytes st1" "user_ptrs st' = user_ptrs st1"
    and "\<And>d' n' e'. queue_at st' d' n' e' = (if (d', n', e') = (d, n, e) then q' else queue_at st d' n' e')"
    and "requests st' = requests st" "request_reserves_header st' = request_reserves_header st"
    and "user_endpts st' = user_endpts st"
proof -
  from r obtain x q1 where pop: "mcapi_trans_pop_queue (queue_at st d n e) = Some (x, q1)"
    and b: "b = buff_index (elements q1 x)" and q': "q' = put_element q1 x (\<lambda>s. s\<lparr>buff_index := 0\<rparr>)"
    unfolding ring_recv_pop by blast
  have ct1: "chan_type q1 = chan_type (queue_at st d n e)" using ct by (simp add: q')
  let ?k = "min bsz (bsize (buffers st (decode_buff_index b)))"
  have k: "(if bsz < m then bsz else m) = min bsz m" for m by simp
  have dl1: "deliver_buffer (chan_type q1) (decode_buff_index b) buffer ?k ws (set_queue d n e q1 st) =
      Some (sc, set_queue d n e q1 st1)"
    using dl by (simp add: deliver_set_queue ct1)
  note fr = deliver_frame [OF dl]
  let ?st' = "upd_queue d n e (\<lambda>q. put_element q x (\<lambda>s. s\<lparr>buff_index := 0\<rparr>)) (set_queue d n e q1 st1)"
  have "mcapi_trans_recv_have_lock d n e buffer bsz blocking ws env st =
      Some (Some (bsize (buffers st (decode_buff_index b)), sc), ?st')"
    using ne pop b dl1 unfolding mcapi_trans_recv_have_lock_def mcapi_trans_recv_have_lock_at_def k
    by (simp add: wait_message_ready frame_simps)
  then show thesis
    by (rule that) (use fr q' in \<open>simp_all add: frame_simps\<close>)
qed

text \<open>Removing the first unreserved message of a list.\<close>

definition open_first :: "(u32 \<times> 'b) list \<Rightarrow> 'b list" where
  "open_first ms = map snd (filter (\<lambda>m. fst m = 0) ms)"

definition drop_open :: "(u32 \<times> 'b) list \<Rightarrow> (u32 \<times> 'b) list" where
  "drop_open ms = takeWhile (\<lambda>m. fst m \<noteq> 0) ms @ tl (dropWhile (\<lambda>m. fst m \<noteq> 0) ms)"

lemma aq_recv_iff:
  "aq_recv a = Some (b, a') \<longleftrightarrow> (\<exists>bs. open_first (amsgs a) = b # bs) \<and> a' = a\<lparr>amsgs := drop_open (amsgs a)\<rparr>"
proof -
  have o: "open_first ms = map snd (filter (\<lambda>m. fst m = 0) (dropWhile (\<lambda>m. fst m \<noteq> 0) ms))" for ms :: "(u32 \<times> u32) list"
    unfolding open_first_def by (induction ms) simp_all
  define dw where "dw = dropWhile (\<lambda>m. fst m \<noteq> 0) (amsgs a)"
  have "fst m = 0" if "dw = m # ms" for m ms
    using that unfolding dw_def by (metis (mono_tags) dropWhile_eq_Cons_conv)
  then show ?thesis unfolding aq_recv_def drop_open_def o dw_def [symmetric] by (cases dw) auto
qed

lemma open_first_drop: "open_first ms = x # xs \<Longrightarrow> open_first (drop_open ms) = xs"
  unfolding open_first_def drop_open_def by (induction ms) (auto split: if_splits)

lemma open_first_map: "open_first (map (\<lambda>(r, b). (r, f b)) ms) = map f (open_first ms)"
  by (induction ms) (auto simp: open_first_def)

lemma drop_open_map: "drop_open (map (\<lambda>(r, b). (r, f b)) ms) = map (\<lambda>(r, b). (r, f b)) (drop_open ms)"
  by (induction ms) (auto simp: drop_open_def)

lemma drop_open_subset: "set (drop_open ms) \<subseteq> set ms"
  unfolding drop_open_def by (auto dest: set_takeWhileD list.set_sel(2) set_dropWhileD)
    (metis list.set_sel(2) set_dropWhileD tl_Nil empty_iff list.set(1))

lemma distinct_drop_open:
  "distinct (map snd ms) \<Longrightarrow> open_first ms = b # bs \<Longrightarrow>
   distinct (map snd (drop_open ms)) \<and> b \<notin> snd ` set (drop_open ms) \<and> b \<in> snd ` set ms"
proof (induction ms)
  case (Cons m ms)
  show ?case
  proof (cases "fst m = 0")
    case True
    with Cons.prems show ?thesis by (auto simp: drop_open_def open_first_def)
  next
    case False
    have d: "drop_open (m # ms) = m # drop_open ms" using False by (simp add: drop_open_def)
    have "open_first ms = b # bs" using False Cons.prems by (simp add: open_first_def)
    with Cons have IH: "distinct (map snd (drop_open ms))" "b \<notin> snd ` set (drop_open ms)" "b \<in> snd ` set ms"
      by simp_all
    have "snd m \<notin> snd ` set ms" using Cons.prems(1) by simp
    then have "snd m \<notin> snd ` set (drop_open ms)" "b \<noteq> snd m"
      using IH(3) image_mono [OF drop_open_subset [of ms], of snd] by blast+
    with IH show ?thesis unfolding d by simp
  qed
qed (simp add: open_first_def)

lemma requests_drop_open: "filter (\<lambda>r. r \<noteq> 0) (map fst (drop_open ms)) = filter (\<lambda>r. r \<noteq> 0) (map fst ms)"
  unfolding drop_open_def by (induction ms) auto

lemma live_freed:
  assumes live: "buffer_live st c" and ne: "decode_buff_index c \<noteq> i"
    and b: "buffers st' = buffers st \<or> buffers st' = (buffers st)(i := zero_buffer)"
  shows "buffer_live st' c" and "payload_of st' c = payload_of st c"
proof -
  have "buffers st' (decode_buff_index c) = buffers st (decode_buff_index c)" using ne b by auto
  then show "payload_of st' c = payload_of st c" by (rule payload_of_cong)
  show "buffer_live st' c" using live ne b unfolding buffer_live_def by auto
qed

lemma recv_takes:
  assumes inv: "db_inv st" and p: "path_ok d n e"
    and ne: "\<not> mcapi_trans_empty_queue (queue_at st d n e)"
    and r: "ring_recv (queue_at st d n e) = Some (b, q')" "queue_inv q'"
      "aq_recv (abs_queue (queue_at st d n e)) = Some (b, abs_queue q')"
    and bf: "buffers st' = buffers st \<or> buffers st' = (buffers st)(decode_buff_index b := zero_buffer)"
    and q: "\<And>d' n' e'. queue_at st' d' n' e' = (if (d', n', e') = (d, n, e) then q' else queue_at st d' n' e')"
  shows "db_inv st'" and "ep_messages st' d n e = drop_open (ep_messages st d n e)"
    and "hd (open_first (ep_messages st d n e)) = payload_of st b"
    and "ep_pending st' d n e = ep_pending st d n e"
    and "path_ok d' n' e' \<Longrightarrow> (d', n', e') \<noteq> (d, n, e) \<Longrightarrow>
      ep_messages st' d' n' e' = ep_messages st d' n' e' \<and> ep_pending st' d' n' e' = ep_pending st d' n' e'"
proof -
  let ?q = "queue_at st d n e"
  have qok: "queue_ok st ?q" by (rule db_inv_queue [OF inv p])
  from r(3) obtain bs where o: "open_first (amsgs (abs_queue ?q)) = b # bs"
    and a': "abs_queue q' = (abs_queue ?q)\<lparr>amsgs := drop_open (amsgs (abs_queue ?q))\<rparr>"
    unfolding aq_recv_iff by blast
  have live: "buffer_live st c" if "path_ok d1 n1 e1" "c \<in> set (queue_bufs (queue_at st d1 n1 e1))" for d1 n1 e1 c
    using db_inv_queue [OF inv that(1)] that(2) by (simp add: queue_ok_def)
  note dd = distinct_drop_open [of "amsgs (abs_queue ?q)" b bs]
  have dst: "distinct (queue_bufs q')" "b \<notin> set (queue_bufs q')" "b \<in> set (queue_bufs ?q)"
    "set (queue_bufs q') \<subseteq> set (queue_bufs ?q)"
    using dd o qok drop_open_subset [of "amsgs (abs_queue ?q)"]
    unfolding queue_bufs_def a' queue_ok_def by auto
  have lb: "buffer_live st b" by (rule live [OF p dst(3)])
  have keep: "buffer_live st' c" "payload_of st' c = payload_of st c" if "buffer_live st c" "c \<noteq> b" for c
    using live_freed [OF that(1) _ bf] that buffer_live_decode [OF that(1)] buffer_live_decode [OF lb] by metis+
  have ok': "queue_ok st' q'"
    using r(2) qok dst live [OF p] keep(1) unfolding queue_ok_def aq_distinct_def aq_requests_def a'
    by (auto simp: requests_drop_open)
  have other: "c \<noteq> b" if "path_ok d1 n1 e1" "(d1, n1, e1) \<noteq> (d, n, e)" "c \<in> set (queue_bufs (queue_at st d1 n1 e1))"
    for d1 n1 e1 c using db_inv_disjoint [OF inv that(1) p that(2)] that(3) dst(3) by auto
  show "db_inv st'"
  proof (rule db_inv_update [OF inv q ok'])
    fix d1 n1 e1 c assume pd: "path_ok d1 n1 e1" "(d1, n1, e1) \<noteq> (d, n, e)" "c \<in> set (queue_bufs (queue_at st d1 n1 e1))"
    then show "buffer_live st' c \<and> c \<notin> set (queue_bufs q')"
      using keep(1) [OF live [OF pd(1,3)] other [OF pd]] db_inv_disjoint [OF inv pd(1) p pd(2)] dst(4) by auto
  qed
  have "payload_of st' c = payload_of st c" if "c \<in> set (queue_bufs q')" for c
    using keep(2) live [OF p] that dst by blast
  then have "map (\<lambda>(r, b). (r, payload_of st' b)) (amsgs (abs_queue q')) =
      map (\<lambda>(r, b). (r, payload_of st b)) (amsgs (abs_queue q'))"
    unfolding queue_bufs_def by force
  then show "ep_messages st' d n e = drop_open (ep_messages st d n e)"
    unfolding ep_messages_def by (simp add: q a' drop_open_map)
  show "hd (open_first (ep_messages st d n e)) = payload_of st b"
    unfolding ep_messages_def open_first_map o by simp
  show "ep_pending st' d n e = ep_pending st d n e" by (simp add: ep_pending_def q a')
  show "path_ok d' n' e' \<Longrightarrow> (d', n', e') \<noteq> (d, n, e) \<Longrightarrow>
      ep_messages st' d' n' e' = ep_messages st d' n' e' \<and> ep_pending st' d' n' e' = ep_pending st d' n' e'"
    using ep_messages_cong [of st' d' n' e' st] keep(2) live [of d' n' e'] other [of d' n' e'] by (auto simp: q)
qed

lemma empty_iff_open:
  assumes "queue_inv (queue_at st d n e)"
  shows "mcapi_trans_empty_queue (queue_at st d n e) \<longleftrightarrow> open_first (ep_messages st d n e) = []"
  unfolding ep_messages_def open_first_map
  using empty_queue_window [OF assms] abs_empty [of "queue_at st d n e"]
  by (simp add: open_first_def filter_empty_conv)

text \<open>
  A receive that does not have to wait: \<open>upd\<close> is the change of the application's memory, and the
  buffer is freed unless it is handed over.
\<close>

lemma recv_delivers:
  assumes inv: "db_inv st" and p: "path_ok d n e" and om: "open_first (ep_messages st d n e) = (bs, s) # rest"
    and dl: "\<And>i. payload_of st (encode_buff_index i) = (bs, s) \<Longrightarrow> i < MCAPI_MAX_BUFFERS \<Longrightarrow>
      \<exists>st1. deliver_buffer (chan_type (queue_at st d n e)) i buffer (min bsz (bsize (buffers st i))) ws st =
        Some (sc, st1) \<and> (buffers st1 = buffers st \<or> buffers st1 = (buffers st)(i := zero_buffer)) \<and> P i st1"
    and P: "\<And>i st1 st'. P i st1 \<Longrightarrow> buffers st' = buffers st1 \<Longrightarrow> user_bytes st' = user_bytes st1 \<Longrightarrow>
      user_ptrs st' = user_ptrs st1 \<Longrightarrow> P i st'"
  obtains i st' where "mcapi_trans_recv_have_lock d n e buffer bsz blocking ws env st = Some (Some (length bs, sc), st')"
    and "db_inv st'" and "ep_messages st' d n e = drop_open (ep_messages st d n e)" and "P i st'"
    and "i < MCAPI_MAX_BUFFERS" and "magic_num (buffers st i) \<noteq> 0"
    and "payload_of st (encode_buff_index i) = (bs, s)"
    and "ep_pending st' d n e = ep_pending st d n e" and "requests st' = requests st"
    and "\<And>d' n' e'. path_ok d' n' e' \<Longrightarrow> (d', n', e') \<noteq> (d, n, e) \<Longrightarrow>
      ep_messages st' d' n' e' = ep_messages st d' n' e' \<and> ep_pending st' d' n' e' = ep_pending st d' n' e'"
    and "chan_type (queue_at st' d n e) = chan_type (queue_at st d n e)"
    and "qlen (queue_at st' d n e) \<le> qlen (queue_at st d n e)"
proof -
  have qok: "queue_ok st (queue_at st d n e)" by (rule db_inv_queue [OF inv p])
  then have qi: "queue_inv (queue_at st d n e)" by (simp add: queue_ok_def)
  from om have ne: "\<not> mcapi_trans_empty_queue (queue_at st d n e)" using empty_iff_open [OF qi] by simp
  from ring_recv_refines [OF qi ne] obtain b q' where r: "ring_recv (queue_at st d n e) = Some (b, q')" "queue_inv q'"
      "aq_recv (abs_queue (queue_at st d n e)) = Some (b, abs_queue q')"
    and ql: "qlen q' \<le> qlen (queue_at st d n e)" and ct: "chan_type q' = chan_type (queue_at st d n e)" by metis
  have "b \<in> set (open_first (amsgs (abs_queue (queue_at st d n e))))" using r(3) unfolding aq_recv_iff by auto
  then have "b \<in> set (queue_bufs (queue_at st d n e))" unfolding open_first_def queue_bufs_def by auto
  then have "buffer_live st b" using qok by (simp add: queue_ok_def)
  then obtain i where i: "i < MCAPI_MAX_BUFFERS" "b = encode_buff_index i" "magic_num (buffers st i) \<noteq> 0"
    unfolding buffer_live_def by blast
  have di: "decode_buff_index b = i" using i by simp
  have "map (payload_of st) (open_first (amsgs (abs_queue (queue_at st d n e)))) = (bs, s) # rest"
    using om unfolding ep_messages_def open_first_map .
  then have pl: "payload_of st b = (bs, s)" using r(3) unfolding aq_recv_iff by auto
  then have sz: "bsize (buffers st i) = length bs" using di by (auto simp: payload_of_def Let_def)
  from dl [OF pl [unfolded i(2)] i(1)] obtain st1 where
    dl1: "deliver_buffer (chan_type (queue_at st d n e)) i buffer (min bsz (bsize (buffers st i))) ws st = Some (sc, st1)"
    and b1: "buffers st1 = buffers st \<or> buffers st1 = (buffers st)(i := zero_buffer)" and P1: "P i st1" by blast
  show thesis
  proof (rule recv_have_lock_view [OF ne r(1) ct, of buffer bsz ws sc st1 blocking env])
    show "deliver_buffer (chan_type (queue_at st d n e)) (decode_buff_index b) buffer
      (min bsz (bsize (buffers st (decode_buff_index b)))) ws st = Some (sc, st1)" using dl1 by (simp add: di)
    fix st' assume s: "mcapi_trans_recv_have_lock d n e buffer bsz blocking ws env st =
        Some (Some (bsize (buffers st (decode_buff_index b)), sc), st')"
      and fr: "buffers st' = buffers st1" "user_bytes st' = user_bytes st1" "user_ptrs st' = user_ptrs st1"
        "requests st' = requests st"
      and q: "\<And>d' n' e'. queue_at st' d' n' e' = (if (d', n', e') = (d, n, e) then q' else queue_at st d' n' e')"
    have bf: "buffers st' = buffers st \<or> buffers st' = (buffers st)(decode_buff_index b := zero_buffer)"
      using b1 fr(1) di by simp
    note t = recv_takes [OF inv p ne r bf q]
    show thesis
      by (rule that [OF s [unfolded di sz] t(1,2) P [OF P1 fr(1-3)] i(1,3) _ t(4) fr(4) t(5)])
        (use pl i(2) q ct ql in simp_all)
  qed
qed

lemma recv_message:
  assumes inv: "db_inv st" and p: "path_ok d n e" and om: "open_first (ep_messages st d n e) = (bs, s) # rest"
    and ct: "chan_type (queue_at st d n e) = MCAPI_NO_CHAN"
  obtains i st' where
      "mcapi_trans_recv_have_lock d n e (Local (UserBuf a)) bsz blocking ws env st = Some (Some (length bs, None), st')"
    and "db_inv st'" and "ep_messages st' d n e = drop_open (ep_messages st d n e)"
    and "bytes_of (user_bytes st' a) (min bsz (length bs)) = take bsz bs"
    and "\<And>a'. a' \<noteq> a \<Longrightarrow> user_bytes st' a' = user_bytes st a'" and "user_ptrs st' = user_ptrs st"
    and "i < MCAPI_MAX_BUFFERS" and "magic_num (buffers st i) \<noteq> 0" and "buffers st' = (buffers st)(i := zero_buffer)"
    and "ep_pending st' d n e = ep_pending st d n e" and "requests st' = requests st"
    and "\<And>d' n' e'. path_ok d' n' e' \<Longrightarrow> (d', n', e') \<noteq> (d, n, e) \<Longrightarrow>
      ep_messages st' d' n' e' = ep_messages st d' n' e' \<and> ep_pending st' d' n' e' = ep_pending st d' n' e'"
    and "chan_type (queue_at st' d n e) = MCAPI_NO_CHAN"
    and "qlen (queue_at st' d n e) \<le> qlen (queue_at st d n e)"
    and "\<And>k. min bsz (length bs) \<le> k \<Longrightarrow> user_bytes st' a k = user_bytes st a k"
proof -
  define P where "P i st1 \<longleftrightarrow> buffers st1 = (buffers st)(i := zero_buffer) \<and> user_ptrs st1 = user_ptrs st \<and>
    user_bytes st1 = (user_bytes st)(a := memcpy (user_bytes st a) (buff (buffers st i)) (min bsz (bsize (buffers st i))))"
    for i and st1 :: mcapi_state
  have dl: "\<exists>st1. deliver_buffer (chan_type (queue_at st d n e)) i (Local (UserBuf a)) (min bsz (bsize (buffers st i))) ws st =
      Some (None, st1) \<and> (buffers st1 = buffers st \<or> buffers st1 = (buffers st)(i := zero_buffer)) \<and> P i st1" for i
    by (simp add: deliver_buffer_def ct deref_def write_ptr_def P_def frame_simps fun_eq_iff)
  show thesis
  proof (rule recv_delivers [OF inv p om, of "Local (UserBuf a)" bsz ws None P blocking env])
    fix i st' assume r: "mcapi_trans_recv_have_lock d n e (Local (UserBuf a)) bsz blocking ws env st =
        Some (Some (length bs, None), st')" "db_inv st'"
        "ep_messages st' d n e = drop_open (ep_messages st d n e)" and Pi: "P i st'"
      and i: "i < MCAPI_MAX_BUFFERS" "magic_num (buffers st i) \<noteq> 0" and pl: "payload_of st (encode_buff_index i) = (bs, s)"
      and fr: "ep_pending st' d n e = ep_pending st d n e" "requests st' = requests st"
      and iso: "\<And>d' n' e'. path_ok d' n' e' \<Longrightarrow> (d', n', e') \<noteq> (d, n, e) \<Longrightarrow>
        ep_messages st' d' n' e' = ep_messages st d' n' e' \<and> ep_pending st' d' n' e' = ep_pending st d' n' e'"
      and c: "chan_type (queue_at st' d n e) = chan_type (queue_at st d n e)"
        "qlen (queue_at st' d n e) \<le> qlen (queue_at st d n e)"
    have b: "bs = bytes_of (buff (buffers st i)) (bsize (buffers st i))"
      using pl i(1) by (auto simp: payload_of_def Let_def)
    then have "bytes_of (user_bytes st' a) (min bsz (length bs)) = take bsz bs"
      using Pi unfolding P_def by simp
    moreover have "user_bytes st' a k = user_bytes st a k" if "min bsz (length bs) \<le> k" for k
      using Pi that b unfolding P_def by (auto simp: memcpy_def)
    ultimately show thesis
      using r i fr iso c ct Pi unfolding P_def by (intro that [of st' i]) simp_all
  qed (use dl in \<open>auto simp: P_def\<close>)
qed

section \<open>An endpoint as a first-in first-out channel of messages\<close>

definition free_buffers :: "mcapi_state \<Rightarrow> nat" where
  "free_buffers st = card {i. i < MCAPI_MAX_BUFFERS \<and> magic_num (buffers st i) = 0}"

lemma free_buffers_pos: "0 < free_buffers st \<longleftrightarrow> find_buffer st < MCAPI_MAX_BUFFERS"
  unfolding free_buffers_def find_buffer_def for_first_some by (auto simp: card_gt_0_iff)

lemma free_buffers_fill:
  assumes "magic_num (buffers st i) = 0" "i < MCAPI_MAX_BUFFERS" "magic_num nb \<noteq> 0"
    and "buffers st' = (buffers st)(i := nb)"
  shows "free_buffers st' = free_buffers st - 1"
proof -
  have "{j. j < MCAPI_MAX_BUFFERS \<and> magic_num (buffers st' j) = 0} =
      {j. j < MCAPI_MAX_BUFFERS \<and> magic_num (buffers st j) = 0} - {i}"
    using assms by auto
  then show ?thesis using assms unfolding free_buffers_def by (simp add: card_Diff_singleton)
qed

lemma free_buffers_clear:
  assumes "buffers st' = (buffers st)(i := zero_buffer)"
  shows "free_buffers st \<le> free_buffers st'"
  unfolding free_buffers_def using assms by (intro card_mono) auto

definition send_bytes :: "nat \<Rightarrow> nat \<Rightarrow> nat \<Rightarrow> addr \<Rightarrow> byte list \<Rightarrow> mcapi_state \<Rightarrow> mcapi_state option" where
  "send_bytes d n e a bs st =
     (let st = st\<lparr>user_bytes := (user_bytes st)(a := (\<lambda>i. if i < length bs then bs ! i else 0))\<rparr> in
      case mcapi_trans_send_have_lock d n e (UserBuf a) (length bs) 0 st of
        Some (True, st') \<Rightarrow> Some st' | _ \<Rightarrow> None)"

definition recv_bytes :: "nat \<Rightarrow> nat \<Rightarrow> nat \<Rightarrow> addr \<Rightarrow> mcapi_state \<Rightarrow> (byte list \<times> mcapi_state) option" where
  "recv_bytes d n e a st =
     (case mcapi_trans_recv_have_lock d n e (Local (UserBuf a)) MCAPI_MAX_MSG_SIZE False False [] st of
        Some (Some (k, sc), st') \<Rightarrow> Some (bytes_of (user_bytes st' a) k, st') | _ \<Rightarrow> None)"

definition ep_ok :: "nat \<Rightarrow> nat \<Rightarrow> nat \<Rightarrow> mcapi_state \<Rightarrow> bool" where
  "ep_ok d n e st \<longleftrightarrow> db_inv st \<and> path_ok d n e \<and> ep_pending st d n e = [] \<and>
     chan_type (queue_at st d n e) = MCAPI_NO_CHAN \<and>
     (\<forall>m\<in>set (ep_messages st d n e). length (fst (snd m)) \<le> MCAPI_MAX_MSG_SIZE)"

definition ep_unread :: "nat \<Rightarrow> nat \<Rightarrow> nat \<Rightarrow> mcapi_state \<Rightarrow> byte list list" where
  "ep_unread d n e st = map fst (open_first (ep_messages st d n e))"

definition ep_room :: "nat \<Rightarrow> nat \<Rightarrow> nat \<Rightarrow> mcapi_state \<Rightarrow> nat" where
  "ep_room d n e st = min (ring_room (queue_at st d n e)) (free_buffers st)"

lemma queue_at_user_bytes [simp]: "queue_at (st\<lparr>user_bytes := u\<rparr>) = queue_at st"
  by (simp add: queue_at_def endpoint_at_def node_at_def fun_eq_iff)

lemma ep_views_user_bytes [simp]:
  "ep_messages (st\<lparr>user_bytes := u\<rparr>) = ep_messages st" "ep_pending (st\<lparr>user_bytes := u\<rparr>) = ep_pending st"
  "db_inv (st\<lparr>user_bytes := u\<rparr>) = db_inv st" "find_buffer (st\<lparr>user_bytes := u\<rparr>) = find_buffer st"
  by (simp_all add: ep_messages_def ep_pending_def payload_of_def fun_eq_iff db_inv_def queue_ok_def
      buffer_live_def find_buffer_def)

lemma fill_from_user:
  "sz \<le> MCAPI_BUFF_SIZE \<Longrightarrow> fill_buffer (UserBuf a) sz st dst = Some (memcpy dst (user_bytes st a) sz)"
  by (auto simp: fill_buffer_def read_ptr_def memcpy_def fun_eq_iff)

lemma bytes_of_nth: "bytes_of (\<lambda>i. if i < length bs then bs ! i else 0) (length bs) = bs"
  by (rule nth_equalityI) (simp_all add: bytes_of_def)

lemma msg_size_buff: "sz \<le> MCAPI_MAX_MSG_SIZE \<Longrightarrow> sz \<le> MCAPI_BUFF_SIZE"
  by (simp add: MCAPI_BUFF_SIZE_def)

lemma send_message:
  assumes inv: "db_inv st" and p: "path_ok d n e" and ct: "chan_type (queue_at st d n e) \<noteq> MCAPI_SCL_CHAN"
    and room: "0 < ep_room d n e st" and sz: "sz \<le> MCAPI_MAX_MSG_SIZE"
  obtains st' where "mcapi_trans_send_have_lock d n e (UserBuf a) sz scl st = Some (True, st')" and "db_inv st'"
    and "ep_messages st' d n e = ep_messages st d n e @
      [(if ep_pending st d n e = [] then 0 else hd (ep_pending st d n e), bytes_of (user_bytes st a) sz,
        scalar (buffers st (find_buffer st)))]"
    and "ep_pending st' d n e = tl (ep_pending st d n e)"
    and "\<And>d' n' e'. path_ok d' n' e' \<Longrightarrow> (d', n', e') \<noteq> (d, n, e) \<Longrightarrow>
      ep_messages st' d' n' e' = ep_messages st d' n' e' \<and> ep_pending st' d' n' e' = ep_pending st d' n' e'"
    and "requests st' = requests st" "user_bytes st' = user_bytes st" "user_ptrs st' = user_ptrs st"
    and "chan_type (queue_at st' d n e) = chan_type (queue_at st d n e)"
    and "ep_room d n e st' = ep_room d n e st - 1"
proof -
  have qi: "queue_inv (queue_at st d n e)" using db_inv_queue [OF inv p] by (simp add: queue_ok_def)
  from room have nf: "\<not> mcapi_trans_full_queue (queue_at st d n e)" and fb: "find_buffer st < MCAPI_MAX_BUFFERS"
    using ring_room_pos [OF qi] free_buffers_pos [of st] by (simp_all add: ep_room_def)
  let ?i = "find_buffer st"
  let ?nb = "filled_buffer (chan_type (queue_at st d n e)) (memcpy (buff (buffers st ?i)) (user_bytes st a) sz) sz scl (buffers st ?i)"
  have nb: "bytes_of (buff ?nb) sz = bytes_of (user_bytes st a) sz" "scalar ?nb = scalar (buffers st ?i)" "magic_num ?nb \<noteq> 0"
    using ct by (simp_all add: filled_buffer_def)
  note fill = disjI2 [OF fill_from_user [OF msg_size_buff [OF sz]]]
  show thesis
  proof (rule send_delivers [OF inv p nf refl fb fill, of a scl])
    fix st' assume s: "mcapi_trans_send_have_lock d n e (UserBuf a) sz scl st = Some (True, st')" "db_inv st'"
      and m: "ep_messages st' d n e = ep_messages st d n e @
        [(if ep_pending st d n e = [] then 0 else hd (ep_pending st d n e), bytes_of (buff ?nb) sz, scalar ?nb)]"
      and rest: "ep_pending st' d n e = tl (ep_pending st d n e)"
       "\<And>d' n' e'. path_ok d' n' e' \<Longrightarrow> (d', n', e') \<noteq> (d, n, e) \<Longrightarrow>
          ep_messages st' d' n' e' = ep_messages st d' n' e' \<and> ep_pending st' d' n' e' = ep_pending st d' n' e'"
       "requests st' = requests st" "user_bytes st' = user_bytes st" "user_ptrs st' = user_ptrs st"
       "chan_type (queue_at st' d n e) = chan_type (queue_at st d n e)"
      and b: "buffers st' = (buffers st)(?i := ?nb)"
      and l: "qlen (queue_at st' d n e) = Suc (qlen (queue_at st d n e))"
    have "free_buffers st' = free_buffers st - 1"
      by (rule free_buffers_fill [OF find_buffer_free [OF fb] fb nb(3) b])
    then have "ep_room d n e st' = ep_room d n e st - 1" by (simp add: ep_room_def ring_room_def l)
    with s m [unfolded nb] rest show thesis by (intro that)
  qed
qed

interpretation endpoint: fifo_channel "ep_ok d n e" "ep_unread d n e" "ep_room d n e"
  "\<lambda>bs. length bs \<le> MCAPI_MAX_MSG_SIZE" "send_bytes d n e a" "recv_bytes d n e a" for d n e a
proof unfold_locales
  fix st :: mcapi_state and bs :: "byte list"
  assume ok: "ep_ok d n e st" and len: "length bs \<le> MCAPI_MAX_MSG_SIZE" and room: "0 < ep_room d n e st"
  let ?u = "(user_bytes st)(a := (\<lambda>i. if i < length bs then bs ! i else 0))"
  let ?st = "st\<lparr>user_bytes := ?u\<rparr>"
  have r: "ep_room d n e ?st = ep_room d n e st" by (simp add: ep_room_def free_buffers_def)
  have o: "db_inv ?st" "path_ok d n e" "chan_type (queue_at ?st d n e) \<noteq> MCAPI_SCL_CHAN" "0 < ep_room d n e ?st"
    "ep_pending ?st d n e = []" using ok room r by (simp_all add: ep_ok_def)
  show "\<exists>st'. send_bytes d n e a bs st = Some st' \<and> ep_ok d n e st' \<and> ep_unread d n e st' = ep_unread d n e st @ [bs] \<and>
      ep_room d n e st' = ep_room d n e st - 1"
  proof (rule send_message [OF o(1-4) len, of a 0])
    fix st' assume s: "mcapi_trans_send_have_lock d n e (UserBuf a) (length bs) 0 ?st = Some (True, st')" "db_inv st'"
      and m: "ep_messages st' d n e = ep_messages ?st d n e @ [(if ep_pending ?st d n e = [] then 0 else hd (ep_pending ?st d n e),
         bytes_of (user_bytes ?st a) (length bs), scalar (buffers ?st (find_buffer ?st)))]"
      and pe: "ep_pending st' d n e = tl (ep_pending ?st d n e)"
      and ct: "chan_type (queue_at st' d n e) = chan_type (queue_at ?st d n e)"
      and rm: "ep_room d n e st' = ep_room d n e ?st - 1"
    have b: "bytes_of (user_bytes ?st a) (length bs) = bs" by (simp add: bytes_of_nth)
    have m': "ep_messages st' d n e = ep_messages st d n e @ [(0, bs, scalar (buffers st (find_buffer st)))]"
      using m unfolding b by (simp add: o(5) [simplified])
    have "send_bytes d n e a bs st = Some st'" using s(1) by (simp add: send_bytes_def)
    moreover have "ep_ok d n e st'" using s(2) m' pe ct ok len by (simp add: ep_ok_def)
    moreover have "ep_unread d n e st' = ep_unread d n e st @ [bs]"
      unfolding ep_unread_def m' by (simp add: open_first_def)
    ultimately show ?thesis using rm r by simp
  qed
next
  fix st bs rest assume ok: "ep_ok d n e st" and v: "ep_unread d n e st = bs # rest"
  then obtain s ms where om: "open_first (ep_messages st d n e) = (bs, s) # ms" "rest = map fst ms"
    by (auto simp: ep_unread_def)
  then have "(bs, s) \<in> set (open_first (ep_messages st d n e))" by simp
  then have len: "length bs \<le> MCAPI_MAX_MSG_SIZE" using ok by (auto simp: ep_ok_def open_first_def)
  have o: "db_inv st" "path_ok d n e" "chan_type (queue_at st d n e) = MCAPI_NO_CHAN" using ok by (simp_all add: ep_ok_def)
  show "\<exists>st'. recv_bytes d n e a st = Some (bs, st') \<and> ep_ok d n e st' \<and> ep_unread d n e st' = rest \<and>
      ep_room d n e st \<le> ep_room d n e st'"
  proof (rule recv_message [OF o(1,2) om(1) o(3), of a MCAPI_MAX_MSG_SIZE False False "[]"])
    fix i st' assume r: "mcapi_trans_recv_have_lock d n e (Local (UserBuf a)) MCAPI_MAX_MSG_SIZE False False [] st =
        Some (Some (length bs, None), st')" "db_inv st'" "ep_messages st' d n e = drop_open (ep_messages st d n e)"
      and rd: "bytes_of (user_bytes st' a) (min MCAPI_MAX_MSG_SIZE (length bs)) = take MCAPI_MAX_MSG_SIZE bs"
      and bf: "buffers st' = (buffers st)(i := zero_buffer)" and pe: "ep_pending st' d n e = ep_pending st d n e"
      and ct: "chan_type (queue_at st' d n e) = MCAPI_NO_CHAN" and l: "qlen (queue_at st' d n e) \<le> qlen (queue_at st d n e)"
    have "recv_bytes d n e a st = Some (bs, st')" using r(1) rd len by (simp add: recv_bytes_def)
    moreover have "ep_ok d n e st'"
      using ok r(2,3) ct pe drop_open_subset [of "ep_messages st d n e"] unfolding ep_ok_def by auto
    moreover have "ep_unread d n e st' = rest" unfolding ep_unread_def r(3) open_first_drop [OF om(1)] om(2) ..
    moreover have "ep_room d n e st \<le> ep_room d n e st'"
      using free_buffers_clear [OF bf] l unfolding ep_room_def ring_room_def by (intro min.mono) simp_all
    ultimately show ?thesis by blast
  qed
qed

lemma refused_send_view:
  assumes inv: "db_inv st" and p: "path_ok d n e" and room: "ep_room d n e st = 0"
  obtains st' where "mcapi_trans_send_have_lock d n e pt sz scl st = Some (False, st')" and "db_inv st'"
    and "\<And>d' n' e'. path_ok d' n' e' \<Longrightarrow> ep_messages st' d' n' e' = ep_messages st d' n' e' \<and> ep_pending st' d' n' e' = ep_pending st d' n' e'"
    and "buffers st' = buffers st" and "requests st' = requests st" and "request_reserves_header st' = request_reserves_header st"
    and "user_bytes st' = user_bytes st" and "user_ptrs st' = user_ptrs st"
proof (cases "mcapi_trans_full_queue (queue_at st d n e)")
  case True
  have i: "queue_inv (queue_at st d n e)" using db_inv_queue [OF inv p] by (simp add: queue_ok_def)
  show ?thesis
  proof (rule compact_queue_refines [OF i])
    fix q' assume q: "mcapi_trans_compact_queue (queue_at st d n e) = Some q'" "queue_inv q'" "abs_queue q' = abs_queue (queue_at st d n e)"
    let ?st = "set_queue d n e q' st"
    have s: "mcapi_trans_send_have_lock d n e pt sz scl st = Some (False, ?st)"
      unfolding mcapi_trans_send_have_lock_def using True q(1) by simp
    have v: "queue_at ?st d' n' e' = (if (d', n', e') = (d, n, e) then q' else queue_at st d' n' e')" for d' n' e'
      by (auto simp: frame_simps)
    have b: "buffers ?st = buffers st" by (simp add: frame_simps)
    have qk: "queue_ok st (queue_at st d n e)" by (rule db_inv_queue [OF inv p])
    have bl: "buffer_live ?st = buffer_live st" "queue_bufs q' = queue_bufs (queue_at st d n e)"
      by (simp_all add: fun_eq_iff buffer_live_def b queue_bufs_def q(3))
    have "queue_ok ?st q'" using qk q by (simp add: queue_ok_def bl)
    then have "db_inv ?st"
    proof (rule db_inv_update [OF inv v])
      fix d' n' e' c assume o: "path_ok d' n' e'" "(d', n', e') \<noteq> (d, n, e)" "c \<in> set (queue_bufs (queue_at st d' n' e'))"
      then show "buffer_live ?st c \<and> c \<notin> set (queue_bufs q')"
        unfolding bl using db_inv_queue [OF inv o(1)] db_inv_disjoint [OF inv o(1) p o(2)] by (auto simp: queue_ok_def)
    qed
    moreover have "ep_messages ?st d' n' e' = ep_messages st d' n' e' \<and> ep_pending ?st d' n' e' = ep_pending st d' n' e'"
      for d' n' e' by (simp add: ep_messages_def ep_pending_def v q(3) payload_of_def b)
    ultimately show ?thesis by (intro that [OF s]) (simp_all add: frame_simps)
  qed
next
  case False
  have "queue_inv (queue_at st d n e)" using db_inv_queue [OF inv p] by (simp add: queue_ok_def)
  then have "free_buffers st = 0" using False room ring_room_pos [of "queue_at st d n e"] by (auto simp: ep_room_def)
  then have "\<not> find_buffer st < MCAPI_MAX_BUFFERS" using free_buffers_pos [of st] by simp
  then have "find_buffer st = MCAPI_MAX_BUFFERS" by (simp add: find_buffer_def for_first_le le_antisym)
  with False have "mcapi_trans_send_have_lock d n e pt sz scl st = Some (False, st)"
    by (simp add: mcapi_trans_send_have_lock_def)
  then show ?thesis by (rule that) (simp_all add: inv)
qed

text \<open>
  C3: The messages of an endpoint form a first-in first-out channel of byte strings: any sequence
  of sends and receives that stays within the free ring slots and transport buffers, and receives
  nothing that was not sent, succeeds in every step and returns the contents sent, in order, and
  what is left unread are the later messages.
\<close>

theorem endpoint_refines_fifo:
  assumes "ep_ok d n e st" and "length (puts as) \<le> ep_room d n e st" and "\<forall>bs\<in>set (puts as). length bs \<le> MCAPI_MAX_MSG_SIZE"
    and "list_run as (ep_unread d n e st) = Some (out, rest)"
  shows "\<exists>st'. run_actions (send_bytes d n e a) (recv_bytes d n e a) as st = Some (out, st') \<and> ep_ok d n e st' \<and>
     ep_unread d n e st' = rest \<and> ep_unread d n e st @ puts as = out @ rest"
  using endpoint.run_refines [OF assms] list_run_order [OF assms(4)] by blast

lemma zero_state_views:
  "queue_at zero_state d n e = zero_queue" "db_inv zero_state" "path_ok d n e \<Longrightarrow> ep_ok d n e zero_state"
  "ep_unread d n e zero_state = []" "ep_room d n e zero_state = 64"
proof -
  show q: "queue_at zero_state d n e = zero_queue" for d n e by (simp add: zero_state_def queue_at_def endpoint_at_def node_at_def)
  then show i: "db_inv zero_state"
    by (simp add: db_inv_def queue_ok_def queue_bufs_def zero_queue_inv aq_distinct_def aq_requests_def)
  have "buffers zero_state = (\<lambda>_. zero_buffer)" by (simp add: zero_state_def)
  then show "ep_unread d n e zero_state = []" "ep_room d n e zero_state = 64"
    by (simp_all add: ep_unread_def ep_messages_def open_first_def q zero_queue_inv ep_room_def ring_ok_zero free_buffers_def mcapi_limits)
  show "path_ok d n e \<Longrightarrow> ep_ok d n e zero_state"
    using i by (simp add: ep_ok_def ep_pending_def ep_messages_def q zero_queue_inv)
qed

theorem endpoint_refines_fifo_witness:
  "\<exists>st'. run_actions (send_bytes 0 1 2 7) (recv_bytes 0 1 2 7) [Put [1, 2], Put [], Get, Put [3], Get] zero_state =
      Some ([[1, 2], []], st') \<and> ep_unread 0 1 2 st' = [[3]]"
proof -
  have p: "path_ok 0 1 2" by (simp add: path_ok_iff mcapi_limits)
  show ?thesis
    using endpoint_refines_fifo [OF zero_state_views(3) [OF p], of "[Put [1, 2], Put [], Get, Put [3], Get]" "[[1, 2], []]" "[[3]]" 7]
    by (auto simp: zero_state_views MCAPI_MAX_MSG_SIZE_def)
qed

text \<open>
  C26: A send to an endpoint whose ring is full, or when no transport buffer is left, is refused
  without a trace: the result is false, no buffer is taken, and the messages and the pending
  requests of every endpoint stay as they are.
\<close>

theorem refused_send_changes_nothing:
  assumes "db_inv st" and "path_ok d n e" and "ep_room d n e st = 0"
  shows "\<exists>st'. mcapi_trans_send_have_lock d n e pt sz scl st = Some (False, st') \<and> db_inv st' \<and> buffers st' = buffers st \<and>
     requests st' = requests st \<and> user_bytes st' = user_bytes st \<and>
     (\<forall>d' n' e'. path_ok d' n' e' \<longrightarrow> ep_messages st' d' n' e' = ep_messages st d' n' e' \<and> ep_pending st' d' n' e' = ep_pending st d' n' e')"
  by (rule refused_send_view [OF assms, of pt sz scl]) blast

theorem refused_send_changes_nothing_witness:
  "\<exists>st'. mcapi_trans_send_have_lock 0 0 0 (UserBuf 1) 4 0 (zero_state\<lparr>buffers := \<lambda>_. zero_buffer\<lparr>magic_num := MAGIC_NUM\<rparr>\<rparr>) = Some (False, st') \<and>
     ep_messages st' 0 0 0 = []"
proof -
  let ?st = "zero_state\<lparr>buffers := \<lambda>_. zero_buffer\<lparr>magic_num := MAGIC_NUM\<rparr>\<rparr>"
  have q: "queue_at ?st d n e = zero_queue" for d n e using zero_state_views(1) [of d n e] by (simp add: queue_at_def endpoint_at_def node_at_def)
  have "db_inv ?st" by (simp add: db_inv_def queue_ok_def queue_bufs_def zero_queue_inv aq_distinct_def aq_requests_def q)
  moreover have "ep_room 0 0 0 ?st = 0" by (simp add: ep_room_def free_buffers_def MAGIC_NUM_def)
  moreover have "path_ok 0 0 0" by (simp add: path_ok_iff mcapi_limits)
  moreover have "ep_messages ?st 0 0 0 = []" by (simp add: ep_messages_def q zero_queue_inv)
  ultimately show ?thesis using refused_send_changes_nothing [of ?st 0 0 0 "UserBuf 1" 4 0] by auto
qed

end
