(* ===== verification/MCAPI_Request_List.thy ===== *)
theory MCAPI_Request_List
  imports MCAPI_Types
begin

text \<open>
  The request index allocator of \<open>transport_sm_request.c\<close>: \<open>request_reserves_header\<close> keeps
  the free and the reserved request indices as two doubly linked lists threaded through one
  array. The operations follow the C functions statement by statement; the lemmas show that
  they move an index between the two lists and lose none.
\<close>

section \<open>The operations\<close>

definition set_next :: "int \<Rightarrow> int \<Rightarrow> indexed_array_header \<Rightarrow> indexed_array_header" where
  "set_next i v h = h\<lparr>array := (array h)(nat i := (array h (nat i))\<lparr>next_index := v\<rparr>)\<rparr>"

definition set_prev :: "int \<Rightarrow> int \<Rightarrow> indexed_array_header \<Rightarrow> indexed_array_header" where
  "set_prev i v h = h\<lparr>array := (array h)(nat i := (array h (nat i))\<lparr>prev_index := v\<rparr>)\<rparr>"

definition unlink_index :: "nat \<Rightarrow> indexed_array_header \<Rightarrow> indexed_array_header" where
  "unlink_index r h =
     (let h = (if full_head_index h = int r
               then h\<lparr>full_head_index := next_index (array h (nat (full_head_index h)))\<rparr> else h);
          h = (if next_index (array h r) \<noteq> -1
               then set_prev (next_index (array h r)) (prev_index (array h r)) h else h)
      in (if prev_index (array h r) \<noteq> -1
          then set_next (prev_index (array h r)) (next_index (array h r)) h else h))"

definition link_free :: "nat \<Rightarrow> indexed_array_header \<Rightarrow> indexed_array_header" where
  "link_free r h =
     (let temp_empty_head_index = empty_head_index h;
          h = h\<lparr>empty_head_index := int r\<rparr>;
          h = set_next (empty_head_index h) temp_empty_head_index h;
          h = set_prev (empty_head_index h) (-1) h
      in (if temp_empty_head_index \<noteq> -1
          then set_prev temp_empty_head_index (empty_head_index h) h else h))"

definition remove_index :: "nat \<Rightarrow> indexed_array_header \<Rightarrow> bool \<times> indexed_array_header" where
  "remove_index r h =
     (if full_head_index h \<noteq> -1 then
        let h = unlink_index r h;
            h = link_free r h
        in (True, h\<lparr>curr_count := curr_count h - 1\<rparr>)
      else (False, h))"

definition mcapi_trans_remove_request_have_lock :: "nat \<Rightarrow> mcapi_state \<Rightarrow> bool \<times> mcapi_state" where
  "mcapi_trans_remove_request_have_lock r st =
     (let (rc, h) = remove_index r (request_reserves_header st)
      in (rc, st\<lparr>request_reserves_header := h\<rparr>))"

text \<open>
  When the last free index is taken the code clears \<open>array[-1].prev_index\<close>, one entry before
  the array: in the layout of \<open>mcapi_database\<close> this is the last entry of the member
  \<open>request_reserves\<close>, which nothing reads.
\<close>

definition reserve_index :: "indexed_array_header \<Rightarrow> indexed_array_header" where
  "reserve_index h =
     (let temp_full_head_index = full_head_index h;
          h = h\<lparr>full_head_index := empty_head_index h\<rparr>;
          h = h\<lparr>empty_head_index := next_index (array h (nat (empty_head_index h)))\<rparr>;
          h = (if empty_head_index h = -1 then h else set_prev (empty_head_index h) (-1) h);
          h = set_next (full_head_index h) temp_full_head_index h;
          h = set_prev (full_head_index h) (-1) h;
          h = (if temp_full_head_index \<noteq> -1
               then set_prev temp_full_head_index (full_head_index h) h else h)
      in h\<lparr>curr_count := curr_count h + 1\<rparr>)"

definition mcapi_trans_reserve_request_have_lock :: "mcapi_state \<Rightarrow> nat option \<times> mcapi_state" where
  "mcapi_trans_reserve_request_have_lock st =
     (let h = request_reserves_header st in
      if empty_head_index h \<noteq> -1 then
        let r = nat (empty_head_index h);
            st = upd_request r (\<lambda>q. q\<lparr>rvalid := True\<rparr>) st;
            h = reserve_index h;
            st = (if empty_head_index h = -1
                  then st\<lparr>request_reserves := (request_reserves st)(MCAPI_MAX_REQUESTS - 1 :=
                     (request_reserves st (MCAPI_MAX_REQUESTS - 1))\<lparr>prev_index := -1\<rparr>)\<rparr> else st)
        in (Some r, st\<lparr>request_reserves_header := h\<rparr>)
      else (None, st))"

definition mcapi_trans_init_indexed_array_have_lock :: "mcapi_state \<Rightarrow> mcapi_state" where
  "mcapi_trans_init_indexed_array_have_lock st =
     (let h = (request_reserves_header st)
          \<lparr>curr_count := 0, max_count := int MCAPI_MAX_REQUESTS, empty_head_index := 0,
           full_head_index := -1,
           array := (\<lambda>i. if i < MCAPI_MAX_REQUESTS then \<lparr>next_index = int i + 1, prev_index = int i - 1\<rparr>
                         else array (request_reserves_header st) i)\<rparr>;
          h = set_next (int MCAPI_MAX_REQUESTS - 1) (-1) h;
          h = set_prev 0 (-1) h
      in st\<lparr>request_reserves_header := h\<rparr>)"

section \<open>Linked segments\<close>

text \<open>
  \<open>seg a p h xs l t\<close>: starting at index \<open>h\<close>, whose predecessor is \<open>p\<close>, the links visit
  \<open>xs\<close> and lead to \<open>t\<close>, whose predecessor is \<open>l\<close>.
\<close>

fun seg :: "indexed_array_node carray \<Rightarrow> int \<Rightarrow> int \<Rightarrow> nat list \<Rightarrow> int \<Rightarrow> int \<Rightarrow> bool" where
  "seg a p h [] l t \<longleftrightarrow> h = t \<and> l = p"
| "seg a p h (x # xs) l t \<longleftrightarrow> h = int x \<and> prev_index (a x) = p \<and> seg a (int x) (next_index (a x)) xs l t"

definition dlist :: "indexed_array_node carray \<Rightarrow> int \<Rightarrow> nat list \<Rightarrow> bool" where
  "dlist a h xs \<longleftrightarrow> (\<exists>l. seg a (-1) h xs l (-1))"

lemma seg_append: "seg a p h (xs @ ys) l t \<longleftrightarrow> (\<exists>m n. seg a p h xs m n \<and> seg a m n ys l t)"
  by (induction xs arbitrary: p h) auto

lemma seg_cong: "(\<And>x. x \<in> set xs \<Longrightarrow> a x = b x) \<Longrightarrow> seg a p h xs l t = seg b p h xs l t"
  by (induction xs arbitrary: p h) auto

lemma seg_upd_other: "y \<notin> set xs \<Longrightarrow> seg (a(y := v)) p h xs l t = seg a p h xs l t"
  by (rule seg_cong) auto

lemma seg_end: "seg a p h xs l t \<Longrightarrow> l = (if xs = [] then p else int (last xs))"
  by (induction xs arbitrary: p h) auto

lemma seg_start: "seg a p h xs l t \<Longrightarrow> h = (if xs = [] then t else int (hd xs))"
  by (cases xs) auto

lemma seg_set_prev_hd:
  "seg a p h (x # xs) l t \<Longrightarrow> x \<notin> set xs \<Longrightarrow> seg (a(x := (a x)\<lparr>prev_index := p'\<rparr>)) p' h (x # xs) l t"
  by (simp add: seg_upd_other)

lemma seg_set_next_last:
  "seg a p h xs l t \<Longrightarrow> xs \<noteq> [] \<Longrightarrow> distinct xs \<Longrightarrow>
   seg (a(last xs := (a (last xs))\<lparr>next_index := t'\<rparr>)) p h xs l t'"
proof (induction xs arbitrary: p h)
  case (Cons x xs)
  show ?case
  proof (cases "xs = []")
    case True
    with Cons.prems show ?thesis by auto
  next
    case False
    then have "last xs \<noteq> x" using Cons.prems(3) by (metis distinct.simps(2) last_in_set)
    with False Cons show ?thesis by auto
  qed
qed simp

text \<open>The two lists of the header, which share no index and hold only valid ones.\<close>

definition lists_ok :: "indexed_array_header \<Rightarrow> nat list \<Rightarrow> nat list \<Rightarrow> bool" where
  "lists_ok h free full \<longleftrightarrow> dlist (array h) (empty_head_index h) free \<and>
     dlist (array h) (full_head_index h) full \<and> distinct (free @ full) \<and>
     (\<forall>x\<in>set (free @ full). x < MCAPI_MAX_REQUESTS) \<and> curr_count h = int (length full)"

lemma dlist_Nil [simp]: "dlist a h [] \<longleftrightarrow> h = -1"
  by (auto simp: dlist_def)

lemma dlist_head: "dlist a h xs \<Longrightarrow> h = (if xs = [] then -1 else int (hd xs))"
  by (auto simp: dlist_def dest: seg_start)

lemma dlist_upd_other: "y \<notin> set xs \<Longrightarrow> dlist (a(y := v)) h xs = dlist a h xs"
  by (simp add: dlist_def seg_upd_other)

lemma dlist_Cons: "dlist a h (x # xs) \<longleftrightarrow>
   h = int x \<and> prev_index (a x) = -1 \<and> (\<exists>l. seg a (int x) (next_index (a x)) xs l (-1))"
  by (auto simp: dlist_def)

text \<open>Pushing an index that is in no list to the front of one.\<close>

lemma dlist_push:
  assumes d: "dlist a h xs" and x: "x \<notin> set xs" and dist: "distinct xs"
    and ax: "next_index (b x) = h" "prev_index (b x) = -1"
    and b: "\<And>y. y \<in> set xs \<Longrightarrow> b y = (if int y = h then (a y)\<lparr>prev_index := int x\<rparr> else a y)"
  shows "dlist b (int x) (x # xs)"
proof (cases xs)
  case Nil
  with d ax show ?thesis by (simp add: dlist_Cons)
next
  case (Cons y ys)
  with d have h: "h = int y" by (simp add: dlist_Cons)
  have "\<exists>l. seg a (int y) (next_index (a y)) ys l (-1)" using d Cons by (simp add: dlist_Cons)
  moreover have "seg b (int y) (next_index (a y)) ys l t = seg a (int y) (next_index (a y)) ys l t" for l t
    using b dist Cons h by (intro seg_cong) auto
  ultimately show ?thesis using Cons h ax b [of y] by (simp add: dlist_Cons)
qed

text \<open>Unlinking an index from inside a list.\<close>

lemma dlist_unlink:
  assumes d: "dlist a h (ys @ r # zs)" and dist: "distinct (ys @ r # zs)"
    and b: "\<And>y. y \<in> set (ys @ zs) \<Longrightarrow> b y = (a y)
        \<lparr>prev_index := (if zs \<noteq> [] \<and> y = hd zs then prev_index (a r) else prev_index (a y)),
         next_index := (if ys \<noteq> [] \<and> y = last ys then next_index (a r) else next_index (a y))\<rparr>"
  shows "dlist b (if ys = [] then next_index (a r) else h) (ys @ zs)"
proof -
  from d obtain l m where y: "seg a (-1) h ys m (int r)" and r: "prev_index (a r) = m"
    and z: "seg a (int r) (next_index (a r)) zs l (-1)"
    by (auto simp: dlist_def seg_append)
  let ?n = "next_index (a r)"
  have z': "seg b m ?n zs (if zs = [] then m else l) (-1)"
  proof (cases zs)
    case Nil
    with z show ?thesis by simp
  next
    case (Cons x xs)
    have "seg b p n xs l t = seg a p n xs l t" for p n l t
    proof (rule seg_cong)
      fix w assume w: "w \<in> set xs"
      then have "w \<noteq> x" "ys \<noteq> [] \<Longrightarrow> w \<noteq> last ys" using dist Cons by (auto dest: last_in_set)
      then show "b w = a w" using b [of w] w Cons by auto
    qed
    moreover have "next_index (b x) = next_index (a x)" "prev_index (b x) = m"
      using b [of x] dist Cons r by auto
    ultimately show ?thesis using z Cons by simp
  qed
  have "seg b (-1) (if ys = [] then ?n else h) ys m ?n"
  proof (cases "ys = []")
    case True
    with y show ?thesis by simp
  next
    case False
    have "seg (a(last ys := (a (last ys))\<lparr>next_index := ?n\<rparr>)) (-1) h ys m ?n"
      using seg_set_next_last [OF y False] dist by simp
    moreover have "b x = (a(last ys := (a (last ys))\<lparr>next_index := ?n\<rparr>)) x" if "x \<in> set ys" for x
    proof -
      have "zs \<noteq> [] \<Longrightarrow> x \<noteq> hd zs" using that dist hd_in_set by fastforce
      then show ?thesis using b [of x] that False by auto
    qed
    ultimately show ?thesis using False seg_cong [of ys b] by metis
  qed
  with z' show ?thesis unfolding dlist_def seg_append by blast
qed

section \<open>Reserving and removing\<close>

definition request_lists :: "mcapi_state \<Rightarrow> nat list \<Rightarrow> nat list \<Rightarrow> bool" where
  "request_lists st free full \<longleftrightarrow> lists_ok (request_reserves_header st) free full"

lemma header_set_sel [simp]:
  "empty_head_index (set_next i v h) = empty_head_index h" "empty_head_index (set_prev i v h) = empty_head_index h"
  "full_head_index (set_next i v h) = full_head_index h" "full_head_index (set_prev i v h) = full_head_index h"
  "curr_count (set_next i v h) = curr_count h" "curr_count (set_prev i v h) = curr_count h"
  "array (set_next i v h) = (array h)(nat i := (array h (nat i))\<lparr>next_index := v\<rparr>)"
  "array (set_prev i v h) = (array h)(nat i := (array h (nat i))\<lparr>prev_index := v\<rparr>)"
  by (simp_all add: set_next_def set_prev_def)

lemma reserve_request_none:
  "request_lists st [] full \<Longrightarrow> mcapi_trans_reserve_request_have_lock st = (None, st)"
  by (simp add: request_lists_def lists_ok_def mcapi_trans_reserve_request_have_lock_def)

lemma reserve_index_array:
  assumes e: "empty_head_index h = int x"
    and n: "next_index (array h x) = (if free = [] then -1 else int (hd free))"
    and f: "full_head_index h = (if full = [] then -1 else int (hd full))"
    and dist: "distinct (x # free @ full)"
  shows "array (reserve_index h) y =
     (if y = x then \<lparr>next_index = full_head_index h, prev_index = -1\<rparr>
      else if free \<noteq> [] \<and> y = hd free then (array h y)\<lparr>prev_index := -1\<rparr>
      else if full \<noteq> [] \<and> y = hd full then (array h y)\<lparr>prev_index := int x\<rparr> else array h y)"
    and "empty_head_index (reserve_index h) = next_index (array h x)"
    and "full_head_index (reserve_index h) = int x"
    and "curr_count (reserve_index h) = curr_count h + 1"
proof -
  show "array (reserve_index h) y =
     (if y = x then \<lparr>next_index = full_head_index h, prev_index = -1\<rparr>
      else if free \<noteq> [] \<and> y = hd free then (array h y)\<lparr>prev_index := -1\<rparr>
      else if full \<noteq> [] \<and> y = hd full then (array h y)\<lparr>prev_index := int x\<rparr> else array h y)"
    using e n f dist by (cases free; cases full; cases "array h x") (auto simp: reserve_index_def Let_def)
qed (use e in \<open>auto simp: reserve_index_def Let_def\<close>)

lemma reserve_index_lists:
  assumes l: "lists_ok h (x # free) full"
  shows "lists_ok (reserve_index h) free (x # full)"
proof -
  let ?h' = "reserve_index h"
  have d: "dlist (array h) (empty_head_index h) (x # free)" "dlist (array h) (full_head_index h) full"
    and dist: "distinct (x # free @ full)" and bnd: "\<forall>y\<in>set (x # free @ full). y < MCAPI_MAX_REQUESTS"
    and cnt: "curr_count h = int (length full)"
    using l by (auto simp: lists_ok_def)
  from d(1) have e: "empty_head_index h = int x" and px: "prev_index (array h x) = -1"
    by (simp_all add: dlist_Cons)
  have f: "full_head_index h = (if full = [] then -1 else int (hd full))" using dlist_head [OF d(2)] .
  have n: "next_index (array h x) = (if free = [] then -1 else int (hd free))"
    using d(1) seg_start unfolding dlist_Cons by fastforce
  have hf: "full \<noteq> [] \<Longrightarrow> hd full \<in> set full" "free \<noteq> [] \<Longrightarrow> hd free \<in> set free" by simp_all
  note arr = reserve_index_array [OF e n f dist]
  have "dlist (array ?h') (if [] = ([] :: nat list) then next_index (array h x) else int x) ([] @ free)"
  proof (rule dlist_unlink)
    show "dlist (array h) (int x) ([] @ x # free)" using d(1) e by simp
    show "distinct ([] @ x # free)" using dist by simp
    fix y assume "y \<in> set ([] @ free)"
    then have "y \<noteq> x" "full \<noteq> [] \<Longrightarrow> y \<noteq> hd full" using dist hf by auto
    then show "array ?h' y = (array h y)
        \<lparr>prev_index := (if free \<noteq> [] \<and> y = hd free then prev_index (array h x) else prev_index (array h y)),
         next_index := (if [] \<noteq> ([] :: nat list) \<and> y = last [] then next_index (array h x) else next_index (array h y))\<rparr>"
      using arr(1) [of y] px by auto
  qed
  then have free: "dlist (array ?h') (empty_head_index ?h') free" using arr by simp
  have full: "dlist (array ?h') (full_head_index ?h') (x # full)" unfolding arr(3)
  proof (rule dlist_push [OF d(2)])
    fix y assume "y \<in> set full"
    then have "y \<noteq> x" "free \<noteq> [] \<Longrightarrow> y \<noteq> hd free" "full \<noteq> []"
      using dist hf by (auto simp: disjoint_iff)
    then show "array ?h' y = (if int y = full_head_index h then (array h y)\<lparr>prev_index := int x\<rparr> else array h y)"
      using arr(1) [of y] f by auto
  qed (use dist arr(1) [of x] in simp_all)
  show ?thesis unfolding lists_ok_def using free full dist bnd cnt arr(4) by auto
qed

lemma reserve_request_some:
  assumes l: "request_lists st (x # free) full"
  obtains st' where "mcapi_trans_reserve_request_have_lock st = (Some x, st')"
    and "request_lists st' free (x # full)"
    and "requests st' = (requests st)(x := (requests st x)\<lparr>rvalid := True\<rparr>)"
    and "domains st' = domains st" "buffers st' = buffers st" "user_bytes st' = user_bytes st"
      "user_ptrs st' = user_ptrs st" "user_endpts st' = user_endpts st"
proof -
  have e: "empty_head_index (request_reserves_header st) = int x"
    using l by (simp add: request_lists_def lists_ok_def dlist_Cons)
  show thesis
    by (rule that [of "snd (mcapi_trans_reserve_request_have_lock st)"])
      (use e reserve_index_lists [OF l [unfolded request_lists_def]] in
        \<open>simp_all add: mcapi_trans_reserve_request_have_lock_def Let_def frame_simps
           request_lists_def upd_request_def\<close>)
qed

lemma remove_request_none:
  "request_lists st free [] \<Longrightarrow> mcapi_trans_remove_request_have_lock r st = (False, st)"
  by (simp add: request_lists_def lists_ok_def mcapi_trans_remove_request_have_lock_def remove_index_def)

lemma unlink_index_sel:
  "empty_head_index (unlink_index r h) = empty_head_index h"
  "curr_count (unlink_index r h) = curr_count h"
  "full_head_index (unlink_index r h) =
     (if full_head_index h = int r then next_index (array h r) else full_head_index h)"
  by (simp_all add: unlink_index_def Let_def)

lemma unlink_index_array:
  assumes hz: "nat (next_index (array h r)) \<noteq> r \<or> next_index (array h r) = -1"
    and hy: "nat (prev_index (array h r)) \<noteq> r \<or> prev_index (array h r) = -1"
  shows "next_index (array (unlink_index r h) y) =
      (if prev_index (array h r) \<noteq> -1 \<and> y = nat (prev_index (array h r)) then next_index (array h r)
       else next_index (array h y))"
    and "prev_index (array (unlink_index r h) y) =
      (if next_index (array h r) \<noteq> -1 \<and> y = nat (next_index (array h r)) then prev_index (array h r)
       else prev_index (array h y))"
proof -
  define a where "a = array h"
  define n where "n = next_index (a r)"
  define p where "p = prev_index (a r)"
  define b where "b = (if n \<noteq> -1 then a(nat n := (a (nat n))\<lparr>prev_index := p\<rparr>) else a)"
  have br: "next_index (b r) = n" "prev_index (b r) = p"
  proof -
    have "n \<noteq> -1 \<Longrightarrow> r \<noteq> nat n" using hz unfolding a_def [symmetric] n_def [symmetric] by blast
    then have "b r = a r" by (simp add: b_def)
    then show "next_index (b r) = n" "prev_index (b r) = p" by (simp_all only: n_def p_def)
  qed
  have arr: "array (unlink_index r h) = (if p \<noteq> -1 then b(nat p := (b (nat p))\<lparr>next_index := n\<rparr>) else b)"
  proof -
    define h1 where "h1 = (if full_head_index h = int r
      then h\<lparr>full_head_index := next_index (array h (nat (full_head_index h)))\<rparr> else h)"
    define h2 where "h2 = (if next_index (array h1 r) \<noteq> -1
      then set_prev (next_index (array h1 r)) (prev_index (array h1 r)) h1 else h1)"
    have "array h1 = a" by (simp add: h1_def a_def)
    then have h2: "array h2 = b" by (simp add: h2_def b_def n_def p_def)
    have "unlink_index r h = (if prev_index (array h2 r) \<noteq> -1
        then set_next (prev_index (array h2 r)) (next_index (array h2 r)) h2 else h2)"
      by (simp only: unlink_index_def Let_def h2_def h1_def)
    then show ?thesis unfolding h2 br using h2 by simp
  qed
  show "next_index (array (unlink_index r h) y) =
      (if prev_index (array h r) \<noteq> -1 \<and> y = nat (prev_index (array h r)) then next_index (array h r)
       else next_index (array h y))"
    and "prev_index (array (unlink_index r h) y) =
      (if next_index (array h r) \<noteq> -1 \<and> y = nat (next_index (array h r)) then prev_index (array h r)
       else prev_index (array h y))"
    unfolding arr a_def [symmetric] n_def [symmetric] p_def [symmetric] by (simp_all add: b_def)
qed

lemma link_free_sel:
  "empty_head_index (link_free r h) = int r" "curr_count (link_free r h) = curr_count h"
  "full_head_index (link_free r h) = full_head_index h"
  by (simp_all add: link_free_def Let_def)

lemma link_free_array:
  assumes "empty_head_index h \<noteq> -1 \<Longrightarrow> nat (empty_head_index h) \<noteq> r"
  shows "array (link_free r h) y =
     (if y = r then (array h r)\<lparr>next_index := empty_head_index h, prev_index := -1\<rparr>
      else if empty_head_index h \<noteq> -1 \<and> y = nat (empty_head_index h) then (array h y)\<lparr>prev_index := int r\<rparr>
      else array h y)"
  using assms by (auto simp: link_free_def Let_def)

lemma seg_neighbours:
  assumes "dlist a h (ys @ r # zs)"
  shows "prev_index (a r) = (if ys = [] then -1 else int (last ys))"
    and "next_index (a r) = (if zs = [] then -1 else int (hd zs))"
    and "h = (if ys = [] then int r else int (hd ys))"
proof -
  from assms obtain l m where y: "seg a (-1) h ys m (int r)" and r: "prev_index (a r) = m"
    and z: "seg a (int r) (next_index (a r)) zs l (-1)"
    by (auto simp: dlist_def seg_append)
  from r seg_end [OF y] show "prev_index (a r) = (if ys = [] then -1 else int (last ys))" by simp
  from seg_start [OF z] show "next_index (a r) = (if zs = [] then -1 else int (hd zs))" .
  from seg_start [OF y] show "h = (if ys = [] then int r else int (hd ys))" .
qed

lemma remove_index_lists:
  assumes l: "lists_ok h free (ys @ r # zs)"
  shows "fst (remove_index r h)" and "lists_ok (snd (remove_index r h)) (r # free) (ys @ zs)"
proof -
  have d: "dlist (array h) (empty_head_index h) free" "dlist (array h) (full_head_index h) (ys @ r # zs)"
    and dist: "distinct (free @ ys @ r # zs)"
    and bnd: "\<forall>y\<in>set (free @ ys @ r # zs). y < MCAPI_MAX_REQUESTS"
    and cnt: "curr_count h = int (length (ys @ r # zs))"
    using l unfolding lists_ok_def by simp_all
  note nb = seg_neighbours [OF d(2)]
  have f: "full_head_index h \<noteq> -1" "full_head_index h = int r \<longleftrightarrow> ys = []"
    using nb(3) dist hd_in_set [of ys] by auto
  have e: "empty_head_index h = (if free = [] then -1 else int (hd free))" by (rule dlist_head [OF d(1)])
  define u where "u = unlink_index r h"
  define h' where "h' = link_free r u"
  have rm: "remove_index r h = (True, h'\<lparr>curr_count := curr_count h - 1\<rparr>)"
    using f(1) by (simp add: remove_index_def Let_def u_def h'_def link_free_sel unlink_index_sel)
  have neq: "zs \<noteq> [] \<Longrightarrow> hd zs \<noteq> r" "ys \<noteq> [] \<Longrightarrow> last ys \<noteq> r" "free \<noteq> [] \<Longrightarrow> hd free \<noteq> r"
      "y \<in> set free \<Longrightarrow> zs \<noteq> [] \<Longrightarrow> y \<noteq> hd zs" "y \<in> set free \<Longrightarrow> ys \<noteq> [] \<Longrightarrow> y \<noteq> last ys"
      "y \<in> set (ys @ zs) \<Longrightarrow> y \<noteq> r \<and> (free \<noteq> [] \<longrightarrow> y \<noteq> hd free)" "y \<in> set free \<Longrightarrow> y \<noteq> r" for y
    using dist hd_in_set [of zs] last_in_set [of ys] hd_in_set [of free] by (auto simp: disjoint_iff)
  have out: "nat (next_index (array h r)) \<noteq> r \<or> next_index (array h r) = -1"
    "nat (prev_index (array h r)) \<noteq> r \<or> prev_index (array h r) = -1" using nb(1,2) neq(1,2) by auto
  have ua: "next_index (array u y) = (if ys \<noteq> [] \<and> y = last ys then next_index (array h r) else next_index (array h y))"
    "prev_index (array u y) = (if zs \<noteq> [] \<and> y = hd zs then prev_index (array h r) else prev_index (array h y))" for y
    unfolding u_def unlink_index_array [OF out] using nb(1,2) by simp_all
  have la: "array h' y = (if y = r then (array u r)\<lparr>next_index := empty_head_index h, prev_index := -1\<rparr>
      else if free \<noteq> [] \<and> y = hd free then (array u y)\<lparr>prev_index := int r\<rparr> else array u y)" for y
  proof -
    have eu: "empty_head_index u = empty_head_index h" by (simp add: u_def unlink_index_sel)
    then have "empty_head_index u \<noteq> -1 \<Longrightarrow> nat (empty_head_index u) \<noteq> r" using e neq(3) by (simp split: if_splits)
    from link_free_array [OF this, of y] show ?thesis unfolding h'_def eu using e by simp
  qed
  have uf: "array u y = array h y" if "y \<in> set free" for y
    using ua [of y] neq(4,5) [OF that] by (intro indexed_array_node.equality) auto
  have full: "dlist (array h') (full_head_index h') (ys @ zs)"
  proof -
    have "array h' y = (array h y)
        \<lparr>prev_index := (if zs \<noteq> [] \<and> y = hd zs then prev_index (array h r) else prev_index (array h y)),
         next_index := (if ys \<noteq> [] \<and> y = last ys then next_index (array h r) else next_index (array h y))\<rparr>"
      if "y \<in> set (ys @ zs)" for y
      using ua [of y] la [of y] neq(6) [OF that] by (intro indexed_array_node.equality) auto
    from dlist_unlink [OF d(2) _ this] dist show ?thesis
      using f(2) by (simp add: h'_def u_def link_free_sel unlink_index_sel split: if_splits)
  qed
  have "dlist (array h') (int r) (r # free)"
  proof (rule dlist_push [OF d(1)])
    fix y assume y: "y \<in> set free"
    then have "free \<noteq> []" by auto
    then show "array h' y = (if int y = empty_head_index h then (array h y)\<lparr>prev_index := int r\<rparr> else array h y)"
      using la [of y] uf [OF y] neq(7) [OF y] e by auto
  qed (use dist la [of r] in simp_all)
  with full show "fst (remove_index r h)" and "lists_ok (snd (remove_index r h)) (r # free) (ys @ zs)"
    using dist bnd cnt by (auto simp: rm lists_ok_def h'_def u_def link_free_sel)
qed

lemma remove_request_some:
  assumes l: "request_lists st free (ys @ r # zs)"
  obtains st' where "mcapi_trans_remove_request_have_lock r st = (True, st')"
    and "request_lists st' (r # free) (ys @ zs)"
    and "st' = st\<lparr>request_reserves_header := request_reserves_header st'\<rparr>"
  using remove_index_lists [OF l [unfolded request_lists_def]]
  by (intro that [of "st\<lparr>request_reserves_header := snd (remove_index r (request_reserves_header st))\<rparr>"])
    (simp_all add: mcapi_trans_remove_request_have_lock_def request_lists_def split_beta)

lemma init_seg:
  assumes "i \<le> n" "0 < n" and "\<And>j. j < n \<Longrightarrow> a j = \<lparr>next_index = (if Suc j = n then -1 else int j + 1),
      prev_index = int j - 1\<rparr>"
  shows "seg a (int i - 1) (if i = n then -1 else int i) [i..<n] (int n - 1) (-1)"
  using assms(1)
proof (induction "n - i" arbitrary: i)
  case (Suc k)
  then have "i < n" "k = n - Suc i" "Suc i \<le> n" by simp_all
  have "next_index (a i) = (if Suc i = n then -1 else int (Suc i))" "prev_index (a i) = int i - 1"
    using assms(3) [OF \<open>i < n\<close>] by simp_all
  with Suc.hyps(1) [OF \<open>k = n - Suc i\<close> \<open>Suc i \<le> n\<close>] \<open>i < n\<close> show ?case
    unfolding upt_conv_Cons [OF \<open>i < n\<close>] seg.simps by simp
qed simp

text \<open>Initialisation makes every index free.\<close>

lemma init_request_lists:
  "request_lists (mcapi_trans_init_indexed_array_have_lock st) [0..<MCAPI_MAX_REQUESTS] []"
proof -
  let ?h = "request_reserves_header (mcapi_trans_init_indexed_array_have_lock st)"
  have a: "array ?h j = \<lparr>next_index = (if Suc j = MCAPI_MAX_REQUESTS then -1 else int j + 1),
      prev_index = int j - 1\<rparr>" if "j < MCAPI_MAX_REQUESTS" for j
    using that by (auto simp: mcapi_trans_init_indexed_array_have_lock_def Let_def mcapi_limits nat_diff_distrib)
  have "0 \<le> MCAPI_MAX_REQUESTS" "0 < MCAPI_MAX_REQUESTS" by (simp_all add: mcapi_limits)
  from init_seg [OF this a] have "dlist (array ?h) 0 [0..<MCAPI_MAX_REQUESTS]"
    unfolding dlist_def by (intro exI) (simp add: mcapi_limits)
  then show ?thesis
    by (simp add: request_lists_def lists_ok_def mcapi_trans_init_indexed_array_have_lock_def Let_def)
qed

section \<open>The allocator as an interface\<close>

text \<open>
  What the request code relies on: an index handed out was free, no index is in both lists,
  and a removed index can be handed out again.
\<close>

fun alloc_times :: "('s \<Rightarrow> nat option \<times> 's) \<Rightarrow> nat \<Rightarrow> 's \<Rightarrow> nat option list \<times> 's" where
  "alloc_times alloc 0 s = ([], s)"
| "alloc_times alloc (Suc n) s =
     (let (r, s) = alloc s; (rs, s) = alloc_times alloc n s in (r # rs, s))"

locale index_pool =
  fixes pool :: "'s \<Rightarrow> nat list \<Rightarrow> nat list \<Rightarrow> bool"
    and alloc :: "'s \<Rightarrow> nat option \<times> 's" and release :: "nat \<Rightarrow> 's \<Rightarrow> bool \<times> 's"
  assumes alloc_none: "pool s [] full \<Longrightarrow> alloc s = (None, s)"
    and alloc_some: "pool s (x # free) full \<Longrightarrow> \<exists>s'. alloc s = (Some x, s') \<and> pool s' free (x # full)"
    and release_used: "pool s free (ys @ r # zs) \<Longrightarrow>
      \<exists>s'. release r s = (True, s') \<and> pool s' (r # free) (ys @ zs)"
    and pool_distinct: "pool s free full \<Longrightarrow> distinct (free @ full)"
begin

lemma alloc_many:
  "pool s free full \<Longrightarrow> n \<le> length free \<Longrightarrow>
   \<exists>s'. alloc_times alloc n s = (map Some (take n free), s') \<and>
        pool s' (drop n free) (rev (take n free) @ full)"
proof (induction n arbitrary: s free full)
  case (Suc n)
  then obtain x xs where f: "free = x # xs" by (cases free) auto
  from alloc_some [OF Suc.prems(1) [unfolded f]] obtain s1 where
    s1: "alloc s = (Some x, s1)" "pool s1 xs (x # full)" by blast
  from Suc.IH [OF s1(2)] Suc.prems(2) f s1 show ?case by auto
qed simp

lemma alloc_exhausted:
  assumes "pool s free full"
  shows "fst (alloc_times alloc (Suc (length free)) s) = map Some free @ [None]"
proof -
  have "alloc_times alloc (n + m) s = (let (rs, s) = alloc_times alloc n s;
      (ts, s) = alloc_times alloc m s in (rs @ ts, s))" for n m s
    by (induction n arbitrary: s) (auto simp: split_beta)
  from this [of "length free" 1 s] alloc_many [OF assms order_refl] show ?thesis
    by (auto simp: alloc_none)
qed

lemma release_alloc:
  assumes "pool s free (ys @ r # zs)"
  shows "\<exists>s'. alloc (snd (release r s)) = (Some r, s') \<and> pool s' free (r # ys @ zs)"
  using release_used [OF assms] alloc_some by fastforce

lemma used_not_free: "pool s free full \<Longrightarrow> r \<in> set full \<Longrightarrow> r \<notin> set free"
  using pool_distinct [of s free full] by auto

end

interpretation requests: index_pool request_lists mcapi_trans_reserve_request_have_lock
    mcapi_trans_remove_request_have_lock
proof unfold_locales
  fix st x free full assume "request_lists st (x # free) full"
  from reserve_request_some [OF this]
  show "\<exists>st'. mcapi_trans_reserve_request_have_lock st = (Some x, st') \<and> request_lists st' free (x # full)"
    by metis
next
  fix st free ys r zs assume "request_lists st free (ys @ r # zs)"
  from remove_request_some [OF this]
  show "\<exists>st'. mcapi_trans_remove_request_have_lock r st = (True, st') \<and> request_lists st' (r # free) (ys @ zs)"
    by metis
qed (auto simp: reserve_request_none request_lists_def lists_ok_def)

text \<open>
  C30: From a new database the pool of requests hands out every index exactly once, in order, and
  then reports that it is exhausted.
\<close>

theorem request_pool_exhaustion:
  "fst (alloc_times mcapi_trans_reserve_request_have_lock (Suc MCAPI_MAX_REQUESTS) (mcapi_trans_init_indexed_array_have_lock st)) =
     map Some [0..<MCAPI_MAX_REQUESTS] @ [None]"
  using requests.alloc_exhausted [OF init_request_lists [of st]] by simp

text \<open>
  C23: In a well-formed pool, giving back any index in use, wherever it stands in the list of used
  entries, succeeds and leaves a well-formed pool without it; the same index is the next one to
  be handed out, so that reserving undoes the release up to the order of the used entries. An
  index handed out is never one in use.
\<close>

theorem request_release_reserve:
  assumes "request_lists st free (ys @ r # zs)"
  shows "\<exists>st' st''. mcapi_trans_remove_request_have_lock r st = (True, st') \<and> request_lists st' (r # free) (ys @ zs) \<and>
     mcapi_trans_reserve_request_have_lock st' = (Some r, st'') \<and> request_lists st'' free (r # ys @ zs) \<and>
     r \<notin> set (free @ ys @ zs)"
proof -
  from requests.release_used [OF assms] obtain st' where
    s: "mcapi_trans_remove_request_have_lock r st = (True, st')" "request_lists st' (r # free) (ys @ zs)" by blast
  from requests.alloc_some [OF s(2)] requests.pool_distinct [OF assms] s show ?thesis by auto
qed

theorem request_release_reserve_witness:
  "\<exists>st' st''. mcapi_trans_remove_request_have_lock 0 (snd (alloc_times mcapi_trans_reserve_request_have_lock 2
       (mcapi_trans_init_indexed_array_have_lock zero_state))) = (True, st') \<and>
     mcapi_trans_reserve_request_have_lock st' = (Some 0, st'')"
proof -
  have "request_lists (snd (alloc_times mcapi_trans_reserve_request_have_lock 2 (mcapi_trans_init_indexed_array_have_lock zero_state)))
     (drop 2 [0..<MCAPI_MAX_REQUESTS]) (rev (take 2 [0..<MCAPI_MAX_REQUESTS]))"
    using requests.alloc_many [OF init_request_lists [of zero_state], of 2] by (auto simp: MCAPI_MAX_REQUESTS_def simp del: upt.simps upt_rec_numeral)
  moreover have "take 2 [0..<MCAPI_MAX_REQUESTS] = [0, 1]"
    by (simp add: take_upt MCAPI_MAX_REQUESTS_def numeral_2_eq_2)
  ultimately show ?thesis using request_release_reserve [of _ _ "[1]" 0 "[]"] by fastforce
qed

end
