(* ===== verification/MCAPI_Requests.thy ===== *)
theory MCAPI_Requests
  imports MCAPI_Channel MCAPI_Request_List
begin

text \<open>
  Requests (\<open>transport_sm_request.c\<close> and the endpoint lookup of \<open>transport_sm_endpoint.c\<close>):
  how a non-blocking call is recorded, how a pending request is completed or cancelled. All of
  these run with the database locked.
\<close>

section \<open>The operations\<close>

text \<open>The nested loops over domains, nodes and the endpoints \<open>0\<close> to \<open>num_endpoints - 1\<close>.\<close>

definition endpoint_candidates :: "u32 \<Rightarrow> u32 \<Rightarrow> mcapi_state \<Rightarrow> (nat \<times> nat \<times> nat) list" where
  "endpoint_candidates domain nodenum st =
     [(d, n, e). d \<leftarrow> [0..<MCA_MAX_DOMAINS], domain_valid (domains st d) \<and> domain_id (domains st d) = domain,
                 n \<leftarrow> [0..<MCA_MAX_NODES], node_valid (node_at st d n) \<and> node_num (node_at st d n) = nodenum,
                 e \<leftarrow> [0..<unat (num_endpoints (node_d (node_at st d n)))]]"

definition mcapi_trans_endpoint_get_have_lock ::
  "addr \<Rightarrow> u32 \<Rightarrow> u32 \<Rightarrow> u32 \<Rightarrow> mcapi_state \<Rightarrow> (bool \<times> mcapi_state) option" where
  "mcapi_trans_endpoint_get_have_lock ep domain nodenum port st =
     (case List.find (\<lambda>(d, n, e). ep_valid (endpoint_at st d n e) \<and> port_num (endpoint_at st d n e) = port)
             (endpoint_candidates domain nodenum st) of
        Some (d, n, e) \<Rightarrow> do {
          h \<leftarrow> mcapi_trans_encode_handle d n e;
          Some (True, st\<lparr>user_endpts := (user_endpts st)(ep := h)\<rparr>) }
      | None \<Rightarrow> Some (False, st))"

text \<open>
  \<open>hv\<close> is \<open>*handle\<close> and \<open>hp\<close> the pointer itself, which is kept only for \<open>GET_ENDPT\<close>.
  The result is the value stored in \<open>*request\<close>; the C function always returns true.
\<close>

definition save_buffer :: "nat \<Rightarrow> buffer_arg \<Rightarrow> queue \<Rightarrow> mcapi_state \<Rightarrow> mcapi_state option" where
  "save_buffer r buffer q st =
     (if chan_type q = MCAPI_PKT_CHAN
      then (case buffer of Cell a \<Rightarrow> Some (upd_request r (\<lambda>rd. rd\<lparr>rbuffer_ptr := a\<rparr>) st) | _ \<Rightarrow> None)
      else do { p \<leftarrow> deref buffer st; Some (upd_request r (\<lambda>rd. rd\<lparr>rbuffer := p\<rparr>) st) })"

definition setup_request_have_lock ::
  "u32 \<Rightarrow> addr \<Rightarrow> mcapi_status \<Rightarrow> bool \<Rightarrow> nat \<Rightarrow> buffer_arg \<Rightarrow> mcapi_request_type \<Rightarrow> u32 \<Rightarrow> u32 \<Rightarrow> u32 \<Rightarrow> nat
   \<Rightarrow> mcapi_state \<Rightarrow> (u32 \<times> mcapi_state) option" where
  "setup_request_have_lock hv hp status compl sz buffer type nodenum port domain r st = do {
     let st = upd_request r (\<lambda>rd. rd\<lparr>rstatus := status, rsize := sz, cancelled := False, completed := compl\<rparr>) st;
     let rq = encode_request r;
     st \<leftarrow> (if buffer \<noteq> NoBuf \<and> \<not> compl then do {
              (d, n, e) \<leftarrow> mcapi_trans_decode_handle hv;
              save_buffer r buffer (queue_at st d n e) st }
           else Some st);
     let st = upd_request r (\<lambda>rd. rd\<lparr>rtype := type, rhandle := hv\<rparr>) st;
     let st = (if type = GET_ENDPT
               then upd_request r (\<lambda>rd. rd\<lparr>ep_endpoint := hp, ep_node_num := nodenum, ep_port_num := port,
                                           ep_domain_num := domain\<rparr>) st
               else st);
     if type = RECV \<and> \<not> compl then do {
       (d, n, e) \<leftarrow> mcapi_trans_decode_handle hv;
       case reserve_slot (queue_at st d n e) rq of
         Some q \<Rightarrow> Some (rq, set_queue d n e q st)
       | None \<Rightarrow> Some (rq, upd_request r (\<lambda>rd. rd\<lparr>rstatus := MCAPI_ERR_MEM_LIMIT, completed := True\<rparr>) st)
     } else Some (rq, st)
   }"

definition check_open_channel_request_have_lock :: "u32 \<Rightarrow> mcapi_state \<Rightarrow> mcapi_state option" where
  "check_open_channel_request_have_lock rq st =
     (case mcapi_trans_decode_request_handle rq of
        Some r \<Rightarrow> do {
          (d, n, e) \<leftarrow> mcapi_trans_decode_handle (rhandle (requests st r));
          Some (if connected (endpoint_at st d n e) then upd_request r (\<lambda>rd. rd\<lparr>completed := True\<rparr>) st else st) }
      | None \<Rightarrow> Some st)"

definition check_close_channel_request_have_lock :: "u32 \<Rightarrow> mcapi_state \<Rightarrow> mcapi_state option" where
  "check_close_channel_request_have_lock rq st =
     (case mcapi_trans_decode_request_handle rq of
        Some r \<Rightarrow> do {
          (d, n, e) \<leftarrow> mcapi_trans_decode_handle (rhandle (requests st r));
          Some (if \<not> ep_open (endpoint_at st d n e) then upd_request r (\<lambda>rd. rd\<lparr>completed := True\<rparr>) st else st) }
      | None \<Rightarrow> Some st)"

definition check_get_endpt_request_have_lock :: "u32 \<Rightarrow> mcapi_state \<Rightarrow> mcapi_state option" where
  "check_get_endpt_request_have_lock rq st = do {
     r \<leftarrow> mcapi_trans_decode_request_handle rq;
     (found, st) \<leftarrow> mcapi_trans_endpoint_get_have_lock (ep_endpoint (requests st r)) (ep_domain_num (requests st r))
        (ep_node_num (requests st r)) (ep_port_num (requests st r)) st;
     Some (if found then upd_request r (\<lambda>rd. rd\<lparr>completed := True, rstatus := MCAPI_SUCCESS\<rparr>) st else st)
   }"

definition cancel_receive_request_have_lock :: "u32 \<Rightarrow> mcapi_state \<Rightarrow> mcapi_state option" where
  "cancel_receive_request_have_lock rq st = do {
     r \<leftarrow> mcapi_trans_decode_request_handle rq;
     (rd, rn, re) \<leftarrow> mcapi_trans_decode_handle (rhandle (requests st r));
     q \<leftarrow> ring_cancel (queue_at st rd rn re) rq;
     Some (upd_request r (\<lambda>rd. rd\<lparr>cancelled := True\<rparr>) (set_queue rd rn re q st))
   }"

text \<open>Taking the data of the message in slot \<open>i\<close> to where the request asked for it.\<close>

definition complete_receive ::
  "nat \<Rightarrow> nat \<Rightarrow> nat \<Rightarrow> nat \<Rightarrow> nat \<Rightarrow> mcapi_state \<Rightarrow> mcapi_state option" where
  "complete_receive rd rn re i r st =
     (if chan_type (queue_at st rd rn re) = MCAPI_PKT_CHAN then do {
        (received, sc, st) \<leftarrow> mcapi_trans_recv_have_lock_at rd rn re (Cell (rbuffer_ptr (requests st r)))
           (rsize (requests st r)) i False st;
        Some (upd_request r (\<lambda>q. q\<lparr>rsize := received\<rparr>) st)
      } else do {
        let sz = rsize (requests st r);
        (received, sc, st) \<leftarrow> mcapi_trans_recv_have_lock_at rd rn re (Local (rbuffer (requests st r)))
           (rsize (requests st r)) i False st;
        let st = upd_request r (\<lambda>q. q\<lparr>rsize := received\<rparr>) st;
        Some (if sz < received
              then upd_request r (\<lambda>q. q\<lparr>rsize := sz, rstatus := MCAPI_ERR_MSG_TRUNCATED\<rparr>) st else st)
      })"

definition check_receive_request_have_lock :: "u32 \<Rightarrow> mcapi_state \<Rightarrow> mcapi_state option" where
  "check_receive_request_have_lock rq st = do {
     r \<leftarrow> mcapi_trans_decode_request_handle rq;
     (rd, rn, re) \<leftarrow> mcapi_trans_decode_handle (rhandle (requests st r));
     let i = find_request (queue_at st rd rn re) rq;
     mcapi_assert (i \<noteq> MCAPI_MAX_QUEUE_ENTRIES);
     if buff_index (elements (queue_at st rd rn re) i) \<noteq> 0 then do {
       let st = upd_queue rd rn re (\<lambda>q. put_element q i (\<lambda>s. s\<lparr>request := 0\<rparr>)) st;
       let st = upd_request r (\<lambda>q. q\<lparr>completed := True, rstatus := MCAPI_SUCCESS\<rparr>) st;
       st \<leftarrow> complete_receive rd rn re i r st;
       let st = upd_queue rd rn re (\<lambda>q. q\<lparr>num_elements := num_elements q - 1\<rparr>) st;
       let st = upd_queue rd rn re (\<lambda>q. put_element q i (\<lambda>s. s\<lparr>invalid := True\<rparr>)) st;
       q \<leftarrow> mcapi_trans_compact_queue (queue_at st rd rn re);
       Some (set_queue rd rn re q st)
     } else Some st
   }"

section \<open>Completing a pending receive\<close>

lemma complete_receive_msg:
  fixes st :: mcapi_state and x :: nat
  assumes ct: "chan_type (queue_at st d n e) = MCAPI_NO_CHAN" and rb: "rbuffer (requests st r) = UserBuf a"
  defines "idx \<equiv> decode_buff_index (buff_index (elements (queue_at st d n e) x))"
  defines "sz \<equiv> rsize (requests st r)" and "bsz \<equiv> bsize (buffers st idx)"
  obtains st' where "complete_receive d n e x r st = Some st'"
    and "buffers st' = (buffers st)(idx := zero_buffer)"
    and "user_bytes st' = (user_bytes st)(a := memcpy (user_bytes st a) (buff (buffers st idx)) (min sz bsz))"
    and "user_ptrs st' = user_ptrs st" "request_reserves_header st' = request_reserves_header st"
    and "queue_at st' = (\<lambda>d' n' e'. if d' = d \<and> n' = n \<and> e' = e
       then put_element (queue_at st d n e) x (\<lambda>s. s\<lparr>buff_index := 0\<rparr>) else queue_at st d' n' e')"
    and "requests st' = (requests st)(r := (requests st r)\<lparr>rsize := min sz bsz,
       rstatus := (if sz < bsz then MCAPI_ERR_MSG_TRUNCATED else rstatus (requests st r))\<rparr>)"
proof -
  have k: "(if sz < bsz then sz else bsz) = min sz bsz" by simp
  define st1 where "st1 = upd_buffer idx (\<lambda>b. zero_buffer)
    (st\<lparr>user_bytes := (user_bytes st)(a := memcpy (user_bytes st a) (buff (buffers st idx)) (min sz bsz))\<rparr>)"
  define st2 where "st2 = upd_queue d n e (\<lambda>q. put_element q x (\<lambda>s. s\<lparr>buff_index := 0\<rparr>)) st1"
  have "deliver_buffer MCAPI_NO_CHAN idx (Local (UserBuf a)) (min sz bsz) False st = Some (None, st1)"
    by (simp add: deliver_buffer_def deref_def write_ptr_def st1_def)
  then have r: "mcapi_trans_recv_have_lock_at d n e (Local (UserBuf a)) sz x False st = Some (bsz, None, st2)"
    unfolding mcapi_trans_recv_have_lock_at_def Let_def idx_def [symmetric] bsz_def [symmetric] k ct
    by (simp add: st2_def)
  define st3 where "st3 = upd_request r (\<lambda>q. q\<lparr>rsize := bsz\<rparr>) st2"
  have c: "complete_receive d n e x r st = Some (if sz < bsz
      then upd_request r (\<lambda>q. q\<lparr>rsize := sz, rstatus := MCAPI_ERR_MSG_TRUNCATED\<rparr>) st3 else st3)"
    using r by (simp add: complete_receive_def ct rb st3_def sz_def)
  have rq: "requests st2 = requests st" by (simp add: st2_def st1_def frame_simps)
  show thesis
    by (rule that [OF c])
      (auto simp: st3_def rq st2_def st1_def frame_simps fun_eq_iff min_def)
qed

lemma matched_slot:
  assumes inv: "queue_inv q" and d: "aq_distinct (abs_queue q)" and rq: "rq \<noteq> 0"
    and m: "(rq, b) \<in> set (amsgs (abs_queue q))"
  obtains i where "i < qlen q" and "request (window q ! i) = rq" and "buff_index (window q ! i) = b"
    and "find_request q rq = qindex q i" and "elements q (qindex q i) = window q ! i"
proof -
  from m obtain s where s: "s \<in> set (window q)" "request s = rq" "buff_index s = b"
    by (auto simp: abs_queue_def)
  then obtain i where i: "i < qlen q" "window q ! i = s" by (auto simp: in_set_conv_nth)
  have "request (slots q ! i) = rq" using i s by (simp add: window_def)
  from find_request_slot [OF inv d rq lt_qlen_QN [OF i(1)] this] have "find_request q rq = qindex q i" .
  then show thesis using i s window_nth [OF i(1)] by (intro that [of i]) simp_all
qed

lemma ring_take_steps:
  "mcapi_trans_compact_queue (put_element ((put_element (put_element q x (\<lambda>s. s\<lparr>request := 0\<rparr>)) x
      (\<lambda>s. s\<lparr>buff_index := 0\<rparr>))\<lparr>num_elements := num_elements q - 1\<rparr>) x (\<lambda>s. s\<lparr>invalid := True\<rparr>)) = ring_take q x"
  by (simp add: ring_take_def)

text \<open>
  The request \<open>rq\<close> of the queue has been matched with a message: testing it copies the
  message to the buffer that the receive named, frees the transport buffer, and takes the message
  out of the queue; other messages and pending receives stay.
\<close>

lemma check_receive_view:
  assumes dh: "mcapi_trans_decode_request_handle rq = Some r" "mcapi_trans_decode_handle (rhandle (requests st r)) = Some (d, n, e)"
    and ct: "chan_type (queue_at st d n e) = MCAPI_NO_CHAN" and rb: "rbuffer (requests st r) = UserBuf a"
    and x: "find_request (queue_at st d n e) rq = x" "x < MCAPI_MAX_QUEUE_ENTRIES"
    and b: "buff_index (elements (queue_at st d n e) x) = b" "b \<noteq> 0"
    and t: "ring_take (queue_at st d n e) x = Some q'"
  defines "be \<equiv> buffers st (decode_buff_index b)" and "sz \<equiv> rsize (requests st r)"
  obtains st' where "check_receive_request_have_lock rq st = Some st'"
    and "buffers st' = (buffers st)(decode_buff_index b := zero_buffer)"
    and "user_bytes st' = (user_bytes st)(a := memcpy (user_bytes st a) (buff be) (min sz (bsize be)))"
    and "user_ptrs st' = user_ptrs st" "request_reserves_header st' = request_reserves_header st"
    and "queue_at st' = (\<lambda>d' n' e'. if d' = d \<and> n' = n \<and> e' = e then q' else queue_at st d' n' e')"
    and "requests st' = (requests st)(r := (requests st r)\<lparr>completed := True, rsize := min sz (bsize be),
       rstatus := (if sz < bsize be then MCAPI_ERR_MSG_TRUNCATED else MCAPI_SUCCESS)\<rparr>)"
proof -
  let ?q = "queue_at st d n e"
  define st1 where "st1 = upd_request r (\<lambda>q. q\<lparr>completed := True, rstatus := MCAPI_SUCCESS\<rparr>)
     (upd_queue d n e (\<lambda>q. put_element q x (\<lambda>s. s\<lparr>request := 0\<rparr>)) st)"
  have q1: "queue_at st1 d n e = put_element ?q x (\<lambda>s. s\<lparr>request := 0\<rparr>)" by (simp add: st1_def frame_simps)
  have i1: "buff_index (elements (queue_at st1 d n e) x) = b" unfolding q1 using b by (simp add: put_element_def)
  have c1: "chan_type (queue_at st1 d n e) = MCAPI_NO_CHAN" "rbuffer (requests st1 r) = UserBuf a"
    using ct rb by (simp_all add: q1 st1_def frame_simps)
  have s1: "buffers st1 = buffers st" "user_bytes st1 = user_bytes st" "user_ptrs st1 = user_ptrs st"
    "requests st1 r = (requests st r)\<lparr>completed := True, rstatus := MCAPI_SUCCESS\<rparr>"
    "request_reserves_header st1 = request_reserves_header st"
    by (simp_all add: st1_def frame_simps)
  have r1: "requests st1 = (requests st)(r := (requests st r)\<lparr>completed := True, rstatus := MCAPI_SUCCESS\<rparr>)"
    by (simp add: st1_def frame_simps fun_eq_iff)
  show thesis
  proof (rule complete_receive_msg [OF c1, where x = x])
    fix st2 assume c: "complete_receive d n e x r st1 = Some st2"
      and f2: "buffers st2 = (buffers st1)(decode_buff_index (buff_index (elements (queue_at st1 d n e) x)) := zero_buffer)"
        "user_bytes st2 = (user_bytes st1)(a := memcpy (user_bytes st1 a)
           (buff (buffers st1 (decode_buff_index (buff_index (elements (queue_at st1 d n e) x)))))
           (min (rsize (requests st1 r)) (bsize (buffers st1 (decode_buff_index (buff_index (elements (queue_at st1 d n e) x)))))))"
        "user_ptrs st2 = user_ptrs st1" "request_reserves_header st2 = request_reserves_header st1"
      and q2: "queue_at st2 = (\<lambda>d' n' e'. if d' = d \<and> n' = n \<and> e' = e
         then put_element (queue_at st1 d n e) x (\<lambda>s. s\<lparr>buff_index := 0\<rparr>) else queue_at st1 d' n' e')"
      and r2: "requests st2 = (requests st1)(r := (requests st1 r)\<lparr>rsize := min (rsize (requests st1 r))
           (bsize (buffers st1 (decode_buff_index (buff_index (elements (queue_at st1 d n e) x))))),
         rstatus := (if rsize (requests st1 r) < bsize (buffers st1 (decode_buff_index (buff_index (elements (queue_at st1 d n e) x))))
           then MCAPI_ERR_MSG_TRUNCATED else rstatus (requests st1 r))\<rparr>)"
    define st3 where "st3 = upd_queue d n e (\<lambda>q. put_element q x (\<lambda>s. s\<lparr>invalid := True\<rparr>))
      (upd_queue d n e (\<lambda>q. q\<lparr>num_elements := num_elements q - 1\<rparr>) st2)"
    have "queue_at st3 d n e = put_element ((put_element (put_element ?q x (\<lambda>s. s\<lparr>request := 0\<rparr>)) x
      (\<lambda>s. s\<lparr>buff_index := 0\<rparr>))\<lparr>num_elements := num_elements ?q - 1\<rparr>) x (\<lambda>s. s\<lparr>invalid := True\<rparr>)"
      by (simp add: st3_def frame_simps q2 q1 del: put_element_put)
    then have cp: "mcapi_trans_compact_queue (queue_at st3 d n e) = Some q'"
      using t by (simp only: ring_take_steps)
    have "check_receive_request_have_lock rq st = Some (set_queue d n e q' st3)"
      using dh x b c cp less_imp_neq [OF x(2)]
      by (simp add: check_receive_request_have_lock_def Let_def st1_def st3_def)
    then show thesis
    proof (rule that)
      show "requests (set_queue d n e q' st3) = (requests st)(r := (requests st r)\<lparr>completed := True,
          rsize := min sz (bsize be), rstatus := (if sz < bsize be then MCAPI_ERR_MSG_TRUNCATED else MCAPI_SUCCESS)\<rparr>)"
        using r2 unfolding i1 s1 be_def sz_def by (simp add: st3_def frame_simps r1)
      show "queue_at (set_queue d n e q' st3) = (\<lambda>d' n' e'. if d' = d \<and> n' = n \<and> e' = e then q' else queue_at st d' n' e')"
        by (intro ext) (simp add: st3_def frame_simps q2 st1_def)
    qed (use f2 [unfolded i1 s1] in \<open>simp_all add: st3_def frame_simps be_def sz_def s1\<close>)
  qed
qed

lemma distinct_snd_unique: "distinct (map snd ms) \<Longrightarrow> (r, b) \<in> set ms \<Longrightarrow> (r', b) \<in> set ms \<Longrightarrow> r' = r"
  by (induction ms) (auto simp: image_iff)

text \<open>Removing the message of one request and freeing its buffer.\<close>

lemma take_takes:
  assumes inv: "db_inv st" and p: "path_ok d n e"
    and m: "(rq, b) \<in> set (amsgs (abs_queue (queue_at st d n e)))"
    and t: "queue_inv q'" "abs_queue q' = aq_take rq (abs_queue (queue_at st d n e))"
    and bf: "buffers st' = (buffers st)(decode_buff_index b := zero_buffer)"
    and q: "\<And>d' n' e'. queue_at st' d' n' e' = (if (d', n', e') = (d, n, e) then q' else queue_at st d' n' e')"
  shows "db_inv st'" and "ep_messages st' d n e = filter (\<lambda>m. fst m \<noteq> rq) (ep_messages st d n e)"
    and "ep_pending st' d n e = ep_pending st d n e"
    and "path_ok d' n' e' \<Longrightarrow> (d', n', e') \<noteq> (d, n, e) \<Longrightarrow>
      ep_messages st' d' n' e' = ep_messages st d' n' e' \<and> ep_pending st' d' n' e' = ep_pending st d' n' e'"
proof -
  let ?q = "queue_at st d n e" and ?ms = "amsgs (abs_queue (queue_at st d n e))"
  have qok: "queue_ok st ?q" by (rule db_inv_queue [OF inv p])
  have ms': "amsgs (abs_queue q') = filter (\<lambda>m. fst m \<noteq> rq) ?ms" "apend (abs_queue q') = apend (abs_queue ?q)"
    by (simp_all add: t(2) aq_take_def)
  have live: "buffer_live st c" if "path_ok d1 n1 e1" "c \<in> set (queue_bufs (queue_at st d1 n1 e1))" for d1 n1 e1 c
    using db_inv_queue [OF inv that(1)] that(2) by (simp add: queue_ok_def)
  have dm: "distinct (map snd ?ms)" using qok by (simp add: queue_ok_def queue_bufs_def)
  have dst: "distinct (queue_bufs q')" "b \<in> set (queue_bufs ?q)" "set (queue_bufs q') \<subseteq> set (queue_bufs ?q)"
    using dm m unfolding queue_bufs_def ms' by (auto simp: distinct_map_filter intro: rev_image_eqI)
  have nb: "b \<notin> set (queue_bufs q')"
    using distinct_snd_unique [OF dm m] unfolding queue_bufs_def ms' by auto
  have lb: "buffer_live st b" by (rule live [OF p dst(2)])
  have keep: "buffer_live st' c" "payload_of st' c = payload_of st c" if "buffer_live st c" "c \<noteq> b" for c
    using live_freed [OF that(1) _ disjI2 [OF bf]] that buffer_live_decode [OF that(1)] buffer_live_decode [OF lb] by metis+
  have ok': "queue_ok st' q'"
    using t(1) qok dst nb live [OF p] keep(1) unfolding queue_ok_def aq_distinct_def aq_requests_def ms' filter_swap_fst
    by (auto simp del: filter_filter)
  have other: "c \<noteq> b" if "path_ok d1 n1 e1" "(d1, n1, e1) \<noteq> (d, n, e)" "c \<in> set (queue_bufs (queue_at st d1 n1 e1))"
    for d1 n1 e1 c using db_inv_disjoint [OF inv that(1) p that(2)] that(3) dst(2) by auto
  show "db_inv st'"
  proof (rule db_inv_update [OF inv q ok'])
    fix d1 n1 e1 c assume pd: "path_ok d1 n1 e1" "(d1, n1, e1) \<noteq> (d, n, e)" "c \<in> set (queue_bufs (queue_at st d1 n1 e1))"
    then show "buffer_live st' c \<and> c \<notin> set (queue_bufs q')"
      using keep(1) [OF live [OF pd(1,3)] other [OF pd]] db_inv_disjoint [OF inv pd(1) p pd(2)] dst(3) by auto
  qed
  have "payload_of st' c = payload_of st c" if "c \<in> set (queue_bufs q')" for c
    using keep(2) live [OF p] that dst(3) nb by blast
  then have "map (\<lambda>(r, b). (r, payload_of st' b)) (amsgs (abs_queue q')) =
      map (\<lambda>(r, b). (r, payload_of st b)) (amsgs (abs_queue q'))"
    unfolding queue_bufs_def by force
  then show "ep_messages st' d n e = filter (\<lambda>m. fst m \<noteq> rq) (ep_messages st d n e)"
    unfolding ep_messages_def by (simp add: q ms' filter_map comp_def split_beta)
  show "ep_pending st' d n e = ep_pending st d n e" by (simp add: ep_pending_def q ms')
  show "path_ok d' n' e' \<Longrightarrow> (d', n', e') \<noteq> (d, n, e) \<Longrightarrow>
      ep_messages st' d' n' e' = ep_messages st d' n' e' \<and> ep_pending st' d' n' e' = ep_pending st d' n' e'"
    using ep_messages_cong [of st' d' n' e' st] keep(2) live [of d' n' e'] other [of d' n' e'] by (auto simp: q)
qed

lemma check_receive_matched:
  assumes inv: "db_inv st" and dh: "mcapi_trans_decode_request_handle rq = Some r"
      "mcapi_trans_decode_handle (rhandle (requests st r)) = Some (d, n, e)"
    and ct: "chan_type (queue_at st d n e) = MCAPI_NO_CHAN" and rb: "rbuffer (requests st r) = UserBuf a"
    and m: "(rq, bs, s) \<in> set (ep_messages st d n e)"
  defines "sz \<equiv> rsize (requests st r)"
  obtains st' where "check_receive_request_have_lock rq st = Some st'" and "db_inv st'"
    and "requests st' = (requests st)(r := (requests st r)\<lparr>completed := True, rsize := min sz (length bs),
       rstatus := (if sz < length bs then MCAPI_ERR_MSG_TRUNCATED else MCAPI_SUCCESS)\<rparr>)"
    and "bytes_of (user_bytes st' a) (min sz (length bs)) = take sz bs"
    and "\<And>a'. a' \<noteq> a \<Longrightarrow> user_bytes st' a' = user_bytes st a'"
    and "user_ptrs st' = user_ptrs st" and "request_reserves_header st' = request_reserves_header st"
    and "ep_messages st' d n e = filter (\<lambda>m. fst m \<noteq> rq) (ep_messages st d n e)"
    and "ep_pending st' d n e = ep_pending st d n e"
    and "\<And>d' n' e'. path_ok d' n' e' \<Longrightarrow> (d', n', e') \<noteq> (d, n, e) \<Longrightarrow>
      ep_messages st' d' n' e' = ep_messages st d' n' e' \<and> ep_pending st' d' n' e' = ep_pending st d' n' e'"
    and "\<And>k. min sz (length bs) \<le> k \<Longrightarrow> user_bytes st' a k = user_bytes st a k"
proof -
  let ?q = "queue_at st d n e"
  have p: "path_ok d n e" using endpt.decode_valid [OF dh(2)] by (simp add: path_ok_def)
  have qok: "queue_ok st ?q" by (rule db_inv_queue [OF inv p])
  then have qi: "queue_inv ?q" "aq_distinct (abs_queue ?q)" by (simp_all add: queue_ok_def)
  have rq0: "rq \<noteq> 0" using dh(1) by (auto simp: mcapi_trans_decode_request_handle_def Let_def split: if_splits)
  from m obtain b where b: "(rq, b) \<in> set (amsgs (abs_queue ?q))" "payload_of st b = (bs, s)"
    by (auto simp: ep_messages_def)
  from matched_slot [OF qi rq0 b(1)] obtain i where i: "i < qlen ?q" "request (window ?q ! i) = rq"
      "buff_index (window ?q ! i) = b" "find_request ?q rq = qindex ?q i" "elements ?q (qindex ?q i) = window ?q ! i"
    by blast
  from ring_take_refines [OF qi i(1,2) rq0] obtain q' where t: "ring_take ?q (qindex ?q i) = Some q'" "queue_inv q'"
    "abs_queue q' = aq_take rq (abs_queue ?q)" by metis
  have b0: "b \<noteq> 0" using b(1) by (auto simp: abs_queue_def has_buff_def)
  have bs: "bsize (buffers st (decode_buff_index b)) = length bs"
      "bytes_of (buff (buffers st (decode_buff_index b))) (length bs) = bs"
    using b(2) by (auto simp: payload_of_def Let_def)
  have bi: "buff_index (elements ?q (qindex ?q i)) = b" using i by simp
  show thesis
  proof (rule check_receive_view [OF dh ct rb i(4) qindex_less bi b0 t(1)])
    fix st' assume c: "check_receive_request_have_lock rq st = Some st'"
      and bf: "buffers st' = (buffers st)(decode_buff_index b := zero_buffer)"
      and ub: "user_bytes st' = (user_bytes st)(a := memcpy (user_bytes st a) (buff (buffers st (decode_buff_index b)))
          (min (rsize (requests st r)) (bsize (buffers st (decode_buff_index b)))))"
      and fr: "user_ptrs st' = user_ptrs st" "request_reserves_header st' = request_reserves_header st"
      and q: "queue_at st' = (\<lambda>d' n' e'. if d' = d \<and> n' = n \<and> e' = e then q' else queue_at st d' n' e')"
      and r: "requests st' = (requests st)(r := (requests st r)\<lparr>completed := True,
          rsize := min (rsize (requests st r)) (bsize (buffers st (decode_buff_index b))),
          rstatus := (if rsize (requests st r) < bsize (buffers st (decode_buff_index b))
            then MCAPI_ERR_MSG_TRUNCATED else MCAPI_SUCCESS)\<rparr>)"
    have "take sz (bytes_of (buff (buffers st (decode_buff_index b))) (length bs)) = take sz bs" by (simp only: bs(2))
    then have ubs: "bytes_of (user_bytes st' a) (min sz (length bs)) = take sz bs"
      unfolding ub bs(1) sz_def [symmetric] by simp
    have qq: "\<And>d' n' e'. queue_at st' d' n' e' = (if (d', n', e') = (d, n, e) then q' else queue_at st d' n' e')"
      by (simp add: q)
    note tt = take_takes [OF inv p b(1) t(2,3) bf qq]
    show thesis
      by (rule that [OF c tt(1) r [unfolded bs(1), folded sz_def] ubs _ fr tt(2-4)])
        (auto simp: ub bs(1) sz_def memcpy_def)
  qed
qed

text \<open>While no message has arrived, testing changes nothing.\<close>

lemma check_receive_pending:
  assumes inv: "db_inv st" and dh: "mcapi_trans_decode_request_handle rq = Some r"
      "mcapi_trans_decode_handle (rhandle (requests st r)) = Some (d, n, e)"
    and pe: "rq \<in> set (ep_pending st d n e)"
  shows "check_receive_request_have_lock rq st = Some st"
proof -
  let ?q = "queue_at st d n e"
  have p: "path_ok d n e" using endpt.decode_valid [OF dh(2)] by (simp add: path_ok_def)
  have qi: "queue_inv ?q" "aq_distinct (abs_queue ?q)" using db_inv_queue [OF inv p] by (simp_all add: queue_ok_def)
  from pe have rq0: "rq \<noteq> 0" and "rq \<in> set (map request (beyond ?q))" by (auto simp: ep_pending_def abs_queue_def)
  then obtain k where k: "k < QN - qlen ?q" "request (beyond ?q ! k) = rq" by (auto simp: in_set_conv_nth)
  have "request (slots ?q ! (qlen ?q + k)) = rq" "qlen ?q + k < QN" using k by (simp_all add: beyond_def)
  from find_request_slot [OF qi rq0 this(2,1)] have f: "find_request ?q rq = qindex ?q (qlen ?q + k)" .
  have "beyond ?q ! k \<in> set (beyond ?q)" using k(1) by simp
  then have "\<not> has_buff (beyond ?q ! k)" using qi(1) by (auto simp: queue_inv_def)
  then have "buff_index (elements ?q (qindex ?q (qlen ?q + k))) = 0" using beyond_nth [OF k(1)] by (simp add: has_buff_def)
  then show ?thesis
    using dh f less_imp_neq [OF qindex_less [of ?q "qlen ?q + k"]]
    by (simp add: check_receive_request_have_lock_def Let_def)
qed

section \<open>Recording and cancelling a pending receive\<close>

text \<open>A change of the reservations of one queue only.\<close>

lemma pending_change:
  assumes inv: "db_inv st" and p: "path_ok d n e"
    and t: "queue_inv q'" "amsgs (abs_queue q') = amsgs (abs_queue (queue_at st d n e))" "aq_distinct (abs_queue q')"
    and bf: "buffers st' = buffers st"
    and q: "\<And>d' n' e'. queue_at st' d' n' e' = (if (d', n', e') = (d, n, e) then q' else queue_at st d' n' e')"
  shows "db_inv st'" and "ep_messages st' = ep_messages st"
    and "(d', n', e') \<noteq> (d, n, e) \<Longrightarrow> ep_pending st' d' n' e' = ep_pending st d' n' e'"
proof -
  have qb: "queue_bufs q' = queue_bufs (queue_at st d n e)" by (simp add: queue_bufs_def t(2))
  have live: "buffer_live st' = buffer_live st" by (simp add: buffer_live_def bf fun_eq_iff)
  have ok': "queue_ok st' q'"
    using db_inv_queue [OF inv p] t unfolding queue_ok_def qb live by simp
  show "db_inv st'"
  proof (rule db_inv_update [OF inv q ok'])
    fix d1 n1 e1 c assume pd: "path_ok d1 n1 e1" "(d1, n1, e1) \<noteq> (d, n, e)" "c \<in> set (queue_bufs (queue_at st d1 n1 e1))"
    then show "buffer_live st' c \<and> c \<notin> set (queue_bufs q')"
      using db_inv_queue [OF inv pd(1)] db_inv_disjoint [OF inv pd(1) p pd(2)] unfolding queue_ok_def qb live by auto
  qed
  have "payload_of st' = payload_of st" by (simp add: payload_of_def bf fun_eq_iff)
  then show "ep_messages st' = ep_messages st" by (intro ext) (simp add: ep_messages_def q t(2))
  show "(d', n', e') \<noteq> (d, n, e) \<Longrightarrow> ep_pending st' d' n' e' = ep_pending st d' n' e'"
    by (auto simp: ep_pending_def q)
qed

lemma setup_recv_pending:
  assumes inv: "db_inv st" and dh: "mcapi_trans_decode_handle hv = Some (d, n, e)"
    and em: "open_first (ep_messages st d n e) = []"
    and room: "qlen (queue_at st d n e) + length (ep_pending st d n e) < MCAPI_MAX_QUEUE_ENTRIES"
    and fresh: "encode_request r \<notin> set (aq_requests (abs_queue (queue_at st d n e)))"
    and ct: "chan_type (queue_at st d n e) = MCAPI_NO_CHAN"
  obtains st' where
      "setup_request_have_lock hv hp status False sz (Local (UserBuf a)) RECV nn pn dn r st = Some (encode_request r, st')"
    and "db_inv st'" and "ep_messages st' = ep_messages st"
    and "ep_pending st' d n e = ep_pending st d n e @ [encode_request r]"
    and "\<And>d' n' e'. (d', n', e') \<noteq> (d, n, e) \<Longrightarrow> ep_pending st' d' n' e' = ep_pending st d' n' e'"
    and "requests st' = (requests st)(r := (requests st r)\<lparr>rstatus := status, rsize := sz, cancelled := False,
       completed := False, rbuffer := UserBuf a, rtype := RECV, rhandle := hv\<rparr>)"
    and "buffers st' = buffers st" "user_bytes st' = user_bytes st" "user_ptrs st' = user_ptrs st"
      "request_reserves_header st' = request_reserves_header st"
    and "chan_type (queue_at st' d n e) = MCAPI_NO_CHAN"
    and "qlen (queue_at st' d n e) = qlen (queue_at st d n e)"
proof -
  let ?q = "queue_at st d n e"
  have p: "path_ok d n e" using endpt.decode_valid [OF dh] by (simp add: path_ok_def)
  have qi: "queue_inv ?q" "aq_distinct (abs_queue ?q)" using db_inv_queue [OF inv p] by (simp_all add: queue_ok_def)
  have e: "mcapi_trans_empty_queue ?q" using em empty_iff_open [OF qi(1)] by simp
  from reserve_slot_refines [OF qi(1) e encode_request_nonzero] room obtain q' where
    r: "reserve_slot ?q (encode_request r) = Some q'" "queue_inv q'" "abs_queue q' = aq_reserve (encode_request r) (abs_queue ?q)"
      "chan_type q' = chan_type ?q" unfolding ep_pending_def by metis
  have ql: "qlen q' = qlen ?q" using r(1) by (auto simp: reserve_slot_def Let_def split: if_splits)
  let ?st = "set_queue d n e q' (upd_request r (\<lambda>rd. rd\<lparr>rtype := RECV, rhandle := hv\<rparr>)
     (upd_request r (\<lambda>rd. rd\<lparr>rbuffer := UserBuf a\<rparr>)
     (upd_request r (\<lambda>rd. rd\<lparr>rstatus := status, rsize := sz, cancelled := False, completed := False\<rparr>) st)))"
  have s: "setup_request_have_lock hv hp status False sz (Local (UserBuf a)) RECV nn pn dn r st = Some (encode_request r, ?st)"
    using dh r(1) ct by (simp add: setup_request_have_lock_def save_buffer_def deref_def frame_simps)
  have q: "\<And>d' n' e'. queue_at ?st d' n' e' = (if (d', n', e') = (d, n, e) then q' else queue_at st d' n' e')"
    by (simp add: frame_simps)
  have am: "amsgs (abs_queue q') = amsgs (abs_queue ?q)" by (simp add: r(3) aq_reserve_def)
  have ad: "aq_distinct (abs_queue q')"
    using qi(2) fresh by (simp add: r(3) aq_reserve_def aq_distinct_def aq_requests_def)
  have bf: "buffers ?st = buffers st" by (simp add: frame_simps)
  note pc = pending_change [OF inv p r(2) am ad bf q]
  have pe: "ep_pending ?st d n e = ep_pending st d n e @ [encode_request r]"
    by (simp add: ep_pending_def q r(3) aq_reserve_def)
  show thesis
    by (rule that [OF s pc(1,2) pe pc(3)]) (use ct r(4) ql in \<open>simp_all add: frame_simps fun_eq_iff\<close>)
qed

text \<open>No slot is left for a reservation: the request completes at once with an error.\<close>

lemma setup_recv_full:
  assumes inv: "db_inv st" and dh: "mcapi_trans_decode_handle hv = Some (d, n, e)"
    and em: "open_first (ep_messages st d n e) = []"
    and room: "MCAPI_MAX_QUEUE_ENTRIES \<le> qlen (queue_at st d n e) + length (ep_pending st d n e)"
    and ct: "chan_type (queue_at st d n e) = MCAPI_NO_CHAN"
  obtains st' where
      "setup_request_have_lock hv hp status False sz (Local (UserBuf a)) RECV nn pn dn r st = Some (encode_request r, st')"
    and "completed (requests st' r)" and "rstatus (requests st' r) = MCAPI_ERR_MEM_LIMIT"
    and "ep_messages st' = ep_messages st" and "ep_pending st' = ep_pending st"
proof -
  let ?q = "queue_at st d n e"
  have p: "path_ok d n e" using endpt.decode_valid [OF dh] by (simp add: path_ok_def)
  have qi: "queue_inv ?q" using db_inv_queue [OF inv p] by (simp add: queue_ok_def)
  have e: "mcapi_trans_empty_queue ?q" using em empty_iff_open [OF qi] by simp
  have n: "reserve_slot ?q (encode_request r) = None"
    using reserve_slot_full [OF qi e] room by (simp add: ep_pending_def)
  let ?st = "upd_request r (\<lambda>rd. rd\<lparr>rstatus := MCAPI_ERR_MEM_LIMIT, completed := True\<rparr>)
     (upd_request r (\<lambda>rd. rd\<lparr>rtype := RECV, rhandle := hv\<rparr>)
     (upd_request r (\<lambda>rd. rd\<lparr>rbuffer := UserBuf a\<rparr>)
     (upd_request r (\<lambda>rd. rd\<lparr>rstatus := status, rsize := sz, cancelled := False, completed := False\<rparr>) st)))"
  have "setup_request_have_lock hv hp status False sz (Local (UserBuf a)) RECV nn pn dn r st = Some (encode_request r, ?st)"
    using dh n ct by (simp add: setup_request_have_lock_def save_buffer_def deref_def frame_simps)
  then show thesis
    by (rule that) (simp_all add: frame_simps ep_messages_def ep_pending_def payload_of_def fun_eq_iff)
qed

lemma cancel_receive_pending:
  assumes inv: "db_inv st" and dh: "mcapi_trans_decode_request_handle rq = Some r"
      "mcapi_trans_decode_handle (rhandle (requests st r)) = Some (d, n, e)"
    and pe: "rq \<in> set (ep_pending st d n e)"
  obtains st' where "cancel_receive_request_have_lock rq st = Some st'" and "db_inv st'"
    and "ep_messages st' = ep_messages st"
    and "ep_pending st' d n e = filter (\<lambda>x. x \<noteq> rq) (ep_pending st d n e)"
    and "\<And>d' n' e'. (d', n', e') \<noteq> (d, n, e) \<Longrightarrow> ep_pending st' d' n' e' = ep_pending st d' n' e'"
    and "requests st' = (requests st)(r := (requests st r)\<lparr>cancelled := True\<rparr>)"
    and "buffers st' = buffers st" "user_bytes st' = user_bytes st"
      "request_reserves_header st' = request_reserves_header st"
proof -
  let ?q = "queue_at st d n e"
  have p: "path_ok d n e" using endpt.decode_valid [OF dh(2)] by (simp add: path_ok_def)
  have qi: "queue_inv ?q" "aq_distinct (abs_queue ?q)" using db_inv_queue [OF inv p] by (simp_all add: queue_ok_def)
  from ring_cancel_pending [OF qi] pe obtain q' where
    c: "ring_cancel ?q rq = Some q'" "queue_inv q'" "abs_queue q' = aq_cancel rq (abs_queue ?q)"
    unfolding ep_pending_def by metis
  let ?st = "upd_request r (\<lambda>rd. rd\<lparr>cancelled := True\<rparr>) (set_queue d n e q' st)"
  have s: "cancel_receive_request_have_lock rq st = Some ?st"
    using dh c(1) by (simp add: cancel_receive_request_have_lock_def)
  have q: "\<And>d' n' e'. queue_at ?st d' n' e' = (if (d', n', e') = (d, n, e) then q' else queue_at st d' n' e')"
    by (simp add: frame_simps)
  have am: "amsgs (abs_queue q') = amsgs (abs_queue ?q)" "aq_distinct (abs_queue q')"
    using qi(2) unfolding c(3) aq_cancel_def aq_distinct_def aq_requests_def by auto
  have bf: "buffers ?st = buffers st" by (simp add: frame_simps)
  note pc = pending_change [OF inv p c(2) am bf q]
  have pe: "ep_pending ?st d n e = filter (\<lambda>x. x \<noteq> rq) (ep_pending st d n e)"
    by (simp add: ep_pending_def q c(3) aq_cancel_def)
  show thesis by (rule that [OF s pc(1,2) pe pc(3)]) (simp_all add: frame_simps fun_eq_iff)
qed

end
