(* ===== verification/MCAPI_Cancel.thy ===== *)
theory MCAPI_Cancel
  imports MCAPI_Requests
begin

text \<open>
  Cancelling a receive request to which a message has already been matched
  (\<open>cancel_receive_request_have_lock\<close> of \<open>transport_sm_request.c\<close>): the requests behind it
  move to the message before theirs, and the last of the matched messages becomes free for
  any receive. The receives that still wait for a message are not moved up.
\<close>

text \<open>The part of a queue that a change of its matched requests leaves alone.\<close>

definition same_frame :: "queue \<Rightarrow> queue \<Rightarrow> bool" where
  "same_frame q' q \<longleftrightarrow> head q' = head q \<and> tail q' = tail q \<and> num_elements q' = num_elements q \<and>
     chan_type q' = chan_type q \<and> send_endpt q' = send_endpt q \<and> recv_endpt q' = recv_endpt q \<and>
     map payload (window q') = map payload (window q) \<and> beyond q' = beyond q"

lemma same_frame_trans: "same_frame q2 q1 \<Longrightarrow> same_frame q1 q0 \<Longrightarrow> same_frame q2 q0"
  by (simp add: same_frame_def)

lemma same_frame_qindex: "same_frame q' q \<Longrightarrow> qindex q' = qindex q" "same_frame q' q \<Longrightarrow> qlen q' = qlen q"
  by (simp_all add: same_frame_def qindex_def fun_eq_iff qlen_def)

lemma filter_nz_move:
  fixes rs :: "u32 list"
  assumes "j < k" "k < length rs" "rs ! j = 0" "\<And>m. j < m \<Longrightarrow> m < k \<Longrightarrow> rs ! m = 0" "rs ! k \<noteq> 0"
  shows "filter (\<lambda>r. r \<noteq> 0) (rs[j := rs ! k, k := 0]) = filter (\<lambda>r. r \<noteq> 0) rs"
proof -
  define A B C where "A = take j rs" and "B = take (k - Suc j) (drop (Suc j) rs)" and "C = drop (Suc k) rs"
  have "drop (Suc j) rs = B @ rs ! k # C"
    using assms(1,2) id_take_nth_drop [of "k - Suc j" "drop (Suc j) rs"] by (simp add: B_def C_def)
  then have rs: "rs = A @ 0 # B @ rs ! k # C"
    using id_take_nth_drop [of j rs] assms(1-3) by (simp add: A_def)
  have B: "filter (\<lambda>r. r \<noteq> 0) B = []"
    using assms(1,2,4) by (auto simp: B_def filter_empty_conv in_set_conv_nth)
  have l: "length A = j" "length B = k - Suc j" using assms(1,2) by (simp_all add: A_def B_def)
  have "rs[j := rs ! k, k := 0] = A @ rs ! k # B @ 0 # C"
  proof -
    have "k - j = Suc (length B)" using l assms(1) by simp
    then show ?thesis using l assms(1) by (subst (1) rs) (simp add: list_update_append)
  qed
  then show ?thesis using B assms(5) by (subst (3) rs) simp
qed

text \<open>One move of the loop.\<close>

lemma cancel_move_frame:
  assumes jk: "j < k" "k < qlen q"
  defines "p \<equiv> put_element (put_element q (qindex q j) (\<lambda>t. t\<lparr>request := request (window q ! k)\<rparr>))
        (qindex q k) (\<lambda>t. t\<lparr>request := 0\<rparr>)"
  shows "same_frame p q" and "map request (window p) = (map request (window q))[j := request (window q ! k), k := 0]"
    and "has_buff (window p ! k) = has_buff (window q ! k)"
proof -
  let ?q1 = "put_element q (qindex q j) (\<lambda>t. t\<lparr>request := request (window q ! k)\<rparr>)"
  have j: "j < qlen q" using jk by simp
  have w1: "window ?q1 = (window q)[j := (window q ! j)\<lparr>request := request (window q ! k)\<rparr>]" "beyond ?q1 = beyond q"
    using window_put_lt [OF j] beyond_put_lt [OF j] by simp_all
  have "window p = (window ?q1)[k := payload (window ?q1 ! k)]" "beyond p = beyond ?q1"
    using window_put_lt [of k ?q1] beyond_put_lt [of k ?q1] jk by (simp_all add: p_def)
  then have w: "window p = (window q)[j := (window q ! j)\<lparr>request := request (window q ! k)\<rparr>, k := payload (window q ! k)]"
    and b: "beyond p = beyond q" using w1 jk by simp_all
  have "map payload (window p) = map payload (window q)"
  proof -
    have "(map payload (window q))[i := payload (window q ! i)] = map payload (window q)" if "i < qlen q" for i
      using that by (simp add: list_update_same_conv)
    then show ?thesis unfolding w using jk by (simp add: map_update)
  qed
  then show "same_frame p q" using b by (simp add: same_frame_def p_def)
  show "map request (window p) = (map request (window q))[j := request (window q ! k), k := 0]"
    unfolding w by (simp add: map_update)
  show "has_buff (window p ! k) = has_buff (window q ! k)" using jk by (simp add: w has_buff_def)
qed

lemma cancel_matched_loop:
  assumes "head q < QN" "tail q < QN" and "s \<le> j" "j < k" "k \<le> qlen q"
    and "request (window q ! j) = 0" "has_buff (window q ! j)"
    and "\<And>m. j < m \<Longrightarrow> m < k \<Longrightarrow> request (window q ! m) = 0"
    and "\<forall>i<qlen q. request (window q ! i) \<noteq> 0 \<longrightarrow> has_buff (window q ! i)"
  shows "let q' = cancel_shift (qindex q s) q (qindex q j) (k - s) in same_frame q' q \<and>
     filter (\<lambda>r. r \<noteq> 0) (map request (window q')) = filter (\<lambda>r. r \<noteq> 0) (map request (window q)) \<and>
     (\<forall>i<qlen q. request (window q' ! i) \<noteq> 0 \<longrightarrow> has_buff (window q' ! i))"
  using assms
proof (induction "qlen q - k" arbitrary: q j k)
  case 0
  then have k: "k = qlen q" by simp
  have "(k - s + qindex q s) mod QN = tail q"
    using 0 k curr_position [of s k q] by (simp add: qindex_def qlen_def ring_dist_add)
  moreover have "tail q \<noteq> qindex q s"
    using qindex_inj [of k s q] calculation curr_position [of s k q] 0 k less_trans [OF _ qlen_less [of q], of s]
    by auto
  moreover have "k - s < QN" using k less_imp_diff_less [OF qlen_less] by simp
  ultimately have "cancel_shift (qindex q s) q (qindex q j) (k - s) = q"
    by (subst cancel_shift.simps) (simp add: Let_def)
  then show ?case using 0 by (simp add: same_frame_def)
next
  case (Suc n)
  then have k: "k < qlen q" "k < QN" "s < k" using less_trans [OF _ qlen_less [of q]] by simp_all
  have c: "(k - s + qindex q s) mod QN = qindex q k" using k curr_position [of s k q] by simp
  have tl: "tail q = qindex q (qlen q)" using Suc.prems(1,2) by (simp add: qindex_def qlen_def ring_dist_add)
  have nt: "qindex q k \<noteq> tail q" using qindex_inj [of k "qlen q" q] k tl by auto
  have nh: "qindex q k \<noteq> head q" using qindex_inj [of k 0 q] k qindex_0 [OF Suc.prems(1)] by auto
  have i: "k - s < QN" "Suc (k - s) = Suc k - s" using k by simp_all
  have wk: "elements q (qindex q k) = window q ! k" using window_nth [OF k(1)] by simp
  show ?case
  proof (cases "request (window q ! k) = 0")
    case True
    have "cancel_shift (qindex q s) q (qindex q j) (k - s) = cancel_shift (qindex q s) q (qindex q j) (Suc k - s)"
      using True nt nh i
      by (simp only: cancel_shift.simps [of "qindex q s" q "qindex q j" "k - s"] Let_def c wk) simp
    moreover have "request (window q ! m) = 0" if "j < m" "m < Suc k" for m
      using Suc.prems(8) [of m] True that by (cases "m = k") auto
    ultimately show ?thesis using Suc.hyps(1) [of q "Suc k" j] Suc.hyps(2) Suc.prems k by simp
  next
    case False
    define p where "p = put_element (put_element q (qindex q j) (\<lambda>t. t\<lparr>request := request (window q ! k)\<rparr>))
        (qindex q k) (\<lambda>t. t\<lparr>request := 0\<rparr>)"
    have e: "cancel_shift (qindex q s) q (qindex q j) (k - s) = cancel_shift (qindex q s) p (qindex q k) (Suc k - s)"
      using False nt nh i
      by (simp only: cancel_shift.simps [of "qindex q s" q "qindex q j" "k - s"] Let_def c wk) (simp add: p_def)
    note m = cancel_move_frame [OF Suc.prems(4) k(1), folded p_def]
    have hb: "has_buff (window p ! i) = has_buff (window q ! i)" if "i < qlen q" for i
      using payload_parts(1) [of "window p" "window q"] m(1) that same_frame_qindex(2) [OF m(1)]
      unfolding same_frame_def by (metis length_window nth_map)
    have rq: "request (window p ! i) = (if i = k then 0 else if i = j then request (window q ! k) else request (window q ! i))"
      if "i < qlen q" for i
      using arg_cong [OF m(2), of "\<lambda>xs. xs ! i"] that Suc.prems(4) same_frame_qindex(2) [OF m(1)]
      by (auto simp: nth_list_update)
    have "let q' = cancel_shift (qindex p s) p (qindex p k) (Suc k - s) in same_frame q' p \<and>
     filter (\<lambda>r. r \<noteq> 0) (map request (window q')) = filter (\<lambda>r. r \<noteq> 0) (map request (window p)) \<and>
     (\<forall>i<qlen p. request (window q' ! i) \<noteq> 0 \<longrightarrow> has_buff (window q' ! i))"
    proof (rule Suc.hyps(1))
      show "n = qlen p - Suc k" using Suc.hyps(2) by (simp add: same_frame_qindex(2) [OF m(1)])
      show "head p < QN" "tail p < QN" using Suc.prems(1,2) m(1) by (simp_all add: same_frame_def)
      show "has_buff (window p ! k)" using m(3) False Suc.prems(9) k by simp
      show "\<forall>i<qlen p. request (window p ! i) \<noteq> 0 \<longrightarrow> has_buff (window p ! i)"
        using rq hb Suc.prems(7,9) by (auto simp: same_frame_qindex(2) [OF m(1)])
    qed (use k rq [OF k(1)] in \<open>simp_all add: same_frame_qindex(2) [OF m(1)]\<close>)
    moreover have "filter (\<lambda>r. r \<noteq> 0) (map request (window p)) = filter (\<lambda>r. r \<noteq> 0) (map request (window q))"
      using filter_nz_move [of j k "map request (window q)"] Suc.prems(4,6,8) False k unfolding m(2) by simp
    ultimately show ?thesis
      using m(1) unfolding e same_frame_qindex [OF m(1)] Let_def by (auto intro: same_frame_trans)
  qed
qed

lemma frame_queue_inv:
  assumes inv: "queue_inv q" and fr: "same_frame q' q"
    and rb: "\<forall>i<qlen q. request (window q' ! i) \<noteq> 0 \<longrightarrow> has_buff (window q' ! i)"
  shows "queue_inv q'" and "map snd (amsgs (abs_queue q')) = map snd (amsgs (abs_queue q))"
    and "apend (abs_queue q') = apend (abs_queue q)"
proof -
  have pl: "map payload (window q') = map payload (window q)" using fr by (simp add: same_frame_def)
  note parts = payload_parts [OF pl]
  have l: "length (window q') = qlen q" by (simp add: same_frame_qindex(2) [OF fr])
  have "has_buff s \<and> \<not> invalid s \<or> bubble s" if s: "s \<in> set (window q')" for s
  proof -
    from s obtain i where i: "i < qlen q" "s = window q' ! i" using l by (auto simp: in_set_conv_nth)
    let ?t = "window q ! i"
    have "map has_buff (window q') ! i = map has_buff (window q) ! i"
      "map invalid (window q') ! i = map invalid (window q) ! i" by (simp_all only: parts)
    then have e: "has_buff s = has_buff ?t" "invalid s = invalid ?t" using i l by simp_all
    have "?t \<in> set (window q)" using i by simp
    then have "has_buff ?t \<and> \<not> invalid ?t \<or> bubble ?t" using inv by (simp add: queue_inv_def)
    then show ?thesis using e rb i by (auto simp: bubble_def has_buff_def)
  qed
  moreover have "length (filter has_buff (window q')) = length (filter has_buff (window q))"
  proof -
    have "length (filter has_buff xs) = length (filter (\<lambda>b. b) (map has_buff xs))" for xs by (induction xs) auto
    then show ?thesis by (simp only: parts)
  qed
  ultimately show "queue_inv q'" using inv fr by (auto simp: queue_inv_def same_frame_def)
  have "map snd (amsgs (abs_queue p)) = filter (\<lambda>b. b \<noteq> 0) (map buff_index (window p))" for p
    by (simp add: abs_queue_def filter_map comp_def has_buff_def [abs_def])
  then show "map snd (amsgs (abs_queue q')) = map snd (amsgs (abs_queue q))" by (simp only: parts)
  show "apend (abs_queue q') = apend (abs_queue q)" using fr by (simp add: abs_queue_def same_frame_def)
qed

text \<open>
  Cancelling a matched request: the messages and the waiting receives stay as they are, the
  matched requests keep their order without the cancelled one.
\<close>

lemma ring_cancel_matched:
  assumes inv: "queue_inv q" and d: "aq_distinct (abs_queue q)" and nz: "rq \<noteq> 0"
    and m: "(rq, b) \<in> set (amsgs (abs_queue q))"
  obtains q' where "ring_cancel q rq = Some q'" and "queue_inv q'"
    and "map snd (amsgs (abs_queue q')) = map snd (amsgs (abs_queue q))"
    and "apend (abs_queue q') = apend (abs_queue q)"
    and "filter (\<lambda>r. r \<noteq> 0) (map fst (amsgs (abs_queue q'))) =
         filter (\<lambda>r. r \<noteq> rq) (filter (\<lambda>r. r \<noteq> 0) (map fst (amsgs (abs_queue q))))"
    and "chan_type q' = chan_type q" "send_endpt q' = send_endpt q" "recv_endpt q' = recv_endpt q"
proof -
  from matched_slot [OF inv d nz m] obtain i where i: "i < qlen q" "request (window q ! i) = rq"
      "buff_index (window q ! i) = b" "find_request q rq = qindex q i" "elements q (qindex q i) = window q ! i"
    by blast
  define q0 where "q0 = put_element q (qindex q i) (\<lambda>s. s\<lparr>request := 0\<rparr>)"
  have w0: "window q0 = (window q)[i := payload (window q ! i)]" "beyond q0 = beyond q"
    using window_put_lt [OF i(1)] beyond_put_lt [OF i(1)] by (simp_all add: q0_def)
  have fr0: "same_frame q0 q"
  proof -
    have "(map payload (window q))[i := payload (window q ! i)] = map payload (window q)"
      using i(1) by (simp add: list_update_same_conv)
    then show ?thesis using w0 by (simp add: same_frame_def q0_def map_update)
  qed
  have rb: "request (window q ! k) \<noteq> 0 \<longrightarrow> has_buff (window q ! k)" if "k < qlen q" for k
    using inv that unfolding queue_inv_def bubble_def by (metis length_window nth_mem)
  have hb0: "\<forall>k<qlen q. request (window q0 ! k) \<noteq> 0 \<longrightarrow> has_buff (window q0 ! k)"
    using rb i(1) by (auto simp: w0 nth_list_update has_buff_def split: if_splits)
  have ht: "head q0 < QN" "tail q0 < QN" using inv by (simp_all add: q0_def queue_inv_def)
  define q' where "q' = cancel_shift (qindex q0 i) q0 (qindex q0 i) (Suc i - i)"
  have "let q' = cancel_shift (qindex q0 i) q0 (qindex q0 i) (Suc i - i) in same_frame q' q0 \<and>
     filter (\<lambda>r. r \<noteq> 0) (map request (window q')) = filter (\<lambda>r. r \<noteq> 0) (map request (window q0)) \<and>
     (\<forall>k<qlen q0. request (window q' ! k) \<noteq> 0 \<longrightarrow> has_buff (window q' ! k))"
    by (rule cancel_matched_loop [OF ht])
      (use i hb0 rb [OF i(1)] nz in \<open>simp_all add: same_frame_qindex(2) [OF fr0] w0 has_buff_def\<close>)
  then have fr': "same_frame q' q" and rq': "filter (\<lambda>r. r \<noteq> 0) (map request (window q')) = filter (\<lambda>r. r \<noteq> 0) (map request (window q0))"
    and hb': "\<forall>k<qlen q. request (window q' ! k) \<noteq> 0 \<longrightarrow> has_buff (window q' ! k)"
    using same_frame_trans [OF _ fr0] by (simp_all add: q'_def Let_def same_frame_qindex(2) [OF fr0])
  have st: "cancel_shift (qindex q i) q0 (qindex q i) 0 = q'"
  proof -
    have "request (elements q0 (qindex q i)) = 0" by (simp add: q0_def put_element_def)
    then show ?thesis unfolding q'_def same_frame_qindex(1) [OF fr0]
      by (subst cancel_shift.simps) (simp add: Let_def)
  qed
  have c: "ring_cancel q rq = Some q'"
    using st less_imp_neq [OF qindex_less [of q i]] by (simp add: ring_cancel_def i(4) Let_def q0_def)
  note f = frame_queue_inv [OF inv fr' hb']
  have dr: "distinct (filter (\<lambda>r. r \<noteq> 0) (map request (window q)))"
    using d window_requests [OF inv] by (simp add: aq_distinct_def aq_requests_def)
  have "filter (\<lambda>r. r \<noteq> 0) (map request (window q0)) = filter (\<lambda>r. r \<noteq> rq) (filter (\<lambda>r. r \<noteq> 0) (map request (window q)))"
  proof -
    let ?rs = "map request (window q)"
    have "map request (window q0) = take i ?rs @ 0 # drop (Suc i) ?rs"
      using i(1) by (simp add: w0 map_update upd_conv_take_nth_drop take_map drop_map)
    then have "filter (\<lambda>r. r \<noteq> 0) (map request (window q0)) = filter (\<lambda>r. r \<noteq> 0) (take i ?rs @ drop (Suc i) ?rs)"
      by simp
    also have "take i ?rs @ drop (Suc i) ?rs = filter (\<lambda>r. r \<noteq> rq) ?rs"
      using filter_removed_nth [of "\<lambda>x. x" ?rs i rq] dr i(1,2) nz by simp
    finally show ?thesis by (simp add: conj_commute)
  qed
  then have "filter (\<lambda>r. r \<noteq> 0) (map fst (amsgs (abs_queue q'))) =
         filter (\<lambda>r. r \<noteq> rq) (filter (\<lambda>r. r \<noteq> 0) (map fst (amsgs (abs_queue q))))"
    using rq' window_requests [OF f(1)] window_requests [OF inv] by simp
  with c f fr' show thesis by (intro that [of q']) (simp_all add: same_frame_def)
qed

end
