(* ===== verification/MCAPI_Invariant.thy ===== *)
theory MCAPI_Invariant
  imports MCAPI_Cancel
begin

text \<open>
  The invariant of the shared database that every locked section keeps: the receive queues are
  well formed and own their buffers, the two request lists partition the request indices, and a
  request handle in a queue names an allocated receive request that has not completed and whose
  endpoint is the one of the queue.
\<close>

section \<open>The invariant\<close>

definition queued :: "mcapi_state \<Rightarrow> nat \<Rightarrow> nat \<Rightarrow> nat \<Rightarrow> u32 set" where
  "queued st d n e = set (aq_requests (abs_queue (queue_at st d n e)))"

definition waits_at :: "mcapi_state \<Rightarrow> nat \<Rightarrow> nat \<times> nat \<times> nat \<Rightarrow> bool" where
  "waits_at st r p \<longleftrightarrow> \<not> completed (requests st r) \<and> rtype (requests st r) = RECV \<and>
     mcapi_trans_decode_handle (rhandle (requests st r)) = Some p"

definition req_link :: "mcapi_state \<Rightarrow> nat set \<Rightarrow> bool" where
  "req_link st used \<longleftrightarrow> (\<forall>d n e. path_ok d n e \<longrightarrow>
     queued st d n e \<subseteq> encode_request ` {r \<in> used. waits_at st r (d, n, e)})"

text \<open>An entry that is marked valid is allocated.\<close>

definition valid_in :: "mcapi_state \<Rightarrow> nat set \<Rightarrow> bool" where
  "valid_in st used \<longleftrightarrow> (\<forall>r<MCAPI_MAX_REQUESTS. rvalid (requests st r) \<longrightarrow> r \<in> used)"

definition sys_inv :: "mcapi_state \<Rightarrow> bool" where
  "sys_inv st \<longleftrightarrow> db_inv st \<and>
     (\<exists>free full. request_lists st free full \<and> req_link st (set full) \<and> valid_in st (set full))"

text \<open>In the middle of an operation: request \<open>r\<close> is allocated and in no queue.\<close>

definition held :: "nat \<Rightarrow> mcapi_state \<Rightarrow> bool" where
  "held r st \<longleftrightarrow> db_inv st \<and> (\<exists>free full. request_lists st free full \<and> req_link st (set full - {r}) \<and>
     valid_in st (set full) \<and> r \<in> set full)"

definition idle :: "nat \<Rightarrow> mcapi_state \<Rightarrow> bool" where
  "idle r st \<longleftrightarrow> db_inv st \<and> (\<exists>free full. request_lists st free full \<and> req_link st (set full - {r}) \<and>
     valid_in st (insert r (set full)))"

lemma req_link_mono: "req_link st A \<Longrightarrow> A \<subseteq> B \<Longrightarrow> req_link st B"
  unfolding req_link_def by blast

lemma idle_sys_inv: "idle r st \<Longrightarrow> \<not> rvalid (requests st r) \<Longrightarrow> sys_inv st"
  unfolding idle_def sys_inv_def valid_in_def by (blast intro: req_link_mono)

lemma held_sys_inv: "held r st \<Longrightarrow> sys_inv st"
  unfolding held_def sys_inv_def by (blast intro: req_link_mono)

lemma used_bound: "request_lists st free full \<Longrightarrow> r \<in> set full \<Longrightarrow> r < MCAPI_MAX_REQUESTS"
  by (auto simp: request_lists_def lists_ok_def)

lemma request_lists_distinct: "request_lists st free full \<Longrightarrow> distinct (free @ full)"
  by (simp add: request_lists_def lists_ok_def)

lemma held_not_queued:
  assumes "held r st" and "path_ok d n e"
  shows "encode_request r \<notin> queued st d n e"
proof
  assume q: "encode_request r \<in> queued st d n e"
  from assms(1) obtain free full where l: "request_lists st free full" and k: "req_link st (set full - {r})"
    and r: "r \<in> set full" unfolding held_def by blast
  from k q assms(2) obtain s where "s \<in> set full" "s \<noteq> r" "encode_request r = encode_request s"
    unfolding req_link_def by blast
  with encode_request_inj used_bound [OF l] r show False by blast
qed

lemma request_lists_cong:
  "request_reserves_header st' = request_reserves_header st \<Longrightarrow> request_lists st' = request_lists st"
  by (simp add: request_lists_def fun_eq_iff)

text \<open>
  What a step must keep of the requests: the lists, the entries of requests that stay in a
  queue, and no new entries in queues.
\<close>

definition refs_keep :: "mcapi_state \<Rightarrow> mcapi_state \<Rightarrow> bool" where
  "refs_keep st st' \<longleftrightarrow> request_reserves_header st' = request_reserves_header st \<and> requests st' = requests st \<and>
     (\<forall>d n e. path_ok d n e \<longrightarrow> queued st' d n e \<subseteq> queued st d n e)"

lemma refs_keep_refl [simp]: "refs_keep st st"
  by (simp add: refs_keep_def)

lemma refs_keep_trans: "refs_keep st st' \<Longrightarrow> refs_keep st' st'' \<Longrightarrow> refs_keep st st''"
  unfolding refs_keep_def by (auto, blast)

lemma refs_keep_link: "refs_keep st st' \<Longrightarrow> req_link st A \<Longrightarrow> req_link st' A"
  unfolding refs_keep_def req_link_def waits_at_def by (simp, blast)

lemma refs_keep_valid: "refs_keep st st' \<Longrightarrow> valid_in st' = valid_in st"
  by (simp add: refs_keep_def valid_in_def fun_eq_iff)

lemma refs_keep_inv:
  assumes "refs_keep st st'" and "db_inv st'"
  shows "sys_inv st \<Longrightarrow> sys_inv st'" and "held r st \<Longrightarrow> held r st'"
proof -
  have l: "request_lists st' = request_lists st"
    using assms(1) by (intro request_lists_cong) (simp add: refs_keep_def)
  show "sys_inv st \<Longrightarrow> sys_inv st'" "held r st \<Longrightarrow> held r st'"
    using assms(2) refs_keep_link [OF assms(1)] unfolding sys_inv_def held_def l refs_keep_valid [OF assms(1)] by blast+
qed

text \<open>A state in which queues and the allocation of buffers are as before.\<close>

lemma db_inv_same:
  assumes inv: "db_inv st"
    and q: "\<And>d n e. path_ok d n e \<Longrightarrow> queue_inv (queue_at st' d n e) \<and> abs_queue (queue_at st' d n e) = abs_queue (queue_at st d n e)"
    and m: "\<And>i. magic_num (buffers st' i) = magic_num (buffers st i)"
  shows "db_inv st'" and "path_ok d n e \<Longrightarrow> queued st' d n e = queued st d n e"
proof -
  have b: "queue_bufs (queue_at st' d n e) = queue_bufs (queue_at st d n e)" if "path_ok d n e" for d n e
    using q [OF that] by (simp add: queue_bufs_def)
  have l: "buffer_live st' = buffer_live st" by (simp add: buffer_live_def m fun_eq_iff)
  show "db_inv st'" using inv q unfolding db_inv_def queue_ok_def by (simp add: b l)
  show "queued st' d n e = queued st d n e" if "path_ok d n e" using q [OF that] by (simp add: queued_def)
qed

text \<open>A step on one queue that drops buffers \<open>X\<close> of this queue.\<close>

lemma db_inv_drop:
  assumes inv: "db_inv st" and p: "path_ok d n e"
    and q: "\<And>d' n' e'. queue_at st' d' n' e' = (if (d', n', e') = (d, n, e) then q' else queue_at st d' n' e')"
    and q': "queue_inv q'" "aq_distinct (abs_queue q')" "distinct (queue_bufs q')"
      "set (queue_bufs q') \<subseteq> set (queue_bufs (queue_at st d n e)) - X"
    and X: "X \<subseteq> set (queue_bufs (queue_at st d n e))"
    and live: "\<And>c. buffer_live st c \<Longrightarrow> c \<notin> X \<Longrightarrow> buffer_live st' c"
  shows "db_inv st'"
proof (rule db_inv_update [OF inv q])
  have ok: "queue_ok st (queue_at st d n e)" by (rule db_inv_queue [OF inv p])
  show "queue_ok st' q'" using ok q' live unfolding queue_ok_def by blast
  fix d' n' e' c assume a: "path_ok d' n' e'" "(d', n', e') \<noteq> (d, n, e)" "c \<in> set (queue_bufs (queue_at st d' n' e'))"
  have "buffer_live st c" using db_inv_queue [OF inv a(1)] a(3) by (simp add: queue_ok_def)
  then show "buffer_live st' c \<and> c \<notin> set (queue_bufs q')"
    using db_inv_disjoint [OF inv a(1) p a(2)] a(3) X q'(4) live by blast
qed

section \<open>Requests\<close>

lemma reserve_inv:
  assumes inv: "sys_inv st" and r: "mcapi_trans_reserve_request_have_lock st = (ro, st')"
  shows "case ro of Some r \<Rightarrow> held r st' \<and> domains st' = domains st \<and> buffers st' = buffers st \<and>
      user_bytes st' = user_bytes st \<and> user_ptrs st' = user_ptrs st \<and> r < MCAPI_MAX_REQUESTS
    | None \<Rightarrow> st' = st"
proof -
  from inv obtain free full where l: "request_lists st free full" and k: "req_link st (set full)"
    and v: "valid_in st (set full)" and db: "db_inv st" unfolding sys_inv_def by blast
  show ?thesis
  proof (cases free)
    case Nil
    then show ?thesis using reserve_request_none l r by simp
  next
    case (Cons x xs)
    show ?thesis
    proof (rule reserve_request_some [OF l [unfolded Cons]])
      fix st2 assume s: "mcapi_trans_reserve_request_have_lock st = (Some x, st2)"
        and l2: "request_lists st2 xs (x # full)"
        and rq: "requests st2 = (requests st)(x := (requests st x)\<lparr>rvalid := True\<rparr>)"
        and fr: "domains st2 = domains st" "buffers st2 = buffers st" "user_bytes st2 = user_bytes st"
          "user_ptrs st2 = user_ptrs st"
      have st2: "st2 = st'" "ro = Some x" using s r by simp_all
      have qa: "queue_at st2 = queue_at st" by (simp add: queue_at_def endpoint_at_def node_at_def fr fun_eq_iff)
      have x: "x \<notin> set full" using request_lists_distinct [OF l] Cons by auto
      have db2: "db_inv st2" using db_inv_same(1) [OF db, of st2] db_inv_queue [OF db] by (simp add: qa fr queue_ok_def)
      have "waits_at st2 y p = waits_at st y p" for y p by (simp add: waits_at_def rq)
      then have "req_link st2 (set full)" using k by (simp add: req_link_def queued_def qa)
      moreover have "valid_in st2 (set (x # full))" using v by (auto simp: valid_in_def rq)
      ultimately have "held x st2" unfolding held_def using db2 l2 x
        by (intro conjI exI [of _ xs] exI [of _ "x # full"]) auto
      moreover have "x < MCAPI_MAX_REQUESTS" using used_bound [OF l2] by simp
      ultimately show ?thesis using fr by (simp add: st2)
    qed
  qed
qed

lemma upd_request_link:
  assumes "db_inv st" and "req_link st (A - {r})" and "valid_in st B" "r \<in> B"
  shows "db_inv (upd_request r f st)" and "req_link (upd_request r f st) (A - {r})"
    and "request_lists (upd_request r f st) = request_lists st" and "valid_in (upd_request r f st) B"
proof -
  let ?st = "upd_request r f st"
  have qa: "queue_at ?st = queue_at st" by (simp add: frame_simps)
  show "db_inv ?st"
    using db_inv_same(1) [OF assms(1), of ?st] db_inv_queue [OF assms(1)] by (simp add: qa frame_simps queue_ok_def)
  have "waits_at ?st y p = waits_at st y p" if "y \<in> A - {r}" for y p
    using that by (auto simp: waits_at_def frame_simps)
  then show "req_link ?st (A - {r})" using assms(2) unfolding req_link_def queued_def qa by blast
  show "valid_in ?st B" using assms(3,4) by (auto simp: valid_in_def frame_simps)
  show "request_lists ?st = request_lists st" by (simp add: request_lists_def frame_simps fun_eq_iff)
qed

lemma held_upd_request: "held r st \<Longrightarrow> held r (upd_request r f st)"
  unfolding held_def using upd_request_link [of st _ r _ f] by metis

lemma idle_upd_request: "idle r st \<Longrightarrow> idle r (upd_request r f st)"
  unfolding idle_def using upd_request_link [of st _ r _ f] by (metis insertI1)

text \<open>A request that is not in a queue can be given back.\<close>

lemma remove_inv:
  assumes h: "held r st"
  shows "idle r (snd (mcapi_trans_remove_request_have_lock r st))"
    and "requests (snd (mcapi_trans_remove_request_have_lock r st)) = requests st"
proof -
  from h obtain free full where l: "request_lists st free full" and k: "req_link st (set full - {r})"
    and v: "valid_in st (set full)" and db: "db_inv st" and r: "r \<in> set full" unfolding held_def by blast
  from r obtain ys zs where f: "full = ys @ r # zs" by (meson split_list)
  have d: "r \<notin> set ys" "r \<notin> set zs" using request_lists_distinct [OF l] f by auto
  show "idle r (snd (mcapi_trans_remove_request_have_lock r st))"
    and "requests (snd (mcapi_trans_remove_request_have_lock r st)) = requests st"
  proof (atomize (full), rule remove_request_some [OF l [unfolded f]])
    fix st' assume s: "mcapi_trans_remove_request_have_lock r st = (True, st')"
      and l': "request_lists st' (r # free) (ys @ zs)"
      and e: "st' = st\<lparr>request_reserves_header := request_reserves_header st'\<rparr>"
    have fr: "requests st' = requests st" "queue_at st' = queue_at st" "buffers st' = buffers st"
      by (subst e, simp add: queue_at_def endpoint_at_def node_at_def fun_eq_iff)+
    have "db_inv st'" using db_inv_same(1) [OF db, of st'] db_inv_queue [OF db] by (simp add: fr queue_ok_def)
    moreover have "req_link st' (set full - {r})" using k by (simp add: req_link_def queued_def waits_at_def fr)
    moreover have "set full - {r} = set (ys @ zs) - {r}" using f by auto
    moreover have "valid_in st' (insert r (set (ys @ zs)))" using v f by (simp add: valid_in_def fr)
    ultimately have "idle r st'" using l' unfolding idle_def by metis
    then show "idle r (snd (mcapi_trans_remove_request_have_lock r st)) \<and>
        requests (snd (mcapi_trans_remove_request_have_lock r st)) = requests st" using fr s by simp
  qed
qed

lemma queued_ep:
  "queued st d n e = {r \<in> fst ` set (ep_messages st d n e). r \<noteq> 0} \<union> set (ep_pending st d n e)"
  by (force simp: queued_def aq_requests_def ep_messages_def ep_pending_def)

section \<open>Sending and receiving\<close>

lemma compact_keeps:
  assumes inv: "queue_inv q" and c: "mcapi_trans_compact_queue q = Some q'"
  shows "queue_inv q'" and "abs_queue q' = abs_queue q"
proof -
  have ht: "head q < QN" "tail q < QN" using inv by (simp_all add: queue_inv_def)
  have ne: "dropWhile vacant (window q) \<noteq> []" if "0 < num_elements q"
    using that inv dropWhile_vacant_nonempty [of "window q"] unfolding num_elements_pos queue_inv_def by auto
  show "queue_inv q'" and "abs_queue q' = abs_queue q"
  proof (atomize (full), rule compact_queue_view [OF ht ne])
    fix q1 let ?zs = "map (\<lambda>s. s\<lparr>invalid := False\<rparr>) (takeWhile vacant (window q))"
    assume q1: "mcapi_trans_compact_queue q = Some q1" and h: "head q1 < QN" "tail q1 = tail q" "num_elements q1 = num_elements q"
      and w: "window q1 = dropWhile vacant (window q)" and b: "beyond q1 = beyond q @ ?zs"
    have z: "\<forall>s\<in>set ?zs. request s = 0 \<and> \<not> has_buff s \<and> \<not> invalid s" using vacated_slots by blast
    have fw: "filter has_buff (window q1) = filter has_buff (window q)" by (simp only: w filter_has_buff_dropWhile)
    have "queue_inv q1"
    proof (rule queue_inv_append_beyond [OF inv _ b z])
      show "\<forall>s\<in>set (window q1). has_buff s \<and> \<not> invalid s \<or> bubble s"
        using inv unfolding w queue_inv_def by (blast dest: set_dropWhileD)
    qed (use inv h ht in \<open>simp_all only: fw queue_inv_def\<close>)
    moreover have "abs_queue q1 = abs_queue q" by (rule abs_queue_cong [OF fw b]) (use z in blast)
    ultimately show "queue_inv q' \<and> abs_queue q' = abs_queue q" using q1 c by simp
  qed assumption
qed

lemma send_header:
  "mcapi_trans_send_have_lock d n e pt sz scl st = Some (ok, st') \<Longrightarrow>
   request_reserves_header st' = request_reserves_header st \<and> requests st' = requests st \<and>
   user_bytes st' = user_bytes st \<and> user_ptrs st' = user_ptrs st \<and> user_endpts st' = user_endpts st"
  by (auto simp: mcapi_trans_send_have_lock_def Let_def frame_simps bind_eq_Some_conv split: if_splits)

lemma send_needs_data:
  assumes "mcapi_trans_send_have_lock d n e pt sz scl st = Some (ok, st')"
    and "\<not> mcapi_trans_full_queue (queue_at st d n e)" and i: "find_buffer st < MCAPI_MAX_BUFFERS"
  shows "ok" and "\<exists>bs. chan_type (queue_at st d n e) = MCAPI_SCL_CHAN \<or>
      fill_buffer pt sz st (buff (buffers st (find_buffer st))) = Some bs"
proof -
  have c: "fill_buffer pt sz (set_queue d n e q1 (upd_buffer i (\<lambda>b. b\<lparr>magic_num := MAGIC_NUM\<rparr>) st)) dst = fill_buffer pt sz st dst" for q1 i dst
    by (rule fill_buffer_cong) (simp_all add: frame_simps)
  show "ok" "\<exists>bs. chan_type (queue_at st d n e) = MCAPI_SCL_CHAN \<or>
      fill_buffer pt sz st (buff (buffers st (find_buffer st))) = Some bs"
    using assms by (auto simp: mcapi_trans_send_have_lock_def Let_def bind_eq_Some_conv frame_simps c
      dest!: push_chan_type split: if_splits)
qed

lemma send_inv:
  assumes inv: "db_inv st" and p: "path_ok d n e"
    and s: "mcapi_trans_send_have_lock d n e pt sz scl st = Some (ok, st')"
  shows "db_inv st'" and "refs_keep st st'"
proof -
  let ?q = "queue_at st d n e"
  have qi: "queue_inv ?q" using db_inv_queue [OF inv p] by (simp add: queue_ok_def)
  have "db_inv st' \<and> (\<forall>d' n' e'. path_ok d' n' e' \<longrightarrow> queued st' d' n' e' \<subseteq> queued st d' n' e')"
  proof (cases "mcapi_trans_full_queue ?q")
    case True
    then obtain q where q: "mcapi_trans_compact_queue ?q = Some q" "st' = set_queue d n e q st"
      using s by (auto simp: mcapi_trans_send_have_lock_def bind_eq_Some_conv)
    note same = db_inv_same [OF inv, of st']
    have "queue_inv (queue_at st' d1 n1 e1) \<and> abs_queue (queue_at st' d1 n1 e1) = abs_queue (queue_at st d1 n1 e1)"
      if "path_ok d1 n1 e1" for d1 n1 e1
      using db_inv_queue [OF inv that] compact_keeps [OF qi q(1)] by (simp add: q(2) frame_simps queue_ok_def)
    with same show ?thesis by (simp add: q(2) frame_simps)
  next
    case nf: False
    show ?thesis
    proof (cases "find_buffer st < MCAPI_MAX_BUFFERS")
      case False
      moreover have "find_buffer st \<le> MCAPI_MAX_BUFFERS" by (simp add: find_buffer_def for_first_le)
      ultimately have "st' = st" using s nf by (auto simp: mcapi_trans_send_have_lock_def Let_def)
      with inv show ?thesis by simp
    next
      case i: True
      from send_needs_data [OF s nf i] obtain bs where ok: "ok" and bs: "chan_type ?q = MCAPI_SCL_CHAN \<or>
          fill_buffer pt sz st (buff (buffers st (find_buffer st))) = Some bs" by blast
      show ?thesis
      proof (rule send_delivers [OF inv p nf refl i bs, of scl])
        fix st2 assume s2: "mcapi_trans_send_have_lock d n e pt sz scl st = Some (True, st2)" and db: "db_inv st2"
          and m: "ep_messages st2 d n e = ep_messages st d n e @
            [(if ep_pending st d n e = [] then 0 else hd (ep_pending st d n e),
              bytes_of (buff (filled_buffer (chan_type ?q) bs sz scl (buffers st (find_buffer st)))) sz,
              scalar (filled_buffer (chan_type ?q) bs sz scl (buffers st (find_buffer st))))]"
          and pe: "ep_pending st2 d n e = tl (ep_pending st d n e)"
          and iso: "\<And>d' n' e'. path_ok d' n' e' \<Longrightarrow> (d', n', e') \<noteq> (d, n, e) \<Longrightarrow>
            ep_messages st2 d' n' e' = ep_messages st d' n' e' \<and> ep_pending st2 d' n' e' = ep_pending st d' n' e'"
        have e: "st2 = st'" using s s2 by simp
        have "queued st2 d n e \<subseteq> queued st d n e"
          unfolding queued_ep m pe by (cases "ep_pending st d n e") auto
        moreover have "queued st2 d' n' e' = queued st d' n' e'" if "path_ok d' n' e'" "(d', n', e') \<noteq> (d, n, e)" for d' n' e'
          using iso [OF that] by (simp add: queued_ep)
        ultimately have "queued st2 d' n' e' \<subseteq> queued st d' n' e'" if "path_ok d' n' e'" for d' n' e'
          using that by (cases "(d', n', e') = (d, n, e)") simp_all
        then show ?thesis using db unfolding e by blast
      qed
    qed
  qed
  then show "db_inv st'" and "refs_keep st st'" using send_header [OF s] by (auto simp: refs_keep_def)
qed

lemma deliver_magic:
  assumes "deliver_buffer ct idx buffer k ws st = Some (sc, st')"
  shows "i \<noteq> idx \<Longrightarrow> magic_num (buffers st' i) = magic_num (buffers st i)"
  using assms by (auto simp: deliver_buffer_def deref_def write_ptr_def bind_eq_Some_conv frame_simps
      split: channel_type.splits buffer_arg.splits ptr.splits if_splits)

lemma queue_recv_bufs:
  assumes ok: "queue_ok st q" and a: "aq_recv (abs_queue q) = Some (b, abs_queue q')"
  shows "distinct (queue_bufs q')" and "set (queue_bufs q') \<subseteq> set (queue_bufs q) - {b}" and "b \<in> set (queue_bufs q)"
    and "aq_requests (abs_queue q') = aq_requests (abs_queue q)"
proof -
  from a obtain bs where o: "open_first (amsgs (abs_queue q)) = b # bs"
    and a': "abs_queue q' = (abs_queue q)\<lparr>amsgs := drop_open (amsgs (abs_queue q))\<rparr>"
    unfolding aq_recv_iff by blast
  note dd = distinct_drop_open [OF _ o]
  show "distinct (queue_bufs q')" "set (queue_bufs q') \<subseteq> set (queue_bufs q) - {b}" "b \<in> set (queue_bufs q)"
    using dd ok image_mono [OF drop_open_subset [of "amsgs (abs_queue q)"], of snd]
    unfolding queue_bufs_def a' queue_ok_def by (simp_all add: subset_Diff_insert)
  show "aq_requests (abs_queue q') = aq_requests (abs_queue q)" by (simp add: aq_requests_def a' requests_drop_open)
qed

text \<open>Receiving from a queue with an unreserved message, whatever the kind of channel and the buffer.\<close>

lemma recv_taken_inv:
  assumes inv: "db_inv st" and p: "path_ok d n e" and ne: "\<not> mcapi_trans_empty_queue (queue_at st d n e)"
    and s: "mcapi_trans_recv_have_lock d n e buffer bsz blocking ws env st = Some (res, st')"
  shows "db_inv st'" and "refs_keep st st'"
proof -
  let ?q = "queue_at st d n e"
  have ok: "queue_ok st ?q" by (rule db_inv_queue [OF inv p])
  then have qi: "queue_inv ?q" by (simp add: queue_ok_def)
  from ring_recv_refines [OF qi ne] obtain b q' where r: "ring_recv ?q = Some (b, q')" "queue_inv q'"
      "aq_recv (abs_queue ?q) = Some (b, abs_queue q')" and ct: "chan_type q' = chan_type ?q" by metis
  obtain sc st1 where dl: "deliver_buffer (chan_type ?q) (decode_buff_index b) buffer
      (min bsz (bsize (buffers st (decode_buff_index b)))) ws st = Some (sc, st1)"
  proof -
    from r obtain x q1 where pop: "mcapi_trans_pop_queue ?q = Some (x, q1)"
      and b: "b = buff_index (elements q1 x)" and q': "q' = put_element q1 x (\<lambda>s. s\<lparr>buff_index := 0\<rparr>)"
      unfolding ring_recv_pop by blast
    have ct1: "chan_type q1 = chan_type ?q" using ct by (simp add: q')
    have k: "(if bsz < m then bsz else m) = min bsz m" for m by simp
    show thesis using s ne pop b that unfolding mcapi_trans_recv_have_lock_def mcapi_trans_recv_have_lock_at_def k
      by (auto simp: wait_message_ready frame_simps deliver_set_queue ct1 bind_eq_Some_conv Let_def)
  qed
  show "db_inv st'" and "refs_keep st st'"
  proof (atomize (full), rule recv_have_lock_view [OF ne r(1) ct dl, of blocking env])
    fix st2 assume s2: "mcapi_trans_recv_have_lock d n e buffer bsz blocking ws env st =
        Some (Some (bsize (buffers st (decode_buff_index b)), sc), st2)"
      and fr: "buffers st2 = buffers st1" "requests st2 = requests st" "request_reserves_header st2 = request_reserves_header st"
      and q: "\<And>d' n' e'. queue_at st2 d' n' e' = (if (d', n', e') = (d, n, e) then q' else queue_at st d' n' e')"
    note qb = queue_recv_bufs [OF ok r(3)]
    have lb: "buffer_live st b" using ok qb(3) by (simp add: queue_ok_def)
    have live: "buffer_live st2 c" if "buffer_live st c" "c \<notin> {b}" for c
      using that buffer_live_decode [OF that(1)] buffer_live_decode [OF lb] deliver_magic [OF dl]
      unfolding buffer_live_def fr by (metis decode_buff_index_encode insertI1)
    have ad: "aq_distinct (abs_queue q')" using ok qb(4) by (simp add: aq_distinct_def queue_ok_def)
    have "db_inv st2" by (rule db_inv_drop [OF inv p q r(2) ad qb(1,2) _ live]) (use qb(3) in auto)
    moreover have "refs_keep st st2" using fr q qb(4) by (auto simp: refs_keep_def queued_def)
    moreover have "st2 = st'" using s s2 by simp
    ultimately show "db_inv st' \<and> refs_keep st st'" by simp
  qed
qed

lemma recv_now_inv:
  assumes inv: "db_inv st" and p: "path_ok d n e"
    and s: "mcapi_trans_recv_have_lock d n e buffer bsz False ws env st = Some (res, st')"
  shows "db_inv st'" and "refs_keep st st'" and "res = None \<Longrightarrow> st' = st \<and> mcapi_trans_empty_queue (queue_at st d n e)"
proof -
  show "db_inv st'" and "refs_keep st st'"
    using recv_taken_inv [OF inv p _ s] s inv
    by (cases "mcapi_trans_empty_queue (queue_at st d n e)"; simp add: mcapi_trans_recv_have_lock_def)+
  show "res = None \<Longrightarrow> st' = st \<and> mcapi_trans_empty_queue (queue_at st d n e)"
    using s by (auto simp: mcapi_trans_recv_have_lock_def bind_eq_Some_conv split: if_splits)
qed

section \<open>Recording a request\<close>

lemma save_buffer_upd: "save_buffer r buffer q st = Some st' \<Longrightarrow> \<exists>f. st' = upd_request r f st \<and>
    (\<forall>rd. completed (f rd) = completed rd \<and> rstatus (f rd) = rstatus rd)"
  by (auto simp: save_buffer_def bind_eq_Some_conv split: if_splits buffer_arg.splits)

lemma setup_split:
  assumes s: "setup_request_have_lock hv hp status compl sz buffer type nn pn dn r st = Some (rq, st')"
    and h: "held r st"
  obtains st3 where "rq = encode_request r" and "held r st3" and "queue_at st3 = queue_at st" "buffers st3 = buffers st"
    and "rtype (requests st3 r) = type" "rhandle (requests st3 r) = hv" "completed (requests st3 r) = compl"
    and "rstatus (requests st3 r) = status"
    and "\<not> (type = RECV \<and> \<not> compl) \<Longrightarrow> st' = st3"
    and "type = RECV \<Longrightarrow> \<not> compl \<Longrightarrow> \<exists>d n e. mcapi_trans_decode_handle hv = Some (d, n, e) \<and>
      st' = (case reserve_slot (queue_at st d n e) rq of Some q \<Rightarrow> set_queue d n e q st3
        | None \<Rightarrow> upd_request r (\<lambda>rd. rd\<lparr>rstatus := MCAPI_ERR_MEM_LIMIT, completed := True\<rparr>) st3)"
proof -
  let ?f1 = "\<lambda>rd. rd\<lparr>rstatus := status, rsize := sz, cancelled := False, completed := compl\<rparr>"
  let ?st1 = "upd_request r ?f1 st"
  obtain f2 where st2: "(if buffer \<noteq> NoBuf \<and> \<not> compl then do {
              (d, n, e) \<leftarrow> mcapi_trans_decode_handle hv;
              save_buffer r buffer (queue_at ?st1 d n e) ?st1 }
           else Some ?st1) = Some (upd_request r f2 ?st1)"
    and f2: "\<And>rd. completed (f2 rd) = completed rd" "\<And>rd. rstatus (f2 rd) = rstatus rd"
  proof (cases "buffer \<noteq> NoBuf \<and> \<not> compl")
    case True
    with s obtain d n e st2 where "mcapi_trans_decode_handle hv = Some (d, n, e)"
      "save_buffer r buffer (queue_at ?st1 d n e) ?st1 = Some st2"
      by (auto simp: setup_request_have_lock_def bind_eq_Some_conv Let_def)
    with save_buffer_upd [OF this(2)] True that show thesis by auto
  next
    case False
    have "upd_request r (\<lambda>x. x) ?st1 = ?st1" by (simp add: upd_request_def)
    then show thesis using False by (intro that [of "\<lambda>x. x"]) auto
  qed
  let ?st2 = "upd_request r (\<lambda>rd. rd\<lparr>rtype := type, rhandle := hv\<rparr>) (upd_request r f2 ?st1)"
  define st3 where "st3 = (if type = GET_ENDPT then upd_request r (\<lambda>rd. rd\<lparr>ep_endpoint := hp, ep_node_num := nn, ep_port_num := pn,
      ep_domain_num := dn\<rparr>) ?st2 else ?st2)"
  have qa: "queue_at st3 = queue_at st" by (simp add: st3_def frame_simps)
  have s3: "(if type = RECV \<and> \<not> compl then do {
       (d, n, e) \<leftarrow> mcapi_trans_decode_handle hv;
       case reserve_slot (queue_at st3 d n e) (encode_request r) of
         Some q \<Rightarrow> Some (encode_request r, set_queue d n e q st3)
       | None \<Rightarrow> Some (encode_request r, upd_request r (\<lambda>rd. rd\<lparr>rstatus := MCAPI_ERR_MEM_LIMIT, completed := True\<rparr>) st3)
     } else Some (encode_request r, st3)) = Some (rq, st')"
    using s unfolding setup_request_have_lock_def Let_def st2 bind.bind_lunit st3_def .
  show thesis
  proof (rule that [of st3])
    show "rq = encode_request r" using s3 by (auto simp: bind_eq_Some_conv split: if_splits option.splits)
    show "held r st3" using h by (simp add: st3_def held_upd_request)
    show "\<not> (type = RECV \<and> \<not> compl) \<Longrightarrow> st' = st3" using s3 by (simp split: if_splits)
    show "\<exists>d n e. mcapi_trans_decode_handle hv = Some (d, n, e) \<and>
      st' = (case reserve_slot (queue_at st d n e) rq of Some q \<Rightarrow> set_queue d n e q st3
        | None \<Rightarrow> upd_request r (\<lambda>rd. rd\<lparr>rstatus := MCAPI_ERR_MEM_LIMIT, completed := True\<rparr>) st3)"
      if "type = RECV" "\<not> compl"
    proof -
      from s3 that obtain d n e where p: "mcapi_trans_decode_handle hv = Some (d, n, e)"
        by (auto simp: bind_eq_Some_conv)
      show ?thesis
        by (intro exI [of _ d] exI [of _ n] exI [of _ e])
          (use s3 that p in \<open>auto simp: qa split: option.splits\<close>)
    qed
  qed (use qa f2 in \<open>simp_all add: st3_def frame_simps\<close>)
qed

lemma reserve_slot_inv:
  assumes h: "held r st" and p: "mcapi_trans_decode_handle hv = Some (d, n, e)"
    and e: "mcapi_trans_empty_queue (queue_at st d n e)" and q: "reserve_slot (queue_at st d n e) (encode_request r) = Some q"
    and rq: "rtype (requests st r) = RECV" "rhandle (requests st r) = hv" "\<not> completed (requests st r)"
  shows "sys_inv (set_queue d n e q st)"
proof -
  let ?st = "set_queue d n e q st" and ?q = "queue_at st d n e"
  from h obtain free full where l: "request_lists st free full" and k: "req_link st (set full - {r})"
    and v: "valid_in st (set full)" and db: "db_inv st" and r: "r \<in> set full" unfolding held_def by blast
  have po: "path_ok d n e" using endpt.decode_valid [OF p] by (simp add: path_ok_def)
  have qi: "queue_inv ?q" "aq_distinct (abs_queue ?q)" using db_inv_queue [OF db po] by (simp_all add: queue_ok_def)
  have room: "qlen ?q + length (apend (abs_queue ?q)) < MCAPI_MAX_QUEUE_ENTRIES"
    using reserve_slot_full [OF qi(1) e] q by (metis not_less option.distinct(1))
  from reserve_slot_refines [OF qi(1) e encode_request_nonzero room] q have
    q': "queue_inv q" "abs_queue q = aq_reserve (encode_request r) (abs_queue ?q)" by (metis option.inject)+
  have qa: "\<And>d' n' e'. queue_at ?st d' n' e' = (if (d', n', e') = (d, n, e) then q else queue_at st d' n' e')"
    by (simp add: frame_simps)
  have am: "amsgs (abs_queue q) = amsgs (abs_queue ?q)" by (simp add: q'(2) aq_reserve_def)
  have nq: "encode_request r \<notin> set (aq_requests (abs_queue ?q))" using held_not_queued [OF h po] by (simp add: queued_def)
  then have ad: "aq_distinct (abs_queue q)"
    using qi(2) by (simp add: q'(2) aq_reserve_def aq_distinct_def aq_requests_def)
  have "db_inv ?st" by (rule pending_change(1) [OF db po q'(1) am ad _ qa]) (simp add: frame_simps)
  moreover have "req_link ?st (set full)"
  proof -
    have w: "waits_at ?st y pp = waits_at st y pp" for y pp by (simp add: waits_at_def frame_simps)
    have "queued ?st d n e = insert (encode_request r) (queued st d n e)"
      by (auto simp: queued_def qa q'(2) aq_reserve_def aq_requests_def)
    moreover have "waits_at st r (d, n, e)" using rq p by (simp add: waits_at_def)
    moreover have "queued ?st d' n' e' = queued st d' n' e'" if "(d', n', e') \<noteq> (d, n, e)" for d' n' e'
      using that by (auto simp: queued_def qa)
    ultimately show ?thesis using k r unfolding req_link_def w
      by (intro allI impI) (case_tac "(da, na, ea) = (d, n, e)"; fastforce)
  qed
  moreover have "request_lists ?st free full" using l by (simp add: request_lists_def frame_simps)
  moreover have "valid_in ?st (set full)" using v by (simp add: valid_in_def frame_simps)
  ultimately show ?thesis unfolding sys_inv_def by blast
qed

lemma setup_inv:
  assumes s: "setup_request_have_lock hv hp status compl sz buffer type nn pn dn r st = Some (rq, st')"
    and h: "held r st"
    and e: "type = RECV \<Longrightarrow> \<not> compl \<Longrightarrow> \<exists>d n e. mcapi_trans_decode_handle hv = Some (d, n, e) \<and>
      mcapi_trans_empty_queue (queue_at st d n e)"
  shows "sys_inv st'"
proof (rule setup_split [OF s h])
  fix st3 assume h3: "held r st3" "rq = encode_request r" and qa: "queue_at st3 = queue_at st"
    and rq: "rtype (requests st3 r) = type" "rhandle (requests st3 r) = hv" "completed (requests st3 r) = compl"
    and c1: "\<not> (type = RECV \<and> \<not> compl) \<Longrightarrow> st' = st3"
    and c2: "type = RECV \<Longrightarrow> \<not> compl \<Longrightarrow> \<exists>d n e. mcapi_trans_decode_handle hv = Some (d, n, e) \<and>
      st' = (case reserve_slot (queue_at st d n e) rq of Some q \<Rightarrow> set_queue d n e q st3
        | None \<Rightarrow> upd_request r (\<lambda>rd. rd\<lparr>rstatus := MCAPI_ERR_MEM_LIMIT, completed := True\<rparr>) st3)"
  show ?thesis
  proof (cases "type = RECV \<and> \<not> compl")
    case True
    with c2 e obtain d n e where p: "mcapi_trans_decode_handle hv = Some (d, n, e)" "mcapi_trans_empty_queue (queue_at st3 d n e)"
      and st': "st' = (case reserve_slot (queue_at st3 d n e) (encode_request r) of Some q \<Rightarrow> set_queue d n e q st3
        | None \<Rightarrow> upd_request r (\<lambda>rd. rd\<lparr>rstatus := MCAPI_ERR_MEM_LIMIT, completed := True\<rparr>) st3)"
      unfolding qa h3(2) by fastforce
    show ?thesis
      using reserve_slot_inv [OF h3(1) p] rq True held_sys_inv [OF held_upd_request [OF h3(1)]] unfolding st'
      by (simp split: option.splits)
  qed (use c1 held_sys_inv [OF h3(1)] in simp)
qed

section \<open>Completing and cancelling receives\<close>

lemma recv_at_frame:
  assumes s: "mcapi_trans_recv_have_lock_at d n e buffer bsz x ws st = Some (sz, sc, st')"
  shows "queue_at st' = (\<lambda>d' n' e'. if d' = d \<and> n' = n \<and> e' = e
      then put_element (queue_at st d n e) x (\<lambda>s. s\<lparr>buff_index := 0\<rparr>) else queue_at st d' n' e')"
    and "requests st' = requests st" "request_reserves_header st' = request_reserves_header st"
    and "i \<noteq> decode_buff_index (buff_index (elements (queue_at st d n e) x)) \<Longrightarrow>
      magic_num (buffers st' i) = magic_num (buffers st i)"
proof -
  from s obtain k st1 where dl: "deliver_buffer (chan_type (queue_at st d n e))
      (decode_buff_index (buff_index (elements (queue_at st d n e) x))) buffer k ws st = Some (sc, st1)"
    and st': "st' = upd_queue d n e (\<lambda>q. put_element q x (\<lambda>s. s\<lparr>buff_index := 0\<rparr>)) st1"
    by (auto simp: mcapi_trans_recv_have_lock_at_def Let_def bind_eq_Some_conv)
  note f = deliver_frame [OF dl]
  show "queue_at st' = (\<lambda>d' n' e'. if d' = d \<and> n' = n \<and> e' = e
      then put_element (queue_at st d n e) x (\<lambda>s. s\<lparr>buff_index := 0\<rparr>) else queue_at st d' n' e')"
    by (intro ext) (simp add: st' frame_simps f)
  show "requests st' = requests st" "request_reserves_header st' = request_reserves_header st"
    by (simp_all add: st' frame_simps f)
  show "i \<noteq> decode_buff_index (buff_index (elements (queue_at st d n e) x)) \<Longrightarrow>
      magic_num (buffers st' i) = magic_num (buffers st i)"
    using deliver_magic [OF dl] by (simp add: st' frame_simps)
qed

lemma complete_receive_frame:
  assumes s: "complete_receive d n e x r st = Some st'"
  shows "queue_at st' = (\<lambda>d' n' e'. if d' = d \<and> n' = n \<and> e' = e
      then put_element (queue_at st d n e) x (\<lambda>s. s\<lparr>buff_index := 0\<rparr>) else queue_at st d' n' e')"
    and "r' \<noteq> r \<Longrightarrow> requests st' r' = requests st r'" and "completed (requests st' r) = completed (requests st r)"
    and "rvalid (requests st' r) = rvalid (requests st r)"
    and "request_reserves_header st' = request_reserves_header st"
    and "i \<noteq> decode_buff_index (buff_index (elements (queue_at st d n e) x)) \<Longrightarrow>
      magic_num (buffers st' i) = magic_num (buffers st i)"
proof -
  from s obtain buffer bsz sz sc st1 f where r: "mcapi_trans_recv_have_lock_at d n e buffer bsz x False st = Some (sz, sc, st1)"
    and st': "st' = upd_request r f st1" and f: "\<And>q. completed (f q) = completed q" "\<And>q. rvalid (f q) = rvalid q"
  proof (cases "chan_type (queue_at st d n e) = MCAPI_PKT_CHAN")
    case True
    with s that [where f = "\<lambda>q. q\<lparr>rsize := a\<rparr>" for a] show thesis
      by (auto simp: complete_receive_def bind_eq_Some_conv)
  next
    case False
    have u: "upd_request r g (upd_request r f st) = upd_request r (g \<circ> f) st" for f g st by (simp add: upd_request_def)
    with False s that [where f = "(\<lambda>q. q\<lparr>rsize := a, rstatus := MCAPI_ERR_MSG_TRUNCATED\<rparr>) \<circ> (\<lambda>q. q\<lparr>rsize := b\<rparr>)" for a b]
      that [where f = "\<lambda>q. q\<lparr>rsize := a\<rparr>" for a]
    show thesis by (auto simp: complete_receive_def bind_eq_Some_conv Let_def split: if_splits)
  qed
  note g = recv_at_frame [OF r]
  show "queue_at st' = (\<lambda>d' n' e'. if d' = d \<and> n' = n \<and> e' = e
      then put_element (queue_at st d n e) x (\<lambda>s. s\<lparr>buff_index := 0\<rparr>) else queue_at st d' n' e')"
    "r' \<noteq> r \<Longrightarrow> requests st' r' = requests st r'" "completed (requests st' r) = completed (requests st r)"
    "rvalid (requests st' r) = rvalid (requests st r)"
    "request_reserves_header st' = request_reserves_header st"
    "i \<noteq> decode_buff_index (buff_index (elements (queue_at st d n e) x)) \<Longrightarrow>
      magic_num (buffers st' i) = magic_num (buffers st i)"
    using g f by (simp_all add: st' frame_simps)
qed

lemma check_receive_frame:
  assumes dh: "mcapi_trans_decode_request_handle rq = Some r" "mcapi_trans_decode_handle (rhandle (requests st r)) = Some (d, n, e)"
    and s: "check_receive_request_have_lock rq st = Some st'"
  defines "x \<equiv> find_request (queue_at st d n e) rq" and "q \<equiv> queue_at st d n e"
  assumes b: "buff_index (elements q x) \<noteq> 0"
  obtains q' where "x < MCAPI_MAX_QUEUE_ENTRIES" and "ring_take q x = Some q'"
    and "queue_at st' = (\<lambda>d' n' e'. if d' = d \<and> n' = n \<and> e' = e then q' else queue_at st d' n' e')"
    and "\<And>r'. r' \<noteq> r \<Longrightarrow> requests st' r' = requests st r'" "completed (requests st' r)"
      "rvalid (requests st' r) = rvalid (requests st r)"
    and "request_reserves_header st' = request_reserves_header st"
    and "\<And>i. i \<noteq> decode_buff_index (buff_index (elements q x)) \<Longrightarrow> magic_num (buffers st' i) = magic_num (buffers st i)"
proof -
  define st1 where "st1 = upd_request r (\<lambda>q. q\<lparr>completed := True, rstatus := MCAPI_SUCCESS\<rparr>)
     (upd_queue d n e (\<lambda>q. put_element q x (\<lambda>s. s\<lparr>request := 0\<rparr>)) st)"
  have q1: "queue_at st1 d n e = put_element q x (\<lambda>s. s\<lparr>request := 0\<rparr>)" by (simp add: st1_def frame_simps q_def)
  have i1: "buff_index (elements (queue_at st1 d n e) x) = buff_index (elements q x)" unfolding q1 by (simp add: put_element_def)
  have xn: "x \<noteq> MCAPI_MAX_QUEUE_ENTRIES"
    using s dh by (auto simp: check_receive_request_have_lock_def Let_def x_def)
  then have xl: "x < MCAPI_MAX_QUEUE_ENTRIES" by (simp add: x_def find_request_def for_first_le le_neq_implies_less)
  from s b xn obtain st2 where c: "complete_receive d n e x r st1 = Some st2"
    and st': "mcapi_trans_compact_queue (queue_at (upd_queue d n e (\<lambda>q. put_element q x (\<lambda>s. s\<lparr>invalid := True\<rparr>))
        (upd_queue d n e (\<lambda>q. q\<lparr>num_elements := num_elements q - 1\<rparr>) st2)) d n e) \<bind>
      (\<lambda>q. Some (set_queue d n e q (upd_queue d n e (\<lambda>q. put_element q x (\<lambda>s. s\<lparr>invalid := True\<rparr>))
        (upd_queue d n e (\<lambda>q. q\<lparr>num_elements := num_elements q - 1\<rparr>) st2)))) = Some st'"
    using dh unfolding check_receive_request_have_lock_def st1_def q_def x_def
    by (auto simp: Let_def bind_eq_Some_conv)
  note f = complete_receive_frame [OF c]
  let ?st3 = "upd_queue d n e (\<lambda>q. put_element q x (\<lambda>s. s\<lparr>invalid := True\<rparr>))
      (upd_queue d n e (\<lambda>q. q\<lparr>num_elements := num_elements q - 1\<rparr>) st2)"
  have q3: "queue_at ?st3 d n e = put_element ((put_element (put_element q x (\<lambda>s. s\<lparr>request := 0\<rparr>)) x
      (\<lambda>s. s\<lparr>buff_index := 0\<rparr>))\<lparr>num_elements := num_elements q - 1\<rparr>) x (\<lambda>s. s\<lparr>invalid := True\<rparr>)"
    by (simp add: frame_simps f(1) q1 del: put_element_put)
  from st' obtain q' where t: "ring_take q x = Some q'" and e3: "st' = set_queue d n e q' ?st3"
    unfolding q3 ring_take_steps by (auto simp: bind_eq_Some_conv)
  show thesis
  proof (rule that [OF xl t])
    show "queue_at st' = (\<lambda>d' n' e'. if d' = d \<and> n' = n \<and> e' = e then q' else queue_at st d' n' e')"
      by (intro ext) (simp add: e3 frame_simps f(1) st1_def)
    show "magic_num (buffers st' i) = magic_num (buffers st i)" if "i \<noteq> decode_buff_index (buff_index (elements q x))" for i
      using f(6) [unfolded i1, OF that] by (simp add: e3 frame_simps st1_def)
  qed (use f(2-5) in \<open>simp_all add: e3 frame_simps st1_def\<close>)
qed

lemma queued_owner:
  assumes "request_lists st free full" "req_link st (set full)" and "path_ok d n e" "rq \<in> queued st d n e"
    and "mcapi_trans_decode_request_handle rq = Some r"
  shows "rq = encode_request r" "r \<in> set full" "waits_at st r (d, n, e)"
proof -
  from assms(2-4) obtain s where s: "s \<in> set full" "waits_at st s (d, n, e)" "rq = encode_request s"
    unfolding req_link_def by blast
  then have "s = r" using assms(5) used_bound [OF assms(1)] by simp
  with s show "rq = encode_request r" "r \<in> set full" "waits_at st r (d, n, e)" by simp_all
qed

text \<open>A request leaves its queue: it is then in no queue.\<close>

lemma unqueue_held:
  assumes inv: "sys_inv st" and p: "path_ok d n e" and rq: "rq \<in> queued st d n e"
    and dr: "mcapi_trans_decode_request_handle rq = Some r" and db: "db_inv st'"
    and q: "queued st' d n e \<subseteq> queued st d n e - {rq}"
    and o: "\<And>d' n' e'. path_ok d' n' e' \<Longrightarrow> (d', n', e') \<noteq> (d, n, e) \<Longrightarrow> queued st' d' n' e' = queued st d' n' e'"
    and rs: "\<And>r'. r' \<noteq> r \<Longrightarrow> requests st' r' = requests st r'"
    and h: "request_reserves_header st' = request_reserves_header st"
  shows "held r st'"
proof -
  from inv obtain free full where l: "request_lists st free full" and k: "req_link st (set full)"
    and v: "valid_in st (set full)" unfolding sys_inv_def by blast
  note own = queued_owner [OF l k p rq dr]
  have "queued st' d' n' e' \<subseteq> encode_request ` {s \<in> set full - {r}. waits_at st' s (d', n', e')}"
    if p': "path_ok d' n' e'" for d' n' e'
  proof
    fix y assume y: "y \<in> queued st' d' n' e'"
    then have "y \<in> queued st d' n' e'" using q o [OF p'] by (cases "(d', n', e') = (d, n, e)") auto
    then obtain s where s: "s \<in> set full" "waits_at st s (d', n', e')" "y = encode_request s"
      using k p' unfolding req_link_def by blast
    have "s \<noteq> r"
    proof
      assume "s = r"
      with s(2) own(3) have "(d', n', e') = (d, n, e)" by (simp add: waits_at_def)
      with y q s(3) \<open>s = r\<close> own(1) show False by auto
    qed
    with s rs show "y \<in> encode_request ` {s \<in> set full - {r}. waits_at st' s (d', n', e')}"
      by (auto simp: waits_at_def)
  qed
  moreover have "valid_in st' (set full)" using v rs own(2) unfolding valid_in_def by metis
  ultimately show ?thesis
    unfolding held_def using db own(2) l request_lists_cong [OF h] by (auto simp: req_link_def)
qed

lemma decode_request_nonzero: "mcapi_trans_decode_request_handle rq = Some r \<Longrightarrow> rq \<noteq> 0"
  by (auto simp: mcapi_trans_decode_request_handle_def Let_def split: if_splits)

lemma aq_requests_take:
  assumes "aq_distinct a" and "(rq, b) \<in> set (amsgs a)" and "rq \<noteq> 0"
  shows "aq_requests (aq_take rq a) = filter (\<lambda>r. r \<noteq> rq) (aq_requests a)"
proof -
  have "filter (\<lambda>r. r \<noteq> 0) (map fst (filter (\<lambda>m. fst m \<noteq> rq) ms)) = filter (\<lambda>r. r \<noteq> rq) (filter (\<lambda>r. r \<noteq> 0) (map fst ms))"
    for ms :: "(u32 \<times> u32) list" by (induction ms) auto
  moreover have "rq \<notin> set (apend a)" using assms by (force simp: aq_distinct_def aq_requests_def)
  then have "filter (\<lambda>r. r \<noteq> rq) (apend a) = apend a" by (auto simp: filter_id_conv)
  ultimately show ?thesis by (simp add: aq_requests_def aq_take_def)
qed

text \<open>What \<open>check_receive_request_have_lock\<close> does to the invariant: nothing, or the request completes.\<close>

lemma check_receive_inv:
  assumes inv: "sys_inv st" and dr: "mcapi_trans_decode_request_handle rq = Some r"
    and s: "check_receive_request_have_lock rq st = Some st'"
  shows "st' = st \<or> held r st' \<and> completed (requests st' r)"
proof -
  from s dr obtain d n e where dh: "mcapi_trans_decode_handle (rhandle (requests st r)) = Some (d, n, e)"
    by (auto simp: check_receive_request_have_lock_def bind_eq_Some_conv)
  let ?q = "queue_at st d n e" let ?x = "find_request ?q rq"
  have p: "path_ok d n e" using endpt.decode_valid [OF dh] by (simp add: path_ok_def)
  have db: "db_inv st" using inv by (simp add: sys_inv_def)
  have ok: "queue_ok st ?q" by (rule db_inv_queue [OF db p])
  then have qi: "queue_inv ?q" "aq_distinct (abs_queue ?q)" by (simp_all add: queue_ok_def)
  note rq0 = decode_request_nonzero [OF dr]
  show ?thesis
  proof (cases "buff_index (elements ?q ?x) = 0")
    case True
    then show ?thesis using s dr dh by (auto simp: check_receive_request_have_lock_def bind_eq_Some_conv Let_def)
  next
    case False
    show ?thesis
    proof (rule check_receive_frame [OF dr dh s False])
      fix q' assume x: "?x < MCAPI_MAX_QUEUE_ENTRIES" and t: "ring_take ?q ?x = Some q'"
        and q: "queue_at st' = (\<lambda>d' n' e'. if d' = d \<and> n' = n \<and> e' = e then q' else queue_at st d' n' e')"
        and rs: "\<And>r'. r' \<noteq> r \<Longrightarrow> requests st' r' = requests st r'" and cp: "completed (requests st' r)"
        and h: "request_reserves_header st' = request_reserves_header st"
        and mg: "\<And>i. i \<noteq> decode_buff_index (buff_index (elements ?q ?x)) \<Longrightarrow> magic_num (buffers st' i) = magic_num (buffers st i)"
      have hd: "head ?q < MCAPI_MAX_QUEUE_ENTRIES" using qi(1) by (simp add: queue_inv_def)
      from position_of_slot [OF hd x] obtain i where i: "i < MCAPI_MAX_QUEUE_ENTRIES" "?x = qindex ?q i" by blast
      have el: "request (elements ?q ?x) = rq"
        using for_first_hit [of "\<lambda>i. request (elements ?q i) = rq" 0 MCAPI_MAX_QUEUE_ENTRIES] x by (simp add: find_request_def)
      have iw: "i < qlen ?q"
      proof (rule ccontr)
        assume "\<not> i < qlen ?q"
        then have "elements ?q ?x = beyond ?q ! (i - qlen ?q)" "i - qlen ?q < MCAPI_MAX_QUEUE_ENTRIES - qlen ?q"
          using beyond_nth [of "i - qlen ?q" ?q] i by (simp_all add: diff_less_mono)
        then have "elements ?q ?x \<in> set (beyond ?q)" by (metis length_beyond nth_mem)
        with qi(1) False show False by (auto simp: queue_inv_def has_buff_def)
      qed
      have w: "window ?q ! i = elements ?q ?x" using window_nth [OF iw] i(2) by simp
      define b where "b = buff_index (elements ?q ?x)"
      have m: "(rq, b) \<in> set (amsgs (abs_queue ?q))"
        using nth_mem [of i "window ?q"] iw el False unfolding abs_queue_def
        by (auto simp: w b_def has_buff_def intro!: image_eqI [of _ _ "elements ?q ?x"])
      from ring_take_refines [OF qi iw _ rq0] w el i(2) t have q': "queue_inv q'" "abs_queue q' = aq_take rq (abs_queue ?q)"
        by (metis option.inject)+
      have bq: "b \<in> set (queue_bufs ?q)" using m by (force simp: queue_bufs_def)
      have lb: "buffer_live st b" using ok bq by (simp add: queue_ok_def)
      have ds: "distinct (map snd (amsgs (abs_queue ?q)))" using ok by (simp add: queue_ok_def queue_bufs_def)
      have sub: "set (queue_bufs q') \<subseteq> set (queue_bufs ?q) - {b}"
        using distinct_snd_unique [OF ds m] by (auto simp: queue_bufs_def q'(2) aq_take_def)
      have "db_inv st'"
      proof (rule db_inv_drop [OF db p _ q'(1) _ _ sub])
        show "aq_distinct (abs_queue q')"
          using qi(2) by (simp add: q'(2) aq_distinct_def aq_requests_take [OF qi(2) m rq0])
        show "distinct (queue_bufs q')" using ds by (simp add: queue_bufs_def q'(2) aq_take_def distinct_map_filter)
        show "buffer_live st' c" if "buffer_live st c" "c \<notin> {b}" for c
          using that buffer_live_decode [OF that(1)] buffer_live_decode [OF lb] mg [folded b_def]
          unfolding buffer_live_def by (metis decode_buff_index_encode insertI1)
      qed (use q bq in auto)
      moreover have "queued st' d n e \<subseteq> queued st d n e - {rq}"
        by (auto simp: queued_def q q'(2) aq_requests_take [OF qi(2) m rq0])
      moreover have "rq \<in> queued st d n e" using m rq0 by (force simp: queued_def aq_requests_def)
      ultimately have "held r st'"
        by (intro unqueue_held [OF inv p _ dr _ _ _ rs h]) (auto simp: queued_def q)
      with cp show ?thesis by blast
    qed
  qed
qed

text \<open>Cancelling a receive, whether it is matched with a message or still waits for one.\<close>

lemma ring_cancel_inv:
  assumes inv: "queue_inv q" "aq_distinct (abs_queue q)" and rq: "rq \<noteq> 0" and c: "ring_cancel q rq = Some q'"
  shows "rq \<in> set (aq_requests (abs_queue q))" "queue_inv q'" "aq_distinct (abs_queue q')"
    "queue_bufs q' = queue_bufs q" "set (aq_requests (abs_queue q')) = set (aq_requests (abs_queue q)) - {rq}"
proof -
  show r: "rq \<in> set (aq_requests (abs_queue q))"
  proof (rule ccontr)
    assume "rq \<notin> set (aq_requests (abs_queue q))"
    from find_request_none [OF inv(1) rq this] c show False by (simp add: ring_cancel_def Let_def)
  qed
  have "queue_inv q' \<and> queue_bufs q' = queue_bufs q \<and>
      aq_requests (abs_queue q') = filter (\<lambda>r. r \<noteq> rq) (aq_requests (abs_queue q))"
  proof (cases "rq \<in> set (apend (abs_queue q))")
    case True
    from ring_cancel_pending [OF inv True] c have q': "queue_inv q'" "abs_queue q' = aq_cancel rq (abs_queue q)"
      by (metis option.inject)+
    have "rq \<notin> set (filter (\<lambda>r. r \<noteq> 0) (map fst (amsgs (abs_queue q))))"
      using True inv(2) by (auto simp: aq_distinct_def aq_requests_def)
    then have "filter (\<lambda>r. r \<noteq> rq) (filter (\<lambda>r. r \<noteq> 0) (map fst (amsgs (abs_queue q)))) =
        filter (\<lambda>r. r \<noteq> 0) (map fst (amsgs (abs_queue q)))" by (metis (mono_tags, lifting) filter_True)
    then show ?thesis by (simp add: q' aq_cancel_def aq_requests_def queue_bufs_def)
  next
    case False
    then obtain b where "(rq, b) \<in> set (amsgs (abs_queue q))" using r by (auto simp: aq_requests_def)
    then show ?thesis
    proof (rule ring_cancel_matched [OF inv rq])
      fix q1 assume "ring_cancel q rq = Some q1" and q1: "queue_inv q1"
        "map snd (amsgs (abs_queue q1)) = map snd (amsgs (abs_queue q))" "apend (abs_queue q1) = apend (abs_queue q)"
        "filter (\<lambda>r. r \<noteq> 0) (map fst (amsgs (abs_queue q1))) =
         filter (\<lambda>r. r \<noteq> rq) (filter (\<lambda>r. r \<noteq> 0) (map fst (amsgs (abs_queue q))))"
      then have e: "q1 = q'" using c by simp
      have "filter (\<lambda>r. r \<noteq> rq) (apend (abs_queue q)) = apend (abs_queue q)"
        using False by (auto simp: filter_id_conv)
      then show ?thesis using q1 unfolding e by (simp only: aq_requests_def queue_bufs_def filter_append)
    qed
  qed
  then show "queue_inv q'" "queue_bufs q' = queue_bufs q" "aq_distinct (abs_queue q')"
    "set (aq_requests (abs_queue q')) = set (aq_requests (abs_queue q)) - {rq}"
    using inv(2) by (auto simp: aq_distinct_def)
qed

lemma cancel_receive_inv:
  assumes inv: "sys_inv st" and dr: "mcapi_trans_decode_request_handle rq = Some r"
    and s: "cancel_receive_request_have_lock rq st = Some st'"
  shows "held r st'"
proof -
  from s dr obtain d n e q' where dh: "mcapi_trans_decode_handle (rhandle (requests st r)) = Some (d, n, e)"
    and c: "ring_cancel (queue_at st d n e) rq = Some q'"
    and st': "st' = upd_request r (\<lambda>rd. rd\<lparr>cancelled := True\<rparr>) (set_queue d n e q' st)"
    by (auto simp: cancel_receive_request_have_lock_def bind_eq_Some_conv)
  have p: "path_ok d n e" using endpt.decode_valid [OF dh] by (simp add: path_ok_def)
  have db: "db_inv st" using inv by (simp add: sys_inv_def)
  have ok: "queue_ok st (queue_at st d n e)" by (rule db_inv_queue [OF db p])
  then have qi: "queue_inv (queue_at st d n e)" "aq_distinct (abs_queue (queue_at st d n e))" by (simp_all add: queue_ok_def)
  note ci = ring_cancel_inv [OF qi decode_request_nonzero [OF dr] c]
  let ?st = "set_queue d n e q' st"
  have qa: "\<And>d' n' e'. queue_at ?st d' n' e' = (if (d', n', e') = (d, n, e) then q' else queue_at st d' n' e')"
    by (simp add: frame_simps)
  have live: "buffer_live ?st = buffer_live st" by (simp add: buffer_live_def frame_simps fun_eq_iff)
  have "db_inv ?st"
    by (rule db_inv_drop [OF db p qa ci(2,3), of "{}"]) (use ok live in \<open>simp_all add: ci(4) queue_ok_def\<close>)
  moreover have "queued ?st d n e \<subseteq> queued st d n e - {rq}" "rq \<in> queued st d n e"
    using ci(1,5) by (simp_all add: queued_def qa)
  ultimately have "held r ?st"
    by (intro unqueue_held [OF inv p _ dr]) (auto simp: queued_def frame_simps)
  then show ?thesis unfolding st' by (rule held_upd_request)
qed

end
