(* ===== verification/MCAPI_Transport.thy ===== *)
theory MCAPI_Transport
  imports MCAPI_Requests
begin

text \<open>
  The transport as one node sees it: the shared database behind one global lock, the thread-local
  identity of the node, and the operations of the fragments of \<open>transport_sm.c\<close>
  (\<open>check\<close>, \<open>initialize\<close>, \<open>finalize\<close>, \<open>attributes\<close>, \<open>endpoint\<close>, \<open>msg\<close>, \<open>pktchan\<close>,
  \<open>sclchan\<close>, \<open>wait\<close>). Every operation locks the database, works on it and unlocks it, so
  an operation of another node falls between two operations, or into a yield of a blocking one.
\<close>

section \<open>Process state and the lock\<close>

text \<open>
  \<open>rwl_ok\<close> says whether \<open>global_rwl\<close> names a live reader/writer lock of the resource layer
  (\<open>transport_sm_lock_rwl\<close> and \<open>transport_sm_unlock_rwl\<close> succeed exactly then).
\<close>

record mcapi_sys =
  shm :: mcapi_state
  db_attached :: bool
  rwl_ok :: bool
  locked :: nat
  initialize_ctr :: nat
  finalize_ctr :: nat
  my_pid :: int
  my_tid :: int
  my_nindex :: nat
  my_dindex :: nat
  my_node_num :: u32
  my_domain_id :: u32

definition mcapi_trans_access_database_pre :: "mcapi_sys \<Rightarrow> (bool \<times> mcapi_sys) option" where
  "mcapi_trans_access_database_pre sys = do {
     mcapi_assert (locked sys = 0);
     Some (if rwl_ok sys then (True, sys\<lparr>locked := locked sys + 1\<rparr>) else (False, sys))
   }"

definition mcapi_trans_access_database_post :: "mcapi_sys \<Rightarrow> (bool \<times> mcapi_sys) option" where
  "mcapi_trans_access_database_post sys = do {
     mcapi_assert (locked sys = 1);
     Some (if rwl_ok sys then (True, sys\<lparr>locked := locked sys - 1\<rparr>) else (False, sys))
   }"

text \<open>
  The frame of most operations: lock, work, unlock, both calls asserted. The access through a
  null \<open>mcapi_db\<close> is undefined.
\<close>

definition with_lock :: "(mcapi_state \<Rightarrow> ('a \<times> mcapi_state) option) \<Rightarrow> mcapi_sys \<Rightarrow> ('a \<times> mcapi_sys) option" where
  "with_lock f sys = do {
     (ok, sys) \<leftarrow> mcapi_trans_access_database_pre sys;
     mcapi_assert ok;
     mcapi_assert (db_attached sys);
     (x, st) \<leftarrow> f (shm sys);
     (ok, sys) \<leftarrow> mcapi_trans_access_database_post (sys\<lparr>shm := st\<rparr>);
     mcapi_assert ok;
     Some (x, sys)
   }"

text \<open>\<open>test\<close> and \<open>cancel\<close> do not look at the results of locking and unlocking.\<close>

definition with_lock_unchecked :: "(mcapi_state \<Rightarrow> ('a \<times> mcapi_state) option) \<Rightarrow> mcapi_sys \<Rightarrow> ('a \<times> mcapi_sys) option" where
  "with_lock_unchecked f sys = do {
     (ok, sys) \<leftarrow> mcapi_trans_access_database_pre sys;
     mcapi_assert (db_attached sys);
     (x, st) \<leftarrow> f (shm sys);
     (ok, sys) \<leftarrow> mcapi_trans_access_database_post (sys\<lparr>shm := st\<rparr>);
     Some (x, sys)
   }"

definition reading :: "(mcapi_state \<Rightarrow> 'a option) \<Rightarrow> mcapi_state \<Rightarrow> ('a \<times> mcapi_state) option" where
  "reading f st = map_option (\<lambda>x. (x, st)) (f st)"

text \<open>
  \<open>mcapi_trans_yield_have_lock\<close>: the lock is released, other nodes run, the lock is taken again.
  The result of \<open>post\<close> and \<open>pre\<close> shows in the assertions on \<open>locked\<close> that follow them.
\<close>

definition mcapi_trans_yield_have_lock :: "(mcapi_state \<Rightarrow> mcapi_state) \<Rightarrow> mcapi_sys \<Rightarrow> mcapi_sys option" where
  "mcapi_trans_yield_have_lock env sys = do {
     mcapi_assert (locked sys = 1);
     (ok, sys) \<leftarrow> mcapi_trans_access_database_post sys;
     mcapi_assert (locked sys = 0);
     let sys = sys\<lparr>shm := env (shm sys)\<rparr>;
     (ok, sys) \<leftarrow> mcapi_trans_access_database_pre sys;
     mcapi_assert (locked sys = 1);
     Some sys
   }"

definition mcapi_trans_whoami :: "mcapi_sys \<Rightarrow> (u32 \<times> nat \<times> u32 \<times> nat) option" where
  "mcapi_trans_whoami sys =
     (if \<not> db_attached sys then None
      else if my_pid sys = -1 then None
      else Some (my_node_num sys, my_nindex sys, my_domain_id sys, my_dindex sys))"

definition mcapi_trans_get_node_num :: "mcapi_sys \<Rightarrow> u32 option" where
  "mcapi_trans_get_node_num sys = map_option (\<lambda>(node, n, domain, d). node) (mcapi_trans_whoami sys)"

definition mcapi_trans_get_domain_num :: "mcapi_sys \<Rightarrow> u32 option" where
  "mcapi_trans_get_domain_num sys = map_option (\<lambda>(node, n, domain, d). domain) (mcapi_trans_whoami sys)"

section \<open>Checks (\<open>transport_sm_check.c\<close>)\<close>

definition on_endpoint :: "u32 \<Rightarrow> (endpoint_entry \<Rightarrow> 'a) \<Rightarrow> mcapi_state \<Rightarrow> 'a option" where
  "on_endpoint endpoint f st = do {
     (d, n, e) \<leftarrow> mcapi_trans_decode_handle endpoint;
     Some (f (endpoint_at st d n e))
   }"

definition mcapi_trans_channel_type :: "u32 \<Rightarrow> mcapi_sys \<Rightarrow> (channel_type \<times> mcapi_sys) option" where
  "mcapi_trans_channel_type endpoint = with_lock (reading (on_endpoint endpoint (\<lambda>ep. chan_type (recv_queue ep))))"

definition mcapi_trans_send_endpoint :: "u32 \<Rightarrow> mcapi_sys \<Rightarrow> (bool \<times> mcapi_sys) option" where
  "mcapi_trans_send_endpoint endpoint = with_lock (reading (on_endpoint endpoint
     (\<lambda>ep. \<not> (connected ep \<and> recv_endpt (recv_queue ep) = endpoint))))"

definition mcapi_trans_recv_endpoint :: "u32 \<Rightarrow> mcapi_sys \<Rightarrow> (bool \<times> mcapi_sys) option" where
  "mcapi_trans_recv_endpoint endpoint = with_lock (reading (on_endpoint endpoint
     (\<lambda>ep. \<not> (connected ep \<and> send_endpt (recv_queue ep) = endpoint))))"

definition mcapi_trans_valid_port :: "u32 \<Rightarrow> bool" where
  "mcapi_trans_valid_port port = True"

definition mcapi_trans_valid_node :: "u32 \<Rightarrow> bool" where
  "mcapi_trans_valid_node node = True"

definition mcapi_trans_valid_endpoint :: "u32 \<Rightarrow> mcapi_sys \<Rightarrow> (bool \<times> mcapi_sys) option" where
  "mcapi_trans_valid_endpoint endpoint = with_lock (reading (\<lambda>st. Some
     (case mcapi_trans_decode_handle endpoint of
        Some (d, n, e) \<Rightarrow> domain_valid (domains st d) \<and> node_valid (node_at st d n) \<and> ep_valid (endpoint_at st d n e)
      | None \<Rightarrow> False)))"

definition mcapi_trans_endpoint_exists :: "u32 \<Rightarrow> u32 \<Rightarrow> mcapi_sys \<Rightarrow> (bool \<times> mcapi_sys) option" where
  "mcapi_trans_endpoint_exists domain port sys =
     (if port = MCAPI_PORT_ANY then Some (False, sys)
      else with_lock (reading (\<lambda>st. do {
        (node, n, domain, d) \<leftarrow> mcapi_trans_whoami sys;
        Some (for_first (\<lambda>i. ep_valid (endpoint_at st d n i) \<and> port_num (endpoint_at st d n i) = port) 0
                MCAPI_MAX_ENDPOINTS < MCAPI_MAX_ENDPOINTS)
      })) sys)"

definition mcapi_trans_valid_endpoints :: "u32 \<Rightarrow> u32 \<Rightarrow> mcapi_sys \<Rightarrow> (bool \<times> mcapi_sys) option" where
  "mcapi_trans_valid_endpoints endpoint1 endpoint2 = with_lock (reading (\<lambda>st. Some
     (case mcapi_trans_decode_handle endpoint1 of
        Some (d1, n1, e1) \<Rightarrow> ep_valid (endpoint_at st d1 n1 e1) \<and>
          (case mcapi_trans_decode_handle endpoint2 of
             Some (d2, n2, e2) \<Rightarrow> ep_valid (endpoint_at st d2 n2 e2) | None \<Rightarrow> False)
      | None \<Rightarrow> False)))"

definition mcapi_trans_pktchan_recv_isopen :: "u32 \<Rightarrow> mcapi_sys \<Rightarrow> (bool \<times> mcapi_sys) option" where
  "mcapi_trans_pktchan_recv_isopen h = with_lock (reading (on_endpoint h ep_open))"

definition mcapi_trans_pktchan_send_isopen :: "u32 \<Rightarrow> mcapi_sys \<Rightarrow> (bool \<times> mcapi_sys) option" where
  "mcapi_trans_pktchan_send_isopen h = with_lock (reading (on_endpoint h ep_open))"

definition mcapi_trans_sclchan_recv_isopen :: "u32 \<Rightarrow> mcapi_sys \<Rightarrow> (bool \<times> mcapi_sys) option" where
  "mcapi_trans_sclchan_recv_isopen h = with_lock (reading (on_endpoint h ep_open))"

definition mcapi_trans_sclchan_send_isopen :: "u32 \<Rightarrow> mcapi_sys \<Rightarrow> (bool \<times> mcapi_sys) option" where
  "mcapi_trans_sclchan_send_isopen h = with_lock (reading (on_endpoint h ep_open))"

definition mcapi_trans_endpoint_channel_isopen :: "u32 \<Rightarrow> mcapi_sys \<Rightarrow> (bool \<times> mcapi_sys) option" where
  "mcapi_trans_endpoint_channel_isopen h = with_lock (reading (on_endpoint h ep_open))"

text \<open>Ownership compares the node number only, not the domain.\<close>

definition mcapi_trans_endpoint_isowner :: "u32 \<Rightarrow> mcapi_sys \<Rightarrow> (bool \<times> mcapi_sys) option" where
  "mcapi_trans_endpoint_isowner endpoint sys = do {
     node \<leftarrow> mcapi_trans_get_node_num sys;
     with_lock (reading (\<lambda>st. do {
       (d, n, e) \<leftarrow> mcapi_trans_decode_handle endpoint;
       Some (ep_valid (endpoint_at st d n e) \<and> node_num (node_at st d n) = node)
     })) sys
   }"

definition mcapi_trans_channel_connected :: "u32 \<Rightarrow> mcapi_sys \<Rightarrow> (bool \<times> mcapi_sys) option" where
  "mcapi_trans_channel_connected endpoint =
     with_lock (reading (on_endpoint endpoint (\<lambda>ep. ep_valid ep \<and> connected ep)))"

definition mcapi_trans_compatible_endpoint_attributes :: "u32 \<Rightarrow> u32 \<Rightarrow> bool" where
  "mcapi_trans_compatible_endpoint_attributes send_endpoint recv_endpoint = True"

definition valid_channel_handle :: "channel_type \<Rightarrow> u32 \<Rightarrow> mcapi_state \<Rightarrow> bool" where
  "valid_channel_handle type handle st =
     (case mcapi_trans_decode_handle handle of
        Some (d, n, e) \<Rightarrow> chan_type (queue_at st d n e) = type | None \<Rightarrow> False)"

definition mcapi_trans_valid_pktchan_send_handle :: "u32 \<Rightarrow> mcapi_sys \<Rightarrow> (bool \<times> mcapi_sys) option" where
  "mcapi_trans_valid_pktchan_send_handle h = with_lock (reading (\<lambda>st. Some (valid_channel_handle MCAPI_PKT_CHAN h st)))"

definition mcapi_trans_valid_pktchan_recv_handle :: "u32 \<Rightarrow> mcapi_sys \<Rightarrow> (bool \<times> mcapi_sys) option" where
  "mcapi_trans_valid_pktchan_recv_handle h = with_lock (reading (\<lambda>st. Some (valid_channel_handle MCAPI_PKT_CHAN h st)))"

definition mcapi_trans_valid_sclchan_send_handle :: "u32 \<Rightarrow> mcapi_sys \<Rightarrow> (bool \<times> mcapi_sys) option" where
  "mcapi_trans_valid_sclchan_send_handle h = with_lock (reading (\<lambda>st. Some (valid_channel_handle MCAPI_SCL_CHAN h st)))"

definition mcapi_trans_valid_sclchan_recv_handle :: "u32 \<Rightarrow> mcapi_sys \<Rightarrow> (bool \<times> mcapi_sys) option" where
  "mcapi_trans_valid_sclchan_recv_handle h = with_lock (reading (\<lambda>st. Some (valid_channel_handle MCAPI_SCL_CHAN h st)))"

text \<open>A failing lock means that the node is not initialised.\<close>

definition mcapi_trans_initialized :: "mcapi_sys \<Rightarrow> (bool \<times> mcapi_sys) option" where
  "mcapi_trans_initialized sys = do {
     (ok, sys) \<leftarrow> mcapi_trans_access_database_pre sys;
     if \<not> ok then Some (False, sys)
     else do {
       let rc = mcapi_trans_whoami sys \<noteq> None;
       (ok, sys) \<leftarrow> mcapi_trans_access_database_post sys;
       mcapi_assert ok;
       Some (rc, sys)
     }
   }"

definition mcapi_trans_num_endpoints :: "mcapi_sys \<Rightarrow> (nat \<times> mcapi_sys) option" where
  "mcapi_trans_num_endpoints sys = with_lock (reading (\<lambda>st. do {
     (node, n, domain, d) \<leftarrow> mcapi_trans_whoami sys;
     Some (unat (num_endpoints (node_d (node_at st d n))))
   })) sys"

definition mcapi_trans_valid_priority :: "u32 \<Rightarrow> bool" where
  "mcapi_trans_valid_priority priority \<longleftrightarrow> 0 \<le> priority \<and> unat priority \<le> MCAPI_MAX_PRIORITY"

definition mcapi_trans_connected :: "u32 \<Rightarrow> mcapi_sys \<Rightarrow> (bool \<times> mcapi_sys) option" where
  "mcapi_trans_connected endpoint = with_lock (reading (\<lambda>st. Some
     (case mcapi_trans_decode_handle endpoint of
        Some (d, n, e) \<Rightarrow> chan_type (queue_at st d n e) \<noteq> MCAPI_NO_CHAN | None \<Rightarrow> False)))"

definition mcapi_trans_valid_buffer_param :: "ptr \<Rightarrow> bool" where
  "mcapi_trans_valid_buffer_param buffer \<longleftrightarrow> buffer \<noteq> NULL"

definition mcapi_trans_valid_request_handle :: "u32 \<Rightarrow> bool" where
  "mcapi_trans_valid_request_handle rq \<longleftrightarrow> mcapi_trans_decode_request_handle rq \<noteq> None"

end
