(* ===== verification/MCAPI_Operations.thy ===== *)
theory MCAPI_Operations
  imports MCAPI_Transport
begin

text \<open>
  The operations of the transport on endpoints, connectionless messages, packet channels, scalar
  channels and requests, as written in \<open>transport_sm_endpoint.c\<close>, \<open>transport_sm_msg.c\<close>,
  \<open>transport_sm_pktchan.c\<close>, \<open>transport_sm_sclchan.c\<close> and \<open>transport_sm_wait.c\<close>.
  A non-blocking operation takes the status found so far and returns the request handle
  (\<open>None\<close> when \<open>*request\<close> is not written) and the status.
\<close>

type_synonym started = "u32 option \<times> mcapi_status"

text \<open>Reserving a request entry, or failing with the request limit.\<close>

definition with_request ::
  "(nat \<Rightarrow> mcapi_state \<Rightarrow> (started \<times> mcapi_state) option) \<Rightarrow> mcapi_state \<Rightarrow> (started \<times> mcapi_state) option" where
  "with_request f st = (case mcapi_trans_reserve_request_have_lock st of
       (Some r, st) \<Rightarrow> f r st
     | (None, st) \<Rightarrow> Some ((None, MCAPI_ERR_REQUEST_LIMIT), st))"

section \<open>Endpoints\<close>

definition mcapi_trans_endpoint_create :: "u32 \<Rightarrow> bool \<Rightarrow> mcapi_sys \<Rightarrow> (u32 option \<times> mcapi_sys) option" where
  "mcapi_trans_endpoint_create port anon sys = with_lock (\<lambda>st. do {
     (node, n, domain, d) \<leftarrow> mcapi_trans_whoami sys;
     mcapi_assert (unat (num_endpoints (node_d (node_at st d n))) < MCAPI_MAX_ENDPOINTS);
     let i = for_first (\<lambda>i. \<not> ep_valid (endpoint_at st d n i)) 0 MCAPI_MAX_ENDPOINTS;
     if i < MCAPI_MAX_ENDPOINTS then do {
       let st = upd_endpoint d n i (\<lambda>ep. ep\<lparr>ep_valid := True, port_num := port, ep_open := False,
                                           anonymous := anon, num_attributes := 0\<rparr>) st;
       let st = upd_node d n (\<lambda>nd. nd\<lparr>node_d := (node_d nd)\<lparr>num_endpoints := num_endpoints (node_d nd) + 1\<rparr>\<rparr>) st;
       h \<leftarrow> mcapi_trans_encode_handle d n i;
       Some (Some h, st)
     } else Some (None, st)
   }) sys"

text \<open>The attribute value and the status; other attribute numbers are not known.\<close>

definition mcapi_trans_endpoint_get_attribute :: "u32 \<Rightarrow> nat \<Rightarrow> mcapi_sys \<Rightarrow> ((u32 option \<times> mcapi_status) \<times> mcapi_sys) option" where
  "mcapi_trans_endpoint_get_attribute endpoint attribute = with_lock (reading (\<lambda>st. do {
     (d, n, e) \<leftarrow> mcapi_trans_decode_handle endpoint;
     Some (if attribute = MCAPI_ENDP_ATTR_NUM_RECV_BUFFERS
           then (Some (of_nat MCAPI_MAX_QUEUE_ENTRIES - num_elements (queue_at st d n e)), MCAPI_SUCCESS)
           else (None, MCAPI_ERR_ATTR_NUM))
   }))"

definition mcapi_trans_endpoint_set_attribute :: "u32 \<Rightarrow> nat \<Rightarrow> mcapi_status \<Rightarrow> mcapi_sys \<Rightarrow> (mcapi_status \<times> mcapi_sys) option" where
  "mcapi_trans_endpoint_set_attribute endpoint attribute status sys = Some (status, sys)"

definition mcapi_trans_endpoint_get_i ::
  "addr \<Rightarrow> u32 \<Rightarrow> u32 \<Rightarrow> u32 \<Rightarrow> mcapi_status \<Rightarrow> mcapi_sys \<Rightarrow> (started \<times> mcapi_sys) option" where
  "mcapi_trans_endpoint_get_i endpoint domain node port status = with_lock (\<lambda>st.
     case mcapi_trans_reserve_request_have_lock st of
       (Some r, st) \<Rightarrow> do {
         (compl, st) \<leftarrow> (if status = MCAPI_SUCCESS
            then mcapi_trans_endpoint_get_have_lock endpoint domain node port st else Some (False, st));
         (rq, st) \<leftarrow> setup_request_have_lock (user_endpts st endpoint) endpoint status compl 0 NoBuf GET_ENDPT
            node port domain r st;
         Some ((Some rq, status), st) }
     | (None, st) \<Rightarrow> Some ((None, status), st))"

text \<open>The blocking lookup yields until the endpoint exists; \<open>None\<close> while it does not.\<close>

fun endpoint_get_loop ::
  "addr \<Rightarrow> u32 \<Rightarrow> u32 \<Rightarrow> u32 \<Rightarrow> (mcapi_state \<Rightarrow> mcapi_state) list \<Rightarrow> mcapi_state \<Rightarrow> mcapi_state option" where
  "endpoint_get_loop ep domain node port env st = do {
     (found, st) \<leftarrow> mcapi_trans_endpoint_get_have_lock ep domain node port st;
     if found then Some st
     else (case env of [] \<Rightarrow> None | f # env \<Rightarrow> endpoint_get_loop ep domain node port env (f st))
   }"

definition mcapi_trans_endpoint_get ::
  "addr \<Rightarrow> u32 \<Rightarrow> u32 \<Rightarrow> u32 \<Rightarrow> (mcapi_state \<Rightarrow> mcapi_state) list \<Rightarrow> mcapi_sys \<Rightarrow> (unit \<times> mcapi_sys) option" where
  "mcapi_trans_endpoint_get ep domain node port env =
     with_lock (\<lambda>st. map_option (Pair ()) (endpoint_get_loop ep domain node port env st))"

definition mcapi_trans_endpoint_delete :: "u32 \<Rightarrow> mcapi_sys \<Rightarrow> (unit \<times> mcapi_sys) option" where
  "mcapi_trans_endpoint_delete endpoint = with_lock (\<lambda>st. do {
     (d, n, e) \<leftarrow> mcapi_trans_decode_handle endpoint;
     let st = upd_node d n (\<lambda>nd. nd\<lparr>node_d := (node_d nd)\<lparr>num_endpoints := num_endpoints (node_d nd) - 1\<rparr>\<rparr>) st;
     Some ((), upd_endpoint d n e (\<lambda>ep. zero_endpoint) st)
   })"

section \<open>Requests: test, wait, cancel\<close>

text \<open>The outcome of a test: completed or not, and the new values of \<open>*request\<close>, \<open>*size\<close>, \<open>*mcapi_status\<close>.\<close>

type_synonym tested = "bool \<times> u32 \<times> nat \<times> mcapi_status"

definition try_complete :: "u32 \<Rightarrow> nat \<Rightarrow> mcapi_state \<Rightarrow> mcapi_state option" where
  "try_complete rq r st = (case rtype (requests st r) of
       SEND \<Rightarrow> Some st
     | RECV \<Rightarrow> check_receive_request_have_lock rq st
     | GET_ENDPT \<Rightarrow> check_get_endpt_request_have_lock rq st
     | CONN_PKTCHAN \<Rightarrow> Some st
     | CONN_SCLCHAN \<Rightarrow> Some st
     | OPEN_PKTCHAN \<Rightarrow> check_open_channel_request_have_lock rq st
     | OPEN_SCLCHAN \<Rightarrow> check_open_channel_request_have_lock rq st
     | CLOSE_PKTCHAN \<Rightarrow> check_close_channel_request_have_lock rq st
     | CLOSE_SCLCHAN \<Rightarrow> check_close_channel_request_have_lock rq st
     | OTHER \<Rightarrow> None)"

definition test_have_lock :: "u32 \<Rightarrow> nat \<Rightarrow> mcapi_status \<Rightarrow> mcapi_state \<Rightarrow> (tested \<times> mcapi_state) option" where
  "test_have_lock rq sz status st =
     (case mcapi_trans_decode_request_handle rq of
        None \<Rightarrow> Some ((True, rq, sz, MCAPI_ERR_REQUEST_INVALID), st)
      | Some r \<Rightarrow>
          if \<not> rvalid (requests st r) then Some ((True, rq, sz, MCAPI_ERR_REQUEST_INVALID), st)
          else if cancelled (requests st r) then Some ((True, rq, sz, MCAPI_ERR_REQUEST_CANCELLED), st)
          else do {
            st \<leftarrow> (if completed (requests st r) then Some st else try_complete rq r st);
            if completed (requests st r) then
              let st = snd (mcapi_trans_remove_request_have_lock r st);
                  sz = rsize (requests st r);
                  status = rstatus (requests st r);
                  st = upd_request r (\<lambda>rd. zero_request) st
              in Some ((True, 0, sz, status), st)
            else Some ((False, rq, sz, status), st)
          })"

definition mcapi_trans_test_i :: "u32 \<Rightarrow> nat \<Rightarrow> mcapi_status \<Rightarrow> mcapi_sys \<Rightarrow> (tested \<times> mcapi_sys) option" where
  "mcapi_trans_test_i rq sz status = with_lock_unchecked (test_have_lock rq sz status)"

definition env_step :: "(mcapi_state \<Rightarrow> mcapi_state) \<Rightarrow> mcapi_sys \<Rightarrow> mcapi_sys" where
  "env_step f sys = sys\<lparr>shm := f (shm sys)\<rparr>"

text \<open>
  The waiting loop tests, yields and looks at the timeout; each yield takes the next element
  of \<open>env\<close>, the work of the other nodes. \<open>None\<close> also means still waiting at the end of \<open>env\<close>.
  \<open>time\<close> is a \<open>mcapi_timeout_t\<close> and wraps.
\<close>

fun wait_loop ::
  "u32 \<Rightarrow> nat \<Rightarrow> mcapi_status \<Rightarrow> u32 \<Rightarrow> u32 \<Rightarrow> (mcapi_state \<Rightarrow> mcapi_state) list \<Rightarrow> mcapi_sys \<Rightarrow> (tested \<times> mcapi_sys) option" where
  "wait_loop rq sz status timeout time env sys = do {
     let time = time + 1;
     ((rc, rq, sz, status), sys) \<leftarrow> mcapi_trans_test_i rq sz status sys;
     if rc then Some ((True, rq, sz, status), sys)
     else (case env of
         [] \<Rightarrow> None
       | f # env \<Rightarrow>
           if timeout \<noteq> MCA_INFINITE \<and> timeout \<le> time then Some ((False, rq, sz, MCAPI_TIMEOUT), env_step f sys)
           else wait_loop rq sz status timeout time env (env_step f sys))
   }"

definition mcapi_trans_wait ::
  "u32 \<Rightarrow> nat \<Rightarrow> mcapi_status \<Rightarrow> u32 \<Rightarrow> (mcapi_state \<Rightarrow> mcapi_state) list \<Rightarrow> mcapi_sys \<Rightarrow> (tested \<times> mcapi_sys) option" where
  "mcapi_trans_wait rq sz status timeout env sys = do {
     r \<leftarrow> mcapi_trans_decode_request_handle rq;
     wait_loop rq sz status timeout 0 env sys
   }"

text \<open>
  Waiting for any of several requests: \<open>i\<close> is the index of the inner loop. The timeout is only
  looked at inside the inner loop, so with no request at all the loop never ends. The array holds
  pointers to request handles; the model takes them to point to different variables, whose values
  are the list. (The call returns at the first request that completes, so that a shared variable
  would only show in the value the caller finds in it.)
\<close>

fun wait_any_loop ::
  "u32 list \<Rightarrow> nat \<Rightarrow> nat \<Rightarrow> mcapi_status \<Rightarrow> u32 \<Rightarrow> u32 \<Rightarrow> (mcapi_state \<Rightarrow> mcapi_state) list \<Rightarrow> mcapi_sys
   \<Rightarrow> ((u32 \<times> u32 list \<times> nat \<times> mcapi_status) \<times> mcapi_sys) option" where
  "wait_any_loop rqs i sz status timeout time env sys =
     (if rqs = [] then None
      else do {
        let (i, time) = (if i < length rqs then (i, time) else (0, time + 1));
        ((rc, rq, sz, status), sys) \<leftarrow> mcapi_trans_test_i (rqs ! i) sz status sys;
        let rqs = rqs[i := rq];
        if rc then Some ((of_nat i, rqs, sz, status), sys)
        else (case env of
            [] \<Rightarrow> None
          | f # env \<Rightarrow>
              if timeout \<noteq> MCA_INFINITE \<and> timeout \<le> time
              then Some ((MCA_RETURN_VALUE_INVALID, rqs, sz, MCAPI_TIMEOUT), env_step f sys)
              else wait_any_loop rqs (Suc i) sz status timeout time env (env_step f sys))
      })"

definition mcapi_trans_wait_any ::
  "u32 list \<Rightarrow> nat \<Rightarrow> mcapi_status \<Rightarrow> u32 \<Rightarrow> (mcapi_state \<Rightarrow> mcapi_state) list \<Rightarrow> mcapi_sys
   \<Rightarrow> ((u32 \<times> u32 list \<times> nat \<times> mcapi_status) \<times> mcapi_sys) option" where
  "mcapi_trans_wait_any rqs sz status timeout env = wait_any_loop rqs 0 sz status timeout 1 env"

definition cancel_have_lock :: "u32 \<Rightarrow> mcapi_status \<Rightarrow> mcapi_state \<Rightarrow> (mcapi_status \<times> mcapi_state) option" where
  "cancel_have_lock rq status st = do {
     r \<leftarrow> mcapi_trans_decode_request_handle rq;
     if \<not> rvalid (requests st r) then Some (MCAPI_ERR_REQUEST_INVALID, st)
     else if cancelled (requests st r) then Some (MCAPI_ERR_REQUEST_CANCELLED, st)
     else if \<not> completed (requests st r) then do {
       let st = upd_request r (\<lambda>rd. rd\<lparr>cancelled := True\<rparr>) st;
       st \<leftarrow> (case rtype (requests st r) of
           RECV \<Rightarrow> cancel_receive_request_have_lock rq st
         | GET_ENDPT \<Rightarrow> Some st
         | _ \<Rightarrow> None);
       Some (MCAPI_SUCCESS, upd_request r (\<lambda>rd. zero_request) st)
     } else Some (status, st)
   }"

definition mcapi_trans_cancel :: "u32 \<Rightarrow> mcapi_status \<Rightarrow> mcapi_sys \<Rightarrow> (mcapi_status \<times> mcapi_sys) option" where
  "mcapi_trans_cancel rq status = with_lock_unchecked (cancel_have_lock rq status)"

declare endpoint_get_loop.simps [simp del] wait_loop.simps [simp del] wait_any_loop.simps [simp del]

section \<open>Connectionless messages\<close>

text \<open>The channel type that a message endpoint must have.\<close>

definition no_channel :: "nat \<times> nat \<times> nat \<Rightarrow> mcapi_state \<Rightarrow> bool" where
  "no_channel p st = (case p of (d, n, e) \<Rightarrow> chan_type (queue_at st d n e) = MCAPI_NO_CHAN)"

definition mcapi_trans_msg_send_i ::
  "u32 \<Rightarrow> u32 \<Rightarrow> ptr \<Rightarrow> nat \<Rightarrow> mcapi_status \<Rightarrow> mcapi_sys \<Rightarrow> (started \<times> mcapi_sys) option" where
  "mcapi_trans_msg_send_i send_endpoint receive_endpoint buffer buffer_size status =
     with_lock (with_request (\<lambda>r st. do {
       (status, st) \<leftarrow> (if status = MCAPI_SUCCESS then do {
           sp \<leftarrow> mcapi_trans_decode_handle send_endpoint;
           (rd, rn, re) \<leftarrow> mcapi_trans_decode_handle receive_endpoint;
           mcapi_assert (no_channel sp st);
           mcapi_assert (no_channel (rd, rn, re) st);
           (sent, st) \<leftarrow> mcapi_trans_send_have_lock rd rn re buffer buffer_size 0 st;
           Some (if sent then status else MCAPI_ERR_MEM_LIMIT, st)
         } else Some (status, st));
       (rq, st) \<leftarrow> setup_request_have_lock receive_endpoint 0 status True buffer_size NoBuf SEND 0 0 0 r st;
       Some ((Some rq, MCAPI_SUCCESS), st)
     }))"

text \<open>
  The loop of the blocking operations: the non-blocking operation is repeated, with the status
  it left, while that status is the request limit. Other nodes may run between two rounds.
\<close>

fun until_request ::
  "(mcapi_status \<Rightarrow> mcapi_sys \<Rightarrow> (started \<times> mcapi_sys) option) \<Rightarrow> mcapi_status \<Rightarrow> (mcapi_state \<Rightarrow> mcapi_state) list
   \<Rightarrow> mcapi_sys \<Rightarrow> (u32 \<times> mcapi_status \<times> (mcapi_state \<Rightarrow> mcapi_state) list \<times> mcapi_sys) option" where
  "until_request op status env sys = do {
     ((rq, status), sys) \<leftarrow> op status sys;
     if status = MCAPI_ERR_REQUEST_LIMIT
     then (case env of [] \<Rightarrow> None | f # env \<Rightarrow> until_request op status env (env_step f sys))
     else do { rq \<leftarrow> rq; Some (rq, status, env, sys) }
   }"

declare until_request.simps [simp del]

text \<open>Start, then wait without a timeout. The results: success, and the value stored in \<open>*size\<close>.\<close>

definition start_and_wait ::
  "(mcapi_status \<Rightarrow> mcapi_sys \<Rightarrow> (started \<times> mcapi_sys) option) \<Rightarrow> nat \<Rightarrow> (mcapi_state \<Rightarrow> mcapi_state) list
   \<Rightarrow> mcapi_sys \<Rightarrow> ((bool \<times> nat) \<times> mcapi_sys) option" where
  "start_and_wait op sz env sys = do {
     (rq, status, env, sys) \<leftarrow> until_request op MCAPI_SUCCESS env sys;
     ((rc, rq, sz, status), sys) \<leftarrow> mcapi_trans_wait rq sz status MCA_INFINITE env sys;
     Some ((status = MCAPI_SUCCESS, sz), sys)
   }"

text \<open>\<open>size\<close> is a local variable of the send operations that no caller sees.\<close>

definition mcapi_trans_msg_send ::
  "u32 \<Rightarrow> u32 \<Rightarrow> ptr \<Rightarrow> nat \<Rightarrow> (mcapi_state \<Rightarrow> mcapi_state) list \<Rightarrow> mcapi_sys \<Rightarrow> (bool \<times> mcapi_sys) option" where
  "mcapi_trans_msg_send send_endpoint receive_endpoint buffer buffer_size env sys = do {
     ((ok, sz), sys) \<leftarrow> start_and_wait (mcapi_trans_msg_send_i send_endpoint receive_endpoint buffer buffer_size) 0 env sys;
     Some (ok, sys)
   }"

definition mcapi_trans_msg_recv_i ::
  "u32 \<Rightarrow> ptr \<Rightarrow> nat \<Rightarrow> mcapi_status \<Rightarrow> mcapi_sys \<Rightarrow> (started \<times> mcapi_sys) option" where
  "mcapi_trans_msg_recv_i receive_endpoint buffer buffer_size status =
     with_lock (with_request (\<lambda>r st. do {
       (compl, buffer_size, st) \<leftarrow> (if status = MCAPI_SUCCESS then do {
           (rd, rn, re) \<leftarrow> mcapi_trans_decode_handle receive_endpoint;
           mcapi_assert (no_channel (rd, rn, re) st);
           (got, st) \<leftarrow> mcapi_trans_recv_have_lock rd rn re (Local buffer) buffer_size False False [] st;
           Some (case got of Some (received_size, _) \<Rightarrow> (True, received_size, st) | None \<Rightarrow> (False, buffer_size, st))
         } else Some (True, buffer_size, st));
       (rq, st) \<leftarrow> setup_request_have_lock receive_endpoint 0 status compl buffer_size (Local buffer) RECV 0 0 0 r st;
       Some ((Some rq, status), st)
     }))"

definition mcapi_trans_msg_recv ::
  "u32 \<Rightarrow> ptr \<Rightarrow> nat \<Rightarrow> nat \<Rightarrow> (mcapi_state \<Rightarrow> mcapi_state) list \<Rightarrow> mcapi_sys \<Rightarrow> ((bool \<times> nat) \<times> mcapi_sys) option" where
  "mcapi_trans_msg_recv receive_endpoint buffer buffer_size received_size env sys =
     start_and_wait (mcapi_trans_msg_recv_i receive_endpoint buffer buffer_size) received_size env sys"

definition queue_count :: "u32 \<Rightarrow> mcapi_state \<Rightarrow> u32 option" where
  "queue_count endpoint = on_endpoint endpoint (\<lambda>ep. num_elements (recv_queue ep))"

definition mcapi_trans_msg_available :: "u32 \<Rightarrow> mcapi_sys \<Rightarrow> (u32 \<times> mcapi_sys) option" where
  "mcapi_trans_msg_available receive_endpoint = with_lock (reading (queue_count receive_endpoint))"

section \<open>Packet channels\<close>

text \<open>Connecting, opening and closing are the same code for packet and scalar channels.\<close>

definition connect_i ::
  "channel_type \<Rightarrow> mcapi_request_type \<Rightarrow> u32 \<Rightarrow> u32 \<Rightarrow> mcapi_status \<Rightarrow> mcapi_sys \<Rightarrow> (started \<times> mcapi_sys) option" where
  "connect_i ct rt send_endpoint receive_endpoint status = with_lock (with_request (\<lambda>r st. do {
     st \<leftarrow> (if status = MCAPI_SUCCESS
           then mcapi_trans_connect_channel_have_lock send_endpoint receive_endpoint ct st else Some st);
     (rq, st) \<leftarrow> setup_request_have_lock receive_endpoint 0 status True 0 NoBuf rt 0 0 0 r st;
     Some ((Some rq, status), st)
   }))"

text \<open>The first component of the result is the value stored in \<open>*recv_handle\<close> or \<open>*send_handle\<close>.\<close>

definition open_i ::
  "channel_type \<Rightarrow> mcapi_request_type \<Rightarrow> u32 \<Rightarrow> mcapi_status \<Rightarrow> mcapi_sys
   \<Rightarrow> ((u32 option \<times> started) \<times> mcapi_sys) option" where
  "open_i ct rt endpoint status = with_lock (\<lambda>st.
     case mcapi_trans_reserve_request_have_lock st of
       (Some r, st) \<Rightarrow> do {
         (compl, handle, st) \<leftarrow> (if status = MCAPI_SUCCESS then do {
             (d, n, e) \<leftarrow> mcapi_trans_decode_handle endpoint;
             let st = mcapi_trans_open_channel_have_lock d n e st;
             h \<leftarrow> mcapi_trans_encode_handle d n e;
             Some (chan_type (queue_at st d n e) = ct, Some h, st)
           } else Some (True, None, st));
         (rq, st) \<leftarrow> setup_request_have_lock endpoint 0 status compl 0 NoBuf rt 0 0 0 r st;
         Some ((handle, Some rq, status), st) }
     | (None, st) \<Rightarrow> Some ((None, None, MCAPI_ERR_REQUEST_LIMIT), st))"

definition close_i ::
  "mcapi_request_type \<Rightarrow> u32 \<Rightarrow> mcapi_status \<Rightarrow> mcapi_sys \<Rightarrow> (started \<times> mcapi_sys) option" where
  "close_i rt handle status = with_lock (with_request (\<lambda>r st. do {
     st \<leftarrow> (if status = MCAPI_SUCCESS then do {
             (d, n, e) \<leftarrow> mcapi_trans_decode_handle handle;
             Some (mcapi_trans_close_channel_have_lock d n e st)
           } else Some st);
     (rq, st) \<leftarrow> setup_request_have_lock handle 0 status True 0 NoBuf rt 0 0 0 r st;
     Some ((Some rq, status), st)
   }))"

definition mcapi_trans_pktchan_connect_i :: "u32 \<Rightarrow> u32 \<Rightarrow> mcapi_status \<Rightarrow> mcapi_sys \<Rightarrow> (started \<times> mcapi_sys) option" where
  "mcapi_trans_pktchan_connect_i = connect_i MCAPI_PKT_CHAN CONN_PKTCHAN"

definition mcapi_trans_pktchan_recv_open_i ::
  "u32 \<Rightarrow> mcapi_status \<Rightarrow> mcapi_sys \<Rightarrow> ((u32 option \<times> started) \<times> mcapi_sys) option" where
  "mcapi_trans_pktchan_recv_open_i = open_i MCAPI_PKT_CHAN OPEN_PKTCHAN"

definition mcapi_trans_pktchan_send_open_i ::
  "u32 \<Rightarrow> mcapi_status \<Rightarrow> mcapi_sys \<Rightarrow> ((u32 option \<times> started) \<times> mcapi_sys) option" where
  "mcapi_trans_pktchan_send_open_i = open_i MCAPI_PKT_CHAN OPEN_PKTCHAN"

text \<open>The receiving end of the channel that a handle's endpoint sends on.\<close>

definition channel_peer :: "u32 \<Rightarrow> mcapi_state \<Rightarrow> (nat \<times> nat \<times> nat) option" where
  "channel_peer send_handle st = do {
     (sd, sn, se) \<leftarrow> mcapi_trans_decode_handle send_handle;
     mcapi_trans_decode_handle (recv_endpt (queue_at st sd sn se))
   }"

definition mcapi_trans_pktchan_send_i ::
  "u32 \<Rightarrow> ptr \<Rightarrow> nat \<Rightarrow> mcapi_status \<Rightarrow> mcapi_sys \<Rightarrow> (started \<times> mcapi_sys) option" where
  "mcapi_trans_pktchan_send_i send_handle buffer sz status = with_lock (with_request (\<lambda>r st. do {
     (status, st) \<leftarrow> (if status = MCAPI_SUCCESS then do {
         (rd, rn, re) \<leftarrow> channel_peer send_handle st;
         (sent, st) \<leftarrow> mcapi_trans_send_have_lock rd rn re buffer sz 0 st;
         Some (if sent then status else MCAPI_ERR_MEM_LIMIT, st)
       } else Some (status, st));
     (rq, st) \<leftarrow> setup_request_have_lock send_handle 0 status True sz NoBuf SEND 0 0 0 r st;
     Some ((Some rq, MCAPI_SUCCESS), st)
   }))"

definition mcapi_trans_pktchan_send ::
  "u32 \<Rightarrow> ptr \<Rightarrow> nat \<Rightarrow> (mcapi_state \<Rightarrow> mcapi_state) list \<Rightarrow> mcapi_sys \<Rightarrow> (bool \<times> mcapi_sys) option" where
  "mcapi_trans_pktchan_send send_handle buffer sz env sys = do {
     ((ok, sz), sys) \<leftarrow> start_and_wait (mcapi_trans_pktchan_send_i send_handle buffer sz) sz env sys;
     Some (ok, sys)
   }"

text \<open>The buffer argument is the application's pointer variable at address \<open>a\<close>.\<close>

definition mcapi_trans_pktchan_recv_i ::
  "u32 \<Rightarrow> addr \<Rightarrow> mcapi_status \<Rightarrow> mcapi_sys \<Rightarrow> (started \<times> mcapi_sys) option" where
  "mcapi_trans_pktchan_recv_i receive_handle a status = with_lock (with_request (\<lambda>r st. do {
     (compl, sz, st) \<leftarrow> (if status = MCAPI_SUCCESS then do {
         (rd, rn, re) \<leftarrow> mcapi_trans_decode_handle receive_handle;
         let st = st\<lparr>user_ptrs := (user_ptrs st)(a := NULL)\<rparr>;
         (got, st) \<leftarrow> mcapi_trans_recv_have_lock rd rn re (Cell a) MCAPI_MAX_PKT_SIZE False False [] st;
         Some (case got of Some (received_size, _) \<Rightarrow> (True, received_size, st)
                         | None \<Rightarrow> (False, MCAPI_MAX_PKT_SIZE, st))
       } else Some (True, MCAPI_MAX_PKT_SIZE, st));
     (rq, st) \<leftarrow> setup_request_have_lock receive_handle 0 status compl sz (Cell a) RECV 0 0 0 r st;
     Some ((Some rq, status), st)
   }))"

definition mcapi_trans_pktchan_recv ::
  "u32 \<Rightarrow> addr \<Rightarrow> nat \<Rightarrow> (mcapi_state \<Rightarrow> mcapi_state) list \<Rightarrow> mcapi_sys \<Rightarrow> ((bool \<times> nat) \<times> mcapi_sys) option" where
  "mcapi_trans_pktchan_recv receive_handle a received_size env sys =
     start_and_wait (mcapi_trans_pktchan_recv_i receive_handle a) received_size env sys"

definition mcapi_trans_pktchan_available :: "u32 \<Rightarrow> mcapi_sys \<Rightarrow> (u32 \<times> mcapi_sys) option" where
  "mcapi_trans_pktchan_available receive_handle = with_lock (reading (queue_count receive_handle))"

text \<open>
  The entry of the pool is found by pointer arithmetic from its payload. For a pointer that is
  not the payload of a pool buffer the C code reads memory outside the pool, which is undefined.
\<close>

definition mcapi_trans_pktchan_free :: "ptr \<Rightarrow> mcapi_sys \<Rightarrow> (bool \<times> mcapi_sys) option" where
  "mcapi_trans_pktchan_free buffer = with_lock (\<lambda>st. case buffer of
       McapiBuf i \<Rightarrow> Some (if magic_num (buffers st i) = MAGIC_NUM
                           then (True, upd_buffer i (\<lambda>b. zero_buffer) st) else (False, st))
     | _ \<Rightarrow> None)"

definition mcapi_trans_pktchan_recv_close_i :: "u32 \<Rightarrow> mcapi_status \<Rightarrow> mcapi_sys \<Rightarrow> (started \<times> mcapi_sys) option" where
  "mcapi_trans_pktchan_recv_close_i = close_i CLOSE_PKTCHAN"

definition mcapi_trans_pktchan_send_close_i :: "u32 \<Rightarrow> mcapi_status \<Rightarrow> mcapi_sys \<Rightarrow> (started \<times> mcapi_sys) option" where
  "mcapi_trans_pktchan_send_close_i = close_i CLOSE_PKTCHAN"

section \<open>Scalar channels\<close>

definition mcapi_trans_sclchan_connect_i :: "u32 \<Rightarrow> u32 \<Rightarrow> mcapi_status \<Rightarrow> mcapi_sys \<Rightarrow> (started \<times> mcapi_sys) option" where
  "mcapi_trans_sclchan_connect_i = connect_i MCAPI_SCL_CHAN CONN_SCLCHAN"

definition mcapi_trans_sclchan_recv_open_i ::
  "u32 \<Rightarrow> mcapi_status \<Rightarrow> mcapi_sys \<Rightarrow> ((u32 option \<times> started) \<times> mcapi_sys) option" where
  "mcapi_trans_sclchan_recv_open_i = open_i MCAPI_SCL_CHAN OPEN_SCLCHAN"

definition mcapi_trans_sclchan_send_open_i ::
  "u32 \<Rightarrow> mcapi_status \<Rightarrow> mcapi_sys \<Rightarrow> ((u32 option \<times> started) \<times> mcapi_sys) option" where
  "mcapi_trans_sclchan_send_open_i = open_i MCAPI_SCL_CHAN OPEN_SCLCHAN"

definition mcapi_trans_sclchan_send :: "u32 \<Rightarrow> u64 \<Rightarrow> nat \<Rightarrow> mcapi_sys \<Rightarrow> (bool \<times> mcapi_sys) option" where
  "mcapi_trans_sclchan_send send_handle dataword sz = with_lock (\<lambda>st. do {
     (rd, rn, re) \<leftarrow> channel_peer send_handle st;
     mcapi_trans_send_have_lock rd rn re NULL sz dataword st
   })"

text \<open>The value stored in \<open>*data\<close> comes with the result; an item of another size is lost.\<close>

definition mcapi_trans_sclchan_recv ::
  "u32 \<Rightarrow> nat \<Rightarrow> (mcapi_state \<Rightarrow> mcapi_state) list \<Rightarrow> mcapi_sys \<Rightarrow> ((bool \<times> u64 option) \<times> mcapi_sys) option" where
  "mcapi_trans_sclchan_recv receive_handle sz env = with_lock (\<lambda>st. do {
     (rd, rn, re) \<leftarrow> mcapi_trans_decode_handle receive_handle;
     (got, st) \<leftarrow> mcapi_trans_recv_have_lock rd rn re NoBuf sz True True env st;
     Some (case got of Some (received_size, sc) \<Rightarrow> (received_size = sz, sc) | None \<Rightarrow> (False, None), st)
   })"

definition mcapi_trans_sclchan_available_i :: "u32 \<Rightarrow> mcapi_sys \<Rightarrow> (u32 \<times> mcapi_sys) option" where
  "mcapi_trans_sclchan_available_i receive_handle = with_lock (reading (queue_count receive_handle))"

definition mcapi_trans_sclchan_recv_close_i :: "u32 \<Rightarrow> mcapi_status \<Rightarrow> mcapi_sys \<Rightarrow> (started \<times> mcapi_sys) option" where
  "mcapi_trans_sclchan_recv_close_i = close_i CLOSE_SCLCHAN"

definition mcapi_trans_sclchan_send_close_i :: "u32 \<Rightarrow> mcapi_status \<Rightarrow> mcapi_sys \<Rightarrow> (started \<times> mcapi_sys) option" where
  "mcapi_trans_sclchan_send_close_i = close_i CLOSE_SCLCHAN"

end
