(* ===== verification/MRAPI_Types.thy ===== *)
theory MRAPI_Types
  imports MCAPI_Prelude
begin

text \<open>
  Data of the resource layer MRAPI: the status codes and enumerations of \<open>mrapi/include/mrapi.h\<close> and the
  shared-memory database of \<open>mrapi_impl_spec_data.h\<close>, with the names of its structures. Arrays indexed by
  resource or node are total functions whose bounds the operations check; the slots of one lock are a list of
  \<open>MRAPI_MAX_SHARED_LOCKS\<close> entries, so that a loop that leaves the array is undefined behaviour
  (\<open>None\<close>). Attribute bytes keep their width, because applications copy arbitrary bytes into them.
  Fields that no modelled operation reads (signal handlers, timers, the resource tree and its callbacks,
  the unused \<open>sys_sems\<close> and \<open>global_lock\<close>) are left out.
\<close>

section \<open>Status codes\<close>

datatype mrapi_status =
    MRAPI_SUCCESS | MRAPI_TIMEOUT | MRAPI_INCOMPLETE
  | MRAPI_ERR_ATTR_NUM | MRAPI_ERR_ATTR_READONLY | MRAPI_ERR_ATTR_SIZE
  | MRAPI_ERR_DOMAIN_INVALID | MRAPI_ERR_DOMAIN_NOTSHARED | MRAPI_ERR_MEM_LIMIT
  | MRAPI_ERR_MUTEX_DELETED | MRAPI_ERR_MUTEX_EXISTS | MRAPI_ERR_MUTEX_ID_INVALID
  | MRAPI_ERR_MUTEX_INVALID | MRAPI_ERR_MUTEX_KEY | MRAPI_ERR_MUTEX_LIMIT
  | MRAPI_ERR_MUTEX_LOCKED | MRAPI_ERR_MUTEX_LOCKORDER | MRAPI_ERR_MUTEX_NOTLOCKED
  | MRAPI_ERR_MUTEX_NOTVALID | MRAPI_ERR_NODE_INITFAILED | MRAPI_ERR_NODE_FINALFAILED
  | MRAPI_ERR_NODE_INITIALIZED | MRAPI_ERR_NODE_INVALID | MRAPI_ERR_NODE_NOTINIT
  | MRAPI_ERR_NOT_SUPPORTED | MRAPI_ERR_PARAMETER | MRAPI_ERR_REQUEST_CANCELED
  | MRAPI_ERR_REQUEST_INVALID | MRAPI_ERR_REQUEST_LIMIT | MRAPI_ERR_RMEM_ID_INVALID
  | MRAPI_ERR_RMEM_ATTACH | MRAPI_ERR_RMEM_ATTACHED | MRAPI_ERR_RMEM_ATYPE
  | MRAPI_ERR_RMEM_ATYPE_NOTVALID | MRAPI_ERR_RMEM_BLOCKED | MRAPI_ERR_RMEM_BUFF_OVERRUN
  | MRAPI_ERR_RMEM_CONFLICT | MRAPI_ERR_RMEM_EXISTS | MRAPI_ERR_RMEM_INVALID
  | MRAPI_ERR_RMEM_NOTATTACHED | MRAPI_ERR_RMEM_NOTOWNER | MRAPI_ERR_RMEM_STRIDE
  | MRAPI_ERR_RMEM_TYPENOTVALID | MRAPI_ERR_RSRC_COUNTER_INUSE | MRAPI_ERR_RSRC_INVALID
  | MRAPI_ERR_RSRC_INVALID_CALLBACK | MRAPI_ERR_RSRC_INVALID_EVENT | MRAPI_ERR_RSRC_INVALID_SUBSYSTEM
  | MRAPI_ERR_RSRC_INVALID_TREE | MRAPI_ERR_RSRC_NOTDYNAMIC | MRAPI_ERR_RSRC_NOTOWNER
  | MRAPI_ERR_RSRC_NOTSTARTED | MRAPI_ERR_RSRC_STARTED | MRAPI_ERR_RWL_DELETED
  | MRAPI_ERR_RWL_EXISTS | MRAPI_ERR_RWL_ID_INVALID | MRAPI_ERR_RWL_INVALID
  | MRAPI_ERR_RWL_LIMIT | MRAPI_ERR_RWL_LOCKED | MRAPI_ERR_RWL_NOTLOCKED
  | MRAPI_ERR_SEM_DELETED | MRAPI_ERR_SEM_EXISTS | MRAPI_ERR_SEM_ID_INVALID
  | MRAPI_ERR_SEM_INVALID | MRAPI_ERR_SEM_LIMIT | MRAPI_ERR_SEM_LOCKED
  | MRAPI_ERR_SEM_LOCKLIMIT | MRAPI_ERR_SEM_NOTLOCKED | MRAPI_ERR_SHM_ATTACHED
  | MRAPI_ERR_SHM_ATTCH | MRAPI_ERR_SHM_EXISTS | MRAPI_ERR_SHM_ID_INVALID
  | MRAPI_ERR_SHM_INVALID | MRAPI_ERR_SHM_NODES_INCOMPAT | MRAPI_ERR_SHM_NODE_NOTSHARED
  | MRAPI_ERR_SHM_NOTATTACHED

definition MRAPI_MAX_STATUS_SIZE :: nat where "MRAPI_MAX_STATUS_SIZE = 32"

text \<open>The names of \<open>mrapi_impl_display_status\<close>; a code without a case of its own gets the default.\<close>

primrec mrapi_status_name :: "mrapi_status \<Rightarrow> string" where
    "mrapi_status_name MRAPI_SUCCESS = ''MRAPI_SUCCESS''"
  | "mrapi_status_name MRAPI_TIMEOUT = ''MRAPI_TIMEOUT''"
  | "mrapi_status_name MRAPI_INCOMPLETE = ''MRAPI_INCOMPLETE''"
  | "mrapi_status_name MRAPI_ERR_ATTR_NUM = ''MRAPI_ERR_ATTR_NUM''"
  | "mrapi_status_name MRAPI_ERR_ATTR_READONLY = ''MRAPI_ERR_ATTR_READONLY''"
  | "mrapi_status_name MRAPI_ERR_ATTR_SIZE = ''MRAPI_ERR_ATTR_SIZE''"
  | "mrapi_status_name MRAPI_ERR_DOMAIN_INVALID = ''MRAPI_ERR_DOMAIN_INVALID''"
  | "mrapi_status_name MRAPI_ERR_DOMAIN_NOTSHARED = ''MRAPI_ERR_DOMAIN_NOTSHARED''"
  | "mrapi_status_name MRAPI_ERR_MEM_LIMIT = ''MRAPI_ERR_MEM_LIMIT''"
  | "mrapi_status_name MRAPI_ERR_MUTEX_DELETED = ''MRAPI_ERR_MUTEX_DELETED''"
  | "mrapi_status_name MRAPI_ERR_MUTEX_EXISTS = ''MRAPI_ERR_MUTEX_EXISTS''"
  | "mrapi_status_name MRAPI_ERR_MUTEX_ID_INVALID = ''MRAPI_ERR_MUTEX_ID_INVALID''"
  | "mrapi_status_name MRAPI_ERR_MUTEX_INVALID = ''MRAPI_ERR_MUTEX_INVALID''"
  | "mrapi_status_name MRAPI_ERR_MUTEX_KEY = ''MRAPI_ERR_MUTEX_KEY''"
  | "mrapi_status_name MRAPI_ERR_MUTEX_LIMIT = ''MRAPI_ERR_MUTEX_LIMIT''"
  | "mrapi_status_name MRAPI_ERR_MUTEX_LOCKED = ''MRAPI_ERR_MUTEX_LOCKED''"
  | "mrapi_status_name MRAPI_ERR_MUTEX_LOCKORDER = ''MRAPI_ERR_MUTEX_LOCKORDER''"
  | "mrapi_status_name MRAPI_ERR_MUTEX_NOTLOCKED = ''MRAPI_ERR_MUTEX_NOTLOCKED''"
  | "mrapi_status_name MRAPI_ERR_MUTEX_NOTVALID = ''MRAPI_ERR_MUTEX_NOTVALID''"
  | "mrapi_status_name MRAPI_ERR_NODE_FINALFAILED = ''MRAPI_ERR_NODE_FINALFAILED''"
  | "mrapi_status_name MRAPI_ERR_NODE_INITIALIZED = ''MRAPI_ERR_NODE_INITIALIZED''"
  | "mrapi_status_name MRAPI_ERR_NODE_INVALID = ''MRAPI_ERR_NODE_INVALID''"
  | "mrapi_status_name MRAPI_ERR_NODE_NOTINIT = ''MRAPI_ERR_NODE_NOTINIT''"
  | "mrapi_status_name MRAPI_ERR_NOT_SUPPORTED = ''MRAPI_ERR_NOT_SUPPORTED''"
  | "mrapi_status_name MRAPI_ERR_PARAMETER = ''MRAPI_ERR_PARAMETER''"
  | "mrapi_status_name MRAPI_ERR_REQUEST_CANCELED = ''MRAPI_ERR_REQUEST_CANCELED''"
  | "mrapi_status_name MRAPI_ERR_REQUEST_INVALID = ''MRAPI_ERR_REQUEST_INVALID''"
  | "mrapi_status_name MRAPI_ERR_REQUEST_LIMIT = ''MRAPI_ERR_REQUEST_LIMIT''"
  | "mrapi_status_name MRAPI_ERR_RMEM_ID_INVALID = ''MRAPI_ERR_RMEMID_INVALID''"
  | "mrapi_status_name MRAPI_ERR_RMEM_ATTACH = ''MRAPI_ERR_RMEM_ATTACH''"
  | "mrapi_status_name MRAPI_ERR_RMEM_ATTACHED = ''MRAPI_ERR_RMEM_ATTACHED''"
  | "mrapi_status_name MRAPI_ERR_RMEM_ATYPE = ''MRAPI_ERR_RMEM_ATYPE''"
  | "mrapi_status_name MRAPI_ERR_RMEM_ATYPE_NOTVALID = ''MRAPI_ERR_RMEM_ATYPE_NOTVALID''"
  | "mrapi_status_name MRAPI_ERR_RMEM_BLOCKED = ''MRAPI_ERR_RMEM_BLOCKED''"
  | "mrapi_status_name MRAPI_ERR_RMEM_BUFF_OVERRUN = ''MRAPI_ERR_RMEM_BUFF_OVERRUN''"
  | "mrapi_status_name MRAPI_ERR_RMEM_CONFLICT = ''MRAPI_ERR_RMEM_CONFLICT''"
  | "mrapi_status_name MRAPI_ERR_RMEM_EXISTS = ''MRAPI_ERR_RMEM_EXISTS''"
  | "mrapi_status_name MRAPI_ERR_RMEM_INVALID = ''MRAPI_ERR_RMEM_INVALID''"
  | "mrapi_status_name MRAPI_ERR_RMEM_NOTATTACHED = ''MRAPI_ERR_RMEM_NOTATTACHED''"
  | "mrapi_status_name MRAPI_ERR_RMEM_NOTOWNER = ''MRAPI_ERR_RMEM_NOTOWNER''"
  | "mrapi_status_name MRAPI_ERR_RMEM_STRIDE = ''MRAPI_ERR_RMEM_STRIDE''"
  | "mrapi_status_name MRAPI_ERR_RMEM_TYPENOTVALID = ''MRAPI_ERR_RMEM_TYPENOTVALID''"
  | "mrapi_status_name MRAPI_ERR_RSRC_COUNTER_INUSE = ''MRAPI_ERR_RSRC_COUNTER_INUSE''"
  | "mrapi_status_name MRAPI_ERR_RSRC_INVALID = ''MRAPI_ERR_RSRC_INVALID''"
  | "mrapi_status_name MRAPI_ERR_RSRC_INVALID_CALLBACK = ''MRAPI_ERR_RSRC_INVALID_CALLBACK''"
  | "mrapi_status_name MRAPI_ERR_RSRC_INVALID_EVENT = ''MRAPI_ERR_RSRC_INVALID_EVENT''"
  | "mrapi_status_name MRAPI_ERR_RSRC_INVALID_SUBSYSTEM = ''MRAPI_ERR_RSRC_INVALID_SUBSYSTEM''"
  | "mrapi_status_name MRAPI_ERR_RSRC_INVALID_TREE = ''MRAPI_ERR_RSRC_INVALID_TREE''"
  | "mrapi_status_name MRAPI_ERR_RSRC_NOTDYNAMIC = ''MRAPI_ERR_RSRC_NOTDYNAMIC''"
  | "mrapi_status_name MRAPI_ERR_RSRC_NOTOWNER = ''MRAPI_ERR_RSRC_NOTOWNER''"
  | "mrapi_status_name MRAPI_ERR_RSRC_NOTSTARTED = ''MRAPI_ERR_RSRC_NOTSTARTED''"
  | "mrapi_status_name MRAPI_ERR_RSRC_STARTED = ''MRAPI_ERR_RSRC_STARTED''"
  | "mrapi_status_name MRAPI_ERR_RWL_DELETED = ''MRAPI_ERR_RWL_DELETED''"
  | "mrapi_status_name MRAPI_ERR_RWL_EXISTS = ''MRAPI_ERR_RWL_EXISTS''"
  | "mrapi_status_name MRAPI_ERR_RWL_ID_INVALID = ''MRAPI_ERR_RWL_ID_INVALID''"
  | "mrapi_status_name MRAPI_ERR_RWL_INVALID = ''MRAPI_ERR_RWL_INVALID''"
  | "mrapi_status_name MRAPI_ERR_RWL_LIMIT = ''MRAPI_ERR_RWL_LIMIT''"
  | "mrapi_status_name MRAPI_ERR_RWL_LOCKED = ''MRAPI_ERR_RWL_LOCKED''"
  | "mrapi_status_name MRAPI_ERR_RWL_NOTLOCKED = ''MRAPI_ERR_RWL_NOTLOCKED''"
  | "mrapi_status_name MRAPI_ERR_SEM_DELETED = ''MRAPI_ERR_SEM_DELETED''"
  | "mrapi_status_name MRAPI_ERR_SEM_EXISTS = ''MRAPI_ERR_SEM_EXISTS''"
  | "mrapi_status_name MRAPI_ERR_SEM_ID_INVALID = ''MRAPI_ERR_SEM_ID_INVALID''"
  | "mrapi_status_name MRAPI_ERR_SEM_INVALID = ''MRAPI_ERR_SEM_INVALID''"
  | "mrapi_status_name MRAPI_ERR_SEM_LIMIT = ''MRAPI_ERR_SEM_LIMIT''"
  | "mrapi_status_name MRAPI_ERR_SEM_LOCKED = ''MRAPI_ERR_SEM_LOCKED''"
  | "mrapi_status_name MRAPI_ERR_SEM_LOCKLIMIT = ''MRAPI_ERR_SEM_LOCKLIMIT''"
  | "mrapi_status_name MRAPI_ERR_SEM_NOTLOCKED = ''MRAPI_ERR_SEM_NOTLOCKED''"
  | "mrapi_status_name MRAPI_ERR_SHM_ATTACHED = ''MRAPI_ERR_SHMEM_ATTACHED''"
  | "mrapi_status_name MRAPI_ERR_SHM_ATTCH = ''MRAPI_ERR_SHMEM_ATTCH''"
  | "mrapi_status_name MRAPI_ERR_SHM_EXISTS = ''MRAPI_ERR_SHMEM_EXISTS''"
  | "mrapi_status_name MRAPI_ERR_SHM_ID_INVALID = ''MRAPI_ERR_SHMEM_ID_INVALID''"
  | "mrapi_status_name MRAPI_ERR_SHM_INVALID = ''MRAPI_ERR_SHM_INVALID''"
  | "mrapi_status_name MRAPI_ERR_SHM_NODES_INCOMPAT = ''MRAPI_ERR_SHM_NODES_INCOMPAT''"
  | "mrapi_status_name MRAPI_ERR_SHM_NODE_NOTSHARED = ''MRAPI_ERR_SHM_NODE_NOTSHARED''"
  | "mrapi_status_name MRAPI_ERR_SHM_NOTATTACHED = ''MRAPI_ERR_SHM_NOTATTACHED''"
  | "mrapi_status_name MRAPI_ERR_NODE_INITFAILED = ''UNKNOWN ERROR''"

text \<open>
  \<open>memset\<close> and \<open>strcpy\<close> into a buffer of \<open>size\<close> characters, \<open>None\<close> where the
  terminating zero is written past its end. The result is the buffer; a buffer below the documented size or
  a null pointer is left alone.
\<close>

definition mrapi_impl_display_status :: "mrapi_status \<Rightarrow> string option \<Rightarrow> nat \<Rightarrow> string option option" where
  "mrapi_impl_display_status status status_message size_of =
     (case status_message of None \<Rightarrow> Some None
      | Some buf \<Rightarrow>
        if size_of < MRAPI_MAX_STATUS_SIZE then Some (Some buf)
        else if size_of < length (mrapi_status_name status) + 1 then None
        else Some (Some (mrapi_status_name status @ replicate (size_of - length (mrapi_status_name status)) (char_of (0::nat)))))"


section \<open>Limits\<close>

definition MRAPI_MAX_NODES :: nat where "MRAPI_MAX_NODES = 16"
definition MRAPI_MAX_DOMAINS :: nat where "MRAPI_MAX_DOMAINS = 2"
definition MRAPI_MAX_SEMS :: nat where "MRAPI_MAX_SEMS = 128"
definition MRAPI_MAX_SHMEMS :: nat where "MRAPI_MAX_SHMEMS = 10"
definition MRAPI_MAX_RMEMS :: nat where "MRAPI_MAX_RMEMS = 10"
definition MRAPI_MAX_REQUESTS :: nat where "MRAPI_MAX_REQUESTS = 1024"
definition MRAPI_MAX_SHARED_LOCKS :: nat where "MRAPI_MAX_SHARED_LOCKS = 32"

text \<open>\<open>~0\<close> as an unsigned timeout, and \<open>0xffffffff\<close> as a key of type \<open>int\<close>.\<close>

definition MRAPI_TIMEOUT_INFINITE :: u32 where "MRAPI_TIMEOUT_INFINITE = - 1"
definition MRAPI_SEM_ID_ANY :: int where "MRAPI_SEM_ID_ANY = - 1"

section \<open>The database\<close>

datatype lock_type = RWL | SEM | MUTEX

datatype mrapi_rwl_mode = MRAPI_RWL_READER | MRAPI_RWL_WRITER

datatype mrapi_rmem_atype = MRAPI_RMEM_DMA | MRAPI_RMEM_SWCACHE | MRAPI_RMEM_DUMMY

text \<open>The address, the size and the resource are the bytes that the application passes; the sizes are those of 64-bit systems.\<close>

record mrapi_attributes =
  ext_error_checking :: byte
  shared_across_domains :: byte
  recursive :: byte
  mem_addr :: "byte list"
  mem_size :: "byte list"
  mem_resource :: "byte list"

definition sizeof_mem_addr :: nat where "sizeof_mem_addr = 8"
definition sizeof_mem_size :: nat where "sizeof_mem_size = 4"
definition sizeof_mrapi_resource_t :: nat where "sizeof_mrapi_resource_t = 64"

record mrapi_lock =
  l_valid :: bool
  l_locked :: bool
  lock_holder_nindex :: byte
  lock_holder_dindex :: byte
  lock_key :: u32

text \<open>
  The counter and the limit of an entry are 32-bit integers in the code and integers here: what is compared or passed on as
  unsigned is reduced where the code does it (\<open>unsigned_bound\<close>), and in every table that calls can reach both lie between 0
  and 32, so that the sums and differences do not overflow.
\<close>

record mrapi_sem =
  s_handle :: u32
  num_locks :: int
  locks :: "mrapi_lock list"
  s_key :: int
  s_id :: int
  shared_lock_limit :: int
  s_type :: lock_type
  s_attributes :: mrapi_attributes
  s_valid :: bool
  s_deleted :: bool
  s_refs :: byte

record mrapi_shmem =
  m_valid :: bool
  m_key :: u32
  m_id :: u32
  m_addr :: addr
  m_attributes :: mrapi_attributes
  m_refs :: byte

record mrapi_rmem =
  r_valid :: bool
  access_type :: mrapi_rmem_atype
  r_key :: int
  r_addr :: addr
  r_size :: nat
  r_attributes :: mrapi_attributes
  r_refs :: byte
  r_nodes :: "byte carray"

record mrapi_node_data =
  n_valid :: bool
  n_pid :: int
  n_node_num :: u32
  n_sems :: "byte carray"
  n_shmems :: "byte carray"

record mrapi_domain_data =
  d_valid :: bool
  d_num_nodes :: byte
  d_domain_id :: u32
  d_nodes :: "mrapi_node_data carray"

record mrapi_request_data =
  q_valid :: bool
  q_completed :: bool
  q_cancelled :: bool
  q_node_num :: u32
  q_domain_id :: u32
  q_status :: mrapi_status

record mrapi_database =
  num_sems :: byte
  num_shmems :: byte
  num_rmems :: byte
  m_shmems :: "mrapi_shmem carray"
  m_sems :: "mrapi_sem carray"
  m_rmems :: "mrapi_rmem carray"
  m_domains :: "mrapi_domain_data carray"
  m_requests :: "mrapi_request_data carray"

text \<open>What \<open>memset(..., 0, ...)\<close> leaves in the structures.\<close>

definition no_attributes :: mrapi_attributes where
  "no_attributes = \<lparr>ext_error_checking = 0, shared_across_domains = 0, recursive = 0, mem_addr = replicate sizeof_mem_addr 0,
     mem_size = replicate sizeof_mem_size 0, mem_resource = replicate sizeof_mrapi_resource_t 0\<rparr>"

definition zero_lock :: mrapi_lock where
  "zero_lock = \<lparr>l_valid = False, l_locked = False, lock_holder_nindex = 0, lock_holder_dindex = 0, lock_key = 0\<rparr>"

definition zero_sem :: mrapi_sem where
  "zero_sem = \<lparr>s_handle = 0, num_locks = 0, locks = replicate MRAPI_MAX_SHARED_LOCKS zero_lock, s_key = 0, s_id = 0,
     shared_lock_limit = 0, s_type = RWL, s_attributes = no_attributes, s_valid = False, s_deleted = False, s_refs = 0\<rparr>"

definition zero_shmem :: mrapi_shmem where
  "zero_shmem = \<lparr>m_valid = False, m_key = 0, m_id = 0, m_addr = 0, m_attributes = no_attributes, m_refs = 0\<rparr>"

definition zero_mrequest :: mrapi_request_data where
  "zero_mrequest = \<lparr>q_valid = False, q_completed = False, q_cancelled = False, q_node_num = 0, q_domain_id = 0,
     q_status = MRAPI_SUCCESS\<rparr>"

definition zero_node :: mrapi_node_data where
  "zero_node = \<lparr>n_valid = False, n_pid = 0, n_node_num = 0, n_sems = (\<lambda>_. 0), n_shmems = (\<lambda>_. 0)\<rparr>"

definition zero_rmem :: mrapi_rmem where
  "zero_rmem = \<lparr>r_valid = False, access_type = MRAPI_RMEM_DMA, r_key = 0, r_addr = 0, r_size = 0,
     r_attributes = no_attributes, r_refs = 0, r_nodes = (\<lambda>_. 0)\<rparr>"

definition zero_database :: mrapi_database where
  "zero_database = \<lparr>num_sems = 0, num_shmems = 0, num_rmems = 0, m_shmems = (\<lambda>_. zero_shmem), m_sems = (\<lambda>_. zero_sem),
     m_rmems = (\<lambda>_. zero_rmem), m_domains = (\<lambda>_. \<lparr>d_valid = False, d_num_nodes = 0, d_domain_id = 0, d_nodes = (\<lambda>_. zero_node)\<rparr>),
     m_requests = (\<lambda>_. zero_mrequest)\<rparr>"

abbreviation upd_sem :: "nat \<Rightarrow> (mrapi_sem \<Rightarrow> mrapi_sem) \<Rightarrow> mrapi_database \<Rightarrow> mrapi_database" where
  "upd_sem s f db \<equiv> db\<lparr>m_sems := (m_sems db)(s := f (m_sems db s))\<rparr>"

abbreviation upd_mnode :: "nat \<Rightarrow> nat \<Rightarrow> (mrapi_node_data \<Rightarrow> mrapi_node_data) \<Rightarrow> mrapi_database \<Rightarrow> mrapi_database" where
  "upd_mnode d n f db \<equiv> db\<lparr>m_domains := (m_domains db)(d := (m_domains db d)
     \<lparr>d_nodes := (d_nodes (m_domains db d))(n := f (d_nodes (m_domains db d) n))\<rparr>)\<rparr>"

section \<open>Every status fits the documented buffer but one\<close>

lemma mrapi_status_name_fits:
  "status \<noteq> MRAPI_ERR_RSRC_INVALID_SUBSYSTEM \<Longrightarrow> length (mrapi_status_name status) < MRAPI_MAX_STATUS_SIZE"
  by (cases status) (simp_all add: MRAPI_MAX_STATUS_SIZE_def)

lemma display_status_overflow:
  "mrapi_impl_display_status status (Some buf) MRAPI_MAX_STATUS_SIZE = None \<longleftrightarrow> status = MRAPI_ERR_RSRC_INVALID_SUBSYSTEM"
proof (cases "status = MRAPI_ERR_RSRC_INVALID_SUBSYSTEM")
  case False
  with mrapi_status_name_fits [OF False] show ?thesis
    by (simp add: mrapi_impl_display_status_def MRAPI_MAX_STATUS_SIZE_def)
qed (simp add: mrapi_impl_display_status_def MRAPI_MAX_STATUS_SIZE_def)

end
