(* ===== verification/MCAPI_Lifecycle.thy ===== *)
theory MCAPI_Lifecycle
  imports MCAPI_Operations MRAPI_Types
begin

text \<open>
  Starting and stopping a node (\<open>transport_sm_initialize.c\<close>, \<open>transport_sm_finalize.c\<close>,
  \<open>transport_sm_signal.c\<close>), the wrapper of the resource layer
  (\<open>transport_sm_mrapi_body.c\<close>) and the node attributes (\<open>transport_sm_attributes.c\<close>).
  The calls into the resource layer (MRAPI) are seen only through the status they
  return: the record \<open>mrapi_calls\<close> holds these, and no law about them is assumed. \<open>lock_remains\<close> says
  whether the calls on the lock still work after \<open>mrapi_finalize\<close>, which they do as long as the
  process has another node (\<open>MRAPI_Starting\<close>).
\<close>

section \<open>The resource layer\<close>

record mrapi_calls =
  initialize_status :: mrapi_status
  rwl_create_status :: mrapi_status
  rwl_get_status :: mrapi_status
  shmem_get_status :: mrapi_status
  shmem_create_status :: mrapi_status
  shmem_attach_status :: mrapi_status
  shmem_detach_status :: mrapi_status
  shmem_delete_status :: mrapi_status
  rwl_lock_status :: mrapi_status
  rwl_delete_status :: mrapi_status
  finalize_status :: mrapi_status
  lock_remains :: bool

definition transport_sm_create_rwl :: "mrapi_calls \<Rightarrow> bool" where
  "transport_sm_create_rwl m =
     ((if rwl_create_status m = MRAPI_ERR_RWL_EXISTS then rwl_get_status m else rwl_create_status m) = MRAPI_SUCCESS)"

definition transport_sm_initialize :: "mrapi_calls \<Rightarrow> bool" where
  "transport_sm_initialize m =
     (if initialize_status m = MRAPI_SUCCESS \<or> initialize_status m = MRAPI_ERR_NODE_INITIALIZED
      then transport_sm_create_rwl m else False)"

definition transport_sm_get_shared_mem :: "mrapi_calls \<Rightarrow> bool" where
  "transport_sm_get_shared_mem m =
     (shmem_get_status m = MRAPI_SUCCESS \<and> shmem_attach_status m = MRAPI_SUCCESS)"

definition transport_sm_create_shared_mem :: "mrapi_calls \<Rightarrow> bool" where
  "transport_sm_create_shared_mem m =
     (shmem_create_status m = MRAPI_SUCCESS \<and> shmem_attach_status m = MRAPI_SUCCESS)"

text \<open>The lock is lost when it is deleted, and may be lost when the node leaves the resource layer.\<close>

definition transport_sm_finalize :: "mrapi_calls \<Rightarrow> bool \<Rightarrow> bool \<Rightarrow> bool \<Rightarrow> mcapi_sys \<Rightarrow> bool \<times> mcapi_sys" where
  "transport_sm_finalize m last_man_standing last_man_standing_for_this_process finalize_mrapi sys =
     (let rc = (shmem_detach_status m = MRAPI_SUCCESS);
          (rc, sys) = (if last_man_standing
             then (rc \<and> shmem_delete_status m = MRAPI_SUCCESS \<and> rwl_lock_status m = MRAPI_SUCCESS \<and>
                     rwl_delete_status m = MRAPI_SUCCESS,
                   if rwl_lock_status m = MRAPI_SUCCESS \<and> rwl_delete_status m = MRAPI_SUCCESS
                   then sys\<lparr>rwl_ok := False\<rparr> else sys)
             else (rc, sys))
      in if finalize_mrapi
         then (rc \<and> finalize_status m = MRAPI_SUCCESS,
               if finalize_status m = MRAPI_SUCCESS then sys\<lparr>rwl_ok := rwl_ok sys \<and> lock_remains m\<rparr> else sys)
         else (rc, sys))"

section \<open>Initialization\<close>

definition clear_valid :: "mcapi_state \<Rightarrow> mcapi_state" where
  "clear_valid st = st\<lparr>domains := (\<lambda>d. if d < MCA_MAX_DOMAINS
     then (domains st d)\<lparr>domain_valid := False, nodes := (\<lambda>n. if n < MCA_MAX_NODES
       then (nodes (domains st d) n)\<lparr>node_valid := False\<rparr> else nodes (domains st d) n)\<rparr>
     else domains st d)\<rparr>"

text \<open>
  Attaching to the database, or creating it: new memory holds the unknown contents \<open>fresh\<close>, of
  which only the database counts; the application's own memory stays as it is.
\<close>

definition new_database :: "mcapi_state \<Rightarrow> mcapi_state \<Rightarrow> mcapi_state" where
  "new_database fresh st = fresh\<lparr>user_bytes := user_bytes st, user_ptrs := user_ptrs st, user_endpts := user_endpts st\<rparr>"

definition attach_database :: "mrapi_calls \<Rightarrow> mcapi_state \<Rightarrow> mcapi_sys \<Rightarrow> bool \<times> mcapi_sys" where
  "attach_database m fresh sys =
     (if transport_sm_get_shared_mem m then (True, sys\<lparr>db_attached := True\<rparr>)
      else if transport_sm_create_shared_mem m
      then (True, sys\<lparr>db_attached := True, shm := mcapi_trans_init_indexed_array_have_lock (clear_valid (new_database fresh (shm sys)))\<rparr>)
      else (False, sys))"

text \<open>The search for a domain looks at its id only, also in entries that are not valid.\<close>

definition find_domain :: "u32 \<Rightarrow> mcapi_state \<Rightarrow> nat" where
  "find_domain domid st =
     (let d = for_first (\<lambda>d. domain_id (domains st d) = domid) 0 MCA_MAX_DOMAINS
      in if d = MCA_MAX_DOMAINS then for_first (\<lambda>d. \<not> domain_valid (domains st d)) 0 MCA_MAX_DOMAINS else d)"

text \<open>\<open>None\<close>: the node exists already, or there is no free domain or node entry.\<close>

definition find_node_entry :: "u32 \<Rightarrow> u32 \<Rightarrow> mcapi_state \<Rightarrow> (nat \<times> nat) option" where
  "find_node_entry domid node st =
     (let d = find_domain domid st in
      if d = MCA_MAX_DOMAINS then None
      else if for_first (\<lambda>n. node_valid (node_at st d n) \<and> node_num (node_at st d n) = node) 0 MCA_MAX_NODES
              < MCA_MAX_NODES then None
      else let n = for_first (\<lambda>n. \<not> node_valid (node_at st d n)) 0 MCA_MAX_NODES
           in if n = MCA_MAX_NODES then None else Some (d, n))"

definition init_node_entry :: "u32 \<Rightarrow> int \<Rightarrow> int \<Rightarrow> attribute_entry carray option \<Rightarrow> node_entry \<Rightarrow> node_entry" where
  "init_node_entry node p t attrs nd =
     (let attributes = (case attrs of Some a \<Rightarrow> a | None \<Rightarrow> node_attributes nd) in
      nd\<lparr>node_valid := True, node_num := node, pid := p, tid := t,
         node_attributes := attributes(MCAPI_NODE_ATTR_TYPE_REGULAR :=
           (attributes MCAPI_NODE_ATTR_TYPE_REGULAR)\<lparr>attr_bytes := sizeof_mcapi_node_attr_type_t\<rparr>),
         node_d := (node_d nd)\<lparr>endpoints := (\<lambda>i. if i < MCAPI_MAX_ENDPOINTS then zero_endpoint
                                                    else endpoints (node_d nd) i)\<rparr>\<rparr>)"

definition add_node ::
  "nat \<Rightarrow> nat \<Rightarrow> u32 \<Rightarrow> u32 \<Rightarrow> int \<Rightarrow> int \<Rightarrow> attribute_entry carray option \<Rightarrow> mcapi_state \<Rightarrow> mcapi_state" where
  "add_node d n domid node p t attrs st =
     upd_node d n (init_node_entry node p t attrs)
       (st\<lparr>domains := (domains st)(d := (domains st d)\<lparr>domain_id := domid, domain_valid := True,
                                       num_nodes := num_nodes (domains st d) + 1\<rparr>)\<rparr>)"

text \<open>
  The whole of \<open>mcapi_trans_initialize\<close>, signal handlers aside. The two loops at its start wait
  until no thread initializes and none finalizes; a call that finds a counter set does not
  return as long as nobody resets it, and is \<open>None\<close> here.
\<close>

definition mcapi_trans_initialize ::
  "mrapi_calls \<Rightarrow> mcapi_state \<Rightarrow> int \<Rightarrow> int \<Rightarrow> u32 \<Rightarrow> u32 \<Rightarrow> attribute_entry carray option \<Rightarrow> mcapi_sys
   \<Rightarrow> (bool \<times> mcapi_sys) option" where
  "mcapi_trans_initialize m fresh p t domid node attrs sys = do {
     mcapi_assert (initialize_ctr sys = 0);
     let sys = sys\<lparr>initialize_ctr := 1\<rparr>;
     mcapi_assert (finalize_ctr sys = 0);
     let rc = transport_sm_initialize m;
     let sys = (if rc then sys\<lparr>rwl_ok := True\<rparr> else sys);
     (rc, sys) \<leftarrow> (if rc then mcapi_trans_access_database_pre sys else Some (False, sys));
     if \<not> rc then Some (False, sys\<lparr>initialize_ctr := 0\<rparr>)
     else do {
       let (rc, sys) = attach_database m fresh sys;
       let (rc, sys) = (if \<not> rc then (False, sys)
          else case find_node_entry domid node (shm sys) of
            None \<Rightarrow> (False, sys)
          | Some (d, n) \<Rightarrow>
              (True, sys\<lparr>my_pid := p, my_tid := t, my_nindex := n, my_node_num := node, my_domain_id := domid,
                         my_dindex := d, shm := add_node d n domid node p t attrs (shm sys)\<rparr>));
       (ok, sys) \<leftarrow> mcapi_trans_access_database_post sys;
       mcapi_assert ok;
       Some (rc, sys\<lparr>initialize_ctr := 0\<rparr>)
     }
   }"

section \<open>Finalization and signals\<close>

definition any_node :: "(node_entry \<Rightarrow> bool) \<Rightarrow> mcapi_state \<Rightarrow> bool" where
  "any_node p st \<longleftrightarrow> (\<exists>d\<in>set [0..<MCA_MAX_DOMAINS]. \<exists>n\<in>set [0..<MCA_MAX_NODES]. p (node_at st d n))"

text \<open>Marking the caller invalid; the results: it was the last node at all, the last of its process.\<close>

definition retire_node :: "int \<Rightarrow> mcapi_sys \<Rightarrow> mcapi_state \<Rightarrow> ((bool \<times> bool) \<times> mcapi_state) option" where
  "retire_node p sys st = do {
     (node, n, domid, d) \<leftarrow> mcapi_trans_whoami sys;
     let st = upd_node d n (\<lambda>nd. nd\<lparr>node_valid := False\<rparr>) st;
     Some ((\<not> any_node node_valid st, \<not> any_node (\<lambda>nd. node_valid nd \<and> pid nd = p) st), st)
   }"

definition mcapi_trans_finalize :: "mrapi_calls \<Rightarrow> int \<Rightarrow> mcapi_sys \<Rightarrow> (bool \<times> mcapi_sys) option" where
  "mcapi_trans_finalize m p sys = do {
     mcapi_assert (finalize_ctr sys = 0);
     let sys = sys\<lparr>finalize_ctr := 1\<rparr>;
     mcapi_assert (initialize_ctr sys = 0);
     if \<not> db_attached sys then Some (False, sys)
     else do {
       ((last_man, last_for_process), sys) \<leftarrow> with_lock (retire_node p sys) sys;
       let (rc, sys) = transport_sm_finalize m last_man last_for_process True sys;
       let sys = (if last_for_process then sys\<lparr>db_attached := False\<rparr> else sys);
       Some (rc, sys\<lparr>finalize_ctr := 0\<rparr>)
     }
   }"

text \<open>
  The effect of the signal handler on the database: all nodes of the process become invalid and
  the shared memory is detached, or deleted when no other process has a node.
\<close>

definition retire_process :: "mcapi_sys \<Rightarrow> mcapi_state \<Rightarrow> bool \<times> mcapi_state" where
  "retire_process sys st =
     (let st = upd_node (my_dindex sys) (my_nindex sys) (\<lambda>nd. nd\<lparr>node_valid := False\<rparr>) st;
          last_man = (\<not> any_node (\<lambda>nd. node_valid nd \<and> pid nd \<noteq> my_pid sys) st);
          st = st\<lparr>domains := (\<lambda>d. if d < MCA_MAX_DOMAINS
            then (domains st d)\<lparr>nodes := (\<lambda>n. if n < MCA_MAX_NODES \<and> pid (nodes (domains st d) n) = my_pid sys
                then (nodes (domains st d) n)\<lparr>node_valid := False\<rparr> else nodes (domains st d) n)\<rparr>
            else domains st d)\<rparr>
      in (last_man, st))"

definition mcapi_trans_signal_handler :: "mrapi_calls \<Rightarrow> mcapi_sys \<Rightarrow> mcapi_sys option" where
  "mcapi_trans_signal_handler m sys = do {
     (got_lock, sys) \<leftarrow> mcapi_trans_access_database_pre sys;
     let (last_man, sys) = (if db_attached sys \<and> my_pid sys \<noteq> -1
        then (let (l, st) = retire_process sys (shm sys) in (l, sys\<lparr>shm := st\<rparr>)) else (True, sys));
     (ok, sys) \<leftarrow> (if got_lock then mcapi_trans_access_database_post sys else Some (True, sys));
     Some (snd (transport_sm_finalize m last_man True False sys))
   }"

section \<open>Node attributes\<close>

text \<open>
  \<open>memset\<close> with the size of a pointer clears eight bytes: \<open>valid\<close>, \<open>attribute_num\<close> and \<open>bytes\<close>
  of the first entry.
\<close>

definition mcapi_trans_node_init_attributes :: "attribute_entry carray \<Rightarrow> attribute_entry carray" where
  "mcapi_trans_node_init_attributes attrs =
     attrs(0 := (attrs 0)\<lparr>attr_valid := False, attribute_num := 0, attr_bytes := 0\<rparr>)"

text \<open>Reading an attribute: its value, or the error.\<close>

definition mcapi_trans_node_get_attribute ::
  "u32 \<Rightarrow> u32 \<Rightarrow> nat \<Rightarrow> nat \<Rightarrow> mcapi_sys \<Rightarrow> ((mcapi_status + u32) \<times> mcapi_sys) option" where
  "mcapi_trans_node_get_attribute domid node attribute attribute_size sys =
     (if mcapi_trans_whoami sys = None then Some (Inl MCAPI_ERR_NODE_NOTINIT, sys)
      else if attribute \<noteq> MCAPI_NODE_ATTR_TYPE_REGULAR then Some (Inl MCAPI_ERR_ATTR_NOTSUPPORTED, sys)
      else with_lock (reading (\<lambda>st. Some (
        let d = for_first (\<lambda>d. domain_id (domains st d) = domid) 0 MCA_MAX_DOMAINS;
            n = for_first (\<lambda>n. node_num (node_at st d n) = node) 0 MCA_MAX_NODES
        in if d = MCA_MAX_DOMAINS then Inl MCAPI_ERR_DOMAIN_INVALID
           else if n = MCA_MAX_NODES then Inl MCAPI_ERR_NODE_INVALID
           else if \<not> domain_valid (domains st d) then Inl MCAPI_ERR_DOMAIN_INVALID
           else if \<not> node_valid (node_at st d n) then Inl MCAPI_ERR_NODE_INVALID
           else if attr_bytes (node_attributes (node_at st d n) attribute) \<noteq> attribute_size then Inl MCAPI_ERR_ATTR_SIZE
           else Inr (attribute_d (node_attributes (node_at st d n) attribute))))) sys)"

definition mcapi_trans_node_set_attribute ::
  "attribute_entry carray \<Rightarrow> nat \<Rightarrow> u32 \<Rightarrow> nat \<Rightarrow> mcapi_status + attribute_entry carray" where
  "mcapi_trans_node_set_attribute attrs attribute v attribute_size =
     (if attribute \<noteq> MCAPI_NODE_ATTR_TYPE_REGULAR then Inl MCAPI_ERR_ATTR_NOTSUPPORTED
      else if attribute_size \<noteq> sizeof_mcapi_node_attr_type_t then Inl MCAPI_ERR_ATTR_SIZE
      else Inr (attrs(attribute := (attrs attribute)\<lparr>attribute_d := v\<rparr>)))"

end
