(* ===== verification/MCAPI_API.thy ===== *)
theory MCAPI_API
  imports MCAPI_Lifecycle
begin

text \<open>
  The interface of the library, \<open>mcapi.c\<close>: every function checks its arguments in a fixed order,
  reports the first violation in the status, and calls the transport. The check functions lock
  the database one after the other. A pointer argument that the code compares with \<open>NULL\<close> is a
  \<open>bool\<close> (\<open>request_given\<close>, \<open>size_given\<close>) or an optional address. The status pointer itself
  is never \<open>NULL\<close>.
\<close>

section \<open>Argument checks\<close>

type_synonym check = "mcapi_sys \<Rightarrow> (bool \<times> mcapi_sys) option"

definition const_check :: "bool \<Rightarrow> check" where
  "const_check b sys = Some (b, sys)"

definition not_check :: "check \<Rightarrow> check" where
  "not_check c sys = map_option (\<lambda>(b, sys). (\<not> b, sys)) (c sys)"

definition or_check :: "check \<Rightarrow> check \<Rightarrow> check" where
  "or_check c1 c2 sys = do { (b, sys) \<leftarrow> c1 sys; if b then Some (True, sys) else c2 sys }"

text \<open>\<open>if (c1) *status = e1; else if (c2) *status = e2; ...\<close> on a status \<open>MCAPI_SUCCESS\<close>.\<close>

fun first_error :: "(check \<times> mcapi_status) list \<Rightarrow> mcapi_sys \<Rightarrow> (mcapi_status \<times> mcapi_sys) option" where
  "first_error [] sys = Some (MCAPI_SUCCESS, sys)"
| "first_error ((c, err) # cs) sys = do { (b, sys) \<leftarrow> c sys; if b then Some (err, sys) else first_error cs sys }"

definition channel_type_is :: "channel_type \<Rightarrow> u32 \<Rightarrow> check" where
  "channel_type_is ct endpoint sys =
     map_option (\<lambda>(t, sys). (t = ct, sys)) (mcapi_trans_channel_type endpoint sys)"

text \<open>The final \<open>else\<close> of a chain of checks: the call is made only when no check failed.\<close>

definition when_ok ::
  "mcapi_status \<times> mcapi_sys \<Rightarrow> 'a \<Rightarrow> (mcapi_sys \<Rightarrow> (('a \<times> mcapi_status) \<times> mcapi_sys) option)
   \<Rightarrow> (('a \<times> mcapi_status) \<times> mcapi_sys) option" where
  "when_ok c dflt f = (case c of (status, sys) \<Rightarrow>
     if status = MCAPI_SUCCESS then f sys else Some ((dflt, status), sys))"

section \<open>Nodes\<close>

definition mcapi_initialize ::
  "mrapi_calls \<Rightarrow> mcapi_state \<Rightarrow> int \<Rightarrow> int \<Rightarrow> u32 \<Rightarrow> u32 \<Rightarrow> attribute_entry carray option \<Rightarrow> mcapi_sys
   \<Rightarrow> (mcapi_status \<times> mcapi_sys) option" where
  "mcapi_initialize m fresh p t domid node attrs sys =
     (if \<not> mcapi_trans_valid_node node then Some (MCAPI_ERR_NODE_INVALID, sys)
      else do {
        (already, sys) \<leftarrow> mcapi_trans_initialized sys;
        if already then Some (MCAPI_ERR_NODE_INITIALIZED, sys)
        else do {
          (ok, sys) \<leftarrow> mcapi_trans_initialize m fresh p t domid node attrs sys;
          Some (if ok then MCAPI_SUCCESS else MCAPI_ERR_NODE_INITFAILED, sys)
        }
      })"

definition mcapi_node_init_attributes :: "attribute_entry carray option \<Rightarrow> mcapi_status \<times> attribute_entry carray option" where
  "mcapi_node_init_attributes attrs = (case attrs of
       None \<Rightarrow> (MCAPI_ERR_PARAMETER, None)
     | Some a \<Rightarrow> (MCAPI_SUCCESS, Some (mcapi_trans_node_init_attributes a)))"

definition mcapi_node_set_attribute ::
  "attribute_entry carray option \<Rightarrow> nat \<Rightarrow> u32 option \<Rightarrow> nat \<Rightarrow> mcapi_status \<times> attribute_entry carray option" where
  "mcapi_node_set_attribute attrs num attribute attribute_size =
     (case (attrs, attribute) of
        (Some a, Some v) \<Rightarrow> (case mcapi_trans_node_set_attribute a num v attribute_size of
            Inr a \<Rightarrow> (MCAPI_SUCCESS, Some a) | Inl err \<Rightarrow> (err, Some a))
      | _ \<Rightarrow> (MCAPI_ERR_PARAMETER, attrs))"

definition mcapi_node_get_attribute ::
  "u32 \<Rightarrow> u32 \<Rightarrow> nat \<Rightarrow> bool \<Rightarrow> nat \<Rightarrow> mcapi_sys \<Rightarrow> ((u32 option \<times> mcapi_status) \<times> mcapi_sys) option" where
  "mcapi_node_get_attribute domid node num attribute_given attribute_size sys =
     (if \<not> attribute_given then Some ((None, MCAPI_ERR_PARAMETER), sys)
      else do {
        (r, sys) \<leftarrow> mcapi_trans_node_get_attribute domid node num attribute_size sys;
        Some (case r of Inr v \<Rightarrow> (Some v, MCAPI_SUCCESS) | Inl err \<Rightarrow> (None, err), sys)
      })"

definition mcapi_finalize :: "mrapi_calls \<Rightarrow> int \<Rightarrow> mcapi_sys \<Rightarrow> (mcapi_status \<times> mcapi_sys) option" where
  "mcapi_finalize m p sys = do {
     (ok, sys) \<leftarrow> mcapi_trans_finalize m p sys;
     Some (if ok then MCAPI_SUCCESS else MCAPI_ERR_NODE_FINALFAILED, sys)
   }"

definition mcapi_domain_id_get :: "mcapi_sys \<Rightarrow> u32 \<times> mcapi_status" where
  "mcapi_domain_id_get sys = (case mcapi_trans_get_domain_num sys of
     Some x \<Rightarrow> (x, MCAPI_SUCCESS) | None \<Rightarrow> (MCAPI_DOMAIN_INVALID, MCAPI_ERR_NODE_NOTINIT))"

definition mcapi_node_id_get :: "mcapi_sys \<Rightarrow> u32 \<times> mcapi_status" where
  "mcapi_node_id_get sys = (case mcapi_trans_get_node_num sys of
     Some x \<Rightarrow> (x, MCAPI_SUCCESS) | None \<Rightarrow> (MCAPI_NODE_INVALID, MCAPI_ERR_NODE_NOTINIT))"

section \<open>Endpoints\<close>

text \<open>The endpoint is \<open>None\<close> where the C function returns an uninitialised variable.\<close>

definition mcapi_endpoint_create :: "u32 \<Rightarrow> mcapi_sys \<Rightarrow> ((u32 option \<times> mcapi_status) \<times> mcapi_sys) option" where
  "mcapi_endpoint_create port sys = do {
     let (domid, status) = mcapi_domain_id_get sys;
     if status \<noteq> MCAPI_SUCCESS then Some ((None, MCAPI_ERR_NODE_NOTINIT), sys)
     else do {
       c \<leftarrow> first_error [(mcapi_trans_endpoint_exists domid port, MCAPI_ERR_ENDP_EXISTS),
              (\<lambda>sys. map_option (\<lambda>(k, sys). (k = MCAPI_MAX_ENDPOINTS, sys)) (mcapi_trans_num_endpoints sys), MCAPI_ERR_ENDP_LIMIT),
              (const_check (\<not> mcapi_trans_valid_port port), MCAPI_ERR_PORT_INVALID)] sys;
       when_ok c None (\<lambda>sys. do {
         (e, sys) \<leftarrow> mcapi_trans_endpoint_create port False sys;
         Some ((e, if e = None then MCAPI_ERR_ENDP_NOPORTS else MCAPI_SUCCESS), sys)
       })
     }
   }"

definition lookup_error :: "u32 \<Rightarrow> u32 \<Rightarrow> mcapi_status" where
  "lookup_error node port =
     (if \<not> mcapi_trans_valid_node node then MCAPI_ERR_NODE_INVALID
      else if \<not> mcapi_trans_valid_port port then MCAPI_ERR_PORT_INVALID else MCAPI_SUCCESS)"

definition mcapi_endpoint_get_i ::
  "u32 \<Rightarrow> u32 \<Rightarrow> u32 \<Rightarrow> addr \<Rightarrow> mcapi_sys \<Rightarrow> (started \<times> mcapi_sys) option" where
  "mcapi_endpoint_get_i domid node port endpoint sys =
     mcapi_trans_endpoint_get_i endpoint domid node port (lookup_error node port) sys"

text \<open>The local variable \<open>e\<close> lives at the address \<open>ep\<close>; the timeout is not used.\<close>

definition mcapi_endpoint_get ::
  "u32 \<Rightarrow> u32 \<Rightarrow> u32 \<Rightarrow> u32 \<Rightarrow> addr \<Rightarrow> (mcapi_state \<Rightarrow> mcapi_state) list \<Rightarrow> mcapi_sys \<Rightarrow> ((u32 option \<times> mcapi_status) \<times> mcapi_sys) option" where
  "mcapi_endpoint_get domid node port timeout ep env sys =
     when_ok (lookup_error node port, sys) None (\<lambda>sys. do {
       (_, sys) \<leftarrow> mcapi_trans_endpoint_get ep domid node port env sys;
       Some ((Some (user_endpts (shm sys) ep), MCAPI_SUCCESS), sys)
     })"

definition mcapi_endpoint_delete :: "u32 \<Rightarrow> mcapi_sys \<Rightarrow> (mcapi_status \<times> mcapi_sys) option" where
  "mcapi_endpoint_delete endpoint sys = do {
     c \<leftarrow> first_error [(not_check (mcapi_trans_valid_endpoint endpoint), MCAPI_ERR_ENDP_INVALID),
            (not_check (mcapi_trans_endpoint_isowner endpoint), MCAPI_ERR_ENDP_NOTOWNER),
            (mcapi_trans_endpoint_channel_isopen endpoint, MCAPI_ERR_CHAN_OPEN)] sys;
     ((_, status), sys) \<leftarrow> when_ok c () (\<lambda>sys. do {
         (_, sys) \<leftarrow> mcapi_trans_endpoint_delete endpoint sys;
         Some (((), MCAPI_SUCCESS), sys) });
     Some (status, sys)
   }"

definition mcapi_endpoint_get_attribute ::
  "u32 \<Rightarrow> nat \<Rightarrow> mcapi_sys \<Rightarrow> ((u32 option \<times> mcapi_status) \<times> mcapi_sys) option" where
  "mcapi_endpoint_get_attribute endpoint num sys = do {
     c \<leftarrow> first_error [(not_check (mcapi_trans_valid_endpoint endpoint), MCAPI_ERR_ENDP_INVALID)] sys;
     when_ok c None (mcapi_trans_endpoint_get_attribute endpoint num)
   }"

section \<open>Messages\<close>

definition msg_send_checks :: "u32 \<Rightarrow> u32 \<Rightarrow> nat \<Rightarrow> u32 \<Rightarrow> (check \<times> mcapi_status) list" where
  "msg_send_checks send_endpoint receive_endpoint buffer_size priority =
     [(const_check (\<not> mcapi_trans_valid_priority priority), MCAPI_ERR_PRIORITY),
      (not_check (mcapi_trans_valid_endpoints send_endpoint receive_endpoint), MCAPI_ERR_ENDP_INVALID),
      (const_check (MCAPI_MAX_MSG_SIZE < buffer_size), MCAPI_ERR_MSG_LIMIT)]"

definition mcapi_msg_send_i ::
  "u32 \<Rightarrow> u32 \<Rightarrow> ptr \<Rightarrow> nat \<Rightarrow> u32 \<Rightarrow> mcapi_sys \<Rightarrow> (started \<times> mcapi_sys) option" where
  "mcapi_msg_send_i send_endpoint receive_endpoint buffer buffer_size priority sys = do {
     (status, sys) \<leftarrow> first_error (msg_send_checks send_endpoint receive_endpoint buffer_size priority) sys;
     mcapi_trans_msg_send_i send_endpoint receive_endpoint buffer buffer_size status sys
   }"

definition mcapi_msg_send ::
  "u32 \<Rightarrow> u32 \<Rightarrow> ptr \<Rightarrow> nat \<Rightarrow> u32 \<Rightarrow> (mcapi_state \<Rightarrow> mcapi_state) list \<Rightarrow> mcapi_sys \<Rightarrow> (mcapi_status \<times> mcapi_sys) option" where
  "mcapi_msg_send send_endpoint receive_endpoint buffer buffer_size priority env sys = do {
     (status, sys) \<leftarrow> first_error (msg_send_checks send_endpoint receive_endpoint buffer_size priority) sys;
     if status \<noteq> MCAPI_SUCCESS then Some (status, sys)
     else do {
       (sent, sys) \<leftarrow> mcapi_trans_msg_send send_endpoint receive_endpoint buffer buffer_size env sys;
       Some (if sent then MCAPI_SUCCESS else MCAPI_ERR_MEM_LIMIT, sys)
     }
   }"

definition mcapi_msg_recv_i ::
  "u32 \<Rightarrow> ptr \<Rightarrow> nat \<Rightarrow> bool \<Rightarrow> mcapi_sys \<Rightarrow> (started \<times> mcapi_sys) option" where
  "mcapi_msg_recv_i receive_endpoint buffer buffer_size request_given sys =
     (if \<not> request_given then Some ((None, MCAPI_ERR_PARAMETER), sys)
      else do {
        (status, sys) \<leftarrow> first_error [(const_check (\<not> mcapi_trans_valid_buffer_param buffer), MCAPI_ERR_PARAMETER),
            (not_check (mcapi_trans_valid_endpoint receive_endpoint), MCAPI_ERR_ENDP_INVALID)] sys;
        mcapi_trans_msg_recv_i receive_endpoint buffer buffer_size status sys
      })"

text \<open>The result: the value of \<open>*received_size\<close>, and the status.\<close>

definition mcapi_msg_recv ::
  "u32 \<Rightarrow> ptr \<Rightarrow> nat \<Rightarrow> nat \<Rightarrow> (mcapi_state \<Rightarrow> mcapi_state) list \<Rightarrow> mcapi_sys \<Rightarrow> ((nat \<times> mcapi_status) \<times> mcapi_sys) option" where
  "mcapi_msg_recv receive_endpoint buffer buffer_size received_size env sys = do {
     c \<leftarrow> first_error [(const_check (\<not> mcapi_trans_valid_buffer_param buffer), MCAPI_ERR_PARAMETER),
            (not_check (mcapi_trans_valid_endpoint receive_endpoint), MCAPI_ERR_ENDP_INVALID)] sys;
     when_ok c received_size (\<lambda>sys. do {
       ((_, received_size), sys) \<leftarrow> mcapi_trans_msg_recv receive_endpoint buffer buffer_size received_size env sys;
       Some (if buffer_size < received_size then (buffer_size, MCAPI_ERR_MSG_TRUNCATED)
             else (received_size, MCAPI_SUCCESS), sys)
     })
   }"

text \<open>The three functions that count what is in a receive queue.\<close>

definition count_if_ok ::
  "check \<Rightarrow> mcapi_status \<Rightarrow> (mcapi_sys \<Rightarrow> (u32 \<times> mcapi_sys) option) \<Rightarrow> mcapi_sys \<Rightarrow> ((u32 \<times> mcapi_status) \<times> mcapi_sys) option" where
  "count_if_ok bad err f sys = do {
     c \<leftarrow> first_error [(bad, err)] sys;
     when_ok c 0 (\<lambda>sys. do { (k, sys) \<leftarrow> f sys; Some ((k, MCAPI_SUCCESS), sys) })
   }"

definition mcapi_msg_available :: "u32 \<Rightarrow> mcapi_sys \<Rightarrow> ((u32 \<times> mcapi_status) \<times> mcapi_sys) option" where
  "mcapi_msg_available receive_endpoint =
     count_if_ok (not_check (mcapi_trans_valid_endpoint receive_endpoint)) MCAPI_ERR_ENDP_INVALID
       (mcapi_trans_msg_available receive_endpoint)"

section \<open>Packet channels\<close>

definition connect_checks :: "u32 \<Rightarrow> u32 \<Rightarrow> (check \<times> mcapi_status) list" where
  "connect_checks send_endpoint receive_endpoint =
     [(not_check (mcapi_trans_valid_endpoints send_endpoint receive_endpoint), MCAPI_ERR_ENDP_INVALID),
      (or_check (mcapi_trans_channel_connected send_endpoint) (mcapi_trans_channel_connected receive_endpoint),
         MCAPI_ERR_CHAN_CONNECTED),
      (const_check (\<not> mcapi_trans_compatible_endpoint_attributes send_endpoint receive_endpoint),
         MCAPI_ERR_ATTR_INCOMPATIBLE)]"

definition mcapi_pktchan_connect_i :: "u32 \<Rightarrow> u32 \<Rightarrow> mcapi_sys \<Rightarrow> (started \<times> mcapi_sys) option" where
  "mcapi_pktchan_connect_i send_endpoint receive_endpoint sys = do {
     (status, sys) \<leftarrow> first_error (connect_checks send_endpoint receive_endpoint) sys;
     mcapi_trans_pktchan_connect_i send_endpoint receive_endpoint status sys
   }"

text \<open>Opening refuses an endpoint whose channel is of the other kind or runs in the other direction.\<close>

definition open_checks :: "u32 \<Rightarrow> channel_type \<Rightarrow> check \<Rightarrow> (check \<times> mcapi_status) list" where
  "open_checks endpoint other direction_ok =
     [(not_check (mcapi_trans_valid_endpoint endpoint), MCAPI_ERR_ENDP_INVALID),
      (channel_type_is other endpoint, MCAPI_ERR_CHAN_TYPE),
      (not_check direction_ok, MCAPI_ERR_CHAN_DIRECTION)]"

definition mcapi_pktchan_recv_open_i ::
  "u32 \<Rightarrow> bool \<Rightarrow> mcapi_sys \<Rightarrow> ((u32 option \<times> started) \<times> mcapi_sys) option" where
  "mcapi_pktchan_recv_open_i receive_endpoint request_given sys =
     (if \<not> request_given then Some ((None, None, MCAPI_ERR_PARAMETER), sys)
      else do {
        (status, sys) \<leftarrow> first_error (open_checks receive_endpoint MCAPI_SCL_CHAN (mcapi_trans_recv_endpoint receive_endpoint)) sys;
        mcapi_trans_pktchan_recv_open_i receive_endpoint status sys
      })"

definition mcapi_pktchan_send_open_i ::
  "u32 \<Rightarrow> bool \<Rightarrow> mcapi_sys \<Rightarrow> ((u32 option \<times> started) \<times> mcapi_sys) option" where
  "mcapi_pktchan_send_open_i send_endpoint request_given sys =
     (if \<not> request_given then Some ((None, None, MCAPI_ERR_PARAMETER), sys)
      else do {
        (status, sys) \<leftarrow> first_error (open_checks send_endpoint MCAPI_SCL_CHAN (mcapi_trans_send_endpoint send_endpoint)) sys;
        mcapi_trans_pktchan_send_open_i send_endpoint status sys
      })"

definition pktchan_send_checks :: "u32 \<Rightarrow> nat \<Rightarrow> (check \<times> mcapi_status) list" where
  "pktchan_send_checks send_handle sz =
     [(not_check (mcapi_trans_valid_pktchan_send_handle send_handle), MCAPI_ERR_CHAN_INVALID),
      (const_check (MCAPI_MAX_PKT_SIZE < sz), MCAPI_ERR_PKT_LIMIT)]"

definition mcapi_pktchan_send_i :: "u32 \<Rightarrow> ptr \<Rightarrow> nat \<Rightarrow> bool \<Rightarrow> mcapi_sys \<Rightarrow> (started \<times> mcapi_sys) option" where
  "mcapi_pktchan_send_i send_handle buffer sz request_given sys =
     (if \<not> request_given then Some ((None, MCAPI_ERR_PARAMETER), sys)
      else do {
        (status, sys) \<leftarrow> first_error (pktchan_send_checks send_handle sz) sys;
        mcapi_trans_pktchan_send_i send_handle buffer sz status sys
      })"

definition mcapi_pktchan_send ::
  "u32 \<Rightarrow> ptr \<Rightarrow> nat \<Rightarrow> (mcapi_state \<Rightarrow> mcapi_state) list \<Rightarrow> mcapi_sys \<Rightarrow> (mcapi_status \<times> mcapi_sys) option" where
  "mcapi_pktchan_send send_handle buffer sz env sys = do {
     (status, sys) \<leftarrow> first_error (pktchan_send_checks send_handle sz) sys;
     if status \<noteq> MCAPI_SUCCESS then Some (status, sys)
     else do {
       (sent, sys) \<leftarrow> mcapi_trans_pktchan_send send_handle buffer sz env sys;
       Some (if sent then MCAPI_SUCCESS else MCAPI_ERR_MEM_LIMIT, sys)
     }
   }"

text \<open>The buffer argument is the address of a pointer variable, or \<open>NULL\<close>; with \<open>NULL\<close> only a request is set up.\<close>

definition mcapi_pktchan_recv_i :: "u32 \<Rightarrow> addr option \<Rightarrow> bool \<Rightarrow> mcapi_sys \<Rightarrow> (started \<times> mcapi_sys) option" where
  "mcapi_pktchan_recv_i receive_handle buffer request_given sys =
     (if \<not> request_given then Some ((None, MCAPI_ERR_PARAMETER), sys)
      else do {
        (status, sys) \<leftarrow> first_error [(const_check (buffer = None), MCAPI_ERR_PARAMETER),
            (not_check (mcapi_trans_valid_pktchan_recv_handle receive_handle), MCAPI_ERR_CHAN_INVALID)] sys;
        mcapi_trans_pktchan_recv_i receive_handle (case buffer of Some a \<Rightarrow> a | None \<Rightarrow> 0) status sys
      })"

definition mcapi_pktchan_recv ::
  "u32 \<Rightarrow> addr option \<Rightarrow> nat \<Rightarrow> (mcapi_state \<Rightarrow> mcapi_state) list \<Rightarrow> mcapi_sys \<Rightarrow> ((nat \<times> mcapi_status) \<times> mcapi_sys) option" where
  "mcapi_pktchan_recv receive_handle buffer received_size env sys =
     (case buffer of
        None \<Rightarrow> Some ((received_size, MCAPI_ERR_PARAMETER), sys)
      | Some a \<Rightarrow> do {
          c \<leftarrow> first_error [(not_check (mcapi_trans_valid_pktchan_recv_handle receive_handle), MCAPI_ERR_CHAN_INVALID)] sys;
          when_ok c received_size (\<lambda>sys. do {
            ((ok, received_size), sys) \<leftarrow> mcapi_trans_pktchan_recv receive_handle a received_size env sys;
            Some ((received_size, if ok then (if MCAPI_MAX_PKT_SIZE < received_size then MCAPI_ERR_PKT_LIMIT else MCAPI_SUCCESS)
                                  else MCAPI_ERR_MEM_LIMIT), sys)
          })
        })"

definition mcapi_pktchan_available :: "u32 \<Rightarrow> mcapi_sys \<Rightarrow> ((u32 \<times> mcapi_status) \<times> mcapi_sys) option" where
  "mcapi_pktchan_available receive_handle =
     count_if_ok (not_check (mcapi_trans_valid_pktchan_recv_handle receive_handle)) MCAPI_ERR_CHAN_INVALID
       (mcapi_trans_pktchan_available receive_handle)"

definition mcapi_pktchan_release :: "ptr \<Rightarrow> mcapi_sys \<Rightarrow> (mcapi_status \<times> mcapi_sys) option" where
  "mcapi_pktchan_release buffer sys = do {
     (ok, sys) \<leftarrow> mcapi_trans_pktchan_free buffer sys;
     Some (if ok then MCAPI_SUCCESS else MCAPI_ERR_BUF_INVALID, sys)
   }"

text \<open>Both ends are closed after the check of a receive handle.\<close>

definition close_checks :: "check \<Rightarrow> check \<Rightarrow> (check \<times> mcapi_status) list" where
  "close_checks valid isopen = [(not_check valid, MCAPI_ERR_CHAN_INVALID), (not_check isopen, MCAPI_ERR_CHAN_NOTOPEN)]"

definition mcapi_pktchan_recv_close_i :: "u32 \<Rightarrow> bool \<Rightarrow> mcapi_sys \<Rightarrow> (started \<times> mcapi_sys) option" where
  "mcapi_pktchan_recv_close_i receive_handle request_given sys =
     (if \<not> request_given then Some ((None, MCAPI_ERR_PARAMETER), sys)
      else do {
        (status, sys) \<leftarrow> first_error (close_checks (mcapi_trans_valid_pktchan_recv_handle receive_handle)
            (mcapi_trans_pktchan_recv_isopen receive_handle)) sys;
        mcapi_trans_pktchan_recv_close_i receive_handle status sys
      })"

definition mcapi_pktchan_send_close_i :: "u32 \<Rightarrow> bool \<Rightarrow> mcapi_sys \<Rightarrow> (started \<times> mcapi_sys) option" where
  "mcapi_pktchan_send_close_i send_handle request_given sys =
     (if \<not> request_given then Some ((None, MCAPI_ERR_PARAMETER), sys)
      else do {
        (status, sys) \<leftarrow> first_error (close_checks (mcapi_trans_valid_pktchan_recv_handle send_handle)
            (mcapi_trans_pktchan_send_isopen send_handle)) sys;
        mcapi_trans_pktchan_send_close_i send_handle status sys
      })"

section \<open>Scalar channels\<close>

definition mcapi_sclchan_connect_i :: "u32 \<Rightarrow> u32 \<Rightarrow> bool \<Rightarrow> mcapi_sys \<Rightarrow> (started \<times> mcapi_sys) option" where
  "mcapi_sclchan_connect_i send_endpoint receive_endpoint request_given sys =
     (if \<not> request_given then Some ((None, MCAPI_ERR_PARAMETER), sys)
      else do {
        (status, sys) \<leftarrow> first_error (connect_checks send_endpoint receive_endpoint) sys;
        mcapi_trans_sclchan_connect_i send_endpoint receive_endpoint status sys
      })"

definition mcapi_sclchan_recv_open_i ::
  "u32 \<Rightarrow> bool \<Rightarrow> mcapi_sys \<Rightarrow> ((u32 option \<times> started) \<times> mcapi_sys) option" where
  "mcapi_sclchan_recv_open_i receive_endpoint request_given sys =
     (if \<not> request_given then Some ((None, None, MCAPI_ERR_PARAMETER), sys)
      else do {
        (status, sys) \<leftarrow> first_error (open_checks receive_endpoint MCAPI_PKT_CHAN (mcapi_trans_recv_endpoint receive_endpoint)) sys;
        mcapi_trans_sclchan_recv_open_i receive_endpoint status sys
      })"

definition mcapi_sclchan_send_open_i ::
  "u32 \<Rightarrow> bool \<Rightarrow> mcapi_sys \<Rightarrow> ((u32 option \<times> started) \<times> mcapi_sys) option" where
  "mcapi_sclchan_send_open_i send_endpoint request_given sys =
     (if \<not> request_given then Some ((None, None, MCAPI_ERR_PARAMETER), sys)
      else do {
        (status, sys) \<leftarrow> first_error (open_checks send_endpoint MCAPI_PKT_CHAN (mcapi_trans_send_endpoint send_endpoint)) sys;
        mcapi_trans_sclchan_send_open_i send_endpoint status sys
      })"

definition sclchan_send_sized :: "u32 \<Rightarrow> u64 \<Rightarrow> nat \<Rightarrow> mcapi_sys \<Rightarrow> (mcapi_status \<times> mcapi_sys) option" where
  "sclchan_send_sized send_handle dataword sz sys = do {
     (status, sys) \<leftarrow> first_error [(not_check (mcapi_trans_valid_sclchan_send_handle send_handle), MCAPI_ERR_CHAN_INVALID)] sys;
     if status \<noteq> MCAPI_SUCCESS then Some (status, sys)
     else do {
       (sent, sys) \<leftarrow> mcapi_trans_sclchan_send send_handle dataword sz sys;
       Some (if sent then MCAPI_SUCCESS else MCAPI_ERR_MEM_LIMIT, sys)
     }
   }"

definition mcapi_sclchan_send_uint64 :: "u32 \<Rightarrow> u64 \<Rightarrow> mcapi_sys \<Rightarrow> (mcapi_status \<times> mcapi_sys) option" where
  "mcapi_sclchan_send_uint64 send_handle dataword = sclchan_send_sized send_handle dataword 8"

definition mcapi_sclchan_send_uint32 :: "u32 \<Rightarrow> u32 \<Rightarrow> mcapi_sys \<Rightarrow> (mcapi_status \<times> mcapi_sys) option" where
  "mcapi_sclchan_send_uint32 send_handle dataword = sclchan_send_sized send_handle (ucast dataword) 4"

definition mcapi_sclchan_send_uint16 :: "u32 \<Rightarrow> u16 \<Rightarrow> mcapi_sys \<Rightarrow> (mcapi_status \<times> mcapi_sys) option" where
  "mcapi_sclchan_send_uint16 send_handle dataword = sclchan_send_sized send_handle (ucast dataword) 2"

definition mcapi_sclchan_send_uint8 :: "u32 \<Rightarrow> byte \<Rightarrow> mcapi_sys \<Rightarrow> (mcapi_status \<times> mcapi_sys) option" where
  "mcapi_sclchan_send_uint8 send_handle dataword = sclchan_send_sized send_handle (ucast dataword) 1"

definition sclchan_recv_sized ::
  "u32 \<Rightarrow> nat \<Rightarrow> (mcapi_state \<Rightarrow> mcapi_state) list \<Rightarrow> mcapi_sys \<Rightarrow> ((u64 \<times> mcapi_status) \<times> mcapi_sys) option" where
  "sclchan_recv_sized receive_handle exp_size env sys = do {
     c \<leftarrow> first_error [(not_check (mcapi_trans_valid_sclchan_recv_handle receive_handle), MCAPI_ERR_CHAN_INVALID)] sys;
     when_ok c 0 (\<lambda>sys. do {
       ((ok, got), sys) \<leftarrow> mcapi_trans_sclchan_recv receive_handle exp_size env sys;
       Some ((case got of Some x \<Rightarrow> x | None \<Rightarrow> 0, if ok then MCAPI_SUCCESS else MCAPI_ERR_SCL_SIZE), sys)
     })
   }"

definition mcapi_sclchan_recv_uint64 ::
  "u32 \<Rightarrow> (mcapi_state \<Rightarrow> mcapi_state) list \<Rightarrow> mcapi_sys \<Rightarrow> ((u64 \<times> mcapi_status) \<times> mcapi_sys) option" where
  "mcapi_sclchan_recv_uint64 receive_handle env sys = sclchan_recv_sized receive_handle 8 env sys"

definition truncated :: "((u64 \<times> mcapi_status) \<times> mcapi_sys) option \<Rightarrow> (('a::len word \<times> mcapi_status) \<times> mcapi_sys) option" where
  "truncated = map_option (\<lambda>((x, status), sys). ((ucast x, status), sys))"

definition mcapi_sclchan_recv_uint32 ::
  "u32 \<Rightarrow> (mcapi_state \<Rightarrow> mcapi_state) list \<Rightarrow> mcapi_sys \<Rightarrow> ((u32 \<times> mcapi_status) \<times> mcapi_sys) option" where
  "mcapi_sclchan_recv_uint32 receive_handle env sys = truncated (sclchan_recv_sized receive_handle 4 env sys)"

definition mcapi_sclchan_recv_uint16 ::
  "u32 \<Rightarrow> (mcapi_state \<Rightarrow> mcapi_state) list \<Rightarrow> mcapi_sys \<Rightarrow> ((u16 \<times> mcapi_status) \<times> mcapi_sys) option" where
  "mcapi_sclchan_recv_uint16 receive_handle env sys = truncated (sclchan_recv_sized receive_handle 2 env sys)"

definition mcapi_sclchan_recv_uint8 ::
  "u32 \<Rightarrow> (mcapi_state \<Rightarrow> mcapi_state) list \<Rightarrow> mcapi_sys \<Rightarrow> ((byte \<times> mcapi_status) \<times> mcapi_sys) option" where
  "mcapi_sclchan_recv_uint8 receive_handle env sys = truncated (sclchan_recv_sized receive_handle 1 env sys)"

definition mcapi_sclchan_available :: "u32 \<Rightarrow> mcapi_sys \<Rightarrow> ((u32 \<times> mcapi_status) \<times> mcapi_sys) option" where
  "mcapi_sclchan_available receive_handle =
     count_if_ok (not_check (mcapi_trans_valid_sclchan_recv_handle receive_handle)) MCAPI_ERR_CHAN_INVALID
       (mcapi_trans_sclchan_available_i receive_handle)"

definition mcapi_sclchan_recv_close_i :: "u32 \<Rightarrow> bool \<Rightarrow> mcapi_sys \<Rightarrow> (started \<times> mcapi_sys) option" where
  "mcapi_sclchan_recv_close_i receive_handle request_given sys =
     (if \<not> request_given then Some ((None, MCAPI_ERR_PARAMETER), sys)
      else do {
        (status, sys) \<leftarrow> first_error (close_checks (mcapi_trans_valid_sclchan_recv_handle receive_handle)
            (mcapi_trans_sclchan_recv_isopen receive_handle)) sys;
        mcapi_trans_sclchan_recv_close_i receive_handle status sys
      })"

definition mcapi_sclchan_send_close_i :: "u32 \<Rightarrow> bool \<Rightarrow> mcapi_sys \<Rightarrow> (started \<times> mcapi_sys) option" where
  "mcapi_sclchan_send_close_i send_handle request_given sys =
     (if \<not> request_given then Some ((None, MCAPI_ERR_PARAMETER), sys)
      else do {
        (status, sys) \<leftarrow> first_error (close_checks (mcapi_trans_valid_sclchan_recv_handle send_handle)
            (mcapi_trans_sclchan_send_isopen send_handle)) sys;
        mcapi_trans_sclchan_send_close_i send_handle status sys
      })"

section \<open>Requests\<close>

definition mcapi_test :: "u32 \<Rightarrow> bool \<Rightarrow> nat \<Rightarrow> mcapi_sys \<Rightarrow> (tested \<times> mcapi_sys) option" where
  "mcapi_test rq size_given sz sys =
     (if \<not> size_given then Some ((True, rq, sz, MCAPI_ERR_PARAMETER), sys)
      else if \<not> mcapi_trans_valid_request_handle rq then Some ((True, rq, sz, MCAPI_ERR_REQUEST_INVALID), sys)
      else mcapi_trans_test_i rq sz MCAPI_SUCCESS sys)"

definition mcapi_wait ::
  "u32 \<Rightarrow> bool \<Rightarrow> nat \<Rightarrow> u32 \<Rightarrow> (mcapi_state \<Rightarrow> mcapi_state) list \<Rightarrow> mcapi_sys \<Rightarrow> (tested \<times> mcapi_sys) option" where
  "mcapi_wait rq size_given sz timeout env sys =
     (if \<not> size_given then Some ((True, rq, sz, MCAPI_ERR_PARAMETER), sys)
      else if \<not> mcapi_trans_valid_request_handle rq then Some ((False, rq, sz, MCAPI_ERR_REQUEST_INVALID), sys)
      else mcapi_trans_wait rq sz MCAPI_SUCCESS timeout env sys)"

definition mcapi_wait_any ::
  "u32 list \<Rightarrow> bool \<Rightarrow> nat \<Rightarrow> u32 \<Rightarrow> (mcapi_state \<Rightarrow> mcapi_state) list \<Rightarrow> mcapi_sys
   \<Rightarrow> ((u32 \<times> u32 list \<times> nat \<times> mcapi_status) \<times> mcapi_sys) option" where
  "mcapi_wait_any rqs size_given sz timeout env sys =
     (if \<not> size_given then Some ((1, rqs, sz, MCAPI_ERR_PARAMETER), sys)
      else mcapi_trans_wait_any rqs sz MCAPI_SUCCESS timeout env sys)"

definition mcapi_cancel :: "u32 \<Rightarrow> mcapi_sys \<Rightarrow> (mcapi_status \<times> mcapi_sys) option" where
  "mcapi_cancel rq sys =
     (if \<not> mcapi_trans_valid_request_handle rq then Some (MCAPI_ERR_REQUEST_INVALID, sys)
      else mcapi_trans_cancel rq MCAPI_SUCCESS sys)"

section \<open>Names of status codes\<close>

definition status_name :: "mcapi_status \<Rightarrow> string" where
  "status_name status = (case status of
       MCAPI_SUCCESS \<Rightarrow> ''MCAPI_SUCCESS''
    | MCAPI_PENDING \<Rightarrow> ''MCAPI_PENDING''
    | MCAPI_ERR_PARAMETER \<Rightarrow> ''MCAPI_ERR_PARAMETER''
    | MCAPI_ERR_DOMAIN_INVALID \<Rightarrow> ''MCAPI_ERR_DOMAIN_INVALID''
    | MCAPI_ERR_NODE_INVALID \<Rightarrow> ''MCAPI_ERR_NODE_INVALID''
    | MCAPI_ERR_NODE_INITFAILED \<Rightarrow> ''MCAPI_ERR_NODE_INITFAILED''
    | MCAPI_ERR_NODE_INITIALIZED \<Rightarrow> ''MCAPI_ERR_NODE_INITIALIZED''
    | MCAPI_ERR_NODE_NOTINIT \<Rightarrow> ''MCAPI_ERR_NODE_NOTINIT''
    | MCAPI_ERR_NODE_FINALFAILED \<Rightarrow> ''MCAPI_ERR_NODE_FINALFAILED''
    | MCAPI_ERR_PORT_INVALID \<Rightarrow> ''MCAPI_ERR_INVALID''
    | MCAPI_ERR_ENDP_INVALID \<Rightarrow> ''MCAPI_ERR_ENDP_INVALID''
    | MCAPI_ERR_ENDP_NOPORTS \<Rightarrow> ''MCAPI_ERR_ENDP_NOPORTS''
    | MCAPI_ERR_ENDP_LIMIT \<Rightarrow> ''MCAPI_ERR_ENDP_LIMIT''
    | MCAPI_ERR_ENDP_EXISTS \<Rightarrow> ''MCAPI_ERR_ENDP_EXISTS''
    | MCAPI_ERR_ENDP_NOTOWNER \<Rightarrow> ''MCAPI_ERR_ENDP_NOTOWNER''
    | MCAPI_ERR_ENDP_REMOTE \<Rightarrow> ''MCAPI_ERR_ENDP_REMOTE''
    | MCAPI_ERR_ATTR_INCOMPATIBLE \<Rightarrow> ''MCAPI_ERR_ATTR_INCOMPATIBLE''
    | MCAPI_ERR_ATTR_SIZE \<Rightarrow> ''MCAPI_ERR_ATTR_SIZE''
    | MCAPI_ERR_ATTR_NUM \<Rightarrow> ''MCAPI_ERR_ATTR_NUM''
    | MCAPI_ERR_ATTR_VALUE \<Rightarrow> ''MCAPI_ERR_ATTR_VALUE''
    | MCAPI_ERR_ATTR_NOTSUPPORTED \<Rightarrow> ''MCAPI_ERR_ATTR_NOTSUPPORTED''
    | MCAPI_ERR_ATTR_READONLY \<Rightarrow> ''MCAPI_ERR_ATTR_READONLY''
    | MCAPI_ERR_MSG_LIMIT \<Rightarrow> ''MCAPI_ERR_MSG_LIMIT''
    | MCAPI_ERR_MSG_TRUNCATED \<Rightarrow> ''MCAPI_ERR_MSG_TRUNCATED''
    | MCAPI_ERR_TRANSMISSION \<Rightarrow> ''MCAPI_ERR_TRANSMISSION''
    | MCAPI_ERR_MEM_LIMIT \<Rightarrow> ''MCAPI_ERR_MEM_LIMIT''
    | MCAPI_TIMEOUT \<Rightarrow> ''MCAPI_TIMEOUT''
    | MCAPI_ERR_REQUEST_LIMIT \<Rightarrow> ''MCAPI_ERR_REQUEST_LIMIT''
    | MCAPI_ERR_PRIORITY \<Rightarrow> ''MCAPI_ERR_PRIORITY''
    | MCAPI_ERR_CHAN_OPEN \<Rightarrow> ''MCAPI_ERR_CHAN_OPEN''
    | MCAPI_ERR_CHAN_TYPE \<Rightarrow> ''MCAPI_ERR_CHAN_TYPE''
    | MCAPI_ERR_CHAN_CONNECTED \<Rightarrow> ''MCAPI_ERR_CHAN_CONNECTED''
    | MCAPI_ERR_CHAN_OPENPENDING \<Rightarrow> ''MCAPI_ERR_CHAN_OPENPENDING''
    | MCAPI_ERR_CHAN_DIRECTION \<Rightarrow> ''MCAPI_ERR_CHAN_DIRECTION''
    | MCAPI_ERR_CHAN_NOTOPEN \<Rightarrow> ''MCAPI_ERR_CHAN_NOTOPEN''
    | MCAPI_ERR_CHAN_INVALID \<Rightarrow> ''MCAPI_ERR_CHAN_INVALID''
    | MCAPI_ERR_REQUEST_INVALID \<Rightarrow> ''MCAPI_ERR_REQUEST_INVALID''
    | MCAPI_ERR_PKT_LIMIT \<Rightarrow> ''MCAPI_ERR_PKT_LIMIT''
    | MCAPI_ERR_BUF_INVALID \<Rightarrow> ''MCAPI_ERR_BUF_INVALID''
    | MCAPI_ERR_SCL_SIZE \<Rightarrow> ''MCAPI_ERR_SCL_SIZE''
    | MCAPI_ERR_REQUEST_CANCELLED \<Rightarrow> ''MCAPI_ERR_REQUEST_CANCELLED''
    | MCAPI_ERR_GENERAL \<Rightarrow> ''MCAPI_ERR_GENERAL''
    | MCAPI_STATUSCODE_END \<Rightarrow> ''MCAPI_STATUSCODE_END''
    | _ \<Rightarrow> ''UNKNOWN'')"

text \<open>The message is written into a buffer of \<open>sz\<close> bytes, which must be large enough for any name.\<close>

definition mcapi_trans_display_status :: "mcapi_status \<Rightarrow> string option \<Rightarrow> nat \<Rightarrow> string option" where
  "mcapi_trans_display_status status status_message sz =
     (if sz < MCAPI_MAX_STATUS_SIZE \<or> status_message = None then status_message else Some (status_name status))"

end
