(* ===== verification/MCAPI_Safety.thy ===== *)
theory MCAPI_Safety
  imports MCAPI_Invariant MCAPI_API
begin

text \<open>
  Every call of the library, as a whole: it gives the lock back, changes nothing of the caller's
  identity, and keeps the invariant of the shared database, on every path through its checks,
  its errors and its waiting loops.
\<close>

section \<open>Locked sections\<close>

definition ready :: "mcapi_sys \<Rightarrow> bool" where
  "ready sys \<longleftrightarrow> rwl_ok sys \<and> db_attached sys \<and> locked sys = 0"

lemma ready_shm [simp]: "ready (sys\<lparr>shm := st\<rparr>) = ready sys"
  by (simp add: ready_def)

lemma with_lock_Some:
  "with_lock f sys = Some (x, sys') \<longleftrightarrow> ready sys \<and> (\<exists>st'. f (shm sys) = Some (x, st') \<and> sys' = sys\<lparr>shm := st'\<rparr>)"
  by (cases sys) (auto simp: with_lock_def ready_def mcapi_trans_access_database_pre_def
    mcapi_trans_access_database_post_def bind_eq_Some_conv)

text \<open>Without the checks of the two results the counter \<open>locked\<close> still stops a call that has no lock.\<close>

lemma with_lock_unchecked_Some:
  "with_lock_unchecked f sys = Some (x, sys') \<longleftrightarrow> ready sys \<and> (\<exists>st'. f (shm sys) = Some (x, st') \<and> sys' = sys\<lparr>shm := st'\<rparr>)"
  by (cases sys) (auto simp: with_lock_unchecked_def ready_def mcapi_trans_access_database_pre_def
    mcapi_trans_access_database_post_def bind_eq_Some_conv split: if_splits)

lemma with_lock_ready: "ready sys \<Longrightarrow> with_lock f sys = map_option (\<lambda>(x, st). (x, sys\<lparr>shm := st\<rparr>)) (f (shm sys))"
  by (cases "f (shm sys)")
    (auto simp: with_lock_def ready_def mcapi_trans_access_database_pre_def mcapi_trans_access_database_post_def)

lemma with_lock_unchecked_ready:
  "ready sys \<Longrightarrow> with_lock_unchecked f sys = map_option (\<lambda>(x, st). (x, sys\<lparr>shm := st\<rparr>)) (f (shm sys))"
  by (cases "f (shm sys)")
    (auto simp: with_lock_unchecked_def ready_def mcapi_trans_access_database_pre_def mcapi_trans_access_database_post_def)

lemma reading_Some [simp]: "reading f st = Some (x, st') \<longleftrightarrow> f st = Some x \<and> st' = st"
  by (auto simp: reading_def)

text \<open>
  \<open>sound P f\<close>: a run of \<open>f\<close> that returns changes only the shared memory, and a shared memory
  with property \<open>P\<close> still has it afterwards.
\<close>

definition sound :: "(mcapi_state \<Rightarrow> bool) \<Rightarrow> (mcapi_sys \<Rightarrow> ('a \<times> mcapi_sys) option) \<Rightarrow> bool" where
  "sound P f \<longleftrightarrow> (\<forall>sys x sys'. f sys = Some (x, sys') \<longrightarrow>
     sys' = sys\<lparr>shm := shm sys'\<rparr> \<and> (P (shm sys) \<longrightarrow> P (shm sys')))"

definition env_ok :: "(mcapi_state \<Rightarrow> bool) \<Rightarrow> (mcapi_state \<Rightarrow> mcapi_state) list \<Rightarrow> bool" where
  "env_ok P env \<longleftrightarrow> (\<forall>f\<in>set env. \<forall>st. P st \<longrightarrow> P (f st))"

lemma env_ok_simps [simp]:
  "env_ok P []" "env_ok P (f # env) \<longleftrightarrow> (\<forall>st. P st \<longrightarrow> P (f st)) \<and> env_ok P env"
  by (simp_all add: env_ok_def)

named_theorems sound_intros \<open>composition of sound operations\<close>

lemma soundD: "sound P f \<Longrightarrow> f sys = Some (x, sys') \<Longrightarrow> sys' = sys\<lparr>shm := shm sys'\<rparr> \<and> (P (shm sys) \<longrightarrow> P (shm sys'))"
  by (simp add: sound_def)

lemma sound_return [sound_intros]: "sound P (\<lambda>sys. Some (f sys, sys))"
  by (simp add: sound_def)

lemma sound_None [sound_intros]: "sound P (\<lambda>sys. None)"
  by (simp add: sound_def)

lemma sound_bind [sound_intros]:
  assumes f: "sound P f" and g: "\<And>x. sound P (g x)"
  shows "sound P (\<lambda>sys. f sys \<bind> (\<lambda>(x, sys). g x sys))"
  unfolding sound_def
proof (intro allI impI)
  fix sys y sys' assume "f sys \<bind> (\<lambda>(x, sys). g x sys) = Some (y, sys')"
  then obtain x sys1 where 1: "f sys = Some (x, sys1)" "g x sys1 = Some (y, sys')" by (auto simp: bind_eq_Some_conv)
  from soundD [OF f 1(1)] soundD [OF g 1(2)]
  show "sys' = sys\<lparr>shm := shm sys'\<rparr> \<and> (P (shm sys) \<longrightarrow> P (shm sys'))" by (metis mcapi_sys.update_convs(1) mcapi_sys.surjective)
qed

lemma sound_map [sound_intros]: "sound P f \<Longrightarrow> sound P (\<lambda>sys. map_option (\<lambda>(x, s). (h x s, s)) (f sys))"
  by (auto simp: sound_def)

lemma sound_with_lock [sound_intros]:
  assumes "\<And>sys st x st'. f sys st = Some (x, st') \<Longrightarrow> P st \<Longrightarrow> P st'"
  shows "sound P (\<lambda>sys. with_lock (f sys) sys)"
  using assms by (auto simp: sound_def with_lock_Some)

lemma sound_reading [sound_intros]: "sound P (\<lambda>sys. with_lock (reading (f sys)) sys)"
  by (rule sound_with_lock) simp

lemma sound_lock:
  assumes "\<And>st x st'. f st = Some (x, st') \<Longrightarrow> P st \<Longrightarrow> P st'"
  shows "sound P (with_lock f)" and "sound P (with_lock_unchecked f)"
  using assms by (auto simp: sound_def with_lock_Some with_lock_unchecked_Some)

lemma no_pair [simp]: "(\<forall>a b. got \<noteq> Some (a, b)) \<longleftrightarrow> got = None"
  by (cases got) auto

section \<open>The transport operations\<close>

lemma decode_path: "mcapi_trans_decode_handle h = Some (d, n, e) \<Longrightarrow> path_ok d n e"
  using endpt.decode_valid [of h "(d, n, e)"] by (simp add: path_ok_def)

lemma held_db: "held r st \<Longrightarrow> db_inv st"
  by (simp add: held_def)

lemma send_held:
  "held r st \<Longrightarrow> path_ok d n e \<Longrightarrow> mcapi_trans_send_have_lock d n e pt sz scl st = Some (ok, st') \<Longrightarrow> held r st'"
  using send_inv [of st d n e pt sz scl ok st'] refs_keep_inv(2) [of st st' r] by (simp add: held_db)

lemma recv_held:
  "held r st \<Longrightarrow> path_ok d n e \<Longrightarrow> mcapi_trans_recv_have_lock d n e b bsz False ws env st = Some (res, st') \<Longrightarrow> held r st'"
  using recv_now_inv [of st d n e b bsz ws env res st'] refs_keep_inv(2) [of st st' r] by (simp add: held_db)

lemma recv_none_empty:
  "held r st \<Longrightarrow> path_ok d n e \<Longrightarrow> mcapi_trans_recv_have_lock d n e b bsz False ws env st = Some (None, st') \<Longrightarrow>
   mcapi_trans_empty_queue (queue_at st' d n e)"
  using recv_now_inv(3) [of st d n e b bsz ws env None st'] by (simp add: held_db)

lemma with_request_inv:
  assumes "with_request f st = Some (x, st')" and "sys_inv st"
    and f: "\<And>r st x st'. f r st = Some (x, st') \<Longrightarrow> held r st \<Longrightarrow> sys_inv st'"
  shows "sys_inv st'"
  using assms(1,2) reserve_inv [OF assms(2)] f
  by (auto simp: with_request_def split: option.splits prod.splits)

lemma setup_done_inv:
  "setup_request_have_lock hv hp status True sz buffer type nn pn dn r st = Some (rq, st') \<Longrightarrow> held r st \<Longrightarrow> sys_inv st'"
  using setup_inv [of hv hp status True sz buffer type nn pn dn r st rq st'] by blast

lemma recv_setup_inv:
  assumes "held r st" and "mcapi_trans_decode_handle hv = Some (d, n, e)"
    and "mcapi_trans_recv_have_lock d n e b bsz False ws env st = Some (got, st1)"
    and "setup_request_have_lock hv hp status (got \<noteq> None) sz buffer RECV nn pn dn r st1 = Some (rq, st')"
  shows "sys_inv st'"
proof (rule setup_inv [OF assms(4)])
  note p = decode_path [OF assms(2)]
  show "held r st1" by (rule recv_held [OF assms(1) p assms(3)])
  show "\<exists>d n e. mcapi_trans_decode_handle hv = Some (d, n, e) \<and> mcapi_trans_empty_queue (queue_at st1 d n e)"
    if "\<not> got \<noteq> None" using recv_none_empty [OF assms(1) p] assms(2,3) that by auto
qed

lemma recv_none_inv:
  "held r st \<Longrightarrow> mcapi_trans_decode_handle hv = Some (d, n, e) \<Longrightarrow>
   mcapi_trans_recv_have_lock d n e b bsz False ws env st = Some (None, st1) \<Longrightarrow>
   setup_request_have_lock hv hp status False sz buffer RECV nn pn dn r st1 = Some (rq, st') \<Longrightarrow> sys_inv st'"
  using recv_setup_inv [of r st hv d n e b bsz ws env None st1] by simp

lemma msg_send_i_sound: "sound sys_inv (mcapi_trans_msg_send_i se re b sz status)"
  unfolding mcapi_trans_msg_send_i_def
proof (rule sound_lock(1), erule with_request_inv, assumption)
  fix r st x st'
  assume s: "do {
       (status, st) \<leftarrow> (if status = MCAPI_SUCCESS then do {
           sp \<leftarrow> mcapi_trans_decode_handle se;
           (rd, rn, re) \<leftarrow> mcapi_trans_decode_handle re;
           mcapi_assert (no_channel sp st);
           mcapi_assert (no_channel (rd, rn, re) st);
           (sent, st) \<leftarrow> mcapi_trans_send_have_lock rd rn re b sz 0 st;
           Some (if sent then status else MCAPI_ERR_MEM_LIMIT, st)
         } else Some (status, st));
       (rq, st) \<leftarrow> setup_request_have_lock re 0 status True sz NoBuf SEND 0 0 0 r st;
       Some ((Some rq, MCAPI_SUCCESS), st)
     } = Some (x, st')" and h: "held r st"
  show "sys_inv st'"
    using s h by (auto simp: bind_eq_Some_conv split: if_splits)
      (blast intro: setup_done_inv send_held [OF h decode_path])+
qed

lemma msg_recv_i_sound: "sound sys_inv (mcapi_trans_msg_recv_i re b sz status)"
  unfolding mcapi_trans_msg_recv_i_def
proof (rule sound_lock(1), erule with_request_inv, assumption)
  fix r st x st'
  assume s: "do {
       (compl, buffer_size, st) \<leftarrow> (if status = MCAPI_SUCCESS then do {
           (rd, rn, re) \<leftarrow> mcapi_trans_decode_handle re;
           mcapi_assert (no_channel (rd, rn, re) st);
           (got, st) \<leftarrow> mcapi_trans_recv_have_lock rd rn re (Local b) sz False False [] st;
           Some (case got of Some (received_size, _) \<Rightarrow> (True, received_size, st) | None \<Rightarrow> (False, sz, st))
         } else Some (True, sz, st));
       (rq, st) \<leftarrow> setup_request_have_lock re 0 status compl buffer_size (Local b) RECV 0 0 0 r st;
       Some ((Some rq, status), st)
     } = Some (x, st')" and h: "held r st"
  show "sys_inv st'"
    using s h by (auto simp: bind_eq_Some_conv split: if_splits option.splits prod.splits)
      (blast intro: setup_done_inv recv_held [OF h decode_path] recv_none_inv [OF h])+
qed

text \<open>Changes that leave the rings, the buffers and the requests alone.\<close>

definition same_ring :: "queue \<Rightarrow> queue \<Rightarrow> bool" where
  "same_ring q' q \<longleftrightarrow> head q' = head q \<and> tail q' = tail q \<and> num_elements q' = num_elements q \<and> elements q' = elements q"

lemma same_ring_views: "same_ring q' q \<Longrightarrow> queue_inv q' = queue_inv q" "same_ring q' q \<Longrightarrow> abs_queue q' = abs_queue q"
  by (simp_all add: same_ring_def queue_inv_def abs_queue_def window_def beyond_def slots_def qlen_def)

definition rings_keep :: "mcapi_state \<Rightarrow> mcapi_state \<Rightarrow> bool" where
  "rings_keep st st' \<longleftrightarrow> (\<forall>d n e. same_ring (queue_at st' d n e) (queue_at st d n e)) \<and> buffers st' = buffers st \<and>
     requests st' = requests st \<and> request_reserves_header st' = request_reserves_header st"

lemma rings_keep_inv:
  assumes "rings_keep st st'"
  shows "sys_inv st \<Longrightarrow> sys_inv st'" and "held r st \<Longrightarrow> held r st'"
proof -
  have s: "db_inv st' \<and> refs_keep st st'" if db: "db_inv st"
  proof -
    have q: "queue_inv (queue_at st' d n e) \<and> abs_queue (queue_at st' d n e) = abs_queue (queue_at st d n e)"
      if "path_ok d n e" for d n e
      using db_inv_queue [OF db that] assms same_ring_views [of "queue_at st' d n e" "queue_at st d n e"]
      by (simp add: rings_keep_def queue_ok_def)
    have "magic_num (buffers st' i) = magic_num (buffers st i)" for i using assms by (simp add: rings_keep_def)
    from db_inv_same [OF db q this] show ?thesis using assms by (auto simp: rings_keep_def refs_keep_def)
  qed
  show "sys_inv st \<Longrightarrow> sys_inv st'" "held r st \<Longrightarrow> held r st'"
    using s refs_keep_inv [of st st'] by (auto simp: sys_inv_def held_def)
qed

lemma rings_keep_user [simp]: "rings_keep st (st\<lparr>user_ptrs := u\<rparr>)" "rings_keep st (st\<lparr>user_endpts := v\<rparr>)"
    "rings_keep st (st\<lparr>user_bytes := w\<rparr>)" "rings_keep st st"
  by (simp_all add: rings_keep_def same_ring_def queue_at_def endpoint_at_def node_at_def)

lemma connect_keeps: "mcapi_trans_connect_channel_have_lock se re ct st = Some st' \<Longrightarrow> rings_keep st st'"
  by (auto simp: mcapi_trans_connect_channel_have_lock_def bind_eq_Some_conv rings_keep_def same_ring_def frame_simps
    queue_at_def [symmetric])

lemma open_close_keeps:
  "rings_keep st (mcapi_trans_open_channel_have_lock d n e st)" "rings_keep st (mcapi_trans_close_channel_have_lock d n e st)"
  by (simp_all add: mcapi_trans_open_channel_have_lock_def mcapi_trans_close_channel_have_lock_def rings_keep_def
    same_ring_def frame_simps queue_at_def [symmetric])

lemmas keeps_held = rings_keep_inv(2) [OF connect_keeps] rings_keep_inv(2) [OF open_close_keeps(1)]
  rings_keep_inv(2) [OF open_close_keeps(2)] rings_keep_inv(2) [OF rings_keep_user(1)]

lemma connect_i_sound: "sound sys_inv (connect_i ct rt se re status)"
  unfolding connect_i_def
  by (rule sound_lock(1), erule with_request_inv, assumption)
    (auto simp: bind_eq_Some_conv split: if_splits intro: setup_done_inv keeps_held(1))

lemma close_i_sound: "sound sys_inv (close_i rt h status)"
  unfolding close_i_def
  by (rule sound_lock(1), erule with_request_inv, assumption)
    (auto simp: bind_eq_Some_conv split: if_splits intro: setup_done_inv keeps_held(3))

lemma open_i_sound: 
  assumes "rt \<noteq> RECV"
  shows "sound sys_inv (open_i ct rt ep status)"
  unfolding open_i_def
proof (rule sound_lock(1))
  fix st x st'
  have su: "setup_request_have_lock hv hp status' compl sz buffer rt nn pn dn r st1 = Some (rq, st2) \<Longrightarrow> held r st1 \<Longrightarrow> sys_inv st2"
    for hv hp status' compl sz buffer nn pn dn r st1 rq st2 using setup_inv assms by blast
  assume i: "sys_inv st"
  then show "(case mcapi_trans_reserve_request_have_lock st of
       (Some r, st) \<Rightarrow> do {
         (compl, handle, st) \<leftarrow> (if status = MCAPI_SUCCESS then do {
             (d, n, e) \<leftarrow> mcapi_trans_decode_handle ep;
             let st = mcapi_trans_open_channel_have_lock d n e st;
             h \<leftarrow> mcapi_trans_encode_handle d n e;
             Some (chan_type (queue_at st d n e) = ct, Some h, st)
           } else Some (True, None, st));
         (rq, st) \<leftarrow> setup_request_have_lock ep 0 status compl 0 NoBuf rt 0 0 0 r st;
         Some ((handle, Some rq, status), st) }
     | (None, st) \<Rightarrow> Some ((None, None, MCAPI_ERR_REQUEST_LIMIT), st)) = Some (x, st') \<Longrightarrow> sys_inv st'"
    using reserve_inv [OF i]
    by (auto simp: bind_eq_Some_conv Let_def split: if_splits option.splits prod.splits)
      (blast intro: su keeps_held(2))+
qed

lemma pktchan_send_i_sound: "sound sys_inv (mcapi_trans_pktchan_send_i h b sz status)"
  unfolding mcapi_trans_pktchan_send_i_def
  by (rule sound_lock(1), erule with_request_inv, assumption)
    (auto simp: bind_eq_Some_conv channel_peer_def split: if_splits, (blast intro: setup_done_inv send_held decode_path)+)

lemma pktchan_recv_i_sound: "sound sys_inv (mcapi_trans_pktchan_recv_i h a status)"
  unfolding mcapi_trans_pktchan_recv_i_def
proof (rule sound_lock(1), erule with_request_inv, assumption)
  fix r st x st'
  assume h: "held r st"
  then have h': "held r (st\<lparr>user_ptrs := (user_ptrs st)(a := NULL)\<rparr>)" by (rule keeps_held(4))
  show "do {
     (compl, sz, st) \<leftarrow> (if status = MCAPI_SUCCESS then do {
         (rd, rn, re) \<leftarrow> mcapi_trans_decode_handle h;
         let st = st\<lparr>user_ptrs := (user_ptrs st)(a := NULL)\<rparr>;
         (got, st) \<leftarrow> mcapi_trans_recv_have_lock rd rn re (Cell a) MCAPI_MAX_PKT_SIZE False False [] st;
         Some (case got of Some (received_size, _) \<Rightarrow> (True, received_size, st)
                         | None \<Rightarrow> (False, MCAPI_MAX_PKT_SIZE, st))
       } else Some (True, MCAPI_MAX_PKT_SIZE, st));
     (rq, st) \<leftarrow> setup_request_have_lock h 0 status compl sz (Cell a) RECV 0 0 0 r st;
     Some ((Some rq, status), st)
   } = Some (x, st') \<Longrightarrow> sys_inv st'"
    using h by (auto simp: bind_eq_Some_conv Let_def split: if_splits option.splits prod.splits)
      (blast intro: setup_done_inv recv_held [OF h' decode_path] recv_none_inv [OF h'])+
qed

lemma send_sys_inv:
  "sys_inv st \<Longrightarrow> path_ok d n e \<Longrightarrow> mcapi_trans_send_have_lock d n e pt sz scl st = Some (ok, st') \<Longrightarrow> sys_inv st'"
  using send_inv [of st d n e pt sz scl ok st'] refs_keep_inv(1) [of st st'] by (simp add: sys_inv_def)

lemma wait_message_inv:
  "env_ok P env \<Longrightarrow> P st \<Longrightarrow> wait_message d n e env st = Some st' \<Longrightarrow>
   P st' \<and> \<not> mcapi_trans_empty_queue (queue_at st' d n e)"
  by (induction env arbitrary: st) (auto split: if_splits)

lemma recv_waiting_inv:
  assumes "env_ok sys_inv env" and "sys_inv st" and p: "path_ok d n e"
    and s: "mcapi_trans_recv_have_lock d n e b bsz True ws env st = Some (res, st')"
  shows "sys_inv st'"
proof -
  from s obtain st1 where w: "wait_message d n e env st = Some st1"
    by (auto simp: mcapi_trans_recv_have_lock_def bind_eq_Some_conv)
  from wait_message_inv [OF assms(1,2) w] have i: "sys_inv st1" and ne: "\<not> mcapi_trans_empty_queue (queue_at st1 d n e)" by auto
  have "mcapi_trans_recv_have_lock d n e b bsz True ws [] st1 = Some (res, st')"
    using s w ne by (simp add: mcapi_trans_recv_have_lock_def)
  from recv_taken_inv [OF _ p ne this] i show ?thesis using refs_keep_inv(1) [of st1 st'] by (simp add: sys_inv_def)
qed

lemma sclchan_send_sound: "sound sys_inv (mcapi_trans_sclchan_send h x sz)"
  unfolding mcapi_trans_sclchan_send_def
  by (rule sound_lock(1)) (auto simp: bind_eq_Some_conv channel_peer_def, blast intro: send_sys_inv decode_path)

lemma sclchan_recv_sound: "env_ok sys_inv env \<Longrightarrow> sound sys_inv (mcapi_trans_sclchan_recv h sz env)"
  unfolding mcapi_trans_sclchan_recv_def
  by (rule sound_lock(1)) (auto simp: bind_eq_Some_conv, blast intro: recv_waiting_inv decode_path)

text \<open>
  Releasing a packet buffer: the application may release a buffer that was handed to it, that
  is, one that is in no queue.
\<close>

definition released_ok :: "ptr \<Rightarrow> mcapi_state \<Rightarrow> bool" where
  "released_ok b st \<longleftrightarrow> (\<forall>i d n e. b = McapiBuf i \<longrightarrow> path_ok d n e \<longrightarrow>
     encode_buff_index i \<notin> set (queue_bufs (queue_at st d n e)))"

lemma free_inv:
  assumes "sys_inv st" and "released_ok (McapiBuf i) st"
  shows "sys_inv (upd_buffer i (\<lambda>b. zero_buffer) st)"
proof -
  let ?st = "upd_buffer i (\<lambda>b. zero_buffer) st"
  have db: "db_inv st" using assms(1) by (simp add: sys_inv_def)
  have qa: "queue_at ?st = queue_at st" by (simp add: frame_simps)
  have "buffer_live ?st b" if "path_ok d n e" "b \<in> set (queue_bufs (queue_at st d n e))" for d n e b
  proof -
    from db_inv_queue [OF db that(1)] that(2) obtain j where "j < MCAPI_MAX_BUFFERS" "b = encode_buff_index j"
        "magic_num (buffers st j) \<noteq> 0"
      by (auto simp: queue_ok_def buffer_live_def)
    moreover have "j \<noteq> i" using assms(2) that calculation(2) by (auto simp: released_ok_def)
    ultimately show ?thesis unfolding buffer_live_def by (intro exI [of _ j]) (simp add: frame_simps)
  qed
  then have "db_inv ?st" using db unfolding db_inv_def queue_ok_def qa by blast
  moreover have "refs_keep st ?st" by (simp add: refs_keep_def queued_def qa frame_simps)
  ultimately show ?thesis using refs_keep_inv(1) assms(1) by blast
qed

lemma pktchan_free_inv:
  assumes "mcapi_trans_pktchan_free b sys = Some (ok, sys')"
  shows "sys' = sys\<lparr>shm := shm sys'\<rparr>"
    and "sys_inv (shm sys) \<Longrightarrow> released_ok b (shm sys) \<Longrightarrow> sys_inv (shm sys')"
  using assms free_inv by (auto simp: mcapi_trans_pktchan_free_def with_lock_Some split: ptr.splits if_splits)

section \<open>Endpoints\<close>

lemma queue_at_upd_node:
  "(\<And>e. recv_queue (endpoints (node_d (f (node_at st d n))) e) = queue_at st d n e) \<Longrightarrow> queue_at (upd_node d n f st) = queue_at st"
  by (intro ext) (simp add: queue_at_def endpoint_at_def upd_node_sel)

lemma num_endpoints_keeps:
  "rings_keep st (upd_node d n (\<lambda>nd. nd\<lparr>node_d := (node_d nd)\<lparr>num_endpoints := k nd\<rparr>\<rparr>) st)"
proof -
  have "queue_at (upd_node d n (\<lambda>nd. nd\<lparr>node_d := (node_d nd)\<lparr>num_endpoints := k nd\<rparr>\<rparr>) st) = queue_at st"
    by (rule queue_at_upd_node) (simp add: queue_at_def endpoint_at_def)
  then show ?thesis by (simp add: rings_keep_def same_ring_def frame_simps)
qed

lemma upd_endpoint_keeps:
  "recv_queue (f (endpoint_at st d n e)) = queue_at st d n e \<Longrightarrow> rings_keep st (upd_endpoint d n e f st)"
  by (simp add: rings_keep_def same_ring_def frame_simps)

lemma endpoint_create_sound: "sound sys_inv (mcapi_trans_endpoint_create port anon)"
  unfolding mcapi_trans_endpoint_create_def
  by (rule sound_with_lock)
    (auto simp: bind_eq_Some_conv Let_def queue_at_def split: if_splits
      intro!: rings_keep_inv(1) [OF num_endpoints_keeps] rings_keep_inv(1) [OF upd_endpoint_keeps])

lemma endpoint_get_keeps:
  "mcapi_trans_endpoint_get_have_lock ep dm nn pn st = Some (found, st') \<Longrightarrow> rings_keep st st'"
  by (auto simp: mcapi_trans_endpoint_get_have_lock_def bind_eq_Some_conv split: option.splits)

lemma endpoint_get_i_sound: "sound sys_inv (mcapi_trans_endpoint_get_i ep dm nn pn status)"
  unfolding mcapi_trans_endpoint_get_i_def
proof (rule sound_lock(1))
  fix st x st' assume i: "sys_inv st"
  have su: "setup_request_have_lock hv hp status' compl sz buffer GET_ENDPT nn' pn' dn' r st1 = Some (rq, st2) \<Longrightarrow>
      held r st1 \<Longrightarrow> sys_inv st2"
    for hv hp status' compl sz buffer nn' pn' dn' r st1 rq st2 using setup_inv by blast
  show "(case mcapi_trans_reserve_request_have_lock st of
       (Some r, st) \<Rightarrow> do {
         (compl, st) \<leftarrow> (if status = MCAPI_SUCCESS
            then mcapi_trans_endpoint_get_have_lock ep dm nn pn st else Some (False, st));
         (rq, st) \<leftarrow> setup_request_have_lock (user_endpts st ep) ep status compl 0 NoBuf GET_ENDPT
            nn pn dm r st;
         Some ((Some rq, status), st) }
     | (None, st) \<Rightarrow> Some ((None, status), st)) = Some (x, st') \<Longrightarrow> sys_inv st'"
    using reserve_inv [OF i] i
    by (auto simp: bind_eq_Some_conv split: if_splits option.splits prod.splits)
      (blast intro: su rings_keep_inv(2) [OF endpoint_get_keeps])+
qed

lemma endpoint_get_loop_inv:
  "endpoint_get_loop ep dm nn pn env st = Some st' \<Longrightarrow> env_ok sys_inv env \<Longrightarrow> sys_inv st \<Longrightarrow> sys_inv st'"
proof (induction env arbitrary: st)
  case Nil
  then show ?case by (subst (asm) endpoint_get_loop.simps)
    (auto simp: bind_eq_Some_conv split: if_splits dest: rings_keep_inv(1) [OF endpoint_get_keeps])
next
  case (Cons f env)
  from Cons.prems(1) obtain found st1 where g: "mcapi_trans_endpoint_get_have_lock ep dm nn pn st = Some (found, st1)"
    and r: "(if found then Some st1 else endpoint_get_loop ep dm nn pn env (f st1)) = Some st'"
    by (auto simp: endpoint_get_loop.simps [of ep dm nn pn "f # env"] bind_eq_Some_conv split: if_splits)
  from rings_keep_inv(1) [OF endpoint_get_keeps [OF g] Cons.prems(3)] r Cons.IH [of "f st1"] Cons.prems(2)
  show ?case by (auto split: if_splits)
qed

lemma endpoint_get_sound: "env_ok sys_inv env \<Longrightarrow> sound sys_inv (mcapi_trans_endpoint_get ep dm nn pn env)"
  unfolding mcapi_trans_endpoint_get_def by (rule sound_lock(1)) (auto dest: endpoint_get_loop_inv)

lemma zero_queue_facts: "queue_bufs zero_queue = []" "aq_requests (abs_queue zero_queue) = []" "aq_distinct (abs_queue zero_queue)"
  by (simp_all add: queue_bufs_def aq_distinct_def aq_requests_def zero_queue_inv)

text \<open>Emptying queues: the buffers in them stay allocated, the receives in them are forgotten.\<close>

lemma clear_queues_inv:
  assumes i: "sys_inv st"
    and q: "\<And>d n e. path_ok d n e \<Longrightarrow> queue_at st' d n e = queue_at st d n e \<or> queue_at st' d n e = zero_queue"
    and fr: "buffers st' = buffers st" "requests st' = requests st" "request_reserves_header st' = request_reserves_header st"
  shows "sys_inv st'"
proof -
  have db: "db_inv st" using i by (simp add: sys_inv_def)
  have l: "buffer_live st' = buffer_live st" by (simp add: buffer_live_def fr fun_eq_iff)
  have "queue_ok st' (queue_at st' d n e)" if "path_ok d n e" for d n e
    using q [OF that] db_inv_queue [OF db that] by (auto simp: queue_ok_def l zero_queue_facts zero_queue_inv(1))
  moreover have "set (queue_bufs (queue_at st' d n e)) \<inter> set (queue_bufs (queue_at st' d' n' e')) = {}"
    if "path_ok d n e" "path_ok d' n' e'" "(d, n, e) \<noteq> (d', n', e')" for d n e d' n' e'
    using q [OF that(1)] q [OF that(2)] db_inv_disjoint [OF db that] by (auto simp: zero_queue_facts)
  ultimately have "db_inv st'" unfolding db_inv_def by blast
  moreover have "queued st' d n e \<subseteq> queued st d n e" if "path_ok d n e" for d n e
    using q [OF that] by (auto simp: queued_def zero_queue_facts)
  then have "refs_keep st st'" using fr by (simp add: refs_keep_def)
  ultimately show ?thesis using refs_keep_inv(1) i by blast
qed

lemma endpoint_delete_sound: "sound sys_inv (mcapi_trans_endpoint_delete ep)"
  unfolding mcapi_trans_endpoint_delete_def
proof (rule sound_lock(1))
  fix st x st' assume i: "sys_inv st"
  let ?st1 = "\<lambda>d n. upd_node d n (\<lambda>nd. nd\<lparr>node_d := (node_d nd)\<lparr>num_endpoints := num_endpoints (node_d nd) - 1\<rparr>\<rparr>) st"
  have "sys_inv (upd_endpoint d n e (\<lambda>ep. zero_endpoint) (?st1 d n))" for d n e
    by (rule clear_queues_inv [OF rings_keep_inv(1) [OF num_endpoints_keeps i]]) (auto simp: frame_simps)
  then show "do {
     (d, n, e) \<leftarrow> mcapi_trans_decode_handle ep;
     let st = ?st1 d n;
     Some ((), upd_endpoint d n e (\<lambda>ep. zero_endpoint) st)
   } = Some (x, st') \<Longrightarrow> sys_inv st'" by (auto simp: bind_eq_Some_conv Let_def)
qed

section \<open>Requests\<close>

text \<open>A valid request that is no waiting receive is in no queue.\<close>

lemma not_waiting_held:
  assumes i: "sys_inv st" and r: "r < MCAPI_MAX_REQUESTS" "rvalid (requests st r)"
    and w: "completed (requests st r) \<or> rtype (requests st r) \<noteq> RECV"
  shows "held r st"
proof -
  from i obtain free full where l: "request_lists st free full" and k: "req_link st (set full)"
    and v: "valid_in st (set full)" and db: "db_inv st" unfolding sys_inv_def by blast
  have "\<not> waits_at st r p" for p using w by (auto simp: waits_at_def)
  then have "{x \<in> set full. waits_at st x p} = {x \<in> set full - {r}. waits_at st x p}" for p by blast
  with k have "req_link st (set full - {r})" unfolding req_link_def by simp
  with l v db r show ?thesis unfolding held_def valid_in_def by blast
qed

lemma decode_request_bound: "mcapi_trans_decode_request_handle rq = Some r \<Longrightarrow> r < MCAPI_MAX_REQUESTS"
  by (rule reqst.decode_valid)

lemma try_complete_inv:
  assumes i: "sys_inv st" and dr: "mcapi_trans_decode_request_handle rq = Some r" and v: "rvalid (requests st r)"
    and s: "try_complete rq r st = Some st'"
  shows "st' = st \<or> held r st'"
proof (cases "rtype (requests st r) = RECV")
  case True
  then show ?thesis using check_receive_inv [OF i dr] s by (auto simp: try_complete_def)
next
  case False
  have h: "held r st" by (rule not_waiting_held [OF i decode_request_bound [OF dr] v]) (simp add: False)
  have "held r st'"
    using s False dr h unfolding try_complete_def
    by (auto simp: check_open_channel_request_have_lock_def check_close_channel_request_have_lock_def
        check_get_endpt_request_have_lock_def bind_eq_Some_conv split: mcapi_request_type.splits if_splits
        intro: held_upd_request rings_keep_inv(2) [OF endpoint_get_keeps])
  then show ?thesis ..
qed

text \<open>Removing a completed request and clearing its entry.\<close>

lemma finish_inv:
  assumes "held r st"
  shows "sys_inv (upd_request r (\<lambda>rd. zero_request) (snd (mcapi_trans_remove_request_have_lock r st)))"
  by (rule idle_sys_inv [OF idle_upd_request [OF remove_inv(1) [OF assms]]]) (simp add: frame_simps)

lemma test_have_lock_inv:
  assumes i: "sys_inv st" and s: "test_have_lock rq sz status st = Some (x, st')"
  shows "sys_inv st'"
proof (cases "mcapi_trans_decode_request_handle rq")
  case None
  then show ?thesis using s i by (simp add: test_have_lock_def)
next
  case (Some r)
  show ?thesis
  proof (cases "rvalid (requests st r) \<and> \<not> cancelled (requests st r)")
    case False
    then show ?thesis using s i Some by (auto simp: test_have_lock_def split: if_splits)
  next
    case True
    with s Some obtain st1 where c: "(if completed (requests st r) then Some st else try_complete rq r st) = Some st1"
      and e: "completed (requests st1 r) \<longrightarrow> st' = upd_request r (\<lambda>rd. zero_request) (snd (mcapi_trans_remove_request_have_lock r st1))"
        "\<not> completed (requests st1 r) \<longrightarrow> st' = st1"
      by (auto simp: test_have_lock_def bind_eq_Some_conv Let_def split: if_splits)
    note v = decode_request_bound [OF Some] True [THEN conjunct1]
    have h: "held r st1" if "completed (requests st1 r)"
      using c that try_complete_inv [OF i Some v(2)] not_waiting_held [OF i v] by (auto split: if_splits)
    have "sys_inv st1" using c i try_complete_inv [OF i Some v(2)] held_sys_inv by (auto split: if_splits)
    then show ?thesis using h finish_inv e by (cases "completed (requests st1 r)") auto
  qed
qed

lemma test_i_sound: "sound sys_inv (mcapi_trans_test_i rq sz status)"
  unfolding mcapi_trans_test_i_def by (rule sound_lock(2)) (rule test_have_lock_inv)

lemma cancelled_inv:
  assumes "sys_inv st"
  shows "sys_inv (upd_request r (\<lambda>rd. rd\<lparr>cancelled := True\<rparr>) st)"
proof -
  let ?st = "upd_request r (\<lambda>rd. rd\<lparr>cancelled := True\<rparr>) st"
  have qa: "queue_at ?st = queue_at st" by (simp add: frame_simps)
  have db: "db_inv st" using assms by (simp add: sys_inv_def)
  have "db_inv ?st" using db_inv_same(1) [OF db, of ?st] db_inv_queue [OF db] by (simp add: qa frame_simps queue_ok_def)
  moreover have "waits_at ?st = waits_at st" by (auto simp: waits_at_def frame_simps fun_eq_iff)
  then have "req_link ?st = req_link st" by (simp add: req_link_def queued_def qa fun_eq_iff)
  moreover have "valid_in ?st = valid_in st" by (auto simp: valid_in_def frame_simps fun_eq_iff)
  moreover have "request_lists ?st = request_lists st" by (simp add: request_lists_def frame_simps fun_eq_iff)
  ultimately show ?thesis using assms by (simp add: sys_inv_def)
qed

lemma cancel_have_lock_inv:
  assumes i: "sys_inv st" and s: "cancel_have_lock rq status st = Some (x, st')"
  shows "sys_inv st'"
proof -
  from s obtain r where dr: "mcapi_trans_decode_request_handle rq = Some r" by (auto simp: cancel_have_lock_def bind_eq_Some_conv)
  let ?st = "upd_request r (\<lambda>rd. rd\<lparr>cancelled := True\<rparr>) st"
  have i': "sys_inv ?st" by (rule cancelled_inv [OF i])
  show ?thesis
  proof (cases "rvalid (requests st r) \<and> \<not> cancelled (requests st r) \<and> \<not> completed (requests st r)")
    case False
    then show ?thesis using s i dr by (auto simp: cancel_have_lock_def split: if_splits)
  next
    case True
    with s dr obtain st1 where c: "(case rtype (requests ?st r) of
           RECV \<Rightarrow> cancel_receive_request_have_lock rq ?st | GET_ENDPT \<Rightarrow> Some ?st | _ \<Rightarrow> None) = Some st1"
      and e: "st' = upd_request r (\<lambda>rd. zero_request) st1"
      by (auto simp: cancel_have_lock_def bind_eq_Some_conv Let_def)
    have v: "rvalid (requests ?st r)" using True by (simp add: frame_simps)
    have "held r st1"
    proof (cases "rtype (requests ?st r) = RECV")
      case True
      then show ?thesis using c cancel_receive_inv [OF i' dr] by simp
    next
      case False
      then have "st1 = ?st" using c by (auto split: mcapi_request_type.splits)
      then show ?thesis using not_waiting_held [OF i' decode_request_bound [OF dr] v] False by blast
    qed
    then show ?thesis unfolding e by (rule held_sys_inv [OF held_upd_request])
  qed
qed

lemma cancel_sound: "sound sys_inv (mcapi_trans_cancel rq status)"
  unfolding mcapi_trans_cancel_def by (rule sound_lock(2)) (rule cancel_have_lock_inv)

section \<open>What the interface relies on\<close>

text \<open>
  The contract between \<open>mcapi.c\<close> and the transport, for a property \<open>P\<close> of the shared
  memory: every operation that the interface calls and that writes the database keeps \<open>P\<close>.
  The checks only read. From it every call of the interface keeps \<open>P\<close>.
\<close>

locale transport_contract =
  fixes P :: "mcapi_state \<Rightarrow> bool"
  assumes send_i: "sound P (mcapi_trans_msg_send_i se re b sz status)"
    and recv_i: "sound P (mcapi_trans_msg_recv_i re b sz status)"
    and conn: "sound P (connect_i ct rt se re status)"
    and open_end: "rt \<noteq> RECV \<Longrightarrow> sound P (open_i ct rt ep status)"
    and close_end: "sound P (close_i rt h status)"
    and pkt_send_i: "sound P (mcapi_trans_pktchan_send_i h b sz status)"
    and pkt_recv_i: "sound P (mcapi_trans_pktchan_recv_i h a status)"
    and scl_send: "sound P (mcapi_trans_sclchan_send h x k)"
    and scl_recv: "env_ok P env \<Longrightarrow> sound P (mcapi_trans_sclchan_recv h k env)"
    and create: "sound P (mcapi_trans_endpoint_create port anon)"
    and get_i: "sound P (mcapi_trans_endpoint_get_i a dm nn pn status)"
    and get: "env_ok P env \<Longrightarrow> sound P (mcapi_trans_endpoint_get a dm nn pn env)"
    and delete: "sound P (mcapi_trans_endpoint_delete ep)"
    and test: "sound P (mcapi_trans_test_i rq sz status)"
    and cancel: "sound P (mcapi_trans_cancel rq status)"
begin

lemma wait_loop_keeps:
  assumes "env_ok P env" and "wait_loop rq sz status timeout time env sys = Some (x, sys')"
  shows "sys' = sys\<lparr>shm := shm sys'\<rparr> \<and> (P (shm sys) \<longrightarrow> P (shm sys'))"
  using assms
proof (induction env arbitrary: rq sz status time sys)
  case Nil
  from Nil.prems(2) obtain y sys1 where "mcapi_trans_test_i rq sz status sys = Some (y, sys1)" "sys' = sys1"
    by (auto simp: wait_loop.simps [of rq sz status timeout time "[]"] bind_eq_Some_conv Let_def split: if_splits)
  with soundD [OF test] show ?case by blast
next
  case (Cons f env)
  from Cons.prems(2) obtain rc rq1 sz1 status1 sys1 where
    t: "mcapi_trans_test_i rq sz status sys = Some ((rc, rq1, sz1, status1), sys1)"
    and r: "rc \<and> sys' = sys1 \<or> sys' = env_step f sys1 \<or>
        wait_loop rq1 sz1 status1 timeout (time + 1) env (env_step f sys1) = Some (x, sys')"
    by (auto simp: wait_loop.simps [of rq sz status timeout time "f # env"] bind_eq_Some_conv Let_def split: if_splits)
  have e: "P (shm sys1) \<longrightarrow> P (shm (env_step f sys1))" "env_ok P env" using Cons.prems(1) by (simp_all add: env_step_def)
  from soundD [OF test t] have s1: "sys1 = sys\<lparr>shm := shm sys1\<rparr>" "P (shm sys) \<longrightarrow> P (shm sys1)" by auto
  have e1: "env_step f sys1 = sys\<lparr>shm := shm (env_step f sys1)\<rparr>" by (subst s1(1)) (simp add: env_step_def)
  from r show ?case
  proof (elim disjE)
    assume w: "wait_loop rq1 sz1 status1 timeout (time + 1) env (env_step f sys1) = Some (x, sys')"
    from Cons.IH [OF e(2) w] e1 have "sys' = sys\<lparr>shm := shm sys'\<rparr>" by (metis mcapi_sys.surjective mcapi_sys.update_convs(1))
    with Cons.IH [OF e(2) w] s1 e show ?thesis by blast
  qed (use s1 e e1 in auto)
qed

text \<open>A step of another node between two tests.\<close>

lemma env_step_keeps:
  assumes "sys1 = sys\<lparr>shm := shm sys1\<rparr>" and "\<forall>st. P st \<longrightarrow> P (f st)"
  shows "env_step f sys1 = sys\<lparr>shm := shm (env_step f sys1)\<rparr>" and "P (shm sys1) \<longrightarrow> P (shm (env_step f sys1))"
proof -
  show "env_step f sys1 = sys\<lparr>shm := shm (env_step f sys1)\<rparr>" by (subst assms(1)) (simp add: env_step_def)
  show "P (shm sys1) \<longrightarrow> P (shm (env_step f sys1))" using assms(2) by (simp add: env_step_def)
qed

lemma keeps_trans: "sys1 = sys\<lparr>shm := shm sys1\<rparr> \<Longrightarrow> sys' = sys1\<lparr>shm := shm sys'\<rparr> \<Longrightarrow> sys' = sys\<lparr>shm := shm sys'\<rparr>"
  for sys sys1 sys' :: mcapi_sys
  by (metis mcapi_sys.surjective mcapi_sys.update_convs(1))

lemma wait_any_loop_keeps:
  assumes "env_ok P env" and "wait_any_loop rqs i sz status timeout time env sys = Some (x, sys')"
  shows "sys' = sys\<lparr>shm := shm sys'\<rparr> \<and> (P (shm sys) \<longrightarrow> P (shm sys'))"
  using assms
proof (induction env arbitrary: rqs i sz status time sys)
  case Nil
  from Nil.prems(2) obtain rq y sys1 where "mcapi_trans_test_i rq sz status sys = Some (y, sys1)" "sys' = sys1"
    by (auto simp: wait_any_loop.simps [of rqs i sz status timeout time "[]"] bind_eq_Some_conv Let_def split: if_splits prod.splits)
  with soundD [OF test] show ?case by blast
next
  case (Cons f env)
  define i0 where "i0 = (if i < length rqs then i else 0)"
  define time0 where "time0 = (if i < length rqs then time else time + 1)"
  have it: "(if i < length rqs then (i, time) else (0, time + 1)) = (i0, time0)" by (simp add: i0_def time0_def)
  from Cons.prems(2) have run: "(do {
        ((rc, rq, sz, status), sys) \<leftarrow> mcapi_trans_test_i (rqs ! i0) sz status sys;
        let rqs = rqs[i0 := rq];
        if rc then Some ((of_nat i0, rqs, sz, status), sys)
        else if timeout \<noteq> MCA_INFINITE \<and> timeout \<le> time0
             then Some ((MCA_RETURN_VALUE_INVALID, rqs, sz, MCAPI_TIMEOUT), env_step f sys)
             else wait_any_loop rqs (Suc i0) sz status timeout time0 env (env_step f sys) }) = Some (x, sys')"
    unfolding wait_any_loop.simps [of rqs i sz status timeout time "f # env"] it list.case by (simp split: if_splits)
  then obtain rc rq1 sz1 status1 sys1 where t: "mcapi_trans_test_i (rqs ! i0) sz status sys = Some ((rc, rq1, sz1, status1), sys1)"
    and r: "sys' = sys1 \<or> sys' = env_step f sys1 \<or>
        wait_any_loop (rqs[i0 := rq1]) (Suc i0) sz1 status1 timeout time0 env (env_step f sys1) = Some (x, sys')"
    by (auto simp: bind_eq_Some_conv Let_def split: if_splits)
  from soundD [OF test t] have s1: "sys1 = sys\<lparr>shm := shm sys1\<rparr>" "P (shm sys) \<longrightarrow> P (shm sys1)" by auto
  from Cons.prems(1) have f: "\<forall>st. P st \<longrightarrow> P (f st)" "env_ok P env" by simp_all
  note e = env_step_keeps [OF s1(1) f(1)]
  from r show ?case
  proof (elim disjE)
    assume "wait_any_loop (rqs[i0 := rq1]) (Suc i0) sz1 status1 timeout time0 env (env_step f sys1) = Some (x, sys')"
    from Cons.IH [OF f(2) this] keeps_trans [OF e(1), of sys'] e(2) s1(2) show ?thesis by blast
  qed (use s1 e in auto)
qed

lemma wait_any_keeps: "env_ok P env \<Longrightarrow> sound P (mcapi_trans_wait_any rqs sz status timeout env)"
  unfolding sound_def mcapi_trans_wait_any_def using wait_any_loop_keeps by blast

lemma until_request_keeps:
  assumes op: "\<And>status. sound P (op status)"
    and "env_ok P env" and "until_request op status env sys = Some (rq, status', env', sys')"
  shows "sys' = sys\<lparr>shm := shm sys'\<rparr> \<and> (P (shm sys) \<longrightarrow> P (shm sys')) \<and> env_ok P env'"
  using assms(2,3)
proof (induction env arbitrary: status sys)
  case Nil
  then obtain y sys1 where "op status sys = Some (y, sys1)" "sys' = sys1" "env' = []"
    by (auto simp: until_request.simps [of op status "[]"] bind_eq_Some_conv split: if_splits)
  with soundD [OF op] show ?case by fastforce
next
  case (Cons f env)
  from Cons.prems(2) obtain y sys1 status1 where t: "op status sys = Some (y, sys1)"
    and r: "sys' = sys1 \<and> env' = f # env \<or> until_request op status1 env (env_step f sys1) = Some (rq, status', env', sys')"
    by (auto simp: until_request.simps [of op status "f # env"] bind_eq_Some_conv split: if_splits)
  from soundD [OF op t] have s1: "sys1 = sys\<lparr>shm := shm sys1\<rparr>" "P (shm sys) \<longrightarrow> P (shm sys1)" by auto
  from Cons.prems(1) have f: "\<forall>st. P st \<longrightarrow> P (f st)" "env_ok P env" by simp_all
  note e = env_step_keeps [OF s1(1) f(1)]
  from r show ?case
  proof (elim disjE)
    assume "until_request op status1 env (env_step f sys1) = Some (rq, status', env', sys')"
    from Cons.IH [OF f(2) this] keeps_trans [OF e(1), of sys'] e(2) s1(2) show ?thesis by blast
  qed (use s1 Cons.prems(1) in auto)
qed

lemma wait_keeps: "env_ok P env \<Longrightarrow> sound P (mcapi_trans_wait rq sz status timeout env)"
  unfolding sound_def mcapi_trans_wait_def using wait_loop_keeps by (auto simp: bind_eq_Some_conv)

lemma start_and_wait_keeps:
  assumes op: "\<And>status. sound P (op status)" and env: "env_ok P env"
  shows "sound P (start_and_wait op sz env)"
  unfolding sound_def
proof (intro allI impI)
  fix sys x sys' assume "start_and_wait op sz env sys = Some (x, sys')"
  then obtain rq status env1 sys1 y where 1: "until_request op MCAPI_SUCCESS env sys = Some (rq, status, env1, sys1)"
    and 2: "mcapi_trans_wait rq sz status MCA_INFINITE env1 sys1 = Some (y, sys')"
    by (auto simp: start_and_wait_def bind_eq_Some_conv)
  from until_request_keeps [OF op env 1] have k: "sys1 = sys\<lparr>shm := shm sys1\<rparr>" "P (shm sys) \<longrightarrow> P (shm sys1)" "env_ok P env1"
    by auto
  from soundD [OF wait_keeps [OF k(3)] 2] k keeps_trans [OF k(1), of sys']
  show "sys' = sys\<lparr>shm := shm sys'\<rparr> \<and> (P (shm sys) \<longrightarrow> P (shm sys'))" by blast
qed

end

section \<open>The application interface\<close>

lemma sound_if [sound_intros]: "sound P f \<Longrightarrow> sound P g \<Longrightarrow> sound P (\<lambda>sys. if b sys then f sys else g sys)"
  by (simp add: sound_def)

lemma sound_case_prod [sound_intros]: "(\<And>a b. sound P (f a b)) \<Longrightarrow> sound P (case x of (a, b) \<Rightarrow> f a b)"
  by (cases x) simp

lemma sound_case_option [sound_intros]:
  "sound P f \<Longrightarrow> (\<And>a. sound P (g a)) \<Longrightarrow> sound P (\<lambda>sys. case x of None \<Rightarrow> f sys | Some a \<Rightarrow> g a sys)"
  by (cases x) simp_all

lemma sound_const_check [sound_intros]: "sound P (const_check b)"
  by (simp add: sound_def const_check_def)

lemma sound_not_check [sound_intros]: "sound P c \<Longrightarrow> sound P (not_check c)"
  by (auto simp: sound_def not_check_def)

lemma sound_or_check [sound_intros]: "sound P c \<Longrightarrow> sound P c' \<Longrightarrow> sound P (or_check c c')"
  unfolding or_check_def [abs_def] by (rule sound_bind) (auto intro: sound_if sound_return)

lemma sound_first_error [sound_intros]:
  "sound P (first_error [])" "sound P c \<Longrightarrow> sound P (first_error cs) \<Longrightarrow> sound P (first_error ((c, err) # cs))"
proof -
  show "sound P (first_error [])" by (simp add: sound_def)
  assume "sound P c" "sound P (first_error cs)"
  then have "sound P (\<lambda>sys. c sys \<bind> (\<lambda>(b, sys). if b then Some (err, sys) else first_error cs sys))"
    by (intro sound_bind sound_if sound_return)
  then show "sound P (first_error ((c, err) # cs))" by (simp add: sound_def)
qed

lemma sound_when_ok [sound_intros]:
  assumes "sound P c" and "sound P f"
  shows "sound P (\<lambda>sys. c sys \<bind> (\<lambda>r. when_ok r dflt f))"
proof -
  have "sound P (\<lambda>sys. c sys \<bind> (\<lambda>(status, sys). if status = MCAPI_SUCCESS then f sys else Some ((dflt, status), sys)))"
    using assms by (intro sound_bind sound_if sound_return)
  then show ?thesis unfolding when_ok_def [abs_def] .
qed

lemma reading_sound:
  "sound P (mcapi_trans_valid_endpoint h)" "sound P (mcapi_trans_valid_endpoints h h')"
  "sound P (mcapi_trans_endpoint_channel_isopen h)" "sound P (mcapi_trans_channel_connected h)"
  "sound P (mcapi_trans_recv_endpoint h)" "sound P (mcapi_trans_send_endpoint h)" "sound P (mcapi_trans_channel_type h)"
  "sound P (mcapi_trans_pktchan_recv_isopen h)" "sound P (mcapi_trans_pktchan_send_isopen h)"
  "sound P (mcapi_trans_sclchan_recv_isopen h)" "sound P (mcapi_trans_sclchan_send_isopen h)"
  "sound P (mcapi_trans_valid_pktchan_send_handle h)" "sound P (mcapi_trans_valid_pktchan_recv_handle h)"
  "sound P (mcapi_trans_valid_sclchan_send_handle h)" "sound P (mcapi_trans_valid_sclchan_recv_handle h)"
  "sound P (mcapi_trans_msg_available h)" "sound P (mcapi_trans_pktchan_available h)"
  "sound P (mcapi_trans_sclchan_available_i h)" "sound P (mcapi_trans_endpoint_get_attribute h a)"
  by (auto simp: sound_def with_lock_Some mcapi_trans_valid_endpoint_def mcapi_trans_valid_endpoints_def
    mcapi_trans_endpoint_channel_isopen_def mcapi_trans_channel_connected_def mcapi_trans_recv_endpoint_def
    mcapi_trans_send_endpoint_def mcapi_trans_channel_type_def mcapi_trans_pktchan_recv_isopen_def
    mcapi_trans_pktchan_send_isopen_def mcapi_trans_sclchan_recv_isopen_def mcapi_trans_sclchan_send_isopen_def
    mcapi_trans_valid_pktchan_send_handle_def mcapi_trans_valid_pktchan_recv_handle_def
    mcapi_trans_valid_sclchan_send_handle_def mcapi_trans_valid_sclchan_recv_handle_def mcapi_trans_msg_available_def
    mcapi_trans_pktchan_available_def mcapi_trans_sclchan_available_i_def mcapi_trans_endpoint_get_attribute_def)

lemma caller_sound:
  "sound P (mcapi_trans_endpoint_exists domid port)" "sound P mcapi_trans_num_endpoints"
  "sound P (mcapi_trans_endpoint_isowner h)" "sound P (channel_type_is ct h)"
  by (auto simp: sound_def with_lock_Some mcapi_trans_endpoint_exists_def mcapi_trans_num_endpoints_def
    mcapi_trans_endpoint_isowner_def channel_type_is_def mcapi_trans_channel_type_def bind_eq_Some_conv)

lemmas checks_sound [sound_intros] = reading_sound caller_sound

lemma sound_case_sys: "(\<And>a b. sound P (f a b)) \<Longrightarrow> sound P (\<lambda>sys. case x sys of (a, b) \<Rightarrow> f a b sys)"
  by (auto simp: sound_def split: prod.splits)

lemma when_ok_pair: "when_ok (status, sys) dflt f = (if status = MCAPI_SUCCESS then f sys else Some ((dflt, status), sys))"
  by (simp add: when_ok_def)

text \<open>With the contract of the transport, every function of the interface is sound.\<close>

context transport_contract
begin

lemma msg_calls:
  "sound P (mcapi_msg_send_i se re b sz prio)" "sound P (mcapi_msg_recv_i re b sz rg)" "sound P (mcapi_msg_available re)"
  by (unfold mcapi_msg_send_i_def [abs_def] mcapi_msg_recv_i_def [abs_def] mcapi_msg_available_def count_if_ok_def [abs_def]
      msg_send_checks_def; intro sound_intros send_i recv_i)+

lemma blocking_sends:
  assumes "env_ok P env"
  shows "sound P (mcapi_trans_msg_send se re b sz env)" and "sound P (mcapi_trans_pktchan_send h b sz env)"
  unfolding mcapi_trans_msg_send_def [abs_def] mcapi_trans_pktchan_send_def [abs_def]
  by (intro sound_intros start_and_wait_keeps send_i pkt_send_i assms)+

lemma blocking_recvs:
  assumes "env_ok P env"
  shows "sound P (mcapi_trans_msg_recv re b sz k env)" and "sound P (mcapi_trans_pktchan_recv h a k env)"
  unfolding mcapi_trans_msg_recv_def [abs_def] mcapi_trans_pktchan_recv_def [abs_def]
  by (intro start_and_wait_keeps recv_i pkt_recv_i assms)+

lemma blocking_calls:
  assumes env: "env_ok P env"
  shows "sound P (mcapi_msg_send se re b sz prio env)" and "sound P (mcapi_msg_recv re b sz k env)"
    and "sound P (mcapi_pktchan_send h b sz env)" and "sound P (mcapi_pktchan_recv h cell k env)"
  unfolding mcapi_msg_send_def [abs_def] mcapi_msg_recv_def [abs_def] mcapi_pktchan_send_def [abs_def]
    mcapi_pktchan_recv_def [abs_def] msg_send_checks_def pktchan_send_checks_def
  by (intro sound_intros blocking_sends [OF env] blocking_recvs [OF env])+

lemma channel_calls:
  "sound P (mcapi_pktchan_connect_i se re)" "sound P (mcapi_sclchan_connect_i se re rg)"
  "sound P (mcapi_pktchan_recv_open_i ep rg)" "sound P (mcapi_pktchan_send_open_i ep rg)"
  "sound P (mcapi_sclchan_recv_open_i ep rg)" "sound P (mcapi_sclchan_send_open_i ep rg)"
  "sound P (mcapi_pktchan_recv_close_i h rg)" "sound P (mcapi_pktchan_send_close_i h rg)"
  "sound P (mcapi_sclchan_recv_close_i h rg)" "sound P (mcapi_sclchan_send_close_i h rg)"
  unfolding mcapi_pktchan_connect_i_def [abs_def] mcapi_sclchan_connect_i_def [abs_def]
    mcapi_pktchan_recv_open_i_def [abs_def] mcapi_pktchan_send_open_i_def [abs_def]
    mcapi_sclchan_recv_open_i_def [abs_def] mcapi_sclchan_send_open_i_def [abs_def]
    mcapi_pktchan_recv_close_i_def [abs_def] mcapi_pktchan_send_close_i_def [abs_def]
    mcapi_sclchan_recv_close_i_def [abs_def] mcapi_sclchan_send_close_i_def [abs_def]
    connect_checks_def open_checks_def close_checks_def
    mcapi_trans_pktchan_connect_i_def mcapi_trans_sclchan_connect_i_def mcapi_trans_pktchan_recv_open_i_def
    mcapi_trans_pktchan_send_open_i_def mcapi_trans_sclchan_recv_open_i_def mcapi_trans_sclchan_send_open_i_def
    mcapi_trans_pktchan_recv_close_i_def mcapi_trans_pktchan_send_close_i_def
    mcapi_trans_sclchan_recv_close_i_def mcapi_trans_sclchan_send_close_i_def
  by (intro sound_intros conn open_end close_end; simp)+

lemma transfer_calls:
  "sound P (mcapi_pktchan_send_i h b sz rg)" "sound P (mcapi_pktchan_recv_i h cell rg)"
  "sound P (mcapi_pktchan_available h)" "sound P (mcapi_sclchan_available h)"
  "sound P (sclchan_send_sized h x k)" "env_ok P env \<Longrightarrow> sound P (sclchan_recv_sized h k env)"
  unfolding mcapi_pktchan_send_i_def [abs_def] mcapi_pktchan_recv_i_def [abs_def] mcapi_pktchan_available_def
    mcapi_sclchan_available_def count_if_ok_def [abs_def] pktchan_send_checks_def sclchan_send_sized_def [abs_def]
    sclchan_recv_sized_def [abs_def]
  by (intro sound_intros pkt_send_i pkt_recv_i scl_send scl_recv; assumption?)+

lemma endpoint_create_call: "sound P (mcapi_endpoint_create port)"
proof -
  have "sound P (\<lambda>sys. case mcapi_domain_id_get sys of (domid, status) \<Rightarrow>
      if status \<noteq> MCAPI_SUCCESS then Some ((None, MCAPI_ERR_NODE_NOTINIT), sys)
      else first_error [(mcapi_trans_endpoint_exists domid port, MCAPI_ERR_ENDP_EXISTS),
              (\<lambda>sys. map_option (\<lambda>(k, sys). (k = MCAPI_MAX_ENDPOINTS, sys)) (mcapi_trans_num_endpoints sys), MCAPI_ERR_ENDP_LIMIT),
              (const_check (\<not> mcapi_trans_valid_port port), MCAPI_ERR_PORT_INVALID)] sys \<bind> (\<lambda>c.
       when_ok c None (\<lambda>sys. do {
         (e, sys) \<leftarrow> mcapi_trans_endpoint_create port False sys;
         Some ((e, if e = None then MCAPI_ERR_ENDP_NOPORTS else MCAPI_SUCCESS), sys)
       })))"
    by (intro sound_case_sys sound_intros create)
  then show ?thesis unfolding mcapi_endpoint_create_def [abs_def] Let_def .
qed

lemma endpoint_calls:
  "sound P (mcapi_endpoint_get_i dm nn pn a)"
  "env_ok P env \<Longrightarrow> sound P (mcapi_endpoint_get dm nn pn timeout a env)" "sound P (mcapi_endpoint_delete h)"
  "sound P (mcapi_endpoint_get_attribute h num)"
  unfolding mcapi_endpoint_get_i_def [abs_def] mcapi_endpoint_get_def [abs_def] mcapi_endpoint_delete_def [abs_def]
    mcapi_endpoint_get_attribute_def [abs_def] when_ok_pair Option.bind_assoc [symmetric]
  by (intro sound_intros get_i get delete; assumption?)+

lemma request_calls:
  "sound P (mcapi_test rq sg sz)" "env_ok P env \<Longrightarrow> sound P (mcapi_wait rq sg sz timeout env)"
  "env_ok P env \<Longrightarrow> sound P (mcapi_wait_any rqs sg sz timeout env)" "sound P (mcapi_cancel rq)"
  unfolding mcapi_test_def [abs_def] mcapi_wait_def [abs_def] mcapi_wait_any_def [abs_def] mcapi_cancel_def [abs_def]
  by (intro sound_intros test wait_keeps wait_any_keeps cancel; assumption?)+

end

interpretation safety: transport_contract sys_inv
  by unfold_locales (simp_all add: msg_send_i_sound msg_recv_i_sound connect_i_sound open_i_sound close_i_sound
    pktchan_send_i_sound pktchan_recv_i_sound sclchan_send_sound sclchan_recv_sound endpoint_create_sound
    endpoint_get_i_sound endpoint_get_sound endpoint_delete_sound test_i_sound cancel_sound)

end
