(* ===== verification/MCAPI_System.thy ===== *)
theory MCAPI_System
  imports MCAPI_Safety
begin

text \<open>
  The library in use: applications on several nodes call the functions of the interface in any
  order, nodes join and leave, signals arrive, and the applications write their own memory. The
  states of the shared database that can arise this way all satisfy the invariant.
\<close>

section \<open>Calls as data\<close>

datatype api_call =
    Endpoint_create u32 | Endpoint_get_i u32 u32 u32 addr | Endpoint_get u32 u32 u32 u32 addr
  | Endpoint_delete u32 | Endpoint_get_attribute u32 nat
  | Msg_send_i u32 u32 ptr nat u32 | Msg_send u32 u32 ptr nat u32
  | Msg_recv_i u32 ptr nat bool | Msg_recv u32 ptr nat nat | Msg_available u32
  | Pktchan_connect_i u32 u32 | Pktchan_recv_open_i u32 bool | Pktchan_send_open_i u32 bool
  | Pktchan_send_i u32 ptr nat bool | Pktchan_send u32 ptr nat
  | Pktchan_recv_i u32 "addr option" bool | Pktchan_recv u32 "addr option" nat
  | Pktchan_available u32 | Pktchan_release ptr
  | Pktchan_recv_close_i u32 bool | Pktchan_send_close_i u32 bool
  | Sclchan_connect_i u32 u32 bool | Sclchan_recv_open_i u32 bool | Sclchan_send_open_i u32 bool
  | Sclchan_send_uint64 u32 u64 | Sclchan_send_uint32 u32 u32 | Sclchan_send_uint16 u32 u16 | Sclchan_send_uint8 u32 byte
  | Sclchan_recv_uint64 u32 | Sclchan_recv_uint32 u32 | Sclchan_recv_uint16 u32 | Sclchan_recv_uint8 u32
  | Sclchan_available u32 | Sclchan_recv_close_i u32 bool | Sclchan_send_close_i u32 bool
  | Node_get_attribute u32 u32 nat bool nat
  | Test u32 bool nat | Wait u32 bool nat u32 | Wait_any "u32 list" bool nat u32 | Cancel u32

text \<open>The state after a call; \<open>env\<close> is what the other nodes do whenever the call yields.\<close>

abbreviation "final r \<equiv> map_option snd r"

fun run_call :: "(mcapi_state \<Rightarrow> mcapi_state) list \<Rightarrow> api_call \<Rightarrow> mcapi_sys \<Rightarrow> mcapi_sys option" where
  "run_call env (Endpoint_create p) sys = final (mcapi_endpoint_create p sys)"
| "run_call env (Endpoint_get_i d n p a) sys = final (mcapi_endpoint_get_i d n p a sys)"
| "run_call env (Endpoint_get d n p t a) sys = final (mcapi_endpoint_get d n p t a env sys)"
| "run_call env (Endpoint_delete h) sys = final (mcapi_endpoint_delete h sys)"
| "run_call env (Endpoint_get_attribute h k) sys = final (mcapi_endpoint_get_attribute h k sys)"
| "run_call env (Msg_send_i s r b k p) sys = final (mcapi_msg_send_i s r b k p sys)"
| "run_call env (Msg_send s r b k p) sys = final (mcapi_msg_send s r b k p env sys)"
| "run_call env (Msg_recv_i r b k g) sys = final (mcapi_msg_recv_i r b k g sys)"
| "run_call env (Msg_recv r b k z) sys = final (mcapi_msg_recv r b k z env sys)"
| "run_call env (Msg_available h) sys = final (mcapi_msg_available h sys)"
| "run_call env (Pktchan_connect_i s r) sys = final (mcapi_pktchan_connect_i s r sys)"
| "run_call env (Pktchan_recv_open_i h g) sys = final (mcapi_pktchan_recv_open_i h g sys)"
| "run_call env (Pktchan_send_open_i h g) sys = final (mcapi_pktchan_send_open_i h g sys)"
| "run_call env (Pktchan_send_i h b k g) sys = final (mcapi_pktchan_send_i h b k g sys)"
| "run_call env (Pktchan_send h b k) sys = final (mcapi_pktchan_send h b k env sys)"
| "run_call env (Pktchan_recv_i h a g) sys = final (mcapi_pktchan_recv_i h a g sys)"
| "run_call env (Pktchan_recv h a z) sys = final (mcapi_pktchan_recv h a z env sys)"
| "run_call env (Pktchan_available h) sys = final (mcapi_pktchan_available h sys)"
| "run_call env (Pktchan_release b) sys = final (mcapi_pktchan_release b sys)"
| "run_call env (Pktchan_recv_close_i h g) sys = final (mcapi_pktchan_recv_close_i h g sys)"
| "run_call env (Pktchan_send_close_i h g) sys = final (mcapi_pktchan_send_close_i h g sys)"
| "run_call env (Sclchan_connect_i s r g) sys = final (mcapi_sclchan_connect_i s r g sys)"
| "run_call env (Sclchan_recv_open_i h g) sys = final (mcapi_sclchan_recv_open_i h g sys)"
| "run_call env (Sclchan_send_open_i h g) sys = final (mcapi_sclchan_send_open_i h g sys)"
| "run_call env (Sclchan_send_uint64 h x) sys = final (mcapi_sclchan_send_uint64 h x sys)"
| "run_call env (Sclchan_send_uint32 h y) sys = final (mcapi_sclchan_send_uint32 h y sys)"
| "run_call env (Sclchan_send_uint16 h z) sys = final (mcapi_sclchan_send_uint16 h z sys)"
| "run_call env (Sclchan_send_uint8 h v) sys = final (mcapi_sclchan_send_uint8 h v sys)"
| "run_call env (Sclchan_recv_uint64 h) sys = final (mcapi_sclchan_recv_uint64 h env sys)"
| "run_call env (Sclchan_recv_uint32 h) sys = final (mcapi_sclchan_recv_uint32 h env sys)"
| "run_call env (Sclchan_recv_uint16 h) sys = final (mcapi_sclchan_recv_uint16 h env sys)"
| "run_call env (Sclchan_recv_uint8 h) sys = final (mcapi_sclchan_recv_uint8 h env sys)"
| "run_call env (Sclchan_available h) sys = final (mcapi_sclchan_available h sys)"
| "run_call env (Sclchan_recv_close_i h g) sys = final (mcapi_sclchan_recv_close_i h g sys)"
| "run_call env (Sclchan_send_close_i h g) sys = final (mcapi_sclchan_send_close_i h g sys)"
| "run_call env (Node_get_attribute d n k g z) sys = final (mcapi_node_get_attribute d n k g z sys)"
| "run_call env (Test r g k) sys = final (mcapi_test r g k sys)"
| "run_call env (Wait r g k t) sys = final (mcapi_wait r g k t env sys)"
| "run_call env (Wait_any rs g k t) sys = final (mcapi_wait_any rs g k t env sys)"
| "run_call env (Cancel r) sys = final (mcapi_cancel r sys)"

text \<open>The one duty of the application: it releases only packet buffers that it was given.\<close>

fun allowed :: "api_call \<Rightarrow> mcapi_state \<Rightarrow> bool" where
  "allowed (Pktchan_release b) st = released_ok b st"
| "allowed _ st = True"

definition keeps_inv :: "mcapi_sys \<Rightarrow> mcapi_sys \<Rightarrow> bool" where
  "keeps_inv sys sys' \<longleftrightarrow> sys' = sys\<lparr>shm := shm sys'\<rparr> \<and> (sys_inv (shm sys) \<longrightarrow> sys_inv (shm sys'))"

lemma truncated_sound: "sound P f \<Longrightarrow> sound P (\<lambda>sys. truncated (f sys))"
  unfolding truncated_def sound_def by fastforce

lemma node_get_attribute_call: "sound P (mcapi_node_get_attribute d n k g z)"
  unfolding sound_def mcapi_node_get_attribute_def mcapi_trans_node_get_attribute_def
  by (auto simp: bind_eq_Some_conv with_lock_Some reading_def split: if_splits)

lemma final_sound:
  "sound P f \<Longrightarrow> final (f sys) = Some sys' \<Longrightarrow> sys' = sys\<lparr>shm := shm sys'\<rparr> \<and> (P (shm sys) \<longrightarrow> P (shm sys'))"
  by (auto simp: sound_def)

text \<open>Every call but the release of a packet keeps what all operations of the transport keep.\<close>

context transport_contract
begin

lemma scalar_sends:
  "sound P (mcapi_sclchan_send_uint64 h x)" "sound P (mcapi_sclchan_send_uint32 h y)"
  "sound P (mcapi_sclchan_send_uint16 h z)" "sound P (mcapi_sclchan_send_uint8 h v)"
  unfolding mcapi_sclchan_send_uint64_def mcapi_sclchan_send_uint32_def mcapi_sclchan_send_uint16_def
    mcapi_sclchan_send_uint8_def
  by (rule transfer_calls)+

lemma scalar_recvs:
  assumes "env_ok P env"
  shows "sound P (mcapi_sclchan_recv_uint64 h env)" "sound P (mcapi_sclchan_recv_uint32 h env)"
    "sound P (mcapi_sclchan_recv_uint16 h env)" "sound P (mcapi_sclchan_recv_uint8 h env)"
  unfolding mcapi_sclchan_recv_uint64_def [abs_def] mcapi_sclchan_recv_uint32_def [abs_def]
    mcapi_sclchan_recv_uint16_def [abs_def] mcapi_sclchan_recv_uint8_def [abs_def]
  by (intro transfer_calls truncated_sound assms)+

lemmas interface_sound = msg_calls blocking_calls channel_calls transfer_calls
  endpoint_create_call endpoint_calls request_calls node_get_attribute_call scalar_sends scalar_recvs

lemma run_call_contract:
  assumes "run_call env c sys = Some sys'" and env: "env_ok P env" and "\<And>b. c \<noteq> Pktchan_release b"
  shows "sys' = sys\<lparr>shm := shm sys'\<rparr> \<and> (P (shm sys) \<longrightarrow> P (shm sys'))"
proof (cases c)
  case (Pktchan_release b)
  with assms(3) show ?thesis by blast
qed (use assms(1) in \<open>simp only: run_call.simps\<close>, erule final_sound [rotated], intro interface_sound env)+

end

lemma release_inv:
  assumes "mcapi_pktchan_release b sys = Some (status, sys')" and "released_ok b (shm sys)"
  shows "keeps_inv sys sys'"
  using assms pktchan_free_inv [of b sys]
  by (auto simp: mcapi_pktchan_release_def keeps_inv_def bind_eq_Some_conv)

lemma run_call_keeps:
  assumes "run_call env c sys = Some sys'" and env: "env_ok sys_inv env" and "allowed c (shm sys)"
  shows "keeps_inv sys sys'"
proof (cases "\<exists>b. c = Pktchan_release b")
  case True
  with assms show ?thesis by (auto intro: release_inv)
next
  case False
  with safety.run_call_contract [OF assms(1) env] show ?thesis by (simp add: keeps_inv_def)
qed

section \<open>Nodes that join and leave\<close>

lemma pre_shm: "mcapi_trans_access_database_pre sys = Some (ok, sys') \<Longrightarrow> shm sys' = shm sys"
  by (auto simp: mcapi_trans_access_database_pre_def bind_eq_Some_conv split: if_splits)

lemma post_shm: "mcapi_trans_access_database_post sys = Some (ok, sys') \<Longrightarrow> shm sys' = shm sys"
  by (auto simp: mcapi_trans_access_database_post_def bind_eq_Some_conv split: if_splits)

lemma add_node_sel:
  "buffers (add_node d n domid node p t attrs st) = buffers st" "requests (add_node d n domid node p t attrs st) = requests st"
  "request_reserves_header (add_node d n domid node p t attrs st) = request_reserves_header st"
  "path_ok d' n' e' \<Longrightarrow> queue_at (add_node d n domid node p t attrs st) d' n' e' =
     (if (d', n') = (d, n) then zero_queue else queue_at st d' n' e')"
  by (auto simp: add_node_def init_node_entry_def queue_at_def endpoint_at_def node_at_def upd_node_def Let_def path_ok_iff)

lemma initialize_shm:
  assumes "mcapi_trans_initialize m fresh p t domid node attrs sys = Some (ok, sys')" and "transport_sm_get_shared_mem m"
  shows "shm sys' = shm sys \<or> (\<exists>d n. find_node_entry domid node (shm sys) = Some (d, n) \<and>
     shm sys' = add_node d n domid node p t attrs (shm sys))"
  using assms(1)
  by (auto simp: mcapi_trans_initialize_def attach_database_def assms(2) bind_eq_Some_conv Let_def
    split: if_splits option.splits prod.splits dest!: pre_shm post_shm)

lemma retire_sel:
  "buffers (upd_node d n f st) = buffers st" "requests (upd_node d n f st) = requests st"
  "request_reserves_header (upd_node d n f st) = request_reserves_header st"
  "queue_at (upd_node d n (\<lambda>nd. nd\<lparr>node_valid := False\<rparr>) st) = queue_at st"
  by (auto simp: upd_node_def queue_at_def endpoint_at_def node_at_def fun_eq_iff)

lemma transport_sm_finalize_shm: "shm (snd (transport_sm_finalize m l lp fm sys)) = shm sys"
  by (simp add: transport_sm_finalize_def Let_def)

lemma retire_node_Some:
  "retire_node p sys st = Some (x, st') \<Longrightarrow> \<exists>d n. st' = upd_node d n (\<lambda>nd. nd\<lparr>node_valid := False\<rparr>) st"
  by (clarsimp simp: retire_node_def bind_eq_Some_conv Let_def) blast

lemma finalize_shm:
  assumes "mcapi_trans_finalize m p sys = Some (ok, sys')"
  shows "shm sys' = shm sys \<or> (\<exists>d n. shm sys' = upd_node d n (\<lambda>nd. nd\<lparr>node_valid := False\<rparr>) (shm sys))"
proof (cases "db_attached sys")
  case True
  with assms obtain l lp sys1 where r: "with_lock (retire_node p (sys\<lparr>finalize_ctr := 1\<rparr>)) (sys\<lparr>finalize_ctr := 1\<rparr>) = Some ((l, lp), sys1)"
    and s: "sys' = (let (rc, sys) = transport_sm_finalize m l lp True sys1;
        sys = (if lp then sys\<lparr>db_attached := False\<rparr> else sys) in sys\<lparr>finalize_ctr := 0\<rparr>)"
    by (auto simp: mcapi_trans_finalize_def bind_eq_Some_conv Let_def split_beta)
  from s have "shm sys' = shm sys1" by (simp add: Let_def split_beta transport_sm_finalize_shm)
  moreover from r obtain d n where "shm sys1 = upd_node d n (\<lambda>nd. nd\<lparr>node_valid := False\<rparr>) (shm sys)"
    using retire_node_Some unfolding with_lock_Some by fastforce
  ultimately show ?thesis by metis
qed (use assms in \<open>auto simp: mcapi_trans_finalize_def\<close>)

lemma finalize_inv:
  assumes "mcapi_trans_finalize m p sys = Some (ok, sys')" and "sys_inv (shm sys)"
  shows "sys_inv (shm sys')"
  using finalize_shm [OF assms(1)] assms(2) clear_queues_inv [OF assms(2), of "shm sys'"] by (auto simp: retire_sel)

lemma retire_process_inv:
  assumes "sys_inv st" shows "sys_inv (snd (retire_process sys st))"
proof (rule clear_queues_inv [OF assms])
  fix d n e
  show "queue_at (snd (retire_process sys st)) d n e = queue_at st d n e \<or> queue_at (snd (retire_process sys st)) d n e = zero_queue"
    by (simp add: retire_process_def Let_def queue_at_def endpoint_at_def node_at_def upd_node_def)
qed (simp_all add: retire_process_def Let_def upd_node_def)

lemma signal_shm:
  assumes "mcapi_trans_signal_handler m sys = Some sys'"
  shows "shm sys' = shm sys \<or> (\<exists>s. shm sys' = snd (retire_process s (shm sys)))"
proof -
  from assms obtain g sys1 where 1: "mcapi_trans_access_database_pre sys = Some (g, sys1)"
    by (auto simp: mcapi_trans_signal_handler_def bind_eq_Some_conv)
  obtain l sys2 where 2: "(if db_attached sys1 \<and> my_pid sys1 \<noteq> -1
        then (let (l, st) = retire_process sys1 (shm sys1) in (l, sys1\<lparr>shm := st\<rparr>)) else (True, sys1)) = (l, sys2)"
    by fastforce
  from assms obtain ok sys3 where 3: "(if g then mcapi_trans_access_database_post sys2 else Some (True, sys2)) = Some (ok, sys3)"
    and 4: "sys' = snd (transport_sm_finalize m l True False sys3)"
    unfolding mcapi_trans_signal_handler_def 1 Option.bind.bind_lunit prod.case 2 Let_def [of "(l, sys2)"]
    by (auto simp: bind_eq_Some_conv)
  have "shm sys2 = shm sys \<or> shm sys2 = snd (retire_process sys1 (shm sys))"
    using 2 pre_shm [OF 1] by (auto simp: Let_def split_beta split: if_splits)
  then show ?thesis using 3 4 post_shm [of sys2 ok sys3] transport_sm_finalize_shm [of m l True False sys3]
    by (auto split: if_splits)
qed

lemma signal_inv:
  assumes "mcapi_trans_signal_handler m sys = Some sys'" and "sys_inv (shm sys)"
  shows "sys_inv (shm sys')"
  using signal_shm [OF assms(1)] retire_process_inv [OF assms(2)] assms(2) by auto

lemma join_shm:
  assumes "mcapi_initialize m fresh p t domid node attrs sys = Some (status, sys')" and "transport_sm_get_shared_mem m"
  shows "shm sys' = shm sys \<or> (\<exists>d n. find_node_entry domid node (shm sys) = Some (d, n) \<and>
     shm sys' = add_node d n domid node p t attrs (shm sys))"
proof -
  have q: "shm sys2 = shm sys1" if "mcapi_trans_initialized sys1 = Some (b, sys2)" for sys1 sys2 b
    using that by (auto simp: mcapi_trans_initialized_def bind_eq_Some_conv Let_def dest!: pre_shm post_shm split: if_splits)
  show ?thesis
  proof (cases "mcapi_trans_valid_node node")
    case True
    with assms(1) obtain b sys1 where i: "mcapi_trans_initialized sys = Some (b, sys1)"
      and r: "sys' = sys1 \<or> (\<exists>ok. mcapi_trans_initialize m fresh p t domid node attrs sys1 = Some (ok, sys'))"
      by (auto simp: mcapi_initialize_def bind_eq_Some_conv split: if_splits)
    from r initialize_shm [OF _ assms(2), of fresh p t domid node attrs sys1 _ sys'] q [OF i] show ?thesis by auto
  qed (use assms(1) in \<open>auto simp: mcapi_initialize_def\<close>)
qed

lemma join_inv:
  assumes "mcapi_initialize m fresh p t domid node attrs sys = Some (status, sys')"
    and "transport_sm_get_shared_mem m" and "sys_inv (shm sys)"
  shows "sys_inv (shm sys')"
  using join_shm [OF assms(1,2)] assms(3) clear_queues_inv [OF assms(3), of "shm sys'"] by (auto simp: add_node_sel)

text \<open>Starting, stopping and the signal handler give the lock of the database back.\<close>

lemma pre_lock: "mcapi_trans_access_database_pre sys = Some (ok, sys') \<Longrightarrow> locked sys = 0 \<and> (\<not> ok \<longrightarrow> locked sys' = 0)"
  by (auto simp: mcapi_trans_access_database_pre_def bind_eq_Some_conv split: if_splits)

lemma post_lock: "mcapi_trans_access_database_post sys = Some (True, sys') \<Longrightarrow> locked sys' = 0"
  by (auto simp: mcapi_trans_access_database_post_def bind_eq_Some_conv split: if_splits)

lemma initialized_lock: "mcapi_trans_initialized sys = Some (b, sys') \<Longrightarrow> locked sys' = 0"
  by (auto simp: mcapi_trans_initialized_def bind_eq_Some_conv Let_def dest!: pre_lock post_lock split: if_splits)

lemma initialize_lock:
  assumes "mcapi_trans_initialize m fresh p t domid node attrs sys = Some (b, sys')" and "locked sys = 0"
  shows "locked sys' = 0"
proof -
  have e: "a\<lparr>initialize_ctr := x\<rparr> = c\<lparr>initialize_ctr := x\<rparr> \<Longrightarrow> locked a = locked c" for a c x
    by (metis mcapi_sys.select_convs(4) mcapi_sys.surjective mcapi_sys.update_convs(5))
  show ?thesis using assms
    by (auto simp: mcapi_trans_initialize_def bind_eq_Some_conv Let_def split_beta dest!: pre_lock post_lock e split: if_splits)
qed

lemma join_lock: "mcapi_initialize m fresh p t domid node attrs sys = Some (status, sys') \<Longrightarrow> locked sys = 0 \<Longrightarrow> locked sys' = 0"
  by (auto simp: mcapi_initialize_def bind_eq_Some_conv split: if_splits)
    (blast dest: initialized_lock initialize_lock)+

lemma transport_sm_finalize_lock: "locked (snd (transport_sm_finalize m l lp fm sys)) = locked sys"
  by (simp add: transport_sm_finalize_def Let_def)

lemma finalize_lock:
  assumes "mcapi_trans_finalize m p sys = Some (b, sys')" and "locked sys = 0"
  shows "locked sys' = 0"
proof (cases "db_attached sys")
  case True
  with assms obtain l lp sys1 where r: "with_lock (retire_node p (sys\<lparr>finalize_ctr := 1\<rparr>)) (sys\<lparr>finalize_ctr := 1\<rparr>) = Some ((l, lp), sys1)"
    and s: "sys' = (let (rc, sys) = transport_sm_finalize m l lp True sys1;
        sys = (if lp then sys\<lparr>db_attached := False\<rparr> else sys) in sys\<lparr>finalize_ctr := 0\<rparr>)"
    by (auto simp: mcapi_trans_finalize_def bind_eq_Some_conv Let_def split_beta)
  from s have "locked sys' = locked sys1" by (simp add: Let_def split_beta transport_sm_finalize_lock)
  moreover from r assms(2) have "locked sys1 = 0" unfolding with_lock_Some by auto
  ultimately show ?thesis by simp
qed (use assms in \<open>auto simp: mcapi_trans_finalize_def\<close>)

section \<open>All runs\<close>

text \<open>
  What a node can do. The resource layer finds the shared memory of a database that exists; a
  write replaces the memory of the applications.
\<close>

datatype move =
    Api api_call
  | Join mrapi_calls mcapi_state int int u32 u32 "attribute_entry carray option"
  | Leave mrapi_calls int
  | Signal mrapi_calls
  | Write "addr \<Rightarrow> byte carray" "addr \<Rightarrow> ptr" "addr \<Rightarrow> u32"

fun run_move :: "(mcapi_state \<Rightarrow> mcapi_state) list \<Rightarrow> move \<Rightarrow> mcapi_sys \<Rightarrow> mcapi_sys option" where
  "run_move env (Api c) sys = run_call env c sys"
| "run_move env (Join m fresh p t domid node attrs) sys = final (mcapi_initialize m fresh p t domid node attrs sys)"
| "run_move env (Leave m p) sys = final (mcapi_finalize m p sys)"
| "run_move env (Signal m) sys = mcapi_trans_signal_handler m sys"
| "run_move env (Write ub up ue) sys = Some (sys\<lparr>shm := (shm sys)\<lparr>user_bytes := ub, user_ptrs := up, user_endpts := ue\<rparr>\<rparr>)"

fun move_ok :: "move \<Rightarrow> mcapi_state \<Rightarrow> bool" where
  "move_ok (Api c) st = allowed c st"
| "move_ok (Join m fresh p t domid node attrs) st = transport_sm_get_shared_mem m"
| "move_ok _ st = True"

text \<open>What another node, with its own identity, does to the database while a call yields.\<close>

definition perform :: "mcapi_sys \<times> move \<Rightarrow> mcapi_state \<Rightarrow> mcapi_state" where
  "perform = (\<lambda>(sys, mv) st.
     if move_ok mv st then (case run_move [] mv (sys\<lparr>shm := st\<rparr>) of Some sys' \<Rightarrow> shm sys' | None \<Rightarrow> st) else st)"

definition created :: "mcapi_state \<Rightarrow> mcapi_state" where
  "created st = mcapi_trans_init_indexed_array_have_lock (clear_valid (new_database zero_state st))"

inductive reachable :: "mcapi_state \<Rightarrow> bool" where
  start: "reachable (created st)"
| step: "reachable (shm sys) \<Longrightarrow> move_ok mv (shm sys) \<Longrightarrow> run_move (map perform others) mv sys = Some sys' \<Longrightarrow> reachable (shm sys')"

lemma created_sel:
  "queue_at (created st) d n e = zero_queue" "requests (created st) r = zero_request" "buffers (created st) i = zero_buffer"
  by (simp_all add: created_def mcapi_trans_init_indexed_array_have_lock_def clear_valid_def new_database_def zero_state_def
      queue_at_def endpoint_at_def node_at_def Let_def)

lemma created_inv: "sys_inv (created st)"
proof -
  have "db_inv (created st)" by (simp add: db_inv_def created_sel queue_ok_def zero_queue_facts zero_queue_inv(1))
  moreover have "request_lists (created st) [0..<MCAPI_MAX_REQUESTS] []"
    unfolding created_def by (rule init_request_lists)
  moreover have "req_link (created st) {}" by (simp add: req_link_def queued_def created_sel zero_queue_facts)
  moreover have "valid_in (created st) {}" by (simp add: valid_in_def created_sel)
  ultimately show ?thesis unfolding sys_inv_def by (metis list.set(1))
qed

lemma write_inv:
  assumes "sys_inv st" shows "sys_inv (st\<lparr>user_bytes := ub, user_ptrs := up, user_endpts := ue\<rparr>)"
  by (rule clear_queues_inv [OF assms]) (simp_all add: queue_at_def endpoint_at_def node_at_def)

lemma run_move_keeps:
  assumes "run_move env mv sys = Some sys'" and "env_ok sys_inv env" and "move_ok mv (shm sys)" and i: "sys_inv (shm sys)"
  shows "sys_inv (shm sys')"
proof (cases mv)
  case (Api c)
  with assms run_call_keeps [of env c sys sys'] show ?thesis by (simp add: keeps_inv_def)
next
  case (Join m fresh p t domid node attrs)
  with assms join_inv show ?thesis by auto
next
  case (Leave m p)
  with assms(1) obtain ok where "mcapi_trans_finalize m p sys = Some (ok, sys')"
    by (auto simp: mcapi_finalize_def bind_eq_Some_conv)
  from finalize_inv [OF this i] show ?thesis .
next
  case (Signal m)
  with assms(1) signal_inv i show ?thesis by simp
next
  case (Write ub up ue)
  with assms(1) write_inv [OF i] show ?thesis by auto
qed

lemma perform_inv: "sys_inv st \<Longrightarrow> sys_inv (perform a st)"
  by (auto simp: perform_def split: prod.splits option.splits intro: run_move_keeps [of "[]"])

lemma perform_env_ok: "env_ok sys_inv (map perform others)"
  by (simp add: env_ok_def perform_inv)

lemma reachable_inv: "reachable st \<Longrightarrow> sys_inv st"
  by (induction rule: reachable.induct) (auto intro: created_inv run_move_keeps [OF _ perform_env_ok])

text \<open>A node of a new database, with the lock free.\<close>

definition node_sys :: "nat \<Rightarrow> mcapi_state \<Rightarrow> mcapi_sys" where
  "node_sys n st = \<lparr>shm = st, db_attached = True, rwl_ok = True, locked = 0, initialize_ctr = 0, finalize_ctr = 0,
     my_pid = int n + 1, my_tid = int n + 1, my_nindex = n, my_dindex = 0, my_node_num = of_nat n, my_domain_id = 0\<rparr>"

lemma signal_lock:
  assumes "mcapi_trans_signal_handler m sys = Some sys'" and "rwl_ok sys"
  shows "locked sys' = 0"
proof -
  obtain l sys2 where 2: "(if db_attached (sys\<lparr>locked := 1\<rparr>) \<and> my_pid (sys\<lparr>locked := 1\<rparr>) \<noteq> -1
        then (let (l, st) = retire_process (sys\<lparr>locked := 1\<rparr>) (shm (sys\<lparr>locked := 1\<rparr>)) in (l, (sys\<lparr>locked := 1\<rparr>)\<lparr>shm := st\<rparr>))
        else (True, sys\<lparr>locked := 1\<rparr>)) = (l, sys2)"
    by fastforce
  then have r: "rwl_ok sys2" using assms(2) by (auto simp: Let_def split_beta split: if_splits)
  from assms(1) have "locked sys = 0"
    by (auto simp: mcapi_trans_signal_handler_def bind_eq_Some_conv dest: pre_lock)
  then have 1: "mcapi_trans_access_database_pre sys = Some (True, sys\<lparr>locked := 1\<rparr>)"
    using assms(2) by (simp add: mcapi_trans_access_database_pre_def mcapi_assert_def)
  from assms(1) obtain ok sys3 where 3: "mcapi_trans_access_database_post sys2 = Some (ok, sys3)"
    and 4: "sys' = snd (transport_sm_finalize m l True False sys3)"
    unfolding mcapi_trans_signal_handler_def 1 Option.bind.bind_lunit prod.case 2 Let_def [of "(l, sys2)"]
    by (auto simp: bind_eq_Some_conv)
  from 3 r have "locked sys3 = 0" by (auto simp: mcapi_trans_access_database_post_def bind_eq_Some_conv)
  then show ?thesis by (simp add: 4 transport_sm_finalize_lock)
qed

lemma signal_lock_lost:
  assumes "mcapi_trans_signal_handler m sys = Some sys'" and "\<not> rwl_ok sys"
  shows "locked sys' = 0"
proof -
  from assms(1) have "locked sys = 0"
    by (auto simp: mcapi_trans_signal_handler_def bind_eq_Some_conv dest: pre_lock)
  then have 1: "mcapi_trans_access_database_pre sys = Some (False, sys)"
    using assms(2) by (simp add: mcapi_trans_access_database_pre_def mcapi_assert_def)
  from assms \<open>locked sys = 0\<close> show ?thesis
    unfolding mcapi_trans_signal_handler_def 1 Option.bind.bind_lunit prod.case
    by (auto simp: transport_sm_finalize_lock Let_def split_beta split: if_splits)
qed

lemma run_move_lock:
  assumes "run_move env mv sys = Some sys'" and "env_ok sys_inv env" and "move_ok mv (shm sys)" and "locked sys = 0"
  shows "locked sys' = 0"
proof (cases mv)
  case (Api c)
  with assms run_call_keeps [of env c sys sys'] have "sys' = sys\<lparr>shm := shm sys'\<rparr>" by (simp add: keeps_inv_def)
  with assms(4) show ?thesis by (metis mcapi_sys.select_convs(4) mcapi_sys.surjective mcapi_sys.update_convs(1))
next
  case (Join m fresh p t domid node attrs)
  with assms(1,4) join_lock show ?thesis by auto
next
  case (Leave m p)
  with assms(1,4) finalize_lock show ?thesis by (auto simp: mcapi_finalize_def bind_eq_Some_conv)
next
  case (Signal m)
  with assms(1) signal_lock signal_lock_lost show ?thesis by (cases "rwl_ok sys") auto
next
  case (Write ub up ue)
  with assms(1,4) show ?thesis by auto
qed

text \<open>
  C1: Whatever the other nodes do meanwhile, a call that a node makes with the lock free and that
  returns has given the lock back and keeps the invariant of the shared database. This holds for
  starting and stopping a node, for the signal handler and for every function of the interface
  that uses the database, with every argument; the latter also change nothing of the caller's
  own state. The application has one duty, to release only packet buffers that are in no queue,
  and a node that starts finds the shared memory that exists already.
\<close>

theorem every_call_keeps_invariant:
  assumes "run_move (map perform others) mv sys = Some sys'" and "move_ok mv (shm sys)" and "sys_inv (shm sys)"
    and "locked sys = 0"
  shows "sys_inv (shm sys') \<and> locked sys' = 0 \<and> (\<forall>c. mv = Api c \<longrightarrow> sys' = sys\<lparr>shm := shm sys'\<rparr>)"
proof (intro conjI allI impI)
  show "sys_inv (shm sys')" by (rule run_move_keeps [OF assms(1) perform_env_ok assms(2,3)])
  show "locked sys' = 0" by (rule run_move_lock [OF assms(1) perform_env_ok assms(2,4)])
  fix c assume "mv = Api c"
  with assms run_call_keeps [OF _ perform_env_ok, of others c sys sys'] show "sys' = sys\<lparr>shm := shm sys'\<rparr>"
    by (simp add: keeps_inv_def)
qed

theorem every_call_keeps_invariant_witness:
  "\<exists>sys'. run_move [] (Api (Endpoint_create 5)) (node_sys 0 (created zero_state)) = Some sys' \<and> sys_inv (shm sys') \<and> locked sys' = 0"
proof -
  have "\<not> Option.is_none (run_move [] (Api (Endpoint_create 5)) (node_sys 0 (created zero_state)))" by code_simp
  then obtain sys' where r: "run_move [] (Api (Endpoint_create 5)) (node_sys 0 (created zero_state)) = Some sys'"
    by (auto simp: Option.is_none_def)
  from every_call_keeps_invariant [of "[]" "Api (Endpoint_create 5)" "node_sys 0 (created zero_state)" sys'] r created_inv
  show ?thesis by (auto simp: node_sys_def)
qed

text \<open>
  C5: In every state that can arise from a new database, by any interleaving of calls, nodes
  joining and leaving, signals and writes of the applications, as long as they release only
  packet buffers that are in no queue and a node that joins finds the shared memory of the
  database, each queued message owns an
  allocated buffer of the pool, no buffer is queued twice or in two queues, and the handle of a
  receive request in a queue belongs to a request entry in use that waits at this very endpoint.
\<close>

theorem reachable_states_consistent:
  assumes "reachable st" and "path_ok d n e"
  shows "distinct (queue_bufs (queue_at st d n e)) \<and>
     (\<forall>b\<in>set (queue_bufs (queue_at st d n e)). \<exists>i<MCAPI_MAX_BUFFERS. b = encode_buff_index i \<and> magic_num (buffers st i) \<noteq> 0) \<and>
     (\<forall>d' n' e'. path_ok d' n' e' \<longrightarrow> (d', n', e') \<noteq> (d, n, e) \<longrightarrow>
        set (queue_bufs (queue_at st d' n' e')) \<inter> set (queue_bufs (queue_at st d n e)) = {}) \<and>
     (\<exists>free full. request_lists st free full \<and>
        (\<forall>rq\<in>queued st d n e. \<exists>r\<in>set full. rq = encode_request r \<and> waits_at st r (d, n, e)))"
proof -
  have i: "sys_inv st" using assms(1) by (rule reachable_inv)
  then have db: "db_inv st" by (simp add: sys_inv_def)
  note q = db_inv_queue [OF db assms(2)]
  from i obtain free full where l: "request_lists st free full" "req_link st (set full)" by (auto simp: sys_inv_def)
  have "\<forall>rq\<in>queued st d n e. \<exists>r\<in>set full. rq = encode_request r \<and> waits_at st r (d, n, e)"
    using l(2) assms(2) unfolding req_link_def by fastforce
  with l(1) q db_inv_disjoint [OF db _ assms(2)] show ?thesis
    unfolding queue_ok_def buffer_live_def by blast
qed

theorem reachable_states_consistent_witness:
  "\<exists>st. reachable st \<and> \<not> Option.is_none (run_call [] (Endpoint_create 5) (node_sys 0 (created zero_state))) \<and>
     distinct (queue_bufs (queue_at st 0 0 0))"
proof -
  have c: "\<not> Option.is_none (run_call [] (Endpoint_create 5) (node_sys 0 (created zero_state)))" by code_simp
  then obtain sys' where r: "run_call [] (Endpoint_create 5) (node_sys 0 (created zero_state)) = Some sys'"
    by (auto simp: Option.is_none_def)
  have "reachable (shm sys')"
    by (rule reachable.step [of "node_sys 0 (created zero_state)" "Api (Endpoint_create 5)" "[]"])
      (use r in \<open>simp_all add: node_sys_def reachable.start del: run_call.simps\<close>)
  with reachable_states_consistent [of "shm sys'" 0 0 0] c show ?thesis by (auto simp: path_ok_iff mcapi_limits)
qed

end
