(* ===== verification/MCAPI_Messages.thy ===== *)
theory MCAPI_Messages
  imports MCAPI_System
begin

text \<open>
  The calls of the interface that move messages, end to end: what a blocking or non-blocking send
  and receive do to the endpoints, to the application's memory and to the request pool.
\<close>

section \<open>What a call sees\<close>

text \<open>The endpoint behind a handle, in a state where a call may use it for messages.\<close>

definition message_endpoint :: "mcapi_state \<Rightarrow> u32 \<Rightarrow> nat \<times> nat \<times> nat \<Rightarrow> bool" where
  "message_endpoint st h p \<longleftrightarrow> mcapi_trans_decode_handle h = Some p \<and> (case p of (d, n, e) \<Rightarrow>
     domain_valid (domains st d) \<and> node_valid (node_at st d n) \<and> ep_valid (endpoint_at st d n e) \<and>
     chan_type (queue_at st d n e) = MCAPI_NO_CHAN)"

lemma same_db_views:
  assumes "domains st' = domains st" "buffers st' = buffers st"
  shows "queue_at st' = queue_at st" "ep_messages st' = ep_messages st" "ep_pending st' = ep_pending st"
    "db_inv st' = db_inv st" "ep_room d n e st' = ep_room d n e st" "endpoint_at st' = endpoint_at st"
    "find_buffer st' = find_buffer st" "message_endpoint st' = message_endpoint st"
proof -
  show q: "queue_at st' = queue_at st" "endpoint_at st' = endpoint_at st"
    using assms by (simp_all add: fun_eq_iff queue_at_def endpoint_at_def node_at_def)
  show "ep_messages st' = ep_messages st" "ep_pending st' = ep_pending st" "db_inv st' = db_inv st"
    "ep_room d n e st' = ep_room d n e st" "find_buffer st' = find_buffer st" "message_endpoint st' = message_endpoint st"
    using assms q by (simp_all add: fun_eq_iff ep_messages_def ep_pending_def payload_of_def db_inv_def queue_ok_def
        buffer_live_def ep_room_def free_buffers_def find_buffer_def message_endpoint_def node_at_def)
qed

lemma message_endpoint_path: "message_endpoint st h (d, n, e) \<Longrightarrow> path_ok d n e"
  unfolding message_endpoint_def using decode_path by blast

section \<open>Requests that are complete\<close>

lemma request_memory: "rq = encode_request r \<Longrightarrow> request_lists st free (ys @ r # zs) \<Longrightarrow> mcapi_trans_decode_request_handle rq = Some r"
  by (auto simp: request_lists_def lists_ok_def)

lemma test_finishes:
  assumes ready: "ready sys" and c: "rvalid (requests (shm sys) r)" "\<not> cancelled (requests (shm sys) r)" "r < MCAPI_MAX_REQUESTS"
    and t: "(if completed (requests (shm sys) r) then Some (shm sys) else try_complete (encode_request r) r (shm sys)) = Some st1"
      "completed (requests st1 r)" and l: "request_lists st1 free (ys @ r # zs)"
  obtains st' where "mcapi_trans_test_i (encode_request r) k status sys =
      Some ((True, 0, rsize (requests st1 r), rstatus (requests st1 r)), sys\<lparr>shm := st'\<rparr>)"
    and "request_lists st' (r # free) (ys @ zs)" and "requests st' = (requests st1)(r := zero_request)"
    and "domains st' = domains st1" "buffers st' = buffers st1" "user_bytes st' = user_bytes st1" "user_ptrs st' = user_ptrs st1"
proof -
  from remove_request_some [OF l] obtain st2 where r: "mcapi_trans_remove_request_have_lock r st1 = (True, st2)"
    "request_lists st2 (r # free) (ys @ zs)" "st2 = st1\<lparr>request_reserves_header := request_reserves_header st2\<rparr>" by metis
  have d: "mcapi_trans_decode_request_handle (encode_request r) = Some r" using c(3) by simp
  have s: "requests st2 = requests st1" "domains st2 = domains st1" "buffers st2 = buffers st1"
    "user_bytes st2 = user_bytes st1" "user_ptrs st2 = user_ptrs st1" by (subst r(3), simp)+
  show thesis
  proof (rule that)
    show "mcapi_trans_test_i (encode_request r) k status sys =
      Some ((True, 0, rsize (requests st1 r), rstatus (requests st1 r)), sys\<lparr>shm := upd_request r (\<lambda>rd. zero_request) st2\<rparr>)"
      using c t(2) by (simp add: mcapi_trans_test_i_def with_lock_unchecked_ready [OF ready] test_have_lock_def d t(1) r(1) s Let_def)
  qed (use r(2) s in \<open>simp_all add: frame_simps request_lists_def upd_request_def\<close>)
qed

lemma used_index: "request_lists st free (ys @ r # zs) \<Longrightarrow> r < MCAPI_MAX_REQUESTS"
  by (auto simp: request_lists_def lists_ok_def)

lemma test_completed:
  assumes l: "request_lists (shm sys) free (ys @ r # zs)" and ready: "ready sys"
    and c: "rvalid (requests (shm sys) r)" "\<not> cancelled (requests (shm sys) r)" "completed (requests (shm sys) r)"
  obtains st' where "mcapi_trans_test_i (encode_request r) k status sys =
      Some ((True, 0, rsize (requests (shm sys) r), rstatus (requests (shm sys) r)), sys\<lparr>shm := st'\<rparr>)"
    and "request_lists st' (r # free) (ys @ zs)" and "requests st' = (requests (shm sys))(r := zero_request)"
    and "domains st' = domains (shm sys)" "buffers st' = buffers (shm sys)" "user_bytes st' = user_bytes (shm sys)"
      "user_ptrs st' = user_ptrs (shm sys)"
  by (rule test_finishes [OF ready c(1,2) used_index [OF l] _ c(3) l, of k status]) (use c(3) that in auto)

lemma wait_completed:
  assumes "mcapi_trans_test_i rq k status sys = Some ((True, rq', k', status'), sys')"
    and "mcapi_trans_decode_request_handle rq = Some r"
  shows "mcapi_trans_wait rq k status timeout env sys = Some ((True, rq', k', status'), sys')"
  using assms by (simp add: mcapi_trans_wait_def wait_loop.simps Let_def)

section \<open>Sending\<close>

definition sent_message :: "mcapi_state \<Rightarrow> nat \<times> nat \<times> nat \<Rightarrow> byte list \<Rightarrow> mcapi_state \<Rightarrow> bool" where
  "sent_message st p bs st' \<longleftrightarrow> (case p of (d, n, e) \<Rightarrow>
     (\<exists>s. ep_messages st' d n e = ep_messages st d n e @
        [(if ep_pending st d n e = [] then 0 else hd (ep_pending st d n e), bs, s)]) \<and>
     ep_pending st' d n e = tl (ep_pending st d n e) \<and> ep_room d n e st' = ep_room d n e st - 1 \<and>
     chan_type (queue_at st' d n e) = chan_type (queue_at st d n e) \<and>
     (\<forall>d' n' e'. path_ok d' n' e' \<longrightarrow> (d', n', e') \<noteq> (d, n, e) \<longrightarrow>
        ep_messages st' d' n' e' = ep_messages st d' n' e' \<and> ep_pending st' d' n' e' = ep_pending st d' n' e') \<and>
     user_bytes st' = user_bytes st \<and> user_ptrs st' = user_ptrs st \<and> message_endpoint st' = message_endpoint st)"

text \<open>An operation that changes one queue, and that not in its type, keeps the endpoints as they are.\<close>

definition one_queue :: "nat \<times> nat \<times> nat \<Rightarrow> mcapi_state \<Rightarrow> mcapi_state \<Rightarrow> bool" where
  "one_queue p st st' \<longleftrightarrow> (\<forall>d n e. domain_valid (domains st' d) = domain_valid (domains st d) \<and>
     node_valid (node_at st' d n) = node_valid (node_at st d n) \<and>
     ep_valid (endpoint_at st' d n e) = ep_valid (endpoint_at st d n e) \<and>
     ((d, n, e) \<noteq> p \<longrightarrow> queue_at st' d n e = queue_at st d n e))"

lemma one_queue_endpoints:
  assumes "one_queue (d, n, e) st st'" and "chan_type (queue_at st' d n e) = chan_type (queue_at st d n e)"
  shows "message_endpoint st' = message_endpoint st"
proof -
  have "chan_type (queue_at st' d' n' e') = chan_type (queue_at st d' n' e')" for d' n' e'
    using assms by (cases "(d', n', e') = (d, n, e)") (auto simp: one_queue_def)
  with assms(1) show ?thesis by (simp add: fun_eq_iff message_endpoint_def one_queue_def)
qed

lemma send_one_queue: "mcapi_trans_send_have_lock d n e b sz x st = Some (ok, st') \<Longrightarrow> one_queue (d, n, e) st st'"
  by (auto simp: one_queue_def mcapi_trans_send_have_lock_def Let_def upd_queue_def set_queue_def frame_simps bind_eq_Some_conv
    split: if_splits)

lemma setup_one_queue:
  assumes "setup_request_have_lock hv hp status compl sz buffer type nn pn dn r st = Some (rq, st')"
    and "mcapi_trans_decode_handle hv = Some p"
  shows "one_queue p st st'"
proof -
  obtain d n e where p: "p = (d, n, e)" by (cases p) auto
  have u: "one_queue p st st1 \<Longrightarrow> one_queue p st (upd_request r g st1)" for g st1
    by (simp add: one_queue_def frame_simps)
  have b: "save_buffer r buffer q st1 = Some st2 \<Longrightarrow> one_queue p st st1 \<Longrightarrow> one_queue p st st2" for q st1 st2
    by (auto simp: one_queue_def frame_simps save_buffer_def bind_eq_Some_conv split: if_splits buffer_arg.splits)
  have q: "one_queue p st st1 \<Longrightarrow> one_queue p st (set_queue d n e q st1)" for q st1
    by (auto simp: one_queue_def frame_simps set_queue_def p)
  have r: "one_queue p st st" by (simp add: one_queue_def)
  show ?thesis
    using assms(1) by (auto simp: setup_request_have_lock_def Let_def bind_eq_Some_conv assms(2) p
      split: if_splits option.splits intro!: u [unfolded p] q [unfolded p] r [unfolded p] intro: b [unfolded p])
qed

lemma sent_message_cong:
  assumes "sent_message st1 p bs st2" "domains st1 = domains st" "buffers st1 = buffers st" "user_bytes st1 = user_bytes st"
    "user_ptrs st1 = user_ptrs st" "domains st' = domains st2" "buffers st' = buffers st2" "user_bytes st' = user_bytes st2"
    "user_ptrs st' = user_ptrs st2"
  shows "sent_message st p bs st'"
  using assms(1) unfolding sent_message_def same_db_views [OF assms(2,3)] same_db_views [OF assms(6,7)] assms(4,5,8,9) .

lemma setup_done:
  assumes "type \<noteq> GET_ENDPT"
  shows "setup_request_have_lock hv hp status True sz buffer type nn pn dn r st =
    Some (encode_request r, upd_request r (\<lambda>rd. rd\<lparr>rstatus := status, rsize := sz, cancelled := False, completed := True,
      rtype := type, rhandle := hv\<rparr>) st)"
  using assms by (simp add: setup_request_have_lock_def upd_request_def Let_def)

lemma send_i_ok:
  assumes ready: "ready sys" and inv: "sys_inv (shm sys)" and l: "request_lists (shm sys) (r # free) full"
    and se: "mcapi_trans_decode_handle se = Some (sd, sn, sp)" "chan_type (queue_at (shm sys) sd sn sp) = MCAPI_NO_CHAN"
    and re: "mcapi_trans_decode_handle re = Some (d, n, e)" "chan_type (queue_at (shm sys) d n e) = MCAPI_NO_CHAN"
    and room: "0 < ep_room d n e (shm sys)" and sz: "sz \<le> MCAPI_MAX_MSG_SIZE"
  obtains st' where "mcapi_trans_msg_send_i se re (UserBuf a) sz MCAPI_SUCCESS sys =
      Some ((Some (encode_request r), MCAPI_SUCCESS), sys\<lparr>shm := st'\<rparr>)"
    and "sent_message (shm sys) (d, n, e) (bytes_of (user_bytes (shm sys) a) sz) st'"
    and "request_lists st' free (r # full)"
    and "requests st' = (requests (shm sys))(r := (requests (shm sys) r)\<lparr>rvalid := True, rstatus := MCAPI_SUCCESS,
       rsize := sz, cancelled := False, completed := True, rtype := SEND, rhandle := re\<rparr>)"
proof -
  let ?st = "shm sys"
  from reserve_request_some [OF l] obtain st1 where r1: "mcapi_trans_reserve_request_have_lock ?st = (Some r, st1)"
      "request_lists st1 free (r # full)" "requests st1 = (requests ?st)(r := (requests ?st r)\<lparr>rvalid := True\<rparr>)"
    and f1: "domains st1 = domains ?st" "buffers st1 = buffers ?st" "user_bytes st1 = user_bytes ?st" "user_ptrs st1 = user_ptrs ?st"
    by metis
  note v1 = same_db_views [OF f1(1,2)]
  have db: "db_inv st1" using inv v1 by (simp add: sys_inv_def)
  have p: "path_ok d n e" by (rule decode_path [OF re(1)])
  show thesis
  proof (rule send_message [OF db p _ _ sz, of a 0])
    fix st2 assume s: "mcapi_trans_send_have_lock d n e (UserBuf a) sz 0 st1 = Some (True, st2)" "requests st2 = requests st1"
      and m: "ep_messages st2 d n e = ep_messages st1 d n e @
        [(if ep_pending st1 d n e = [] then 0 else hd (ep_pending st1 d n e), bytes_of (user_bytes st1 a) sz,
          scalar (buffers st1 (find_buffer st1)))]" "ep_pending st2 d n e = tl (ep_pending st1 d n e)"
        "\<And>d' n' e'. path_ok d' n' e' \<Longrightarrow> (d', n', e') \<noteq> (d, n, e) \<Longrightarrow>
          ep_messages st2 d' n' e' = ep_messages st1 d' n' e' \<and> ep_pending st2 d' n' e' = ep_pending st1 d' n' e'"
        "user_bytes st2 = user_bytes st1" "user_ptrs st2 = user_ptrs st1"
        "chan_type (queue_at st2 d n e) = chan_type (queue_at st1 d n e)" "ep_room d n e st2 = ep_room d n e st1 - 1"
    let ?f = "\<lambda>rd. rd\<lparr>rstatus := MCAPI_SUCCESS, rsize := sz, cancelled := False, completed := True, rtype := SEND, rhandle := re\<rparr>"
    have sm: "sent_message st1 (d, n, e) (bytes_of (user_bytes st1 a) sz) st2"
      unfolding sent_message_def prod.case using m one_queue_endpoints [OF send_one_queue [OF s(1)] m(6)] by blast
    have h: "request_reserves_header st2 = request_reserves_header st1"
      using send_header [OF s(1)] by simp
    show thesis
    proof (rule that [of "upd_request r ?f st2"])
      show "mcapi_trans_msg_send_i se re (UserBuf a) sz MCAPI_SUCCESS sys =
        Some ((Some (encode_request r), MCAPI_SUCCESS), sys\<lparr>shm := upd_request r ?f st2\<rparr>)"
        using se re v1 by (simp add: mcapi_trans_msg_send_i_def with_lock_ready [OF ready] with_request_def r1(1) no_channel_def
          s(1) setup_done)
      show "sent_message ?st (d, n, e) (bytes_of (user_bytes ?st a) sz) (upd_request r ?f st2)"
        using sent_message_cong [OF sm] f1 by (simp add: upd_request_def)
    qed (use r1 s h in \<open>simp_all add: request_lists_def upd_request_def\<close>)
  qed (use v1 room re in simp_all)
qed

text \<open>The checks of a send, all passed.\<close>

lemma valid_endpoints_ok:
  assumes "ready sys" "message_endpoint (shm sys) se (sd, sn, sp)" "message_endpoint (shm sys) re (d, n, e)"
  shows "mcapi_trans_valid_endpoints se re sys = Some (True, sys)"
  using assms by (simp add: mcapi_trans_valid_endpoints_def with_lock_ready reading_def message_endpoint_def)

lemma msg_send_checks_ok:
  assumes "ready sys" "message_endpoint (shm sys) se (sd, sn, sp)" "message_endpoint (shm sys) re (d, n, e)"
    and "sz \<le> MCAPI_MAX_MSG_SIZE" "unat prio \<le> MCAPI_MAX_PRIORITY"
  shows "first_error (msg_send_checks se re sz prio) sys = Some (MCAPI_SUCCESS, sys)"
  using valid_endpoints_ok [OF assms(1-3)] assms(4,5)
  by (simp add: msg_send_checks_def const_check_def not_check_def mcapi_trans_valid_priority_def)

lemma send_blocking_ok:
  assumes ready: "ready sys" and inv: "sys_inv (shm sys)" and l: "request_lists (shm sys) (r # free) full"
    and ep: "message_endpoint (shm sys) se (sd, sn, sp)" "message_endpoint (shm sys) re (d, n, e)"
    and room: "0 < ep_room d n e (shm sys)" and sz: "sz \<le> MCAPI_MAX_MSG_SIZE" and prio: "unat prio \<le> MCAPI_MAX_PRIORITY"
  obtains st' where "mcapi_msg_send se re (UserBuf a) sz prio env sys = Some (MCAPI_SUCCESS, sys\<lparr>shm := st'\<rparr>)"
    and "sent_message (shm sys) (d, n, e) (bytes_of (user_bytes (shm sys) a) sz) st'"
    and "request_lists st' (r # free) full" and "\<And>k. k \<noteq> r \<Longrightarrow> requests st' k = requests (shm sys) k" and "sys_inv st'"
proof -
  have dh: "mcapi_trans_decode_handle se = Some (sd, sn, sp)" "chan_type (queue_at (shm sys) sd sn sp) = MCAPI_NO_CHAN"
    "mcapi_trans_decode_handle re = Some (d, n, e)" "chan_type (queue_at (shm sys) d n e) = MCAPI_NO_CHAN"
    using ep by (simp_all add: message_endpoint_def)
  from send_i_ok [OF ready inv l dh room sz, of a] obtain st1 where
    s1: "mcapi_trans_msg_send_i se re (UserBuf a) sz MCAPI_SUCCESS sys = Some ((Some (encode_request r), MCAPI_SUCCESS), sys\<lparr>shm := st1\<rparr>)"
      "sent_message (shm sys) (d, n, e) (bytes_of (user_bytes (shm sys) a) sz) st1" "request_lists st1 free ([] @ r # full)"
    and q1: "requests st1 = (requests (shm sys))(r := (requests (shm sys) r)\<lparr>rvalid := True, rstatus := MCAPI_SUCCESS,
       rsize := sz, cancelled := False, completed := True, rtype := SEND, rhandle := re\<rparr>)" by auto
  let ?sys1 = "sys\<lparr>shm := st1\<rparr>"
  have "request_lists (shm ?sys1) free ([] @ r # full)" "ready ?sys1" "rvalid (requests (shm ?sys1) r)"
    "\<not> cancelled (requests (shm ?sys1) r)" "completed (requests (shm ?sys1) r)"
    using s1(3) ready q1 by simp_all
  from test_completed [OF this, of 0 MCAPI_SUCCESS] obtain st2 where
    s2: "mcapi_trans_test_i (encode_request r) 0 MCAPI_SUCCESS ?sys1 = Some ((True, 0, sz, MCAPI_SUCCESS), sys\<lparr>shm := st2\<rparr>)"
      "request_lists st2 (r # free) full" "requests st2 = (requests st1)(r := zero_request)"
      "domains st2 = domains st1" "buffers st2 = buffers st1" "user_bytes st2 = user_bytes st1" "user_ptrs st2 = user_ptrs st1"
    by (simp add: q1) metis
  have d: "mcapi_trans_decode_request_handle (encode_request r) = Some r" using request_memory [OF refl s1(3)] .
  show thesis
  proof (rule that)
    show "mcapi_msg_send se re (UserBuf a) sz prio env sys = Some (MCAPI_SUCCESS, sys\<lparr>shm := st2\<rparr>)"
      by (simp add: mcapi_msg_send_def msg_send_checks_ok [OF ready ep sz prio] mcapi_trans_msg_send_def start_and_wait_def
        until_request.simps s1(1) wait_completed [OF s2(1) d])
    show "sent_message (shm sys) (d, n, e) (bytes_of (user_bytes (shm sys) a) sz) st2"
      using sent_message_cong [OF s1(2) refl refl refl refl s2(4-7)] .
    show "sys_inv st2" using soundD [OF msg_send_i_sound s1(1)] soundD [OF test_i_sound s2(1)] inv by simp
  qed (use s2 q1 in simp_all)
qed

section \<open>Receiving a message that is there\<close>

definition received_message :: "mcapi_state \<Rightarrow> nat \<times> nat \<times> nat \<Rightarrow> addr \<Rightarrow> nat \<Rightarrow> byte list \<Rightarrow> mcapi_state \<Rightarrow> bool" where
  "received_message st p a bsz bs st' \<longleftrightarrow> (case p of (d, n, e) \<Rightarrow>
     ep_messages st' d n e = drop_open (ep_messages st d n e) \<and> ep_pending st' d n e = ep_pending st d n e \<and>
     bytes_of (user_bytes st' a) (min bsz (length bs)) = take bsz bs \<and>
     (\<forall>k\<ge>min bsz (length bs). user_bytes st' a k = user_bytes st a k) \<and>
     (\<forall>a'. a' \<noteq> a \<longrightarrow> user_bytes st' a' = user_bytes st a') \<and> user_ptrs st' = user_ptrs st \<and>
     (\<forall>d' n' e'. path_ok d' n' e' \<longrightarrow> (d', n', e') \<noteq> (d, n, e) \<longrightarrow>
        ep_messages st' d' n' e' = ep_messages st d' n' e' \<and> ep_pending st' d' n' e' = ep_pending st d' n' e'))"

lemma received_message_cong:
  assumes "received_message st1 p a bsz bs st2" "domains st1 = domains st" "buffers st1 = buffers st" "user_bytes st1 = user_bytes st"
    "user_ptrs st1 = user_ptrs st" "domains st' = domains st2" "buffers st' = buffers st2" "user_bytes st' = user_bytes st2"
    "user_ptrs st' = user_ptrs st2"
  shows "received_message st p a bsz bs st'"
  using assms(1) unfolding received_message_def same_db_views [OF assms(2,3)] same_db_views [OF assms(6,7)] assms(4,5,8,9) .

lemma recv_header:
  "mcapi_trans_recv_have_lock d n e b bsz False ws env st = Some (res, st') \<Longrightarrow>
   request_reserves_header st' = request_reserves_header st"
  by (auto simp: mcapi_trans_recv_have_lock_def mcapi_trans_recv_have_lock_at_def deliver_buffer_def write_ptr_def deref_def Let_def frame_simps bind_eq_Some_conv wait_message_ready
     split: if_splits channel_type.splits buffer_arg.splits option.splits ptr.splits prod.splits)

lemma recv_i_ok:
  assumes ready: "ready sys" and inv: "sys_inv (shm sys)" and l: "request_lists (shm sys) (r # free) full"
    and re: "mcapi_trans_decode_handle re = Some (d, n, e)" "chan_type (queue_at (shm sys) d n e) = MCAPI_NO_CHAN"
    and om: "open_first (ep_messages (shm sys) d n e) = (bs, s) # rest"
  obtains st' where "mcapi_trans_msg_recv_i re (UserBuf a) bsz MCAPI_SUCCESS sys =
      Some ((Some (encode_request r), MCAPI_SUCCESS), sys\<lparr>shm := st'\<rparr>)"
    and "received_message (shm sys) (d, n, e) a bsz bs st'" and "request_lists st' free (r # full)"
    and "requests st' = (requests (shm sys))(r := (requests (shm sys) r)\<lparr>rvalid := True, rstatus := MCAPI_SUCCESS,
       rsize := length bs, cancelled := False, completed := True, rtype := RECV, rhandle := re\<rparr>)"
proof -
  let ?st = "shm sys"
  from reserve_request_some [OF l] obtain st1 where r1: "mcapi_trans_reserve_request_have_lock ?st = (Some r, st1)"
      "request_lists st1 free (r # full)" "requests st1 = (requests ?st)(r := (requests ?st r)\<lparr>rvalid := True\<rparr>)"
    and f1: "domains st1 = domains ?st" "buffers st1 = buffers ?st" "user_bytes st1 = user_bytes ?st" "user_ptrs st1 = user_ptrs ?st"
    by metis
  note v1 = same_db_views [OF f1(1,2)]
  have o: "db_inv st1" "path_ok d n e" "open_first (ep_messages st1 d n e) = (bs, s) # rest" "chan_type (queue_at st1 d n e) = MCAPI_NO_CHAN"
    using inv v1 decode_path [OF re(1)] om re(2) by (simp_all add: sys_inv_def)
  show thesis
  proof (rule recv_message [OF o, of a bsz False False "[]"])
    fix i st2 assume s: "mcapi_trans_recv_have_lock d n e (Local (UserBuf a)) bsz False False [] st1 = Some (Some (length bs, None), st2)"
        "requests st2 = requests st1"
      and m: "ep_messages st2 d n e = drop_open (ep_messages st1 d n e)" "bytes_of (user_bytes st2 a) (min bsz (length bs)) = take bsz bs"
        "\<And>a'. a' \<noteq> a \<Longrightarrow> user_bytes st2 a' = user_bytes st1 a'" "user_ptrs st2 = user_ptrs st1"
        "ep_pending st2 d n e = ep_pending st1 d n e"
        "\<And>d' n' e'. path_ok d' n' e' \<Longrightarrow> (d', n', e') \<noteq> (d, n, e) \<Longrightarrow>
          ep_messages st2 d' n' e' = ep_messages st1 d' n' e' \<and> ep_pending st2 d' n' e' = ep_pending st1 d' n' e'"
        "\<And>k. min bsz (length bs) \<le> k \<Longrightarrow> user_bytes st2 a k = user_bytes st1 a k"
    let ?f = "\<lambda>rd. rd\<lparr>rstatus := MCAPI_SUCCESS, rsize := length bs, cancelled := False, completed := True, rtype := RECV, rhandle := re\<rparr>"
    have rm: "received_message st1 (d, n, e) a bsz bs st2" unfolding received_message_def prod.case using m by blast
    show thesis
    proof (rule that [of "upd_request r ?f st2"])
      show "mcapi_trans_msg_recv_i re (UserBuf a) bsz MCAPI_SUCCESS sys =
        Some ((Some (encode_request r), MCAPI_SUCCESS), sys\<lparr>shm := upd_request r ?f st2\<rparr>)"
        using re v1 by (simp add: mcapi_trans_msg_recv_i_def with_lock_ready [OF ready] with_request_def r1(1) no_channel_def
          s(1) setup_done)
      show "received_message ?st (d, n, e) a bsz bs (upd_request r ?f st2)"
        using received_message_cong [OF rm] f1 by (simp add: upd_request_def)
    qed (use r1 s recv_header [OF s(1)] in \<open>simp_all add: request_lists_def upd_request_def\<close>)
  qed
qed

lemma recv_checks_ok:
  assumes "ready sys" "message_endpoint (shm sys) re (d, n, e)"
  shows "first_error [(const_check (\<not> mcapi_trans_valid_buffer_param (UserBuf a)), MCAPI_ERR_PARAMETER),
      (not_check (mcapi_trans_valid_endpoint re), MCAPI_ERR_ENDP_INVALID)] sys = Some (MCAPI_SUCCESS, sys)"
  using assms by (simp add: const_check_def not_check_def mcapi_trans_valid_buffer_param_def mcapi_trans_valid_endpoint_def
    with_lock_ready reading_def message_endpoint_def)

lemma recv_blocking_ok:
  assumes ready: "ready sys" and inv: "sys_inv (shm sys)" and l: "request_lists (shm sys) (r # free) full"
    and ep: "message_endpoint (shm sys) re (d, n, e)"
    and om: "open_first (ep_messages (shm sys) d n e) = (bs, s) # rest"
  obtains st' where "mcapi_msg_recv re (UserBuf a) bsz k env sys =
      Some (if bsz < length bs then (bsz, MCAPI_ERR_MSG_TRUNCATED) else (length bs, MCAPI_SUCCESS), sys\<lparr>shm := st'\<rparr>)"
    and "received_message (shm sys) (d, n, e) a bsz bs st'"
    and "request_lists st' (r # free) full" and "\<And>k. k \<noteq> r \<Longrightarrow> requests st' k = requests (shm sys) k" and "sys_inv st'"
proof -
  have dh: "mcapi_trans_decode_handle re = Some (d, n, e)" "chan_type (queue_at (shm sys) d n e) = MCAPI_NO_CHAN"
    using ep by (simp_all add: message_endpoint_def)
  from recv_i_ok [OF ready inv l dh om, of a bsz] obtain st1 where
    s1: "mcapi_trans_msg_recv_i re (UserBuf a) bsz MCAPI_SUCCESS sys = Some ((Some (encode_request r), MCAPI_SUCCESS), sys\<lparr>shm := st1\<rparr>)"
      "received_message (shm sys) (d, n, e) a bsz bs st1" "request_lists st1 free ([] @ r # full)"
    and q1: "requests st1 = (requests (shm sys))(r := (requests (shm sys) r)\<lparr>rvalid := True, rstatus := MCAPI_SUCCESS,
       rsize := length bs, cancelled := False, completed := True, rtype := RECV, rhandle := re\<rparr>)" by auto
  let ?sys1 = "sys\<lparr>shm := st1\<rparr>"
  have "request_lists (shm ?sys1) free ([] @ r # full)" "ready ?sys1" "rvalid (requests (shm ?sys1) r)"
    "\<not> cancelled (requests (shm ?sys1) r)" "completed (requests (shm ?sys1) r)"
    using s1(3) ready q1 by simp_all
  from test_completed [OF this, of k MCAPI_SUCCESS] obtain st2 where
    s2: "mcapi_trans_test_i (encode_request r) k MCAPI_SUCCESS ?sys1 = Some ((True, 0, length bs, MCAPI_SUCCESS), sys\<lparr>shm := st2\<rparr>)"
      "request_lists st2 (r # free) full" "requests st2 = (requests st1)(r := zero_request)"
      "domains st2 = domains st1" "buffers st2 = buffers st1" "user_bytes st2 = user_bytes st1" "user_ptrs st2 = user_ptrs st1"
    by (simp add: q1) metis
  have d: "mcapi_trans_decode_request_handle (encode_request r) = Some r" using request_memory [OF refl s1(3)] .
  show thesis
  proof (rule that)
    show "mcapi_msg_recv re (UserBuf a) bsz k env sys =
      Some (if bsz < length bs then (bsz, MCAPI_ERR_MSG_TRUNCATED) else (length bs, MCAPI_SUCCESS), sys\<lparr>shm := st2\<rparr>)"
      unfolding mcapi_msg_recv_def recv_checks_ok [OF ready ep]
      by (simp add: when_ok_def mcapi_trans_msg_recv_def start_and_wait_def
        until_request.simps s1(1) wait_completed [OF s2(1) d])
    show "received_message (shm sys) (d, n, e) a bsz bs st2"
      using received_message_cong [OF s1(2) refl refl refl refl s2(4-7)] .
    show "sys_inv st2" using soundD [OF msg_recv_i_sound s1(1)] soundD [OF test_i_sound s2(1)] inv by simp
  qed (use s2 q1 in simp_all)
qed

text \<open>Two nodes with one endpoint each, on a new database.\<close>

definition two_nodes :: mcapi_state where
  "two_nodes = upd_endpoint 0 1 0 (\<lambda>ep. ep\<lparr>ep_valid := True, port_num := 6\<rparr>)
     (upd_endpoint 0 0 0 (\<lambda>ep. ep\<lparr>ep_valid := True, port_num := 5\<rparr>)
     (add_node 0 1 0 1 2 2 None (add_node 0 0 0 0 1 1 None (created zero_state))))"

lemma two_nodes_queue: "path_ok d n e \<Longrightarrow> queue_at two_nodes d n e = zero_queue"
  by (simp add: two_nodes_def frame_simps add_node_sel created_sel)
    (simp add: queue_at_def [symmetric] add_node_sel created_sel path_ok_iff mcapi_limits)

lemma two_nodes_sel:
  "requests two_nodes r = zero_request" "buffers two_nodes = (\<lambda>_. zero_buffer)"
  "request_reserves_header two_nodes = request_reserves_header (created zero_state)"
  by (simp_all add: two_nodes_def frame_simps add_node_sel created_sel fun_eq_iff)

lemma two_nodes_requests: "request_lists two_nodes (0 # [1..<MCAPI_MAX_REQUESTS]) []"
proof -
  have "request_lists (created zero_state) [0..<MCAPI_MAX_REQUESTS] []" unfolding created_def by (rule init_request_lists)
  moreover have "[0..<MCAPI_MAX_REQUESTS] = 0 # [1..<MCAPI_MAX_REQUESTS]"
    using upt_conv_Cons [of 0 MCAPI_MAX_REQUESTS] by (simp only: MCAPI_MAX_REQUESTS_def One_nat_def)
  ultimately show ?thesis by (simp add: request_lists_def two_nodes_sel)
qed

lemma two_nodes_requests2: "request_lists two_nodes (0 # 1 # [2..<MCAPI_MAX_REQUESTS]) []"
proof -
  have "[1..<MCAPI_MAX_REQUESTS] = 1 # [2..<MCAPI_MAX_REQUESTS]"
    using upt_conv_Cons [of 1 MCAPI_MAX_REQUESTS] by (simp only: MCAPI_MAX_REQUESTS_def numeral_2_eq_2 One_nat_def)
  with two_nodes_requests show ?thesis by simp
qed

lemma two_nodes_inv: "sys_inv two_nodes"
  by (rule clear_queues_inv [OF created_inv [of zero_state]])
    (simp_all add: two_nodes_queue two_nodes_sel created_sel fun_eq_iff)

lemma two_nodes_views:
  "path_ok d n e \<Longrightarrow> ep_messages two_nodes d n e = []" "path_ok d n e \<Longrightarrow> ep_pending two_nodes d n e = []"
  "path_ok d n e \<Longrightarrow> ep_room d n e two_nodes = 64"
  by (simp_all add: ep_messages_def ep_pending_def ep_room_def two_nodes_queue zero_queue_inv ring_ok_zero
    free_buffers_def two_nodes_sel mcapi_limits)

lemma add_node_valid:
  "domain_valid (domains (add_node d n domid node p t attrs st) d') \<longleftrightarrow> d' = d \<or> domain_valid (domains st d')"
  "node_valid (node_at (add_node d n domid node p t attrs st) d' n') \<longleftrightarrow> (d', n') = (d, n) \<or> node_valid (node_at st d' n')"
  by (auto simp: add_node_def upd_node_def node_at_def init_node_entry_def Let_def)

lemma two_nodes_endpoints: "message_endpoint two_nodes 0 (0, 0, 0)" "message_endpoint two_nodes 0x100 (0, 1, 0)"
proof -
  have p: "path_ok 0 0 0" "path_ok 0 1 0" by (simp_all add: path_ok_iff mcapi_limits)
  have h: "mcapi_trans_decode_handle 0 = Some (0, 0, 0)" "mcapi_trans_decode_handle 0x100 = Some (0, 1, 0)" by code_simp+
  have "domain_valid (domains two_nodes 0)" "node_valid (node_at two_nodes 0 0)" "node_valid (node_at two_nodes 0 1)"
    "ep_valid (endpoint_at two_nodes 0 0 0)" "ep_valid (endpoint_at two_nodes 0 1 0)"
    by (simp_all add: two_nodes_def frame_simps add_node_valid)
  then show "message_endpoint two_nodes 0 (0, 0, 0)" "message_endpoint two_nodes 0x100 (0, 1, 0)"
    using two_nodes_queue [OF p(1)] two_nodes_queue [OF p(2)] by (simp_all add: message_endpoint_def h)
qed

lemma node_sys_ready: "ready (node_sys n st)" "shm (node_sys n st) = st" "(node_sys n st)\<lparr>shm := st'\<rparr> = node_sys n st'"
  by (simp_all add: node_sys_def ready_def)

lemma demo_sizes: "(3::nat) \<le> MCAPI_MAX_MSG_SIZE" "unat (0::u32) \<le> MCAPI_MAX_PRIORITY"
  by (simp_all add: MCAPI_MAX_MSG_SIZE_def)

lemma two_nodes_room: "0 < ep_room 0 1 0 two_nodes"
  using two_nodes_views(3) [of 0 1 0] by (simp add: path_ok_iff mcapi_limits)

text \<open>
  C2: A blocking send to an endpoint with room, followed by a blocking receive of the only unread
  message there, both with status success, moves exactly the bytes sent into the receiver's
  buffer, up to the size of that buffer, and nothing behind them; a message longer than the
  buffer gives the truncation error and the size of the buffer. Neither call touches another
  endpoint, another buffer of the application, or, in the end, the request pool.
\<close>

theorem send_then_recv_delivers:
  assumes "ready snd_sys" and "ready rcv_sys" and inv: "sys_inv (shm snd_sys)"
    and l: "request_lists (shm snd_sys) (r # free) full"
    and ep: "message_endpoint (shm snd_sys) se (sd, sn, sp)" "message_endpoint (shm snd_sys) re (d, n, e)"
    and empty: "ep_messages (shm snd_sys) d n e = []" "ep_pending (shm snd_sys) d n e = []"
    and room: "0 < ep_room d n e (shm snd_sys)" and sz: "sz \<le> MCAPI_MAX_MSG_SIZE" and prio: "unat prio \<le> MCAPI_MAX_PRIORITY"
  shows "\<exists>st1 st2. mcapi_msg_send se re (UserBuf a) sz prio env snd_sys = Some (MCAPI_SUCCESS, snd_sys\<lparr>shm := st1\<rparr>) \<and>
     mcapi_msg_recv re (UserBuf b) bsz k env' (rcv_sys\<lparr>shm := st1\<rparr>) =
       Some (if bsz < sz then (bsz, MCAPI_ERR_MSG_TRUNCATED) else (sz, MCAPI_SUCCESS), rcv_sys\<lparr>shm := st2\<rparr>) \<and>
     bytes_of (user_bytes st2 b) (min bsz sz) = take bsz (bytes_of (user_bytes (shm snd_sys) a) sz) \<and>
     (\<forall>k\<ge>min bsz sz. user_bytes st2 b k = user_bytes (shm snd_sys) b k) \<and>
     (\<forall>a'. a' \<noteq> b \<longrightarrow> user_bytes st2 a' = user_bytes (shm snd_sys) a') \<and>
     (\<forall>d' n' e'. path_ok d' n' e' \<longrightarrow> ep_messages st2 d' n' e' = ep_messages (shm snd_sys) d' n' e') \<and>
     request_lists st2 (r # free) full"
proof -
  let ?bs = "bytes_of (user_bytes (shm snd_sys) a) sz"
  show ?thesis
  proof (rule send_blocking_ok [OF assms(1) inv l ep room sz prio, of a env])
    fix st1 assume s1: "mcapi_msg_send se re (UserBuf a) sz prio env snd_sys = Some (MCAPI_SUCCESS, snd_sys\<lparr>shm := st1\<rparr>)"
      and sm: "sent_message (shm snd_sys) (d, n, e) ?bs st1" and l1: "request_lists st1 (r # free) full" and i1: "sys_inv st1"
    let ?rcv = "rcv_sys\<lparr>shm := st1\<rparr>"
    from sm empty obtain s where m1: "ep_messages st1 d n e = [(0, ?bs, s)]" by (auto simp: sent_message_def)
    have r: "ready ?rcv" "sys_inv (shm ?rcv)" "request_lists (shm ?rcv) (r # free) full" "message_endpoint (shm ?rcv) re (d, n, e)"
      "open_first (ep_messages (shm ?rcv) d n e) = (?bs, s) # []"
      using assms(2) i1 l1 ep(2) sm m1 by (simp_all add: sent_message_def open_first_def)
    show ?thesis
    proof (rule recv_blocking_ok [OF r, of b bsz k env'])
      fix st2 assume s2: "mcapi_msg_recv re (UserBuf b) bsz k env' ?rcv = Some (if bsz < length ?bs then (bsz, MCAPI_ERR_MSG_TRUNCATED)
          else (length ?bs, MCAPI_SUCCESS), ?rcv\<lparr>shm := st2\<rparr>)"
        and rm: "received_message (shm ?rcv) (d, n, e) b bsz ?bs st2" and l2: "request_lists st2 (r # free) full"
      have "drop_open (ep_messages st1 d n e) = []" by (simp add: m1 drop_open_def)
      then have "\<forall>d' n' e'. path_ok d' n' e' \<longrightarrow> ep_messages st2 d' n' e' = ep_messages (shm snd_sys) d' n' e'"
        using rm sm empty(1) by (simp add: received_message_def sent_message_def) metis
      with s1 s2 l2 rm sm show ?thesis
        by (intro exI [of _ st1] exI [of _ st2]) (simp add: received_message_def sent_message_def)
    qed
  qed
qed

theorem send_then_recv_delivers_witness:
  "\<exists>st1 st2. mcapi_msg_send 0 0x100 (UserBuf 1) 3 0 [] (node_sys 0 two_nodes) = Some (MCAPI_SUCCESS, node_sys 0 st1) \<and>
     mcapi_msg_recv 0x100 (UserBuf 2) 8 0 [] (node_sys 1 st1) = Some ((3, MCAPI_SUCCESS), node_sys 1 st2) \<and>
     bytes_of (user_bytes st2 2) 3 = bytes_of (user_bytes two_nodes 1) 3"
proof -
  have p: "path_ok 0 1 0" by (simp add: path_ok_iff mcapi_limits)
  note t = send_then_recv_delivers [OF node_sys_ready(1) [of 0 two_nodes] node_sys_ready(1) [of 1 two_nodes], unfolded node_sys_ready,
      OF two_nodes_inv two_nodes_requests two_nodes_endpoints two_nodes_views(1,2) [OF p] two_nodes_room demo_sizes]
  from t [where a = 1 and env = "[]" and b = 2 and bsz = 8 and k = 0 and env' = "[]"] show ?thesis by auto
qed

section \<open>Receiving before the message is there\<close>

text \<open>Request \<open>r\<close> waits for a message at an endpoint, with the buffer at \<open>a\<close> of \<open>bsz\<close> bytes.\<close>

definition pending_receive :: "mcapi_state \<Rightarrow> nat \<Rightarrow> nat \<times> nat \<times> nat \<Rightarrow> addr \<Rightarrow> nat \<Rightarrow> bool" where
  "pending_receive st r p a bsz \<longleftrightarrow> rvalid (requests st r) \<and> \<not> cancelled (requests st r) \<and> waits_at st r p \<and>
     rbuffer (requests st r) = UserBuf a \<and> rsize (requests st r) = bsz \<and> r < MCAPI_MAX_REQUESTS \<and>
     (case p of (d, n, e) \<Rightarrow> chan_type (queue_at st d n e) = MCAPI_NO_CHAN)"

lemma recv_i_pending:
  assumes ready: "ready sys" and inv: "sys_inv (shm sys)" and l: "request_lists (shm sys) (r # free) full"
    and re: "mcapi_trans_decode_handle re = Some (d, n, e)" "chan_type (queue_at (shm sys) d n e) = MCAPI_NO_CHAN"
    and em: "open_first (ep_messages (shm sys) d n e) = []"
    and room: "qlen (queue_at (shm sys) d n e) + length (ep_pending (shm sys) d n e) < MCAPI_MAX_QUEUE_ENTRIES"
  obtains st' where "mcapi_trans_msg_recv_i re (UserBuf a) bsz MCAPI_SUCCESS sys =
      Some ((Some (encode_request r), MCAPI_SUCCESS), sys\<lparr>shm := st'\<rparr>)"
    and "ep_messages st' = ep_messages (shm sys)" and "ep_pending st' d n e = ep_pending (shm sys) d n e @ [encode_request r]"
    and "\<And>d' n' e'. (d', n', e') \<noteq> (d, n, e) \<Longrightarrow> ep_pending st' d' n' e' = ep_pending (shm sys) d' n' e'"
    and "pending_receive st' r (d, n, e) a bsz" and "request_lists st' free (r # full)"
    and "user_bytes st' = user_bytes (shm sys)" and "message_endpoint st' = message_endpoint (shm sys)"
    and "ep_room d n e st' = ep_room d n e (shm sys)"
proof -
  let ?st = "shm sys"
  from reserve_request_some [OF l] obtain st1 where r1: "mcapi_trans_reserve_request_have_lock ?st = (Some r, st1)"
      "request_lists st1 free (r # full)" "requests st1 = (requests ?st)(r := (requests ?st r)\<lparr>rvalid := True\<rparr>)"
    and f1: "domains st1 = domains ?st" "buffers st1 = buffers ?st" "user_bytes st1 = user_bytes ?st" by metis
  note v1 = same_db_views [OF f1(1,2)]
  have h: "held r st1" "r < MCAPI_MAX_REQUESTS" using reserve_inv [OF inv r1(1)] by simp_all
  have p: "path_ok d n e" by (rule decode_path [OF re(1)])
  have qi: "queue_inv (queue_at st1 d n e)" using db_inv_queue [OF held_db [OF h(1)] p] by (simp add: queue_ok_def)
  have em1: "mcapi_trans_empty_queue (queue_at st1 d n e)" using em empty_iff_open [OF qi] v1 by simp
  have fresh: "encode_request r \<notin> set (aq_requests (abs_queue (queue_at st1 d n e)))"
    using held_not_queued [OF h(1) p] by (simp add: queued_def)
  have o: "open_first (ep_messages st1 d n e) = []" "qlen (queue_at st1 d n e) + length (ep_pending st1 d n e) < MCAPI_MAX_QUEUE_ENTRIES"
     "chan_type (queue_at st1 d n e) = MCAPI_NO_CHAN" using em re room v1 by simp_all
  show thesis
  proof (rule setup_recv_pending [OF held_db [OF h(1)] re(1) o(1,2) fresh o(3), of 0 MCAPI_SUCCESS bsz a 0 0 0])
    fix st2 assume s: "setup_request_have_lock re 0 MCAPI_SUCCESS False bsz (Local (UserBuf a)) RECV 0 0 0 r st1 = Some (encode_request r, st2)"
      and m: "ep_messages st2 = ep_messages st1" "ep_pending st2 d n e = ep_pending st1 d n e @ [encode_request r]"
        "\<And>d' n' e'. (d', n', e') \<noteq> (d, n, e) \<Longrightarrow> ep_pending st2 d' n' e' = ep_pending st1 d' n' e'"
      and q: "requests st2 = (requests st1)(r := (requests st1 r)\<lparr>rstatus := MCAPI_SUCCESS, rsize := bsz, cancelled := False,
          completed := False, rbuffer := UserBuf a, rtype := RECV, rhandle := re\<rparr>)"
      and f: "buffers st2 = buffers st1" "user_bytes st2 = user_bytes st1" "request_reserves_header st2 = request_reserves_header st1"
        "chan_type (queue_at st2 d n e) = MCAPI_NO_CHAN" "qlen (queue_at st2 d n e) = qlen (queue_at st1 d n e)"
    have me: "message_endpoint st2 = message_endpoint st1"
      using one_queue_endpoints [OF setup_one_queue [OF s re(1)]] f(4) o(3) by simp
    show thesis
    proof (rule that [of st2])
      show "mcapi_trans_msg_recv_i re (UserBuf a) bsz MCAPI_SUCCESS sys = Some ((Some (encode_request r), MCAPI_SUCCESS), sys\<lparr>shm := st2\<rparr>)"
        using re o(3) by (simp add: mcapi_trans_msg_recv_i_def with_lock_ready [OF ready] with_request_def r1(1) no_channel_def
          mcapi_trans_recv_have_lock_def em1 s)
      show "ep_room d n e st2 = ep_room d n e ?st" using v1(5) f by (simp add: ep_room_def ring_room_def free_buffers_def)
      show "pending_receive st2 r (d, n, e) a bsz" using q r1(3) re(1) f(4) h(2) by (simp add: pending_receive_def waits_at_def)
    qed (use m v1 f f1 me r1(2) in \<open>simp_all add: request_lists_def\<close>)
  qed
qed

text \<open>Testing such a request, before and after a message has been assigned to it.\<close>

lemma test_pending:
  assumes "ready sys" and "sys_inv (shm sys)" and pr: "pending_receive (shm sys) r (d, n, e) a bsz"
    and "encode_request r \<in> set (ep_pending (shm sys) d n e)"
  shows "mcapi_trans_test_i (encode_request r) k status sys = Some ((False, encode_request r, k, status), sys)"
proof -
  have d: "mcapi_trans_decode_request_handle (encode_request r) = Some r" using pr by (simp add: pending_receive_def)
  have c: "check_receive_request_have_lock (encode_request r) (shm sys) = Some (shm sys)"
    using check_receive_pending [OF _ d _ assms(4)] assms(2) pr by (simp add: sys_inv_def pending_receive_def waits_at_def)
  show ?thesis using pr c
    by (simp add: mcapi_trans_test_i_def with_lock_unchecked_ready [OF assms(1)] test_have_lock_def d pending_receive_def
      waits_at_def try_complete_def)
qed

text \<open>The memory after a receive request took its message.\<close>

definition taken_message :: "mcapi_state \<Rightarrow> nat \<times> nat \<times> nat \<Rightarrow> nat \<Rightarrow> addr \<Rightarrow> nat \<Rightarrow> byte list \<Rightarrow> mcapi_state \<Rightarrow> bool" where
  "taken_message st p r a bsz bs st' \<longleftrightarrow> (case p of (d, n, e) \<Rightarrow>
     bytes_of (user_bytes st' a) (min bsz (length bs)) = take bsz bs \<and>
     (\<forall>k\<ge>min bsz (length bs). user_bytes st' a k = user_bytes st a k) \<and>
     (\<forall>a'. a' \<noteq> a \<longrightarrow> user_bytes st' a' = user_bytes st a') \<and>
     ep_messages st' d n e = filter (\<lambda>m. fst m \<noteq> encode_request r) (ep_messages st d n e) \<and>
     ep_pending st' d n e = ep_pending st d n e \<and>
     (\<forall>d' n' e'. path_ok d' n' e' \<longrightarrow> (d', n', e') \<noteq> (d, n, e) \<longrightarrow>
        ep_messages st' d' n' e' = ep_messages st d' n' e' \<and> ep_pending st' d' n' e' = ep_pending st d' n' e'))"

lemma test_matched:
  assumes ready: "ready sys" and inv: "sys_inv (shm sys)" and pr: "pending_receive (shm sys) r (d, n, e) a bsz"
    and m: "(encode_request r, bs, s) \<in> set (ep_messages (shm sys) d n e)"
    and l: "request_lists (shm sys) free (ys @ r # zs)"
  obtains st' where "mcapi_trans_test_i (encode_request r) k status sys = Some ((True, 0, min bsz (length bs),
      if bsz < length bs then MCAPI_ERR_MSG_TRUNCATED else MCAPI_SUCCESS), sys\<lparr>shm := st'\<rparr>)"
    and "taken_message (shm sys) (d, n, e) r a bsz bs st'" and "request_lists st' (r # free) (ys @ zs)"
    and "requests st' r = zero_request"
proof -
  have d: "mcapi_trans_decode_request_handle (encode_request r) = Some r" "r < MCAPI_MAX_REQUESTS"
      "mcapi_trans_decode_handle (rhandle (requests (shm sys) r)) = Some (d, n, e)" "chan_type (queue_at (shm sys) d n e) = MCAPI_NO_CHAN"
      "rbuffer (requests (shm sys) r) = UserBuf a" "db_inv (shm sys)" "rsize (requests (shm sys) r) = bsz"
      "rvalid (requests (shm sys) r)" "\<not> cancelled (requests (shm sys) r)" "\<not> completed (requests (shm sys) r)" "rtype (requests (shm sys) r) = RECV"
    using pr inv by (simp_all add: pending_receive_def waits_at_def sys_inv_def)
  show thesis
  proof (rule check_receive_matched [OF d(6,1,3-5) m])
    fix st1 assume c: "check_receive_request_have_lock (encode_request r) (shm sys) = Some st1"
      and q: "requests st1 = (requests (shm sys))(r := (requests (shm sys) r)\<lparr>completed := True,
          rsize := min (rsize (requests (shm sys) r)) (length bs),
          rstatus := (if rsize (requests (shm sys) r) < length bs then MCAPI_ERR_MSG_TRUNCATED else MCAPI_SUCCESS)\<rparr>)"
      and b: "bytes_of (user_bytes st1 a) (min (rsize (requests (shm sys) r)) (length bs)) = take (rsize (requests (shm sys) r)) bs"
        "\<And>a'. a' \<noteq> a \<Longrightarrow> user_bytes st1 a' = user_bytes (shm sys) a'"
        "\<And>k. min (rsize (requests (shm sys) r)) (length bs) \<le> k \<Longrightarrow> user_bytes st1 a k = user_bytes (shm sys) a k"
      and h: "request_reserves_header st1 = request_reserves_header (shm sys)"
      and v: "ep_messages st1 d n e = filter (\<lambda>m. fst m \<noteq> encode_request r) (ep_messages (shm sys) d n e)"
        "ep_pending st1 d n e = ep_pending (shm sys) d n e"
        "\<And>d' n' e'. path_ok d' n' e' \<Longrightarrow> (d', n', e') \<noteq> (d, n, e) \<Longrightarrow>
          ep_messages st1 d' n' e' = ep_messages (shm sys) d' n' e' \<and> ep_pending st1 d' n' e' = ep_pending (shm sys) d' n' e'"
    have t: "(if completed (requests (shm sys) r) then Some (shm sys) else try_complete (encode_request r) r (shm sys)) = Some st1"
      "completed (requests st1 r)" "request_lists st1 free (ys @ r # zs)"
      using d c q l h by (simp_all add: try_complete_def request_lists_def)
    show thesis
    proof (rule test_finishes [OF ready d(8,9,2) t, of k status])
      fix st2 assume s: "mcapi_trans_test_i (encode_request r) k status sys =
          Some ((True, 0, rsize (requests st1 r), rstatus (requests st1 r)), sys\<lparr>shm := st2\<rparr>)"
        "request_lists st2 (r # free) (ys @ zs)" "requests st2 = (requests st1)(r := zero_request)"
        and f: "domains st2 = domains st1" "buffers st2 = buffers st1" "user_bytes st2 = user_bytes st1"
      have "taken_message (shm sys) (d, n, e) r a bsz bs st2"
        unfolding taken_message_def prod.case same_db_views [OF f(1,2)] f(3) using b v d(7) by auto
      with s q d(7) show thesis by (intro that [of st2]) simp_all
    qed
  qed
qed

lemma send_keeps_pending:
  assumes "sent_message st (d, n, e) bs st'" "pending_receive st r (d, n, e) a bsz" "requests st' r = requests st r"
  shows "pending_receive st' r (d, n, e) a bsz"
  using assms by (auto simp: pending_receive_def waits_at_def sent_message_def)

lemma recv_i_call_pending:
  assumes ready: "ready sys" and inv: "sys_inv (shm sys)" and l: "request_lists (shm sys) (r # free) full"
    and ep: "message_endpoint (shm sys) re (d, n, e)"
    and em: "open_first (ep_messages (shm sys) d n e) = []"
    and room: "qlen (queue_at (shm sys) d n e) + length (ep_pending (shm sys) d n e) < MCAPI_MAX_QUEUE_ENTRIES"
  obtains st' where "mcapi_msg_recv_i re (UserBuf a) bsz True sys = Some ((Some (encode_request r), MCAPI_SUCCESS), sys\<lparr>shm := st'\<rparr>)"
    and "ep_messages st' = ep_messages (shm sys)" and "ep_pending st' d n e = ep_pending (shm sys) d n e @ [encode_request r]"
    and "pending_receive st' r (d, n, e) a bsz" and "request_lists st' free (r # full)" and "sys_inv st'"
    and "user_bytes st' = user_bytes (shm sys)" and "message_endpoint st' = message_endpoint (shm sys)"
    and "ep_room d n e st' = ep_room d n e (shm sys)"
proof -
  have dh: "mcapi_trans_decode_handle re = Some (d, n, e)" "chan_type (queue_at (shm sys) d n e) = MCAPI_NO_CHAN"
    using ep by (simp_all add: message_endpoint_def)
  show thesis
  proof (rule recv_i_pending [OF ready inv l dh em room, of a bsz])
    fix st' assume s: "mcapi_trans_msg_recv_i re (UserBuf a) bsz MCAPI_SUCCESS sys =
        Some ((Some (encode_request r), MCAPI_SUCCESS), sys\<lparr>shm := st'\<rparr>)"
      and v: "ep_messages st' = ep_messages (shm sys)" "ep_pending st' d n e = ep_pending (shm sys) d n e @ [encode_request r]"
      "pending_receive st' r (d, n, e) a bsz" "request_lists st' free (r # full)"
      "user_bytes st' = user_bytes (shm sys)" "message_endpoint st' = message_endpoint (shm sys)" "ep_room d n e st' = ep_room d n e (shm sys)"
    have i: "sys_inv st'" using soundD [OF msg_recv_i_sound s] inv by simp
    have c: "mcapi_msg_recv_i re (UserBuf a) bsz True sys = Some ((Some (encode_request r), MCAPI_SUCCESS), sys\<lparr>shm := st'\<rparr>)"
      unfolding mcapi_msg_recv_i_def recv_checks_ok [OF ready ep] by (simp add: s)
    show thesis by (rule that [OF c v(1-4) i v(5-7)])
  qed
qed

lemma send_to_pending:
  assumes ready: "ready sys" and inv: "sys_inv (shm sys)" and l: "request_lists (shm sys) (x # free) (r # full)"
    and ep: "message_endpoint (shm sys) se (sd, sn, sp)" "message_endpoint (shm sys) re (d, n, e)"
    and room: "0 < ep_room d n e (shm sys)" and sz: "sz \<le> MCAPI_MAX_MSG_SIZE" and prio: "unat prio \<le> MCAPI_MAX_PRIORITY"
    and pr: "pending_receive (shm sys) r (d, n, e) a bsz" and pe: "ep_pending (shm sys) d n e = encode_request r # rest"
  obtains st' s where "mcapi_msg_send se re (UserBuf b) sz prio env sys = Some (MCAPI_SUCCESS, sys\<lparr>shm := st'\<rparr>)"
    and "(encode_request r, bytes_of (user_bytes (shm sys) b) sz, s) \<in> set (ep_messages st' d n e)"
    and "pending_receive st' r (d, n, e) a bsz" and "request_lists st' (x # free) (r # full)" and "sys_inv st'"
    and "user_bytes st' = user_bytes (shm sys)" and "ep_pending st' d n e = rest"
proof -
  have rx: "r \<noteq> x" using request_lists_distinct [OF l] by auto
  show thesis
  proof (rule send_blocking_ok [OF ready inv l ep room sz prio, of b env])
    fix st' assume s: "mcapi_msg_send se re (UserBuf b) sz prio env sys = Some (MCAPI_SUCCESS, sys\<lparr>shm := st'\<rparr>)"
      and sm: "sent_message (shm sys) (d, n, e) (bytes_of (user_bytes (shm sys) b) sz) st'"
      and l': "request_lists st' (x # free) (r # full)" and q: "\<And>k. k \<noteq> x \<Longrightarrow> requests st' k = requests (shm sys) k"
      and i: "sys_inv st'"
    from sm pe obtain s' where "ep_messages st' d n e = ep_messages (shm sys) d n e @ [(encode_request r, bytes_of (user_bytes (shm sys) b) sz, s')]"
      by (auto simp: sent_message_def)
    then have m: "(encode_request r, bytes_of (user_bytes (shm sys) b) sz, s') \<in> set (ep_messages st' d n e)" by simp
    have "user_bytes st' = user_bytes (shm sys)" "ep_pending st' d n e = rest" using sm pe by (simp_all add: sent_message_def)
    then show thesis
      by (intro that [OF s m send_keeps_pending [OF sm pr q [OF rx]] l' i])
  qed
qed

text \<open>
  C9: A non-blocking receive on an endpoint without messages gives a request that tests as not
  complete, and keeps its place in the queue of the endpoint; once another node has sent a
  message there, the next test reports completion with the size of the message, invalidates the
  request handle, and the receiver's buffer holds the bytes sent, or as many as fit together with
  the truncation error, and is unchanged behind them. A further test of the same handle is refused
  as invalid. The receive that waits and the test that finds it waiting report success, not
  pending, and the refused test returns true.
\<close>

theorem recv_send_test:
  assumes "ready rcv_sys" and "ready snd_sys" and inv: "sys_inv (shm rcv_sys)"
    and l: "request_lists (shm rcv_sys) (r # x # free) full"
    and ep: "message_endpoint (shm rcv_sys) se (sd, sn, sp)" "message_endpoint (shm rcv_sys) re (d, n, e)"
    and empty: "ep_messages (shm rcv_sys) d n e = []" "ep_pending (shm rcv_sys) d n e = []"
    and room: "0 < ep_room d n e (shm rcv_sys)" and sz: "sz \<le> MCAPI_MAX_MSG_SIZE" and prio: "unat prio \<le> MCAPI_MAX_PRIORITY"
  shows "\<exists>rq st1 st2 st3.
     mcapi_msg_recv_i re (UserBuf a) bsz True rcv_sys = Some ((Some rq, MCAPI_SUCCESS), rcv_sys\<lparr>shm := st1\<rparr>) \<and>
     mcapi_test rq True k (rcv_sys\<lparr>shm := st1\<rparr>) = Some ((False, rq, k, MCAPI_SUCCESS), rcv_sys\<lparr>shm := st1\<rparr>) \<and>
     mcapi_msg_send se re (UserBuf b) sz prio env (snd_sys\<lparr>shm := st1\<rparr>) = Some (MCAPI_SUCCESS, snd_sys\<lparr>shm := st2\<rparr>) \<and>
     mcapi_test rq True k (rcv_sys\<lparr>shm := st2\<rparr>) = Some ((True, 0, min bsz sz,
        if bsz < sz then MCAPI_ERR_MSG_TRUNCATED else MCAPI_SUCCESS), rcv_sys\<lparr>shm := st3\<rparr>) \<and>
     bytes_of (user_bytes st3 a) (min bsz sz) = take bsz (bytes_of (user_bytes (shm rcv_sys) b) sz) \<and>
     (\<forall>j\<ge>min bsz sz. user_bytes st3 a j = user_bytes (shm rcv_sys) a j) \<and>
     mcapi_test rq True k (rcv_sys\<lparr>shm := st3\<rparr>) = Some ((True, rq, k, MCAPI_ERR_REQUEST_INVALID), rcv_sys\<lparr>shm := st3\<rparr>)"
proof -
  have om: "open_first (ep_messages (shm rcv_sys) d n e) = []" by (simp add: empty open_first_def)
  have rm: "qlen (queue_at (shm rcv_sys) d n e) + length (ep_pending (shm rcv_sys) d n e) < MCAPI_MAX_QUEUE_ENTRIES"
    by (simp add: empty)
  show ?thesis
  proof (rule recv_i_call_pending [OF assms(1) inv l ep(2) om rm, of a bsz])
    fix st1 assume r1: "mcapi_msg_recv_i re (UserBuf a) bsz True rcv_sys = Some ((Some (encode_request r), MCAPI_SUCCESS), rcv_sys\<lparr>shm := st1\<rparr>)"
      and pe: "ep_pending st1 d n e = ep_pending (shm rcv_sys) d n e @ [encode_request r]" and pr: "pending_receive st1 r (d, n, e) a bsz"
      and l1: "request_lists st1 (x # free) (r # full)" and i1: "sys_inv st1" and u1: "user_bytes st1 = user_bytes (shm rcv_sys)"
      and me: "message_endpoint st1 = message_endpoint (shm rcv_sys)" and rm1: "ep_room d n e st1 = ep_room d n e (shm rcv_sys)"
    let ?s1 = "snd_sys\<lparr>shm := st1\<rparr>"
    have t1: "mcapi_trans_test_i (encode_request r) k MCAPI_SUCCESS (rcv_sys\<lparr>shm := st1\<rparr>) =
        Some ((False, encode_request r, k, MCAPI_SUCCESS), rcv_sys\<lparr>shm := st1\<rparr>)"
      by (rule test_pending [of _ r d n e a bsz]) (use assms(1) i1 pr pe in simp_all)
    have v: "mcapi_trans_valid_request_handle (encode_request r)"
      using pr by (simp add: pending_receive_def mcapi_trans_valid_request_handle_def)
    have o: "ready ?s1" "sys_inv (shm ?s1)" "request_lists (shm ?s1) (x # free) (r # full)" "message_endpoint (shm ?s1) se (sd, sn, sp)"
      "message_endpoint (shm ?s1) re (d, n, e)" "0 < ep_room d n e (shm ?s1)" "pending_receive (shm ?s1) r (d, n, e) a bsz"
      "ep_pending (shm ?s1) d n e = encode_request r # []"
      using assms(2) i1 l1 ep me room rm1 pr pe empty by simp_all
    show ?thesis
    proof (rule send_to_pending [OF o(1-6) sz prio o(7,8), of b env])
      fix st2 s assume s2: "mcapi_msg_send se re (UserBuf b) sz prio env ?s1 = Some (MCAPI_SUCCESS, ?s1\<lparr>shm := st2\<rparr>)"
        and m2: "(encode_request r, bytes_of (user_bytes (shm ?s1) b) sz, s) \<in> set (ep_messages st2 d n e)"
        and p2: "pending_receive st2 r (d, n, e) a bsz" and l2: "request_lists st2 (x # free) (r # full)" and i2: "sys_inv st2"
        and u2: "user_bytes st2 = user_bytes (shm ?s1)"
      let ?r2 = "rcv_sys\<lparr>shm := st2\<rparr>"
      have q: "ready ?r2" "sys_inv (shm ?r2)" "pending_receive (shm ?r2) r (d, n, e) a bsz"
        "(encode_request r, bytes_of (user_bytes (shm rcv_sys) b) sz, s) \<in> set (ep_messages (shm ?r2) d n e)"
        "request_lists (shm ?r2) (x # free) ([] @ r # full)"
        using assms(1) i2 p2 m2 l2 u1 by simp_all
      show ?thesis
      proof (rule test_matched [OF q, of k MCAPI_SUCCESS])
        fix st3 assume t3: "mcapi_trans_test_i (encode_request r) k MCAPI_SUCCESS ?r2 = Some ((True, 0,
            min bsz (length (bytes_of (user_bytes (shm rcv_sys) b) sz)),
            if bsz < length (bytes_of (user_bytes (shm rcv_sys) b) sz) then MCAPI_ERR_MSG_TRUNCATED else MCAPI_SUCCESS), ?r2\<lparr>shm := st3\<rparr>)"
          and tk: "taken_message (shm ?r2) (d, n, e) r a bsz (bytes_of (user_bytes (shm rcv_sys) b) sz) st3"
          and z: "requests st3 r = zero_request"
        have t4: "mcapi_trans_test_i (encode_request r) k MCAPI_SUCCESS (rcv_sys\<lparr>shm := st3\<rparr>) =
            Some ((True, encode_request r, k, MCAPI_ERR_REQUEST_INVALID), rcv_sys\<lparr>shm := st3\<rparr>)"
          using assms(1) z pr by (simp add: mcapi_trans_test_i_def with_lock_unchecked_ready test_have_lock_def pending_receive_def)
        show ?thesis
          by (rule exI [of _ "encode_request r"], rule exI [of _ st1], rule exI [of _ st2], rule exI [of _ st3])
            (use r1 t1 s2 t3 t4 tk v u1 u2 in \<open>simp add: mcapi_test_def taken_message_def\<close>)
      qed
    qed
  qed
qed


theorem recv_send_test_witness:
  "\<exists>rq st1 st2 st3.
     mcapi_msg_recv_i 0x100 (UserBuf 2) 8 True (node_sys 1 two_nodes) = Some ((Some rq, MCAPI_SUCCESS), node_sys 1 st1) \<and>
     mcapi_test rq True 0 (node_sys 1 st1) = Some ((False, rq, 0, MCAPI_SUCCESS), node_sys 1 st1) \<and>
     mcapi_msg_send 0 0x100 (UserBuf 1) 3 0 [] (node_sys 0 st1) = Some (MCAPI_SUCCESS, node_sys 0 st2) \<and>
     mcapi_test rq True 0 (node_sys 1 st2) = Some ((True, 0, 3, MCAPI_SUCCESS), node_sys 1 st3) \<and>
     bytes_of (user_bytes st3 2) 3 = bytes_of (user_bytes two_nodes 1) 3"
proof -
  have p: "path_ok 0 1 0" by (simp add: path_ok_iff mcapi_limits)
  note t = recv_send_test [OF node_sys_ready(1) [of 1 two_nodes] node_sys_ready(1) [of 0 two_nodes], unfolded node_sys_ready,
      OF two_nodes_inv two_nodes_requests2 two_nodes_endpoints two_nodes_views(1,2) [OF p] two_nodes_room demo_sizes]
  from t [where a = 2 and env = "[]" and b = 1 and bsz = 8 and k = 0] show ?thesis by auto
qed

section \<open>Waiting\<close>

text \<open>The states a waiting call sees: the environment applied step by step.\<close>

abbreviation after :: "(mcapi_state \<Rightarrow> mcapi_state) list \<Rightarrow> mcapi_state \<Rightarrow> mcapi_state" where
  "after fs st \<equiv> fold (\<lambda>f. f) fs st"

definition still_waiting :: "nat \<Rightarrow> nat \<times> nat \<times> nat \<Rightarrow> addr \<Rightarrow> nat \<Rightarrow> mcapi_state \<Rightarrow> bool" where
  "still_waiting r p a bsz st \<longleftrightarrow> sys_inv st \<and> pending_receive st r p a bsz \<and>
     (case p of (d, n, e) \<Rightarrow> encode_request r \<in> set (ep_pending st d n e))"

lemma wait_loop_step:
  assumes "ready sys" "still_waiting r (d, n, e) a bsz (shm sys)" "timeout = MCA_INFINITE \<or> \<not> timeout \<le> time + 1"
  shows "wait_loop (encode_request r) k status timeout time (f # env) sys =
     wait_loop (encode_request r) k status timeout (time + 1) env (env_step f sys)"
proof -
  have t: "mcapi_trans_test_i (encode_request r) k status sys = Some ((False, encode_request r, k, status), sys)"
    using assms(2) by (intro test_pending [OF assms(1)]) (auto simp: still_waiting_def)
  show ?thesis by (subst wait_loop.simps) (use assms(3) in \<open>auto simp: t Let_def\<close>)
qed

lemma wait_loop_steps:
  assumes "ready sys" "\<forall>i\<le>length fs. still_waiting r (d, n, e) a bsz (after (take i fs) (shm sys))" "timeout = MCA_INFINITE"
  shows "\<exists>time'. wait_loop (encode_request r) k status timeout time (fs @ g # env) sys =
     wait_loop (encode_request r) k status timeout time' env (env_step g (sys\<lparr>shm := after fs (shm sys)\<rparr>))"
  using assms(1,2)
proof (induction fs arbitrary: sys time)
  case Nil
  then have "still_waiting r (d, n, e) a bsz (shm sys)" by simp
  from wait_loop_step [OF Nil.prems(1) this, of timeout time k status g env] assms(3) show ?case by auto
next
  case (Cons f fs)
  from Cons.prems(2) have w: "still_waiting r (d, n, e) a bsz (shm sys)" by (metis fold_simps(1) le0 take0)
  have r: "ready (env_step f sys)" using Cons.prems(1) by (simp add: env_step_def)
  have "\<forall>i\<le>length fs. still_waiting r (d, n, e) a bsz (after (take i fs) (shm (env_step f sys)))"
    using Cons.prems(2) by (auto simp: env_step_def dest: spec [of _ "Suc _"])
  from Cons.IH [OF r this, of "time + 1"] wait_loop_step [OF Cons.prems(1) w, of timeout time k status f "fs @ g # env"] assms(3)
  show ?case by (auto simp: env_step_def)
qed

text \<open>
  C25: Waiting without a time limit on a pending receive returns as soon as another node has
  delivered a message to it, however many steps of other nodes leave it pending before: the call
  reports completion, invalidates the caller's request, gives the size and the status of the
  receive, and the bytes of the message, as many as fit, are in the buffer named when the receive
  was started. For a message that does not fit it returns true with the truncation error.
\<close>

theorem wait_returns_on_delivery:
  assumes ready: "ready sys" and w: "\<forall>i\<le>length fs. still_waiting r (d, n, e) a bsz (after (take i fs) (shm sys))"
    and i: "sys_inv (g (after fs (shm sys)))" and pr: "pending_receive (g (after fs (shm sys))) r (d, n, e) a bsz"
    and m: "(encode_request r, bs, s) \<in> set (ep_messages (g (after fs (shm sys))) d n e)"
    and l: "request_lists (g (after fs (shm sys))) free (ys @ r # zs)"
  shows "\<exists>st'. mcapi_wait (encode_request r) True k MCA_INFINITE (fs @ g # rest) sys =
      Some ((True, 0, min bsz (length bs), if bsz < length bs then MCAPI_ERR_MSG_TRUNCATED else MCAPI_SUCCESS), sys\<lparr>shm := st'\<rparr>) \<and>
     taken_message (g (after fs (shm sys))) (d, n, e) r a bsz bs st' \<and> request_lists st' (r # free) (ys @ zs)"
proof -
  let ?sys = "env_step g (sys\<lparr>shm := after fs (shm sys)\<rparr>)"
  have e: "shm ?sys = g (after fs (shm sys))" "ready ?sys" "?sys\<lparr>shm := st\<rparr> = sys\<lparr>shm := st\<rparr>" for st
    using ready by (simp_all add: env_step_def)
  have dr: "mcapi_trans_decode_request_handle (encode_request r) = Some r" using pr by (simp add: pending_receive_def)
  from wait_loop_steps [OF ready w refl, of k MCAPI_SUCCESS 0 g rest] obtain time where
    wl: "wait_loop (encode_request r) k MCAPI_SUCCESS MCA_INFINITE 0 (fs @ g # rest) sys =
      wait_loop (encode_request r) k MCAPI_SUCCESS MCA_INFINITE time rest ?sys" by blast
  show ?thesis
  proof (rule test_matched [OF e(2), unfolded e(1), OF i pr m l, of k MCAPI_SUCCESS])
    fix st' assume t: "mcapi_trans_test_i (encode_request r) k MCAPI_SUCCESS ?sys = Some ((True, 0, min bsz (length bs),
        if bsz < length bs then MCAPI_ERR_MSG_TRUNCATED else MCAPI_SUCCESS), ?sys\<lparr>shm := st'\<rparr>)"
      and tk: "taken_message (g (after fs (shm sys))) (d, n, e) r a bsz bs st'" "request_lists st' (r # free) (ys @ zs)"
    have "wait_loop (encode_request r) k MCAPI_SUCCESS MCA_INFINITE time rest ?sys = Some ((True, 0, min bsz (length bs),
        if bsz < length bs then MCAPI_ERR_MSG_TRUNCATED else MCAPI_SUCCESS), sys\<lparr>shm := st'\<rparr>)"
      by (subst wait_loop.simps) (simp add: t e(3) Let_def)
    then show ?thesis using tk by (intro exI [of _ st'])
      (simp add: mcapi_wait_def mcapi_trans_valid_request_handle_def dr mcapi_trans_wait_def wl)
  qed
qed

theorem wait_returns_on_delivery_witness:
  "\<exists>st1 g st'. mcapi_msg_recv_i 0x100 (UserBuf 2) 8 True (node_sys 1 two_nodes) = Some ((Some (encode_request 0), MCAPI_SUCCESS), node_sys 1 st1) \<and>
     map_option snd (mcapi_msg_send 0 0x100 (UserBuf 1) 3 0 [] (node_sys 0 st1)) = Some (node_sys 0 (g st1)) \<and>
     mcapi_wait (encode_request 0) True 0 MCA_INFINITE [\<lambda>st. st, g] (node_sys 1 st1) =
       Some ((True, 0, 3, MCAPI_SUCCESS), node_sys 1 st') \<and>
     bytes_of (user_bytes st' 2) 3 = bytes_of (user_bytes two_nodes 1) 3"
proof -
  have p: "path_ok 0 1 0" by (simp add: path_ok_iff mcapi_limits)
  note v = two_nodes_views [OF p]
  have e: "open_first (ep_messages two_nodes 0 1 0) = []"
    "qlen (queue_at two_nodes 0 1 0) + length (ep_pending two_nodes 0 1 0) < MCAPI_MAX_QUEUE_ENTRIES"
    using v two_nodes_queue [OF p] by (simp_all add: open_first_def qlen_def ring_dist_def zero_queue_def mcapi_limits)
  show ?thesis
  proof (rule recv_i_call_pending [OF node_sys_ready(1) [of 1 two_nodes], unfolded node_sys_ready, OF two_nodes_inv
      two_nodes_requests2 two_nodes_endpoints(2) e, where a = 2 and bsz = 8])
    fix st1 assume r1: "mcapi_msg_recv_i 0x100 (UserBuf 2) 8 True (node_sys 1 two_nodes) =
        Some ((Some (encode_request 0), MCAPI_SUCCESS), node_sys 1 st1)"
      and pe: "ep_pending st1 0 1 0 = ep_pending two_nodes 0 1 0 @ [encode_request 0]" and pr: "pending_receive st1 0 (0, 1, 0) 2 8"
      and l1: "request_lists st1 (1 # [2..<MCAPI_MAX_REQUESTS]) [0]" and i1: "sys_inv st1" and u1: "user_bytes st1 = user_bytes two_nodes"
      and me: "message_endpoint st1 = message_endpoint two_nodes" and rm1: "ep_room 0 1 0 st1 = ep_room 0 1 0 two_nodes"
    have o: "message_endpoint st1 0 (0, 0, 0)" "message_endpoint st1 0x100 (0, 1, 0)" "0 < ep_room 0 1 0 st1"
      "ep_pending st1 0 1 0 = encode_request 0 # []"
      using me two_nodes_endpoints rm1 two_nodes_room pe v by simp_all
    show ?thesis
    proof (rule send_to_pending [OF node_sys_ready(1) [of 0 st1], unfolded node_sys_ready, OF i1 l1 o(1-3) demo_sizes pr o(4), where b = 1 and env = "[]"])
      fix st2 s assume s2: "mcapi_msg_send 0 0x100 (UserBuf 1) 3 0 [] (node_sys 0 st1) = Some (MCAPI_SUCCESS, node_sys 0 st2)"
        and m2: "(encode_request 0, bytes_of (user_bytes st1 1) 3, s) \<in> set (ep_messages st2 0 1 0)"
        and p2: "pending_receive st2 0 (0, 1, 0) 2 8" and l2: "request_lists st2 (1 # [2..<MCAPI_MAX_REQUESTS]) [0]" and i2: "sys_inv st2"
      have l3: "request_lists st2 (1 # [2..<MCAPI_MAX_REQUESTS]) ([] @ 0 # [])" using l2 by simp
      have w: "still_waiting 0 (0, 1, 0) 2 8 st1" using i1 pr o(4) by (simp add: still_waiting_def)
      have "\<forall>i\<le>length [\<lambda>st :: mcapi_state. st]. still_waiting 0 (0, 1, 0) 2 8 (after (take i [\<lambda>st. st]) (shm (node_sys 1 st1)))"
        using w by (auto simp: node_sys_ready le_Suc_eq)
      from wait_returns_on_delivery [OF node_sys_ready(1) this, of "\<lambda>_. st2", OF i2 p2 m2 l3, of 0 "[]"] obtain st' where
        "mcapi_wait (encode_request 0) True 0 MCA_INFINITE [\<lambda>st. st, \<lambda>_. st2] (node_sys 1 st1) = Some ((True, 0, 3, MCAPI_SUCCESS), node_sys 1 st')"
        "taken_message st2 (0, 1, 0) 0 2 8 (bytes_of (user_bytes st1 1) 3) st'" by (auto simp: node_sys_ready)
      with r1 s2 u1 show ?thesis
        by (intro exI [of _ st1] exI [of _ "\<lambda>_. st2"] exI [of _ st']) (simp add: taken_message_def)
    qed
  qed
qed

end
