(* ===== verification/MCAPI_Limits.thy ===== *)
theory MCAPI_Limits
  imports MCAPI_Messages
begin

text \<open>
  What the calls do when something runs out or does not come: a full endpoint, an exhausted
  request pool, a time limit, a cancelled request, wrong arguments.
\<close>

section \<open>A request that is complete at once\<close>

lemma start_and_wait_done:
  assumes ready: "ready sys" and op: "op MCAPI_SUCCESS sys = Some ((Some (encode_request r), status), sys\<lparr>shm := st1\<rparr>)"
    and st: "status \<noteq> MCAPI_ERR_REQUEST_LIMIT" and l: "request_lists st1 free (ys @ r # zs)"
    and c: "rvalid (requests st1 r)" "\<not> cancelled (requests st1 r)" "completed (requests st1 r)"
  obtains st2 where "start_and_wait op k env sys =
      Some ((rstatus (requests st1 r) = MCAPI_SUCCESS, rsize (requests st1 r)), sys\<lparr>shm := st2\<rparr>)"
    and "request_lists st2 (r # free) (ys @ zs)" and "requests st2 = (requests st1)(r := zero_request)"
    and "domains st2 = domains st1" "buffers st2 = buffers st1" "user_bytes st2 = user_bytes st1" "user_ptrs st2 = user_ptrs st1"
    and "\<exists>x. mcapi_trans_test_i (encode_request r) k status (sys\<lparr>shm := st1\<rparr>) = Some (x, sys\<lparr>shm := st2\<rparr>)"
proof -
  let ?sys1 = "sys\<lparr>shm := st1\<rparr>"
  have o: "request_lists (shm ?sys1) free (ys @ r # zs)" "ready ?sys1" "rvalid (requests (shm ?sys1) r)"
    "\<not> cancelled (requests (shm ?sys1) r)" "completed (requests (shm ?sys1) r)"
    using l ready c by simp_all
  show thesis
  proof (rule test_completed [OF o, of k status])
    fix st2 assume t: "mcapi_trans_test_i (encode_request r) k status ?sys1 =
        Some ((True, 0, rsize (requests (shm ?sys1) r), rstatus (requests (shm ?sys1) r)), ?sys1\<lparr>shm := st2\<rparr>)"
      and f: "request_lists st2 (r # free) (ys @ zs)" "requests st2 = (requests (shm ?sys1))(r := zero_request)"
       "domains st2 = domains (shm ?sys1)" "buffers st2 = buffers (shm ?sys1)" "user_bytes st2 = user_bytes (shm ?sys1)"
       "user_ptrs st2 = user_ptrs (shm ?sys1)"
    have "start_and_wait op k env sys = Some ((rstatus (requests st1 r) = MCAPI_SUCCESS, rsize (requests st1 r)), sys\<lparr>shm := st2\<rparr>)"
      using st wait_completed [OF t request_memory [OF refl l]] by (simp add: start_and_wait_def until_request.simps op)
    moreover have "\<exists>x. mcapi_trans_test_i (encode_request r) k status ?sys1 = Some (x, sys\<lparr>shm := st2\<rparr>)"
      using t by (intro exI) simp
    ultimately show thesis using f by (intro that [of st2]) simp_all
  qed
qed

section \<open>A full endpoint\<close>

lemma refused_send_i:
  assumes ready: "ready sys" and inv: "sys_inv (shm sys)" and l: "request_lists (shm sys) (r # free) full"
    and ep: "message_endpoint (shm sys) se (sd, sn, sp)" "message_endpoint (shm sys) re (d, n, e)"
    and room: "ep_room d n e (shm sys) = 0"
  obtains st' where "mcapi_trans_msg_send_i se re b sz MCAPI_SUCCESS sys = Some ((Some (encode_request r), MCAPI_SUCCESS), sys\<lparr>shm := st'\<rparr>)"
    and "\<And>d' n' e'. path_ok d' n' e' \<Longrightarrow> ep_messages st' d' n' e' = ep_messages (shm sys) d' n' e' \<and> ep_pending st' d' n' e' = ep_pending (shm sys) d' n' e'"
    and "buffers st' = buffers (shm sys)" and "user_bytes st' = user_bytes (shm sys)" and "request_lists st' free (r # full)"
    and "requests st' = (requests (shm sys))(r := (requests (shm sys) r)\<lparr>rvalid := True, rstatus := MCAPI_ERR_MEM_LIMIT,
       rsize := sz, cancelled := False, completed := True, rtype := SEND, rhandle := re\<rparr>)"
proof -
  let ?st = "shm sys"
  from reserve_request_some [OF l] obtain st1 where r1: "mcapi_trans_reserve_request_have_lock ?st = (Some r, st1)"
      "request_lists st1 free (r # full)" "requests st1 = (requests ?st)(r := (requests ?st r)\<lparr>rvalid := True\<rparr>)"
    and f1: "domains st1 = domains ?st" "buffers st1 = buffers ?st" "user_bytes st1 = user_bytes ?st" by metis
  note v1 = same_db_views [OF f1(1,2)]
  have o: "db_inv st1" "path_ok d n e" "ep_room d n e st1 = 0"
    using inv v1 room message_endpoint_path [OF ep(2)] by (simp_all add: sys_inv_def)
  show thesis
  proof (rule refused_send_view [OF o, of b sz 0])
    fix st2 assume s: "mcapi_trans_send_have_lock d n e b sz 0 st1 = Some (False, st2)"
      and m: "\<And>d' n' e'. path_ok d' n' e' \<Longrightarrow> ep_messages st2 d' n' e' = ep_messages st1 d' n' e' \<and> ep_pending st2 d' n' e' = ep_pending st1 d' n' e'"
      and f: "buffers st2 = buffers st1" "requests st2 = requests st1" "request_reserves_header st2 = request_reserves_header st1"
        "user_bytes st2 = user_bytes st1"
    let ?f = "\<lambda>rd. rd\<lparr>rstatus := MCAPI_ERR_MEM_LIMIT, rsize := sz, cancelled := False, completed := True, rtype := SEND, rhandle := re\<rparr>"
    have u: "domains (upd_request r ?f st2) = domains st2" "buffers (upd_request r ?f st2) = buffers st2" by (simp_all add: frame_simps)
    show thesis
    proof (rule that [of "upd_request r ?f st2"])
      show "mcapi_trans_msg_send_i se re b sz MCAPI_SUCCESS sys =
        Some ((Some (encode_request r), MCAPI_SUCCESS), sys\<lparr>shm := upd_request r ?f st2\<rparr>)"
        using ep v1 by (simp add: mcapi_trans_msg_send_i_def with_lock_ready [OF ready] with_request_def r1(1) no_channel_def
          message_endpoint_def s setup_done)
    next
      fix d' n' e' assume "path_ok d' n' e'"
      then show "ep_messages (upd_request r ?f st2) d' n' e' = ep_messages ?st d' n' e' \<and> ep_pending (upd_request r ?f st2) d' n' e' = ep_pending ?st d' n' e'"
        unfolding same_db_views [OF u] using m v1 by simp
    qed (use r1 f f1 in \<open>simp_all add: request_lists_def upd_request_def\<close>)
  qed
qed

text \<open>
  A blocking send to an endpoint without room, because its ring is full or no transport
  buffer is left, returns with the memory limit error; no message appears or is lost anywhere,
  no buffer is taken and the request entry it used is back in the pool.
\<close>

theorem send_to_full_endpoint:
  assumes "ready sys" and "sys_inv (shm sys)" and "request_lists (shm sys) (r # free) full"
    and "message_endpoint (shm sys) se (sd, sn, sp)" and "message_endpoint (shm sys) re (d, n, e)"
    and "ep_room d n e (shm sys) = 0" and "sz \<le> MCAPI_MAX_MSG_SIZE" and "unat prio \<le> MCAPI_MAX_PRIORITY"
  shows "\<exists>st'. mcapi_msg_send se re b sz prio env sys = Some (MCAPI_ERR_MEM_LIMIT, sys\<lparr>shm := st'\<rparr>) \<and>
     buffers st' = buffers (shm sys) \<and> user_bytes st' = user_bytes (shm sys) \<and> request_lists st' (r # free) full \<and>
     (\<forall>d' n' e'. path_ok d' n' e' \<longrightarrow>
        ep_messages st' d' n' e' = ep_messages (shm sys) d' n' e' \<and> ep_pending st' d' n' e' = ep_pending (shm sys) d' n' e')"
proof (rule refused_send_i [OF assms(1-6), of b sz])
  fix st1 assume s: "mcapi_trans_msg_send_i se re b sz MCAPI_SUCCESS sys = Some ((Some (encode_request r), MCAPI_SUCCESS), sys\<lparr>shm := st1\<rparr>)"
    and m: "\<And>d' n' e'. path_ok d' n' e' \<Longrightarrow> ep_messages st1 d' n' e' = ep_messages (shm sys) d' n' e' \<and> ep_pending st1 d' n' e' = ep_pending (shm sys) d' n' e'"
    and f: "buffers st1 = buffers (shm sys)" "user_bytes st1 = user_bytes (shm sys)" "request_lists st1 free (r # full)"
    and q: "requests st1 = (requests (shm sys))(r := (requests (shm sys) r)\<lparr>rvalid := True, rstatus := MCAPI_ERR_MEM_LIMIT,
       rsize := sz, cancelled := False, completed := True, rtype := SEND, rhandle := re\<rparr>)"
  have c: "request_lists st1 free ([] @ r # full)" "rvalid (requests st1 r)" "\<not> cancelled (requests st1 r)" "completed (requests st1 r)"
    using f q by simp_all
  show ?thesis
  proof (rule start_and_wait_done [where op = "mcapi_trans_msg_send_i se re b sz", OF assms(1) s _ c, of 0 env])
    fix st2 assume w: "start_and_wait (mcapi_trans_msg_send_i se re b sz) 0 env sys =
        Some ((rstatus (requests st1 r) = MCAPI_SUCCESS, rsize (requests st1 r)), sys\<lparr>shm := st2\<rparr>)"
      and g: "request_lists st2 (r # free) ([] @ full)" "domains st2 = domains st1" "buffers st2 = buffers st1" "user_bytes st2 = user_bytes st1"
    have "mcapi_msg_send se re b sz prio env sys = Some (MCAPI_ERR_MEM_LIMIT, sys\<lparr>shm := st2\<rparr>)"
      using msg_send_checks_ok [OF assms(1,4,5,7,8)] w q by (simp add: mcapi_msg_send_def mcapi_trans_msg_send_def)
    then show ?thesis using same_db_views [OF g(2,3)] f g m by auto
  qed simp
qed

lemma buffers_inv:
  assumes "sys_inv st" and "\<And>d n e. path_ok d n e \<Longrightarrow> queue_at st d n e = zero_queue"
  shows "sys_inv (st\<lparr>buffers := b\<rparr>)"
proof -
  have q: "queue_at (st\<lparr>buffers := b\<rparr>) = queue_at st" by (simp add: fun_eq_iff queue_at_def endpoint_at_def node_at_def)
  have "db_inv (st\<lparr>buffers := b\<rparr>)" using assms(2) by (simp add: db_inv_def q queue_ok_def zero_queue_facts zero_queue_inv(1))
  then show ?thesis using assms(1) by (simp add: sys_inv_def request_lists_def req_link_def queued_def q waits_at_def valid_in_def)
qed

text \<open>Two nodes that have used up every transport buffer.\<close>

definition no_buffers :: mcapi_state where
  "no_buffers = two_nodes\<lparr>buffers := (\<lambda>_. zero_buffer\<lparr>magic_num := MAGIC_NUM\<rparr>)\<rparr>"

lemma no_buffers_facts:
  "sys_inv no_buffers" "request_lists no_buffers (0 # [1..<MCAPI_MAX_REQUESTS]) []" "message_endpoint no_buffers = message_endpoint two_nodes"
  "ep_room d n e no_buffers = 0"
proof -
  show "sys_inv no_buffers" unfolding no_buffers_def by (rule buffers_inv [OF two_nodes_inv two_nodes_queue])
qed (use two_nodes_requests in \<open>simp_all add: no_buffers_def request_lists_def fun_eq_iff
    message_endpoint_def node_at_def endpoint_at_def queue_at_def ep_room_def free_buffers_def MAGIC_NUM_def\<close>)

theorem send_to_full_endpoint_witness:
  "\<exists>st'. mcapi_msg_send 0 0x100 (UserBuf 1) 3 0 [] (node_sys 0 no_buffers) = Some (MCAPI_ERR_MEM_LIMIT, node_sys 0 st') \<and>
     request_lists st' (0 # [1..<MCAPI_MAX_REQUESTS]) []"
proof -
  note e = two_nodes_endpoints [folded no_buffers_facts(3)]
  note t = send_to_full_endpoint [OF node_sys_ready(1) [of 0 no_buffers], unfolded node_sys_ready, OF no_buffers_facts(1,2) e no_buffers_facts(4) demo_sizes]
  from t [of "UserBuf 1" "[]"] show ?thesis by blast
qed

section \<open>An exhausted request pool\<close>

lemma with_request_none:
  "request_lists st [] full \<Longrightarrow> with_request f st = Some ((None, MCAPI_ERR_REQUEST_LIMIT), st)"
  by (simp add: with_request_def reserve_request_none)

text \<open>Once the status is the request limit, the receive operations give it back unchanged.\<close>

lemma with_request_limit:
  assumes "with_lock (with_request f) sys = Some ((rq, status), sys')"
    and "\<And>r st rq status st'. f r st = Some ((rq, status), st') \<Longrightarrow> status = MCAPI_ERR_REQUEST_LIMIT"
  shows "status = MCAPI_ERR_REQUEST_LIMIT"
proof -
  from assms(1) obtain st st' where "with_request f st = Some ((rq, status), st')"
    by (auto simp: with_lock_def bind_eq_Some_conv)
  then show ?thesis using assms(2) by (auto simp: with_request_def split: prod.splits option.splits)
qed

lemma recv_keeps_limit:
  "mcapi_trans_msg_recv_i re b sz MCAPI_ERR_REQUEST_LIMIT sys = Some ((rq, status), sys') \<Longrightarrow> status = MCAPI_ERR_REQUEST_LIMIT"
  "mcapi_trans_pktchan_recv_i h a MCAPI_ERR_REQUEST_LIMIT sys = Some ((rq, status), sys') \<Longrightarrow> status = MCAPI_ERR_REQUEST_LIMIT"
  unfolding mcapi_trans_msg_recv_i_def mcapi_trans_pktchan_recv_i_def
  by (erule with_request_limit, simp add: bind_eq_Some_conv split: prod.splits, blast)+

lemma until_request_stuck:
  assumes "\<And>sys rq status sys'. op MCAPI_ERR_REQUEST_LIMIT sys = Some ((rq, status), sys') \<Longrightarrow> status = MCAPI_ERR_REQUEST_LIMIT"
  shows "until_request op MCAPI_ERR_REQUEST_LIMIT env sys = None"
proof (induction env arbitrary: sys)
  case Nil
  then show ?case using assms [of sys]
    by (cases "op MCAPI_ERR_REQUEST_LIMIT sys") (auto simp: until_request.simps split: prod.splits)
next
  case (Cons f env)
  then show ?case using assms [of sys]
    by (cases "op MCAPI_ERR_REQUEST_LIMIT sys") (auto simp: until_request.simps [of op MCAPI_ERR_REQUEST_LIMIT "f # env"] split: prod.splits)
qed

lemma until_request_limit:
  assumes "op MCAPI_SUCCESS sys = Some ((None, MCAPI_ERR_REQUEST_LIMIT), sys)"
  shows "until_request op MCAPI_SUCCESS (f # env) sys = until_request op MCAPI_ERR_REQUEST_LIMIT env (env_step f sys)"
    and "until_request op MCAPI_SUCCESS [] sys = None"
  by (simp_all add: until_request.simps assms)

text \<open>
  A blocking receive, of a message or of a packet, that once finds the request pool exhausted
  never returns, whatever the other nodes do afterwards and even when they give requests back:
  the status of the failed attempt is passed into the next one, which takes it for an error of
  the arguments.
\<close>

theorem blocking_recv_stuck_on_limit:
  assumes "ready sys" and "request_lists (shm sys) [] full"
    and "message_endpoint (shm sys) re (d, n, e)" and "valid_channel_handle MCAPI_PKT_CHAN h (shm sys)"
  shows "mcapi_msg_recv re (UserBuf a) sz k env sys = None \<and> mcapi_pktchan_recv h (Some c) k env sys = None"
proof -
  have l: "mcapi_trans_msg_recv_i re (UserBuf a) sz MCAPI_SUCCESS sys = Some ((None, MCAPI_ERR_REQUEST_LIMIT), sys)"
    "mcapi_trans_pktchan_recv_i h c MCAPI_SUCCESS sys = Some ((None, MCAPI_ERR_REQUEST_LIMIT), sys)"
    using assms(1) by (simp_all add: mcapi_trans_msg_recv_i_def mcapi_trans_pktchan_recv_i_def with_lock_ready with_request_none [OF assms(2)])
  have "until_request (mcapi_trans_msg_recv_i re (UserBuf a) sz) MCAPI_SUCCESS env sys = None"
    "until_request (mcapi_trans_pktchan_recv_i h c) MCAPI_SUCCESS env sys = None"
    by (cases env; simp add: until_request_limit [where op = "mcapi_trans_msg_recv_i re (UserBuf a) sz", OF l(1)]
      until_request_limit [where op = "mcapi_trans_pktchan_recv_i h c", OF l(2)] until_request_stuck recv_keeps_limit)+
  then show ?thesis
    unfolding mcapi_msg_recv_def recv_checks_ok [OF assms(1,3)]
    using assms(4) by (simp add: mcapi_pktchan_recv_def when_ok_def
      mcapi_trans_msg_recv_def mcapi_trans_pktchan_recv_def start_and_wait_def not_check_def
      mcapi_trans_valid_pktchan_recv_handle_def with_lock_ready [OF assms(1)] reading_def)
qed

text \<open>Two nodes, with a packet channel at one endpoint, that have used up every request.\<close>

definition no_requests :: mcapi_state where
  "no_requests = snd (alloc_times mcapi_trans_reserve_request_have_lock MCAPI_MAX_REQUESTS
     (upd_queue 0 0 0 (\<lambda>q. q\<lparr>chan_type := MCAPI_PKT_CHAN\<rparr>) two_nodes))"

lemma reserve_domains: "domains (snd (mcapi_trans_reserve_request_have_lock st)) = domains st"
  by (simp add: mcapi_trans_reserve_request_have_lock_def Let_def upd_request_def)

lemma alloc_domains: "domains (snd (alloc_times mcapi_trans_reserve_request_have_lock n st)) = domains st"
proof (induction n arbitrary: st)
  case (Suc n)
  then show ?case using reserve_domains [of st] by (simp add: split_beta)
qed simp

lemma no_requests_facts:
  "request_lists no_requests [] (rev (0 # [1..<MCAPI_MAX_REQUESTS]))" "message_endpoint no_requests 0x100 (0, 1, 0)"
  "valid_channel_handle MCAPI_PKT_CHAN 0 no_requests"
proof -
  let ?st = "upd_queue 0 0 0 (\<lambda>q. q\<lparr>chan_type := MCAPI_PKT_CHAN\<rparr>) two_nodes"
  have "request_lists ?st (0 # [1..<MCAPI_MAX_REQUESTS]) []" using two_nodes_requests by (simp add: request_lists_def frame_simps)
  from requests.alloc_many [OF this, of MCAPI_MAX_REQUESTS]
  show "request_lists no_requests [] (rev (0 # [1..<MCAPI_MAX_REQUESTS]))"
    by (auto simp: no_requests_def MCAPI_MAX_REQUESTS_def)
  have d: "domains no_requests = domains ?st" by (simp add: no_requests_def alloc_domains)
  then have v: "node_at no_requests = node_at ?st" "endpoint_at no_requests = endpoint_at ?st" "queue_at no_requests = queue_at ?st"
    by (simp_all add: fun_eq_iff queue_at_def endpoint_at_def node_at_def)
  have h: "mcapi_trans_decode_handle 0 = Some (0, 0, 0)" by code_simp
  have q: "domain_valid (domains ?st 0) = domain_valid (domains two_nodes 0)" "node_valid (node_at ?st 0 1) = node_valid (node_at two_nodes 0 1)"
    "ep_valid (endpoint_at ?st 0 1 0) = ep_valid (endpoint_at two_nodes 0 1 0)"
    by (simp_all add: upd_queue_def set_queue_def frame_simps)
  show "valid_channel_handle MCAPI_PKT_CHAN 0 no_requests" by (simp add: valid_channel_handle_def h v frame_simps)
  show "message_endpoint no_requests 0x100 (0, 1, 0)"
    using two_nodes_endpoints(2) unfolding message_endpoint_def prod.case d v q by (simp add: frame_simps)
qed

theorem blocking_recv_stuck_on_limit_witness:
  "mcapi_msg_recv 0x100 (UserBuf 1) 8 0 [\<lambda>_. two_nodes] (node_sys 0 no_requests) = None \<and>
   mcapi_pktchan_recv 0 (Some 2) 0 [\<lambda>_. two_nodes] (node_sys 0 no_requests) = None"
  using blocking_recv_stuck_on_limit [OF node_sys_ready(1) [of 0 no_requests], unfolded node_sys_ready, OF no_requests_facts] by blast

text \<open>
  A blocking send that once finds the request pool exhausted reports the memory limit as soon
  as another node gives a request back, and does not send the message, even when the endpoint has
  room: no endpoint changes, and the request entry is back in the pool.
\<close>

theorem blocking_send_lost_on_limit:
  assumes ready: "ready sys" and l: "request_lists (shm sys) [] full"
    and ep: "message_endpoint (shm sys) se (sd, sn, sp)" "message_endpoint (shm sys) re (d, n, e)"
    and sz: "sz \<le> MCAPI_MAX_MSG_SIZE" and prio: "unat prio \<le> MCAPI_MAX_PRIORITY"
    and f: "request_lists (f (shm sys)) (r # free) full'"
  shows "\<exists>st'. mcapi_msg_send se re b sz prio (f # env) sys = Some (MCAPI_ERR_MEM_LIMIT, sys\<lparr>shm := st'\<rparr>) \<and>
     domains st' = domains (f (shm sys)) \<and> buffers st' = buffers (f (shm sys)) \<and> request_lists st' (r # free) full'"
proof -
  let ?op = "mcapi_trans_msg_send_i se re b sz" and ?sys = "env_step f sys"
  have s: "shm ?sys = f (shm sys)" "ready ?sys" "?sys\<lparr>shm := st\<rparr> = sys\<lparr>shm := st\<rparr>" for st
    using ready by (simp_all add: env_step_def)
  have l0: "?op MCAPI_SUCCESS sys = Some ((None, MCAPI_ERR_REQUEST_LIMIT), sys)"
    by (simp add: mcapi_trans_msg_send_i_def with_lock_ready [OF ready] with_request_none [OF l])
  from reserve_request_some [OF f] obtain st1 where r1: "mcapi_trans_reserve_request_have_lock (f (shm sys)) = (Some r, st1)"
      "request_lists st1 free (r # full')" "requests st1 = (requests (f (shm sys)))(r := (requests (f (shm sys)) r)\<lparr>rvalid := True\<rparr>)"
    and f1: "domains st1 = domains (f (shm sys))" "buffers st1 = buffers (f (shm sys))" by metis
  let ?f = "\<lambda>rd. rd\<lparr>rstatus := MCAPI_ERR_REQUEST_LIMIT, rsize := sz, cancelled := False, completed := True, rtype := SEND, rhandle := re\<rparr>"
  let ?st2 = "upd_request r ?f st1"
  have op: "?op MCAPI_ERR_REQUEST_LIMIT ?sys = Some ((Some (encode_request r), MCAPI_SUCCESS), sys\<lparr>shm := ?st2\<rparr>)"
    by (simp add: mcapi_trans_msg_send_i_def with_lock_ready [OF s(2)] s with_request_def r1(1) setup_done)
  have u: "until_request ?op MCAPI_SUCCESS (f # env) sys = Some (encode_request r, MCAPI_SUCCESS, env, sys\<lparr>shm := ?st2\<rparr>)"
    unfolding until_request_limit(1) [where op = ?op, OF l0] by (simp add: until_request.simps op)
  let ?sys2 = "sys\<lparr>shm := ?st2\<rparr>"
  have c: "request_lists (shm ?sys2) free ([] @ r # full')" "ready ?sys2" "rvalid (requests (shm ?sys2) r)"
    "\<not> cancelled (requests (shm ?sys2) r)" "completed (requests (shm ?sys2) r)"
    using r1 ready by (simp_all add: request_lists_def upd_request_def)
  show ?thesis
  proof (rule test_completed [OF c, of 0 MCAPI_SUCCESS])
    fix st3 assume t: "mcapi_trans_test_i (encode_request r) 0 MCAPI_SUCCESS ?sys2 =
        Some ((True, 0, rsize (requests (shm ?sys2) r), rstatus (requests (shm ?sys2) r)), ?sys2\<lparr>shm := st3\<rparr>)"
      and g: "request_lists st3 (r # free) ([] @ full')" "domains st3 = domains (shm ?sys2)" "buffers st3 = buffers (shm ?sys2)"
    note w = wait_completed [OF t request_memory [OF refl c(1)]]
    have "rstatus (requests ?st2 r) = MCAPI_ERR_REQUEST_LIMIT" by (simp add: upd_request_def)
    then have "mcapi_msg_send se re b sz prio (f # env) sys = Some (MCAPI_ERR_MEM_LIMIT, sys\<lparr>shm := st3\<rparr>)"
      using msg_send_checks_ok [OF ready ep sz prio] w
      by (simp add: mcapi_msg_send_def mcapi_trans_msg_send_def start_and_wait_def u)
    then show ?thesis using g f1 by (auto simp: upd_request_def)
  qed
qed

theorem blocking_send_lost_on_limit_witness:
  "\<exists>st'. mcapi_msg_send 0x100 0x100 (UserBuf 1) 3 0 [\<lambda>_. two_nodes] (node_sys 0 no_requests) = Some (MCAPI_ERR_MEM_LIMIT, node_sys 0 st') \<and>
     domains st' = domains two_nodes"
proof -
  note t = blocking_send_lost_on_limit [OF node_sys_ready(1) [of 0 no_requests], unfolded node_sys_ready, OF no_requests_facts(1,2,2) demo_sizes]
  from t [of "\<lambda>_. two_nodes", OF two_nodes_requests, of "UserBuf 1" "[]"] show ?thesis by blast
qed

section \<open>Time limits\<close>

text \<open>The number of tests before a wait with a time limit gives up: the limit, and at least one.\<close>

definition wait_rounds :: "u32 \<Rightarrow> nat" where
  "wait_rounds timeout = max 1 (unat timeout)"

lemma rounds_step:
  assumes "j < wait_rounds timeout" and "timeout \<noteq> MCA_INFINITE"
  shows "timeout \<le> of_nat j + 1 \<longleftrightarrow> Suc j = wait_rounds timeout"
proof -
  have "unat timeout \<noteq> unat MCA_INFINITE" using assms(2) word_unat_eq_iff by blast
  moreover have "unat MCA_INFINITE = 2 ^ 32 - 1" by (simp add: MCA_INFINITE_def unsigned_minus_1_eq_mask mask_eq_exp_minus_1)
  moreover have "unat timeout < 2 ^ 32" using order_le_less_trans [OF _ unsigned_less [of timeout], of "unat timeout"] by simp
  ultimately have b: "unat timeout < 2 ^ 32 - 1" by simp
  then have "Suc j < 2 ^ 32" using assms(1) by (simp add: wait_rounds_def)
  then have "unat (of_nat (Suc j) :: u32) = Suc j" by (simp only: unat_of_nat) simp
  then have "timeout \<le> of_nat (Suc j) \<longleftrightarrow> unat timeout \<le> Suc j" by (simp only: word_le_nat_alt)
  then show ?thesis using assms(1) by (auto simp: wait_rounds_def add.commute)
qed

lemma wait_loop_timeout:
  assumes "timeout \<noteq> MCA_INFINITE" and "ready sys" and "j + length fs = wait_rounds timeout" and "fs \<noteq> []"
    and "\<forall>i<length fs. still_waiting r (d, n, e) a bsz (after (take i fs) (shm sys))"
  shows "wait_loop (encode_request r) k status timeout (of_nat j) (fs @ env) sys =
     Some ((False, encode_request r, k, MCAPI_TIMEOUT), sys\<lparr>shm := after fs (shm sys)\<rparr>)"
  using assms(2-5)
proof (induction fs arbitrary: j sys)
  case (Cons f fs)
  have "still_waiting r (d, n, e) a bsz (after (take 0 (f # fs)) (shm sys))" using Cons.prems(4) by blast
  then have w: "still_waiting r (d, n, e) a bsz (shm sys)" by simp
  have t: "mcapi_trans_test_i (encode_request r) k status sys = Some ((False, encode_request r, k, status), sys)"
    using w by (intro test_pending [OF Cons.prems(1)]) (auto simp: still_waiting_def)
  have j: "timeout \<le> of_nat j + 1 \<longleftrightarrow> fs = []" using rounds_step [OF _ assms(1), of j] Cons.prems(2) by (cases fs) auto
  show ?case
  proof (cases "fs = []")
    case True
    then show ?thesis using j assms(1) by (subst wait_loop.simps) (simp add: t Let_def env_step_def)
  next
    case False
    have "\<forall>i<length fs. still_waiting r (d, n, e) a bsz (after (take i fs) (shm (env_step f sys)))"
      using Cons.prems(4) by (auto simp: env_step_def dest: spec [of _ "Suc _"])
    from Cons.IH [OF _ _ False this, of "Suc j"] Cons.prems j False assms(1) show ?thesis
      by (subst wait_loop.simps) (simp add: t Let_def env_step_def add.commute)
  qed
qed simp

text \<open>
  A wait with a time limit on a receive that stays pending always ends: after as many tests
  as the limit says, and after one test when it is 0, it returns false with the timeout status;
  the request stays valid, its handle and the caller's size variable are not changed, and the
  database is exactly what the other nodes made of it.
\<close>

theorem wait_times_out:
  assumes "ready sys" and "timeout \<noteq> MCA_INFINITE" and "length fs = wait_rounds timeout"
    and w: "\<forall>i<length fs. still_waiting r (d, n, e) a bsz (after (take i fs) (shm sys))"
  shows "mcapi_wait (encode_request r) True k timeout (fs @ env) sys =
     Some ((False, encode_request r, k, MCAPI_TIMEOUT), sys\<lparr>shm := after fs (shm sys)\<rparr>)"
proof -
  have ne: "fs \<noteq> []" using assms(3) by (auto simp: wait_rounds_def)
  then have "still_waiting r (d, n, e) a bsz (after (take 0 fs) (shm sys))" using w by blast
  then have "mcapi_trans_decode_request_handle (encode_request r) = Some r" by (auto simp: still_waiting_def pending_receive_def)
  then show ?thesis
    using wait_loop_timeout [OF assms(2,1) _ ne w, of 0 k MCAPI_SUCCESS env] assms(3)
    by (simp add: mcapi_wait_def mcapi_trans_valid_request_handle_def mcapi_trans_wait_def)
qed

theorem wait_times_out_witness:
  "\<exists>st1. mcapi_msg_recv_i 0x100 (UserBuf 2) 8 True (node_sys 1 two_nodes) = Some ((Some (encode_request 0), MCAPI_SUCCESS), node_sys 1 st1) \<and>
     mcapi_wait (encode_request 0) True 0 2 [\<lambda>st. st, \<lambda>st. st] (node_sys 1 st1) =
       Some ((False, encode_request 0, 0, MCAPI_TIMEOUT), node_sys 1 st1)"
proof -
  have p: "path_ok 0 1 0" by (simp add: path_ok_iff mcapi_limits)
  have e: "open_first (ep_messages two_nodes 0 1 0) = []"
    "qlen (queue_at two_nodes 0 1 0) + length (ep_pending two_nodes 0 1 0) < MCAPI_MAX_QUEUE_ENTRIES"
    using two_nodes_views [OF p] two_nodes_queue [OF p]
    by (simp_all add: open_first_def qlen_def ring_dist_def zero_queue_def mcapi_limits)
  show ?thesis
  proof (rule recv_i_call_pending [OF node_sys_ready(1) [of 1 two_nodes], unfolded node_sys_ready, OF two_nodes_inv
      two_nodes_requests2 two_nodes_endpoints(2) e, where a = 2 and bsz = 8])
    fix st1 assume r1: "mcapi_msg_recv_i 0x100 (UserBuf 2) 8 True (node_sys 1 two_nodes) =
        Some ((Some (encode_request 0), MCAPI_SUCCESS), node_sys 1 st1)"
      and q: "ep_pending st1 0 1 0 = ep_pending two_nodes 0 1 0 @ [encode_request 0]" "pending_receive st1 0 (0, 1, 0) 2 8" "sys_inv st1"
    let ?fs = "[\<lambda>st. st, \<lambda>st. st] :: (mcapi_state \<Rightarrow> mcapi_state) list"
    have "\<forall>i<length ?fs. still_waiting 0 (0, 1, 0) 2 8 (after (take i ?fs) (shm (node_sys 1 st1)))"
      using q by (auto simp: node_sys_ready still_waiting_def less_Suc_eq)
    from wait_times_out [OF node_sys_ready(1) _ _ this, of 2 0 "[]"] r1 show ?thesis
      by (auto simp: node_sys_ready wait_rounds_def MCA_INFINITE_def)
  qed
qed

section \<open>Cancellation\<close>

text \<open>
  C24: Cancelling a pending receive succeeds and withdraws it: the later receives at the endpoint
  move up and keep their order, so that messages go to the receives that are left, and no message
  or buffer is touched. The handle is not valid afterwards: a test returns true with the error.
  But the entry of the request is not given back to the pool: it stays in the list of used
  entries for ever.
\<close>

theorem cancel_pending_receive:
  assumes ready: "ready sys" and inv: "sys_inv (shm sys)" and pr: "pending_receive (shm sys) r (d, n, e) a bsz"
    and pe: "encode_request r \<in> set (ep_pending (shm sys) d n e)" and l: "request_lists (shm sys) free (ys @ r # zs)"
  shows "\<exists>st'. mcapi_cancel (encode_request r) sys = Some (MCAPI_SUCCESS, sys\<lparr>shm := st'\<rparr>) \<and> sys_inv st' \<and>
     ep_messages st' = ep_messages (shm sys) \<and> buffers st' = buffers (shm sys) \<and> user_bytes st' = user_bytes (shm sys) \<and>
     ep_pending st' d n e = filter (\<lambda>x. x \<noteq> encode_request r) (ep_pending (shm sys) d n e) \<and>
     (\<forall>d' n' e'. (d', n', e') \<noteq> (d, n, e) \<longrightarrow> ep_pending st' d' n' e' = ep_pending (shm sys) d' n' e') \<and>
     mcapi_test (encode_request r) True k (sys\<lparr>shm := st'\<rparr>) =
       Some ((True, encode_request r, k, MCAPI_ERR_REQUEST_INVALID), sys\<lparr>shm := st'\<rparr>) \<and>
     request_lists st' free (ys @ r # zs)"
proof -
  let ?st = "shm sys" and ?rq = "encode_request r"
  let ?sc = "upd_request r (\<lambda>rd. rd\<lparr>cancelled := True\<rparr>) ?st"
  have u: "domains ?sc = domains ?st" "buffers ?sc = buffers ?st" by (simp_all add: frame_simps)
  note v = same_db_views [OF u]
  have o: "db_inv ?sc" "mcapi_trans_decode_request_handle ?rq = Some r"
    "mcapi_trans_decode_handle (rhandle (requests ?sc r)) = Some (d, n, e)" "?rq \<in> set (ep_pending ?sc d n e)"
    using inv pr pe v by (simp_all add: sys_inv_def pending_receive_def waits_at_def frame_simps)
  show ?thesis
  proof (rule cancel_receive_pending [OF o])
    fix st1 assume c: "cancel_receive_request_have_lock ?rq ?sc = Some st1"
      and m: "ep_messages st1 = ep_messages ?sc" "ep_pending st1 d n e = filter (\<lambda>x. x \<noteq> ?rq) (ep_pending ?sc d n e)"
        "\<And>d' n' e'. (d', n', e') \<noteq> (d, n, e) \<Longrightarrow> ep_pending st1 d' n' e' = ep_pending ?sc d' n' e'"
      and f: "buffers st1 = buffers ?sc" "user_bytes st1 = user_bytes ?sc" "request_reserves_header st1 = request_reserves_header ?sc"
    let ?st' = "upd_request r (\<lambda>rd. zero_request) st1"
    have w: "domains ?st' = domains st1" "buffers ?st' = buffers st1" by (simp_all add: frame_simps)
    have "mcapi_trans_cancel ?rq MCAPI_SUCCESS sys = Some (MCAPI_SUCCESS, sys\<lparr>shm := ?st'\<rparr>)"
      using pr o(2) c by (simp add: mcapi_trans_cancel_def with_lock_unchecked_ready [OF ready] cancel_have_lock_def
        pending_receive_def waits_at_def Let_def upd_request_def)
    then have s: "mcapi_cancel ?rq sys = Some (MCAPI_SUCCESS, sys\<lparr>shm := ?st'\<rparr>)"
      using o(2) by (simp add: mcapi_cancel_def mcapi_trans_valid_request_handle_def)
    have "ready (sys\<lparr>shm := ?st'\<rparr>)" using ready by simp
    then have "mcapi_test ?rq True k (sys\<lparr>shm := ?st'\<rparr>) = Some ((True, ?rq, k, MCAPI_ERR_REQUEST_INVALID), sys\<lparr>shm := ?st'\<rparr>)"
      using o(2) by (simp add: mcapi_test_def mcapi_trans_valid_request_handle_def mcapi_trans_test_i_def
        with_lock_unchecked_ready test_have_lock_def upd_request_def)
    moreover have "sys_inv ?st'" using soundD [OF safety.request_calls(4) s] inv by simp
    moreover have "request_lists ?st' free (ys @ r # zs)" using l f by (simp add: request_lists_def frame_simps)
    ultimately show ?thesis using s m f v unfolding same_db_views [OF w, symmetric]
      by (intro exI [of _ ?st']) (simp add: frame_simps)
  qed
qed

theorem cancel_pending_receive_witness:
  "\<exists>st1 st2. mcapi_msg_recv_i 0x100 (UserBuf 2) 8 True (node_sys 1 two_nodes) = Some ((Some (encode_request 0), MCAPI_SUCCESS), node_sys 1 st1) \<and>
     ep_pending st1 0 1 0 = [encode_request 0] \<and>
     mcapi_cancel (encode_request 0) (node_sys 1 st1) = Some (MCAPI_SUCCESS, node_sys 1 st2) \<and> ep_pending st2 0 1 0 = [] \<and>
     request_lists st2 (1 # [2..<MCAPI_MAX_REQUESTS]) [0]"
proof -
  have p: "path_ok 0 1 0" by (simp add: path_ok_iff mcapi_limits)
  have e: "open_first (ep_messages two_nodes 0 1 0) = []"
    "qlen (queue_at two_nodes 0 1 0) + length (ep_pending two_nodes 0 1 0) < MCAPI_MAX_QUEUE_ENTRIES"
    using two_nodes_views [OF p] two_nodes_queue [OF p]
    by (simp_all add: open_first_def qlen_def ring_dist_def zero_queue_def mcapi_limits)
  show ?thesis
  proof (rule recv_i_call_pending [OF node_sys_ready(1) [of 1 two_nodes], unfolded node_sys_ready, OF two_nodes_inv
      two_nodes_requests2 two_nodes_endpoints(2) e, where a = 2 and bsz = 8])
    fix st1 assume r1: "mcapi_msg_recv_i 0x100 (UserBuf 2) 8 True (node_sys 1 two_nodes) =
        Some ((Some (encode_request 0), MCAPI_SUCCESS), node_sys 1 st1)"
      and pe: "ep_pending st1 0 1 0 = ep_pending two_nodes 0 1 0 @ [encode_request 0]"
      and q: "pending_receive st1 0 (0, 1, 0) 2 8" "sys_inv st1" "request_lists st1 (1 # [2..<MCAPI_MAX_REQUESTS]) [0]"
    have o: "ep_pending st1 0 1 0 = [encode_request 0]" "encode_request 0 \<in> set (ep_pending st1 0 1 0)"
      "request_lists st1 (1 # [2..<MCAPI_MAX_REQUESTS]) ([] @ 0 # [])"
      using pe two_nodes_views(2) [OF p] q(3) by simp_all
    from cancel_pending_receive [OF node_sys_ready(1) [of 1 st1], unfolded node_sys_ready, OF q(2,1) o(2,3), of 0]
    obtain st2 where "mcapi_cancel (encode_request 0) (node_sys 1 st1) = Some (MCAPI_SUCCESS, node_sys 1 st2)"
      "ep_pending st2 0 1 0 = filter (\<lambda>x. x \<noteq> encode_request 0) (ep_pending st1 0 1 0)"
      "request_lists st2 (1 # [2..<MCAPI_MAX_REQUESTS]) ([] @ 0 # [])" by blast
    with r1 o(1) show ?thesis by (intro exI [of _ st1] exI [of _ st2]) simp
  qed
qed

section \<open>Wrong arguments\<close>

text \<open>The error a send must report: the first that applies, in the order of the checks.\<close>

definition usable_endpoint :: "mcapi_state \<Rightarrow> u32 \<Rightarrow> bool" where
  "usable_endpoint st h = (case mcapi_trans_decode_handle h of Some (d, n, e) \<Rightarrow> ep_valid (endpoint_at st d n e) | None \<Rightarrow> False)"

definition send_error :: "mcapi_state \<Rightarrow> u32 \<Rightarrow> u32 \<Rightarrow> nat \<Rightarrow> u32 \<Rightarrow> mcapi_status" where
  "send_error st se re sz prio =
     (if MCAPI_MAX_PRIORITY < unat prio then MCAPI_ERR_PRIORITY
      else if \<not> (usable_endpoint st se \<and> usable_endpoint st re) then MCAPI_ERR_ENDP_INVALID
      else if MCAPI_MAX_MSG_SIZE < sz then MCAPI_ERR_MSG_LIMIT else MCAPI_SUCCESS)"

lemma send_checks_spec:
  "ready sys \<Longrightarrow> first_error (msg_send_checks se re sz prio) sys = Some (send_error (shm sys) se re sz prio, sys)"
  by (auto simp: msg_send_checks_def const_check_def not_check_def mcapi_trans_valid_priority_def send_error_def
    mcapi_trans_valid_endpoints_def with_lock_ready reading_def usable_endpoint_def split: option.splits)

lemma send_i_error:
  assumes ready: "ready sys" and l: "request_lists (shm sys) (r # free) full" and err: "err \<noteq> MCAPI_SUCCESS"
  obtains st' where "mcapi_trans_msg_send_i se re b sz err sys = Some ((Some (encode_request r), MCAPI_SUCCESS), sys\<lparr>shm := st'\<rparr>)"
    and "domains st' = domains (shm sys)" "buffers st' = buffers (shm sys)" "user_bytes st' = user_bytes (shm sys)"
    and "request_lists st' free (r # full)"
    and "requests st' = (requests (shm sys))(r := (requests (shm sys) r)\<lparr>rvalid := True, rstatus := err,
       rsize := sz, cancelled := False, completed := True, rtype := SEND, rhandle := re\<rparr>)"
proof (rule reserve_request_some [OF l])
  fix st1 assume r1: "mcapi_trans_reserve_request_have_lock (shm sys) = (Some r, st1)" "request_lists st1 free (r # full)"
      "requests st1 = (requests (shm sys))(r := (requests (shm sys) r)\<lparr>rvalid := True\<rparr>)"
    and f: "domains st1 = domains (shm sys)" "buffers st1 = buffers (shm sys)" "user_bytes st1 = user_bytes (shm sys)"
  let ?f = "\<lambda>rd. rd\<lparr>rstatus := err, rsize := sz, cancelled := False, completed := True, rtype := SEND, rhandle := re\<rparr>"
  show thesis
  proof (rule that [of "upd_request r ?f st1"])
    show "mcapi_trans_msg_send_i se re b sz err sys = Some ((Some (encode_request r), MCAPI_SUCCESS), sys\<lparr>shm := upd_request r ?f st1\<rparr>)"
      using err by (simp add: mcapi_trans_msg_send_i_def with_lock_ready [OF ready] with_request_def r1(1) setup_done)
  qed (use r1 f in \<open>simp_all add: request_lists_def upd_request_def\<close>)
qed

text \<open>
  C27: A send with wrong arguments sends nothing. The blocking call reports the first violation,
  in the order priority, endpoints, size, and leaves everything as it was. The non-blocking call
  itself reports success; the error comes out of the request when it is tested, and the test
  returns true with it; the endpoints are as before, and the request entry is back in the pool
  after the test.
\<close>

theorem send_argument_errors:
  assumes "ready sys" and "request_lists (shm sys) (r # free) full" and "send_error (shm sys) se re sz prio \<noteq> MCAPI_SUCCESS"
  shows "mcapi_msg_send se re b sz prio env sys = Some (send_error (shm sys) se re sz prio, sys) \<and>
     (\<exists>st1 st2. mcapi_msg_send_i se re b sz prio sys = Some ((Some (encode_request r), MCAPI_SUCCESS), sys\<lparr>shm := st1\<rparr>) \<and>
        mcapi_test (encode_request r) True k (sys\<lparr>shm := st1\<rparr>) =
          Some ((True, 0, sz, send_error (shm sys) se re sz prio), sys\<lparr>shm := st2\<rparr>) \<and>
        domains st2 = domains (shm sys) \<and> buffers st2 = buffers (shm sys) \<and> user_bytes st2 = user_bytes (shm sys) \<and>
        request_lists st2 (r # free) full)"
proof (rule send_i_error [OF assms, of se re b sz])
  fix st1 assume s: "mcapi_trans_msg_send_i se re b sz (send_error (shm sys) se re sz prio) sys =
      Some ((Some (encode_request r), MCAPI_SUCCESS), sys\<lparr>shm := st1\<rparr>)"
    and f: "domains st1 = domains (shm sys)" "buffers st1 = buffers (shm sys)" "user_bytes st1 = user_bytes (shm sys)"
      "request_lists st1 free (r # full)"
    and q: "requests st1 = (requests (shm sys))(r := (requests (shm sys) r)\<lparr>rvalid := True, rstatus := send_error (shm sys) se re sz prio,
       rsize := sz, cancelled := False, completed := True, rtype := SEND, rhandle := re\<rparr>)"
  let ?sys1 = "sys\<lparr>shm := st1\<rparr>"
  have c: "request_lists (shm ?sys1) free ([] @ r # full)" "ready ?sys1" "rvalid (requests (shm ?sys1) r)"
    "\<not> cancelled (requests (shm ?sys1) r)" "completed (requests (shm ?sys1) r)" using f q assms(1) by simp_all
  show ?thesis
  proof (rule test_completed [OF c, of k MCAPI_SUCCESS])
    fix st2 assume t: "mcapi_trans_test_i (encode_request r) k MCAPI_SUCCESS ?sys1 =
        Some ((True, 0, rsize (requests (shm ?sys1) r), rstatus (requests (shm ?sys1) r)), ?sys1\<lparr>shm := st2\<rparr>)"
      and g: "request_lists st2 (r # free) ([] @ full)" "domains st2 = domains (shm ?sys1)" "buffers st2 = buffers (shm ?sys1)"
        "user_bytes st2 = user_bytes (shm ?sys1)"
    show ?thesis using assms(3) send_checks_spec [OF assms(1), of se re sz prio] s t g f q request_memory [OF refl c(1)]
      by (auto simp: mcapi_msg_send_def mcapi_msg_send_i_def mcapi_test_def mcapi_trans_valid_request_handle_def)
  qed
qed

theorem send_argument_errors_witness:
  "mcapi_msg_send 0 0xff0000 (UserBuf 1) 3 0 [] (node_sys 0 two_nodes) = Some (MCAPI_ERR_ENDP_INVALID, node_sys 0 two_nodes)"
proof -
  have "mcapi_trans_decode_handle 0xff0000 = None" by code_simp
  then have "send_error two_nodes 0 0xff0000 3 0 = MCAPI_ERR_ENDP_INVALID"
    by (simp add: send_error_def usable_endpoint_def MCAPI_MAX_PRIORITY_def)
  with send_argument_errors [OF node_sys_ready(1) [of 0 two_nodes], unfolded node_sys_ready, OF two_nodes_requests, of 0 "0xff0000" 3 0]
  show ?thesis by simp
qed

end
