(* ===== verification/MCAPI_Frames.thy ===== *)
theory MCAPI_Frames
  imports MCAPI_System
begin

text \<open>
  Invariants that do not look at rings and requests. A property of the database that survives
  the elementary updates of the transport (a request entry, the endpoints of a node, the request
  lists, the application's memory, a buffer marked or cleared) is kept by every operation of the
  transport and so by every call; if starting and stopping nodes keep it too, it holds in every
  reachable state.
\<close>

locale frame_contract =
  fixes P :: "mcapi_state \<Rightarrow> bool"
  assumes requests_frame: "P (upd_request r f st) = P st"
    and node_frame: "P (upd_node d n (\<lambda>nd. nd\<lparr>node_d := g (node_d nd)\<rparr>) st) = P st"
    and lists_frame: "P (st\<lparr>request_reserves := x\<rparr>) = P st" "P (st\<lparr>request_reserves_header := h\<rparr>) = P st"
    and user_frame: "P (st\<lparr>user_bytes := ub\<rparr>) = P st" "P (st\<lparr>user_ptrs := up\<rparr>) = P st" "P (st\<lparr>user_endpts := ue\<rparr>) = P st"
    and buffer_frame: "P st \<Longrightarrow> magic_num (c (buffers st i)) \<in> {magic_num (buffers st i), 0, MAGIC_NUM} \<Longrightarrow> P (upd_buffer i c st)"
begin

lemma endpoint_frame: "P (upd_endpoint d n e f st) = P st" "P (set_queue d n e q st) = P st" "P (upd_queue d n e k st) = P st"
proof -
  show u: "P (upd_endpoint d n e f st) = P st" for f
    unfolding upd_endpoint_def by (rule node_frame [where g = "\<lambda>nd. nd\<lparr>endpoints := (endpoints nd)(e := f (endpoint_at st d n e))\<rparr>"])
  show q: "P (set_queue d n e q st) = P st" for q unfolding set_queue_def by (rule u)
  show "P (upd_queue d n e k st) = P st" unfolding upd_queue_def by (rule q)
qed

lemmas frames = requests_frame node_frame lists_frame user_frame endpoint_frame

lemma send_stays: "mcapi_trans_send_have_lock d n e b sz x st = Some (ok, st') \<Longrightarrow> P st \<Longrightarrow> P st'"
  by (auto simp: mcapi_trans_send_have_lock_def Let_def bind_eq_Some_conv frames frame_simps split: if_splits
    intro!: buffer_frame)

lemma deliver_stays: "deliver_buffer ct i b k ws st = Some (sc, st') \<Longrightarrow> P st \<Longrightarrow> P st'"
  by (auto simp: deliver_buffer_def write_ptr_def deref_def bind_eq_Some_conv frames
    split: channel_type.splits buffer_arg.splits ptr.splits if_splits intro!: buffer_frame)

lemma recv_at_stays:
  "mcapi_trans_recv_have_lock_at d n e b bsz qi ws st = Some (k, sc, st') \<Longrightarrow> P st \<Longrightarrow> P st'"
  by (auto simp: mcapi_trans_recv_have_lock_at_def Let_def bind_eq_Some_conv frames dest: deliver_stays)

lemma recv_stays:
  assumes "mcapi_trans_recv_have_lock d n e b bsz bl ws env st = Some (res, st')" and "P st" and "env_ok P env"
  shows "P st'"
proof (cases "\<not> bl \<and> mcapi_trans_empty_queue (queue_at st d n e)")
  case False
  with assms(1) obtain st1 qi q k sc where w: "wait_message d n e env st = Some st1"
    and r: "mcapi_trans_recv_have_lock_at d n e b bsz qi ws (set_queue d n e q st1) = Some (k, sc, st')"
    by (auto simp: mcapi_trans_recv_have_lock_def bind_eq_Some_conv Let_def)
  from wait_message_inv [OF assms(3,2) w] recv_at_stays [OF r] show ?thesis by (simp add: frames)
qed (use assms in \<open>simp add: mcapi_trans_recv_have_lock_def\<close>)

lemma setup_stays:
  assumes "setup_request_have_lock hv hp status compl sz b rt nn pn dn r st = Some (rq, st')"
  shows "P st' = P st"
proof -
  have s: "save_buffer r b q x = Some y \<Longrightarrow> P y = P x" for q x y
    by (auto simp: save_buffer_def bind_eq_Some_conv frames split: if_splits buffer_arg.splits)
  show ?thesis
    using assms by (auto simp: setup_request_have_lock_def Let_def bind_eq_Some_conv frames split: if_splits option.splits dest!: s)
qed

lemma reserve_stays: "mcapi_trans_reserve_request_have_lock st = (r, st') \<Longrightarrow> P st' = P st"
  by (auto simp: mcapi_trans_reserve_request_have_lock_def Let_def frames split: if_splits)

lemma remove_stays: "P (snd (mcapi_trans_remove_request_have_lock r st)) = P st"
  by (simp add: mcapi_trans_remove_request_have_lock_def Let_def frames split: prod.splits)

lemma with_request_stays:
  assumes "with_request f st = Some (x, st')" and "P st" and "\<And>r st x st'. f r st = Some (x, st') \<Longrightarrow> P st \<Longrightarrow> P st'"
  shows "P st'"
  using assms reserve_stays [of st] by (auto simp: with_request_def split: option.splits prod.splits)

lemma get_endpoint_stays: "mcapi_trans_endpoint_get_have_lock ep dm nn pn st = Some (found, st') \<Longrightarrow> P st' = P st"
  by (auto simp: mcapi_trans_endpoint_get_have_lock_def bind_eq_Some_conv frames split: option.splits)

lemma connect_stays: "mcapi_trans_connect_channel_have_lock se re ct st = Some st' \<Longrightarrow> P st' = P st"
  by (auto simp: mcapi_trans_connect_channel_have_lock_def bind_eq_Some_conv frames)

lemma open_close_stays:
  "P (mcapi_trans_open_channel_have_lock d n e st) = P st" "P (mcapi_trans_close_channel_have_lock d n e st) = P st"
  by (simp_all add: mcapi_trans_open_channel_have_lock_def mcapi_trans_close_channel_have_lock_def frames)

lemma complete_stays: "complete_receive d n e i r st = Some st' \<Longrightarrow> P st \<Longrightarrow> P st'"
  by (auto simp: complete_receive_def Let_def bind_eq_Some_conv frames split: if_splits dest: recv_at_stays)

lemma check_receive_stays: "check_receive_request_have_lock rq st = Some st' \<Longrightarrow> P st \<Longrightarrow> P st'"
  by (auto simp: check_receive_request_have_lock_def Let_def bind_eq_Some_conv frames split: if_splits dest!: complete_stays)

lemma try_complete_stays: "try_complete rq r st = Some st' \<Longrightarrow> P st \<Longrightarrow> P st'"
  by (auto simp: try_complete_def check_open_channel_request_have_lock_def check_close_channel_request_have_lock_def
    check_get_endpt_request_have_lock_def bind_eq_Some_conv frames get_endpoint_stays
    split: mcapi_request_type.splits option.splits if_splits dest: check_receive_stays)

lemma test_stays: "test_have_lock rq sz status st = Some (x, st') \<Longrightarrow> P st \<Longrightarrow> P st'"
  by (auto simp: test_have_lock_def Let_def bind_eq_Some_conv frames remove_stays split: option.splits if_splits
    dest: try_complete_stays)

lemma cancel_stays: "cancel_have_lock rq status st = Some (x, st') \<Longrightarrow> P st \<Longrightarrow> P st'"
  by (auto simp: cancel_have_lock_def cancel_receive_request_have_lock_def Let_def bind_eq_Some_conv frames
    split: if_splits mcapi_request_type.splits)

lemma get_loop_stays: "endpoint_get_loop ep dm nn pn env st = Some st' \<Longrightarrow> env_ok P env \<Longrightarrow> P st \<Longrightarrow> P st'"
proof (induction env arbitrary: st)
  case Nil
  then show ?case by (subst (asm) endpoint_get_loop.simps) (auto simp: bind_eq_Some_conv get_endpoint_stays split: if_splits)
next
  case (Cons f env)
  from Cons.prems(1) obtain found st1 where g: "mcapi_trans_endpoint_get_have_lock ep dm nn pn st = Some (found, st1)"
    and r: "(if found then Some st1 else endpoint_get_loop ep dm nn pn env (f st1)) = Some st'"
    by (auto simp: endpoint_get_loop.simps [of ep dm nn pn "f # env"] bind_eq_Some_conv split: if_splits)
  from get_endpoint_stays [OF g] r Cons.IH [of "f st1"] Cons.prems(2,3) show ?case by (auto split: if_splits)
qed

lemma started_stays:
  "sound P (mcapi_trans_msg_send_i se re b sz status)" "sound P (mcapi_trans_msg_recv_i re b sz status)"
  "sound P (mcapi_trans_pktchan_send_i h b sz status)" "sound P (mcapi_trans_pktchan_recv_i h a status)"
  "sound P (connect_i ct rt se re status)" "sound P (close_i rt h status)"
  unfolding mcapi_trans_msg_send_i_def mcapi_trans_msg_recv_i_def mcapi_trans_pktchan_send_i_def mcapi_trans_pktchan_recv_i_def
    connect_i_def close_i_def
  by (rule sound_lock(1), erule with_request_stays, assumption,
      auto simp: bind_eq_Some_conv Let_def frames setup_stays connect_stays open_close_stays split: if_splits option.splits prod.splits
        dest!: send_stays recv_stays)+

lemma reserved_stays:
  assumes "(case mcapi_trans_reserve_request_have_lock st of (Some r, st) \<Rightarrow> f r st | (None, st) \<Rightarrow> Some (x0, st)) = Some (x, st')"
    and "P st" and "\<And>r st x st'. f r st = Some (x, st') \<Longrightarrow> P st \<Longrightarrow> P st'"
  shows "P st'"
  using assms reserve_stays [of st] by (auto split: option.splits prod.splits)

lemma reserved_ops_stays:
  "sound P (open_i ct rt ep status)" "sound P (mcapi_trans_endpoint_get_i a dm nn pn status)"
  unfolding open_i_def mcapi_trans_endpoint_get_i_def
  by (rule sound_lock(1), erule reserved_stays, assumption,
      auto simp: bind_eq_Some_conv Let_def frames open_close_stays setup_stays get_endpoint_stays split: if_splits)+

lemma count_stays:
  "P (upd_node d n (\<lambda>nd. nd\<lparr>node_d := (node_d nd)\<lparr>num_endpoints := num_endpoints (node_d nd) + k\<rparr>\<rparr>) st) = P st"
  "P (upd_node d n (\<lambda>nd. nd\<lparr>node_d := (node_d nd)\<lparr>num_endpoints := num_endpoints (node_d nd) - k\<rparr>\<rparr>) st) = P st"
  by (rule node_frame [where g = "\<lambda>nd. nd\<lparr>num_endpoints := num_endpoints nd + k\<rparr>"])
    (rule node_frame [where g = "\<lambda>nd. nd\<lparr>num_endpoints := num_endpoints nd - k\<rparr>"])

lemma endpoint_ops_stays:
  "sound P (mcapi_trans_endpoint_create port anon)" "sound P (mcapi_trans_endpoint_delete h)"
  "env_ok P env \<Longrightarrow> sound P (mcapi_trans_endpoint_get a dm nn pn env)"
  unfolding mcapi_trans_endpoint_create_def [abs_def] mcapi_trans_endpoint_delete_def mcapi_trans_endpoint_get_def
  by (rule sound_with_lock, auto simp: bind_eq_Some_conv Let_def endpoint_frame count_stays split: if_splits)
    (rule sound_lock(1), auto simp: bind_eq_Some_conv Let_def endpoint_frame count_stays dest: get_loop_stays)+

lemma scalar_ops_stays:
  "sound P (mcapi_trans_sclchan_send h x k)" "env_ok P env \<Longrightarrow> sound P (mcapi_trans_sclchan_recv h k env)"
  unfolding mcapi_trans_sclchan_send_def mcapi_trans_sclchan_recv_def
  by (rule sound_lock(1), auto simp: bind_eq_Some_conv dest: send_stays recv_stays)+

lemma release_stays: "mcapi_pktchan_release b sys = Some (status, sys') \<Longrightarrow> P (shm sys) \<Longrightarrow> P (shm sys')"
  by (auto simp: mcapi_pktchan_release_def mcapi_trans_pktchan_free_def with_lock_Some bind_eq_Some_conv
    split: ptr.splits if_splits intro!: buffer_frame)

end

sublocale frame_contract \<subseteq> transport_contract P
proof unfold_locales
  show "sound P (mcapi_trans_test_i rq sz status)" for rq sz status
    unfolding mcapi_trans_test_i_def by (rule sound_lock(2)) (rule test_stays)
  show "sound P (mcapi_trans_cancel rq status)" for rq status
    unfolding mcapi_trans_cancel_def by (rule sound_lock(2)) (rule cancel_stays)
qed (simp_all add: started_stays reserved_ops_stays endpoint_ops_stays scalar_ops_stays)

section \<open>All runs\<close>

locale run_contract = frame_contract +
  assumes start: "P (created st)"
    and join: "P st \<Longrightarrow> find_node_entry domid node st = Some (d, n) \<Longrightarrow> P (add_node d n domid node p t attrs st)"
    and leave: "P st \<Longrightarrow> P (upd_node d n (\<lambda>nd. nd\<lparr>node_valid := False\<rparr>) st)"
    and signal: "P st \<Longrightarrow> P (snd (retire_process sys st))"
begin

lemma run_call_holds:
  assumes "run_call env c sys = Some sys'" and "env_ok P env" and "P (shm sys)"
  shows "P (shm sys')"
proof (cases "\<exists>b. c = Pktchan_release b")
  case True
  with assms show ?thesis by (auto dest: release_stays)
next
  case False
  with run_call_contract [OF assms(1,2)] assms(3) show ?thesis by blast
qed

lemma run_move_holds:
  assumes "run_move env mv sys = Some sys'" and "env_ok P env" and "move_ok mv (shm sys)" and i: "P (shm sys)"
  shows "P (shm sys')"
proof (cases mv)
  case (Api c)
  with assms run_call_holds show ?thesis by auto
next
  case (Join m fresh p t domid node attrs)
  with assms obtain status where "mcapi_initialize m fresh p t domid node attrs sys = Some (status, sys')" "transport_sm_get_shared_mem m"
    by auto
  from join_shm [OF this] i show ?thesis by (auto intro: join)
next
  case (Leave m p)
  with assms(1) obtain ok where "mcapi_trans_finalize m p sys = Some (ok, sys')" by (auto simp: mcapi_finalize_def bind_eq_Some_conv)
  from finalize_shm [OF this] i show ?thesis by (auto intro: leave)
next
  case (Signal m)
  with assms(1) have "mcapi_trans_signal_handler m sys = Some sys'" by simp
  from signal_shm [OF this] i show ?thesis by (auto intro: signal)
next
  case (Write ub up ue)
  with assms(1) i show ?thesis by (auto simp: user_frame)
qed

lemma perform_holds: "env_ok P (map perform others)"
proof -
  have "P st \<Longrightarrow> P (perform a st)" for a st
    by (auto simp: perform_def split: prod.splits option.splits intro: run_move_holds [of "[]"])
  then show ?thesis by (simp add: env_ok_def)
qed

lemma reachable_holds: "reachable st \<Longrightarrow> P st"
  by (induction rule: reachable.induct) (auto intro: start run_move_holds [OF _ perform_holds])

end

end
