(* ===== verification/MCAPI_Buffers.thy ===== *)
theory MCAPI_Buffers
  imports MCAPI_Frames
begin

text \<open>
  Transport buffers: an entry of the pool is either free, with the number 0, or in use, with the
  magic number that \<open>mcapi_trans_pktchan_free\<close> looks for. This second invariant of the database
  is kept by every operation of the transport, and so by every call.
\<close>

definition marked :: "mcapi_state \<Rightarrow> bool" where
  "marked st \<longleftrightarrow> (\<forall>i. magic_num (buffers st i) = 0 \<or> magic_num (buffers st i) = MAGIC_NUM)"

lemma marked_magic: "marked st \<Longrightarrow> magic_num (buffers st i) \<noteq> 0 \<Longrightarrow> magic_num (buffers st i) = MAGIC_NUM"
  by (auto simp: marked_def)

interpretation marks: run_contract marked
proof unfold_locales
  show "magic_num (c (buffers st i)) \<in> {magic_num (buffers st i), 0, MAGIC_NUM} \<Longrightarrow> marked st \<Longrightarrow> marked (upd_buffer i c st)" for c st i
    by (auto simp: marked_def frame_simps)
  show "marked (created st)" for st by (simp add: marked_def created_sel)
  show "marked st \<Longrightarrow> marked (add_node d n domid node p t attrs st)" for d n domid node p t attrs st
    by (simp add: marked_def add_node_sel)
  show "marked st \<Longrightarrow> marked (snd (retire_process sys st))" for sys st
    by (simp add: retire_process_def Let_def marked_def upd_node_def)
qed (simp_all add: marked_def frame_simps)

text \<open>
  C28: In every reachable state the release of a packet buffer succeeds exactly when the buffer is
  in use, and then makes it free again; releasing it twice, or releasing a buffer that was never
  handed out, gives the invalid-buffer error and changes nothing.
\<close>

theorem release_iff_in_use:
  assumes "reachable (shm sys)" and "ready sys"
  shows "mcapi_pktchan_release (McapiBuf i) sys =
     Some (if magic_num (buffers (shm sys) i) = 0 then (MCAPI_ERR_BUF_INVALID, sys)
           else (MCAPI_SUCCESS, sys\<lparr>shm := upd_buffer i (\<lambda>b. zero_buffer) (shm sys)\<rparr>)) \<and>
   mcapi_pktchan_release (McapiBuf i) (sys\<lparr>shm := upd_buffer i (\<lambda>b. zero_buffer) (shm sys)\<rparr>) =
     Some (MCAPI_ERR_BUF_INVALID, sys\<lparr>shm := upd_buffer i (\<lambda>b. zero_buffer) (shm sys)\<rparr>)"
proof -
  have m: "magic_num (buffers (shm sys) i) = 0 \<or> magic_num (buffers (shm sys) i) = MAGIC_NUM"
    using marks.reachable_holds [OF assms(1)] by (simp add: marked_def)
  have z: "(0::u32) \<noteq> MAGIC_NUM" using MAGIC_NUM_nonzero by metis
  show ?thesis using m assms(2) z by (auto simp: mcapi_pktchan_release_def mcapi_trans_pktchan_free_def with_lock_ready frame_simps)
qed

theorem release_iff_in_use_witness:
  "mcapi_pktchan_release (McapiBuf 3) (node_sys 0 (created zero_state)) = Some (MCAPI_ERR_BUF_INVALID, node_sys 0 (created zero_state))"
proof -
  let ?sys = "node_sys 0 (created zero_state)"
  have s: "shm ?sys = created zero_state" "ready ?sys" by (simp_all add: node_sys_def ready_def)
  then have "reachable (shm ?sys)" using reachable.start by simp
  from release_iff_in_use [OF this s(2), of 3] show ?thesis by (simp add: s created_sel)
qed

end
