(* ===== verification/MCAPI_Streams.thy ===== *)
theory MCAPI_Streams
  imports MCAPI_Limits MCAPI_Buffers
begin

text \<open>
  Connected channels, end to end: scalars and packets from the sending to the receiving end, the
  life of a packet buffer, and connecting and opening a channel.
\<close>

section \<open>A connected pair of endpoints\<close>

text \<open>The sending end of handle \<open>sh\<close> leads to the receiving end of handle \<open>rh\<close> at path \<open>p\<close>.\<close>

definition channel_link :: "channel_type \<Rightarrow> u32 \<Rightarrow> u32 \<Rightarrow> nat \<times> nat \<times> nat \<Rightarrow> mcapi_state \<Rightarrow> bool" where
  "channel_link ct sh rh p st \<longleftrightarrow> mcapi_trans_decode_handle rh = Some p \<and>
     (case p of (d, n, e) \<Rightarrow> chan_type (queue_at st d n e) = ct \<and> ep_pending st d n e = []) \<and>
     (case mcapi_trans_decode_handle sh of Some (sd, sn, se) \<Rightarrow> (sd, sn, se) \<noteq> p \<and>
        chan_type (queue_at st sd sn se) = ct \<and> recv_endpt (queue_at st sd sn se) = rh | None \<Rightarrow> False)"

lemma one_queue_steps:
  "one_queue p st st" "one_queue (d, n, e) st st1 \<Longrightarrow> one_queue (d, n, e) st (set_queue d n e q st1)"
  "one_queue p st st1 \<Longrightarrow> domains st2 = domains st1 \<Longrightarrow> one_queue p st st2"
proof -
  show "one_queue p st st" by (simp add: one_queue_def)
  show "one_queue (d, n, e) st st1 \<Longrightarrow> one_queue (d, n, e) st (set_queue d n e q st1)"
    by (auto simp: one_queue_def frame_simps set_queue_def)
  show "one_queue p st st1 \<Longrightarrow> domains st2 = domains st1 \<Longrightarrow> one_queue p st st2"
    by (simp add: one_queue_def node_at_def endpoint_at_def queue_at_def)
qed

lemma recv_one_queue:
  assumes "\<not> mcapi_trans_empty_queue (queue_at st d n e)"
    and "mcapi_trans_recv_have_lock d n e b bsz bl ws env st = Some (res, st')"
  shows "one_queue (d, n, e) st st'"
proof -
  from assms obtain qi q ct i k sc st2 where
    d: "deliver_buffer ct i b k ws (set_queue d n e q st) = Some (sc, st2)"
    and s: "st' = upd_queue d n e (\<lambda>q. put_element q qi (\<lambda>s. s\<lparr>buff_index := 0\<rparr>)) st2"
    by (auto simp: mcapi_trans_recv_have_lock_def mcapi_trans_recv_have_lock_at_def bind_eq_Some_conv wait_message_ready Let_def)
  show ?thesis unfolding s upd_queue_def
    by (intro one_queue_steps(2) one_queue_steps(3) [OF one_queue_steps(2) [OF one_queue_steps(1)] deliver_frame(1) [OF d]])
qed

lemma channel_link_step:
  assumes "channel_link ct sh rh (d, n, e) st" and "one_queue (d, n, e) st st'"
    and "chan_type (queue_at st' d n e) = ct" and "ep_pending st' d n e = []"
  shows "channel_link ct sh rh (d, n, e) st'"
  using assms by (auto simp: channel_link_def one_queue_def split: option.splits)

lemma channel_link_facts:
  assumes "channel_link ct sh rh (d, n, e) st"
  shows "channel_peer sh st = Some (d, n, e)" "valid_channel_handle ct sh st" "valid_channel_handle ct rh st"
    "mcapi_trans_decode_handle rh = Some (d, n, e)" "chan_type (queue_at st d n e) = ct" "ep_pending st d n e = []" "path_ok d n e"
  using assms decode_path [of rh d n e]
  by (auto simp: channel_link_def channel_peer_def valid_channel_handle_def split: option.splits)

section \<open>Scalars\<close>

lemma send_scalar:
  assumes inv: "db_inv st" and p: "path_ok d n e" and ct: "chan_type (queue_at st d n e) = MCAPI_SCL_CHAN"
    and room: "0 < ep_room d n e st" and pe: "ep_pending st d n e = []"
  obtains bs st' where "mcapi_trans_send_have_lock d n e pt k x st = Some (True, st')" and "length bs = k"
    and "ep_messages st' d n e = ep_messages st d n e @ [(0, bs, x)]" and "ep_pending st' d n e = []"
    and "chan_type (queue_at st' d n e) = MCAPI_SCL_CHAN" and "ep_room d n e st' = ep_room d n e st - 1"
proof -
  have qi: "queue_inv (queue_at st d n e)" using db_inv_queue [OF inv p] by (simp add: queue_ok_def)
  from room have nf: "\<not> mcapi_trans_full_queue (queue_at st d n e)" and fb: "find_buffer st < MCAPI_MAX_BUFFERS"
    using ring_room_pos [OF qi] free_buffers_pos [of st] by (simp_all add: ep_room_def)
  let ?i = "find_buffer st"
  let ?nb = "filled_buffer (chan_type (queue_at st d n e)) undefined k x (buffers st ?i)"
  show thesis
  proof (rule send_delivers [OF inv p nf refl fb disjI1 [OF ct], of pt k x undefined])
    fix st' assume s: "mcapi_trans_send_have_lock d n e pt k x st = Some (True, st')"
      and m: "ep_messages st' d n e = ep_messages st d n e @
        [(if ep_pending st d n e = [] then 0 else hd (ep_pending st d n e), bytes_of (buff ?nb) k, scalar ?nb)]"
      and r: "ep_pending st' d n e = tl (ep_pending st d n e)" "chan_type (queue_at st' d n e) = chan_type (queue_at st d n e)"
      and b: "buffers st' = (buffers st)(?i := ?nb)" and l: "qlen (queue_at st' d n e) = Suc (qlen (queue_at st d n e))"
    have "magic_num ?nb \<noteq> 0" "scalar ?nb = x" using ct by (simp_all add: filled_buffer_def)
    moreover from this have "free_buffers st' = free_buffers st - 1"
      by (intro free_buffers_fill [OF find_buffer_free [OF fb] fb _ b])
    then have "ep_room d n e st' = ep_room d n e st - 1" by (simp add: ep_room_def ring_room_def l)
    ultimately show thesis using s m r pe ct by (intro that [of st' "bytes_of (buff ?nb) k"]) simp_all
  qed
qed

lemma recv_scalar:
  assumes inv: "db_inv st" and p: "path_ok d n e" and ct: "chan_type (queue_at st d n e) = MCAPI_SCL_CHAN"
    and om: "open_first (ep_messages st d n e) = (bs, x) # rest"
  obtains st' where "mcapi_trans_recv_have_lock d n e NoBuf k True True env st = Some (Some (length bs, Some x), st')"
    and "ep_messages st' d n e = drop_open (ep_messages st d n e)" and "ep_pending st' d n e = ep_pending st d n e"
    and "chan_type (queue_at st' d n e) = MCAPI_SCL_CHAN" and "ep_room d n e st \<le> ep_room d n e st'"
proof -
  define P where "P i st1 \<longleftrightarrow> buffers st1 = (buffers st)(i := zero_buffer)" for i and st1 :: mcapi_state
  have dl: "\<exists>st1. deliver_buffer (chan_type (queue_at st d n e)) i NoBuf (min k (bsize (buffers st i))) True st = Some (Some x, st1) \<and>
      (buffers st1 = buffers st \<or> buffers st1 = (buffers st)(i := zero_buffer)) \<and> P i st1"
    if "payload_of st (encode_buff_index i) = (bs, x)" "i < MCAPI_MAX_BUFFERS" for i
    using that by (simp add: deliver_buffer_def ct P_def frame_simps payload_of_def Let_def fun_eq_iff)
  show thesis
  proof (rule recv_delivers [OF inv p om dl, where blocking = True and env = env])
    fix i st' assume s: "mcapi_trans_recv_have_lock d n e NoBuf k True True env st = Some (Some (length bs, Some x), st')"
      "ep_messages st' d n e = drop_open (ep_messages st d n e)" "ep_pending st' d n e = ep_pending st d n e"
      "chan_type (queue_at st' d n e) = chan_type (queue_at st d n e)"
      and P: "P i st'" and l: "qlen (queue_at st' d n e) \<le> qlen (queue_at st d n e)"
    have "free_buffers st \<le> free_buffers st'" using free_buffers_clear P by (simp add: P_def)
    then have "ep_room d n e st \<le> ep_room d n e st'" using l by (auto simp: ep_room_def ring_room_def min_le_iff_disj)
    with s ct show thesis by (intro that) simp_all
  qed (auto simp: P_def)
qed

lemma send_sized_ok:
  assumes ready: "ready sys" and inv: "sys_inv (shm sys)" and ln: "channel_link MCAPI_SCL_CHAN sh rh (d, n, e) (shm sys)"
    and room: "0 < ep_room d n e (shm sys)"
  obtains bs st' where "sclchan_send_sized sh x k sys = Some (MCAPI_SUCCESS, sys\<lparr>shm := st'\<rparr>)" and "sys_inv st'" and "length bs = k"
    and "channel_link MCAPI_SCL_CHAN sh rh (d, n, e) st'" and "ep_messages st' d n e = ep_messages (shm sys) d n e @ [(0, bs, x)]"
    and "ep_room d n e st' = ep_room d n e (shm sys) - 1"
proof -
  note f = channel_link_facts [OF ln]
  have db: "db_inv (shm sys)" using inv by (simp add: sys_inv_def)
  show thesis
  proof (rule send_scalar [OF db f(7,5) room f(6), of NULL k x])
    fix bs st' assume s: "mcapi_trans_send_have_lock d n e NULL k x (shm sys) = Some (True, st')"
      and m: "length bs = k" "ep_messages st' d n e = ep_messages (shm sys) d n e @ [(0, bs, x)]" "ep_pending st' d n e = []"
      "chan_type (queue_at st' d n e) = MCAPI_SCL_CHAN" "ep_room d n e st' = ep_room d n e (shm sys) - 1"
    have ln': "channel_link MCAPI_SCL_CHAN sh rh (d, n, e) st'" by (rule channel_link_step [OF ln send_one_queue [OF s] m(4,3)])
    have c: "sclchan_send_sized sh x k sys = Some (MCAPI_SUCCESS, sys\<lparr>shm := st'\<rparr>)"
      using s f by (simp add: sclchan_send_sized_def not_check_def mcapi_trans_valid_sclchan_send_handle_def with_lock_ready [OF ready]
        reading_def mcapi_trans_sclchan_send_def)
    have i: "sys_inv st'" using soundD [OF safety.transfer_calls(5) c] inv by simp
    show thesis by (rule that [OF c i m(1) ln' m(2,5)])
  qed
qed

lemma recv_sized_ok:
  assumes ready: "ready sys" and inv: "sys_inv (shm sys)" and ln: "channel_link MCAPI_SCL_CHAN sh rh (d, n, e) (shm sys)"
    and om: "open_first (ep_messages (shm sys) d n e) = (bs, x) # rest"
  obtains st' where "sclchan_recv_sized rh k [] sys =
      Some ((x, if length bs = k then MCAPI_SUCCESS else MCAPI_ERR_SCL_SIZE), sys\<lparr>shm := st'\<rparr>)" and "sys_inv st'"
    and "channel_link MCAPI_SCL_CHAN sh rh (d, n, e) st'" and "ep_messages st' d n e = drop_open (ep_messages (shm sys) d n e)"
    and "ep_room d n e (shm sys) \<le> ep_room d n e st'"
proof -
  note f = channel_link_facts [OF ln]
  have db: "db_inv (shm sys)" using inv by (simp add: sys_inv_def)
  have ne: "\<not> mcapi_trans_empty_queue (queue_at (shm sys) d n e)"
    using om db_inv_queue [OF db f(7)] empty_iff_open [of "shm sys" d n e] by (auto simp: queue_ok_def)
  show thesis
  proof (rule recv_scalar [OF db f(7,5) om, of k "[]"])
    fix st' assume s: "mcapi_trans_recv_have_lock d n e NoBuf k True True [] (shm sys) = Some (Some (length bs, Some x), st')"
      and m: "ep_messages st' d n e = drop_open (ep_messages (shm sys) d n e)" "ep_pending st' d n e = ep_pending (shm sys) d n e"
      "chan_type (queue_at st' d n e) = MCAPI_SCL_CHAN" "ep_room d n e (shm sys) \<le> ep_room d n e st'"
    have ln': "channel_link MCAPI_SCL_CHAN sh rh (d, n, e) st'"
      by (rule channel_link_step [OF ln recv_one_queue [OF ne s] m(3)]) (simp add: m(2) f)
    have c: "sclchan_recv_sized rh k [] sys = Some ((x, if length bs = k then MCAPI_SUCCESS else MCAPI_ERR_SCL_SIZE), sys\<lparr>shm := st'\<rparr>)"
      using s f by (simp add: sclchan_recv_sized_def not_check_def mcapi_trans_valid_sclchan_recv_handle_def with_lock_ready [OF ready]
        reading_def mcapi_trans_sclchan_recv_def when_ok_def)
    have i: "sys_inv st'" using soundD [OF safety.transfer_calls(6) c] inv by (simp add: env_ok_def)
    show thesis by (rule that [OF c i ln' m(1,4)])
  qed
qed

text \<open>
  The channel as the two applications use it: the sender and the receiver are processes of their
  own, with the database between them; every item has \<open>k\<close> bytes.
\<close>

definition scl_put :: "mcapi_sys \<Rightarrow> u32 \<Rightarrow> nat \<Rightarrow> u64 \<Rightarrow> mcapi_state \<Rightarrow> mcapi_state option" where
  "scl_put sys sh k x st = (case sclchan_send_sized sh x k (sys\<lparr>shm := st\<rparr>) of
     Some (MCAPI_SUCCESS, sys') \<Rightarrow> Some (shm sys') | _ \<Rightarrow> None)"

definition scl_get :: "mcapi_sys \<Rightarrow> u32 \<Rightarrow> nat \<Rightarrow> mcapi_state \<Rightarrow> (u64 \<times> mcapi_state) option" where
  "scl_get sys rh k st = (case sclchan_recv_sized rh k [] (sys\<lparr>shm := st\<rparr>) of
     Some ((x, MCAPI_SUCCESS), sys') \<Rightarrow> Some (x, shm sys') | _ \<Rightarrow> None)"

definition scl_ok :: "mcapi_sys \<Rightarrow> mcapi_sys \<Rightarrow> u32 \<Rightarrow> u32 \<Rightarrow> nat \<times> nat \<times> nat \<Rightarrow> nat \<Rightarrow> mcapi_state \<Rightarrow> bool" where
  "scl_ok ssys rsys sh rh p k st \<longleftrightarrow> ready ssys \<and> ready rsys \<and> sys_inv st \<and> channel_link MCAPI_SCL_CHAN sh rh p st \<and>
     (case p of (d, n, e) \<Rightarrow> \<forall>m\<in>set (open_first (ep_messages st d n e)). length (fst m) = k)"

definition scl_values :: "nat \<times> nat \<times> nat \<Rightarrow> mcapi_state \<Rightarrow> u64 list" where
  "scl_values p st = (case p of (d, n, e) \<Rightarrow> map snd (open_first (ep_messages st d n e)))"

definition scl_room :: "nat \<times> nat \<times> nat \<Rightarrow> mcapi_state \<Rightarrow> nat" where
  "scl_room p st = (case p of (d, n, e) \<Rightarrow> ep_room d n e st)"

lemma open_first_append: "open_first (ms @ [(0, b)]) = open_first ms @ [b]"
  by (simp add: open_first_def)

interpretation scalars: fifo_channel "scl_ok ssys rsys sh rh p k" "scl_values p" "scl_room p" "\<lambda>x. True" "scl_put ssys sh k" "scl_get rsys rh k"
  for ssys rsys sh rh p k
proof unfold_locales
  fix st x assume ok: "scl_ok ssys rsys sh rh p k st" and room: "0 < scl_room p st"
  obtain d n e where p: "p = (d, n, e)" by (cases p) auto
  let ?sys = "ssys\<lparr>shm := st\<rparr>"
  have o: "ready ?sys" "sys_inv (shm ?sys)" "channel_link MCAPI_SCL_CHAN sh rh (d, n, e) (shm ?sys)" "0 < ep_room d n e (shm ?sys)"
    using ok room by (simp_all add: scl_ok_def scl_room_def p)
  show "\<exists>st'. scl_put ssys sh k x st = Some st' \<and> scl_ok ssys rsys sh rh p k st' \<and> scl_values p st' = scl_values p st @ [x] \<and>
      scl_room p st' = scl_room p st - 1"
    by (rule send_sized_ok [OF o, of x k]) (use ok in \<open>auto simp: scl_put_def scl_ok_def scl_values_def scl_room_def p open_first_append\<close>)
next
  fix st x xs assume ok: "scl_ok ssys rsys sh rh p k st" and v: "scl_values p st = x # xs"
  obtain d n e where p: "p = (d, n, e)" by (cases p) auto
  from v obtain bs rest where om: "open_first (ep_messages st d n e) = (bs, x) # rest" and xs: "xs = map snd rest"
    by (auto simp: scl_values_def p)
  let ?sys = "rsys\<lparr>shm := st\<rparr>"
  have o: "ready ?sys" "sys_inv (shm ?sys)" "channel_link MCAPI_SCL_CHAN sh rh (d, n, e) (shm ?sys)"
    "open_first (ep_messages (shm ?sys) d n e) = (bs, x) # rest" and k: "length bs = k"
    using ok om by (simp_all add: scl_ok_def p)
  show "\<exists>st'. scl_get rsys rh k st = Some (x, st') \<and> scl_ok ssys rsys sh rh p k st' \<and> scl_values p st' = xs \<and> scl_room p st \<le> scl_room p st'"
    by (rule recv_sized_ok [OF o, of k])
      (use ok k om xs open_first_drop [OF om] in \<open>auto simp: scl_get_def scl_ok_def scl_values_def scl_room_def p\<close>)
qed

text \<open>
  C11: A scalar channel whose both ends use one size of scalars delivers its values unchanged and
  in order: whatever mix of sends and receives of this size, every call succeeds as long as no
  more is sent than there was room for and nothing is received that was not sent, and every
  receive returns the oldest value that was not yet received.
\<close>

theorem scalar_channel_fifo:
  assumes "scl_ok ssys rsys sh rh p k st" and "length (puts as) \<le> scl_room p st" and "list_run as (scl_values p st) = Some (out, rest)"
  shows "\<exists>st'. run_actions (scl_put ssys sh k) (scl_get rsys rh k) as st = Some (out, st') \<and> scl_ok ssys rsys sh rh p k st' \<and>
     scl_values p st' = rest \<and> scl_values p st @ puts as = out @ rest"
  using scalars.run_refines [OF assms(1,2) _ assms(3)] list_run_order [OF assms(3)] by blast

text \<open>Two nodes with a channel from the first to the second.\<close>

definition channel_pair :: "channel_type \<Rightarrow> mcapi_state" where
  "channel_pair ct = the (mcapi_trans_connect_channel_have_lock 0 0x100 ct two_nodes)"

lemma channel_pair_facts:
  "channel_link ct 0 0x100 (0, 1, 0) (channel_pair ct)" "sys_inv (channel_pair ct)" "ep_messages (channel_pair ct) 0 1 0 = []"
    "ep_room 0 1 0 (channel_pair ct) = 64"
proof -
  have h: "mcapi_trans_decode_handle 0 = Some (0, 0, 0)" "mcapi_trans_decode_handle 0x100 = Some (0, 1, 0)" by code_simp+
  then obtain st where c: "mcapi_trans_connect_channel_have_lock 0 0x100 ct two_nodes = Some st"
    by (simp add: mcapi_trans_connect_channel_have_lock_def)
  then have st: "channel_pair ct = st" by (simp add: channel_pair_def)
  note k = connect_keeps [OF c]
  show "sys_inv (channel_pair ct)" unfolding st by (rule rings_keep_inv(1) [OF k two_nodes_inv])
  have p: "path_ok 0 1 0" by (simp add: path_ok_iff mcapi_limits)
  have r: "same_ring (queue_at st 0 1 0) (queue_at two_nodes 0 1 0)" "buffers st = buffers two_nodes" using k by (simp_all add: rings_keep_def)
  have v: "abs_queue (queue_at st 0 1 0) = abs_queue zero_queue" "qlen (queue_at st 0 1 0) = qlen zero_queue"
    using same_ring_views(2) [OF r(1)] r(1) two_nodes_queue [OF p] by (simp_all add: qlen_def same_ring_def)
  show "ep_messages (channel_pair ct) 0 1 0 = []" "ep_room 0 1 0 (channel_pair ct) = 64"
    using v r(2) by (simp_all add: st ep_messages_def zero_queue_inv ep_room_def ring_room_def qlen_def ring_dist_def free_buffers_def
      two_nodes_sel mcapi_limits)
  show "channel_link ct 0 0x100 (0, 1, 0) (channel_pair ct)"
    using c v h by (simp add: st channel_link_def ep_pending_def zero_queue_inv mcapi_trans_connect_channel_have_lock_def frame_simps) (auto simp: frame_simps)
qed

theorem scalar_channel_fifo_witness:
  "\<exists>st'. run_actions (scl_put (node_sys 0 two_nodes) 0 4) (scl_get (node_sys 1 two_nodes) 0x100 4) [Put 7, Put 9, Get, Get]
     (channel_pair MCAPI_SCL_CHAN) = Some ([7, 9], st')"
proof -
  note f = channel_pair_facts [of MCAPI_SCL_CHAN]
  have "scl_ok (node_sys 0 two_nodes) (node_sys 1 two_nodes) 0 0x100 (0, 1, 0) 4 (channel_pair MCAPI_SCL_CHAN)"
    using f by (simp add: scl_ok_def node_sys_ready open_first_def)
  from scalar_channel_fifo [OF this, of "[Put 7, Put 9, Get, Get]" "[7, 9]" "[]"] f show ?thesis
    by (auto simp: scl_room_def scl_values_def open_first_def)
qed

text \<open>
  A scalar received with another size than it was sent with gives the size error, and the
  item is gone all the same: a later receive, with the right size, gets the next one.
\<close>

theorem scalar_size_mismatch:
  assumes "ready sys" and "sys_inv (shm sys)" and "channel_link MCAPI_SCL_CHAN sh rh (d, n, e) (shm sys)"
    and "open_first (ep_messages (shm sys) d n e) = (bs, x) # rest" and "length bs \<noteq> k"
  shows "\<exists>st'. sclchan_recv_sized rh k [] sys = Some ((x, MCAPI_ERR_SCL_SIZE), sys\<lparr>shm := st'\<rparr>) \<and>
     open_first (ep_messages st' d n e) = rest \<and> sys_inv st'"
  by (rule recv_sized_ok [OF assms(1-4), of k]) (use assms(5) open_first_drop [OF assms(4)] in auto)

theorem scalar_size_mismatch_witness:
  "\<exists>st1 st2 y. sclchan_send_sized 0 7 4 (node_sys 0 (channel_pair MCAPI_SCL_CHAN)) = Some (MCAPI_SUCCESS, node_sys 0 st1) \<and>
     sclchan_recv_sized 0x100 8 [] (node_sys 1 st1) = Some ((y, MCAPI_ERR_SCL_SIZE), node_sys 1 st2) \<and> open_first (ep_messages st2 0 1 0) = []"
proof -
  have r: "0 < ep_room 0 1 0 (channel_pair MCAPI_SCL_CHAN)" using channel_pair_facts(4) [of MCAPI_SCL_CHAN] by simp
  show ?thesis
  proof (rule send_sized_ok [OF node_sys_ready(1) [of 0 "channel_pair MCAPI_SCL_CHAN"], unfolded node_sys_ready,
      OF channel_pair_facts(2) [of MCAPI_SCL_CHAN] channel_pair_facts(1) [of MCAPI_SCL_CHAN] r, of 7 4])
    fix bs st1 assume s: "sclchan_send_sized 0 7 4 (node_sys 0 (channel_pair MCAPI_SCL_CHAN)) = Some (MCAPI_SUCCESS, node_sys 0 st1)"
      and i: "sys_inv st1" and l: "length bs = 4" and c: "channel_link MCAPI_SCL_CHAN 0 0x100 (0, 1, 0) st1"
      and m: "ep_messages st1 0 1 0 = ep_messages (channel_pair MCAPI_SCL_CHAN) 0 1 0 @ [(0, bs, 7)]"
    have om: "open_first (ep_messages st1 0 1 0) = (bs, 7) # []" using m channel_pair_facts(3) [of MCAPI_SCL_CHAN] by (simp add: open_first_def)
    have k: "length bs \<noteq> 8" using l by simp
    from scalar_size_mismatch [OF node_sys_ready(1) [of 1 st1], unfolded node_sys_ready, OF i c om k] s show ?thesis by blast
  qed
qed

lemma scalar_send_recv:
  assumes "ready ssys" and "ready rsys" and "sys_inv st" and "channel_link MCAPI_SCL_CHAN sh rh (d, n, e) st"
    and "ep_messages st d n e = []" and "0 < ep_room d n e st"
  shows "\<exists>st1. sclchan_send_sized sh x k (ssys\<lparr>shm := st\<rparr>) = Some (MCAPI_SUCCESS, ssys\<lparr>shm := st1\<rparr>) \<and>
     (\<forall>k'. \<exists>st2. sclchan_recv_sized rh k' [] (rsys\<lparr>shm := st1\<rparr>) =
       Some ((x, if k = k' then MCAPI_SUCCESS else MCAPI_ERR_SCL_SIZE), rsys\<lparr>shm := st2\<rparr>))"
proof -
  let ?sys = "ssys\<lparr>shm := st\<rparr>"
  have o: "ready ?sys" "sys_inv (shm ?sys)" "channel_link MCAPI_SCL_CHAN sh rh (d, n, e) (shm ?sys)" "0 < ep_room d n e (shm ?sys)"
    using assms by simp_all
  show ?thesis
  proof (rule send_sized_ok [OF o(1-4), of x k])
    fix bs st1 assume s: "sclchan_send_sized sh x k ?sys = Some (MCAPI_SUCCESS, ?sys\<lparr>shm := st1\<rparr>)"
      and i: "sys_inv st1" and l: "length bs = k" and c: "channel_link MCAPI_SCL_CHAN sh rh (d, n, e) st1"
      and m: "ep_messages st1 d n e = ep_messages (shm ?sys) d n e @ [(0, bs, x)]"
    let ?r = "rsys\<lparr>shm := st1\<rparr>"
    have q: "ready ?r" "sys_inv (shm ?r)" "channel_link MCAPI_SCL_CHAN sh rh (d, n, e) (shm ?r)"
      "open_first (ep_messages (shm ?r) d n e) = (bs, x) # []"
      using assms(2,5) i c m by (simp_all add: open_first_def)
    have "\<exists>st2. sclchan_recv_sized rh k' [] ?r = Some ((x, if k = k' then MCAPI_SUCCESS else MCAPI_ERR_SCL_SIZE), rsys\<lparr>shm := st2\<rparr>)" for k'
    proof (rule recv_sized_ok [OF q, of k'])
      fix st2 assume "sclchan_recv_sized rh k' [] ?r = Some ((x, if length bs = k' then MCAPI_SUCCESS else MCAPI_ERR_SCL_SIZE), ?r\<lparr>shm := st2\<rparr>)"
      then show ?thesis using l by (intro exI [of _ st2]) simp
    qed
    then show ?thesis using s by (intro exI [of _ st1]) simp
  qed
qed

text \<open>
  C22: The typed calls keep the value: what is sent as 8, 16, 32 or 64 bits over a channel with
  nothing unread is received identically by the call of the same width; each of the three calls
  of another width reports the size error.
\<close>

theorem scalar_typed_roundtrip:
  assumes "ready ssys" and "ready rsys" and "sys_inv st" and "channel_link MCAPI_SCL_CHAN sh rh (d, n, e) st"
    and "ep_messages st d n e = []" and "0 < ep_room d n e st"
  shows "(\<exists>st1. mcapi_sclchan_send_uint8 sh xb (ssys\<lparr>shm := st\<rparr>) = Some (MCAPI_SUCCESS, ssys\<lparr>shm := st1\<rparr>) \<and>
       (\<exists>st2. mcapi_sclchan_recv_uint8 rh [] (rsys\<lparr>shm := st1\<rparr>) = Some ((xb, MCAPI_SUCCESS), rsys\<lparr>shm := st2\<rparr>)) \<and>
       (\<exists>st2. mcapi_sclchan_recv_uint16 rh [] (rsys\<lparr>shm := st1\<rparr>) = Some ((ucast xb, MCAPI_ERR_SCL_SIZE), rsys\<lparr>shm := st2\<rparr>)) \<and>
       (\<exists>st2. mcapi_sclchan_recv_uint32 rh [] (rsys\<lparr>shm := st1\<rparr>) = Some ((ucast xb, MCAPI_ERR_SCL_SIZE), rsys\<lparr>shm := st2\<rparr>)) \<and>
       (\<exists>st2. mcapi_sclchan_recv_uint64 rh [] (rsys\<lparr>shm := st1\<rparr>) = Some ((ucast xb, MCAPI_ERR_SCL_SIZE), rsys\<lparr>shm := st2\<rparr>))) \<and>
     (\<exists>st1. mcapi_sclchan_send_uint16 sh xh (ssys\<lparr>shm := st\<rparr>) = Some (MCAPI_SUCCESS, ssys\<lparr>shm := st1\<rparr>) \<and>
       (\<exists>st2. mcapi_sclchan_recv_uint8 rh [] (rsys\<lparr>shm := st1\<rparr>) = Some ((ucast xh, MCAPI_ERR_SCL_SIZE), rsys\<lparr>shm := st2\<rparr>)) \<and>
       (\<exists>st2. mcapi_sclchan_recv_uint16 rh [] (rsys\<lparr>shm := st1\<rparr>) = Some ((xh, MCAPI_SUCCESS), rsys\<lparr>shm := st2\<rparr>)) \<and>
       (\<exists>st2. mcapi_sclchan_recv_uint32 rh [] (rsys\<lparr>shm := st1\<rparr>) = Some ((ucast xh, MCAPI_ERR_SCL_SIZE), rsys\<lparr>shm := st2\<rparr>)) \<and>
       (\<exists>st2. mcapi_sclchan_recv_uint64 rh [] (rsys\<lparr>shm := st1\<rparr>) = Some ((ucast xh, MCAPI_ERR_SCL_SIZE), rsys\<lparr>shm := st2\<rparr>))) \<and>
     (\<exists>st1. mcapi_sclchan_send_uint32 sh xw (ssys\<lparr>shm := st\<rparr>) = Some (MCAPI_SUCCESS, ssys\<lparr>shm := st1\<rparr>) \<and>
       (\<exists>st2. mcapi_sclchan_recv_uint8 rh [] (rsys\<lparr>shm := st1\<rparr>) = Some ((ucast xw, MCAPI_ERR_SCL_SIZE), rsys\<lparr>shm := st2\<rparr>)) \<and>
       (\<exists>st2. mcapi_sclchan_recv_uint16 rh [] (rsys\<lparr>shm := st1\<rparr>) = Some ((ucast xw, MCAPI_ERR_SCL_SIZE), rsys\<lparr>shm := st2\<rparr>)) \<and>
       (\<exists>st2. mcapi_sclchan_recv_uint32 rh [] (rsys\<lparr>shm := st1\<rparr>) = Some ((xw, MCAPI_SUCCESS), rsys\<lparr>shm := st2\<rparr>)) \<and>
       (\<exists>st2. mcapi_sclchan_recv_uint64 rh [] (rsys\<lparr>shm := st1\<rparr>) = Some ((ucast xw, MCAPI_ERR_SCL_SIZE), rsys\<lparr>shm := st2\<rparr>))) \<and>
     (\<exists>st1. mcapi_sclchan_send_uint64 sh xd (ssys\<lparr>shm := st\<rparr>) = Some (MCAPI_SUCCESS, ssys\<lparr>shm := st1\<rparr>) \<and>
       (\<exists>st2. mcapi_sclchan_recv_uint8 rh [] (rsys\<lparr>shm := st1\<rparr>) = Some ((ucast xd, MCAPI_ERR_SCL_SIZE), rsys\<lparr>shm := st2\<rparr>)) \<and>
       (\<exists>st2. mcapi_sclchan_recv_uint16 rh [] (rsys\<lparr>shm := st1\<rparr>) = Some ((ucast xd, MCAPI_ERR_SCL_SIZE), rsys\<lparr>shm := st2\<rparr>)) \<and>
       (\<exists>st2. mcapi_sclchan_recv_uint32 rh [] (rsys\<lparr>shm := st1\<rparr>) = Some ((ucast xd, MCAPI_ERR_SCL_SIZE), rsys\<lparr>shm := st2\<rparr>)) \<and>
       (\<exists>st2. mcapi_sclchan_recv_uint64 rh [] (rsys\<lparr>shm := st1\<rparr>) = Some ((xd, MCAPI_SUCCESS), rsys\<lparr>shm := st2\<rparr>)))"
proof -
  note r = scalar_send_recv [OF assms]
  have u: "(ucast (ucast xb :: u64) :: byte) = xb" "(ucast (ucast xb :: u64) :: u16) = ucast xb" "(ucast (ucast xb :: u64) :: u32) = ucast xb"
    "(ucast (ucast xh :: u64) :: byte) = ucast xh" "(ucast (ucast xh :: u64) :: u16) = xh" "(ucast (ucast xh :: u64) :: u32) = ucast xh"
    "(ucast (ucast xw :: u64) :: byte) = ucast xw" "(ucast (ucast xw :: u64) :: u16) = ucast xw" "(ucast (ucast xw :: u64) :: u32) = xw"
    by (simp_all add: unsigned_ucast_eq take_bit_word_eq_self)
  note d = mcapi_sclchan_send_uint8_def mcapi_sclchan_recv_uint8_def mcapi_sclchan_send_uint16_def mcapi_sclchan_recv_uint16_def
      mcapi_sclchan_send_uint32_def mcapi_sclchan_recv_uint32_def mcapi_sclchan_send_uint64_def mcapi_sclchan_recv_uint64_def truncated_def
  show ?thesis
  proof (intro conjI, goal_cases)
    case 1
    from r [of "ucast xb" 1] obtain st1 where s: "sclchan_send_sized sh (ucast xb) 1 (ssys\<lparr>shm := st\<rparr>) = Some (MCAPI_SUCCESS, ssys\<lparr>shm := st1\<rparr>)"
      and q: "\<And>k'. \<exists>st2. sclchan_recv_sized rh k' [] (rsys\<lparr>shm := st1\<rparr>) =
        Some ((ucast xb, if 1 = k' then MCAPI_SUCCESS else MCAPI_ERR_SCL_SIZE), rsys\<lparr>shm := st2\<rparr>)" by blast
    from q [of 1] q [of 2] q [of 4] q [of 8] s show ?case unfolding d by (intro exI [of _ st1]) (auto simp: u)
  next
    case 2
    from r [of "ucast xh" 2] obtain st1 where s: "sclchan_send_sized sh (ucast xh) 2 (ssys\<lparr>shm := st\<rparr>) = Some (MCAPI_SUCCESS, ssys\<lparr>shm := st1\<rparr>)"
      and q: "\<And>k'. \<exists>st2. sclchan_recv_sized rh k' [] (rsys\<lparr>shm := st1\<rparr>) =
        Some ((ucast xh, if 2 = k' then MCAPI_SUCCESS else MCAPI_ERR_SCL_SIZE), rsys\<lparr>shm := st2\<rparr>)" by blast
    from q [of 1] q [of 2] q [of 4] q [of 8] s show ?case unfolding d by (intro exI [of _ st1]) (auto simp: u)
  next
    case 3
    from r [of "ucast xw" 4] obtain st1 where s: "sclchan_send_sized sh (ucast xw) 4 (ssys\<lparr>shm := st\<rparr>) = Some (MCAPI_SUCCESS, ssys\<lparr>shm := st1\<rparr>)"
      and q: "\<And>k'. \<exists>st2. sclchan_recv_sized rh k' [] (rsys\<lparr>shm := st1\<rparr>) =
        Some ((ucast xw, if 4 = k' then MCAPI_SUCCESS else MCAPI_ERR_SCL_SIZE), rsys\<lparr>shm := st2\<rparr>)" by blast
    from q [of 1] q [of 2] q [of 4] q [of 8] s show ?case unfolding d by (intro exI [of _ st1]) (auto simp: u)
  next
    case 4
    from r [of xd 8] obtain st1 where s: "sclchan_send_sized sh (xd) 8 (ssys\<lparr>shm := st\<rparr>) = Some (MCAPI_SUCCESS, ssys\<lparr>shm := st1\<rparr>)"
      and q: "\<And>k'. \<exists>st2. sclchan_recv_sized rh k' [] (rsys\<lparr>shm := st1\<rparr>) =
        Some ((xd, if 8 = k' then MCAPI_SUCCESS else MCAPI_ERR_SCL_SIZE), rsys\<lparr>shm := st2\<rparr>)" by blast
    from q [of 1] q [of 2] q [of 4] q [of 8] s show ?case unfolding d by (intro exI [of _ st1]) (auto simp: u)
  qed
qed

theorem scalar_typed_roundtrip_witness:
  "\<exists>st1 st2. mcapi_sclchan_send_uint32 0 70000 (node_sys 0 (channel_pair MCAPI_SCL_CHAN)) = Some (MCAPI_SUCCESS, node_sys 0 st1) \<and>
     mcapi_sclchan_recv_uint32 0x100 [] (node_sys 1 st1) = Some ((70000, MCAPI_SUCCESS), node_sys 1 st2)"
proof -
  note f = channel_pair_facts [of MCAPI_SCL_CHAN]
  have r: "0 < ep_room 0 1 0 (channel_pair MCAPI_SCL_CHAN)" using f by simp
  from scalar_typed_roundtrip [OF node_sys_ready(1) [of 0 two_nodes] node_sys_ready(1) [of 1 two_nodes] f(2,1,3) r, where xw = 70000]
  show ?thesis unfolding node_sys_ready by blast
qed

section \<open>Packets\<close>

lemma packet_size: "sz \<le> MCAPI_MAX_PKT_SIZE \<Longrightarrow> sz \<le> MCAPI_MAX_MSG_SIZE"
  by (simp add: MCAPI_MAX_PKT_SIZE_def MCAPI_MAX_MSG_SIZE_def)

lemma channel_link_cong:
  "domains st' = domains st \<Longrightarrow> channel_link ct sh rh p st' = channel_link ct sh rh p st"
  by (auto simp: channel_link_def ep_pending_def queue_at_def endpoint_at_def node_at_def split: prod.splits option.splits)

lemma packet_send_i:
  assumes ready: "ready sys" and inv: "sys_inv (shm sys)" and l: "request_lists (shm sys) (r # free) full"
    and ln: "channel_link MCAPI_PKT_CHAN sh rh (d, n, e) (shm sys)" and room: "0 < ep_room d n e (shm sys)" and sz: "sz \<le> MCAPI_MAX_PKT_SIZE"
  obtains st' where "mcapi_trans_pktchan_send_i sh (UserBuf a) sz MCAPI_SUCCESS sys =
      Some ((Some (encode_request r), MCAPI_SUCCESS), sys\<lparr>shm := st'\<rparr>)"
    and "\<exists>s. ep_messages st' d n e = ep_messages (shm sys) d n e @ [(0, bytes_of (user_bytes (shm sys) a) sz, s)]"
    and "channel_link MCAPI_PKT_CHAN sh rh (d, n, e) st'" and "ep_room d n e st' = ep_room d n e (shm sys) - 1"
    and "request_lists st' free (r # full)" "user_bytes st' = user_bytes (shm sys)"
    and "requests st' = (requests (shm sys))(r := (requests (shm sys) r)\<lparr>rvalid := True, rstatus := MCAPI_SUCCESS,
       rsize := sz, cancelled := False, completed := True, rtype := SEND, rhandle := sh\<rparr>)"
proof (rule reserve_request_some [OF l])
  let ?st = "shm sys"
  fix st1 assume r1: "mcapi_trans_reserve_request_have_lock ?st = (Some r, st1)"
      "request_lists st1 free (r # full)" "requests st1 = (requests ?st)(r := (requests ?st r)\<lparr>rvalid := True\<rparr>)"
    and f1: "domains st1 = domains ?st" "buffers st1 = buffers ?st" "user_bytes st1 = user_bytes ?st"
  note v1 = same_db_views [OF f1(1,2)]
  have ln1: "channel_link MCAPI_PKT_CHAN sh rh (d, n, e) st1" using ln f1 by (simp add: channel_link_cong [of st1 ?st])
  note g = channel_link_facts [OF ln1]
  have o: "db_inv st1" "path_ok d n e" "chan_type (queue_at st1 d n e) \<noteq> MCAPI_SCL_CHAN" "0 < ep_room d n e st1"
    using inv v1 g room by (simp_all add: sys_inv_def)
  show thesis
  proof (rule send_message [OF o packet_size [OF sz], of a 0])
    fix st2 assume s: "mcapi_trans_send_have_lock d n e (UserBuf a) sz 0 st1 = Some (True, st2)" "requests st2 = requests st1"
      and m: "ep_messages st2 d n e = ep_messages st1 d n e @
        [(if ep_pending st1 d n e = [] then 0 else hd (ep_pending st1 d n e), bytes_of (user_bytes st1 a) sz,
          scalar (buffers st1 (find_buffer st1)))]" "ep_pending st2 d n e = tl (ep_pending st1 d n e)" "user_bytes st2 = user_bytes st1"
        "chan_type (queue_at st2 d n e) = chan_type (queue_at st1 d n e)" "ep_room d n e st2 = ep_room d n e st1 - 1"
    let ?f = "\<lambda>rd. rd\<lparr>rstatus := MCAPI_SUCCESS, rsize := sz, cancelled := False, completed := True, rtype := SEND, rhandle := sh\<rparr>"
    let ?st' = "upd_request r ?f st2"
    have u: "domains ?st' = domains st2" "buffers ?st' = buffers st2" by (simp_all add: frame_simps)
    note v = same_db_views [OF u]
    have ln2: "channel_link MCAPI_PKT_CHAN sh rh (d, n, e) ?st'"
      unfolding channel_link_cong [OF u(1)] by (rule channel_link_step [OF ln1 send_one_queue [OF s(1)]]) (use m g in simp_all)
    show thesis
    proof (rule that [of ?st'])
      show "mcapi_trans_pktchan_send_i sh (UserBuf a) sz MCAPI_SUCCESS sys =
        Some ((Some (encode_request r), MCAPI_SUCCESS), sys\<lparr>shm := ?st'\<rparr>)"
        using g by (simp add: mcapi_trans_pktchan_send_i_def with_lock_ready [OF ready] with_request_def r1(1) s(1) setup_done)
      show "\<exists>s. ep_messages ?st' d n e = ep_messages ?st d n e @ [(0, bytes_of (user_bytes ?st a) sz, s)]"
        using m g f1 v1 v by simp
      show "ep_room d n e ?st' = ep_room d n e ?st - 1" using m v1 v by simp
    qed (use ln2 r1 s m f1 send_header [OF s(1)] in \<open>simp_all add: request_lists_def upd_request_def\<close>)
  qed
qed

lemma recv_packet:
  assumes inv: "db_inv st" and p: "path_ok d n e" and ct: "chan_type (queue_at st d n e) = MCAPI_PKT_CHAN"
    and om: "open_first (ep_messages st d n e) = (bs, s) # rest"
  obtains i st' where "mcapi_trans_recv_have_lock d n e (Cell c) bsz False False [] st = Some (Some (length bs, None), st')"
    and "ep_messages st' d n e = drop_open (ep_messages st d n e)" and "user_ptrs st' c = McapiBuf i"
    and "buffers st' = buffers st" and "magic_num (buffers st i) \<noteq> 0" and "i < MCAPI_MAX_BUFFERS"
    and "bytes_of (buff (buffers st i)) (bsize (buffers st i)) = bs" and "requests st' = requests st" and "user_bytes st' = user_bytes st"
proof -
  define P where "P i st1 \<longleftrightarrow> buffers st1 = buffers st \<and> user_ptrs st1 c = McapiBuf i \<and> user_bytes st1 = user_bytes st"
    for i and st1 :: mcapi_state
  have dl: "\<exists>st1. deliver_buffer (chan_type (queue_at st d n e)) i (Cell c) (min bsz (bsize (buffers st i))) False st = Some (None, st1) \<and>
      (buffers st1 = buffers st \<or> buffers st1 = (buffers st)(i := zero_buffer)) \<and> P i st1" for i
    by (simp add: deliver_buffer_def ct P_def)
  show thesis
  proof (rule recv_delivers [OF inv p om dl, where blocking = False and env = "[]"])
    fix i st' assume "mcapi_trans_recv_have_lock d n e (Cell c) bsz False False [] st = Some (Some (length bs, None), st')"
      "ep_messages st' d n e = drop_open (ep_messages st d n e)" "P i st'" "i < MCAPI_MAX_BUFFERS" "magic_num (buffers st i) \<noteq> 0"
      "payload_of st (encode_buff_index i) = (bs, s)" "requests st' = requests st"
    then show thesis by (intro that [of st' i]) (simp_all add: P_def payload_of_def Let_def)
  qed (auto simp: P_def)
qed

lemma packet_recv_i:
  assumes ready: "ready sys" and inv: "sys_inv (shm sys)" and l: "request_lists (shm sys) (r # free) full"
    and rh: "mcapi_trans_decode_handle rh = Some (d, n, e)" "chan_type (queue_at (shm sys) d n e) = MCAPI_PKT_CHAN"
    and om: "open_first (ep_messages (shm sys) d n e) = (bs, s) # rest"
  obtains i st' where "mcapi_trans_pktchan_recv_i rh c MCAPI_SUCCESS sys = Some ((Some (encode_request r), MCAPI_SUCCESS), sys\<lparr>shm := st'\<rparr>)"
    and "ep_messages st' d n e = drop_open (ep_messages (shm sys) d n e)" and "user_ptrs st' c = McapiBuf i"
    and "buffers st' = buffers (shm sys)" and "magic_num (buffers (shm sys) i) \<noteq> 0" and "i < MCAPI_MAX_BUFFERS"
    and "bytes_of (buff (buffers (shm sys) i)) (bsize (buffers (shm sys) i)) = bs"
    and "request_lists st' free (r # full)"
    and "requests st' = (requests (shm sys))(r := (requests (shm sys) r)\<lparr>rvalid := True, rstatus := MCAPI_SUCCESS,
       rsize := length bs, cancelled := False, completed := True, rtype := RECV, rhandle := rh\<rparr>)"
proof (rule reserve_request_some [OF l])
  let ?st = "shm sys"
  fix st1 assume r1: "mcapi_trans_reserve_request_have_lock ?st = (Some r, st1)"
      "request_lists st1 free (r # full)" "requests st1 = (requests ?st)(r := (requests ?st r)\<lparr>rvalid := True\<rparr>)"
    and f1: "domains st1 = domains ?st" "buffers st1 = buffers ?st"
  let ?su = "st1\<lparr>user_ptrs := (user_ptrs st1)(c := NULL)\<rparr>"
  have fu: "domains ?su = domains ?st" "buffers ?su = buffers ?st" using f1 by simp_all
  note v1 = same_db_views [OF fu]
  have o: "db_inv ?su" "path_ok d n e" "chan_type (queue_at ?su d n e) = MCAPI_PKT_CHAN" "open_first (ep_messages ?su d n e) = (bs, s) # rest"
    using inv v1 rh decode_path [OF rh(1)] om by (simp_all add: sys_inv_def)
  show thesis
  proof (rule recv_packet [OF o, of c MCAPI_MAX_PKT_SIZE])
    fix i st2 assume s: "mcapi_trans_recv_have_lock d n e (Cell c) MCAPI_MAX_PKT_SIZE False False [] ?su = Some (Some (length bs, None), st2)"
      and m: "ep_messages st2 d n e = drop_open (ep_messages ?su d n e)" "user_ptrs st2 c = McapiBuf i" "buffers st2 = buffers ?su"
        "magic_num (buffers ?su i) \<noteq> 0" "i < MCAPI_MAX_BUFFERS" "bytes_of (buff (buffers ?su i)) (bsize (buffers ?su i)) = bs"
        "requests st2 = requests ?su"
    let ?f = "\<lambda>rd. rd\<lparr>rstatus := MCAPI_SUCCESS, rsize := length bs, cancelled := False, completed := True, rtype := RECV, rhandle := rh\<rparr>"
    let ?st' = "upd_request r ?f st2"
    have u: "domains ?st' = domains st2" "buffers ?st' = buffers st2" by (simp_all add: frame_simps)
    note v = same_db_views [OF u]
    show thesis
    proof (rule that [of ?st' i])
      show "mcapi_trans_pktchan_recv_i rh c MCAPI_SUCCESS sys = Some ((Some (encode_request r), MCAPI_SUCCESS), sys\<lparr>shm := ?st'\<rparr>)"
        by (simp add: mcapi_trans_pktchan_recv_i_def with_lock_ready [OF ready] with_request_def r1(1) rh(1) Let_def s setup_done)
      show "ep_messages ?st' d n e = drop_open (ep_messages ?st d n e)" using m(1) v1 v by simp
    qed (use m f1 r1 recv_header [OF s] in \<open>simp_all add: request_lists_def upd_request_def\<close>)
  qed
qed

lemma packet_sent:
  assumes ready: "ready sys" and inv: "sys_inv (shm sys)" and l: "request_lists (shm sys) (r # free) full"
    and ln: "channel_link MCAPI_PKT_CHAN sh rh (d, n, e) (shm sys)" and room: "0 < ep_room d n e (shm sys)" and sz: "sz \<le> MCAPI_MAX_PKT_SIZE"
  obtains st' s where "mcapi_pktchan_send sh (UserBuf a) sz env sys = Some (MCAPI_SUCCESS, sys\<lparr>shm := st'\<rparr>)"
    and "ep_messages st' d n e = ep_messages (shm sys) d n e @ [(0, bytes_of (user_bytes (shm sys) a) sz, s)]"
    and "channel_link MCAPI_PKT_CHAN sh rh (d, n, e) st'" and "request_lists st' (r # free) full" and "sys_inv st'"
    and "marked (shm sys) \<Longrightarrow> marked st'"
proof (rule packet_send_i [OF assms, of a])
  fix st1 assume s: "mcapi_trans_pktchan_send_i sh (UserBuf a) sz MCAPI_SUCCESS sys = Some ((Some (encode_request r), MCAPI_SUCCESS), sys\<lparr>shm := st1\<rparr>)"
    and m: "\<exists>s. ep_messages st1 d n e = ep_messages (shm sys) d n e @ [(0, bytes_of (user_bytes (shm sys) a) sz, s)]"
    and ln1: "channel_link MCAPI_PKT_CHAN sh rh (d, n, e) st1" and l1: "request_lists st1 free (r # full)"
    and q: "requests st1 = (requests (shm sys))(r := (requests (shm sys) r)\<lparr>rvalid := True, rstatus := MCAPI_SUCCESS,
       rsize := sz, cancelled := False, completed := True, rtype := SEND, rhandle := sh\<rparr>)"
  have c: "request_lists st1 free ([] @ r # full)" "rvalid (requests st1 r)" "\<not> cancelled (requests st1 r)" "completed (requests st1 r)"
    using l1 q by simp_all
  show thesis
  proof (rule start_and_wait_done [where op = "mcapi_trans_pktchan_send_i sh (UserBuf a) sz", OF ready s _ c, of sz env])
    fix st2 assume w: "start_and_wait (mcapi_trans_pktchan_send_i sh (UserBuf a) sz) sz env sys =
        Some ((rstatus (requests st1 r) = MCAPI_SUCCESS, rsize (requests st1 r)), sys\<lparr>shm := st2\<rparr>)"
      and f: "request_lists st2 (r # free) ([] @ full)" "domains st2 = domains st1" "buffers st2 = buffers st1"
      and t: "\<exists>x. mcapi_trans_test_i (encode_request r) sz MCAPI_SUCCESS (sys\<lparr>shm := st1\<rparr>) = Some (x, sys\<lparr>shm := st2\<rparr>)"
    have c: "mcapi_pktchan_send sh (UserBuf a) sz env sys = Some (MCAPI_SUCCESS, sys\<lparr>shm := st2\<rparr>)"
      using w q channel_link_facts(2) [OF ln] sz
      by (simp add: mcapi_pktchan_send_def pktchan_send_checks_def not_check_def const_check_def mcapi_trans_valid_pktchan_send_handle_def
        with_lock_ready [OF ready] reading_def mcapi_trans_pktchan_send_def)
    from t obtain x where t: "mcapi_trans_test_i (encode_request r) sz MCAPI_SUCCESS (sys\<lparr>shm := st1\<rparr>) = Some (x, sys\<lparr>shm := st2\<rparr>)" ..
    from m obtain s where "ep_messages st2 d n e = ep_messages (shm sys) d n e @ [(0, bytes_of (user_bytes (shm sys) a) sz, s)]"
      using same_db_views [OF f(2,3)] by auto
    moreover have "sys_inv st2" using soundD [OF pktchan_send_i_sound s] soundD [OF test_i_sound t] inv by simp
    moreover have "marked (shm sys) \<Longrightarrow> marked st2" using soundD [OF marks.pkt_send_i s] soundD [OF marks.test t] by simp
    ultimately show thesis using c ln1 f channel_link_cong [OF f(2)] by (intro that) simp_all
  qed simp
qed

lemma packet_received:
  assumes ready: "ready sys" and inv: "sys_inv (shm sys)" and l: "request_lists (shm sys) (r # free) full"
    and ln: "channel_link MCAPI_PKT_CHAN sh rh (d, n, e) (shm sys)"
    and om: "open_first (ep_messages (shm sys) d n e) = (bs, s) # rest" and sz: "length bs \<le> MCAPI_MAX_PKT_SIZE"
  obtains i st' where "mcapi_pktchan_recv rh (Some c) k env sys = Some ((length bs, MCAPI_SUCCESS), sys\<lparr>shm := st'\<rparr>)"
    and "ep_messages st' d n e = drop_open (ep_messages (shm sys) d n e)" and "user_ptrs st' c = McapiBuf i"
    and "magic_num (buffers st' i) \<noteq> 0" and "bytes_of (buff (buffers st' i)) (bsize (buffers st' i)) = bs"
    and "request_lists st' (r # free) full" and "marked (shm sys) \<Longrightarrow> marked st'"
proof (rule packet_recv_i [OF ready inv l channel_link_facts(4,5) [OF ln] om, of c])
  fix i st1 assume s: "mcapi_trans_pktchan_recv_i rh c MCAPI_SUCCESS sys = Some ((Some (encode_request r), MCAPI_SUCCESS), sys\<lparr>shm := st1\<rparr>)"
    and m: "ep_messages st1 d n e = drop_open (ep_messages (shm sys) d n e)" "user_ptrs st1 c = McapiBuf i"
      "buffers st1 = buffers (shm sys)" "magic_num (buffers (shm sys) i) \<noteq> 0"
      "bytes_of (buff (buffers (shm sys) i)) (bsize (buffers (shm sys) i)) = bs"
    and l1: "request_lists st1 free (r # full)"
    and q: "requests st1 = (requests (shm sys))(r := (requests (shm sys) r)\<lparr>rvalid := True, rstatus := MCAPI_SUCCESS,
       rsize := length bs, cancelled := False, completed := True, rtype := RECV, rhandle := rh\<rparr>)"
  have c: "request_lists st1 free ([] @ r # full)" "rvalid (requests st1 r)" "\<not> cancelled (requests st1 r)" "completed (requests st1 r)"
    using l1 q by simp_all
  show thesis
  proof (rule start_and_wait_done [where op = "mcapi_trans_pktchan_recv_i rh c", OF ready s _ c, of k env])
    fix st2 assume w: "start_and_wait (mcapi_trans_pktchan_recv_i rh c) k env sys =
        Some ((rstatus (requests st1 r) = MCAPI_SUCCESS, rsize (requests st1 r)), sys\<lparr>shm := st2\<rparr>)"
      and f: "request_lists st2 (r # free) ([] @ full)" "domains st2 = domains st1" "buffers st2 = buffers st1" "user_ptrs st2 = user_ptrs st1"
      and t: "\<exists>x. mcapi_trans_test_i (encode_request r) k MCAPI_SUCCESS (sys\<lparr>shm := st1\<rparr>) = Some (x, sys\<lparr>shm := st2\<rparr>)"
    have c: "mcapi_pktchan_recv rh (Some c) k env sys = Some ((length bs, MCAPI_SUCCESS), sys\<lparr>shm := st2\<rparr>)"
      using w q channel_link_facts(3) [OF ln] sz
      by (simp add: mcapi_pktchan_recv_def not_check_def mcapi_trans_valid_pktchan_recv_handle_def
        with_lock_ready [OF ready] reading_def when_ok_def mcapi_trans_pktchan_recv_def)
    from t obtain x where t: "mcapi_trans_test_i (encode_request r) k MCAPI_SUCCESS (sys\<lparr>shm := st1\<rparr>) = Some (x, sys\<lparr>shm := st2\<rparr>)" ..
    have "marked (shm sys) \<Longrightarrow> marked st2" using soundD [OF marks.pkt_recv_i s] soundD [OF marks.test t] by simp
    then show thesis using c m f same_db_views [OF f(2,3)] by (intro that [of st2 i]) simp_all
  qed simp
qed

text \<open>
  C10: A packet sent with the blocking call and received with the blocking call at the other end
  arrives without being copied by the receiver: the receive stores in the application's pointer
  the address of a transport buffer in use that holds exactly the bytes sent, and reports their
  number. A release right after it succeeds and makes the buffer free again, and a second release,
  with nothing in between, is refused. Afterwards the request pool is as before.
\<close>

theorem packet_lifecycle:
  assumes ready: "ready ssys" "ready rsys" and inv: "sys_inv st" and mk: "marked st" and l: "request_lists st (r # free) full"
    and ln: "channel_link MCAPI_PKT_CHAN sh rh (d, n, e) st" and em: "ep_messages st d n e = []"
    and room: "0 < ep_room d n e st" and sz: "sz \<le> MCAPI_MAX_PKT_SIZE"
  shows "\<exists>st1 st2 st3 i. mcapi_pktchan_send sh (UserBuf a) sz env (ssys\<lparr>shm := st\<rparr>) = Some (MCAPI_SUCCESS, ssys\<lparr>shm := st1\<rparr>) \<and>
     mcapi_pktchan_recv rh (Some c) k env' (rsys\<lparr>shm := st1\<rparr>) = Some ((sz, MCAPI_SUCCESS), rsys\<lparr>shm := st2\<rparr>) \<and>
     user_ptrs st2 c = McapiBuf i \<and> magic_num (buffers st2 i) = MAGIC_NUM \<and> bsize (buffers st2 i) = sz \<and>
     bytes_of (buff (buffers st2 i)) sz = bytes_of (user_bytes st a) sz \<and> ep_messages st2 d n e = [] \<and>
     mcapi_pktchan_release (McapiBuf i) (rsys\<lparr>shm := st2\<rparr>) = Some (MCAPI_SUCCESS, rsys\<lparr>shm := st3\<rparr>) \<and>
     buffers st3 = (buffers st2)(i := zero_buffer) \<and> request_lists st3 (r # free) full \<and>
     mcapi_pktchan_release (McapiBuf i) (rsys\<lparr>shm := st3\<rparr>) = Some (MCAPI_ERR_BUF_INVALID, rsys\<lparr>shm := st3\<rparr>)"
proof -
  let ?s = "ssys\<lparr>shm := st\<rparr>" and ?bs = "bytes_of (user_bytes st a) sz"
  have o: "ready ?s" "sys_inv (shm ?s)" "request_lists (shm ?s) (r # free) full" "channel_link MCAPI_PKT_CHAN sh rh (d, n, e) (shm ?s)"
    "0 < ep_room d n e (shm ?s)" using ready inv l ln room by simp_all
  show ?thesis
  proof (rule packet_sent [OF o sz, of a env])
    fix st1 s assume s1: "mcapi_pktchan_send sh (UserBuf a) sz env ?s = Some (MCAPI_SUCCESS, ?s\<lparr>shm := st1\<rparr>)"
      and m1: "ep_messages st1 d n e = ep_messages (shm ?s) d n e @ [(0, bytes_of (user_bytes (shm ?s) a) sz, s)]"
      and ln1: "channel_link MCAPI_PKT_CHAN sh rh (d, n, e) st1" and l1: "request_lists st1 (r # free) full" and i1: "sys_inv st1"
      and k1: "marked (shm ?s) \<Longrightarrow> marked st1"
    let ?r = "rsys\<lparr>shm := st1\<rparr>"
    have o1: "ready ?r" "sys_inv (shm ?r)" "request_lists (shm ?r) (r # free) full" "channel_link MCAPI_PKT_CHAN sh rh (d, n, e) (shm ?r)"
      "open_first (ep_messages (shm ?r) d n e) = (?bs, s) # []" "length ?bs \<le> MCAPI_MAX_PKT_SIZE"
      using ready i1 l1 ln1 m1 em sz by (simp_all add: open_first_def)
    show ?thesis
    proof (rule packet_received [OF o1, of c k env'])
      fix i st2 assume s2: "mcapi_pktchan_recv rh (Some c) k env' ?r = Some ((length ?bs, MCAPI_SUCCESS), ?r\<lparr>shm := st2\<rparr>)"
        and m2: "ep_messages st2 d n e = drop_open (ep_messages (shm ?r) d n e)" "user_ptrs st2 c = McapiBuf i"
        and b2: "magic_num (buffers st2 i) \<noteq> 0" "bytes_of (buff (buffers st2 i)) (bsize (buffers st2 i)) = ?bs"
        and l2: "request_lists st2 (r # free) full" and k2: "marked (shm ?r) \<Longrightarrow> marked st2"
      let ?st3 = "upd_buffer i (\<lambda>b. zero_buffer) st2"
      have k: "magic_num (buffers st2 i) = MAGIC_NUM" using marked_magic [OF _ b2(1)] k1 k2 mk by simp
      have z: "bsize (buffers st2 i) = sz" using arg_cong [OF b2(2), of length] by simp
      have d: "drop_open (ep_messages (shm ?r) d n e) = []" using m1 em by (simp add: drop_open_def)
      have ne: "(0::u32) \<noteq> MAGIC_NUM" using MAGIC_NUM_nonzero by metis
      have f: "mcapi_pktchan_release (McapiBuf i) (rsys\<lparr>shm := st2\<rparr>) = Some (MCAPI_SUCCESS, rsys\<lparr>shm := ?st3\<rparr>)"
        "mcapi_pktchan_release (McapiBuf i) (rsys\<lparr>shm := ?st3\<rparr>) = Some (MCAPI_ERR_BUF_INVALID, rsys\<lparr>shm := ?st3\<rparr>)"
        using k ready ne by (simp_all add: mcapi_pktchan_release_def mcapi_trans_pktchan_free_def with_lock_ready frame_simps)
      have g: "buffers ?st3 = (buffers st2)(i := zero_buffer)" "request_lists ?st3 (r # free) full"
        using l2 by (simp_all add: upd_buffer_def request_lists_def)
      show ?thesis
        by (intro exI [of _ st1] exI [of _ st2] exI [of _ ?st3] exI [of _ i] conjI)
          (use s1 s2 m2 k z b2 d f g in simp_all)
    qed
  qed
qed

theorem packet_lifecycle_witness:
  "\<exists>st1 st2 i. mcapi_pktchan_send 0 (UserBuf 1) 3 [] (node_sys 0 (channel_pair MCAPI_PKT_CHAN)) = Some (MCAPI_SUCCESS, node_sys 0 st1) \<and>
     mcapi_pktchan_recv 0x100 (Some 5) 0 [] (node_sys 1 st1) = Some ((3, MCAPI_SUCCESS), node_sys 1 st2) \<and>
     user_ptrs st2 5 = McapiBuf i \<and> bytes_of (buff (buffers st2 i)) 3 = bytes_of (user_bytes (channel_pair MCAPI_PKT_CHAN) 1) 3"
proof -
  let ?st = "channel_pair MCAPI_PKT_CHAN"
  note f = channel_pair_facts [of MCAPI_PKT_CHAN]
  have h: "mcapi_trans_decode_handle 0 = Some (0, 0, 0)" "mcapi_trans_decode_handle 0x100 = Some (0, 1, 0)" by code_simp+
  then obtain st where c: "mcapi_trans_connect_channel_have_lock 0 0x100 MCAPI_PKT_CHAN two_nodes = Some st"
    by (simp add: mcapi_trans_connect_channel_have_lock_def)
  then have "rings_keep two_nodes ?st" using connect_keeps by (simp add: channel_pair_def)
  then have l: "request_lists ?st (0 # [1..<MCAPI_MAX_REQUESTS]) []" and m: "marked ?st"
    using two_nodes_requests by (simp_all add: rings_keep_def request_lists_def marked_def two_nodes_sel)
  have o: "0 < ep_room 0 1 0 ?st" "(3::nat) \<le> MCAPI_MAX_PKT_SIZE" using f by (simp_all add: MCAPI_MAX_PKT_SIZE_def)
  from packet_lifecycle [OF node_sys_ready(1) [of 0 two_nodes] node_sys_ready(1) [of 1 two_nodes] f(2) m l f(1,3) o,
      where a = 1 and env = "[]" and c = 5 and k = 0 and env' = "[]"]
  show ?thesis unfolding node_sys_ready by blast
qed

section \<open>Connecting and opening\<close>

text \<open>Two different endpoints in use and not connected, named by the handles.\<close>

definition connectable :: "u32 \<Rightarrow> u32 \<Rightarrow> nat \<times> nat \<times> nat \<Rightarrow> nat \<times> nat \<times> nat \<Rightarrow> mcapi_state \<Rightarrow> bool" where
  "connectable se re s p st \<longleftrightarrow> mcapi_trans_decode_handle se = Some s \<and> mcapi_trans_decode_handle re = Some p \<and> s \<noteq> p \<and>
     (case (s, p) of ((sd, sn, sp), (d, n, e)) \<Rightarrow> ep_valid (endpoint_at st sd sn sp) \<and> ep_valid (endpoint_at st d n e) \<and>
        \<not> connected (endpoint_at st sd sn sp) \<and> \<not> connected (endpoint_at st d n e))"

lemma connect_checks_spec:
  assumes "ready sys" and "mcapi_trans_decode_handle se = Some (sd, sn, sp)" "mcapi_trans_decode_handle re = Some (d, n, e)"
    and "ep_valid (endpoint_at (shm sys) sd sn sp)" "ep_valid (endpoint_at (shm sys) d n e)"
  shows "first_error (connect_checks se re) sys =
     Some (if connected (endpoint_at (shm sys) sd sn sp) \<or> connected (endpoint_at (shm sys) d n e)
           then MCAPI_ERR_CHAN_CONNECTED else MCAPI_SUCCESS, sys)"
  using assms by (simp add: connect_checks_def not_check_def or_check_def const_check_def mcapi_trans_valid_endpoints_def
    mcapi_trans_channel_connected_def with_lock_ready reading_def on_endpoint_def mcapi_trans_compatible_endpoint_attributes_def)

lemma connect_effect:
  assumes "connectable se re (sd, sn, sp) (d, n, e) st" and "ep_pending st d n e = []"
  obtains st' where "mcapi_trans_connect_channel_have_lock se re ct st = Some st'" and "channel_link ct se re (d, n, e) st'"
    and "connected (endpoint_at st' sd sn sp)" "connected (endpoint_at st' d n e)"
    and "ep_valid (endpoint_at st' sd sn sp)" "ep_valid (endpoint_at st' d n e)"
    and "ep_messages st' = ep_messages st" and "request_reserves_header st' = request_reserves_header st"
proof -
  have c: "mcapi_trans_decode_handle se = Some (sd, sn, sp)" "mcapi_trans_decode_handle re = Some (d, n, e)" "(sd, sn, sp) \<noteq> (d, n, e)"
    "ep_valid (endpoint_at st sd sn sp)" "ep_valid (endpoint_at st d n e)" using assms(1) by (simp_all add: connectable_def)
  then obtain st' where s: "mcapi_trans_connect_channel_have_lock se re ct st = Some st'"
    by (simp add: mcapi_trans_connect_channel_have_lock_def)
  have k: "rings_keep st st'" by (rule connect_keeps [OF s])
  then have a: "abs_queue (queue_at st' d' n' e') = abs_queue (queue_at st d' n' e')" for d' n' e'
    by (intro same_ring_views) (simp add: rings_keep_def)
  have m: "ep_messages st' = ep_messages st" "ep_pending st' = ep_pending st"
    using k by (simp_all add: fun_eq_iff ep_messages_def ep_pending_def a payload_of_def rings_keep_def)
  have x: "connected (endpoint_at st' sd sn sp)" "connected (endpoint_at st' d n e)" "ep_valid (endpoint_at st' sd sn sp)"
    "ep_valid (endpoint_at st' d n e)" "chan_type (queue_at st' sd sn sp) = ct" "chan_type (queue_at st' d n e) = ct"
    "recv_endpt (queue_at st' sd sn sp) = re"
    using s c by (auto simp: mcapi_trans_connect_channel_have_lock_def upd_queue_def set_queue_def frame_simps)
  have "channel_link ct se re (d, n, e) st'" using x c m assms(2) by (simp add: channel_link_def)
  then show thesis using k by (intro that [OF s _ x(1-4) m(1)]) (simp_all add: rings_keep_def)
qed

text \<open>
  Connecting two endpoints in use that are not connected completes at once and links them:
  what is sent at the one is received at the other, and messages already queued stay. Connecting
  an endpoint that is connected already is refused, whatever the other end is, and changes no
  endpoint.
\<close>

theorem connect_links_once:
  assumes ready: "ready sys" and l: "request_lists (shm sys) (r # r' # free) full"
    and c: "connectable se re (sd, sn, sp) (d, n, e) (shm sys)" and pe: "ep_pending (shm sys) d n e = []"
  shows "\<exists>st1 st2. mcapi_pktchan_connect_i se re sys = Some ((Some (encode_request r), MCAPI_SUCCESS), sys\<lparr>shm := st1\<rparr>) \<and>
     completed (requests st1 r) \<and> rstatus (requests st1 r) = MCAPI_SUCCESS \<and>
     channel_link MCAPI_PKT_CHAN se re (d, n, e) st1 \<and> ep_messages st1 = ep_messages (shm sys) \<and>
     mcapi_sclchan_connect_i se re True (sys\<lparr>shm := st1\<rparr>) =
       Some ((Some (encode_request r'), MCAPI_ERR_CHAN_CONNECTED), sys\<lparr>shm := st2\<rparr>) \<and> domains st2 = domains st1"
proof (rule reserve_request_some [OF l])
  fix sa assume ra: "mcapi_trans_reserve_request_have_lock (shm sys) = (Some r, sa)" "request_lists sa (r' # free) (r # full)"
    and f: "domains sa = domains (shm sys)" "buffers sa = buffers (shm sys)"
  note v = same_db_views [OF f]
  have ca: "connectable se re (sd, sn, sp) (d, n, e) sa" "ep_pending sa d n e = []" using c pe v by (simp_all add: connectable_def)
  show ?thesis
  proof (rule connect_effect [OF ca, of MCAPI_PKT_CHAN])
    fix sb assume s: "mcapi_trans_connect_channel_have_lock se re MCAPI_PKT_CHAN sa = Some sb" and ln: "channel_link MCAPI_PKT_CHAN se re (d, n, e) sb"
      and cn: "connected (endpoint_at sb sd sn sp)" and vl: "ep_valid (endpoint_at sb sd sn sp)" "ep_valid (endpoint_at sb d n e)"
      and m: "ep_messages sb = ep_messages sa" and h: "request_reserves_header sb = request_reserves_header sa"
    let ?f = "\<lambda>st rd. rd\<lparr>rstatus := st, rsize := 0, cancelled := False, completed := True, rtype := CONN_PKTCHAN, rhandle := re\<rparr>"
    let ?sta = "upd_request r (?f MCAPI_SUCCESS) sb"
    have u: "domains ?sta = domains sb" "buffers ?sta = buffers sb" by (simp_all add: frame_simps)
    note w = same_db_views [OF u]
    have dh: "mcapi_trans_decode_handle se = Some (sd, sn, sp)" "mcapi_trans_decode_handle re = Some (d, n, e)" using c by (simp_all add: connectable_def)
    have e1: "mcapi_pktchan_connect_i se re sys = Some ((Some (encode_request r), MCAPI_SUCCESS), sys\<lparr>shm := ?sta\<rparr>)"
      using connect_checks_spec [OF ready dh] c
      by (simp add: mcapi_pktchan_connect_i_def mcapi_trans_pktchan_connect_i_def connect_i_def with_lock_ready [OF ready] with_request_def
        ra(1) s setup_done connectable_def)
    have r2: "request_lists ?sta (r' # free) (r # full)" using ra(2) h by (simp add: request_lists_def upd_request_def)
    have ready2: "ready (sys\<lparr>shm := ?sta\<rparr>)" using ready by simp
    show ?thesis
    proof (rule reserve_request_some [OF r2])
      fix sc assume rc: "mcapi_trans_reserve_request_have_lock ?sta = (Some r', sc)" and fc: "domains sc = domains ?sta"
      have e2: "mcapi_sclchan_connect_i se re True (sys\<lparr>shm := ?sta\<rparr>) = Some ((Some (encode_request r'), MCAPI_ERR_CHAN_CONNECTED),
          sys\<lparr>shm := upd_request r' (\<lambda>rd. rd\<lparr>rstatus := MCAPI_ERR_CHAN_CONNECTED, rsize := 0, cancelled := False, completed := True,
            rtype := CONN_SCLCHAN, rhandle := re\<rparr>) sc\<rparr>)"
        using connect_checks_spec [OF ready2 dh] cn vl w
        by (simp add: mcapi_sclchan_connect_i_def mcapi_trans_sclchan_connect_i_def connect_i_def with_lock_ready [OF ready2] with_request_def
          rc setup_done)
      show ?thesis
        by (intro exI conjI, rule e1, simp add: upd_request_def, simp add: upd_request_def,
          simp add: channel_link_cong [OF u(1)] ln, simp add: w m v, rule e2, simp add: upd_request_def fc)
    qed
  qed
qed

lemma two_nodes_connectable: "connectable 0 0x100 (0, 0, 0) (0, 1, 0) two_nodes"
proof -
  have h: "mcapi_trans_decode_handle 0 = Some (0, 0, 0)" "mcapi_trans_decode_handle 0x100 = Some (0, 1, 0)" by code_simp+
  have "\<not> connected (endpoint_at (add_node 0 1 0 1 2 2 None (add_node 0 0 0 0 1 1 None (created zero_state))) 0 n 0)" if "n < 2" for n
    using that by (auto simp: add_node_def upd_node_def init_node_entry_def endpoint_at_def node_at_def Let_def less_Suc_eq numeral_2_eq_2 mcapi_limits)
  then have "\<not> connected (endpoint_at two_nodes 0 0 0)" "\<not> connected (endpoint_at two_nodes 0 1 0)"
    by (simp_all add: two_nodes_def frame_simps)
  then show ?thesis using two_nodes_endpoints h by (simp add: connectable_def message_endpoint_def)
qed

theorem connect_links_once_witness:
  "\<exists>st1 st2. mcapi_pktchan_connect_i 0 0x100 (node_sys 0 two_nodes) = Some ((Some (encode_request 0), MCAPI_SUCCESS), node_sys 0 st1) \<and>
     channel_link MCAPI_PKT_CHAN 0 0x100 (0, 1, 0) st1 \<and>
     mcapi_sclchan_connect_i 0 0x100 True (node_sys 0 st1) = Some ((Some (encode_request 1), MCAPI_ERR_CHAN_CONNECTED), node_sys 0 st2)"
proof -
  have p: "ep_pending two_nodes 0 1 0 = []" by (rule two_nodes_views(2)) (simp add: path_ok_iff mcapi_limits)
  from connect_links_once [OF node_sys_ready(1) [of 0 two_nodes], unfolded node_sys_ready, OF two_nodes_requests2 two_nodes_connectable p]
  show ?thesis by blast
qed

text \<open>
  An endpoint can be opened before it is connected. The call gives the handle of the channel
  and a request that tests as not complete, any number of times and without changing anything;
  once the endpoint is connected, the next test completes with success. The endpoint counts as
  open from the call on.
\<close>

theorem open_waits_for_connect:
  assumes ready: "ready sys" and l: "request_lists (shm sys) (r # free) full"
    and dh: "mcapi_trans_decode_handle re = Some (d, n, e)" "mcapi_trans_encode_handle d n e = Some re"
    and v: "domain_valid (domains (shm sys) d)" "node_valid (node_at (shm sys) d n)" "ep_valid (endpoint_at (shm sys) d n e)"
    and nc: "\<not> connected (endpoint_at (shm sys) d n e)" "chan_type (queue_at (shm sys) d n e) = MCAPI_NO_CHAN"
  shows "\<exists>st1. mcapi_pktchan_recv_open_i re True sys = Some ((Some re, Some (encode_request r), MCAPI_SUCCESS), sys\<lparr>shm := st1\<rparr>) \<and>
     ep_open (endpoint_at st1 d n e) \<and>
     mcapi_test (encode_request r) True k (sys\<lparr>shm := st1\<rparr>) =
       Some ((False, encode_request r, k, MCAPI_SUCCESS), sys\<lparr>shm := st1\<rparr>) \<and>
     (\<forall>st2 free' ys zs. requests st2 r = requests st1 r \<and> request_lists st2 free' (ys @ r # zs) \<and> connected (endpoint_at st2 d n e) \<longrightarrow>
        (\<exists>st3. mcapi_test (encode_request r) True k (sys\<lparr>shm := st2\<rparr>) = Some ((True, 0, 0, MCAPI_SUCCESS), sys\<lparr>shm := st3\<rparr>)))"
proof (rule reserve_request_some [OF l])
  fix sa assume ra: "mcapi_trans_reserve_request_have_lock (shm sys) = (Some r, sa)" "request_lists sa free (r # full)"
      "requests sa = (requests (shm sys))(r := (requests (shm sys) r)\<lparr>rvalid := True\<rparr>)"
    and f: "domains sa = domains (shm sys)"
  let ?so = "mcapi_trans_open_channel_have_lock d n e sa"
  let ?f = "\<lambda>rd. rd\<lparr>rstatus := MCAPI_SUCCESS, rsize := 0, cancelled := False, completed := False, rtype := OPEN_PKTCHAN, rhandle := re\<rparr>"
  let ?sb = "upd_request r ?f ?so"
  have q: "endpoint_at sa = endpoint_at (shm sys)" "queue_at sa = queue_at (shm sys)" "node_at sa = node_at (shm sys)"
    using f by (simp_all add: fun_eq_iff queue_at_def endpoint_at_def node_at_def)
  have su: "setup_request_have_lock re 0 MCAPI_SUCCESS False 0 NoBuf OPEN_PKTCHAN 0 0 0 r ?so = Some (encode_request r, ?sb)"
    by (simp add: setup_request_have_lock_def upd_request_def Let_def)
  have ch: "first_error (open_checks re MCAPI_SCL_CHAN (mcapi_trans_recv_endpoint re)) sys = Some (MCAPI_SUCCESS, sys)"
    using v nc dh by (simp add: open_checks_def not_check_def mcapi_trans_valid_endpoint_def channel_type_is_def mcapi_trans_channel_type_def
      mcapi_trans_recv_endpoint_def with_lock_ready [OF ready] reading_def on_endpoint_def queue_at_def)
  have ct: "chan_type (queue_at ?so d n e) = MCAPI_NO_CHAN" using nc(2) q by (simp add: mcapi_trans_open_channel_have_lock_def frame_simps queue_at_def [symmetric])
  have e1: "mcapi_pktchan_recv_open_i re True sys = Some ((Some re, Some (encode_request r), MCAPI_SUCCESS), sys\<lparr>shm := ?sb\<rparr>)"
    using ch dh ct by (simp add: mcapi_pktchan_recv_open_i_def mcapi_trans_pktchan_recv_open_i_def open_i_def with_lock_ready [OF ready] ra(1) su Let_def)
  have op: "ep_open (endpoint_at ?sb d n e)" "\<not> connected (endpoint_at ?sb d n e)"
    using nc(1) q by (simp_all add: mcapi_trans_open_channel_have_lock_def frame_simps)
  have r: "r < MCAPI_MAX_REQUESTS" using ra(2) by (simp add: request_lists_def lists_ok_def)
  have rq: "requests ?sb r = ?f ((requests (shm sys) r)\<lparr>rvalid := True\<rparr>)"
    using ra(3) by (simp add: frame_simps mcapi_trans_open_channel_have_lock_def)
  have e2: "mcapi_test (encode_request r) True k (sys\<lparr>shm := ?sb\<rparr>) = Some ((False, encode_request r, k, MCAPI_SUCCESS), sys\<lparr>shm := ?sb\<rparr>)"
    using ready r rq op dh(1) by (simp add: mcapi_test_def mcapi_trans_valid_request_handle_def mcapi_trans_test_i_def with_lock_unchecked_ready
      test_have_lock_def try_complete_def check_open_channel_request_have_lock_def)
  have e3: "\<exists>st3. mcapi_test (encode_request r) True k (sys\<lparr>shm := st2\<rparr>) = Some ((True, 0, 0, MCAPI_SUCCESS), sys\<lparr>shm := st3\<rparr>)"
    if "requests st2 r = requests ?sb r" "request_lists st2 free' (ys @ r # zs)" "connected (endpoint_at st2 d n e)" for st2 free' ys zs
  proof -
    let ?s2 = "sys\<lparr>shm := st2\<rparr>" and ?sc = "upd_request r (\<lambda>rd. rd\<lparr>completed := True\<rparr>) st2"
    have o: "ready ?s2" "rvalid (requests (shm ?s2) r)" "\<not> cancelled (requests (shm ?s2) r)"
      "(if completed (requests (shm ?s2) r) then Some (shm ?s2) else try_complete (encode_request r) r (shm ?s2)) = Some ?sc"
      "completed (requests ?sc r)" "request_lists ?sc free' (ys @ r # zs)"
      using ready rq that dh(1) r by (simp_all add: try_complete_def check_open_channel_request_have_lock_def request_lists_def upd_request_def)
    show ?thesis
      by (rule test_finishes [OF o(1-3) r o(4-6), of k MCAPI_SUCCESS])
        (use rq that(1) r in \<open>auto simp: mcapi_test_def mcapi_trans_valid_request_handle_def upd_request_def\<close>)
  qed
  have e4: "\<forall>st2 free' ys zs. requests st2 r = requests ?sb r \<and> request_lists st2 free' (ys @ r # zs) \<and> connected (endpoint_at st2 d n e) \<longrightarrow>
        (\<exists>st3. mcapi_test (encode_request r) True k (sys\<lparr>shm := st2\<rparr>) = Some ((True, 0, 0, MCAPI_SUCCESS), sys\<lparr>shm := st3\<rparr>))"
    using e3 by blast
  show ?thesis using e1 op(1) e2 e4 by (intro exI [of _ ?sb] conjI)
qed

theorem open_waits_for_connect_witness:
  "\<exists>st1. mcapi_pktchan_recv_open_i 0x100 True (node_sys 1 two_nodes) =
       Some ((Some 0x100, Some (encode_request 0), MCAPI_SUCCESS), node_sys 1 st1) \<and>
     ep_open (endpoint_at st1 0 1 0) \<and>
     mcapi_test (encode_request 0) True 5 (node_sys 1 st1) = Some ((False, encode_request 0, 5, MCAPI_SUCCESS), node_sys 1 st1)"
proof -
  have h: "mcapi_trans_decode_handle 0x100 = Some (0, 1, 0)" "mcapi_trans_encode_handle 0 1 0 = Some 0x100" by code_simp+
  have v: "domain_valid (domains two_nodes 0)" "node_valid (node_at two_nodes 0 1)" "ep_valid (endpoint_at two_nodes 0 1 0)"
    "chan_type (queue_at two_nodes 0 1 0) = MCAPI_NO_CHAN"
    using two_nodes_endpoints(2) by (simp_all add: message_endpoint_def)
  have c: "\<not> connected (endpoint_at two_nodes 0 1 0)" using two_nodes_connectable by (simp add: connectable_def)
  from open_waits_for_connect [OF node_sys_ready(1) [of 1 two_nodes], unfolded node_sys_ready, OF two_nodes_requests h v(1-3) c v(4), of 5]
  show ?thesis by blast
qed

end
