(* ===== verification/MCAPI_Nodes.thy ===== *)
theory MCAPI_Nodes
  imports MCAPI_Streams
begin

text \<open>
  Nodes and endpoints: identities of nodes are unique in every reachable state, a node that
  starts gets the identity it asks for, a node that stops frees it; endpoints are created, found
  by their address and deleted.
\<close>

section \<open>Identities\<close>

text \<open>
  A valid domain is the first entry with its number, and the valid nodes of a domain have
  different numbers.
\<close>

definition unique_nodes :: "mcapi_state \<Rightarrow> bool" where
  "unique_nodes st \<longleftrightarrow> (\<forall>d<MCA_MAX_DOMAINS. domain_valid (domains st d) \<longrightarrow> (\<forall>d'<d. domain_id (domains st d') \<noteq> domain_id (domains st d))) \<and>
     (\<forall>d<MCA_MAX_DOMAINS. \<forall>n<MCA_MAX_NODES. \<forall>n'<MCA_MAX_NODES. node_valid (node_at st d n) \<and> node_valid (node_at st d n') \<and>
        node_num (node_at st d n) = node_num (node_at st d n') \<longrightarrow> n = n')"

text \<open>It depends on four fields only.\<close>

lemma unique_nodes_cong:
  assumes "\<And>d. domain_valid (domains st' d) = domain_valid (domains st d)" "\<And>d. domain_id (domains st' d) = domain_id (domains st d)"
    and "\<And>d n. node_valid (node_at st' d n) = node_valid (node_at st d n)" "\<And>d n. node_num (node_at st' d n) = node_num (node_at st d n)"
  shows "unique_nodes st' = unique_nodes st"
  using assms by (simp add: unique_nodes_def)

lemma retire_process_ids:
  fixes st sys defines "st' \<equiv> snd (retire_process sys st)"
  shows "domain_valid (domains st' d) = domain_valid (domains st d)" "domain_id (domains st' d) = domain_id (domains st d)"
    "node_num (node_at st' d n) = node_num (node_at st d n)" "node_valid (node_at st' d n) \<Longrightarrow> node_valid (node_at st d n)"
  by (auto simp: st'_def retire_process_def Let_def upd_node_def node_at_def split: if_splits)

lemma unique_nodes_fewer:
  assumes "unique_nodes st" "\<And>d. domain_valid (domains st' d) = domain_valid (domains st d)" "\<And>d. domain_id (domains st' d) = domain_id (domains st d)"
    and "\<And>d n. node_valid (node_at st' d n) \<Longrightarrow> node_valid (node_at st d n)" "\<And>d n. node_num (node_at st' d n) = node_num (node_at st d n)"
  shows "unique_nodes st'"
  using assms unfolding unique_nodes_def by metis

lemma add_node_ids:
  "domain_valid (domains (add_node d n domid node p t attrs st) d') \<longleftrightarrow> d' = d \<or> domain_valid (domains st d')"
  "domain_id (domains (add_node d n domid node p t attrs st) d') = (if d' = d then domid else domain_id (domains st d'))"
  "node_valid (node_at (add_node d n domid node p t attrs st) d' n') \<longleftrightarrow> d' = d \<and> n' = n \<or> node_valid (node_at st d' n')"
  "node_num (node_at (add_node d n domid node p t attrs st) d' n') = (if d' = d \<and> n' = n then node else node_num (node_at st d' n'))"
  by (simp_all add: add_node_def init_node_entry_def upd_node_def node_at_def Let_def)

text \<open>What the search for an entry finds.\<close>

lemma find_domain_spec:
  assumes "find_domain domid st = d" and "d < MCA_MAX_DOMAINS" and "d' < MCA_MAX_DOMAINS"
  shows "domain_id (domains st d) = domid \<and> (d' < d \<longrightarrow> domain_id (domains st d') \<noteq> domid) \<or> domain_id (domains st d') \<noteq> domid"
proof -
  let ?f = "for_first (\<lambda>d. domain_id (domains st d) = domid) 0 MCA_MAX_DOMAINS"
  show ?thesis
  proof (cases "?f = MCA_MAX_DOMAINS")
    case True
    with assms(3) show ?thesis by (simp add: for_first_none)
  next
    case False
    then have "d = ?f" using assms(1) by (simp add: find_domain_def Let_def)
    with for_first_hit [of "\<lambda>d. domain_id (domains st d) = domid" 0 MCA_MAX_DOMAINS] assms(2)
      for_first_before [of 0 d' "\<lambda>d. domain_id (domains st d) = domid" MCA_MAX_DOMAINS] show ?thesis by auto
  qed
qed

lemma find_node_entry_spec:
  assumes "find_node_entry domid node st = Some (d, n)"
  shows "find_domain domid st = d" "d < MCA_MAX_DOMAINS" "n < MCA_MAX_NODES" "\<not> node_valid (node_at st d n)"
    "n' < MCA_MAX_NODES \<Longrightarrow> node_valid (node_at st d n') \<Longrightarrow> node_num (node_at st d n') \<noteq> node"
proof -
  let ?d = "find_domain domid st" and ?p = "\<lambda>n. \<not> node_valid (node_at st (find_domain domid st) n)"
  have le: "?d \<le> MCA_MAX_DOMAINS" by (auto simp: find_domain_def Let_def intro: for_first_le)
  have a: "?d \<noteq> MCA_MAX_DOMAINS" "\<not> for_first (\<lambda>n. node_valid (node_at st ?d n) \<and> node_num (node_at st ?d n) = node) 0 MCA_MAX_NODES < MCA_MAX_NODES"
    "for_first ?p 0 MCA_MAX_NODES \<noteq> MCA_MAX_NODES" "d = ?d" "n = for_first ?p 0 MCA_MAX_NODES"
    using assms by (auto simp: find_node_entry_def Let_def split: if_splits)
  show "find_domain domid st = d" using a by simp
  show "d < MCA_MAX_DOMAINS" using a le by simp
  show n: "n < MCA_MAX_NODES" using a for_first_le [of 0 MCA_MAX_NODES ?p] by simp
  show "\<not> node_valid (node_at st d n)" using for_first_hit [of ?p 0 MCA_MAX_NODES] n a by simp
  show "n' < MCA_MAX_NODES \<Longrightarrow> node_valid (node_at st d n') \<Longrightarrow> node_num (node_at st d n') \<noteq> node"
    using a(2,4) by (auto simp: for_first_some)
qed

lemma add_node_unique:
  assumes "unique_nodes st" and f: "find_node_entry domid node st = Some (d, n)"
  shows "unique_nodes (add_node d n domid node p t attrs st)"
proof -
  note s = find_node_entry_spec [OF f]
  have u: "domain_valid (domains st x) \<Longrightarrow> x < MCA_MAX_DOMAINS \<Longrightarrow> y < x \<Longrightarrow> domain_id (domains st y) \<noteq> domain_id (domains st x)"
    "x < MCA_MAX_DOMAINS \<Longrightarrow> i < MCA_MAX_NODES \<Longrightarrow> j < MCA_MAX_NODES \<Longrightarrow> node_valid (node_at st x i) \<Longrightarrow> node_valid (node_at st x j) \<Longrightarrow>
      node_num (node_at st x i) = node_num (node_at st x j) \<Longrightarrow> i = j" for x y i j
    using assms(1) unfolding unique_nodes_def by blast+
  have w: "domain_id (domains st d) = domid \<and> (d' < d \<longrightarrow> domain_id (domains st d') \<noteq> domid) \<or> domain_id (domains st d') \<noteq> domid"
    if "d' < MCA_MAX_DOMAINS" for d' using find_domain_spec [OF s(1,2) that] .
  show ?thesis
    unfolding unique_nodes_def add_node_ids
  proof (intro conjI allI impI)
    fix x y assume x: "x < MCA_MAX_DOMAINS" "x = d \<or> domain_valid (domains st x)" "y < x"
    then show "(if y = d then domid else domain_id (domains st y)) \<noteq> (if x = d then domid else domain_id (domains st x))"
      using u(1) [of x y] w [of y] w [of x] by (auto split: if_splits)
  next
    fix x i j assume "x < MCA_MAX_DOMAINS" "i < MCA_MAX_NODES" "j < MCA_MAX_NODES"
      "(x = d \<and> i = n \<or> node_valid (node_at st x i)) \<and> (x = d \<and> j = n \<or> node_valid (node_at st x j)) \<and>
       (if x = d \<and> i = n then node else node_num (node_at st x i)) = (if x = d \<and> j = n then node else node_num (node_at st x j))"
    then show "i = j" using u(2) [of x i j] s(4) s(5) by (auto split: if_splits)
  qed
qed

interpretation ids: run_contract unique_nodes
proof unfold_locales
  show "unique_nodes (upd_node d n (\<lambda>nd. nd\<lparr>node_d := g (node_d nd)\<rparr>) st) = unique_nodes st" for d n g st
    by (rule unique_nodes_cong) (simp_all add: upd_node_sel)
  show "unique_nodes (upd_buffer i c st)" if "unique_nodes st" for i c st
    using that by (simp add: unique_nodes_cong [of "upd_buffer i c st" st] frame_simps)
  show "unique_nodes (created st)" for st
    by (simp add: unique_nodes_def created_def mcapi_trans_init_indexed_array_have_lock_def clear_valid_def node_at_def Let_def)
  show "unique_nodes st \<Longrightarrow> unique_nodes (upd_node d n (\<lambda>nd. nd\<lparr>node_valid := False\<rparr>) st)" for d n st
    by (erule unique_nodes_fewer) (auto simp: upd_node_sel split: if_splits)
  show "unique_nodes st \<Longrightarrow> unique_nodes (snd (retire_process sys st))" for sys st
    by (erule unique_nodes_fewer) (auto simp: retire_process_ids(1-3) dest: retire_process_ids(4))
qed (rule unique_nodes_cong add_node_unique; simp add: frame_simps node_at_def)+

section \<open>Starting a node\<close>

text \<open>
  The caller has no identity yet, no other thread of the process starts or stops a node, the lock
  is free, and the resource layer answers: the lock exists or is created, and the shared memory is
  found, or else created.
\<close>

definition starting :: "mrapi_calls \<Rightarrow> mcapi_sys \<Rightarrow> bool" where
  "starting m sys \<longleftrightarrow> initialize_ctr sys = 0 \<and> finalize_ctr sys = 0 \<and> locked sys = 0 \<and>
     \<not> (rwl_ok sys \<and> mcapi_trans_whoami sys \<noteq> None) \<and> transport_sm_initialize m \<and>
     (transport_sm_get_shared_mem m \<or> transport_sm_create_shared_mem m)"

text \<open>The database the node finds: the shared one, or a new one over unknown memory.\<close>

definition found_database :: "mrapi_calls \<Rightarrow> mcapi_state \<Rightarrow> mcapi_state \<Rightarrow> mcapi_state" where
  "found_database m fresh st = (if transport_sm_get_shared_mem m then st
     else mcapi_trans_init_indexed_array_have_lock (clear_valid (new_database fresh st)))"

definition identified :: "int \<Rightarrow> int \<Rightarrow> u32 \<Rightarrow> u32 \<Rightarrow> nat \<Rightarrow> nat \<Rightarrow> mcapi_sys \<Rightarrow> mcapi_sys" where
  "identified p t domid node d n sys = sys\<lparr>my_pid := p, my_tid := t, my_nindex := n, my_node_num := node, my_domain_id := domid, my_dindex := d\<rparr>"

lemma initialize_outcome:
  assumes "starting m sys"
  shows "mcapi_initialize m fresh p t domid node attrs sys =
    (let st = found_database m fresh (shm sys); sys1 = sys\<lparr>rwl_ok := True, db_attached := True\<rparr> in
     case find_node_entry domid node st of
       None \<Rightarrow> Some (MCAPI_ERR_NODE_INITFAILED, sys1\<lparr>shm := st\<rparr>)
     | Some (d, n) \<Rightarrow> Some (MCAPI_SUCCESS, identified p t domid node d n (sys1\<lparr>shm := add_node d n domid node p t attrs st\<rparr>)))"
proof -
  have i: "mcapi_trans_initialized sys = Some (False, sys)"
    using assms by (auto simp: starting_def mcapi_trans_initialized_def mcapi_trans_access_database_pre_def mcapi_trans_access_database_post_def
      mcapi_trans_whoami_def Let_def)
  show ?thesis
    using assms by (auto simp: mcapi_initialize_def i mcapi_trans_valid_node_def mcapi_trans_initialize_def starting_def
      mcapi_trans_access_database_pre_def mcapi_trans_access_database_post_def attach_database_def found_database_def identified_def Let_def
      split: option.splits prod.splits)
qed

lemma identity_of:
  "p \<noteq> -1 \<Longrightarrow> db_attached sys \<Longrightarrow> mcapi_trans_whoami (identified p t domid node d n sys) = Some (node, n, domid, d)"
  by (simp add: mcapi_trans_whoami_def identified_def)

text \<open>An identity that is taken is not given out again.\<close>

lemma taken_identity:
  assumes "find_node_entry domid node st = Some (d, n)"
  shows "find_node_entry domid node (add_node d n domid node p t attrs st) = None"
proof -
  note s = find_node_entry_spec [OF assms]
  let ?st = "add_node d n domid node p t attrs st"
  have b: "\<forall>x<d. domain_id (domains st x) \<noteq> domid" using find_domain_spec [OF s(1,2)] s(2) by (metis order.strict_trans)
  have "for_first (\<lambda>x. domain_id (domains ?st x) = domid) 0 MCA_MAX_DOMAINS = d"
    using b s(2) by (intro for_first_eqI) (auto simp: add_node_ids split: if_splits)
  then have d: "find_domain domid ?st = d" using s(2) by (simp add: find_domain_def Let_def)
  have "for_first (\<lambda>x. node_valid (node_at ?st d x) \<and> node_num (node_at ?st d x) = node) 0 MCA_MAX_NODES < MCA_MAX_NODES"
    using s(3) by (auto simp: for_first_some add_node_ids)
  with d s(2) show ?thesis by (simp add: find_node_entry_def Let_def)
qed

text \<open>
  A node that starts and for whose identity the database has an entry gets exactly this
  identity: the call succeeds, the node and domain numbers the caller reads afterwards are the
  ones it asked for, the entry has no endpoints, and no other node is touched. A second node that asks
  for the same identity while the first is there is refused and changes nothing in the database.
\<close>

theorem node_start_identity:
  assumes "starting m sys" and "p \<noteq> -1" and "find_node_entry domid node (found_database m fresh (shm sys)) = Some (d, n)"
  shows "\<exists>sys'. mcapi_initialize m fresh p t domid node attrs sys = Some (MCAPI_SUCCESS, sys') \<and> ready sys' \<and>
     mcapi_node_id_get sys' = (node, MCAPI_SUCCESS) \<and> mcapi_domain_id_get sys' = (domid, MCAPI_SUCCESS) \<and>
     node_valid (node_at (shm sys') d n) \<and> node_num (node_at (shm sys') d n) = node \<and> domain_id (domains (shm sys') d) = domid \<and>
     (\<forall>e<MCAPI_MAX_ENDPOINTS. endpoint_at (shm sys') d n e = zero_endpoint) \<and>
     (\<forall>d' n'. (d', n') \<noteq> (d, n) \<longrightarrow> node_at (shm sys') d' n' = node_at (found_database m fresh (shm sys)) d' n') \<and>
     (\<forall>m' other fresh' p' t' attrs'. starting m' other \<and> transport_sm_get_shared_mem m' \<and> shm other = shm sys' \<longrightarrow>
        (\<exists>other'. mcapi_initialize m' fresh' p' t' domid node attrs' other = Some (MCAPI_ERR_NODE_INITFAILED, other') \<and> shm other' = shm sys'))"
proof -
  let ?st = "found_database m fresh (shm sys)" and ?sys = "sys\<lparr>rwl_ok := True, db_attached := True\<rparr>"
  let ?sta = "add_node d n domid node p t attrs ?st"
  let ?s = "identified p t domid node d n (?sys\<lparr>shm := ?sta\<rparr>)"
  have r: "mcapi_initialize m fresh p t domid node attrs sys = Some (MCAPI_SUCCESS, ?s)"
    using initialize_outcome [OF assms(1)] assms(3) by (simp add: Let_def)
  have w: "mcapi_trans_whoami ?s = Some (node, n, domid, d)" "shm ?s = ?sta" "ready ?s"
    using assms(1,2) by (simp_all add: identity_of) (simp_all add: identified_def ready_def starting_def)
  have e: "\<forall>e<MCAPI_MAX_ENDPOINTS. endpoint_at ?sta d n e = zero_endpoint"
    "\<forall>d' n'. (d', n') \<noteq> (d, n) \<longrightarrow> node_at ?sta d' n' = node_at ?st d' n'"
    by (auto simp: add_node_def init_node_entry_def upd_node_def node_at_def endpoint_at_def Let_def)
  have o: "\<forall>m' other fresh' p' t' attrs'. starting m' other \<and> transport_sm_get_shared_mem m' \<and> shm other = ?sta \<longrightarrow>
      (\<exists>other'. mcapi_initialize m' fresh' p' t' domid node attrs' other = Some (MCAPI_ERR_NODE_INITFAILED, other') \<and> shm other' = ?sta)"
    using taken_identity [OF assms(3), of p t attrs] by (auto simp: initialize_outcome found_database_def Let_def)
  have g: "mcapi_node_id_get ?s = (node, MCAPI_SUCCESS)" "mcapi_domain_id_get ?s = (domid, MCAPI_SUCCESS)"
    using w(1) by (simp_all add: mcapi_node_id_get_def mcapi_domain_id_get_def mcapi_trans_get_node_num_def mcapi_trans_get_domain_num_def)
  show ?thesis by (intro exI [of _ ?s] conjI, unfold w(2)) (rule r w(3) g e o | simp add: add_node_ids)+
qed

text \<open>The resource layer of the examples answers every call with success; a process before its first call.\<close>

definition all_calls_ok :: mrapi_calls where
  "all_calls_ok = \<lparr>initialize_status = MRAPI_SUCCESS, rwl_create_status = MRAPI_SUCCESS, rwl_get_status = MRAPI_SUCCESS,
     shmem_get_status = MRAPI_SUCCESS, shmem_create_status = MRAPI_SUCCESS, shmem_attach_status = MRAPI_SUCCESS,
     shmem_detach_status = MRAPI_SUCCESS, shmem_delete_status = MRAPI_SUCCESS, rwl_lock_status = MRAPI_SUCCESS,
     rwl_delete_status = MRAPI_SUCCESS, finalize_status = MRAPI_SUCCESS, lock_remains = False\<rparr>"

definition new_process :: "mcapi_state \<Rightarrow> mcapi_sys" where
  "new_process st = \<lparr>shm = st, db_attached = False, rwl_ok = False, locked = 0, initialize_ctr = 0, finalize_ctr = 0,
     my_pid = -1, my_tid = -1, my_nindex = 0, my_dindex = 0, my_node_num = 0, my_domain_id = 0\<rparr>"

lemma all_calls_ok_sel: "transport_sm_get_shared_mem all_calls_ok" "transport_sm_initialize all_calls_ok"
  by (simp_all add: all_calls_ok_def transport_sm_get_shared_mem_def transport_sm_initialize_def transport_sm_create_rwl_def)

lemma new_process_starting: "starting all_calls_ok (new_process st)" "shm (new_process st) = st"
  by (simp_all add: starting_def new_process_def mcapi_trans_whoami_def all_calls_ok_sel)

lemma found_ok [simp]: "found_database all_calls_ok fresh st = st"
  by (simp add: found_database_def all_calls_ok_sel)

lemma created_ids: "\<not> node_valid (node_at (created st) d n)" "domain_id (domains (created st) d) = 0" "\<not> domain_valid (domains (created st) d)"
  by (simp_all add: created_def mcapi_trans_init_indexed_array_have_lock_def clear_valid_def node_at_def Let_def new_database_def zero_state_def)

lemma first_entries:
  "find_node_entry 0 0 (created st) = Some (0, 0)" (is ?A)
  "find_node_entry 0 1 (add_node 0 0 0 0 p t attrs (created st)) = Some (0, 1)" (is ?B)
proof -
  have p: "0 < MCA_MAX_DOMAINS" "1 < MCA_MAX_NODES" by (simp_all add: mcapi_limits)
  have f: "for_first (\<lambda>x. domain_id (domains (created st) x) = 0) 0 MCA_MAX_DOMAINS = 0"
    "for_first (\<lambda>x. domain_id (domains (add_node 0 0 0 0 p t attrs (created st)) x) = 0) 0 MCA_MAX_DOMAINS = 0"
    "for_first (\<lambda>n. \<not> node_valid (node_at (created st) 0 n)) 0 MCA_MAX_NODES = 0"
    "for_first (\<lambda>n. \<not> node_valid (node_at (add_node 0 0 0 0 p t attrs (created st)) 0 n)) 0 MCA_MAX_NODES = 1"
    using p by (auto intro!: for_first_eqI simp: created_ids add_node_ids)
  show ?A ?B using f p by (simp_all add: find_node_entry_def find_domain_def for_first_some created_ids add_node_ids)
qed

theorem node_start_identity_witness:
  "\<exists>sys'. mcapi_initialize all_calls_ok zero_state 7 7 0 0 None (new_process (created zero_state)) = Some (MCAPI_SUCCESS, sys') \<and>
     mcapi_node_id_get sys' = (0, MCAPI_SUCCESS) \<and>
     (\<exists>other'. mcapi_initialize all_calls_ok zero_state 8 8 0 0 None (new_process (shm sys')) = Some (MCAPI_ERR_NODE_INITFAILED, other'))"
proof -
  have f: "find_node_entry 0 0 (found_database all_calls_ok zero_state (shm (new_process (created zero_state)))) = Some (0, 0)"
    by (simp add: new_process_starting first_entries)
  obtain sys' where "mcapi_initialize all_calls_ok zero_state 7 7 0 0 None (new_process (created zero_state)) = Some (MCAPI_SUCCESS, sys')"
      "mcapi_node_id_get sys' = (0, MCAPI_SUCCESS)"
    and o: "\<forall>m' other fresh' p' t' attrs'. starting m' other \<and> transport_sm_get_shared_mem m' \<and> shm other = shm sys' \<longrightarrow>
        (\<exists>other'. mcapi_initialize m' fresh' p' t' 0 0 attrs' other = Some (MCAPI_ERR_NODE_INITFAILED, other') \<and> shm other' = shm sys')"
    using node_start_identity [OF new_process_starting(1) _ f, of 7 7 None] by auto
  moreover have "starting all_calls_ok (new_process (shm sys')) \<and> transport_sm_get_shared_mem all_calls_ok \<and> shm (new_process (shm sys')) = shm sys'"
    by (simp add: new_process_starting all_calls_ok_sel)
  ultimately show ?thesis by blast
qed

text \<open>
  C31: In every reachable state, whatever nodes have started and stopped, two different entries in
  use never stand for the same node: not two nodes of a domain with the same number, and not two
  domains with the same number.
\<close>

theorem node_identity_unique:
  assumes "reachable st" and "d < MCA_MAX_DOMAINS" "d' < MCA_MAX_DOMAINS" "n < MCA_MAX_NODES" "n' < MCA_MAX_NODES"
    and "domain_valid (domains st d)" "domain_valid (domains st d')" "domain_id (domains st d) = domain_id (domains st d')"
    and "node_valid (node_at st d n)" "node_valid (node_at st d' n')" "node_num (node_at st d n) = node_num (node_at st d' n')"
  shows "(d, n) = (d', n')"
proof -
  have u: "unique_nodes st" by (rule ids.reachable_holds [OF assms(1)])
  then have "d = d'" using assms(2,3,6-8) unfolding unique_nodes_def by (metis nat_neq_iff)
  with u assms show ?thesis unfolding unique_nodes_def by blast
qed

lemma reachable_join:
  assumes "reachable st" and "find_node_entry domid node st = Some (d, n)"
  shows "reachable (add_node d n domid node p t attrs st)"
proof -
  let ?mv = "Join all_calls_ok zero_state p t domid node attrs"
  have "run_move (map perform []) ?mv (new_process st) = Some (identified p t domid node d n
      ((new_process st)\<lparr>rwl_ok := True, db_attached := True, shm := add_node d n domid node p t attrs st\<rparr>))"
    using assms(2) initialize_outcome [OF new_process_starting(1)] by (simp add: new_process_starting(2))
  from reachable.step [OF _ _ this] assms(1) show ?thesis
    by (simp add: new_process_starting(2) all_calls_ok_sel identified_def)
qed

theorem node_identity_unique_witness:
  "\<exists>st. reachable st \<and> node_valid (node_at st 0 0) \<and> node_valid (node_at st 0 1) \<and>
     (\<forall>n<MCA_MAX_NODES. node_valid (node_at st 0 n) \<longrightarrow> node_num (node_at st 0 n) = 1 \<longrightarrow> (0, n) = (0::nat, 1))"
proof -
  let ?st = "add_node 0 1 0 1 8 8 None (add_node 0 0 0 0 7 7 None (created zero_state))"
  have r: "reachable ?st" by (intro reachable_join reachable.start first_entries)
  have p: "0 < MCA_MAX_DOMAINS" "1 < MCA_MAX_NODES" by (simp_all add: mcapi_limits)
  have f: "domain_valid (domains ?st 0)" "node_valid (node_at ?st 0 0)" "node_valid (node_at ?st 0 1)" "node_num (node_at ?st 0 1) = 1"
    by (simp_all add: add_node_ids)
  have "(0, n) = (0::nat, 1)" if "n < MCA_MAX_NODES" "node_valid (node_at ?st 0 n)" "node_num (node_at ?st 0 n) = 1" for n
    by (rule node_identity_unique [OF r p(1) p(1) that(1) p(2) f(1) f(1) refl that(2) f(3)]) (simp only: that f)
  with r f(2,3) show ?thesis by (intro exI [of _ ?st]) simp
qed

section \<open>Stopping a node\<close>

text \<open>The caller is the node of an entry in use, and no other thread starts or stops a node.\<close>

definition running :: "u32 \<Rightarrow> u32 \<Rightarrow> nat \<Rightarrow> nat \<Rightarrow> mcapi_sys \<Rightarrow> bool" where
  "running domid node d n sys \<longleftrightarrow> ready sys \<and> initialize_ctr sys = 0 \<and> finalize_ctr sys = 0 \<and>
     mcapi_trans_whoami sys = Some (node, n, domid, d) \<and> d < MCA_MAX_DOMAINS \<and> n < MCA_MAX_NODES \<and>
     domain_valid (domains (shm sys) d) \<and> domain_id (domains (shm sys) d) = domid \<and>
     node_valid (node_at (shm sys) d n) \<and> node_num (node_at (shm sys) d n) = node"

definition leave_ok :: "mrapi_calls \<Rightarrow> bool" where
  "leave_ok m \<longleftrightarrow> shmem_detach_status m = MRAPI_SUCCESS \<and> shmem_delete_status m = MRAPI_SUCCESS \<and> rwl_lock_status m = MRAPI_SUCCESS \<and>
     rwl_delete_status m = MRAPI_SUCCESS \<and> finalize_status m = MRAPI_SUCCESS"

lemma leave_succeeds:
  assumes "leave_ok m"
  obtains sys' where "transport_sm_finalize m l lp True sys = (True, sys')" "shm sys' = shm sys" "db_attached sys' = db_attached sys"
  using assms by (cases l) (auto simp: transport_sm_finalize_def leave_ok_def Let_def)

lemma find_domain_valid:
  assumes "unique_nodes st" and "d < MCA_MAX_DOMAINS" and "domain_valid (domains st d)"
  shows "find_domain (domain_id (domains st d)) st = d"
proof -
  have "for_first (\<lambda>x. domain_id (domains st x) = domain_id (domains st d)) 0 MCA_MAX_DOMAINS = d"
    using assms by (intro for_first_eqI) (auto simp: unique_nodes_def)
  with assms(2) show ?thesis by (simp add: find_domain_def Let_def)
qed

text \<open>
  A running node can stop: when the resource layer agrees the call succeeds, its entry is
  free again, no other node is touched, and the identity can be taken again. The process stays
  attached to the database exactly as long as another of its nodes is running.
\<close>

theorem node_stop_frees_identity:
  assumes "reachable (shm sys)" and "running domid node d n sys" and "leave_ok m"
  shows "\<exists>sys'. mcapi_finalize m p sys = Some (MCAPI_SUCCESS, sys') \<and> \<not> node_valid (node_at (shm sys') d n) \<and>
     (\<forall>d' n'. (d', n') \<noteq> (d, n) \<longrightarrow> node_at (shm sys') d' n' = node_at (shm sys) d' n') \<and>
     find_node_entry domid node (shm sys') \<noteq> None \<and>
     (db_attached sys' \<longleftrightarrow> any_node (\<lambda>nd. node_valid nd \<and> pid nd = p) (shm sys'))"
proof -
  let ?st = "upd_node d n (\<lambda>nd. nd\<lparr>node_valid := False\<rparr>) (shm sys)"
  note r = assms(2) [unfolded running_def]
  have u: "unique_nodes (shm sys)" by (rule ids.reachable_holds [OF assms(1)])
  then have u': "unique_nodes ?st" by (rule ids.leave)
  have n: "n' < MCA_MAX_NODES \<Longrightarrow> node_valid (node_at ?st d n') \<Longrightarrow> node_num (node_at ?st d n') \<noteq> node" for n'
    using u r by (auto simp: upd_node_sel unique_nodes_def split: if_splits)
  have e: "find_node_entry domid node ?st \<noteq> None"
  proof -
    have d: "find_domain domid ?st = d" using find_domain_valid [OF u', of d] r by (simp add: upd_node_sel)
    have "for_first (\<lambda>x. node_valid (node_at ?st d x) \<and> node_num (node_at ?st d x) = node) 0 MCA_MAX_NODES = MCA_MAX_NODES"
      "for_first (\<lambda>x. \<not> node_valid (node_at ?st d x)) 0 MCA_MAX_NODES < MCA_MAX_NODES"
      using n r by (auto simp: for_first_none for_first_some upd_node_sel)
    with d r show ?thesis by (simp add: find_node_entry_def Let_def)
  qed
  have w: "with_lock (retire_node p (sys\<lparr>finalize_ctr := 1\<rparr>)) (sys\<lparr>finalize_ctr := 1\<rparr>) =
      Some ((\<not> any_node node_valid ?st, \<not> any_node (\<lambda>nd. node_valid nd \<and> pid nd = p) ?st), sys\<lparr>finalize_ctr := 1, shm := ?st\<rparr>)"
    using r by (simp add: with_lock_ready ready_def retire_node_def mcapi_trans_whoami_def Let_def split: if_splits)
  obtain sys1 where l: "transport_sm_finalize m (\<not> any_node node_valid ?st) (\<not> any_node (\<lambda>nd. node_valid nd \<and> pid nd = p) ?st) True
      (sys\<lparr>finalize_ctr := 1, shm := ?st\<rparr>) = (True, sys1)" "shm sys1 = ?st" "db_attached sys1"
    by (rule leave_succeeds [OF assms(3), of "\<not> any_node node_valid ?st" "\<not> any_node (\<lambda>nd. node_valid nd \<and> pid nd = p) ?st"
      "sys\<lparr>finalize_ctr := 1, shm := ?st\<rparr>"]) (use r in \<open>simp add: ready_def\<close>)
  obtain sys' where f: "mcapi_finalize m p sys = Some (MCAPI_SUCCESS, sys')" "shm sys' = ?st"
      "db_attached sys' \<longleftrightarrow> any_node (\<lambda>nd. node_valid nd \<and> pid nd = p) ?st"
    using r w l by (simp add: mcapi_finalize_def mcapi_trans_finalize_def ready_def)
  show ?thesis
    by (intro exI [of _ sys'] conjI f(1), unfold f(2)) (use e f(3) in \<open>auto simp: upd_node_sel split: if_splits\<close>)
qed

theorem node_stop_frees_identity_witness:
  "\<exists>sys sys'. running 0 1 0 1 sys \<and> mcapi_finalize all_calls_ok 8 sys = Some (MCAPI_SUCCESS, sys') \<and>
     find_node_entry 0 1 (shm sys') \<noteq> None"
proof -
  let ?st = "add_node 0 1 0 1 8 8 None (add_node 0 0 0 0 7 7 None (created zero_state))"
  let ?sys = "(node_sys 1 ?st)"
  have s: "shm ?sys = ?st" "reachable ?st" "leave_ok all_calls_ok"
    by (simp_all add: node_sys_ready reachable_join reachable.start first_entries leave_ok_def all_calls_ok_def)
  have r: "running 0 1 0 1 ?sys"
    by (simp add: running_def node_sys_def ready_def mcapi_trans_whoami_def mcapi_limits add_node_ids)
  have "reachable (shm ?sys)" using s by simp
  from node_stop_frees_identity [OF this r s(3), of 8] r show ?thesis by blast
qed

text \<open>
  Stopping a node in a process that is not attached to a database reports the failure, but
  leaves the counter of running finalizations set: every later attempt of the process to stop or
  to start a node waits for ever.
\<close>

theorem finalize_unattached_blocks:
  assumes "\<not> db_attached sys" and "initialize_ctr sys = 0" "finalize_ctr sys = 0"
  shows "\<exists>sys'. mcapi_finalize m p sys = Some (MCAPI_ERR_NODE_FINALFAILED, sys') \<and> shm sys' = shm sys \<and>
     (\<forall>m' p'. mcapi_finalize m' p' sys' = None) \<and>
     (\<forall>m' fresh p' t domid node attrs. mcapi_initialize m' fresh p' t domid node attrs sys' = None)"
proof -
  let ?sys = "sys\<lparr>finalize_ctr := 1\<rparr>"
  have f: "mcapi_finalize m p sys = Some (MCAPI_ERR_NODE_FINALFAILED, ?sys)" using assms by (simp add: mcapi_finalize_def mcapi_trans_finalize_def)
  have "mcapi_initialize m' fresh p' t domid node attrs ?sys = None" for m' fresh p' t domid node attrs
  proof (cases "mcapi_trans_initialized ?sys")
    case (Some a)
    with assms obtain sys1 where "a = (False, sys1)" "initialize_ctr sys1 = 0" "finalize_ctr sys1 = 1"
      by (auto simp: mcapi_trans_initialized_def mcapi_trans_access_database_pre_def mcapi_trans_access_database_post_def
        mcapi_trans_whoami_def bind_eq_Some_conv Let_def split: if_splits)
    with Some show ?thesis by (simp add: mcapi_initialize_def mcapi_trans_initialize_def mcapi_trans_valid_node_def)
  qed (simp add: mcapi_initialize_def mcapi_trans_valid_node_def)
  with f show ?thesis by (intro exI [of _ ?sys]) (simp add: mcapi_finalize_def mcapi_trans_finalize_def)
qed

theorem finalize_unattached_blocks_witness:
  "\<exists>sys'. mcapi_finalize all_calls_ok 7 (new_process zero_state) = Some (MCAPI_ERR_NODE_FINALFAILED, sys') \<and>
     mcapi_initialize all_calls_ok zero_state 7 7 0 0 None sys' = None"
proof -
  have n: "\<not> db_attached (new_process zero_state)" "initialize_ctr (new_process zero_state) = 0" "finalize_ctr (new_process zero_state) = 0"
    by (simp_all add: new_process_def)
  from finalize_unattached_blocks [OF n, of all_calls_ok 7] show ?thesis by blast
qed

end
