(* ===== verification/MCAPI_Endpoints.thy ===== *)
theory MCAPI_Endpoints
  imports MCAPI_Nodes
begin

text \<open>
  Endpoints: creation, lookup by domain, node and port, and deletion, as one node sees them and
  as the others do.
\<close>

section \<open>Creation\<close>

definition new_endpoint :: "nat \<Rightarrow> nat \<Rightarrow> nat \<Rightarrow> u32 \<Rightarrow> mcapi_state \<Rightarrow> mcapi_state" where
  "new_endpoint d n i port st =
     upd_node d n (\<lambda>nd. nd\<lparr>node_d := (node_d nd)\<lparr>num_endpoints := num_endpoints (node_d nd) + 1\<rparr>\<rparr>)
       (upd_endpoint d n i (\<lambda>ep. ep\<lparr>ep_valid := True, port_num := port, ep_open := False, anonymous := False, num_attributes := 0\<rparr>) st)"

lemma new_endpoint_sel:
  "endpoint_at (new_endpoint d n i port st) d' n' e' = (if (d', n', e') = (d, n, i)
     then (endpoint_at st d n i)\<lparr>ep_valid := True, port_num := port, ep_open := False, anonymous := False, num_attributes := 0\<rparr>
     else endpoint_at st d' n' e')"
  "num_endpoints (node_d (node_at (new_endpoint d n i port st) d' n')) =
     num_endpoints (node_d (node_at st d' n')) + (if (d', n') = (d, n) then 1 else 0)"
  "node_valid (node_at (new_endpoint d n i port st) d' n') = node_valid (node_at st d' n')"
  "node_num (node_at (new_endpoint d n i port st) d' n') = node_num (node_at st d' n')"
  "domain_valid (domains (new_endpoint d n i port st) d') = domain_valid (domains st d')"
  "domain_id (domains (new_endpoint d n i port st) d') = domain_id (domains st d')"
  by (simp_all add: new_endpoint_def endpoint_at_def frame_simps)
    (auto simp: upd_endpoint_def endpoint_at_def frame_simps)

lemma new_endpoint_unique: "unique_nodes (new_endpoint d n i port st) = unique_nodes st"
  by (rule unique_nodes_cong) (simp_all add: new_endpoint_sel)

lemma running_shm:
  assumes "running domid node d n sys" and "\<And>d. domain_valid (domains st d) = domain_valid (domains (shm sys) d)"
    "\<And>d. domain_id (domains st d) = domain_id (domains (shm sys) d)" "\<And>d n. node_valid (node_at st d n) = node_valid (node_at (shm sys) d n)"
    "\<And>d n. node_num (node_at st d n) = node_num (node_at (shm sys) d n)"
  shows "running domid node d n (sys\<lparr>shm := st\<rparr>)"
  using assms by (simp add: running_def ready_def mcapi_trans_whoami_def split: if_splits)

text \<open>The first free endpoint of a node, and whether a port is taken there.\<close>

definition free_slot :: "nat \<Rightarrow> nat \<Rightarrow> mcapi_state \<Rightarrow> nat" where
  "free_slot d n st = for_first (\<lambda>i. \<not> ep_valid (endpoint_at st d n i)) 0 MCAPI_MAX_ENDPOINTS"

definition port_taken :: "nat \<Rightarrow> nat \<Rightarrow> u32 \<Rightarrow> mcapi_state \<Rightarrow> bool" where
  "port_taken d n port st \<longleftrightarrow> (\<exists>e<MCAPI_MAX_ENDPOINTS. ep_valid (endpoint_at st d n e) \<and> port_num (endpoint_at st d n e) = port)"

lemma endpoint_exists_spec:
  assumes "running domid node d n sys" and "port \<noteq> MCAPI_PORT_ANY"
  shows "mcapi_trans_endpoint_exists domid port sys = Some (port_taken d n port (shm sys), sys)"
  using assms by (simp add: running_def mcapi_trans_endpoint_exists_def with_lock_ready reading_def for_first_some port_taken_def)

lemma create_taken:
  assumes "running domid node d n sys" and "port \<noteq> MCAPI_PORT_ANY" and "port_taken d n port (shm sys)"
  shows "mcapi_endpoint_create port sys = Some ((None, MCAPI_ERR_ENDP_EXISTS), sys)"
  using endpoint_exists_spec [OF assms(1,2)] assms(1,3)
  by (simp add: running_def mcapi_endpoint_create_def mcapi_domain_id_get_def mcapi_trans_get_domain_num_def when_ok_def)

lemma create_new:
  assumes "running domid node d n sys" and "port \<noteq> MCAPI_PORT_ANY" and "\<not> port_taken d n port (shm sys)"
    and "unat (num_endpoints (node_d (node_at (shm sys) d n))) < MCAPI_MAX_ENDPOINTS"
    and "free_slot d n (shm sys) < MCAPI_MAX_ENDPOINTS" and "mcapi_trans_encode_handle d n (free_slot d n (shm sys)) = Some h"
  shows "mcapi_endpoint_create port sys =
     Some ((Some h, MCAPI_SUCCESS), sys\<lparr>shm := new_endpoint d n (free_slot d n (shm sys)) port (shm sys)\<rparr>)"
proof -
  have r: "ready sys" and w: "mcapi_trans_whoami sys = Some (node, n, domid, d)" using assms(1) by (simp_all add: running_def)
  show ?thesis
    using assms(3-6) w endpoint_exists_spec [OF assms(1,2)]
    by (simp add: mcapi_endpoint_create_def mcapi_domain_id_get_def mcapi_trans_get_domain_num_def mcapi_trans_num_endpoints_def
      with_lock_ready [OF r] reading_def const_check_def mcapi_trans_valid_port_def when_ok_def mcapi_trans_endpoint_create_def Let_def
      free_slot_def new_endpoint_def)
qed

section \<open>Lookup\<close>

lemma concat_map_single:
  assumes "k < m" and "\<And>j. j < m \<Longrightarrow> j \<noteq> k \<Longrightarrow> f j = []"
  shows "concat (map f [0..<m]) = f k"
proof -
  have "[0..<m] = [0..<k] @ k # [Suc k..<m]" using assms(1) by (metis less_imp_le upt_add_eq_append upt_conv_Cons le_add_diff_inverse zero_le)
  moreover have "concat (map f [0..<k]) = []" "concat (map f [Suc k..<m]) = []" using assms by auto
  ultimately show ?thesis by (simp only: map_append concat_append list.map concat.simps append_Nil append_Nil2)
qed

lemma endpoint_candidates_unique:
  assumes u: "unique_nodes st" and d: "d < MCA_MAX_DOMAINS" "n < MCA_MAX_NODES"
    and v: "domain_valid (domains st d)" "domain_id (domains st d) = domid" "node_valid (node_at st d n)" "node_num (node_at st d n) = node"
  shows "endpoint_candidates domid node st = map (\<lambda>e. (d, n, e)) [0..<unat (num_endpoints (node_d (node_at st d n)))]"
proof -
  let ?F = "\<lambda>d'. if domain_valid (domains st d') \<and> domain_id (domains st d') = domid then concat (map (\<lambda>n'. if node_valid (node_at st d' n') \<and>
      node_num (node_at st d' n') = node then map (\<lambda>e. (d', n', e)) [0..<unat (num_endpoints (node_d (node_at st d' n')))] else []) [0..<MCA_MAX_NODES]) else []"
  have e: "endpoint_candidates domid node st = concat (map ?F [0..<MCA_MAX_DOMAINS])"
    by (simp add: endpoint_candidates_def concat_map_singleton cong: if_cong)
  have "?F d' = []" if "d' < MCA_MAX_DOMAINS" "d' \<noteq> d" for d'
    using that u v d unfolding unique_nodes_def by (metis nat_neq_iff)
  then have "concat (map ?F [0..<MCA_MAX_DOMAINS]) = ?F d" by (rule concat_map_single [OF d(1)])
  also have "\<dots> = map (\<lambda>e. (d, n, e)) [0..<unat (num_endpoints (node_d (node_at st d n)))]"
    using u v d by (simp, subst concat_map_single [OF d(2)]) (auto simp: unique_nodes_def)
  finally show ?thesis using e by simp
qed

text \<open>The lookup finds the first endpoint with the port, but only below the number of endpoints.\<close>

lemma endpoint_get_spec:
  assumes u: "unique_nodes st" "d < MCA_MAX_DOMAINS" "n < MCA_MAX_NODES"
    "domain_valid (domains st d)" "domain_id (domains st d) = domid" "node_valid (node_at st d n)" "node_num (node_at st d n) = node"
    and before: "\<And>e'. e' < e \<Longrightarrow> ep_valid (endpoint_at st d n e') \<Longrightarrow> port_num (endpoint_at st d n e') \<noteq> port"
    and at: "ep_valid (endpoint_at st d n e)" "port_num (endpoint_at st d n e) = port" and h: "mcapi_trans_encode_handle d n e = Some h"
  shows "mcapi_trans_endpoint_get_have_lock a domid node port st =
     Some (if e < unat (num_endpoints (node_d (node_at st d n))) then (True, st\<lparr>user_endpts := (user_endpts st)(a := h)\<rparr>) else (False, st))"
proof -
  let ?p = "\<lambda>(d, n, e). ep_valid (endpoint_at st d n e) \<and> port_num (endpoint_at st d n e) = port" and ?k = "unat (num_endpoints (node_d (node_at st d n)))"
  have c: "endpoint_candidates domid node st = map (\<lambda>e. (d, n, e)) [0..<?k]" by (rule endpoint_candidates_unique [OF u])
  show ?thesis
  proof (cases "e < ?k")
    case True
    then have "List.find ?p (map (\<lambda>e. (d, n, e)) [0..<?k]) = Some (d, n, e)"
      using before at by (auto simp: find_Some_iff intro!: exI [of _ e])
    with True c h show ?thesis by (simp add: mcapi_trans_endpoint_get_have_lock_def)
  next
    case False
    then have "List.find ?p (map (\<lambda>e. (d, n, e)) [0..<?k]) = None"
      using before by (auto simp: find_None_iff)
    with False c show ?thesis by (simp add: mcapi_trans_endpoint_get_have_lock_def)
  qed
qed

lemma handle_exists:
  assumes "d < MCA_MAX_DOMAINS" "n < MCA_MAX_NODES" "e < MCAPI_MAX_ENDPOINTS"
  obtains h where "mcapi_trans_encode_handle d n e = Some h" "mcapi_trans_decode_handle h = Some (d, n, e)"
  using endpt.roundtrip [of "(d, n, e)"] assms by (auto simp: handle_valid_def)

text \<open>
  C32: A node with fewer endpoints than the maximum, whose first free slot is not behind its count
  of endpoints, can create one at any port it does not use yet, also in reachable states where
  other endpoints were deleted. The handle names a new endpoint with that port, and no other
  endpoint changes. In the state right after the creation every node that looks up the domain, node
  and port finds exactly this handle at once, and creating a second endpoint at the same port is
  refused and changes nothing. Later deletions can hide the endpoint from the lookup.
\<close>

theorem endpoint_create_lookup:
  assumes "reachable (shm sys)" and "running domid node d n sys" and "port \<noteq> MCAPI_PORT_ANY" and "\<not> port_taken d n port (shm sys)"
    and k: "unat (num_endpoints (node_d (node_at (shm sys) d n))) < MCAPI_MAX_ENDPOINTS"
    and i: "free_slot d n (shm sys) \<le> unat (num_endpoints (node_d (node_at (shm sys) d n)))"
  shows "\<exists>h e st. mcapi_endpoint_create port sys = Some ((Some h, MCAPI_SUCCESS), sys\<lparr>shm := st\<rparr>) \<and>
     mcapi_trans_decode_handle h = Some (d, n, e) \<and> \<not> ep_valid (endpoint_at (shm sys) d n e) \<and>
     ep_valid (endpoint_at st d n e) \<and> port_num (endpoint_at st d n e) = port \<and>
     (\<forall>d' n' e'. (d', n', e') \<noteq> (d, n, e) \<longrightarrow> endpoint_at st d' n' e' = endpoint_at (shm sys) d' n' e') \<and>
     (\<forall>other timeout a env. ready other \<and> shm other = st \<longrightarrow> mcapi_endpoint_get domid node port timeout a env other =
        Some ((Some h, MCAPI_SUCCESS), other\<lparr>shm := st\<lparr>user_endpts := (user_endpts st)(a := h)\<rparr>\<rparr>)) \<and>
     mcapi_endpoint_create port (sys\<lparr>shm := st\<rparr>) = Some ((None, MCAPI_ERR_ENDP_EXISTS), sys\<lparr>shm := st\<rparr>)"
proof -
  let ?e = "free_slot d n (shm sys)" and ?st = "new_endpoint d n (free_slot d n (shm sys)) port (shm sys)"
  note r = assms(2) [unfolded running_def]
  have e: "?e < MCAPI_MAX_ENDPOINTS" using k i by simp
  obtain h where h: "mcapi_trans_encode_handle d n ?e = Some h" "mcapi_trans_decode_handle h = Some (d, n, ?e)"
    using handle_exists [of d n ?e] r e by blast
  have c: "mcapi_endpoint_create port sys = Some ((Some h, MCAPI_SUCCESS), sys\<lparr>shm := ?st\<rparr>)"
    by (rule create_new [OF assms(2-4) k e h(1)])
  have inv: "\<not> ep_valid (endpoint_at (shm sys) d n ?e)" using for_first_hit [of "\<lambda>i. \<not> ep_valid (endpoint_at (shm sys) d n i)" 0 MCAPI_MAX_ENDPOINTS] e
    by (simp add: free_slot_def)
  have r2: "running domid node d n (sys\<lparr>shm := ?st\<rparr>)" by (rule running_shm [OF assms(2)]) (simp_all add: new_endpoint_sel)
  have num: "unat (num_endpoints (node_d (node_at ?st d n))) = unat (num_endpoints (node_d (node_at (shm sys) d n))) + 1"
    using k by (simp add: new_endpoint_sel unat_inc MCAPI_MAX_ENDPOINTS_def)
  have t: "port_taken d n port ?st" using e by (auto simp: port_taken_def new_endpoint_sel)
  have x: "mcapi_endpoint_create port (sys\<lparr>shm := ?st\<rparr>) = Some ((None, MCAPI_ERR_ENDP_EXISTS), sys\<lparr>shm := ?st\<rparr>)"
    by (rule create_taken [OF r2 assms(3)]) (simp add: t)
  have u: "unique_nodes ?st" using ids.reachable_holds [OF assms(1)] by (simp add: new_endpoint_unique)
  have g: "mcapi_trans_endpoint_get_have_lock a domid node port ?st = Some (True, ?st\<lparr>user_endpts := (user_endpts ?st)(a := h)\<rparr>)" for a
    using endpoint_get_spec [OF u, of d n domid node ?e port h a] r assms(4) e i num h(1)
    by (auto simp: new_endpoint_sel port_taken_def)
  have l: "\<forall>other timeout a env. ready other \<and> shm other = ?st \<longrightarrow> mcapi_endpoint_get domid node port timeout a env other =
      Some ((Some h, MCAPI_SUCCESS), other\<lparr>shm := ?st\<lparr>user_endpts := (user_endpts ?st)(a := h)\<rparr>\<rparr>)"
    by (auto simp: mcapi_endpoint_get_def lookup_error_def mcapi_trans_valid_node_def mcapi_trans_valid_port_def when_ok_def
      mcapi_trans_endpoint_get_def with_lock_ready endpoint_get_loop.simps g)
  show ?thesis
    by (intro exI [of _ h] exI [of _ ?e] exI [of _ ?st] conjI) (rule c h inv l x | simp add: new_endpoint_sel)+
qed

text \<open>A node without endpoints.\<close>

definition lone_node :: mcapi_state where
  "lone_node = add_node 0 0 0 0 1 1 None (created zero_state)"

lemma lone_node_facts:
  shows "reachable lone_node" and "running 0 0 0 0 (node_sys 0 lone_node)" and "e < MCAPI_MAX_ENDPOINTS \<Longrightarrow> endpoint_at lone_node 0 0 e = zero_endpoint"
    and "num_endpoints (node_d (node_at lone_node 0 0)) = 0"
proof -
  show "reachable lone_node" unfolding lone_node_def by (intro reachable_join reachable.start first_entries)
  show "running 0 0 0 0 (node_sys 0 lone_node)"
    by (simp add: running_def node_sys_def ready_def mcapi_trans_whoami_def mcapi_limits lone_node_def add_node_ids)
  show "e < MCAPI_MAX_ENDPOINTS \<Longrightarrow> endpoint_at lone_node 0 0 e = zero_endpoint" "num_endpoints (node_d (node_at lone_node 0 0)) = 0"
    by (simp_all add: lone_node_def add_node_def init_node_entry_def upd_node_def node_at_def endpoint_at_def Let_def created_def
      mcapi_trans_init_indexed_array_have_lock_def clear_valid_def new_database_def zero_state_def)
qed

theorem endpoint_create_lookup_witness:
  "\<exists>h st. mcapi_endpoint_create 5 (node_sys 0 lone_node) = Some ((Some h, MCAPI_SUCCESS), node_sys 0 st) \<and>
     (\<exists>other. mcapi_endpoint_get 0 0 5 0 9 [] (node_sys 1 st) = Some ((Some h, MCAPI_SUCCESS), other)) \<and>
     mcapi_endpoint_create 5 (node_sys 0 st) = Some ((None, MCAPI_ERR_ENDP_EXISTS), node_sys 0 st)"
proof -
  let ?s = "node_sys 0 lone_node"
  note f = lone_node_facts
  have m: "0 < MCAPI_MAX_ENDPOINTS" by (simp add: mcapi_limits)
  have z: "free_slot 0 0 lone_node = 0" using f(3) [OF m] m by (auto simp: free_slot_def intro!: for_first_eqI)
  have "(5::u32) \<noteq> MCAPI_PORT_ANY" by (simp add: MCAPI_PORT_ANY_def)
  moreover have "\<not> port_taken 0 0 5 (shm ?s)" using f(3) by (auto simp: port_taken_def node_sys_ready)
  moreover have "unat (num_endpoints (node_d (node_at (shm ?s) 0 0))) < MCAPI_MAX_ENDPOINTS"
    "free_slot 0 0 (shm ?s) \<le> unat (num_endpoints (node_d (node_at (shm ?s) 0 0)))" using f(4) m z by (simp_all add: node_sys_ready)
  moreover have "reachable (shm ?s)" using f(1) by (simp add: node_sys_ready)
  ultimately obtain h st where c: "mcapi_endpoint_create 5 ?s = Some ((Some h, MCAPI_SUCCESS), ?s\<lparr>shm := st\<rparr>)"
      "mcapi_endpoint_create 5 (?s\<lparr>shm := st\<rparr>) = Some ((None, MCAPI_ERR_ENDP_EXISTS), ?s\<lparr>shm := st\<rparr>)"
    and l: "\<forall>other timeout a env. ready other \<and> shm other = st \<longrightarrow> mcapi_endpoint_get 0 0 5 timeout a env other =
        Some ((Some h, MCAPI_SUCCESS), other\<lparr>shm := st\<lparr>user_endpts := (user_endpts st)(a := h)\<rparr>\<rparr>)"
    using endpoint_create_lookup [OF _ f(2), of 5] by blast
  have "\<exists>other. mcapi_endpoint_get 0 0 5 0 9 [] (node_sys 1 st) = Some ((Some h, MCAPI_SUCCESS), other)"
    using l [rule_format, of "node_sys 1 st"] by (auto simp: node_sys_ready)
  with c show ?thesis unfolding node_sys_ready by blast
qed

section \<open>Deletion\<close>

definition old_endpoint :: "nat \<Rightarrow> nat \<Rightarrow> nat \<Rightarrow> mcapi_state \<Rightarrow> mcapi_state" where
  "old_endpoint d n e st = upd_endpoint d n e (\<lambda>ep. zero_endpoint)
     (upd_node d n (\<lambda>nd. nd\<lparr>node_d := (node_d nd)\<lparr>num_endpoints := num_endpoints (node_d nd) - 1\<rparr>\<rparr>) st)"

lemma old_endpoint_sel:
  "endpoint_at (old_endpoint d n e st) d' n' e' = (if (d', n', e') = (d, n, e) then zero_endpoint else endpoint_at st d' n' e')"
  "num_endpoints (node_d (node_at (old_endpoint d n e st) d' n')) = num_endpoints (node_d (node_at st d' n')) - (if (d', n') = (d, n) then 1 else 0)"
  "node_valid (node_at (old_endpoint d n e st) d' n') = node_valid (node_at st d' n')"
  "node_num (node_at (old_endpoint d n e st) d' n') = node_num (node_at st d' n')"
  "domain_valid (domains (old_endpoint d n e st) d') = domain_valid (domains st d')"
  "domain_id (domains (old_endpoint d n e st) d') = domain_id (domains st d')"
  "buffers (old_endpoint d n e st) = buffers st" "requests (old_endpoint d n e st) = requests st"
  by (simp_all add: old_endpoint_def frame_simps) (simp add: endpoint_at_def frame_simps)

lemma delete_outcome:
  assumes "running domid node d n sys" and "mcapi_trans_decode_handle h = Some (d, n, e)"
    and "ep_valid (endpoint_at (shm sys) d n e)" and "\<not> ep_open (endpoint_at (shm sys) d n e)"
  shows "mcapi_endpoint_delete h sys = Some (MCAPI_SUCCESS, sys\<lparr>shm := old_endpoint d n e (shm sys)\<rparr>)"
  using assms by (simp add: running_def mcapi_endpoint_delete_def not_check_def mcapi_trans_valid_endpoint_def mcapi_trans_endpoint_isowner_def
    mcapi_trans_get_node_num_def mcapi_trans_endpoint_channel_isopen_def on_endpoint_def with_lock_ready reading_def when_ok_def
    mcapi_trans_endpoint_delete_def old_endpoint_def)

lemma delete_other:
  assumes "ready sys" "mcapi_trans_whoami sys = Some (node, n, domid, d)" and "mcapi_trans_decode_handle h = Some (d', n', e)"
    and "domain_valid (domains (shm sys) d')" "node_valid (node_at (shm sys) d' n')" "ep_valid (endpoint_at (shm sys) d' n' e)"
    and "node_num (node_at (shm sys) d' n') \<noteq> node"
  shows "mcapi_endpoint_delete h sys = Some (MCAPI_ERR_ENDP_NOTOWNER, sys)"
  using assms by (simp add: mcapi_endpoint_delete_def not_check_def mcapi_trans_valid_endpoint_def mcapi_trans_endpoint_isowner_def
    mcapi_trans_get_node_num_def with_lock_ready reading_def when_ok_def)

text \<open>
  The node that owns an endpoint which is not open can delete it; the entry is cleared, no
  other endpoint changes and a second deletion is refused. But the messages that are still
  queued there are not given back: their transport buffers stay in use, and no endpoint refers
  to them any more, so that no later receive frees them.
\<close>

theorem endpoint_delete_leaks:
  assumes "sys_inv (shm sys)" and "running domid node d n sys" and h: "mcapi_trans_decode_handle h = Some (d, n, e)"
    and v: "ep_valid (endpoint_at (shm sys) d n e)" "\<not> ep_open (endpoint_at (shm sys) d n e)"
  shows "\<exists>st. mcapi_endpoint_delete h sys = Some (MCAPI_SUCCESS, sys\<lparr>shm := st\<rparr>) \<and>
     (\<forall>d' n' e'. endpoint_at st d' n' e' = (if (d', n', e') = (d, n, e) then zero_endpoint else endpoint_at (shm sys) d' n' e')) \<and>
     mcapi_endpoint_delete h (sys\<lparr>shm := st\<rparr>) = Some (MCAPI_ERR_ENDP_INVALID, sys\<lparr>shm := st\<rparr>) \<and> buffers st = buffers (shm sys) \<and>
     (\<forall>b\<in>set (queue_bufs (queue_at (shm sys) d n e)). magic_num (buffers st (decode_buff_index b)) \<noteq> 0 \<and>
        (\<forall>d' n' e'. path_ok d' n' e' \<longrightarrow> b \<notin> set (queue_bufs (queue_at st d' n' e'))))"
proof -
  let ?st = "old_endpoint d n e (shm sys)"
  have p: "path_ok d n e" using endpt.decode_valid [OF h] by (simp add: path_ok_def)
  have i: "db_inv (shm sys)" using assms(1) by (simp add: sys_inv_def)
  have q: "queue_at ?st d' n' e' = (if (d', n', e') = (d, n, e) then zero_queue else queue_at (shm sys) d' n' e')" for d' n' e'
    by (simp add: queue_at_def old_endpoint_sel)
  have b: "magic_num (buffers (shm sys) (decode_buff_index b)) \<noteq> 0" "path_ok d' n' e' \<Longrightarrow> b \<notin> set (queue_bufs (queue_at ?st d' n' e'))"
    if m: "b \<in> set (queue_bufs (queue_at (shm sys) d n e))" for b d' n' e'
  proof -
    have "buffer_live (shm sys) b" using m i p by (simp add: db_inv_def queue_ok_def)
    then show "magic_num (buffers (shm sys) (decode_buff_index b)) \<noteq> 0" by (auto simp: buffer_live_def)
    assume p': "path_ok d' n' e'"
    show "b \<notin> set (queue_bufs (queue_at ?st d' n' e'))"
    proof (cases "(d', n', e') = (d, n, e)")
      case False
      then have "set (queue_bufs (queue_at (shm sys) d n e)) \<inter> set (queue_bufs (queue_at (shm sys) d' n' e')) = {}"
        using i p p' unfolding db_inv_def by metis
      with m q False show ?thesis by auto
    qed (simp add: q zero_queue_facts)
  qed
  have x: "mcapi_endpoint_delete h (sys\<lparr>shm := ?st\<rparr>) = Some (MCAPI_ERR_ENDP_INVALID, sys\<lparr>shm := ?st\<rparr>)"
    using assms(2) h by (simp add: running_def mcapi_endpoint_delete_def not_check_def mcapi_trans_valid_endpoint_def with_lock_ready reading_def
      old_endpoint_sel when_ok_def)
  show ?thesis
    by (intro exI [of _ ?st] conjI) (rule delete_outcome [OF assms(2) h v] x | use b in \<open>simp add: old_endpoint_sel\<close>)+
qed

lemma send_keeps_ids:
  "mcapi_trans_send_have_lock d n e b sz x st = Some (ok, st') \<Longrightarrow>
     domain_valid (domains st' d') = domain_valid (domains st d') \<and> domain_id (domains st' d') = domain_id (domains st d') \<and>
     node_valid (node_at st' d' n') = node_valid (node_at st d' n') \<and> node_num (node_at st' d' n') = node_num (node_at st d' n') \<and>
     ep_valid (endpoint_at st' d' n' e') = ep_valid (endpoint_at st d' n' e') \<and> ep_open (endpoint_at st' d' n' e') = ep_open (endpoint_at st d' n' e')"
  by (auto simp: mcapi_trans_send_have_lock_def Let_def upd_queue_def set_queue_def frame_simps bind_eq_Some_conv split: if_splits)

lemma two_nodes_running: "running 0 1 0 1 (node_sys 1 two_nodes)"
  by (simp add: running_def node_sys_def ready_def mcapi_trans_whoami_def mcapi_limits two_nodes_def frame_simps add_node_ids)

theorem endpoint_delete_leaks_witness:
  "\<exists>st st' b. queue_bufs (queue_at st 0 1 0) = [b] \<and> mcapi_endpoint_delete 0x100 (node_sys 1 st) = Some (MCAPI_SUCCESS, node_sys 1 st') \<and>
     magic_num (buffers st' (decode_buff_index b)) \<noteq> 0 \<and> queue_at st' 0 1 0 = zero_queue"
proof -
  have p: "path_ok 0 1 0" by (simp add: path_ok_iff mcapi_limits)
  have i: "db_inv two_nodes" "chan_type (queue_at two_nodes 0 1 0) \<noteq> MCAPI_SCL_CHAN" using two_nodes_inv two_nodes_queue [OF p] by (simp_all add: sys_inv_def)
  have e: "ep_messages two_nodes 0 1 0 = []" by (rule two_nodes_views(1) [OF p])
  obtain st where s: "mcapi_trans_send_have_lock 0 1 0 (UserBuf 1) 3 0 two_nodes = Some (True, st)"
    and m: "length (ep_messages st 0 1 0) = 1"
    by (rule send_message [OF i(1) p i(2) two_nodes_room demo_sizes(1), where a = 1 and scl = 0]) (simp add: e [unfolded One_nat_def])
  have b: "length (queue_bufs (queue_at st 0 1 0)) = 1" using m by (simp add: queue_bufs_def ep_messages_def)
  then obtain b where b: "queue_bufs (queue_at st 0 1 0) = [b]" by (auto simp: length_Suc_conv)
  have inv: "sys_inv (shm (node_sys 1 st))" using send_sys_inv [OF two_nodes_inv p s] by (simp add: node_sys_ready)
  have r: "running 0 1 0 1 (node_sys 1 st)" using running_shm [OF two_nodes_running, of st] send_keeps_ids [OF s] by (simp add: node_sys_ready)
  have h: "mcapi_trans_decode_handle 0x100 = Some (0, 1, 0)" by code_simp
  have z: "\<not> ep_open (endpoint_at (add_node 0 1 0 1 2 2 None x) 0 1 0)" for x
    by (simp add: add_node_def upd_node_def init_node_entry_def endpoint_at_def node_at_def Let_def mcapi_limits)
  have "ep_valid (endpoint_at two_nodes 0 1 0)" "\<not> ep_open (endpoint_at two_nodes 0 1 0)"
    using two_nodes_endpoints(2) z by (simp_all add: message_endpoint_def two_nodes_def frame_simps)
  then have v: "ep_valid (endpoint_at (shm (node_sys 1 st)) 0 1 0)" "\<not> ep_open (endpoint_at (shm (node_sys 1 st)) 0 1 0)"
    using send_keeps_ids [OF s] by (simp_all add: node_sys_ready)
  obtain st' where d: "mcapi_endpoint_delete 0x100 (node_sys 1 st) = Some (MCAPI_SUCCESS, node_sys 1 st')"
      "endpoint_at st' 0 1 0 = zero_endpoint" "magic_num (buffers st' (decode_buff_index b)) \<noteq> 0"
    using endpoint_delete_leaks [OF inv r h v] b by (auto simp: node_sys_ready)
  then have "queue_at st' 0 1 0 = zero_queue" by (simp add: queue_at_def)
  with b d show ?thesis by blast
qed

lemma get_loop_idle:
  assumes "mcapi_trans_endpoint_get_have_lock a dm nn pn st = Some (False, st)"
  shows "endpoint_get_loop a dm nn pn (replicate k id) st = None"
proof (induction k)
  case 0
  show ?case by (subst endpoint_get_loop.simps) (simp add: assms)
next
  case (Suc k)
  show ?case by (subst endpoint_get_loop.simps) (simp only: assms bind.bind_lunit prod.case if_False replicate_Suc list.case id_apply Suc)
qed

text \<open>
  A lookup can miss an endpoint that exists. When a node without endpoints creates two and
  deletes the first, the second one is still there and its port is taken, but the blocking lookup
  of it does not return, however often it is repeated while nothing changes: the search stops at
  the number of endpoints, which is 1 now, while the endpoint is in the second slot.
\<close>

theorem lookup_misses_after_delete:
  assumes "reachable (shm sys)" and r: "running domid node d n sys" and pt: "port1 \<noteq> MCAPI_PORT_ANY" "port2 \<noteq> MCAPI_PORT_ANY" "port1 \<noteq> port2"
    and z: "num_endpoints (node_d (node_at (shm sys) d n)) = 0" "\<forall>e<MCAPI_MAX_ENDPOINTS. endpoint_at (shm sys) d n e = zero_endpoint"
  shows "\<exists>ha hb sa sb sc. mcapi_endpoint_create port1 sys = Some ((Some ha, MCAPI_SUCCESS), sys\<lparr>shm := sa\<rparr>) \<and>
     mcapi_endpoint_create port2 (sys\<lparr>shm := sa\<rparr>) = Some ((Some hb, MCAPI_SUCCESS), sys\<lparr>shm := sb\<rparr>) \<and>
     mcapi_endpoint_delete ha (sys\<lparr>shm := sb\<rparr>) = Some (MCAPI_SUCCESS, sys\<lparr>shm := sc\<rparr>) \<and>
     mcapi_trans_valid_endpoint hb (sys\<lparr>shm := sc\<rparr>) = Some (True, sys\<lparr>shm := sc\<rparr>) \<and>
     (\<forall>other timeout a k. ready other \<and> shm other = sc \<longrightarrow> mcapi_endpoint_get domid node port2 timeout a (replicate k id) other = None)"
proof -
  note rr = r [unfolded running_def]
  let ?sa = "new_endpoint d n 0 port1 (shm sys)" let ?sb = "new_endpoint d n 1 port2 ?sa" let ?sc = "old_endpoint d n 0 ?sb"
  have m: "1 < MCAPI_MAX_ENDPOINTS" "0 < MCAPI_MAX_ENDPOINTS" by (simp_all add: mcapi_limits)
  obtain ha hb where h: "mcapi_trans_encode_handle d n 0 = Some ha" "mcapi_trans_decode_handle ha = Some (d, n, 0)"
      "mcapi_trans_encode_handle d n 1 = Some hb" "mcapi_trans_decode_handle hb = Some (d, n, 1)"
    using handle_exists [of d n] rr m by metis
  have f: "free_slot d n (shm sys) = 0" "free_slot d n ?sa = 1"
    using z(2) m by (auto simp: free_slot_def new_endpoint_sel intro!: for_first_eqI split: if_splits)
  have t: "\<not> port_taken d n port1 (shm sys)" "\<not> port_taken d n port2 ?sa"
    using z(2) pt by (auto simp: port_taken_def new_endpoint_sel split: if_splits)
  have ra: "running domid node d n (sys\<lparr>shm := ?sa\<rparr>)" "running domid node d n (sys\<lparr>shm := ?sb\<rparr>)"
    by (rule running_shm [OF r]; simp add: new_endpoint_sel)+
  have ca: "mcapi_endpoint_create port1 sys = Some ((Some ha, MCAPI_SUCCESS), sys\<lparr>shm := ?sa\<rparr>)"
    using create_new [OF r pt(1) t(1), of ha] f h z m by simp
  have cb: "mcapi_endpoint_create port2 (sys\<lparr>shm := ?sa\<rparr>) = Some ((Some hb, MCAPI_SUCCESS), sys\<lparr>shm := ?sb\<rparr>)"
    using create_new [OF ra(1) pt(2), of hb] t f h z m by (simp add: new_endpoint_sel)
  have cc: "mcapi_endpoint_delete ha (sys\<lparr>shm := ?sb\<rparr>) = Some (MCAPI_SUCCESS, sys\<lparr>shm := ?sc\<rparr>)"
    using delete_outcome [OF ra(2) h(2)] by (simp add: new_endpoint_sel)
  have v: "mcapi_trans_valid_endpoint hb (sys\<lparr>shm := ?sc\<rparr>) = Some (True, sys\<lparr>shm := ?sc\<rparr>)"
    using rr h by (simp add: mcapi_trans_valid_endpoint_def with_lock_ready reading_def old_endpoint_sel new_endpoint_sel)
  have u: "unique_nodes ?sc" using ids.reachable_holds [OF assms(1)]
    by (subst unique_nodes_cong [of ?sc "shm sys"]) (simp_all add: old_endpoint_sel new_endpoint_sel)
  have g: "mcapi_trans_endpoint_get_have_lock a domid node port2 ?sc = Some (False, ?sc)" for a
    using endpoint_get_spec [OF u, of d n domid node 1 port2 hb a] rr z h by (simp add: old_endpoint_sel new_endpoint_sel)
  have l: "\<forall>other timeout a k. ready other \<and> shm other = ?sc \<longrightarrow> mcapi_endpoint_get domid node port2 timeout a (replicate k id) other = None"
    using get_loop_idle [OF g]
    by (simp add: mcapi_endpoint_get_def lookup_error_def mcapi_trans_valid_node_def mcapi_trans_valid_port_def when_ok_def
      mcapi_trans_endpoint_get_def with_lock_ready)
  show ?thesis using ca cb cc v l by blast
qed

theorem lookup_misses_after_delete_witness:
  "\<exists>ha hb sa sb sc. mcapi_endpoint_create 5 (node_sys 0 lone_node) = Some ((Some ha, MCAPI_SUCCESS), node_sys 0 sa) \<and>
     mcapi_endpoint_create 6 (node_sys 0 sa) = Some ((Some hb, MCAPI_SUCCESS), node_sys 0 sb) \<and>
     mcapi_endpoint_delete ha (node_sys 0 sb) = Some (MCAPI_SUCCESS, node_sys 0 sc) \<and>
     mcapi_endpoint_get 0 0 6 0 9 (replicate 3 id) (node_sys 0 sc) = None"
proof -
  have p: "(5::u32) \<noteq> MCAPI_PORT_ANY" "(6::u32) \<noteq> MCAPI_PORT_ANY" "(5::u32) \<noteq> 6" by (simp_all add: MCAPI_PORT_ANY_def)
  have z: "\<forall>e<MCAPI_MAX_ENDPOINTS. endpoint_at (shm (node_sys 0 lone_node)) 0 0 e = zero_endpoint" using lone_node_facts(3) by (simp add: node_sys_ready)
  have r: "reachable (shm (node_sys 0 lone_node))" "num_endpoints (node_d (node_at (shm (node_sys 0 lone_node)) 0 0)) = 0"
    using lone_node_facts by (simp_all add: node_sys_ready)
  from lookup_misses_after_delete [OF r(1) lone_node_facts(2) p r(2) z] obtain ha hb sa sb sc where
    c: "mcapi_endpoint_create 5 (node_sys 0 lone_node) = Some ((Some ha, MCAPI_SUCCESS), node_sys 0 sa)"
      "mcapi_endpoint_create 6 (node_sys 0 sa) = Some ((Some hb, MCAPI_SUCCESS), node_sys 0 sb)"
      "mcapi_endpoint_delete ha (node_sys 0 sb) = Some (MCAPI_SUCCESS, node_sys 0 sc)"
    and l: "\<forall>other timeout a k. ready other \<and> shm other = sc \<longrightarrow> mcapi_endpoint_get 0 0 6 timeout a (replicate k id) other = None"
    unfolding node_sys_ready(3) by blast
  have "mcapi_endpoint_get 0 0 6 0 9 (replicate 3 id) (node_sys 0 sc) = None" by (rule l [rule_format]) (simp add: node_sys_ready)
  with c show ?thesis by blast
qed

end
