(* ===== verification/MRAPI_Database.thy ===== *)
theory MRAPI_Database
  imports MRAPI_Types
begin

text \<open>
  The process of the resource layer (\<open>mrapi_impl_spec_body1.c\<close>, \<open>mrapi_impl_spec_declaration.c\<close>): the
  shared database with the caller's thread-local identity, the internal semaphores that protect the sections
  of the database, resource handles, the checks of handles, and the pool of requests.

  A failed \<open>mrapi_assert\<close> terminates the process and is \<open>None\<close>. So is a call that never returns:
  \<open>sys_sem_lock\<close> (\<open>sysvr4_sem.c\<close>) retries for ever on a semaphore that does not exist, and on one that
  its own caller holds.
\<close>

datatype mrapi_section = Semid | Sems_semid nat | Shmems_semid | Rmems_semid | Requests_semid

record mrapi_sys =
  mdb :: mrapi_database
  mrapi_db_attached :: bool
  sections_alive :: bool
  held_sections :: "mrapi_section list"
  mrapi_initialize_ctr :: nat
  mrapi_finalize_ctr :: nat
  mrapi_pid :: int
  mrapi_nindex :: u32
  mrapi_dindex :: u32
  mrapi_node_id :: u32
  mrapi_domain_id :: u32
  sem_address :: "nat \<Rightarrow> int"

section \<open>Critical sections\<close>

text \<open>The set \<open>sems_semid\<close> has one member for each lock and one more; the other sets have one member.\<close>

fun section_exists :: "mrapi_section \<Rightarrow> bool" where
  "section_exists (Sems_semid m) = (m < MRAPI_MAX_SEMS + 1)"
| "section_exists _ = True"

definition mrapi_impl_access_database_pre :: "mrapi_section \<Rightarrow> mrapi_sys \<Rightarrow> mrapi_sys option" where
  "mrapi_impl_access_database_pre sec sys =
     (if sections_alive sys \<and> section_exists sec \<and> sec \<notin> set (held_sections sys)
      then Some (sys\<lparr>held_sections := sec # held_sections sys\<rparr>) else None)"

definition mrapi_impl_access_database_post :: "mrapi_section \<Rightarrow> mrapi_sys \<Rightarrow> mrapi_sys option" where
  "mrapi_impl_access_database_post sec sys =
     (if sections_alive sys \<and> section_exists sec
      then Some (sys\<lparr>held_sections := removeAll sec (held_sections sys)\<rparr>) else None)"

definition with_section :: "mrapi_section \<Rightarrow> (mrapi_sys \<Rightarrow> ('a \<times> mrapi_sys) option) \<Rightarrow> mrapi_sys \<Rightarrow> ('a \<times> mrapi_sys) option" where
  "with_section sec f sys = do {
     sys \<leftarrow> mrapi_impl_access_database_pre sec sys;
     (r, sys) \<leftarrow> f sys;
     sys \<leftarrow> mrapi_impl_access_database_post sec sys;
     Some (r, sys)}"

section \<open>Identity\<close>

definition mrapi_impl_whoami :: "mrapi_sys \<Rightarrow> (u32 \<times> u32 \<times> u32 \<times> u32) option" where
  "mrapi_impl_whoami sys =
     (if \<not> mrapi_db_attached sys then None
      else if mrapi_pid sys = - 1 then None
      else Some (mrapi_node_id sys, mrapi_nindex sys, mrapi_domain_id sys, mrapi_dindex sys))"

definition mrapi_impl_initialized :: "mrapi_sys \<Rightarrow> bool" where
  "mrapi_impl_initialized sys = (mrapi_impl_whoami sys \<noteq> None)"

definition mrapi_impl_get_node_num :: "mrapi_sys \<Rightarrow> u32 option" where
  "mrapi_impl_get_node_num sys = map_option fst (mrapi_impl_whoami sys)"

definition mrapi_impl_get_domain_num :: "mrapi_sys \<Rightarrow> u32 option" where
  "mrapi_impl_get_domain_num sys = map_option (fst \<circ> snd \<circ> snd) (mrapi_impl_whoami sys)"

definition mrapi_impl_node_id_get :: "mrapi_sys \<Rightarrow> u32 \<times> mrapi_status" where
  "mrapi_impl_node_id_get sys =
     (if \<not> mrapi_impl_initialized sys then (- 1, MRAPI_ERR_NODE_NOTINIT)
      else case mrapi_impl_get_node_num sys of
        None \<Rightarrow> (- 1, MRAPI_ERR_NODE_NOTINIT) | Some node \<Rightarrow> (node, MRAPI_SUCCESS))"

definition mrapi_node_id_get :: "mrapi_sys \<Rightarrow> u32 \<times> mrapi_status" where
  "mrapi_node_id_get sys = mrapi_impl_node_id_get sys"

definition mrapi_domain_id_get :: "mrapi_sys \<Rightarrow> u32 \<times> mrapi_status" where
  "mrapi_domain_id_get sys = (case mrapi_impl_get_domain_num sys of
     None \<Rightarrow> (- 1, MRAPI_ERR_NODE_NOTINIT) | Some domain \<Rightarrow> (domain, MRAPI_SUCCESS))"

section \<open>Handles\<close>

definition mrapi_impl_encode_hndl :: "u16 \<Rightarrow> u32" where
  "mrapi_impl_encode_hndl type_index = (0x80000000 OR ucast type_index)"

text \<open>The index is written in either case; \<open>None\<close> where the valid bit is not set.\<close>

definition hndl_index :: "u32 \<Rightarrow> nat" where
  "hndl_index handle = unat (handle AND 0xff)"

definition mrapi_impl_decode_hndl :: "u32 \<Rightarrow> nat option" where
  "mrapi_impl_decode_hndl handle =
     (if handle AND 0x80000000 = 0x80000000 then Some (hndl_index handle) else None)"

text \<open>
  A lock handle: the status is the caller's, overwritten for a deleted entry whose recorded handle is this one.
\<close>

definition mrapi_impl_valid_lock_hndl :: "u32 \<Rightarrow> mrapi_status \<Rightarrow> mrapi_sys \<Rightarrow> ((bool \<times> mrapi_status) \<times> mrapi_sys) option" where
  "mrapi_impl_valid_lock_hndl sem status sys = (case mrapi_impl_decode_hndl sem of
     None \<Rightarrow> Some ((False, status), sys)
   | Some s \<Rightarrow>
       if s \<ge> MRAPI_MAX_SEMS then Some ((False, status), sys)
       else with_section (Sems_semid s) (\<lambda>sys.
         if s_valid (m_sems (mdb sys) s) then Some ((True, status), sys)
         else
           let d = for_first (\<lambda>d. s_deleted (m_sems (mdb sys) d) \<and> s_handle (m_sems (mdb sys) d) = sem) 0 MRAPI_MAX_SEMS
           in if d = MRAPI_MAX_SEMS then Some ((False, status), sys)
              else Some ((False, case s_type (m_sems (mdb sys) d) of
                MUTEX \<Rightarrow> MRAPI_ERR_MUTEX_DELETED | SEM \<Rightarrow> MRAPI_ERR_SEM_DELETED | RWL \<Rightarrow> MRAPI_ERR_RWL_DELETED), sys)) sys)"

definition mrapi_impl_valid_mutex_hndl :: "u32 \<Rightarrow> mrapi_sys \<Rightarrow> ((bool \<times> mrapi_status) \<times> mrapi_sys) option" where
  "mrapi_impl_valid_mutex_hndl mutex sys = do {
     ((ok, status), sys) \<leftarrow> mrapi_impl_valid_lock_hndl mutex MRAPI_ERR_MUTEX_INVALID sys;
     Some (if ok then (True, MRAPI_SUCCESS) else (False, status), sys)}"

definition mrapi_impl_valid_rwl_hndl :: "u32 \<Rightarrow> mrapi_sys \<Rightarrow> ((bool \<times> mrapi_status) \<times> mrapi_sys) option" where
  "mrapi_impl_valid_rwl_hndl rwl sys = do {
     ((ok, status), sys) \<leftarrow> mrapi_impl_valid_lock_hndl rwl MRAPI_ERR_RWL_INVALID sys;
     Some (if ok then (True, MRAPI_SUCCESS) else (False, status), sys)}"

definition mrapi_impl_valid_sem_hndl :: "u32 \<Rightarrow> mrapi_sys \<Rightarrow> ((bool \<times> mrapi_status) \<times> mrapi_sys) option" where
  "mrapi_impl_valid_sem_hndl sem sys = do {
     ((ok, status), sys) \<leftarrow> mrapi_impl_valid_lock_hndl sem MRAPI_ERR_SEM_INVALID sys;
     Some (if ok then (True, MRAPI_SUCCESS) else (False, status), sys)}"

section \<open>Requests\<close>

definition valid_request_index :: "u32 \<Rightarrow> mrapi_database \<Rightarrow> nat option" where
  "valid_request_index request db = (case mrapi_impl_decode_hndl request of
     None \<Rightarrow> None
   | Some r \<Rightarrow> if r < MRAPI_MAX_REQUESTS \<and> q_valid (m_requests db r) then Some r else None)"

definition mrapi_impl_valid_request_hndl :: "u32 \<Rightarrow> mrapi_sys \<Rightarrow> (bool \<times> mrapi_sys) option" where
  "mrapi_impl_valid_request_hndl request = with_section Requests_semid (\<lambda>sys.
     Some (valid_request_index request (mdb sys) \<noteq> None, sys))"

definition mrapi_impl_canceled_request :: "u32 \<Rightarrow> mrapi_sys \<Rightarrow> (bool \<times> mrapi_sys) option" where
  "mrapi_impl_canceled_request request = with_section Requests_semid (\<lambda>sys.
     Some (case valid_request_index request (mdb sys) of None \<Rightarrow> False | Some r \<Rightarrow> q_cancelled (m_requests (mdb sys) r), sys))"

text \<open>The index of a fresh request; a full pool or a caller that is not a node fails the assertion.\<close>

definition mrapi_impl_setup_request :: "mrapi_sys \<Rightarrow> (nat \<times> mrapi_sys) option" where
  "mrapi_impl_setup_request = with_section Requests_semid (\<lambda>sys.
     case mrapi_impl_whoami sys of
       None \<Rightarrow> Some (0, sys)
     | Some (node, n, domain, d) \<Rightarrow>
         let i = for_first (\<lambda>i. \<not> q_valid (m_requests (mdb sys) i)) 0 MRAPI_MAX_REQUESTS
         in if i < MRAPI_MAX_REQUESTS
            then Some (i, sys\<lparr>mdb := (mdb sys)\<lparr>m_requests := (m_requests (mdb sys))
                   (i := (m_requests (mdb sys) i)\<lparr>q_valid := True, q_domain_id := domain, q_node_num := node, q_cancelled := False\<rparr>)\<rparr>\<rparr>)
            else None)"

text \<open>A request that is not complete fails the assertion: MRAPI's non-blocking calls complete at once.\<close>

definition mrapi_impl_test :: "u32 \<Rightarrow> mrapi_sys \<Rightarrow> (mrapi_status \<times> mrapi_sys) option" where
  "mrapi_impl_test request = with_section Requests_semid (\<lambda>sys.
     case valid_request_index request (mdb sys) of
       None \<Rightarrow> None
     | Some r \<Rightarrow> if q_completed (m_requests (mdb sys) r)
         then Some (q_status (m_requests (mdb sys) r),
                sys\<lparr>mdb := (mdb sys)\<lparr>m_requests := (m_requests (mdb sys))(r := zero_mrequest)\<rparr>\<rparr>)
         else None)"

end
