(* ===== verification/MRAPI_Locks.thy ===== *)
theory MRAPI_Locks
  imports MRAPI_Database
begin

text \<open>
  Semaphores, mutexes and reader/writer locks of the resource layer (\<open>mrapi_impl_spec_sem.c\<close>,
  \<open>mrapi_impl_spec_mutex.c\<close>, \<open>mrapi_impl_spec_rwl.c\<close>). All three are entries of one table of counting
  locks: an entry has up to \<open>MRAPI_MAX_SHARED_LOCKS\<close> slots, a mutex one, and a writer takes every slot of
  a reader/writer lock. The loops over the slots run to the limit of the entry and are undefined beyond the array.
  A blocking call takes the list of what the other nodes do to the database while it yields; when that list
  ends before the call is done, the call has not returned (\<open>None\<close>). Output parameters that a branch leaves
  alone keep the value they came with.
\<close>

section \<open>Slots\<close>

text \<open>The test of the slots that the caller \<open>(n, d)\<close> holds, its indices compared at 32 bits.\<close>

definition holds :: "u32 \<Rightarrow> u32 \<Rightarrow> mrapi_lock \<Rightarrow> bool" where
  "holds n d x = (l_valid x \<and> l_locked x \<and> ucast (lock_holder_nindex x) = n \<and> ucast (lock_holder_dindex x) = d)"

text \<open>The bound of a loop whose unsigned 32-bit counter is compared with the signed limit.\<close>

definition unsigned_bound :: "int \<Rightarrow> nat" where
  "unsigned_bound i = nat (i mod 2 ^ 32)"

fun count_loop :: "(mrapi_lock \<Rightarrow> bool) \<Rightarrow> nat \<Rightarrow> mrapi_lock list \<Rightarrow> nat option" where
  "count_loop p 0 xs = Some 0"
| "count_loop p (Suc k) [] = None"
| "count_loop p (Suc k) (x # xs) = map_option (\<lambda>c. (if p x then 1 else 0) + c) (count_loop p k xs)"

fun validate_loop :: "nat \<Rightarrow> mrapi_lock list \<Rightarrow> mrapi_lock list option" where
  "validate_loop 0 xs = Some xs"
| "validate_loop (Suc k) [] = None"
| "validate_loop (Suc k) (x # xs) = map_option ((#) (x\<lparr>l_valid := True\<rparr>)) (validate_loop k xs)"

text \<open>Taking free slots until \<open>req\<close> of them are added: their number and the slots.\<close>

fun acquire_loop :: "u32 \<Rightarrow> u32 \<Rightarrow> int \<Rightarrow> nat \<Rightarrow> int \<Rightarrow> mrapi_lock list \<Rightarrow> (int \<times> mrapi_lock list) option" where
  "acquire_loop n d req 0 added xs = Some (added, xs)"
| "acquire_loop n d req (Suc k) added [] = None"
| "acquire_loop n d req (Suc k) added (x # xs) =
     (let free = (l_valid x \<and> \<not> l_locked x);
          x = (if free then x\<lparr>l_locked := True, lock_holder_nindex := ucast n, lock_holder_dindex := ucast d\<rparr> else x);
          added = (if free then added + 1 else added)
      in if added = req then Some (added, x # xs)
         else map_option (\<lambda>(a, ys). (a, x # ys)) (acquire_loop n d req k added xs))"

text \<open>Releasing the caller's slots: the 16-bit countdown \<open>r\<close> ends the loop when it reaches zero.\<close>

fun release_loop :: "u32 \<Rightarrow> u32 \<Rightarrow> nat \<Rightarrow> u16 \<Rightarrow> nat \<Rightarrow> mrapi_lock list \<Rightarrow> (nat \<times> mrapi_lock list) option" where
  "release_loop n d 0 r removed xs = Some (removed, xs)"
| "release_loop n d (Suc k) r removed [] = None"
| "release_loop n d (Suc k) r removed (x # xs) =
     (if holds n d x
      then (if r - 1 = 0 then Some (removed + 1, x\<lparr>l_locked := False\<rparr> # xs)
            else map_option (\<lambda>(a, ys). (a, x\<lparr>l_locked := False\<rparr> # ys)) (release_loop n d k (r - 1) (removed + 1) xs))
      else map_option (\<lambda>(a, ys). (a, x # ys)) (release_loop n d k r removed xs))"

section \<open>Creating, finding and deleting\<close>

definition exists_status :: "lock_type \<Rightarrow> mrapi_status" where
  "exists_status t = (case t of RWL \<Rightarrow> MRAPI_ERR_RWL_EXISTS | SEM \<Rightarrow> MRAPI_ERR_SEM_EXISTS | MUTEX \<Rightarrow> MRAPI_ERR_MUTEX_EXISTS)"

definition locked_status :: "lock_type \<Rightarrow> mrapi_status" where
  "locked_status t = (case t of RWL \<Rightarrow> MRAPI_ERR_RWL_LOCKED | SEM \<Rightarrow> MRAPI_ERR_SEM_LOCKED | MUTEX \<Rightarrow> MRAPI_ERR_MUTEX_LOCKED)"

definition invalid_status :: "lock_type \<Rightarrow> mrapi_status" where
  "invalid_status t = (case t of RWL \<Rightarrow> MRAPI_ERR_RWL_INVALID | SEM \<Rightarrow> MRAPI_ERR_SEM_INVALID | MUTEX \<Rightarrow> MRAPI_ERR_MUTEX_INVALID)"

definition notlocked_status :: "lock_type \<Rightarrow> mrapi_status" where
  "notlocked_status t = (case t of RWL \<Rightarrow> MRAPI_ERR_RWL_NOTLOCKED | SEM \<Rightarrow> MRAPI_ERR_SEM_NOTLOCKED | MUTEX \<Rightarrow> MRAPI_ERR_MUTEX_NOTLOCKED)"

definition new_entry :: "nat \<Rightarrow> int \<Rightarrow> u32 \<Rightarrow> lock_type \<Rightarrow> mrapi_lock list \<Rightarrow> mrapi_sem" where
  "new_entry s key limit t slots = zero_sem\<lparr>s_key := key, s_refs := 1, s_valid := True, shared_lock_limit := sint limit, s_type := t,
     locks := slots, s_handle := mrapi_impl_encode_hndl (word_of_nat s)\<rparr>"

definition add_entry :: "nat \<Rightarrow> nat \<Rightarrow> nat \<Rightarrow> mrapi_sem \<Rightarrow> mrapi_database \<Rightarrow> mrapi_database" where
  "add_entry d n s e db = (upd_mnode d n (\<lambda>nd. nd\<lparr>n_sems := (n_sems nd)(s := 1)\<rparr>) db)
     \<lparr>m_sems := (m_sems db)(s := e), num_sems := num_sems db + 1\<rparr>"

definition mrapi_impl_create_lock_locked ::
  "int \<Rightarrow> u32 \<Rightarrow> lock_type \<Rightarrow> mrapi_status \<Rightarrow> mrapi_sys \<Rightarrow> ((u32 option \<times> mrapi_status) \<times> mrapi_sys) option" where
  "mrapi_impl_create_lock_locked key limit t status sys = do {
     (node_id, n, d_id, d) \<leftarrow> mrapi_impl_whoami sys;
     let db = mdb sys;
     let dup = (if key = MRAPI_SEM_ID_ANY then MRAPI_MAX_SEMS
                else for_first (\<lambda>s. s_valid (m_sems db s) \<and> s_key (m_sems db s) = key) 0 MRAPI_MAX_SEMS);
     if dup \<noteq> MRAPI_MAX_SEMS then Some ((None, exists_status t), sys)
     else do {
       let s = for_first (\<lambda>s. \<not> s_valid (m_sems db s) \<and> \<not> s_deleted (m_sems db s)) 0 MRAPI_MAX_SEMS;
       if s = MRAPI_MAX_SEMS then Some ((None, status), sys)
       else do {
         slots \<leftarrow> validate_loop (unat limit) (locks zero_sem);
         let key = (if key = MRAPI_SEM_ID_ANY then sem_address sys s else key);
         Some ((Some (mrapi_impl_encode_hndl (word_of_nat s)), status),
               sys\<lparr>mdb := add_entry (unat d) (unat n) s (new_entry s key limit t slots) db\<rparr>)}}}"

text \<open>The attributes of a new entry, from the caller's or the defaults.\<close>

definition sem_attributes_of :: "mrapi_attributes option \<Rightarrow> mrapi_attributes \<Rightarrow> mrapi_attributes" where
  "sem_attributes_of attrs old = (case attrs of
     None \<Rightarrow> old\<lparr>ext_error_checking := 0, shared_across_domains := 1\<rparr>
   | Some a \<Rightarrow> old\<lparr>ext_error_checking := ext_error_checking a, shared_across_domains := shared_across_domains a\<rparr>)"

definition mutex_attributes_of :: "mrapi_attributes option \<Rightarrow> mrapi_attributes \<Rightarrow> mrapi_attributes" where
  "mutex_attributes_of attrs old = (case attrs of
     None \<Rightarrow> old\<lparr>recursive := 0, ext_error_checking := 0, shared_across_domains := 1\<rparr>
   | Some a \<Rightarrow> old\<lparr>recursive := recursive a, ext_error_checking := ext_error_checking a,
       shared_across_domains := shared_across_domains a\<rparr>)"

definition finish_create :: "lock_type \<Rightarrow> (mrapi_attributes \<Rightarrow> mrapi_attributes) \<Rightarrow>
    ((u32 option \<times> mrapi_status) \<times> mrapi_sys) \<Rightarrow> ((u32 option \<times> mrapi_status) \<times> mrapi_sys) option" where
  "finish_create t attrs = (\<lambda>((hndl, status), sys). case hndl of
     None \<Rightarrow> Some ((None, status), sys)
   | Some h \<Rightarrow> do {
       s \<leftarrow> mrapi_impl_decode_hndl h;
       Some ((Some h, status), sys\<lparr>mdb := upd_sem s (\<lambda>e. e\<lparr>s_type := t, s_attributes := attrs (s_attributes e)\<rparr>) (mdb sys)\<rparr>)})"

definition mrapi_impl_sem_create :: "int \<Rightarrow> mrapi_attributes option \<Rightarrow> u32 \<Rightarrow> mrapi_sys \<Rightarrow> ((u32 option \<times> mrapi_status) \<times> mrapi_sys) option" where
  "mrapi_impl_sem_create key attrs limit = with_section Semid (\<lambda>sys.
     Option.bind (mrapi_impl_create_lock_locked key limit SEM MRAPI_ERR_SEM_LIMIT sys) (finish_create SEM (sem_attributes_of attrs)))"

definition mrapi_impl_rwl_create :: "int \<Rightarrow> mrapi_attributes option \<Rightarrow> u32 \<Rightarrow> mrapi_sys \<Rightarrow> ((u32 option \<times> mrapi_status) \<times> mrapi_sys) option" where
  "mrapi_impl_rwl_create key attrs limit = with_section Semid (\<lambda>sys.
     Option.bind (mrapi_impl_create_lock_locked key limit RWL MRAPI_ERR_RWL_LIMIT sys) (finish_create RWL (sem_attributes_of attrs)))"

definition mrapi_impl_mutex_create :: "int \<Rightarrow> mrapi_attributes option \<Rightarrow> mrapi_sys \<Rightarrow> ((u32 option \<times> mrapi_status) \<times> mrapi_sys) option" where
  "mrapi_impl_mutex_create key attrs = with_section Semid (\<lambda>sys.
     Option.bind (mrapi_impl_create_lock_locked key 1 MUTEX MRAPI_ERR_MUTEX_LIMIT sys) (finish_create MUTEX (mutex_attributes_of attrs)))"

text \<open>The lookup by key does not ask whether the entry is in use; the handle is written in either case.\<close>

definition mrapi_impl_sem_get :: "int \<Rightarrow> mrapi_sys \<Rightarrow> ((bool \<times> u32) \<times> mrapi_sys) option" where
  "mrapi_impl_sem_get key = with_section Semid (\<lambda>sys. do {
     (node_id, n, domain_id, d) \<leftarrow> mrapi_impl_whoami sys;
     let db = mdb sys;
     let s = for_first (\<lambda>s. s_key (m_sems db s) = key) 0 MRAPI_MAX_SEMS;
     let hndl = mrapi_impl_encode_hndl (word_of_nat s);
     if s = MRAPI_MAX_SEMS then Some ((False, hndl), sys)
     else if n_sems (d_nodes (m_domains db (unat d)) (unat n)) s = 0
     then Some ((True, hndl), sys\<lparr>mdb := upd_sem s (\<lambda>e. e\<lparr>s_refs := s_refs e + 1\<rparr>)
            (upd_mnode (unat d) (unat n) (\<lambda>nd. nd\<lparr>n_sems := (n_sems nd)(s := 1)\<rparr>) db)\<rparr>)
     else Some ((True, hndl), sys)})"

definition mrapi_impl_mutex_get :: "int \<Rightarrow> mrapi_sys \<Rightarrow> ((bool \<times> u32) \<times> mrapi_sys) option" where
  "mrapi_impl_mutex_get key = mrapi_impl_sem_get key"

definition mrapi_impl_rwl_get :: "int \<Rightarrow> mrapi_sys \<Rightarrow> ((bool \<times> u32) \<times> mrapi_sys) option" where
  "mrapi_impl_rwl_get key = mrapi_impl_sem_get key"

definition mrapi_impl_sem_delete :: "u32 \<Rightarrow> mrapi_sys \<Rightarrow> (bool \<times> mrapi_sys) option" where
  "mrapi_impl_sem_delete sem sys = (case mrapi_impl_decode_hndl sem of
     None \<Rightarrow> Some (False, sys)
   | Some s \<Rightarrow> with_section (Sems_semid s) (\<lambda>sys. do {
       (node_id, n, domain_id, d) \<leftarrow> mrapi_impl_whoami sys;
       let e = m_sems (mdb sys) s;
       my_locks \<leftarrow> count_loop (holds n d) (unsigned_bound (shared_lock_limit e)) (locks e);
       if my_locks \<noteq> unsigned_bound (shared_lock_limit e) then Some (False, sys)
       else if s_valid e
       then Some (True, sys\<lparr>mdb := upd_sem s (\<lambda>e. e\<lparr>s_valid := False,
              s_deleted := (if ext_error_checking (s_attributes e) = 1 then True else s_deleted e)\<rparr>) (mdb sys)\<rparr>)
       else Some (True, sys)}) sys)"

definition mrapi_impl_mutex_delete :: "u32 \<Rightarrow> mrapi_sys \<Rightarrow> (bool \<times> mrapi_sys) option" where
  "mrapi_impl_mutex_delete mutex = mrapi_impl_sem_delete mutex"

definition mrapi_impl_rwl_delete :: "u32 \<Rightarrow> mrapi_sys \<Rightarrow> (bool \<times> mrapi_sys) option" where
  "mrapi_impl_rwl_delete rwl = mrapi_impl_sem_delete rwl"

section \<open>Locking and unlocking\<close>

text \<open>The number of locks that were added, the status and the state; the section of the entry is already held.\<close>

definition mrapi_impl_acquire_lock_locked ::
  "u32 \<Rightarrow> int \<Rightarrow> mrapi_status \<Rightarrow> mrapi_sys \<Rightarrow> ((int \<times> mrapi_status) \<times> mrapi_sys) option" where
  "mrapi_impl_acquire_lock_locked sem req status sys = do {
     (node_id, n, domain_id, d) \<leftarrow> mrapi_impl_whoami sys;
     (case mrapi_impl_decode_hndl sem of
        None \<Rightarrow> Some ((0, status), sys)
      | Some s \<Rightarrow> do {
          let e = m_sems (mdb sys) s;
          if shared_lock_limit e - num_locks e - req \<ge> 0
          then do {
            (added, slots) \<leftarrow> acquire_loop n d req (unsigned_bound (shared_lock_limit e)) 0 (locks e);
            Some ((added, if unsigned_bound (shared_lock_limit e) \<noteq> 0 \<and> added = req then MRAPI_SUCCESS else status),
                  sys\<lparr>mdb := upd_sem s (\<lambda>e. e\<lparr>locks := slots, num_locks := num_locks e + added\<rparr>) (mdb sys)\<rparr>)}
          else Some ((0, locked_status (s_type e)), sys)})}"

definition mrapi_impl_yield_locked :: "mrapi_section \<Rightarrow> (mrapi_database \<Rightarrow> mrapi_database) \<Rightarrow> mrapi_sys \<Rightarrow> mrapi_sys option" where
  "mrapi_impl_yield_locked sec others sys = do {
     sys \<leftarrow> mrapi_impl_access_database_post sec sys;
     mrapi_impl_access_database_pre sec (sys\<lparr>mdb := others (mdb sys)\<rparr>)}"

fun sem_lock_loop :: "nat \<Rightarrow> u32 \<Rightarrow> int \<Rightarrow> u32 \<Rightarrow> u32 \<Rightarrow> (mrapi_database \<Rightarrow> mrapi_database) list \<Rightarrow> mrapi_status \<Rightarrow> mrapi_sys \<Rightarrow>
    ((bool \<times> mrapi_status) \<times> mrapi_sys) option" where
  "sem_lock_loop s sem req timeout time env status sys = do {
     let time = time + 1;
     ((added, status), sys) \<leftarrow> mrapi_impl_acquire_lock_locked sem req status sys;
     if added = req then Some ((True, MRAPI_SUCCESS), sys)
     else (case env of
        [] \<Rightarrow> None
      | others # env \<Rightarrow> do {
          sys \<leftarrow> mrapi_impl_yield_locked (Sems_semid s) others sys;
          if timeout \<noteq> MRAPI_TIMEOUT_INFINITE \<and> time \<ge> timeout
          then Some ((False, if timeout \<noteq> 1 then MRAPI_TIMEOUT else status), sys)
          else sem_lock_loop s sem req timeout time env status sys})}"

definition mrapi_impl_sem_lock ::
  "(mrapi_database \<Rightarrow> mrapi_database) list \<Rightarrow> u32 \<Rightarrow> int \<Rightarrow> u32 \<Rightarrow> mrapi_status \<Rightarrow> mrapi_sys \<Rightarrow> ((bool \<times> mrapi_status) \<times> mrapi_sys) option" where
  "mrapi_impl_sem_lock env sem req timeout status sys = (case mrapi_impl_decode_hndl sem of
     None \<Rightarrow> Some ((False, status), sys)
   | Some s \<Rightarrow> with_section (Sems_semid s) (sem_lock_loop s sem req timeout 0 env status) sys)"

definition mrapi_impl_release_lock :: "u32 \<Rightarrow> int \<Rightarrow> mrapi_status \<Rightarrow> mrapi_sys \<Rightarrow> ((bool \<times> mrapi_status) \<times> mrapi_sys) option" where
  "mrapi_impl_release_lock sem req status sys = (case mrapi_impl_decode_hndl sem of
     None \<Rightarrow> Some ((False, status), sys)
   | Some s \<Rightarrow> with_section (Sems_semid s) (\<lambda>sys. do {
       (node_id, n, domain_id, d) \<leftarrow> mrapi_impl_whoami sys;
       let e = m_sems (mdb sys) s;
       if \<not> s_valid e then Some ((False, invalid_status (s_type e)), sys)
       else do {
         my_locks \<leftarrow> count_loop (holds n d) (nat (shared_lock_limit e)) (locks e);
         if my_locks < unsigned_bound req then Some ((False, notlocked_status (s_type e)), sys)
         else do {
           (removed, slots) \<leftarrow> release_loop n d (nat (shared_lock_limit e)) (word_of_int req) 0 (locks e);
           if removed \<noteq> unsigned_bound req then None
           else Some ((True, status),
             sys\<lparr>mdb := upd_sem s (\<lambda>e. e\<lparr>num_locks := num_locks e - req, locks := slots\<rparr>) (mdb sys)\<rparr>)}}}) sys)"

definition mrapi_impl_sem_unlock :: "u32 \<Rightarrow> int \<Rightarrow> mrapi_status \<Rightarrow> mrapi_sys \<Rightarrow> ((bool \<times> mrapi_status) \<times> mrapi_sys) option" where
  "mrapi_impl_sem_unlock sem req status = mrapi_impl_release_lock sem req status"

section \<open>Mutexes\<close>

text \<open>
  The lock key is an output parameter: the value it came with, or the nesting depth. A node that locks its own
  non-recursive mutex is turned away without a status.
\<close>

definition mutex_lock_again :: "u32 \<Rightarrow> u32 \<Rightarrow> nat \<Rightarrow> mrapi_sys \<Rightarrow> (u32 option option \<times> mrapi_sys) option" where
  "mutex_lock_again n d m sys = (let e = m_sems (mdb sys) m; x = locks e ! 0
     in if l_locked x \<and> ucast (lock_holder_nindex x) = n \<and> ucast (lock_holder_dindex x) = d
        then if recursive (s_attributes e) = 1
             then Some (Some (Some (lock_key x + 1)),
                    sys\<lparr>mdb := upd_sem m (\<lambda>e. e\<lparr>locks := (locks e)[0 := x\<lparr>lock_key := lock_key x + 1\<rparr>]\<rparr>) (mdb sys)\<rparr>)
             else Some (Some None, sys)
        else Some (None, sys))"

definition mrapi_impl_mutex_lock :: "(mrapi_database \<Rightarrow> mrapi_database) list \<Rightarrow> u32 \<Rightarrow> u32 \<Rightarrow> u32 \<Rightarrow> mrapi_status \<Rightarrow> mrapi_sys \<Rightarrow>
    ((bool \<times> u32 \<times> mrapi_status) \<times> mrapi_sys) option" where
  "mrapi_impl_mutex_lock env mutex key timeout status sys = do {
     (node_id, n, domain_id, d) \<leftarrow> mrapi_impl_whoami sys;
     m \<leftarrow> mrapi_impl_decode_hndl mutex;
     (again, sys) \<leftarrow> with_section (Sems_semid m) (mutex_lock_again n d m) sys;
     (case again of
        Some (Some depth) \<Rightarrow> Some ((True, depth, status), sys)
      | Some None \<Rightarrow> Some ((False, key, status), sys)
      | None \<Rightarrow> do {
          ((rc, status), sys) \<leftarrow> mrapi_impl_sem_lock env mutex 1 timeout status sys;
          Some ((rc, if rc then 0 else key, status), sys)})}"

text \<open>The depth is kept in a boolean, a byte: only its low eight bits count.\<close>

definition mutex_unlock_nested :: "u32 \<Rightarrow> u32 \<Rightarrow> nat \<Rightarrow> u32 \<Rightarrow> mrapi_sys \<Rightarrow> ((bool \<times> byte) \<times> mrapi_sys) option" where
  "mutex_unlock_nested n d m key sys = (let x = locks (m_sems (mdb sys) m) ! 0
     in if ucast (lock_holder_nindex x) = n \<and> ucast (lock_holder_dindex x) = d \<and> key = lock_key x \<and> key \<noteq> 0
        then Some ((True, ucast (lock_key x - 1)),
               sys\<lparr>mdb := upd_sem m (\<lambda>e. e\<lparr>locks := (locks e)[0 := x\<lparr>lock_key := lock_key x - 1\<rparr>]\<rparr>) (mdb sys)\<rparr>)
        else Some ((False, ucast (lock_key x)), sys))"

definition mrapi_impl_mutex_unlock :: "u32 \<Rightarrow> u32 \<Rightarrow> mrapi_status \<Rightarrow> mrapi_sys \<Rightarrow> ((bool \<times> mrapi_status) \<times> mrapi_sys) option" where
  "mrapi_impl_mutex_unlock mutex key status sys = do {
     (node_id, n, domain_id, d) \<leftarrow> mrapi_impl_whoami sys;
     m \<leftarrow> mrapi_impl_decode_hndl mutex;
     ((rc, recursively_locked), sys) \<leftarrow> with_section (Sems_semid m) (mutex_unlock_nested n d m key) sys;
     ((rc, status), sys) \<leftarrow> (if \<not> rc \<and> recursively_locked = 0 then mrapi_impl_release_lock mutex 1 status sys
                             else Some ((rc, status), sys));
     Some ((rc, if \<not> rc \<and> recursively_locked \<noteq> 0 then MRAPI_ERR_MUTEX_LOCKORDER else status), sys)}"

section \<open>Reader/writer locks\<close>

definition mrapi_impl_rwl_lock :: "(mrapi_database \<Rightarrow> mrapi_database) list \<Rightarrow> u32 \<Rightarrow> mrapi_rwl_mode \<Rightarrow> u32 \<Rightarrow> mrapi_status \<Rightarrow> mrapi_sys \<Rightarrow>
    ((bool \<times> mrapi_status) \<times> mrapi_sys) option" where
  "mrapi_impl_rwl_lock env rwl mode timeout status sys = (case mrapi_impl_decode_hndl rwl of
     None \<Rightarrow> Some ((False, status), sys)
   | Some s \<Rightarrow> (case mode of
       MRAPI_RWL_READER \<Rightarrow> mrapi_impl_sem_lock env rwl 1 timeout status sys
     | MRAPI_RWL_WRITER \<Rightarrow> do {
         (n, sys) \<leftarrow> with_section (Sems_semid s) (\<lambda>sys. Some (shared_lock_limit (m_sems (mdb sys) s), sys)) sys;
         mrapi_impl_sem_lock env rwl n timeout status sys}))"

definition mrapi_impl_rwl_unlock :: "u32 \<Rightarrow> mrapi_rwl_mode \<Rightarrow> mrapi_status \<Rightarrow> mrapi_sys \<Rightarrow> ((bool \<times> mrapi_status) \<times> mrapi_sys) option" where
  "mrapi_impl_rwl_unlock rwl mode status sys = (case mrapi_impl_decode_hndl rwl of
     None \<Rightarrow> Some ((False, status), sys)
   | Some s \<Rightarrow> (case mode of
       MRAPI_RWL_READER \<Rightarrow> mrapi_impl_sem_unlock rwl 1 status sys
     | MRAPI_RWL_WRITER \<Rightarrow> do {
         (n, sys) \<leftarrow> with_section (Sems_semid s) (\<lambda>sys. Some (shared_lock_limit (m_sems (mdb sys) s), sys)) sys;
         mrapi_impl_sem_unlock rwl n status sys}))"

section \<open>Attributes\<close>

definition MRAPI_MUTEX_RECURSIVE :: u32 where "MRAPI_MUTEX_RECURSIVE = 0"
definition MRAPI_ERROR_EXT :: u32 where "MRAPI_ERROR_EXT = 1"
definition MRAPI_DOMAIN_SHARED :: u32 where "MRAPI_DOMAIN_SHARED = 2"

text \<open>An attribute is one byte; the application passes its value and the size it claims for it.\<close>

definition mrapi_impl_sem_init_attributes :: "mrapi_attributes \<Rightarrow> mrapi_attributes" where
  "mrapi_impl_sem_init_attributes a = a\<lparr>ext_error_checking := 0, shared_across_domains := 1\<rparr>"

definition mrapi_impl_rwl_init_attributes :: "mrapi_attributes \<Rightarrow> mrapi_attributes" where
  "mrapi_impl_rwl_init_attributes a = a\<lparr>ext_error_checking := 0, shared_across_domains := 1\<rparr>"

definition mrapi_impl_mutex_init_attributes :: "mrapi_attributes \<Rightarrow> mrapi_attributes" where
  "mrapi_impl_mutex_init_attributes a = a\<lparr>recursive := 0, ext_error_checking := 0, shared_across_domains := 1\<rparr>"

definition mrapi_impl_sem_set_attribute :: "mrapi_attributes \<Rightarrow> u32 \<Rightarrow> byte \<Rightarrow> nat \<Rightarrow> mrapi_attributes \<times> mrapi_status" where
  "mrapi_impl_sem_set_attribute a num attribute attr_size =
     (if num = MRAPI_ERROR_EXT then
        if attr_size \<noteq> 1 then (a, MRAPI_ERR_ATTR_SIZE) else (a\<lparr>ext_error_checking := attribute\<rparr>, MRAPI_SUCCESS)
      else if num = MRAPI_DOMAIN_SHARED then
        if attr_size \<noteq> 1 then (a, MRAPI_ERR_ATTR_SIZE) else (a\<lparr>shared_across_domains := attribute\<rparr>, MRAPI_SUCCESS)
      else (a, MRAPI_ERR_ATTR_NUM))"

definition mrapi_impl_rwl_set_attribute :: "mrapi_attributes \<Rightarrow> u32 \<Rightarrow> byte \<Rightarrow> nat \<Rightarrow> mrapi_attributes \<times> mrapi_status" where
  "mrapi_impl_rwl_set_attribute a num attribute attr_size =
     (if num = MRAPI_ERROR_EXT then
        if attr_size \<noteq> 1 then (a, MRAPI_ERR_ATTR_SIZE) else (a\<lparr>ext_error_checking := attribute\<rparr>, MRAPI_SUCCESS)
      else if num = MRAPI_DOMAIN_SHARED then
        if attr_size \<noteq> 1 then (a, MRAPI_ERR_ATTR_SIZE) else (a\<lparr>shared_across_domains := attribute\<rparr>, MRAPI_SUCCESS)
      else (a, MRAPI_ERR_ATTR_NUM))"

definition mrapi_impl_mutex_set_attribute :: "mrapi_attributes \<Rightarrow> u32 \<Rightarrow> byte \<Rightarrow> nat \<Rightarrow> mrapi_attributes \<times> mrapi_status" where
  "mrapi_impl_mutex_set_attribute a num attribute attr_size =
     (if num = MRAPI_MUTEX_RECURSIVE then
        if attr_size \<noteq> 1 then (a, MRAPI_ERR_ATTR_SIZE) else (a\<lparr>recursive := attribute\<rparr>, MRAPI_SUCCESS)
      else if num = MRAPI_ERROR_EXT then
        if attr_size \<noteq> 1 then (a, MRAPI_ERR_ATTR_SIZE) else (a\<lparr>ext_error_checking := attribute\<rparr>, MRAPI_SUCCESS)
      else if num = MRAPI_DOMAIN_SHARED then
        if attr_size \<noteq> 1 then (a, MRAPI_ERR_ATTR_SIZE) else (a\<lparr>shared_across_domains := attribute\<rparr>, MRAPI_SUCCESS)
      else (a, MRAPI_ERR_ATTR_NUM))"

text \<open>The attribute of an entry: the byte that is copied out, if any, and the status.\<close>

definition read_attribute :: "byte \<Rightarrow> nat \<Rightarrow> byte option \<times> mrapi_status" where
  "read_attribute value attr_size = (if attr_size \<noteq> 1 then (None, MRAPI_ERR_ATTR_SIZE) else (Some value, MRAPI_SUCCESS))"

definition mrapi_impl_sem_get_attribute :: "u32 \<Rightarrow> u32 \<Rightarrow> nat \<Rightarrow> mrapi_sys \<Rightarrow> ((byte option \<times> mrapi_status) \<times> mrapi_sys) option" where
  "mrapi_impl_sem_get_attribute sem num attr_size sys = do {
     m \<leftarrow> mrapi_impl_decode_hndl sem;
     with_section (Sems_semid m) (\<lambda>sys. let a = s_attributes (m_sems (mdb sys) m) in
       Some (if num = MRAPI_ERROR_EXT then read_attribute (ext_error_checking a) attr_size
             else if num = MRAPI_DOMAIN_SHARED then read_attribute (shared_across_domains a) attr_size
             else (None, MRAPI_ERR_ATTR_NUM), sys)) sys}"

definition mrapi_impl_rwl_get_attribute :: "u32 \<Rightarrow> u32 \<Rightarrow> nat \<Rightarrow> mrapi_sys \<Rightarrow> ((byte option \<times> mrapi_status) \<times> mrapi_sys) option" where
  "mrapi_impl_rwl_get_attribute rwl num attr_size sys = do {
     r \<leftarrow> mrapi_impl_decode_hndl rwl;
     with_section (Sems_semid r) (\<lambda>sys. let a = s_attributes (m_sems (mdb sys) r) in
       Some (if num = MRAPI_ERROR_EXT then read_attribute (ext_error_checking a) attr_size
             else if num = MRAPI_DOMAIN_SHARED then read_attribute (shared_across_domains a) attr_size
             else (None, MRAPI_ERR_ATTR_NUM), sys)) sys}"

definition mrapi_impl_mutex_get_attribute :: "u32 \<Rightarrow> u32 \<Rightarrow> nat \<Rightarrow> mrapi_sys \<Rightarrow> ((byte option \<times> mrapi_status) \<times> mrapi_sys) option" where
  "mrapi_impl_mutex_get_attribute mutex num attr_size sys = do {
     m \<leftarrow> mrapi_impl_decode_hndl mutex;
     with_section (Sems_semid m) (\<lambda>sys. let a = s_attributes (m_sems (mdb sys) m) in
       Some (if num = MRAPI_MUTEX_RECURSIVE then read_attribute (recursive a) attr_size
             else if num = MRAPI_ERROR_EXT then read_attribute (ext_error_checking a) attr_size
             else if num = MRAPI_DOMAIN_SHARED then read_attribute (shared_across_domains a) attr_size
             else (None, MRAPI_ERR_ATTR_NUM), sys)) sys}"

end
