(* ===== verification/MRAPI_API.thy ===== *)
theory MRAPI_API
  imports MRAPI_Locks
begin

text \<open>
  The application interface to semaphores, mutexes and reader/writer locks (\<open>mrapi_sem.c\<close>,
  \<open>mrapi_mutex.c\<close>, \<open>mrapi_rwl.c\<close>) and the wrapper through which MCAPI locks its own database
  (\<open>transport_sm_mrapi_body.c\<close>). A result that the code leaves uninitialised is \<open>None\<close>; the status
  comes last, and calls that return without writing it give back the one they were passed.
\<close>

section \<open>Semaphores\<close>

text \<open>The identifiers of locks are all accepted.\<close>

definition mrapi_impl_sem_validID :: "int \<Rightarrow> bool" where "mrapi_impl_sem_validID sem = True"
definition mrapi_impl_mutex_validID :: "int \<Rightarrow> bool" where "mrapi_impl_mutex_validID mutex = True"
definition mrapi_impl_rwl_validID :: "int \<Rightarrow> bool" where "mrapi_impl_rwl_validID rwl = True"

text \<open>The handle that was created, or 0.\<close>

definition create_result :: "((u32 option \<times> mrapi_status) \<times> mrapi_sys) option \<Rightarrow> ((u32 \<times> mrapi_status) \<times> mrapi_sys) option" where
  "create_result r = map_option (\<lambda>((hndl, status), sys). case hndl of
     None \<Rightarrow> ((0, status), sys) | Some h \<Rightarrow> ((h, MRAPI_SUCCESS), sys)) r"

definition mrapi_sem_create :: "int \<Rightarrow> mrapi_attributes option \<Rightarrow> u32 \<Rightarrow> mrapi_sys \<Rightarrow> ((u32 \<times> mrapi_status) \<times> mrapi_sys) option" where
  "mrapi_sem_create sem_id attrs limit sys =
     (if \<not> mrapi_impl_initialized sys then Some ((0, MRAPI_ERR_NODE_NOTINIT), sys)
      else if \<not> mrapi_impl_sem_validID sem_id then Some ((0, MRAPI_ERR_SEM_ID_INVALID), sys)
      else if limit = 0 \<or> unat limit > MRAPI_MAX_SHARED_LOCKS then Some ((0, MRAPI_ERR_SEM_LOCKLIMIT), sys)
      else create_result (mrapi_impl_sem_create sem_id attrs limit sys))"

definition mrapi_sem_init_attributes :: "mrapi_attributes option \<Rightarrow> mrapi_attributes option \<times> mrapi_status" where
  "mrapi_sem_init_attributes attrs = (case attrs of None \<Rightarrow> (None, MRAPI_ERR_PARAMETER)
   | Some a \<Rightarrow> (Some (mrapi_impl_sem_init_attributes a), MRAPI_SUCCESS))"

definition mrapi_sem_set_attribute :: "mrapi_attributes option \<Rightarrow> u32 \<Rightarrow> byte \<Rightarrow> nat \<Rightarrow> mrapi_attributes option \<times> mrapi_status" where
  "mrapi_sem_set_attribute attrs num attribute attr_size = (case attrs of None \<Rightarrow> (None, MRAPI_ERR_PARAMETER)
   | Some a \<Rightarrow> map_prod Some id (mrapi_impl_sem_set_attribute a num attribute attr_size))"

text \<open>\<open>present\<close> says that the application gave a buffer for the value.\<close>

definition mrapi_sem_get_attribute :: "u32 \<Rightarrow> u32 \<Rightarrow> bool \<Rightarrow> nat \<Rightarrow> mrapi_sys \<Rightarrow> ((byte option \<times> mrapi_status) \<times> mrapi_sys) option" where
  "mrapi_sem_get_attribute sem num present attr_size sys =
     (if \<not> mrapi_impl_initialized sys then Some ((None, MRAPI_ERR_NODE_NOTINIT), sys)
      else if \<not> present then Some ((None, MRAPI_ERR_PARAMETER), sys)
      else do {
        ((ok, status), sys) \<leftarrow> mrapi_impl_valid_sem_hndl sem sys;
        if ok then mrapi_impl_sem_get_attribute sem num attr_size sys else Some ((None, status), sys)})"

definition mrapi_sem_get :: "int \<Rightarrow> mrapi_sys \<Rightarrow> ((u32 option \<times> mrapi_status) \<times> mrapi_sys) option" where
  "mrapi_sem_get sem_id sys =
     (if \<not> mrapi_impl_initialized sys then Some ((None, MRAPI_ERR_NODE_NOTINIT), sys)
      else do {
        ((found, hndl), sys) \<leftarrow> mrapi_impl_sem_get sem_id sys;
        Some ((Some hndl, if found then MRAPI_SUCCESS else MRAPI_ERR_SEM_ID_INVALID), sys)})"

definition mrapi_sem_delete :: "u32 \<Rightarrow> mrapi_sys \<Rightarrow> (mrapi_status \<times> mrapi_sys) option" where
  "mrapi_sem_delete sem sys =
     (if \<not> mrapi_impl_initialized sys then Some (MRAPI_ERR_NODE_NOTINIT, sys)
      else do {
        ((ok, status), sys) \<leftarrow> mrapi_impl_valid_sem_hndl sem sys;
        if ok then do {
          (rc, sys) \<leftarrow> mrapi_impl_sem_delete sem sys;
          Some (if rc then MRAPI_SUCCESS else MRAPI_ERR_SEM_LOCKED, sys)}
        else Some (status, sys)})"

definition mrapi_sem_lock :: "(mrapi_database \<Rightarrow> mrapi_database) list \<Rightarrow> u32 \<Rightarrow> u32 \<Rightarrow> mrapi_sys \<Rightarrow> (mrapi_status \<times> mrapi_sys) option" where
  "mrapi_sem_lock env sem timeout sys =
     (if \<not> mrapi_impl_initialized sys then Some (MRAPI_ERR_NODE_NOTINIT, sys)
      else do {
        ((ok, status), sys) \<leftarrow> mrapi_impl_valid_sem_hndl sem sys;
        if ok then do {
          ((rc, status), sys) \<leftarrow> mrapi_impl_sem_lock env sem 1 timeout status sys;
          Some (status, sys)}
        else Some (status, sys)})"

definition mrapi_sem_trylock :: "(mrapi_database \<Rightarrow> mrapi_database) list \<Rightarrow> u32 \<Rightarrow> mrapi_sys \<Rightarrow> ((bool \<times> mrapi_status) \<times> mrapi_sys) option" where
  "mrapi_sem_trylock env sem sys =
     (if \<not> mrapi_impl_initialized sys then Some ((False, MRAPI_ERR_NODE_NOTINIT), sys)
      else do {
        ((ok, status), sys) \<leftarrow> mrapi_impl_valid_sem_hndl sem sys;
        if ok then mrapi_impl_sem_lock env sem 1 1 status sys else Some ((False, status), sys)})"

definition mrapi_sem_unlock :: "u32 \<Rightarrow> mrapi_sys \<Rightarrow> (mrapi_status \<times> mrapi_sys) option" where
  "mrapi_sem_unlock sem sys =
     (if \<not> mrapi_impl_initialized sys then Some (MRAPI_ERR_NODE_NOTINIT, sys)
      else do {
        ((ok, status), sys) \<leftarrow> mrapi_impl_valid_sem_hndl sem sys;
        if ok then do {
          ((rc, status), sys) \<leftarrow> mrapi_impl_sem_unlock sem 1 status sys;
          Some (status, sys)}
        else Some (status, sys)})"

section \<open>Mutexes\<close>

text \<open>A failure to create is always reported as a mutex that exists.\<close>

definition mrapi_mutex_create :: "int \<Rightarrow> mrapi_attributes option \<Rightarrow> mrapi_sys \<Rightarrow> ((u32 \<times> mrapi_status) \<times> mrapi_sys) option" where
  "mrapi_mutex_create mutex_id attrs sys =
     (if \<not> mrapi_impl_initialized sys then Some ((0, MRAPI_ERR_NODE_NOTINIT), sys)
      else if \<not> mrapi_impl_mutex_validID mutex_id then Some ((0, MRAPI_ERR_MUTEX_ID_INVALID), sys)
      else do {
        ((hndl, status), sys) \<leftarrow> mrapi_impl_mutex_create mutex_id attrs sys;
        Some (case hndl of None \<Rightarrow> (0, MRAPI_ERR_MUTEX_EXISTS) | Some h \<Rightarrow> (h, MRAPI_SUCCESS), sys)})"

definition mrapi_mutex_init_attributes :: "mrapi_attributes option \<Rightarrow> mrapi_attributes option \<times> mrapi_status" where
  "mrapi_mutex_init_attributes attrs = (case attrs of None \<Rightarrow> (None, MRAPI_ERR_PARAMETER)
   | Some a \<Rightarrow> (Some (mrapi_impl_mutex_init_attributes a), MRAPI_SUCCESS))"

definition mrapi_mutex_set_attribute :: "mrapi_attributes option \<Rightarrow> u32 \<Rightarrow> byte \<Rightarrow> nat \<Rightarrow> mrapi_attributes option \<times> mrapi_status" where
  "mrapi_mutex_set_attribute attrs num attribute attr_size = (case attrs of None \<Rightarrow> (None, MRAPI_ERR_PARAMETER)
   | Some a \<Rightarrow> map_prod Some id (mrapi_impl_mutex_set_attribute a num attribute attr_size))"

definition mrapi_mutex_get_attribute :: "u32 \<Rightarrow> u32 \<Rightarrow> bool \<Rightarrow> nat \<Rightarrow> mrapi_sys \<Rightarrow> ((byte option \<times> mrapi_status) \<times> mrapi_sys) option" where
  "mrapi_mutex_get_attribute mutex num present attr_size sys =
     (if \<not> mrapi_impl_initialized sys then Some ((None, MRAPI_ERR_NODE_NOTINIT), sys)
      else if \<not> present then Some ((None, MRAPI_ERR_PARAMETER), sys)
      else do {
        ((ok, status), sys) \<leftarrow> mrapi_impl_valid_mutex_hndl mutex sys;
        if ok then mrapi_impl_mutex_get_attribute mutex num attr_size sys else Some ((None, status), sys)})"

definition mrapi_mutex_get :: "int \<Rightarrow> mrapi_sys \<Rightarrow> ((u32 option \<times> mrapi_status) \<times> mrapi_sys) option" where
  "mrapi_mutex_get mutex_id sys =
     (if \<not> mrapi_impl_initialized sys then Some ((None, MRAPI_ERR_NODE_NOTINIT), sys)
      else do {
        ((found, hndl), sys) \<leftarrow> mrapi_impl_mutex_get mutex_id sys;
        Some ((Some hndl, if found then MRAPI_SUCCESS else MRAPI_ERR_MUTEX_ID_INVALID), sys)})"

definition mrapi_mutex_delete :: "u32 \<Rightarrow> mrapi_sys \<Rightarrow> (mrapi_status \<times> mrapi_sys) option" where
  "mrapi_mutex_delete mutex sys =
     (if \<not> mrapi_impl_initialized sys then Some (MRAPI_ERR_NODE_NOTINIT, sys)
      else do {
        ((ok, status), sys) \<leftarrow> mrapi_impl_valid_mutex_hndl mutex sys;
        if ok then do {
          (rc, sys) \<leftarrow> mrapi_impl_mutex_delete mutex sys;
          Some (if rc then MRAPI_SUCCESS else MRAPI_ERR_MUTEX_LOCKED, sys)}
        else Some (status, sys)})"

text \<open>The result of the implementation is dropped: only the status and the key are given back.\<close>

definition mrapi_mutex_lock :: "(mrapi_database \<Rightarrow> mrapi_database) list \<Rightarrow> u32 \<Rightarrow> u32 \<Rightarrow> u32 \<Rightarrow> mrapi_sys \<Rightarrow> ((u32 \<times> mrapi_status) \<times> mrapi_sys) option" where
  "mrapi_mutex_lock env mutex key timeout sys =
     (if \<not> mrapi_impl_initialized sys then Some ((key, MRAPI_ERR_NODE_NOTINIT), sys)
      else do {
        ((ok, status), sys) \<leftarrow> mrapi_impl_valid_mutex_hndl mutex sys;
        if ok then do {
          ((rc, key, status), sys) \<leftarrow> mrapi_impl_mutex_lock env mutex key timeout status sys;
          Some ((key, status), sys)}
        else Some ((key, status), sys)})"

definition mrapi_mutex_trylock :: "(mrapi_database \<Rightarrow> mrapi_database) list \<Rightarrow> u32 \<Rightarrow> u32 \<Rightarrow> mrapi_sys \<Rightarrow> ((bool \<times> u32 \<times> mrapi_status) \<times> mrapi_sys) option" where
  "mrapi_mutex_trylock env mutex key sys =
     (if \<not> mrapi_impl_initialized sys then Some ((False, key, MRAPI_ERR_NODE_NOTINIT), sys)
      else do {
        ((ok, status), sys) \<leftarrow> mrapi_impl_valid_mutex_hndl mutex sys;
        if ok then mrapi_impl_mutex_lock env mutex key 1 status sys else Some ((False, key, status), sys)})"

definition mrapi_mutex_unlock :: "u32 \<Rightarrow> u32 \<Rightarrow> mrapi_sys \<Rightarrow> (mrapi_status \<times> mrapi_sys) option" where
  "mrapi_mutex_unlock mutex key sys =
     (if \<not> mrapi_impl_initialized sys then Some (MRAPI_ERR_NODE_NOTINIT, sys)
      else do {
        ((ok, status), sys) \<leftarrow> mrapi_impl_valid_mutex_hndl mutex sys;
        if ok then do {
          ((rc, status), sys) \<leftarrow> mrapi_impl_mutex_unlock mutex key status sys;
          Some (status, sys)}
        else Some (status, sys)})"

section \<open>Reader/writer locks\<close>

text \<open>Unlike a semaphore's, the limit is not checked.\<close>

definition mrapi_rwl_create :: "int \<Rightarrow> mrapi_attributes option \<Rightarrow> u32 \<Rightarrow> mrapi_sys \<Rightarrow> ((u32 \<times> mrapi_status) \<times> mrapi_sys) option" where
  "mrapi_rwl_create rwl_id attrs limit sys =
     (if \<not> mrapi_impl_initialized sys then Some ((0, MRAPI_ERR_NODE_NOTINIT), sys)
      else if \<not> mrapi_impl_rwl_validID rwl_id then Some ((0, MRAPI_ERR_RWL_ID_INVALID), sys)
      else create_result (mrapi_impl_rwl_create rwl_id attrs limit sys))"

definition mrapi_rwl_init_attributes :: "mrapi_attributes option \<Rightarrow> mrapi_attributes option \<times> mrapi_status" where
  "mrapi_rwl_init_attributes attrs = (case attrs of None \<Rightarrow> (None, MRAPI_ERR_PARAMETER)
   | Some a \<Rightarrow> (Some (mrapi_impl_rwl_init_attributes a), MRAPI_SUCCESS))"

definition mrapi_rwl_set_attribute :: "mrapi_attributes option \<Rightarrow> u32 \<Rightarrow> byte \<Rightarrow> nat \<Rightarrow> mrapi_attributes option \<times> mrapi_status" where
  "mrapi_rwl_set_attribute attrs num attribute attr_size = (case attrs of None \<Rightarrow> (None, MRAPI_ERR_PARAMETER)
   | Some a \<Rightarrow> map_prod Some id (mrapi_impl_rwl_set_attribute a num attribute attr_size))"

definition mrapi_rwl_get_attribute :: "u32 \<Rightarrow> u32 \<Rightarrow> bool \<Rightarrow> nat \<Rightarrow> mrapi_sys \<Rightarrow> ((byte option \<times> mrapi_status) \<times> mrapi_sys) option" where
  "mrapi_rwl_get_attribute rwl num present attr_size sys =
     (if \<not> mrapi_impl_initialized sys then Some ((None, MRAPI_ERR_NODE_NOTINIT), sys)
      else if \<not> present then Some ((None, MRAPI_ERR_PARAMETER), sys)
      else do {
        ((ok, status), sys) \<leftarrow> mrapi_impl_valid_rwl_hndl rwl sys;
        if ok then mrapi_impl_rwl_get_attribute rwl num attr_size sys else Some ((None, status), sys)})"

definition mrapi_rwl_get :: "int \<Rightarrow> mrapi_sys \<Rightarrow> ((u32 option \<times> mrapi_status) \<times> mrapi_sys) option" where
  "mrapi_rwl_get rwl_id sys =
     (if \<not> mrapi_impl_initialized sys then Some ((None, MRAPI_ERR_NODE_NOTINIT), sys)
      else do {
        ((found, hndl), sys) \<leftarrow> mrapi_impl_rwl_get rwl_id sys;
        Some ((Some hndl, if found then MRAPI_SUCCESS else MRAPI_ERR_RWL_ID_INVALID), sys)})"

definition mrapi_rwl_delete :: "u32 \<Rightarrow> mrapi_sys \<Rightarrow> (mrapi_status \<times> mrapi_sys) option" where
  "mrapi_rwl_delete rwl sys =
     (if \<not> mrapi_impl_initialized sys then Some (MRAPI_ERR_NODE_NOTINIT, sys)
      else do {
        ((ok, status), sys) \<leftarrow> mrapi_impl_valid_rwl_hndl rwl sys;
        if ok then do {
          (rc, sys) \<leftarrow> mrapi_impl_rwl_delete rwl sys;
          Some (if rc then MRAPI_SUCCESS else MRAPI_ERR_RWL_LOCKED, sys)}
        else Some (status, sys)})"

definition mrapi_rwl_lock :: "(mrapi_database \<Rightarrow> mrapi_database) list \<Rightarrow> u32 \<Rightarrow> mrapi_rwl_mode \<Rightarrow> u32 \<Rightarrow> mrapi_sys \<Rightarrow> (mrapi_status \<times> mrapi_sys) option" where
  "mrapi_rwl_lock env rwl mode timeout sys =
     (if \<not> mrapi_impl_initialized sys then Some (MRAPI_ERR_NODE_NOTINIT, sys)
      else do {
        ((ok, status), sys) \<leftarrow> mrapi_impl_valid_rwl_hndl rwl sys;
        if ok then do {
          ((rc, status), sys) \<leftarrow> mrapi_impl_rwl_lock env rwl mode timeout status sys;
          Some (status, sys)}
        else Some (status, sys)})"

definition mrapi_rwl_trylock :: "(mrapi_database \<Rightarrow> mrapi_database) list \<Rightarrow> u32 \<Rightarrow> mrapi_rwl_mode \<Rightarrow> mrapi_sys \<Rightarrow> ((bool \<times> mrapi_status) \<times> mrapi_sys) option" where
  "mrapi_rwl_trylock env rwl mode sys =
     (if \<not> mrapi_impl_initialized sys then Some ((False, MRAPI_ERR_NODE_NOTINIT), sys)
      else do {
        ((ok, status), sys) \<leftarrow> mrapi_impl_valid_rwl_hndl rwl sys;
        if ok then mrapi_impl_rwl_lock env rwl mode 1 status sys else Some ((False, status), sys)})"

definition mrapi_rwl_unlock :: "u32 \<Rightarrow> mrapi_rwl_mode \<Rightarrow> mrapi_sys \<Rightarrow> (mrapi_status \<times> mrapi_sys) option" where
  "mrapi_rwl_unlock rwl mode sys =
     (if \<not> mrapi_impl_initialized sys then Some (MRAPI_ERR_NODE_NOTINIT, sys)
      else do {
        ((ok, status), sys) \<leftarrow> mrapi_impl_valid_rwl_hndl rwl sys;
        if ok then do {
          ((rc, status), sys) \<leftarrow> mrapi_impl_rwl_unlock rwl mode status sys;
          Some (status, sys)}
        else Some (status, sys)})"

section \<open>The lock of the MCAPI database\<close>

text \<open>The calls with which the MCAPI transport takes and gives back its lock, with an infinite timeout.\<close>

definition rwl_mode_of :: "bool \<Rightarrow> mrapi_rwl_mode" where
  "rwl_mode_of write = (if write then MRAPI_RWL_WRITER else MRAPI_RWL_READER)"

definition transport_sm_lock_rwl :: "(mrapi_database \<Rightarrow> mrapi_database) list \<Rightarrow> u32 \<Rightarrow> bool \<Rightarrow> mrapi_sys \<Rightarrow> (bool \<times> mrapi_sys) option" where
  "transport_sm_lock_rwl env handle write sys = do {
     (status, sys) \<leftarrow> mrapi_rwl_lock env handle (rwl_mode_of write) MRAPI_TIMEOUT_INFINITE sys;
     Some (status = MRAPI_SUCCESS, sys)}"

definition transport_sm_unlock_rwl :: "u32 \<Rightarrow> bool \<Rightarrow> mrapi_sys \<Rightarrow> (bool \<times> mrapi_sys) option" where
  "transport_sm_unlock_rwl handle write sys = do {
     (status, sys) \<leftarrow> mrapi_rwl_unlock handle (rwl_mode_of write) sys;
     Some (status = MRAPI_SUCCESS, sys)}"

end
