(* ===== verification/MRAPI_Slots.thy ===== *)
theory MRAPI_Slots
  imports MRAPI_API
begin

text \<open>
  What the slot loops of the resource layer compute. The interface \<open>counting_lock\<close> states what a lock with a
  limit promises to the nodes that share it: a request is granted exactly when it fits, it changes only the count of the
  node that makes it, and a release gives back what its caller holds. Mutual exclusion of a full holder and the
  behaviour of runs follow from the interface; the entries of the lock table are an instance.
\<close>

section \<open>The interface of a counting lock\<close>

datatype 'w lock_op = Take 'w nat | Give 'w nat

fun op_owner :: "'w lock_op \<Rightarrow> 'w" where
  "op_owner (Take w k) = w"
| "op_owner (Give w k) = w"

fun op_amount :: "'w lock_op \<Rightarrow> nat" where
  "op_amount (Take w k) = k"
| "op_amount (Give w k) = k"

locale counting_lock =
  fixes ok :: "'s \<Rightarrow> bool"
    and capacity :: "'s \<Rightarrow> nat"
    and total :: "'s \<Rightarrow> nat"
    and holding :: "'s \<Rightarrow> 'w \<Rightarrow> nat"
    and acquire :: "'w \<Rightarrow> nat \<Rightarrow> 's \<Rightarrow> 's option"
    and release :: "'w \<Rightarrow> nat \<Rightarrow> 's \<Rightarrow> 's option"
  assumes acquire_iff: "ok s \<Longrightarrow> 0 < k \<Longrightarrow> acquire w k s \<noteq> None \<longleftrightarrow> total s + k \<le> capacity s"
    and acquire_ok: "ok s \<Longrightarrow> 0 < k \<Longrightarrow> acquire w k s = Some t \<Longrightarrow> ok t"
    and acquire_capacity: "ok s \<Longrightarrow> 0 < k \<Longrightarrow> acquire w k s = Some t \<Longrightarrow> capacity t = capacity s"
    and acquire_total: "ok s \<Longrightarrow> 0 < k \<Longrightarrow> acquire w k s = Some t \<Longrightarrow> total t = total s + k"
    and acquire_holding: "ok s \<Longrightarrow> 0 < k \<Longrightarrow> acquire w k s = Some t \<Longrightarrow> holding t = (holding s)(w := holding s w + k)"
    and release_iff: "ok s \<Longrightarrow> 0 < k \<Longrightarrow> release w k s \<noteq> None \<longleftrightarrow> k \<le> holding s w"
    and release_ok: "ok s \<Longrightarrow> 0 < k \<Longrightarrow> release w k s = Some t \<Longrightarrow> ok t"
    and release_capacity: "ok s \<Longrightarrow> 0 < k \<Longrightarrow> release w k s = Some t \<Longrightarrow> capacity t = capacity s"
    and release_total: "ok s \<Longrightarrow> 0 < k \<Longrightarrow> release w k s = Some t \<Longrightarrow> total t = total s - k"
    and release_holding: "ok s \<Longrightarrow> 0 < k \<Longrightarrow> release w k s = Some t \<Longrightarrow> holding t = (holding s)(w := holding s w - k)"
    and total_le: "ok s \<Longrightarrow> total s \<le> capacity s"
    and holding_pair: "ok s \<Longrightarrow> v \<noteq> w \<Longrightarrow> holding s v + holding s w \<le> total s"
begin

definition attempt :: "'w lock_op \<Rightarrow> 's \<Rightarrow> 's option" where
  "attempt p s = (case p of Take w k \<Rightarrow> acquire w k s | Give w k \<Rightarrow> release w k s)"

definition step :: "'w lock_op \<Rightarrow> 's \<Rightarrow> 's" where
  "step p s = (case attempt p s of None \<Rightarrow> s | Some t \<Rightarrow> t)"

lemma step_ok: "ok s \<Longrightarrow> 0 < op_amount p \<Longrightarrow> ok (step p s)"
  by (cases p; cases "attempt p s") (auto simp: step_def attempt_def dest: acquire_ok release_ok)

lemma step_capacity: "ok s \<Longrightarrow> 0 < op_amount p \<Longrightarrow> capacity (step p s) = capacity s"
  by (cases p; cases "attempt p s") (auto simp: step_def attempt_def dest: acquire_capacity release_capacity)

lemma step_holding:
  "ok s \<Longrightarrow> 0 < op_amount p \<Longrightarrow> op_owner p \<noteq> w \<Longrightarrow> holding (step p s) w = holding s w"
  by (cases p; cases "attempt p s") (auto simp: step_def attempt_def dest: acquire_holding release_holding)

lemma steps_holding:
  assumes "ok s" and "\<And>p. p \<in> set ps \<Longrightarrow> 0 < op_amount p \<and> op_owner p \<noteq> w"
  shows "ok (fold step ps s) \<and> capacity (fold step ps s) = capacity s \<and> holding (fold step ps s) w = holding s w"
  using assms by (induction ps arbitrary: s) (auto simp: step_ok step_capacity step_holding)

lemma holding_le: "ok s \<Longrightarrow> v \<noteq> (w :: 'w) \<Longrightarrow> holding s w \<le> capacity s"
  using holding_pair [of s v w] total_le [of s] by simp

text \<open>A node that holds the whole capacity excludes the others, whatever they try.\<close>

lemma full_excludes:
  assumes "ok s" and "holding s w = capacity s" and "op_owner p \<noteq> w" and "0 < op_amount p"
  shows "attempt p s = None"
proof -
  have "holding s (op_owner p) + capacity s \<le> total s"
    using assms holding_pair [of s "op_owner p" w] by simp
  with total_le [OF assms(1)] have "holding s (op_owner p) = 0" and "total s = capacity s" by simp_all
  with assms acquire_iff [of s "op_amount p" "op_owner p"] release_iff [of s "op_amount p" "op_owner p"]
  show ?thesis by (cases p) (auto simp: attempt_def)
qed

lemma full_stays:
  assumes "ok s" and "holding s w = capacity s" and "\<And>p. p \<in> set ps \<Longrightarrow> 0 < op_amount p \<and> op_owner p \<noteq> w"
  shows "fold step ps s = s"
  using assms by (induction ps) (auto simp: step_def full_excludes)

text \<open>What one node takes it can give back, and the counts are as before.\<close>

lemma take_give:
  assumes "ok s" and "0 < k" and "acquire w k s = Some t"
  shows "\<exists>u. release w k t = Some u \<and> holding u = holding s \<and> total u = total s"
proof -
  have t: "ok t" "holding t = (holding s)(w := holding s w + k)" "total t = total s + k"
    using acquire_ok [OF assms] acquire_holding [OF assms] acquire_total [OF assms] by auto
  then obtain u where u: "release w k t = Some u" using release_iff [of t k w] assms(2) by auto
  with release_holding [OF t(1) assms(2) u] release_total [OF t(1) assms(2) u] t show ?thesis by simp
qed

end

section \<open>The loops over the slots\<close>

definition count_if :: "('a \<Rightarrow> bool) \<Rightarrow> 'a list \<Rightarrow> nat" where
  "count_if p xs = length (filter p xs)"

lemma count_if_simps [simp]:
  "count_if p [] = 0"
  "count_if p (x # xs) = (if p x then 1 else 0) + count_if p xs"
  by (simp_all add: count_if_def)

definition unused_slot :: "mrapi_lock \<Rightarrow> bool" where
  "unused_slot x = (l_valid x \<and> \<not> l_locked x)"

definition taken_slot :: "mrapi_lock \<Rightarrow> bool" where
  "taken_slot x = (l_valid x \<and> l_locked x)"

text \<open>The slots up to the limit are the valid ones.\<close>

definition valid_prefix :: "nat \<Rightarrow> mrapi_lock list \<Rightarrow> bool" where
  "valid_prefix k xs \<longleftrightarrow> k \<le> length xs \<and> map l_valid xs = replicate k True @ replicate (length xs - k) False"

lemma valid_prefix_Cons [simp]:
  "valid_prefix (Suc k) (x # xs) \<longleftrightarrow> l_valid x \<and> valid_prefix k xs"
  by (auto simp: valid_prefix_def)

lemma valid_prefix_Nil [simp]: "valid_prefix (Suc k) [] = False"
  by (simp add: valid_prefix_def)

lemma valid_prefix_0: "valid_prefix 0 xs \<Longrightarrow> (\<And>x. p x \<Longrightarrow> l_valid x) \<Longrightarrow> count_if p xs = 0"
  by (induction xs) (auto simp: valid_prefix_def)

lemma valid_prefix_valid: "valid_prefix k xs \<Longrightarrow> count_if l_valid xs = k"
proof (induction xs arbitrary: k)
  case (Cons x xs)
  show ?case
  proof (cases k)
    case 0
    with Cons.prems valid_prefix_0 [of "x # xs" l_valid] show ?thesis by simp
  next
    case (Suc j)
    with Cons.prems Cons.IH [of j] show ?thesis by simp
  qed
qed (auto simp: valid_prefix_def)

lemma free_or_taken: "count_if unused_slot xs + count_if taken_slot xs = count_if l_valid xs"
  by (induction xs) (auto simp: unused_slot_def taken_slot_def)

lemma holds_valid: "holds n d x \<Longrightarrow> taken_slot x"
  by (simp add: holds_def taken_slot_def)

lemma count_if_mono: "(\<And>x. p x \<Longrightarrow> q x) \<Longrightarrow> count_if p xs \<le> count_if q xs"
  by (induction xs) auto

lemma holds_disjoint:
  "(n, d) \<noteq> (n', d') \<Longrightarrow> count_if (holds n d) xs + count_if (holds n' d') xs \<le> count_if taken_slot xs"
  by (induction xs) (auto simp: holds_def taken_slot_def)

lemma count_loop_eq:
  "valid_prefix k xs \<Longrightarrow> (\<And>x. p x \<Longrightarrow> l_valid x) \<Longrightarrow> count_loop p k xs = Some (count_if p xs)"
  by (induction p k xs rule: count_loop.induct) (auto simp: valid_prefix_0)

lemma byte_index: "unat (n :: u32) < 256 \<Longrightarrow> ucast (ucast n :: byte) = n"
  by (rule unsigned_word_eqI [where 'a = nat]) (simp add: unsigned_ucast_eq unsigned_take_bit_eq take_bit_nat_eq_self)

definition claim :: "u32 \<Rightarrow> u32 \<Rightarrow> mrapi_lock \<Rightarrow> mrapi_lock" where
  "claim n d x = x\<lparr>l_locked := True, lock_holder_nindex := ucast n, lock_holder_dindex := ucast d\<rparr>"

lemma claim_slot:
  assumes "unused_slot x" and "unat n < 256" and "unat d < 256"
  shows "l_valid (claim n d x)" and "taken_slot (claim n d x)" and "\<not> taken_slot x" and "\<not> holds n' d' x"
    and "holds n' d' (claim n d x) \<longleftrightarrow> n' = n \<and> d' = d"
  using assms by (auto simp: claim_def unused_slot_def taken_slot_def holds_def byte_index)

lemma count_holds: "valid_prefix k xs \<Longrightarrow> count_loop (holds n d) k xs = Some (count_if (holds n d) xs)"
  by (rule count_loop_eq) (auto simp: holds_def)

text \<open>Taking \<open>m\<close> slots: they come out of the free ones and count for the caller alone.\<close>

lemma acquire_loop_Cons:
  "acquire_loop n d req (Suc k) added (x # xs) =
     (let x' = (if unused_slot x then claim n d x else x); added' = (if unused_slot x then added + 1 else added)
      in if added' = req then Some (added', x' # xs)
         else map_option (\<lambda>(a, ys). (a, x' # ys)) (acquire_loop n d req k added' xs))"
  by (simp add: unused_slot_def claim_def Let_def)

text \<open>\<open>ys\<close> has \<open>m\<close> more slots taken by \<open>(n, d)\<close> than \<open>xs\<close>, and nothing else is different.\<close>

definition slots_gain :: "u32 \<Rightarrow> u32 \<Rightarrow> nat \<Rightarrow> mrapi_lock list \<Rightarrow> mrapi_lock list \<Rightarrow> bool" where
  "slots_gain n d m xs ys \<longleftrightarrow> map l_valid ys = map l_valid xs \<and> count_if taken_slot ys = count_if taken_slot xs + m \<and>
     (\<forall>n' d'. count_if (holds n' d') ys = count_if (holds n' d') xs + (if n' = n \<and> d' = d then m else 0))"

lemma slots_gain_prefix: "slots_gain n d m xs ys \<Longrightarrow> valid_prefix k ys = valid_prefix k xs"
  by (auto simp: slots_gain_def valid_prefix_def dest: map_eq_imp_length_eq)

lemma slots_gain_length: "slots_gain n d m xs ys \<Longrightarrow> length ys = length xs"
  by (auto simp: slots_gain_def dest: map_eq_imp_length_eq)

lemma slots_gain_same: "slots_gain n d m xs ys \<Longrightarrow> slots_gain n d m (x # xs) (x # ys)"
  by (simp add: slots_gain_def)

lemma slots_gain_one: "slots_gain n d 0 xs xs"
  by (simp add: slots_gain_def)

lemma slots_gain_claim:
  assumes "slots_gain n d m xs ys" and "unused_slot x" and "unat n < 256" and "unat d < 256"
  shows "slots_gain n d (Suc m) (x # xs) (claim n d x # ys)"
  using assms claim_slot [OF assms(2-4)] by (simp add: slots_gain_def unused_slot_def)

lemma slots_gain_freed:
  assumes "slots_gain n d m xs ys" and "holds n d x"
  shows "slots_gain n d (Suc m) (x\<lparr>l_locked := False\<rparr> # xs) (x # ys)"
  using assms by (auto simp: slots_gain_def holds_def taken_slot_def)

lemma acquire_loop_slots:
  assumes "valid_prefix k xs" and "0 < m" and "m \<le> count_if unused_slot xs"
    and n: "unat n < 256" and d: "unat d < 256"
  shows "\<exists>ys. acquire_loop n d (added + int m) k added xs = Some (added + int m, ys) \<and> slots_gain n d m xs ys"
  using assms(1-3)
proof (induction k xs arbitrary: added m rule: validate_loop.induct)
  case (1 xs)
  then have "count_if unused_slot xs = 0" by (intro valid_prefix_0) (auto simp: unused_slot_def)
  with 1 show ?case by simp
next
  case (3 k x xs)
  show ?case
  proof (cases "unused_slot x")
    case False
    with 3 have "\<exists>ys. acquire_loop n d (added + int m) k added xs = Some (added + int m, ys) \<and> slots_gain n d m xs ys"
      by (intro "3.IH") auto
    then obtain ys where "acquire_loop n d (added + int m) k added xs = Some (added + int m, ys)" "slots_gain n d m xs ys"
      by blast
    with False 3 slots_gain_same [of n d m xs ys x] show ?thesis
      by (auto simp: acquire_loop_Cons simp del: acquire_loop.simps)
  next
    case True
    show ?thesis
    proof (cases "m = 1")
      case True
      with \<open>unused_slot x\<close> slots_gain_claim [OF slots_gain_one _ n d, of x xs] show ?thesis
        by (simp add: acquire_loop_Cons del: acquire_loop.simps)
    next
      case False
      with 3 have "\<exists>ys. acquire_loop n d (added + 1 + int (m - 1)) k (added + 1) xs = Some (added + 1 + int (m - 1), ys) \<and>
          slots_gain n d (m - 1) xs ys"
        using \<open>unused_slot x\<close> by (intro "3.IH") auto
      with False 3 \<open>unused_slot x\<close> obtain ys where ys: "acquire_loop n d (added + int m) k (added + 1) xs = Some (added + int m, ys)"
        "slots_gain n d (m - 1) xs ys"
        by (auto simp: of_nat_diff)
      with False 3 \<open>unused_slot x\<close> slots_gain_claim [OF ys(2) _ n d, of x] show ?thesis
        by (auto simp: acquire_loop_Cons simp del: acquire_loop.simps)
    qed
  qed
qed simp

text \<open>Releasing \<open>m\<close> of the caller's slots; the countdown of 16 bits is wide enough for every limit.\<close>

lemma small_word_zero: "j < 2 ^ 16 \<Longrightarrow> word_of_nat j = (0 :: u16) \<longleftrightarrow> j = 0"
  using dvd_imp_le [of "2 ^ 16" j] by (auto simp: word_of_nat_eq_0_iff)

lemma countdown:
  assumes "0 < m" and "m < 2 ^ 16"
  shows "word_of_nat m - 1 = (word_of_nat (m - 1) :: u16)" and "word_of_nat m - 1 = (0 :: u16) \<longleftrightarrow> m = 1"
proof -
  show eq: "word_of_nat m - 1 = (word_of_nat (m - 1) :: u16)"
    using assms by (simp add: of_nat_diff)
  show "word_of_nat m - 1 = (0 :: u16) \<longleftrightarrow> m = 1"
    unfolding eq using assms small_word_zero [of "m - 1"] by (simp only:) arith
qed

lemma release_loop_slots:
  assumes "valid_prefix k xs" and "0 < m" and "m \<le> count_if (holds n d) xs" and "m < 2 ^ 16"
  shows "\<exists>ys. release_loop n d k (word_of_nat m) removed xs = Some (removed + m, ys) \<and> slots_gain n d m ys xs"
  using assms
proof (induction k xs arbitrary: removed m rule: validate_loop.induct)
  case (1 xs)
  then have "count_if (holds n d) xs = 0" by (intro valid_prefix_0) (auto simp: holds_def)
  with 1 show ?case by simp
next
  case (3 k x xs)
  note m = countdown [OF "3.prems"(2,4)]
  show ?case
  proof (cases "holds n d x")
    case False
    with 3 have "\<exists>ys. release_loop n d k (word_of_nat m) removed xs = Some (removed + m, ys) \<and> slots_gain n d m ys xs"
      by (intro "3.IH") auto
    then obtain ys where "release_loop n d k (word_of_nat m) removed xs = Some (removed + m, ys)" "slots_gain n d m ys xs"
      by blast
    with False slots_gain_same [of n d m ys xs x] show ?thesis by auto
  next
    case True
    show ?thesis
    proof (cases "m = 1")
      case one: True
      with True m slots_gain_freed [OF slots_gain_one True, of xs] show ?thesis by auto
    next
      case False
      with 3 True have "\<exists>ys. release_loop n d k (word_of_nat (m - 1)) (removed + 1) xs = Some (removed + 1 + (m - 1), ys) \<and>
          slots_gain n d (m - 1) ys xs"
        by (intro "3.IH") auto
      then obtain ys where ys: "release_loop n d k (word_of_nat m - 1) (removed + 1) xs = Some (removed + 1 + (m - 1), ys)"
        "slots_gain n d (m - 1) ys xs"
        unfolding m(1) by blast
      with True False 3 m(2) slots_gain_freed [OF ys(2) True] show ?thesis by auto
    qed
  qed
qed simp

section \<open>The entries of the lock table as counting locks\<close>

text \<open>
  A well-formed entry: the slots below the limit are the valid ones, and \<open>num_locks\<close> counts those that are taken.
  Nodes are named by the two bytes under which a slot records its holder.
\<close>

definition entry_ok :: "mrapi_sem \<Rightarrow> bool" where
  "entry_ok e \<longleftrightarrow> length (locks e) = MRAPI_MAX_SHARED_LOCKS \<and> 0 \<le> shared_lock_limit e \<and>
     valid_prefix (nat (shared_lock_limit e)) (locks e) \<and> num_locks e = int (count_if taken_slot (locks e))"

definition entry_capacity :: "mrapi_sem \<Rightarrow> nat" where
  "entry_capacity e = nat (shared_lock_limit e)"

definition entry_total :: "mrapi_sem \<Rightarrow> nat" where
  "entry_total e = count_if taken_slot (locks e)"

definition entry_holding :: "mrapi_sem \<Rightarrow> byte \<times> byte \<Rightarrow> nat" where
  "entry_holding e w = count_if (holds (ucast (fst w)) (ucast (snd w))) (locks e)"

text \<open>The branches of the code in which the request is granted.\<close>

definition entry_acquire :: "byte \<times> byte \<Rightarrow> nat \<Rightarrow> mrapi_sem \<Rightarrow> mrapi_sem option" where
  "entry_acquire w k e =
     (if shared_lock_limit e - num_locks e - int k \<ge> 0
      then case acquire_loop (ucast (fst w)) (ucast (snd w)) (int k) (unsigned_bound (shared_lock_limit e)) 0 (locks e) of
          Some (added, slots) \<Rightarrow> if added = int k then Some (e\<lparr>locks := slots, num_locks := num_locks e + added\<rparr>) else None
        | None \<Rightarrow> None
      else None)"

definition entry_release :: "byte \<times> byte \<Rightarrow> nat \<Rightarrow> mrapi_sem \<Rightarrow> mrapi_sem option" where
  "entry_release w k e = do {
     my_locks \<leftarrow> count_loop (holds (ucast (fst w)) (ucast (snd w))) (nat (shared_lock_limit e)) (locks e);
     if my_locks < k then None
     else do {
       (removed, slots) \<leftarrow> release_loop (ucast (fst w)) (ucast (snd w)) (nat (shared_lock_limit e)) (word_of_nat k) 0 (locks e);
       if removed \<noteq> k then None else Some (e\<lparr>num_locks := num_locks e - int k, locks := slots\<rparr>)}}"

lemma entry_bounds:
  assumes "entry_ok e"
  shows "nat (shared_lock_limit e) \<le> 32" and "unsigned_bound (shared_lock_limit e) = nat (shared_lock_limit e)"
proof -
  show le: "nat (shared_lock_limit e) \<le> 32"
    using assms by (auto simp: entry_ok_def valid_prefix_def MRAPI_MAX_SHARED_LOCKS_def)
  with assms have "shared_lock_limit e mod 2 ^ 32 = shared_lock_limit e"
    by (intro mod_pos_pos_trivial) (auto simp: entry_ok_def)
  then show "unsigned_bound (shared_lock_limit e) = nat (shared_lock_limit e)"
    by (simp only: unsigned_bound_def)
qed

lemma entry_total_le: "entry_ok e \<Longrightarrow> entry_total e \<le> entry_capacity e"
  using free_or_taken [of "locks e"] valid_prefix_valid [of "nat (shared_lock_limit e)" "locks e"]
  by (simp add: entry_ok_def entry_total_def entry_capacity_def)

lemma id_byte: "unat (ucast (b :: byte) :: u32) < 256"
proof -
  have "unat b < 2 ^ LENGTH(8)" by (rule unsigned_less)
  then show ?thesis by (simp add: unsigned_ucast_eq unsigned_take_bit_eq take_bit_nat_eq_self)
qed

lemma back_to_byte: "ucast (ucast (b :: byte) :: u32) = b"
proof -
  have "unat b < 2 ^ 32" using unsigned_less [of b, where 'a = nat] by simp
  then show ?thesis
    by (intro unsigned_word_eqI [where 'a = nat]) (simp add: unsigned_ucast_eq unsigned_take_bit_eq take_bit_nat_eq_self)
qed

lemma same_id: "((ucast (a :: byte) :: u32) = ucast b) = (a = b)"
  by (metis back_to_byte)

lemma entry_holding_pair: "v \<noteq> w \<Longrightarrow> entry_holding e v + entry_holding e w \<le> entry_total e"
  unfolding entry_holding_def entry_total_def
  by (rule holds_disjoint) (auto simp: prod_eq_iff same_id)

lemma entry_holding_le: "entry_holding e w \<le> entry_total e"
  unfolding entry_holding_def entry_total_def by (intro count_if_mono holds_valid)

lemma slots_gain_entry:
  assumes "slots_gain (ucast (fst w)) (ucast (snd w)) m (locks e) (locks f)"
  shows "entry_total f = entry_total e + m" and "entry_holding f = (entry_holding e)(w := entry_holding e w + m)"
  using assms by (auto simp: slots_gain_def entry_total_def entry_holding_def same_id prod_eq_iff fun_eq_iff)

lemma entry_acquire_eq:
  assumes "entry_ok e" and "0 < k"
  shows "if entry_total e + k \<le> entry_capacity e
     then \<exists>ys. entry_acquire w k e = Some (e\<lparr>locks := ys, num_locks := num_locks e + int k\<rparr>) \<and>
            slots_gain (ucast (fst w)) (ucast (snd w)) k (locks e) ys
     else entry_acquire w k e = None"
proof (cases "entry_total e + k \<le> entry_capacity e")
  case True
  have "k \<le> count_if unused_slot (locks e)"
    using True assms(1) free_or_taken [of "locks e"] valid_prefix_valid [of "nat (shared_lock_limit e)" "locks e"]
    by (simp add: entry_ok_def entry_total_def entry_capacity_def)
  with assms obtain ys where "acquire_loop (ucast (fst w)) (ucast (snd w)) (0 + int k) (nat (shared_lock_limit e)) 0 (locks e) = Some (0 + int k, ys)"
    "slots_gain (ucast (fst w)) (ucast (snd w)) k (locks e) ys"
    using acquire_loop_slots [OF _ _ _ id_byte id_byte] unfolding entry_ok_def by metis
  with True assms show ?thesis
    by (auto simp: entry_acquire_def entry_bounds(2) entry_ok_def entry_total_def entry_capacity_def)
qed (use assms in \<open>auto simp: entry_acquire_def entry_ok_def entry_total_def entry_capacity_def\<close>)

lemma entry_release_eq:
  assumes "entry_ok e" and "0 < k"
  shows "if k \<le> entry_holding e w
     then \<exists>ys. entry_release w k e = Some (e\<lparr>num_locks := num_locks e - int k, locks := ys\<rparr>) \<and>
            slots_gain (ucast (fst w)) (ucast (snd w)) k ys (locks e)
     else entry_release w k e = None"
proof (cases "k \<le> entry_holding e w")
  case True
  have "k < 2 ^ 16"
    using True entry_holding_le [of e w] entry_total_le [OF assms(1)] entry_bounds(1) [OF assms(1)]
    by (simp add: entry_capacity_def)
  with True assms obtain ys where "release_loop (ucast (fst w)) (ucast (snd w)) (nat (shared_lock_limit e)) (word_of_nat k) 0 (locks e) = Some (0 + k, ys)"
    "slots_gain (ucast (fst w)) (ucast (snd w)) k ys (locks e)"
    using release_loop_slots unfolding entry_ok_def entry_holding_def by metis
  with True assms show ?thesis
    by (auto simp: entry_release_def entry_ok_def entry_holding_def count_holds)
qed (use assms in \<open>auto simp: entry_release_def entry_ok_def entry_holding_def count_holds\<close>)

text \<open>The slot updates keep an entry well-formed.\<close>

lemma slots_gain_ok:
  assumes "entry_ok e" and "slots_gain n d k (locks e) ys"
  shows "entry_ok (e\<lparr>locks := ys, num_locks := num_locks e + int k\<rparr>)"
  using assms slots_gain_prefix [OF assms(2)] slots_gain_length [OF assms(2)] by (auto simp: entry_ok_def slots_gain_def)

lemma slots_loss_ok:
  assumes "entry_ok e" and "slots_gain n d k ys (locks e)"
  shows "entry_ok (e\<lparr>num_locks := num_locks e - int k, locks := ys\<rparr>)"
  using assms slots_gain_prefix [OF assms(2)] slots_gain_length [OF assms(2)] by (auto simp: entry_ok_def slots_gain_def)

lemma entry_acquire_Some:
  assumes "entry_ok e" and "0 < k" and "entry_acquire w k e = Some f"
  obtains ys where "f = e\<lparr>locks := ys, num_locks := num_locks e + int k\<rparr>"
    and "slots_gain (ucast (fst w)) (ucast (snd w)) k (locks e) ys" and "entry_total e + k \<le> entry_capacity e"
  using entry_acquire_eq [OF assms(1,2), of w] assms(3) by (auto split: if_splits)

lemma entry_release_Some:
  assumes "entry_ok e" and "0 < k" and "entry_release w k e = Some f"
  obtains ys where "f = e\<lparr>num_locks := num_locks e - int k, locks := ys\<rparr>"
    and "slots_gain (ucast (fst w)) (ucast (snd w)) k ys (locks e)" and "k \<le> entry_holding e w"
  using entry_release_eq [OF assms(1,2), of w] assms(3) by (auto split: if_splits)

interpretation entry: counting_lock entry_ok entry_capacity entry_total entry_holding entry_acquire entry_release
proof
  fix e f :: mrapi_sem and k :: nat and w v :: "byte \<times> byte"
  assume e: "entry_ok e"
  show "entry_total e \<le> entry_capacity e" using e by (rule entry_total_le)
  show "v \<noteq> w \<Longrightarrow> entry_holding e v + entry_holding e w \<le> entry_total e" by (rule entry_holding_pair)
  assume k: "0 < k"
  show "entry_acquire w k e \<noteq> None \<longleftrightarrow> entry_total e + k \<le> entry_capacity e"
    using entry_acquire_eq [OF e k, of w] by (auto split: if_splits)
  show "entry_release w k e \<noteq> None \<longleftrightarrow> k \<le> entry_holding e w"
    using entry_release_eq [OF e k, of w] by (auto split: if_splits)
  { assume "entry_acquire w k e = Some f"
    then obtain ys where f: "f = e\<lparr>locks := ys, num_locks := num_locks e + int k\<rparr>"
      and g: "slots_gain (ucast (fst w)) (ucast (snd w)) k (locks e) ys" by (rule entry_acquire_Some [OF e k])
    show "entry_ok f" unfolding f using e g by (rule slots_gain_ok)
    show "entry_capacity f = entry_capacity e" by (simp add: f entry_capacity_def)
    show "entry_total f = entry_total e + k" "entry_holding f = (entry_holding e)(w := entry_holding e w + k)"
      using slots_gain_entry [of w k e f] g by (simp_all add: f) }
  { assume "entry_release w k e = Some f"
    then obtain ys where f: "f = e\<lparr>num_locks := num_locks e - int k, locks := ys\<rparr>"
      and g: "slots_gain (ucast (fst w)) (ucast (snd w)) k ys (locks e)" by (rule entry_release_Some [OF e k])
    show "entry_ok f" unfolding f using e g by (rule slots_loss_ok)
    show "entry_capacity f = entry_capacity e" by (simp add: f entry_capacity_def)
    show "entry_total f = entry_total e - k" "entry_holding f = (entry_holding e)(w := entry_holding e w - k)"
      using slots_gain_entry [of w k f e] g by (simp_all add: f) }
qed

end
