(* ===== verification/MRAPI_Exclusion.thy ===== *)
theory MRAPI_Exclusion
  imports MRAPI_Slots
begin

text \<open>
  Lock calls on the shared lock table. What each call does to an entry is one of a few moves of a counting lock
  (\<open>entry_move\<close>); the well-formedness of every reachable table and the exclusion of all other nodes by one that
  holds a whole entry follow from the moves. A call that fails to take a lock leaves the table alone, so a blocking call
  is a sequence of failed attempts, between which other nodes' calls come, and a last one.
\<close>

section \<open>Callers\<close>

text \<open>A node that has joined and holds no internal semaphore; its indices are those of the database.\<close>

definition mrapi_caller :: "mrapi_sys \<Rightarrow> bool" where
  "mrapi_caller p \<longleftrightarrow> mrapi_db_attached p \<and> mrapi_pid p \<noteq> - 1 \<and> sections_alive p \<and> held_sections p = [] \<and>
     unat (mrapi_nindex p) < MRAPI_MAX_NODES \<and> unat (mrapi_dindex p) < MRAPI_MAX_DOMAINS"

definition ident :: "mrapi_sys \<Rightarrow> byte \<times> byte" where
  "ident p = (ucast (mrapi_nindex p), ucast (mrapi_dindex p))"

lemma caller_mdb [simp]: "mrapi_caller (p\<lparr>mdb := db\<rparr>) = mrapi_caller p" "ident (p\<lparr>mdb := db\<rparr>) = ident p"
  by (simp_all add: mrapi_caller_def ident_def)

lemma caller_initialized [simp]: "mrapi_caller p \<Longrightarrow> mrapi_impl_initialized p"
  by (simp add: mrapi_caller_def mrapi_impl_initialized_def mrapi_impl_whoami_def)

lemma caller_whoami:
  assumes "mrapi_caller p"
  shows "mrapi_impl_whoami (p\<lparr>held_sections := hs\<rparr>) = Some (mrapi_node_id p, mrapi_nindex p, mrapi_domain_id p, mrapi_dindex p)"
    and "mrapi_impl_whoami p = Some (mrapi_node_id p, mrapi_nindex p, mrapi_domain_id p, mrapi_dindex p)"
  using assms by (simp_all add: mrapi_caller_def mrapi_impl_whoami_def)

lemma caller_id:
  assumes "mrapi_caller p"
  shows "ucast (fst (ident p)) = mrapi_nindex p" and "ucast (snd (ident p)) = mrapi_dindex p"
  using assms by (auto simp: mrapi_caller_def ident_def MRAPI_MAX_NODES_def MRAPI_MAX_DOMAINS_def intro!: byte_index)

lemma with_section_eq:
  assumes "mrapi_caller p" and "section_exists sec" and "f (p\<lparr>held_sections := [sec]\<rparr>) = Some (r, q\<lparr>held_sections := [sec]\<rparr>)"
    and "mrapi_caller q"
  shows "with_section sec f p = Some (r, q)"
  using assms by (cases q) (simp add: with_section_def mrapi_impl_access_database_pre_def mrapi_impl_access_database_post_def mrapi_caller_def)

lemma with_section_None:
  assumes "mrapi_caller p" and "f (p\<lparr>held_sections := [sec]\<rparr>) = None"
  shows "with_section sec f p = None"
  using assms by (auto simp: with_section_def mrapi_impl_access_database_pre_def mrapi_caller_def bind_eq_None_conv)

section \<open>Handles\<close>

definition table_ok :: "mrapi_database \<Rightarrow> bool" where
  "table_ok db \<longleftrightarrow> (\<forall>s<MRAPI_MAX_SEMS. entry_ok (m_sems db s))"

text \<open>The entry that a handle reaches once the check of handles lets it pass.\<close>

definition hndl_entry :: "mrapi_database \<Rightarrow> u32 \<Rightarrow> nat \<Rightarrow> bool" where
  "hndl_entry db h s \<longleftrightarrow> mrapi_impl_decode_hndl h = Some s \<and> s < MRAPI_MAX_SEMS \<and> s_valid (m_sems db s)"

lemma valid_lock_hndl_pass:
  "mrapi_caller p \<Longrightarrow> hndl_entry (mdb p) h s \<Longrightarrow> mrapi_impl_valid_lock_hndl h st p = Some ((True, st), p)"
  by (auto simp: mrapi_impl_valid_lock_hndl_def hndl_entry_def intro!: with_section_eq)

lemma valid_lock_hndl_fail:
  assumes "mrapi_caller p" and "\<nexists>s. hndl_entry (mdb p) h s"
  shows "\<exists>st'. mrapi_impl_valid_lock_hndl h st p = Some ((False, st'), p)"
proof (cases "mrapi_impl_decode_hndl h")
  case (Some s)
  show ?thesis
  proof (cases "s < MRAPI_MAX_SEMS")
    case True
    with assms Some have "\<not> s_valid (m_sems (mdb p) s)" by (simp add: hndl_entry_def)
    with assms Some True show ?thesis
      by (cases "for_first (\<lambda>d. s_deleted (m_sems (mdb p) d) \<and> s_handle (m_sems (mdb p) d) = h) 0 MRAPI_MAX_SEMS = MRAPI_MAX_SEMS")
        (auto simp: mrapi_impl_valid_lock_hndl_def Let_def intro!: with_section_eq exI)
  qed (use Some in \<open>simp add: mrapi_impl_valid_lock_hndl_def\<close>)
qed (simp add: mrapi_impl_valid_lock_hndl_def)

lemma valid_hndl_pass:
  assumes "mrapi_caller p" and "hndl_entry (mdb p) h s"
  shows "mrapi_impl_valid_sem_hndl h p = Some ((True, MRAPI_SUCCESS), p)"
    and "mrapi_impl_valid_mutex_hndl h p = Some ((True, MRAPI_SUCCESS), p)"
    and "mrapi_impl_valid_rwl_hndl h p = Some ((True, MRAPI_SUCCESS), p)"
  using valid_lock_hndl_pass [OF assms]
  by (simp_all add: mrapi_impl_valid_sem_hndl_def mrapi_impl_valid_mutex_hndl_def mrapi_impl_valid_rwl_hndl_def)

lemma valid_hndl_cases [consumes 1, case_names pass fail]:
  assumes "mrapi_caller p"
  obtains s where "hndl_entry (mdb p) h s"
    and "mrapi_impl_valid_sem_hndl h p = Some ((True, MRAPI_SUCCESS), p)"
    and "mrapi_impl_valid_mutex_hndl h p = Some ((True, MRAPI_SUCCESS), p)"
    and "mrapi_impl_valid_rwl_hndl h p = Some ((True, MRAPI_SUCCESS), p)"
  | st1 st2 st3 where "mrapi_impl_valid_sem_hndl h p = Some ((False, st1), p)"
    and "mrapi_impl_valid_mutex_hndl h p = Some ((False, st2), p)"
    and "mrapi_impl_valid_rwl_hndl h p = Some ((False, st3), p)"
proof (cases "\<exists>s. hndl_entry (mdb p) h s")
  case True
  then show thesis using that(1) valid_hndl_pass [OF assms] by blast
next
  case False
  note fails = valid_lock_hndl_fail [OF assms False]
  from fails [of MRAPI_ERR_SEM_INVALID] fails [of MRAPI_ERR_MUTEX_INVALID] fails [of MRAPI_ERR_RWL_INVALID]
  obtain st1 st2 st3 where "mrapi_impl_valid_lock_hndl h MRAPI_ERR_SEM_INVALID p = Some ((False, st1), p)"
    "mrapi_impl_valid_lock_hndl h MRAPI_ERR_MUTEX_INVALID p = Some ((False, st2), p)"
    "mrapi_impl_valid_lock_hndl h MRAPI_ERR_RWL_INVALID p = Some ((False, st3), p)" by blast
  then show thesis
    by (intro that(2) [of st1 st2 st3])
      (simp_all add: mrapi_impl_valid_sem_hndl_def mrapi_impl_valid_mutex_hndl_def mrapi_impl_valid_rwl_hndl_def)
qed

section \<open>Acquiring and releasing\<close>

abbreviation put_entry :: "nat \<Rightarrow> mrapi_sem \<Rightarrow> mrapi_database \<Rightarrow> mrapi_database" where
  "put_entry s e db \<equiv> db\<lparr>m_sems := (m_sems db)(s := e)\<rparr>"

text \<open>One attempt, inside the section of the entry.\<close>

lemma acquire_attempt:
  assumes p: "mrapi_caller p" and h: "mrapi_impl_decode_hndl h = Some s" and ok: "entry_ok (m_sems (mdb p) s)" and k: "0 < k"
  shows "mrapi_impl_acquire_lock_locked h (int k) st (p\<lparr>held_sections := hs\<rparr>) =
     (case entry_acquire (ident p) k (m_sems (mdb p) s) of
        None \<Rightarrow> Some ((0, locked_status (s_type (m_sems (mdb p) s))), p\<lparr>held_sections := hs\<rparr>)
      | Some e \<Rightarrow> Some ((int k, MRAPI_SUCCESS), p\<lparr>mdb := put_entry s e (mdb p), held_sections := hs\<rparr>))"
proof -
  let ?e = "m_sems (mdb p) s"
  have cap: "int k \<le> shared_lock_limit ?e - num_locks ?e \<longleftrightarrow> entry_total ?e + k \<le> entry_capacity ?e"
    using ok by (auto simp: entry_ok_def entry_total_def entry_capacity_def)
  note impl = mrapi_impl_acquire_lock_locked_def caller_whoami [OF p] h Let_def cap
  show ?thesis
  proof (cases "entry_total ?e + k \<le> entry_capacity ?e")
    case True
    with entry_acquire_eq [OF ok k, of "ident p"]
    obtain ys where a: "entry_acquire (ident p) k ?e = Some (?e\<lparr>locks := ys, num_locks := num_locks ?e + int k\<rparr>)" by auto
    have loop: "acquire_loop (mrapi_nindex p) (mrapi_dindex p) (int k) (unsigned_bound (shared_lock_limit ?e)) 0 (locks ?e) = Some (int k, ys)"
      using a True k by (simp add: entry_acquire_def cap caller_id [OF p] split: if_splits option.splits prod.splits)
        (metis mrapi_sem.ext_inject mrapi_sem.surjective mrapi_sem.update_convs)
    have "unsigned_bound (shared_lock_limit ?e) \<noteq> 0"
      using True k entry_bounds(2) [OF ok] by (simp add: entry_capacity_def)
    with True a loop show ?thesis by (simp add: impl)
  next
    case False
    with entry_acquire_eq [OF ok k, of "ident p"] have "entry_acquire (ident p) k ?e = None" by simp
    with False show ?thesis by (simp add: impl)
  qed
qed

lemma acquire_nothing:
  assumes p: "mrapi_caller p" and h: "mrapi_impl_decode_hndl h = Some s" and ok: "entry_ok (m_sems (mdb p) s)"
    and "entry_capacity (m_sems (mdb p) s) = 0"
  shows "mrapi_impl_acquire_lock_locked h 0 st (p\<lparr>held_sections := hs\<rparr>) = Some ((0, st), p\<lparr>held_sections := hs\<rparr>)"
proof -
  let ?e = "m_sems (mdb p) s"
  have e: "num_locks ?e = 0" "shared_lock_limit ?e = 0"
    using assms(4) entry_total_le [OF ok] ok by (simp_all add: entry_ok_def entry_capacity_def entry_total_def)
  then have same: "?e\<lparr>num_locks := 0\<rparr> = ?e" by (cases ?e) simp
  show ?thesis
    by (simp add: e same mrapi_impl_acquire_lock_locked_def caller_whoami [OF p] h unsigned_bound_def)
qed

lemma release_attempt:
  assumes p: "mrapi_caller p" and h: "hndl_entry (mdb p) h s" and ok: "entry_ok (m_sems (mdb p) s)" and k: "0 < k" "k \<le> 32"
  shows "mrapi_impl_release_lock h (int k) st p =
     (case entry_release (ident p) k (m_sems (mdb p) s) of
        None \<Rightarrow> Some ((False, notlocked_status (s_type (m_sems (mdb p) s))), p)
      | Some e \<Rightarrow> Some ((True, st), p\<lparr>mdb := put_entry s e (mdb p)\<rparr>))"
proof -
  let ?e = "m_sems (mdb p) s"
  have s: "mrapi_impl_decode_hndl h = Some s" "s < MRAPI_MAX_SEMS" "s_valid ?e" using h by (auto simp: hndl_entry_def)
  have bound: "unsigned_bound (int k) = k" using k by (simp add: unsigned_bound_def mod_pos_pos_trivial)
  have count: "count_loop (holds (mrapi_nindex p) (mrapi_dindex p)) (nat (shared_lock_limit ?e)) (locks ?e) = Some (entry_holding ?e (ident p))"
    using ok by (simp add: count_holds entry_ok_def entry_holding_def caller_id [OF p])
  note impl = mrapi_impl_release_lock_def caller_whoami [OF p] s Let_def bound count
  show ?thesis
  proof (cases "k \<le> entry_holding ?e (ident p)")
    case True
    with entry_release_eq [OF ok k(1), of "ident p"]
    obtain ys where a: "entry_release (ident p) k ?e = Some (?e\<lparr>num_locks := num_locks ?e - int k, locks := ys\<rparr>)" by auto
    have loop: "release_loop (mrapi_nindex p) (mrapi_dindex p) (nat (shared_lock_limit ?e)) (word_of_nat k) 0 (locks ?e) = Some (k, ys)"
      using a by (simp add: entry_release_def caller_id [OF p] bind_eq_Some_conv split: if_splits prod.splits)
        (metis mrapi_sem.ext_inject mrapi_sem.surjective mrapi_sem.update_convs)
    show ?thesis unfolding a option.case
      by (simp add: impl True loop) (intro with_section_eq [OF p]; use s True in \<open>simp add: impl loop p less_SucI not_less\<close>)
  next
    case False
    with entry_release_eq [OF ok k(1), of "ident p"] have a: "entry_release (ident p) k ?e = None" by simp
    show ?thesis unfolding a option.case
      by (simp add: impl) (intro with_section_eq [OF p]; use s False in \<open>simp add: impl p less_SucI\<close>)
  qed
qed

section \<open>Moves of an entry\<close>

text \<open>
  What one lock call of node \<open>w\<close> can do to an entry: bookkeeping that leaves the holders alone, taking or
  giving back \<open>k\<close> locks, filling an entry that is not in use, and deleting one that the node holds whole.
\<close>

inductive entry_move :: "byte \<times> byte \<Rightarrow> mrapi_sem \<Rightarrow> mrapi_sem \<Rightarrow> bool" for w e f where
  keep: "entry_ok e \<Longrightarrow> entry_ok f \<Longrightarrow> entry_holding f = entry_holding e \<Longrightarrow> entry_capacity f = entry_capacity e \<Longrightarrow>
    s_valid f = s_valid e \<Longrightarrow> entry_move w e f"
| take: "entry_ok e \<Longrightarrow> 0 < k \<Longrightarrow> entry_acquire w k e = Some f \<Longrightarrow> entry_move w e f"
| give: "entry_ok e \<Longrightarrow> 0 < k \<Longrightarrow> entry_release w k e = Some f \<Longrightarrow> entry_move w e f"
| fill: "\<not> s_valid e \<Longrightarrow> entry_ok f \<Longrightarrow> entry_move w e f"
| drop: "entry_ok e \<Longrightarrow> entry_ok f \<Longrightarrow> entry_holding e w = entry_capacity e \<Longrightarrow> entry_move w e f"

lemma move_refl: "entry_ok e \<Longrightarrow> entry_move w e e"
  by (rule keep) simp_all

lemma move_ok: "entry_move w e f \<Longrightarrow> entry_ok f"
  by (induction rule: entry_move.induct) (auto dest: entry.acquire_ok entry.release_ok)

lemma acquire_valid: "entry_acquire w k e = Some f \<Longrightarrow> s_valid f = s_valid e"
  by (auto simp: entry_acquire_def split: if_splits option.splits prod.splits)

lemma release_valid: "entry_release w k e = Some f \<Longrightarrow> s_valid f = s_valid e"
  by (auto simp: entry_release_def bind_eq_Some_conv split: if_splits prod.splits)

text \<open>A node that holds the whole of a valid entry goes on holding it, whatever move another node makes.\<close>

definition holds_whole :: "byte \<times> byte \<Rightarrow> mrapi_sem \<Rightarrow> bool" where
  "holds_whole v e \<longleftrightarrow> s_valid e \<and> 0 < entry_capacity e \<and> entry_holding e v = entry_capacity e"

lemma whole_excludes:
  assumes "entry_ok e" and "holds_whole v e" and "v \<noteq> w" and "0 < k"
  shows "entry_acquire w k e = None" and "entry_release w k e = None"
  using entry.full_excludes [of e v "Take w k"] entry.full_excludes [of e v "Give w k"] assms
  by (auto simp: holds_whole_def entry.attempt_def)

lemma whole_stays:
  assumes "entry_move w e f" and "entry_ok e" and "holds_whole v e" and "v \<noteq> w"
  shows "holds_whole v f"
  using assms(1)
proof cases
  case keep
  with assms show ?thesis by (simp add: holds_whole_def)
next
  case drop
  with assms entry_holding_pair [OF assms(4), of e] entry_total_le [OF assms(2)] show ?thesis
    by (simp add: holds_whole_def)
qed (use assms whole_excludes [OF assms(2-4)] in \<open>auto simp: holds_whole_def\<close>)

text \<open>The lock key of a slot is no concern of these notions, nor are the count of users, the attributes and the type.\<close>

lemma key_update:
  assumes "i < length xs"
  shows "count_if taken_slot (xs[i := (xs ! i)\<lparr>lock_key := k\<rparr>]) = count_if taken_slot xs"
    and "count_if (holds n d) (xs[i := (xs ! i)\<lparr>lock_key := k\<rparr>]) = count_if (holds n d) xs"
    and "map l_valid (xs[i := (xs ! i)\<lparr>lock_key := k\<rparr>]) = map l_valid xs"
proof -
  have "count_if p (xs[i := y]) = count_if p xs" if "p y = p (xs ! i)" for p y
    using assms that by (induction xs arbitrary: i) (auto split: nat.splits)
  then show "count_if taken_slot (xs[i := (xs ! i)\<lparr>lock_key := k\<rparr>]) = count_if taken_slot xs"
    and "count_if (holds n d) (xs[i := (xs ! i)\<lparr>lock_key := k\<rparr>]) = count_if (holds n d) xs"
    by (simp_all add: taken_slot_def holds_def)
  show "map l_valid (xs[i := (xs ! i)\<lparr>lock_key := k\<rparr>]) = map l_valid xs"
    using assms by (simp add: map_update list_update_same_conv)
qed

lemma move_key:
  assumes "entry_ok e"
  shows "entry_move w e (e\<lparr>locks := (locks e)[0 := (locks e ! 0)\<lparr>lock_key := k\<rparr>]\<rparr>)"
proof -
  have "0 < length (locks e)" using assms by (simp add: entry_ok_def MRAPI_MAX_SHARED_LOCKS_def)
  note key = key_update [OF this, where k = k]
  show ?thesis
    by (rule keep) (use assms key in \<open>auto simp: entry_ok_def valid_prefix_def entry_holding_def entry_capacity_def fun_eq_iff\<close>)
qed

lemma move_refs: "entry_ok e \<Longrightarrow> entry_move w e (e\<lparr>s_refs := r\<rparr>)"
  by (rule keep) (auto simp: entry_ok_def entry_holding_def entry_capacity_def)

section \<open>Calls\<close>

text \<open>
  The calls of the three interfaces that do not wait. While a try yields, the others do nothing: what they do then comes as
  calls of their own. The truth value says whether the call reported success.
\<close>

datatype lock_call =
    Sem_create int "mrapi_attributes option" u32 | Mutex_create int "mrapi_attributes option" | Rwl_create int "mrapi_attributes option" u32
  | Sem_get int | Mutex_get int | Rwl_get int
  | Sem_delete u32 | Mutex_delete u32 | Rwl_delete u32
  | Sem_trylock u32 | Mutex_trylock u32 u32 | Rwl_trylock u32 mrapi_rwl_mode
  | Sem_unlock u32 | Mutex_unlock u32 u32 | Rwl_unlock u32 mrapi_rwl_mode

definition granted :: "mrapi_status \<Rightarrow> bool" where
  "granted status = (status = MRAPI_SUCCESS)"

fun run_lock_call :: "lock_call \<Rightarrow> mrapi_sys \<Rightarrow> (bool \<times> mrapi_sys) option" where
  "run_lock_call (Sem_create key attrs limit) p = map_option (\<lambda>((h, st), q). (granted st, q)) (mrapi_sem_create key attrs limit p)"
| "run_lock_call (Mutex_create key attrs) p = map_option (\<lambda>((h, st), q). (granted st, q)) (mrapi_mutex_create key attrs p)"
| "run_lock_call (Rwl_create key attrs limit) p = map_option (\<lambda>((h, st), q). (granted st, q)) (mrapi_rwl_create key attrs limit p)"
| "run_lock_call (Sem_get key) p = map_option (\<lambda>((h, st), q). (granted st, q)) (mrapi_sem_get key p)"
| "run_lock_call (Mutex_get key) p = map_option (\<lambda>((h, st), q). (granted st, q)) (mrapi_mutex_get key p)"
| "run_lock_call (Rwl_get key) p = map_option (\<lambda>((h, st), q). (granted st, q)) (mrapi_rwl_get key p)"
| "run_lock_call (Sem_delete h) p = map_option (\<lambda>(st, q). (granted st, q)) (mrapi_sem_delete h p)"
| "run_lock_call (Mutex_delete h) p = map_option (\<lambda>(st, q). (granted st, q)) (mrapi_mutex_delete h p)"
| "run_lock_call (Rwl_delete h) p = map_option (\<lambda>(st, q). (granted st, q)) (mrapi_rwl_delete h p)"
| "run_lock_call (Sem_trylock h) p = map_option (\<lambda>((rc, st), q). (rc, q)) (mrapi_sem_trylock [id] h p)"
| "run_lock_call (Mutex_trylock h key) p = map_option (\<lambda>((rc, key, st), q). (rc, q)) (mrapi_mutex_trylock [id] h key p)"
| "run_lock_call (Rwl_trylock h mode) p = map_option (\<lambda>((rc, st), q). (rc, q)) (mrapi_rwl_trylock [id] h mode p)"
| "run_lock_call (Sem_unlock h) p = map_option (\<lambda>(st, q). (granted st, q)) (mrapi_sem_unlock h p)"
| "run_lock_call (Mutex_unlock h key) p = map_option (\<lambda>(st, q). (granted st, q)) (mrapi_mutex_unlock h key p)"
| "run_lock_call (Rwl_unlock h mode) p = map_option (\<lambda>(st, q). (granted st, q)) (mrapi_rwl_unlock h mode p)"

text \<open>The result of a call moves every entry of the table by one move of its caller.\<close>

definition moved :: "mrapi_sys \<Rightarrow> mrapi_sys \<Rightarrow> bool" where
  "moved p q \<longleftrightarrow> mrapi_caller q \<and> ident q = ident p \<and> q = p\<lparr>mdb := mdb q\<rparr> \<and>
     (\<forall>s<MRAPI_MAX_SEMS. entry_move (ident p) (m_sems (mdb p) s) (m_sems (mdb q) s))"

lemma moved_refl: "mrapi_caller p \<Longrightarrow> table_ok (mdb p) \<Longrightarrow> moved p p"
  by (simp add: moved_def table_ok_def move_refl)

lemma moved_put:
  assumes "mrapi_caller p" and "table_ok (mdb p)" and "entry_move (ident p) (m_sems (mdb p) s) e" and "m_sems db = (m_sems (mdb p))(s := e)"
  shows "moved p (p\<lparr>mdb := db\<rparr>)"
  using assms by (auto simp: moved_def table_ok_def move_refl)

subsection \<open>Locking and unlocking\<close>

lemma sem_lock_try:
  assumes p: "mrapi_caller p" and h: "hndl_entry (mdb p) h s" and ok: "entry_ok (m_sems (mdb p) s)" and k: "0 < k"
  shows "mrapi_impl_sem_lock [id] h (int k) 1 st p =
     (case entry_acquire (ident p) k (m_sems (mdb p) s) of
        None \<Rightarrow> Some ((False, locked_status (s_type (m_sems (mdb p) s))), p)
      | Some e \<Rightarrow> Some ((True, MRAPI_SUCCESS), p\<lparr>mdb := put_entry s e (mdb p)\<rparr>))"
proof -
  have s: "mrapi_impl_decode_hndl h = Some s" "s < MRAPI_MAX_SEMS" using h by (auto simp: hndl_entry_def)
  note once = acquire_attempt [OF p s(1) ok k, of st "[Sems_semid s]"]
  show ?thesis
  proof (cases "entry_acquire (ident p) k (m_sems (mdb p) s)")
    case None
    then show ?thesis
      using p s k once
      by (simp add: mrapi_impl_sem_lock_def)
        (intro with_section_eq; simp add: mrapi_impl_yield_locked_def mrapi_impl_access_database_pre_def
          mrapi_impl_access_database_post_def mrapi_caller_def MRAPI_TIMEOUT_INFINITE_def)
  next
    case (Some e)
    then show ?thesis
      using p s k once by (simp add: mrapi_impl_sem_lock_def) (intro with_section_eq; simp)
  qed
qed

text \<open>A call that is granted on entry \<open>s\<close> shows that no other node holds the whole of it.\<close>

definition fair :: "mrapi_sys \<Rightarrow> nat \<Rightarrow> bool \<Rightarrow> mrapi_sys \<Rightarrow> bool" where
  "fair p s rc q \<longleftrightarrow> moved p q \<and> (rc \<longrightarrow> (\<forall>v. v \<noteq> ident p \<longrightarrow> \<not> holds_whole v (m_sems (mdb p) s)))"

lemma fair_refused: "mrapi_caller p \<Longrightarrow> table_ok (mdb p) \<Longrightarrow> fair p s False p"
  by (simp add: fair_def moved_refl)

lemma table_entry: "table_ok (mdb p) \<Longrightarrow> hndl_entry (mdb p) h s \<Longrightarrow> entry_ok (m_sems (mdb p) s)"
  by (simp add: table_ok_def hndl_entry_def)

lemma count_if_all:
  assumes "count_if p xs = count_if q xs" and "\<And>x. p x \<Longrightarrow> q x" and "x \<in> set xs" and "q x"
  shows "p x"
  using assms
proof (induction xs)
  case (Cons y ys)
  then show ?case using count_if_mono [of p q ys] by (auto split: if_splits)
qed simp

text \<open>The first slot of an entry that \<open>v\<close> holds whole names \<open>v\<close>.\<close>

lemma whole_slot:
  assumes "entry_ok e" and "holds_whole v e"
  shows "holds (ucast (fst v)) (ucast (snd v)) (locks e ! 0)"
proof -
  have 1: "count_if (holds (ucast (fst v)) (ucast (snd v))) (locks e) = count_if l_valid (locks e)"
    using assms valid_prefix_valid [of "nat (shared_lock_limit e)" "locks e"]
    by (simp add: holds_whole_def entry_ok_def entry_holding_def entry_capacity_def)
  obtain x xs j where e: "locks e = x # xs" "nat (shared_lock_limit e) = Suc j"
    using assms by (cases "locks e"; cases "nat (shared_lock_limit e)")
      (auto simp: holds_whole_def entry_ok_def entry_capacity_def MRAPI_MAX_SHARED_LOCKS_def)
  then have "l_valid x" using assms(1) by (simp add: entry_ok_def)
  with 1 show ?thesis unfolding e by (intro count_if_all [OF 1 [unfolded e]]) (auto simp: holds_def)
qed

lemma whole_slot_other:
  assumes "mrapi_caller p" and "entry_ok e" and "ucast (lock_holder_nindex (locks e ! 0)) = mrapi_nindex p"
    and "ucast (lock_holder_dindex (locks e ! 0)) = mrapi_dindex p" and "v \<noteq> ident p"
  shows "\<not> holds_whole v e"
proof
  assume "holds_whole v e"
  from whole_slot [OF assms(2) this] assms(3,4) caller_id [OF assms(1)]
  have "(ucast (fst v) :: u32) = ucast (fst (ident p))" "(ucast (snd v) :: u32) = ucast (snd (ident p))"
    by (simp_all add: holds_def)
  with assms(5) show False by (simp add: same_id prod_eq_iff)
qed

lemma sem_lock_fair:
  assumes p: "mrapi_caller p" and t: "table_ok (mdb p)" and h: "hndl_entry (mdb p) h s" and k: "0 < k"
  shows "\<exists>rc st' q. mrapi_impl_sem_lock [id] h (int k) 1 st p = Some ((rc, st'), q) \<and> fair p s rc q"
proof (cases "entry_acquire (ident p) k (m_sems (mdb p) s)")
  case None
  with sem_lock_try [OF p h table_entry [OF t h] k] fair_refused [OF p t] show ?thesis by auto
next
  case (Some e)
  have "entry_move (ident p) (m_sems (mdb p) s) e" using table_entry [OF t h] k Some by (rule take)
  then have "moved p (p\<lparr>mdb := put_entry s e (mdb p)\<rparr>)" by (rule moved_put [OF p t]) simp
  moreover have "\<not> holds_whole v (m_sems (mdb p) s)" if "v \<noteq> ident p" for v
    using whole_excludes(1) [OF table_entry [OF t h] _ that k] Some by auto
  ultimately show ?thesis using Some sem_lock_try [OF p h table_entry [OF t h] k] by (auto simp: fair_def)
qed

lemma release_fair:
  assumes p: "mrapi_caller p" and t: "table_ok (mdb p)" and h: "hndl_entry (mdb p) h s" and k: "0 < k" "k \<le> 32"
  shows "\<exists>rc st' q. mrapi_impl_release_lock h (int k) MRAPI_SUCCESS p = Some ((rc, st'), q) \<and> fair p s rc q \<and> granted st' = rc"
proof (cases "entry_release (ident p) k (m_sems (mdb p) s)")
  case None
  with release_attempt [OF p h table_entry [OF t h] k] fair_refused [OF p t] show ?thesis
    by (auto simp: granted_def notlocked_status_def split: lock_type.split)
next
  case (Some e)
  have "entry_move (ident p) (m_sems (mdb p) s) e" using table_entry [OF t h] k(1) Some by (rule give)
  then have "moved p (p\<lparr>mdb := put_entry s e (mdb p)\<rparr>)" by (rule moved_put [OF p t]) simp
  moreover have "\<not> holds_whole v (m_sems (mdb p) s)" if "v \<noteq> ident p" for v
    using whole_excludes(2) [OF table_entry [OF t h] _ that k(1)] Some by auto
  ultimately show ?thesis using Some release_attempt [OF p h table_entry [OF t h] k] by (auto simp: fair_def granted_def)
qed

text \<open>The writer of a reader/writer lock whose limit is 0 asks for no lock at all.\<close>

lemma whole_pos: "entry_capacity e = 0 \<Longrightarrow> \<not> holds_whole v e"
  by (simp add: holds_whole_def)

lemma sem_lock_fair_none:
  assumes p: "mrapi_caller p" and t: "table_ok (mdb p)" and h: "hndl_entry (mdb p) h s" and z: "entry_capacity (m_sems (mdb p) s) = 0"
  shows "mrapi_impl_sem_lock [id] h 0 1 st p = Some ((True, MRAPI_SUCCESS), p)"
proof -
  have s: "mrapi_impl_decode_hndl h = Some s" "s < MRAPI_MAX_SEMS" using h by (auto simp: hndl_entry_def)
  show ?thesis
    using p s acquire_nothing [OF p s(1) table_entry [OF t h] z, of st "[Sems_semid s]"]
    by (simp add: mrapi_impl_sem_lock_def) (intro with_section_eq; simp)
qed

lemma release_none:
  assumes p: "mrapi_caller p" and t: "table_ok (mdb p)" and h: "hndl_entry (mdb p) h s" and z: "entry_capacity (m_sems (mdb p) s) = 0"
  shows "mrapi_impl_release_lock h 0 st p = Some ((True, st), p)"
proof -
  have s: "mrapi_impl_decode_hndl h = Some s" "s < MRAPI_MAX_SEMS" "s_valid (m_sems (mdb p) s)" using h by (auto simp: hndl_entry_def)
  have lim: "shared_lock_limit (m_sems (mdb p) s) = 0"
    using z table_entry [OF t h] by (simp add: entry_ok_def entry_capacity_def)
  show ?thesis
    using p s lim caller_whoami [OF p]
    by (simp add: mrapi_impl_release_lock_def) (intro with_section_eq; simp add: unsigned_bound_def)
qed

lemma read_limit:
  assumes "mrapi_caller p" and "s < MRAPI_MAX_SEMS"
  shows "with_section (Sems_semid s) (\<lambda>sys. Some (shared_lock_limit (m_sems (mdb sys) s), sys)) p = Some (shared_lock_limit (m_sems (mdb p) s), p)"
  using assms by (intro with_section_eq) simp_all

lemma limit_cases:
  assumes "entry_ok e"
  obtains "shared_lock_limit e = 0" and "entry_capacity e = 0" | k where "shared_lock_limit e = int k" and "0 < k" and "k \<le> 32"
  using assms entry_bounds(1) [OF assms] that by (cases "shared_lock_limit e") (auto simp: entry_ok_def entry_capacity_def)

lemma rwl_lock_fair:
  assumes p: "mrapi_caller p" and t: "table_ok (mdb p)" and h: "hndl_entry (mdb p) h s"
  shows "\<exists>rc st' q. mrapi_impl_rwl_lock [id] h mode 1 st p = Some ((rc, st'), q) \<and> fair p s rc q"
proof -
  have s: "mrapi_impl_decode_hndl h = Some s" "s < MRAPI_MAX_SEMS" using h by (auto simp: hndl_entry_def)
  show ?thesis
  proof (cases mode)
    case MRAPI_RWL_READER
    then show ?thesis using sem_lock_fair [OF p t h, of 1 st] s by (simp add: mrapi_impl_rwl_lock_def)
  next
    case MRAPI_RWL_WRITER
    from table_entry [OF t h] show ?thesis
    proof (cases rule: limit_cases)
      case 1
      then show ?thesis using MRAPI_RWL_WRITER s sem_lock_fair_none [OF p t h 1(2)] moved_refl [OF p t]
        by (auto simp: mrapi_impl_rwl_lock_def read_limit [OF p s(2)] fair_def whole_pos)
    next
      case (2 k)
      then show ?thesis using MRAPI_RWL_WRITER s sem_lock_fair [OF p t h, of k st]
        by (simp add: mrapi_impl_rwl_lock_def read_limit [OF p s(2)])
    qed
  qed
qed

lemma rwl_unlock_fair:
  assumes p: "mrapi_caller p" and t: "table_ok (mdb p)" and h: "hndl_entry (mdb p) h s"
  shows "\<exists>rc st' q. mrapi_impl_rwl_unlock h mode MRAPI_SUCCESS p = Some ((rc, st'), q) \<and> fair p s rc q \<and> granted st' = rc"
proof -
  have s: "mrapi_impl_decode_hndl h = Some s" "s < MRAPI_MAX_SEMS" using h by (auto simp: hndl_entry_def)
  show ?thesis
  proof (cases mode)
    case MRAPI_RWL_READER
    then show ?thesis using release_fair [OF p t h, of 1] s by (simp add: mrapi_impl_rwl_unlock_def mrapi_impl_sem_unlock_def)
  next
    case MRAPI_RWL_WRITER
    from table_entry [OF t h] show ?thesis
    proof (cases rule: limit_cases)
      case 1
      then show ?thesis using MRAPI_RWL_WRITER s release_none [OF p t h 1(2)] moved_refl [OF p t]
        by (auto simp: mrapi_impl_rwl_unlock_def mrapi_impl_sem_unlock_def read_limit [OF p s(2)] fair_def whole_pos granted_def)
    next
      case (2 k)
      then show ?thesis using MRAPI_RWL_WRITER s release_fair [OF p t h, of k]
        by (simp add: mrapi_impl_rwl_unlock_def mrapi_impl_sem_unlock_def read_limit [OF p s(2)])
    qed
  qed
qed

text \<open>The first section of a mutex call either bumps the key of the caller's own slot or changes nothing.\<close>

definition own_slot :: "mrapi_sys \<Rightarrow> nat \<Rightarrow> bool" where
  "own_slot p s \<longleftrightarrow> ucast (lock_holder_nindex (locks (m_sems (mdb p) s) ! 0)) = mrapi_nindex p \<and>
     ucast (lock_holder_dindex (locks (m_sems (mdb p) s) ! 0)) = mrapi_dindex p"

definition put_key :: "nat \<Rightarrow> u32 \<Rightarrow> mrapi_sys \<Rightarrow> mrapi_sys" where
  "put_key s key p = p\<lparr>mdb := upd_sem s (\<lambda>e. e\<lparr>locks := (locks e)[0 := (locks e ! 0)\<lparr>lock_key := key\<rparr>]\<rparr>) (mdb p)\<rparr>"

lemma put_key_held: "put_key s key (p\<lparr>held_sections := hs\<rparr>) = (put_key s key p)\<lparr>held_sections := hs\<rparr>"
  by (simp add: put_key_def)

lemma caller_put_key [simp]: "mrapi_caller (put_key s key p) = mrapi_caller p"
  by (simp add: put_key_def)

lemma mutex_again:
  assumes p: "mrapi_caller p" and s: "s < MRAPI_MAX_SEMS"
  shows "with_section (Sems_semid s) (mutex_lock_again (mrapi_nindex p) (mrapi_dindex p) s) p =
     (let e = m_sems (mdb p) s; x = locks e ! 0
      in if l_locked x \<and> own_slot p s
         then if recursive (s_attributes e) = 1 then Some (Some (Some (lock_key x + 1)), put_key s (lock_key x + 1) p)
              else Some (Some None, p)
         else Some (None, p))"
  unfolding Let_def using p s
  by (auto intro!: with_section_eq simp: mutex_lock_again_def Let_def own_slot_def put_key_def)

lemma mutex_nested:
  assumes p: "mrapi_caller p" and s: "s < MRAPI_MAX_SEMS"
  shows "with_section (Sems_semid s) (mutex_unlock_nested (mrapi_nindex p) (mrapi_dindex p) s key) p =
     (let x = locks (m_sems (mdb p) s) ! 0
      in if own_slot p s \<and> key = lock_key x \<and> key \<noteq> 0 then Some ((True, ucast (lock_key x - 1)), put_key s (lock_key x - 1) p)
         else Some ((False, ucast (lock_key x)), p))"
  unfolding Let_def using p s
  by (auto intro!: with_section_eq simp: mutex_unlock_nested_def Let_def own_slot_def put_key_def)

lemma key_fair:
  assumes p: "mrapi_caller p" and t: "table_ok (mdb p)" and h: "hndl_entry (mdb p) h s" and own: "own_slot p s"
  shows "fair p s True (put_key s key p)"
  unfolding fair_def put_key_def using whole_slot_other [OF p table_entry [OF t h]] own
  by (auto simp: own_slot_def intro!: moved_put [OF p t] move_key table_entry [OF t h])

lemma mutex_lock_fair:
  assumes p: "mrapi_caller p" and t: "table_ok (mdb p)" and h: "hndl_entry (mdb p) h s"
  shows "\<exists>rc key' st' q. mrapi_impl_mutex_lock [id] h key 1 st p = Some ((rc, key', st'), q) \<and> fair p s rc q"
proof -
  have s: "mrapi_impl_decode_hndl h = Some s" "s < MRAPI_MAX_SEMS" using h by (auto simp: hndl_entry_def)
  note impl = mrapi_impl_mutex_lock_def caller_whoami [OF p] s mutex_again [OF p s(2)] Let_def
  show ?thesis
  proof (cases "l_locked (locks (m_sems (mdb p) s) ! 0) \<and> own_slot p s")
    case True
    then show ?thesis using key_fair [OF p t h] fair_refused [OF p t] by (auto simp: impl)
  next
    case False
    then show ?thesis using sem_lock_fair [OF p t h, of 1 st] by (auto simp: impl)
  qed
qed

lemma mutex_unlock_fair:
  assumes p: "mrapi_caller p" and t: "table_ok (mdb p)" and h: "hndl_entry (mdb p) h s"
  shows "\<exists>rc st' q. mrapi_impl_mutex_unlock h key MRAPI_SUCCESS p = Some ((rc, st'), q) \<and> fair p s rc q \<and> granted st' = rc"
proof -
  have s: "mrapi_impl_decode_hndl h = Some s" "s < MRAPI_MAX_SEMS" using h by (auto simp: hndl_entry_def)
  let ?x = "locks (m_sems (mdb p) s) ! 0"
  note impl = mrapi_impl_mutex_unlock_def caller_whoami [OF p] s mutex_nested [OF p s(2)] Let_def
  show ?thesis
  proof (cases "own_slot p s \<and> key = lock_key ?x \<and> key \<noteq> 0")
    case True
    then show ?thesis using key_fair [OF p t h] by (auto simp: impl granted_def)
  next
    case False
    then show ?thesis using release_fair [OF p t h, of 1] fair_refused [OF p t]
      by (cases "ucast (lock_key ?x) = (0 :: byte)") (auto simp: impl granted_def)
  qed
qed

subsection \<open>Creating, finding and deleting\<close>

lemma sem_delete_fair:
  assumes p: "mrapi_caller p" and t: "table_ok (mdb p)" and h: "hndl_entry (mdb p) h s"
  shows "\<exists>rc q. mrapi_impl_sem_delete h p = Some (rc, q) \<and> fair p s rc q"
proof -
  let ?e = "m_sems (mdb p) s"
  have s: "mrapi_impl_decode_hndl h = Some s" "s < MRAPI_MAX_SEMS" "s_valid ?e" using h by (auto simp: hndl_entry_def)
  note ok = table_entry [OF t h]
  have count: "count_loop (holds (mrapi_nindex p) (mrapi_dindex p)) (unsigned_bound (shared_lock_limit ?e)) (locks ?e) = Some (entry_holding ?e (ident p))"
    using ok by (simp add: count_holds entry_ok_def entry_holding_def caller_id [OF p] entry_bounds(2) [OF ok])
  have bound: "unsigned_bound (shared_lock_limit ?e) = entry_capacity ?e"
    by (simp add: entry_bounds(2) [OF ok] entry_capacity_def)
  show ?thesis
  proof (cases "entry_holding ?e (ident p) = entry_capacity ?e")
    case False
    have "mrapi_impl_sem_delete h p = Some (False, p)"
      unfolding mrapi_impl_sem_delete_def s(1) option.case
      by (rule with_section_eq [OF p]) (use False s p count bound in \<open>simp_all add: caller_whoami [OF p] Let_def\<close>)
    then show ?thesis using fair_refused [OF p t] by blast
  next
    case True
    define f where "f = ?e\<lparr>s_valid := False, s_deleted := (if ext_error_checking (s_attributes ?e) = 1 then True else s_deleted ?e)\<rparr>"
    have "entry_ok f" using ok by (simp add: f_def entry_ok_def)
    then have "moved p (p\<lparr>mdb := put_entry s f (mdb p)\<rparr>)"
      using drop [OF ok _ True] by (intro moved_put [OF p t, of s f]) simp_all
    moreover have "\<not> holds_whole v ?e" if "v \<noteq> ident p" for v
      using that True entry_holding_pair [OF that, of ?e] entry_total_le [OF ok] by (auto simp: holds_whole_def)
    moreover have "mrapi_impl_sem_delete h p = Some (True, p\<lparr>mdb := put_entry s f (mdb p)\<rparr>)"
      unfolding mrapi_impl_sem_delete_def s(1) option.case
      by (rule with_section_eq [OF p]) (use True s p count bound in \<open>simp_all add: caller_whoami [OF p] Let_def f_def\<close>)
    ultimately show ?thesis by (auto simp: fair_def)
  qed
qed

lemma sem_get_moved:
  assumes p: "mrapi_caller p" and t: "table_ok (mdb p)"
  shows "\<exists>found h q. mrapi_impl_sem_get key p = Some ((found, h), q) \<and> moved p q"
proof -
  let ?s = "for_first (\<lambda>s. s_key (m_sems (mdb p) s) = key) 0 MRAPI_MAX_SEMS"
  let ?h = "mrapi_impl_encode_hndl (word_of_nat ?s)"
  define db where "db = upd_sem ?s (\<lambda>e. e\<lparr>s_refs := s_refs e + 1\<rparr>)
    (upd_mnode (unat (mrapi_dindex p)) (unat (mrapi_nindex p)) (\<lambda>nd. nd\<lparr>n_sems := (n_sems nd)(?s := 1)\<rparr>) (mdb p))"
  consider (none) "?s = MRAPI_MAX_SEMS"
    | (new) "?s \<noteq> MRAPI_MAX_SEMS" "n_sems (d_nodes (m_domains (mdb p) (unat (mrapi_dindex p))) (unat (mrapi_nindex p))) ?s = 0"
    | (old) "?s \<noteq> MRAPI_MAX_SEMS" "n_sems (d_nodes (m_domains (mdb p) (unat (mrapi_dindex p))) (unat (mrapi_nindex p))) ?s \<noteq> 0" by blast
  then show ?thesis
  proof cases
    case new
    then have "?s < MRAPI_MAX_SEMS" using for_first_le [of 0 MRAPI_MAX_SEMS] by (simp add: le_neq_implies_less)
    with t have "entry_move (ident p) (m_sems (mdb p) ?s) ((m_sems (mdb p) ?s)\<lparr>s_refs := s_refs (m_sems (mdb p) ?s) + 1\<rparr>)"
      by (simp add: table_ok_def move_refs)
    then have "moved p (p\<lparr>mdb := db\<rparr>)" by (rule moved_put [OF p t]) (simp add: db_def)
    moreover have "mrapi_impl_sem_get key p = Some ((True, ?h), p\<lparr>mdb := db\<rparr>)"
      unfolding mrapi_impl_sem_get_def
      by (rule with_section_eq [OF p]) (use new p in \<open>simp_all add: caller_whoami [OF p] Let_def db_def\<close>)
    ultimately show ?thesis by blast
  next
    case none
    have "mrapi_impl_sem_get key p = Some ((False, ?h), p)" unfolding mrapi_impl_sem_get_def
      by (rule with_section_eq [OF p]) (use none p in \<open>simp_all add: caller_whoami [OF p] Let_def\<close>)
    with moved_refl [OF p t] show ?thesis by blast
  next
    case old
    have "mrapi_impl_sem_get key p = Some ((True, ?h), p)" unfolding mrapi_impl_sem_get_def
      by (rule with_section_eq [OF p]) (use old p in \<open>simp_all add: caller_whoami [OF p] Let_def\<close>)
    with moved_refl [OF p t] show ?thesis by blast
  qed
qed

lemma mrapi_hndl_roundtrip:
  assumes "s < 256"
  shows "mrapi_impl_decode_hndl (mrapi_impl_encode_hndl (word_of_nat s)) = Some s"
proof -
  let ?w = "ucast (word_of_nat s :: u16) :: u32"
  have 1: "(0x80000000 OR ?w) AND 0x80000000 = 0x80000000"
    by (rule bit_word_eqI) (auto simp: bit_simps)
  have 2: "(0x80000000 OR ?w) AND 0xff = take_bit 8 ?w"
    by (simp add: word_ao_dist flip: take_bit_eq_mask) (simp add: take_bit_eq_mask mask_eq_exp_minus_1 ac_simps)
  have 3: "unat (take_bit 8 ?w) = s"
    using assms by (simp add: unsigned_take_bit_eq unsigned_ucast_eq unat_of_nat take_bit_nat_eq_self)
  show ?thesis by (simp add: mrapi_impl_decode_hndl_def mrapi_impl_encode_hndl_def hndl_index_def 1 2 3)
qed

text \<open>A new entry has the slots below its limit, all free.\<close>

definition blank :: "mrapi_lock list \<Rightarrow> bool" where
  "blank xs \<longleftrightarrow> (\<forall>x\<in>set xs. \<not> l_valid x \<and> \<not> l_locked x)"

lemma blank_slots: "blank xs \<Longrightarrow> valid_prefix 0 xs \<and> count_if taken_slot xs = 0"
  by (induction xs) (auto simp: blank_def valid_prefix_def taken_slot_def)

lemma validate_loop_slots:
  "validate_loop k xs = Some ys \<Longrightarrow> blank xs \<Longrightarrow> valid_prefix k ys \<and> length ys = length xs \<and> count_if taken_slot ys = 0"
proof (induction k xs arbitrary: ys rule: validate_loop.induct)
  case (1 xs)
  with blank_slots [of xs] show ?case by simp
next
  case (3 k x xs)
  then have "blank xs" "\<not> l_locked x" by (auto simp: blank_def)
  with 3 show ?case by (auto simp: taken_slot_def)
qed simp

lemma validate_zero:
  assumes "validate_loop (unat (limit :: u32)) (locks zero_sem) = Some ys"
  shows "valid_prefix (unat limit) ys" and "length ys = MRAPI_MAX_SHARED_LOCKS" and "count_if taken_slot ys = 0"
    and "sint limit = int (unat limit)"
proof -
  have ys: "valid_prefix (unat limit) ys \<and> length ys = length (locks zero_sem) \<and> count_if taken_slot ys = 0"
    using assms by (rule validate_loop_slots) (simp add: blank_def zero_sem_def zero_lock_def)
  then show "valid_prefix (unat limit) ys" "length ys = MRAPI_MAX_SHARED_LOCKS" "count_if taken_slot ys = 0"
    by (simp_all add: zero_sem_def)
  with ys have "unat limit \<le> 32" by (simp add: valid_prefix_def MRAPI_MAX_SHARED_LOCKS_def)
  then have "uint limit \<le> 32" by (simp add: nat_le_iff flip: nat_uint_eq)
  moreover have "- (2 ^ 31) \<le> uint limit" by (rule order_trans [of _ 0]) simp_all
  ultimately show "sint limit = int (unat limit)"
    using signed_take_bit_int_eq_self [of 31 "uint limit"] by (simp add: sint_uint)
qed

definition fresh_slot :: "mrapi_database \<Rightarrow> nat" where
  "fresh_slot db = for_first (\<lambda>s. \<not> s_valid (m_sems db s) \<and> \<not> s_deleted (m_sems db s)) 0 MRAPI_MAX_SEMS"

lemma create_lock_cases:
  assumes p: "mrapi_caller p"
    and c: "mrapi_impl_create_lock_locked key limit ty st (p\<lparr>held_sections := hs\<rparr>) = Some ((h, st'), q)"
  obtains "h = None" and "q = p\<lparr>held_sections := hs\<rparr>"
  | slots key' where "fresh_slot (mdb p) < MRAPI_MAX_SEMS" and "h = Some (mrapi_impl_encode_hndl (word_of_nat (fresh_slot (mdb p))))"
      and "validate_loop (unat limit) (locks zero_sem) = Some slots"
      and "q = p\<lparr>held_sections := hs, mdb := add_entry (unat (mrapi_dindex p)) (unat (mrapi_nindex p)) (fresh_slot (mdb p))
                 (new_entry (fresh_slot (mdb p)) key' limit ty slots) (mdb p)\<rparr>"
proof -
  have le: "fresh_slot (mdb p) \<le> MRAPI_MAX_SEMS" unfolding fresh_slot_def by (rule for_first_le) simp
  from c show thesis
    using le by (auto simp: mrapi_impl_create_lock_locked_def caller_whoami [OF p] Let_def bind_eq_Some_conv
        simp flip: fresh_slot_def split: if_splits intro: that)
qed

lemma new_entry_ok:
  assumes "validate_loop (unat limit) (locks zero_sem) = Some slots"
  shows "entry_ok ((new_entry s key limit ty slots)\<lparr>s_type := ty', s_attributes := a\<rparr>)"
  using validate_zero [OF assms] by (simp add: entry_ok_def new_entry_def zero_sem_def)

lemma create_lock_moved:
  assumes p: "mrapi_caller p" and t: "table_ok (mdb p)"
    and c: "with_section Semid (\<lambda>sys. Option.bind (mrapi_impl_create_lock_locked key limit ty st sys) (finish_create ty attrs)) p = Some ((h, st'), q)"
  shows "moved p q"
proof -
  let ?s = "fresh_slot (mdb p)" and ?p = "p\<lparr>held_sections := [Semid]\<rparr>"
  from c p obtain q' where q': "Option.bind (mrapi_impl_create_lock_locked key limit ty st ?p) (finish_create ty attrs) = Some ((h, st'), q')"
    and q: "q = q'\<lparr>held_sections := removeAll Semid (held_sections q')\<rparr>"
    by (auto simp: with_section_def mrapi_impl_access_database_pre_def mrapi_impl_access_database_post_def mrapi_caller_def
        bind_eq_Some_conv split: if_splits)
  then obtain h1 st1 q1 where 1: "mrapi_impl_create_lock_locked key limit ty st ?p = Some ((h1, st1), q1)"
    and 2: "finish_create ty attrs ((h1, st1), q1) = Some ((h, st'), q')" by (auto simp: bind_eq_Some_conv)
  from create_lock_cases [OF p 1] show ?thesis
  proof cases
    case 1
    with 2 q p have "q = p" by (cases p) (auto simp: finish_create_def mrapi_caller_def)
    with moved_refl [OF p t] show ?thesis by simp
  next
    case (2 slots key')
    have s: "mrapi_impl_decode_hndl (mrapi_impl_encode_hndl (word_of_nat ?s)) = Some ?s"
      using 2(1) by (intro mrapi_hndl_roundtrip) (simp add: MRAPI_MAX_SEMS_def)
    define e where "e = (new_entry ?s key' limit ty slots)\<lparr>s_type := ty, s_attributes := attrs (s_attributes (new_entry ?s key' limit ty slots))\<rparr>"
    define db where "db = upd_sem ?s (\<lambda>_. e) (add_entry (unat (mrapi_dindex p)) (unat (mrapi_nindex p)) ?s (new_entry ?s key' limit ty slots) (mdb p))"
    have "\<not> s_valid (m_sems (mdb p) ?s)"
      using for_first_hit [OF 2(1) [unfolded fresh_slot_def]] by (simp add: fresh_slot_def)
    then have "entry_move (ident p) (m_sems (mdb p) ?s) e"
      unfolding e_def by (rule fill) (rule new_entry_ok [OF 2(3)])
    then have "moved p (p\<lparr>mdb := db\<rparr>)" by (rule moved_put [OF p t]) (simp add: db_def add_entry_def)
    moreover have "q = p\<lparr>mdb := db\<rparr>"
      using \<open>finish_create _ _ _ = _\<close> q p 2 s by (cases p) (auto simp: finish_create_def mrapi_caller_def add_entry_def db_def e_def)
    ultimately show ?thesis by simp
  qed
qed

section \<open>Every call is a move\<close>

fun call_handle :: "lock_call \<Rightarrow> u32 option" where
  "call_handle (Sem_delete h) = Some h" | "call_handle (Mutex_delete h) = Some h" | "call_handle (Rwl_delete h) = Some h"
| "call_handle (Sem_trylock h) = Some h" | "call_handle (Mutex_trylock h key) = Some h" | "call_handle (Rwl_trylock h mode) = Some h"
| "call_handle (Sem_unlock h) = Some h" | "call_handle (Mutex_unlock h key) = Some h" | "call_handle (Rwl_unlock h mode) = Some h"
| "call_handle _ = None"

lemma create_call_moved:
  assumes p: "mrapi_caller p" and t: "table_ok (mdb p)" and r: "run_lock_call c p = Some (g, q)" and "call_handle c = None"
  shows "moved p q"
proof (cases c)
  case (Sem_create key attrs limit)
  with p r show ?thesis using moved_refl [OF p t]
    by (auto simp: mrapi_sem_create_def create_result_def mrapi_impl_sem_create_def split: if_splits option.splits
        dest!: create_lock_moved [OF p t])
next
  case (Mutex_create key attrs)
  with p r show ?thesis
    by (auto simp: mrapi_mutex_create_def mrapi_impl_mutex_validID_def mrapi_impl_mutex_create_def bind_eq_Some_conv
        dest!: create_lock_moved [OF p t])
next
  case (Rwl_create key attrs limit)
  with p r show ?thesis
    by (auto simp: mrapi_rwl_create_def create_result_def mrapi_impl_rwl_validID_def mrapi_impl_rwl_create_def split: option.splits
        dest!: create_lock_moved [OF p t])
next
  case (Sem_get key)
  with p r sem_get_moved [OF p t, of key] show ?thesis by (auto simp: mrapi_sem_get_def)
next
  case (Mutex_get key)
  with p r sem_get_moved [OF p t, of key] show ?thesis by (auto simp: mrapi_mutex_get_def mrapi_impl_mutex_get_def)
next
  case (Rwl_get key)
  with p r sem_get_moved [OF p t, of key] show ?thesis by (auto simp: mrapi_rwl_get_def mrapi_impl_rwl_get_def)
qed (use assms in simp_all)

text \<open>A call on a handle that the check rejects changes nothing and is not granted.\<close>

lemmas lock_api_defs = mrapi_sem_delete_def mrapi_mutex_delete_def mrapi_rwl_delete_def mrapi_sem_trylock_def mrapi_mutex_trylock_def
  mrapi_rwl_trylock_def mrapi_sem_unlock_def mrapi_mutex_unlock_def mrapi_rwl_unlock_def
  mrapi_impl_mutex_delete_def mrapi_impl_rwl_delete_def mrapi_impl_sem_unlock_def

lemma handle_call_pass:
  assumes p: "mrapi_caller p" and t: "table_ok (mdb p)" and "call_handle c = Some h" and h: "hndl_entry (mdb p) h s"
  shows "\<exists>g q. run_lock_call c p = Some (g, q) \<and> fair p s g q"
proof -
  note v = valid_hndl_pass [OF p h]
  show ?thesis
  proof (cases c)
    case (Sem_delete h')
    with assms(3) sem_delete_fair [OF p t h] p v show ?thesis by (auto simp: lock_api_defs granted_def)
  next
    case (Mutex_delete h')
    with assms(3) sem_delete_fair [OF p t h] p v show ?thesis by (auto simp: lock_api_defs granted_def)
  next
    case (Rwl_delete h')
    with assms(3) sem_delete_fair [OF p t h] p v show ?thesis by (auto simp: lock_api_defs granted_def)
  next
    case (Sem_trylock h')
    with assms(3) sem_lock_fair [OF p t h, of 1 MRAPI_SUCCESS] p v show ?thesis by (auto simp: lock_api_defs)
  next
    case (Mutex_trylock h' key)
    with assms(3) mutex_lock_fair [OF p t h, of key MRAPI_SUCCESS] p v show ?thesis by (auto simp: lock_api_defs)
  next
    case (Rwl_trylock h' mode)
    with assms(3) rwl_lock_fair [OF p t h, of mode MRAPI_SUCCESS] p v show ?thesis by (auto simp: lock_api_defs)
  next
    case (Sem_unlock h')
    with assms(3) release_fair [OF p t h, of 1] p v show ?thesis by (auto simp: lock_api_defs)
  next
    case (Mutex_unlock h' key)
    with assms(3) mutex_unlock_fair [OF p t h, of key] p v show ?thesis by (auto simp: lock_api_defs)
  next
    case (Rwl_unlock h' mode)
    with assms(3) rwl_unlock_fair [OF p t h, of mode] p v show ?thesis by (auto simp: lock_api_defs)
  qed (use assms(3) in simp_all)
qed

lemma handle_call_fail:
  assumes p: "mrapi_caller p" and "call_handle c = Some h" and "\<nexists>s. hndl_entry (mdb p) h s" and r: "run_lock_call c p = Some (g, q)"
  shows "q = p"
proof -
  obtain st1 st2 st3 where v: "mrapi_impl_valid_sem_hndl h p = Some ((False, st1), p)"
    "mrapi_impl_valid_mutex_hndl h p = Some ((False, st2), p)" "mrapi_impl_valid_rwl_hndl h p = Some ((False, st3), p)"
    using valid_hndl_cases [OF p, of h] assms(3) by metis
  from assms(2) r p v show ?thesis by (cases c) (auto simp: lock_api_defs)
qed

lemma call_moved:
  assumes p: "mrapi_caller p" and t: "table_ok (mdb p)" and r: "run_lock_call c p = Some (g, q)"
  shows "moved p q"
proof (cases "call_handle c")
  case None
  then show ?thesis by (rule create_call_moved [OF p t r])
next
  case (Some h)
  show ?thesis
  proof (cases "\<exists>s. hndl_entry (mdb p) h s")
    case True
    then obtain s where "hndl_entry (mdb p) h s" by blast
    from handle_call_pass [OF p t Some this] r show ?thesis by (auto simp: fair_def)
  next
    case False
    from handle_call_fail [OF p Some False r] show ?thesis using moved_refl [OF p t] by simp
  qed
qed

lemma call_fair:
  assumes "mrapi_caller p" and "table_ok (mdb p)" and "run_lock_call c p = Some (True, q)" and "call_handle c = Some h"
    and "hndl_entry (mdb p) h s" and "v \<noteq> ident p"
  shows "\<not> holds_whole v (m_sems (mdb p) s)"
  using handle_call_pass [OF assms(1,2,4,5)] assms(3,6) by (auto simp: fair_def simp del: split_paired_All)

section \<open>Runs\<close>

text \<open>The table as calls of any nodes leave it, from the memory that the first node finds zeroed.\<close>

inductive lock_step :: "byte \<times> byte \<Rightarrow> mrapi_database \<Rightarrow> mrapi_database \<Rightarrow> bool" where
  call: "mrapi_caller p \<Longrightarrow> run_lock_call c (p\<lparr>mdb := db\<rparr>) = Some (g, q) \<Longrightarrow> lock_step (ident p) db (mdb q)"

inductive lock_reachable :: "mrapi_database \<Rightarrow> bool" where
  zero: "lock_reachable zero_database"
| step: "lock_reachable db \<Longrightarrow> lock_step w db db' \<Longrightarrow> lock_reachable db'"

text \<open>What nodes other than \<open>v\<close> make of a table.\<close>

inductive others_run :: "byte \<times> byte \<Rightarrow> mrapi_database \<Rightarrow> mrapi_database \<Rightarrow> bool" for v where
  rest: "others_run v db db"
| more: "others_run v db db' \<Longrightarrow> lock_step w db' db'' \<Longrightarrow> w \<noteq> v \<Longrightarrow> others_run v db db''"

inductive_cases lock_stepE: "lock_step w db db'"

lemma step_moves:
  assumes "lock_step w db db'" and "table_ok db" and "s < MRAPI_MAX_SEMS"
  shows "entry_move w (m_sems db s) (m_sems db' s)"
  using assms(1)
proof (rule lock_stepE)
  fix p c g q
  assume "db' = mdb q" "w = ident p" "mrapi_caller p" "run_lock_call c (p\<lparr>mdb := db\<rparr>) = Some (g, q)"
  then show ?thesis using call_moved [of "p\<lparr>mdb := db\<rparr>" c g q] assms(2,3) by (simp add: moved_def)
qed

lemma step_table: "lock_step w db db' \<Longrightarrow> table_ok db \<Longrightarrow> table_ok db'"
  using step_moves [of w db db'] move_ok by (metis table_ok_def)

lemma zero_table: "table_ok zero_database"
  by (simp add: table_ok_def zero_database_def entry_ok_def zero_sem_def blank_slots [unfolded blank_def] zero_lock_def)

lemma reachable_table: "lock_reachable db \<Longrightarrow> table_ok db"
  by (induction rule: lock_reachable.induct) (simp_all add: zero_table step_table)

lemma others_keep_whole:
  assumes "others_run v db db'" and "table_ok db" and "s < MRAPI_MAX_SEMS" and "holds_whole v (m_sems db s)"
  shows "table_ok db' \<and> holds_whole v (m_sems db' s)"
  using assms
proof (induction rule: others_run.induct)
  case (more db db' w db'')
  then have *: "table_ok db'" "holds_whole v (m_sems db' s)" by simp_all
  then have "entry_move w (m_sems db' s) (m_sems db'' s)" using more by (intro step_moves) simp_all
  with * more show ?case using whole_stays [of w] step_table [OF more(2)] by (simp add: table_ok_def)
qed simp

text \<open>A writer, and the holder of a mutex, holds the whole entry.\<close>

definition exclusive_call :: "mrapi_database \<Rightarrow> nat \<Rightarrow> u32 \<Rightarrow> lock_call \<Rightarrow> bool" where
  "exclusive_call db s h c \<longleftrightarrow> c = Rwl_trylock h MRAPI_RWL_WRITER \<or>
     (\<exists>key. c = Mutex_trylock h key) \<and> shared_lock_limit (m_sems db s) = 1"

lemma acquired_whole:
  assumes "entry_ok e" and "s_valid e" and "0 < entry_capacity e" and "entry_acquire w (entry_capacity e) e = Some f"
  shows "holds_whole w f"
proof -
  have "entry_total e + entry_capacity e \<le> entry_capacity e"
    using entry.acquire_iff [OF assms(1,3), of w] assms(4) by simp
  then have "entry_holding e w = 0" using entry_holding_le [of e w] by simp
  then show ?thesis
    using entry.acquire_capacity [OF assms(1,3,4)] entry.acquire_holding [OF assms(1,3,4)] acquire_valid [OF assms(4)] assms(2,3)
    by (simp add: holds_whole_def)
qed

lemma own_slot_whole:
  assumes p: "mrapi_caller p" and ok: "entry_ok (m_sems (mdb p) s)" and "s_valid (m_sems (mdb p) s)" and one: "shared_lock_limit (m_sems (mdb p) s) = 1"
    and own: "own_slot p s" and "l_locked (locks (m_sems (mdb p) s) ! 0)"
  shows "holds_whole (ident p) (m_sems (mdb p) s)"
proof -
  let ?e = "m_sems (mdb p) s"
  obtain x xs where e: "locks ?e = x # xs"
    using ok by (cases "locks ?e") (auto simp: entry_ok_def MRAPI_MAX_SHARED_LOCKS_def)
  have "valid_prefix (Suc 0) (x # xs)" using ok one e by (simp add: entry_ok_def)
  then have "holds (mrapi_nindex p) (mrapi_dindex p) x" using own assms(6) e by (simp add: own_slot_def holds_def)
  then have "1 \<le> entry_holding ?e (ident p)" by (simp add: entry_holding_def e caller_id [OF p])
  moreover have "entry_holding ?e (ident p) \<le> 1"
    using entry_holding_le [of ?e "ident p"] entry_total_le [OF ok] one by (simp add: entry_capacity_def)
  ultimately show ?thesis using assms(3) one by (simp add: holds_whole_def entry_capacity_def)
qed

lemma put_key_whole:
  assumes "entry_ok (m_sems (mdb p) s)" and "holds_whole v (m_sems (mdb p) s)"
  shows "holds_whole v (m_sems (mdb (put_key s key p)) s)"
proof -
  have "0 < length (locks (m_sems (mdb p) s))" using assms(1) by (simp add: entry_ok_def MRAPI_MAX_SHARED_LOCKS_def)
  then show ?thesis using assms(2)
    by (simp add: put_key_def holds_whole_def entry_holding_def entry_capacity_def key_update)
qed

lemma exclusive_grabs:
  assumes p: "mrapi_caller p" and t: "table_ok (mdb p)" and h: "hndl_entry (mdb p) h s" and cap: "0 < entry_capacity (m_sems (mdb p) s)"
    and ex: "exclusive_call (mdb p) s h c" and r: "run_lock_call c p = Some (True, q)"
  shows "holds_whole (ident p) (m_sems (mdb q) s)"
proof -
  let ?e = "m_sems (mdb p) s"
  have s: "mrapi_impl_decode_hndl h = Some s" "s < MRAPI_MAX_SEMS" "s_valid ?e" using h by (auto simp: hndl_entry_def)
  note ok = table_entry [OF t h] and v = valid_hndl_pass [OF p h]
  have lim: "shared_lock_limit ?e = int (entry_capacity ?e)" using ok by (simp add: entry_ok_def entry_capacity_def)
  have took: "holds_whole (ident p) (m_sems (mdb q) s)"
    if "mrapi_impl_sem_lock [id] h (int (entry_capacity ?e)) 1 MRAPI_SUCCESS p = Some ((True, st), q)" for st
    using that sem_lock_try [OF p h ok cap] acquired_whole [OF ok s(3) cap, of "ident p"] by (auto split: option.splits)
  from ex show ?thesis unfolding exclusive_call_def
  proof (elim disjE conjE exE)
    assume "c = Rwl_trylock h MRAPI_RWL_WRITER"
    with r p v s show ?thesis
      by (auto simp: lock_api_defs mrapi_impl_rwl_lock_def read_limit [OF p s(2)] lim intro: took)
  next
    fix key assume c: "c = Mutex_trylock h key" and one: "shared_lock_limit ?e = 1"
    note impl = mrapi_impl_mutex_lock_def caller_whoami [OF p] s mutex_again [OF p s(2)] Let_def
    show ?thesis
    proof (cases "l_locked (locks ?e ! 0) \<and> own_slot p s")
      case True
      with r p v c have "q = put_key s (lock_key (locks ?e ! 0) + 1) p" by (auto simp: lock_api_defs impl split: if_splits)
      with True own_slot_whole [OF p ok s(3) one] show ?thesis by (simp add: put_key_whole [OF ok])
    next
      case False
      with r p v c one lim show ?thesis by (auto simp: lock_api_defs impl bind_eq_Some_conv intro: took)
    qed
  qed
qed

lemma valid_prefix_nth:
  assumes "valid_prefix k xs" and "l < length xs"
  shows "l_valid (xs ! l) \<longleftrightarrow> l < k"
proof -
  have "l_valid (xs ! l) = map l_valid xs ! l" using assms(2) by simp
  also have "\<dots> = (replicate k True @ replicate (length xs - k) False) ! l"
    using assms(1) by (simp add: valid_prefix_def)
  finally show ?thesis using assms(2) by (auto simp: nth_append)
qed

section \<open>The properties\<close>

text \<open>
  C33: however nodes create, find, lock, unlock and delete semaphores, mutexes and reader/writer locks, with calls that do
  not wait, every entry of the lock table stays well-formed: it has its 32 slots, the valid ones are those below its limit, which is at most 32, and its
  counter is the number of slots that are taken, at most the limit.
\<close>

theorem reachable_well_formed:
  assumes "lock_reachable db" and "s < MRAPI_MAX_SEMS"
  shows "length (locks (m_sems db s)) = MRAPI_MAX_SHARED_LOCKS \<and> 0 \<le> shared_lock_limit (m_sems db s) \<and>
     shared_lock_limit (m_sems db s) \<le> int MRAPI_MAX_SHARED_LOCKS \<and>
     (\<forall>l<MRAPI_MAX_SHARED_LOCKS. l_valid (locks (m_sems db s) ! l) \<longleftrightarrow> int l < shared_lock_limit (m_sems db s)) \<and>
     num_locks (m_sems db s) = int (length (filter (\<lambda>x. l_valid x \<and> l_locked x) (locks (m_sems db s)))) \<and>
     num_locks (m_sems db s) \<le> shared_lock_limit (m_sems db s)"
proof -
  let ?e = "m_sems db s"
  have ok: "entry_ok ?e" using reachable_table [OF assms(1)] assms(2) by (simp add: table_ok_def)
  then have len: "length (locks ?e) = MRAPI_MAX_SHARED_LOCKS" and lim: "0 \<le> shared_lock_limit ?e"
    and pre: "valid_prefix (nat (shared_lock_limit ?e)) (locks ?e)" and num: "num_locks ?e = int (count_if taken_slot (locks ?e))"
    by (auto simp: entry_ok_def)
  have le: "shared_lock_limit ?e \<le> int MRAPI_MAX_SHARED_LOCKS"
    using entry_bounds(1) [OF ok] by (simp add: MRAPI_MAX_SHARED_LOCKS_def)
  have "l_valid (locks ?e ! l) \<longleftrightarrow> int l < shared_lock_limit ?e" if "l < MRAPI_MAX_SHARED_LOCKS" for l
    using valid_prefix_nth [OF pre, of l] that len by (simp add: zless_nat_eq_int_zless)
  moreover have "num_locks ?e \<le> shared_lock_limit ?e"
    using entry_total_le [OF ok] lim num by (simp add: entry_total_def entry_capacity_def)
  moreover have "num_locks ?e = int (length (filter (\<lambda>x. l_valid x \<and> l_locked x) (locks ?e)))"
    using num by (simp add: count_if_def taken_slot_def [abs_def])
  ultimately show ?thesis using len lim le by simp
qed

section \<open>A table to look at\<close>

text \<open>Two nodes of one domain; the first creates a reader/writer lock for two readers, with the key 7.\<close>

definition node_of :: "u32 \<Rightarrow> mrapi_sys" where
  "node_of n = \<lparr>mdb = zero_database, mrapi_db_attached = True, sections_alive = True, held_sections = [],
     mrapi_initialize_ctr = 0, mrapi_finalize_ctr = 0, mrapi_pid = 42,
     mrapi_nindex = n, mrapi_dindex = 0, mrapi_node_id = n, mrapi_domain_id = 1, sem_address = (\<lambda>s. int s)\<rparr>"

definition rwl_slots :: "mrapi_lock list" where
  "rwl_slots = zero_lock\<lparr>l_valid := True\<rparr> # zero_lock\<lparr>l_valid := True\<rparr> # replicate 30 zero_lock"

definition rwl_entry :: mrapi_sem where
  "rwl_entry = (new_entry 0 7 2 RWL rwl_slots)\<lparr>s_attributes := no_attributes\<lparr>shared_across_domains := 1\<rparr>\<rparr>"

definition rwl_db :: mrapi_database where
  "rwl_db = add_entry 0 0 0 rwl_entry zero_database"

lemma node_of_caller: "unat n < 16 \<Longrightarrow> mrapi_caller (node_of n)"
  by (simp add: mrapi_caller_def node_of_def MRAPI_MAX_NODES_def MRAPI_MAX_DOMAINS_def)

lemma rwl_slots_eq: "validate_loop 2 (locks zero_sem) = Some rwl_slots"
  using replicate_add [of 2 30 zero_lock] by (simp add: zero_sem_def rwl_slots_def MRAPI_MAX_SHARED_LOCKS_def numeral_2_eq_2)

lemma create_rwl: "run_lock_call (Rwl_create 7 None 2) (node_of 0) = Some (True, (node_of 0)\<lparr>mdb := rwl_db\<rparr>)"
proof -
  have none: "for_first (\<lambda>s. s_valid (m_sems zero_database s) \<and> s_key (m_sems zero_database s) = 7) 0 MRAPI_MAX_SEMS = MRAPI_MAX_SEMS"
    by (simp add: for_first_none zero_database_def zero_sem_def)
  have first: "for_first (\<lambda>s. \<not> s_valid (m_sems zero_database s) \<and> \<not> s_deleted (m_sems zero_database s)) 0 MRAPI_MAX_SEMS = 0"
    by (rule for_first_eqI) (simp_all add: zero_database_def zero_sem_def MRAPI_MAX_SEMS_def)
  have sems: "0 \<noteq> MRAPI_MAX_SEMS" "s_attributes zero_sem = no_attributes"
    by (simp_all add: MRAPI_MAX_SEMS_def zero_sem_def)
  have "mrapi_impl_rwl_create 7 None 2 (node_of 0) = Some ((Some 0x80000000, MRAPI_ERR_RWL_LIMIT), (node_of 0)\<lparr>mdb := rwl_db\<rparr>)"
    unfolding mrapi_impl_rwl_create_def
    by (rule with_section_eq)
      ((simp_all add: node_of_caller mrapi_impl_create_lock_locked_def mrapi_impl_whoami_def node_of_def none first Let_def rwl_slots_eq
        MRAPI_SEM_ID_ANY_def sems finish_create_def mrapi_impl_decode_hndl_def mrapi_impl_encode_hndl_def hndl_index_def
        rwl_db_def add_entry_def rwl_entry_def new_entry_def sem_attributes_of_def no_attributes_def mrapi_caller_def
        MRAPI_MAX_NODES_def MRAPI_MAX_DOMAINS_def), simp add: zero_database_def zero_sem_def)
  then show ?thesis
    by (simp add: mrapi_rwl_create_def node_of_caller mrapi_impl_rwl_validID_def create_result_def granted_def)
qed

lemma rwl_db_reachable: "lock_reachable rwl_db"
proof -
  have "(node_of 0)\<lparr>mdb := zero_database\<rparr> = node_of 0" by (simp add: node_of_def)
  then have "lock_step (ident (node_of 0)) zero_database rwl_db"
    using call [OF node_of_caller, of 0 "Rwl_create 7 None 2" zero_database True] create_rwl by fastforce
  with zero show ?thesis by (rule step)
qed

text \<open>The first node takes the write lock.\<close>

definition written_db :: mrapi_database where
  "written_db = put_entry 0 (rwl_entry\<lparr>num_locks := 2,
     locks := replicate 2 (zero_lock\<lparr>l_valid := True, l_locked := True\<rparr>) @ replicate 30 zero_lock\<rparr>) rwl_db"

lemma rwl_entry_at: "m_sems rwl_db 0 = rwl_entry"
  by (simp add: rwl_db_def add_entry_def)

lemma rwl_hndl: "hndl_entry rwl_db 0x80000000 0"
  by (simp add: hndl_entry_def rwl_entry_at mrapi_impl_decode_hndl_def hndl_index_def MRAPI_MAX_SEMS_def rwl_entry_def new_entry_def)

lemma write_rwl: "run_lock_call (Rwl_trylock 0x80000000 MRAPI_RWL_WRITER) ((node_of 0)\<lparr>mdb := rwl_db\<rparr>) = Some (True, (node_of 0)\<lparr>mdb := written_db\<rparr>)"
proof -
  let ?p = "(node_of 0)\<lparr>mdb := rwl_db\<rparr>"
  have p: "mrapi_caller ?p" by (simp add: node_of_caller)
  have h: "hndl_entry (mdb ?p) 0x80000000 0" by (simp add: rwl_hndl)
  have ok: "entry_ok (m_sems (mdb ?p) 0)"
    using reachable_table [OF rwl_db_reachable] by (simp add: table_ok_def MRAPI_MAX_SEMS_def)
  have lim: "shared_lock_limit (m_sems (mdb ?p) 0) = 2" by (simp add: rwl_entry_at rwl_entry_def new_entry_def)
  have "entry_acquire (0, 0) 2 rwl_entry = Some (rwl_entry\<lparr>num_locks := 2,
     locks := replicate 2 (zero_lock\<lparr>l_valid := True, l_locked := True\<rparr>) @ replicate 30 zero_lock\<rparr>)"
    by (simp add: entry_acquire_def rwl_entry_def new_entry_def zero_sem_def rwl_slots_def unsigned_bound_def zero_lock_def numeral_2_eq_2)
  then have "mrapi_impl_sem_lock [id] 0x80000000 (int 2) 1 MRAPI_SUCCESS ?p = Some ((True, MRAPI_SUCCESS), (node_of 0)\<lparr>mdb := written_db\<rparr>)"
    using sem_lock_try [OF p h ok, of 2 MRAPI_SUCCESS] by (simp add: rwl_entry_at written_db_def ident_def node_of_def)
  then show ?thesis
    using p valid_hndl_pass(3) [OF p h] read_limit [OF p, of 0] lim
    by (simp add: mrapi_rwl_trylock_def mrapi_impl_rwl_lock_def mrapi_impl_decode_hndl_def hndl_index_def MRAPI_MAX_SEMS_def)
qed

theorem reachable_well_formed_witness:
  "num_locks (m_sems written_db 0) = 2 \<and> length (filter (\<lambda>x. l_valid x \<and> l_locked x) (locks (m_sems written_db 0))) = 2 \<and>
   num_locks (m_sems written_db 0) \<le> shared_lock_limit (m_sems written_db 0)"
proof -
  have 0: "num_locks (m_sems written_db 0) = 2" by (simp add: written_db_def)
  have "lock_reachable written_db"
    using lock_reachable.step [OF rwl_db_reachable call [OF node_of_caller write_rwl]] by simp
  from reachable_well_formed [OF this, of 0] show ?thesis by (simp add: 0 MRAPI_MAX_SEMS_def)
qed

end
