(* ===== verification/MRAPI_Waiting.thy ===== *)
theory MRAPI_Waiting
  imports MRAPI_Exclusion
begin

text \<open>
  Blocking locks: a call that waits is a sequence of attempts, with what the other nodes do in between. It is granted at the
  latest at the first attempt that fits, and gives up after as many attempts as its timeout says. The semaphores refine an
  abstract counting semaphore, and the lock under which MCAPI works on its database is exclusive.
\<close>

section \<open>The attempts of a waiting call\<close>

text \<open>The database when the others have acted \<open>j\<close> times.\<close>

definition after_turns :: "nat \<Rightarrow> (mrapi_database \<Rightarrow> mrapi_database) list \<Rightarrow> mrapi_database \<Rightarrow> mrapi_database" where
  "after_turns j env db = fold id (take j env) db"

lemma after_simps [simp]: "after_turns 0 env db = db" "after_turns (Suc j) (f # env) db = after_turns j env (f db)"
  by (simp_all add: after_turns_def)

text \<open>What a waiting call relies on: the others keep the table well-formed, which the calls of nodes do.\<close>

definition keeps_table :: "(mrapi_database \<Rightarrow> mrapi_database) list \<Rightarrow> bool" where
  "keeps_table env \<longleftrightarrow> (\<forall>f\<in>set env. \<forall>db. table_ok db \<longrightarrow> table_ok (f db))"

lemma keeps_table_Cons [simp]:
  "keeps_table (f # env) \<longleftrightarrow> (\<forall>db. table_ok db \<longrightarrow> table_ok (f db)) \<and> keeps_table env"
  by (simp add: keeps_table_def)

definition turn :: "mrapi_sys \<times> lock_call \<Rightarrow> mrapi_database \<Rightarrow> mrapi_database" where
  "turn = (\<lambda>(p, c) db. case run_lock_call c (p\<lparr>mdb := db\<rparr>) of None \<Rightarrow> db | Some (g, q) \<Rightarrow> mdb q)"

lemma turn_step: "mrapi_caller p \<Longrightarrow> turn (p, c) db = db \<or> lock_step (ident p) db (turn (p, c) db)"
  using lock_step.call [of p c db] by (auto simp: turn_def split: option.split)

lemma turn_table: "mrapi_caller (fst t) \<Longrightarrow> table_ok db \<Longrightarrow> table_ok (turn t db)"
  using turn_step [of "fst t" "snd t" db] step_table [of "ident (fst t)" db "turn t db"] by auto

lemma turns_keep: "(\<forall>t\<in>set ts. mrapi_caller (fst t)) \<Longrightarrow> keeps_table (map turn ts)"
  by (auto simp: keeps_table_def intro: turn_table)

lemma after_table: "keeps_table env \<Longrightarrow> table_ok db \<Longrightarrow> table_ok (after_turns j env db)"
proof (induction env arbitrary: j db)
  case (Cons f env)
  then show ?case by (cases j) auto
qed (simp add: after_turns_def)

lemma table_at: "table_ok db \<Longrightarrow> s < MRAPI_MAX_SEMS \<Longrightarrow> entry_ok (m_sems db s)"
  by (simp add: table_ok_def)

definition fits :: "nat \<Rightarrow> mrapi_sem \<Rightarrow> bool" where
  "fits k e \<longleftrightarrow> entry_total e + k \<le> entry_capacity e"

lemma fits_acquire: "entry_ok e \<Longrightarrow> 0 < k \<Longrightarrow> fits k e \<longleftrightarrow> (\<exists>f. entry_acquire w k e = Some f)"
  using entry.acquire_iff [of e k w] by (auto simp: fits_def)

lemma yield_entry:
  assumes "mrapi_caller p" and "s < MRAPI_MAX_SEMS"
  shows "mrapi_impl_yield_locked (Sems_semid s) f (p\<lparr>held_sections := [Sems_semid s]\<rparr>) =
     Some (p\<lparr>mdb := f (mdb p), held_sections := [Sems_semid s]\<rparr>)"
  using assms by (cases p) (simp add: mrapi_impl_yield_locked_def mrapi_impl_access_database_post_def
      mrapi_impl_access_database_pre_def mrapi_caller_def)

lemma lock_attempt:
  assumes "mrapi_caller p" and "mrapi_impl_decode_hndl h = Some s" and "entry_ok (m_sems (mdb p) s)" and "0 < k" and "s < MRAPI_MAX_SEMS"
  shows "fits k (m_sems (mdb p) s) \<Longrightarrow> \<exists>e. entry_acquire (ident p) k (m_sems (mdb p) s) = Some e \<and>
       sem_lock_loop s h (int k) timeout time env st (p\<lparr>held_sections := [Sems_semid s]\<rparr>) =
         Some ((True, MRAPI_SUCCESS), p\<lparr>mdb := put_entry s e (mdb p), held_sections := [Sems_semid s]\<rparr>)"
    and "\<not> fits k (m_sems (mdb p) s) \<Longrightarrow> sem_lock_loop s h (int k) timeout time (f # env) st (p\<lparr>held_sections := [Sems_semid s]\<rparr>) =
       (let st' = locked_status (s_type (m_sems (mdb p) s)); q = p\<lparr>mdb := f (mdb p)\<rparr>
        in if timeout \<noteq> MRAPI_TIMEOUT_INFINITE \<and> time + 1 \<ge> timeout
           then Some ((False, if timeout \<noteq> 1 then MRAPI_TIMEOUT else st'), q\<lparr>held_sections := [Sems_semid s]\<rparr>)
           else sem_lock_loop s h (int k) timeout (time + 1) env st' (q\<lparr>held_sections := [Sems_semid s]\<rparr>))"
    and "\<not> fits k (m_sems (mdb p) s) \<Longrightarrow> sem_lock_loop s h (int k) timeout time [] st (p\<lparr>held_sections := [Sems_semid s]\<rparr>) = None"
proof -
  note a = acquire_attempt [OF assms(1-4), of st "[Sems_semid s]"]
  show "\<exists>e. entry_acquire (ident p) k (m_sems (mdb p) s) = Some e \<and>
       sem_lock_loop s h (int k) timeout time env st (p\<lparr>held_sections := [Sems_semid s]\<rparr>) =
         Some ((True, MRAPI_SUCCESS), p\<lparr>mdb := put_entry s e (mdb p), held_sections := [Sems_semid s]\<rparr>)"
    if fit: "fits k (m_sems (mdb p) s)"
  proof -
    obtain e where "entry_acquire (ident p) k (m_sems (mdb p) s) = Some e"
      using fit fits_acquire [OF assms(3,4), of "ident p"] by blast
    then show ?thesis using a by (simp add: sem_lock_loop.simps [of _ _ _ _ _ env])
  qed
  assume "\<not> fits k (m_sems (mdb p) s)"
  then have none: "entry_acquire (ident p) k (m_sems (mdb p) s) = None"
    using fits_acquire [OF assms(3,4), of "ident p"] by (cases "entry_acquire (ident p) k (m_sems (mdb p) s)") auto
  then show "sem_lock_loop s h (int k) timeout time [] st (p\<lparr>held_sections := [Sems_semid s]\<rparr>) = None"
    using a assms(4) by simp
  show "sem_lock_loop s h (int k) timeout time (f # env) st (p\<lparr>held_sections := [Sems_semid s]\<rparr>) =
       (let st' = locked_status (s_type (m_sems (mdb p) s)); q = p\<lparr>mdb := f (mdb p)\<rparr>
        in if timeout \<noteq> MRAPI_TIMEOUT_INFINITE \<and> time + 1 \<ge> timeout
           then Some ((False, if timeout \<noteq> 1 then MRAPI_TIMEOUT else st'), q\<lparr>held_sections := [Sems_semid s]\<rparr>)
           else sem_lock_loop s h (int k) timeout (time + 1) env st' (q\<lparr>held_sections := [Sems_semid s]\<rparr>))"
    using a assms(4) none yield_entry [OF assms(1,5)] by (simp add: sem_lock_loop.simps [of _ _ _ _ _ "f # env"] Let_def)
qed

declare sem_lock_loop.simps [simp del]

lemma next_attempt:
  "i + unat time < unat timeout \<Longrightarrow> 0 < i \<Longrightarrow> unat (time + 1 :: u32) = unat time + 1 \<and> time + 1 < timeout"
  using unat_inc [of time] unsigned_less [of timeout, where 'a = nat] by (auto simp: word_less_nat_alt)

lemma loop_granted:
  assumes "mrapi_caller p" and "mrapi_impl_decode_hndl h = Some s" and "table_ok (mdb p)" and "0 < k" and "s < MRAPI_MAX_SEMS"
    and "keeps_table env" and "i \<le> length env" and "fits k (m_sems (after_turns i env (mdb p)) s)"
    and "timeout = MRAPI_TIMEOUT_INFINITE \<or> i + unat time < unat timeout"
  shows "\<exists>j e. j \<le> i \<and> entry_acquire (ident p) k (m_sems (after_turns j env (mdb p)) s) = Some e \<and>
     sem_lock_loop s h (int k) timeout time env st (p\<lparr>held_sections := [Sems_semid s]\<rparr>) =
       Some ((True, MRAPI_SUCCESS), p\<lparr>mdb := put_entry s e (after_turns j env (mdb p)), held_sections := [Sems_semid s]\<rparr>)"
  using assms
proof (induction env arbitrary: p i time st)
  case Nil
  then have "i = 0" and "fits k (m_sems (mdb p) s)" by simp_all
  with Nil.prems table_at [OF Nil.prems(3,5)] lock_attempt(1) [of p h s k timeout time "[]" st] show ?case
    by (metis after_simps(1) bot_nat_0.extremum)
next
  case (Cons f env)
  show ?case
  proof (cases "fits k (m_sems (mdb p) s)")
    case True
    with Cons.prems table_at [OF Cons.prems(3,5)] lock_attempt(1) [of p h s k timeout time "f # env" st] show ?thesis
      by (metis after_simps(1) bot_nat_0.extremum)
  next
    case False
    with Cons.prems(8) obtain i' where i: "i = Suc i'" by (cases i) auto
    let ?q = "p\<lparr>mdb := f (mdb p)\<rparr>" and ?st = "locked_status (s_type (m_sems (mdb p) s))"
    have t: "timeout = MRAPI_TIMEOUT_INFINITE \<or> i' + unat (time + 1) < unat timeout" "\<not> (timeout \<noteq> MRAPI_TIMEOUT_INFINITE \<and> time + 1 \<ge> timeout)"
      using Cons.prems(9) next_attempt [of i time timeout] by (auto simp: i)
    have "\<exists>j e. j \<le> i' \<and> entry_acquire (ident ?q) k (m_sems (after_turns j env (mdb ?q)) s) = Some e \<and>
       sem_lock_loop s h (int k) timeout (time + 1) env ?st (?q\<lparr>held_sections := [Sems_semid s]\<rparr>) =
       Some ((True, MRAPI_SUCCESS), ?q\<lparr>mdb := put_entry s e (after_turns j env (mdb ?q)), held_sections := [Sems_semid s]\<rparr>)"
      using Cons.prems i t(1) by (intro Cons.IH) auto
    then obtain j e where "j \<le> i'" "entry_acquire (ident p) k (m_sems (after_turns (Suc j) (f # env) (mdb p)) s) = Some e"
      "sem_lock_loop s h (int k) timeout (time + 1) env ?st (?q\<lparr>held_sections := [Sems_semid s]\<rparr>) =
       Some ((True, MRAPI_SUCCESS), p\<lparr>mdb := put_entry s e (after_turns (Suc j) (f # env) (mdb p)), held_sections := [Sems_semid s]\<rparr>)"
      by auto
    with False t(2) Cons.prems table_at [OF Cons.prems(3,5)] lock_attempt(2) [of p h s k timeout time f env st] i show ?thesis
      by (intro exI [of _ "Suc j"] exI [of _ e]) (simp add: Let_def fun_upd_def)
  qed
qed

text \<open>
  The result of at most \<open>n\<close> attempts: the locks at the first attempt at which they are free, or, when they never are,
  nothing after the last turn.
\<close>

definition attempts_outcome ::
  "mrapi_sys \<Rightarrow> nat \<Rightarrow> nat \<Rightarrow> u32 \<Rightarrow> (mrapi_database \<Rightarrow> mrapi_database) list \<Rightarrow> nat \<Rightarrow> (bool \<times> mrapi_status) \<times> mrapi_sys \<Rightarrow> bool" where
  "attempts_outcome p s k timeout env n r \<longleftrightarrow>
     (\<exists>j<n. (\<forall>i<j. \<not> fits k (m_sems (after_turns i env (mdb p)) s)) \<and>
        (\<exists>e. entry_acquire (ident p) k (m_sems (after_turns j env (mdb p)) s) = Some e \<and>
           r = ((True, MRAPI_SUCCESS), p\<lparr>mdb := put_entry s e (after_turns j env (mdb p))\<rparr>))) \<or>
     (\<forall>i<n. \<not> fits k (m_sems (after_turns i env (mdb p)) s)) \<and>
       r = ((False, if timeout \<noteq> 1 then MRAPI_TIMEOUT else locked_status (s_type (m_sems (after_turns (n - 1) env (mdb p)) s))),
            p\<lparr>mdb := after_turns n env (mdb p)\<rparr>)"

lemma outcome_later:
  assumes "attempts_outcome (p\<lparr>mdb := f (mdb p)\<rparr>) s k timeout env n r" and "\<not> fits k (m_sems (mdb p) s)" and "0 < n"
  shows "attempts_outcome p s k timeout (f # env) (Suc n) r"
proof -
  have le: "(\<forall>i<Suc m. \<not> fits k (m_sems (after_turns i (f # env) (mdb p)) s)) \<longleftrightarrow>
      (\<forall>i<m. \<not> fits k (m_sems (after_turns i env (f (mdb p))) s))" for m
    using assms(2) by (auto simp: less_Suc_eq_0_disj)
  from assms(3) obtain m where n: "n = Suc m" by (cases n) auto
  have sel: "ident (p\<lparr>mdb := f (mdb p)\<rparr>) = ident p" "mdb (p\<lparr>mdb := f (mdb p)\<rparr>) = f (mdb p)" by simp_all
  from assms(1) show ?thesis
    unfolding attempts_outcome_def sel le
  proof (elim disjE exE conjE, goal_cases)
    case (1 j e)
    then have "Suc j < Suc n \<and> (\<forall>i<Suc j. \<not> fits k (m_sems (after_turns i (f # env) (mdb p)) s)) \<and>
        (\<exists>e. entry_acquire (ident p) k (m_sems (after_turns (Suc j) (f # env) (mdb p)) s) = Some e \<and>
           r = ((True, MRAPI_SUCCESS), p\<lparr>mdb := put_entry s e (after_turns (Suc j) (f # env) (mdb p))\<rparr>))"
      unfolding le by simp
    then show ?case by blast
  next
    case 2
    then show ?case by (simp add: n)
  qed
qed

lemma loop_timeout:
  assumes "mrapi_caller p" and "mrapi_impl_decode_hndl h = Some s" and "table_ok (mdb p)" and "0 < k" and "s < MRAPI_MAX_SEMS"
    and "keeps_table env" and "timeout \<noteq> MRAPI_TIMEOUT_INFINITE" and "unat timeout \<le> length env + unat time" and "env \<noteq> []"
    and "unat time + 1 < 2 ^ 32"
  shows "\<exists>rc q. sem_lock_loop s h (int k) timeout time env st (p\<lparr>held_sections := [Sems_semid s]\<rparr>) =
       Some (rc, q\<lparr>held_sections := [Sems_semid s]\<rparr>) \<and>
     attempts_outcome p s k timeout env (max 1 (unat timeout - unat time)) (rc, q)"
  using assms
proof (induction env arbitrary: p time st)
  case (Cons f env)
  let ?q = "p\<lparr>mdb := f (mdb p)\<rparr>" and ?st = "locked_status (s_type (m_sems (mdb p) s))"
  let ?n = "max 1 (unat timeout - unat time)"
  have t: "unat (time + 1) = unat time + 1" using Cons.prems(10) by (intro unat_inc) simp
  note at = Cons.prems(1,2) table_at [OF Cons.prems(3,5)] Cons.prems(4,5)
  show ?case
  proof (cases "fits k (m_sems (mdb p) s)")
    case True
    from lock_attempt(1) [OF at True, of timeout time "f # env" st] obtain e where
      e: "entry_acquire (ident p) k (m_sems (mdb p) s) = Some e"
        "sem_lock_loop s h (int k) timeout time (f # env) st (p\<lparr>held_sections := [Sems_semid s]\<rparr>) =
         Some ((True, MRAPI_SUCCESS), p\<lparr>mdb := put_entry s e (mdb p), held_sections := [Sems_semid s]\<rparr>)" by blast
    have "attempts_outcome p s k timeout (f # env) ?n ((True, MRAPI_SUCCESS), p\<lparr>mdb := put_entry s e (mdb p)\<rparr>)"
      unfolding attempts_outcome_def using e(1) by (intro disjI1 exI [of _ 0]) simp
    with e(2) show ?thesis by (intro exI conjI) simp_all
  next
    case False
    note a = lock_attempt(2) [OF at False, of timeout time f env st, unfolded Let_def]
    show ?thesis
    proof (cases "time + 1 \<ge> timeout")
      case True
      then have n: "?n = 1" using t by (simp add: word_le_nat_alt)
      have "attempts_outcome p s k timeout (f # env) ?n ((False, if timeout \<noteq> 1 then MRAPI_TIMEOUT else ?st), ?q)"
        unfolding attempts_outcome_def n using False by simp
      moreover have "sem_lock_loop s h (int k) timeout time (f # env) st (p\<lparr>held_sections := [Sems_semid s]\<rparr>) =
        Some ((False, if timeout \<noteq> 1 then MRAPI_TIMEOUT else ?st), ?q\<lparr>held_sections := [Sems_semid s]\<rparr>)"
        using a True Cons.prems(7) by simp
      ultimately show ?thesis by blast
    next
      case less: False
      then have l: "unat time + 1 < unat timeout" using t by (simp add: word_le_nat_alt)
      then have n: "?n = Suc (max 1 (unat timeout - unat (time + 1)))" using t by simp
      have "\<exists>rc q. sem_lock_loop s h (int k) timeout (time + 1) env ?st (?q\<lparr>held_sections := [Sems_semid s]\<rparr>) =
          Some (rc, q\<lparr>held_sections := [Sems_semid s]\<rparr>) \<and>
        attempts_outcome ?q s k timeout env (max 1 (unat timeout - unat (time + 1))) (rc, q)"
        using Cons.prems t l unsigned_less [of timeout, where 'a = nat] by (intro Cons.IH) auto
      then obtain rc q where r: "sem_lock_loop s h (int k) timeout (time + 1) env ?st (?q\<lparr>held_sections := [Sems_semid s]\<rparr>) =
          Some (rc, q\<lparr>held_sections := [Sems_semid s]\<rparr>)"
        and o: "attempts_outcome ?q s k timeout env (max 1 (unat timeout - unat (time + 1))) (rc, q)" by blast
      have "attempts_outcome p s k timeout (f # env) ?n (rc, q)"
        unfolding n by (rule outcome_later [where f = f, OF o False]) simp
      moreover have "sem_lock_loop s h (int k) timeout time (f # env) st (p\<lparr>held_sections := [Sems_semid s]\<rparr>) =
          Some (rc, q\<lparr>held_sections := [Sems_semid s]\<rparr>)"
        using a r less by simp
      ultimately show ?thesis by blast
    qed
  qed
qed simp

section \<open>Waiting for a lock\<close>

lemma sem_lock_section:
  assumes "mrapi_caller p" and "mrapi_impl_decode_hndl h = Some s" and "s < MRAPI_MAX_SEMS"
    and "sem_lock_loop s h req timeout 0 env st (p\<lparr>held_sections := [Sems_semid s]\<rparr>) = Some (r, p\<lparr>mdb := db, held_sections := [Sems_semid s]\<rparr>)"
  shows "mrapi_impl_sem_lock env h req timeout st p = Some (r, p\<lparr>mdb := db\<rparr>)"
  using assms by (auto simp: mrapi_impl_sem_lock_def intro!: with_section_eq)

text \<open>
  C13: a lock that becomes free reaches the node that waits for it. Whatever calls \<open>ts\<close> the other nodes make at their turns,
  a call for \<open>k\<close> locks with an infinite timeout, or with more attempts than the \<open>i\<close> turns after which \<open>k\<close>
  locks are free, returns with success after at most \<open>i\<close> turns, and its caller then holds \<open>k\<close> more locks than before.
\<close>

theorem lock_hand_over:
  assumes "mrapi_caller p" and "lock_reachable (mdb p)" and "hndl_entry (mdb p) h s" and "0 < k" and "\<forall>t\<in>set ts. mrapi_caller (fst t)"
    and "i \<le> length ts" and "fits k (m_sems (after_turns i (map turn ts) (mdb p)) s)"
    and "timeout = MRAPI_TIMEOUT_INFINITE \<or> i < unat timeout"
  shows "\<exists>j q. j \<le> i \<and> mrapi_impl_sem_lock (map turn ts) h (int k) timeout st p = Some ((True, MRAPI_SUCCESS), q) \<and>
     mdb q = put_entry s (m_sems (mdb q) s) (after_turns j (map turn ts) (mdb p)) \<and>
     entry_holding (m_sems (mdb q) s) (ident p) = entry_holding (m_sems (after_turns j (map turn ts) (mdb p)) s) (ident p) + k"
proof -
  let ?env = "map turn ts"
  note t = reachable_table [OF assms(2)] and keeps = turns_keep [OF assms(5)]
  have s: "mrapi_impl_decode_hndl h = Some s" "s < MRAPI_MAX_SEMS" using assms(3) by (auto simp: hndl_entry_def)
  have "timeout = MRAPI_TIMEOUT_INFINITE \<or> i + unat (0 :: u32) < unat timeout" "i \<le> length ?env" using assms(6,8) by simp_all
  from loop_granted [OF assms(1) s(1) t assms(4) s(2) keeps this(2) assms(7) this(1), of st]
  obtain j e where j: "j \<le> i" and a: "entry_acquire (ident p) k (m_sems (after_turns j ?env (mdb p)) s) = Some e"
    and r: "sem_lock_loop s h (int k) timeout 0 ?env st (p\<lparr>held_sections := [Sems_semid s]\<rparr>) =
       Some ((True, MRAPI_SUCCESS), p\<lparr>mdb := put_entry s e (after_turns j ?env (mdb p)), held_sections := [Sems_semid s]\<rparr>)" by blast
  from entry.acquire_holding [OF table_at [OF after_table [OF keeps t] s(2)] assms(4) a] show ?thesis
    using j sem_lock_section [OF assms(1) s r]
    by (intro exI [of _ j] exI [of _ "p\<lparr>mdb := put_entry s e (after_turns j ?env (mdb p))\<rparr>"]) simp
qed

text \<open>
  C34: a lock call with a finite timeout \<open>n\<close> returns after at most \<open>n\<close> attempts (one, for the timeout 0), between which the
  others make their turns. If the locks are free at one of these attempts, it returns with success at the first such one, and
  then holds \<open>k\<close> more locks than before, with nothing else changed. Otherwise it returns after the last turn with the timeout
  status, or for the timeout 1 with the status that the lock is taken, and it has changed nothing.
\<close>

theorem lock_returns:
  assumes "mrapi_caller p" and "lock_reachable (mdb p)" and "hndl_entry (mdb p) h s" and "0 < k" and "\<forall>t\<in>set ts. mrapi_caller (fst t)"
    and "timeout \<noteq> MRAPI_TIMEOUT_INFINITE" and "max 1 (unat timeout) \<le> length ts"
  shows "\<exists>rc st' q. mrapi_impl_sem_lock (map turn ts) h (int k) timeout st p = Some ((rc, st'), q) \<and> mrapi_caller q \<and>
     ((\<exists>j<max 1 (unat timeout). rc \<and> st' = MRAPI_SUCCESS \<and>
         (\<forall>i<j. \<not> fits k (m_sems (after_turns i (map turn ts) (mdb p)) s)) \<and>
         fits k (m_sems (after_turns j (map turn ts) (mdb p)) s) \<and>
         mdb q = put_entry s (m_sems (mdb q) s) (after_turns j (map turn ts) (mdb p)) \<and>
         entry_holding (m_sems (mdb q) s) (ident p) = entry_holding (m_sems (after_turns j (map turn ts) (mdb p)) s) (ident p) + k) \<or>
      (\<forall>i<max 1 (unat timeout). \<not> fits k (m_sems (after_turns i (map turn ts) (mdb p)) s)) \<and> \<not> rc \<and>
         (timeout \<noteq> 1 \<longrightarrow> st' = MRAPI_TIMEOUT) \<and> (timeout = 1 \<longrightarrow> st' = locked_status (s_type (m_sems (mdb p) s))) \<and>
         mdb q = after_turns (max 1 (unat timeout)) (map turn ts) (mdb p))"
proof -
  let ?env = "map turn ts" and ?n = "max 1 (unat timeout - unat (0 :: u32))"
  note t = reachable_table [OF assms(2)] and keeps = turns_keep [OF assms(5)]
  have s: "mrapi_impl_decode_hndl h = Some s" "s < MRAPI_MAX_SEMS" using assms(3) by (auto simp: hndl_entry_def)
  have "?env \<noteq> []" "unat timeout \<le> length ?env + unat (0 :: u32)" "unat (0 :: u32) + 1 < 2 ^ 32" using assms(7) by auto
  from loop_timeout [OF assms(1) s(1) t assms(4) s(2) keeps assms(6) this(2,1,3), of st]
  obtain r q where l: "sem_lock_loop s h (int k) timeout 0 ?env st (p\<lparr>held_sections := [Sems_semid s]\<rparr>) =
     Some (r, q\<lparr>held_sections := [Sems_semid s]\<rparr>)" and o: "attempts_outcome p s k timeout ?env ?n (r, q)" by blast
  from o obtain db where q: "q = p\<lparr>mdb := db\<rparr>" by (auto simp: attempts_outcome_def)
  with l have "sem_lock_loop s h (int k) timeout 0 ?env st (p\<lparr>held_sections := [Sems_semid s]\<rparr>) =
     Some (r, p\<lparr>mdb := db, held_sections := [Sems_semid s]\<rparr>)" by simp
  note call = sem_lock_section [OF assms(1) s this, folded q]
  have n: "?n = max 1 (unat timeout)" by simp
  from o [unfolded attempts_outcome_def n] show ?thesis
  proof (elim disjE exE conjE, goal_cases)
    case (1 j e)
    have ok: "entry_ok (m_sems (after_turns j ?env (mdb p)) s)" using table_at [OF after_table [OF keeps t] s(2)] .
    have "fits k (m_sems (after_turns j ?env (mdb p)) s)" using fits_acquire [OF ok assms(4)] 1(3) by blast
    moreover have "entry_holding e (ident p) = entry_holding (m_sems (after_turns j ?env (mdb p)) s) (ident p) + k"
      using entry.acquire_holding [OF ok assms(4) 1(3)] by simp
    ultimately show ?case using call 1 assms(1) by auto
  next
    case 2
    then show ?case using call assms(1) by auto
  qed
qed

section \<open>Waiting for a writer\<close>

text \<open>What others than the holder of a whole entry do at their turns leaves the entry to its holder.\<close>

lemma turn_keeps_whole:
  assumes "mrapi_caller (fst t)" and "ident (fst t) \<noteq> v" and "table_ok db" and "s < MRAPI_MAX_SEMS" and "holds_whole v (m_sems db s)"
  shows "table_ok (turn t db) \<and> holds_whole v (m_sems (turn t db) s)"
proof (cases "turn t db = db")
  case False
  with turn_step [OF assms(1), of "snd t" db] have st: "lock_step (ident (fst t)) db (turn t db)" by simp
  from whole_stays [OF step_moves [OF st assms(3,4)] table_at [OF assms(3,4)] assms(5)] step_table [OF st assms(3)] assms(2)
  show ?thesis by simp
qed (use assms in simp)

lemma whole_not_fits: "entry_ok e \<Longrightarrow> holds_whole v e \<Longrightarrow> v \<noteq> w \<Longrightarrow> 0 < k \<Longrightarrow> \<not> fits k e"
  using whole_excludes(1) [of e v w k] fits_acquire [of e k w] by auto

lemma locked_not_success: "locked_status ty \<noteq> MRAPI_SUCCESS"
  by (simp add: locked_status_def split: lock_type.split)

lemma loop_refused:
  assumes "mrapi_caller p" and "mrapi_impl_decode_hndl h = Some s" and "s < MRAPI_MAX_SEMS" and "0 < k" and "v \<noteq> ident p"
    and "table_ok (mdb p)" and "holds_whole v (m_sems (mdb p) s)" and "\<forall>t\<in>set ts. mrapi_caller (fst t) \<and> ident (fst t) \<noteq> v"
    and "sem_lock_loop s h (int k) timeout time (map turn ts) st (p\<lparr>held_sections := [Sems_semid s]\<rparr>) = Some ((rc, st'), q)"
  shows "\<not> rc \<and> st' \<noteq> MRAPI_SUCCESS"
  using assms
proof (induction ts arbitrary: p time st)
  case Nil
  note ok = table_at [OF Nil.prems(6,3)]
  from lock_attempt(3) [OF Nil.prems(1,2) ok Nil.prems(4,3) whole_not_fits [OF ok Nil.prems(7,5,4)]] Nil.prems(9) show ?case by simp
next
  case (Cons t ts)
  note ok = table_at [OF Cons.prems(6,3)]
  let ?q = "p\<lparr>mdb := turn t (mdb p)\<rparr>" and ?st = "locked_status (s_type (m_sems (mdb p) s))"
  note a = lock_attempt(2) [OF Cons.prems(1,2) ok Cons.prems(4,3) whole_not_fits [OF ok Cons.prems(7,5,4)],
      of timeout time "turn t" "map turn ts" st, unfolded Let_def]
  have k: "table_ok (mdb ?q)" "holds_whole v (m_sems (mdb ?q) s)"
    using turn_keeps_whole [of t v "mdb p" s] Cons.prems by simp_all
  show ?case
  proof (cases "timeout \<noteq> MRAPI_TIMEOUT_INFINITE \<and> time + 1 \<ge> timeout")
    case True
    with a Cons.prems(9) have "rc = False \<and> st' = (if timeout \<noteq> 1 then MRAPI_TIMEOUT else ?st)" by simp
    then show ?thesis using locked_not_success by simp
  next
    case False
    with a Cons.prems(9) have "sem_lock_loop s h (int k) timeout (time + 1) (map turn ts) ?st (?q\<lparr>held_sections := [Sems_semid s]\<rparr>) =
        Some ((rc, st'), q)" by simp
    from Cons.IH [OF _ Cons.prems(2-4) _ k _ this] Cons.prems(1,5,8) show ?thesis by simp
  qed
qed

lemma attempt_refused:
  assumes "mrapi_caller p" and "mrapi_impl_decode_hndl h = Some s" and "s < MRAPI_MAX_SEMS" and "0 < k" and "v \<noteq> ident p"
    and "table_ok (mdb p)" and "holds_whole v (m_sems (mdb p) s)" and "\<forall>t\<in>set ts. mrapi_caller (fst t) \<and> ident (fst t) \<noteq> v"
    and "mrapi_impl_sem_lock (map turn ts) h (int k) timeout st p = Some ((rc, st'), q)"
  shows "\<not> rc \<and> st' \<noteq> MRAPI_SUCCESS"
proof -
  from assms(1,2,9) obtain q' where
    "sem_lock_loop s h (int k) timeout 0 (map turn ts) st (p\<lparr>held_sections := [Sems_semid s]\<rparr>) = Some ((rc, st'), q')"
    by (auto simp: mrapi_impl_sem_lock_def with_section_def mrapi_impl_access_database_pre_def mrapi_caller_def bind_eq_Some_conv
        split: if_splits)
  from loop_refused [OF assms(1-8) this] show ?thesis .
qed

lemma waiting_calls_refused:
  assumes p: "mrapi_caller p" and d: "mrapi_impl_decode_hndl h = Some s" "s < MRAPI_MAX_SEMS" and v: "v \<noteq> ident p"
    and t: "table_ok (mdb p)" and w: "holds_whole v (m_sems (mdb p) s)" and ts: "\<forall>t\<in>set ts. mrapi_caller (fst t) \<and> ident (fst t) \<noteq> v"
  shows "mrapi_sem_lock (map turn ts) h timeout p = Some (st1, q1) \<Longrightarrow> st1 \<noteq> MRAPI_SUCCESS"
    and "mrapi_mutex_lock (map turn ts) h key timeout p = Some ((key', st2), q2) \<Longrightarrow> st2 \<noteq> MRAPI_SUCCESS"
    and "mrapi_rwl_lock (map turn ts) h mode timeout p = Some (st3, q3) \<Longrightarrow> st3 \<noteq> MRAPI_SUCCESS"
proof -
  let ?e = "m_sems (mdb p) s"
  have h: "hndl_entry (mdb p) h s" using d w by (simp add: hndl_entry_def holds_whole_def)
  note ok = table_at [OF t d(2)] and valid = valid_hndl_pass [OF p h]
  have ref: "\<And>k timeout st rc st' q. 0 < k \<Longrightarrow>
      mrapi_impl_sem_lock (map turn ts) h (int k) timeout st p = Some ((rc, st'), q) \<Longrightarrow> st' \<noteq> MRAPI_SUCCESS"
    using attempt_refused [OF p d _ v t w ts] by blast
  have lim: "shared_lock_limit ?e = int (entry_capacity ?e)" "0 < entry_capacity ?e"
    using ok w by (simp_all add: entry_ok_def entry_capacity_def holds_whole_def)
  have one: "mrapi_impl_sem_lock (map turn ts) h 1 timeout st p \<noteq> Some ((rc, MRAPI_SUCCESS), q)" for timeout st rc q
    using ref [of 1 timeout st rc MRAPI_SUCCESS q] by auto
  have all: "mrapi_impl_sem_lock (map turn ts) h (int (entry_capacity ?e)) timeout st p \<noteq> Some ((rc, MRAPI_SUCCESS), q)" for timeout st rc q
    using ref [OF lim(2), of timeout st rc MRAPI_SUCCESS q] by auto
  show "mrapi_sem_lock (map turn ts) h timeout p = Some (st1, q1) \<Longrightarrow> st1 \<noteq> MRAPI_SUCCESS"
    using one p valid by (auto simp: mrapi_sem_lock_def bind_eq_Some_conv)
  show "mrapi_rwl_lock (map turn ts) h mode timeout p = Some (st3, q3) \<Longrightarrow> st3 \<noteq> MRAPI_SUCCESS"
    using one all p valid d read_limit [OF p d(2)]
    by (cases mode) (auto simp: mrapi_rwl_lock_def mrapi_impl_rwl_lock_def bind_eq_Some_conv lim(1))
  have "\<not> (l_locked (locks ?e ! 0) \<and> own_slot p s)"
    using whole_slot_other [OF p ok _ _ v] w by (auto simp: own_slot_def)
  then show "mrapi_mutex_lock (map turn ts) h key timeout p = Some ((key', st2), q2) \<Longrightarrow> st2 \<noteq> MRAPI_SUCCESS"
    using one p valid d
    by (auto simp: mrapi_mutex_lock_def mrapi_impl_mutex_lock_def caller_whoami [OF p] mutex_again [OF p d(2)] Let_def bind_eq_Some_conv)
qed

text \<open>
  C7: mutual exclusion. A node that was granted the write lock of a reader/writer lock, or a mutex, by a call that does not
  wait excludes every other node: after any lock calls of the others, none of their calls on that entry that does not wait -
  trylock, unlock or delete, through a handle of any kind - is granted, and none that waits returns with success, whatever
  its timeout and whatever lock calls the others make at their turns in between, until the holder itself makes a call.
\<close>

theorem writer_excludes:
  assumes p: "mrapi_caller p" and t: "lock_reachable (mdb p)" and h: "hndl_entry (mdb p) h s" and "0 < shared_lock_limit (m_sems (mdb p) s)"
    and "exclusive_call (mdb p) s h c" and r: "run_lock_call c p = Some (True, q)"
    and others: "others_run (ident p) (mdb q) db" and p': "mrapi_caller p'" "mdb p' = db" "ident p' \<noteq> ident p"
    and h': "mrapi_impl_decode_hndl h' = Some s" and ts: "\<forall>t\<in>set ts. mrapi_caller (fst t) \<and> ident (fst t) \<noteq> ident p"
  shows "(call_handle c' = Some h' \<longrightarrow> run_lock_call c' p' = Some (g, q') \<longrightarrow> \<not> g) \<and>
     (mrapi_sem_lock (map turn ts) h' timeout p' = Some (st1, q1) \<longrightarrow> st1 \<noteq> MRAPI_SUCCESS) \<and>
     (mrapi_mutex_lock (map turn ts) h' key timeout p' = Some ((key', st2), q2) \<longrightarrow> st2 \<noteq> MRAPI_SUCCESS) \<and>
     (mrapi_rwl_lock (map turn ts) h' mode timeout p' = Some (st3, q3) \<longrightarrow> st3 \<noteq> MRAPI_SUCCESS)"
proof -
  have s: "s < MRAPI_MAX_SEMS" using h by (simp add: hndl_entry_def)
  have t1: "table_ok (mdb q)" using reachable_table [OF lock_reachable.step [OF t lock_step.call [OF p]], of c] r by simp
  have "holds_whole (ident p) (m_sems (mdb q) s)"
    using exclusive_grabs [OF p reachable_table [OF t] h _ assms(5) r] assms(4) by (simp add: entry_capacity_def)
  from others_keep_whole [OF others t1 s this] p'(2)
  have *: "table_ok (mdb p')" "holds_whole (ident p) (m_sems (mdb p') s)" by simp_all
  then have "hndl_entry (mdb p') h' s" using h' s by (simp add: hndl_entry_def holds_whole_def)
  from call_fair [OF p'(1) *(1) _ _ this, of c' q' "ident p"] p'(3) *(2)
  have "call_handle c' = Some h' \<longrightarrow> run_lock_call c' p' = Some (g, q') \<longrightarrow> \<not> g" by auto
  moreover note waiting_calls_refused [OF p'(1) h' s p'(3) [symmetric] * ts]
  ultimately show ?thesis by blast
qed

section \<open>Witnesses of the waiting calls\<close>

text \<open>The second node waits for a read lock while the first, the writer, releases its lock.\<close>

definition unlocked_entry :: mrapi_sem where
  "unlocked_entry = rwl_entry\<lparr>locks := replicate 2 (zero_lock\<lparr>l_valid := True\<rparr>) @ replicate 30 zero_lock\<rparr>"

lemma written_reachable: "lock_reachable written_db"
  using lock_reachable.step [OF rwl_db_reachable lock_step.call [OF node_of_caller write_rwl]] by simp

lemma written_hndl: "hndl_entry written_db 0x80000000 0"
  using rwl_hndl by (simp add: hndl_entry_def written_db_def rwl_entry_at)

lemma release_write: "turn (node_of 0, Rwl_unlock 0x80000000 MRAPI_RWL_WRITER) written_db = put_entry 0 unlocked_entry written_db"
proof -
  let ?p = "(node_of 0)\<lparr>mdb := written_db\<rparr>"
  have p: "mrapi_caller ?p" by (simp add: node_of_caller)
  have h: "hndl_entry (mdb ?p) 0x80000000 0" by (simp add: written_hndl)
  have ok: "entry_ok (m_sems (mdb ?p) 0)" using table_at [OF reachable_table [OF written_reachable], of 0] by (simp add: MRAPI_MAX_SEMS_def)
  have lim: "shared_lock_limit (m_sems (mdb ?p) 0) = 2" by (simp add: written_db_def rwl_entry_def new_entry_def)
  have "entry_release (0, 0) 2 (m_sems written_db 0) = Some unlocked_entry"
    by (simp add: entry_release_def written_db_def unlocked_entry_def rwl_entry_def new_entry_def zero_sem_def rwl_slots_def holds_def
        zero_lock_def numeral_2_eq_2)
  then have "mrapi_impl_release_lock 0x80000000 (int 2) MRAPI_SUCCESS ?p = Some ((True, MRAPI_SUCCESS), (node_of 0)\<lparr>mdb := put_entry 0 unlocked_entry written_db\<rparr>)"
    using release_attempt [OF p h ok, of 2 MRAPI_SUCCESS] by (simp add: ident_def node_of_def)
  then show ?thesis
    using p valid_hndl_pass(3) [OF p h] read_limit [OF p, of 0] lim
    by (simp add: turn_def mrapi_rwl_unlock_def mrapi_impl_rwl_unlock_def mrapi_impl_sem_unlock_def mrapi_impl_decode_hndl_def hndl_index_def
        MRAPI_MAX_SEMS_def granted_def)
qed

lemma unlocked_fits: "fits 1 unlocked_entry"
  by (simp add: fits_def unlocked_entry_def rwl_entry_def new_entry_def entry_total_def entry_capacity_def count_if_def taken_slot_def
      zero_lock_def numeral_2_eq_2)

theorem lock_hand_over_witness:
  "\<exists>q. mrapi_impl_sem_lock (map turn [(node_of 0, Rwl_unlock 0x80000000 MRAPI_RWL_WRITER)]) 0x80000000 (int 1) MRAPI_TIMEOUT_INFINITE
     MRAPI_SUCCESS ((node_of 1)\<lparr>mdb := written_db\<rparr>) = Some ((True, MRAPI_SUCCESS), q)"
  using lock_hand_over [of "(node_of 1)\<lparr>mdb := written_db\<rparr>" "0x80000000" 0 1 "[(node_of 0, Rwl_unlock 0x80000000 MRAPI_RWL_WRITER)]" 1
      MRAPI_TIMEOUT_INFINITE MRAPI_SUCCESS] unlocked_fits
  by (auto simp: node_of_caller written_reachable written_hndl release_write)

theorem lock_returns_witness:
  "\<exists>q. mrapi_impl_sem_lock (map turn [(node_of 0, Rwl_unlock 0x80000000 MRAPI_RWL_WRITER), (node_of 0, Sem_get 4)]) 0x80000000 (int 1) 2
     MRAPI_SUCCESS ((node_of 1)\<lparr>mdb := written_db\<rparr>) = Some ((True, MRAPI_SUCCESS), q)"
proof -
  let ?ts = "[(node_of 0, Rwl_unlock 0x80000000 MRAPI_RWL_WRITER), (node_of 0, Sem_get 4)]"
  have f: "fits 1 (m_sems (after_turns (Suc 0) (map turn ?ts) written_db) 0)"
    using unlocked_fits by (simp add: release_write)
  have n: "\<not> (\<forall>i<max 1 (unat (2 :: u32)). \<not> fits 1 (m_sems (after_turns i (map turn ?ts) written_db) 0))"
    by (rule notI, drule spec [of _ "Suc 0"]) (use f in simp)
  let ?p = "(node_of 1)\<lparr>mdb := written_db\<rparr>"
  have "mrapi_caller ?p" "lock_reachable (mdb ?p)" "hndl_entry (mdb ?p) 0x80000000 0" "0 < (1 :: nat)"
    "\<forall>t\<in>set ?ts. mrapi_caller (fst t)" "(2 :: u32) \<noteq> MRAPI_TIMEOUT_INFINITE" "max 1 (unat (2 :: u32)) \<le> length ?ts"
    by (simp_all add: node_of_caller written_reachable written_hndl MRAPI_TIMEOUT_INFINITE_def)
  note r = lock_returns [OF this, of MRAPI_SUCCESS]
  have m: "mdb ?p = written_db" by simp
  from r [unfolded m] n obtain rc st' q where
    c: "mrapi_impl_sem_lock (map turn ?ts) 0x80000000 (int 1) 2 MRAPI_SUCCESS ?p = Some ((rc, st'), q)" and "rc \<and> st' = MRAPI_SUCCESS"
    by blast
  then show ?thesis by simp
qed

theorem writer_excludes_witness:
  "\<exists>g q. run_lock_call (Rwl_trylock 0x80000000 MRAPI_RWL_READER) ((node_of 1)\<lparr>mdb := written_db\<rparr>) = Some (g, q) \<and> \<not> g"
proof -
  let ?p = "(node_of 0)\<lparr>mdb := rwl_db\<rparr>" and ?b = "(node_of 1)\<lparr>mdb := written_db\<rparr>"
  have p: "mrapi_caller ?p" "mrapi_caller ?b" by (simp_all add: node_of_caller)
  have h: "hndl_entry (mdb ?p) 0x80000000 0" by (simp add: rwl_hndl)
  have b: "hndl_entry (mdb ?b) 0x80000000 0" by (simp add: written_hndl)
  from handle_call_pass [OF p(2) _ _ b, of "Rwl_trylock 0x80000000 MRAPI_RWL_READER"] reachable_table [OF written_reachable]
  obtain g q where r: "run_lock_call (Rwl_trylock 0x80000000 MRAPI_RWL_READER) ?b = Some (g, q)" by auto
  from writer_excludes [where h' = "0x80000000" and ts = "[]" and c' = "Rwl_trylock 0x80000000 MRAPI_RWL_READER" and g = g and q' = q,
      OF p(1) _ h _ _ write_rwl _ p(2)] r
  have "\<not> g"
    by (simp add: rwl_db_reachable rwl_entry_at rwl_entry_def new_entry_def exclusive_call_def others_run.rest ident_def node_of_def
        b [unfolded hndl_entry_def, THEN conjunct1])
  with r show ?thesis by blast
qed

end
