(* ===== verification/MRAPI_Counting.thy ===== *)
theory MRAPI_Counting
  imports MRAPI_Waiting
begin

text \<open>
  The abstract specification of a semaphore: a limit and, for each node, the number of locks it holds. The trying and the
  releasing call of the semaphore interface refine its two operations. The lock of the MCAPI database, a reader/writer
  lock for one reader, is the case of the limit 1.
\<close>

section \<open>The counting semaphore\<close>

record counting_spec =
  spec_limit :: nat
  spec_held :: "byte \<times> byte \<Rightarrow> nat"

definition spec_acquire :: "byte \<times> byte \<Rightarrow> counting_spec \<Rightarrow> counting_spec option" where
  "spec_acquire w c =
     (if (\<Sum>v\<in>UNIV. spec_held c v) < spec_limit c then Some (c\<lparr>spec_held := (spec_held c)(w := spec_held c w + 1)\<rparr>) else None)"

definition spec_release :: "byte \<times> byte \<Rightarrow> counting_spec \<Rightarrow> counting_spec option" where
  "spec_release w c = (if 0 < spec_held c w then Some (c\<lparr>spec_held := (spec_held c)(w := spec_held c w - 1)\<rparr>) else None)"

definition counting_of :: "mrapi_sem \<Rightarrow> counting_spec" where
  "counting_of e = \<lparr>spec_limit = entry_capacity e, spec_held = entry_holding e\<rparr>"

text \<open>Every taken slot is held by exactly one node.\<close>

lemma taken_by_someone: "count_if taken_slot xs = (\<Sum>v\<in>(UNIV :: (byte \<times> byte) set). count_if (holds (ucast (fst v)) (ucast (snd v))) xs)"
proof (induction xs)
  case (Cons x xs)
  have "(\<Sum>v\<in>(UNIV :: (byte \<times> byte) set). if holds (ucast (fst v)) (ucast (snd v)) x then 1 else 0 :: nat) =
     (\<Sum>v\<in>UNIV. if v = (lock_holder_nindex x, lock_holder_dindex x) then if taken_slot x then 1 else 0 else 0)"
    by (rule sum.cong) (auto simp: holds_def taken_slot_def same_id)
  also have "\<dots> = (if taken_slot x then 1 else 0)" by (subst sum.delta) simp_all
  finally have one: "(\<Sum>v\<in>(UNIV :: (byte \<times> byte) set). if holds (ucast (fst v)) (ucast (snd v)) x then 1 else 0 :: nat) =
     (if taken_slot x then 1 else 0)" .
  show ?case by (simp only: count_if_simps sum.distrib one Cons.IH)
qed simp

lemma entry_total_sum: "entry_total e = (\<Sum>v\<in>UNIV. entry_holding e v)"
  by (simp add: entry_total_def entry_holding_def taken_by_someone)

lemma spec_acquire_entry:
  assumes "entry_ok e"
  shows "spec_acquire w (counting_of e) = map_option counting_of (entry_acquire w 1 e)"
proof (cases "entry_acquire w 1 e")
  case None
  then show ?thesis using entry.acquire_iff [OF assms, of 1 w] by (simp add: spec_acquire_def counting_of_def entry_total_sum)
next
  case (Some f)
  then show ?thesis
    using entry.acquire_iff [OF assms, of 1 w] entry.acquire_holding [OF assms _ Some] entry.acquire_capacity [OF assms _ Some]
    by (simp add: spec_acquire_def counting_of_def entry_total_sum)
qed

lemma spec_release_entry:
  assumes "entry_ok e"
  shows "spec_release w (counting_of e) = map_option counting_of (entry_release w 1 e)"
proof (cases "entry_release w 1 e")
  case None
  then show ?thesis using entry.release_iff [OF assms, of 1 w] by (simp add: spec_release_def counting_of_def)
next
  case (Some f)
  then show ?thesis
    using entry.release_iff [OF assms, of 1 w] entry.release_holding [OF assms _ Some] entry.release_capacity [OF assms _ Some]
    by (simp add: spec_release_def counting_of_def)
qed

text \<open>
  C8: semaphores refine the counting semaphore. On a handle of a valid entry of a reachable table, the trying call succeeds
  exactly when the specification grants one more lock, the releasing call exactly when the caller holds one, the new entry stands
  for the new state of the specification, and a call that is refused changes nothing and says why.
\<close>

theorem semaphore_refines:
  assumes p: "mrapi_caller p" and t: "lock_reachable (mdb p)" and h: "hndl_entry (mdb p) h s"
  shows "(case spec_acquire (ident p) (counting_of (m_sems (mdb p) s)) of
       None \<Rightarrow> mrapi_sem_trylock [id] h p = Some ((False, locked_status (s_type (m_sems (mdb p) s))), p)
     | Some c \<Rightarrow> \<exists>e. mrapi_sem_trylock [id] h p = Some ((True, MRAPI_SUCCESS), p\<lparr>mdb := put_entry s e (mdb p)\<rparr>) \<and> counting_of e = c) \<and>
    (case spec_release (ident p) (counting_of (m_sems (mdb p) s)) of
       None \<Rightarrow> mrapi_sem_unlock h p = Some (notlocked_status (s_type (m_sems (mdb p) s)), p)
     | Some c \<Rightarrow> \<exists>e. mrapi_sem_unlock h p = Some (MRAPI_SUCCESS, p\<lparr>mdb := put_entry s e (mdb p)\<rparr>) \<and> counting_of e = c)"
proof -
  have ok: "entry_ok (m_sems (mdb p) s)" using table_entry [OF reachable_table [OF t] h] .
  show ?thesis
    using p valid_hndl_pass(1) [OF p h] sem_lock_try [OF p h ok, of 1 MRAPI_SUCCESS] release_attempt [OF p h ok, of 1 MRAPI_SUCCESS]
    by (auto simp: spec_acquire_entry [OF ok] spec_release_entry [OF ok] mrapi_sem_trylock_def mrapi_sem_unlock_def mrapi_impl_sem_unlock_def
        split: option.split)
qed

theorem semaphore_refines_witness:
  "spec_acquire (0, 0) (counting_of (m_sems rwl_db 0)) \<noteq> None \<and>
   (\<exists>e. mrapi_sem_trylock [id] 0x80000000 ((node_of 0)\<lparr>mdb := rwl_db\<rparr>) = Some ((True, MRAPI_SUCCESS), (node_of 0)\<lparr>mdb := put_entry 0 e rwl_db\<rparr>))"
proof -
  have c: "spec_acquire (0, 0) (counting_of (m_sems rwl_db 0)) \<noteq> None"
    by (simp add: spec_acquire_def counting_of_def rwl_entry_at rwl_entry_def new_entry_def entry_capacity_def rwl_slots_def zero_lock_def
        flip: entry_total_sum) (simp add: entry_total_def count_if_def taken_slot_def)
  have "ident (node_of 0) = (0, 0)" by (simp add: ident_def node_of_def)
  with semaphore_refines [of "(node_of 0)\<lparr>mdb := rwl_db\<rparr>" "0x80000000" 0] c show ?thesis
    by (auto simp: node_of_caller rwl_db_reachable rwl_hndl split: option.splits)
qed

section \<open>The lock of the MCAPI database\<close>

text \<open>
  MCAPI creates its lock with one reader (\<open>num_readers\<close> is 1) and takes it as a writer. A node that has the lock can only have
  it once: the lock is not recursive, so a node that asks again waits for itself.
\<close>

lemma lock_rwl_writer:
  assumes p: "mrapi_caller p" and h: "hndl_entry (mdb p) h s"
  shows "transport_sm_lock_rwl env h True p = map_option (\<lambda>((rc, status), q). (status = MRAPI_SUCCESS, q))
     (mrapi_impl_sem_lock env h (shared_lock_limit (m_sems (mdb p) s)) MRAPI_TIMEOUT_INFINITE MRAPI_SUCCESS p)"
proof -
  have s: "mrapi_impl_decode_hndl h = Some s" "s < MRAPI_MAX_SEMS" using h by (auto simp: hndl_entry_def)
  show ?thesis
    using p valid_hndl_pass(3) [OF p h] read_limit [OF p s(2)] s(1)
    by (auto simp: transport_sm_lock_rwl_def rwl_mode_of_def mrapi_rwl_lock_def mrapi_impl_rwl_lock_def
        split: option.split bind_split)
qed

lemma unlock_rwl_writer:
  assumes p: "mrapi_caller p" and h: "hndl_entry (mdb p) h s"
  shows "transport_sm_unlock_rwl h True p = map_option (\<lambda>((rc, status), q). (status = MRAPI_SUCCESS, q))
     (mrapi_impl_release_lock h (shared_lock_limit (m_sems (mdb p) s)) MRAPI_SUCCESS p)"
proof -
  have s: "mrapi_impl_decode_hndl h = Some s" "s < MRAPI_MAX_SEMS" using h by (auto simp: hndl_entry_def)
  show ?thesis
    using p valid_hndl_pass(3) [OF p h] read_limit [OF p s(2)] s(1)
    by (auto simp: transport_sm_unlock_rwl_def rwl_mode_of_def mrapi_rwl_unlock_def mrapi_impl_rwl_unlock_def mrapi_impl_sem_unlock_def
        split: option.split bind_split)
qed

text \<open>While an attempt does not fit after any turn of the others, the call does not return.\<close>

lemma loop_stuck:
  assumes "mrapi_caller p" and "mrapi_impl_decode_hndl h = Some s" and "table_ok (mdb p)" and "0 < k" and "s < MRAPI_MAX_SEMS"
    and "keeps_table env" and "\<And>i. i \<le> length env \<Longrightarrow> \<not> fits k (m_sems (after_turns i env (mdb p)) s)"
  shows "sem_lock_loop s h (int k) MRAPI_TIMEOUT_INFINITE time env st (p\<lparr>held_sections := [Sems_semid s]\<rparr>) = None"
  using assms
proof (induction env arbitrary: p time st)
  case Nil
  then have "\<not> fits k (m_sems (mdb p) s)" using Nil.prems(7) [of 0] by simp
  with lock_attempt(3) [OF Nil.prems(1,2) table_at [OF Nil.prems(3,5)] Nil.prems(4,5)] show ?case by simp
next
  case (Cons f env)
  let ?q = "p\<lparr>mdb := f (mdb p)\<rparr>" and ?st = "locked_status (s_type (m_sems (mdb p) s))"
  have no: "\<not> fits k (m_sems (mdb p) s)" using Cons.prems(7) [of 0] by simp
  have "\<not> fits k (m_sems (after_turns i env (mdb ?q)) s)" if "i \<le> length env" for i
    using Cons.prems(7) [of "Suc i"] that by simp
  then have "sem_lock_loop s h (int k) MRAPI_TIMEOUT_INFINITE (time + 1) env ?st (?q\<lparr>held_sections := [Sems_semid s]\<rparr>) = None"
    using Cons.prems by (intro Cons.IH) auto
  with lock_attempt(2) [OF Cons.prems(1,2) table_at [OF Cons.prems(3,5)] Cons.prems(4,5) no] show ?case by simp
qed

text \<open>While a node holds the whole entry, whatever calls the others make, it goes on doing so.\<close>

lemma after_whole:
  assumes "\<forall>t\<in>set ts. mrapi_caller (fst t) \<and> ident (fst t) \<noteq> v" and "table_ok db" and "s < MRAPI_MAX_SEMS" and "holds_whole v (m_sems db s)"
  shows "holds_whole v (m_sems (after_turns i (map turn ts) db) s)"
  using assms
proof (induction ts arbitrary: i db)
  case (Cons t ts)
  obtain p c where t: "t = (p, c)" by (cases t)
  have "table_ok (turn t db) \<and> holds_whole v (m_sems (turn t db) s)"
  proof (cases "turn t db = db")
    case False
    with Cons.prems(1) t turn_step [of p c db] have step: "lock_step (ident p) db (turn t db)" by auto
    with Cons.prems t whole_stays [OF step_moves [OF step Cons.prems(2,3)] table_at [OF Cons.prems(2,3)] Cons.prems(4)]
    show ?thesis by (auto simp: step_table)
  qed (use Cons.prems in simp)
  with Cons show ?case by (cases i) auto
qed (simp add: after_turns_def)

lemma lock_refused:
  assumes p: "mrapi_caller p" and t: "table_ok (mdb p)" and s: "mrapi_impl_decode_hndl h = Some s" "s < MRAPI_MAX_SEMS"
    and v: "holds_whole v (m_sems (mdb p) s)" "v \<noteq> ident p" and ts: "\<forall>t\<in>set ts. mrapi_caller (fst t) \<and> ident (fst t) \<noteq> v"
  shows "transport_sm_lock_rwl (map turn ts) h True p = None"
    and "\<exists>q. transport_sm_unlock_rwl h True p = Some (False, q) \<and> mdb q = mdb p"
proof -
  let ?e = "m_sems (mdb p) s"
  have ok: "entry_ok ?e" using table_at [OF t s(2)] .
  have h: "hndl_entry (mdb p) h s" using s v by (simp add: hndl_entry_def holds_whole_def)
  obtain k where k: "shared_lock_limit ?e = int k" "0 < k" "k \<le> 32"
    using v by (cases rule: limit_cases [OF ok]) (simp_all add: holds_whole_def entry_capacity_def)
  have "\<not> fits k (m_sems (after_turns i (map turn ts) (mdb p)) s)" for i
    using after_whole [OF ts t s(2) v(1), of i] entry_holding_le [of "m_sems (after_turns i (map turn ts) (mdb p)) s" v] k(2)
    by (simp add: fits_def holds_whole_def)
  then have "sem_lock_loop s h (int k) MRAPI_TIMEOUT_INFINITE 0 (map turn ts) MRAPI_SUCCESS (p\<lparr>held_sections := [Sems_semid s]\<rparr>) = None"
    using p s t k ts by (intro loop_stuck turns_keep) auto
  then show "transport_sm_lock_rwl (map turn ts) h True p = None"
    using with_section_None [OF p, of "sem_lock_loop s h (int k) MRAPI_TIMEOUT_INFINITE 0 (map turn ts) MRAPI_SUCCESS" "Sems_semid s"]
    by (simp add: lock_rwl_writer [OF p h] k(1) mrapi_impl_sem_lock_def s(1))
  show "\<exists>q. transport_sm_unlock_rwl h True p = Some (False, q) \<and> mdb q = mdb p"
    using release_attempt [OF p h ok k(2,3), of MRAPI_SUCCESS] whole_excludes(2) [OF ok v k(2)]
    by (simp add: unlock_rwl_writer [OF p h] k(1) notlocked_status_def split: lock_type.split)
qed

lemma lock_given_back:
  assumes p: "mrapi_caller p" and t: "table_ok (mdb p)" and s: "mrapi_impl_decode_hndl h = Some s" "s < MRAPI_MAX_SEMS"
    and v: "holds_whole (ident p) (m_sems (mdb p) s)"
  shows "\<exists>r. transport_sm_unlock_rwl h True p = Some (True, r) \<and> num_locks (m_sems (mdb r) s) = 0"
proof -
  let ?e = "m_sems (mdb p) s"
  have ok: "entry_ok ?e" using table_at [OF t s(2)] .
  have h: "hndl_entry (mdb p) h s" using s v by (simp add: hndl_entry_def holds_whole_def)
  obtain k where k: "shared_lock_limit ?e = int k" "0 < k" "k \<le> 32"
    using v by (cases rule: limit_cases [OF ok]) (simp_all add: holds_whole_def entry_capacity_def)
  have hold: "entry_holding ?e (ident p) = k" using v k(1) by (simp add: holds_whole_def entry_capacity_def)
  then obtain f where f: "entry_release (ident p) k ?e = Some f" using entry.release_iff [OF ok k(2), of "ident p"] by auto
  have num: "num_locks ?e = int k"
    using ok hold k(1) entry_holding_le [of ?e "ident p"] entry_total_le [OF ok]
    by (simp add: entry_ok_def entry_total_def entry_capacity_def)
  have "num_locks f = 0" by (rule entry_release_Some [OF ok k(2) f]) (simp add: num)
  then show ?thesis
    using release_attempt [OF p h ok k(2,3), of MRAPI_SUCCESS] f by (simp add: unlock_rwl_writer [OF p h] k(1))
qed

text \<open>
  C6: the lock of the MCAPI database is an exclusive lock. On a reader/writer lock that nobody holds, the transport's lock
  call returns true; from then on, whatever calls the other nodes have made and make at their turns, no other node's lock call
  returns, no other node's unlock call succeeds or changes anything, and the holder's unlock call returns true and frees the lock.
\<close>

theorem database_lock_exclusive:
  assumes p: "mrapi_caller p" and t: "lock_reachable (mdb p)" and h: "hndl_entry (mdb p) h s"
    and pos: "0 < shared_lock_limit (m_sems (mdb p) s)" and free: "num_locks (m_sems (mdb p) s) = 0"
  shows "\<exists>q. transport_sm_lock_rwl env h True p = Some (True, q) \<and>
     (\<forall>db. others_run (ident p) (mdb q) db \<longrightarrow>
       (\<forall>p' ts. mrapi_caller p' \<and> mdb p' = db \<and> ident p' \<noteq> ident p \<and> (\<forall>t\<in>set ts. mrapi_caller (fst t) \<and> ident (fst t) \<noteq> ident p) \<longrightarrow>
          transport_sm_lock_rwl (map turn ts) h True p' = None \<and> (\<exists>q'. transport_sm_unlock_rwl h True p' = Some (False, q') \<and> mdb q' = db)) \<and>
       (\<exists>r. transport_sm_unlock_rwl h True (q\<lparr>mdb := db\<rparr>) = Some (True, r) \<and> num_locks (m_sems (mdb r) s) = 0))"
proof -
  let ?e = "m_sems (mdb p) s"
  have s: "mrapi_impl_decode_hndl h = Some s" "s < MRAPI_MAX_SEMS" "s_valid ?e" using h by (auto simp: hndl_entry_def)
  note T = reachable_table [OF t]
  have ok: "entry_ok ?e" using table_at [OF T s(2)] .
  obtain k where k: "shared_lock_limit ?e = int k" "0 < k" using pos by (cases "shared_lock_limit ?e") auto
  have cap: "entry_capacity ?e = k" by (simp add: entry_capacity_def k(1))
  have "fits k ?e" using ok free cap by (simp add: fits_def entry_ok_def entry_total_def)
  from lock_attempt(1) [OF p s(1) ok k(2) s(2) this] obtain e where e: "entry_acquire (ident p) k ?e = Some e"
    and loop: "sem_lock_loop s h (int k) MRAPI_TIMEOUT_INFINITE 0 env MRAPI_SUCCESS (p\<lparr>held_sections := [Sems_semid s]\<rparr>) =
       Some ((True, MRAPI_SUCCESS), p\<lparr>mdb := put_entry s e (mdb p), held_sections := [Sems_semid s]\<rparr>)" by metis
  define q where "q = p\<lparr>mdb := put_entry s e (mdb p)\<rparr>"
  have lock: "transport_sm_lock_rwl env h True p = Some (True, q)"
    using sem_lock_section [OF p s(1,2) loop] by (simp add: lock_rwl_writer [OF p h] k(1) q_def)
  have q: "table_ok (mdb q)" "holds_whole (ident p) (m_sems (mdb q) s)"
    using T entry.acquire_ok [OF ok k(2) e] acquired_whole [OF ok s(3), of "ident p" e] e cap k(2)
    by (simp_all add: q_def table_ok_def)
  have others: "table_ok db \<and> holds_whole (ident p) (m_sems db s)" if "others_run (ident p) (mdb q) db" for db
    using others_keep_whole [OF that q(1) s(2) q(2)] .
  have qp: "mrapi_caller (q\<lparr>mdb := db\<rparr>)" "ident (q\<lparr>mdb := db\<rparr>) = ident p" for db using p by (simp_all add: q_def)
  show ?thesis
  proof (rule exI [of _ q]; intro conjI allI impI; (elim conjE)?)
    fix db assume run: "others_run (ident p) (mdb q) db"
    note w = others [OF run]
    show "\<exists>r. transport_sm_unlock_rwl h True (q\<lparr>mdb := db\<rparr>) = Some (True, r) \<and> num_locks (m_sems (mdb r) s) = 0"
      using lock_given_back [OF qp(1) _ s(1,2), of db] w qp(2) by simp
    fix p' :: mrapi_sys and ts :: "(mrapi_sys \<times> lock_call) list"
    assume p': "mrapi_caller p'" "mdb p' = db" "ident p' \<noteq> ident p" and ts: "\<forall>t\<in>set ts. mrapi_caller (fst t) \<and> ident (fst t) \<noteq> ident p"
    show "transport_sm_lock_rwl (map turn ts) h True p' = None"
      and "\<exists>q'. transport_sm_unlock_rwl h True p' = Some (False, q') \<and> mdb q' = db"
      using lock_refused [OF p'(1) _ s(1,2) _ p'(3) [symmetric] ts] w p'(2) by simp_all
  qed (rule lock)
qed

theorem database_lock_exclusive_witness:
  "\<exists>q. transport_sm_lock_rwl [] 0x80000000 True ((node_of 0)\<lparr>mdb := rwl_db\<rparr>) = Some (True, q) \<and>
     transport_sm_lock_rwl [] 0x80000000 True ((node_of 1)\<lparr>mdb := mdb q\<rparr>) = None"
proof -
  let ?p = "(node_of 0)\<lparr>mdb := rwl_db\<rparr>"
  have p: "mrapi_caller ?p" "lock_reachable (mdb ?p)" "hndl_entry (mdb ?p) 0x80000000 0" "0 < shared_lock_limit (m_sems (mdb ?p) 0)"
    "num_locks (m_sems (mdb ?p) 0) = 0"
    by (simp_all add: node_of_caller rwl_db_reachable rwl_hndl rwl_entry_at rwl_entry_def new_entry_def zero_sem_def)
  from database_lock_exclusive [OF p, of "[]"] obtain q where q: "transport_sm_lock_rwl [] 0x80000000 True ?p = Some (True, q)"
    and no: "mrapi_caller p' \<Longrightarrow> mdb p' = mdb q \<Longrightarrow> ident p' \<noteq> ident ?p \<Longrightarrow> transport_sm_lock_rwl (map turn []) 0x80000000 True p' = None" for p'
    using others_run.rest by (metis empty_iff list.set(1))
  have "ident ((node_of 1)\<lparr>mdb := mdb q\<rparr>) \<noteq> ident ?p" by (simp add: ident_def node_of_def)
  from no [OF _ _ this] q show ?thesis by (simp add: node_of_caller)
qed

end
