(* ===== verification/MRAPI_Nesting.thy ===== *)
theory MRAPI_Nesting
  imports MRAPI_Exclusion
begin

text \<open>
  Recursive mutexes: every lock call of the holder gives a deeper key, and the keys are given back in reverse order. The
  depth is compared through a byte, and a relock that is refused leaves no trace in the status.
\<close>

section \<open>A mutex that its caller holds\<close>

fun lock_times :: "nat \<Rightarrow> u32 \<Rightarrow> u32 \<Rightarrow> mrapi_sys \<Rightarrow> (u32 list \<times> mrapi_sys) option" where
  "lock_times 0 h key p = Some ([], p)"
| "lock_times (Suc k) h key p = do {
     ((rc, key', status), p) \<leftarrow> mrapi_mutex_trylock [id] h key p;
     if rc then map_option (\<lambda>(keys, q). (key' # keys, q)) (lock_times k h key p) else None}"

fun unlock_keys :: "u32 \<Rightarrow> u32 list \<Rightarrow> mrapi_sys \<Rightarrow> mrapi_sys option" where
  "unlock_keys h [] p = Some p"
| "unlock_keys h (key # keys) p = do {
     (status, p) \<leftarrow> mrapi_mutex_unlock h key p;
     if status = MRAPI_SUCCESS then unlock_keys h keys p else None}"

definition at_depth :: "u32 \<Rightarrow> nat \<Rightarrow> u32 \<Rightarrow> mrapi_sys \<Rightarrow> bool" where
  "at_depth h s k p \<longleftrightarrow> mrapi_caller p \<and> table_ok (mdb p) \<and> hndl_entry (mdb p) h s \<and> shared_lock_limit (m_sems (mdb p) s) = 1 \<and>
     recursive (s_attributes (m_sems (mdb p) s)) = 1 \<and> own_slot p s \<and> l_locked (locks (m_sems (mdb p) s) ! 0) \<and>
     lock_key (locks (m_sems (mdb p) s) ! 0) = k"

definition mutex_free :: "mrapi_database \<Rightarrow> nat \<Rightarrow> bool" where
  "mutex_free db s \<longleftrightarrow> num_locks (m_sems db s) = 0 \<and> lock_key (locks (m_sems db s) ! 0) = 0"

text \<open>The one valid slot of a mutex comes first.\<close>

lemma mutex_slot:
  assumes "entry_ok e" and "shared_lock_limit e = 1"
  obtains x xs where "locks e = x # xs" and "l_valid x" and "count_if taken_slot xs = 0"
proof -
  obtain x xs where e: "locks e = x # xs"
    using assms(1) by (cases "locks e") (auto simp: entry_ok_def MRAPI_MAX_SHARED_LOCKS_def)
  with assms have "l_valid x" "valid_prefix 0 xs" by (simp_all add: entry_ok_def)
  with e that valid_prefix_0 [of xs taken_slot] show thesis by (simp add: taken_slot_def)
qed

lemma mutex_acquire:
  assumes "entry_ok e" and "shared_lock_limit e = 1" and "num_locks e = 0"
  shows "entry_acquire w 1 e = Some (e\<lparr>locks := claim (ucast (fst w)) (ucast (snd w)) (locks e ! 0) # tl (locks e), num_locks := 1\<rparr>)"
proof -
  obtain x xs where e: "locks e = x # xs" "l_valid x" "count_if taken_slot xs = 0" using assms(1,2) by (rule mutex_slot)
  with assms have "unused_slot x" by (simp add: entry_ok_def unused_slot_def taken_slot_def split: if_splits)
  with e assms show ?thesis
    by (simp add: entry_acquire_def unsigned_bound_def acquire_loop_Cons del: acquire_loop.simps)
qed

lemma mutex_release:
  assumes "entry_ok e" and "shared_lock_limit e = 1" and "holds (ucast (fst w)) (ucast (snd w)) (locks e ! 0)"
  shows "entry_release w 1 e = Some (e\<lparr>num_locks := 0, locks := (locks e ! 0)\<lparr>l_locked := False\<rparr> # tl (locks e)\<rparr>)"
proof -
  obtain x xs where e: "locks e = x # xs" "l_valid x" "count_if taken_slot xs = 0" using assms(1,2) by (rule mutex_slot)
  with assms have "num_locks e = 1" by (simp add: entry_ok_def holds_valid)
  with e assms show ?thesis by (simp add: entry_release_def)
qed

lemma put_key_entry: "m_sems (mdb (put_key s key p)) s = (m_sems (mdb p) s)
    \<lparr>locks := (locks (m_sems (mdb p) s))[0 := (locks (m_sems (mdb p) s) ! 0)\<lparr>lock_key := key\<rparr>]\<rparr>"
  by (simp add: put_key_def)

lemma put_key_depth:
  assumes "at_depth h s k p"
  shows "at_depth h s key (put_key s key p)"
proof -
  let ?e = "m_sems (mdb p) s"
  have p: "mrapi_caller p" "table_ok (mdb p)" "hndl_entry (mdb p) h s" using assms by (auto simp: at_depth_def)
  have ok: "entry_ok ?e" using table_entry [OF p(2,3)] .
  then have len: "0 < length (locks ?e)" by (simp add: entry_ok_def MRAPI_MAX_SHARED_LOCKS_def)
  have "table_ok (mdb (put_key s key p))"
    using p(2) move_ok [OF move_key [OF ok, of _ key]] by (simp add: table_ok_def put_key_def)
  moreover have "hndl_entry (mdb (put_key s key p)) h s" using p(3) by (simp add: hndl_entry_def put_key_entry)
  ultimately show ?thesis
    using assms len by (simp add: at_depth_def put_key_entry own_slot_def) (simp add: put_key_def)
qed

section \<open>Locking and unlocking\<close>

lemma lock_first:
  assumes p: "mrapi_caller p" and t: "table_ok (mdb p)" and h: "hndl_entry (mdb p) h s"
    and one: "shared_lock_limit (m_sems (mdb p) s) = 1" and rec: "recursive (s_attributes (m_sems (mdb p) s)) = 1"
    and free: "mutex_free (mdb p) s"
  shows "\<exists>q. mrapi_mutex_trylock [id] h key p = Some ((True, 0, MRAPI_SUCCESS), q) \<and> at_depth h s 0 q"
proof -
  let ?e = "m_sems (mdb p) s"
  have s: "mrapi_impl_decode_hndl h = Some s" "s < MRAPI_MAX_SEMS" using h by (auto simp: hndl_entry_def)
  have ok: "entry_ok ?e" using table_entry [OF t h] .
  obtain x xs where e: "locks ?e = x # xs" "l_valid x" "count_if taken_slot xs = 0" using ok one by (rule mutex_slot)
  with ok free have unlocked: "\<not> l_locked x" by (simp add: entry_ok_def mutex_free_def taken_slot_def split: if_splits)
  define f where "f = ?e\<lparr>locks := claim (mrapi_nindex p) (mrapi_dindex p) x # xs, num_locks := 1\<rparr>"
  define q where "q = p\<lparr>mdb := put_entry s f (mdb p)\<rparr>"
  have a: "entry_acquire (ident p) 1 ?e = Some f"
    using mutex_acquire [OF ok one, of "ident p"] free e(1) by (simp add: mutex_free_def caller_id [OF p] f_def)
  have "mrapi_mutex_trylock [id] h key p = Some ((True, 0, MRAPI_SUCCESS), q)"
    using p valid_hndl_pass(2) [OF p h] s mutex_again [OF p s(2)] e(1) unlocked sem_lock_try [OF p h ok, of 1 MRAPI_SUCCESS] a
    by (simp add: mrapi_mutex_trylock_def mrapi_impl_mutex_lock_def caller_whoami [OF p] Let_def q_def)
  moreover have "at_depth h s 0 q"
    using p t h one rec free e(1) entry.acquire_ok [OF ok _ a] caller_id [OF p]
    by (simp add: at_depth_def q_def f_def hndl_entry_def table_ok_def own_slot_def claim_def mutex_free_def ident_def)
  ultimately show ?thesis by blast
qed

lemma lock_deeper:
  assumes "at_depth h s k p"
  shows "mrapi_mutex_trylock [id] h key p = Some ((True, k + 1, MRAPI_SUCCESS), put_key s (k + 1) p)"
proof -
  have p: "mrapi_caller p" and h: "hndl_entry (mdb p) h s" using assms by (auto simp: at_depth_def)
  have s: "mrapi_impl_decode_hndl h = Some s" "s < MRAPI_MAX_SEMS" using h by (auto simp: hndl_entry_def)
  show ?thesis
    using assms valid_hndl_pass(2) [OF p h] s mutex_again [OF p s(2)]
    by (simp add: at_depth_def mrapi_mutex_trylock_def mrapi_impl_mutex_lock_def caller_whoami [OF p] Let_def)
qed

lemma unlock_depth:
  assumes "at_depth h s k p"
  shows "mrapi_mutex_unlock h key p =
     (if key = k \<and> k \<noteq> 0 then Some (MRAPI_SUCCESS, put_key s (k - 1) p)
      else if (ucast k :: byte) \<noteq> 0 then Some (MRAPI_ERR_MUTEX_LOCKORDER, p)
      else Some (MRAPI_SUCCESS, p\<lparr>mdb := upd_sem s (\<lambda>e. e\<lparr>num_locks := 0, locks := (locks e ! 0)\<lparr>l_locked := False\<rparr> # tl (locks e)\<rparr>) (mdb p)\<rparr>))"
proof -
  let ?e = "m_sems (mdb p) s"
  have p: "mrapi_caller p" and t: "table_ok (mdb p)" and h: "hndl_entry (mdb p) h s" and one: "shared_lock_limit ?e = 1"
    using assms by (auto simp: at_depth_def)
  have s: "mrapi_impl_decode_hndl h = Some s" "s < MRAPI_MAX_SEMS" using h by (auto simp: hndl_entry_def)
  have ok: "entry_ok ?e" using table_entry [OF t h] .
  obtain x xs where e: "locks ?e = x # xs" "l_valid x" using ok one by (rule mutex_slot)
  have "holds (ucast (fst (ident p))) (ucast (snd (ident p))) (locks ?e ! 0)"
    using assms e by (simp add: at_depth_def holds_def own_slot_def caller_id [OF p])
  note r = mutex_release [OF ok one this]
  have own: "own_slot p s" "lock_key (locks ?e ! 0) = k" using assms by (auto simp: at_depth_def)
  show ?thesis
    using valid_hndl_pass(2) [OF p h] p s mutex_nested [OF p s(2), of key] own release_attempt [OF p h ok, of 1 MRAPI_SUCCESS] r
    by (cases "key = k"; cases "k = 0") (simp_all add: mrapi_mutex_unlock_def mrapi_impl_mutex_unlock_def caller_whoami [OF p] Let_def)
qed

section \<open>Nesting\<close>

lemma lock_times_depth:
  "at_depth h s (word_of_nat i) p \<Longrightarrow> \<exists>q. lock_times k h key p = Some (map word_of_nat [Suc i..<Suc (i + k)], q) \<and> at_depth h s (word_of_nat (i + k)) q"
proof (induction k arbitrary: i p)
  case (Suc k)
  note d = put_key_depth [OF Suc.prems, of "word_of_nat (Suc i)"]
  obtain q where "lock_times k h key (put_key s (word_of_nat (Suc i)) p) = Some (map word_of_nat [Suc (Suc i)..<Suc (Suc i + k)], q)"
    "at_depth h s (word_of_nat (Suc i + k)) q" using Suc.IH [OF d] by blast
  moreover have "[Suc i..<Suc (i + Suc k)] = Suc i # [Suc (Suc i)..<Suc (Suc i + k)]" by (simp add: upt_conv_Cons)
  ultimately show ?case
    using lock_deeper [OF Suc.prems, of key] by (auto simp: add.commute simp del: upt.simps)
qed simp

lemma key_nonzero: "0 < j \<Longrightarrow> j < 2 ^ 32 \<Longrightarrow> (word_of_nat j :: u32) \<noteq> 0"
  using dvd_imp_le [of "2 ^ 32" j] by (auto simp: word_of_nat_eq_0_iff)

lemma unlock_keys_depth:
  assumes "at_depth h s (word_of_nat k) p" and "k < 2 ^ 32"
  shows "\<exists>q. unlock_keys h (rev (map word_of_nat [0..<Suc k])) p = Some q \<and> mutex_free (mdb q) s"
  using assms
proof (induction k arbitrary: p)
  case 0
  have "table_ok (mdb p)" "hndl_entry (mdb p) h s" "lock_key (locks (m_sems (mdb p) s) ! 0) = 0" using 0 by (auto simp: at_depth_def)
  with unlock_depth [OF 0(1), of 0] show ?case by (simp add: mutex_free_def)
next
  case (Suc k)
  have "(word_of_nat (Suc k) :: u32) \<noteq> 0" using key_nonzero [of "Suc k"] Suc.prems(2) by simp
  then have "mrapi_mutex_unlock h (word_of_nat (Suc k)) p = Some (MRAPI_SUCCESS, put_key s (word_of_nat k) p)"
    using unlock_depth [OF Suc.prems(1), of "word_of_nat (Suc k)"] by simp
  moreover have "\<exists>q. unlock_keys h (rev (map word_of_nat [0..<Suc k])) (put_key s (word_of_nat k) p) = Some q \<and> mutex_free (mdb q) s"
    using put_key_depth [OF Suc.prems(1)] Suc.prems(2) by (intro Suc.IH) simp_all
  moreover have "rev (map word_of_nat [0..<Suc (Suc k)]) = word_of_nat (Suc k) # rev (map word_of_nat [0..<Suc k] :: u32 list)" by simp
  ultimately show ?case by simp
qed

text \<open>
  C14: recursive mutexes nest. On a free recursive mutex, locking it \<open>k + 1\<close> times with the call that does not wait gives the
  keys 0 to \<open>k\<close> in order; then every other key than the last, also one that was never given out, is refused as out of order and
  changes nothing, at a depth \<open>k\<close> that is not a multiple of 256;
  and unlocking with the keys in the reverse order succeeds at every step and leaves the mutex free again, at depth 0.
\<close>

theorem mutex_nests:
  assumes "mrapi_caller p" and "lock_reachable (mdb p)" and "hndl_entry (mdb p) h s" and "shared_lock_limit (m_sems (mdb p) s) = 1"
    and "recursive (s_attributes (m_sems (mdb p) s)) = 1" and "mutex_free (mdb p) s" and k: "k < 2 ^ 32"
  shows "\<exists>q. lock_times (Suc k) h key p = Some (map word_of_nat [0..<Suc k], q) \<and>
     (\<forall>key'. key' \<noteq> word_of_nat k \<and> \<not> 256 dvd k \<longrightarrow> mrapi_mutex_unlock h key' q = Some (MRAPI_ERR_MUTEX_LOCKORDER, q)) \<and>
     (\<exists>r. unlock_keys h (rev (map word_of_nat [0..<Suc k])) q = Some r \<and> mutex_free (mdb r) s)"
proof -
  obtain p1 where 1: "mrapi_mutex_trylock [id] h key p = Some ((True, 0, MRAPI_SUCCESS), p1)" "at_depth h s (word_of_nat 0) p1"
    using lock_first [OF assms(1) reachable_table [OF assms(2)] assms(3-6), of key] by auto
  from lock_times_depth [OF 1(2), of k key] obtain q where q: "lock_times k h key p1 = Some (map word_of_nat [1..<Suc k], q)"
    "at_depth h s (word_of_nat k) q" by auto
  have "[0..<Suc k] = 0 # [1..<Suc k]" by (simp add: upt_conv_Cons del: upt.simps)
  with 1 q have "lock_times (Suc k) h key p = Some (map word_of_nat [0..<Suc k], q)" by (simp del: upt.simps)
  moreover have "mrapi_mutex_unlock h key' q = Some (MRAPI_ERR_MUTEX_LOCKORDER, q)" if "key' \<noteq> word_of_nat k" "\<not> 256 dvd k" for key'
  proof -
    have "ucast (word_of_nat k :: u32) = (word_of_nat k :: byte)" by (rule bit_word_eqI) (auto simp: bit_simps)
    moreover have "(word_of_nat k :: byte) \<noteq> 0" using that(2) by (simp add: word_of_nat_eq_0_iff)
    ultimately show ?thesis using that(1) unlock_depth [OF q(2), of key'] by simp
  qed
  ultimately show ?thesis using unlock_keys_depth [OF q(2) k] by blast
qed

text \<open>At a depth that is a multiple of 256 any other key gives the mutex back at once.\<close>

lemma wrong_key_unlocks:
  assumes "at_depth h s 256 p" and "key \<noteq> 256"
  shows "\<exists>q. mrapi_mutex_unlock h key p = Some (MRAPI_SUCCESS, q) \<and> num_locks (m_sems (mdb q) s) = 0"
  using unlock_depth [OF assms(1), of key] assms(2) by simp

text \<open>The holder of a mutex that is not recursive is told that it has locked it again.\<close>

lemma relock_reports_success:
  assumes p: "mrapi_caller p" and h: "hndl_entry (mdb p) h s" and "recursive (s_attributes (m_sems (mdb p) s)) \<noteq> 1"
    and "own_slot p s" and "l_locked (locks (m_sems (mdb p) s) ! 0)"
  shows "mrapi_mutex_lock env h key timeout p = Some ((key, MRAPI_SUCCESS), p)"
proof -
  have s: "mrapi_impl_decode_hndl h = Some s" "s < MRAPI_MAX_SEMS" using h by (auto simp: hndl_entry_def)
  show ?thesis
    using assms valid_hndl_pass(2) [OF p h] s mutex_again [OF p s(2)]
    by (simp add: mrapi_mutex_lock_def mrapi_impl_mutex_lock_def caller_whoami [OF p] Let_def)
qed

section \<open>A recursive mutex\<close>

definition mutex_attributes :: mrapi_attributes where
  "mutex_attributes = no_attributes\<lparr>shared_across_domains := 1, recursive := 1\<rparr>"

definition mutex_entry :: mrapi_sem where
  "mutex_entry = (new_entry 0 7 1 MUTEX (zero_lock\<lparr>l_valid := True\<rparr> # replicate 31 zero_lock))\<lparr>s_attributes := mutex_attributes\<rparr>"

definition mutex_db :: mrapi_database where
  "mutex_db = add_entry 0 0 0 mutex_entry zero_database"

lemma create_mutex: "run_lock_call (Mutex_create 7 (Some mutex_attributes)) (node_of 0) = Some (True, (node_of 0)\<lparr>mdb := mutex_db\<rparr>)"
proof -
  have none: "for_first (\<lambda>s. s_valid (m_sems zero_database s) \<and> s_key (m_sems zero_database s) = 7) 0 MRAPI_MAX_SEMS = MRAPI_MAX_SEMS"
    by (simp add: for_first_none zero_database_def zero_sem_def)
  have first: "for_first (\<lambda>s. \<not> s_valid (m_sems zero_database s) \<and> \<not> s_deleted (m_sems zero_database s)) 0 MRAPI_MAX_SEMS = 0"
    by (rule for_first_eqI) (simp_all add: zero_database_def zero_sem_def MRAPI_MAX_SEMS_def)
  have sems: "0 \<noteq> MRAPI_MAX_SEMS" "s_attributes zero_sem = no_attributes"
    by (simp_all add: MRAPI_MAX_SEMS_def zero_sem_def)
  have slots: "validate_loop (Suc 0) (locks zero_sem) = Some (zero_lock\<lparr>l_valid := True\<rparr> # replicate 31 zero_lock)"
    using replicate_add [of 1 31 zero_lock] by (simp add: zero_sem_def MRAPI_MAX_SHARED_LOCKS_def)
  have "mrapi_impl_mutex_create 7 (Some mutex_attributes) (node_of 0) = Some ((Some 0x80000000, MRAPI_ERR_MUTEX_LIMIT), (node_of 0)\<lparr>mdb := mutex_db\<rparr>)"
    unfolding mrapi_impl_mutex_create_def
    by (rule with_section_eq)
      ((simp_all add: node_of_caller mrapi_impl_create_lock_locked_def mrapi_impl_whoami_def node_of_def none first Let_def slots
        MRAPI_SEM_ID_ANY_def sems finish_create_def mrapi_impl_decode_hndl_def mrapi_impl_encode_hndl_def hndl_index_def
        mutex_db_def add_entry_def mutex_entry_def new_entry_def mutex_attributes_of_def no_attributes_def mrapi_caller_def
        mutex_attributes_def MRAPI_MAX_NODES_def MRAPI_MAX_DOMAINS_def), simp add: zero_database_def zero_sem_def)
  then show ?thesis
    by (simp add: mrapi_mutex_create_def node_of_caller mrapi_impl_mutex_validID_def granted_def)
qed

lemma mutex_db_reachable: "lock_reachable mutex_db"
proof -
  have "(node_of 0)\<lparr>mdb := zero_database\<rparr> = node_of 0" by (simp add: node_of_def)
  then have "lock_step (ident (node_of 0)) zero_database mutex_db"
    using call [OF node_of_caller, of 0 "Mutex_create 7 (Some mutex_attributes)" zero_database True] create_mutex by fastforce
  with zero show ?thesis by (rule step)
qed

lemma mutex_entry_at: "m_sems mutex_db 0 = mutex_entry"
  by (simp add: mutex_db_def add_entry_def)

theorem mutex_nests_witness:
  "\<exists>q r. lock_times 3 0x80000000 9 ((node_of 0)\<lparr>mdb := mutex_db\<rparr>) = Some ([0, 1, 2], q) \<and>
     mrapi_mutex_unlock 0x80000000 1 q = Some (MRAPI_ERR_MUTEX_LOCKORDER, q) \<and>
     unlock_keys 0x80000000 [2, 1, 0] q = Some r \<and> mutex_free (mdb r) 0"
  using mutex_nests [of "(node_of 0)\<lparr>mdb := mutex_db\<rparr>" "0x80000000" 0 2 9]
  by (auto simp: node_of_caller mutex_db_reachable hndl_entry_def mutex_entry_at mutex_entry_def mrapi_impl_decode_hndl_def
      hndl_index_def MRAPI_MAX_SEMS_def new_entry_def mutex_attributes_def mutex_free_def zero_sem_def zero_lock_def numeral_3_eq_3
      upt_conv_Cons simp del: lock_times.simps)

end
