(* ===== verification/MRAPI_Rmem.thy ===== *)
theory MRAPI_Rmem
  imports MRAPI_Locks
begin

text \<open>
  Remote memory of the resource layer (\<open>mrapi_impl_spec_rmem.c\<close>, \<open>mrapi_rmem.c\<close>): named segments of
  a process's own memory, which nodes attach to, and which they read and write with strides. The memory is the set of
  mapped addresses with their bytes; an access to another address is undefined, and so is \<open>memcpy\<close> between regions that
  overlap (\<open>None\<close>). Pointers do not wrap, products and counters do, at their width.
\<close>

section \<open>Memory\<close>

type_synonym memory = "addr \<Rightarrow> byte option"

definition mapped :: "memory \<Rightarrow> addr \<Rightarrow> nat \<Rightarrow> bool" where
  "mapped mem a n = list_all (\<lambda>j. mem (a + j) \<noteq> None) [0..<n]"

definition apart :: "addr \<Rightarrow> nat \<Rightarrow> addr \<Rightarrow> nat \<Rightarrow> bool" where
  "apart a n b m = (a + n \<le> b \<or> b + m \<le> a)"

definition mem_copy :: "addr \<Rightarrow> addr \<Rightarrow> nat \<Rightarrow> memory \<Rightarrow> memory option" where
  "mem_copy dst src n mem =
     (if mapped mem src n \<and> mapped mem dst n \<and> apart dst n src n
      then Some (\<lambda>a. if dst \<le> a \<and> a < dst + n then mem (src + (a - dst)) else mem a) else None)"

text \<open>The loop over the strides: its counter has 16 bits and is compared with a bound of 32.\<close>

partial_function (option) copy_loop :: "u16 \<Rightarrow> u32 \<Rightarrow> addr \<Rightarrow> nat \<Rightarrow> addr \<Rightarrow> nat \<Rightarrow> nat \<Rightarrow> memory \<Rightarrow> memory option" where
  "copy_loop i num_strides dst dst_stride src src_stride bytes mem =
     (if ucast i < num_strides
      then Option.bind (mem_copy dst src bytes mem)
        (copy_loop (i + 1) num_strides (dst + dst_stride) dst_stride (src + src_stride) src_stride bytes)
      else Some mem)"

section \<open>Handles and segments\<close>

text \<open>A handle that has no index fails the assertion; an index beyond the table is undefined.\<close>

definition rmem_index :: "u32 \<Rightarrow> nat option" where
  "rmem_index rmem = do {
     r \<leftarrow> mrapi_impl_decode_hndl rmem;
     if r < MRAPI_MAX_RMEMS then Some r else None}"

abbreviation upd_rmem :: "nat \<Rightarrow> (mrapi_rmem \<Rightarrow> mrapi_rmem) \<Rightarrow> mrapi_database \<Rightarrow> mrapi_database" where
  "upd_rmem r f db \<equiv> db\<lparr>m_rmems := (m_rmems db)(r := f (m_rmems db r))\<rparr>"

definition mrapi_impl_rmem_validID :: "int \<Rightarrow> bool" where
  "mrapi_impl_rmem_validID rmem = True"

definition mrapi_impl_valid_atype :: "mrapi_rmem_atype \<Rightarrow> bool" where
  "mrapi_impl_valid_atype atype = (atype = MRAPI_RMEM_DUMMY)"

definition mrapi_impl_rmem_attached :: "u32 \<Rightarrow> mrapi_sys \<Rightarrow> (bool \<times> mrapi_sys) option" where
  "mrapi_impl_rmem_attached rmem = with_section Rmems_semid (\<lambda>sys. do {
     (node_id, n, domain_id, d) \<leftarrow> mrapi_impl_whoami sys;
     (case mrapi_impl_decode_hndl rmem of
        None \<Rightarrow> Some (False, sys)
      | Some r \<Rightarrow> if r < MRAPI_MAX_RMEMS
          then Some (r_valid (m_rmems (mdb sys) r) \<and> r_nodes (m_rmems (mdb sys) r) (unat n) = 1, sys) else None)})"

definition mrapi_impl_rmem_exists :: "int \<Rightarrow> mrapi_sys \<Rightarrow> (bool \<times> mrapi_sys) option" where
  "mrapi_impl_rmem_exists rmem_id = with_section Rmems_semid (\<lambda>sys.
     Some (for_first (\<lambda>r. r_valid (m_rmems (mdb sys) r) \<and> r_key (m_rmems (mdb sys) r) = rmem_id) 0 MRAPI_MAX_RMEMS \<noteq> MRAPI_MAX_RMEMS, sys))"

definition mrapi_impl_rmem_create ::
  "int \<Rightarrow> addr \<Rightarrow> mrapi_rmem_atype \<Rightarrow> mrapi_attributes option \<Rightarrow> u32 \<Rightarrow> mrapi_sys \<Rightarrow> ((u32 \<times> mrapi_status) \<times> mrapi_sys) option" where
  "mrapi_impl_rmem_create rmem_id mem access attrs len = with_section Rmems_semid (\<lambda>sys. do {
     (node_id, n, domain_id, d) \<leftarrow> mrapi_impl_whoami sys;
     let db = mdb sys;
     let none = mrapi_impl_encode_hndl (word_of_nat MRAPI_MAX_RMEMS);
     if unat (num_rmems db) = MRAPI_MAX_RMEMS then Some ((none, MRAPI_ERR_MEM_LIMIT), sys)
     else if for_first (\<lambda>r. r_valid (m_rmems db r) \<and> r_key (m_rmems db r) = rmem_id) 0 MRAPI_MAX_RMEMS \<noteq> MRAPI_MAX_RMEMS
     then Some ((none, MRAPI_ERR_RMEM_EXISTS), sys)
     else do {
       let r = for_first (\<lambda>r. \<not> r_valid (m_rmems db r)) 0 MRAPI_MAX_RMEMS;
       let db' = (if r = MRAPI_MAX_RMEMS then db
                  else (upd_rmem r (\<lambda>e. e\<lparr>r_key := rmem_id, r_valid := True, r_addr := mem, r_size := unat len, access_type := access,
                          r_attributes := sem_attributes_of attrs (r_attributes e)\<rparr>) db)\<lparr>num_rmems := num_rmems db + 1\<rparr>);
       Some ((mrapi_impl_encode_hndl (word_of_nat r), MRAPI_SUCCESS), sys\<lparr>mdb := db'\<rparr>)}})"

definition mrapi_impl_rmem_init_attributes :: "mrapi_attributes \<Rightarrow> mrapi_attributes" where
  "mrapi_impl_rmem_init_attributes a = a\<lparr>ext_error_checking := 0, shared_across_domains := 1\<rparr>"

definition mrapi_impl_rmem_set_attribute :: "mrapi_attributes \<Rightarrow> u32 \<Rightarrow> byte \<Rightarrow> nat \<Rightarrow> mrapi_attributes \<times> mrapi_status" where
  "mrapi_impl_rmem_set_attribute a num attribute attr_size =
     (if num = MRAPI_ERROR_EXT then
        if attr_size \<noteq> 1 then (a, MRAPI_ERR_ATTR_SIZE) else (a\<lparr>ext_error_checking := attribute\<rparr>, MRAPI_SUCCESS)
      else if num = MRAPI_DOMAIN_SHARED then
        if attr_size \<noteq> 1 then (a, MRAPI_ERR_ATTR_SIZE) else (a\<lparr>shared_across_domains := attribute\<rparr>, MRAPI_SUCCESS)
      else (a, MRAPI_ERR_ATTR_NUM))"

definition mrapi_impl_rmem_get_attribute :: "u32 \<Rightarrow> u32 \<Rightarrow> nat \<Rightarrow> mrapi_sys \<Rightarrow> ((byte option \<times> mrapi_status) \<times> mrapi_sys) option" where
  "mrapi_impl_rmem_get_attribute rmem num attr_size sys = do {
     r \<leftarrow> rmem_index rmem;
     with_section Rmems_semid (\<lambda>sys. let a = r_attributes (m_rmems (mdb sys) r) in
       Some (if num = MRAPI_ERROR_EXT then read_attribute (ext_error_checking a) attr_size
             else if num = MRAPI_DOMAIN_SHARED then read_attribute (shared_across_domains a) attr_size
             else (None, MRAPI_ERR_ATTR_NUM), sys)) sys}"

text \<open>The lookup by key does not ask whether the segment is in use.\<close>

definition mrapi_impl_rmem_get :: "int \<Rightarrow> mrapi_sys \<Rightarrow> ((bool \<times> u32) \<times> mrapi_sys) option" where
  "mrapi_impl_rmem_get rmem_id = with_section Rmems_semid (\<lambda>sys.
     let r = for_first (\<lambda>r. r_key (m_rmems (mdb sys) r) = rmem_id) 0 MRAPI_MAX_RMEMS
     in Some ((r \<noteq> MRAPI_MAX_RMEMS, mrapi_impl_encode_hndl (word_of_nat r)), sys))"

definition mrapi_impl_valid_rmem_hndl :: "u32 \<Rightarrow> mrapi_sys \<Rightarrow> (bool \<times> mrapi_sys) option" where
  "mrapi_impl_valid_rmem_hndl rmem = with_section Rmems_semid (\<lambda>sys.
     Some (case mrapi_impl_decode_hndl rmem of
       None \<Rightarrow> False | Some r \<Rightarrow> r < MRAPI_MAX_RMEMS \<and> r_valid (m_rmems (mdb sys) r), sys))"

definition mrapi_impl_rmem_attach :: "u32 \<Rightarrow> mrapi_sys \<Rightarrow> (bool \<times> mrapi_sys) option" where
  "mrapi_impl_rmem_attach rmem = with_section Rmems_semid (\<lambda>sys. do {
     (node_id, n, domain_id, d) \<leftarrow> mrapi_impl_whoami sys;
     r \<leftarrow> rmem_index rmem;
     if r_nodes (m_rmems (mdb sys) r) (unat n) = 0
     then Some (True, sys\<lparr>mdb := upd_rmem r (\<lambda>e. e\<lparr>r_nodes := (r_nodes e)(unat n := 1), r_refs := r_refs e + 1\<rparr>) (mdb sys)\<rparr>)
     else Some (True, sys)})"

definition mrapi_impl_rmem_detach :: "u32 \<Rightarrow> mrapi_sys \<Rightarrow> (bool \<times> mrapi_sys) option" where
  "mrapi_impl_rmem_detach rmem = with_section Rmems_semid (\<lambda>sys. do {
     (node_id, n, domain_id, d) \<leftarrow> mrapi_impl_whoami sys;
     r \<leftarrow> rmem_index rmem;
     Some (True, sys\<lparr>mdb := upd_rmem r (\<lambda>e. e\<lparr>r_nodes := (r_nodes e)(unat n := 0), r_refs := r_refs e - 1\<rparr>) (mdb sys)\<rparr>)})"

definition mrapi_impl_rmem_delete :: "u32 \<Rightarrow> mrapi_sys \<Rightarrow> (bool \<times> mrapi_sys) option" where
  "mrapi_impl_rmem_delete rmem = with_section Rmems_semid (\<lambda>sys. do {
     r \<leftarrow> rmem_index rmem;
     Some (True, sys\<lparr>mdb := upd_rmem r (\<lambda>e. e\<lparr>r_valid := False\<rparr>) (mdb sys)\<rparr>)})"

section \<open>Reading and writing\<close>

definition mrapi_impl_rmem_read ::
  "u32 \<Rightarrow> u32 \<Rightarrow> addr \<Rightarrow> u32 \<Rightarrow> u32 \<Rightarrow> u32 \<Rightarrow> u32 \<Rightarrow> u32 \<Rightarrow> memory \<Rightarrow> mrapi_sys \<Rightarrow> ((bool \<times> memory) \<times> mrapi_sys) option" where
  "mrapi_impl_rmem_read rmem rmem_offset local_buf local_offset bytes num_strides rmem_stride local_stride mem =
     with_section Rmems_semid (\<lambda>sys. do {
       r \<leftarrow> rmem_index rmem;
       let e = m_rmems (mdb sys) r;
       let last_remote_access = int (r_addr e) + uint rmem_offset + uint (rmem_stride * num_strides);
       let upper_bound = int (r_addr e) + int (r_size e) - 1;
       if \<not> r_valid e then Some ((False, mem), sys)
       else if last_remote_access > upper_bound then Some ((False, mem), sys)
       else do {
         mem \<leftarrow> copy_loop 0 num_strides (local_buf + unat local_offset) (unat local_stride)
                  (r_addr e + unat rmem_offset) (unat rmem_stride) (unat bytes) mem;
         Some ((True, mem), sys)}})"

definition mrapi_impl_rmem_write ::
  "u32 \<Rightarrow> u32 \<Rightarrow> addr \<Rightarrow> u32 \<Rightarrow> u32 \<Rightarrow> u32 \<Rightarrow> u32 \<Rightarrow> u32 \<Rightarrow> memory \<Rightarrow> mrapi_sys \<Rightarrow> ((bool \<times> memory) \<times> mrapi_sys) option" where
  "mrapi_impl_rmem_write rmem rmem_offset local_buf local_offset bytes num_strides rmem_stride local_stride mem =
     with_section Rmems_semid (\<lambda>sys. do {
       r \<leftarrow> rmem_index rmem;
       let e = m_rmems (mdb sys) r;
       let last_remote_access = int (r_addr e) + uint rmem_offset + uint (rmem_stride * num_strides) + uint bytes;
       let upper_bound = int (r_addr e) + int (r_size e);
       if \<not> r_valid e then Some ((False, mem), sys)
       else if last_remote_access > upper_bound then Some ((False, mem), sys)
       else do {
         mem \<leftarrow> copy_loop 0 num_strides (r_addr e + unat rmem_offset) (unat rmem_stride)
                  (local_buf + unat local_offset) (unat local_stride) (unat bytes) mem;
         Some ((True, mem), sys)}})"

text \<open>
  The non-blocking calls do their work at once and record it in a request. The handle is \<open>0xffffffff\<close> where there is
  no request; the result is that of the access.
\<close>

definition complete_request :: "nat \<Rightarrow> mrapi_status \<Rightarrow> mrapi_sys \<Rightarrow> (u32 \<times> mrapi_sys) option" where
  "complete_request r status = with_section Rmems_semid (\<lambda>sys.
     Some (mrapi_impl_encode_hndl (word_of_nat r),
       sys\<lparr>mdb := (mdb sys)\<lparr>m_requests := (m_requests (mdb sys))(r := (m_requests (mdb sys) r)\<lparr>q_completed := True, q_status := status\<rparr>)\<rparr>\<rparr>))"

definition mrapi_impl_rmem_read_i ::
  "u32 \<Rightarrow> u32 \<Rightarrow> addr \<Rightarrow> u32 \<Rightarrow> u32 \<Rightarrow> u32 \<Rightarrow> u32 \<Rightarrow> u32 \<Rightarrow> mrapi_status \<Rightarrow> memory \<Rightarrow> mrapi_sys \<Rightarrow>
    ((bool \<times> u32 \<times> mrapi_status \<times> memory) \<times> mrapi_sys) option" where
  "mrapi_impl_rmem_read_i rmem rmem_offset local_buf local_offset bytes num_strides rmem_stride local_stride status mem sys = do {
     (r, sys) \<leftarrow> mrapi_impl_setup_request sys;
     if r < MRAPI_MAX_REQUESTS then do {
       ((rc, mem), sys) \<leftarrow> mrapi_impl_rmem_read rmem rmem_offset local_buf local_offset bytes num_strides rmem_stride local_stride mem sys;
       (request, sys) \<leftarrow> complete_request r status sys;
       Some ((rc, request, MRAPI_SUCCESS, mem), sys)}
     else Some ((False, 0xffffffff, MRAPI_ERR_REQUEST_LIMIT, mem), sys)}"

definition mrapi_impl_rmem_write_i ::
  "u32 \<Rightarrow> u32 \<Rightarrow> addr \<Rightarrow> u32 \<Rightarrow> u32 \<Rightarrow> u32 \<Rightarrow> u32 \<Rightarrow> u32 \<Rightarrow> mrapi_status \<Rightarrow> memory \<Rightarrow> mrapi_sys \<Rightarrow>
    ((bool \<times> u32 \<times> mrapi_status \<times> memory) \<times> mrapi_sys) option" where
  "mrapi_impl_rmem_write_i rmem rmem_offset local_buf local_offset bytes num_strides rmem_stride local_stride status mem sys = do {
     (r, sys) \<leftarrow> mrapi_impl_setup_request sys;
     if r < MRAPI_MAX_REQUESTS then do {
       ((rc, mem), sys) \<leftarrow> mrapi_impl_rmem_write rmem rmem_offset local_buf local_offset bytes num_strides rmem_stride local_stride mem sys;
       (request, sys) \<leftarrow> complete_request r status sys;
       Some ((rc, request, MRAPI_SUCCESS, mem), sys)}
     else Some ((False, 0xffffffff, MRAPI_ERR_REQUEST_LIMIT, mem), sys)}"

section \<open>The application interface\<close>

definition mrapi_rmem_create ::
  "int \<Rightarrow> addr \<Rightarrow> mrapi_rmem_atype \<Rightarrow> mrapi_attributes option \<Rightarrow> u32 \<Rightarrow> mrapi_sys \<Rightarrow> ((u32 \<times> mrapi_status) \<times> mrapi_sys) option" where
  "mrapi_rmem_create rmem_id mem access attrs len sys =
     (if \<not> mrapi_impl_initialized sys then Some ((0, MRAPI_ERR_NODE_NOTINIT), sys)
      else if \<not> mrapi_impl_rmem_validID rmem_id then Some ((0, MRAPI_ERR_RMEM_ID_INVALID), sys)
      else do {
        (found, sys) \<leftarrow> mrapi_impl_rmem_exists rmem_id sys;
        if found then Some ((0, MRAPI_ERR_RMEM_EXISTS), sys)
        else if \<not> mrapi_impl_valid_atype access then Some ((0, MRAPI_ERR_RMEM_TYPENOTVALID), sys)
        else mrapi_impl_rmem_create rmem_id mem access attrs len sys})"

text \<open>Where there are attributes, they are set and the status is left alone.\<close>

definition mrapi_rmem_init_attributes :: "mrapi_attributes option \<Rightarrow> mrapi_status \<Rightarrow> mrapi_attributes option \<times> mrapi_status" where
  "mrapi_rmem_init_attributes attrs status = (case attrs of None \<Rightarrow> (None, MRAPI_ERR_PARAMETER)
   | Some a \<Rightarrow> (Some (mrapi_impl_rmem_init_attributes a), status))"

definition mrapi_rmem_set_attribute :: "mrapi_attributes option \<Rightarrow> u32 \<Rightarrow> byte \<Rightarrow> nat \<Rightarrow> mrapi_attributes option \<times> mrapi_status" where
  "mrapi_rmem_set_attribute attrs num attribute attr_size = (case attrs of None \<Rightarrow> (None, MRAPI_ERR_PARAMETER)
   | Some a \<Rightarrow> map_prod Some id (mrapi_impl_rmem_set_attribute a num attribute attr_size))"

definition mrapi_rmem_get_attribute :: "u32 \<Rightarrow> u32 \<Rightarrow> bool \<Rightarrow> nat \<Rightarrow> mrapi_sys \<Rightarrow> ((byte option \<times> mrapi_status) \<times> mrapi_sys) option" where
  "mrapi_rmem_get_attribute rmem num present attr_size sys =
     (if \<not> mrapi_impl_initialized sys then Some ((None, MRAPI_ERR_NODE_NOTINIT), sys)
      else if \<not> present then Some ((None, MRAPI_ERR_PARAMETER), sys)
      else do {
        (ok, sys) \<leftarrow> mrapi_impl_valid_rmem_hndl rmem sys;
        if \<not> ok then Some ((None, MRAPI_ERR_RMEM_INVALID), sys)
        else mrapi_impl_rmem_get_attribute rmem num attr_size sys})"

definition mrapi_rmem_get :: "int \<Rightarrow> mrapi_rmem_atype \<Rightarrow> mrapi_sys \<Rightarrow> ((u32 \<times> mrapi_status) \<times> mrapi_sys) option" where
  "mrapi_rmem_get rmem_id access sys =
     (if \<not> mrapi_impl_initialized sys then Some ((0, MRAPI_ERR_NODE_NOTINIT), sys)
      else if \<not> mrapi_impl_valid_atype access then Some ((0, MRAPI_ERR_RMEM_TYPENOTVALID), sys)
      else do {
        ((found, rmem), sys) \<leftarrow> mrapi_impl_rmem_get rmem_id sys;
        Some ((rmem, if found then MRAPI_SUCCESS else MRAPI_ERR_RMEM_ID_INVALID), sys)})"

text \<open>The access type of an attach is not looked at.\<close>

definition mrapi_rmem_attach :: "u32 \<Rightarrow> mrapi_rmem_atype \<Rightarrow> mrapi_sys \<Rightarrow> (mrapi_status \<times> mrapi_sys) option" where
  "mrapi_rmem_attach rmem access sys =
     (if \<not> mrapi_impl_initialized sys then Some (MRAPI_ERR_NODE_NOTINIT, sys)
      else do {
        (ok, sys) \<leftarrow> mrapi_impl_valid_rmem_hndl rmem sys;
        if \<not> ok then Some (MRAPI_ERR_RMEM_INVALID, sys)
        else do {
          (rc, sys) \<leftarrow> mrapi_impl_rmem_attach rmem sys;
          Some (if rc then MRAPI_SUCCESS else MRAPI_ERR_RMEM_TYPENOTVALID, sys)}})"

definition mrapi_rmem_detach :: "u32 \<Rightarrow> mrapi_sys \<Rightarrow> (mrapi_status \<times> mrapi_sys) option" where
  "mrapi_rmem_detach rmem sys =
     (if \<not> mrapi_impl_initialized sys then Some (MRAPI_ERR_NODE_NOTINIT, sys)
      else do {
        (ok, sys) \<leftarrow> mrapi_impl_valid_rmem_hndl rmem sys;
        if ok then do {
          (rc, sys) \<leftarrow> mrapi_impl_rmem_detach rmem sys;
          Some (if rc then MRAPI_SUCCESS else MRAPI_ERR_RMEM_INVALID, sys)}
        else Some (MRAPI_ERR_RMEM_INVALID, sys)})"

text \<open>The status is left alone when a delete fails, which it never does.\<close>

definition mrapi_rmem_delete :: "u32 \<Rightarrow> mrapi_status \<Rightarrow> mrapi_sys \<Rightarrow> (mrapi_status \<times> mrapi_sys) option" where
  "mrapi_rmem_delete rmem status sys =
     (if \<not> mrapi_impl_initialized sys then Some (MRAPI_ERR_NODE_NOTINIT, sys)
      else do {
        (ok, sys) \<leftarrow> mrapi_impl_valid_rmem_hndl rmem sys;
        if \<not> ok then Some (MRAPI_ERR_RMEM_INVALID, sys)
        else do {
          (rc, sys) \<leftarrow> mrapi_impl_rmem_delete rmem sys;
          Some (if rc then MRAPI_SUCCESS else status, sys)}})"

text \<open>The checks before an access: the status of the first that fails.\<close>

definition rmem_access_check :: "u32 \<Rightarrow> u32 \<Rightarrow> u32 \<Rightarrow> u32 \<Rightarrow> mrapi_sys \<Rightarrow> (mrapi_status \<times> mrapi_sys) option" where
  "rmem_access_check rmem bytes rmem_stride local_stride sys =
     (if \<not> mrapi_impl_initialized sys then Some (MRAPI_ERR_NODE_NOTINIT, sys)
      else do {
        (ok, sys) \<leftarrow> mrapi_impl_valid_rmem_hndl rmem sys;
        if \<not> ok then Some (MRAPI_ERR_RMEM_INVALID, sys)
        else if rmem_stride < bytes \<or> local_stride < bytes then Some (MRAPI_ERR_RMEM_STRIDE, sys)
        else do {
          (attached, sys) \<leftarrow> mrapi_impl_rmem_attached rmem sys;
          Some (if \<not> attached then MRAPI_ERR_RMEM_NOTATTACHED else MRAPI_SUCCESS, sys)}})"

text \<open>The result of the blocking access is dropped: its status is success whether it was made or not.\<close>

definition mrapi_rmem_read ::
  "u32 \<Rightarrow> u32 \<Rightarrow> addr \<Rightarrow> u32 \<Rightarrow> u32 \<Rightarrow> u32 \<Rightarrow> u32 \<Rightarrow> u32 \<Rightarrow> memory \<Rightarrow> mrapi_sys \<Rightarrow> ((mrapi_status \<times> memory) \<times> mrapi_sys) option" where
  "mrapi_rmem_read rmem rmem_offset local_buf local_offset bytes num_strides rmem_stride local_stride mem sys = do {
     (status, sys) \<leftarrow> rmem_access_check rmem bytes rmem_stride local_stride sys;
     if status \<noteq> MRAPI_SUCCESS then Some ((status, mem), sys)
     else do {
       ((rc, mem), sys) \<leftarrow> mrapi_impl_rmem_read rmem rmem_offset local_buf local_offset bytes num_strides rmem_stride local_stride mem sys;
       Some ((status, mem), sys)}}"

definition mrapi_rmem_write ::
  "u32 \<Rightarrow> u32 \<Rightarrow> addr \<Rightarrow> u32 \<Rightarrow> u32 \<Rightarrow> u32 \<Rightarrow> u32 \<Rightarrow> u32 \<Rightarrow> memory \<Rightarrow> mrapi_sys \<Rightarrow> ((mrapi_status \<times> memory) \<times> mrapi_sys) option" where
  "mrapi_rmem_write rmem rmem_offset local_buf local_offset bytes num_strides rmem_stride local_stride mem sys = do {
     (status, sys) \<leftarrow> rmem_access_check rmem bytes rmem_stride local_stride sys;
     if status \<noteq> MRAPI_SUCCESS then Some ((status, mem), sys)
     else do {
       ((rc, mem), sys) \<leftarrow> mrapi_impl_rmem_write rmem rmem_offset local_buf local_offset bytes num_strides rmem_stride local_stride mem sys;
       Some ((status, mem), sys)}}"

text \<open>The request that the application passes is written only when there is one.\<close>

definition mrapi_rmem_read_i ::
  "u32 \<Rightarrow> u32 \<Rightarrow> addr \<Rightarrow> u32 \<Rightarrow> u32 \<Rightarrow> u32 \<Rightarrow> u32 \<Rightarrow> u32 \<Rightarrow> memory \<Rightarrow> mrapi_sys \<Rightarrow>
    ((u32 option \<times> mrapi_status \<times> memory) \<times> mrapi_sys) option" where
  "mrapi_rmem_read_i rmem rmem_offset local_buf local_offset bytes num_strides rmem_stride local_stride mem sys = do {
     (status, sys) \<leftarrow> rmem_access_check rmem bytes rmem_stride local_stride sys;
     if status \<noteq> MRAPI_SUCCESS then Some ((None, status, mem), sys)
     else do {
       ((rc, request, status, mem), sys) \<leftarrow>
         mrapi_impl_rmem_read_i rmem rmem_offset local_buf local_offset bytes num_strides rmem_stride local_stride status mem sys;
       Some ((Some request, status, mem), sys)}}"

definition mrapi_rmem_write_i ::
  "u32 \<Rightarrow> u32 \<Rightarrow> addr \<Rightarrow> u32 \<Rightarrow> u32 \<Rightarrow> u32 \<Rightarrow> u32 \<Rightarrow> u32 \<Rightarrow> memory \<Rightarrow> mrapi_sys \<Rightarrow>
    ((u32 option \<times> mrapi_status \<times> memory) \<times> mrapi_sys) option" where
  "mrapi_rmem_write_i rmem rmem_offset local_buf local_offset bytes num_strides rmem_stride local_stride mem sys = do {
     (status, sys) \<leftarrow> rmem_access_check rmem bytes rmem_stride local_stride sys;
     if status \<noteq> MRAPI_SUCCESS then Some ((None, status, mem), sys)
     else do {
       ((rc, request, status, mem), sys) \<leftarrow>
         mrapi_impl_rmem_write_i rmem rmem_offset local_buf local_offset bytes num_strides rmem_stride local_stride status mem sys;
       Some ((Some request, status, mem), sys)}}"

text \<open>Flushing and synchronizing are not supported; the test of the attachment is made all the same.\<close>

definition mrapi_rmem_flush :: "u32 \<Rightarrow> mrapi_sys \<Rightarrow> (mrapi_status \<times> mrapi_sys) option" where
  "mrapi_rmem_flush rmem sys =
     (if \<not> mrapi_impl_initialized sys then Some (MRAPI_ERR_NODE_NOTINIT, sys)
      else do {
        (attached, sys) \<leftarrow> mrapi_impl_rmem_attached rmem sys;
        Some (if \<not> attached then MRAPI_ERR_RMEM_NOTATTACHED else MRAPI_ERR_NOT_SUPPORTED, sys)})"

definition mrapi_rmem_sync :: "u32 \<Rightarrow> mrapi_sys \<Rightarrow> (mrapi_status \<times> mrapi_sys) option" where
  "mrapi_rmem_sync rmem sys =
     (if \<not> mrapi_impl_initialized sys then Some (MRAPI_ERR_NODE_NOTINIT, sys)
      else do {
        (attached, sys) \<leftarrow> mrapi_impl_rmem_attached rmem sys;
        Some (if \<not> attached then MRAPI_ERR_RMEM_NOTATTACHED else MRAPI_ERR_NOT_SUPPORTED, sys)})"

end
