(* ===== verification/MRAPI_Shmem.thy ===== *)
theory MRAPI_Shmem
  imports MRAPI_Rmem
begin

text \<open>
  Shared memory of the resource layer (\<open>mrapi_impl_spec_shmem.c\<close>, \<open>mrapi_shmem.c\<close>): named segments of
  the operating system, which nodes attach to and detach from and which are counted per node. What the operating system
  answers is the parameter \<open>os\<close>: the identifier of a new segment (\<open>-1\<close> on failure), the address of an attached one
  (0 is the null pointer), and whether detaching and removing succeed.
\<close>

record shmem_calls =
  sys_shmem_create :: "u32 \<Rightarrow> u32 \<Rightarrow> u32"
  sys_shmem_attach :: "u32 \<Rightarrow> addr"
  sys_shmem_detach :: "addr \<Rightarrow> bool"
  sys_shmem_delete :: "u32 \<Rightarrow> bool"

abbreviation upd_shmem :: "nat \<Rightarrow> (mrapi_shmem \<Rightarrow> mrapi_shmem) \<Rightarrow> mrapi_database \<Rightarrow> mrapi_database" where
  "upd_shmem s f db \<equiv> db\<lparr>m_shmems := (m_shmems db)(s := f (m_shmems db s))\<rparr>"

definition shmem_index :: "u32 \<Rightarrow> nat option" where
  "shmem_index shmem = do {
     s \<leftarrow> mrapi_impl_decode_hndl shmem;
     if s < MRAPI_MAX_SHMEMS then Some s else None}"

text \<open>Whether the node at an index pair is logged as a user of a segment.\<close>

definition shmem_user :: "mrapi_database \<Rightarrow> nat \<Rightarrow> nat \<Rightarrow> nat \<Rightarrow> byte" where
  "shmem_user db d n s = n_shmems (d_nodes (m_domains db d) n) s"

abbreviation log_user :: "nat \<Rightarrow> nat \<Rightarrow> nat \<Rightarrow> byte \<Rightarrow> mrapi_database \<Rightarrow> mrapi_database" where
  "log_user d n s v db \<equiv> upd_mnode d n (\<lambda>nd. nd\<lparr>n_shmems := (n_shmems nd)(s := v)\<rparr>) db"

section \<open>The implementation\<close>

definition mrapi_impl_shmem_validID :: "u32 \<Rightarrow> bool" where
  "mrapi_impl_shmem_validID shmem = True"

definition mrapi_impl_valid_shmem_hndl :: "u32 \<Rightarrow> mrapi_sys \<Rightarrow> (bool \<times> mrapi_sys) option" where
  "mrapi_impl_valid_shmem_hndl shmem = with_section Shmems_semid (\<lambda>sys.
     Some (case mrapi_impl_decode_hndl shmem of
       None \<Rightarrow> False | Some s \<Rightarrow> s < MRAPI_MAX_SHMEMS \<and> m_valid (m_shmems (mdb sys) s), sys))"

definition mrapi_impl_shmem_attached :: "u32 \<Rightarrow> mrapi_sys \<Rightarrow> (bool \<times> mrapi_sys) option" where
  "mrapi_impl_shmem_attached shmem = with_section Shmems_semid (\<lambda>sys. do {
     (node_id, n, domain_id, d) \<leftarrow> mrapi_impl_whoami sys;
     (case mrapi_impl_decode_hndl shmem of
        None \<Rightarrow> Some (False, sys)
      | Some s \<Rightarrow> if s < MRAPI_MAX_SHMEMS
          then Some (m_valid (m_shmems (mdb sys) s) \<and> shmem_user (mdb sys) (unat d) (unat n) s = 1, sys) else None)})"

definition shmem_of_key :: "u32 \<Rightarrow> mrapi_database \<Rightarrow> nat" where
  "shmem_of_key key db = for_first (\<lambda>s. m_valid (m_shmems db s) \<and> m_key (m_shmems db s) = key) 0 MRAPI_MAX_SHMEMS"

definition mrapi_impl_shmem_exists :: "u32 \<Rightarrow> mrapi_sys \<Rightarrow> (bool \<times> mrapi_sys) option" where
  "mrapi_impl_shmem_exists shmemkey = with_section Shmems_semid (\<lambda>sys.
     Some (shmem_of_key shmemkey (mdb sys) \<noteq> MRAPI_MAX_SHMEMS, sys))"

definition mrapi_impl_shmem_get :: "u32 \<Rightarrow> mrapi_sys \<Rightarrow> ((bool \<times> u32) \<times> mrapi_sys) option" where
  "mrapi_impl_shmem_get key = with_section Shmems_semid (\<lambda>sys.
     let s = shmem_of_key key (mdb sys)
     in Some ((s \<noteq> MRAPI_MAX_SHMEMS, mrapi_impl_encode_hndl (word_of_nat s)), sys))"

definition mrapi_impl_shmem_create ::
  "shmem_calls \<Rightarrow> u32 \<Rightarrow> u32 \<Rightarrow> mrapi_attributes option \<Rightarrow> mrapi_sys \<Rightarrow> ((u32 \<times> mrapi_status) \<times> mrapi_sys) option" where
  "mrapi_impl_shmem_create os key len attrs = with_section Shmems_semid (\<lambda>sys. do {
     (node_id, n, domain_id, d) \<leftarrow> mrapi_impl_whoami sys;
     let db = mdb sys;
     let none = mrapi_impl_encode_hndl (word_of_nat MRAPI_MAX_SHMEMS);
     if unat (num_shmems db) = MRAPI_MAX_SHMEMS then Some ((none, MRAPI_ERR_MEM_LIMIT), sys)
     else if shmem_of_key key db \<noteq> MRAPI_MAX_SHMEMS then Some ((none, MRAPI_ERR_SHM_EXISTS), sys)
     else do {
       let id = sys_shmem_create os key len;
       if id = - 1 then Some ((none, MRAPI_ERR_MEM_LIMIT), sys)
       else do {
         let s = for_first (\<lambda>s. \<not> m_valid (m_shmems db s)) 0 MRAPI_MAX_SHMEMS;
         let db' = (if s = MRAPI_MAX_SHMEMS then db
                    else (upd_shmem s (\<lambda>_. zero_shmem\<lparr>m_key := key, m_id := id, m_valid := True, m_addr := 0,
                            m_attributes := sem_attributes_of attrs (m_attributes zero_shmem)\<rparr>) db)\<lparr>num_shmems := num_shmems db + 1\<rparr>);
         Some ((mrapi_impl_encode_hndl (word_of_nat s), MRAPI_SUCCESS), sys\<lparr>mdb := db'\<rparr>)}}})"

definition mrapi_impl_shmem_init_attributes :: "mrapi_attributes \<Rightarrow> mrapi_attributes" where
  "mrapi_impl_shmem_init_attributes a = a\<lparr>ext_error_checking := 0, shared_across_domains := 1\<rparr>"

text \<open>
  The application's attribute is the bytes it points to; a copy of more bytes than there are is undefined (\<open>None\<close>). Reading
  an attribute gives its bytes, and takes no section.
\<close>

definition MRAPI_SHMEM_RESOURCE :: u32 where "MRAPI_SHMEM_RESOURCE = 3"
definition MRAPI_SHMEM_ADDRESS :: u32 where "MRAPI_SHMEM_ADDRESS = 4"
definition MRAPI_SHMEM_SIZE :: u32 where "MRAPI_SHMEM_SIZE = 5"

definition write_field :: "nat \<Rightarrow> (byte list \<Rightarrow> mrapi_attributes) \<Rightarrow> byte list \<Rightarrow> nat \<Rightarrow> mrapi_attributes \<Rightarrow> (mrapi_attributes \<times> mrapi_status) option" where
  "write_field size_of put attribute attr_size a =
     (if attr_size \<noteq> size_of then Some (a, MRAPI_ERR_ATTR_SIZE)
      else if length attribute < attr_size then None
      else Some (put (take attr_size attribute), MRAPI_SUCCESS))"

definition mrapi_impl_shmem_set_attribute ::
  "mrapi_attributes \<Rightarrow> u32 \<Rightarrow> byte list \<Rightarrow> nat \<Rightarrow> mrapi_sys \<Rightarrow> ((mrapi_attributes \<times> mrapi_status) \<times> mrapi_sys) option" where
  "mrapi_impl_shmem_set_attribute a num attribute attr_size = with_section Shmems_semid (\<lambda>sys. do {
     r \<leftarrow> (if num = MRAPI_ERROR_EXT then write_field 1 (\<lambda>bs. a\<lparr>ext_error_checking := bs ! 0\<rparr>) attribute attr_size a
          else if num = MRAPI_DOMAIN_SHARED then write_field 1 (\<lambda>bs. a\<lparr>shared_across_domains := bs ! 0\<rparr>) attribute attr_size a
          else if num = MRAPI_SHMEM_RESOURCE then write_field sizeof_mrapi_resource_t (\<lambda>bs. a\<lparr>mem_resource := bs\<rparr>) attribute attr_size a
          else if num = MRAPI_SHMEM_ADDRESS then write_field sizeof_mem_addr (\<lambda>bs. a\<lparr>mem_addr := bs\<rparr>) attribute attr_size a
          else if num = MRAPI_SHMEM_SIZE then write_field sizeof_mem_size (\<lambda>bs. a\<lparr>mem_size := bs\<rparr>) attribute attr_size a
          else Some (a, MRAPI_ERR_ATTR_NUM));
     Some (r, sys)})"

definition read_field :: "nat \<Rightarrow> byte list \<Rightarrow> nat \<Rightarrow> byte list option \<times> mrapi_status" where
  "read_field size_of bs attr_size = (if attr_size \<noteq> size_of then (None, MRAPI_ERR_ATTR_SIZE) else (Some bs, MRAPI_SUCCESS))"

definition mrapi_impl_shmem_get_attribute :: "u32 \<Rightarrow> u32 \<Rightarrow> nat \<Rightarrow> mrapi_sys \<Rightarrow> (byte list option \<times> mrapi_status) option" where
  "mrapi_impl_shmem_get_attribute shmem num attr_size sys = do {
     s \<leftarrow> shmem_index shmem;
     let a = m_attributes (m_shmems (mdb sys) s);
     Some (if num = MRAPI_ERROR_EXT then read_field 1 [ext_error_checking a] attr_size
           else if num = MRAPI_DOMAIN_SHARED then read_field 1 [shared_across_domains a] attr_size
           else if num = MRAPI_SHMEM_RESOURCE then read_field sizeof_mrapi_resource_t (mem_resource a) attr_size
           else if num = MRAPI_SHMEM_ADDRESS then read_field sizeof_mem_addr (mem_addr a) attr_size
           else if num = MRAPI_SHMEM_SIZE then read_field sizeof_mem_size (mem_size a) attr_size
           else (None, MRAPI_ERR_ATTR_NUM))}"

text \<open>The address is written and the node is logged whether the operating system could attach or not.\<close>

definition mrapi_impl_shmem_attach :: "shmem_calls \<Rightarrow> u32 \<Rightarrow> mrapi_sys \<Rightarrow> (addr \<times> mrapi_sys) option" where
  "mrapi_impl_shmem_attach os shmem = with_section Shmems_semid (\<lambda>sys. do {
     (node_id, n, domain_id, d) \<leftarrow> mrapi_impl_whoami sys;
     s \<leftarrow> shmem_index shmem;
     let address = sys_shmem_attach os (m_id (m_shmems (mdb sys) s));
     let db = upd_shmem s (\<lambda>e. e\<lparr>m_addr := address\<rparr>) (mdb sys);
     let db = (if shmem_user db (unat d) (unat n) s = 0
               then upd_shmem s (\<lambda>e. e\<lparr>m_refs := m_refs e + 1\<rparr>) (log_user (unat d) (unat n) s 1 db) else db);
     Some (address, sys\<lparr>mdb := db\<rparr>)})"

definition mrapi_impl_shmem_delete :: "shmem_calls \<Rightarrow> u32 \<Rightarrow> mrapi_sys \<Rightarrow> (bool \<times> mrapi_sys) option" where
  "mrapi_impl_shmem_delete os shmem = with_section Shmems_semid (\<lambda>sys. do {
     s \<leftarrow> shmem_index shmem;
     if sys_shmem_delete os (m_id (m_shmems (mdb sys) s))
     then Some (True, sys\<lparr>mdb := (upd_shmem s (\<lambda>e. e\<lparr>m_valid := False\<rparr>) (mdb sys))\<lparr>num_shmems := num_shmems (mdb sys) - 1\<rparr>\<rparr>)
     else Some (False, sys)})"

text \<open>The node is the only valid one of its process.\<close>

definition last_of_process :: "int \<Rightarrow> nat \<Rightarrow> nat \<Rightarrow> mrapi_database \<Rightarrow> bool" where
  "last_of_process pid d n db = list_all (\<lambda>i. list_all (\<lambda>j.
     (d = i \<and> n = j) \<or> \<not> (n_valid (d_nodes (m_domains db i) j) \<and> n_pid (d_nodes (m_domains db i) j) = pid))
     [0..<MRAPI_MAX_NODES]) [0..<MRAPI_MAX_DOMAINS]"

definition mrapi_impl_shmem_detach :: "shmem_calls \<Rightarrow> int \<Rightarrow> u32 \<Rightarrow> mrapi_sys \<Rightarrow> (bool \<times> mrapi_sys) option" where
  "mrapi_impl_shmem_detach os pid shmem = with_section Shmems_semid (\<lambda>sys. do {
     (node_id, n, domain_id, d) \<leftarrow> mrapi_impl_whoami sys;
     s \<leftarrow> shmem_index shmem;
     let db = upd_shmem s (\<lambda>e. e\<lparr>m_refs := m_refs e - 1\<rparr>) (log_user (unat d) (unat n) s 0 (mdb sys));
     let rc = (if last_of_process pid (unat d) (unat n) db then sys_shmem_detach os (m_addr (m_shmems db s)) else True);
     Some (rc, sys\<lparr>mdb := db\<rparr>)})"

section \<open>The application interface\<close>

text \<open>A status of \<open>None\<close> is one that the call leaves as it was.\<close>

definition mrapi_shmem_create ::
  "shmem_calls \<Rightarrow> u32 \<Rightarrow> u32 \<Rightarrow> mrapi_attributes option \<Rightarrow> mrapi_sys \<Rightarrow> ((u32 \<times> mrapi_status) \<times> mrapi_sys) option" where
  "mrapi_shmem_create os shmem_id len attrs sys =
     (if \<not> mrapi_impl_initialized sys then Some ((0, MRAPI_ERR_NODE_NOTINIT), sys)
      else if \<not> mrapi_impl_shmem_validID shmem_id then Some ((0, MRAPI_ERR_SHM_ID_INVALID), sys)
      else do {
        (found, sys) \<leftarrow> mrapi_impl_shmem_exists shmem_id sys;
        if found then Some ((0, MRAPI_ERR_SHM_EXISTS), sys)
        else mrapi_impl_shmem_create os shmem_id len attrs sys})"

definition mrapi_shmem_init_attributes :: "mrapi_attributes option \<Rightarrow> mrapi_attributes option \<times> mrapi_status option" where
  "mrapi_shmem_init_attributes attrs = (case attrs of None \<Rightarrow> (None, Some MRAPI_ERR_PARAMETER)
   | Some a \<Rightarrow> (Some (mrapi_impl_shmem_init_attributes a), None))"

definition mrapi_shmem_set_attribute ::
  "mrapi_attributes option \<Rightarrow> u32 \<Rightarrow> byte list \<Rightarrow> nat \<Rightarrow> mrapi_sys \<Rightarrow> ((mrapi_attributes option \<times> mrapi_status) \<times> mrapi_sys) option" where
  "mrapi_shmem_set_attribute attrs num attribute attr_size sys =
     (if \<not> mrapi_impl_initialized sys then Some ((attrs, MRAPI_ERR_NODE_NOTINIT), sys)
      else case attrs of None \<Rightarrow> Some ((None, MRAPI_ERR_PARAMETER), sys)
      | Some a \<Rightarrow> map_option (\<lambda>((a, status), sys). ((Some a, status), sys)) (mrapi_impl_shmem_set_attribute a num attribute attr_size sys))"

definition mrapi_shmem_get_attribute :: "u32 \<Rightarrow> u32 \<Rightarrow> bool \<Rightarrow> nat \<Rightarrow> mrapi_sys \<Rightarrow> ((byte list option \<times> mrapi_status) \<times> mrapi_sys) option" where
  "mrapi_shmem_get_attribute shmem num present attr_size sys =
     (if \<not> present then Some ((None, MRAPI_ERR_PARAMETER), sys)
      else do {
        (ok, sys) \<leftarrow> mrapi_impl_valid_shmem_hndl shmem sys;
        if \<not> ok then Some ((None, MRAPI_ERR_SHM_INVALID), sys)
        else do {
          r \<leftarrow> mrapi_impl_shmem_get_attribute shmem num attr_size sys;
          Some (r, sys)}})"

definition mrapi_shmem_get :: "u32 \<Rightarrow> mrapi_sys \<Rightarrow> ((u32 \<times> mrapi_status) \<times> mrapi_sys) option" where
  "mrapi_shmem_get shmem_id sys =
     (if \<not> mrapi_impl_initialized sys then Some ((0, MRAPI_ERR_NODE_NOTINIT), sys)
      else do {
        (found, sys) \<leftarrow> mrapi_impl_shmem_exists shmem_id sys;
        if \<not> found then Some ((0, MRAPI_ERR_SHM_ID_INVALID), sys)
        else do {
          ((found, shmem), sys) \<leftarrow> mrapi_impl_shmem_get shmem_id sys;
          Some ((shmem, if found then MRAPI_SUCCESS else MRAPI_ERR_NODE_NOTINIT), sys)}})"

definition mrapi_shmem_attach :: "shmem_calls \<Rightarrow> u32 \<Rightarrow> mrapi_sys \<Rightarrow> ((addr \<times> mrapi_status) \<times> mrapi_sys) option" where
  "mrapi_shmem_attach os shmem sys =
     (if \<not> mrapi_impl_initialized sys then Some ((0, MRAPI_ERR_NODE_NOTINIT), sys)
      else do {
        (ok, sys) \<leftarrow> mrapi_impl_valid_shmem_hndl shmem sys;
        if \<not> ok then Some ((0, MRAPI_ERR_SHM_INVALID), sys)
        else do {
          (attached, sys) \<leftarrow> mrapi_impl_shmem_attached shmem sys;
          if attached then Some ((0, MRAPI_ERR_SHM_ATTACHED), sys)
          else do {
            (address, sys) \<leftarrow> mrapi_impl_shmem_attach os shmem sys;
            Some ((address, if address \<noteq> 0 then MRAPI_SUCCESS else MRAPI_ERR_SHM_INVALID), sys)}}})"

definition mrapi_shmem_detach :: "shmem_calls \<Rightarrow> int \<Rightarrow> u32 \<Rightarrow> mrapi_sys \<Rightarrow> (mrapi_status \<times> mrapi_sys) option" where
  "mrapi_shmem_detach os pid shmem sys =
     (if \<not> mrapi_impl_initialized sys then Some (MRAPI_ERR_NODE_NOTINIT, sys)
      else do {
        (ok, sys) \<leftarrow> mrapi_impl_valid_shmem_hndl shmem sys;
        if \<not> ok then Some (MRAPI_ERR_SHM_INVALID, sys)
        else do {
          (attached, sys) \<leftarrow> mrapi_impl_shmem_attached shmem sys;
          if \<not> attached then Some (MRAPI_ERR_SHM_NOTATTACHED, sys)
          else do {
            (rc, sys) \<leftarrow> mrapi_impl_shmem_detach os pid shmem sys;
            Some (if rc then MRAPI_SUCCESS else MRAPI_ERR_SHM_INVALID, sys)}}})"

definition mrapi_shmem_delete :: "shmem_calls \<Rightarrow> u32 \<Rightarrow> mrapi_sys \<Rightarrow> (mrapi_status option \<times> mrapi_sys) option" where
  "mrapi_shmem_delete os shmem sys =
     (if \<not> mrapi_impl_initialized sys then Some (Some MRAPI_ERR_NODE_NOTINIT, sys)
      else do {
        (ok, sys) \<leftarrow> mrapi_impl_valid_shmem_hndl shmem sys;
        if \<not> ok then Some (Some MRAPI_ERR_SHM_INVALID, sys)
        else do {
          (rc, sys) \<leftarrow> mrapi_impl_shmem_delete os shmem sys;
          Some (if rc then Some MRAPI_SUCCESS else None, sys)}})"

end
