(* ===== verification/MRAPI_Nodes.thy ===== *)
theory MRAPI_Nodes
  imports MRAPI_Shmem
begin

text \<open>
  Start and stop of the nodes of the resource layer (\<open>mrapi_impl_spec_initialize.c\<close>,
  \<open>mrapi_impl_spec_finalize.c\<close>, \<open>mrapi_initialize.c\<close>): attaching the database, the place of a node in it, the
  identity of the thread, and what a node gives back when it stops. What the operating system answers is a parameter: whether the
  database can be attached and whether the global semaphore can be had. A counter that stays up makes the caller wait for
  ever, as does a semaphore that the caller holds already (\<open>None\<close>). Signal handlers are not registered.
\<close>

section \<open>Starting\<close>

record boot_calls =
  database_attaches :: bool
  semaphore_created :: bool

text \<open>The entry of the domain, in use or not, or the first that is not in use.\<close>

definition domain_slot :: "u32 \<Rightarrow> mrapi_database \<Rightarrow> nat" where
  "domain_slot domain_id db =
     (let d = for_first (\<lambda>d. d_domain_id (m_domains db d) = domain_id) 0 MRAPI_MAX_DOMAINS
      in if d = MRAPI_MAX_DOMAINS then for_first (\<lambda>d. \<not> d_valid (m_domains db d)) 0 MRAPI_MAX_DOMAINS else d)"

definition node_entry_of :: "nat \<Rightarrow> u32 \<Rightarrow> mrapi_database \<Rightarrow> nat" where
  "node_entry_of d node_id db = for_first (\<lambda>n. n_valid (d_nodes (m_domains db d) n) \<and> n_node_num (d_nodes (m_domains db d) n) = node_id) 0 MRAPI_MAX_NODES"

definition free_node_entry :: "nat \<Rightarrow> mrapi_database \<Rightarrow> nat" where
  "free_node_entry d db = for_first (\<lambda>n. \<not> n_valid (d_nodes (m_domains db d) n)) 0 MRAPI_MAX_NODES"

definition place_node :: "u32 \<Rightarrow> u32 \<Rightarrow> int \<Rightarrow> nat \<Rightarrow> nat \<Rightarrow> mrapi_database \<Rightarrow> mrapi_database" where
  "place_node domain_id node_id pid d n db = db\<lparr>m_domains := (m_domains db)(d := (m_domains db d)
     \<lparr>d_domain_id := domain_id, d_valid := True, d_num_nodes := d_num_nodes (m_domains db d) + 1,
      d_nodes := (d_nodes (m_domains db d))(n := (d_nodes (m_domains db d) n)\<lparr>n_valid := True, n_node_num := node_id, n_pid := pid\<rparr>)\<rparr>)\<rparr>"

text \<open>The third step of the start, with the global semaphore held: whether the node was added, and the status.\<close>

definition add_mrapi_node :: "u32 \<Rightarrow> u32 \<Rightarrow> int \<Rightarrow> mrapi_status \<Rightarrow> mrapi_sys \<Rightarrow> (bool \<times> mrapi_status) \<times> mrapi_sys" where
  "add_mrapi_node domain_id node_id pid status sys =
     (let db = mdb sys; d = domain_slot domain_id db
      in if d = MRAPI_MAX_DOMAINS then ((False, status), sys)
         else if node_entry_of d node_id db \<noteq> MRAPI_MAX_NODES then ((False, MRAPI_ERR_NODE_INITFAILED), sys)
         else
           let n = free_node_entry d db
           in if n = MRAPI_MAX_NODES then ((False, status), sys)
              else ((True, status), sys\<lparr>mdb := place_node domain_id node_id pid d n db, mrapi_pid := pid, mrapi_nindex := word_of_nat n,
                 mrapi_dindex := word_of_nat d, mrapi_domain_id := domain_id, mrapi_node_id := node_id\<rparr>))"

text \<open>A start that gets the semaphore but no database keeps the semaphore.\<close>

definition mrapi_impl_initialize ::
  "boot_calls \<Rightarrow> int \<Rightarrow> u32 \<Rightarrow> u32 \<Rightarrow> mrapi_status \<Rightarrow> mrapi_sys \<Rightarrow> ((bool \<times> mrapi_status) \<times> mrapi_sys) option" where
  "mrapi_impl_initialize os pid domain_id node_id status sys =
     (if mrapi_initialize_ctr sys \<noteq> 0 \<or> mrapi_finalize_ctr sys > 0 then None
      else
        let sys = sys\<lparr>mrapi_db_attached := mrapi_db_attached sys \<or> database_attaches os\<rparr>
        in if \<not> semaphore_created os then Some ((False, status), sys)
           else if Semid \<in> set (held_sections sys) then None
           else
             let sys = sys\<lparr>held_sections := Semid # held_sections sys\<rparr>
             in if \<not> mrapi_db_attached sys then Some ((False, status), sys)
                else do {
                  let ((rc, status), sys) = add_mrapi_node domain_id node_id pid status (sys\<lparr>sections_alive := True\<rparr>);
                  sys \<leftarrow> mrapi_impl_access_database_post Semid sys;
                  Some ((rc, status), sys)})"

definition mrapi_impl_valid_parameters_param :: "int \<Rightarrow> bool" where
  "mrapi_impl_valid_parameters_param mrapi_parameters = True"

definition mrapi_impl_valid_node_num :: "u32 \<Rightarrow> bool" where
  "mrapi_impl_valid_node_num node_num = True"

definition mrapi_impl_valid_domain_num :: "u32 \<Rightarrow> bool" where
  "mrapi_impl_valid_domain_num domain_num = True"

text \<open>\<open>info\<close> says whether the application passed a place for the version.\<close>

definition mrapi_initialize :: "boot_calls \<Rightarrow> int \<Rightarrow> u32 \<Rightarrow> u32 \<Rightarrow> int \<Rightarrow> bool \<Rightarrow> mrapi_sys \<Rightarrow> (mrapi_status \<times> mrapi_sys) option" where
  "mrapi_initialize os pid domain_id node_id init_parameters info sys =
     (if \<not> mrapi_impl_valid_parameters_param init_parameters then Some (MRAPI_ERR_PARAMETER, sys)
      else if \<not> info then Some (MRAPI_ERR_PARAMETER, sys)
      else if \<not> mrapi_impl_valid_node_num node_id then Some (MRAPI_ERR_NODE_INVALID, sys)
      else if \<not> mrapi_impl_valid_domain_num domain_id then Some (MRAPI_ERR_DOMAIN_INVALID, sys)
      else if mrapi_impl_initialized sys then Some (MRAPI_ERR_NODE_INITIALIZED, sys)
      else do {
        ((rc, status), sys) \<leftarrow> mrapi_impl_initialize os pid domain_id node_id MRAPI_ERR_NODE_INITFAILED sys;
        Some (if rc then MRAPI_SUCCESS else status, sys)})"

section \<open>Stopping\<close>

text \<open>
  What a node gives back: its count in every valid segment and in every valid lock. A lock that no node counts any longer goes out
  of use; a segment is detached and removed in the operating system, without a trace in the database.
\<close>

definition leave_shmem :: "nat \<Rightarrow> nat \<Rightarrow> nat \<Rightarrow> mrapi_database \<Rightarrow> mrapi_database" where
  "leave_shmem d n s db =
     (if m_valid (m_shmems db s) \<and> shmem_user db d n s = 1 then upd_shmem s (\<lambda>e. e\<lparr>m_refs := m_refs e - 1\<rparr>) db else db)"

definition leave_sem :: "nat \<Rightarrow> nat \<Rightarrow> nat \<Rightarrow> mrapi_database \<Rightarrow> mrapi_database" where
  "leave_sem d n s db =
     (if s_valid (m_sems db s) then
        let db = (if n_sems (d_nodes (m_domains db d) n) s = 1
                  then upd_sem s (\<lambda>e. e\<lparr>s_refs := s_refs e - 1\<rparr>) (upd_mnode d n (\<lambda>nd. nd\<lparr>n_sems := (n_sems nd)(s := 0)\<rparr>) db)
                  else db)
        in if s_refs (m_sems db s) = 0 then upd_sem s (\<lambda>e. e\<lparr>s_valid := False\<rparr>) db else db
      else db)"

definition mrapi_impl_finalize_node_locked :: "nat \<Rightarrow> nat \<Rightarrow> mrapi_database \<Rightarrow> mrapi_database" where
  "mrapi_impl_finalize_node_locked d n db =
     fold (leave_sem d n) [0..<MRAPI_MAX_SEMS] (fold (leave_shmem d n) [0..<MRAPI_MAX_SHMEMS]
       (upd_mnode d n (\<lambda>nd. nd\<lparr>n_valid := False\<rparr>) db))"

definition node_indices :: "(nat \<times> nat) list" where
  "node_indices = List.product [0..<MRAPI_MAX_DOMAINS] [0..<MRAPI_MAX_NODES]"

definition finalize_process :: "int \<Rightarrow> mrapi_database \<Rightarrow> mrapi_database" where
  "finalize_process pid db = fold (\<lambda>(d, n) db.
     if n_valid (d_nodes (m_domains db d) n) \<and> n_pid (d_nodes (m_domains db d) n) = pid then mrapi_impl_finalize_node_locked d n db else db)
     node_indices db"

text \<open>
  The result says whether the last node of all has stopped: then the semaphores and the database are removed. Without a database
  the semaphore is taken and not given back.
\<close>

definition mrapi_impl_free_resources :: "bool \<Rightarrow> int \<Rightarrow> mrapi_sys \<Rightarrow> (bool \<times> mrapi_sys) option" where
  "mrapi_impl_free_resources panic pid sys =
     (if mrapi_finalize_ctr sys \<noteq> 0 \<or> mrapi_initialize_ctr sys > 0 then None
      else do {
        sys \<leftarrow> mrapi_impl_access_database_pre Semid sys;
        if \<not> mrapi_db_attached sys then Some (True, sys)
        else do {
          let db = (case mrapi_impl_whoami sys of None \<Rightarrow> mdb sys
            | Some (node, n, domain, d) \<Rightarrow> mrapi_impl_finalize_node_locked (unat d) (unat n) (mdb sys));
          let db = (if panic then finalize_process pid db else db);
          let valid = (\<lambda>(d, n). n_valid (d_nodes (m_domains db d) n));
          let last_man_standing = list_all (\<lambda>x. \<not> valid x) node_indices;
          let last_for_process = list_all (\<lambda>(d, n). \<not> (valid (d, n) \<and> n_pid (d_nodes (m_domains db d) n) = pid)) node_indices;
          if panic \<and> \<not> last_for_process then None
          else do {
            let sys = sys\<lparr>mdb := (if last_man_standing then zero_database else db), mrapi_db_attached := \<not> last_for_process\<rparr>;
            sys \<leftarrow> mrapi_impl_access_database_post Semid sys;
            Some (last_man_standing, if last_man_standing then sys\<lparr>sections_alive := False\<rparr> else sys)}}})"

definition mrapi_impl_finalize :: "int \<Rightarrow> mrapi_sys \<Rightarrow> (bool \<times> mrapi_sys) option" where
  "mrapi_impl_finalize pid sys = map_option (\<lambda>(l, sys). (True, sys)) (mrapi_impl_free_resources False pid sys)"

definition mrapi_finalize :: "int \<Rightarrow> mrapi_sys \<Rightarrow> (mrapi_status \<times> mrapi_sys) option" where
  "mrapi_finalize pid sys =
     (if \<not> mrapi_impl_initialized sys then Some (MRAPI_ERR_NODE_NOTINIT, sys)
      else do {
        (rc, sys) \<leftarrow> mrapi_impl_finalize pid sys;
        Some (if rc then MRAPI_SUCCESS else MRAPI_ERR_NODE_FINALFAILED, sys)})"

end
