(* ===== verification/MRAPI_Sharing.thy ===== *)
theory MRAPI_Sharing
  imports MRAPI_Nodes MRAPI_Exclusion
begin

text \<open>
  The counts of shared memory: the number of segments in use and, for each, the number of nodes that are attached. They are
  right as long as nobody deletes a segment that others use, which the interface leaves to its users.
\<close>

section \<open>Counting users\<close>

definition node_set :: "(nat \<times> nat) set" where
  "node_set = {..<MRAPI_MAX_DOMAINS} \<times> {..<MRAPI_MAX_NODES}"

definition users_of :: "mrapi_database \<Rightarrow> nat \<Rightarrow> (nat \<times> nat) set" where
  "users_of db s = {x \<in> node_set. shmem_user db (fst x) (snd x) s = 1}"

definition segments_in_use :: "mrapi_database \<Rightarrow> nat set" where
  "segments_in_use db = {s. s < MRAPI_MAX_SHMEMS \<and> m_valid (m_shmems db s)}"

text \<open>
  The invariant: the count of segments and of users, no users of a segment that is not in use, marks that are 0 or 1, and
  different keys.
\<close>

definition shmem_ok :: "mrapi_database \<Rightarrow> bool" where
  "shmem_ok db \<longleftrightarrow> unat (num_shmems db) = card (segments_in_use db) \<and>
     (\<forall>s d n. s < MRAPI_MAX_SHMEMS \<longrightarrow> (d, n) \<in> node_set \<longrightarrow> shmem_user db d n s \<in> {0, 1}) \<and>
     (\<forall>s<MRAPI_MAX_SHMEMS. m_valid (m_shmems db s) \<longrightarrow> unat (m_refs (m_shmems db s)) = card (users_of db s)) \<and>
     (\<forall>s<MRAPI_MAX_SHMEMS. \<not> m_valid (m_shmems db s) \<longrightarrow> users_of db s = {}) \<and>
     inj_on (\<lambda>s. m_key (m_shmems db s)) (segments_in_use db)"

lemma shmem_okI:
  assumes "unat (num_shmems db) = card (segments_in_use db)"
    and "\<And>s d n. s < MRAPI_MAX_SHMEMS \<Longrightarrow> (d, n) \<in> node_set \<Longrightarrow> shmem_user db d n s \<in> {0, 1}"
    and "\<And>s. s < MRAPI_MAX_SHMEMS \<Longrightarrow> m_valid (m_shmems db s) \<Longrightarrow> unat (m_refs (m_shmems db s)) = card (users_of db s)"
    and "\<And>s. s < MRAPI_MAX_SHMEMS \<Longrightarrow> \<not> m_valid (m_shmems db s) \<Longrightarrow> users_of db s = {}"
    and "inj_on (\<lambda>s. m_key (m_shmems db s)) (segments_in_use db)"
  shows "shmem_ok db"
  using assms by (simp add: shmem_ok_def)

lemma shmem_okD:
  assumes "shmem_ok db"
  shows "unat (num_shmems db) = card (segments_in_use db)"
    and "s < MRAPI_MAX_SHMEMS \<Longrightarrow> (d, n) \<in> node_set \<Longrightarrow> shmem_user db d n s \<in> {0, 1}"
    and "s < MRAPI_MAX_SHMEMS \<Longrightarrow> m_valid (m_shmems db s) \<Longrightarrow> unat (m_refs (m_shmems db s)) = card (users_of db s)"
    and "s < MRAPI_MAX_SHMEMS \<Longrightarrow> \<not> m_valid (m_shmems db s) \<Longrightarrow> users_of db s = {}"
    and "inj_on (\<lambda>s. m_key (m_shmems db s)) (segments_in_use db)"
  using assms by (simp_all add: shmem_ok_def)

lemma finite_sets [simp]: "finite node_set" "finite (users_of db s)" "finite (segments_in_use db)"
  by (simp_all add: node_set_def users_of_def segments_in_use_def)

lemma card_users: "card (users_of db s) \<le> 32"
  using card_mono [OF finite_sets(1), of "users_of db s"]
  by (simp add: users_of_def node_set_def MRAPI_MAX_DOMAINS_def MRAPI_MAX_NODES_def)

lemma card_segments: "card (segments_in_use db) \<le> 10"
  using card_mono [of "{..<MRAPI_MAX_SHMEMS}" "segments_in_use db"]
  by (auto simp: segments_in_use_def MRAPI_MAX_SHMEMS_def)

text \<open>Bytes count up and down without wrapping.\<close>

lemma byte_up: "unat (b :: byte) < 255 \<Longrightarrow> unat (b + 1) = unat b + 1"
  by (subst unat_plus_if') simp

lemma byte_down: "0 < unat (b :: byte) \<Longrightarrow> unat (b - 1) = unat b - 1"
  by (subst unat_sub) (simp_all add: word_le_nat_alt)

lemma shmem_user_log [simp]:
  "shmem_user (log_user d n s v db) d' n' s' = (if d' = d \<and> n' = n \<and> s' = s then v else shmem_user db d' n' s')"
  "shmem_user (db\<lparr>m_shmems := x\<rparr>) d' n' s' = shmem_user db d' n' s'"
  "shmem_user (db\<lparr>num_shmems := k\<rparr>) d' n' s' = shmem_user db d' n' s'"
  by (simp_all add: shmem_user_def)

lemma users_log:
  "(d, n) \<in> node_set \<Longrightarrow> users_of (log_user d n s 1 db) t = (if t = s then insert (d, n) (users_of db s) else users_of db t)"
  "users_of (log_user d n s 0 db) t = (if t = s then users_of db s - {(d, n)} else users_of db t)"
  "users_of (db\<lparr>m_shmems := x\<rparr>) t = users_of db t"
  "users_of (db\<lparr>num_shmems := k\<rparr>) t = users_of db t"
  by (auto simp: users_of_def)

section \<open>The updates\<close>

definition attach_user :: "nat \<Rightarrow> nat \<Rightarrow> nat \<Rightarrow> addr \<Rightarrow> mrapi_database \<Rightarrow> mrapi_database" where
  "attach_user d n s a db = upd_shmem s (\<lambda>e. e\<lparr>m_addr := a, m_refs := m_refs e + 1\<rparr>) (log_user d n s 1 db)"

definition detach_user :: "nat \<Rightarrow> nat \<Rightarrow> nat \<Rightarrow> mrapi_database \<Rightarrow> mrapi_database" where
  "detach_user d n s db = upd_shmem s (\<lambda>e. e\<lparr>m_refs := m_refs e - 1\<rparr>) (log_user d n s 0 db)"

definition add_segment :: "nat \<Rightarrow> mrapi_shmem \<Rightarrow> mrapi_database \<Rightarrow> mrapi_database" where
  "add_segment s e db = (upd_shmem s (\<lambda>_. e) db)\<lparr>num_shmems := num_shmems db + 1\<rparr>"

definition drop_segment :: "nat \<Rightarrow> mrapi_database \<Rightarrow> mrapi_database" where
  "drop_segment s db = (upd_shmem s (\<lambda>e. e\<lparr>m_valid := False\<rparr>) db)\<lparr>num_shmems := num_shmems db - 1\<rparr>"

lemma segments_log [simp]: "segments_in_use (log_user d n s v db) = segments_in_use db"
  by (simp add: segments_in_use_def)

lemma attach_ok:
  assumes ok: "shmem_ok db" and s: "s < MRAPI_MAX_SHMEMS" "m_valid (m_shmems db s)" and x: "(d, n) \<in> node_set" "shmem_user db d n s = 0"
  shows "shmem_ok (attach_user d n s a db)"
proof -
  have new: "(d, n) \<notin> users_of db s" using x(2) by (simp add: users_of_def)
  have users: "users_of (attach_user d n s a db) t = (if t = s then insert (d, n) (users_of db s) else users_of db t)" for t
    using x(1) by (simp add: attach_user_def users_log)
  have user: "shmem_user (attach_user d n s a db) d' n' t = (if d' = d \<and> n' = n \<and> t = s then 1 else shmem_user db d' n' t)" for d' n' t
    by (simp add: attach_user_def)
  have segs: "segments_in_use (attach_user d n s a db) = segments_in_use db"
    using s by (auto simp: attach_user_def segments_in_use_def)
  have up: "unat (m_refs (m_shmems db s) + 1) = card (users_of db s) + 1"
    using card_users [of db s] shmem_okD(3) [OF ok s] by (simp add: byte_up)
  have entry: "m_shmems (attach_user d n s a db) t = (if t = s then (m_shmems db s)\<lparr>m_addr := a, m_refs := m_refs (m_shmems db s) + 1\<rparr> else m_shmems db t)" for t
    by (simp add: attach_user_def)
  show ?thesis
  proof (rule shmem_okI; (unfold segs)?)
    show "unat (num_shmems (attach_user d n s a db)) = card (segments_in_use db)"
      using shmem_okD(1) [OF ok] by (simp add: attach_user_def)
    have "m_key (m_shmems (attach_user d n s a db) t) = m_key (m_shmems db t)" for t by (simp add: entry)
    with shmem_okD(5) [OF ok] show "inj_on (\<lambda>t. m_key (m_shmems (attach_user d n s a db) t)) (segments_in_use db)" by simp
  qed (use shmem_okD(2-4) [OF ok] s new up in \<open>auto simp: users user entry split: if_splits\<close>)
qed

lemma detach_ok:
  assumes ok: "shmem_ok db" and s: "s < MRAPI_MAX_SHMEMS" "m_valid (m_shmems db s)" and x: "(d, n) \<in> node_set" "shmem_user db d n s = 1"
  shows "shmem_ok (detach_user d n s db)"
proof -
  have old: "(d, n) \<in> users_of db s" using x by (simp add: users_of_def)
  have users: "users_of (detach_user d n s db) t = (if t = s then users_of db s - {(d, n)} else users_of db t)" for t
    by (simp add: detach_user_def users_log)
  have user: "shmem_user (detach_user d n s db) d' n' t = (if d' = d \<and> n' = n \<and> t = s then 0 else shmem_user db d' n' t)" for d' n' t
    by (simp add: detach_user_def)
  have segs: "segments_in_use (detach_user d n s db) = segments_in_use db"
    using s by (auto simp: detach_user_def segments_in_use_def)
  have "0 < card (users_of db s)" using old by (auto simp: card_gt_0_iff)
  then have down: "unat (m_refs (m_shmems db s) - 1) = card (users_of db s) - 1"
    using shmem_okD(3) [OF ok s] by (simp add: byte_down)
  have entry: "m_shmems (detach_user d n s db) t = (if t = s then (m_shmems db s)\<lparr>m_refs := m_refs (m_shmems db s) - 1\<rparr> else m_shmems db t)" for t
    by (simp add: detach_user_def)
  show ?thesis
  proof (rule shmem_okI; (unfold segs)?)
    show "unat (num_shmems (detach_user d n s db)) = card (segments_in_use db)"
      using shmem_okD(1) [OF ok] by (simp add: detach_user_def)
    have "m_key (m_shmems (detach_user d n s db) t) = m_key (m_shmems db t)" for t by (simp add: entry)
    with shmem_okD(5) [OF ok] show "inj_on (\<lambda>t. m_key (m_shmems (detach_user d n s db) t)) (segments_in_use db)" by simp
  qed (use shmem_okD(2-4) [OF ok] s old down in \<open>auto simp: users user entry split: if_splits\<close>)
qed

lemma add_segment_ok:
  assumes ok: "shmem_ok db" and s: "s < MRAPI_MAX_SHMEMS" "\<not> m_valid (m_shmems db s)"
    and e: "m_valid e" "m_refs e = 0" "\<forall>t<MRAPI_MAX_SHMEMS. m_valid (m_shmems db t) \<longrightarrow> m_key (m_shmems db t) \<noteq> m_key e"
  shows "shmem_ok (add_segment s e db)"
proof -
  have segs: "segments_in_use (add_segment s e db) = insert s (segments_in_use db)"
    using s e(1) by (auto simp: add_segment_def segments_in_use_def)
  have new: "s \<notin> segments_in_use db" using s by (simp add: segments_in_use_def)
  have users: "users_of (add_segment s e db) t = users_of db t" for t by (simp add: add_segment_def users_log)
  have entry: "m_shmems (add_segment s e db) t = (if t = s then e else m_shmems db t)" for t by (simp add: add_segment_def)
  show ?thesis
  proof (rule shmem_okI; (unfold segs)?)
    show "unat (num_shmems (add_segment s e db)) = card (insert s (segments_in_use db))"
      using shmem_okD(1) [OF ok] card_segments [of db] new by (simp add: add_segment_def byte_up)
    show "inj_on (\<lambda>t. m_key (m_shmems (add_segment s e db) t)) (insert s (segments_in_use db))"
      using shmem_okD(5) [OF ok] e(3) new by (auto simp: entry inj_on_def segments_in_use_def)
    show "shmem_user (add_segment s e db) d n t \<in> {0, 1}" if "t < MRAPI_MAX_SHMEMS" "(d, n) \<in> node_set" for t d n
      using shmem_okD(2) [OF ok that] by (simp add: add_segment_def)
  qed (use shmem_okD(3,4) [OF ok] s e(1,2) in \<open>auto simp: users entry split: if_splits\<close>)
qed

lemma drop_segment_ok:
  assumes ok: "shmem_ok db" and s: "s < MRAPI_MAX_SHMEMS" "m_valid (m_shmems db s)" and free: "users_of db s = {}"
  shows "shmem_ok (drop_segment s db)"
proof -
  have segs: "segments_in_use (drop_segment s db) = segments_in_use db - {s}"
    by (auto simp: drop_segment_def segments_in_use_def)
  have old: "s \<in> segments_in_use db" using s by (simp add: segments_in_use_def)
  then have pos: "0 < card (segments_in_use db)" by (auto simp: card_gt_0_iff)
  have users: "users_of (drop_segment s db) t = users_of db t" for t by (simp add: drop_segment_def users_log)
  have entry: "m_shmems (drop_segment s db) t = (if t = s then (m_shmems db s)\<lparr>m_valid := False\<rparr> else m_shmems db t)" for t
    by (simp add: drop_segment_def)
  show ?thesis
  proof (rule shmem_okI; (unfold segs)?)
    show "unat (num_shmems (drop_segment s db)) = card (segments_in_use db - {s})"
      using shmem_okD(1) [OF ok] pos old by (simp add: drop_segment_def byte_down)
    show "inj_on (\<lambda>t. m_key (m_shmems (drop_segment s db) t)) (segments_in_use db - {s})"
      using shmem_okD(5) [OF ok] by (auto simp: entry inj_on_def)
    show "shmem_user (drop_segment s db) d n t \<in> {0, 1}" if "t < MRAPI_MAX_SHMEMS" "(d, n) \<in> node_set" for t d n
      using shmem_okD(2) [OF ok that] by (simp add: drop_segment_def)
  qed (use shmem_okD(3,4) [OF ok] s free in \<open>auto simp: users entry split: if_splits\<close>)
qed

section \<open>The calls\<close>

datatype shmem_call =
    Shm_create u32 u32 "mrapi_attributes option" | Shm_get u32 | Shm_attach u32 | Shm_detach u32 | Shm_delete u32

fun run_shmem :: "shmem_calls \<Rightarrow> int \<Rightarrow> shmem_call \<Rightarrow> mrapi_sys \<Rightarrow> mrapi_sys option" where
  "run_shmem os pid (Shm_create key len attrs) p = map_option snd (mrapi_shmem_create os key len attrs p)"
| "run_shmem os pid (Shm_get key) p = map_option snd (mrapi_shmem_get key p)"
| "run_shmem os pid (Shm_attach h) p = map_option snd (mrapi_shmem_attach os h p)"
| "run_shmem os pid (Shm_detach h) p = map_option snd (mrapi_shmem_detach os pid h p)"
| "run_shmem os pid (Shm_delete h) p = map_option snd (mrapi_shmem_delete os h p)"

text \<open>What the interface asks of its users: not to delete a segment that a node is attached to.\<close>

definition careful :: "mrapi_database \<Rightarrow> shmem_call \<Rightarrow> bool" where
  "careful db c = (case c of Shm_delete h \<Rightarrow> (case mrapi_impl_decode_hndl h of None \<Rightarrow> True | Some s \<Rightarrow> users_of db s = {}) | _ \<Rightarrow> True)"

lemma caller_node: "mrapi_caller p \<Longrightarrow> (unat (mrapi_dindex p), unat (mrapi_nindex p)) \<in> node_set"
  by (simp add: mrapi_caller_def node_set_def)

text \<open>The segment behind a handle that the check accepts.\<close>

definition shmem_hndl :: "mrapi_database \<Rightarrow> u32 \<Rightarrow> nat \<Rightarrow> bool" where
  "shmem_hndl db h s \<longleftrightarrow> mrapi_impl_decode_hndl h = Some s \<and> s < MRAPI_MAX_SHMEMS \<and> m_valid (m_shmems db s)"

lemma valid_shmem_eq:
  "mrapi_caller p \<Longrightarrow> mrapi_impl_valid_shmem_hndl h p = Some (\<exists>s. shmem_hndl (mdb p) h s, p)"
  unfolding mrapi_impl_valid_shmem_hndl_def
  by (rule with_section_eq) (auto simp: shmem_hndl_def split: option.split)

lemma shmem_attached_eq:
  assumes p: "mrapi_caller p" and h: "shmem_hndl (mdb p) h s"
  shows "mrapi_impl_shmem_attached h p = Some (shmem_user (mdb p) (unat (mrapi_dindex p)) (unat (mrapi_nindex p)) s = 1, p)"
  unfolding mrapi_impl_shmem_attached_def
  by (rule with_section_eq [OF p]) (use p h in \<open>simp_all add: shmem_hndl_def caller_whoami [OF p]\<close>)

lemma shmem_attach_new:
  assumes p: "mrapi_caller p" and h: "shmem_hndl (mdb p) h s"
    and new: "shmem_user (mdb p) (unat (mrapi_dindex p)) (unat (mrapi_nindex p)) s = 0" and a: "sys_shmem_attach os (m_id (m_shmems (mdb p) s)) = a"
  shows "mrapi_shmem_attach os h p = Some ((a, if a \<noteq> 0 then MRAPI_SUCCESS else MRAPI_ERR_SHM_INVALID),
     p\<lparr>mdb := attach_user (unat (mrapi_dindex p)) (unat (mrapi_nindex p)) s a (mdb p)\<rparr>)"
proof -
  have s: "s < MRAPI_MAX_SHMEMS" "shmem_index h = Some s" using h by (auto simp: shmem_hndl_def shmem_index_def)
  have "mrapi_impl_shmem_attach os h p = Some (a, p\<lparr>mdb := attach_user (unat (mrapi_dindex p)) (unat (mrapi_nindex p)) s a (mdb p)\<rparr>)"
    unfolding mrapi_impl_shmem_attach_def
    by (rule with_section_eq [OF p]) (use p s new a in \<open>simp_all add: caller_whoami [OF p] Let_def attach_user_def\<close>)
  with new p valid_shmem_eq [OF p, of h] shmem_attached_eq [OF p h] h show ?thesis by (auto simp: mrapi_shmem_attach_def)
qed

lemma shmem_attach_effect:
  assumes p: "mrapi_caller p" and ok: "shmem_ok (mdb p)"
  shows "\<exists>r q. mrapi_shmem_attach os h p = Some (r, q) \<and> shmem_ok (mdb q)"
proof (cases "\<exists>s. shmem_hndl (mdb p) h s")
  case True
  then obtain s where h: "shmem_hndl (mdb p) h s" by blast
  let ?d = "unat (mrapi_dindex p)" and ?n = "unat (mrapi_nindex p)" and ?a = "sys_shmem_attach os (m_id (m_shmems (mdb p) s))"
  have s: "s < MRAPI_MAX_SHMEMS" "m_valid (m_shmems (mdb p) s)" "shmem_index h = Some s" using h by (auto simp: shmem_hndl_def shmem_index_def)
  show ?thesis
  proof (cases "shmem_user (mdb p) ?d ?n s = 1")
    case True
    then show ?thesis using p ok valid_shmem_eq [OF p, of h] shmem_attached_eq [OF p h] h by (auto simp: mrapi_shmem_attach_def)
  next
    case False
    with shmem_okD(2) [OF ok s(1) caller_node [OF p]] have 0: "shmem_user (mdb p) ?d ?n s = 0" by auto
    with shmem_attach_new [OF p h 0 refl, of os] attach_ok [OF ok s(1,2) caller_node [OF p] 0, of ?a] show ?thesis by simp
  qed
qed (use assms valid_shmem_eq [of p h] in \<open>auto simp: mrapi_shmem_attach_def\<close>)

lemma shmem_detach_effect:
  assumes p: "mrapi_caller p" and ok: "shmem_ok (mdb p)"
  shows "\<exists>r q. mrapi_shmem_detach os pid h p = Some (r, q) \<and> shmem_ok (mdb q)"
proof (cases "\<exists>s. shmem_hndl (mdb p) h s")
  case True
  then obtain s where h: "shmem_hndl (mdb p) h s" by blast
  let ?d = "unat (mrapi_dindex p)" and ?n = "unat (mrapi_nindex p)"
  let ?db = "detach_user ?d ?n s (mdb p)"
  have s: "s < MRAPI_MAX_SHMEMS" "m_valid (m_shmems (mdb p) s)" "shmem_index h = Some s" using h by (auto simp: shmem_hndl_def shmem_index_def)
  show ?thesis
  proof (cases "shmem_user (mdb p) ?d ?n s = 1")
    case False
    then show ?thesis using p ok valid_shmem_eq [OF p, of h] shmem_attached_eq [OF p h] h by (auto simp: mrapi_shmem_detach_def)
  next
    case True
    have "mrapi_impl_shmem_detach os pid h p =
        Some (if last_of_process pid ?d ?n ?db then sys_shmem_detach os (m_addr (m_shmems ?db s)) else True, p\<lparr>mdb := ?db\<rparr>)"
      unfolding mrapi_impl_shmem_detach_def
      by (rule with_section_eq [OF p]) (use p s in \<open>simp_all add: caller_whoami [OF p] Let_def detach_user_def\<close>)
    with True detach_ok [OF ok s(1,2) caller_node [OF p] True] p valid_shmem_eq [OF p, of h] shmem_attached_eq [OF p h] h show ?thesis
      by (auto simp: mrapi_shmem_detach_def)
  qed
qed (use assms valid_shmem_eq [of p h] in \<open>auto simp: mrapi_shmem_detach_def\<close>)

lemma shmem_delete_effect:
  assumes p: "mrapi_caller p" and ok: "shmem_ok (mdb p)" and care: "careful (mdb p) (Shm_delete h)"
  shows "\<exists>r q. mrapi_shmem_delete os h p = Some (r, q) \<and> shmem_ok (mdb q)"
proof (cases "\<exists>s. shmem_hndl (mdb p) h s")
  case True
  then obtain s where h: "shmem_hndl (mdb p) h s" by blast
  have s: "s < MRAPI_MAX_SHMEMS" "m_valid (m_shmems (mdb p) s)" "shmem_index h = Some s" "users_of (mdb p) s = {}"
    using h care by (auto simp: shmem_hndl_def shmem_index_def careful_def)
  have "mrapi_impl_shmem_delete os h p = (if sys_shmem_delete os (m_id (m_shmems (mdb p) s))
      then Some (True, p\<lparr>mdb := drop_segment s (mdb p)\<rparr>) else Some (False, p))"
    unfolding mrapi_impl_shmem_delete_def
    using p s by (auto intro!: with_section_eq simp: drop_segment_def)
  with drop_segment_ok [OF ok s(1,2,4)] p ok valid_shmem_eq [OF p, of h] h show ?thesis by (auto simp: mrapi_shmem_delete_def)
qed (use assms valid_shmem_eq [of p h] in \<open>auto simp: mrapi_shmem_delete_def\<close>)

lemma shmem_exists_eq: "mrapi_caller p \<Longrightarrow> mrapi_impl_shmem_exists key p = Some (shmem_of_key key (mdb p) \<noteq> MRAPI_MAX_SHMEMS, p)"
  unfolding mrapi_impl_shmem_exists_def by (rule with_section_eq) simp_all

lemma impl_create_effect:
  assumes p: "mrapi_caller p" and ok: "shmem_ok (mdb p)"
  shows "\<exists>r q. mrapi_impl_shmem_create os key len attrs p = Some (r, q) \<and> shmem_ok (mdb q)"
proof -
  let ?db = "mdb p" and ?id = "sys_shmem_create os key len"
  let ?s = "for_first (\<lambda>s. \<not> m_valid (m_shmems ?db s)) 0 MRAPI_MAX_SHMEMS"
  let ?none = "mrapi_impl_encode_hndl (word_of_nat MRAPI_MAX_SHMEMS)"
  define e where "e = zero_shmem\<lparr>m_key := key, m_id := ?id, m_valid := True, m_addr := 0, m_attributes := sem_attributes_of attrs (m_attributes zero_shmem)\<rparr>"
  consider (full) "unat (num_shmems ?db) = MRAPI_MAX_SHMEMS" | (known) "unat (num_shmems ?db) \<noteq> MRAPI_MAX_SHMEMS" "shmem_of_key key ?db \<noteq> MRAPI_MAX_SHMEMS"
    | (fails) "unat (num_shmems ?db) \<noteq> MRAPI_MAX_SHMEMS" "shmem_of_key key ?db = MRAPI_MAX_SHMEMS" "?id = - 1"
    | (new) "unat (num_shmems ?db) \<noteq> MRAPI_MAX_SHMEMS" "shmem_of_key key ?db = MRAPI_MAX_SHMEMS" "?id \<noteq> - 1" by blast
  then show ?thesis
  proof cases
    case new
    have "mrapi_impl_shmem_create os key len attrs p = Some ((mrapi_impl_encode_hndl (word_of_nat ?s), MRAPI_SUCCESS),
        p\<lparr>mdb := if ?s = MRAPI_MAX_SHMEMS then ?db else add_segment ?s e ?db\<rparr>)"
      unfolding mrapi_impl_shmem_create_def
      by (rule with_section_eq [OF p]) (use new p in \<open>simp_all add: caller_whoami [OF p] Let_def add_segment_def e_def\<close>)
    moreover have "shmem_ok (if ?s = MRAPI_MAX_SHMEMS then ?db else add_segment ?s e ?db)"
    proof (cases "?s = MRAPI_MAX_SHMEMS")
      case False
      then have lt: "?s < MRAPI_MAX_SHMEMS" using for_first_le [of 0 MRAPI_MAX_SHMEMS] by (simp add: le_neq_implies_less)
      moreover have "\<not> m_valid (m_shmems ?db ?s)" using for_first_hit [OF lt] by simp
      moreover have "\<forall>t<MRAPI_MAX_SHMEMS. m_valid (m_shmems ?db t) \<longrightarrow> m_key (m_shmems ?db t) \<noteq> m_key e"
        using new(2) by (simp add: e_def shmem_of_key_def for_first_none)
      ultimately show ?thesis using False add_segment_ok [OF ok] by (simp add: e_def zero_shmem_def)
    qed (use ok in simp)
    ultimately show ?thesis by (intro exI conjI) auto
  next
    case full
    have "mrapi_impl_shmem_create os key len attrs p = Some ((?none, MRAPI_ERR_MEM_LIMIT), p)" unfolding mrapi_impl_shmem_create_def
      by (rule with_section_eq [OF p]) (use full p in \<open>simp_all add: caller_whoami [OF p] Let_def\<close>)
    with ok show ?thesis by blast
  next
    case known
    have "mrapi_impl_shmem_create os key len attrs p = Some ((?none, MRAPI_ERR_SHM_EXISTS), p)" unfolding mrapi_impl_shmem_create_def
      by (rule with_section_eq [OF p]) (use known p in \<open>simp_all add: caller_whoami [OF p] Let_def\<close>)
    with ok show ?thesis by blast
  next
    case fails
    have "mrapi_impl_shmem_create os key len attrs p = Some ((?none, MRAPI_ERR_MEM_LIMIT), p)" unfolding mrapi_impl_shmem_create_def
      by (rule with_section_eq [OF p]) (use fails p in \<open>simp_all add: caller_whoami [OF p] Let_def\<close>)
    with ok show ?thesis by blast
  qed
qed

lemma shmem_call_effect:
  assumes p: "mrapi_caller p" and ok: "shmem_ok (mdb p)" and care: "careful (mdb p) c"
  shows "\<exists>q. run_shmem os pid c p = Some q \<and> shmem_ok (mdb q)"
proof (cases c)
  case (Shm_create key len attrs)
  with impl_create_effect [OF p ok, of os key len attrs] show ?thesis
    using p ok by (auto simp: mrapi_shmem_create_def mrapi_impl_shmem_validID_def shmem_exists_eq [OF p])
next
  case (Shm_get key)
  have "\<exists>r. mrapi_impl_shmem_get key p = Some (r, p)" unfolding mrapi_impl_shmem_get_def
    by (rule exI, rule with_section_eq [OF p]) (use p in \<open>simp_all add: Let_def\<close>)
  with Shm_get show ?thesis using p ok by (auto simp: mrapi_shmem_get_def shmem_exists_eq [OF p])
next
  case (Shm_attach h)
  with shmem_attach_effect [OF p ok, of os h] show ?thesis by auto
next
  case (Shm_detach h)
  with shmem_detach_effect [OF p ok, of os pid h] show ?thesis by auto
next
  case (Shm_delete h)
  with shmem_delete_effect [OF p ok, of h os] care show ?thesis by auto
qed

section \<open>Runs\<close>

inductive shmem_reachable :: "mrapi_database \<Rightarrow> bool" where
  zero: "shmem_reachable zero_database"
| call: "shmem_reachable db \<Longrightarrow> mrapi_caller p \<Longrightarrow> careful db c \<Longrightarrow> run_shmem os pid c (p\<lparr>mdb := db\<rparr>) = Some q \<Longrightarrow>
    shmem_reachable (mdb q)"

lemma zero_shmem_ok: "shmem_ok zero_database"
  by (rule shmem_okI)
    (simp_all add: zero_database_def segments_in_use_def zero_shmem_def users_of_def shmem_user_def zero_node_def)

lemma shmem_reachable_ok: "shmem_reachable db \<Longrightarrow> shmem_ok db"
proof (induction rule: shmem_reachable.induct)
  case (call db p c os pid q)
  then show ?case using shmem_call_effect [of "p\<lparr>mdb := db\<rparr>" c os pid] by simp
qed (rule zero_shmem_ok)

text \<open>
  C15: the shared memory counts are right. Whatever nodes create, look up, attach to, detach from and delete segments, in any
  order and whatever the operating system answers, as long as nobody deletes a segment to which a node is attached: every call
  returns, the database's count of segments is the number of those in use, at most 10, no two of them have the same key, and the
  count of each is the number of nodes that are attached to it.
\<close>

theorem shmem_counts:
  assumes reach: "shmem_reachable db"
  shows "unat (num_shmems db) = card (segments_in_use db) \<and> card (segments_in_use db) \<le> MRAPI_MAX_SHMEMS \<and>
     inj_on (\<lambda>s. m_key (m_shmems db s)) (segments_in_use db) \<and>
     (\<forall>s\<in>segments_in_use db. unat (m_refs (m_shmems db s)) = card (users_of db s)) \<and>
     (\<forall>p c os pid. mrapi_caller p \<longrightarrow> careful db c \<longrightarrow> (\<exists>q. run_shmem os pid c (p\<lparr>mdb := db\<rparr>) = Some q))"
proof -
  have ok: "shmem_ok db" by (rule shmem_reachable_ok [OF reach])
  have "\<exists>q. run_shmem os pid c (p\<lparr>mdb := db\<rparr>) = Some q" if "mrapi_caller p" "careful db c" for p c os pid
    using shmem_call_effect [of "p\<lparr>mdb := db\<rparr>" c os pid] that ok by auto
  moreover have "\<forall>s\<in>segments_in_use db. unat (m_refs (m_shmems db s)) = card (users_of db s)"
    using shmem_okD(3) [OF ok] by (auto simp: segments_in_use_def)
  ultimately show ?thesis using shmem_okD(1,5) [OF ok] card_segments [of db] by (simp add: MRAPI_MAX_SHMEMS_def)
qed

text \<open>The first node creates a segment of 64 bytes with the key 5 and attaches to it.\<close>

definition some_system :: shmem_calls where
  "some_system = \<lparr>sys_shmem_create = (\<lambda>key len. 7), sys_shmem_attach = (\<lambda>id. 4096), sys_shmem_detach = (\<lambda>a. True), sys_shmem_delete = (\<lambda>id. True)\<rparr>"

definition one_segment :: mrapi_database where
  "one_segment = add_segment 0 (zero_shmem\<lparr>m_key := 5, m_id := 7, m_valid := True, m_addr := 0,
     m_attributes := sem_attributes_of None (m_attributes zero_shmem)\<rparr>) zero_database"

lemma create_segment: "run_shmem some_system 42 (Shm_create 5 64 None) ((node_of 0)\<lparr>mdb := zero_database\<rparr>) = Some ((node_of 0)\<lparr>mdb := one_segment\<rparr>)"
proof -
  let ?p = "(node_of 0)\<lparr>mdb := zero_database\<rparr>"
  have p: "mrapi_caller ?p" by (simp add: node_of_caller)
  have z: "num_shmems zero_database = 0" "m_shmems zero_database = (\<lambda>_. zero_shmem)" by (simp_all add: zero_database_def)
  have pos: "0 \<noteq> MRAPI_MAX_SHMEMS" by (simp add: MRAPI_MAX_SHMEMS_def)
  have none: "shmem_of_key 5 zero_database = MRAPI_MAX_SHMEMS"
    by (simp add: shmem_of_key_def for_first_none z zero_shmem_def)
  have first: "for_first (\<lambda>s. \<not> m_valid (m_shmems zero_database s)) 0 MRAPI_MAX_SHMEMS = 0"
    by (rule for_first_eqI) (simp_all add: z zero_shmem_def MRAPI_MAX_SHMEMS_def)
  have "mrapi_impl_shmem_create some_system 5 64 None ?p = Some ((mrapi_impl_encode_hndl 0, MRAPI_SUCCESS), (node_of 0)\<lparr>mdb := one_segment\<rparr>)"
    unfolding mrapi_impl_shmem_create_def
    by (rule with_section_eq [OF p])
      (simp_all add: caller_whoami [OF p] z(1) none first pos Let_def some_system_def p one_segment_def add_segment_def node_of_caller)
  then show ?thesis using p by (simp add: mrapi_shmem_create_def mrapi_impl_shmem_validID_def shmem_exists_eq [OF p] none)
qed

lemma attach_segment: "run_shmem some_system 42 (Shm_attach 0x80000000) ((node_of 0)\<lparr>mdb := one_segment\<rparr>) =
    Some ((node_of 0)\<lparr>mdb := attach_user 0 0 0 4096 one_segment\<rparr>)"
proof -
  have "shmem_hndl one_segment 0x80000000 0"
    by (simp add: shmem_hndl_def mrapi_impl_decode_hndl_def hndl_index_def MRAPI_MAX_SHMEMS_def one_segment_def add_segment_def)
  then show ?thesis
    using shmem_attach_new [of "(node_of 0)\<lparr>mdb := one_segment\<rparr>" "0x80000000" 0 some_system 4096]
    by (simp add: node_of_caller) (simp add: node_of_def one_segment_def add_segment_def shmem_user_def zero_database_def zero_node_def some_system_def)
qed

lemma one_attached_reachable: "shmem_reachable (attach_user 0 0 0 4096 one_segment)"
proof -
  have "shmem_reachable one_segment"
    using shmem_reachable.call [OF shmem_reachable.zero _ _ create_segment] by (simp add: node_of_caller careful_def)
  then show ?thesis using shmem_reachable.call [OF _ _ _ attach_segment] by (simp add: node_of_caller careful_def)
qed

theorem shmem_counts_witness:
  "card (users_of (attach_user 0 0 0 4096 one_segment) 0) = 1 \<and> card (segments_in_use (attach_user 0 0 0 4096 one_segment)) = 1"
proof -
  let ?db = "attach_user 0 0 0 4096 one_segment"
  have z: "m_refs (m_shmems ?db 0) = 1" "num_shmems ?db = 1" "0 \<in> segments_in_use ?db"
    by (simp_all add: attach_user_def one_segment_def add_segment_def zero_shmem_def segments_in_use_def zero_database_def MRAPI_MAX_SHMEMS_def)
  show ?thesis using shmem_counts [OF one_attached_reachable] z by auto
qed

text \<open>
  A careless deletion: the node stays marked as a user of the place, and a segment created there later counts no user although the
  node passes for attached; when it detaches, the count wraps to 255.
\<close>

lemma careless_delete:
  assumes "users_of db s = {(d, n)}" and "m_refs e = 0"
  shows "users_of (add_segment s e (drop_segment s db)) s = {(d, n)} \<and> m_refs (m_shmems (add_segment s e (drop_segment s db)) s) = 0 \<and>
    m_refs (m_shmems (detach_user d n s (add_segment s e (drop_segment s db))) s) = 255"
  using assms by (simp add: add_segment_def drop_segment_def users_log detach_user_def)

text \<open>The size of a segment cannot be read back: the attribute is never filled in, and reads as 0 for the segment of 64 bytes.\<close>

lemma segment_size_unknown:
  "mrapi_shmem_get_attribute 0x80000000 MRAPI_SHMEM_SIZE True 4 ((node_of 0)\<lparr>mdb := one_segment\<rparr>) =
     Some ((Some [0, 0, 0, 0], MRAPI_SUCCESS), (node_of 0)\<lparr>mdb := one_segment\<rparr>)"
proof -
  let ?p = "(node_of 0)\<lparr>mdb := one_segment\<rparr>"
  have p: "mrapi_caller ?p" by (simp add: node_of_caller)
  have h: "shmem_hndl one_segment 0x80000000 0"
    by (simp add: shmem_hndl_def mrapi_impl_decode_hndl_def hndl_index_def MRAPI_MAX_SHMEMS_def one_segment_def add_segment_def)
  have "mem_size (m_attributes (m_shmems one_segment 0)) = [0, 0, 0, 0]"
    by (simp add: one_segment_def add_segment_def zero_shmem_def no_attributes_def sem_attributes_of_def sizeof_mem_size_def numeral_eq_Suc)
  with h show ?thesis using valid_shmem_eq [OF p, of "0x80000000"]
    by (auto simp: mrapi_shmem_get_attribute_def mrapi_impl_shmem_get_attribute_def shmem_hndl_def shmem_index_def
        read_field_def sizeof_mem_size_def MRAPI_SHMEM_SIZE_def MRAPI_SHMEM_ADDRESS_def MRAPI_SHMEM_RESOURCE_def
        MRAPI_ERROR_EXT_def MRAPI_DOMAIN_SHARED_def)
qed

end
