(* ===== verification/MRAPI_Starting.thy ===== *)
theory MRAPI_Starting
  imports MRAPI_Nodes MRAPI_Counting
begin

text \<open>
  Starting and stopping nodes of the resource layer: the identity a node gets, that no second node gets it, and what a stop
  leaves behind.
\<close>

section \<open>Starting\<close>

text \<open>A thread that is not a node yet, in a process that is not being started or run down.\<close>

definition fresh_thread :: "mrapi_sys \<Rightarrow> bool" where
  "fresh_thread p \<longleftrightarrow> mrapi_initialize_ctr p = 0 \<and> mrapi_finalize_ctr p = 0 \<and> held_sections p = [] \<and> \<not> mrapi_impl_initialized p"

lemma place_node_at:
  "d_nodes (m_domains (place_node domain node pid d n db) d) n = (d_nodes (m_domains db d) n)\<lparr>n_valid := True, n_node_num := node, n_pid := pid\<rparr>"
  "d_domain_id (m_domains (place_node domain node pid d n db) d') = (if d' = d then domain else d_domain_id (m_domains db d'))"
  by (simp_all add: place_node_def)

lemma domain_slot_le: "domain_slot domain db \<le> MRAPI_MAX_DOMAINS"
  by (simp add: domain_slot_def Let_def for_first_le)

text \<open>The place of a domain stays the same once it is in use.\<close>

lemma domain_slot_placed:
  assumes "d = domain_slot domain db" and "d < MRAPI_MAX_DOMAINS"
  shows "domain_slot domain (place_node domain node pid d n db) = d"
proof -
  have "d_domain_id (m_domains db d') \<noteq> domain" if "d' < d" for d'
  proof (cases "for_first (\<lambda>d. d_domain_id (m_domains db d) = domain) 0 MRAPI_MAX_DOMAINS = MRAPI_MAX_DOMAINS")
    case True
    then show ?thesis using that assms(2) by (simp add: for_first_none)
  next
    case False
    with assms(1) that show ?thesis using for_first_before [of 0 d' "\<lambda>d. d_domain_id (m_domains db d) = domain" MRAPI_MAX_DOMAINS]
      by (simp add: domain_slot_def Let_def)
  qed
  then have "for_first (\<lambda>d'. d_domain_id (m_domains (place_node domain node pid d n db) d') = domain) 0 MRAPI_MAX_DOMAINS = d"
    using assms(2) by (intro for_first_eqI) (auto simp: place_node_at)
  with assms(2) show ?thesis by (simp add: domain_slot_def Let_def)
qed

lemma node_entry_placed:
  assumes "n < MRAPI_MAX_NODES"
  shows "node_entry_of d node (place_node domain node pid d n db) \<noteq> MRAPI_MAX_NODES"
  using assms by (auto simp: node_entry_of_def for_first_none place_node_at)

lemma start_eq:
  assumes p: "fresh_thread p" and os: "database_attaches os" "semaphore_created os"
  shows "mrapi_initialize os pid domain node prm True p =
     (let ((rc, status), q) = add_mrapi_node domain node pid MRAPI_ERR_NODE_INITFAILED
            (p\<lparr>mrapi_db_attached := True, held_sections := [Semid], sections_alive := True\<rparr>)
      in Some (if rc then MRAPI_SUCCESS else status, q\<lparr>held_sections := []\<rparr>))"
proof -
  let ?p = "p\<lparr>mrapi_db_attached := True, held_sections := [Semid], sections_alive := True\<rparr>"
  obtain rc status q where a: "add_mrapi_node domain node pid MRAPI_ERR_NODE_INITFAILED ?p = ((rc, status), q)" by (metis surj_pair)
  then have "sections_alive q" "held_sections q = [Semid]"
    by (auto simp: add_mrapi_node_def Let_def split: if_splits)
  with a p os show ?thesis
    by (simp add: mrapi_initialize_def mrapi_impl_valid_parameters_param_def mrapi_impl_valid_node_num_def mrapi_impl_valid_domain_num_def mrapi_impl_initialize_def
        fresh_thread_def mrapi_impl_access_database_post_def)
qed

section \<open>Stopping\<close>

lemma fold_keeps: "(\<And>s db. g (f s db) = g db) \<Longrightarrow> g (fold f xs db) = g db"
  by (induction xs arbitrary: db) simp_all

lemma leave_shmem_keeps [simp]:
  "m_sems (leave_shmem d n s db) = m_sems db" "m_domains (leave_shmem d n s db) = m_domains db"
  by (simp_all add: leave_shmem_def)

lemma leave_sem_valid_nodes [simp]:
  "n_valid (d_nodes (m_domains (leave_sem d n s db) d') n') = n_valid (d_nodes (m_domains db d') n')"
  by (simp add: leave_sem_def Let_def)

lemma stop_valid_nodes:
  "n_valid (d_nodes (m_domains (mrapi_impl_finalize_node_locked d n db) d') n') =
     (n_valid (d_nodes (m_domains db d') n') \<and> (d', n') \<noteq> (d, n))"
proof -
  have "n_valid (d_nodes (m_domains (mrapi_impl_finalize_node_locked d n db) d') n') =
      n_valid (d_nodes (m_domains (upd_mnode d n (\<lambda>nd. nd\<lparr>n_valid := False\<rparr>) db) d') n')"
    unfolding mrapi_impl_finalize_node_locked_def
    by (subst fold_keeps [where g = "\<lambda>db. n_valid (d_nodes (m_domains db d') n')"], simp)
      (subst fold_keeps [where g = m_domains], simp_all)
  then show ?thesis by auto
qed

lemma stop_pids: "n_pid (d_nodes (m_domains (mrapi_impl_finalize_node_locked d n db) d') n') = n_pid (d_nodes (m_domains db d') n')"
proof -
  have "n_pid (d_nodes (m_domains (leave_sem d n s db) d') n') = n_pid (d_nodes (m_domains db d') n')" for s db
    by (simp add: leave_sem_def Let_def)
  then show ?thesis
    unfolding mrapi_impl_finalize_node_locked_def
    by (subst fold_keeps [where g = "\<lambda>db. n_pid (d_nodes (m_domains db d') n')"], simp)
      (subst fold_keeps [where g = m_domains], simp_all)
qed

text \<open>The entry of a lock after a stop: a count less for a node that it counted, and out of use without any count.\<close>

definition left_entry :: "bool \<Rightarrow> mrapi_sem \<Rightarrow> mrapi_sem" where
  "left_entry counted e =
     (if s_valid e then let r = (if counted then s_refs e - 1 else s_refs e) in e\<lparr>s_refs := r, s_valid := (r \<noteq> 0)\<rparr> else e)"

lemma leave_sem_entry:
  "m_sems (leave_sem d n s db) t = (if t = s then left_entry (n_sems (d_nodes (m_domains db d) n) s = 1) (m_sems db s) else m_sems db t)"
proof -
  have "e\<lparr>s_refs := s_refs e, s_valid := True\<rparr> = e" if "s_valid e" for e :: mrapi_sem using that by (cases e) simp
  then show ?thesis by (auto simp: leave_sem_def left_entry_def Let_def)
qed

lemma leave_sem_marks: "t \<noteq> s \<Longrightarrow> n_sems (d_nodes (m_domains (leave_sem d n s db) d) n) t = n_sems (d_nodes (m_domains db d) n) t"
  by (simp add: leave_sem_def Let_def)

lemma leave_sems_entry:
  "m_sems (fold (leave_sem d n) [0..<k] db) t =
     (if t < k then left_entry (n_sems (d_nodes (m_domains db d) n) t = 1) (m_sems db t) else m_sems db t)"
proof -
  have "(k \<le> t \<longrightarrow> n_sems (d_nodes (m_domains (fold (leave_sem d n) [0..<k] db) d) n) t = n_sems (d_nodes (m_domains db d) n) t) \<and>
     m_sems (fold (leave_sem d n) [0..<k] db) t = (if t < k then left_entry (n_sems (d_nodes (m_domains db d) n) t = 1) (m_sems db t) else m_sems db t)" for t
    by (induction k arbitrary: t) (auto simp: leave_sem_entry leave_sem_marks)
  then show ?thesis by blast
qed

lemma stop_entry:
  assumes "s < MRAPI_MAX_SEMS"
  shows "m_sems (mrapi_impl_finalize_node_locked d n db) s = left_entry (n_sems (d_nodes (m_domains db d) n) s = 1) (m_sems db s)"
proof -
  let ?db = "fold (leave_shmem d n) [0..<MRAPI_MAX_SHMEMS] (upd_mnode d n (\<lambda>nd. nd\<lparr>n_valid := False\<rparr>) db)"
  have "m_sems ?db = m_sems db" "m_domains ?db = m_domains (upd_mnode d n (\<lambda>nd. nd\<lparr>n_valid := False\<rparr>) db)"
    by (subst fold_keeps [where g = m_sems]; simp) (subst fold_keeps [where g = m_domains]; simp)
  then show ?thesis
    unfolding mrapi_impl_finalize_node_locked_def using assms by (simp add: leave_sems_entry)
qed

definition live_node :: "mrapi_sys \<Rightarrow> bool" where
  "live_node p \<longleftrightarrow> mrapi_caller p \<and> mrapi_initialize_ctr p = 0 \<and> mrapi_finalize_ctr p = 0"

definition nobody_left :: "mrapi_database \<Rightarrow> bool" where
  "nobody_left db \<longleftrightarrow> (\<forall>d<MRAPI_MAX_DOMAINS. \<forall>n<MRAPI_MAX_NODES. \<not> n_valid (d_nodes (m_domains db d) n))"

lemma all_indices: "list_all P node_indices \<longleftrightarrow> (\<forall>d<MRAPI_MAX_DOMAINS. \<forall>n<MRAPI_MAX_NODES. P (d, n))"
  by (auto simp: node_indices_def list_all_iff)

lemma stop_eq:
  assumes p: "live_node p" and db: "db = mrapi_impl_finalize_node_locked (unat (mrapi_dindex p)) (unat (mrapi_nindex p)) (mdb p)"
  shows "\<exists>q. mrapi_finalize pid p = Some (MRAPI_SUCCESS, q) \<and> mdb q = (if nobody_left db then zero_database else db) \<and>
     mrapi_db_attached q = (\<exists>d<MRAPI_MAX_DOMAINS. \<exists>n<MRAPI_MAX_NODES. n_valid (d_nodes (m_domains db d) n) \<and> n_pid (d_nodes (m_domains db d) n) = pid) \<and>
     mrapi_pid q = mrapi_pid p \<and> mrapi_nindex q = mrapi_nindex p \<and> mrapi_dindex q = mrapi_dindex p"
proof -
  define stays where "stays \<longleftrightarrow> (\<exists>d<MRAPI_MAX_DOMAINS. \<exists>n<MRAPI_MAX_NODES. n_valid (d_nodes (m_domains db d) n) \<and> n_pid (d_nodes (m_domains db d) n) = pid)"
  let ?q = "p\<lparr>mdb := (if nobody_left db then zero_database else db), mrapi_db_attached := stays, held_sections := []\<rparr>"
  have all: "list_all (\<lambda>x. \<not> (case x of (d, n) \<Rightarrow> n_valid (d_nodes (m_domains db d) n))) node_indices = nobody_left db"
    "list_all (\<lambda>(d, n). n_valid (d_nodes (m_domains db d) n) \<longrightarrow> n_pid (d_nodes (m_domains db d) n) \<noteq> pid) node_indices = (\<not> stays)"
    by (auto simp: all_indices nobody_left_def stays_def)
  have "mrapi_impl_free_resources False pid p = Some (nobody_left db, if nobody_left db then ?q\<lparr>sections_alive := False\<rparr> else ?q)"
    using p unfolding mrapi_impl_free_resources_def live_node_def mrapi_caller_def mrapi_impl_access_database_pre_def
      mrapi_impl_access_database_post_def mrapi_impl_whoami_def
    by (simp add: Let_def all flip: db)
  then show ?thesis using p unfolding stays_def [symmetric] by (simp add: mrapi_finalize_def mrapi_impl_finalize_def live_node_def)
qed

lemma zero_nodes: "\<not> n_valid (d_nodes (m_domains zero_database d) n)"
  by (simp add: zero_database_def zero_node_def)

text \<open>The place of a domain: the first entry with its number, or else the first that is not in use.\<close>

definition place_of_domain :: "u32 \<Rightarrow> nat \<Rightarrow> mrapi_database \<Rightarrow> bool" where
  "place_of_domain domain d db \<longleftrightarrow> d < MRAPI_MAX_DOMAINS \<and>
     (d_domain_id (m_domains db d) = domain \<and> (\<forall>d'<d. d_domain_id (m_domains db d') \<noteq> domain) \<or>
      (\<forall>d'<MRAPI_MAX_DOMAINS. d_domain_id (m_domains db d') \<noteq> domain) \<and>
      \<not> d_valid (m_domains db d) \<and> (\<forall>d'<d. d_valid (m_domains db d')))"

lemma place_of_domain_slot:
  assumes "place_of_domain domain d db"
  shows "domain_slot domain db = d" "d < MRAPI_MAX_DOMAINS"
proof -
  show d: "d < MRAPI_MAX_DOMAINS" using assms by (simp add: place_of_domain_def)
  consider "d_domain_id (m_domains db d) = domain" "\<forall>d'<d. d_domain_id (m_domains db d') \<noteq> domain"
    | "\<forall>d'<MRAPI_MAX_DOMAINS. d_domain_id (m_domains db d') \<noteq> domain" "\<not> d_valid (m_domains db d)" "\<forall>d'<d. d_valid (m_domains db d')"
    using assms unfolding place_of_domain_def by blast
  then show "domain_slot domain db = d"
  proof cases
    case 1
    then have "for_first (\<lambda>d. d_domain_id (m_domains db d) = domain) 0 MRAPI_MAX_DOMAINS = d"
      using d by (intro for_first_eqI) auto
    then show ?thesis using d by (simp add: domain_slot_def Let_def)
  next
    case 2
    then have "for_first (\<lambda>d. d_domain_id (m_domains db d) = domain) 0 MRAPI_MAX_DOMAINS = MRAPI_MAX_DOMAINS"
      by (simp add: for_first_none)
    moreover have "for_first (\<lambda>d. \<not> d_valid (m_domains db d)) 0 MRAPI_MAX_DOMAINS = d"
      using 2 d by (intro for_first_eqI) auto
    ultimately show ?thesis by (simp add: domain_slot_def Let_def)
  qed
qed

text \<open>A stop changes the entry of no other node.\<close>

lemma stop_other_nodes:
  assumes "(d', n') \<noteq> (d, n)"
  shows "d_nodes (m_domains (mrapi_impl_finalize_node_locked d n db) d') n' = d_nodes (m_domains db d') n'"
proof -
  have "d_nodes (m_domains (leave_sem d n s db) d') n' = d_nodes (m_domains db d') n'" for s db
    using assms by (auto simp: leave_sem_def Let_def)
  then have "d_nodes (m_domains (mrapi_impl_finalize_node_locked d n db) d') n' =
      d_nodes (m_domains (upd_mnode d n (\<lambda>nd. nd\<lparr>n_valid := False\<rparr>) db) d') n'"
    unfolding mrapi_impl_finalize_node_locked_def
    by (subst fold_keeps [where g = "\<lambda>db. d_nodes (m_domains db d') n'"], simp)
      (subst fold_keeps [where g = m_domains], simp_all)
  then show ?thesis using assms by auto
qed

text \<open>
  C35: starting and stopping a node. A thread that is not a node yet, and asks for an identity that no node of its domain has,
  gets exactly this identity and the first place of its domain that is not in use; the entries of all other nodes, the locks, the
  segments, the remote memories and the requests stay as they are. While nothing else happens every other thread is refused the
  same identity and the database stays as it is. Whatever the others have done to the database when the node stops, the stop
  succeeds, its place is free again and the entry of no other node is touched, unless it was the last of all, when the database
  is removed.
\<close>

theorem mrapi_node_start_stop:
  assumes p: "fresh_thread p" and os: "database_attaches os" "semaphore_created os" and pid: "pid \<noteq> - 1"
    and d: "place_of_domain domain d (mdb p)"
    and new: "\<forall>m<MRAPI_MAX_NODES. n_valid (d_nodes (m_domains (mdb p) d) m) \<longrightarrow> n_node_num (d_nodes (m_domains (mdb p) d) m) \<noteq> node"
    and n: "n < MRAPI_MAX_NODES" "\<not> n_valid (d_nodes (m_domains (mdb p) d) n)" "\<forall>m<n. n_valid (d_nodes (m_domains (mdb p) d) m)"
  shows "\<exists>q. mrapi_initialize os pid domain node prm True p = Some (MRAPI_SUCCESS, q) \<and>
     mrapi_impl_whoami q = Some (node, word_of_nat n, domain, word_of_nat d) \<and>
     d_domain_id (m_domains (mdb q) d) = domain \<and> d_valid (m_domains (mdb q) d) \<and>
     n_valid (d_nodes (m_domains (mdb q) d) n) \<and> n_node_num (d_nodes (m_domains (mdb q) d) n) = node \<and>
     (\<forall>d' n'. (d', n') \<noteq> (d, n) \<longrightarrow> d_nodes (m_domains (mdb q) d') n' = d_nodes (m_domains (mdb p) d') n') \<and>
     (mdb q)\<lparr>m_domains := m_domains (mdb p)\<rparr> = mdb p \<and>
     (\<forall>p' os' pid'. fresh_thread p' \<and> mdb p' = mdb q \<and> database_attaches os' \<and> semaphore_created os' \<longrightarrow>
        (\<exists>r. mrapi_initialize os' pid' domain node prm True p' = Some (MRAPI_ERR_NODE_INITFAILED, r) \<and> mdb r = mdb q)) \<and>
     (\<forall>db. \<exists>r. mrapi_finalize pid (q\<lparr>mdb := db\<rparr>) = Some (MRAPI_SUCCESS, r) \<and> \<not> n_valid (d_nodes (m_domains (mdb r) d) n) \<and>
        (mdb r = zero_database \<and> (\<forall>d'<MRAPI_MAX_DOMAINS. \<forall>n'<MRAPI_MAX_NODES. (d', n') \<noteq> (d, n) \<longrightarrow> \<not> n_valid (d_nodes (m_domains db d') n')) \<or>
         (\<forall>d' n'. (d', n') \<noteq> (d, n) \<longrightarrow> d_nodes (m_domains (mdb r) d') n' = d_nodes (m_domains db d') n')))"
proof -
  let ?db = "place_node domain node pid d n (mdb p)"
  have d': "d = domain_slot domain (mdb p)" "d < MRAPI_MAX_DOMAINS" using place_of_domain_slot [OF d] by simp_all
  have new': "node_entry_of d node (mdb p) = MRAPI_MAX_NODES" using new by (auto simp: node_entry_of_def for_first_none)
  have n': "n = free_node_entry d (mdb p)"
    unfolding free_node_entry_def using n by (intro sym [OF for_first_eqI]) auto
  define q where "q = p\<lparr>mrapi_db_attached := True, sections_alive := True, mdb := ?db, mrapi_pid := pid, mrapi_nindex := word_of_nat n,
    mrapi_dindex := word_of_nat d, mrapi_domain_id := domain, mrapi_node_id := node\<rparr>"
  have idx: "unat (word_of_nat n :: u32) = n" "unat (word_of_nat d :: u32) = d"
    using n(1) d'(2) by (simp_all add: unat_of_nat take_bit_nat_eq_self MRAPI_MAX_NODES_def MRAPI_MAX_DOMAINS_def)
  have held: "held_sections p = []" using p by (simp add: fresh_thread_def)
  have start: "mrapi_initialize os pid domain node prm True p = Some (MRAPI_SUCCESS, q)"
    unfolding start_eq [OF p os] using d' n(1) n' new' held by (cases p) (simp add: add_mrapi_node_def Let_def q_def)
  have run: "live_node (q\<lparr>mdb := db\<rparr>)" for db
    using p pid idx n(1) d'(2) by (simp add: live_node_def mrapi_caller_def fresh_thread_def q_def)
  have who: "mrapi_impl_whoami q = Some (node, word_of_nat n, domain, word_of_nat d)"
    using pid by (simp add: mrapi_impl_whoami_def q_def)
  have slot: "domain_slot domain ?db = d" using d' by (rule domain_slot_placed)
  have placed: "d_domain_id (m_domains (mdb q) d) = domain" "d_valid (m_domains (mdb q) d)"
    "n_valid (d_nodes (m_domains (mdb q) d) n)" "n_node_num (d_nodes (m_domains (mdb q) d) n) = node"
    "\<forall>d' n'. (d', n') \<noteq> (d, n) \<longrightarrow> d_nodes (m_domains (mdb q) d') n' = d_nodes (m_domains (mdb p) d') n'"
    "(mdb q)\<lparr>m_domains := m_domains (mdb p)\<rparr> = mdb p"
    by (auto simp: q_def place_node_def)
  have again: "\<exists>r. mrapi_initialize os' pid' domain node prm True p' = Some (MRAPI_ERR_NODE_INITFAILED, r) \<and> mdb r = mdb q"
    if "fresh_thread p'" "mdb p' = mdb q" "database_attaches os'" "semaphore_created os'" for p' os' pid'
    unfolding start_eq [OF that(1,3,4)] using that(2) d'(2) node_entry_placed [OF n(1)]
    by (simp add: add_mrapi_node_def Let_def q_def slot)
  have stop: "\<exists>r. mrapi_finalize pid (q\<lparr>mdb := db\<rparr>) = Some (MRAPI_SUCCESS, r) \<and> \<not> n_valid (d_nodes (m_domains (mdb r) d) n) \<and>
        (mdb r = zero_database \<and> (\<forall>d'<MRAPI_MAX_DOMAINS. \<forall>n'<MRAPI_MAX_NODES. (d', n') \<noteq> (d, n) \<longrightarrow> \<not> n_valid (d_nodes (m_domains db d') n')) \<or>
         (\<forall>d' n'. (d', n') \<noteq> (d, n) \<longrightarrow> d_nodes (m_domains (mdb r) d') n' = d_nodes (m_domains db d') n'))" for db
  proof -
    let ?st = "mrapi_impl_finalize_node_locked d n db"
    have "?st = mrapi_impl_finalize_node_locked (unat (mrapi_dindex (q\<lparr>mdb := db\<rparr>))) (unat (mrapi_nindex (q\<lparr>mdb := db\<rparr>))) (mdb (q\<lparr>mdb := db\<rparr>))"
      by (simp add: q_def idx)
    from stop_eq [OF run this, of pid] obtain r where r: "mrapi_finalize pid (q\<lparr>mdb := db\<rparr>) = Some (MRAPI_SUCCESS, r)"
      "mdb r = (if nobody_left ?st then zero_database else ?st)" by auto
    show ?thesis
    proof (cases "nobody_left ?st")
      case True
      then show ?thesis using r by (auto simp: zero_nodes nobody_left_def stop_valid_nodes)
    next
      case False
      then show ?thesis using r stop_other_nodes by (intro exI [of _ r]) (simp add: stop_valid_nodes)
    qed
  qed
  have "\<forall>p' os' pid'. fresh_thread p' \<and> mdb p' = mdb q \<and> database_attaches os' \<and> semaphore_created os' \<longrightarrow>
      (\<exists>r. mrapi_initialize os' pid' domain node prm True p' = Some (MRAPI_ERR_NODE_INITFAILED, r) \<and> mdb r = mdb q)"
    by (intro allI impI) (elim conjE, rule again)
  with start who placed allI [OF stop] show ?thesis by (intro exI [of _ q] conjI)
qed

definition first_thread :: mrapi_sys where
  "first_thread = \<lparr>mdb = zero_database, mrapi_db_attached = False, sections_alive = False, held_sections = [], mrapi_initialize_ctr = 0,
     mrapi_finalize_ctr = 0, mrapi_pid = - 1, mrapi_nindex = 0, mrapi_dindex = 0, mrapi_node_id = 0, mrapi_domain_id = 0,
     sem_address = (\<lambda>_. 0)\<rparr>"

lemma first_places: "domain_slot 1 zero_database = 0" "free_node_entry 0 zero_database = 0" "node_entry_of 0 3 zero_database = MRAPI_MAX_NODES"
proof -
  have "for_first (\<lambda>d. d_domain_id (m_domains zero_database d) = 1) 0 MRAPI_MAX_DOMAINS = MRAPI_MAX_DOMAINS"
    by (simp add: for_first_none zero_database_def)
  moreover have "for_first (\<lambda>d. \<not> d_valid (m_domains zero_database d)) 0 MRAPI_MAX_DOMAINS = 0"
    by (rule for_first_eqI) (simp_all add: zero_database_def MRAPI_MAX_DOMAINS_def)
  ultimately show "domain_slot 1 zero_database = 0" by (simp add: domain_slot_def)
  show "free_node_entry 0 zero_database = 0"
    unfolding free_node_entry_def by (rule for_first_eqI) (simp_all add: zero_nodes MRAPI_MAX_NODES_def)
  show "node_entry_of 0 3 zero_database = MRAPI_MAX_NODES" by (simp add: node_entry_of_def for_first_none zero_nodes)
qed

theorem mrapi_node_start_stop_witness:
  "\<exists>q r. mrapi_initialize \<lparr>database_attaches = True, semaphore_created = True\<rparr> 7 1 3 0 True first_thread = Some (MRAPI_SUCCESS, q) \<and>
     mrapi_impl_whoami q = Some (3, 0, 1, 0) \<and> mrapi_finalize 7 q = Some (MRAPI_SUCCESS, r)"
proof -
  have f: "fresh_thread first_thread" "mdb first_thread = zero_database"
    by (simp_all add: fresh_thread_def first_thread_def mrapi_impl_initialized_def mrapi_impl_whoami_def)
  have d: "place_of_domain 1 0 (mdb first_thread)"
    by (simp add: f place_of_domain_def zero_database_def MRAPI_MAX_DOMAINS_def)
  have n: "\<forall>m<MRAPI_MAX_NODES. n_valid (d_nodes (m_domains (mdb first_thread) 0) m) \<longrightarrow> n_node_num (d_nodes (m_domains (mdb first_thread) 0) m) \<noteq> 3"
    "0 < MRAPI_MAX_NODES" "\<not> n_valid (d_nodes (m_domains (mdb first_thread) 0) 0)"
    "\<forall>m<0. n_valid (d_nodes (m_domains (mdb first_thread) 0) m)"
    by (simp_all add: f zero_nodes MRAPI_MAX_NODES_def)
  let ?os = "\<lparr>database_attaches = True, semaphore_created = True\<rparr>"
  have os: "database_attaches ?os" "semaphore_created ?os" "(7::int) \<noteq> - 1" by simp_all
  show ?thesis using mrapi_node_start_stop [OF f(1) os d n, of 0]
  proof (elim exE conjE, goal_cases)
    case (1 q)
    from 1(10) [THEN spec, of "mdb q"] obtain r where "mrapi_finalize 7 q = Some (MRAPI_SUCCESS, r)" by auto
    with 1(1,2) show ?case by auto
  qed
qed

section \<open>What a stop leaves behind\<close>

text \<open>
  A thread that has stopped its node while its process has another one still counts as initialized: a second stop succeeds, and
  removes whichever node has the place by then.
\<close>

lemma second_stop:
  assumes p: "live_node p" and other: "d < MRAPI_MAX_DOMAINS" "n < MRAPI_MAX_NODES" "(d, n) \<noteq> (unat (mrapi_dindex p), unat (mrapi_nindex p))"
    "n_valid (d_nodes (m_domains (mdb p) d) n)" "n_pid (d_nodes (m_domains (mdb p) d) n) = pid"
  shows "\<exists>q. mrapi_finalize pid p = Some (MRAPI_SUCCESS, q) \<and> mrapi_impl_initialized q \<and>
     mrapi_nindex q = mrapi_nindex p \<and> mrapi_dindex q = mrapi_dindex p"
proof -
  let ?db = "mrapi_impl_finalize_node_locked (unat (mrapi_dindex p)) (unat (mrapi_nindex p)) (mdb p)"
  have "n_valid (d_nodes (m_domains ?db d) n) \<and> n_pid (d_nodes (m_domains ?db d) n) = pid"
    using other by (auto simp: stop_valid_nodes stop_pids)
  with other(1,2) have "\<exists>d<MRAPI_MAX_DOMAINS. \<exists>n<MRAPI_MAX_NODES. n_valid (d_nodes (m_domains ?db d) n) \<and> n_pid (d_nodes (m_domains ?db d) n) = pid"
    by blast
  moreover obtain q where q: "mrapi_finalize pid p = Some (MRAPI_SUCCESS, q)" "mrapi_pid q = mrapi_pid p" "mrapi_nindex q = mrapi_nindex p"
    "mrapi_dindex q = mrapi_dindex p" "mrapi_db_attached q = (\<exists>d<MRAPI_MAX_DOMAINS. \<exists>n<MRAPI_MAX_NODES.
       n_valid (d_nodes (m_domains ?db d) n) \<and> n_pid (d_nodes (m_domains ?db d) n) = pid)"
    using stop_eq [OF p refl, of pid] by (elim exE conjE)
  ultimately have "mrapi_db_attached q" by (simp only:)
  with q(2) p have "mrapi_impl_initialized q"
    by (simp add: mrapi_impl_initialized_def mrapi_impl_whoami_def live_node_def mrapi_caller_def)
  with q(1,3,4) show ?thesis by (intro exI [of _ q] conjI)
qed

text \<open>The locks that a node holds stay held when it stops: the slots of the entry are untouched.\<close>

lemma stop_keeps_slots:
  assumes "s < MRAPI_MAX_SEMS"
  shows "locks (m_sems (mrapi_impl_finalize_node_locked d n db) s) = locks (m_sems db s)"
  using stop_entry [OF assms, of d n db] by (simp add: left_entry_def Let_def)

end
