(* ===== verification/MRAPI_Copy.thy ===== *)
theory MRAPI_Copy
  imports MRAPI_Rmem MRAPI_Exclusion
begin

text \<open>
  What the accesses to remote memory do. The loop over the strides is a strided copy, given as a function of the address, as
  long as its 16-bit counter can reach the bound; the calls that pass the checks are that copy, and bytes that one node
  writes are those that another reads.
\<close>

section \<open>Strided copies\<close>

text \<open>
  The copy as the interface describes it: \<open>num\<close> accesses of \<open>bytes\<close> bytes, the \<open>i\<close>-th from
  \<open>src + i * src_stride\<close> to \<open>dst + i * dst_stride\<close>.
\<close>

definition strided_copy :: "addr \<Rightarrow> nat \<Rightarrow> addr \<Rightarrow> nat \<Rightarrow> nat \<Rightarrow> nat \<Rightarrow> memory \<Rightarrow> memory" where
  "strided_copy dst dst_stride src src_stride bytes num mem = (\<lambda>a.
     if dst \<le> a \<and> (a - dst) div dst_stride < num \<and> (a - dst) mod dst_stride < bytes
     then mem (src + (a - dst) div dst_stride * src_stride + (a - dst) mod dst_stride) else mem a)"

lemma strided_copy_at:
  assumes "i < num" and "j < bytes" and "bytes \<le> dst_stride"
  shows "strided_copy dst dst_stride src src_stride bytes num mem (dst + i * dst_stride + j) = mem (src + i * src_stride + j)"
  using assms by (simp add: strided_copy_def)

lemma strided_copy_other:
  assumes "\<And>i j. i < num \<Longrightarrow> j < bytes \<Longrightarrow> a \<noteq> dst + i * dst_stride + j"
  shows "strided_copy dst dst_stride src src_stride bytes num mem a = mem a"
  using assms [of "(a - dst) div dst_stride" "(a - dst) mod dst_stride"] by (auto simp: strided_copy_def)

lemma strided_copy_outside:
  assumes "bytes \<le> dst_stride" and "a < dst \<or> dst + num * dst_stride \<le> a"
  shows "strided_copy dst dst_stride src src_stride bytes num mem a = mem a"
proof (rule strided_copy_other)
  fix i j assume "i < num" "j < bytes"
  then have "i * dst_stride + j < num * dst_stride"
    using assms(1) mult_le_mono1 [of "Suc i" num dst_stride] by simp
  then show "a \<noteq> dst + i * dst_stride + j" using assms(2) by auto
qed

lemma mapped_iff: "mapped mem a n \<longleftrightarrow> (\<forall>b. a \<le> b \<and> b < a + n \<longrightarrow> mem b \<noteq> None)"
proof -
  have "(\<forall>j<n. mem (a + j) \<noteq> None) \<longleftrightarrow> (\<forall>b. a \<le> b \<and> b < a + n \<longrightarrow> mem b \<noteq> None)" (is "?l \<longleftrightarrow> ?r")
  proof (intro iffI allI impI)
    fix b assume ?l "a \<le> b \<and> b < a + n"
    then show "mem b \<noteq> None" by (auto dest: spec [of _ "b - a"])
  qed simp
  then show ?thesis by (simp add: mapped_def list_all_iff Ball_def)
qed

lemma mapped_sub: "mapped mem a n \<Longrightarrow> a \<le> b \<Longrightarrow> b + m \<le> a + n \<Longrightarrow> mapped mem b m"
  by (auto simp: mapped_iff)

lemma apart_sub: "apart a n b m \<Longrightarrow> a \<le> a' \<Longrightarrow> a' + n' \<le> a + n \<Longrightarrow> b \<le> b' \<Longrightarrow> b' + m' \<le> b + m \<Longrightarrow> apart a' n' b' m'"
  by (auto simp: apart_def)

text \<open>One access, and then the others.\<close>

lemma strided_copy_Suc:
  assumes "bytes \<le> ds" and "bytes \<le> ss" and apart: "apart dst (Suc n * ds) src (Suc n * ss)"
    and m: "m = (\<lambda>a. if dst \<le> a \<and> a < dst + bytes then mem (src + (a - dst)) else mem a)"
  shows "strided_copy (dst + ds) ds (src + ss) ss bytes n m = strided_copy dst ds src ss bytes (Suc n) mem"
proof
  fix a
  show "strided_copy (dst + ds) ds (src + ss) ss bytes n m a = strided_copy dst ds src ss bytes (Suc n) mem a"
  proof (cases "dst + ds \<le> a")
    case False
    then show ?thesis using assms(1) by (auto simp: strided_copy_def m)
  next
    case True
    define q where "q = a - (dst + ds)"
    have a: "a = dst + ds + q" using True by (simp add: q_def)
    show ?thesis
    proof (cases "q div ds < n \<and> q mod ds < bytes")
      case True
      then have pos: "0 < ds" using assms(1) by (cases ds) auto
      have "q div ds * ss + q mod ds < n * ss"
        using True assms(2) mult_le_mono1 [of "Suc (q div ds)" n ss] by simp
      moreover have "apart dst bytes src (Suc n * ss)"
        using apart by (rule apart_sub) (use assms(1) in simp_all)
      ultimately have "m (src + ss + q div ds * ss + q mod ds) = mem (src + ss + q div ds * ss + q mod ds)"
        by (auto simp: m apart_def)
      moreover have "(ds + q) div ds = Suc (q div ds)" using pos by (simp add: div_add_self1)
      ultimately show ?thesis using True by (simp add: strided_copy_def a algebra_simps)
    next
      case no: False
      have "m a = mem a" using assms(1) by (simp add: m a)
      moreover have "(ds + q) div ds = Suc (q div ds)" if "0 < ds" using that by (simp add: div_add_self1)
      ultimately show ?thesis using no by (cases "ds = 0") (use assms(1) in \<open>auto simp: strided_copy_def a\<close>)
    qed
  qed
qed

lemma u16_step:
  assumes "Suc i \<le> n" and "n < 2 ^ 16"
  shows "(ucast (word_of_nat i :: u16) :: u32) < word_of_nat n" and "word_of_nat i + 1 = (word_of_nat (Suc i) :: u16)"
  using assms by (simp_all add: word_less_nat_alt unsigned_ucast_eq unsigned_take_bit_eq unat_of_nat take_bit_nat_eq_self)

lemma copy_loop_strided:
  assumes "i + n = k" and "k < 2 ^ 16" and "bytes \<le> ds" and "bytes \<le> ss" and "apart dst (n * ds) src (n * ss)"
    and "mapped mem dst (n * ds)" and "mapped mem src (n * ss)"
  shows "copy_loop (word_of_nat i) (word_of_nat k) dst ds src ss bytes mem = Some (strided_copy dst ds src ss bytes n mem)"
  using assms
proof (induction n arbitrary: i dst src mem)
  case 0
  then have "\<not> (ucast (word_of_nat i :: u16) :: u32) < word_of_nat k"
    by (simp add: word_less_nat_alt unsigned_ucast_eq unsigned_take_bit_eq unat_of_nat take_bit_nat_eq_self)
  then show ?case by (simp add: copy_loop.simps strided_copy_def)
next
  case (Suc n)
  define m where "m = (\<lambda>a. if dst \<le> a \<and> a < dst + bytes then mem (src + (a - dst)) else mem a)"
  have src: "mapped mem src bytes" using Suc.prems(7) by (rule mapped_sub) (use Suc.prems(4) in simp_all)
  have dst: "mapped mem dst bytes" using Suc.prems(6) by (rule mapped_sub) (use Suc.prems(3) in simp_all)
  have far: "apart dst bytes src bytes" using Suc.prems(5) by (rule apart_sub) (use Suc.prems(3,4) in simp_all)
  have cpy: "mem_copy dst src bytes mem = Some m" using src dst far by (simp add: mem_copy_def m_def)
  have all: "m a \<noteq> None" if "mem a \<noteq> None" for a
    using that src by (auto simp: m_def mapped_iff dest: spec [of _ "src + (a - dst)"])
  have "copy_loop (word_of_nat (Suc i)) (word_of_nat k) (dst + ds) ds (src + ss) ss bytes m =
      Some (strided_copy (dst + ds) ds (src + ss) ss bytes n m)"
  proof (rule Suc.IH)
    show "mapped m (dst + ds) (n * ds)" and "mapped m (src + ss) (n * ss)"
      using Suc.prems(6,7) all by (auto simp: mapped_iff)
    show "apart (dst + ds) (n * ds) (src + ss) (n * ss)" using Suc.prems(5) by (rule apart_sub) simp_all
  qed (use Suc.prems in simp_all)
  moreover have "strided_copy (dst + ds) ds (src + ss) ss bytes n m = strided_copy dst ds src ss bytes (Suc n) mem"
    using Suc.prems(3-5) m_def by (rule strided_copy_Suc)
  ultimately show ?case
    using u16_step [of i k] Suc.prems(1,2) cpy by (subst copy_loop.simps) (simp add: add.commute)
qed

text \<open>A bound beyond the counter's range is never reached: the loop does not return.\<close>

lemma copy_loop_forever:
  assumes "2 ^ 16 \<le> unat num"
  shows "copy_loop i num dst ds src ss bytes mem = None"
proof (cases "copy_loop i num dst ds src ss bytes mem")
  case (Some mem')
  have below: "(ucast (j :: u16) :: u32) < num" for j
    using unsigned_less [of j, where 'a = nat] assms
    by (simp add: word_less_nat_alt unsigned_ucast_eq unsigned_take_bit_eq take_bit_nat_eq_self)
  have "num \<noteq> num"
  proof (rule copy_loop.raw_induct [where P = "\<lambda>i n dst ds src ss bytes mem mem'. n \<noteq> num", OF _ Some])
    fix f and i :: u16 and n :: u32 and dst ds src ss bytes mem mem'
    assume IH: "\<And>i n dst ds src ss bytes mem mem'. f i n dst ds src ss bytes mem = Some mem' \<Longrightarrow> n \<noteq> num"
      and eq: "(if ucast i < n then Option.bind (mem_copy dst src bytes mem) (f (i + 1) n (dst + ds) ds (src + ss) ss bytes) else Some mem) = Some mem'"
    show "n \<noteq> num" using eq below [of i] by (auto simp: bind_eq_Some_conv split: if_splits dest: IH)
  qed
  then show ?thesis by simp
qed

section \<open>Accesses that pass the checks\<close>

text \<open>A caller that is attached to the valid segment \<open>r\<close> behind the handle.\<close>

definition rmem_user :: "mrapi_sys \<Rightarrow> u32 \<Rightarrow> nat \<Rightarrow> bool" where
  "rmem_user p h r \<longleftrightarrow> mrapi_caller p \<and> mrapi_impl_decode_hndl h = Some r \<and> r < MRAPI_MAX_RMEMS \<and>
     r_valid (m_rmems (mdb p) r) \<and> r_nodes (m_rmems (mdb p) r) (unat (mrapi_nindex p)) = 1"

text \<open>An access of \<open>num\<close> strides at \<open>off\<close> that stays below \<open>len\<close>.\<close>

definition access_fits :: "u32 \<Rightarrow> u32 \<Rightarrow> u32 \<Rightarrow> u32 \<Rightarrow> u32 \<Rightarrow> nat \<Rightarrow> bool" where
  "access_fits off bytes num rs ls len \<longleftrightarrow>
     bytes \<le> rs \<and> bytes \<le> ls \<and> unat num < 2 ^ 16 \<and> unat rs * unat num < 2 ^ 32 \<and> unat off + unat rs * unat num \<le> len"

lemma rmem_check_pass:
  assumes "rmem_user p h r" and "bytes \<le> rs" and "bytes \<le> ls"
  shows "rmem_access_check h bytes rs ls p = Some (MRAPI_SUCCESS, p)"
proof -
  have p: "mrapi_caller p" using assms(1) by (simp add: rmem_user_def)
  have "mrapi_impl_valid_rmem_hndl h p = Some (True, p)" unfolding mrapi_impl_valid_rmem_hndl_def
    by (rule with_section_eq [OF p]) (use assms p in \<open>simp_all add: rmem_user_def\<close>)
  moreover have "mrapi_impl_rmem_attached h p = Some (True, p)" unfolding mrapi_impl_rmem_attached_def
    by (rule with_section_eq [OF p]) (use assms p in \<open>simp_all add: rmem_user_def caller_whoami [OF p]\<close>)
  ultimately show ?thesis using assms p by (simp add: rmem_access_check_def not_less)
qed

lemma stride_product:
  assumes "unat (rs :: u32) * unat num < 2 ^ 32"
  shows "uint (rs * num) = uint rs * uint num"
proof -
  have "int (unat rs * unat num) < int (2 ^ 32)" using assms by (simp only: of_nat_less_iff)
  then show ?thesis using uint_mult_lem [of rs num] by simp
qed

lemma access_loop:
  assumes fits: "access_fits off bytes num rs ls len" and "apart dst (unat num * unat ds) src (unat num * unat ss)"
    and "mapped mem dst (unat num * unat ds)" and "mapped mem src (unat num * unat ss)"
    and "ds = rs \<and> ss = ls \<or> ds = ls \<and> ss = rs"
  shows "copy_loop 0 num dst (unat ds) src (unat ss) (unat bytes) mem =
     Some (strided_copy dst (unat ds) src (unat ss) (unat bytes) (unat num) mem)"
  using assms copy_loop_strided [of 0 "unat num" "unat num" "unat bytes" "unat ds" "unat ss" dst src mem]
  by (auto simp: access_fits_def word_le_nat_alt)

text \<open>What the two calls share: the checks, and the span in the segment and in the buffer.\<close>

definition good_access :: "mrapi_sys \<Rightarrow> u32 \<Rightarrow> nat \<Rightarrow> mrapi_rmem \<Rightarrow> u32 \<Rightarrow> addr \<Rightarrow> u32 \<Rightarrow> u32 \<Rightarrow> u32 \<Rightarrow> u32 \<Rightarrow> u32 \<Rightarrow> memory \<Rightarrow> bool" where
  "good_access p h r e off buf loff bytes num rs ls mem \<longleftrightarrow>
     rmem_user p h r \<and> m_rmems (mdb p) r = e \<and> access_fits off bytes num rs ls (r_size e) \<and>
     mapped mem (r_addr e) (r_size e) \<and> mapped mem (buf + unat loff) (unat num * unat ls) \<and>
     apart (buf + unat loff) (unat num * unat ls) (r_addr e) (r_size e)"

lemma good_accessD:
  assumes "good_access p h r e off buf loff bytes num rs ls mem"
  shows "mrapi_caller p" and "rmem_index h = Some r" and "r_valid e" and "m_rmems (mdb p) r = e"
    and "rmem_access_check h bytes rs ls p = Some (MRAPI_SUCCESS, p)" and "uint (rs * num) = uint rs * uint num"
    and "access_fits off bytes num rs ls (r_size e)" and "mapped mem (buf + unat loff) (unat num * unat ls)"
    and "mapped mem (r_addr e + unat off) (unat num * unat rs)"
    and "apart (buf + unat loff) (unat num * unat ls) (r_addr e + unat off) (unat num * unat rs)"
    and "apart (r_addr e + unat off) (unat num * unat rs) (buf + unat loff) (unat num * unat ls)"
proof -
  have *: "rmem_user p h r" "m_rmems (mdb p) r = e" and fits: "access_fits off bytes num rs ls (r_size e)"
    and mapped: "mapped mem (r_addr e) (r_size e)" "mapped mem (buf + unat loff) (unat num * unat ls)"
    and apart: "apart (buf + unat loff) (unat num * unat ls) (r_addr e) (r_size e)"
    using assms by (auto simp: good_access_def)
  show "mrapi_caller p" "rmem_index h = Some r" "r_valid e" "m_rmems (mdb p) r = e" "access_fits off bytes num rs ls (r_size e)"
    "mapped mem (buf + unat loff) (unat num * unat ls)"
    using * fits mapped(2) by (auto simp: rmem_user_def rmem_index_def)
  show "rmem_access_check h bytes rs ls p = Some (MRAPI_SUCCESS, p)"
    using *(1) fits by (intro rmem_check_pass) (simp_all add: access_fits_def)
  show "uint (rs * num) = uint rs * uint num" using fits by (intro stride_product) (simp add: access_fits_def)
  show "mapped mem (r_addr e + unat off) (unat num * unat rs)"
    using mapped(1) by (rule mapped_sub) (use fits in \<open>simp_all add: access_fits_def mult.commute\<close>)
  show far: "apart (buf + unat loff) (unat num * unat ls) (r_addr e + unat off) (unat num * unat rs)"
    using apart by (rule apart_sub) (use fits in \<open>simp_all add: access_fits_def mult.commute\<close>)
  then show "apart (r_addr e + unat off) (unat num * unat rs) (buf + unat loff) (unat num * unat ls)"
    by (auto simp: apart_def)
qed

lemma rmem_read_strided:
  assumes g: "good_access p h r e off buf loff bytes num rs ls mem" and "unat off + unat rs * unat num < r_size e"
  shows "mrapi_rmem_read h off buf loff bytes num rs ls mem p =
     Some ((MRAPI_SUCCESS, strided_copy (buf + unat loff) (unat ls) (r_addr e + unat off) (unat rs) (unat bytes) (unat num) mem), p)"
proof -
  note d = good_accessD [OF g]
  have "int (unat off + unat rs * unat num) < int (r_size e)" using assms(2) by (simp only: of_nat_less_iff)
  then have inside: "uint off + uint rs * uint num < int (r_size e)" by simp
  have "mrapi_impl_rmem_read h off buf loff bytes num rs ls mem p =
     Some ((True, strided_copy (buf + unat loff) (unat ls) (r_addr e + unat off) (unat rs) (unat bytes) (unat num) mem), p)"
    unfolding mrapi_impl_rmem_read_def
    by (rule with_section_eq [OF d(1)])
      (use d inside access_loop [OF d(7,10,8,9)] in \<open>simp_all add: Let_def\<close>)
  then show ?thesis by (simp add: mrapi_rmem_read_def d(5))
qed

lemma rmem_write_strided:
  assumes g: "good_access p h r e off buf loff bytes num rs ls mem" and "unat off + unat rs * unat num + unat bytes \<le> r_size e"
  shows "mrapi_rmem_write h off buf loff bytes num rs ls mem p =
     Some ((MRAPI_SUCCESS, strided_copy (r_addr e + unat off) (unat rs) (buf + unat loff) (unat ls) (unat bytes) (unat num) mem), p)"
proof -
  note d = good_accessD [OF g]
  have "int (unat off + unat rs * unat num + unat bytes) \<le> int (r_size e)" using assms(2) by (simp only: of_nat_le_iff)
  then have inside: "uint off + uint rs * uint num + uint bytes \<le> int (r_size e)" by simp
  have "mrapi_impl_rmem_write h off buf loff bytes num rs ls mem p =
     Some ((True, strided_copy (r_addr e + unat off) (unat rs) (buf + unat loff) (unat ls) (unat bytes) (unat num) mem), p)"
    unfolding mrapi_impl_rmem_write_def
    by (rule with_section_eq [OF d(1)])
      (use d inside access_loop [OF d(7,11,9,8)] in \<open>simp_all add: Let_def\<close>)
  then show ?thesis by (simp add: mrapi_rmem_write_def d(5))
qed

text \<open>
  C12: what an access to remote memory does. A call with valid arguments - an attached caller, strides that are not below
  the width of an access, fewer than 65536 strides, a span that fits in 32 bits - whose span ends strictly inside the segment
  is the strided copy that the interface describes, between the segment and the local buffer, and nothing else: reading
  copies to the buffer, and writing, where the width of one more access fits as well, from it. An access of width 0 is among
  the valid ones: it copies nothing and reports success.
\<close>

theorem rmem_access_is_strided_copy:
  assumes "rmem_user p h r" and "e = m_rmems (mdb p) r" and "access_fits off bytes num rs ls (r_size e)"
    and "mapped mem (r_addr e) (r_size e)" and "mapped mem (buf + unat loff) (unat num * unat ls)"
    and "apart (buf + unat loff) (unat num * unat ls) (r_addr e) (r_size e)"
  shows "(unat off + unat rs * unat num < r_size e \<longrightarrow> mrapi_rmem_read h off buf loff bytes num rs ls mem p =
       Some ((MRAPI_SUCCESS, strided_copy (buf + unat loff) (unat ls) (r_addr e + unat off) (unat rs) (unat bytes) (unat num) mem), p)) \<and>
     (unat off + unat rs * unat num + unat bytes \<le> r_size e \<longrightarrow> mrapi_rmem_write h off buf loff bytes num rs ls mem p =
       Some ((MRAPI_SUCCESS, strided_copy (r_addr e + unat off) (unat rs) (buf + unat loff) (unat ls) (unat bytes) (unat num) mem), p))"
proof -
  have "good_access p h r e off buf loff bytes num rs ls mem" using assms by (simp add: good_access_def)
  from rmem_read_strided [OF this] rmem_write_strided [OF this] show ?thesis by blast
qed

section \<open>From one node to another\<close>

lemma strided_copy_mapped:
  assumes "mapped mem src (num * ss)" and "bytes \<le> ss" and "mapped mem a n"
  shows "mapped (strided_copy dst ds src ss bytes num mem) a n"
proof -
  have "mem (src + q * ss + k) \<noteq> None" if "q < num" "k < bytes" for q k
  proof -
    have "q * ss + k < num * ss" using that assms(2) mult_le_mono1 [of "Suc q" num ss] by simp
    then show ?thesis using assms(1) by (simp add: mapped_iff)
  qed
  then show ?thesis using assms(3) by (auto simp: mapped_iff strided_copy_def)
qed

text \<open>
  Remote memory carries bytes between nodes. If one attached node writes a strided block from its buffer and another
  then reads it, with the same span, into a buffer of its own, both report success and the reader's buffer holds, access by
  access and byte by byte, what the writer's held.
\<close>

theorem rmem_write_then_read:
  assumes users: "rmem_user p h r" "rmem_user q h r" "mdb q = mdb p" and seg: "e = m_rmems (mdb p) r"
    and fits: "access_fits off bytes num rs ls (r_size e)" "access_fits off bytes num rs ls' (r_size e)"
    and inside: "unat off + unat rs * unat num + unat bytes \<le> r_size e"
    and mapped: "mapped mem (r_addr e) (r_size e)" "mapped mem (buf + unat loff) (unat num * unat ls)" "mapped mem (buf' + unat loff') (unat num * unat ls')"
    and apart: "apart (buf + unat loff) (unat num * unat ls) (r_addr e) (r_size e)" "apart (buf' + unat loff') (unat num * unat ls') (r_addr e) (r_size e)"
    and ij: "i < unat num" "j < unat bytes"
  shows "\<exists>mem' mem''. mrapi_rmem_write h off buf loff bytes num rs ls mem p = Some ((MRAPI_SUCCESS, mem'), p) \<and>
     mrapi_rmem_read h off buf' loff' bytes num rs ls' mem' q = Some ((MRAPI_SUCCESS, mem''), q) \<and>
     mem'' (buf' + unat loff' + i * unat ls' + j) = mem (buf + unat loff + i * unat ls + j)"
proof -
  define mem' where "mem' = strided_copy (r_addr e + unat off) (unat rs) (buf + unat loff) (unat ls) (unat bytes) (unat num) mem"
  define mem'' where "mem'' = strided_copy (buf' + unat loff') (unat ls') (r_addr e + unat off) (unat rs) (unat bytes) (unat num) mem'"
  have widths: "unat bytes \<le> unat rs" "unat bytes \<le> unat ls" "unat bytes \<le> unat ls'"
    using fits by (simp_all add: access_fits_def word_le_nat_alt)
  have put: "mrapi_rmem_write h off buf loff bytes num rs ls mem p = Some ((MRAPI_SUCCESS, mem'), p)"
    unfolding mem'_def using users fits(1) mapped apart(1) inside by (intro rmem_write_strided) (simp_all add: good_access_def seg)
  have "mapped mem' (r_addr e) (r_size e)" "mapped mem' (buf' + unat loff') (unat num * unat ls')"
    unfolding mem'_def by (rule strided_copy_mapped [OF mapped(2) widths(2)], rule mapped)+
  then have "good_access q h r e off buf' loff' bytes num rs ls' mem'"
    using users fits(2) apart(2) by (simp add: good_access_def seg)
  then have got: "mrapi_rmem_read h off buf' loff' bytes num rs ls' mem' q = Some ((MRAPI_SUCCESS, mem''), q)"
    unfolding mem''_def using inside ij(2) by (intro rmem_read_strided) simp_all
  have "mem'' (buf' + unat loff' + i * unat ls' + j) = mem' (r_addr e + unat off + i * unat rs + j)"
    unfolding mem''_def by (rule strided_copy_at [OF ij widths(3)])
  also have "\<dots> = mem (buf + unat loff + i * unat ls + j)"
    unfolding mem'_def by (rule strided_copy_at [OF ij widths(1)])
  finally show ?thesis using put got by blast
qed

section \<open>Accesses that fail\<close>

text \<open>An access that would overrun the segment is not made, and reports success.\<close>

lemma rmem_overrun_reports_success:
  assumes user: "rmem_user p h r" and seg: "e = m_rmems (mdb p) r" and "bytes \<le> rs" and "bytes \<le> ls"
    and "int (r_size e) \<le> uint off + uint (rs * num)"
  shows "mrapi_rmem_read h off buf loff bytes num rs ls mem p = Some ((MRAPI_SUCCESS, mem), p)"
proof -
  have p: "mrapi_caller p" and r: "rmem_index h = Some r" using user by (simp_all add: rmem_user_def rmem_index_def)
  have "mrapi_impl_rmem_read h off buf loff bytes num rs ls mem p = Some ((False, mem), p)" unfolding mrapi_impl_rmem_read_def
    by (rule with_section_eq [OF p]) (use p r assms(5) in \<open>simp_all add: Let_def flip: seg\<close>)
  then show ?thesis by (simp add: mrapi_rmem_read_def rmem_check_pass [OF user assms(3,4)])
qed

text \<open>So the whole of a segment cannot be read in one access.\<close>

lemma whole_segment_not_read:
  assumes "rmem_user p h r" and "unat bytes = r_size (m_rmems (mdb p) r)"
  shows "mrapi_rmem_read h 0 buf 0 bytes 1 bytes bytes mem p = Some ((MRAPI_SUCCESS, mem), p)"
proof (rule rmem_overrun_reports_success [OF assms(1) refl])
  show "int (r_size (m_rmems (mdb p) r)) \<le> uint 0 + uint (bytes * 1)" by (simp flip: assms(2))
qed simp_all

text \<open>A read of 65536 strides or more that passes the checks does not return.\<close>

lemma long_read_never_returns:
  assumes user: "rmem_user p h r" and seg: "e = m_rmems (mdb p) r" and "bytes \<le> rs" and "bytes \<le> ls"
    and "uint off + uint (rs * num) < int (r_size e)" and "2 ^ 16 \<le> unat num"
  shows "mrapi_rmem_read h off buf loff bytes num rs ls mem p = None"
proof -
  have p: "mrapi_caller p" and r: "rmem_index h = Some r" and v: "r_valid e"
    using user by (simp_all add: rmem_user_def rmem_index_def seg)
  have "mrapi_impl_rmem_read h off buf loff bytes num rs ls mem p = None" unfolding mrapi_impl_rmem_read_def
    by (rule with_section_None [OF p])
      (use r v assms(5) copy_loop_forever [OF assms(6)] in \<open>simp add: Let_def flip: seg\<close>)
  then show ?thesis by (simp add: mrapi_rmem_read_def rmem_check_pass [OF user assms(3,4)])
qed

section \<open>Creating and attaching\<close>

definition new_segment :: "int \<Rightarrow> addr \<Rightarrow> mrapi_attributes option \<Rightarrow> u32 \<Rightarrow> mrapi_rmem \<Rightarrow> mrapi_rmem" where
  "new_segment key a attrs len e = e\<lparr>r_key := key, r_valid := True, r_addr := a, r_size := unat len, access_type := MRAPI_RMEM_DUMMY,
     r_attributes := sem_attributes_of attrs (r_attributes e)\<rparr>"

lemma rmem_create_new:
  assumes p: "mrapi_caller p" and "unat (num_rmems (mdb p)) \<noteq> MRAPI_MAX_RMEMS"
    and "\<forall>r<MRAPI_MAX_RMEMS. \<not> (r_valid (m_rmems (mdb p) r) \<and> r_key (m_rmems (mdb p) r) = key)"
    and i: "i < MRAPI_MAX_RMEMS" "\<not> r_valid (m_rmems (mdb p) i)" "\<forall>r<i. r_valid (m_rmems (mdb p) r)"
  shows "mrapi_rmem_create key a MRAPI_RMEM_DUMMY attrs len p = Some ((mrapi_impl_encode_hndl (word_of_nat i), MRAPI_SUCCESS),
     p\<lparr>mdb := (upd_rmem i (new_segment key a attrs len) (mdb p))\<lparr>num_rmems := num_rmems (mdb p) + 1\<rparr>\<rparr>)"
proof -
  have none: "for_first (\<lambda>r. r_valid (m_rmems (mdb p) r) \<and> r_key (m_rmems (mdb p) r) = key) 0 MRAPI_MAX_RMEMS = MRAPI_MAX_RMEMS"
    using assms(3) by (simp add: for_first_none)
  have first: "for_first (\<lambda>r. \<not> r_valid (m_rmems (mdb p) r)) 0 MRAPI_MAX_RMEMS = i"
    using i by (intro for_first_eqI) auto
  have "mrapi_impl_rmem_exists key p = Some (False, p)" unfolding mrapi_impl_rmem_exists_def
    by (rule with_section_eq [OF p]) (simp_all add: p none)
  moreover have "mrapi_impl_rmem_create key a MRAPI_RMEM_DUMMY attrs len p = Some ((mrapi_impl_encode_hndl (word_of_nat i), MRAPI_SUCCESS),
     p\<lparr>mdb := (upd_rmem i (new_segment key a attrs len) (mdb p))\<lparr>num_rmems := num_rmems (mdb p) + 1\<rparr>\<rparr>)"
    unfolding mrapi_impl_rmem_create_def
    by (rule with_section_eq [OF p])
      (use p i(1) assms(2) in \<open>simp_all add: caller_whoami [OF p] none first Let_def new_segment_def\<close>)
  ultimately show ?thesis using p by (simp add: mrapi_rmem_create_def mrapi_impl_rmem_validID_def mrapi_impl_valid_atype_def)
qed

lemma rmem_attach_user:
  assumes p: "mrapi_caller p" and r: "mrapi_impl_decode_hndl h = Some r" "r < MRAPI_MAX_RMEMS" and v: "r_valid (m_rmems (mdb p) r)"
    and new: "r_nodes (m_rmems (mdb p) r) (unat (mrapi_nindex p)) = 0"
  shows "\<exists>q. mrapi_rmem_attach h access p = Some (MRAPI_SUCCESS, q) \<and> rmem_user q h r \<and>
     q = p\<lparr>mdb := upd_rmem r (\<lambda>e. e\<lparr>r_nodes := (r_nodes e)(unat (mrapi_nindex p) := 1), r_refs := r_refs e + 1\<rparr>) (mdb p)\<rparr>"
proof -
  define q where "q = p\<lparr>mdb := upd_rmem r (\<lambda>e. e\<lparr>r_nodes := (r_nodes e)(unat (mrapi_nindex p) := 1), r_refs := r_refs e + 1\<rparr>) (mdb p)\<rparr>"
  have "mrapi_impl_valid_rmem_hndl h p = Some (True, p)" unfolding mrapi_impl_valid_rmem_hndl_def
    by (rule with_section_eq [OF p]) (use assms in simp_all)
  moreover have "mrapi_impl_rmem_attach h p = Some (True, q)" unfolding mrapi_impl_rmem_attach_def
    by (rule with_section_eq [OF p]) (use assms in \<open>simp_all add: caller_whoami [OF p] rmem_index_def q_def\<close>)
  ultimately have "mrapi_rmem_attach h access p = Some (MRAPI_SUCCESS, q)" using p by (simp add: mrapi_rmem_attach_def)
  moreover have "rmem_user q h r" using assms by (simp add: rmem_user_def q_def)
  ultimately show ?thesis using q_def by blast
qed

text \<open>
  The first node makes the 16 bytes at 100 remote memory with the key 5, and both nodes attach to it. Their local buffers are
  at 200 and 300.
\<close>

definition shared_segment :: mrapi_rmem where
  "shared_segment = (new_segment 5 100 None 16 zero_rmem)\<lparr>r_nodes := (\<lambda>_. 0)(0 := 1, 1 := 1), r_refs := 2\<rparr>"

definition shared_db :: mrapi_database where
  "shared_db = (upd_rmem 0 (\<lambda>_. shared_segment) zero_database)\<lparr>num_rmems := 1\<rparr>"

definition bytes_from :: "addr \<Rightarrow> memory" where
  "bytes_from n = (\<lambda>a. if a < 400 then Some (word_of_nat (a + n)) else None)"

lemma shared_db_run:
  "\<exists>p q. mrapi_rmem_create 5 100 MRAPI_RMEM_DUMMY None 16 (node_of 0) = Some ((0x80000000, MRAPI_SUCCESS), p) \<and>
     mrapi_rmem_attach 0x80000000 MRAPI_RMEM_DUMMY p = Some (MRAPI_SUCCESS, q) \<and>
     mrapi_rmem_attach 0x80000000 MRAPI_RMEM_DUMMY ((node_of 1)\<lparr>mdb := mdb q\<rparr>) = Some (MRAPI_SUCCESS, (node_of 1)\<lparr>mdb := shared_db\<rparr>)"
proof -
  have h: "mrapi_impl_encode_hndl 0 = 0x80000000" by (simp add: mrapi_impl_encode_hndl_def)
  have d: "mrapi_impl_decode_hndl 0x80000000 = Some 0" "0 < MRAPI_MAX_RMEMS"
    by (simp_all add: mrapi_impl_decode_hndl_def hndl_index_def MRAPI_MAX_RMEMS_def)
  have n: "mrapi_nindex (node_of k) = k" "mdb (node_of k) = zero_database" for k by (simp_all add: node_of_def)
  define db where "db = (upd_rmem 0 (new_segment 5 100 None 16) zero_database)\<lparr>num_rmems := 1\<rparr>"
  have "mrapi_rmem_create 5 100 MRAPI_RMEM_DUMMY None 16 (node_of 0) = Some ((0x80000000, MRAPI_SUCCESS), (node_of 0)\<lparr>mdb := db\<rparr>)"
    using rmem_create_new [of "node_of 0" 5 0 100 None 16]
    by (simp add: node_of_caller h db_def) (simp add: n zero_database_def zero_rmem_def MRAPI_MAX_RMEMS_def)
  moreover obtain q where q: "mrapi_rmem_attach 0x80000000 MRAPI_RMEM_DUMMY ((node_of 0)\<lparr>mdb := db\<rparr>) = Some (MRAPI_SUCCESS, q)"
    "mdb q = upd_rmem 0 (\<lambda>e. e\<lparr>r_nodes := (r_nodes e)(0 := 1), r_refs := 1\<rparr>) db"
    using rmem_attach_user [of "(node_of 0)\<lparr>mdb := db\<rparr>" "0x80000000" 0 MRAPI_RMEM_DUMMY] d
    by (auto simp: node_of_caller db_def new_segment_def zero_database_def zero_rmem_def n)
  moreover have "mrapi_rmem_attach 0x80000000 MRAPI_RMEM_DUMMY ((node_of 1)\<lparr>mdb := mdb q\<rparr>) = Some (MRAPI_SUCCESS, (node_of 1)\<lparr>mdb := shared_db\<rparr>)"
    using rmem_attach_user [of "(node_of 1)\<lparr>mdb := mdb q\<rparr>" "0x80000000" 0 MRAPI_RMEM_DUMMY] d
    by (auto simp: node_of_caller q(2) db_def new_segment_def zero_database_def zero_rmem_def n shared_db_def shared_segment_def)
  ultimately show ?thesis by blast
qed

lemma shared_users: "rmem_user ((node_of 0)\<lparr>mdb := shared_db\<rparr>) 0x80000000 0" "rmem_user ((node_of 1)\<lparr>mdb := shared_db\<rparr>) 0x80000000 0"
  by (simp_all add: rmem_user_def node_of_caller mrapi_impl_decode_hndl_def hndl_index_def MRAPI_MAX_RMEMS_def shared_db_def
      shared_segment_def new_segment_def) (simp_all add: node_of_def)

lemma shared_segment_at: "m_rmems shared_db 0 = shared_segment" "r_addr shared_segment = 100" "r_size shared_segment = 16"
  by (simp_all add: shared_db_def shared_segment_def new_segment_def)

lemma bytes_mapped: "a + n \<le> 400 \<Longrightarrow> mapped (bytes_from k) a n"
  by (simp add: mapped_iff bytes_from_def)

theorem rmem_access_is_strided_copy_witness:
  "mrapi_rmem_read 0x80000000 1 200 0 2 3 4 2 (bytes_from 0) ((node_of 0)\<lparr>mdb := shared_db\<rparr>) =
     Some ((MRAPI_SUCCESS, strided_copy 200 2 101 4 2 3 (bytes_from 0)), (node_of 0)\<lparr>mdb := shared_db\<rparr>)"
  using rmem_access_is_strided_copy [OF shared_users(1) refl, of 1 2 3 4 2 "bytes_from 0" 200 0]
  by (simp add: shared_segment_at access_fits_def apart_def bytes_mapped)

theorem rmem_write_then_read_witness:
  "\<exists>mem' mem''. mrapi_rmem_write 0x80000000 1 200 0 2 3 4 2 (bytes_from 0) ((node_of 0)\<lparr>mdb := shared_db\<rparr>) =
       Some ((MRAPI_SUCCESS, mem'), (node_of 0)\<lparr>mdb := shared_db\<rparr>) \<and>
     mrapi_rmem_read 0x80000000 1 300 8 2 3 4 2 mem' ((node_of 1)\<lparr>mdb := shared_db\<rparr>) =
       Some ((MRAPI_SUCCESS, mem''), (node_of 1)\<lparr>mdb := shared_db\<rparr>) \<and> mem'' 313 = Some 205"
  using rmem_write_then_read [OF shared_users _ refl, of 1 2 3 4 2 2 "bytes_from 0" 200 0 300 8 2 1]
  by (simp add: shared_segment_at access_fits_def apart_def bytes_mapped) (simp add: bytes_from_def)

end
