(* ===== verification/MRAPI_Requests.thy ===== *)
theory MRAPI_Requests
  imports MRAPI_Copy
begin

text \<open>
  Test, wait and cancel for MRAPI's requests (\<open>Fragments/mrapi_vtime.c\<close>): the calls over the pool of requests of
  \<open>MRAPI_Database\<close>, and what becomes of the request of a non-blocking access. The sizes of completed operations are
  never written. No other node's calls come between the steps of one call here.
\<close>

section \<open>The calls\<close>

definition mrapi_test :: "u32 \<Rightarrow> mrapi_sys \<Rightarrow> ((bool \<times> mrapi_status) \<times> mrapi_sys) option" where
  "mrapi_test request sys =
     (if \<not> mrapi_impl_initialized sys then Some ((False, MRAPI_ERR_NODE_NOTINIT), sys)
      else do {
        (ok, sys) \<leftarrow> mrapi_impl_valid_request_hndl request sys;
        if \<not> ok then Some ((False, MRAPI_ERR_REQUEST_INVALID), sys)
        else do {
          (status, sys) \<leftarrow> mrapi_impl_test request sys;
          Some ((True, status), sys)}})"

text \<open>
  The loop of a wait counts its turns up to the timeout. \<open>mrapi_impl_test\<close> returns true or fails its assertion, so the
  first turn is the last.
\<close>

definition mrapi_wait :: "u32 \<Rightarrow> u32 \<Rightarrow> mrapi_sys \<Rightarrow> ((bool \<times> mrapi_status) \<times> mrapi_sys) option" where
  "mrapi_wait request timeout sys =
     (if \<not> mrapi_impl_initialized sys then Some ((False, MRAPI_ERR_NODE_NOTINIT), sys)
      else if 0 < timeout then do {
        (ok, sys) \<leftarrow> mrapi_impl_valid_request_hndl request sys;
        if \<not> ok then Some ((False, MRAPI_ERR_REQUEST_INVALID), sys)
        else do {
          (cancelled, sys) \<leftarrow> mrapi_impl_canceled_request request sys;
          if cancelled then Some ((False, MRAPI_ERR_REQUEST_CANCELED), sys)
          else do {
            (status, sys) \<leftarrow> mrapi_impl_test request sys;
            Some ((True, MRAPI_SUCCESS), sys)}}}
      else Some ((False, MRAPI_TIMEOUT), sys))"

text \<open>
  One pass over the requests: the index of the first that is completed and its status, or no index and the status that the
  last request left.
\<close>

fun wait_any_pass :: "nat \<Rightarrow> u32 list \<Rightarrow> mrapi_status \<Rightarrow> mrapi_sys \<Rightarrow> ((nat option \<times> mrapi_status) \<times> mrapi_sys) option" where
  "wait_any_pass i [] status sys = Some ((None, status), sys)"
| "wait_any_pass i (request # requests) status sys = do {
     (ok, sys) \<leftarrow> mrapi_impl_valid_request_hndl request sys;
     if \<not> ok then wait_any_pass (Suc i) requests MRAPI_ERR_REQUEST_INVALID sys
     else do {
       (cancelled, sys) \<leftarrow> mrapi_impl_canceled_request request sys;
       if cancelled then wait_any_pass (Suc i) requests MRAPI_ERR_REQUEST_CANCELED sys
       else do {
         (status, sys) \<leftarrow> mrapi_impl_test request sys;
         Some ((Some i, status), sys)}}}"

text \<open>
  The passes: the index that ran over the requests is the one that is compared with the timeout, so the number of
  passes is not counted. \<open>None\<close> is also a call that goes on for ever. An array of requests has fewer than
  \<open>2 ^ 32 - 1\<close> members.
\<close>

definition MRAPI_RETURN_VALUE_INVALID :: u32 where "MRAPI_RETURN_VALUE_INVALID = - 1"

partial_function (option) wait_any_loop ::
  "u32 list \<Rightarrow> u32 \<Rightarrow> mrapi_status \<Rightarrow> mrapi_sys \<Rightarrow> ((u32 \<times> mrapi_status) \<times> mrapi_sys) option" where
  "wait_any_loop requests timeout status sys = Option.bind (wait_any_pass 0 requests status sys) (\<lambda>r.
     case fst (fst r) of
       Some i \<Rightarrow> Some ((word_of_nat i, snd (fst r)), snd r)
     | None \<Rightarrow>
         if word_of_nat (length requests) + 1 < timeout then wait_any_loop requests timeout (snd (fst r)) (snd r)
         else Some ((MRAPI_RETURN_VALUE_INVALID, snd (fst r)), snd r))"

definition mrapi_wait_any :: "u32 list \<Rightarrow> u32 \<Rightarrow> mrapi_sys \<Rightarrow> ((u32 \<times> mrapi_status) \<times> mrapi_sys) option" where
  "mrapi_wait_any requests timeout sys =
     (if \<not> mrapi_impl_initialized sys then Some ((MRAPI_RETURN_VALUE_INVALID, MRAPI_ERR_NODE_NOTINIT), sys)
      else wait_any_loop requests timeout MRAPI_TIMEOUT sys)"

definition mrapi_cancel :: "u32 \<Rightarrow> mrapi_sys \<Rightarrow> mrapi_status" where
  "mrapi_cancel request sys = (if \<not> mrapi_impl_initialized sys then MRAPI_ERR_NODE_NOTINIT else MRAPI_SUCCESS)"

section \<open>Requests of a caller\<close>

definition put_request :: "nat \<Rightarrow> mrapi_request_data \<Rightarrow> mrapi_sys \<Rightarrow> mrapi_sys" where
  "put_request i r p = p\<lparr>mdb := (mdb p)\<lparr>m_requests := (m_requests (mdb p))(i := r)\<rparr>\<rparr>"

lemma put_request_simps [simp]:
  "mrapi_caller (put_request i r p) = mrapi_caller p" "m_requests (mdb (put_request i r p)) = (m_requests (mdb p))(i := r)"
  "m_rmems (mdb (put_request i r p)) = m_rmems (mdb p)" "put_request i r' (put_request i r p) = put_request i r' p"
  "mrapi_nindex (put_request i r p) = mrapi_nindex p"
  by (simp_all add: put_request_def mrapi_caller_def)

lemma request_checks:
  assumes "mrapi_caller p"
  shows "mrapi_impl_valid_request_hndl h p = Some (valid_request_index h (mdb p) \<noteq> None, p)"
    and "mrapi_impl_canceled_request h p = Some (case valid_request_index h (mdb p) of None \<Rightarrow> False | Some r \<Rightarrow> q_cancelled (m_requests (mdb p) r), p)"
  unfolding mrapi_impl_valid_request_hndl_def mrapi_impl_canceled_request_def
  by (rule with_section_eq [OF assms]; simp add: assms split: option.split)+

lemma request_test:
  assumes "mrapi_caller p" and "valid_request_index h (mdb p) = Some r"
  shows "mrapi_impl_test h p = (if q_completed (m_requests (mdb p) r)
     then Some (q_status (m_requests (mdb p) r), put_request r zero_mrequest p) else None)"
proof (cases "q_completed (m_requests (mdb p) r)")
  case True
  have "mrapi_impl_test h p = Some (q_status (m_requests (mdb p) r), put_request r zero_mrequest p)" unfolding mrapi_impl_test_def
    by (rule with_section_eq [OF assms(1)]) (use assms True in \<open>simp_all add: put_request_def\<close>)
  with True show ?thesis by simp
next
  case False
  have "mrapi_impl_test h p = None" unfolding mrapi_impl_test_def
    by (rule with_section_None [OF assms(1)]) (use assms False in simp)
  with False show ?thesis by simp
qed

text \<open>
  A handle has room for an index of eight bits; the pool has 1024 requests. The handle of one beyond the first 256 is not
  taken for that request but for one of the first.
\<close>

lemma request_hndl_short: "mrapi_impl_decode_hndl (mrapi_impl_encode_hndl (word_of_nat (256 + i))) = mrapi_impl_decode_hndl (mrapi_impl_encode_hndl (word_of_nat i))"
proof -
  let ?w = "\<lambda>s. ucast (word_of_nat s :: u16) :: u32"
  have "(0x80000000 OR w) AND 0xff = take_bit 8 w" for w :: u32
    by (simp add: word_ao_dist flip: take_bit_eq_mask) (simp add: take_bit_eq_mask mask_eq_exp_minus_1 ac_simps)
  moreover have "(0x80000000 OR w) AND 0x80000000 = 0x80000000" for w :: u32 by (rule bit_word_eqI) (auto simp: bit_simps)
  moreover have "take_bit 8 (?w (256 + i)) = take_bit 8 (?w i)"
  proof -
    have "take_bit 8 (256 + i) = take_bit 8 i" by (simp add: take_bit_eq_mod)
    then have "(word_of_nat (take_bit 8 (256 + i)) :: u16) = word_of_nat (take_bit 8 i)" by simp
    then have "take_bit 8 (word_of_nat (256 + i) :: u16) = take_bit 8 (word_of_nat i)" by (simp only: take_bit_of_nat)
    moreover have "take_bit 8 (ucast w :: u32) = ucast (take_bit 8 w)" for w :: u16 by (auto intro!: bit_eqI simp: bit_simps)
    ultimately show ?thesis by simp
  qed
  ultimately show ?thesis by (simp add: mrapi_impl_decode_hndl_def mrapi_impl_encode_hndl_def hndl_index_def)
qed

section \<open>Waiting for any of several\<close>

text \<open>A request that a call completes, and the status that a pass leaves for one that it skips.\<close>

definition ready_request :: "mrapi_database \<Rightarrow> u32 \<Rightarrow> bool" where
  "ready_request db h \<longleftrightarrow> (case valid_request_index h db of None \<Rightarrow> False | Some r \<Rightarrow> \<not> q_cancelled (m_requests db r))"

definition skip_status :: "mrapi_database \<Rightarrow> u32 \<Rightarrow> mrapi_status" where
  "skip_status db h = (case valid_request_index h db of None \<Rightarrow> MRAPI_ERR_REQUEST_INVALID | Some r \<Rightarrow> MRAPI_ERR_REQUEST_CANCELED)"

definition requests_complete :: "mrapi_database \<Rightarrow> bool" where
  "requests_complete db \<longleftrightarrow> (\<forall>r<MRAPI_MAX_REQUESTS. q_valid (m_requests db r) \<longrightarrow> q_completed (m_requests db r))"

lemma valid_request_complete:
  "requests_complete db \<Longrightarrow> valid_request_index h db = Some r \<Longrightarrow> r < MRAPI_MAX_REQUESTS \<and> q_completed (m_requests db r)"
  by (auto simp: requests_complete_def valid_request_index_def split: option.splits if_splits)

lemma pass_skips:
  assumes "mrapi_caller p" and "\<forall>h\<in>set hs. \<not> ready_request (mdb p) h"
  shows "wait_any_pass i (hs @ rest) status p =
     wait_any_pass (i + length hs) rest (if hs = [] then status else skip_status (mdb p) (last hs)) p"
  using assms(2)
proof (induction hs arbitrary: i status)
  case (Cons h hs)
  then show ?case
    using assms(1) by (auto simp: ready_request_def skip_status_def request_checks split: option.splits)
qed simp

lemma pass_takes:
  assumes "mrapi_caller p" and "requests_complete (mdb p)" and "ready_request (mdb p) h" and "valid_request_index h (mdb p) = Some r"
  shows "wait_any_pass i (h # rest) status p = Some ((Some i, q_status (m_requests (mdb p) r)), put_request r zero_mrequest p)"
  using assms valid_request_complete [OF assms(2,4)] by (simp add: ready_request_def request_checks request_test)

text \<open>A loop whose turns leave everything as it was does not return.\<close>

lemma wait_any_spins:
  assumes "mrapi_caller p" and "\<forall>h\<in>set hs. \<not> ready_request (mdb p) h" and "word_of_nat (length hs) + 1 < timeout"
  shows "wait_any_loop hs timeout status p = None"
proof (cases "wait_any_loop hs timeout status p")
  case (Some res)
  have pass: "wait_any_pass 0 hs status p = Some ((None, if hs = [] then status else skip_status (mdb p) (last hs)), p)" for status
    using pass_skips [OF assms(1,2), of 0 "[]" status] by simp
  have "(hs, timeout, p) \<noteq> (hs, timeout, p)"
  proof (rule wait_any_loop.raw_induct [where P = "\<lambda>rs t status q res. (rs, t, q) \<noteq> (hs, timeout, p)", OF _ Some])
    fix f rs t status q res
    assume IH: "\<And>rs t status q res. f rs t status q = Some res \<Longrightarrow> (rs, t, q) \<noteq> (hs, timeout, p)"
      and eq: "Option.bind (wait_any_pass 0 rs status q) (\<lambda>r. case fst (fst r) of Some i \<Rightarrow> Some ((word_of_nat i, snd (fst r)), snd r)
         | None \<Rightarrow> if word_of_nat (length rs) + 1 < t then f rs t (snd (fst r)) (snd r) else Some ((MRAPI_RETURN_VALUE_INVALID, snd (fst r)), snd r)) = Some res"
    show "(rs, t, q) \<noteq> (hs, timeout, p)"
    proof
      assume "(rs, t, q) = (hs, timeout, p)"
      with eq pass assms(3) have "f hs timeout (if hs = [] then status else skip_status (mdb p) (last hs)) p = Some res" by simp
      from IH [OF this] show False by simp
    qed
  qed
  then show ?thesis by simp
qed

section \<open>The request of a non-blocking access\<close>

definition claimed_request :: "mrapi_sys \<Rightarrow> nat \<Rightarrow> mrapi_request_data" where
  "claimed_request p i = (m_requests (mdb p) i)\<lparr>q_valid := True, q_domain_id := mrapi_domain_id p, q_node_num := mrapi_node_id p, q_cancelled := False\<rparr>"

text \<open>The first request of the pool that is free.\<close>

definition free_request :: "mrapi_sys \<Rightarrow> nat \<Rightarrow> bool" where
  "free_request p i \<longleftrightarrow> i < MRAPI_MAX_REQUESTS \<and> \<not> q_valid (m_requests (mdb p) i) \<and> (\<forall>j<i. q_valid (m_requests (mdb p) j))"

lemma setup_first:
  assumes "mrapi_caller p" and "free_request p i"
  shows "mrapi_impl_setup_request p = Some (i, put_request i (claimed_request p i) p)"
proof -
  have "for_first (\<lambda>i. \<not> q_valid (m_requests (mdb p) i)) 0 MRAPI_MAX_REQUESTS = i"
    using assms(2) by (intro for_first_eqI) (auto simp: free_request_def)
  then show ?thesis unfolding mrapi_impl_setup_request_def
    by (intro with_section_eq [OF assms(1)])
      (use assms in \<open>simp_all add: caller_whoami [OF assms(1)] free_request_def put_request_def claimed_request_def\<close>)
qed

lemma complete_request_eq:
  assumes "mrapi_caller p"
  shows "complete_request i st p = Some (mrapi_impl_encode_hndl (word_of_nat i),
     put_request i ((m_requests (mdb p) i)\<lparr>q_completed := True, q_status := st\<rparr>) p)"
  unfolding complete_request_def by (rule with_section_eq [OF assms]) (use assms in \<open>simp_all add: put_request_def\<close>)

lemma wait_completed_request:
  assumes "mrapi_caller p" and "valid_request_index h (mdb p) = Some r" and "q_completed (m_requests (mdb p) r)"
    and "\<not> q_cancelled (m_requests (mdb p) r)" and "0 < timeout"
  shows "mrapi_wait h timeout p = Some ((True, MRAPI_SUCCESS), put_request r zero_mrequest p)"
  using assms by (simp add: mrapi_wait_def request_checks request_test)

lemma wait_invalid:
  assumes "mrapi_caller p" and "valid_request_index h (mdb p) = None" and "0 < timeout"
  shows "mrapi_wait h timeout p = Some ((False, MRAPI_ERR_REQUEST_INVALID), p)"
  using assms by (simp add: mrapi_wait_def request_checks)

lemma put_request_access:
  "good_access (put_request i x p) h r e off buf loff bytes num rs ls mem = good_access p h r e off buf loff bytes num rs ls mem"
  by (simp add: good_access_def rmem_user_def)

lemma read_inside:
  assumes g: "good_access p h r e off buf loff bytes num rs ls mem" and "unat off + unat rs * unat num < r_size e"
  shows "mrapi_impl_rmem_read h off buf loff bytes num rs ls mem p =
     Some ((True, strided_copy (buf + unat loff) (unat ls) (r_addr e + unat off) (unat rs) (unat bytes) (unat num) mem), p)"
proof -
  note d = good_accessD [OF g]
  have "int (unat off + unat rs * unat num) < int (r_size e)" using assms(2) by (simp only: of_nat_less_iff)
  then have inside: "uint off + uint rs * uint num < int (r_size e)" by simp
  show ?thesis unfolding mrapi_impl_rmem_read_def
    by (rule with_section_eq [OF d(1)])
      (use d inside access_loop [OF d(7,10,8,9)] in \<open>simp_all add: Let_def\<close>)
qed

text \<open>The state once the non-blocking read has returned: one completed request more.\<close>

definition read_done :: "mrapi_sys \<Rightarrow> nat \<Rightarrow> mrapi_sys" where
  "read_done p i = put_request i ((claimed_request p i)\<lparr>q_completed := True, q_status := MRAPI_SUCCESS\<rparr>) p"

lemma nonblocking_read_returns:
  assumes g: "good_access p h r e off buf loff bytes num rs ls mem" and "unat off + unat rs * unat num < r_size e" and i: "free_request p i"
  shows "mrapi_rmem_read_i h off buf loff bytes num rs ls mem p =
     Some ((Some (mrapi_impl_encode_hndl (word_of_nat i)), MRAPI_SUCCESS,
       strided_copy (buf + unat loff) (unat ls) (r_addr e + unat off) (unat rs) (unat bytes) (unat num) mem), read_done p i)"
proof -
  note d = good_accessD [OF g]
  note read = read_inside [OF _ assms(2), of "put_request i (claimed_request p i) p"]
  show ?thesis using g i d(1)
    by (simp add: mrapi_rmem_read_i_def d(5) mrapi_impl_rmem_read_i_def setup_first read put_request_access complete_request_eq
        free_request_def read_done_def)
qed

text \<open>
  C20: a non-blocking read of remote memory is the blocking read and a request. If the first free request is among the first
  256, then the call with valid arguments copies what the blocking call copies and returns a handle; a wait on that handle
  with a timeout that is not 0 succeeds, frees the request and leaves everything else as it was before the read; and a second
  wait reports an invalid request. As for the blocking call, the width 0 is a valid argument.
\<close>

theorem nonblocking_read_then_wait:
  assumes g: "good_access p h r e off buf loff bytes num rs ls mem" and "unat off + unat rs * unat num < r_size e"
    and i: "free_request p i" "i < 256" and "0 < timeout"
  shows "\<exists>request mem' q. mrapi_rmem_read_i h off buf loff bytes num rs ls mem p = Some ((Some request, MRAPI_SUCCESS, mem'), q) \<and>
     mrapi_rmem_read h off buf loff bytes num rs ls mem p = Some ((MRAPI_SUCCESS, mem'), p) \<and>
     mrapi_wait request timeout q = Some ((True, MRAPI_SUCCESS), put_request i zero_mrequest p) \<and>
     mrapi_wait request timeout (put_request i zero_mrequest p) = Some ((False, MRAPI_ERR_REQUEST_INVALID), put_request i zero_mrequest p)"
proof -
  define request where "request = mrapi_impl_encode_hndl (word_of_nat i)"
  have p: "mrapi_caller p" by (rule good_accessD [OF g])
  have dec: "mrapi_impl_decode_hndl request = Some i" unfolding request_def using i(2) by (rule mrapi_hndl_roundtrip)
  have "mrapi_wait request timeout (read_done p i) = Some ((True, MRAPI_SUCCESS), put_request i zero_mrequest p)"
    using wait_completed_request [of "read_done p i" request i timeout] p assms(5) i dec
    by (simp add: read_done_def claimed_request_def valid_request_index_def free_request_def)
  moreover have "mrapi_wait request timeout (put_request i zero_mrequest p) = Some ((False, MRAPI_ERR_REQUEST_INVALID), put_request i zero_mrequest p)"
    using p assms(5) dec by (intro wait_invalid) (simp_all add: valid_request_index_def zero_mrequest_def)
  ultimately show ?thesis
    using nonblocking_read_returns [OF g assms(2) i(1)] rmem_read_strided [OF g assms(2)] by (simp add: request_def)
qed

theorem nonblocking_read_then_wait_witness:
  "\<exists>request mem' q. mrapi_rmem_read_i 0x80000000 1 200 0 2 3 4 2 (bytes_from 0) ((node_of 0)\<lparr>mdb := shared_db\<rparr>) = Some ((Some request, MRAPI_SUCCESS, mem'), q) \<and>
     mrapi_rmem_read 0x80000000 1 200 0 2 3 4 2 (bytes_from 0) ((node_of 0)\<lparr>mdb := shared_db\<rparr>) = Some ((MRAPI_SUCCESS, mem'), (node_of 0)\<lparr>mdb := shared_db\<rparr>) \<and>
     mrapi_wait request 5 q = Some ((True, MRAPI_SUCCESS), put_request 0 zero_mrequest ((node_of 0)\<lparr>mdb := shared_db\<rparr>)) \<and>
     mrapi_wait request 5 (put_request 0 zero_mrequest ((node_of 0)\<lparr>mdb := shared_db\<rparr>)) =
       Some ((False, MRAPI_ERR_REQUEST_INVALID), put_request 0 zero_mrequest ((node_of 0)\<lparr>mdb := shared_db\<rparr>))"
proof (rule nonblocking_read_then_wait)
  show "good_access ((node_of 0)\<lparr>mdb := shared_db\<rparr>) 0x80000000 0 shared_segment 1 200 0 2 3 4 2 (bytes_from 0)"
    using shared_users by (simp add: good_access_def shared_segment_at access_fits_def apart_def bytes_mapped)
  show "free_request ((node_of 0)\<lparr>mdb := shared_db\<rparr>) 0"
    by (simp add: free_request_def shared_db_def zero_database_def zero_mrequest_def MRAPI_MAX_REQUESTS_def)
qed (simp_all add: shared_segment_at)

text \<open>
  C38: what a wait for any of several requests returns, where every request of the pool is completed. If some request of the
  array is ready - valid and not cancelled - it is the index of the first such and the status of its operation, and the
  request is freed. If there is none, the call returns the status that the last request leaves if the timeout is at most one
  more than the number of requests, and otherwise it never returns. The empty array is no special case: it gives the timeout
  status, or the call never returns.
\<close>

theorem wait_any_outcome:
  assumes p: "mrapi_caller p" and "requests_complete (mdb p)" and skip: "\<forall>h\<in>set hs. \<not> ready_request (mdb p) h"
  shows "mrapi_wait_any hs timeout p = (if word_of_nat (length hs) + 1 < timeout then None
       else Some ((MRAPI_RETURN_VALUE_INVALID, if hs = [] then MRAPI_TIMEOUT else skip_status (mdb p) (last hs)), p)) \<and>
     (ready_request (mdb p) h \<and> valid_request_index h (mdb p) = Some r \<longrightarrow>
       mrapi_wait_any (hs @ h # rest) timeout p =
         Some ((word_of_nat (length hs), q_status (m_requests (mdb p) r)), put_request r zero_mrequest p))"
proof -
  have "mrapi_wait_any hs timeout p = (if word_of_nat (length hs) + 1 < timeout then None
       else Some ((MRAPI_RETURN_VALUE_INVALID, if hs = [] then MRAPI_TIMEOUT else skip_status (mdb p) (last hs)), p))"
  proof (cases "word_of_nat (length hs) + 1 < timeout")
    case True
    then show ?thesis using p wait_any_spins [OF p skip] by (simp add: mrapi_wait_any_def)
  next
    case False
    then show ?thesis using p pass_skips [OF p skip, of 0 "[]" MRAPI_TIMEOUT]
      by (simp add: mrapi_wait_any_def wait_any_loop.simps [of hs])
  qed
  moreover have "mrapi_wait_any (hs @ h # rest) timeout p =
         Some ((word_of_nat (length hs), q_status (m_requests (mdb p) r)), put_request r zero_mrequest p)"
    if "ready_request (mdb p) h" "valid_request_index h (mdb p) = Some r"
    using p pass_takes [OF p assms(2) that] pass_skips [OF p skip, of 0 "h # rest"]
    by (simp add: mrapi_wait_any_def wait_any_loop.simps [of "hs @ h # rest"])
  ultimately show ?thesis by blast
qed

theorem wait_any_outcome_witness:
  "mrapi_wait_any [0] 1 (node_of 0) = Some ((MRAPI_RETURN_VALUE_INVALID, MRAPI_ERR_REQUEST_INVALID), node_of 0) \<and>
   mrapi_wait_any [0] 3 (node_of 0) = None"
proof -
  have "requests_complete (mdb (node_of 0))" "\<not> ready_request (mdb (node_of 0)) 0" "skip_status (mdb (node_of 0)) 0 = MRAPI_ERR_REQUEST_INVALID"
    by (simp_all add: node_of_def zero_database_def zero_mrequest_def requests_complete_def ready_request_def skip_status_def
        valid_request_index_def mrapi_impl_decode_hndl_def)
  then show ?thesis
    using wait_any_outcome [of "node_of 0" "[0]" 1 0 0 "[]"] wait_any_outcome [of "node_of 0" "[0]" 3 0 0 "[]"] by (simp add: node_of_caller)
qed

section \<open>Calls that say too much\<close>

text \<open>A wait that may wait for no time does not look at the request, and one that succeeds drops the operation's status.\<close>

lemma wait_zero_times_out: "mrapi_caller p \<Longrightarrow> mrapi_wait h 0 p = Some ((False, MRAPI_TIMEOUT), p)"
  by (simp add: mrapi_wait_def)

lemma wait_drops_status:
  assumes "mrapi_caller p" and "valid_request_index h (mdb p) = Some r" and "q_completed (m_requests (mdb p) r)"
    and "\<not> q_cancelled (m_requests (mdb p) r)"
  shows "mrapi_wait h 1 p = Some ((True, MRAPI_SUCCESS), put_request r zero_mrequest p)"
    and "mrapi_test h p = Some ((True, q_status (m_requests (mdb p) r)), put_request r zero_mrequest p)"
  using assms by (simp_all add: wait_completed_request mrapi_test_def request_checks request_test)

text \<open>A cancel succeeds whatever it is given.\<close>

lemma cancel_succeeds: "mrapi_caller p \<Longrightarrow> mrapi_cancel h p = MRAPI_SUCCESS"
  by (simp add: mrapi_cancel_def)

end
