(* ===== verification/MRAPI_Atomic.thy ===== *)
theory MRAPI_Atomic
  imports MRAPI_Types
begin

text \<open>
  Atomic operations on words in shared memory (\<open>sysvr4/Fragments/sysvr4_atomic.c\<close> with GCC on Unix,
  \<open>mrapi_impl_spec_atomic.c\<close>, \<open>Fragments/mrapi_atomic.c\<close>) and the barriers that synchronize them between two processes.

  Every access to the shared memory is one turn, before which the other processes make theirs: \<open>env t\<close> is what they do to
  the memory before the access made at time \<open>t\<close>. The result \<open>None\<close> is a failed assertion or a call that spins for ever.
  Only the words of one width and the two fields of a message that the code touches are modelled; the words that are
  operated on are not those fields. A null pointer for an optional result is the same call with its result ignored.
\<close>

section \<open>Messages, barriers, accesses\<close>

datatype mrapi_atomic_mode = MRAPI_ATOMIC_WRITE | MRAPI_ATOMIC_READ | MRAPI_ATOMIC_NONE

primrec mode_byte :: "mrapi_atomic_mode \<Rightarrow> byte" where
  "mode_byte MRAPI_ATOMIC_WRITE = 0"
| "mode_byte MRAPI_ATOMIC_READ = 1"
| "mode_byte MRAPI_ATOMIC_NONE = 2"

text \<open>\<open>msg_writer\<close> is not in the code: it notes who made the counter odd and is never read.\<close>

record mrapi_msg =
  msg_valid :: byte
  msg_counter :: u16
  msg_writer :: "int option"

record (overloaded) ('w :: len) atomic_mem =
  msgs :: "nat \<Rightarrow> mrapi_msg"
  words :: "nat \<Rightarrow> 'w word"

record (overloaded) ('w :: len) atomic_run =
  amem :: "'w atomic_mem"
  now :: nat

record mrapi_atomic_barrier =
  axb_mode :: mrapi_atomic_mode
  axb_xchg :: bool
  axb_timeout :: u32
  axb_src :: int
  axb_dest :: int
  axb_elems :: u32
  axb_pindex :: "u32 option"
  last_counter :: u16
  axb_hold :: bool
  axb_override :: bool
  axb_active :: bool

type_synonym 'w turns = "nat \<Rightarrow> 'w atomic_mem \<Rightarrow> 'w atomic_mem"

definition access :: "'w :: len turns \<Rightarrow> ('w atomic_mem \<Rightarrow> 'a \<times> 'w atomic_mem) \<Rightarrow> 'w atomic_run \<Rightarrow> 'a \<times> 'w atomic_run" where
  "access env f w = (let (r, m) = f (env (now w) (amem w)) in (r, w\<lparr>amem := m, now := Suc (now w)\<rparr>))"

definition upd_msg :: "nat \<Rightarrow> (mrapi_msg \<Rightarrow> mrapi_msg) \<Rightarrow> 'w :: len atomic_mem \<Rightarrow> 'w atomic_mem" where
  "upd_msg i f m = m\<lparr>msgs := (msgs m)(i := f (msgs m i))\<rparr>"

text \<open>The accesses to the fields of a message that \<open>sys_atomic_read\<close> and \<open>sys_atomic_cas\<close> make without a barrier.\<close>

definition read_valid :: "nat \<Rightarrow> 'w :: len atomic_mem \<Rightarrow> byte \<times> 'w atomic_mem" where
  "read_valid i m = (msg_valid (msgs m i), m)"

definition read_counter :: "nat \<Rightarrow> 'w :: len atomic_mem \<Rightarrow> u16 \<times> 'w atomic_mem" where
  "read_counter i m = (msg_counter (msgs m i), m)"

definition cas_valid :: "nat \<Rightarrow> byte \<Rightarrow> byte \<Rightarrow> 'w :: len atomic_mem \<Rightarrow> bool \<times> 'w atomic_mem" where
  "cas_valid i compare exchange m =
     (if msg_valid (msgs m i) = compare then (True, upd_msg i (\<lambda>e. e\<lparr>msg_valid := exchange\<rparr>) m) else (False, m))"

definition cas_counter :: "nat \<Rightarrow> u16 \<Rightarrow> u16 \<Rightarrow> int option \<Rightarrow> 'w :: len atomic_mem \<Rightarrow> bool \<times> 'w atomic_mem" where
  "cas_counter i compare exchange who m =
     (if msg_counter (msgs m i) = compare
      then (True, upd_msg i (\<lambda>e. e\<lparr>msg_counter := exchange, msg_writer := who\<rparr>) m) else (False, m))"

section \<open>Spinning\<close>

text \<open>What is left of the timeout after a turn that did not get access.\<close>

definition spin_again :: "u32 \<Rightarrow> u32 option" where
  "spin_again timeout =
     (if timeout = MRAPI_TIMEOUT_INFINITE then Some timeout
      else if timeout = 0 \<or> timeout - 1 = 0 then None else Some (timeout - 1))"

text \<open>The flag is read twice; the second value decides.\<close>

partial_function (option) exchange_spin :: "'w :: len turns \<Rightarrow> nat \<Rightarrow> byte \<Rightarrow> u32 \<Rightarrow> 'w atomic_run \<Rightarrow> (bool \<times> 'w atomic_run) option" where
  "exchange_spin env i mode timeout w =
     (let w = snd (access env (read_valid i) w); r = access env (read_valid i) w
      in if mode XOR fst r = 0 then Some (True, snd r)
         else case spin_again timeout of None \<Rightarrow> Some (False, snd r)
           | Some timeout \<Rightarrow> exchange_spin env i mode timeout (snd r))"

partial_function (option) read_spin :: "'w :: len turns \<Rightarrow> nat \<Rightarrow> u32 \<Rightarrow> 'w atomic_run \<Rightarrow> ((bool \<times> u16) \<times> 'w atomic_run) option" where
  "read_spin env i timeout w =
     (let r = access env (read_counter i) w
      in if even (fst r) then Some ((True, fst r), snd r)
         else case spin_again timeout of None \<Rightarrow> Some ((False, fst r), snd r)
           | Some timeout \<Rightarrow> read_spin env i timeout (snd r))"

definition claim_counter :: "'w :: len turns \<Rightarrow> nat \<Rightarrow> int \<Rightarrow> u16 \<Rightarrow> 'w atomic_run \<Rightarrow> bool \<times> 'w atomic_run" where
  "claim_counter env i src seen w =
     (if odd (seen + 1) then access env (cas_counter i seen (seen + 1) (Some src)) w else (False, w))"

partial_function (option) write_spin :: "'w :: len turns \<Rightarrow> nat \<Rightarrow> int \<Rightarrow> u32 \<Rightarrow> 'w atomic_run \<Rightarrow> ((bool \<times> u16) \<times> 'w atomic_run) option" where
  "write_spin env i src timeout w =
     (let r = access env (read_counter i) w; s = claim_counter env i src (fst r) (snd r)
      in if fst s then Some ((True, fst r + 1), snd s)
         else case spin_again timeout of None \<Rightarrow> Some ((False, fst r), snd s)
           | Some timeout \<Rightarrow> write_spin env i src timeout (snd s))"

section \<open>Barriers\<close>

text \<open>A barrier acts only between different processes, an exchange always; not while it is held.\<close>

definition needs_sync :: "mrapi_atomic_barrier \<Rightarrow> bool" where
  "needs_sync b \<longleftrightarrow> axb_mode b \<noteq> MRAPI_ATOMIC_NONE \<and> (axb_xchg b \<or> axb_dest b \<noteq> axb_src b) \<and> \<not> axb_active b"

definition barrier_elem :: "mrapi_atomic_barrier \<Rightarrow> nat option" where
  "barrier_elem b = (let idx = (case axb_pindex b of None \<Rightarrow> 0 | Some i \<Rightarrow> i) in if idx < axb_elems b then Some (unat idx) else None)"

definition acquire_elem :: "'w :: len turns \<Rightarrow> nat \<Rightarrow> mrapi_atomic_barrier \<Rightarrow> 'w atomic_run \<Rightarrow>
    (bool \<times> mrapi_atomic_barrier \<times> 'w atomic_run) option" where
  "acquire_elem env i b w =
     (if axb_xchg b then
        if axb_override b
        then Some (True, b, snd (access env (\<lambda>m. ((), upd_msg i (\<lambda>e. e\<lparr>msg_valid := mode_byte (axb_mode b)\<rparr>) m)) w))
        else do {
          (rc, w) \<leftarrow> exchange_spin env i (mode_byte (axb_mode b)) (axb_timeout b) w;
          Some (rc, b, w)}
      else if axb_override b then Some (True, b, w)
      else case axb_mode b of
        MRAPI_ATOMIC_NONE \<Rightarrow> Some (True, b, w)
      | MRAPI_ATOMIC_READ \<Rightarrow> do {
          ((rc, seen), w) \<leftarrow> read_spin env i (axb_timeout b) w;
          Some (rc, b\<lparr>last_counter := seen\<rparr>, w)}
      | MRAPI_ATOMIC_WRITE \<Rightarrow> do {
          ((rc, seen), w) \<leftarrow> write_spin env i (axb_src b) (axb_timeout b) w;
          Some (rc, b\<lparr>last_counter := seen\<rparr>, w)})"

definition try_atomic_barrier_acquire :: "'w :: len turns \<Rightarrow> mrapi_atomic_barrier option \<Rightarrow> 'w atomic_run \<Rightarrow>
    (bool \<times> mrapi_atomic_barrier option \<times> 'w atomic_run) option" where
  "try_atomic_barrier_acquire env sync w = (case sync of
     None \<Rightarrow> Some (True, None, w)
   | Some b \<Rightarrow> do {
       (rc, b, w) \<leftarrow> (if needs_sync b then Option.bind (barrier_elem b) (\<lambda>i. acquire_elem env i b w) else Some (True, b, w));
       Some (rc, Some (b\<lparr>axb_active := axb_hold b\<rparr>), w)})"

text \<open>An exchange flips the flag with \<open>sys_atomic_xchg\<close>: it is read, read again, and exchanged if it is still what it was.\<close>

definition release_elem :: "'w :: len turns \<Rightarrow> nat \<Rightarrow> mrapi_atomic_barrier \<Rightarrow> 'w atomic_run \<Rightarrow> bool \<times> 'w atomic_run" where
  "release_elem env i b w =
     (if axb_xchg b then
        let (valid, w) = access env (read_valid i) w;
            (previous, w) = access env (read_valid i) w;
            (swapped, w) = access env (cas_valid i previous (if valid = 0 then 1 else 0)) w
        in (True, w)
      else case axb_mode b of
        MRAPI_ATOMIC_NONE \<Rightarrow> (True, w)
      | MRAPI_ATOMIC_READ \<Rightarrow> let (counter, w) = access env (read_counter i) w in (last_counter b = counter, w)
      | MRAPI_ATOMIC_WRITE \<Rightarrow> access env (cas_counter i (last_counter b) (last_counter b + 1) None) w)"

definition atomic_barrier_release :: "'w :: len turns \<Rightarrow> mrapi_atomic_barrier option \<Rightarrow> 'w atomic_run \<Rightarrow>
    (bool \<times> mrapi_atomic_barrier option \<times> 'w atomic_run) option" where
  "atomic_barrier_release env sync w = (case sync of
     None \<Rightarrow> Some (True, None, w)
   | Some b \<Rightarrow> do {
       (rc, w) \<leftarrow> (if needs_sync b then map_option (\<lambda>i. release_elem env i b w) (barrier_elem b) else Some (True, w));
       Some (rc, Some (b\<lparr>axb_override := False\<rparr>), w)})"

definition atomic_barrier_mode :: "mrapi_atomic_mode \<Rightarrow> mrapi_atomic_barrier option \<Rightarrow> mrapi_atomic_barrier option" where
  "atomic_barrier_mode mode = map_option (\<lambda>b. b\<lparr>axb_mode := mode\<rparr>)"

definition sys_atomic_barrier_init :: "int \<Rightarrow> int \<Rightarrow> u32 \<Rightarrow> u32 option \<Rightarrow> u32 \<Rightarrow> mrapi_atomic_barrier" where
  "sys_atomic_barrier_init src dest elems pindex timeout =
     \<lparr>axb_mode = MRAPI_ATOMIC_NONE, axb_xchg = False, axb_timeout = timeout, axb_src = src, axb_dest = dest, axb_elems = elems,
      axb_pindex = pindex, last_counter = 0, axb_hold = False, axb_override = False, axb_active = False\<rparr>"

definition sys_atomic_exchange_init :: "int \<Rightarrow> int \<Rightarrow> u32 \<Rightarrow> u32 option \<Rightarrow> u32 \<Rightarrow> mrapi_atomic_barrier" where
  "sys_atomic_exchange_init src dest elems pindex timeout = (sys_atomic_barrier_init src dest elems pindex timeout)\<lparr>axb_xchg := True\<rparr>"

definition sys_atomic_hold :: "mrapi_atomic_barrier \<Rightarrow> bool \<Rightarrow> bool \<times> mrapi_atomic_barrier" where
  "sys_atomic_hold b hold = (axb_hold b, b\<lparr>axb_hold := hold\<rparr>)"

definition sys_atomic_override :: "mrapi_atomic_barrier \<Rightarrow> mrapi_atomic_barrier" where
  "sys_atomic_override b = b\<lparr>axb_override := True\<rparr>"

section \<open>Operations\<close>

text \<open>
  The loop that every operation is: acquire, operate if that succeeded, release, and again if the release fails. The
  operation gets the result so far, because what an earlier turn left in it stays; a width it does not have is an assertion.
\<close>

partial_function (option) atomic_loop :: "'w :: len turns \<Rightarrow> bool \<Rightarrow> ('r \<Rightarrow> 'w atomic_mem \<Rightarrow> 'r \<times> 'w atomic_mem) \<Rightarrow> 'r \<Rightarrow>
    mrapi_atomic_barrier option \<Rightarrow> 'w atomic_run \<Rightarrow> ('r \<times> mrapi_atomic_barrier option \<times> 'w atomic_run) option" where
  "atomic_loop env width_ok f res sync w =
     Option.bind (try_atomic_barrier_acquire env sync w) (\<lambda>a.
       if fst a \<and> \<not> width_ok then None
       else
         let r = (if fst a then access env (f res) (snd (snd a)) else (res, snd (snd a)))
         in Option.bind (atomic_barrier_release env (fst (snd a)) (snd r)) (\<lambda>b.
              if fst b then Some (fst r, snd b) else atomic_loop env width_ok f (fst r) (fst (snd b)) (snd (snd b))))"

type_synonym ('w, 'r) atomic_call =
  "'w turns \<Rightarrow> mrapi_atomic_barrier option \<Rightarrow> 'w atomic_run \<Rightarrow> ('r \<times> mrapi_atomic_barrier option \<times> 'w atomic_run) option"

definition supported :: "'w :: len itself \<Rightarrow> bool" where
  "supported w \<longleftrightarrow> LENGTH('w) \<in> {8, 16, 32, 64}"

definition atomic_write :: "bool \<Rightarrow> ('r \<Rightarrow> 'w :: len atomic_mem \<Rightarrow> 'r \<times> 'w atomic_mem) \<Rightarrow> 'r \<Rightarrow> ('w, 'r) atomic_call" where
  "atomic_write width_ok f res env sync w = atomic_loop env width_ok f res (atomic_barrier_mode MRAPI_ATOMIC_WRITE sync) w"

definition atomic_read :: "bool \<Rightarrow> ('r \<Rightarrow> 'w :: len atomic_mem \<Rightarrow> 'r \<times> 'w atomic_mem) \<Rightarrow> 'r \<Rightarrow> ('w, 'r) atomic_call" where
  "atomic_read width_ok f res env sync w = atomic_loop env width_ok f res (atomic_barrier_mode MRAPI_ATOMIC_READ sync) w"

definition put_word :: "nat \<Rightarrow> 'w :: len word \<Rightarrow> 'w atomic_mem \<Rightarrow> 'w atomic_mem" where
  "put_word a v m = m\<lparr>words := (words m)(a := v)\<rparr>"

text \<open>The result of a call: its boolean, and the word it hands out.\<close>

definition sys_atomic_read :: "nat \<Rightarrow> ('w :: len, bool \<times> 'w word) atomic_call" where
  "sys_atomic_read a = atomic_read (supported TYPE('w)) (\<lambda>res m. ((True, words m a), m)) (False, 0)"

definition sys_atomic_read_ptr :: "nat \<Rightarrow> (64, bool \<times> 64 word) atomic_call" where
  "sys_atomic_read_ptr a = atomic_read True (\<lambda>res m. ((True, words m a), m)) (False, 0)"

definition sys_atomic_add :: "nat \<Rightarrow> 'w word \<Rightarrow> ('w :: len, bool \<times> 'w word) atomic_call" where
  "sys_atomic_add a v = atomic_write (supported TYPE('w)) (\<lambda>res m. ((True, words m a), put_word a (words m a + v) m)) (False, 0)"

definition sys_atomic_inc :: "nat \<Rightarrow> ('w :: len, bool \<times> 'w word) atomic_call" where
  "sys_atomic_inc a = atomic_write (supported TYPE('w)) (\<lambda>res m. ((True, words m a + 1), put_word a (words m a + 1) m)) (False, 0)"

definition sys_atomic_dec :: "nat \<Rightarrow> ('w :: len, bool \<times> 'w word) atomic_call" where
  "sys_atomic_dec a = atomic_write (supported TYPE('w)) (\<lambda>res m. ((True, words m a - 1), put_word a (words m a - 1) m)) (False, 0)"

definition sys_atomic_or :: "nat \<Rightarrow> 'w word \<Rightarrow> ('w :: len, bool \<times> 'w word) atomic_call" where
  "sys_atomic_or a v = atomic_write (supported TYPE('w)) (\<lambda>res m. ((True, words m a), put_word a (words m a OR v) m)) (False, 0)"

definition sys_atomic_and :: "nat \<Rightarrow> 'w word \<Rightarrow> ('w :: len, bool \<times> 'w word) atomic_call" where
  "sys_atomic_and a v = atomic_write (supported TYPE('w)) (\<lambda>res m. ((True, words m a), put_word a (words m a AND v) m)) (False, 0)"

definition sys_atomic_xor :: "nat \<Rightarrow> 'w word \<Rightarrow> ('w :: len, bool \<times> 'w word) atomic_call" where
  "sys_atomic_xor a v = atomic_write (supported TYPE('w)) (\<lambda>res m. ((True, words m a), put_word a (words m a XOR v) m)) (False, 0)"

definition cas_word :: "nat \<Rightarrow> 'w :: len word \<Rightarrow> 'w word \<Rightarrow> bool \<Rightarrow> 'w atomic_mem \<Rightarrow> (bool \<times> 'w word) \<times> 'w atomic_mem" where
  "cas_word a exchange compare rc m =
     ((rc \<or> compare = words m a, words m a), if words m a = compare then put_word a exchange m else m)"

definition sys_atomic_cas :: "nat \<Rightarrow> 'w word \<Rightarrow> 'w word \<Rightarrow> ('w :: len, bool \<times> 'w word) atomic_call" where
  "sys_atomic_cas a exchange compare = atomic_write (supported TYPE('w)) (\<lambda>res. cas_word a exchange compare (fst res)) (False, 0)"

text \<open>
  An exchange reads the word and calls \<open>sys_atomic_cas\<close> with what it read both as the value to compare and as the place of
  the previous value, and ignores whether the call succeeded.
\<close>

definition sys_atomic_xchg :: "nat \<Rightarrow> 'w word \<Rightarrow> ('w :: len, 'w word) atomic_call" where
  "sys_atomic_xchg a exchange env sync w =
     (if \<not> supported TYPE('w) then None
      else let (previous, w) = access env (\<lambda>m. (words m a, m)) w in do {
        (res, sync, w) \<leftarrow> atomic_write True (\<lambda>res. cas_word a exchange (snd res) (fst res)) (False, previous) env sync w;
        Some (snd res, sync, w)})"

definition sys_atomic_cas_ptr :: "nat \<Rightarrow> 64 word \<Rightarrow> 64 word \<Rightarrow> (64, bool \<times> 64 word) atomic_call" where
  "sys_atomic_cas_ptr a exchange compare = atomic_write True (\<lambda>res. cas_word a exchange compare (fst res)) (False, 0)"

text \<open>Here the value to compare is passed by value.\<close>

definition sys_atomic_xchg_ptr :: "nat \<Rightarrow> 64 word \<Rightarrow> (64, 64 word) atomic_call" where
  "sys_atomic_xchg_ptr a exchange env sync w =
     (let (orig, w) = access env (\<lambda>m. (words m a, m)) w in do {
        (res, sync, w) \<leftarrow> atomic_write True (\<lambda>res. cas_word a exchange orig (fst res)) (False, orig) env sync w;
        Some (snd res, sync, w)})"

text \<open>A memory barrier changes nothing; the memory of the model is sequentially consistent.\<close>

definition sys_atomic_sync :: "('w :: len, unit) atomic_call" where
  "sys_atomic_sync = atomic_write True (\<lambda>res m. ((), m)) ()"

definition sys_atomic_lock :: "nat \<Rightarrow> ('w :: len, bool \<times> 'w word) atomic_call" where
  "sys_atomic_lock a = atomic_write (supported TYPE('w)) (\<lambda>res m. ((True, words m a), put_word a 1 m)) (False, 0)"

definition sys_atomic_release :: "nat \<Rightarrow> ('w :: len, bool) atomic_call" where
  "sys_atomic_release a = atomic_write (supported TYPE('w)) (\<lambda>res m. (True, put_word a 0 m)) False"

text \<open>Bits of a word, which has to be one of 32 bits; the first assertion is made before the barrier.\<close>

definition sys_atomic_set :: "nat \<Rightarrow> int \<Rightarrow> ('w :: len, bool \<times> bool) atomic_call" where
  "sys_atomic_set a b env sync w =
     (if 0 \<le> b \<and> b < int LENGTH('w)
      then atomic_write (LENGTH('w) = 32)
        (\<lambda>res m. let orig = bit (words m a) (nat b) in ((\<not> orig, orig), put_word a (set_bit (nat b) (words m a)) m)) (False, False) env sync w
      else None)"

definition sys_atomic_clear :: "nat \<Rightarrow> int \<Rightarrow> ('w :: len, bool \<times> bool) atomic_call" where
  "sys_atomic_clear a b env sync w =
     (if 0 \<le> b \<and> b < int LENGTH('w)
      then atomic_write (LENGTH('w) = 32)
        (\<lambda>res m. let orig = bit (words m a) (nat b) in ((orig, orig), put_word a (unset_bit (nat b) (words m a)) m)) (False, False) env sync w
      else None)"

text \<open>The bound of a change is the number of bytes.\<close>

definition sys_atomic_change :: "nat \<Rightarrow> int \<Rightarrow> ('w :: len, bool \<times> bool) atomic_call" where
  "sys_atomic_change a b env sync w =
     (if 0 \<le> b \<and> b < int (LENGTH('w) div 8)
      then atomic_write (LENGTH('w) = 32)
        (\<lambda>res m. let orig = bit (words m a) (nat b) in ((True, orig), put_word a (flip_bit (nat b) (words m a)) m)) (False, False) env sync w
      else None)"

section \<open>The layers above\<close>

text \<open>
  The statuses of \<open>mrapi_abb.h\<close> are those of \<open>mrapi.h\<close> and the one for a failed operation. Whether the caller is initialized
  is an argument.
\<close>

type_synonym atomic_status = "mrapi_status option"

definition MRAPI_ERR_ATOM_OP_FAILED :: atomic_status where "MRAPI_ERR_ATOM_OP_FAILED = None"

text \<open>The status is written only when the operation failed; the interface writes it when it succeeded.\<close>

definition with_status :: "('w :: len, bool \<times> 'r) atomic_call \<Rightarrow> atomic_status \<Rightarrow> ('w, bool \<times> 'r \<times> atomic_status) atomic_call" where
  "with_status call status env sync w =
     map_option (\<lambda>((rc, r), rest). ((rc, r, if rc then status else MRAPI_ERR_ATOM_OP_FAILED), rest)) (call env sync w)"

definition always_true :: "('w :: len, 'r) atomic_call \<Rightarrow> atomic_status \<Rightarrow> ('w, bool \<times> 'r \<times> atomic_status) atomic_call" where
  "always_true call status env sync w = map_option (\<lambda>(r, rest). ((True, r, status), rest)) (call env sync w)"

definition checked_call :: "bool \<Rightarrow> (atomic_status \<Rightarrow> ('w :: len, bool \<times> 'r \<times> atomic_status) atomic_call) \<Rightarrow> atomic_status \<Rightarrow>
    ('w, 'r option \<times> atomic_status) atomic_call" where
  "checked_call initialized call status env sync w =
     (if \<not> initialized then Some ((None, Some MRAPI_ERR_NODE_NOTINIT), sync, w)
      else map_option (\<lambda>((rc, r, status), rest). ((Some r, if rc then Some MRAPI_SUCCESS else status), rest)) (call status env sync w))"

definition mrapi_impl_atomic_barrier_init :: "int \<Rightarrow> int \<Rightarrow> u32 \<Rightarrow> u32 option \<Rightarrow> u32 \<Rightarrow> mrapi_atomic_barrier" where
  "mrapi_impl_atomic_barrier_init pid dest elems pindex timeout = sys_atomic_barrier_init pid dest elems pindex timeout"

definition mrapi_impl_atomic_exchange_init :: "int \<Rightarrow> int \<Rightarrow> u32 \<Rightarrow> u32 option \<Rightarrow> u32 \<Rightarrow> mrapi_atomic_barrier" where
  "mrapi_impl_atomic_exchange_init pid dest elems pindex timeout = sys_atomic_exchange_init pid dest elems pindex timeout"

definition mrapi_impl_atomic_hold :: "mrapi_atomic_barrier \<Rightarrow> bool \<Rightarrow> bool \<times> mrapi_atomic_barrier" where
  "mrapi_impl_atomic_hold b hold = sys_atomic_hold b hold"

definition mrapi_barrier_init :: "bool \<Rightarrow> int \<Rightarrow> mrapi_atomic_barrier \<Rightarrow> int \<Rightarrow> u32 \<Rightarrow> u32 option \<Rightarrow> u32 \<Rightarrow> mrapi_atomic_barrier \<times> mrapi_status" where
  "mrapi_barrier_init initialized pid axb dest elems counter timeout =
     (if \<not> initialized then (axb, MRAPI_ERR_NODE_NOTINIT)
      else (mrapi_impl_atomic_barrier_init pid dest elems counter timeout, MRAPI_SUCCESS))"

definition mrapi_exchange_init :: "bool \<Rightarrow> int \<Rightarrow> mrapi_atomic_barrier \<Rightarrow> int \<Rightarrow> u32 \<Rightarrow> u32 option \<Rightarrow> u32 \<Rightarrow> mrapi_atomic_barrier \<times> mrapi_status" where
  "mrapi_exchange_init initialized pid axb dest elems counter timeout =
     (if \<not> initialized then (axb, MRAPI_ERR_NODE_NOTINIT)
      else (mrapi_impl_atomic_exchange_init pid dest elems counter timeout, MRAPI_SUCCESS))"

definition mrapi_atomic_hold :: "bool \<Rightarrow> mrapi_atomic_barrier \<Rightarrow> bool \<Rightarrow> (bool \<times> mrapi_atomic_barrier) \<times> mrapi_status" where
  "mrapi_atomic_hold initialized axb hold =
     (if \<not> initialized then ((False, axb), MRAPI_ERR_NODE_NOTINIT) else (mrapi_impl_atomic_hold axb hold, MRAPI_SUCCESS))"

definition mrapi_impl_atomic_read :: "nat \<Rightarrow> atomic_status \<Rightarrow> ('w :: len, bool \<times> 'w word \<times> atomic_status) atomic_call" where
  "mrapi_impl_atomic_read a = with_status (sys_atomic_read a)"

definition mrapi_atomic_read :: "bool \<Rightarrow> nat \<Rightarrow> atomic_status \<Rightarrow> ('w :: len, 'w word option \<times> atomic_status) atomic_call" where
  "mrapi_atomic_read initialized a = checked_call initialized (mrapi_impl_atomic_read a)"

definition mrapi_impl_atomic_read_ptr :: "nat \<Rightarrow> atomic_status \<Rightarrow> (64, bool \<times> 64 word \<times> atomic_status) atomic_call" where
  "mrapi_impl_atomic_read_ptr a = with_status (sys_atomic_read_ptr a)"

definition mrapi_atomic_read_ptr :: "bool \<Rightarrow> nat \<Rightarrow> atomic_status \<Rightarrow> (64, 64 word option \<times> atomic_status) atomic_call" where
  "mrapi_atomic_read_ptr initialized a = checked_call initialized (mrapi_impl_atomic_read_ptr a)"

definition mrapi_impl_atomic_add :: "nat \<Rightarrow> 'w :: len word \<Rightarrow> atomic_status \<Rightarrow> ('w, bool \<times> 'w word \<times> atomic_status) atomic_call" where
  "mrapi_impl_atomic_add a v = with_status (sys_atomic_add a v)"

definition mrapi_atomic_add :: "bool \<Rightarrow> nat \<Rightarrow> 'w :: len word \<Rightarrow> atomic_status \<Rightarrow> ('w, 'w word option \<times> atomic_status) atomic_call" where
  "mrapi_atomic_add initialized a v = checked_call initialized (mrapi_impl_atomic_add a v)"

definition mrapi_impl_atomic_inc :: "nat \<Rightarrow> atomic_status \<Rightarrow> ('w :: len, bool \<times> 'w word \<times> atomic_status) atomic_call" where
  "mrapi_impl_atomic_inc a = with_status (sys_atomic_inc a)"

definition mrapi_atomic_inc :: "bool \<Rightarrow> nat \<Rightarrow> atomic_status \<Rightarrow> ('w :: len, 'w word option \<times> atomic_status) atomic_call" where
  "mrapi_atomic_inc initialized a = checked_call initialized (mrapi_impl_atomic_inc a)"

definition mrapi_impl_atomic_dec :: "nat \<Rightarrow> atomic_status \<Rightarrow> ('w :: len, bool \<times> 'w word \<times> atomic_status) atomic_call" where
  "mrapi_impl_atomic_dec a = with_status (sys_atomic_dec a)"

definition mrapi_atomic_dec :: "bool \<Rightarrow> nat \<Rightarrow> atomic_status \<Rightarrow> ('w :: len, 'w word option \<times> atomic_status) atomic_call" where
  "mrapi_atomic_dec initialized a = checked_call initialized (mrapi_impl_atomic_dec a)"

definition mrapi_impl_atomic_or :: "nat \<Rightarrow> 'w :: len word \<Rightarrow> atomic_status \<Rightarrow> ('w, bool \<times> 'w word \<times> atomic_status) atomic_call" where
  "mrapi_impl_atomic_or a v = with_status (sys_atomic_or a v)"

definition mrapi_atomic_or :: "bool \<Rightarrow> nat \<Rightarrow> 'w :: len word \<Rightarrow> atomic_status \<Rightarrow> ('w, 'w word option \<times> atomic_status) atomic_call" where
  "mrapi_atomic_or initialized a v = checked_call initialized (mrapi_impl_atomic_or a v)"

definition mrapi_impl_atomic_and :: "nat \<Rightarrow> 'w :: len word \<Rightarrow> atomic_status \<Rightarrow> ('w, bool \<times> 'w word \<times> atomic_status) atomic_call" where
  "mrapi_impl_atomic_and a v = with_status (sys_atomic_and a v)"

text \<open>The interface calls the union here, and again for the exclusive or.\<close>

definition mrapi_atomic_and :: "bool \<Rightarrow> nat \<Rightarrow> 'w :: len word \<Rightarrow> atomic_status \<Rightarrow> ('w, 'w word option \<times> atomic_status) atomic_call" where
  "mrapi_atomic_and initialized a v = checked_call initialized (mrapi_impl_atomic_or a v)"

definition mrapi_impl_atomic_xor :: "nat \<Rightarrow> 'w :: len word \<Rightarrow> atomic_status \<Rightarrow> ('w, bool \<times> 'w word \<times> atomic_status) atomic_call" where
  "mrapi_impl_atomic_xor a v = with_status (sys_atomic_xor a v)"

definition mrapi_atomic_xor :: "bool \<Rightarrow> nat \<Rightarrow> 'w :: len word \<Rightarrow> atomic_status \<Rightarrow> ('w, 'w word option \<times> atomic_status) atomic_call" where
  "mrapi_atomic_xor initialized a v = checked_call initialized (mrapi_impl_atomic_or a v)"

definition mrapi_impl_atomic_cas :: "nat \<Rightarrow> 'w :: len word \<Rightarrow> 'w word \<Rightarrow> atomic_status \<Rightarrow> ('w, bool \<times> 'w word \<times> atomic_status) atomic_call" where
  "mrapi_impl_atomic_cas a exchange compare = with_status (sys_atomic_cas a exchange compare)"

definition mrapi_atomic_cas :: "bool \<Rightarrow> nat \<Rightarrow> 'w :: len word \<Rightarrow> 'w word \<Rightarrow> atomic_status \<Rightarrow> ('w, 'w word option \<times> atomic_status) atomic_call" where
  "mrapi_atomic_cas initialized a exchange compare = checked_call initialized (mrapi_impl_atomic_cas a exchange compare)"

definition mrapi_impl_atomic_xchg :: "nat \<Rightarrow> 'w :: len word \<Rightarrow> atomic_status \<Rightarrow> ('w, bool \<times> 'w word \<times> atomic_status) atomic_call" where
  "mrapi_impl_atomic_xchg a exchange = always_true (sys_atomic_xchg a exchange)"

definition mrapi_atomic_xchg :: "bool \<Rightarrow> nat \<Rightarrow> 'w :: len word \<Rightarrow> atomic_status \<Rightarrow> ('w, 'w word option \<times> atomic_status) atomic_call" where
  "mrapi_atomic_xchg initialized a exchange = checked_call initialized (mrapi_impl_atomic_xchg a exchange)"

definition mrapi_impl_atomic_cas_ptr :: "nat \<Rightarrow> 64 word \<Rightarrow> 64 word \<Rightarrow> atomic_status \<Rightarrow> (64, bool \<times> 64 word \<times> atomic_status) atomic_call" where
  "mrapi_impl_atomic_cas_ptr a exchange compare = with_status (sys_atomic_cas_ptr a exchange compare)"

definition mrapi_atomic_cas_ptr :: "bool \<Rightarrow> nat \<Rightarrow> 64 word \<Rightarrow> 64 word \<Rightarrow> atomic_status \<Rightarrow> (64, 64 word option \<times> atomic_status) atomic_call" where
  "mrapi_atomic_cas_ptr initialized a exchange compare = checked_call initialized (mrapi_impl_atomic_cas_ptr a exchange compare)"

definition mrapi_impl_atomic_xchg_ptr :: "nat \<Rightarrow> 64 word \<Rightarrow> atomic_status \<Rightarrow> (64, bool \<times> 64 word \<times> atomic_status) atomic_call" where
  "mrapi_impl_atomic_xchg_ptr a exchange = always_true (sys_atomic_xchg_ptr a exchange)"

definition mrapi_atomic_xchg_ptr :: "bool \<Rightarrow> nat \<Rightarrow> 64 word \<Rightarrow> atomic_status \<Rightarrow> (64, 64 word option \<times> atomic_status) atomic_call" where
  "mrapi_atomic_xchg_ptr initialized a exchange = checked_call initialized (mrapi_impl_atomic_xchg_ptr a exchange)"

definition mrapi_impl_atomic_lock :: "nat \<Rightarrow> atomic_status \<Rightarrow> ('w :: len, bool \<times> 'w word \<times> atomic_status) atomic_call" where
  "mrapi_impl_atomic_lock a = with_status (sys_atomic_lock a)"

definition mrapi_atomic_lock :: "bool \<Rightarrow> nat \<Rightarrow> atomic_status \<Rightarrow> ('w :: len, 'w word option \<times> atomic_status) atomic_call" where
  "mrapi_atomic_lock initialized a = checked_call initialized (mrapi_impl_atomic_lock a)"

definition mrapi_impl_atomic_release :: "nat \<Rightarrow> atomic_status \<Rightarrow> ('w :: len, bool \<times> unit \<times> atomic_status) atomic_call" where
  "mrapi_impl_atomic_release a = with_status (\<lambda>env sync w. map_option (\<lambda>(rc, rest). ((rc, ()), rest)) (sys_atomic_release a env sync w))"

definition mrapi_atomic_release :: "bool \<Rightarrow> nat \<Rightarrow> atomic_status \<Rightarrow> ('w :: len, unit option \<times> atomic_status) atomic_call" where
  "mrapi_atomic_release initialized a = checked_call initialized (mrapi_impl_atomic_release a)"

definition mrapi_impl_atomic_set :: "nat \<Rightarrow> int \<Rightarrow> atomic_status \<Rightarrow> ('w :: len, bool \<times> bool \<times> atomic_status) atomic_call" where
  "mrapi_impl_atomic_set a b = with_status (sys_atomic_set a b)"

definition mrapi_atomic_set :: "bool \<Rightarrow> nat \<Rightarrow> int \<Rightarrow> atomic_status \<Rightarrow> ('w :: len, bool option \<times> atomic_status) atomic_call" where
  "mrapi_atomic_set initialized a b = checked_call initialized (mrapi_impl_atomic_set a b)"

definition mrapi_impl_atomic_clear :: "nat \<Rightarrow> int \<Rightarrow> atomic_status \<Rightarrow> ('w :: len, bool \<times> bool \<times> atomic_status) atomic_call" where
  "mrapi_impl_atomic_clear a b = with_status (sys_atomic_clear a b)"

definition mrapi_atomic_clear :: "bool \<Rightarrow> nat \<Rightarrow> int \<Rightarrow> atomic_status \<Rightarrow> ('w :: len, bool option \<times> atomic_status) atomic_call" where
  "mrapi_atomic_clear initialized a b = checked_call initialized (mrapi_impl_atomic_clear a b)"

definition mrapi_impl_atomic_change :: "nat \<Rightarrow> int \<Rightarrow> atomic_status \<Rightarrow> ('w :: len, bool \<times> bool \<times> atomic_status) atomic_call" where
  "mrapi_impl_atomic_change a b = with_status (sys_atomic_change a b)"

definition mrapi_atomic_change :: "bool \<Rightarrow> nat \<Rightarrow> int \<Rightarrow> atomic_status \<Rightarrow> ('w :: len, bool option \<times> atomic_status) atomic_call" where
  "mrapi_atomic_change initialized a b = checked_call initialized (mrapi_impl_atomic_change a b)"

definition mrapi_impl_atomic_sync :: "('w :: len, unit) atomic_call" where
  "mrapi_impl_atomic_sync = sys_atomic_sync"

definition mrapi_atomic_sync :: "bool \<Rightarrow> ('w :: len, mrapi_status) atomic_call" where
  "mrapi_atomic_sync initialized env sync w =
     (if \<not> initialized then Some (MRAPI_ERR_NODE_NOTINIT, sync, w)
      else map_option (\<lambda>(r, rest). (MRAPI_SUCCESS, rest)) (mrapi_impl_atomic_sync env sync w))"

end
