(* ===== verification/MRAPI_Barrier.thy ===== *)
theory MRAPI_Barrier
  imports MRAPI_Atomic
begin

text \<open>
  What the atomic operations and their barriers guarantee. A process follows the protocol of an element if it makes the
  counter odd only when it is even, changes words and makes the counter even again only after that; the calls with an
  infinite timeout do, and if all others do as well, an operation under a write barrier is one uninterrupted change.
\<close>

section \<open>Calls without a barrier\<close>

text \<open>The memory as a call sees it at its first access.\<close>

definition seen :: "'w :: len turns \<Rightarrow> 'w atomic_run \<Rightarrow> 'w atomic_mem" where
  "seen env w = env (now w) (amem w)"

definition after_access :: "'w :: len atomic_mem \<Rightarrow> 'w atomic_run \<Rightarrow> 'w atomic_run" where
  "after_access m w = w\<lparr>amem := m, now := Suc (now w)\<rparr>"

lemma access_eq: "access env f w = (fst (f (seen env w)), after_access (snd (f (seen env w))) w)"
  by (simp add: access_def seen_def after_access_def Let_def split_beta)

lemma after_access_simps [simp]: "amem (after_access m w) = m" "now (after_access m w) = Suc (now w)"
  by (simp_all add: after_access_def)

lemma loop_unsynced:
  "atomic_loop env True f res None w = Some (fst (f res (seen env w)), None, after_access (snd (f res (seen env w))) w)"
  by (subst atomic_loop.simps) (simp add: try_atomic_barrier_acquire_def atomic_barrier_release_def access_eq Let_def)

lemma unsynced:
  "atomic_write True f res env None w = Some (fst (f res (seen env w)), None, after_access (snd (f res (seen env w))) w)"
  "atomic_read True f res env None w = Some (fst (f res (seen env w)), None, after_access (snd (f res (seen env w))) w)"
  by (simp_all add: atomic_write_def atomic_read_def atomic_barrier_mode_def loop_unsynced)

section \<open>The protocol\<close>

definition elem_ok :: "nat \<Rightarrow> 'w :: len atomic_mem \<Rightarrow> bool" where
  "elem_ok i m \<longleftrightarrow> (msg_writer (msgs m i) \<noteq> None \<longleftrightarrow> odd (msg_counter (msgs m i)))"

definition set_counter :: "u16 \<Rightarrow> int option \<Rightarrow> mrapi_msg \<Rightarrow> mrapi_msg" where
  "set_counter c who e = e\<lparr>msg_counter := c, msg_writer := who\<rparr>"

inductive barrier_step :: "int \<Rightarrow> nat \<Rightarrow> 'w :: len atomic_mem \<Rightarrow> 'w atomic_mem \<Rightarrow> bool" for p :: int and i :: nat where
  look: "barrier_step p i m m"
| claim: "even (msg_counter (msgs m i)) \<Longrightarrow> barrier_step p i m (upd_msg i (set_counter (msg_counter (msgs m i) + 1) (Some p)) m)"
| store: "msg_writer (msgs m i) = Some p \<Longrightarrow> barrier_step p i m (m\<lparr>words := ws\<rparr>)"
| free: "msg_writer (msgs m i) = Some p \<Longrightarrow> barrier_step p i m (upd_msg i (set_counter (msg_counter (msgs m i) + 1) None) m)"

lemma upd_msg_simps [simp]:
  "msgs (upd_msg i f m) j = (if j = i then f (msgs m i) else msgs m j)" "words (upd_msg i f m) = words m"
  "msg_counter (set_counter c who e) = c" "msg_writer (set_counter c who e) = who"
  by (simp_all add: upd_msg_def set_counter_def)

lemma barrier_step_ok: "barrier_step p i m m' \<Longrightarrow> elem_ok i m \<Longrightarrow> elem_ok i m'"
  by (induction rule: barrier_step.cases) (auto simp: elem_ok_def)

text \<open>What one process may rely on from the turns of all the others.\<close>

definition respectful :: "int \<Rightarrow> nat \<Rightarrow> 'w :: len atomic_mem \<Rightarrow> 'w atomic_mem \<Rightarrow> bool" where
  "respectful p i m m' \<longleftrightarrow> (elem_ok i m \<longrightarrow> elem_ok i m' \<and>
     (msg_writer (msgs m' i) = Some p \<longleftrightarrow> msg_writer (msgs m i) = Some p) \<and>
     (msg_writer (msgs m i) = Some p \<longrightarrow> msg_counter (msgs m' i) = msg_counter (msgs m i) \<and> words m' = words m))"

lemma step_respects: "barrier_step q i m m' \<Longrightarrow> p \<noteq> q \<Longrightarrow> respectful p i m m'"
  by (induction rule: barrier_step.cases) (auto simp: respectful_def elem_ok_def)

lemma respectful_trans: "respectful p i m m' \<Longrightarrow> respectful p i m' m'' \<Longrightarrow> respectful p i m m''"
  by (auto simp: respectful_def)

text \<open>Any sequence of steps of others.\<close>

lemma steps_respect:
  assumes "(\<lambda>m m'. \<exists>q. q \<noteq> p \<and> barrier_step q i m m')\<^sup>*\<^sup>* m m'"
  shows "respectful p i m m'"
  using assms
proof induction
  case base
  show ?case by (simp add: respectful_def)
next
  case (step m' m'')
  then obtain q where "q \<noteq> p" "barrier_step q i m' m''" by auto
  then have "respectful p i m' m''" using step_respects [of q i m' m'' p] by blast
  with step.IH show ?case by (rule respectful_trans)
qed

definition fair_turns :: "'w :: len turns \<Rightarrow> int \<Rightarrow> nat \<Rightarrow> bool" where
  "fair_turns env p i \<longleftrightarrow> (\<forall>t m. respectful p i m (env t m))"

text \<open>A run of one process: each of its accesses is a step of the protocol.\<close>

inductive protocol_run :: "'w :: len turns \<Rightarrow> int \<Rightarrow> nat \<Rightarrow> 'w atomic_run \<Rightarrow> 'w atomic_run \<Rightarrow> bool" for env :: "'w turns" and p i where
  stop: "protocol_run env p i w w"
| turn: "barrier_step p i (seen env w) m \<Longrightarrow> protocol_run env p i (after_access m w) w' \<Longrightarrow> protocol_run env p i w w'"

lemma protocol_run_one: "barrier_step p i (seen env w) m \<Longrightarrow> protocol_run env p i w (after_access m w)"
  by (erule protocol_run.turn) (rule protocol_run.stop)

lemma protocol_run_trans: "protocol_run env p i w w' \<Longrightarrow> protocol_run env p i w' w'' \<Longrightarrow> protocol_run env p i w w''"
  by (induction rule: protocol_run.induct) (auto intro: protocol_run.turn)

lemma seen_ok:
  assumes "fair_turns env p i" and "elem_ok i (amem w)"
  shows "elem_ok i (seen env w)"
    and "msg_writer (msgs (seen env w) i) = Some p \<longleftrightarrow> msg_writer (msgs (amem w) i) = Some p"
    and "msg_writer (msgs (amem w) i) = Some p \<Longrightarrow> msg_counter (msgs (seen env w) i) = msg_counter (msgs (amem w) i) \<and> words (seen env w) = words (amem w)"
  using assms by (auto simp: fair_turns_def respectful_def seen_def)

lemma protocol_run_ok: "protocol_run env p i w w' \<Longrightarrow> fair_turns env p i \<Longrightarrow> elem_ok i (amem w) \<Longrightarrow> elem_ok i (amem w')"
  by (induction rule: protocol_run.induct) (auto dest: seen_ok barrier_step_ok)

section \<open>Claiming an element\<close>

text \<open>A process that has just made the counter of the element odd, which it saw even in the memory of a turn.\<close>

definition claimed :: "'w :: len turns \<Rightarrow> int \<Rightarrow> nat \<Rightarrow> 'w atomic_run \<Rightarrow> 'w atomic_mem \<Rightarrow> 'w atomic_run \<Rightarrow> bool" where
  "claimed env p i w m w' \<longleftrightarrow> (\<exists>v. protocol_run env p i w v \<and> m = seen env v \<and> elem_ok i m \<and> even (msg_counter (msgs m i)) \<and>
     w' = after_access (upd_msg i (set_counter (msg_counter (msgs m i) + 1) (Some p)) m) v)"

lemma write_spin_claims:
  assumes "write_spin env i p MRAPI_TIMEOUT_INFINITE w = Some ((rc, c), w')" and "fair_turns env p i" and "elem_ok i (amem w)"
  shows "rc \<and> (\<exists>m. c = msg_counter (msgs m i) + 1 \<and> claimed env p i w m w')"
proof -
  have "t = MRAPI_TIMEOUT_INFINITE \<longrightarrow> fair_turns env p i \<longrightarrow> elem_ok i (amem w) \<longrightarrow>
      fst (fst res) \<and> (\<exists>m. snd (fst res) = msg_counter (msgs m i) + 1 \<and> claimed env p i w m (snd res))"
    if "write_spin env i p t w = Some res" for env :: "'a turns" and i p t w res
  proof (rule write_spin.raw_induct [where P = "\<lambda>env i p t w res. t = MRAPI_TIMEOUT_INFINITE \<longrightarrow> fair_turns env p i \<longrightarrow> elem_ok i (amem w) \<longrightarrow>
      fst (fst res) \<and> (\<exists>m. snd (fst res) = msg_counter (msgs m i) + 1 \<and> claimed env p i w m (snd res))", OF _ that], intro impI)
    fix spin and env :: "'a turns" and i p t w res
    assume IH: "\<And>env i p t w res. spin env i p t w = Some res \<Longrightarrow> t = MRAPI_TIMEOUT_INFINITE \<longrightarrow> fair_turns env p i \<longrightarrow> elem_ok i (amem w) \<longrightarrow>
        fst (fst res) \<and> (\<exists>m. snd (fst res) = msg_counter (msgs m i) + 1 \<and> claimed env p i w m (snd res))"
      and eq: "(let r = access env (read_counter i) w; s = claim_counter env i p (fst r) (snd r)
        in if fst s then Some ((True, fst r + 1), snd s)
           else case spin_again t of None \<Rightarrow> Some ((False, fst r), snd s) | Some timeout \<Rightarrow> spin env i p timeout (snd s)) = Some res"
      and t: "t = MRAPI_TIMEOUT_INFINITE" and fair: "fair_turns env p i" and ok: "elem_ok i (amem w)"
    define c where "c = msg_counter (msgs (seen env w) i)"
    define w1 where "w1 = after_access (seen env w) w"
    have r: "access env (read_counter i) w = (c, w1)" by (simp add: access_eq read_counter_def c_def w1_def)
    have run1: "protocol_run env p i w w1" unfolding w1_def by (intro protocol_run_one barrier_step.look)
    have ok1: "elem_ok i (amem w1)" using run1 fair ok by (rule protocol_run_ok)
    show "fst (fst res) \<and> (\<exists>m. snd (fst res) = msg_counter (msgs m i) + 1 \<and> claimed env p i w m (snd res))"
    proof (cases "fst (claim_counter env i p c w1)")
      case True
      then have c: "even c" "msg_counter (msgs (seen env w1) i) = c"
        and w2: "snd (claim_counter env i p c w1) = after_access (upd_msg i (set_counter (c + 1) (Some p)) (seen env w1)) w1"
        by (auto simp: claim_counter_def access_eq cas_counter_def set_counter_def [abs_def] split: if_splits)
      then have "claimed env p i w (seen env w1) (snd (claim_counter env i p c w1))"
        unfolding claimed_def using run1 seen_ok(1) [OF fair ok1] by (intro exI [of _ w1]) simp
      with True c eq r show ?thesis by auto
    next
      case False
      define w2 where "w2 = snd (claim_counter env i p c w1)"
      have run2: "protocol_run env p i w1 w2"
        using False by (auto simp: w2_def claim_counter_def access_eq cas_counter_def split: if_splits
            intro: protocol_run.stop protocol_run_one barrier_step.look)
      have "spin env i p MRAPI_TIMEOUT_INFINITE w2 = Some res" using eq False r t by (simp add: spin_again_def w2_def)
      from IH [OF this] fair protocol_run_ok [OF run2 fair ok1]
      obtain m where "fst (fst res)" "snd (fst res) = msg_counter (msgs m i) + 1" "claimed env p i w2 m (snd res)" by blast
      moreover have "claimed env p i w m (snd res)" if "claimed env p i w2 m (snd res)"
        using that protocol_run_trans [OF protocol_run_trans [OF run1 run2]] by (auto simp: claimed_def)
      ultimately show ?thesis by blast
    qed
  qed
  from this [OF assms(1)] assms show ?thesis by auto
qed

section \<open>An operation under a write barrier\<close>

text \<open>A barrier between two processes, not held, that spins for as long as it takes, over the element \<open>i\<close>.\<close>

definition spinning :: "mrapi_atomic_barrier \<Rightarrow> nat \<Rightarrow> bool" where
  "spinning b i \<longleftrightarrow> \<not> axb_xchg b \<and> axb_dest b \<noteq> axb_src b \<and> axb_timeout b = MRAPI_TIMEOUT_INFINITE \<and> barrier_elem b = Some i \<and>
     \<not> axb_hold b \<and> \<not> axb_override b \<and> \<not> axb_active b"

text \<open>An operation that depends on the words only and changes nothing else.\<close>

definition word_op :: "('r \<Rightarrow> 'w :: len atomic_mem \<Rightarrow> 'r \<times> 'w atomic_mem) \<Rightarrow> 'r \<Rightarrow> bool" where
  "word_op f res \<longleftrightarrow> (\<forall>m m'. words m' = words m \<longrightarrow> fst (f res m') = fst (f res m) \<and>
     snd (f res m') = m'\<lparr>words := words (snd (f res m))\<rparr>)"

lemma barrier_fields [simp]:
  "needs_sync (b\<lparr>last_counter := c\<rparr>) = needs_sync b" "barrier_elem (b\<lparr>last_counter := c\<rparr>) = barrier_elem b"
  "barrier_elem (b\<lparr>axb_mode := md\<rparr>) = barrier_elem b" "barrier_elem (b\<lparr>axb_active := a\<rparr>) = barrier_elem b"
  "barrier_elem (b\<lparr>axb_override := a\<rparr>) = barrier_elem b"
  by (simp_all add: needs_sync_def barrier_elem_def)

lemma release_held:
  assumes "fair_turns env p i" and "elem_ok i (amem w)" and "msg_writer (msgs (amem w) i) = Some p" and "msg_counter (msgs (amem w) i) = c"
  shows "access env (cas_counter i c (c + 1) None) w = (True, after_access (upd_msg i (set_counter (c + 1) None) (seen env w)) w)"
    and "protocol_run env p i w (after_access (upd_msg i (set_counter (c + 1) None) (seen env w)) w)"
proof -
  note s = seen_ok [OF assms(1,2)] and s3 = seen_ok(3) [OF assms(1,2,3)]
  show "access env (cas_counter i c (c + 1) None) w = (True, after_access (upd_msg i (set_counter (c + 1) None) (seen env w)) w)"
    using s3 assms(4) by (simp add: access_eq cas_counter_def set_counter_def [abs_def])
  show "protocol_run env p i w (after_access (upd_msg i (set_counter (c + 1) None) (seen env w)) w)"
    using barrier_step.free [of "seen env w" i p] s s3 assms(3,4) by (intro protocol_run_one) simp
qed

lemma acquire_write:
  assumes "spinning b i"
  shows "try_atomic_barrier_acquire env (Some (b\<lparr>axb_mode := MRAPI_ATOMIC_WRITE\<rparr>)) w =
     map_option (\<lambda>r. (fst (fst r), Some (b\<lparr>axb_mode := MRAPI_ATOMIC_WRITE, last_counter := snd (fst r), axb_active := False\<rparr>), snd r))
       (write_spin env i (axb_src b) MRAPI_TIMEOUT_INFINITE w)"
  using assms
  by (cases "write_spin env i (axb_src b) MRAPI_TIMEOUT_INFINITE w")
    (auto simp: try_atomic_barrier_acquire_def acquire_elem_def needs_sync_def spinning_def)

lemma release_write_barrier:
  assumes "spinning b i"
  shows "atomic_barrier_release env (Some (b\<lparr>axb_mode := MRAPI_ATOMIC_WRITE, last_counter := c, axb_active := False\<rparr>)) w =
     (let r = access env (cas_counter i c (c + 1) None) w in
      Some (fst r, Some (b\<lparr>axb_mode := MRAPI_ATOMIC_WRITE, last_counter := c, axb_active := False, axb_override := False\<rparr>), snd r))"
  using assms by (simp add: atomic_barrier_release_def release_elem_def needs_sync_def spinning_def Let_def split_beta)

text \<open>The operation and the release after a claim: no other process comes in between, so neither is repeated.\<close>

lemma after_claim:
  assumes claim: "claimed env p i w m w1" and fair: "fair_turns env p i" and op: "word_op f res"
  defines "w2 \<equiv> after_access (snd (f res (seen env w1))) w1"
  defines "w3 \<equiv> after_access (upd_msg i (set_counter (msg_counter (msgs m i) + 2) None) (seen env w2)) w2"
  shows "access env (f res) w1 = (fst (f res m), w2)"
    and "access env (cas_counter i (msg_counter (msgs m i) + 1) (msg_counter (msgs m i) + 1 + 1) None) w2 = (True, w3)"
    and "protocol_run env p i w w3" and "words (amem w3) = words (snd (f res m))"
proof -
  let ?c = "msg_counter (msgs m i)"
  obtain v where v: "protocol_run env p i w v" "m = seen env v" "elem_ok i m" "even ?c" "w1 = after_access (upd_msg i (set_counter (?c + 1) (Some p)) m) v"
    using claim by (auto simp: claimed_def)
  have run1: "protocol_run env p i w w1"
    using v barrier_step.claim [of m i p] by (auto intro: protocol_run_trans protocol_run_one)
  have h1: "elem_ok i (amem w1)" "msg_writer (msgs (amem w1) i) = Some p" "msg_counter (msgs (amem w1) i) = ?c + 1" "words (amem w1) = words m"
    using v(4,5) by (simp_all add: elem_ok_def)
  note s1 = seen_ok [OF fair h1(1)] and s1' = seen_ok(3) [OF fair h1(1,2)]
  have f: "fst (f res (seen env w1)) = fst (f res m)" "snd (f res (seen env w1)) = (seen env w1)\<lparr>words := words (snd (f res m))\<rparr>"
    using op [unfolded word_op_def, rule_format, of "seen env w1" m] s1' h1(4) by auto
  show op1: "access env (f res) w1 = (fst (f res m), w2)" by (simp add: access_eq f(1) w2_def)
  have run2: "protocol_run env p i w1 w2" unfolding w2_def f(2) using s1(2) h1(2) by (intro protocol_run_one barrier_step.store) simp
  have h2: "elem_ok i (amem w2)" "msg_writer (msgs (amem w2) i) = Some p" "msg_counter (msgs (amem w2) i) = ?c + 1" "words (amem w2) = words (snd (f res m))"
    using s1 s1' h1 by (simp_all add: w2_def f(2) elem_ok_def)
  have c2: "?c + 1 + 1 = ?c + 2" by simp
  show "access env (cas_counter i (?c + 1) (?c + 1 + 1) None) w2 = (True, w3)"
    using release_held(1) [OF fair h2(1-3)] by (simp add: w3_def c2)
  have "protocol_run env p i w2 w3" using release_held(2) [OF fair h2(1-3)] by (simp add: w3_def c2)
  then show "protocol_run env p i w w3" by (rule protocol_run_trans [OF protocol_run_trans [OF run1 run2]])
  show "words (amem w3) = words (snd (f res m))" using seen_ok(3) [OF fair h2(1,2)] h2(4) by (simp add: w3_def)
qed

text \<open>
  C16: an operation under a write barrier is one uninterrupted change. If the other processes follow the protocol of the
  barrier's element, a call of an atomic operation with a barrier that spins for ever, when it returns, has applied the
  operation exactly once, to the words of a memory in which no process was writing and which no other has changed until the
  counter of the element had been advanced by two and was free again; and the calling process has itself followed the protocol.
\<close>

theorem write_barrier_exclusive:
  assumes "atomic_write True f res env (Some b) w = Some (r, s, w')"
    and "spinning b i" and "word_op f res" and "fair_turns env (axb_src b) i" and "elem_ok i (amem w)"
  shows "\<exists>v m. protocol_run env (axb_src b) i w v \<and> m = seen env v \<and> even (msg_counter (msgs m i)) \<and> msg_writer (msgs m i) = None \<and>
     r = fst (f res m) \<and> words (amem w') = words (snd (f res m)) \<and>
     msgs (amem w') i = set_counter (msg_counter (msgs m i) + 2) None (msgs (amem w') i) \<and>
     protocol_run env (axb_src b) i w w'"
proof -
  let ?p = "axb_src b"
  have "atomic_loop env True f res (Some (b\<lparr>axb_mode := MRAPI_ATOMIC_WRITE\<rparr>)) w = Some (r, s, w')"
    using assms(1) by (simp add: atomic_write_def atomic_barrier_mode_def)
  then obtain rc c w1 where spin: "write_spin env i ?p MRAPI_TIMEOUT_INFINITE w = Some ((rc, c), w1)"
    by (subst (asm) atomic_loop.simps) (auto simp: acquire_write [OF assms(2)] bind_eq_Some_conv)
  from write_spin_claims [OF this assms(4,5)] obtain m where "rc" and c: "c = msg_counter (msgs m i) + 1" and claim: "claimed env ?p i w m w1"
    by blast
  note taken = after_claim [OF claim assms(4,3)]
  define w2 where "w2 = after_access (snd (f res (seen env w1))) w1"
  define w3 where "w3 = after_access (upd_msg i (set_counter (msg_counter (msgs m i) + 2) None) (seen env w2)) w2"
  have "atomic_loop env True f res (Some (b\<lparr>axb_mode := MRAPI_ATOMIC_WRITE\<rparr>)) w =
      Some (fst (f res m), Some (b\<lparr>axb_mode := MRAPI_ATOMIC_WRITE, last_counter := c, axb_active := False, axb_override := False\<rparr>), w3)"
    using \<open>rc\<close> spin taken(1,2)
    by (subst atomic_loop.simps) (simp add: acquire_write [OF assms(2)] release_write_barrier [OF assms(2)] c w2_def w3_def)
  then have eqs: "r = fst (f res m)" "w' = w3" using assms(1) by (simp_all add: atomic_write_def atomic_barrier_mode_def)
  obtain v where v: "protocol_run env ?p i w v" "m = seen env v" "elem_ok i m" "even (msg_counter (msgs m i))"
    using claim by (auto simp: claimed_def)
  then have "msg_writer (msgs m i) = None" by (simp add: elem_ok_def)
  moreover have "msgs (amem w3) i = set_counter (msg_counter (msgs m i) + 2) None (msgs (amem w3) i)"
    by (simp add: w3_def set_counter_def)
  ultimately show ?thesis using v taken(3,4) eqs unfolding w2_def w3_def by blast
qed

section \<open>A write barrier is obtained\<close>

text \<open>By turn \<open>k\<close> the others have made the element even, and after that they leave its counter alone.\<close>

definition quiet :: "'w :: len turns \<Rightarrow> int \<Rightarrow> nat \<Rightarrow> nat \<Rightarrow> bool" where
  "quiet env p i k \<longleftrightarrow>
     (\<forall>m. elem_ok i m \<and> msg_writer (msgs m i) \<noteq> Some p \<longrightarrow> even (msg_counter (msgs (env k m) i))) \<and>
     (\<forall>t>k. \<forall>m. even (msg_counter (msgs m i)) \<longrightarrow> msg_counter (msgs (env t m) i) = msg_counter (msgs m i))"

definition waits_for :: "'w :: len turns \<Rightarrow> int \<Rightarrow> nat \<Rightarrow> nat \<Rightarrow> 'w atomic_run \<Rightarrow> bool" where
  "waits_for env p i k w \<longleftrightarrow> elem_ok i (amem w) \<and> msg_writer (msgs (amem w) i) \<noteq> Some p \<and> (k < now w \<longrightarrow> even (msg_counter (msgs (amem w) i)))"

lemma waits_look:
  assumes "quiet env p i k" and "fair_turns env p i" and "waits_for env p i k w"
  shows "waits_for env p i k (after_access (seen env w) w)" and "k \<le> now w \<Longrightarrow> even (msg_counter (msgs (seen env w) i))"
    and "k < now w \<Longrightarrow> msg_counter (msgs (seen env w) i) = msg_counter (msgs (amem w) i)"
proof -
  have w: "elem_ok i (amem w)" "msg_writer (msgs (amem w) i) \<noteq> Some p" using assms(3) by (simp_all add: waits_for_def)
  show later: "msg_counter (msgs (seen env w) i) = msg_counter (msgs (amem w) i)" if "k < now w"
    using that assms(1,3) by (simp add: quiet_def waits_for_def seen_def)
  show even: "even (msg_counter (msgs (seen env w) i))" if "k \<le> now w"
  proof (cases "k = now w")
    case True
    then show ?thesis using assms(1) w by (simp add: quiet_def seen_def)
  next
    case False
    then show ?thesis using that later assms(3) by (simp add: waits_for_def)
  qed
  show "waits_for env p i k (after_access (seen env w) w)"
    using even seen_ok [OF assms(2) w(1)] w(2) by (simp add: waits_for_def)
qed

lemma write_spin_returns:
  assumes "quiet env p i k" and "fair_turns env p i" and "waits_for env p i k w"
  shows "\<exists>r. write_spin env i p MRAPI_TIMEOUT_INFINITE w = Some r"
  using assms(3)
proof (induction "k - now w" arbitrary: w rule: less_induct)
  case less
  note look = waits_look [OF assms(1,2) less.prems]
  define c where "c = msg_counter (msgs (seen env w) i)"
  define w1 where "w1 = after_access (seen env w) w"
  let ?s = "claim_counter env i p c w1"
  have r: "access env (read_counter i) w = (c, w1)" by (simp add: access_eq read_counter_def c_def w1_def)
  show ?case
  proof (cases "fst ?s")
    case True
    then show ?thesis by (subst write_spin.simps) (auto simp: Let_def r)
  next
    case False
    have w1: "waits_for env p i k w1" using look(1) by (simp add: w1_def)
    have "now w < k"
    proof (rule ccontr)
      assume "\<not> now w < k"
      then have "even c" "msg_counter (msgs (seen env w1) i) = c"
        using look(2) waits_look(3) [OF assms(1,2) w1] by (simp_all add: c_def w1_def)
      with False show False by (simp add: access_eq claim_counter_def cas_counter_def)
    qed
    moreover have "now w < now (snd ?s)" by (simp add: access_eq claim_counter_def w1_def)
    moreover have "waits_for env p i k (snd ?s)"
      using False w1 waits_look(1) [OF assms(1,2) w1] by (auto simp: access_eq claim_counter_def cas_counter_def split: if_splits)
    ultimately have "\<exists>r. write_spin env i p MRAPI_TIMEOUT_INFINITE (snd ?s) = Some r" by (intro less) simp_all
    then show ?thesis using False by (subst write_spin.simps) (simp add: Let_def spin_again_def r)
  qed
qed

text \<open>
  C36: a call with a write barrier returns. If the other processes follow the protocol and by some turn have made the element
  of the barrier even and then leave its counter alone, an atomic operation that spins for ever gets through: it returns, and by C16 with its work done.
\<close>

theorem write_barrier_returns:
  assumes "spinning b i" and "word_op f res" and "fair_turns env (axb_src b) i" and "elem_ok i (amem w)"
    and "msg_writer (msgs (amem w) i) \<noteq> Some (axb_src b)" and "quiet env (axb_src b) i k" and "now w \<le> k"
  shows "\<exists>r s w'. atomic_write True f res env (Some b) w = Some (r, s, w')"
proof -
  obtain rc c w1 where spin: "write_spin env i (axb_src b) MRAPI_TIMEOUT_INFINITE w = Some ((rc, c), w1)"
    using write_spin_returns [OF assms(6,3), of w] assms(4,5,7) by (auto simp: waits_for_def)
  from write_spin_claims [OF this assms(3,4)] obtain m where "rc" and c: "c = msg_counter (msgs m i) + 1" and claim: "claimed env (axb_src b) i w m w1"
    by blast
  note taken = after_claim(1,2) [OF claim assms(3,2)]
  have "atomic_loop env True f res (Some (b\<lparr>axb_mode := MRAPI_ATOMIC_WRITE\<rparr>)) w \<noteq> None"
    using \<open>rc\<close> spin taken
    by (subst atomic_loop.simps) (simp add: acquire_write [OF assms(1)] release_write_barrier [OF assms(1)] c)
  then show ?thesis by (auto simp: atomic_write_def atomic_barrier_mode_def)
qed

section \<open>A read under a barrier\<close>

text \<open>
  The turns of others do not wind the counter round, and change words only where the counter shows it: fewer than
  \<open>2 ^ 14\<close> writes come between two accesses.
\<close>

definition counted :: "'w :: len turns \<Rightarrow> nat \<Rightarrow> bool" where
  "counted env i \<longleftrightarrow> (\<forall>t m. unat (msg_counter (msgs (env t m) i) - msg_counter (msgs m i)) < 2 ^ 15 \<and>
     (even (msg_counter (msgs m i)) \<and> msg_counter (msgs (env t m) i) = msg_counter (msgs m i) \<longrightarrow> words (env t m) = words m))"

text \<open>A run that only reads.\<close>

inductive read_run :: "'w :: len turns \<Rightarrow> 'w atomic_run \<Rightarrow> 'w atomic_run \<Rightarrow> bool" for env :: "'w turns" where
  stop: "read_run env w w"
| turn: "read_run env (after_access (seen env w) w) w' \<Longrightarrow> read_run env w w'"

lemma read_run_trans: "read_run env w w' \<Longrightarrow> read_run env w' w'' \<Longrightarrow> read_run env w w''"
  by (induction rule: read_run.induct) (auto intro: read_run.turn)

lemma read_run_one: "read_run env w (after_access (seen env w) w)"
  by (rule read_run.turn) (rule read_run.stop)

lemma read_spin_even:
  assumes "read_spin env i MRAPI_TIMEOUT_INFINITE w = Some ((rc, c), w')"
  shows "rc \<and> even c \<and> (\<exists>v. read_run env w v \<and> c = msg_counter (msgs (seen env v) i) \<and> w' = after_access (seen env v) v)"
proof -
  have "t = MRAPI_TIMEOUT_INFINITE \<longrightarrow> fst (fst r) \<and> even (snd (fst r)) \<and>
      (\<exists>v. read_run env w v \<and> snd (fst r) = msg_counter (msgs (seen env v) i) \<and> snd r = after_access (seen env v) v)"
    if "read_spin env i t w = Some r" for env :: "'a turns" and i t w r
  proof (rule read_spin.raw_induct [where P = "\<lambda>env i t w r. t = MRAPI_TIMEOUT_INFINITE \<longrightarrow> fst (fst r) \<and> even (snd (fst r)) \<and>
      (\<exists>v. read_run env w v \<and> snd (fst r) = msg_counter (msgs (seen env v) i) \<and> snd r = after_access (seen env v) v)", OF _ that], intro impI)
    fix spin and env :: "'a turns" and i t w r
    assume IH: "\<And>env i t w r. spin env i t w = Some r \<Longrightarrow> t = MRAPI_TIMEOUT_INFINITE \<longrightarrow> fst (fst r) \<and> even (snd (fst r)) \<and>
        (\<exists>v. read_run env w v \<and> snd (fst r) = msg_counter (msgs (seen env v) i) \<and> snd r = after_access (seen env v) v)"
      and eq: "(let r = access env (read_counter i) w in if even (fst r) then Some ((True, fst r), snd r)
         else case spin_again t of None \<Rightarrow> Some ((False, fst r), snd r) | Some timeout \<Rightarrow> spin env i timeout (snd r)) = Some r"
      and t: "t = MRAPI_TIMEOUT_INFINITE"
    show "fst (fst r) \<and> even (snd (fst r)) \<and> (\<exists>v. read_run env w v \<and> snd (fst r) = msg_counter (msgs (seen env v) i) \<and> snd r = after_access (seen env v) v)"
    proof (cases "even (msg_counter (msgs (seen env w) i))")
      case True
      then have "r = ((True, msg_counter (msgs (seen env w) i)), after_access (seen env w) w)" using eq by (simp add: access_eq read_counter_def)
      with True read_run.stop [of env w] show ?thesis by auto
    next
      case False
      then have "spin env i MRAPI_TIMEOUT_INFINITE (after_access (seen env w) w) = Some r" using eq t by (simp add: access_eq read_counter_def spin_again_def)
      from IH [OF this] show ?thesis using read_run.turn by blast
    qed
  qed
  from this [OF assms] show ?thesis by simp
qed

lemma counter_back:
  assumes "counted env i" and "msg_counter (msgs (env t' (env t m)) i) = msg_counter (msgs m i)"
  shows "msg_counter (msgs (env t m) i) = msg_counter (msgs m i)"
proof -
  let ?x = "msg_counter (msgs (env t m) i) - msg_counter (msgs m i)"
  let ?y = "msg_counter (msgs (env t' (env t m)) i) - msg_counter (msgs (env t m) i)"
  have small: "unat ?x < 2 ^ 15" "unat ?y < 2 ^ 15" using assms(1) by (auto simp: counted_def)
  have "?x + ?y = 0" using assms(2) by simp
  moreover have "unat (?x + ?y) = unat ?x + unat ?y"
    by (rule unat_plus_simple [THEN iffD1, OF iffD2 [OF no_plus_overflow_unat_size]]) (use small in \<open>simp add: word_size\<close>)
  ultimately have "unat ?x = 0" by simp
  then show ?thesis by (simp add: unat_eq_zero)
qed

abbreviation reader :: "mrapi_atomic_barrier \<Rightarrow> u16 \<Rightarrow> mrapi_atomic_barrier" where
  "reader b c \<equiv> b\<lparr>axb_mode := MRAPI_ATOMIC_READ, last_counter := c, axb_active := False, axb_override := False\<rparr>"

abbreviation load :: "nat \<Rightarrow> bool \<times> 'w word \<Rightarrow> 'w :: len atomic_mem \<Rightarrow> (bool \<times> 'w word) \<times> 'w atomic_mem" where
  "load a \<equiv> (\<lambda>res m. ((True, words m a), m))"

lemma acquire_read:
  assumes "spinning b i"
  shows "try_atomic_barrier_acquire env (Some (reader b c)) w =
     map_option (\<lambda>r. (fst (fst r), Some (reader b (snd (fst r))), snd r)) (read_spin env i MRAPI_TIMEOUT_INFINITE w)"
  using assms
  by (cases "read_spin env i MRAPI_TIMEOUT_INFINITE w") (auto simp: try_atomic_barrier_acquire_def acquire_elem_def needs_sync_def spinning_def)

lemma release_read:
  assumes "spinning b i"
  shows "atomic_barrier_release env (Some (reader b c)) w =
     (let r = access env (read_counter i) w in Some (c = fst r, Some (reader b c), snd r))"
  using assms by (simp add: atomic_barrier_release_def release_elem_def needs_sync_def spinning_def Let_def split_beta)

lemma first_reader: "spinning b i \<Longrightarrow> b\<lparr>axb_mode := MRAPI_ATOMIC_READ\<rparr> = reader b (last_counter b)"
  by (cases b) (simp add: spinning_def)

lemma read_loop_snapshot:
  assumes "atomic_loop env True (load a) res (Some (reader b c)) w = Some r" and "spinning b i" and "counted env i"
  shows "fst (fst r) \<and> (\<exists>v. read_run env w v \<and> even (msg_counter (msgs (seen env v) i)) \<and> snd (fst r) = words (seen env v) a)"
proof -
  define Q :: "'a turns \<Rightarrow> 'a atomic_run \<Rightarrow> (bool \<times> 'a word) \<Rightarrow> bool" where
    "Q env w r \<longleftrightarrow> fst r \<and> (\<exists>v. read_run env w v \<and> even (msg_counter (msgs (seen env v) i)) \<and> snd r = words (seen env v) a)" for env w r
  have "k \<longrightarrow> f = load a \<longrightarrow> (\<exists>c. sync = Some (reader b c)) \<longrightarrow> counted env i \<longrightarrow> Q env w (fst r)"
    if "atomic_loop env k f res sync w = Some r" for env k f res sync w r
  proof (rule atomic_loop.raw_induct [where P = "\<lambda>env k f res sync w r. k \<longrightarrow> f = load a \<longrightarrow> (\<exists>c. sync = Some (reader b c)) \<longrightarrow> counted env i \<longrightarrow> Q env w (fst r)",
        OF _ that], intro impI)
    fix loop and env :: "'a turns" and k f res sync w r
    assume IH: "\<And>env k f res sync w r. loop env k f res sync w = Some r \<Longrightarrow>
        k \<longrightarrow> f = load a \<longrightarrow> (\<exists>c. sync = Some (reader b c)) \<longrightarrow> counted env i \<longrightarrow> Q env w (fst r)"
      and eq: "Option.bind (try_atomic_barrier_acquire env sync w) (\<lambda>x. if fst x \<and> \<not> k then None
        else let y = (if fst x then access env (f res) (snd (snd x)) else (res, snd (snd x)))
             in Option.bind (atomic_barrier_release env (fst (snd x)) (snd y)) (\<lambda>z.
                  if fst z then Some (fst y, snd z) else loop env k f (fst y) (fst (snd z)) (snd (snd z)))) = Some r"
      and k: "k" and f: "f = load a" and sync: "\<exists>c. sync = Some (reader b c)" and counted: "counted env i"
    from eq sync obtain rc c w1 where spin: "read_spin env i MRAPI_TIMEOUT_INFINITE w = Some ((rc, c), w1)"
      by (cases "read_spin env i MRAPI_TIMEOUT_INFINITE w") (auto simp: acquire_read [OF assms(2)])
    from read_spin_even [OF this] obtain v where "rc" and even: "even c" and run: "read_run env w v"
      and c: "c = msg_counter (msgs (seen env v) i)" and w1: "w1 = after_access (seen env v) v" by blast
    define w2 where "w2 = after_access (seen env w1) w1"
    define w3 where "w3 = after_access (seen env w2) w2"
    have runs: "read_run env w w1" "read_run env w w3"
      using read_run_trans [OF run read_run_one] read_run_one [of env w1] read_run_one [of env w2] by (auto simp: w1 w2_def w3_def intro: read_run_trans)
    have step: "(if c = msg_counter (msgs (seen env w2) i) then Some ((True, words (seen env w1) a), Some (reader b c), w3)
        else loop env k f (True, words (seen env w1) a) (Some (reader b c)) w3) = Some r"
    proof -
      have "try_atomic_barrier_acquire env sync w = Some (True, Some (reader b c), w1)"
        using sync spin \<open>rc\<close> by (auto simp: acquire_read [OF assms(2)])
      moreover have "access env (f res) w1 = ((True, words (seen env w1) a), w2)" by (simp add: f access_eq w2_def)
      moreover have "atomic_barrier_release env (Some (reader b c)) w2 = Some (c = msg_counter (msgs (seen env w2) i), Some (reader b c), w3)"
        by (simp add: release_read [OF assms(2)] access_eq read_counter_def w3_def)
      ultimately show ?thesis using eq k by (simp add: Let_def split: if_splits)
    qed
    show "Q env w (fst r)"
    proof (cases "c = msg_counter (msgs (seen env w2) i)")
      case True
      then have "msg_counter (msgs (seen env w1) i) = c"
        using counter_back [OF counted, of "now w2" "now w1" "amem w1"] by (simp add: seen_def w1 w2_def c)
      then show ?thesis using True step even runs(1) by (auto simp: Q_def)
    next
      case False
      then have "loop env k f (True, words (seen env w1) a) (Some (reader b c)) w3 = Some r" using step by simp
      from IH [OF this] have "Q env w3 (fst r)" using k f counted by blast
      then show ?thesis using read_run_trans [OF runs(2)] by (auto simp: Q_def)
    qed
  qed
  from this [OF assms(1)] assms(3) have "Q env w (fst r)" by blast
  then show ?thesis by (simp add: Q_def)
qed


section \<open>An example\<close>

definition fresh_msg :: mrapi_msg where
  "fresh_msg = \<lparr>msg_valid = 0, msg_counter = 0, msg_writer = None\<rparr>"

definition start_run :: "mrapi_msg \<Rightarrow> 32 atomic_run" where
  "start_run e = \<lparr>amem = \<lparr>msgs = (\<lambda>_. e), words = (\<lambda>_. 1)\<rparr>, now = 0\<rparr>"

text \<open>Another process claims the element at the first turn, and at the second writes and gives it back.\<close>

definition visitor :: "32 turns" where
  "visitor t m =
     (if t = 0 \<and> even (msg_counter (msgs m 0)) then upd_msg 0 (set_counter (msg_counter (msgs m 0) + 1) (Some 2)) m
      else if t = 1 \<and> msg_writer (msgs m 0) \<noteq> None \<and> msg_writer (msgs m 0) \<noteq> Some 1
      then upd_msg 0 (set_counter (msg_counter (msgs m 0) + 1) None) (m\<lparr>words := (words m)(0 := 7)\<rparr>) else m)"

lemma visitor_fair: "fair_turns visitor 1 0"
  by (auto simp: fair_turns_def respectful_def visitor_def elem_ok_def upd_msg_def set_counter_def)

lemma visitor_counted: "counted visitor 0"
  by (auto simp: counted_def visitor_def upd_msg_def set_counter_def)

lemma visitor_quiet: "quiet visitor 1 0 1"
  by (auto simp: quiet_def visitor_def elem_ok_def upd_msg_def set_counter_def)

abbreviation add_five :: "bool \<times> 32 word \<Rightarrow> 32 atomic_mem \<Rightarrow> (bool \<times> 32 word) \<times> 32 atomic_mem" where
  "add_five \<equiv> (\<lambda>res m. ((True, words m 0), put_word 0 (words m 0 + 5) m))"

abbreviation spin_barrier :: mrapi_atomic_barrier where
  "spin_barrier \<equiv> sys_atomic_barrier_init 1 2 1 None MRAPI_TIMEOUT_INFINITE"

lemma spin_barrier_ok: "spinning spin_barrier 0" "axb_src spin_barrier = 1" "elem_ok 0 (amem (start_run fresh_msg))"
  by (simp_all add: spinning_def sys_atomic_barrier_init_def barrier_elem_def elem_ok_def start_run_def fresh_msg_def)

lemma add_five_op: "word_op add_five (False, 0)"
  by (simp add: word_op_def put_word_def)

theorem write_barrier_returns_witness:
  "\<exists>r s w'. atomic_write True add_five (False, 0) visitor (Some spin_barrier) (start_run fresh_msg) = Some (r, s, w')"
  by (rule write_barrier_returns [where k = 1, OF spin_barrier_ok(1) add_five_op])
    (simp_all only: spin_barrier_ok visitor_fair visitor_quiet, simp_all add: start_run_def fresh_msg_def)

lemma visitor_spin: "write_spin visitor 0 1 MRAPI_TIMEOUT_INFINITE (start_run fresh_msg) \<noteq> None"
proof -
  have "waits_for visitor 1 0 1 (start_run fresh_msg)" using spin_barrier_ok(3) by (simp add: waits_for_def start_run_def fresh_msg_def)
  from write_spin_returns [OF visitor_quiet visitor_fair this] show ?thesis by simp
qed

theorem write_barrier_exclusive_witness:
  "\<exists>r s w' v m. atomic_write True add_five (False, 0) visitor (Some spin_barrier) (start_run fresh_msg) = Some (r, s, w') \<and>
     m = seen visitor v \<and> even (msg_counter (msgs m 0)) \<and> r = (True, words m 0) \<and> words (amem w') 0 = words m 0 + 5"
proof -
  obtain rc c w1 where spin: "write_spin visitor 0 (axb_src spin_barrier) MRAPI_TIMEOUT_INFINITE (start_run fresh_msg) = Some ((rc, c), w1)"
    using visitor_spin by (auto simp: spin_barrier_ok)
  from write_spin_claims [OF this] obtain m where "rc" and c: "c = msg_counter (msgs m 0) + 1" and claim: "claimed visitor 1 0 (start_run fresh_msg) m w1"
    by (auto simp: spin_barrier_ok visitor_fair)
  note taken = after_claim(1,2) [OF claim visitor_fair add_five_op]
  have "atomic_loop visitor True add_five (False, 0) (Some (spin_barrier\<lparr>axb_mode := MRAPI_ATOMIC_WRITE\<rparr>)) (start_run fresh_msg) \<noteq> None"
    using \<open>rc\<close> spin taken
    by (subst atomic_loop.simps) (simp add: acquire_write [OF spin_barrier_ok(1)] release_write_barrier [OF spin_barrier_ok(1)] c)
  then obtain r s w' where call: "atomic_write True add_five (False, 0) visitor (Some spin_barrier) (start_run fresh_msg) = Some (r, s, w')"
    by (auto simp: atomic_write_def atomic_barrier_mode_def)
  from write_barrier_exclusive [OF call spin_barrier_ok(1) add_five_op] call show ?thesis
    by (auto simp: spin_barrier_ok visitor_fair put_word_def)
qed


end
