(* ===== verification/MRAPI_Exchange.thy ===== *)
theory MRAPI_Exchange
  imports MRAPI_Barrier
begin

text \<open>
  The single operations, sums of concurrent additions, and exchanges, in which a flag says whose turn it is: a writer waits
  until the element is invalid and makes it valid, a reader waits until it is valid and makes it invalid. At the end the runs
  that show what goes wrong.
\<close>

section \<open>Single operations\<close>

lemma word_ops:
  "word_op (\<lambda>res m. ((True, words m a), put_word a (words m a + v) m)) res"
  "word_op (\<lambda>res m. ((True, words m a + 1), put_word a (words m a + 1) m)) res"
  "word_op (\<lambda>res m. ((True, words m a - 1), put_word a (words m a - 1) m)) res"
  "word_op (\<lambda>res. cas_word a exchange compare (fst res)) res"
  by (simp_all add: word_op_def put_word_def cas_word_def)

text \<open>
  The atomic operations of a process for itself, without a barrier. Each reads and changes its word in one access: it
  applies the operation to the word as it is at that access, modulo the width of the word, hands out the value that it names -
  the one before for most, the one after for increment and decrement - and changes nothing else; compare and swap succeeds
  exactly if the word has the value compared with.
\<close>

lemma atomic_operations:
  assumes "supported TYPE('w :: len)" and m: "m = seen env w"
  shows "sys_atomic_read a (env :: 'w turns) None w = Some ((True, words m a), None, after_access m w) \<and>
    sys_atomic_add a v env None w = Some ((True, words m a), None, after_access (put_word a (words m a + v) m) w) \<and>
    sys_atomic_inc a env None w = Some ((True, words m a + 1), None, after_access (put_word a (words m a + 1) m) w) \<and>
    sys_atomic_dec a env None w = Some ((True, words m a - 1), None, after_access (put_word a (words m a - 1) m) w) \<and>
    sys_atomic_or a v env None w = Some ((True, words m a), None, after_access (put_word a (words m a OR v) m) w) \<and>
    sys_atomic_and a v env None w = Some ((True, words m a), None, after_access (put_word a (words m a AND v) m) w) \<and>
    sys_atomic_xor a v env None w = Some ((True, words m a), None, after_access (put_word a (words m a XOR v) m) w) \<and>
    sys_atomic_cas a x c env None w = Some ((c = words m a, words m a), None, after_access (if c = words m a then put_word a x m else m) w) \<and>
    sys_atomic_lock a env None w = Some ((True, words m a), None, after_access (put_word a 1 m) w) \<and>
    sys_atomic_release a env None w = Some (True, None, after_access (put_word a 0 m) w)"
  using assms
  by (auto simp: sys_atomic_read_def sys_atomic_add_def sys_atomic_inc_def sys_atomic_dec_def sys_atomic_or_def sys_atomic_and_def
      sys_atomic_xor_def sys_atomic_cas_def sys_atomic_lock_def sys_atomic_release_def unsynced cas_word_def)

text \<open>The interface has the union behind three names.\<close>

lemma and_xor_are_or:
  "mrapi_atomic_and True a v st env sync w = mrapi_atomic_or True a v st env sync w"
  "mrapi_atomic_xor True a v st env sync w = mrapi_atomic_or True a v st env sync w"
  by (simp_all add: mrapi_atomic_and_def mrapi_atomic_xor_def mrapi_atomic_or_def)

section \<open>Additions\<close>

text \<open>The additions of one process, one after the other.\<close>

fun add_all :: "nat \<Rightarrow> 'w :: len word list \<Rightarrow> 'w turns \<Rightarrow> 'w atomic_run \<Rightarrow> 'w atomic_run option" where
  "add_all a [] env w = Some w"
| "add_all a (v # vs) env w = Option.bind (sys_atomic_add a v env None w) (\<lambda>(res, sync, w). add_all a vs env w)"

text \<open>
  C37: no addition is lost. While one process adds the values \<open>vs\<close> to a word and the others, between its accesses, add
  \<open>d t\<close> at turn \<open>t\<close>, the word ends up with the sum of what it was and all that was added, modulo its width.
\<close>

theorem additions_add_up:
  assumes "supported TYPE('w :: len)" and "\<forall>t m. words (env t m) a = words (m :: 'w atomic_mem) a + d t"
  shows "\<exists>w'. add_all a vs env w = Some w' \<and> now w' = now w + length vs \<and>
     words (amem w') a = words (amem w) a + sum_list vs + (\<Sum>t = now w..<now w + length vs. d t)"
proof (induction vs arbitrary: w)
  case (Cons v vs)
  define w1 where "w1 = after_access (put_word a (words (seen env w) a + v) (seen env w)) w"
  have add: "sys_atomic_add a v env None w = Some ((True, words (seen env w) a), None, w1)"
    using assms(1) by (simp add: sys_atomic_add_def unsynced w1_def)
  from Cons.IH [of w1] obtain w' where w': "add_all a vs env w1 = Some w'" "now w' = now w1 + length vs"
    "words (amem w') a = words (amem w1) a + sum_list vs + (\<Sum>t = now w1..<now w1 + length vs. d t)" by blast
  have "words (amem w1) a = words (amem w) a + d (now w) + v" using assms(2) by (simp add: w1_def put_word_def seen_def)
  moreover have "(\<Sum>t = now w..<now w + length (v # vs). d t) = d (now w) + (\<Sum>t = Suc (now w)..<now w + length (v # vs). d t)"
    by (rule sum.atLeast_Suc_lessThan) simp
  ultimately show ?case using w' add by (simp add: w1_def algebra_simps)
qed simp

section \<open>Exchanges\<close>

definition exchanging :: "mrapi_atomic_barrier \<Rightarrow> nat \<Rightarrow> bool" where
  "exchanging b i \<longleftrightarrow> axb_xchg b \<and> axb_timeout b = MRAPI_TIMEOUT_INFINITE \<and> barrier_elem b = Some i \<and>
     \<not> axb_hold b \<and> \<not> axb_override b \<and> \<not> axb_active b"

text \<open>
  What a writer and a reader rely on. While the element is invalid it is the writer's: the reader leaves it alone; it never
  changes words. While the element is valid it is the reader's, and the writer leaves it and the words alone.
\<close>

definition reader_turns :: "'w :: len turns \<Rightarrow> nat \<Rightarrow> bool" where
  "reader_turns env i \<longleftrightarrow> (\<forall>t m. words (env t m) = words m \<and> (msg_valid (msgs m i) = 0 \<longrightarrow> msg_valid (msgs (env t m) i) = 0))"

definition writer_turns :: "'w :: len turns \<Rightarrow> nat \<Rightarrow> bool" where
  "writer_turns env i \<longleftrightarrow> (\<forall>t m. msg_valid (msgs m i) = 1 \<longrightarrow> words (env t m) = words m \<and> msg_valid (msgs (env t m) i) = 1)"

lemma exchange_spin_valid:
  assumes "exchange_spin env i mode MRAPI_TIMEOUT_INFINITE w = Some (rc, w')"
  shows "rc \<and> (\<exists>v. msg_valid (msgs (seen env v) i) = mode \<and> w' = after_access (seen env v) v)"
proof -
  have "t = MRAPI_TIMEOUT_INFINITE \<longrightarrow> fst r \<and> (\<exists>v. msg_valid (msgs (seen env v) i) = mode \<and> snd r = after_access (seen env v) v)"
    if "exchange_spin env i mode t w = Some r" for env :: "'a turns" and i mode t w r
  proof (rule exchange_spin.raw_induct [where P = "\<lambda>env i mode t w r. t = MRAPI_TIMEOUT_INFINITE \<longrightarrow> fst r \<and>
      (\<exists>v. msg_valid (msgs (seen env v) i) = mode \<and> snd r = after_access (seen env v) v)", OF _ that], intro impI)
    fix spin and env :: "'a turns" and i mode t w r
    assume IH: "\<And>env i mode t w r. spin env i mode t w = Some r \<Longrightarrow> t = MRAPI_TIMEOUT_INFINITE \<longrightarrow> fst r \<and>
        (\<exists>v. msg_valid (msgs (seen env v) i) = mode \<and> snd r = after_access (seen env v) v)"
      and eq: "(let w = snd (access env (read_valid i) w); r = access env (read_valid i) w
        in if mode XOR fst r = 0 then Some (True, snd r)
           else case spin_again t of None \<Rightarrow> Some (False, snd r) | Some timeout \<Rightarrow> spin env i mode timeout (snd r)) = Some r"
      and t: "t = MRAPI_TIMEOUT_INFINITE"
    define w1 where "w1 = after_access (seen env w) w"
    show "fst r \<and> (\<exists>v. msg_valid (msgs (seen env v) i) = mode \<and> snd r = after_access (seen env v) v)"
    proof (cases "mode XOR msg_valid (msgs (seen env w1) i) = 0")
      case True
      then have "mode XOR (mode XOR msg_valid (msgs (seen env w1) i)) = mode" by simp
      then have "msg_valid (msgs (seen env w1) i) = mode" by (simp only: xor.assoc [symmetric] xor_self_eq xor.left_neutral)
      moreover have "r = (True, after_access (seen env w1) w1)" using True eq by (simp add: access_eq read_valid_def w1_def Let_def)
      ultimately show ?thesis by auto
    next
      case False
      then have "spin env i mode MRAPI_TIMEOUT_INFINITE (after_access (seen env w1) w1) = Some r"
        using eq t by (simp add: access_eq read_valid_def spin_again_def w1_def Let_def)
      from IH [OF this] show ?thesis by blast
    qed
  qed
  from this [OF assms] show ?thesis by simp
qed

definition put_valid :: "nat \<Rightarrow> byte \<Rightarrow> 'w :: len atomic_mem \<Rightarrow> 'w atomic_mem" where
  "put_valid i v = upd_msg i (\<lambda>e. e\<lparr>msg_valid := v\<rparr>)"

lemma put_valid_simps [simp]: "words (put_valid i v m) = words m" "msg_valid (msgs (put_valid i v m) i) = v"
  by (simp_all add: put_valid_def upd_msg_def)

text \<open>Giving an element back whose flag nobody else changes.\<close>

lemma release_exchange:
  assumes "exchanging b i" and "\<And>t m. P m \<Longrightarrow> P (env t m) \<and> msg_valid (msgs (env t m) i) = v \<and> words (env t m) = words m"
    and "P (amem w)"
    and "md \<noteq> MRAPI_ATOMIC_NONE"
  shows "\<exists>w'. atomic_barrier_release env (Some (b\<lparr>axb_mode := md\<rparr>)) w =
      Some (True, Some (b\<lparr>axb_mode := md, axb_override := False\<rparr>), w') \<and> words (amem w') = words (amem w) \<and>
      msg_valid (msgs (amem w') i) = (if v = 0 then 1 else 0)"
proof -
  define w1 where "w1 = after_access (seen env w) w"
  define w2 where "w2 = after_access (seen env w1) w1"
  define w3 where "w3 = after_access (put_valid i (if v = 0 then 1 else 0) (seen env w2)) w2"
  have 1: "P (seen env w)" "msg_valid (msgs (seen env w) i) = v" "words (seen env w) = words (amem w)"
    using assms(2) [OF assms(3), of "now w"] by (simp_all add: seen_def)
  have 2: "P (seen env w1)" "msg_valid (msgs (seen env w1) i) = v" "words (seen env w1) = words (amem w)"
    using assms(2) [OF 1(1), of "now w1"] 1(3) by (simp_all add: seen_def w1_def)
  have 3: "msg_valid (msgs (seen env w2) i) = v" "words (seen env w2) = words (amem w)"
    using assms(2) [OF 2(1), of "now w2"] 2(3) by (simp_all add: seen_def w2_def)
  have "release_elem env i (b\<lparr>axb_mode := md\<rparr>) w = (True, w3)"
    using assms(1) 1 2 3
    by (simp add: release_elem_def exchanging_def access_eq read_valid_def cas_valid_def w1_def w2_def w3_def put_valid_def)
  then have "atomic_barrier_release env (Some (b\<lparr>axb_mode := md\<rparr>)) w = Some (True, Some (b\<lparr>axb_mode := md, axb_override := False\<rparr>), w3)"
    using assms(1,4) by (simp add: atomic_barrier_release_def needs_sync_def exchanging_def)
  moreover have "words (amem w3) = words (amem w)" "msg_valid (msgs (amem w3) i) = (if v = 0 then 1 else 0)"
    using 3(2) by (simp_all add: w3_def)
  ultimately show ?thesis by blast
qed

lemma acquire_exchange:
  assumes "exchanging b i" and "md \<noteq> MRAPI_ATOMIC_NONE"
  shows "try_atomic_barrier_acquire env (Some (b\<lparr>axb_mode := md\<rparr>)) w =
     map_option (\<lambda>r. (fst r, Some (b\<lparr>axb_mode := md, axb_active := False\<rparr>), snd r)) (exchange_spin env i (mode_byte md) MRAPI_TIMEOUT_INFINITE w)"
  using assms
  by (cases "exchange_spin env i (mode_byte md) MRAPI_TIMEOUT_INFINITE w")
    (auto simp: try_atomic_barrier_acquire_def acquire_elem_def needs_sync_def exchanging_def)

lemma exchange_inactive: "exchanging b i \<Longrightarrow> b\<lparr>axb_mode := md, axb_active := False\<rparr> = b\<lparr>axb_mode := md\<rparr>"
  by (cases b) (simp add: exchanging_def)

text \<open>One turn of an exchange: from a memory in which the element is the caller's to one in which it is the other's.\<close>

lemma exchange_turn:
  assumes b: "exchanging b i" and md: "md \<noteq> MRAPI_ATOMIC_NONE"
    and keep: "\<And>t m. msg_valid (msgs m i) = mode_byte md \<Longrightarrow> msg_valid (msgs (env t m) i) = mode_byte md \<and> words (env t m) = words m"
    and op: "word_op f res" "\<And>m. msgs (snd (f res m)) = msgs m"
    and spin: "exchange_spin env i (mode_byte md) MRAPI_TIMEOUT_INFINITE w = Some (True, after_access m v)" and m: "msg_valid (msgs m i) = mode_byte md"
  shows "\<exists>s w'. atomic_loop env True f res (Some (b\<lparr>axb_mode := md\<rparr>)) w = Some (fst (f res m), s, w') \<and>
     words (amem w') = words (snd (f res m)) \<and> msg_valid (msgs (amem w') i) = (if mode_byte md = 0 then 1 else 0)"
proof -
  define w1 where "w1 = after_access m v"
  define w2 where "w2 = after_access (snd (f res (seen env w1))) w1"
  have 1: "msg_valid (msgs (seen env w1) i) = mode_byte md" "words (seen env w1) = words m"
    using keep [OF m] by (simp_all add: seen_def w1_def)
  then have 2: "fst (f res (seen env w1)) = fst (f res m)" "words (amem w2) = words (snd (f res m))"
    using op(1) [unfolded word_op_def, rule_format, of "seen env w1" m] by (simp_all add: w2_def)
  have "msg_valid (msgs (amem w2) i) = mode_byte md" using 1 op(2) by (simp add: w2_def)
  then obtain w' where w': "atomic_barrier_release env (Some (b\<lparr>axb_mode := md\<rparr>)) w2 =
      Some (True, Some (b\<lparr>axb_mode := md, axb_override := False\<rparr>), w')" "words (amem w') = words (amem w2)"
      "msg_valid (msgs (amem w') i) = (if mode_byte md = 0 then 1 else 0)"
    using release_exchange [OF b, of "\<lambda>m. msg_valid (msgs m i) = mode_byte md" env "mode_byte md" w2 md] keep md by blast
  have "access env (f res) w1 = (fst (f res m), w2)" by (simp add: access_eq 2(1) w2_def)
  then have "atomic_loop env True f res (Some (b\<lparr>axb_mode := md\<rparr>)) w = Some (fst (f res m), Some (b\<lparr>axb_mode := md, axb_override := False\<rparr>), w')"
    using spin w'(1) unfolding w1_def
    by (subst atomic_loop.simps) (simp add: acquire_exchange [OF b md] exchange_inactive [OF b])
  then show ?thesis using w'(2,3) 2(2) by simp
qed

text \<open>
  C19: an exchange hands a word over. If a writer's atomic operation under an exchange that spins for ever returns, it has been
  applied once, to the words of a memory in which the element was the writer's, and the element is now the reader's; and a
  read under an exchange that comes then returns at once, gets the word that the writer left, and gives the element back -
  provided that each side leaves the element and the words alone while they are the other's.
\<close>

theorem exchange_hand_over:
  assumes call: "atomic_write True f res env (Some b) w = Some (r, s, w')"
    and b: "exchanging b i" and f: "word_op f res" "\<And>m. msgs (snd (f res m)) = msgs m"
    and reader: "reader_turns env i" and b': "exchanging b' i" and writer: "writer_turns env' i" and "supported TYPE('w :: len)"
  shows "\<exists>m :: 'w atomic_mem. msg_valid (msgs m i) = 0 \<and> r = fst (f res m) \<and> words (amem w') = words (snd (f res m)) \<and>
     msg_valid (msgs (amem w') i) = 1 \<and>
     (\<exists>s' w''. sys_atomic_read a env' (Some b') w' = Some ((True, words (amem w') a), s', w'') \<and>
        words (amem w'') = words (amem w') \<and> msg_valid (msgs (amem w'') i) = 0)"
proof -
  have loop: "atomic_loop env True f res (Some (b\<lparr>axb_mode := MRAPI_ATOMIC_WRITE\<rparr>)) w = Some (r, s, w')"
    using call by (simp add: atomic_write_def atomic_barrier_mode_def)
  have "exchange_spin env i 0 MRAPI_TIMEOUT_INFINITE w \<noteq> None"
  proof
    assume "exchange_spin env i 0 MRAPI_TIMEOUT_INFINITE w = None"
    then have "atomic_loop env True f res (Some (b\<lparr>axb_mode := MRAPI_ATOMIC_WRITE\<rparr>)) w = None"
      by (subst atomic_loop.simps) (simp add: acquire_exchange [OF b])
    with loop show False by simp
  qed
  then obtain m v where spin: "exchange_spin env i 0 MRAPI_TIMEOUT_INFINITE w = Some (True, after_access m v)" and m: "msg_valid (msgs m i) = 0"
  proof -
    from \<open>exchange_spin env i 0 MRAPI_TIMEOUT_INFINITE w \<noteq> None\<close> obtain rc w1 where "exchange_spin env i 0 MRAPI_TIMEOUT_INFINITE w = Some (rc, w1)" by auto
    moreover from exchange_spin_valid [OF this] have "rc = True" and "\<exists>v. msg_valid (msgs (seen env v) i) = 0 \<and> w1 = after_access (seen env v) v"
      by simp_all
    ultimately show ?thesis using that by blast
  qed
  obtain t u where "atomic_loop env True f res (Some (b\<lparr>axb_mode := MRAPI_ATOMIC_WRITE\<rparr>)) w = Some (fst (f res m), t, u)"
    "words (amem u) = words (snd (f res m))" "msg_valid (msgs (amem u) i) = 1"
  proof -
    have "msg_valid (msgs (env t k) i) = mode_byte MRAPI_ATOMIC_WRITE \<and> words (env t k) = words k"
      if "msg_valid (msgs k i) = mode_byte MRAPI_ATOMIC_WRITE" for t k
      using that reader by (simp add: reader_turns_def)
    from exchange_turn [where env = env, OF b _ this f, where w = w and m = m and v = v] spin m show ?thesis using that by auto
  qed
  with loop have w': "r = fst (f res m)" "words (amem w') = words (snd (f res m))" "msg_valid (msgs (amem w') i) = 1" by simp_all
  define n where "n = seen env' (after_access (seen env' w') w')"
  have n: "msg_valid (msgs n i) = 1" "words n = words (amem w')" and valid: "msg_valid (msgs (seen env' (after_access (seen env' w') w')) i) = 1"
    using writer w'(3) by (simp_all add: writer_turns_def n_def seen_def)
  have "exchange_spin env' i 1 MRAPI_TIMEOUT_INFINITE w' = Some (True, after_access n (after_access (seen env' w') w'))"
    using valid by (subst exchange_spin.simps) (simp add: access_eq read_valid_def Let_def n_def)
  then obtain t' u' where "atomic_loop env' True (load a) (False, 0) (Some (b'\<lparr>axb_mode := MRAPI_ATOMIC_READ\<rparr>)) w' = Some ((True, words n a), t', u')"
    "words (amem u') = words n" "msg_valid (msgs (amem u') i) = 0"
  proof -
    assume spun: "exchange_spin env' i 1 MRAPI_TIMEOUT_INFINITE w' = Some (True, after_access n (after_access (seen env' w') w'))"
    have "msg_valid (msgs (env' t k) i) = mode_byte MRAPI_ATOMIC_READ \<and> words (env' t k) = words k"
      if "msg_valid (msgs k i) = mode_byte MRAPI_ATOMIC_READ" for t k
      using that writer by (simp add: writer_turns_def)
    from exchange_turn [where env = env', OF b' _ this, where f = "load a" and res = "(False, 0)" and w = w' and m = n and v = "after_access (seen env' w') w'"] spun n(1)
    show ?thesis using that by (auto simp: word_op_def)
  qed
  then have "\<exists>s' w''. sys_atomic_read a env' (Some b') w' = Some ((True, words (amem w') a), s', w'') \<and>
        words (amem w'') = words (amem w') \<and> msg_valid (msgs (amem w'') i) = 0"
    using assms(8) n(2) by (simp add: sys_atomic_read_def atomic_read_def atomic_barrier_mode_def)
  with w' m show ?thesis by blast
qed

section \<open>Runs that go wrong\<close>

text \<open>
  A write that gives up waiting runs the release all the same: the counter that another process made odd is made even, and
  that process is left writing with the element free for everyone.
\<close>

lemma timed_out_write_frees:
  "\<exists>s w'. sys_atomic_add 0 5 (\<lambda>t m. m) (Some (sys_atomic_barrier_init 1 2 1 None 1)) (start_run \<lparr>msg_valid = 0, msg_counter = 1, msg_writer = Some 2\<rparr>) =
     Some ((False, 0), s, w') \<and> msg_counter (msgs (amem w') 0) = 2 \<and> words (amem w') 0 = 1"
  unfolding sys_atomic_add_def atomic_write_def
  by (subst atomic_loop.simps, simp add: supported_def atomic_barrier_mode_def sys_atomic_barrier_init_def try_atomic_barrier_acquire_def needs_sync_def
      barrier_elem_def acquire_elem_def, subst write_spin.simps, simp add: access_def read_counter_def start_run_def claim_counter_def spin_again_def
      MRAPI_TIMEOUT_INFINITE_def atomic_barrier_release_def release_elem_def needs_sync_def barrier_elem_def cas_counter_def upd_msg_def)

text \<open>
  Two reads that hold the barrier between them: the write that comes in between is noticed by the release of the second
  read, which repeats the second read only. The words come from different writes.
\<close>

definition write_between :: "32 turns" where
  "write_between t m = (if t = 2 then upd_msg 0 (\<lambda>e. e\<lparr>msg_counter := msg_counter e + 2\<rparr>) (m\<lparr>words := (\<lambda>_. 2)\<rparr>) else m)"

lemma held_reads_torn:
  "\<exists>b w s w'. sys_atomic_read 0 write_between (Some (snd (sys_atomic_hold (sys_atomic_barrier_init 1 2 1 None MRAPI_TIMEOUT_INFINITE) True))) (start_run fresh_msg) =
       Some ((True, 1), Some b, w) \<and>
     sys_atomic_read 1 write_between (Some (snd (sys_atomic_hold b False))) w = Some ((True, 2), s, w')"
proof -
  define b where "b = (snd (sys_atomic_hold (sys_atomic_barrier_init 1 2 1 None MRAPI_TIMEOUT_INFINITE) True))\<lparr>axb_mode := MRAPI_ATOMIC_READ, axb_active := True\<rparr>"
  define w where "w = (start_run fresh_msg)\<lparr>now := 2\<rparr>"
  note defs = sys_atomic_read_def atomic_read_def supported_def atomic_barrier_mode_def sys_atomic_hold_def sys_atomic_barrier_init_def
    try_atomic_barrier_acquire_def acquire_elem_def needs_sync_def barrier_elem_def atomic_barrier_release_def release_elem_def
    access_def read_counter_def write_between_def start_run_def fresh_msg_def upd_msg_def Let_def
  have "read_spin write_between 0 MRAPI_TIMEOUT_INFINITE (start_run fresh_msg) = Some ((True, 0), (start_run fresh_msg)\<lparr>now := 1\<rparr>)"
    by (subst read_spin.simps) (simp add: access_def read_counter_def write_between_def start_run_def fresh_msg_def)
  then have "sys_atomic_read 0 write_between (Some (snd (sys_atomic_hold (sys_atomic_barrier_init 1 2 1 None MRAPI_TIMEOUT_INFINITE) True))) (start_run fresh_msg) =
       Some ((True, 1), Some b, w)"
    unfolding sys_atomic_read_def atomic_read_def by (subst atomic_loop.simps) (simp add: defs b_def w_def)
  moreover have "\<exists>s w'. sys_atomic_read 1 write_between (Some (snd (sys_atomic_hold b False))) w = Some ((True, 2), s, w')"
    unfolding sys_atomic_read_def atomic_read_def
    by (subst atomic_loop.simps, simp add: defs b_def w_def, subst atomic_loop.simps, simp add: defs, subst read_spin.simps, simp add: defs)
  ultimately show ?thesis by blast
qed

text \<open>An acquire that gives up with the hold set leaves the barrier marked as held: the calls that follow use it as if it were.\<close>

lemma timed_out_hold_active:
  "\<exists>b w. try_atomic_barrier_acquire (\<lambda>t m. m)
     (Some ((snd (sys_atomic_hold (sys_atomic_barrier_init 1 2 1 None 1) True))\<lparr>axb_mode := MRAPI_ATOMIC_READ\<rparr>))
     (start_run \<lparr>msg_valid = 0, msg_counter = 1, msg_writer = Some 2\<rparr>) = Some (False, Some b, w) \<and> axb_active b"
  by (simp add: try_atomic_barrier_acquire_def sys_atomic_hold_def sys_atomic_barrier_init_def needs_sync_def barrier_elem_def acquire_elem_def,
      subst read_spin.simps, simp add: access_def read_counter_def start_run_def spin_again_def MRAPI_TIMEOUT_INFINITE_def)

text \<open>
  A lock that is taken is taken again with success, though the interface says that the word is not changed until it is 0;
  setting a bit that is set counts as a failure, and only the four lowest bits of a word can be flipped.
\<close>

lemma lock_taken_twice:
  assumes "supported TYPE('w :: len)" and "words (seen env w) a = 1"
  shows "mrapi_atomic_lock True a st env None w = Some ((Some (1 :: 'w word), Some MRAPI_SUCCESS), None, after_access (put_word a 1 (seen env w)) w)"
  using assms by (simp add: mrapi_atomic_lock_def checked_call_def mrapi_impl_atomic_lock_def with_status_def sys_atomic_lock_def unsynced)

lemma set_bit_again_fails:
  fixes env :: "32 turns"
  assumes "bit (words (seen env w) a) 3"
  shows "mrapi_atomic_set True a 3 st env None w =
    Some ((Some True, MRAPI_ERR_ATOM_OP_FAILED), None, after_access (put_word a (set_bit 3 (words (seen env w) a)) (seen env w)) w)"
proof -
  have "sys_atomic_set a 3 env None w = Some ((False, True), None, after_access (put_word a (set_bit 3 (words (seen env w) a)) (seen env w)) w)"
    using assms by (simp add: sys_atomic_set_def unsynced)
  then show ?thesis by (simp add: mrapi_atomic_set_def checked_call_def mrapi_impl_atomic_set_def with_status_def)
qed

lemma high_bit_not_changed: "4 \<le> b \<Longrightarrow> mrapi_atomic_change True a b st env sync w = None" for env :: "32 turns"
  by (simp add: mrapi_atomic_change_def checked_call_def mrapi_impl_atomic_change_def with_status_def sys_atomic_change_def)

text \<open>An exchange of words is lost if another process changes the word between the read and the compare and swap; it reports success.\<close>

lemma exchange_lost:
  fixes x :: "'w :: len word"
  assumes "supported TYPE('w)" and "words (seen env (after_access (seen env w) w)) a \<noteq> words (seen env w) a"
  shows "mrapi_atomic_xchg True a x st env None w = Some ((Some (words (seen env (after_access (seen env w) w)) a), Some MRAPI_SUCCESS), None,
     after_access (seen env (after_access (seen env w) w)) (after_access (seen env w) w))"
  using assms
  by (simp add: mrapi_atomic_xchg_def checked_call_def mrapi_impl_atomic_xchg_def always_true_def sys_atomic_xchg_def access_eq unsynced cas_word_def Let_def)

section \<open>Examples\<close>

theorem additions_add_up_witness:
  "\<exists>w'. add_all 0 [2, 3] (\<lambda>t m. put_word 0 (words m 0 + word_of_nat t) m) (start_run fresh_msg) = Some w' \<and> now w' = 2 \<and> words (amem w') 0 = 7"
  using additions_add_up [where a = 0 and vs = "[2, 3]" and env = "\<lambda>t m. put_word 0 (words m 0 + word_of_nat t) m" and d = word_of_nat and w = "start_run fresh_msg"]
  by (simp add: supported_def put_word_def start_run_def upt_rec [of 0] numeral_2_eq_2)

theorem exchange_hand_over_witness:
  "\<exists>s w' s' w''. sys_atomic_add 0 5 (\<lambda>t m. m) (Some (sys_atomic_exchange_init 1 2 1 None MRAPI_TIMEOUT_INFINITE)) (start_run fresh_msg) = Some ((True, 1), s, w') \<and>
     sys_atomic_read 0 (\<lambda>t m. m) (Some (sys_atomic_exchange_init 2 1 1 None MRAPI_TIMEOUT_INFINITE)) w' = Some ((True, 6), s', w'')"
proof -
  let ?f = "\<lambda>res m. ((True, words m 0), put_word 0 (words m 0 + 5) m)"
  let ?b = "sys_atomic_exchange_init 1 2 1 None MRAPI_TIMEOUT_INFINITE"
  have b: "exchanging ?b 0" "exchanging (sys_atomic_exchange_init 2 1 1 None MRAPI_TIMEOUT_INFINITE) 0"
    by (simp_all add: exchanging_def sys_atomic_exchange_init_def sys_atomic_barrier_init_def barrier_elem_def)
  note defs = atomic_barrier_mode_def sys_atomic_exchange_init_def sys_atomic_barrier_init_def try_atomic_barrier_acquire_def acquire_elem_def
    needs_sync_def barrier_elem_def atomic_barrier_release_def release_elem_def access_def read_valid_def cas_valid_def start_run_def fresh_msg_def upd_msg_def put_word_def
  have "\<exists>s w'. atomic_loop (\<lambda>t m. m) True ?f (False, 0) (Some (?b\<lparr>axb_mode := MRAPI_ATOMIC_WRITE\<rparr>)) (start_run fresh_msg) = Some ((True, 1), s, w') \<and>
      words (amem w') 0 = 6"
    by (subst atomic_loop.simps, simp add: defs, subst exchange_spin.simps, simp add: defs)
  then obtain s w' where run: "atomic_loop (\<lambda>t m. m) True ?f (False, 0) (Some (?b\<lparr>axb_mode := MRAPI_ATOMIC_WRITE\<rparr>)) (start_run fresh_msg) = Some ((True, 1), s, w')"
    "words (amem w') 0 = 6" by blast
  have f: "msgs (snd (?f (False, 0) m)) = msgs m" for m :: "32 atomic_mem" by (simp add: put_word_def)
  have call: "atomic_write True ?f (False, 0) (\<lambda>t m. m) (Some ?b) (start_run fresh_msg) = Some ((True, 1), s, w')"
    using run(1) by (simp add: atomic_write_def atomic_barrier_mode_def)
  have "reader_turns (\<lambda>t m :: 32 atomic_mem. m) 0" "writer_turns (\<lambda>t m :: 32 atomic_mem. m) 0"
    by (simp_all add: reader_turns_def writer_turns_def)
  from exchange_hand_over [OF call b(1) word_ops(1) f this(1) b(2) this(2), of 0] run(2)
  obtain s' w'' where "sys_atomic_read 0 (\<lambda>t m. m) (Some (sys_atomic_exchange_init 2 1 1 None MRAPI_TIMEOUT_INFINITE)) w' = Some ((True, 6), s', w'')"
    by (auto simp: supported_def)
  moreover have "sys_atomic_add 0 5 (\<lambda>t m. m) (Some ?b) (start_run fresh_msg) = Some ((True, 1), s, w')"
    using call by (simp add: sys_atomic_add_def supported_def)
  ultimately show ?thesis by blast
qed

end
