(* ===== verification/MCA_Crc.thy ===== *)
theory MCA_Crc
  imports MCAPI_Prelude
begin

text \<open>
  The checksum from which the keys of the shared segments and semaphores are derived (\<open>mca_Crc32_ComputeBuf\<close> in
  \<open>common/Fragments/mca_utils_impl.c\<close>), with the unsigned long of 64 bits that 64-bit Unix systems have. The table-driven
  code is compared with the shift register of the standard, one bit at a time.
\<close>

unbundle bit_operations_syntax

section \<open>The code\<close>

definition crcTable :: "64 word list" where
  "crcTable = [0x00000000, 0x77073096, 0xEE0E612C, 0x990951BA, 0x076DC419, 0x706AF48F, 0xE963A535, 0x9E6495A3,
     0x0EDB8832, 0x79DCB8A4, 0xE0D5E91E, 0x97D2D988, 0x09B64C2B, 0x7EB17CBD, 0xE7B82D07, 0x90BF1D91,
     0x1DB71064, 0x6AB020F2, 0xF3B97148, 0x84BE41DE, 0x1ADAD47D, 0x6DDDE4EB, 0xF4D4B551, 0x83D385C7,
     0x136C9856, 0x646BA8C0, 0xFD62F97A, 0x8A65C9EC, 0x14015C4F, 0x63066CD9, 0xFA0F3D63, 0x8D080DF5,
     0x3B6E20C8, 0x4C69105E, 0xD56041E4, 0xA2677172, 0x3C03E4D1, 0x4B04D447, 0xD20D85FD, 0xA50AB56B,
     0x35B5A8FA, 0x42B2986C, 0xDBBBC9D6, 0xACBCF940, 0x32D86CE3, 0x45DF5C75, 0xDCD60DCF, 0xABD13D59,
     0x26D930AC, 0x51DE003A, 0xC8D75180, 0xBFD06116, 0x21B4F4B5, 0x56B3C423, 0xCFBA9599, 0xB8BDA50F,
     0x2802B89E, 0x5F058808, 0xC60CD9B2, 0xB10BE924, 0x2F6F7C87, 0x58684C11, 0xC1611DAB, 0xB6662D3D,
     0x76DC4190, 0x01DB7106, 0x98D220BC, 0xEFD5102A, 0x71B18589, 0x06B6B51F, 0x9FBFE4A5, 0xE8B8D433,
     0x7807C9A2, 0x0F00F934, 0x9609A88E, 0xE10E9818, 0x7F6A0DBB, 0x086D3D2D, 0x91646C97, 0xE6635C01,
     0x6B6B51F4, 0x1C6C6162, 0x856530D8, 0xF262004E, 0x6C0695ED, 0x1B01A57B, 0x8208F4C1, 0xF50FC457,
     0x65B0D9C6, 0x12B7E950, 0x8BBEB8EA, 0xFCB9887C, 0x62DD1DDF, 0x15DA2D49, 0x8CD37CF3, 0xFBD44C65,
     0x4DB26158, 0x3AB551CE, 0xA3BC0074, 0xD4BB30E2, 0x4ADFA541, 0x3DD895D7, 0xA4D1C46D, 0xD3D6F4FB,
     0x4369E96A, 0x346ED9FC, 0xAD678846, 0xDA60B8D0, 0x44042D73, 0x33031DE5, 0xAA0A4C5F, 0xDD0D7CC9,
     0x5005713C, 0x270241AA, 0xBE0B1010, 0xC90C2086, 0x5768B525, 0x206F85B3, 0xB966D409, 0xCE61E49F,
     0x5EDEF90E, 0x29D9C998, 0xB0D09822, 0xC7D7A8B4, 0x59B33D17, 0x2EB40D81, 0xB7BD5C3B, 0xC0BA6CAD,
     0xEDB88320, 0x9ABFB3B6, 0x03B6E20C, 0x74B1D29A, 0xEAD54739, 0x9DD277AF, 0x04DB2615, 0x73DC1683,
     0xE3630B12, 0x94643B84, 0x0D6D6A3E, 0x7A6A5AA8, 0xE40ECF0B, 0x9309FF9D, 0x0A00AE27, 0x7D079EB1,
     0xF00F9344, 0x8708A3D2, 0x1E01F268, 0x6906C2FE, 0xF762575D, 0x806567CB, 0x196C3671, 0x6E6B06E7,
     0xFED41B76, 0x89D32BE0, 0x10DA7A5A, 0x67DD4ACC, 0xF9B9DF6F, 0x8EBEEFF9, 0x17B7BE43, 0x60B08ED5,
     0xD6D6A3E8, 0xA1D1937E, 0x38D8C2C4, 0x4FDFF252, 0xD1BB67F1, 0xA6BC5767, 0x3FB506DD, 0x48B2364B,
     0xD80D2BDA, 0xAF0A1B4C, 0x36034AF6, 0x41047A60, 0xDF60EFC3, 0xA867DF55, 0x316E8EEF, 0x4669BE79,
     0xCB61B38C, 0xBC66831A, 0x256FD2A0, 0x5268E236, 0xCC0C7795, 0xBB0B4703, 0x220216B9, 0x5505262F,
     0xC5BA3BBE, 0xB2BD0B28, 0x2BB45A92, 0x5CB36A04, 0xC2D7FFA7, 0xB5D0CF31, 0x2CD99E8B, 0x5BDEAE1D,
     0x9B64C2B0, 0xEC63F226, 0x756AA39C, 0x026D930A, 0x9C0906A9, 0xEB0E363F, 0x72076785, 0x05005713,
     0x95BF4A82, 0xE2B87A14, 0x7BB12BAE, 0x0CB61B38, 0x92D28E9B, 0xE5D5BE0D, 0x7CDCEFB7, 0x0BDBDF21,
     0x86D3D2D4, 0xF1D4E242, 0x68DDB3F8, 0x1FDA836E, 0x81BE16CD, 0xF6B9265B, 0x6FB077E1, 0x18B74777,
     0x88085AE6, 0xFF0F6A70, 0x66063BCA, 0x11010B5C, 0x8F659EFF, 0xF862AE69, 0x616BFFD3, 0x166CCF45,
     0xA00AE278, 0xD70DD2EE, 0x4E048354, 0x3903B3C2, 0xA7672661, 0xD06016F7, 0x4969474D, 0x3E6E77DB,
     0xAED16A4A, 0xD9D65ADC, 0x40DF0B66, 0x37D83BF0, 0xA9BCAE53, 0xDEBB9EC5, 0x47B2CF7F, 0x30B5FFE9,
     0xBDBDF21C, 0xCABAC28A, 0x53B39330, 0x24B4A3A6, 0xBAD03605, 0xCDD70693, 0x54DE5729, 0x23D967BF,
     0xB3667A2E, 0xC4614AB8, 0x5D681B02, 0x2A6F2B94, 0xB40BBE37, 0xC30C8EA1, 0x5A05DF1B, 0x2D02EF8D]"

fun crc_loop :: "byte list \<Rightarrow> 64 word \<Rightarrow> 64 word" where
  "crc_loop [] crc32 = crc32"
| "crc_loop (b # buf) crc32 = crc_loop buf (drop_bit 8 crc32 XOR crcTable ! unat ((crc32 XOR ucast b) AND 0xFF))"

definition mca_Crc32_ComputeBuf :: "64 word \<Rightarrow> byte list \<Rightarrow> 64 word" where
  "mca_Crc32_ComputeBuf inCrc32 buf = crc_loop buf (inCrc32 XOR 0xFFFFFFFF) XOR 0xFFFFFFFF"

section \<open>The shift register\<close>

definition crc_shift :: "u32 \<Rightarrow> u32" where
  "crc_shift c = (if bit c 0 then drop_bit 1 c XOR 0xEDB88320 else drop_bit 1 c)"

fun crc_register :: "byte list \<Rightarrow> u32 \<Rightarrow> u32" where
  "crc_register [] c = c"
| "crc_register (b # buf) c = crc_register buf ((crc_shift ^^ 8) (c XOR ucast b))"

definition crc32 :: "u32 \<Rightarrow> byte list \<Rightarrow> u32" where
  "crc32 c buf = NOT (crc_register buf (NOT c))"

lemma crc_shift8_unfold:
  "(crc_shift ^^ 8) c = crc_shift (crc_shift (crc_shift (crc_shift (crc_shift (crc_shift (crc_shift (crc_shift c)))))))"
  by (simp add: numeral_eq_Suc)

lemma crc_shift_numeral:
  "crc_shift 0 = 0" "crc_shift 1 = 0xEDB88320"
  "crc_shift (numeral n) = (if bit (numeral n :: u32) 0 then drop_bit 1 (numeral n) XOR 0xEDB88320 else drop_bit 1 (numeral n))"
  by (simp_all add: crc_shift_def)

text \<open>Each entry of the table is what eight shifts make of its index.\<close>

lemma crcTable_entries: "crcTable = map (\<lambda>i. ucast ((crc_shift ^^ 8) (word_of_nat i))) [0..<256]"
proof -
  have *: "map f [0..<256] = f 0 # f 1 # map f [2..<256]" for f :: "nat \<Rightarrow> 64 word"
    by (simp add: upt_rec [of 0] upt_rec [of "Suc 0"] numeral_2_eq_2 del: upt_rec_numeral)
  define g :: "nat \<Rightarrow> 64 word" where "g = (\<lambda>i. ucast ((crc_shift ^^ 8) (word_of_nat i)))"
  have "crcTable = g 0 # g 1 # map g [2..<256]"
    by (simp add: crcTable_def) (simp add: g_def crc_shift8_unfold crc_shift_numeral)
  then show ?thesis by (simp only: * g_def)
qed


section \<open>Eight bits at a time\<close>

lemma crc_shift_xor: "crc_shift (a XOR b) = crc_shift a XOR crc_shift b"
proof -
  have "0xEDB88320 XOR (0xEDB88320 XOR x) = x" for x :: u32 by (simp flip: xor.assoc)
  then show ?thesis by (auto simp: crc_shift_def bit_xor_iff drop_bit_xor ac_simps)
qed

lemma crc_shifts_xor: "(crc_shift ^^ n) (a XOR b) = (crc_shift ^^ n) a XOR (crc_shift ^^ n) b"
  by (induction n) (simp_all add: crc_shift_xor)

lemma crc_shifts_high:
  assumes "take_bit n c = 0" shows "(crc_shift ^^ n) c = drop_bit n c"
  using assms
proof (induction n arbitrary: c)
  case (Suc n)
  have "bit (take_bit (Suc n) c) 0 = bit c 0" by (simp only: bit_take_bit_iff)  simp
  with Suc.prems have "\<not> bit c 0" by simp
  then have "crc_shift c = drop_bit 1 c" by (simp add: crc_shift_def)
  moreover have "take_bit n (drop_bit 1 c) = 0" using Suc.prems by (simp add: take_bit_drop_bit)
  ultimately show ?case using Suc.IH [of "drop_bit 1 c"] by (simp only: funpow_Suc_right o_apply drop_bit_drop_bit) simp
qed simp

lemma crc_shift8_split: "(crc_shift ^^ 8) c = drop_bit 8 c XOR (crc_shift ^^ 8) (take_bit 8 c)"
proof -
  have "c = push_bit 8 (drop_bit 8 c) XOR take_bit 8 c" by (rule bit_eqI) (auto simp: bit_simps)
  moreover have "(crc_shift ^^ 8) (push_bit 8 (drop_bit 8 c)) = drop_bit 8 (push_bit 8 (drop_bit 8 c))"
    by (rule crc_shifts_high) (auto intro!: bit_eqI simp: bit_simps)
  moreover have "drop_bit 8 (push_bit 8 (drop_bit 8 c)) = drop_bit 8 c"
    by (rule bit_eqI) (auto simp: bit_simps dest: bit_imp_le_length)
  ultimately show ?thesis by (metis crc_shifts_xor)
qed

lemma low_byte: "x AND 0xFF = take_bit 8 x" for x :: "'a :: len word"
  by (simp add: take_bit_eq_mask mask_eq_exp_minus_1)

lemma ucast_xor: "ucast (a XOR b) = (ucast a XOR ucast b :: 'b :: len word)" for a b :: "'a :: len word"
  by (auto intro!: bit_eqI simp: bit_simps)

lemma ucast_back: "ucast (ucast c :: 64 word) = c" for c :: u32
  by (auto intro!: bit_eqI simp: bit_simps)

lemma ucast_drop_bit: "ucast (drop_bit n c) = (drop_bit n (ucast c) :: 64 word)" for c :: u32
proof (rule bit_eqI)
  show "bit (ucast (drop_bit n c) :: 64 word) i = bit (drop_bit n (ucast c) :: 64 word) i" for i
    using bit_imp_le_length [of c "n + i"] by (auto simp: bit_simps)
qed

lemma table_step:
  "drop_bit 8 (ucast c) XOR crcTable ! unat ((ucast c XOR ucast b :: 64 word) AND 0xFF) = ucast ((crc_shift ^^ 8) (c XOR ucast b))"
  for c :: u32 and b :: byte
proof -
  let ?x = "c XOR ucast b"
  have i: "unat ((ucast c XOR ucast b :: 64 word) AND 0xFF) = unat (take_bit 8 ?x)"
    unfolding low_byte by (rule bit_eqI) (auto simp: bit_simps bit_unsigned_iff)
  have "unat (take_bit 8 ?x) < 256" using take_bit_nat_less_exp [of 8 "unat ?x"] by (simp add: unsigned_take_bit_eq del: take_bit_xor)
  then have "crcTable ! unat (take_bit 8 ?x) = ucast ((crc_shift ^^ 8) (take_bit 8 ?x))" by (simp add: crcTable_entries)
  moreover have "drop_bit 8 ?x = drop_bit 8 c" by (rule bit_eqI) (auto simp: bit_simps dest: bit_imp_le_length)
  then have "(crc_shift ^^ 8) ?x = drop_bit 8 c XOR (crc_shift ^^ 8) (take_bit 8 ?x)" using crc_shift8_split [of ?x] by simp
  ultimately show ?thesis by (simp only: i ucast_xor ucast_drop_bit)
qed

lemma crc_loop_register: "crc_loop buf (ucast c) = ucast (crc_register buf c)" for c :: u32
  by (induction buf arbitrary: c) (simp_all only: crc_loop.simps crc_register.simps table_step)

section \<open>What the checksum detects\<close>

lemma crc_shift_bit: "bit (crc_shift z) i \<longleftrightarrow> (if bit z 0 then bit z (Suc i) \<noteq> bit (0xEDB88320 :: u32) i else bit z (Suc i))"
  by (simp add: crc_shift_def bit_xor_iff bit_drop_bit_eq)

lemma crc_shift_zero: assumes "crc_shift z = 0" shows "z = 0"
proof -
  have z: "\<not> bit (crc_shift z) i" for i using assms by simp
  have "\<not> bit z (Suc 31)" by (auto dest: bit_imp_le_length)
  moreover have "bit (0xEDB88320 :: u32) 31" by simp
  ultimately have b: "\<not> bit z 0" using z [of 31] crc_shift_bit [of z 31] by auto
  show ?thesis
  proof (rule bit_eqI)
    show "bit z i = bit 0 i" for i using b z [of "i - 1"] crc_shift_bit [of z "i - 1"] by (cases i) auto
  qed
qed

lemma xor_zero: "a XOR b = 0 \<longleftrightarrow> a = b" for a b :: "'a :: len word"
proof
  assume "a XOR b = 0"
  then have "(a XOR b) XOR b = b" by simp
  then show "a = b" by (simp add: xor.assoc)
qed simp

lemma crc_shifts_inj: "(crc_shift ^^ n) a = (crc_shift ^^ n) b \<Longrightarrow> a = b"
proof -
  have "(crc_shift ^^ n) z = 0 \<Longrightarrow> z = 0" for z
    by (induction n) (auto dest: crc_shift_zero)
  from this [of "a XOR b"] show "(crc_shift ^^ n) a = (crc_shift ^^ n) b \<Longrightarrow> a = b"
    by (simp add: crc_shifts_xor xor_zero)
qed

lemma crc_register_append: "crc_register (a @ b) c = crc_register b (crc_register a c)"
  by (induction a arbitrary: c) simp_all

lemma xor_cancel: "x XOR a = x XOR b \<longleftrightarrow> a = b" "a XOR x = b XOR x \<longleftrightarrow> a = b" for a b x :: "'a :: len word"
  by (metis xor.assoc xor_self_eq xor.left_neutral) (metis xor.assoc xor_self_eq xor.right_neutral)

lemma crc_register_inj: "crc_register buf a = crc_register buf b \<Longrightarrow> a = b"
proof (induction buf arbitrary: a b)
  case (Cons x buf)
  then have "(crc_shift ^^ 8) (a XOR ucast x) = (crc_shift ^^ 8) (b XOR ucast x)" by (simp only: crc_register.simps)
  then have "a XOR ucast x = b XOR ucast x" by (rule crc_shifts_inj)
  then show ?case by (simp only: xor_cancel)
qed simp

text \<open>The bytes of a burst as one word: the register that has seen them depends on their difference only.\<close>

fun burst_word :: "byte list \<Rightarrow> u32" where
  "burst_word [] = 0"
| "burst_word (b # bs) = ucast b XOR push_bit 8 (burst_word bs)"

lemma burst_word_high: "8 * length bs \<le> n \<Longrightarrow> \<not> bit (burst_word bs) n"
proof (induction bs arbitrary: n)
  case (Cons b bs)
  then have "\<not> bit (burst_word bs) (n - 8)" by simp
  with Cons.prems show ?case by (auto simp: bit_simps dest: bit_imp_le_length)
qed simp

lemma burst_word_inj: "length x = length y \<Longrightarrow> length x \<le> 4 \<Longrightarrow> burst_word x = burst_word y \<Longrightarrow> x = y"
proof (induction x y rule: list_induct2)
  case (Cons a x b y)
  have n: "\<not> bit (burst_word x) i" "\<not> bit (burst_word y) i" if "24 \<le> i" for i
    using Cons.hyps Cons.prems(1) that by (auto intro!: burst_word_high)
  have e: "bit (burst_word (a # x)) i = bit (burst_word (b # y)) i" for i using Cons.prems(2) by simp
  have "a = b"
  proof (rule bit_eqI)
    show "bit a i = bit b i" for i using e [of i] by (auto simp: bit_simps dest: bit_imp_le_length)
  qed
  moreover have "burst_word x = burst_word y"
  proof (rule bit_eqI)
    show "bit (burst_word x) i = bit (burst_word y) i" for i
      using e [of "i + 8"] n [of i] by (cases "i < 24") (auto simp: bit_simps dest: bit_imp_le_length)
  qed
  ultimately show ?case using Cons.IH Cons.prems(1) by simp
qed simp

lemma crc_register_burst: "length bs \<le> 4 \<Longrightarrow> crc_register bs c = (crc_shift ^^ (8 * length bs)) (c XOR burst_word bs)"
proof (induction bs arbitrary: c)
  case (Cons b bs)
  let ?n = "8 * length bs"
  have z: "take_bit 8 (push_bit 8 (burst_word bs)) = 0" by (rule bit_eqI) (auto simp: bit_simps)
  have "drop_bit 8 (push_bit 8 (burst_word bs)) = burst_word bs"
  proof (rule bit_eqI)
    show "bit (drop_bit 8 (push_bit 8 (burst_word bs))) i = bit (burst_word bs) i" for i
      using burst_word_high [of bs i] Cons.prems by (cases "i < 24") (auto simp: bit_simps)
  qed
  then have "(crc_shift ^^ 8) (push_bit 8 (burst_word bs)) = burst_word bs" using crc_shifts_high [OF z] by simp
  then have "(crc_shift ^^ 8) (c XOR burst_word (b # bs)) = (crc_shift ^^ 8) (c XOR ucast b) XOR burst_word bs"
    by (simp add: crc_shifts_xor flip: xor.assoc)
  moreover have "(crc_shift ^^ (8 * length (b # bs))) w = (crc_shift ^^ ?n) ((crc_shift ^^ 8) w)" for w
    by (simp add: funpow_add add.commute [of 8])
  ultimately show ?case using Cons.IH [of "(crc_shift ^^ 8) (c XOR ucast b)"] Cons.prems by simp
qed simp

section \<open>The keys\<close>

text \<open>
  The keys of \<open>mrapi_impl_initialize\<close> (\<open>mrapi_impl_spec_initialize.c\<close>, Unix branch): \<open>buff\<close> has 128 bytes, is cleared, and
  the name of the user and five suffixes are appended to it in turn. \<open>None\<close> is undefined behaviour: an effective user
  without an entry in the password file, or a name that makes \<open>strcat\<close> run over the end of the buffer.
\<close>

definition strcat :: "byte list \<Rightarrow> byte list \<Rightarrow> byte list option" where
  "strcat buf s = (let n = length (takeWhile (\<lambda>b. b \<noteq> 0) buf) in
     if n + length s < length buf then Some (take n buf @ s @ 0 # drop (Suc (n + length s)) buf) else None)"

definition chars :: "string \<Rightarrow> byte list" where
  "chars s = map (\<lambda>c. word_of_nat (of_char c)) s"

text \<open>\<open>key\<close> and the others are \<open>int\<close>: the checksum is cut to 32 bits, and widened with its sign where it is passed back.\<close>

definition crc_key :: "u32 \<Rightarrow> byte list \<Rightarrow> u32" where
  "crc_key key buff = ucast (mca_Crc32_ComputeBuf (scast key) buff)"

record mrapi_keys =
  key :: u32
  db_key :: u32
  sems_key :: u32
  shmems_key :: u32
  rmems_key :: u32
  requests_key :: u32

definition mrapi_derive_keys :: "byte list option \<Rightarrow> mrapi_keys option" where
  "mrapi_derive_keys pw = do {
     pw_name \<leftarrow> pw;
     buff \<leftarrow> strcat (replicate 128 0) pw_name;
     buff \<leftarrow> strcat buff (chars ''_mrapi'');
     let key = 0;
     let key = crc_key key buff;
     buff \<leftarrow> strcat buff (chars ''_db'');
     let db = crc_key key buff;
     buff \<leftarrow> strcat buff (chars ''_sems'');
     let sems = crc_key key buff;
     buff \<leftarrow> strcat buff (chars ''_shmems'');
     let shmems = crc_key key buff;
     buff \<leftarrow> strcat buff (chars ''_rmems'');
     let rmems = crc_key key buff;
     buff \<leftarrow> strcat buff (chars ''_requests'');
     let requests = crc_key key buff;
     Some \<lparr>key = key, db_key = db, sems_key = sems, shmems_key = shmems, rmems_key = rmems, requests_key = requests\<rparr>
   }"

lemma strcat_zeros:
  assumes "0 \<notin> set s" and "0 \<notin> set t"
  shows "strcat (s @ replicate n 0) t = (if length t < n then Some ((s @ t) @ replicate (n - length t) 0) else None)"
proof -
  have "takeWhile (\<lambda>b. b \<noteq> 0) (s @ replicate n (0 :: byte)) = s"
    using assms(1) by (induction s) (simp_all add: takeWhile_eq_Nil_iff)
  moreover have "0 # replicate (n - Suc m) (0 :: byte) = replicate (n - m) 0" if "m < n" for m
    using that by (simp flip: replicate_Suc add: Suc_diff_Suc)
  ultimately show ?thesis by (simp add: strcat_def Let_def add.commute)
qed

section \<open>Buffers that differ\<close>

abbreviation xor_bytes :: "byte list \<Rightarrow> byte list \<Rightarrow> byte list" where
  "xor_bytes \<equiv> map2 (XOR)"

definition table_shift :: "64 word \<Rightarrow> 64 word" where
  "table_shift c = drop_bit 8 c XOR crcTable ! unat (c AND 0xFF)"

lemma crcTable_entry: "crcTable ! unat (c AND 0xFF) = ucast ((crc_shift ^^ 8) (ucast (take_bit 8 c)))" for c :: "64 word"
proof -
  have "unat (take_bit 8 c) < 256" using take_bit_nat_less_exp [of 8 "unat c"] by (simp add: unsigned_take_bit_eq)
  then show ?thesis unfolding low_byte by (simp add: crcTable_entries)
qed

lemma table_shift_xor: "table_shift (a XOR b) = table_shift a XOR table_shift b"
proof -
  show ?thesis
    by (simp only: table_shift_def crcTable_entry take_bit_xor drop_bit_xor ucast_xor crc_shifts_xor) (simp only: ac_simps)
qed

lemma crc_loop_Cons: "crc_loop (b # buf) c = crc_loop buf (table_shift (c XOR ucast b))"
proof -
  have "drop_bit 8 (c XOR ucast b) = drop_bit 8 c" by (rule bit_eqI) (auto simp: bit_simps dest: bit_imp_le_length)
  then show ?thesis by (simp add: table_shift_def)
qed

lemma crc_loop_xor: "length x = length y \<Longrightarrow> crc_loop x a XOR crc_loop y b = crc_loop (xor_bytes x y) (a XOR b)"
proof (induction x y arbitrary: a b rule: list_induct2)
  case (Cons m x n y)
  have "(a XOR ucast m) XOR (b XOR ucast n) = (a XOR b) XOR (ucast (m XOR n) :: 64 word)" by (simp only: ucast_xor ac_simps)
  then show ?case
    by (simp only: crc_loop_Cons Cons.IH table_shift_xor [symmetric] list.map zip_Cons_Cons prod.case)
qed simp

lemma crc_register_zeros: "crc_register (replicate n 0) 0 = 0"
proof (induction n)
  case (Suc n)
  have "(crc_shift ^^ 8) 0 = 0" by (simp add: crc_shift8_unfold crc_shift_numeral)
  then show ?case using Suc.IH by simp
qed simp

lemma xor_bytes_same: "xor_bytes s s = replicate (length s) 0"
  by (induction s) simp_all

lemma xor_bytes_zeros: "length t \<le> m \<Longrightarrow> xor_bytes (replicate m 0) (t @ replicate (m - length t) 0) = t @ replicate (m - length t) 0"
proof (induction t arbitrary: m)
  case Nil
  show ?case by (induction m) simp_all
next
  case (Cons b t)
  then show ?case by (cases m) simp_all
qed

text \<open>Two buffers of which one has \<open>t\<close> where the other ends: with the same start value their checksums differ unless \<open>t\<close> alone leaves the register 0.\<close>

lemma crc_keys_apart:
  assumes "length t \<le> m" and "crc_register t 0 \<noteq> 0"
  shows "crc_key k (s @ replicate m 0) \<noteq> crc_key k ((s @ t) @ replicate (m - length t) 0)"
proof
  let ?x = "s @ replicate m 0" and ?y = "(s @ t) @ replicate (m - length t) 0"
  let ?i = "scast k XOR 0xFFFFFFFF :: 64 word"
  have len: "length ?x = length ?y" using assms(1) by simp
  have "xor_bytes ?x ?y = replicate (length s) 0 @ t @ replicate (m - length t) 0"
    using assms(1) by (simp add: xor_bytes_same xor_bytes_zeros)
  then have "crc_loop ?x ?i XOR crc_loop ?y ?i = crc_loop (replicate (length s) 0 @ t @ replicate (m - length t) 0) (ucast (0 :: u32))"
    using crc_loop_xor [OF len, of ?i ?i] by simp
  also have "\<dots> = ucast (crc_register (replicate (m - length t) 0) (crc_register t 0))"
    by (simp only: crc_loop_register crc_register_append crc_register_zeros)
  finally have diff: "crc_loop ?x ?i XOR crc_loop ?y ?i = ucast (crc_register (replicate (m - length t) 0) (crc_register t 0))" .
  assume "crc_key k ?x = crc_key k ?y"
  then have "(ucast (crc_loop ?x ?i) :: u32) = ucast (crc_loop ?y ?i)"
    by (simp only: crc_key_def mca_Crc32_ComputeBuf_def ucast_xor xor_cancel)
  then have "(ucast (crc_loop ?x ?i XOR crc_loop ?y ?i) :: u32) = 0" by (simp only: ucast_xor xor_self_eq)
  then have "(ucast (ucast (crc_register (replicate (m - length t) 0) (crc_register t 0)) :: 64 word) :: u32) = 0" by (simp only: diff)
  then have "crc_register (replicate (m - length t) 0) (crc_register t 0) = crc_register (replicate (m - length t) 0) 0"
    by (simp only: ucast_back crc_register_zeros)
  then show False using assms(2) by (auto dest: crc_register_inj)
qed

lemma suffix_registers:
  "crc_register (chars ''_sems'') 0 \<noteq> 0" "crc_register (chars ''_shmems'') 0 \<noteq> 0"
  "crc_register (chars ''_rmems'') 0 \<noteq> 0" "crc_register (chars ''_requests'') 0 \<noteq> 0"
  "crc_register (chars ''_sems_shmems'') 0 \<noteq> 0" "crc_register (chars ''_shmems_rmems'') 0 \<noteq> 0"
  "crc_register (chars ''_rmems_requests'') 0 \<noteq> 0"
  "crc_register (chars ''_sems_shmems_rmems'') 0 \<noteq> 0" "crc_register (chars ''_shmems_rmems_requests'') 0 \<noteq> 0"
  "crc_register (chars ''_sems_shmems_rmems_requests'') 0 \<noteq> 0"
  by (simp_all add: chars_def crc_shift8_unfold crc_shift_numeral)

lemma chars_no_zero:
  "0 \<notin> set (chars ''_mrapi'')" "0 \<notin> set (chars ''_db'')" "0 \<notin> set (chars ''_sems'')"
  "0 \<notin> set (chars ''_shmems'')" "0 \<notin> set (chars ''_rmems'')" "0 \<notin> set (chars ''_requests'')"
  by (simp_all add: chars_def)

lemma chars_append: "chars (s @ t) = chars s @ chars t" by (simp add: chars_def)

lemma length_chars: "length (chars s) = length s" by (simp add: chars_def)

definition keys_of :: "byte list \<Rightarrow> mrapi_keys" where
  "keys_of name = (let b = (\<lambda>s. (name @ chars s) @ replicate (128 - length name - length s) 0); k = crc_key 0 (b ''_mrapi'') in
     \<lparr>key = k, db_key = crc_key k (b ''_mrapi_db''), sems_key = crc_key k (b ''_mrapi_db_sems''),
      shmems_key = crc_key k (b ''_mrapi_db_sems_shmems''), rmems_key = crc_key k (b ''_mrapi_db_sems_shmems_rmems''),
      requests_key = crc_key k (b ''_mrapi_db_sems_shmems_rmems_requests'')\<rparr>)"

lemma mrapi_derive_keys_eq:
  assumes "0 \<notin> set name"
  shows "mrapi_derive_keys (Some name) = (if length name \<le> 91 then Some (keys_of name) else None)"
proof -
  have 0: "strcat (replicate 128 0) name = (if length name < 128 then Some (name @ replicate (128 - length name) 0) else None)"
    using strcat_zeros [of "[]" name 128] assms by simp
  have c: "chars ''_mrapi_db_sems_shmems_rmems_requests'' = chars ''_mrapi_db_sems_shmems_rmems'' @ chars ''_requests''"
    "chars ''_mrapi_db_sems_shmems_rmems'' = chars ''_mrapi_db_sems_shmems'' @ chars ''_rmems''"
    "chars ''_mrapi_db_sems_shmems'' = chars ''_mrapi_db_sems'' @ chars ''_shmems''"
    "chars ''_mrapi_db_sems'' = chars ''_mrapi_db'' @ chars ''_sems''"
    "chars ''_mrapi_db'' = chars ''_mrapi'' @ chars ''_db''"
    by (simp_all add: chars_def)
  show ?thesis
    using assms
    by (simp add: mrapi_derive_keys_def 0 strcat_zeros chars_no_zero keys_of_def Let_def c length_chars del: append_assoc flip: append_assoc) arith
qed

text \<open>
  A key with the sign bit is widened to a start value with 32 ones above: after it the checksum is not that of the shift
  register that goes on from the key.
\<close>

lemma negative_key_not_continued: "crc_key 0x80000000 [0] \<noteq> crc32 0x80000000 [0]"
proof -
  have "(NOT 0x80000000 :: u32) = 0x7FFFFFFF" "(scast (0x80000000 :: u32) :: 64 word) = 0xFFFFFFFF80000000" by simp_all
  moreover have "(0xFFFFFFFF80000000 XOR 0xFFFFFFFF :: 64 word) = 0xFFFFFFFF7FFFFFFF" by simp
  ultimately show ?thesis
    by (simp only: crc_key_def mca_Crc32_ComputeBuf_def crc32_def crc_register.simps crc_loop.simps)
      (simp add: crcTable_def crc_shift8_unfold crc_shift_numeral)
qed

lemma unknown_user_keys: "mrapi_derive_keys None = None"
  by (simp add: mrapi_derive_keys_def)

section \<open>Properties\<close>

lemma ucast_not: "ucast c XOR 0xFFFFFFFF = (ucast (NOT c) :: 64 word)" for c :: u32
proof -
  have "(0xFFFFFFFF :: 64 word) = ucast (- 1 :: u32)" by (simp add: unsigned_minus_1_eq_mask mask_eq_exp_minus_1)
  then have "ucast c XOR 0xFFFFFFFF = (ucast (c XOR - 1) :: 64 word)" by (simp only: ucast_xor)
  then show ?thesis by simp
qed

lemma crc_table_register: "mca_Crc32_ComputeBuf (ucast c) buf = ucast (crc32 c buf)" for c :: u32
  by (simp add: mca_Crc32_ComputeBuf_def crc32_def ucast_not crc_loop_register)

text \<open>
  C21: the checksum of the table-driven code is that of the shift register with the reflected polynomial 0xEDB88320, for
  every start value of 32 bits, and a checksum passed back as the start value continues it over the next buffer.
\<close>

theorem crc_is_shift_register:
  "mca_Crc32_ComputeBuf (ucast c) buf = ucast (crc32 c buf) \<and>
   mca_Crc32_ComputeBuf (mca_Crc32_ComputeBuf i a) b = mca_Crc32_ComputeBuf i (a @ b)" for c :: u32
proof -
  have a: "crc_loop (a @ b) c = crc_loop b (crc_loop a c)" for c by (induction a arbitrary: c) simp_all
  show ?thesis by (simp add: crc_table_register) (simp add: mca_Crc32_ComputeBuf_def a xor.assoc)
qed

text \<open>
  C39: two buffers that differ only in up to four consecutive bytes have different checksums.
\<close>

theorem crc_detects_bursts:
  fixes c :: u32
  assumes "length x = length y" and "length x \<le> 4" and "x \<noteq> y"
  shows "mca_Crc32_ComputeBuf (ucast c) (p @ x @ s) \<noteq> mca_Crc32_ComputeBuf (ucast c) (p @ y @ s)"
proof
  assume "mca_Crc32_ComputeBuf (ucast c) (p @ x @ s) = mca_Crc32_ComputeBuf (ucast c) (p @ y @ s)"
  then have "(ucast (ucast (crc32 c (p @ x @ s)) :: 64 word) :: u32) = ucast (ucast (crc32 c (p @ y @ s)) :: 64 word)"
    by (simp only: crc_table_register)
  then have "crc_register (p @ x @ s) (NOT c) = crc_register (p @ y @ s) (NOT c)" by (simp only: ucast_back crc32_def) simp
  then have "crc_register x (crc_register p (NOT c)) = crc_register y (crc_register p (NOT c))"
    by (auto simp: crc_register_append dest: crc_register_inj)
  then have "burst_word x = burst_word y" using assms(1,2) by (auto simp: crc_register_burst xor_cancel dest!: crc_shifts_inj)
  then show False using burst_word_inj assms by blast
qed

theorem crc_detects_bursts_witness:
  "mca_Crc32_ComputeBuf (ucast (0 :: u32)) ([1] @ [2, 3, 4, 5] @ [6]) \<noteq> mca_Crc32_ComputeBuf (ucast (0 :: u32)) ([1] @ [2, 9, 4, 7] @ [6])"
  by (rule crc_detects_bursts) simp_all

text \<open>
  C18: a user's name (a string of no more than 91 characters) gives five resource keys that are pairwise different, whatever
  the name is: no two of the shared objects of one user get the same key. A longer name overruns the buffer of 128 bytes.
\<close>

theorem resource_keys_distinct:
  assumes "0 \<notin> set name"
  shows "case mrapi_derive_keys (Some name) of None \<Rightarrow> 91 < length name
    | Some k \<Rightarrow> length name \<le> 91 \<and> distinct [db_key k, sems_key k, shmems_key k, rmems_key k, requests_key k]"
proof (cases "length name \<le> 91")
  case True
  have apart: "crc_key k ((name @ chars s) @ replicate (128 - length name - length s) 0) \<noteq>
      crc_key k ((name @ chars (s @ t)) @ replicate (128 - length name - length (s @ t)) 0)"
    if "crc_register (chars t) 0 \<noteq> 0" and "length s + length t \<le> 36" for k s t
    using crc_keys_apart [of "chars t" "128 - length name - length s" k "name @ chars s"] that True
    by (simp add: chars_append length_chars add.assoc)
  show ?thesis
    using True apart [of "''_sems''" "''_mrapi_db''"] apart [of "''_sems_shmems''" "''_mrapi_db''"]
      apart [of "''_sems_shmems_rmems''" "''_mrapi_db''"] apart [of "''_sems_shmems_rmems_requests''" "''_mrapi_db''"]
      apart [of "''_shmems''" "''_mrapi_db_sems''"] apart [of "''_shmems_rmems''" "''_mrapi_db_sems''"]
      apart [of "''_shmems_rmems_requests''" "''_mrapi_db_sems''"] apart [of "''_rmems''" "''_mrapi_db_sems_shmems''"]
      apart [of "''_rmems_requests''" "''_mrapi_db_sems_shmems''"] apart [of "''_requests''" "''_mrapi_db_sems_shmems_rmems''"]
    by (simp add: mrapi_derive_keys_eq assms keys_of_def Let_def suffix_registers)
next
  case False
  then show ?thesis by (simp add: mrapi_derive_keys_eq assms)
qed

theorem resource_keys_distinct_witness:
  "\<exists>k. mrapi_derive_keys (Some (chars ''root'')) = Some k \<and> distinct [db_key k, sems_key k, shmems_key k, rmems_key k, requests_key k]"
proof -
  have name: "0 \<notin> set (chars ''root'')" "length (chars ''root'') \<le> 91" by (simp_all add: chars_def)
  then obtain k where "mrapi_derive_keys (Some (chars ''root'')) = Some k" by (simp add: mrapi_derive_keys_eq)
  with resource_keys_distinct [OF name(1)] show ?thesis by auto
qed

end
