(* ===== verification/ABB_Queue.thy ===== *)
theory ABB_Queue
  imports MCAPI_Handle
begin

text \<open>
  The lock-free transport (\<open>transport_sm_abb.c\<close>, \<open>Fragments/transport_sm_queue_abb.c\<close>): the receive queue of an endpoint with
  its two counters, the pool of buffers, and the calls that move a message through them without a lock.

  A call is a program counter that makes one access to the shared memory per turn, so that any interleaving of the turns of
  different threads is a run. The constructors carry the local variables that are alive. \<open>mrapi_atomic_read\<close>, \<open>_cas\<close> and \<open>_inc\<close>
  without a barrier are one access (\<open>MRAPI_Atomic\<close>), \<open>mrapi_atomic_xchg\<close> is a read and a compare-and-swap. Copying the
  payload is one access. The endpoint is the index of its queue; the calls of \<open>mcapi_dprintf\<close> and the stores to the fields
  that only disabled code reads are left out. The limits are those of \<open>mca_config.h\<close>, which \<open>mca_config_abb.h\<close> repeats. The 32 bits of \<open>buff_index\<close> are a \<open>u32\<close>.
\<close>

section \<open>Data\<close>

datatype mcapi_buffer_state = BUFFER_FREE | BUFFER_RESERVED | BUFFER_ALLOCATED | BUFFER_RECEIVED

record abb_descriptor =
  d_state :: mcapi_buffer_state
  d_index :: u32
  d_reserved :: bool

record abb_queue =
  q_type :: channel_type
  update_counter :: u32
  ack_counter :: u32
  q_slots :: "abb_descriptor carray"

text \<open>The pointer \<open>parent\<close> to a descriptor is the endpoint and the index in its queue.\<close>

record abb_entry = buffer_entry +
  parent :: "(nat \<times> nat) option"

record abb_mem =
  queues :: "abb_queue carray"
  pool :: "abb_entry carray"

datatype queue_status =
  QUEUE_SUCCESS | QUEUE_FULL | QUEUE_FULL_CONSUMER_READING | QUEUE_EMPTY | QUEUE_EMPTY_PRODUCER_INSERTING

definition upd_abb_queue :: "nat \<Rightarrow> (abb_queue \<Rightarrow> abb_queue) \<Rightarrow> abb_mem \<Rightarrow> abb_mem" where
  "upd_abb_queue c f m = m\<lparr>queues := (queues m)(c := f (queues m c))\<rparr>"

definition upd_slot :: "nat \<Rightarrow> nat \<Rightarrow> (abb_descriptor \<Rightarrow> abb_descriptor) \<Rightarrow> abb_mem \<Rightarrow> abb_mem" where
  "upd_slot c k f = upd_abb_queue c (\<lambda>q. q\<lparr>q_slots := (q_slots q)(k := f (q_slots q k))\<rparr>)"

definition upd_pool :: "nat \<Rightarrow> (abb_entry \<Rightarrow> abb_entry) \<Rightarrow> abb_mem \<Rightarrow> abb_mem" where
  "upd_pool i f m = m\<lparr>pool := (pool m)(i := f (pool m i))\<rparr>"

text \<open>A compare-and-swap of the state of a descriptor.\<close>

definition cas_state :: "nat \<Rightarrow> nat \<Rightarrow> mcapi_buffer_state \<Rightarrow> mcapi_buffer_state \<Rightarrow> abb_mem \<Rightarrow> bool \<times> abb_mem" where
  "cas_state c k old new m =
     (if d_state (q_slots (queues m c) k) = old then (True, upd_slot c k (\<lambda>d. d\<lparr>d_state := new\<rparr>) m) else (False, m))"

definition cas_magic :: "nat \<Rightarrow> u32 \<Rightarrow> u32 \<Rightarrow> abb_mem \<Rightarrow> bool \<times> abb_mem" where
  "cas_magic i old new m =
     (if magic_num (pool m i) = old then (True, upd_pool i (\<lambda>b. b\<lparr>magic_num := new\<rparr>) m) else (False, m))"

section \<open>Counters\<close>

text \<open>
  Every completed operation adds two to its counter, an operation in progress makes it odd. \<open>ac\<close> and \<open>uc\<close> are the values
  read from the counters.
\<close>

definition mcapi_trans_queue_elements :: "u32 \<Rightarrow> u32 \<Rightarrow> u32" where
  "mcapi_trans_queue_elements ac uc = (uc - ac) div 2"

definition head_status :: "u32 \<Rightarrow> u32 \<Rightarrow> queue_status" where
  "head_status uc ac =
     (let lastAC = 2 * (ac div 2)
      in if uc = lastAC then QUEUE_EMPTY
         else if uc - lastAC = 1 then QUEUE_EMPTY_PRODUCER_INSERTING else QUEUE_SUCCESS)"

definition tail_status :: "u32 \<Rightarrow> u32 \<Rightarrow> queue_status" where
  "tail_status ac uc =
     (let diff = sint (2 * (uc div 2) - ac)
      in if diff \<ge> 2 * int MCAPI_MAX_QUEUE_ENTRIES then QUEUE_FULL
         else if diff = 2 * int MCAPI_MAX_QUEUE_ENTRIES - 1 then QUEUE_FULL_CONSUMER_READING else QUEUE_SUCCESS)"

definition counter_slot :: "u32 \<Rightarrow> nat" where
  "counter_slot counter = unat ((2 * (counter div 2)) div 2) mod MCAPI_MAX_QUEUE_ENTRIES"

text \<open>The four values that \<open>mcapi_trans_queue_status\<close> reads, in this order.\<close>

definition mcapi_trans_queue_status :: "u32 \<Rightarrow> u32 \<Rightarrow> u32 \<Rightarrow> u32 \<Rightarrow> queue_status" where
  "mcapi_trans_queue_status tempAC uc tempUC lastAC =
     (if tail_status tempAC uc \<noteq> QUEUE_SUCCESS then tail_status tempAC uc
      else if tempUC = lastAC then QUEUE_EMPTY
      else if tempUC - tempAC = 1 then QUEUE_EMPTY_PRODUCER_INSERTING else QUEUE_SUCCESS)"

section \<open>Sending\<close>

record send_args =
  a_buffer :: "byte carray"
  a_size :: nat
  a_scalar :: u64

text \<open>
  \<open>mcapi_trans_send\<close>: \<open>mcapi_trans_queue_tail\<close>, the entry reserved, \<open>mcapi_trans_alloc_buffer\<close>, the buffer filled, the entry
  allocated, \<open>mcapi_trans_push_queue\<close>. \<open>Send_Abort\<close> is a failed assertion.
\<close>

datatype send_pc =
    Send_Idle bool
  | Send_Tail_Ack
  | Send_Tail_Update u32
  | Send_Check nat
  | Send_Reserve nat
  | Send_Alloc nat nat
  | Send_Undo_Read nat
  | Send_Undo nat mcapi_buffer_state
  | Send_Parent nat nat
  | Send_Data nat nat
  | Send_Size nat nat
  | Send_Index_Read nat nat
  | Send_Index nat nat u32
  | Send_Mark nat nat
  | Push_Update nat nat
  | Push_Ack nat nat u32
  | Push_Claim nat nat u32
  | Push_Done nat nat nat
  | Send_Abort

definition alloc_turn :: "nat \<Rightarrow> nat \<Rightarrow> abb_mem \<Rightarrow> abb_mem \<times> send_pc" where
  "alloc_turn qindex i m =
     (let (ok, m) = cas_magic i 0 MAGIC_NUM m
      in (m, if ok then Send_Parent qindex i
             else if i + 1 < MCAPI_MAX_BUFFERS then Send_Alloc qindex (i + 1) else Send_Undo_Read qindex))"

primrec send_turn :: "send_args \<Rightarrow> nat \<Rightarrow> abb_mem \<Rightarrow> send_pc \<Rightarrow> abb_mem \<times> send_pc" where
  "send_turn a c m (Send_Idle rc) = (m, Send_Idle rc)"
| "send_turn a c m Send_Tail_Ack = (m, Send_Tail_Update (ack_counter (queues m c)))"
| "send_turn a c m (Send_Tail_Update tempAC) =
     (let uc = update_counter (queues m c)
      in (m, case tail_status tempAC uc of
               QUEUE_SUCCESS \<Rightarrow> Send_Check (counter_slot uc)
             | QUEUE_FULL \<Rightarrow> Send_Idle False
             | _ \<Rightarrow> Send_Tail_Ack))"
| "send_turn a c m (Send_Check qindex) =
     (m, if d_index (q_slots (queues m c) qindex) = 0 then Send_Reserve qindex else Send_Abort)"
| "send_turn a c m (Send_Reserve qindex) =
     (let (ok, m) = cas_state c qindex BUFFER_FREE BUFFER_RESERVED m
      in (m, if ok then Send_Alloc qindex 0 else Send_Tail_Ack))"
| "send_turn a c m (Send_Alloc qindex i) = alloc_turn qindex i m"
| "send_turn a c m (Send_Undo_Read qindex) = (m, Send_Undo qindex (d_state (q_slots (queues m c) qindex)))"
| "send_turn a c m (Send_Undo qindex old) = (snd (cas_state c qindex old BUFFER_FREE m), Send_Idle False)"
| "send_turn a c m (Send_Parent qindex i) = (upd_pool i (\<lambda>b. b\<lparr>parent := Some (c, qindex)\<rparr>) m, Send_Data qindex i)"
| "send_turn a c m (Send_Data qindex i) =
     (upd_pool i (\<lambda>b. if q_type (queues m c) = MCAPI_SCL_CHAN then b\<lparr>scalar := a_scalar a\<rparr>
                      else b\<lparr>buff := memcpy (buff b) (a_buffer a) (a_size a)\<rparr>) m, Send_Size qindex i)"
| "send_turn a c m (Send_Size qindex i) = (upd_pool i (\<lambda>b. b\<lparr>bsize := a_size a\<rparr>) m, Send_Index_Read qindex i)"
| "send_turn a c m (Send_Index_Read qindex i) = (m, Send_Index qindex i (d_index (q_slots (queues m c) qindex)))"
| "send_turn a c m (Send_Index qindex i old) =
     (if d_index (q_slots (queues m c) qindex) = old
      then upd_slot c qindex (\<lambda>d. d\<lparr>d_index := encode_buff_index i\<rparr>) m else m, Send_Mark qindex i)"
| "send_turn a c m (Send_Mark qindex i) =
     (let (ok, m) = cas_state c qindex BUFFER_RESERVED BUFFER_ALLOCATED m
      in (m, if ok then Push_Update qindex i else Send_Abort))"
| "send_turn a c m (Push_Update qindex i) =
     (let uc = update_counter (queues m c)
      in (m, if uc mod 2 \<noteq> 0 then Push_Update qindex i else Push_Ack qindex i uc))"
| "send_turn a c m (Push_Ack qindex i uc) =
     (m, if tail_status (ack_counter (queues m c)) uc = QUEUE_SUCCESS then Push_Claim qindex i uc else Send_Abort)"
| "send_turn a c m (Push_Claim qindex i uc) =
     (if update_counter (queues m c) = uc
      then (upd_abb_queue c (\<lambda>q. q\<lparr>update_counter := uc + 1\<rparr>) m, Push_Done qindex i (counter_slot uc))
      else (m, Push_Update qindex i))"
| "send_turn a c m (Push_Done qindex i x) =
     (upd_abb_queue c (\<lambda>q. q\<lparr>update_counter := update_counter q + 1\<rparr>) m,
      if qindex = x then Send_Idle True else Send_Abort)"
| "send_turn a c m Send_Abort = (m, Send_Abort)"

section \<open>Receiving\<close>

text \<open>What a call gives its caller: the size of the message, and its bytes, the buffer that holds the packet, or the scalar.\<close>

datatype received = Message nat "byte list" | Packet nat nat | Scalar nat u64

datatype app_result = No_Message | Delivered received | Given_Back bool

record recv_args =
  b_size :: nat
  b_blocking :: bool

text \<open>
  \<open>mcapi_trans_recv\<close>: \<open>mcapi_trans_queue_head\<close>, the entry marked, \<open>mcapi_trans_recv_\<close>, \<open>mcapi_trans_pop_queue\<close>; and
  \<open>mcapi_trans_pktchan_free\<close> with \<open>mcapi_trans_free_buffer\<close>, by which the receiver of a packet gives its buffer back.
\<close>

datatype recv_pc =
    Recv_Idle app_result
  | Recv_Head_Update
  | Recv_Head_Ack u32
  | Recv_State nat
  | Recv_Index nat mcapi_buffer_state
  | Recv_Mark nat
  | Recv_Get nat
  | Recv_Parent nat nat
  | Recv_Size nat nat
  | Recv_Copy nat nat nat
  | Recv_Free nat nat received
  | Recv_Clear_Reserved nat received
  | Recv_Clear_Index nat received
  | Recv_Release_Read nat received
  | Recv_Release nat mcapi_buffer_state received
  | Pop_Ack received
  | Pop_Update received u32
  | Pop_Claim received u32
  | Pop_Done received
  | Free_Magic nat
  | Free_Parent nat
  | Free_Back nat nat
  | Free_Num nat
  | Free_Release nat u32
  | Recv_Abort

definition no_message :: "recv_args \<Rightarrow> recv_pc" where
  "no_message a = (if b_blocking a then Recv_Head_Update else Recv_Idle No_Message)"

definition copy_out :: "recv_args \<Rightarrow> nat \<Rightarrow> abb_mem \<Rightarrow> nat \<Rightarrow> nat \<Rightarrow> received" where
  "copy_out a c m i sz = (case q_type (queues m c) of
     MCAPI_PKT_CHAN \<Rightarrow> Packet sz i
   | MCAPI_SCL_CHAN \<Rightarrow> Scalar sz (scalar (pool m i))
   | MCAPI_NO_CHAN \<Rightarrow> Message sz (bytes_of (buff (pool m i)) (min (b_size a) sz)))"

primrec recv_turn :: "recv_args \<Rightarrow> nat \<Rightarrow> abb_mem \<Rightarrow> recv_pc \<Rightarrow> abb_mem \<times> recv_pc" where
  "recv_turn a c m (Recv_Idle r) = (m, Recv_Idle r)"
| "recv_turn a c m Recv_Head_Update = (m, Recv_Head_Ack (update_counter (queues m c)))"
| "recv_turn a c m (Recv_Head_Ack uc) =
     (let ac = ack_counter (queues m c)
      in (m, case head_status uc ac of
               QUEUE_SUCCESS \<Rightarrow> Recv_State (counter_slot ac)
             | QUEUE_EMPTY \<Rightarrow> no_message a
             | _ \<Rightarrow> Recv_Head_Update))"
| "recv_turn a c m (Recv_State qindex) = (m, Recv_Index qindex (d_state (q_slots (queues m c) qindex)))"
| "recv_turn a c m (Recv_Index qindex state) =
     (m, if state \<noteq> BUFFER_ALLOCATED \<or> d_index (q_slots (queues m c) qindex) = 0 then no_message a else Recv_Mark qindex)"
| "recv_turn a c m (Recv_Mark qindex) =
     (let (ok, m) = cas_state c qindex BUFFER_ALLOCATED BUFFER_RECEIVED m
      in (m, if ok then Recv_Get qindex else Recv_Abort))"
| "recv_turn a c m (Recv_Get qindex) = (m, Recv_Parent qindex (decode_buff_index (d_index (q_slots (queues m c) qindex))))"
| "recv_turn a c m (Recv_Parent qindex i) = (upd_pool i (\<lambda>b. b\<lparr>parent := Some (c, qindex)\<rparr>) m, Recv_Size qindex i)"
| "recv_turn a c m (Recv_Size qindex i) = (m, Recv_Copy qindex i (bsize (pool m i)))"
| "recv_turn a c m (Recv_Copy qindex i sz) =
     (m, (if q_type (queues m c) = MCAPI_PKT_CHAN then Recv_Clear_Reserved qindex else Recv_Free qindex i) (copy_out a c m i sz))"
| "recv_turn a c m (Recv_Free qindex i r) =
     (let (ok, m) = cas_magic i MAGIC_NUM 0 m in (m, if ok then Recv_Clear_Reserved qindex r else Recv_Abort))"
| "recv_turn a c m (Recv_Clear_Reserved qindex r) = (upd_slot c qindex (\<lambda>d. d\<lparr>d_reserved := False\<rparr>) m, Recv_Clear_Index qindex r)"
| "recv_turn a c m (Recv_Clear_Index qindex r) = (upd_slot c qindex (\<lambda>d. d\<lparr>d_index := 0\<rparr>) m, Recv_Release_Read qindex r)"
| "recv_turn a c m (Recv_Release_Read qindex r) = (m, Recv_Release qindex (d_state (q_slots (queues m c) qindex)) r)"
| "recv_turn a c m (Recv_Release qindex old r) = (snd (cas_state c qindex old BUFFER_FREE m), Pop_Ack r)"
| "recv_turn a c m (Pop_Ack r) =
     (let ac = ack_counter (queues m c) in (m, if ac mod 2 \<noteq> 0 then Pop_Ack r else Pop_Update r ac))"
| "recv_turn a c m (Pop_Update r ac) =
     (m, if head_status (update_counter (queues m c)) ac = QUEUE_SUCCESS then Pop_Claim r ac else Recv_Abort)"
| "recv_turn a c m (Pop_Claim r ac) =
     (if ack_counter (queues m c) = ac then (upd_abb_queue c (\<lambda>q. q\<lparr>ack_counter := ac + 1\<rparr>) m, Pop_Done r) else (m, Pop_Ack r))"
| "recv_turn a c m (Pop_Done r) = (upd_abb_queue c (\<lambda>q. q\<lparr>ack_counter := ack_counter q + 1\<rparr>) m, Recv_Idle (Delivered r))"
| "recv_turn a c m (Free_Magic i) = (m, if magic_num (pool m i) = MAGIC_NUM then Free_Num i else Free_Parent i)"
| "recv_turn a c m (Free_Parent i) = (m, case parent (pool m i) of None \<Rightarrow> Recv_Idle (Given_Back True) | Some (d, k) \<Rightarrow> Free_Back d k)"
| "recv_turn a c m (Free_Back d k) = (snd (cas_state d k BUFFER_RECEIVED BUFFER_ALLOCATED m), Recv_Idle (Given_Back True))"
| "recv_turn a c m (Free_Num i) = (m, Free_Release i (magic_num (pool m i)))"
| "recv_turn a c m (Free_Release i old) = (let (ok, m) = cas_magic i old 0 m in (m, Recv_Idle (Given_Back ok)))"
| "recv_turn a c m Recv_Abort = (m, Recv_Abort)"

section \<open>Where the calls fail\<close>

text \<open>
  65 does not divide $2^{31}$: when the counter wraps, the index of the next entry jumps from 62 to 0.
\<close>

lemma slot_jumps_at_wrap: "counter_slot 0xFFFFFFFE = 62 \<and> counter_slot (0xFFFFFFFE + 2) = 0"
  by (simp add: counter_slot_def mcapi_limits)

text \<open>
  A second thread that starts to send to the same endpoint, here an empty one, while the first has filled the entry and has not
  yet counted it, finds its index set and fails the assertion.
\<close>

lemma second_sender_aborts:
  assumes "ack_counter (queues m c) = 0" "update_counter (queues m c) = 0" "d_index (q_slots (queues m c) 0) \<noteq> 0"
  shows "send_turn a c m Send_Tail_Ack = (m, Send_Tail_Update 0) \<and> send_turn a c m (Send_Tail_Update 0) = (m, Send_Check 0) \<and>
    send_turn a c m (Send_Check 0) = (m, Send_Abort)"
  using assms by (simp add: tail_status_def counter_slot_def mcapi_limits)

text \<open>A packet buffer that is not in use is released with success.\<close>

lemma unused_release_succeeds:
  assumes "magic_num (pool m i) = 0" "parent (pool m i) = None"
  shows "recv_turn a c m (Free_Magic i) = (m, Free_Parent i) \<and> recv_turn a c m (Free_Parent i) = (m, Recv_Idle (Given_Back True))"
  using assms by simp

section \<open>The counters as positions\<close>

lemma of_nat_div2_u32: "n < 2 ^ 31 \<Longrightarrow> (of_nat (2 * n) :: u32) div 2 = of_nat n"
proof -
  assume n: "n < 2 ^ 31"
  then have "unat ((of_nat (2 * n) :: u32) div 2) = n"
    by (simp add: unat_div_distrib unat_of_nat del: of_nat_mult)
  then show ?thesis by (metis of_nat_unat ucast_id)
qed

lemma counter_slot_even [simp]: "n < 2 ^ 31 \<Longrightarrow> counter_slot (of_nat (2 * n)) = n mod MCAPI_MAX_QUEUE_ENTRIES"
proof -
  assume n: "n < 2 ^ 31"
  have "2 * ((of_nat (2 * n) :: u32) div 2) = of_nat (2 * n)" using of_nat_div2_u32 [OF n] by simp
  then have "(2 * ((of_nat (2 * n) :: u32) div 2)) div 2 = of_nat n" using of_nat_div2_u32 [OF n] by simp
  moreover have "unat (of_nat n :: u32) = n" using n by (simp add: unat_of_nat)
  ultimately show ?thesis unfolding counter_slot_def by simp
qed

lemma even_counter [simp]: "(of_nat (2 * n) :: u32) mod 2 = 0"
  "(2 * of_nat n :: u32) mod 2 = 0"
  by (simp_all add: mod_2_eq_odd)

lemma of_nat_u32_eq: "a < 2 ^ 32 \<Longrightarrow> b < 2 ^ 32 \<Longrightarrow> (of_nat a :: u32) = of_nat b \<longleftrightarrow> a = b"
proof -
  assume "a < 2 ^ 32" "b < 2 ^ 32"
  then have "unat (of_nat a :: u32) = a" "unat (of_nat b :: u32) = b" by (simp_all add: unat_of_nat)
  then show ?thesis by metis
qed

lemma head_status_even:
  assumes "n < 2 ^ 31" "2 * n \<le> u" "u < 2 ^ 32"
  shows "head_status (of_nat u) (of_nat (2 * n)) =
    (if u = 2 * n then QUEUE_EMPTY else if u = 2 * n + 1 then QUEUE_EMPTY_PRODUCER_INSERTING else QUEUE_SUCCESS)"
proof -
  have l: "2 * ((of_nat (2 * n) :: u32) div 2) = of_nat (2 * n)" using of_nat_div2_u32 [OF assms(1)] by simp
  have d: "(of_nat u :: u32) - of_nat (2 * n) = of_nat (u - 2 * n)" using assms by (simp add: of_nat_diff)
  have "(of_nat (u - 2 * n) :: u32) = of_nat 1 \<longleftrightarrow> u - 2 * n = 1" using assms by (subst of_nat_u32_eq) auto
  then have "(of_nat (u - 2 * n) :: u32) = 1 \<longleftrightarrow> u = 2 * n + 1" using assms by auto
  moreover have "(of_nat u :: u32) = of_nat (2 * n) \<longleftrightarrow> u = 2 * n" using assms by (subst of_nat_u32_eq) auto
  ultimately show ?thesis by (simp only: head_status_def Let_def l d split: if_splits)
qed

lemma tail_status_even:
  assumes "n < 2 ^ 31" "a \<le> 2 * n" "2 * n \<le> a + 2 * MCAPI_MAX_QUEUE_ENTRIES"
  shows "tail_status (of_nat a) (of_nat (2 * n)) =
    (if 2 * n = a + 2 * MCAPI_MAX_QUEUE_ENTRIES then QUEUE_FULL
     else if 2 * n + 1 = a + 2 * MCAPI_MAX_QUEUE_ENTRIES then QUEUE_FULL_CONSUMER_READING else QUEUE_SUCCESS)"
proof -
  have l: "2 * ((of_nat (2 * n) :: u32) div 2) = of_nat (2 * n)" using of_nat_div2_u32 [OF assms(1)] by simp
  have d: "(of_nat (2 * n) :: u32) - of_nat a = of_nat (2 * n - a)" using assms by (simp add: of_nat_diff)
  have b: "2 * n - a \<le> 130" using assms by (simp add: mcapi_limits)
  have "sint (of_nat (2 * n - a) :: u32) = int (2 * n - a)"
  proof -
    have "uint (of_nat (2 * n - a) :: u32) = int (2 * n - a)"
      using b by (simp add: unsigned_of_nat take_bit_nat_eq_self_iff del: of_nat_diff)
    then show ?thesis using b by (simp add: sint_uint signed_take_bit_int_eq_self_iff del: of_nat_diff)
  qed
  then show ?thesis using assms b unfolding tail_status_def Let_def l d by (auto simp: mcapi_limits)
qed


end
