(* ===== verification/ABB_Fifo.thy ===== *)
theory ABB_Fifo
  imports ABB_Queue MCAPI_Channel
begin

text \<open>
  Any number of endpoints, each with one thread that sends to it and one that receives from it, over one pool of buffers. A
  step is one turn of one thread. \<open>sent\<close>, \<open>got\<close>, \<open>holding\<close> and \<open>owner\<close> are histories that the code does not have: what was
  sent to an endpoint and what came out of it, the packets that the application holds with their position in the stream, and
  for which position of which endpoint a buffer was allocated.
\<close>

section \<open>Runs\<close>

record abb_sys =
  mem :: abb_mem
  spc :: "nat \<Rightarrow> send_pc"
  sarg :: "nat \<Rightarrow> send_args"
  rpc :: "nat \<Rightarrow> recv_pc"
  rarg :: "nat \<Rightarrow> recv_args"
  sent :: "nat \<Rightarrow> send_args list"
  got :: "nat \<Rightarrow> (recv_args \<times> received) list"
  holding :: "nat \<Rightarrow> (nat \<times> nat) set"
  owner :: "nat \<Rightarrow> (nat \<times> nat) option"

definition note_send :: "nat \<Rightarrow> send_pc \<Rightarrow> send_pc \<Rightarrow> abb_sys \<Rightarrow> abb_sys" where
  "note_send c p p' s = (case (p, p') of
     (Send_Alloc _ _, Send_Parent _ i) \<Rightarrow> s\<lparr>owner := (owner s)(i := Some (c, length (sent s c)))\<rparr>
   | (Push_Done _ _ _, Send_Idle True) \<Rightarrow> s\<lparr>sent := (sent s)(c := sent s c @ [sarg s c])\<rparr>
   | _ \<Rightarrow> s)"

definition note_recv :: "nat \<Rightarrow> recv_pc \<Rightarrow> recv_pc \<Rightarrow> abb_sys \<Rightarrow> abb_sys" where
  "note_recv c p p' s = (case (p, p') of
     (Recv_Free _ i _, Recv_Clear_Reserved _ _) \<Rightarrow> s\<lparr>owner := (owner s)(i := None)\<rparr>
   | (Free_Release i _, Recv_Idle (Given_Back True)) \<Rightarrow> s\<lparr>owner := (owner s)(i := None)\<rparr>
   | (Pop_Done _, Recv_Idle (Delivered r)) \<Rightarrow>
       s\<lparr>got := (got s)(c := got s c @ [(rarg s c, r)]),
         holding := (holding s)(c := holding s c \<union> (case r of Packet _ i \<Rightarrow> {(length (got s c), i)} | _ \<Rightarrow> {}))\<rparr>
   | _ \<Rightarrow> s)"

definition send_step :: "nat \<Rightarrow> abb_sys \<Rightarrow> abb_sys" where
  "send_step c s =
     (let (m, p) = send_turn (sarg s c) c (mem s) (spc s c)
      in (note_send c (spc s c) p s)\<lparr>mem := m, spc := (spc s)(c := p)\<rparr>)"

definition recv_step :: "nat \<Rightarrow> abb_sys \<Rightarrow> abb_sys" where
  "recv_step c s =
     (let (m, p) = recv_turn (rarg s c) c (mem s) (rpc s c)
      in (note_recv c (rpc s c) p s)\<lparr>mem := m, rpc := (rpc s)(c := p)\<rparr>)"

inductive abb_step :: "abb_sys \<Rightarrow> abb_sys \<Rightarrow> bool" where
  send_call: "spc s c = Send_Idle rc \<Longrightarrow> a_size a \<le> MCAPI_BUFF_SIZE \<Longrightarrow>
    abb_step s (s\<lparr>spc := (spc s)(c := Send_Tail_Ack), sarg := (sarg s)(c := a)\<rparr>)"
| send_goes: "abb_step s (send_step c s)"
| recv_call: "rpc s c = Recv_Idle r \<Longrightarrow> abb_step s (s\<lparr>rpc := (rpc s)(c := Recv_Head_Update), rarg := (rarg s)(c := b)\<rparr>)"
| free_call: "rpc s c = Recv_Idle r \<Longrightarrow> (n, i) \<in> holding s c \<Longrightarrow>
    abb_step s (s\<lparr>rpc := (rpc s)(c := Free_Magic i), holding := (holding s)(c := holding s c - {(n, i)})\<rparr>)"
| recv_goes: "abb_step s (recv_step c s)"

definition empty_queue :: "channel_type \<Rightarrow> abb_queue" where
  "empty_queue ty = \<lparr>q_type = ty, update_counter = 0, ack_counter = 0,
     q_slots = (\<lambda>k. \<lparr>d_state = BUFFER_FREE, d_index = 0, d_reserved = False\<rparr>)\<rparr>"

inductive abb_reach :: "abb_sys \<Rightarrow> bool" where
  abb_start: "(\<And>c. \<exists>ty. queues (mem s) c = empty_queue ty) \<Longrightarrow> (\<And>i. magic_num (pool (mem s) i) = 0) \<Longrightarrow>
    (\<And>c. spc s c = Send_Idle False) \<Longrightarrow> (\<And>c. rpc s c = Recv_Idle No_Message) \<Longrightarrow>
    (\<And>c. sent s c = []) \<Longrightarrow> (\<And>c. got s c = []) \<Longrightarrow> (\<And>c. holding s c = {}) \<Longrightarrow> (\<And>i. owner s i = None) \<Longrightarrow> abb_reach s"
| abb_more: "abb_reach s \<Longrightarrow> abb_step s s' \<Longrightarrow> abb_reach s'"

section \<open>The invariant\<close>

text \<open>What a message leaves in its buffer, and what the receiver makes of it.\<close>

definition filled :: "channel_type \<Rightarrow> send_args \<Rightarrow> abb_entry \<Rightarrow> bool" where
  "filled ty a b \<longleftrightarrow>
     (if ty = MCAPI_SCL_CHAN then scalar b = a_scalar a else bytes_of (buff b) (a_size a) = bytes_of (a_buffer a) (a_size a))"

definition received_as :: "channel_type \<Rightarrow> send_args \<Rightarrow> recv_args \<Rightarrow> received \<Rightarrow> bool" where
  "received_as ty a b r \<longleftrightarrow> (case ty of
     MCAPI_PKT_CHAN \<Rightarrow> \<exists>i. r = Packet (a_size a) i
   | MCAPI_SCL_CHAN \<Rightarrow> r = Scalar (a_size a) (a_scalar a)
   | MCAPI_NO_CHAN \<Rightarrow> r = Message (a_size a) (take (b_size b) (bytes_of (a_buffer a) (a_size a))))"

text \<open>Buffer \<open>i\<close> belongs to position \<open>n\<close> of the stream of \<open>c\<close>.\<close>

definition owns :: "abb_sys \<Rightarrow> nat \<Rightarrow> nat \<Rightarrow> nat \<Rightarrow> bool" where
  "owns s c n i \<longleftrightarrow> i < MCAPI_MAX_BUFFERS \<and> owner s i = Some (c, n)"

definition carries :: "abb_sys \<Rightarrow> nat \<Rightarrow> nat \<Rightarrow> send_args \<Rightarrow> nat \<Rightarrow> bool" where
  "carries s c n a i \<longleftrightarrow> owns s c n i \<and> filled (q_type (queues (mem s) c)) a (pool (mem s) i) \<and> bsize (pool (mem s) i) = a_size a"

text \<open>How far the sender is with the entry it fills, and the receiver with the one it empties.\<close>

datatype tail_stage = T_Free | T_Reserved | T_Filled nat | T_Ready nat

primrec tail_phase :: "send_pc \<Rightarrow> tail_stage" where
  "tail_phase (Send_Idle rc) = T_Free"
| "tail_phase Send_Tail_Ack = T_Free"
| "tail_phase (Send_Tail_Update ac) = T_Free"
| "tail_phase (Send_Check k) = T_Free"
| "tail_phase (Send_Reserve k) = T_Free"
| "tail_phase (Send_Alloc k i) = T_Reserved"
| "tail_phase (Send_Undo_Read k) = T_Reserved"
| "tail_phase (Send_Undo k old) = T_Reserved"
| "tail_phase (Send_Parent k i) = T_Reserved"
| "tail_phase (Send_Data k i) = T_Reserved"
| "tail_phase (Send_Size k i) = T_Reserved"
| "tail_phase (Send_Index_Read k i) = T_Reserved"
| "tail_phase (Send_Index k i old) = T_Reserved"
| "tail_phase (Send_Mark k i) = T_Filled i"
| "tail_phase (Push_Update k i) = T_Ready i"
| "tail_phase (Push_Ack k i uc) = T_Ready i"
| "tail_phase (Push_Claim k i uc) = T_Ready i"
| "tail_phase (Push_Done k i x) = T_Ready i"
| "tail_phase Send_Abort = T_Free"

primrec tail_slot :: "tail_stage \<Rightarrow> abb_descriptor \<Rightarrow> bool" where
  "tail_slot T_Free d \<longleftrightarrow> d_state d = BUFFER_FREE \<and> d_index d = 0"
| "tail_slot T_Reserved d \<longleftrightarrow> d_state d = BUFFER_RESERVED \<and> d_index d = 0"
| "tail_slot (T_Filled i) d \<longleftrightarrow> d_state d = BUFFER_RESERVED \<and> d_index d = encode_buff_index i"
| "tail_slot (T_Ready i) d \<longleftrightarrow> d_state d = BUFFER_ALLOCATED \<and> d_index d = encode_buff_index i"

datatype head_stage = H_Waiting | H_Reading | H_Copied received | H_Cleared received | H_Released received

primrec head_phase :: "recv_pc \<Rightarrow> head_stage" where
  "head_phase (Recv_Idle r) = H_Waiting"
| "head_phase Recv_Head_Update = H_Waiting"
| "head_phase (Recv_Head_Ack uc) = H_Waiting"
| "head_phase (Recv_State k) = H_Waiting"
| "head_phase (Recv_Index k st) = H_Waiting"
| "head_phase (Recv_Mark k) = H_Waiting"
| "head_phase (Recv_Get k) = H_Reading"
| "head_phase (Recv_Parent k i) = H_Reading"
| "head_phase (Recv_Size k i) = H_Reading"
| "head_phase (Recv_Copy k i sz) = H_Reading"
| "head_phase (Recv_Free k i r) = H_Reading"
| "head_phase (Recv_Clear_Reserved k r) = H_Copied r"
| "head_phase (Recv_Clear_Index k r) = H_Copied r"
| "head_phase (Recv_Release_Read k r) = H_Cleared r"
| "head_phase (Recv_Release k old r) = H_Cleared r"
| "head_phase (Pop_Ack r) = H_Released r"
| "head_phase (Pop_Update r ac) = H_Released r"
| "head_phase (Pop_Claim r ac) = H_Released r"
| "head_phase (Pop_Done r) = H_Released r"
| "head_phase (Free_Magic i) = H_Waiting"
| "head_phase (Free_Parent i) = H_Waiting"
| "head_phase (Free_Back d k) = H_Waiting"
| "head_phase (Free_Num i) = H_Waiting"
| "head_phase (Free_Release i old) = H_Waiting"
| "head_phase Recv_Abort = H_Waiting"

primrec send_hand :: "send_pc \<Rightarrow> nat option" where
  "send_hand (Send_Idle rc) = None"
| "send_hand Send_Tail_Ack = None"
| "send_hand (Send_Tail_Update ac) = None"
| "send_hand (Send_Check k) = None"
| "send_hand (Send_Reserve k) = None"
| "send_hand (Send_Alloc k i) = None"
| "send_hand (Send_Undo_Read k) = None"
| "send_hand (Send_Undo k old) = None"
| "send_hand (Send_Parent k i) = Some i"
| "send_hand (Send_Data k i) = Some i"
| "send_hand (Send_Size k i) = Some i"
| "send_hand (Send_Index_Read k i) = Some i"
| "send_hand (Send_Index k i old) = Some i"
| "send_hand (Send_Mark k i) = Some i"
| "send_hand (Push_Update k i) = Some i"
| "send_hand (Push_Ack k i uc) = Some i"
| "send_hand (Push_Claim k i uc) = Some i"
| "send_hand (Push_Done k i x) = Some i"
| "send_hand Send_Abort = None"

definition pushing :: "send_pc \<Rightarrow> nat" where
  "pushing p = (case p of Push_Done _ _ _ \<Rightarrow> 1 | _ \<Rightarrow> 0)"

definition popping :: "recv_pc \<Rightarrow> nat" where
  "popping p = (case p of Pop_Done _ \<Rightarrow> 1 | _ \<Rightarrow> 0)"

definition freeing :: "recv_pc \<Rightarrow> nat option" where
  "freeing p = (case p of Free_Magic i \<Rightarrow> Some i | Free_Num i \<Rightarrow> Some i | Free_Release i _ \<Rightarrow> Some i | _ \<Rightarrow> None)"

abbreviation sent_n :: "abb_sys \<Rightarrow> nat \<Rightarrow> nat" where "sent_n s c \<equiv> length (sent s c)"
abbreviation got_n :: "abb_sys \<Rightarrow> nat \<Rightarrow> nat" where "got_n s c \<equiv> length (got s c)"
abbreviation chan_ty :: "abb_sys \<Rightarrow> nat \<Rightarrow> channel_type" where "chan_ty s c \<equiv> q_type (queues (mem s) c)"

definition slot_at :: "abb_sys \<Rightarrow> nat \<Rightarrow> nat \<Rightarrow> abb_descriptor" where
  "slot_at s c n = q_slots (queues (mem s) c) (n mod MCAPI_MAX_QUEUE_ENTRIES)"

definition cell :: "abb_sys \<Rightarrow> nat \<Rightarrow> nat \<Rightarrow> nat \<Rightarrow> bool" where
  "cell s c n i \<longleftrightarrow> d_index (slot_at s c n) = encode_buff_index i \<and> carries s c n (sent s c ! n) i"

definition result_ok :: "abb_sys \<Rightarrow> nat \<Rightarrow> received \<Rightarrow> bool" where
  "result_ok s c r \<longleftrightarrow> received_as (chan_ty s c) (sent s c ! got_n s c) (rarg s c) r \<and>
     (\<forall>sz i. r = Packet sz i \<longrightarrow> carries s c (got_n s c) (sent s c ! got_n s c) i)"

text \<open>What the threads know at each of their points.\<close>

definition tail_known :: "abb_sys \<Rightarrow> nat \<Rightarrow> nat \<Rightarrow> bool" where
  "tail_known s c k \<longleftrightarrow> k = sent_n s c mod MCAPI_MAX_QUEUE_ENTRIES \<and> sent_n s c < got_n s c + MCAPI_MAX_QUEUE_ENTRIES"

definition head_known :: "abb_sys \<Rightarrow> nat \<Rightarrow> nat \<Rightarrow> bool" where
  "head_known s c k \<longleftrightarrow> k = got_n s c mod MCAPI_MAX_QUEUE_ENTRIES \<and> got_n s c < sent_n s c"

primrec send_local :: "abb_sys \<Rightarrow> nat \<Rightarrow> send_pc \<Rightarrow> bool" where
  "send_local s c (Send_Idle rc) \<longleftrightarrow> True"
| "send_local s c Send_Tail_Ack \<longleftrightarrow> True"
| "send_local s c (Send_Tail_Update ac) \<longleftrightarrow>
     (\<exists>a. ac = of_nat a \<and> a \<le> 2 * got_n s c + popping (rpc s c) \<and> 2 * sent_n s c \<le> a + 2 * MCAPI_MAX_QUEUE_ENTRIES)"
| "send_local s c (Send_Check k) \<longleftrightarrow> tail_known s c k"
| "send_local s c (Send_Reserve k) \<longleftrightarrow> tail_known s c k"
| "send_local s c (Send_Alloc k i) \<longleftrightarrow> tail_known s c k \<and> i < MCAPI_MAX_BUFFERS"
| "send_local s c (Send_Undo_Read k) \<longleftrightarrow> tail_known s c k"
| "send_local s c (Send_Undo k old) \<longleftrightarrow> tail_known s c k \<and> old = BUFFER_RESERVED"
| "send_local s c (Send_Parent k i) \<longleftrightarrow> tail_known s c k \<and> owns s c (sent_n s c) i"
| "send_local s c (Send_Data k i) \<longleftrightarrow> tail_known s c k \<and> owns s c (sent_n s c) i"
| "send_local s c (Send_Size k i) \<longleftrightarrow>
     tail_known s c k \<and> owns s c (sent_n s c) i \<and> filled (chan_ty s c) (sarg s c) (pool (mem s) i)"
| "send_local s c (Send_Index_Read k i) \<longleftrightarrow> tail_known s c k \<and> carries s c (sent_n s c) (sarg s c) i"
| "send_local s c (Send_Index k i old) \<longleftrightarrow> tail_known s c k \<and> carries s c (sent_n s c) (sarg s c) i \<and> old = 0"
| "send_local s c (Send_Mark k i) \<longleftrightarrow> tail_known s c k \<and> carries s c (sent_n s c) (sarg s c) i"
| "send_local s c (Push_Update k i) \<longleftrightarrow> tail_known s c k \<and> carries s c (sent_n s c) (sarg s c) i"
| "send_local s c (Push_Ack k i uc) \<longleftrightarrow>
     tail_known s c k \<and> carries s c (sent_n s c) (sarg s c) i \<and> uc = of_nat (2 * sent_n s c)"
| "send_local s c (Push_Claim k i uc) \<longleftrightarrow>
     tail_known s c k \<and> carries s c (sent_n s c) (sarg s c) i \<and> uc = of_nat (2 * sent_n s c)"
| "send_local s c (Push_Done k i x) \<longleftrightarrow> tail_known s c k \<and> carries s c (sent_n s c) (sarg s c) i \<and> x = k"
| "send_local s c Send_Abort \<longleftrightarrow> False"

primrec recv_local :: "abb_sys \<Rightarrow> nat \<Rightarrow> recv_pc \<Rightarrow> bool" where
  "recv_local s c (Recv_Idle r) \<longleftrightarrow> True"
| "recv_local s c Recv_Head_Update \<longleftrightarrow> True"
| "recv_local s c (Recv_Head_Ack uc) \<longleftrightarrow>
     (\<exists>u. uc = of_nat u \<and> 2 * got_n s c \<le> u \<and> u \<le> 2 * sent_n s c + pushing (spc s c))"
| "recv_local s c (Recv_State k) \<longleftrightarrow> head_known s c k"
| "recv_local s c (Recv_Index k st) \<longleftrightarrow> head_known s c k \<and> st = BUFFER_ALLOCATED"
| "recv_local s c (Recv_Mark k) \<longleftrightarrow> head_known s c k"
| "recv_local s c (Recv_Get k) \<longleftrightarrow> head_known s c k"
| "recv_local s c (Recv_Parent k i) \<longleftrightarrow> head_known s c k \<and> cell s c (got_n s c) i"
| "recv_local s c (Recv_Size k i) \<longleftrightarrow> head_known s c k \<and> cell s c (got_n s c) i"
| "recv_local s c (Recv_Copy k i sz) \<longleftrightarrow> head_known s c k \<and> cell s c (got_n s c) i \<and> sz = a_size (sent s c ! got_n s c)"
| "recv_local s c (Recv_Free k i r) \<longleftrightarrow>
     head_known s c k \<and> cell s c (got_n s c) i \<and> result_ok s c r \<and> chan_ty s c \<noteq> MCAPI_PKT_CHAN"
| "recv_local s c (Recv_Clear_Reserved k r) \<longleftrightarrow> head_known s c k \<and> result_ok s c r"
| "recv_local s c (Recv_Clear_Index k r) \<longleftrightarrow> head_known s c k \<and> result_ok s c r"
| "recv_local s c (Recv_Release_Read k r) \<longleftrightarrow> head_known s c k \<and> result_ok s c r"
| "recv_local s c (Recv_Release k old r) \<longleftrightarrow> head_known s c k \<and> result_ok s c r \<and> old = BUFFER_RECEIVED"
| "recv_local s c (Pop_Ack r) \<longleftrightarrow> got_n s c < sent_n s c \<and> result_ok s c r"
| "recv_local s c (Pop_Update r ac) \<longleftrightarrow> got_n s c < sent_n s c \<and> result_ok s c r \<and> ac = of_nat (2 * got_n s c)"
| "recv_local s c (Pop_Claim r ac) \<longleftrightarrow> got_n s c < sent_n s c \<and> result_ok s c r \<and> ac = of_nat (2 * got_n s c)"
| "recv_local s c (Pop_Done r) \<longleftrightarrow> got_n s c < sent_n s c \<and> result_ok s c r"
| "recv_local s c (Free_Magic i) \<longleftrightarrow> (\<exists>n < got_n s c. owns s c n i) \<and> (\<forall>n. (n, i) \<notin> holding s c)"
| "recv_local s c (Free_Parent i) \<longleftrightarrow> False"
| "recv_local s c (Free_Back d k) \<longleftrightarrow> False"
| "recv_local s c (Free_Num i) \<longleftrightarrow> (\<exists>n < got_n s c. owns s c n i) \<and> (\<forall>n. (n, i) \<notin> holding s c)"
| "recv_local s c (Free_Release i old) \<longleftrightarrow>
     (\<exists>n < got_n s c. owns s c n i) \<and> (\<forall>n. (n, i) \<notin> holding s c) \<and> old = MAGIC_NUM"
| "recv_local s c Recv_Abort \<longleftrightarrow> False"

primrec head_slot :: "abb_sys \<Rightarrow> nat \<Rightarrow> head_stage \<Rightarrow> bool" where
  "head_slot s c H_Waiting \<longleftrightarrow> d_state (slot_at s c (got_n s c)) = BUFFER_ALLOCATED \<and> (\<exists>i. cell s c (got_n s c) i)"
| "head_slot s c H_Reading \<longleftrightarrow> d_state (slot_at s c (got_n s c)) = BUFFER_RECEIVED \<and> (\<exists>i. cell s c (got_n s c) i)"
| "head_slot s c (H_Copied r) \<longleftrightarrow> d_state (slot_at s c (got_n s c)) = BUFFER_RECEIVED"
| "head_slot s c (H_Cleared r) \<longleftrightarrow> d_state (slot_at s c (got_n s c)) = BUFFER_RECEIVED \<and> d_index (slot_at s c (got_n s c)) = 0"
| "head_slot s c (H_Released r) \<longleftrightarrow> d_state (slot_at s c (got_n s c)) = BUFFER_FREE \<and> d_index (slot_at s c (got_n s c)) = 0"

primrec head_keeps :: "abb_sys \<Rightarrow> nat \<Rightarrow> head_stage \<Rightarrow> nat \<Rightarrow> bool" where
  "head_keeps s c H_Waiting i \<longleftrightarrow> d_index (slot_at s c (got_n s c)) = encode_buff_index i"
| "head_keeps s c H_Reading i \<longleftrightarrow> d_index (slot_at s c (got_n s c)) = encode_buff_index i"
| "head_keeps s c (H_Copied r) i \<longleftrightarrow> (\<exists>sz. r = Packet sz i)"
| "head_keeps s c (H_Cleared r) i \<longleftrightarrow> (\<exists>sz. r = Packet sz i)"
| "head_keeps s c (H_Released r) i \<longleftrightarrow> (\<exists>sz. r = Packet sz i)"

definition kept :: "abb_sys \<Rightarrow> nat \<Rightarrow> nat \<Rightarrow> nat \<Rightarrow> bool" where
  "kept s c n i \<longleftrightarrow>
     n < got_n s c \<and> ((n, i) \<in> holding s c \<or> freeing (rpc s c) = Some i) \<or>
     n = got_n s c \<and> got_n s c < sent_n s c \<and> head_keeps s c (head_phase (rpc s c)) i \<or>
     got_n s c < n \<and> n < sent_n s c \<and> d_index (slot_at s c n) = encode_buff_index i \<or>
     n = sent_n s c \<and> send_hand (spc s c) = Some i"

definition counters_ok :: "abb_sys \<Rightarrow> nat \<Rightarrow> bool" where
  "counters_ok s c \<longleftrightarrow> got_n s c \<le> sent_n s c \<and> sent_n s c \<le> got_n s c + MCAPI_MAX_QUEUE_ENTRIES \<and>
     update_counter (queues (mem s) c) = of_nat (2 * sent_n s c + pushing (spc s c)) \<and>
     ack_counter (queues (mem s) c) = of_nat (2 * got_n s c + popping (rpc s c))"

definition slots_ok :: "abb_sys \<Rightarrow> nat \<Rightarrow> bool" where
  "slots_ok s c \<longleftrightarrow>
     (\<forall>n. got_n s c < n \<longrightarrow> n < sent_n s c \<longrightarrow> d_state (slot_at s c n) = BUFFER_ALLOCATED \<and> (\<exists>i. cell s c n i)) \<and>
     (\<forall>n. sent_n s c < n \<longrightarrow> n < got_n s c + MCAPI_MAX_QUEUE_ENTRIES \<longrightarrow> tail_slot T_Free (slot_at s c n)) \<and>
     (got_n s c < sent_n s c \<longrightarrow> head_slot s c (head_phase (rpc s c))) \<and>
     (sent_n s c < got_n s c + MCAPI_MAX_QUEUE_ENTRIES \<longrightarrow> tail_slot (tail_phase (spc s c)) (slot_at s c (sent_n s c)))"

definition history_ok :: "abb_sys \<Rightarrow> nat \<Rightarrow> bool" where
  "history_ok s c \<longleftrightarrow>
     (\<forall>n < got_n s c. received_as (chan_ty s c) (sent s c ! n) (fst (got s c ! n)) (snd (got s c ! n))) \<and>
     (\<forall>(n, i) \<in> holding s c. n < got_n s c \<and> carries s c n (sent s c ! n) i) \<and>
     (\<forall>n i. owner s i = Some (c, n) \<longrightarrow> i < MCAPI_MAX_BUFFERS \<and> kept s c n i)"

definition chan_ok :: "abb_sys \<Rightarrow> nat \<Rightarrow> bool" where
  "chan_ok s c \<longleftrightarrow> counters_ok s c \<and> slots_ok s c \<and> history_ok s c \<and> send_local s c (spc s c) \<and> recv_local s c (rpc s c)"

definition magic_ok :: "abb_sys \<Rightarrow> bool" where
  "magic_ok s \<longleftrightarrow> (\<forall>i. magic_num (pool (mem s) i) = (if owner s i = None then 0 else MAGIC_NUM))"

section \<open>Threads of other endpoints\<close>

text \<open>The part of the state that the invariant of an endpoint depends on.\<close>

definition same_view :: "nat \<Rightarrow> abb_sys \<Rightarrow> abb_sys \<Rightarrow> bool" where
  "same_view c s s' \<longleftrightarrow>
     queues (mem s') c = queues (mem s) c \<and> spc s' c = spc s c \<and> sarg s' c = sarg s c \<and> rpc s' c = rpc s c \<and>
     rarg s' c = rarg s c \<and> sent s' c = sent s c \<and> got s' c = got s c \<and> holding s' c = holding s c \<and>
     (\<forall>i n. owner s' i = Some (c, n) \<longleftrightarrow> owner s i = Some (c, n)) \<and>
     (\<forall>i n. owner s i = Some (c, n) \<longrightarrow> pool (mem s') i = pool (mem s) i)"

lemma same_view_facts:
  assumes "same_view c s s'"
  shows "owns s' c = owns s c" "carries s' c = carries s c" "slot_at s' c = slot_at s c" "cell s' c = cell s c"
    "result_ok s' c = result_ok s c" "tail_known s' c = tail_known s c" "head_known s' c = head_known s c"
proof -
  show o: "owns s' c = owns s c" using assms by (auto simp: same_view_def owns_def fun_eq_iff)
  show ca: "carries s' c = carries s c" using assms by (auto simp: same_view_def carries_def owns_def fun_eq_iff)
  show sl: "slot_at s' c = slot_at s c" using assms by (auto simp: same_view_def slot_at_def fun_eq_iff)
  show "cell s' c = cell s c" using assms by (auto simp: same_view_def cell_def ca sl fun_eq_iff)
  show "result_ok s' c = result_ok s c" using assms by (auto simp: same_view_def result_ok_def ca fun_eq_iff)
  show "tail_known s' c = tail_known s c" "head_known s' c = head_known s c"
    using assms by (auto simp: same_view_def tail_known_def head_known_def fun_eq_iff)
qed

lemma chan_ok_view:
  assumes v: "same_view c s s'" and ok: "chan_ok s c"
  shows "chan_ok s' c"
proof -
  note f = same_view_facts [OF v]
  have e: "queues (mem s') c = queues (mem s) c" "spc s' c = spc s c" "sarg s' c = sarg s c" "rpc s' c = rpc s c"
    "rarg s' c = rarg s c" "sent s' c = sent s c" "got s' c = got s c" "holding s' c = holding s c"
    "\<And>i n. owner s' i = Some (c, n) \<longleftrightarrow> owner s i = Some (c, n)"
    using v by (simp_all add: same_view_def)
  have p: "owns s c n i \<Longrightarrow> pool (mem s') i = pool (mem s) i" for n i using v by (auto simp: same_view_def owns_def)
  have "send_local s' c (spc s c) = send_local s c (spc s c)"
    by (cases "spc s c") (auto simp: e f p)
  moreover have "recv_local s' c (rpc s c) = recv_local s c (rpc s c)"
    by (cases "rpc s c") (auto simp: e f)
  moreover have "head_slot s' c h = head_slot s c h" "head_keeps s' c h = head_keeps s c h" for h
    by (cases h; simp add: e f fun_eq_iff)+
  moreover have "kept s' c = kept s c" using calculation(4) by (simp add: kept_def e f fun_eq_iff)
  ultimately show ?thesis using ok
    by (simp add: chan_ok_def counters_ok_def slots_ok_def history_ok_def e f)
qed

section \<open>Steps within one position of the stream\<close>

lemma window_mod:
  assumes "r \<le> n" "n < r + MCAPI_MAX_QUEUE_ENTRIES" "r \<le> m" "m < r + MCAPI_MAX_QUEUE_ENTRIES"
  shows "n mod MCAPI_MAX_QUEUE_ENTRIES = m mod MCAPI_MAX_QUEUE_ENTRIES \<longleftrightarrow> n = m"
proof
  assume e: "n mod MCAPI_MAX_QUEUE_ENTRIES = m mod MCAPI_MAX_QUEUE_ENTRIES"
  show "n = m"
  proof (rule ccontr)
    assume "n \<noteq> m"
    then consider "n < m" | "m < n" by linarith
    then show False
    proof cases
      case 1
      then have "MCAPI_MAX_QUEUE_ENTRIES dvd m - n" using e by (metis mod_eq_dvd_iff_nat nat_less_le)
      then show False using 1 assms by (auto dest: dvd_imp_le)
    next
      case 2
      then have "MCAPI_MAX_QUEUE_ENTRIES dvd n - m" using e by (metis mod_eq_dvd_iff_nat nat_less_le)
      then show False using 2 assms by (auto dest: dvd_imp_le)
    qed
  qed
qed simp

text \<open>A turn of the sender that does not complete its call.\<close>

lemma send_quiet:
  assumes ok: "chan_ok s c"
    and s': "s' = s\<lparr>mem := m', spc := (spc s)(c := p'), owner := ow'\<rparr>"
    and q: "queues m' c = (queues (mem s) c)\<lparr>update_counter := of_nat (2 * sent_n s c + pushing p'),
              q_slots := (q_slots (queues (mem s) c))(sent_n s c mod MCAPI_MAX_QUEUE_ENTRIES := d)\<rparr>"
    and full: "sent_n s c < got_n s c + MCAPI_MAX_QUEUE_ENTRIES \<or> d = slot_at s c (sent_n s c)"
    and pl: "\<And>i n. owner s i = Some (c, n) \<Longrightarrow> n \<noteq> sent_n s c \<Longrightarrow> pool m' i = pool (mem s) i"
    and ow: "\<And>i n. n \<noteq> sent_n s c \<Longrightarrow> ow' i = Some (c, n) \<longleftrightarrow> owner s i = Some (c, n)"
    and hand: "\<And>i. ow' i = Some (c, sent_n s c) \<Longrightarrow> i < MCAPI_MAX_BUFFERS \<and> send_hand p' = Some i"
    and tail: "sent_n s c < got_n s c + MCAPI_MAX_QUEUE_ENTRIES \<Longrightarrow> tail_slot (tail_phase p') d"
    and push: "pushing (spc s c) \<le> pushing p'"
    and loc: "send_local s' c p'"
  shows "chan_ok s' c"
proof -
  let ?S = "sent_n s c" and ?R = "got_n s c"
  have cn: "?R \<le> ?S" "?S \<le> ?R + MCAPI_MAX_QUEUE_ENTRIES" using ok by (auto simp: chan_ok_def counters_ok_def)
  have e: "spc s' c = p'" "sarg s' = sarg s" "rpc s' = rpc s" "rarg s' = rarg s" "sent s' = sent s" "got s' = got s" "holding s' = holding s"
    "mem s' = m'" "owner s' = ow'"
    by (simp_all add: s')
  have ty: "q_type (queues m' c) = chan_ty s c" by (simp add: q)
  have o: "owns s' c n i \<longleftrightarrow> owns s c n i" if "n < ?S" for n i
    using ow [of n i] that by (auto simp: owns_def e)
  have ca: "carries s' c n a i \<longleftrightarrow> carries s c n a i" if "n < ?S" for n a i
    using pl [of i n] that o [OF that, of i] by (auto simp: carries_def e ty owns_def)
  have sl: "slot_at s' c n = slot_at s c n" if "?R \<le> n" "n < ?R + MCAPI_MAX_QUEUE_ENTRIES" "n \<noteq> ?S" for n
  proof (cases "?S < ?R + MCAPI_MAX_QUEUE_ENTRIES")
    case True
    then show ?thesis using window_mod [of ?R n ?S] that cn by (simp add: slot_at_def e q)
  next
    case False
    then have "d = slot_at s c ?S" using full by simp
    then show ?thesis by (simp add: slot_at_def e q)
  qed
  have slS: "slot_at s' c ?S = d" by (simp add: slot_at_def e q)
  have ce: "cell s' c n i \<longleftrightarrow> cell s c n i" if "?R \<le> n" "n < ?S" for n i
    using that cn sl [of n] ca [of n] by (simp add: cell_def e)
  have re: "result_ok s' c r \<longleftrightarrow> result_ok s c r" if "?R < ?S" for r
    using that ca [of ?R] by (simp add: result_ok_def e ty)
  have hk: "head_known s' c k \<longleftrightarrow> head_known s c k" for k by (simp add: head_known_def e)
  have R: "slot_at s' c ?R = slot_at s c ?R" if "?R < ?S" using that cn sl [of ?R] by simp
  have ur: "recv_local s' c (rpc s c)"
  proof -
    have r: "recv_local s c (rpc s c)" using ok by (simp add: chan_ok_def)
    show ?thesis
    proof (cases "rpc s c")
      case (Recv_Head_Ack uc)
      with r obtain u where "uc = of_nat u" "2 * ?R \<le> u" "u \<le> 2 * ?S + pushing (spc s c)" by auto
      then show ?thesis using Recv_Head_Ack push by (auto simp: e intro!: exI [of _ u])
    qed (use r cn in \<open>auto simp: e hk re ce head_known_def ty o\<close>)
  qed
  have h: "head_slot s' c h \<longleftrightarrow> head_slot s c h" "head_keeps s' c h i \<longleftrightarrow> head_keeps s c h i" if "?R < ?S" for h i
    using that by (cases h; simp add: R e ce)+
  have k: "kept s' c n i" if "kept s c n i" "n \<noteq> ?S" for n i
    using that cn sl [of n] h(2) by (auto simp: kept_def e)
  have hist: "history_ok s' c"
    unfolding history_ok_def e ty
  proof (intro conjI allI impI)
    fix n assume "n < ?R"
    then show "received_as (chan_ty s c) (sent s c ! n) (fst (got s c ! n)) (snd (got s c ! n))"
      using ok by (simp add: chan_ok_def history_ok_def)
  next
    show "\<forall>(n, i) \<in> holding s c. n < ?R \<and> carries s' c n (sent s c ! n) i"
      using ok cn ca by (fastforce simp: chan_ok_def history_ok_def)
  next
    fix i n assume a: "ow' i = Some (c, n)"
    have "i < MCAPI_MAX_BUFFERS \<and> kept s' c n i"
    proof (cases "n = ?S")
      case True
      then show ?thesis using hand [of i] a by (simp add: kept_def e)
    next
      case False
      then have "owner s i = Some (c, n)" using ow a by blast
      then have "i < MCAPI_MAX_BUFFERS" "kept s c n i" using ok by (auto simp: chan_ok_def history_ok_def)
      then show ?thesis using k False by blast
    qed
    then show "i < MCAPI_MAX_BUFFERS" "kept s' c n i" by simp_all
  qed
  have "slots_ok s' c"
    unfolding slots_ok_def e
  proof (intro conjI allI impI)
    fix n assume n: "?R < n" "n < ?S"
    then have "d_state (slot_at s c n) = BUFFER_ALLOCATED \<and> (\<exists>i. cell s c n i)" using ok by (simp add: chan_ok_def slots_ok_def)
    then show "d_state (slot_at s' c n) = BUFFER_ALLOCATED" "\<exists>i. cell s' c n i" using n cn sl [of n] ce [of n] by auto
  next
    fix n assume n: "?S < n" "n < ?R + MCAPI_MAX_QUEUE_ENTRIES"
    then have "tail_slot T_Free (slot_at s c n)" using ok by (auto simp: chan_ok_def slots_ok_def simp del: tail_slot.simps)
    then show "tail_slot T_Free (slot_at s' c n)" using n cn sl [of n] by simp
  next
    assume "?R < ?S"
    then show "head_slot s' c (head_phase (rpc s c))" using h(1) ok by (simp add: chan_ok_def slots_ok_def)
  next
    assume "?S < ?R + MCAPI_MAX_QUEUE_ENTRIES"
    then show "tail_slot (tail_phase p') (slot_at s' c ?S)" using tail slS by simp
  qed
  then show ?thesis using ok hist ur loc by (simp add: chan_ok_def counters_ok_def e q)
qed

text \<open>A turn of the receiver that does not complete its call.\<close>

lemma recv_quiet:
  assumes ok: "chan_ok s c"
    and s': "s' = s\<lparr>mem := m', rpc := (rpc s)(c := p'), owner := ow'\<rparr>"
    and q: "queues m' c = (queues (mem s) c)\<lparr>ack_counter := of_nat (2 * got_n s c + popping p'),
              q_slots := (q_slots (queues (mem s) c))(got_n s c mod MCAPI_MAX_QUEUE_ENTRIES := d)\<rparr>"
    and full: "got_n s c < sent_n s c \<or> d = slot_at s c (got_n s c)"
    and pl: "\<And>i n. ow' i = Some (c, n) \<Longrightarrow>
               scalar (pool m' i) = scalar (pool (mem s) i) \<and> buff (pool m' i) = buff (pool (mem s) i) \<and>
               bsize (pool m' i) = bsize (pool (mem s) i)"
    and ow: "\<And>i n. ow' i = Some (c, n) \<Longrightarrow> owner s i = Some (c, n)"
    and lost: "\<And>i n. owner s i = Some (c, n) \<Longrightarrow>
      ow' i = Some (c, n) \<or> n = got_n s c \<and> got_n s c < sent_n s c \<or> n < got_n s c \<and> (n, i) \<notin> holding s c"
    and free: "\<And>i n. ow' i = Some (c, n) \<Longrightarrow> n < got_n s c \<Longrightarrow> freeing (rpc s c) = Some i \<Longrightarrow> freeing p' = Some i"
    and keeps: "\<And>i. ow' i = Some (c, got_n s c) \<Longrightarrow> got_n s c < sent_n s c \<Longrightarrow>
      head_keeps s c (head_phase (rpc s c)) i \<Longrightarrow> head_keeps s' c (head_phase p') i"
    and hd: "got_n s c < sent_n s c \<Longrightarrow> head_slot s' c (head_phase p')"
    and pop: "popping (rpc s c) \<le> popping p'"
    and loc: "recv_local s' c p'"
  shows "chan_ok s' c"
proof -
  let ?S = "sent_n s c" and ?R = "got_n s c"
  have cn: "?R \<le> ?S" "?S \<le> ?R + MCAPI_MAX_QUEUE_ENTRIES" using ok by (auto simp: chan_ok_def counters_ok_def)
  have e: "rpc s' c = p'" "sarg s' = sarg s" "spc s' = spc s" "rarg s' = rarg s" "sent s' = sent s" "got s' = got s"
    "holding s' = holding s" "mem s' = m'" "owner s' = ow'"
    by (simp_all add: s')
  have ty: "q_type (queues m' c) = chan_ty s c" by (simp add: q)
  have o: "owns s' c n i \<longleftrightarrow> owns s c n i" if "?R < n \<or> n = ?S" for n i
    using ow [of i n] lost [of i n] that cn by (auto simp: owns_def e)
  have oS: "owns s c ?S i \<Longrightarrow> ow' i = Some (c, ?S)" for i using o [of ?S i] by (simp add: owns_def e)
  have ca: "carries s' c n a i \<longleftrightarrow> carries s c n a i" if "?R < n \<or> n = ?S" for n a i
    using pl [of i n] o [OF that, of i] by (auto simp: carries_def filled_def e ty owns_def)
  have sl: "slot_at s' c n = slot_at s c n" if "?R \<le> n" "n < ?R + MCAPI_MAX_QUEUE_ENTRIES" "n \<noteq> ?R" for n
    using window_mod [of ?R n ?R] that cn by (simp add: slot_at_def e q)
  have slS: "slot_at s' c ?S = slot_at s c ?S" if "?S < ?R + MCAPI_MAX_QUEUE_ENTRIES"
  proof (cases "?S = ?R")
    case True
    then have "d = slot_at s c ?R" using full by simp
    then show ?thesis using True by (simp add: slot_at_def e q)
  next
    case False
    then show ?thesis using sl [of ?S] that cn by simp
  qed
  have ce: "cell s' c n i \<longleftrightarrow> cell s c n i" if "?R < n" "n < ?S" for n i
    using that cn sl [of n] ca [of n] by (simp add: cell_def e)
  have tk: "tail_known s' c k \<longleftrightarrow> tail_known s c k" for k by (simp add: tail_known_def e)
  have us: "send_local s' c (spc s c)"
  proof -
    have r: "send_local s c (spc s c)" using ok by (simp add: chan_ok_def)
    show ?thesis
    proof (cases "spc s c")
      case (Send_Tail_Update ac)
      with r obtain a where "ac = of_nat a" "a \<le> 2 * ?R + popping (rpc s c)" "2 * ?S \<le> a + 2 * MCAPI_MAX_QUEUE_ENTRIES" by auto
      then show ?thesis using Send_Tail_Update pop by (auto simp: e intro!: exI [of _ a])
    next
      case (Send_Size k i)
      then show ?thesis using r pl [OF oS, of i] by (auto simp: e tk o filled_def ty)
    qed (use r in \<open>auto simp: e tk ty o ca\<close>)
  qed
  have k: "kept s' c n i" if a: "ow' i = Some (c, n)" and kp: "kept s c n i" for n i
  proof -
    consider "n < ?R" "(n, i) \<in> holding s c \<or> freeing (rpc s c) = Some i"
      | "n = ?R" "?R < ?S" "head_keeps s c (head_phase (rpc s c)) i"
      | "?R < n" "n < ?S" "d_index (slot_at s c n) = encode_buff_index i"
      | "n = ?S" "send_hand (spc s c) = Some i"
      using kp by (auto simp: kept_def)
    then show ?thesis
    proof cases
      case 1
      then show ?thesis using free [OF a] by (auto simp: kept_def e)
    next
      case 2
      then show ?thesis using keeps [of i] a by (simp add: kept_def e)
    next
      case 3
      then show ?thesis using sl [of n] cn by (simp add: kept_def e)
    next
      case 4
      then show ?thesis by (simp add: kept_def e)
    qed
  qed
  have hist: "history_ok s' c"
    unfolding history_ok_def e ty
  proof (intro conjI allI impI)
    fix n assume "n < ?R"
    then show "received_as (chan_ty s c) (sent s c ! n) (fst (got s c ! n)) (snd (got s c ! n))"
      using ok by (simp add: chan_ok_def history_ok_def)
  next
    show "\<forall>(n, i) \<in> holding s c. n < ?R \<and> carries s' c n (sent s c ! n) i"
    proof (clarify)
      fix n i assume h: "(n, i) \<in> holding s c"
      then have b: "n < ?R" "carries s c n (sent s c ! n) i" using ok by (auto simp: chan_ok_def history_ok_def)
      then have a: "ow' i = Some (c, n)" using lost [of i n] h by (auto simp: carries_def owns_def)
      show "n < ?R \<and> carries s' c n (sent s c ! n) i"
        using b a pl [OF a] by (auto simp: carries_def filled_def owns_def e ty)
    qed
  next
    fix i n assume a: "ow' i = Some (c, n)"
    then have "i < MCAPI_MAX_BUFFERS" "kept s c n i" using ow [OF a] ok by (auto simp: chan_ok_def history_ok_def)
    then show "i < MCAPI_MAX_BUFFERS" "kept s' c n i" using k [OF a] by auto
  qed
  have "slots_ok s' c"
    unfolding slots_ok_def e
  proof (intro conjI allI impI)
    fix n assume n: "?R < n" "n < ?S"
    then have "d_state (slot_at s c n) = BUFFER_ALLOCATED \<and> (\<exists>i. cell s c n i)" using ok by (simp add: chan_ok_def slots_ok_def)
    then show "d_state (slot_at s' c n) = BUFFER_ALLOCATED" "\<exists>i. cell s' c n i" using n cn sl [of n] ce [of n] by auto
  next
    fix n assume n: "?S < n" "n < ?R + MCAPI_MAX_QUEUE_ENTRIES"
    then have "tail_slot T_Free (slot_at s c n)" using ok by (auto simp: chan_ok_def slots_ok_def simp del: tail_slot.simps)
    then show "tail_slot T_Free (slot_at s' c n)" using n cn sl [of n] by simp
  next
    assume "?R < ?S"
    then show "head_slot s' c (head_phase p')" by (rule hd)
  next
    assume a: "?S < ?R + MCAPI_MAX_QUEUE_ENTRIES"
    then show "tail_slot (tail_phase (spc s c)) (slot_at s' c ?S)" using slS ok by (simp add: chan_ok_def slots_ok_def)
  qed
  then show ?thesis using ok hist us loc by (simp add: chan_ok_def counters_ok_def e q)
qed


end
