(* ===== verification/ABB_Sender.thy ===== *)
theory ABB_Sender
  imports ABB_Fifo
begin

text \<open>
  Every turn of a sending thread of the lock-free transport keeps the invariant of its endpoint (\<open>send_step_ok\<close>).
\<close>

section \<open>The turns of the sender\<close>

lemma abb_queue_shape:
  fixes q q' :: abb_queue
  shows
  "q_type q' = q_type q \<Longrightarrow> ack_counter q' = ack_counter q \<Longrightarrow> update_counter q' = u \<Longrightarrow> q_slots q' = (q_slots q)(k := d) \<Longrightarrow>
   q' = q\<lparr>update_counter := u, q_slots := (q_slots q)(k := d)\<rparr>"
  "q_type q' = q_type q \<Longrightarrow> update_counter q' = update_counter q \<Longrightarrow> ack_counter q' = a \<Longrightarrow> q_slots q' = (q_slots q)(k := d) \<Longrightarrow>
   q' = q\<lparr>ack_counter := a, q_slots := (q_slots q)(k := d)\<rparr>"
  by (rule abb_queue.equality; simp)+

lemma send_local_spc [simp]: "send_local (s\<lparr>spc := f\<rparr>) c p = send_local s c p"
  by (cases p) (simp_all add: tail_known_def owns_def carries_def)

lemma carries_spc [simp]: "carries (s\<lparr>spc := f\<rparr>) c n a i = carries s c n a i"
  by (simp add: owns_def carries_def)

lemma send_moves:
  assumes ok: "chan_ok s c" and p: "spc s c = p" "tail_phase p' = tail_phase p" "send_hand p' = send_hand p"
    "pushing p = 0" "pushing p' = 0" and loc: "send_local s c p'"
  shows "chan_ok (s\<lparr>spc := (spc s)(c := p')\<rparr>) c"
proof (rule send_quiet [OF ok, where m' = "mem s" and p' = p' and ow' = "owner s" and d = "slot_at s c (sent_n s c)"])
  show "queues (mem s) c = (queues (mem s) c)\<lparr>update_counter := of_nat (2 * sent_n s c + pushing p'),
      q_slots := (q_slots (queues (mem s) c))(sent_n s c mod MCAPI_MAX_QUEUE_ENTRIES := slot_at s c (sent_n s c))\<rparr>"
    using ok p by (intro abb_queue_shape) (simp_all add: chan_ok_def counters_ok_def slot_at_def)
  fix i assume "owner s i = Some (c, sent_n s c)"
  then have "i < MCAPI_MAX_BUFFERS \<and> kept s c (sent_n s c) i" using ok by (auto simp: chan_ok_def history_ok_def)
  then show "i < MCAPI_MAX_BUFFERS \<and> send_hand p' = Some i"
    using p ok by (auto simp: kept_def chan_ok_def counters_ok_def)
next
  assume "sent_n s c < got_n s c + MCAPI_MAX_QUEUE_ENTRIES"
  then show "tail_slot (tail_phase p') (slot_at s c (sent_n s c))" using ok p by (simp add: chan_ok_def slots_ok_def)
qed (use p loc in simp_all)

lemma send_reads:
  assumes ok: "chan_ok s c" and t: "send_turn (sarg s c) c (mem s) (spc s c) = (mem s, p')"
    and p: "tail_phase p' = tail_phase (spc s c)" "send_hand p' = send_hand (spc s c)" "pushing (spc s c) = 0" "pushing p' = 0"
    and n: "note_send c (spc s c) p' s = s" and loc: "send_local s c p'"
  shows "chan_ok (send_step c s) c"
proof -
  have "send_step c s = s\<lparr>spc := (spc s)(c := p')\<rparr>" by (simp add: send_step_def t n)
  then show ?thesis using send_moves [OF ok refl p loc] by simp
qed

lemma chan_ok_facts:
  assumes "chan_ok s c"
  shows "got_n s c \<le> sent_n s c" "sent_n s c \<le> got_n s c + MCAPI_MAX_QUEUE_ENTRIES"
    "update_counter (queues (mem s) c) = of_nat (2 * sent_n s c + pushing (spc s c))"
    "ack_counter (queues (mem s) c) = of_nat (2 * got_n s c + popping (rpc s c))"
    "send_local s c (spc s c)" "recv_local s c (rpc s c)"
    "sent_n s c < got_n s c + MCAPI_MAX_QUEUE_ENTRIES \<Longrightarrow> tail_slot (tail_phase (spc s c)) (slot_at s c (sent_n s c))"
    "got_n s c < sent_n s c \<Longrightarrow> head_slot s c (head_phase (rpc s c))"
  using assms by (auto simp: chan_ok_def counters_ok_def slots_ok_def)

lemma popping_bound: "recv_local s c (rpc s c) \<Longrightarrow> 2 * got_n s c + popping (rpc s c) \<le> 2 * sent_n s c" if "got_n s c \<le> sent_n s c"
  using that by (cases "rpc s c") (auto simp: popping_def)

lemma send_tail_ok:
  assumes ok: "chan_ok s c" and b: "sent_n s c < 2 ^ 31" and p: "spc s c = Send_Tail_Update ac"
  shows "chan_ok (send_step c s) c"
proof -
  note f = chan_ok_facts [OF ok]
  from f(5) p obtain a where a: "ac = of_nat a" "a \<le> 2 * got_n s c + popping (rpc s c)" "2 * sent_n s c \<le> a + 2 * MCAPI_MAX_QUEUE_ENTRIES"
    by auto
  have le: "a \<le> 2 * sent_n s c" using a(2) popping_bound [OF f(1) f(6)] by simp
  have u: "update_counter (queues (mem s) c) = of_nat (2 * sent_n s c)" using f(3) by (simp add: p pushing_def)
  have k: "2 * sent_n s c < a + 2 * MCAPI_MAX_QUEUE_ENTRIES - 1 \<Longrightarrow> tail_known s c (sent_n s c mod MCAPI_MAX_QUEUE_ENTRIES)"
    using a by (auto simp: tail_known_def popping_def split: recv_pc.splits)
  show ?thesis
    by (rule send_reads [OF ok, where p' = "case tail_status ac (of_nat (2 * sent_n s c)) of
        QUEUE_SUCCESS \<Rightarrow> Send_Check (counter_slot (of_nat (2 * sent_n s c))) | QUEUE_FULL \<Rightarrow> Send_Idle False | _ \<Rightarrow> Send_Tail_Ack"])
      (use k a in \<open>auto simp: p u a(1) tail_status_even [OF b le a(3)] counter_slot_even [OF b] Let_def pushing_def note_send_def
         simp del: of_nat_mult\<close>)
qed


text \<open>Turns that write to the entry, or to the buffer in hand.\<close>

lemma send_writes_slot:
  assumes ok: "chan_ok s c"
    and t: "send_turn (sarg s c) c (mem s) (spc s c) = (upd_slot c (sent_n s c mod MCAPI_MAX_QUEUE_ENTRIES) g (mem s), p')"
    and room: "sent_n s c < got_n s c + MCAPI_MAX_QUEUE_ENTRIES"
    and p: "tail_slot (tail_phase p') (g (slot_at s c (sent_n s c)))" "send_hand p' = send_hand (spc s c)"
      "pushing (spc s c) = 0" "pushing p' = 0"
    and n: "note_send c (spc s c) p' s = s"
    and loc: "send_local (s\<lparr>mem := upd_slot c (sent_n s c mod MCAPI_MAX_QUEUE_ENTRIES) g (mem s)\<rparr>) c p'"
  shows "chan_ok (send_step c s) c"
proof (rule send_quiet [OF ok, where m' = "upd_slot c (sent_n s c mod MCAPI_MAX_QUEUE_ENTRIES) g (mem s)" and p' = p' and
    ow' = "owner s" and d = "g (slot_at s c (sent_n s c))"])
  show "send_step c s = s\<lparr>mem := upd_slot c (sent_n s c mod MCAPI_MAX_QUEUE_ENTRIES) g (mem s), spc := (spc s)(c := p'), owner := owner s\<rparr>"
    by (simp add: send_step_def t n)
  show "queues (upd_slot c (sent_n s c mod MCAPI_MAX_QUEUE_ENTRIES) g (mem s)) c = (queues (mem s) c)
      \<lparr>update_counter := of_nat (2 * sent_n s c + pushing p'),
       q_slots := (q_slots (queues (mem s) c))(sent_n s c mod MCAPI_MAX_QUEUE_ENTRIES := g (slot_at s c (sent_n s c)))\<rparr>"
    using chan_ok_facts(3) [OF ok] p by (intro abb_queue_shape) (simp_all add: upd_slot_def upd_abb_queue_def slot_at_def)
  fix i assume "owner s i = Some (c, sent_n s c)"
  then have "i < MCAPI_MAX_BUFFERS \<and> kept s c (sent_n s c) i" using ok by (auto simp: chan_ok_def history_ok_def)
  then show "i < MCAPI_MAX_BUFFERS \<and> send_hand p' = Some i"
    using p chan_ok_facts(1) [OF ok] by (auto simp: kept_def)
next
  have "send_step c s = s\<lparr>mem := upd_slot c (sent_n s c mod MCAPI_MAX_QUEUE_ENTRIES) g (mem s), spc := (spc s)(c := p')\<rparr>"
    by (simp add: send_step_def t n)
  then show "send_local (send_step c s) c p'"
    using loc send_local_spc [where s = "s\<lparr>mem := upd_slot c (sent_n s c mod MCAPI_MAX_QUEUE_ENTRIES) g (mem s)\<rparr>" and f = "(spc s)(c := p')"] by simp
qed (use p room in \<open>simp_all add: upd_slot_def upd_abb_queue_def\<close>)

lemma send_writes_pool:
  assumes ok: "chan_ok s c"
    and t: "send_turn (sarg s c) c (mem s) (spc s c) = (upd_pool i g (mem s), p')"
    and own: "ow' i = Some (c, sent_n s c)" "\<And>j. j \<noteq> i \<Longrightarrow> ow' j = owner s j" "i < MCAPI_MAX_BUFFERS"
      "owner s i = None \<or> owner s i = Some (c, sent_n s c)"
    and p: "tail_phase p' = tail_phase (spc s c)" "send_hand p' = Some i" "send_hand (spc s c) = Some i \<or> send_hand (spc s c) = None"
      "pushing (spc s c) = 0" "pushing p' = 0"
    and n: "note_send c (spc s c) p' s = s\<lparr>owner := ow'\<rparr>"
    and loc: "send_local (s\<lparr>mem := upd_pool i g (mem s), owner := ow'\<rparr>) c p'"
  shows "chan_ok (send_step c s) c"
proof (rule send_quiet [OF ok, where m' = "upd_pool i g (mem s)" and p' = p' and ow' = ow' and d = "slot_at s c (sent_n s c)"])
  show st: "send_step c s = s\<lparr>mem := upd_pool i g (mem s), spc := (spc s)(c := p'), owner := ow'\<rparr>"
    by (simp add: send_step_def t n)
  show "queues (upd_pool i g (mem s)) c = (queues (mem s) c)
      \<lparr>update_counter := of_nat (2 * sent_n s c + pushing p'),
       q_slots := (q_slots (queues (mem s) c))(sent_n s c mod MCAPI_MAX_QUEUE_ENTRIES := slot_at s c (sent_n s c))\<rparr>"
    using chan_ok_facts(3) [OF ok] p by (intro abb_queue_shape) (simp_all add: upd_pool_def slot_at_def)
  fix j assume j: "ow' j = Some (c, sent_n s c)"
  show "j < MCAPI_MAX_BUFFERS \<and> send_hand p' = Some j"
  proof (cases "j = i")
    case False
    then have "owner s j = Some (c, sent_n s c)" using j own by simp
    then have "kept s c (sent_n s c) j" using ok by (auto simp: chan_ok_def history_ok_def)
    then show ?thesis using p(3) False chan_ok_facts(1) [OF ok] by (auto simp: kept_def)
  qed (use own p in simp)
next
  fix j n assume "owner s j = Some (c, n)" "n \<noteq> sent_n s c"
  then show "pool (upd_pool i g (mem s)) j = pool (mem s) j" using own by (auto simp: upd_pool_def)
next
  fix j n assume "n \<noteq> sent_n s c"
  then show "ow' j = Some (c, n) \<longleftrightarrow> owner s j = Some (c, n)" using own by (cases "j = i") auto
next
  assume "sent_n s c < got_n s c + MCAPI_MAX_QUEUE_ENTRIES"
  then show "tail_slot (tail_phase p') (slot_at s c (sent_n s c))" using p chan_ok_facts(7) [OF ok] by simp
next
  have "send_step c s = s\<lparr>mem := upd_pool i g (mem s), owner := ow', spc := (spc s)(c := p')\<rparr>"
    by (simp add: send_step_def t n)
  then show "send_local (send_step c s) c p'"
    using loc send_local_spc [where s = "s\<lparr>mem := upd_pool i g (mem s), owner := ow'\<rparr>" and f = "(spc s)(c := p')"] by simp
qed (use p in simp_all)


lemma tail_known_mod: "tail_known s c k \<Longrightarrow> k = sent_n s c mod MCAPI_MAX_QUEUE_ENTRIES \<and> sent_n s c < got_n s c + MCAPI_MAX_QUEUE_ENTRIES"
  by (simp add: tail_known_def)

lemma slot_at_index: "slots_k = sent_n s c mod MCAPI_MAX_QUEUE_ENTRIES \<Longrightarrow> q_slots (queues (mem s) c) slots_k = slot_at s c (sent_n s c)"
  by (simp add: slot_at_def)

lemma owns_mem [simp]: "owns (s\<lparr>mem := m\<rparr>) c n i = owns s c n i"
  by (simp add: owns_def)

lemma buffers_pos [simp]: "0 < MCAPI_MAX_BUFFERS"
  by (simp add: mcapi_limits)

lemma tail_known_mem [simp]: "tail_known (s\<lparr>mem := m\<rparr>) c k = tail_known s c k"
  by (simp add: tail_known_def)

lemma carries_slot [simp]: "carries (s\<lparr>mem := upd_slot d k g (mem s)\<rparr>) c n a i = carries s c n a i"
  by (simp add: carries_def upd_slot_def upd_abb_queue_def)

lemma send_local_slot [simp]: "send_local (s\<lparr>mem := upd_slot d k g (mem s)\<rparr>) c p = send_local s c p"
  by (cases p) (simp_all, simp add: upd_slot_def upd_abb_queue_def)

lemma send_check_ok:
  assumes ok: "chan_ok s c" and p: "spc s c = Send_Check k"
  shows "chan_ok (send_step c s) c"
proof -
  have tk: "tail_known s c k" using chan_ok_facts(5) [OF ok] p by simp
  then have "d_index (q_slots (queues (mem s) c) k) = 0"
    using chan_ok_facts(7) [OF ok] p by (simp add: tail_known_def slot_at_def)
  then show ?thesis using tk
    by (intro send_reads [OF ok, where p' = "Send_Reserve k"]) (simp_all add: p pushing_def note_send_def)
qed

lemma send_reserve_ok:
  assumes ok: "chan_ok s c" and p: "spc s c = Send_Reserve k"
  shows "chan_ok (send_step c s) c"
proof -
  have tk: "tail_known s c k" using chan_ok_facts(5) [OF ok] p by simp
  then have k: "k = sent_n s c mod MCAPI_MAX_QUEUE_ENTRIES" "sent_n s c < got_n s c + MCAPI_MAX_QUEUE_ENTRIES"
    by (simp_all add: tail_known_def)
  have d: "d_state (slot_at s c (sent_n s c)) = BUFFER_FREE" "d_index (slot_at s c (sent_n s c)) = 0"
    using chan_ok_facts(7) [OF ok k(2)] p by simp_all
  show ?thesis
    by (rule send_writes_slot [OF ok _ k(2), where g = "\<lambda>d. d\<lparr>d_state := BUFFER_RESERVED\<rparr>" and p' = "Send_Alloc k 0"])
      (use tk d in \<open>simp_all add: p k(1) cas_state_def slot_at_def pushing_def note_send_def\<close>)
qed

lemma send_alloc_ok:
  assumes ok: "chan_ok s c" and mg: "magic_ok s" and p: "spc s c = Send_Alloc k i"
  shows "chan_ok (send_step c s) c"
proof -
  have tk: "tail_known s c k" "i < MCAPI_MAX_BUFFERS" using chan_ok_facts(5) [OF ok] p by simp_all
  show ?thesis
  proof (cases "magic_num (pool (mem s) i) = 0")
    case True
    then have o: "owner s i = None" using mg by (auto simp: magic_ok_def split: if_splits)
    show ?thesis
      by (rule send_writes_pool [OF ok, where i = i and g = "\<lambda>b. b\<lparr>magic_num := MAGIC_NUM\<rparr>" and p' = "Send_Parent k i" and
            ow' = "(owner s)(i := Some (c, sent_n s c))"])
        (use True o tk in \<open>simp_all add: p alloc_turn_def cas_magic_def pushing_def note_send_def owns_def tail_known_def\<close>)
  next
    case False
    then show ?thesis
      by (intro send_reads [OF ok, where p' = "if i + 1 < MCAPI_MAX_BUFFERS then Send_Alloc k (i + 1) else Send_Undo_Read k"])
        (use tk in \<open>simp_all add: p alloc_turn_def cas_magic_def pushing_def note_send_def\<close>)
  qed
qed

lemma send_undo_ok:
  assumes ok: "chan_ok s c" and p: "spc s c = Send_Undo_Read k \<or> spc s c = Send_Undo k old"
  shows "chan_ok (send_step c s) c"
  using p
proof
  assume p: "spc s c = Send_Undo_Read k"
  have tk: "tail_known s c k" using chan_ok_facts(5) [OF ok] p by simp
  then have "d_state (q_slots (queues (mem s) c) k) = BUFFER_RESERVED"
    using chan_ok_facts(7) [OF ok] p by (simp add: tail_known_def slot_at_def)
  then show ?thesis using tk
    by (intro send_reads [OF ok, where p' = "Send_Undo k BUFFER_RESERVED"]) (simp_all add: p pushing_def note_send_def)
next
  assume p: "spc s c = Send_Undo k old"
  have tk: "tail_known s c k" "old = BUFFER_RESERVED" using chan_ok_facts(5) [OF ok] p by simp_all
  then have k: "k = sent_n s c mod MCAPI_MAX_QUEUE_ENTRIES" "sent_n s c < got_n s c + MCAPI_MAX_QUEUE_ENTRIES"
    by (simp_all add: tail_known_def)
  have d: "d_state (slot_at s c (sent_n s c)) = BUFFER_RESERVED" "d_index (slot_at s c (sent_n s c)) = 0"
    using chan_ok_facts(7) [OF ok k(2)] p by simp_all
  show ?thesis
    by (rule send_writes_slot [OF ok _ k(2), where g = "\<lambda>d. d\<lparr>d_state := BUFFER_FREE\<rparr>" and p' = "Send_Idle False"])
      (use tk d in \<open>simp_all add: p k(1) cas_state_def slot_at_def pushing_def note_send_def\<close>)
qed

lemma send_fill_ok:
  assumes ok: "chan_ok s c" and p: "spc s c = Send_Parent k i \<or> spc s c = Send_Data k i \<or> spc s c = Send_Size k i"
  shows "chan_ok (send_step c s) c"
proof -
  have tk: "tail_known s c k" "owns s c (sent_n s c) i" using chan_ok_facts(5) [OF ok] p by auto
  then have o: "owner s i = Some (c, sent_n s c)" "i < MCAPI_MAX_BUFFERS" by (simp_all add: owns_def)
  have same: "s\<lparr>owner := owner s\<rparr> = s" by simp
  consider "spc s c = Send_Parent k i" | "spc s c = Send_Data k i" | "spc s c = Send_Size k i" using p by blast
  then show ?thesis
  proof cases
    case 1
    show ?thesis
      by (rule send_writes_pool [OF ok, where i = i and p' = "Send_Data k i" and ow' = "owner s" and
            g = "\<lambda>b. b\<lparr>parent := Some (c, k)\<rparr>"])
        (use o tk in \<open>simp_all add: 1 pushing_def note_send_def owns_def tail_known_def\<close>)
  next
    case 2
    show ?thesis
      by (rule send_writes_pool [OF ok, where i = i and p' = "Send_Size k i" and ow' = "owner s" and
            g = "\<lambda>b. if chan_ty s c = MCAPI_SCL_CHAN then b\<lparr>scalar := a_scalar (sarg s c)\<rparr>
                 else b\<lparr>buff := memcpy (buff b) (a_buffer (sarg s c)) (a_size (sarg s c))\<rparr>"])
        (use o tk in \<open>simp_all add: 2 pushing_def note_send_def owns_def tail_known_def upd_pool_def filled_def\<close>)
  next
    case 3
    then have "filled (chan_ty s c) (sarg s c) (pool (mem s) i)" using chan_ok_facts(5) [OF ok] by simp
    then show ?thesis
      by (intro send_writes_pool [OF ok, where i = i and p' = "Send_Index_Read k i" and ow' = "owner s" and
            g = "\<lambda>b. b\<lparr>bsize := a_size (sarg s c)\<rparr>"])
        (use o tk in \<open>simp_all add: 3 pushing_def note_send_def owns_def tail_known_def upd_pool_def filled_def carries_def\<close>)
  qed
qed

lemma send_index_ok:
  assumes ok: "chan_ok s c" and p: "spc s c = Send_Index_Read k i \<or> spc s c = Send_Index k i old \<or> spc s c = Send_Mark k i"
  shows "chan_ok (send_step c s) c"
proof -
  have tk: "tail_known s c k" "carries s c (sent_n s c) (sarg s c) i" using chan_ok_facts(5) [OF ok] p by auto
  then have k: "k = sent_n s c mod MCAPI_MAX_QUEUE_ENTRIES" "sent_n s c < got_n s c + MCAPI_MAX_QUEUE_ENTRIES"
    by (simp_all add: tail_known_def)
  have d: "tail_slot (tail_phase (spc s c)) (slot_at s c (sent_n s c))" by (rule chan_ok_facts(7) [OF ok k(2)])
  consider "spc s c = Send_Index_Read k i" | "spc s c = Send_Index k i old" | "spc s c = Send_Mark k i" using p by blast
  then show ?thesis
  proof cases
    case 1
    then have "d_index (q_slots (queues (mem s) c) k) = 0" using d k by (simp add: slot_at_def)
    then show ?thesis using tk
      by (intro send_reads [OF ok, where p' = "Send_Index k i 0"]) (simp_all add: 1 pushing_def note_send_def)
  next
    case 2
    then have "old = 0" using chan_ok_facts(5) [OF ok] by simp
    then show ?thesis
      by (intro send_writes_slot [OF ok _ k(2), where g = "\<lambda>d. d\<lparr>d_index := encode_buff_index i\<rparr>" and p' = "Send_Mark k i"])
        (use tk d in \<open>simp_all add: 2 k(1) slot_at_def pushing_def note_send_def\<close>)
  next
    case 3
    show ?thesis
      by (rule send_writes_slot [OF ok _ k(2), where g = "\<lambda>d. d\<lparr>d_state := BUFFER_ALLOCATED\<rparr>" and p' = "Push_Update k i"])
        (use tk d in \<open>simp_all add: 3 k(1) cas_state_def slot_at_def pushing_def note_send_def\<close>)
  qed
qed


lemma send_push_ok:
  assumes ok: "chan_ok s c" and b: "sent_n s c < 2 ^ 31"
    and p: "spc s c = Push_Update k i \<or> spc s c = Push_Ack k i uc \<or> spc s c = Push_Claim k i uc"
  shows "chan_ok (send_step c s) c"
proof -
  note f = chan_ok_facts [OF ok]
  have tk: "tail_known s c k" "carries s c (sent_n s c) (sarg s c) i" using f(5) p by auto
  then have k: "k = sent_n s c mod MCAPI_MAX_QUEUE_ENTRIES" "sent_n s c < got_n s c + MCAPI_MAX_QUEUE_ENTRIES"
    by (simp_all add: tail_known_def)
  have u: "update_counter (queues (mem s) c) = of_nat (2 * sent_n s c)" using f(3) p by (auto simp: pushing_def)
  consider "spc s c = Push_Update k i" | "spc s c = Push_Ack k i uc" | "spc s c = Push_Claim k i uc" using p by blast
  then show ?thesis
  proof cases
    case 1
    show ?thesis
      by (rule send_reads [OF ok, where p' = "Push_Ack k i (of_nat (2 * sent_n s c))"])
        (use tk in \<open>simp_all add: 1 u pushing_def note_send_def Let_def\<close>)
  next
    case 2
    then have uc: "uc = of_nat (2 * sent_n s c)" using f(5) by simp
    have "tail_status (of_nat (2 * got_n s c + popping (rpc s c))) (of_nat (2 * sent_n s c)) = QUEUE_SUCCESS"
      using k popping_bound [OF f(1) f(6)] by (subst tail_status_even [OF b]) auto
    then show ?thesis
      by (intro send_reads [OF ok, where p' = "Push_Claim k i uc"])
        (use tk uc in \<open>simp_all add: 2 f(4) pushing_def note_send_def del: of_nat_add of_nat_mult\<close>)
  next
    case 3
    then have uc: "uc = of_nat (2 * sent_n s c)" using f(5) by simp
    let ?m = "upd_abb_queue c (\<lambda>q. q\<lparr>update_counter := uc + 1\<rparr>) (mem s)"
    have st: "send_step c s = s\<lparr>mem := ?m, spc := (spc s)(c := Push_Done k i k), owner := owner s\<rparr>"
      using counter_slot_even [OF b] by (simp add: send_step_def 3 u uc note_send_def k del: of_nat_mult)
    show ?thesis
    proof (rule send_quiet [OF ok st, where d = "slot_at s c (sent_n s c)"])
      show "queues ?m c = (queues (mem s) c)\<lparr>update_counter := of_nat (2 * sent_n s c + pushing (Push_Done k i k)),
          q_slots := (q_slots (queues (mem s) c))(sent_n s c mod MCAPI_MAX_QUEUE_ENTRIES := slot_at s c (sent_n s c))\<rparr>"
        by (intro abb_queue_shape) (simp_all add: upd_abb_queue_def slot_at_def uc pushing_def)
      fix j assume "owner s j = Some (c, sent_n s c)"
      then have "j < MCAPI_MAX_BUFFERS \<and> kept s c (sent_n s c) j" using ok by (auto simp: chan_ok_def history_ok_def)
      then show "j < MCAPI_MAX_BUFFERS \<and> send_hand (Push_Done k i k) = Some j"
        using f(1) by (auto simp: kept_def 3)
    next
      show "tail_slot (tail_phase (Push_Done k i k)) (slot_at s c (sent_n s c))" using f(7) [OF k(2)] 3 by simp
      show "send_local (send_step c s) c (Push_Done k i k)"
        using tk unfolding st by (simp add: upd_abb_queue_def carries_def owns_def tail_known_def)
    qed (use k in \<open>simp_all add: 3 pushing_def upd_abb_queue_def\<close>)
  qed
qed


lemma waiting_when_empty:
  "recv_local s c p \<Longrightarrow> sent_n s c \<le> got_n s c \<Longrightarrow> head_phase p = H_Waiting"
  by (cases p) (auto simp: head_known_def)

lemma free_when_full:
  "send_local s c p \<Longrightarrow> got_n s c + MCAPI_MAX_QUEUE_ENTRIES \<le> sent_n s c \<Longrightarrow> tail_phase p = T_Free"
  by (cases p) (auto simp: tail_known_def)

lemma send_done_ok:
  assumes ok: "chan_ok s c" and p: "spc s c = Push_Done k i x"
  shows "chan_ok (send_step c s) c"
proof -
  note f = chan_ok_facts [OF ok]
  let ?S = "sent_n s c" and ?R = "got_n s c"
  have tk: "tail_known s c k" "carries s c ?S (sarg s c) i" "x = k" using f(5) p by auto
  then have k: "k = ?S mod MCAPI_MAX_QUEUE_ENTRIES" "?S < ?R + MCAPI_MAX_QUEUE_ENTRIES" by (simp_all add: tail_known_def)
  have d: "d_state (slot_at s c ?S) = BUFFER_ALLOCATED" "d_index (slot_at s c ?S) = encode_buff_index i" using f(7) [OF k(2)] p by simp_all
  let ?m = "upd_abb_queue c (\<lambda>q. q\<lparr>update_counter := update_counter q + 1\<rparr>) (mem s)"
  define s' where "s' = s\<lparr>mem := ?m, spc := (spc s)(c := Send_Idle True), sent := (sent s)(c := sent s c @ [sarg s c])\<rparr>"
  have st: "send_step c s = s'" by (simp add: send_step_def p tk note_send_def s'_def)
  have e: "rpc s' = rpc s" "sarg s' = sarg s" "spc s' c = Send_Idle True" "rarg s' = rarg s" "sent s' c = sent s c @ [sarg s c]" "got s' = got s"
    "holding s' = holding s" "owner s' = owner s" "chan_ty s' c = chan_ty s c" "ack_counter (queues (mem s') c) = ack_counter (queues (mem s) c)"
    "update_counter (queues (mem s') c) = update_counter (queues (mem s) c) + 1" "pool (mem s') = pool (mem s)"
    by (simp_all add: s'_def upd_abb_queue_def)
  have sl: "slot_at s' c = slot_at s c" by (simp add: slot_at_def s'_def upd_abb_queue_def fun_eq_iff)
  have ca: "carries s' c = carries s c" by (simp add: carries_def owns_def e fun_eq_iff)
  have ow: "owns s' c = owns s c" by (simp add: owns_def e fun_eq_iff)
  have ce: "cell s' c n j = cell s c n j" if "n < ?S" for n j using that by (simp add: cell_def sl ca e nth_append)
  have cS: "cell s' c ?S i" using d tk by (simp add: cell_def sl ca e)
  have re: "result_ok s' c r = result_ok s c r" if "?R < ?S" for r using that by (simp add: result_ok_def ca e nth_append)
  have hk: "head_known s c j \<Longrightarrow> head_known s' c j \<and> ?R < ?S" for j by (simp add: head_known_def e)
  have ur: "recv_local s' c (rpc s c)"
  proof -
    have r: "recv_local s c (rpc s c)" by (rule f(6))
    show ?thesis
    proof (cases "rpc s c")
      case (Recv_Head_Ack uc)
      with r obtain u where "uc = of_nat u" "2 * ?R \<le> u" "u \<le> 2 * ?S + 1" by (auto simp: p pushing_def)
      then show ?thesis using Recv_Head_Ack by (auto simp: e intro!: exI [of _ u])
    qed (use r in \<open>auto simp: e re ce ow nth_append dest!: hk\<close>)
  qed
  have h: "head_slot s' c h \<longleftrightarrow> head_slot s c h" "head_keeps s' c h j \<longleftrightarrow> head_keeps s c h j" if "?R < ?S" for h j
    using that by (cases h; simp add: sl e ce)+
  have hS: "head_phase (rpc s c) = H_Waiting" if "\<not> ?R < ?S" using waiting_when_empty [OF f(6)] that by simp
  have kp: "kept s' c n j" if "kept s c n j" for n j
  proof (cases "n = ?S")
    case True
    then have "j = i" using that f(1) p by (auto simp: kept_def)
    then show ?thesis using True d(2) f(1) hS by (cases "?R < ?S") (auto simp: kept_def e sl)
  next
    case False
    then show ?thesis using that h by (auto simp: kept_def e sl)
  qed
  have "history_ok s' c"
    unfolding history_ok_def e ca
  proof (intro conjI allI impI)
    fix n assume "n < ?R"
    then show "received_as (chan_ty s c) ((sent s c @ [sarg s c]) ! n) (fst (got s c ! n)) (snd (got s c ! n))"
      using ok f(1) by (simp add: chan_ok_def history_ok_def nth_append)
  next
    show "\<forall>(n, j) \<in> holding s c. n < ?R \<and> carries s c n ((sent s c @ [sarg s c]) ! n) j"
      using ok f(1) by (auto simp: chan_ok_def history_ok_def nth_append)
  next
    fix j n assume "owner s j = Some (c, n)"
    then have "j < MCAPI_MAX_BUFFERS" "kept s c n j" using ok by (auto simp: chan_ok_def history_ok_def)
    then show "j < MCAPI_MAX_BUFFERS" "kept s' c n j" using kp by auto
  qed
  moreover have "slots_ok s' c"
    unfolding slots_ok_def e sl
  proof (intro conjI allI impI)
    fix n assume n: "?R < n" "n < length (sent s c @ [sarg s c])"
    show "d_state (slot_at s c n) = BUFFER_ALLOCATED"
      using n d ok by (cases "n = ?S") (auto simp: chan_ok_def slots_ok_def)
    show "\<exists>i. cell s' c n i"
    proof (cases "n = ?S")
      case False
      then have "\<exists>j. cell s c n j" using n ok by (auto simp: chan_ok_def slots_ok_def)
      then show ?thesis using False n ce [of n] by auto
    qed (use cS in blast)
  next
    fix n assume "length (sent s c @ [sarg s c]) < n" "n < ?R + MCAPI_MAX_QUEUE_ENTRIES"
    then show "tail_slot T_Free (slot_at s c n)" using ok by (auto simp: chan_ok_def slots_ok_def simp del: tail_slot.simps)
  next
    show "head_slot s' c (head_phase (rpc s c))"
    proof (cases "?R < ?S")
      case True
      then show ?thesis using h f(8) by blast
    next
      case False
      then show ?thesis using hS [OF False] f(1) d cS by (auto simp: sl e)
    qed
  next
    assume "length (sent s c @ [sarg s c]) < ?R + MCAPI_MAX_QUEUE_ENTRIES"
    then show "tail_slot (tail_phase (Send_Idle True)) (slot_at s c (length (sent s c @ [sarg s c])))"
      using ok by (auto simp: chan_ok_def slots_ok_def)
  qed
  moreover have "counters_ok s' c" using f(1-4) k by (simp add: counters_ok_def e p pushing_def)
  ultimately show ?thesis using ur unfolding st by (simp add: chan_ok_def e)
qed

lemma send_step_ok:
  assumes "chan_ok s c" "magic_ok s" "sent_n s c < 2 ^ 31"
  shows "chan_ok (send_step c s) c"
proof (cases "spc s c")
  case (Send_Idle rc)
  then have "send_step c s = s" by (simp add: send_step_def note_send_def fun_upd_idem)
  then show ?thesis using assms by simp
next
  case Send_Tail_Ack
  note f = chan_ok_facts [OF assms(1)]
  have "2 * sent_n s c \<le> 2 * got_n s c + popping (rpc s c) + 2 * MCAPI_MAX_QUEUE_ENTRIES" using f(2) by linarith
  then show ?thesis
    by (intro send_reads [OF assms(1), where p' = "Send_Tail_Update (ack_counter (queues (mem s) c))"])
      (use f(4) in \<open>auto simp: Send_Tail_Ack pushing_def note_send_def intro!: exI [of _ "2 * got_n s c + popping (rpc s c)"]\<close>)
next
  case Send_Abort
  then show ?thesis using chan_ok_facts(5) [OF assms(1)] by simp
next
  case (Send_Tail_Update ac)
  show ?thesis
    by (rule send_tail_ok [OF assms(1,3)]) (simp add: Send_Tail_Update)
next
  case (Send_Check k)
  show ?thesis
    by (rule send_check_ok [OF assms(1)]) (simp add: Send_Check)
next
  case (Send_Reserve k)
  show ?thesis
    by (rule send_reserve_ok [OF assms(1)]) (simp add: Send_Reserve)
next
  case (Send_Alloc k i)
  show ?thesis
    by (rule send_alloc_ok [OF assms(1,2)]) (simp add: Send_Alloc)
next
  case (Send_Undo_Read k)
  then show ?thesis by (blast intro: send_undo_ok [OF assms(1)])
next
  case (Send_Undo k old)
  then show ?thesis by (blast intro: send_undo_ok [OF assms(1)])
next
  case (Send_Parent k i)
  then show ?thesis by (blast intro: send_fill_ok [OF assms(1)])
next
  case (Send_Data k i)
  then show ?thesis by (blast intro: send_fill_ok [OF assms(1)])
next
  case (Send_Size k i)
  then show ?thesis by (blast intro: send_fill_ok [OF assms(1)])
next
  case (Send_Index_Read k i)
  then show ?thesis by (blast intro: send_index_ok [OF assms(1)])
next
  case (Send_Index k i old)
  then show ?thesis by (blast intro: send_index_ok [OF assms(1)])
next
  case (Send_Mark k i)
  then show ?thesis by (blast intro: send_index_ok [OF assms(1)])
next
  case (Push_Update k i)
  then show ?thesis by (blast intro: send_push_ok [OF assms(1,3)])
next
  case (Push_Ack k i uc)
  then show ?thesis by (blast intro: send_push_ok [OF assms(1,3)])
next
  case (Push_Claim k i uc)
  then show ?thesis by (blast intro: send_push_ok [OF assms(1,3)])
next
  case (Push_Done k i x)
  show ?thesis
    by (rule send_done_ok [OF assms(1)]) (simp add: Push_Done)
qed


end
