(* ===== verification/ABB_Receiver.thy ===== *)
theory ABB_Receiver
  imports ABB_Sender
begin

text \<open>
  Every turn of a receiving thread of the lock-free transport keeps the invariant of its endpoint (\<open>recv_step_ok\<close>), so do the
  calls, and no turn is seen by the other endpoints.
\<close>

section \<open>The turns of the receiver\<close>

lemma recv_local_rpc [simp]: "recv_local (s\<lparr>rpc := f\<rparr>) c p = recv_local s c p"
  by (cases p) (simp_all add: head_known_def cell_def owns_def carries_def result_ok_def slot_at_def)

lemma head_slot_rpc [simp]: "head_slot (s\<lparr>rpc := f\<rparr>) c h = head_slot s c h"
  by (cases h) (simp_all add: cell_def owns_def carries_def slot_at_def)

lemma head_keeps_rpc [simp]: "head_keeps (s\<lparr>rpc := f\<rparr>) c h i = head_keeps s c h i"
  by (cases h) (simp_all add: slot_at_def)

lemma recv_moves:
  assumes ok: "chan_ok s c" and p: "rpc s c = p" "freeing p = None \<or> freeing p' = freeing p" "popping p = 0" "popping p' = 0"
    and hd: "got_n s c < sent_n s c \<Longrightarrow> head_slot s c (head_phase p')"
    and keeps: "\<And>i. owner s i = Some (c, got_n s c) \<Longrightarrow> got_n s c < sent_n s c \<Longrightarrow>
      head_keeps s c (head_phase p) i \<Longrightarrow> head_keeps s c (head_phase p') i"
    and loc: "recv_local s c p'"
  shows "chan_ok (s\<lparr>rpc := (rpc s)(c := p')\<rparr>) c"
proof (rule recv_quiet [OF ok, where m' = "mem s" and p' = p' and ow' = "owner s" and d = "slot_at s c (got_n s c)"])
  show "queues (mem s) c = (queues (mem s) c)\<lparr>ack_counter := of_nat (2 * got_n s c + popping p'),
      q_slots := (q_slots (queues (mem s) c))(got_n s c mod MCAPI_MAX_QUEUE_ENTRIES := slot_at s c (got_n s c))\<rparr>"
    using ok p by (intro abb_queue_shape) (simp_all add: chan_ok_def counters_ok_def slot_at_def)
qed (use p loc hd keeps in auto)

lemma recv_reads:
  assumes ok: "chan_ok s c" and t: "recv_turn (rarg s c) c (mem s) (rpc s c) = (mem s, p')"
    and p: "freeing (rpc s c) = None \<or> freeing p' = freeing (rpc s c)" "popping (rpc s c) = 0" "popping p' = 0"
    and ph: "head_phase p' = head_phase (rpc s c)"
    and n: "note_recv c (rpc s c) p' s = s" and loc: "recv_local s c p'"
  shows "chan_ok (recv_step c s) c"
proof -
  have "recv_step c s = s\<lparr>rpc := (rpc s)(c := p')\<rparr>" by (simp add: recv_step_def t n)
  moreover have "chan_ok (s\<lparr>rpc := (rpc s)(c := p')\<rparr>) c"
    by (rule recv_moves [OF ok refl p _ _ loc]) (simp_all add: ph chan_ok_facts(8) [OF ok])
  ultimately show ?thesis by simp
qed

text \<open>Turns that write to the entry.\<close>

lemma recv_writes_slot:
  assumes ok: "chan_ok s c"
    and t: "recv_turn (rarg s c) c (mem s) (rpc s c) = (upd_slot c (got_n s c mod MCAPI_MAX_QUEUE_ENTRIES) g (mem s), p')"
    and some: "got_n s c < sent_n s c"
    and p: "freeing (rpc s c) = None" "popping (rpc s c) = 0" "popping p' = 0"
    and n: "note_recv c (rpc s c) p' s = s"
    and hd: "head_slot (s\<lparr>mem := upd_slot c (got_n s c mod MCAPI_MAX_QUEUE_ENTRIES) g (mem s)\<rparr>) c (head_phase p')"
    and keeps: "\<And>i. owner s i = Some (c, got_n s c) \<Longrightarrow> head_keeps s c (head_phase (rpc s c)) i \<Longrightarrow>
      head_keeps (s\<lparr>mem := upd_slot c (got_n s c mod MCAPI_MAX_QUEUE_ENTRIES) g (mem s)\<rparr>) c (head_phase p') i"
    and loc: "recv_local (s\<lparr>mem := upd_slot c (got_n s c mod MCAPI_MAX_QUEUE_ENTRIES) g (mem s)\<rparr>) c p'"
  shows "chan_ok (recv_step c s) c"
proof -
  let ?m = "upd_slot c (got_n s c mod MCAPI_MAX_QUEUE_ENTRIES) g (mem s)"
  have st: "recv_step c s = s\<lparr>mem := ?m, rpc := (rpc s)(c := p')\<rparr>" by (simp add: recv_step_def t n)
  have "chan_ok (s\<lparr>mem := ?m, rpc := (rpc s)(c := p')\<rparr>) c"
  proof (rule recv_quiet [OF ok, where m' = ?m and p' = p' and ow' = "owner s" and d = "g (slot_at s c (got_n s c))"])
    show "queues ?m c = (queues (mem s) c)\<lparr>ack_counter := of_nat (2 * got_n s c + popping p'),
        q_slots := (q_slots (queues (mem s) c))(got_n s c mod MCAPI_MAX_QUEUE_ENTRIES := g (slot_at s c (got_n s c)))\<rparr>"
      using chan_ok_facts(4) [OF ok] p by (intro abb_queue_shape) (simp_all add: upd_slot_def upd_abb_queue_def slot_at_def)
  qed (use p some hd keeps loc recv_local_rpc [where s = "s\<lparr>mem := ?m\<rparr>" and f = "(rpc s)(c := p')"]
        head_slot_rpc [where s = "s\<lparr>mem := ?m\<rparr>" and f = "(rpc s)(c := p')"]
        head_keeps_rpc [where s = "s\<lparr>mem := ?m\<rparr>" and f = "(rpc s)(c := p')"]
       in \<open>auto simp: upd_slot_def upd_abb_queue_def\<close>)
  then show ?thesis unfolding st .
qed

text \<open>Turns that write to a buffer, and give it back or keep it.\<close>

lemma recv_writes_pool:
  assumes ok: "chan_ok s c"
    and t: "recv_turn (rarg s c) c (mem s) (rpc s c) = (upd_pool i g (mem s), p')"
    and g: "\<And>b. scalar (g b) = scalar b" "\<And>b. buff (g b) = buff b" "\<And>b. bsize (g b) = bsize b"
    and own: "owner s i = Some (c, n)" "ow' = owner s \<or> ow' = (owner s)(i := None)"
      "ow' = owner s \<or> n = got_n s c \<and> got_n s c < sent_n s c \<or> n < got_n s c \<and> (n, i) \<notin> holding s c"
    and p: "freeing (rpc s c) = None \<or> freeing (rpc s c) = Some i \<and> ow' i = None" "popping (rpc s c) = 0" "popping p' = 0"
    and nt: "note_recv c (rpc s c) p' s = s\<lparr>owner := ow'\<rparr>"
    and hd: "got_n s c < sent_n s c \<Longrightarrow> head_slot (s\<lparr>mem := upd_pool i g (mem s), owner := ow'\<rparr>) c (head_phase p')"
    and keeps: "\<And>j. ow' j = Some (c, got_n s c) \<Longrightarrow> got_n s c < sent_n s c \<Longrightarrow> head_keeps s c (head_phase (rpc s c)) j \<Longrightarrow>
      head_keeps (s\<lparr>mem := upd_pool i g (mem s), owner := ow'\<rparr>) c (head_phase p') j"
    and loc: "recv_local (s\<lparr>mem := upd_pool i g (mem s), owner := ow'\<rparr>) c p'"
  shows "chan_ok (recv_step c s) c"
proof -
  let ?m = "upd_pool i g (mem s)"
  have st: "recv_step c s = s\<lparr>mem := ?m, rpc := (rpc s)(c := p'), owner := ow'\<rparr>" by (simp add: recv_step_def t nt)
  have sw: "s\<lparr>mem := ?m, rpc := (rpc s)(c := p'), owner := ow'\<rparr> = s\<lparr>mem := ?m, owner := ow', rpc := (rpc s)(c := p')\<rparr>" by simp
  have "chan_ok (s\<lparr>mem := ?m, rpc := (rpc s)(c := p'), owner := ow'\<rparr>) c"
  proof (rule recv_quiet [OF ok refl, where d = "slot_at s c (got_n s c)"])
    show "queues ?m c = (queues (mem s) c)\<lparr>ack_counter := of_nat (2 * got_n s c + popping p'),
        q_slots := (q_slots (queues (mem s) c))(got_n s c mod MCAPI_MAX_QUEUE_ENTRIES := slot_at s c (got_n s c))\<rparr>"
      using chan_ok_facts(4) [OF ok] p by (intro abb_queue_shape) (simp_all add: upd_pool_def slot_at_def)
    show "\<And>j k. ow' j = Some (c, k) \<Longrightarrow> k < got_n s c \<Longrightarrow> freeing (rpc s c) = Some j \<Longrightarrow> freeing p' = Some j" using p by auto
    show "\<And>j k. ow' j = Some (c, k) \<Longrightarrow> owner s j = Some (c, k)" using own by (auto split: if_splits)
    show "\<And>j k. owner s j = Some (c, k) \<Longrightarrow>
      ow' j = Some (c, k) \<or> k = got_n s c \<and> got_n s c < sent_n s c \<or> k < got_n s c \<and> (k, j) \<notin> holding s c"
      using own by (auto split: if_splits)
    show "recv_local (s\<lparr>mem := ?m, rpc := (rpc s)(c := p'), owner := ow'\<rparr>) c p'"
      unfolding sw recv_local_rpc by (rule loc)
    show "got_n s c < sent_n s c \<Longrightarrow> head_slot (s\<lparr>mem := ?m, rpc := (rpc s)(c := p'), owner := ow'\<rparr>) c (head_phase p')"
      unfolding sw head_slot_rpc by (rule hd)
    show "\<And>j. ow' j = Some (c, got_n s c) \<Longrightarrow> got_n s c < sent_n s c \<Longrightarrow> head_keeps s c (head_phase (rpc s c)) j \<Longrightarrow>
      head_keeps (s\<lparr>mem := ?m, rpc := (rpc s)(c := p'), owner := ow'\<rparr>) c (head_phase p') j"
      unfolding sw head_keeps_rpc by (rule keeps)
  qed (use p g in \<open>auto simp: upd_pool_def\<close>)
  then show ?thesis unfolding st .
qed


lemma head_known_mem [simp]: "head_known (s\<lparr>mem := m\<rparr>) c k = head_known s c k"
  by (simp add: head_known_def)

lemma result_ok_slot [simp]: "result_ok (s\<lparr>mem := upd_slot d k g (mem s)\<rparr>) c r = result_ok s c r"
  by (simp add: result_ok_def) (simp add: upd_slot_def upd_abb_queue_def)

lemma slot_at_slot [simp]:
  "slot_at (s\<lparr>mem := upd_slot c (n mod MCAPI_MAX_QUEUE_ENTRIES) g (mem s)\<rparr>) c n = g (slot_at s c n)"
  by (simp add: slot_at_def upd_slot_def upd_abb_queue_def)

lemma head_known_index:
  "head_known s c k \<Longrightarrow> q_slots (queues (mem s) c) k = slot_at s c (got_n s c) \<and> k = got_n s c mod MCAPI_MAX_QUEUE_ENTRIES \<and> got_n s c < sent_n s c"
  by (simp add: head_known_def slot_at_def)

lemma slot_fold: "q_slots (queues (mem s) c) (n mod MCAPI_MAX_QUEUE_ENTRIES) = slot_at s c n"
  by (simp add: slot_at_def)

lemma cell_bound: "cell s c n i \<Longrightarrow> i < MCAPI_MAX_BUFFERS"
  by (simp add: cell_def carries_def owns_def)

lemma encode_buff_index_inj: "i < MCAPI_MAX_BUFFERS \<Longrightarrow> j < MCAPI_MAX_BUFFERS \<Longrightarrow> encode_buff_index i = encode_buff_index j \<longleftrightarrow> i = j"
  by (metis decode_buff_index_encode)

lemma owner_bound: "chan_ok s c \<Longrightarrow> owner s i = Some (c, n) \<Longrightarrow> i < MCAPI_MAX_BUFFERS"
  by (auto simp: chan_ok_def history_ok_def)

lemma recv_head_ok:
  assumes ok: "chan_ok s c" and b: "sent_n s c < 2 ^ 31" and p: "rpc s c = Recv_Head_Update \<or> rpc s c = Recv_Head_Ack uc"
  shows "chan_ok (recv_step c s) c"
  using p
proof
  note f = chan_ok_facts [OF ok]
  assume p: "rpc s c = Recv_Head_Update"
  have "2 * got_n s c \<le> 2 * sent_n s c + pushing (spc s c)" using f(1) by linarith
  then show ?thesis
    by (intro recv_reads [OF ok, where p' = "Recv_Head_Ack (update_counter (queues (mem s) c))"])
      (use f(3) in \<open>auto simp: p popping_def freeing_def note_recv_def intro!: exI [of _ "2 * sent_n s c + pushing (spc s c)"]\<close>)
next
  note f = chan_ok_facts [OF ok]
  assume p: "rpc s c = Recv_Head_Ack uc"
  from f(6) p obtain u where u: "uc = of_nat u" "2 * got_n s c \<le> u" "u \<le> 2 * sent_n s c + pushing (spc s c)" by auto
  have "pushing (spc s c) \<le> 1" by (simp add: pushing_def split: send_pc.splits)
  then have "u \<le> 2 * sent_n s c + 1" using u by linarith
  then have b': "got_n s c < 2 ^ 31" "u < 2 ^ 32" using f(1) b by auto
  have ac: "ack_counter (queues (mem s) c) = of_nat (2 * got_n s c)" using f(4) by (simp add: p popping_def)
  have k: "u \<noteq> 2 * got_n s c \<Longrightarrow> u \<noteq> 2 * got_n s c + 1 \<Longrightarrow> head_known s c (got_n s c mod MCAPI_MAX_QUEUE_ENTRIES)"
    using u \<open>u \<le> 2 * sent_n s c + 1\<close> by (simp add: head_known_def)
  show ?thesis
    by (rule recv_reads [OF ok, where p' = "case head_status (of_nat u) (of_nat (2 * got_n s c)) of
        QUEUE_SUCCESS \<Rightarrow> Recv_State (counter_slot (of_nat (2 * got_n s c))) | QUEUE_EMPTY \<Rightarrow> no_message (rarg s c) | _ \<Rightarrow> Recv_Head_Update"])
      (use k in \<open>auto simp: p u(1) ac head_status_even [OF b'(1) u(2) b'(2)] counter_slot_even [OF b'(1)] Let_def popping_def note_recv_def
         freeing_def no_message_def simp del: of_nat_mult\<close>)
qed

lemma recv_look_ok:
  assumes ok: "chan_ok s c" and p: "rpc s c = Recv_State k \<or> rpc s c = Recv_Index k st"
  shows "chan_ok (recv_step c s) c"
proof -
  have hk: "head_known s c k" using chan_ok_facts(6) [OF ok] p by auto
  note k = head_known_index [OF hk]
  have hw: "d_state (slot_at s c (got_n s c)) = BUFFER_ALLOCATED \<and> (\<exists>i. cell s c (got_n s c) i)"
    using chan_ok_facts(8) [OF ok] k p by auto
  from p show ?thesis
  proof
    assume p: "rpc s c = Recv_State k"
    show ?thesis
      by (rule recv_reads [OF ok, where p' = "Recv_Index k BUFFER_ALLOCATED"])
        (use hk k hw in \<open>simp_all add: p slot_fold popping_def freeing_def note_recv_def\<close>)
  next
    assume p: "rpc s c = Recv_Index k st"
    then have st: "st = BUFFER_ALLOCATED" using chan_ok_facts(6) [OF ok] by simp
    have "d_index (slot_at s c (got_n s c)) \<noteq> 0" using hw cell_bound by (fastforce simp: cell_def)
    then show ?thesis
      by (intro recv_reads [OF ok, where p' = "Recv_Mark k"])
        (use hk k st in \<open>simp_all add: p slot_fold popping_def freeing_def note_recv_def\<close>)
  qed
qed

lemma cell_slot: 
  "d_index (g (slot_at s c n)) = d_index (slot_at s c n) \<Longrightarrow>
   cell (s\<lparr>mem := upd_slot c (n mod MCAPI_MAX_QUEUE_ENTRIES) g (mem s)\<rparr>) c n i = cell s c n i"
  by (simp add: cell_def)

lemma recv_mark_ok:
  assumes ok: "chan_ok s c" and p: "rpc s c = Recv_Mark k"
  shows "chan_ok (recv_step c s) c"
proof -
  have hk: "head_known s c k" using chan_ok_facts(6) [OF ok] p by auto
  note k = head_known_index [OF hk]
  have hw: "d_state (slot_at s c (got_n s c)) = BUFFER_ALLOCATED \<and> (\<exists>i. cell s c (got_n s c) i)"
    using chan_ok_facts(8) [OF ok] k p by auto
  show ?thesis
    by (rule recv_writes_slot [OF ok, where g = "\<lambda>d. d\<lparr>d_state := BUFFER_RECEIVED\<rparr>" and p' = "Recv_Get k"])
      (use hk k hw in \<open>simp_all add: p cas_state_def cell_slot slot_fold popping_def freeing_def note_recv_def\<close>)
qed

lemma slot_at_pool [simp]:
  "slot_at (s\<lparr>mem := upd_pool i g (mem s)\<rparr>) c n = slot_at s c n"
  "slot_at (s\<lparr>mem := upd_pool i g (mem s), owner := ow\<rparr>) c n = slot_at s c n"
  by (simp_all add: slot_at_def upd_pool_def)

lemma head_known_owner [simp]: "head_known (s\<lparr>mem := m, owner := ow\<rparr>) c k = head_known s c k"
  by (simp add: head_known_def)

lemma carries_parent [simp]:
  "carries (s\<lparr>mem := upd_pool i (\<lambda>b. b\<lparr>parent := x\<rparr>) (mem s)\<rparr>) c n a j = carries s c n a j"
  by (simp add: carries_def owns_def upd_pool_def filled_def)

lemma cell_parent [simp]:
  "cell (s\<lparr>mem := upd_pool i (\<lambda>b. b\<lparr>parent := x\<rparr>) (mem s)\<rparr>) c n j = cell s c n j"
  by (simp add: cell_def)

lemma recv_take_ok:
  assumes ok: "chan_ok s c" and p: "rpc s c = Recv_Get k \<or> rpc s c = Recv_Parent k i \<or> rpc s c = Recv_Size k i"
  shows "chan_ok (recv_step c s) c"
proof -
  have hk: "head_known s c k" using chan_ok_facts(6) [OF ok] p by auto
  note k = head_known_index [OF hk]
  have hr: "d_state (slot_at s c (got_n s c)) = BUFFER_RECEIVED" "\<exists>i. cell s c (got_n s c) i"
    using chan_ok_facts(8) [OF ok] k p by auto
  consider "rpc s c = Recv_Get k" | "rpc s c = Recv_Parent k i" | "rpc s c = Recv_Size k i" using p by blast
  then show ?thesis
  proof cases
    case 1
    obtain j where j: "cell s c (got_n s c) j" using hr by blast
    then have "decode_buff_index (d_index (slot_at s c (got_n s c))) = j" using cell_bound [OF j] by (simp add: cell_def)
    then show ?thesis using j
      by (intro recv_reads [OF ok, where p' = "Recv_Parent k j"])
        (use hk k in \<open>simp_all add: 1 slot_fold popping_def freeing_def note_recv_def\<close>)
  next
    case 2
    then have ce: "cell s c (got_n s c) i" using chan_ok_facts(6) [OF ok] by simp
    then have o: "owner s i = Some (c, got_n s c)" by (simp add: cell_def carries_def owns_def)
    show ?thesis
      by (rule recv_writes_pool [OF ok, where i = i and g = "\<lambda>b. b\<lparr>parent := Some (c, k)\<rparr>" and p' = "Recv_Size k i" and ow' = "owner s"])
        (use hk ce o hr in \<open>auto simp: 2 popping_def freeing_def note_recv_def\<close>)
  next
    case 3
    then have ce: "cell s c (got_n s c) i" using chan_ok_facts(6) [OF ok] by simp
    then have "bsize (pool (mem s) i) = a_size (sent s c ! got_n s c)" by (simp add: cell_def carries_def)
    then show ?thesis
      by (intro recv_reads [OF ok, where p' = "Recv_Copy k i (a_size (sent s c ! got_n s c))"])
        (use hk ce in \<open>simp_all add: 3 popping_def freeing_def note_recv_def\<close>)
  qed
qed

lemma bytes_of_min: "bytes_of b m = bytes_of b' m \<Longrightarrow> bytes_of b (min n m) = bytes_of b' (min n m)"
  by (metis take_bytes_of)

lemma copy_out_ok:
  assumes "carries s c (got_n s c) (sent s c ! got_n s c) i"
  shows "result_ok s c (copy_out (rarg s c) c (mem s) i (a_size (sent s c ! got_n s c)))"
proof (cases "chan_ty s c")
  case MCAPI_NO_CHAN
  then have "bytes_of (buff (pool (mem s) i)) (a_size (sent s c ! got_n s c)) =
      bytes_of (a_buffer (sent s c ! got_n s c)) (a_size (sent s c ! got_n s c))"
    using assms by (simp add: carries_def filled_def)
  note bytes_of_min [OF this, of "b_size (rarg s c)"]
  then show ?thesis
    by (simp add: MCAPI_NO_CHAN result_ok_def received_as_def copy_out_def take_bytes_of)
qed (use assms in \<open>simp_all add: result_ok_def received_as_def copy_out_def carries_def filled_def\<close>)

lemma recv_copy_ok:
  assumes ok: "chan_ok s c" and p: "rpc s c = Recv_Copy k i sz"
  shows "chan_ok (recv_step c s) c"
proof -
  have l: "head_known s c k" "cell s c (got_n s c) i" "sz = a_size (sent s c ! got_n s c)" using chan_ok_facts(6) [OF ok] p by auto
  note k = head_known_index [OF l(1)]
  have hr: "d_state (slot_at s c (got_n s c)) = BUFFER_RECEIVED" using chan_ok_facts(8) [OF ok] k p by auto
  let ?r = "copy_out (rarg s c) c (mem s) i sz"
  have r: "result_ok s c ?r" using copy_out_ok l by (simp add: cell_def)
  show ?thesis
  proof (cases "chan_ty s c = MCAPI_PKT_CHAN")
    case False
    then show ?thesis
      by (intro recv_reads [OF ok, where p' = "Recv_Free k i ?r"])
        (use l r in \<open>simp_all add: p slot_fold popping_def freeing_def note_recv_def\<close>)
  next
    case True
    have "recv_step c s = s\<lparr>rpc := (rpc s)(c := Recv_Clear_Reserved k ?r)\<rparr>"
      by (simp add: recv_step_def p True note_recv_def)
    moreover have "chan_ok (s\<lparr>rpc := (rpc s)(c := Recv_Clear_Reserved k ?r)\<rparr>) c"
    proof (rule recv_moves [OF ok p])
      fix j assume "owner s j = Some (c, got_n s c)" "head_keeps s c (head_phase (Recv_Copy k i sz)) j"
      then have "j = i" using l(2) owner_bound [OF ok] cell_bound [OF l(2)] by (auto simp: cell_def encode_buff_index_inj)
      then show "head_keeps s c (head_phase (Recv_Clear_Reserved k ?r)) j" by (simp add: copy_out_def True)
    qed (use l r hr in \<open>simp_all add: freeing_def popping_def\<close>)
    ultimately show ?thesis by simp
  qed
qed


lemma recv_free_ok:
  assumes ok: "chan_ok s c" and mg: "magic_ok s" and p: "rpc s c = Recv_Free k i r"
  shows "chan_ok (recv_step c s) c"
proof -
  have l: "head_known s c k" "cell s c (got_n s c) i" "result_ok s c r" "chan_ty s c \<noteq> MCAPI_PKT_CHAN"
    using chan_ok_facts(6) [OF ok] p by auto
  note k = head_known_index [OF l(1)]
  have hr: "d_state (slot_at s c (got_n s c)) = BUFFER_RECEIVED" using chan_ok_facts(8) [OF ok] k p by auto
  have o: "owner s i = Some (c, got_n s c)" using l(2) by (simp add: cell_def carries_def owns_def)
  then have m: "magic_num (pool (mem s) i) = MAGIC_NUM" using mg by (simp add: magic_ok_def)
  have np: "\<And>sz j. r \<noteq> Packet sz j" using l(3,4) by (auto simp: result_ok_def received_as_def split: channel_type.splits)
  have ro: "result_ok (s\<lparr>mem := upd_pool i g (mem s), owner := ow\<rparr>) c r" for g ow
    using l(3) np by (simp add: result_ok_def upd_pool_def)
  have one: "j = i" if "owner s j = Some (c, got_n s c)" "d_index (slot_at s c (got_n s c)) = encode_buff_index j" for j
    using that l(2) owner_bound [OF ok] cell_bound [OF l(2)] by (auto simp: cell_def encode_buff_index_inj)
  show ?thesis
  proof (rule recv_writes_pool [OF ok, where i = i and g = "\<lambda>b. b\<lparr>magic_num := 0\<rparr>" and p' = "Recv_Clear_Reserved k r" and
      ow' = "(owner s)(i := None)" and n = "got_n s c"])
    fix j assume "((owner s)(i := None)) j = Some (c, got_n s c)" "head_keeps s c (head_phase (rpc s c)) j"
    then have False using one [of j] by (simp add: p split: if_splits)
    then show "head_keeps (s\<lparr>mem := upd_pool i (\<lambda>b. b\<lparr>magic_num := 0\<rparr>) (mem s), owner := (owner s)(i := None)\<rparr>) c
      (head_phase (Recv_Clear_Reserved k r)) j" ..
  qed (use l o k m hr ro in \<open>simp_all add: p cas_magic_def popping_def freeing_def note_recv_def\<close>)
qed

lemma recv_clear_ok:
  assumes ok: "chan_ok s c"
    and p: "rpc s c = Recv_Clear_Reserved k r \<or> rpc s c = Recv_Clear_Index k r \<or> rpc s c = Recv_Release_Read k r \<or> rpc s c = Recv_Release k old r"
  shows "chan_ok (recv_step c s) c"
proof -
  have l: "head_known s c k" "result_ok s c r" using chan_ok_facts(6) [OF ok] p by auto
  note k = head_known_index [OF l(1)]
  have h: "head_slot s c (head_phase (rpc s c))" using chan_ok_facts(8) [OF ok] k by blast
  consider "rpc s c = Recv_Clear_Reserved k r" | "rpc s c = Recv_Clear_Index k r" | "rpc s c = Recv_Release_Read k r"
    | "rpc s c = Recv_Release k old r" using p by blast
  then show ?thesis
  proof cases
    case 1
    show ?thesis
      by (rule recv_writes_slot [OF ok, where g = "\<lambda>d. d\<lparr>d_reserved := False\<rparr>" and p' = "Recv_Clear_Index k r"])
        (use l k h in \<open>simp_all add: 1 popping_def freeing_def note_recv_def\<close>)
  next
    case 2
    show ?thesis
      by (rule recv_writes_slot [OF ok, where g = "\<lambda>d. d\<lparr>d_index := 0\<rparr>" and p' = "Recv_Release_Read k r"])
        (use l k h in \<open>simp_all add: 2 popping_def freeing_def note_recv_def\<close>)
  next
    case 3
    show ?thesis
      by (rule recv_reads [OF ok, where p' = "Recv_Release k BUFFER_RECEIVED r"])
        (use l k h in \<open>simp_all add: 3 slot_fold popping_def freeing_def note_recv_def\<close>)
  next
    case 4
    then have "old = BUFFER_RECEIVED" using chan_ok_facts(6) [OF ok] by simp
    then show ?thesis
      by (intro recv_writes_slot [OF ok, where g = "\<lambda>d. d\<lparr>d_state := BUFFER_FREE\<rparr>" and p' = "Pop_Ack r"])
        (use l k h in \<open>simp_all add: 4 cas_state_def slot_fold popping_def freeing_def note_recv_def\<close>)
  qed
qed

lemma recv_pop_ok:
  assumes ok: "chan_ok s c" and b: "sent_n s c < 2 ^ 31"
    and p: "rpc s c = Pop_Ack r \<or> rpc s c = Pop_Update r ac \<or> rpc s c = Pop_Claim r ac"
  shows "chan_ok (recv_step c s) c"
proof -
  note f = chan_ok_facts [OF ok]
  have l: "got_n s c < sent_n s c" "result_ok s c r" using f(6) p by auto
  have u: "ack_counter (queues (mem s) c) = of_nat (2 * got_n s c)" using f(4) p by (auto simp: popping_def)
  have h: "head_slot s c (head_phase (rpc s c))" using f(8) l by blast
  consider "rpc s c = Pop_Ack r" | "rpc s c = Pop_Update r ac" | "rpc s c = Pop_Claim r ac" using p by blast
  then show ?thesis
  proof cases
    case 1
    show ?thesis
      by (rule recv_reads [OF ok, where p' = "Pop_Update r (of_nat (2 * got_n s c))"])
        (use l in \<open>simp_all add: 1 u popping_def freeing_def note_recv_def Let_def\<close>)
  next
    case 2
    then have ac: "ac = of_nat (2 * got_n s c)" using f(6) by simp
    have "pushing (spc s c) \<le> 1" by (simp add: pushing_def split: send_pc.splits)
    then have "head_status (of_nat (2 * sent_n s c + pushing (spc s c))) (of_nat (2 * got_n s c)) = QUEUE_SUCCESS"
      using l b by (subst head_status_even) auto
    then show ?thesis
      by (intro recv_reads [OF ok, where p' = "Pop_Claim r ac"])
        (use l ac in \<open>simp_all add: 2 f(3) popping_def freeing_def note_recv_def del: of_nat_add of_nat_mult\<close>)
  next
    case 3
    then have ac: "ac = of_nat (2 * got_n s c)" using f(6) by simp
    let ?m = "upd_abb_queue c (\<lambda>q. q\<lparr>ack_counter := ac + 1\<rparr>) (mem s)"
    have st: "recv_step c s = s\<lparr>mem := ?m, rpc := (rpc s)(c := Pop_Done r), owner := owner s\<rparr>"
      by (simp add: recv_step_def 3 u ac note_recv_def del: of_nat_mult)
    have sl: "slot_at (s\<lparr>mem := ?m, rpc := x\<rparr>) c n = slot_at s c n" for x n
      by (simp add: slot_at_def upd_abb_queue_def)
    have ro: "result_ok (s\<lparr>mem := ?m, rpc := x\<rparr>) c r" for x
      using l(2) by (simp add: result_ok_def carries_def owns_def upd_abb_queue_def)
    show ?thesis
    proof (rule recv_quiet [OF ok st, where d = "slot_at s c (got_n s c)"])
      show "queues ?m c = (queues (mem s) c)\<lparr>ack_counter := of_nat (2 * got_n s c + popping (Pop_Done r)),
          q_slots := (q_slots (queues (mem s) c))(got_n s c mod MCAPI_MAX_QUEUE_ENTRIES := slot_at s c (got_n s c))\<rparr>"
        by (intro abb_queue_shape) (simp_all add: upd_abb_queue_def slot_at_def ac popping_def)
      show "recv_local (recv_step c s) c (Pop_Done r)" unfolding st using l ro by simp
      show "head_slot (recv_step c s) c (head_phase (Pop_Done r))" unfolding st using h by (simp add: 3 sl)
      show "\<And>i. head_keeps s c (head_phase (rpc s c)) i \<Longrightarrow> head_keeps (recv_step c s) c (head_phase (Pop_Done r)) i"
        unfolding st by (simp add: 3)
    qed (use l in \<open>simp_all add: 3 popping_def freeing_def upd_abb_queue_def\<close>)
  qed
qed

lemma free_packet_ok:
  assumes ok: "chan_ok s c" and mg: "magic_ok s"
    and p: "rpc s c = Free_Magic i \<or> rpc s c = Free_Num i \<or> rpc s c = Free_Release i old"
  shows "chan_ok (recv_step c s) c"
proof -
  note f = chan_ok_facts [OF ok]
  obtain n where n: "n < got_n s c" "owns s c n i" "\<And>n. (n, i) \<notin> holding s c" using f(6) p by auto
  then have m: "magic_num (pool (mem s) i) = MAGIC_NUM" using mg by (simp add: magic_ok_def owns_def)
  consider "rpc s c = Free_Magic i" | "rpc s c = Free_Num i" | "rpc s c = Free_Release i old" using p by blast
  then show ?thesis
  proof cases
    case 1
    show ?thesis
      by (rule recv_reads [OF ok, where p' = "Free_Num i"])
        (use n m in \<open>auto simp: 1 popping_def freeing_def note_recv_def\<close>)
  next
    case 2
    show ?thesis
      by (rule recv_reads [OF ok, where p' = "Free_Release i MAGIC_NUM"])
        (use n m in \<open>auto simp: 2 popping_def freeing_def note_recv_def\<close>)
  next
    case 3
    then have old: "old = MAGIC_NUM" using f(6) by simp
    have no: "owner s j \<noteq> Some (c, got_n s c) \<or> j \<noteq> i" for j using n by (auto simp: owns_def)
    have ce: "cell (s\<lparr>mem := upd_pool i (\<lambda>b. b\<lparr>magic_num := 0\<rparr>) (mem s), owner := (owner s)(i := None)\<rparr>) c (got_n s c) j"
      if "cell s c (got_n s c) j" for j
      using that n unfolding cell_def slot_at_pool by (auto simp: carries_def owns_def upd_pool_def)
    show ?thesis
      by (rule recv_writes_pool [OF ok, where i = i and n = n and g = "\<lambda>b. b\<lparr>magic_num := 0\<rparr>" and p' = "Recv_Idle (Given_Back True)" and
            ow' = "(owner s)(i := None)"])
        (use n m f(8) ce in \<open>auto simp: 3 old cas_magic_def popping_def freeing_def note_recv_def owns_def\<close>)
  qed
qed


lemma recv_done_ok:
  assumes ok: "chan_ok s c" and p: "rpc s c = Pop_Done r"
  shows "chan_ok (recv_step c s) c"
proof -
  note f = chan_ok_facts [OF ok]
  let ?S = "sent_n s c" and ?R = "got_n s c"
  have l: "?R < ?S" "result_ok s c r" using f(6) p by auto
  have h: "d_state (slot_at s c ?R) = BUFFER_FREE" "d_index (slot_at s c ?R) = 0" using f(8) [OF l(1)] p by simp_all
  let ?m = "upd_abb_queue c (\<lambda>q. q\<lparr>ack_counter := ack_counter q + 1\<rparr>) (mem s)"
  let ?new = "case r of Packet _ i \<Rightarrow> {(?R, i)} | _ \<Rightarrow> {}"
  define s' where "s' = s\<lparr>mem := ?m, rpc := (rpc s)(c := Recv_Idle (Delivered r)), got := (got s)(c := got s c @ [(rarg s c, r)]),
    holding := (holding s)(c := holding s c \<union> ?new)\<rparr>"
  have st: "recv_step c s = s'" by (simp add: recv_step_def p note_recv_def s'_def)
  have e: "rpc s' c = Recv_Idle (Delivered r)" "sarg s' = sarg s" "spc s' = spc s" "rarg s' = rarg s" "sent s' = sent s"
    "got s' c = got s c @ [(rarg s c, r)]" "holding s' c = holding s c \<union> ?new" "owner s' = owner s" "chan_ty s' c = chan_ty s c"
    "update_counter (queues (mem s') c) = update_counter (queues (mem s) c)"
    "ack_counter (queues (mem s') c) = ack_counter (queues (mem s) c) + 1" "pool (mem s') = pool (mem s)"
    by (simp_all add: s'_def upd_abb_queue_def)
  have sl: "slot_at s' c = slot_at s c" by (simp add: slot_at_def s'_def upd_abb_queue_def fun_eq_iff)
  have ca: "carries s' c = carries s c" by (simp add: carries_def owns_def e fun_eq_iff)
  have ow: "owns s' c = owns s c" by (simp add: owns_def e fun_eq_iff)
  have ce: "cell s' c = cell s c" by (simp add: cell_def sl ca e fun_eq_iff)
  have tk: "tail_known s c j \<Longrightarrow> tail_known s' c j" for j by (simp add: tail_known_def e)
  have us: "send_local s' c (spc s c)"
  proof -
    have r: "send_local s c (spc s c)" by (rule f(5))
    show ?thesis
    proof (cases "spc s c")
      case (Send_Tail_Update ac)
      with r obtain a where "ac = of_nat a" "a \<le> 2 * ?R + 1" "2 * ?S \<le> a + 2 * MCAPI_MAX_QUEUE_ENTRIES"
        by (auto simp: p popping_def)
      then show ?thesis using Send_Tail_Update by (auto simp: e intro!: exI [of _ a])
    qed (use r in \<open>auto simp: e ca ow tk\<close>)
  qed
  have kp: "kept s' c n j" if "kept s c n j" for n j
    using that l(1) by (cases "n = Suc ?R") (auto simp: kept_def e sl p freeing_def)
  have "history_ok s' c"
    unfolding history_ok_def e ca
  proof (intro conjI allI impI)
    fix n assume "n < length (got s c @ [(rarg s c, r)])"
    then show "received_as (chan_ty s c) (sent s c ! n) (fst ((got s c @ [(rarg s c, r)]) ! n)) (snd ((got s c @ [(rarg s c, r)]) ! n))"
      using ok l(2) by (auto simp: chan_ok_def history_ok_def nth_append result_ok_def less_Suc_eq)
  next
    show "\<forall>(n, j) \<in> holding s c \<union> ?new. n < length (got s c @ [(rarg s c, r)]) \<and> carries s c n (sent s c ! n) j"
      using ok l(2) by (cases r) (auto simp: chan_ok_def history_ok_def result_ok_def)
  next
    fix j n assume "owner s j = Some (c, n)"
    then have "j < MCAPI_MAX_BUFFERS" "kept s c n j" using ok by (auto simp: chan_ok_def history_ok_def)
    then show "j < MCAPI_MAX_BUFFERS" "kept s' c n j" using kp by auto
  qed
  moreover have "slots_ok s' c"
    unfolding slots_ok_def e sl ce
  proof (intro conjI allI impI)
    fix n assume n: "length (got s c @ [(rarg s c, r)]) < n" "n < ?S"
    then show "d_state (slot_at s c n) = BUFFER_ALLOCATED" "\<exists>i. cell s c n i"
      using ok by (auto simp: chan_ok_def slots_ok_def)
  next
    fix n assume n: "?S < n" "n < length (got s c @ [(rarg s c, r)]) + MCAPI_MAX_QUEUE_ENTRIES"
    show "tail_slot T_Free (slot_at s c n)"
    proof (cases "n = ?R + MCAPI_MAX_QUEUE_ENTRIES")
      case True
      then have "slot_at s c n = slot_at s c ?R" by (simp add: slot_at_def)
      then show ?thesis using h by simp
    next
      case False
      then have "n < ?R + MCAPI_MAX_QUEUE_ENTRIES" using n by simp
      then show ?thesis using n ok by (auto simp: chan_ok_def slots_ok_def simp del: tail_slot.simps)
    qed
  next
    assume "length (got s c @ [(rarg s c, r)]) < ?S"
    then have "d_state (slot_at s c (Suc ?R)) = BUFFER_ALLOCATED \<and> (\<exists>i. cell s c (Suc ?R) i)"
      using ok by (simp add: chan_ok_def slots_ok_def)
    then show "head_slot s' c (head_phase (Recv_Idle (Delivered r)))" by (simp add: sl ce e)
  next
    assume "?S < length (got s c @ [(rarg s c, r)]) + MCAPI_MAX_QUEUE_ENTRIES"
    show "tail_slot (tail_phase (spc s c)) (slot_at s c ?S)"
    proof (cases "?S < ?R + MCAPI_MAX_QUEUE_ENTRIES")
      case True
      then show ?thesis by (rule f(7))
    next
      case False
      then have "?S = ?R + MCAPI_MAX_QUEUE_ENTRIES" using f(2) by simp
      then have "slot_at s c ?S = slot_at s c ?R" by (simp add: slot_at_def)
      moreover have "tail_phase (spc s c) = T_Free" using free_when_full [OF f(5)] False by simp
      ultimately show ?thesis using h by simp
    qed
  qed
  moreover have "counters_ok s' c" using f(1-4) l by (simp add: counters_ok_def e p popping_def)
  ultimately show ?thesis using us unfolding st by (simp add: chan_ok_def e)
qed

lemma recv_step_ok:
  assumes "chan_ok s c" "magic_ok s" "sent_n s c < 2 ^ 31"
  shows "chan_ok (recv_step c s) c"
proof (cases "rpc s c")
  case (Recv_Idle r)
  then have "recv_step c s = s" by (simp add: recv_step_def note_recv_def fun_upd_idem)
  then show ?thesis using assms by simp
next
  case Recv_Head_Update
  then show ?thesis by (blast intro: recv_head_ok [OF assms(1,3)])
next
  case (Recv_Head_Ack uc)
  then show ?thesis by (blast intro: recv_head_ok [OF assms(1,3)])
next
  case (Recv_State k)
  then show ?thesis by (blast intro: recv_look_ok [OF assms(1)])
next
  case (Recv_Index k st)
  then show ?thesis by (blast intro: recv_look_ok [OF assms(1)])
next
  case (Recv_Mark k)
  then show ?thesis by (rule recv_mark_ok [OF assms(1)])
next
  case (Recv_Get k)
  then show ?thesis by (blast intro: recv_take_ok [OF assms(1)])
next
  case (Recv_Parent k i)
  then show ?thesis by (blast intro: recv_take_ok [OF assms(1)])
next
  case (Recv_Size k i)
  then show ?thesis by (blast intro: recv_take_ok [OF assms(1)])
next
  case (Recv_Copy k i sz)
  then show ?thesis by (rule recv_copy_ok [OF assms(1)])
next
  case (Recv_Free k i r)
  then show ?thesis by (rule recv_free_ok [OF assms(1,2)])
next
  case (Recv_Clear_Reserved k r)
  then show ?thesis by (blast intro: recv_clear_ok [OF assms(1)])
next
  case (Recv_Clear_Index k r)
  then show ?thesis by (blast intro: recv_clear_ok [OF assms(1)])
next
  case (Recv_Release_Read k r)
  then show ?thesis by (blast intro: recv_clear_ok [OF assms(1)])
next
  case (Recv_Release k old r)
  then show ?thesis by (blast intro: recv_clear_ok [OF assms(1)])
next
  case (Pop_Ack r)
  then show ?thesis by (blast intro: recv_pop_ok [OF assms(1,3)])
next
  case (Pop_Update r ac)
  then show ?thesis by (blast intro: recv_pop_ok [OF assms(1,3)])
next
  case (Pop_Claim r ac)
  then show ?thesis by (blast intro: recv_pop_ok [OF assms(1,3)])
next
  case (Pop_Done r)
  then show ?thesis by (rule recv_done_ok [OF assms(1)])
next
  case (Free_Magic i)
  then show ?thesis by (blast intro: free_packet_ok [OF assms(1,2)])
next
  case (Free_Num i)
  then show ?thesis by (blast intro: free_packet_ok [OF assms(1,2)])
next
  case (Free_Release i old)
  then show ?thesis by (blast intro: free_packet_ok [OF assms(1,2)])
qed (use chan_ok_facts(6) [OF assms(1)] in simp_all)

section \<open>The calls\<close>

lemma send_call_ok:
  assumes ok: "chan_ok s c" and p: "spc s c = Send_Idle rc"
  shows "chan_ok (s\<lparr>spc := (spc s)(c := Send_Tail_Ack), sarg := (sarg s)(c := a)\<rparr>) c"
proof -
  have "chan_ok (s\<lparr>spc := (spc s)(c := Send_Tail_Ack)\<rparr>) c"
    by (rule send_moves [OF ok p]) (simp_all add: pushing_def)
  moreover have "chan_ok (s\<lparr>sarg := x\<rparr>) c = chan_ok s c" if "spc s c = Send_Tail_Ack" for s x
  proof -
    have q: "owns (s\<lparr>sarg := x\<rparr>) c = owns s c" "carries (s\<lparr>sarg := x\<rparr>) c = carries s c" "slot_at (s\<lparr>sarg := x\<rparr>) c = slot_at s c"
      "cell (s\<lparr>sarg := x\<rparr>) c = cell s c" "result_ok (s\<lparr>sarg := x\<rparr>) c = result_ok s c" "head_known (s\<lparr>sarg := x\<rparr>) c = head_known s c"
      by (simp_all add: fun_eq_iff owns_def carries_def slot_at_def cell_def result_ok_def head_known_def)
    have "recv_local (s\<lparr>sarg := x\<rparr>) c p = recv_local s c p" "head_slot (s\<lparr>sarg := x\<rparr>) c h = head_slot s c h"
      "head_keeps (s\<lparr>sarg := x\<rparr>) c h j = head_keeps s c h j" for p h j
      by (cases p; simp add: q)+ (cases h; simp add: q)+
    then show ?thesis by (simp add: chan_ok_def counters_ok_def slots_ok_def history_ok_def kept_def that q)
  qed
  ultimately have "chan_ok (s\<lparr>spc := (spc s)(c := Send_Tail_Ack)\<rparr>\<lparr>sarg := (sarg s)(c := a)\<rparr>) c" by simp
  then show ?thesis by simp
qed

lemma recv_call_ok:
  assumes ok: "chan_ok s c" and p: "rpc s c = Recv_Idle r"
  shows "chan_ok (s\<lparr>rpc := (rpc s)(c := Recv_Head_Update), rarg := (rarg s)(c := b)\<rparr>) c"
proof -
  have "chan_ok (s\<lparr>rpc := (rpc s)(c := Recv_Head_Update)\<rparr>) c"
    by (rule recv_moves [OF ok p]) (use chan_ok_facts(8) [OF ok] p in \<open>simp_all add: popping_def freeing_def\<close>)
  moreover have "chan_ok (s\<lparr>rarg := x\<rparr>) c = chan_ok s c" if "rpc s c = Recv_Head_Update" for s x
  proof -
    have q: "owns (s\<lparr>rarg := x\<rparr>) c = owns s c" "carries (s\<lparr>rarg := x\<rparr>) c = carries s c" "slot_at (s\<lparr>rarg := x\<rparr>) c = slot_at s c"
      "cell (s\<lparr>rarg := x\<rparr>) c = cell s c" "tail_known (s\<lparr>rarg := x\<rparr>) c = tail_known s c"
      by (simp_all add: fun_eq_iff owns_def carries_def slot_at_def cell_def tail_known_def)
    have "send_local (s\<lparr>rarg := x\<rparr>) c p = send_local s c p" for p by (cases p; simp add: q)
    then show ?thesis by (simp add: chan_ok_def counters_ok_def slots_ok_def history_ok_def kept_def that q)
  qed
  ultimately have "chan_ok (s\<lparr>rpc := (rpc s)(c := Recv_Head_Update)\<rparr>\<lparr>rarg := (rarg s)(c := b)\<rparr>) c" by simp
  then show ?thesis by simp
qed


lemma free_call_ok:
  assumes ok: "chan_ok s c" and p: "rpc s c = Recv_Idle r" and h: "(n, i) \<in> holding s c"
  shows "chan_ok (s\<lparr>rpc := (rpc s)(c := Free_Magic i), holding := (holding s)(c := holding s c - {(n, i)})\<rparr>) c"
proof -
  let ?s = "s\<lparr>rpc := (rpc s)(c := Free_Magic i), holding := (holding s)(c := holding s c - {(n, i)})\<rparr>"
  note f = chan_ok_facts [OF ok]
  have hist: "\<And>m j. (m, j) \<in> holding s c \<Longrightarrow> m < got_n s c \<and> carries s c m (sent s c ! m) j"
    using ok by (auto simp: chan_ok_def history_ok_def)
  then have n: "n < got_n s c" "owns s c n i" using h by (auto simp: carries_def)
  have other: "m = n" if "(m, i) \<in> holding s c" for m
    using hist [OF that] n by (auto simp: carries_def owns_def)
  have q: "owns ?s c = owns s c" "carries ?s c = carries s c" "slot_at ?s c = slot_at s c"
    "cell ?s c = cell s c" "tail_known ?s c = tail_known s c"
    by (simp_all add: fun_eq_iff owns_def carries_def slot_at_def cell_def tail_known_def)
  have "send_local ?s c q = send_local s c q" for q by (cases q; simp add: q p popping_def)
  moreover have "kept ?s c m j" if "kept s c m j" for m j using that by (auto simp: kept_def q p freeing_def)
  moreover have "recv_local ?s c (Free_Magic i)" using n other by (auto simp: q)
  ultimately show ?thesis using ok
    by (auto simp: chan_ok_def counters_ok_def slots_ok_def history_ok_def q p popping_def)
qed

section \<open>Every interleaving\<close>

definition abb_inv :: "abb_sys \<Rightarrow> bool" where
  "abb_inv s \<longleftrightarrow> magic_ok s \<and> (\<forall>c. chan_ok s c)"

lemma cas_state_other [simp]:
  "c' \<noteq> c \<Longrightarrow> queues (snd (cas_state c k old new m)) c' = queues m c'" "pool (snd (cas_state c k old new m)) = pool m"
  by (simp_all add: cas_state_def upd_slot_def upd_abb_queue_def)

lemma upd_other [simp]:
  "c' \<noteq> c \<Longrightarrow> queues (upd_slot c k g m) c' = queues m c'" "pool (upd_slot c k g m) = pool m"
  "c' \<noteq> c \<Longrightarrow> queues (upd_abb_queue c h m) c' = queues m c'" "pool (upd_abb_queue c h m) = pool m"
  "queues (upd_pool i e m) = queues m" "j \<noteq> i \<Longrightarrow> pool (upd_pool i e m) j = pool m j"
  "pool (upd_pool i e m) i = e (pool m i)"
  by (simp_all add: upd_slot_def upd_abb_queue_def upd_pool_def)

lemma send_step_view:
  assumes ok: "chan_ok s c" and mg: "magic_ok s" and c': "c' \<noteq> c"
  shows "same_view c' s (send_step c s)"
proof -
  note l = chan_ok_facts(5) [OF ok]
  show ?thesis
  proof (cases "spc s c")
    case (Send_Alloc k i)
    then show ?thesis using c' mg
      by (cases "magic_num (pool (mem s) i) = 0")
        (auto simp: same_view_def send_step_def alloc_turn_def cas_magic_def note_send_def magic_ok_def upd_pool_def split: if_splits)
  next
    case (Send_Parent k i)
    then show ?thesis using c' l by (auto simp: same_view_def send_step_def note_send_def owns_def upd_pool_def)
  next
    case (Send_Data k i)
    then show ?thesis using c' l by (auto simp: same_view_def send_step_def note_send_def owns_def upd_pool_def)
  next
    case (Send_Size k i)
    then show ?thesis using c' l by (auto simp: same_view_def send_step_def note_send_def owns_def upd_pool_def)
  qed (use c' in \<open>auto simp: same_view_def send_step_def note_send_def cas_state_def Let_def split: queue_status.splits\<close>)
qed

lemma recv_step_view:
  assumes ok: "chan_ok s c" and c': "c' \<noteq> c"
  shows "same_view c' s (recv_step c s)"
proof -
  note l = chan_ok_facts(6) [OF ok]
  show ?thesis
  proof (cases "rpc s c")
    case (Recv_Parent k i)
    then show ?thesis using c' l
      by (auto simp: same_view_def recv_step_def note_recv_def owns_def cell_def carries_def upd_pool_def)
  next
    case (Recv_Free k i r)
    then show ?thesis using c' l
      by (auto simp: same_view_def recv_step_def note_recv_def owns_def cell_def carries_def cas_magic_def upd_pool_def)
  next
    case (Free_Release i old)
    then show ?thesis using c' l
      by (auto simp: same_view_def recv_step_def note_recv_def owns_def cas_magic_def upd_pool_def)
  next
    case (Free_Back d k)
    then show ?thesis using l by simp
  next
    case (Free_Parent i)
    then show ?thesis using l by simp
  qed (use c' in \<open>auto simp: same_view_def recv_step_def note_recv_def cas_state_def no_message_def Let_def split: queue_status.splits\<close>)
qed


end
