(* ===== verification/ABB_Runs.thy ===== *)
theory ABB_Runs
  imports ABB_Receiver
begin

text \<open>
  The invariant in every reachable state of the lock-free transport, what it means for the application, and a run in which sender
  and receiver take turns.
\<close>

lemma send_step_magic:
  assumes mg: "magic_ok s"
  shows "magic_ok (send_step c s)"
proof (cases "spc s c")
  case (Send_Alloc k i)
  then show ?thesis using mg
    by (auto simp: magic_ok_def send_step_def alloc_turn_def cas_magic_def note_send_def upd_pool_def)
qed (use mg in \<open>auto simp: magic_ok_def send_step_def note_send_def cas_state_def upd_pool_def Let_def split: queue_status.splits\<close>)

lemma recv_step_magic:
  assumes ok: "chan_ok s c" and mg: "magic_ok s"
  shows "magic_ok (recv_step c s)"
proof (cases "rpc s c")
  case (Recv_Free k i r)
  then have "owner s i \<noteq> None" using chan_ok_facts(6) [OF ok] by (simp add: cell_def carries_def owns_def)
  then show ?thesis using mg Recv_Free by (auto simp: magic_ok_def recv_step_def note_recv_def cas_magic_def upd_pool_def)
next
  case (Free_Release i old)
  then have "owner s i \<noteq> None" "old = MAGIC_NUM" using chan_ok_facts(6) [OF ok] by (auto simp: owns_def)
  then show ?thesis using mg Free_Release by (auto simp: magic_ok_def recv_step_def note_recv_def cas_magic_def upd_pool_def)
qed (use mg chan_ok_facts(6) [OF ok] in \<open>auto simp: magic_ok_def recv_step_def note_recv_def cas_state_def upd_pool_def no_message_def Let_def
       split: queue_status.splits\<close>)

lemma abb_inv_start:
  assumes "\<And>c. \<exists>ty. queues (mem s) c = empty_queue ty" "\<And>i. magic_num (pool (mem s) i) = 0"
    "\<And>c. spc s c = Send_Idle False" "\<And>c. rpc s c = Recv_Idle No_Message"
    "\<And>c. sent s c = []" "\<And>c. got s c = []" "\<And>c. holding s c = {}" "\<And>i. owner s i = None"
  shows "abb_inv s"
proof -
  have "chan_ok s c" for c
  proof -
    obtain ty where "queues (mem s) c = empty_queue ty" using assms(1) by blast
    then show ?thesis
      by (simp add: chan_ok_def counters_ok_def slots_ok_def history_ok_def assms empty_queue_def slot_at_def pushing_def popping_def)
  qed
  then show ?thesis by (simp add: abb_inv_def magic_ok_def assms)
qed

lemma chan_ok_call_view:
  assumes "same_view c' s s'" "chan_ok s c'" shows "chan_ok s' c'"
  using chan_ok_view assms by blast

lemma abb_inv_step:
  assumes inv: "abb_inv s" and step: "abb_step s s'" and b: "\<And>c. sent_n s c < 2 ^ 31"
  shows "abb_inv s'"
proof -
  have mg: "magic_ok s" and ok: "\<And>c. chan_ok s c" using inv by (simp_all add: abb_inv_def)
  from step show ?thesis
  proof cases
    case (send_call c rc a)
    have "chan_ok s' c'" for c'
    proof (cases "c' = c")
      case False
      then have "same_view c' s s'" by (simp add: same_view_def send_call)
      then show ?thesis using chan_ok_view ok by blast
    qed (use send_call_ok [OF ok send_call(2)] send_call(1) in blast)
    moreover have "magic_ok s'" using mg by (simp add: magic_ok_def send_call)
    ultimately show ?thesis by (simp add: abb_inv_def)
  next
    case (send_goes c)
    have "chan_ok s' c'" for c'
      using send_step_ok [OF ok mg b, of c] chan_ok_view [OF send_step_view [OF ok mg, of c' c] ok] send_goes by (cases "c' = c") simp_all
    then show ?thesis using send_step_magic [OF mg] send_goes by (simp add: abb_inv_def)
  next
    case (recv_call c r bb)
    have "chan_ok s' c'" for c'
    proof (cases "c' = c")
      case False
      then have "same_view c' s s'" by (simp add: same_view_def recv_call)
      then show ?thesis using chan_ok_view ok by blast
    qed (use recv_call_ok [OF ok recv_call(2)] recv_call(1) in blast)
    moreover have "magic_ok s'" using mg by (simp add: magic_ok_def recv_call)
    ultimately show ?thesis by (simp add: abb_inv_def)
  next
    case (free_call c r n i)
    have "chan_ok s' c'" for c'
    proof (cases "c' = c")
      case False
      then have "same_view c' s s'" by (simp add: same_view_def free_call)
      then show ?thesis using chan_ok_view ok by blast
    qed (use free_call_ok [OF ok free_call(2,3)] free_call(1) in blast)
    moreover have "magic_ok s'" using mg by (simp add: magic_ok_def free_call)
    ultimately show ?thesis by (simp add: abb_inv_def)
  next
    case (recv_goes c)
    have "chan_ok s' c'" for c'
      using recv_step_ok [OF ok mg b, of c] chan_ok_view [OF recv_step_view [OF ok, of c' c] ok] recv_goes by (cases "c' = c") simp_all
    then show ?thesis using recv_step_magic [OF ok mg] recv_goes by (simp add: abb_inv_def)
  qed
qed

lemma note_send_sent: "sent_n s c \<le> sent_n (note_send d p p' s) c"
  by (auto simp: note_send_def split: send_pc.splits bool.splits)

lemma note_recv_sent: "sent (note_recv d p p' s) = sent s"
  by (auto simp: note_recv_def split: recv_pc.splits bool.splits app_result.splits)

lemma abb_step_sent: "abb_step s s' \<Longrightarrow> sent_n s c \<le> sent_n s' c"
proof (induction rule: abb_step.induct)
  case (send_goes s d)
  then show ?case using note_send_sent [where s = s and c = c and d = d] by (simp add: send_step_def split: prod.split)
next
  case (recv_goes s d)
  then show ?case by (simp add: recv_step_def note_recv_sent split: prod.split)
qed simp_all

lemma abb_reach_inv: "abb_reach s \<Longrightarrow> (\<And>c. sent_n s c < 2 ^ 31) \<Longrightarrow> abb_inv s"
proof (induction rule: abb_reach.induct)
  case (abb_start s)
  then show ?case by (intro abb_inv_start)
next
  case (abb_more s s')
  then have "sent_n s c < 2 ^ 31" for c using abb_step_sent [OF abb_more(2), of c] le_less_trans by blast
  then show ?case using abb_more abb_inv_step by blast
qed

section \<open>What the application sees\<close>

lemma list_all2_take:
  assumes "length ys \<le> length xs" "\<And>n. n < length ys \<Longrightarrow> P (xs ! n) (ys ! n)"
  shows "list_all2 P (take (length ys) xs) ys"
  using assms by (simp add: list_all2_conv_all_nth)

text \<open>
  A buffer is in one place only, and no buffer is lost: two entries or packets that name the same buffer are the same
  message of the same endpoint, and when nobody sends or receives, everything has been received and the packets have been given
  back, the pool is free.
\<close>

lemma lock_free_buffers:
  assumes "abb_reach s" "\<And>c. sent_n s c < 2 ^ 31"
  defines "names \<equiv> \<lambda>c n i. (n, i) \<in> holding s c \<or>
    got_n s c < n \<and> n < sent_n s c \<and> d_index (slot_at s c n) = encode_buff_index i \<and> i < MCAPI_MAX_BUFFERS"
  shows "(names c n i \<longrightarrow> names d m i \<longrightarrow> c = d \<and> n = m) \<and>
    ((\<forall>c. (\<exists>rc. spc s c = Send_Idle rc) \<and> (\<exists>r. rpc s c = Recv_Idle r) \<and> got_n s c = sent_n s c \<and> holding s c = {}) \<longrightarrow>
       (\<forall>i. magic_num (pool (mem s) i) = 0))"
proof (intro conjI impI allI)
  have inv: "magic_ok s" "\<And>c. chan_ok s c" using abb_reach_inv [OF assms(1,2)] by (simp_all add: abb_inv_def)
  have owner: "owner s i = Some (c, n)" if "names c n i" for c n
  proof -
    have h: "(n, i) \<in> holding s c \<Longrightarrow> owner s i = Some (c, n)"
      using inv(2) [of c] by (auto simp: chan_ok_def history_ok_def carries_def owns_def)
    have "owner s i = Some (c, n)"
      if w: "got_n s c < n" "n < sent_n s c" "d_index (slot_at s c n) = encode_buff_index i" "i < MCAPI_MAX_BUFFERS"
    proof -
      obtain j where j: "cell s c n j" using w inv(2) [of c] by (auto simp: chan_ok_def slots_ok_def)
      then have "j = i" using w cell_bound [OF j] by (simp add: cell_def encode_buff_index_inj)
      then show ?thesis using j by (simp add: cell_def carries_def owns_def)
    qed
    then show ?thesis using h that unfolding names_def by blast
  qed
  assume "names c n i" "names d m i"
  then have "owner s i = Some (c, n)" "owner s i = Some (d, m)" using owner by blast+
  then show "c = d" and "n = m" by simp_all
next
  fix i
  assume idle: "\<forall>c. (\<exists>rc. spc s c = Send_Idle rc) \<and> (\<exists>r. rpc s c = Recv_Idle r) \<and> got_n s c = sent_n s c \<and> holding s c = {}"
  have inv: "magic_ok s" "\<And>c. chan_ok s c" using abb_reach_inv [OF assms(1,2)] by (simp_all add: abb_inv_def)
  have "owner s i \<noteq> Some (c, n)" for c n
  proof
    assume "owner s i = Some (c, n)"
    then have "kept s c n i" using inv(2) [of c] by (auto simp: chan_ok_def history_ok_def)
    moreover obtain rc r where "spc s c = Send_Idle rc" "rpc s c = Recv_Idle r" "got_n s c = sent_n s c" "holding s c = {}"
      using idle by blast
    ultimately show False by (auto simp: kept_def freeing_def)
  qed
  then show "magic_num (pool (mem s) i) = 0" using inv(1) by (cases "owner s i") (auto simp: magic_ok_def)
qed

section \<open>A run\<close>

definition abb_init :: "(nat \<Rightarrow> channel_type) \<Rightarrow> abb_sys" where
  "abb_init ty = \<lparr>mem = \<lparr>queues = (\<lambda>c. empty_queue (ty c)),
       pool = (\<lambda>i. \<lparr>magic_num = 0, bsize = 0, scalar = 0, buff = (\<lambda>k. 0), parent = None\<rparr>)\<rparr>,
     spc = (\<lambda>c. Send_Idle False), sarg = (\<lambda>c. \<lparr>a_buffer = (\<lambda>k. 0), a_size = 0, a_scalar = 0\<rparr>),
     rpc = (\<lambda>c. Recv_Idle No_Message), rarg = (\<lambda>c. \<lparr>b_size = 0, b_blocking = False\<rparr>),
     sent = (\<lambda>c. []), got = (\<lambda>c. []), holding = (\<lambda>c. {}), owner = (\<lambda>i. None)\<rparr>"

datatype abb_turn = Call_Send nat send_args | Go_Send nat | Call_Recv nat recv_args | Call_Free nat nat nat | Go_Recv nat

primrec abb_play :: "abb_turn \<Rightarrow> abb_sys \<Rightarrow> abb_sys" where
  "abb_play (Call_Send c a) s = (case spc s c of
     Send_Idle _ \<Rightarrow> if a_size a \<le> MCAPI_BUFF_SIZE then s\<lparr>spc := (spc s)(c := Send_Tail_Ack), sarg := (sarg s)(c := a)\<rparr> else s | _ \<Rightarrow> s)"
| "abb_play (Go_Send c) s = send_step c s"
| "abb_play (Call_Recv c b) s = (case rpc s c of
     Recv_Idle _ \<Rightarrow> s\<lparr>rpc := (rpc s)(c := Recv_Head_Update), rarg := (rarg s)(c := b)\<rparr> | _ \<Rightarrow> s)"
| "abb_play (Call_Free c n i) s = (case rpc s c of
     Recv_Idle _ \<Rightarrow> if (n, i) \<in> holding s c
       then s\<lparr>rpc := (rpc s)(c := Free_Magic i), holding := (holding s)(c := holding s c - {(n, i)})\<rparr> else s | _ \<Rightarrow> s)"
| "abb_play (Go_Recv c) s = recv_step c s"

lemma abb_play_reach: "abb_reach s \<Longrightarrow> abb_reach (abb_play t s)"
  by (cases t) (auto intro: abb_more abb_step.intros split: send_pc.split recv_pc.split)

lemma abb_plays_reach: "abb_reach s \<Longrightarrow> abb_reach (fold abb_play ts s)"
  by (induction ts arbitrary: s) (auto intro: abb_play_reach)

lemma abb_init_reach: "abb_reach (abb_init ty)"
  by (rule abb_start) (auto simp: abb_init_def)

lemma abb_play_sent: "length (sent (abb_play t s) c) \<le> length (sent s c) + 1"
  by (cases t) (auto simp: send_step_def recv_step_def note_send_def note_recv_sent split: prod.split send_pc.split recv_pc.split bool.split)

lemma abb_plays_sent: "length (sent (fold abb_play ts s) c) \<le> length (sent s c) + length ts"
proof (induction ts arbitrary: s)
  case (Cons t ts)
  have "length (sent (fold abb_play ts (abb_play t s)) c) \<le> length (sent (abb_play t s) c) + length ts" by (rule Cons)
  then show ?case using abb_play_sent [of t s c] by simp
qed simp

text \<open>Two packets through one endpoint, sender and receiver in turns; the receiver waits while the sender fills the entry.\<close>

primrec in_turns :: "nat \<Rightarrow> abb_turn list" where
  "in_turns 0 = []"
| "in_turns (Suc n) = Go_Send 0 # Go_Recv 0 # in_turns n"

lemma in_turns_numeral: "in_turns (numeral k) = Go_Send 0 # Go_Recv 0 # in_turns (pred_numeral k)"
  by (simp add: numeral_eq_Suc)

lemma length_in_turns [simp]: "length (in_turns n) = 2 * n"
  by (induction n) simp_all

definition packet_args :: "nat \<Rightarrow> send_args" where
  "packet_args n = \<lparr>a_buffer = (\<lambda>k. of_nat (n + k)), a_size = n, a_scalar = 0\<rparr>"

definition wait_args :: recv_args where
  "wait_args = \<lparr>b_size = 1024, b_blocking = True\<rparr>"

definition two_packets :: "abb_turn list" where
  "two_packets = Call_Send 0 (packet_args 3) # Call_Recv 0 wait_args # in_turns 34 @
     Call_Send 0 (packet_args 5) # Call_Recv 0 wait_args # in_turns 34"

lemmas abb_run = abb_init_def send_step_def note_send_def empty_queue_def tail_status_def counter_slot_def mcapi_limits
  MCAPI_BUFF_SIZE_def MCAPI_MAX_PKT_SIZE_def MCAPI_MAX_MSG_SIZE_def recv_step_def note_recv_def head_status_def cas_state_def
  cas_magic_def alloc_turn_def upd_slot_def upd_abb_queue_def upd_pool_def copy_out_def encode_buff_index_def
  decode_buff_index_def MAGIC_NUM_def MCAPI_VALID_MASK_def no_message_def

lemma two_packets_run:
  "got (fold abb_play two_packets (abb_init (\<lambda>c. MCAPI_PKT_CHAN))) 0 = [(wait_args, Packet 3 0), (wait_args, Packet 5 1)] \<and>
   holding (fold abb_play two_packets (abb_init (\<lambda>c. MCAPI_PKT_CHAN))) 0 = {(1, 1), (0, 0)}"
  by (simp add: two_packets_def in_turns_numeral abb_run packet_args_def wait_args_def)

section \<open>The contract\<close>

text \<open>
  C40: the lock-free transport: any number of endpoints, each with one thread that sends to it and one that receives from it,
  share the pool of buffers, and a step is one access of one thread to the shared memory. Whatever the interleaving of sends
  (payloads of at most \<open>MCAPI_BUFF_SIZE\<close> bytes), receives (blocking or not) and releases of packets that the application holds,
  no assertion of the calls fails; what an endpoint has received is what was sent to it first, in the order of sending and
  with its size and its scalar, or its bytes as far as the receiver's buffer goes; at most 65 completed sends have not been
  received; and a packet that the application holds keeps the size and the bytes of its message. This holds as long as fewer
  than $2^{31}$ messages have been sent to each endpoint, because the counters are 32 bits wide and 65 is not a power of two.
\<close>

theorem lock_free_fifo:
  assumes "abb_reach s" "\<And>c. length (sent s c) < 2 ^ 31"
  shows "spc s c \<noteq> Send_Abort \<and> rpc s c \<noteq> Recv_Abort \<and>
    list_all2 (\<lambda>a (b, r). received_as (q_type (queues (mem s) c)) a b r) (take (length (got s c)) (sent s c)) (got s c) \<and>
    length (got s c) \<le> length (sent s c) \<and> length (sent s c) - length (got s c) \<le> 65 \<and>
    (\<forall>(n, i) \<in> holding s c. n < length (got s c) \<and> filled (q_type (queues (mem s) c)) (sent s c ! n) (pool (mem s) i) \<and>
       bsize (pool (mem s) i) = a_size (sent s c ! n))"
proof (intro conjI)
  have ok: "chan_ok s c" using abb_reach_inv [OF assms] by (simp add: abb_inv_def)
  note n = chan_ok_facts(1,2) [OF ok]
  show "spc s c \<noteq> Send_Abort" "rpc s c \<noteq> Recv_Abort"
    using chan_ok_facts(5,6) [OF ok] by (metis send_local.simps(19), metis recv_local.simps(25))
  show "list_all2 (\<lambda>a (b, r). received_as (q_type (queues (mem s) c)) a b r) (take (length (got s c)) (sent s c)) (got s c)"
    using ok n by (intro list_all2_take) (auto simp: chan_ok_def history_ok_def split: prod.split)
  show "\<forall>(n, i) \<in> holding s c. n < length (got s c) \<and> filled (q_type (queues (mem s) c)) (sent s c ! n) (pool (mem s) i) \<and>
      bsize (pool (mem s) i) = a_size (sent s c ! n)"
    using ok by (auto simp: chan_ok_def history_ok_def carries_def)
  show "length (got s c) \<le> length (sent s c)" "length (sent s c) - length (got s c) \<le> 65"
    using n by (simp_all add: mcapi_limits)
qed


theorem lock_free_fifo_witness:
  "let s = fold abb_play two_packets (abb_init (\<lambda>c. MCAPI_PKT_CHAN))
   in got s 0 = [(wait_args, Packet 3 0), (wait_args, Packet 5 1)] \<and> spc s 0 \<noteq> Send_Abort \<and> rpc s 0 \<noteq> Recv_Abort \<and>
     list_all2 (\<lambda>a (b, r). received_as (q_type (queues (mem s) 0)) a b r) (take 2 (sent s 0)) (got s 0) \<and>
     length (sent s 0) - 2 \<le> 65 \<and> bsize (pool (mem s) 1) = a_size (sent s 0 ! 1) \<and>
     filled (q_type (queues (mem s) 0)) (sent s 0 ! 1) (pool (mem s) 1)"
proof -
  let ?s = "fold abb_play two_packets (abb_init (\<lambda>c. MCAPI_PKT_CHAN))"
  have r: "abb_reach ?s" by (rule abb_plays_reach [OF abb_init_reach])
  have b: "length (sent ?s c) < 2 ^ 31" for c
    using abb_plays_sent [of two_packets "abb_init (\<lambda>c. MCAPI_PKT_CHAN)" c] by (simp add: two_packets_def abb_init_def)
  show ?thesis using lock_free_fifo [OF r b, of 0] two_packets_run by (simp add: Let_def numeral_2_eq_2)
qed

end
