(* ===== verification/Spec2Isabelle.thy ===== *)
theory Spec2Isabelle
  imports MCAPI_Endpoints MRAPI_Counting MRAPI_Nesting MRAPI_Sharing MRAPI_Starting MRAPI_Requests MRAPI_Exchange MCA_Crc ABB_Runs
begin

text \<open>
  \<^bold>\<open>Verification of the MCAPI and MRAPI reference implementations in MxAPI.\<close>

  \<^bold>\<open>The program.\<close> MCAPI is a message passing library for closely coupled cores. Nodes of
  several processes share one database in shared memory, protected by one global lock. A node
  owns endpoints; each endpoint has a ring of received messages. Messages are sent without a
  connection between endpoints, or over packet and scalar channels between two connected
  endpoints. Every non-blocking call takes an entry from a pool of requests, which \<open>mcapi_test\<close>,
  \<open>mcapi_wait\<close>, \<open>mcapi_wait_any\<close> and \<open>mcapi_cancel\<close> refer to by a handle. MRAPI is the resource layer
  below it: semaphores, mutexes, reader/writer locks, shared and remote memory, in a database of its
  own; the lock of the MCAPI database is a reader/writer lock of MRAPI. The sources modelled are below
  \<open>src/mca-2.0.3\<close>: in \<open>mcapi\<close> the application interface \<open>src/mcapi.c\<close>, the transport
  \<open>src/mcapi_trans/mcapi_trans_sm/transport_sm.c\<close> with its header files, its \<open>Fragments\<close> and the
  wrapper of the resource layer \<open>mrapi/Fragments/transport_sm_mrapi_body.c\<close>; in \<open>mrapi\<close> the interface
  \<open>src/Fragments/mrapi_*.c\<close> and the implementation \<open>src/mrapi_impl/Fragments/mrapi_impl_spec_*.c\<close>,
  the atomic operations of \<open>src/mrapi_impl/sysvr4/Fragments/sysvr4_atomic.c\<close>, and the checksum of
  \<open>common/Fragments/mca_utils_impl.c\<close>.
  File names below are relative to these directories.

  \<^bold>\<open>The model of MCAPI, bottom up.\<close>

  \<^item> \<open>MCAPI_Prelude\<close>: assertions as the option monad, the C search loop \<open>for_first\<close>, \<open>memcpy\<close>,
    arithmetic of ring indices, counters at the width of 32 bits.
  \<^item> \<open>MCAPI_Types\<close> (\<open>transport_sm.h\<close>, \<open>mcapi_impl_spec.h\<close>, \<open>mcapi.h\<close>): the structs as records, the
    enumerations as datatypes, the database \<open>mcapi_database\<close>, the application's memory, and updates
    along a path of domain, node and endpoint index.
  \<^item> \<open>MCAPI_Handle\<close>: endpoint and request handles as 32-bit words.
  \<^item> \<open>MCAPI_Queue\<close>, \<open>MCAPI_Reservation\<close> (\<open>transport_sm_queue.c\<close>): the ring with head, tail,
    holes, reservations and compaction.
  \<^item> \<open>MCAPI_Request_List\<close>, \<open>MCAPI_Requests\<close>, \<open>MCAPI_Cancel\<close> (\<open>transport_sm_request.c\<close>): the doubly
    linked free and used lists over indices, and the life of a request.
  \<^item> \<open>MCAPI_Channel\<close> (\<open>transport_sm.c\<close>): sending, receiving, connecting, opening, closing with the
    lock held.
  \<^item> \<open>MCAPI_Transport\<close>, \<open>MCAPI_Operations\<close>, \<open>MCAPI_Lifecycle\<close> (\<open>check\<close>, \<open>endpoint\<close>, \<open>msg\<close>, \<open>pktchan\<close>,
    \<open>sclchan\<close>, \<open>wait\<close>, \<open>initialize\<close>, \<open>finalize\<close>, \<open>signal\<close>, \<open>attributes\<close> and the wrapper): the
    operations of one node, each between taking and giving back the lock.
  \<^item> \<open>MCAPI_API\<close> (\<open>mcapi.c\<close>): the argument checks in their order, then the transport.

  \<^bold>\<open>The model of MRAPI, bottom up.\<close>

  \<^item> \<open>MRAPI_Types\<close> (\<open>mrapi.h\<close>, \<open>mrapi_impl_spec_data.h\<close>): statuses and their names, the structs as records,
    the database.
  \<^item> \<open>MRAPI_Database\<close> (\<open>mrapi_impl_spec_body1.c\<close>): the state \<open>mrapi_sys\<close> of a process and thread, the
    critical sections, handles, the identity of the caller, requests.
  \<^item> \<open>MRAPI_Locks\<close> (\<open>sem\<close>, \<open>mutex\<close>, \<open>rwl\<close>), \<open>MRAPI_API\<close> (\<open>mrapi_sem.c\<close>, \<open>mrapi_mutex.c\<close>, \<open>mrapi_rwl.c\<close>): the
    three kinds of locks over one table of entries with up to 32 slots, and the lock and unlock calls of
    the MCAPI transport on top of them.
  \<^item> \<open>MRAPI_Rmem\<close> (\<open>rmem\<close>, \<open>mrapi_rmem.c\<close>): remote memory on a memory of bytes, a partial map from
    addresses, where an access to an address that is not mapped is undefined.
  \<^item> \<open>MRAPI_Shmem\<close> (\<open>shmem\<close>, \<open>mrapi_shmem.c\<close>): shared memory; the answers of the operating system are
    the parameter \<open>shmem_calls\<close>.
  \<^item> \<open>MRAPI_Nodes\<close> (\<open>initialize\<close>, \<open>finalize\<close>, \<open>mrapi_initialize.c\<close>): start and stop of nodes; whether the
    operating system gives the database and the semaphore is the parameter \<open>boot_calls\<close>.
  \<^item> \<open>MRAPI_Requests\<close> (\<open>mrapi_vtime.c\<close>): test, wait, wait for any and cancel for the requests of non-blocking
    accesses to remote memory.
  \<^item> \<open>MRAPI_Atomic\<close> (\<open>sysvr4_atomic.c\<close>, \<open>mrapi_impl_spec_atomic.c\<close>, \<open>mrapi_atomic.c\<close>): atomic operations on words
    in shared memory and the barriers between two processes around them, access by access; what the
    other processes do before the access at time \<open>t\<close> is an arbitrary function \<open>env t\<close> of the memory. The only
    auxiliary variable, \<open>msg_writer\<close>, notes who made a counter odd and is never read.
  \<^item> \<open>MCA_Crc\<close> (\<open>mca_utils_impl.c\<close>, and the derivation of the keys in \<open>initialize\<close>): the table-driven
    checksum, with \<open>unsigned long\<close> as 64 bits, and the keys of the shared segments and semaphores.
  \<^item> \<open>ABB_Queue\<close> (\<open>mcapi\<close>: \<open>transport_sm_abb.c\<close>, \<open>Fragments/transport_sm_queue_abb.c\<close>): the lock-free transport, the
    alternative to the global lock: the queue of an endpoint with its two counters, the pool of buffers, and send, receive
    and release as program counters that make one access to the shared memory per turn.

  \<^bold>\<open>Conventions.\<close> The record \<open>mcapi_state\<close> is the database together with the memory the
  application hands to the library; \<open>mcapi_sys\<close> adds what one process and thread has: whether the
  database is attached, whether the lock exists, how often it is held, the two counters that guard
  start and stop, and the identity of the node. \<open>mrapi_sys\<close> is the same for MRAPI, with the list of the
  critical sections that the thread holds. A function that can fail an assertion, run into
  undefined behaviour of C, or not return is a function to \<open>option\<close> with the value \<open>None\<close> for that; so
  theorems that a call returns have the form \<open>f sys = Some \<dots>\<close>. Errors are values of \<open>mcapi_status\<close> and
  \<open>mrapi_status\<close>. A blocking loop takes a list of functions on the database, one for each time it gives
  way to the other nodes; when the list is used up and the loop has not ended, the value is \<open>None\<close>. The
  theorems hold for every such list, so that its length is no bound, and a theorem that a loop ends
  says after which steps. An operation of another node falls between two calls or into such a
  step. Sizes of arrays are the constants of the default configuration; counters have the width they
  have in C where they can wrap; the counts and limits of locks, which stay between 0 and 32, are integers.
  \<open>mcapi_wait_any\<close> takes a list of handles, as if the pointers in its array were all different.

  \<^bold>\<open>What is proved of MCAPI.\<close>

  \<^item> \<open>MCAPI_Fifo\<close> has the abstract specification of a bounded first-in first-out channel, the locale
    \<open>fifo_channel\<close>. It is interpreted three times: for the ring (\<open>MCAPI_Queue\<close>), for the messages of
    an endpoint (\<open>MCAPI_Channel\<close>) and for a connected scalar channel through the calls of the
    interface (\<open>MCAPI_Streams\<close>). \<open>MCAPI_Reservation\<close> proves more of the ring: with reservations, holes and
    refusals it is exactly the queue of 64 cells of the specification \<open>spec_step\<close>. The locale \<open>codec\<close> (\<open>MCAPI_Handle\<close>) is interpreted for the three kinds of
    packed words, \<open>index_pool\<close> (\<open>MCAPI_Request_List\<close>) for the request lists.
  \<^item> \<open>MCAPI_Invariant\<close>, \<open>MCAPI_Safety\<close>, \<open>MCAPI_System\<close>: the invariant of the whole database, that every
    transport operation keeps it (the interpretation of the locale \<open>transport_contract\<close>), that hence every
    call of the interface does, and that it holds in every reachable state, where calls, starts
    and stops of nodes, signals and writes of the applications are interleaved in any order. Two things
    are asked of the environment (\<open>move_ok\<close>): the applications release only packet buffers that are in no
    queue, and a node that joins finds the shared memory of the database.
  \<^item> \<open>MCAPI_Frames\<close>: the locales \<open>frame_contract\<close> and \<open>run_contract\<close> for invariants that do not look
    into rings and requests; a \<open>sublocale\<close> gives \<open>transport_contract\<close>. Interpreted for the marks of the
    transport buffers (\<open>MCAPI_Buffers\<close>) and for the identities of the nodes (\<open>MCAPI_Nodes\<close>).
  \<^item> \<open>MCAPI_Messages\<close>: what send, receive, test and wait do with messages, through the interface.
  \<^item> \<open>MCAPI_Limits\<close>: full endpoints, exhausted pools, time limits, cancellation, wrong arguments.
  \<^item> \<open>MCAPI_Streams\<close>: scalar and packet channels, connecting and opening.
  \<^item> \<open>MCAPI_Nodes\<close>, \<open>MCAPI_Endpoints\<close>: starting and stopping nodes, creating, finding and deleting
    endpoints.

  \<^bold>\<open>What is proved of MRAPI.\<close>

  \<^item> \<open>MRAPI_Slots\<close> states what a counting lock promises, the locale \<open>counting_lock\<close>, and interprets it for
    the slot array of a lock entry; \<open>MRAPI_Exclusion\<close> shows that the code's calls are its operations, that
    every table that calls which do not wait can reach is well formed, and that a node that holds a whole entry
    excludes the others.
  \<^item> \<open>MRAPI_Waiting\<close>: a blocking call gets locks that become free, a call with a time limit returns, with the
    locks or with nothing changed, and no call of the others, waiting or not, gets past a writer or the
    holder of a mutex; the turns between two attempts are lock calls that do not wait.
  \<^item> \<open>MRAPI_Counting\<close>: semaphores refine the specification \<open>counting_spec\<close>; the lock of the MCAPI database,
    as the transport calls it, is an exclusive lock, which is what \<open>mcapi_sys\<close> takes it for.
  \<^item> \<open>MRAPI_Nesting\<close>: recursive mutexes. \<open>MRAPI_Copy\<close>: remote memory against the reference definition of a
    strided copy. \<open>MRAPI_Sharing\<close>: the counts of shared memory. \<open>MRAPI_Starting\<close>: identities of nodes.
  \<^item> \<open>MRAPI_Requests\<close>: a non-blocking read and a wait are a blocking read; when a wait for any ends.
  \<^item> \<open>MRAPI_Barrier\<close>: with every process following the protocol of an element's counter (\<open>barrier_step\<close>), an
    operation under a write barrier is one uninterrupted change, a read sees no write half done, and a
    write gets through once the others give the element back. \<open>MRAPI_Exchange\<close>: the operations without
    a barrier, sums of concurrent additions, exchanges between a writer and a reader, and the runs in
    which timeouts and held barriers go wrong.
  \<^item> \<open>MCA_Crc\<close>: the checksum is that of the bitwise shift register, it detects bursts of up to four bytes,
    and the five keys of a user are pairwise different.
  \<^item> \<open>ABB_Fifo\<close> has the system of the lock-free transport, the step relation \<open>abb_step\<close>, and its invariant;
    \<open>ABB_Sender\<close> and \<open>ABB_Receiver\<close> show that every turn keeps it, \<open>ABB_Runs\<close> that hence every interleaving of one sender and
    one receiver per endpoint delivers what was sent, in order, and fails no assertion.

  Several theorems state behaviour that the code has but does not mean to have; they are named in
  the findings of the manifest.

  \<^bold>\<open>Not modelled.\<close> Debug output (\<open>mcapi_trans_display_state\<close>, \<open>print_queue\<close>, \<open>mcapi_dprintf\<close>); the
  registration of signal handlers, the derivation of shared memory keys from the user name and the
  re-raising of signals, which are calls of the operating system. The start and stop of MCAPI nodes sees
  the resource layer through the status codes of its calls, the record \<open>mrapi_calls\<close>, about which
  nothing is assumed in the definitions. Of MRAPI the metadata tree of the machine's resources (\<open>mrapi_impl_spec_resources.c\<close>), the forwarding of
  operations to other processes by signals (\<open>mrapi_impl_atomic_forward\<close>) and the wrappers of the operating
  system below \<open>sysvr4\<close> are left out; of the atomic operations the branches for Windows. The memory of
  \<open>MRAPI_Atomic\<close> is sequentially consistent, so that its memory barriers change nothing. Left out are
  also the task layer MTAPI, the rest of the lock-free variants (the interface \<open>mcapi_abb.c\<close>, requests, endpoints and state messages of
  \<open>transport_sm_abb.c\<close>, and \<open>transport_sm_abl.c\<close>), the
  benchmarks and the vendored XML library.
\<close>

end
